(* ===== verification/Domain_Types.thy ===== *)
theory Domain_Types
  imports FHD_Prelude
begin

text \<open>
  The value types of the domain crate (\<open>crates/domain/src/lib.rs\<close>): the error enumeration,
  the non-zero identifiers, the generation counter, half-open byte ranges and the immutable
  specification of a job. The fields of a Rust value are private and every value goes through
  its constructor, so each type comes with the predicate its constructor establishes.
\<close>

datatype DomainError =
    InvalidInput
  | Overflow
  | Capacity
  | UnknownSegment
  | InvalidTransition
  | StaleToken
  | CheckpointPending
  | Incomplete
  | StaleEvent
  | PublishInProgress

type_synonym JobId = u64
type_synonym Generation = u64
type_synonym SourceRef = u64
type_synonym DestinationRef = u64

definition identifier_new :: "u64 \<Rightarrow> (DomainError, u64) result" where
  "identifier_new value = (if value = 0 then Inl InvalidInput else Inr value)"

definition identifier_ok :: "u64 \<Rightarrow> bool" where
  "identifier_ok i \<longleftrightarrow> 0 < i \<and> i \<le> U64_MAX"

definition generation_initial :: Generation where
  "generation_initial = 1"

definition generation_next :: "Generation \<Rightarrow> (DomainError, Generation) result" where
  "generation_next g = ok_or (checked_add g 1) Overflow"

lemma identifier_new_ok: "v \<le> U64_MAX \<Longrightarrow> identifier_new v = Inr i \<Longrightarrow> identifier_ok i"
  by (auto simp: identifier_new_def identifier_ok_def split: if_splits)

lemma identifier_ok_initial [simp]: "identifier_ok generation_initial"
  by (simp add: identifier_ok_def generation_initial_def)

lemma generation_next_eq_Inr [simp]:
  "generation_next g = Inr g' \<longleftrightarrow> g' = Suc g \<and> Suc g \<le> U64_MAX"
  by (auto simp: generation_next_def res_simps)

section \<open>Byte ranges\<close>

record byte_range =
  br_start :: u64
  br_end :: u64

definition byte_range_new :: "u64 \<Rightarrow> u64 \<Rightarrow> (DomainError, byte_range) result" where
  "byte_range_new start end' =
     (if end' \<le> start \<or> I64_MAX < end' then Inl InvalidInput
      else Inr \<lparr>br_start = start, br_end = end'\<rparr>)"

definition br_len :: "byte_range \<Rightarrow> u64" where
  "br_len r = br_end r - br_start r"

definition br_contains :: "byte_range \<Rightarrow> byte_range \<Rightarrow> bool" where
  "br_contains r other \<longleftrightarrow> br_start r \<le> br_start other \<and> br_end other \<le> br_end r"

definition br_split :: "byte_range \<Rightarrow> u64 \<Rightarrow> (DomainError, byte_range \<times> byte_range) result" where
  "br_split r at =
     res_bind (byte_range_new (br_start r) at)
       (\<lambda>left. res_bind (byte_range_new at (br_end r)) (\<lambda>right. Inr (left, right)))"

definition range_ok :: "byte_range \<Rightarrow> bool" where
  "range_ok r \<longleftrightarrow> br_start r < br_end r \<and> br_end r \<le> I64_MAX"

text \<open>The offsets a range stands for.\<close>

definition bytes_of :: "byte_range \<Rightarrow> nat set" where
  "bytes_of r = {br_start r..<br_end r}"

lemma byte_range_new_eq_Inr:
  "byte_range_new s e = Inr r \<longleftrightarrow> r = \<lparr>br_start = s, br_end = e\<rparr> \<and> s < e \<and> e \<le> I64_MAX"
  by (auto simp: byte_range_new_def)

lemma byte_range_new_ok: "byte_range_new s e = Inr r \<Longrightarrow> range_ok r"
  by (auto simp: byte_range_new_eq_Inr range_ok_def)

lemma br_split_eq_Inr:
  "br_split r at = Inr (l, q) \<longleftrightarrow>
     l = \<lparr>br_start = br_start r, br_end = at\<rparr> \<and> q = \<lparr>br_start = at, br_end = br_end r\<rparr> \<and>
     br_start r < at \<and> at < br_end r \<and> br_end r \<le> I64_MAX"
  by (auto simp: br_split_def res_simps byte_range_new_eq_Inr)

lemma br_split_partition:
  assumes "br_split r at = Inr (l, q)"
  shows "bytes_of l \<union> bytes_of q = bytes_of r" "bytes_of l \<inter> bytes_of q = {}"
    "br_len l + br_len q = br_len r" "range_ok l" "range_ok q"
  using assms by (auto simp: br_split_eq_Inr bytes_of_def br_len_def range_ok_def)

lemma card_bytes_of [simp]: "card (bytes_of r) = br_len r"
  by (simp add: bytes_of_def br_len_def)

lemma br_contains_bytes: "br_contains r q \<Longrightarrow> bytes_of q \<subseteq> bytes_of r"
  by (auto simp: br_contains_def bytes_of_def)

section \<open>Job specifications\<close>

datatype Priority = Low | Normal | High

record job_spec =
  js_source :: SourceRef
  js_destination :: DestinationRef
  js_expected_sha256 :: "digest option"
  js_priority :: Priority
  js_max_bytes :: u64

definition job_spec_new ::
  "SourceRef \<Rightarrow> DestinationRef \<Rightarrow> digest option \<Rightarrow> Priority \<Rightarrow> u64 \<Rightarrow> (DomainError, job_spec) result"
where
  "job_spec_new source destination expected_sha256 priority max_bytes =
     (if max_bytes = 0 \<or> I64_MAX < max_bytes then Inl InvalidInput
      else Inr \<lparr>js_source = source, js_destination = destination,
                js_expected_sha256 = expected_sha256, js_priority = priority,
                js_max_bytes = max_bytes\<rparr>)"

definition spec_ok :: "job_spec \<Rightarrow> bool" where
  "spec_ok s \<longleftrightarrow> 0 < js_max_bytes s \<and> js_max_bytes s \<le> I64_MAX"

lemma job_spec_new_ok: "job_spec_new a b c d e = Inr s \<Longrightarrow> spec_ok s"
  by (auto simp: job_spec_new_def spec_ok_def split: if_splits)

end
