(* ===== verification/Segments.thy ===== *)
theory Segments
  imports Domain_Types
begin

text \<open>
  The segment map of one job (\<open>crates/domain/src/segments.rs\<close>): a partition of the byte
  range of the representation into segments, each pending, leased to a worker, written or
  durable, together with the two-phase checkpoint that turns written bytes into durable ones.

  Every mutating method returns its error before it changes the receiver, so a method is a
  function from the old map to an error or to the new map with the returned value, and a
  caller that gets an error still holds the old map. The invariant \<open>sm_inv\<close> says that the
  segments partition the representation, that the counters are ahead of everything they
  issued, and that a pending checkpoint names segments that are still written.
\<close>

section \<open>State\<close>

type_synonym SegmentId = u64

datatype SegmentState =
    Pending
  | InFlight (sst_worker: u64) (sst_attempt: u64)
  | Written u64
  | Durable

record segment =
  sg_id :: SegmentId
  sg_range :: byte_range
  sg_state :: SegmentState

record lease =
  ls_job :: JobId
  ls_generation :: Generation
  ls_id :: SegmentId
  ls_attempt :: u64
  ls_worker :: u64
  ls_range :: byte_range

type_synonym selection = "(SegmentId \<times> byte_range \<times> u64) list"

record checkpoint =
  cp_sequence :: u64
  cp_ids :: "SegmentId list"
  cp_selection :: selection
  cp_synced :: bool

record sync_ticket =
  st_job :: JobId
  st_generation :: Generation
  st_sequence :: u64
  st_ranges :: "byte_range list"
  st_selection :: selection

record commit_batch =
  cb_job :: JobId
  cb_generation :: Generation
  cb_sequence :: u64
  cb_ranges :: "byte_range list"
  cb_selection :: selection

record segment_map =
  sm_job :: JobId
  sm_generation :: Generation
  sm_total :: u64
  sm_maximum :: usize
  sm_segments :: "segment list"
  sm_next_id :: u64
  sm_next_attempt :: u64
  sm_next_checkpoint :: u64
  sm_checkpoint :: "checkpoint option"

section \<open>Operations\<close>

definition is_written :: "SegmentState \<Rightarrow> bool" where
  "is_written s = (case s of Written _ \<Rightarrow> True | _ \<Rightarrow> False)"

definition is_in_flight :: "SegmentState \<Rightarrow> bool" where
  "is_in_flight s = (case s of InFlight _ _ \<Rightarrow> True | _ \<Rightarrow> False)"

definition sm_snapshot :: "segment_map \<Rightarrow> segment_map" where
  "sm_snapshot m =
     \<lparr>sm_job = sm_job m, sm_generation = sm_generation m, sm_total = sm_total m,
      sm_maximum = sm_maximum m, sm_segments = sm_segments m, sm_next_id = sm_next_id m,
      sm_next_attempt = sm_next_attempt m, sm_next_checkpoint = sm_next_checkpoint m,
      sm_checkpoint = sm_checkpoint m\<rparr>"

definition has_pending_checkpoint :: "segment_map \<Rightarrow> bool" where
  "has_pending_checkpoint m \<longleftrightarrow> sm_checkpoint m \<noteq> None"

definition has_unsynced :: "segment_map \<Rightarrow> bool" where
  "has_unsynced m = list_ex (\<lambda>s. is_written (sg_state s)) (sm_segments m)"

definition unwrite :: "segment \<Rightarrow> segment" where
  "unwrite s = (if is_written (sg_state s) then s\<lparr>sg_state := Pending\<rparr> else s)"

definition discard_unsynced :: "segment_map \<Rightarrow> (DomainError, segment_map) result" where
  "discard_unsynced m =
     (if sm_checkpoint m \<noteq> None then Inl CheckpointPending
      else Inr (m\<lparr>sm_segments := map unwrite (sm_segments m)\<rparr>))"

definition segment_map_new ::
  "JobId \<Rightarrow> Generation \<Rightarrow> u64 \<Rightarrow> usize \<Rightarrow> (DomainError, segment_map) result" where
  "segment_map_new job generation total_len maximum =
     (if I64_MAX < total_len \<or> \<not> (1 \<le> maximum \<and> maximum \<le> 262144) then Inl InvalidInput
      else res_bind
        (if total_len = 0 then Inr []
         else res_bind (byte_range_new 0 total_len)
                (\<lambda>r. Inr [\<lparr>sg_id = 1, sg_range = r, sg_state = Pending\<rparr>]))
        (\<lambda>segments. Inr
          \<lparr>sm_job = job, sm_generation = generation, sm_total = total_len, sm_maximum = maximum,
           sm_segments = segments, sm_next_id = 2, sm_next_attempt = 1,
           sm_next_checkpoint = 1, sm_checkpoint = None\<rparr>))"

text \<open>
  The merging loop of \<open>restore\<close>. The vector \<open>merged\<close> is kept newest first, so that its last
  element is the head of the list.
\<close>

fun merge_durable ::
  "u64 \<Rightarrow> byte_range list \<Rightarrow> byte_range list \<Rightarrow> (DomainError, byte_range list) result" where
  "merge_durable total_len merged [] = Inr (rev merged)"
| "merge_durable total_len merged (rng # rest) =
     (if total_len < br_end rng then Inl InvalidInput
      else case merged of
        recent # before \<Rightarrow>
          if br_start rng < br_end recent then Inl InvalidInput
          else if br_start rng = br_end recent then
            res_bind (byte_range_new (br_start recent) (br_end rng))
              (\<lambda>r. merge_durable total_len (r # before) rest)
          else merge_durable total_len (rng # merged) rest
      | [] \<Rightarrow> merge_durable total_len [rng] rest)"

definition push_segment :: "segment list \<Rightarrow> byte_range \<Rightarrow> SegmentState \<Rightarrow> segment list" where
  "push_segment segments rng state =
     segments @ [\<lparr>sg_id = length segments + 1, sg_range = rng, sg_state = state\<rparr>]"

text \<open>The loop that lays out durable ranges and pending gaps; it also returns the cursor.\<close>

fun layout_segments ::
  "byte_range list \<Rightarrow> u64 \<Rightarrow> segment list \<Rightarrow> (DomainError, segment list \<times> u64) result" where
  "layout_segments [] cursor segments = Inr (segments, cursor)"
| "layout_segments (rng # rest) cursor segments =
     res_bind
       (if cursor < br_start rng then
          res_bind (byte_range_new cursor (br_start rng))
            (\<lambda>gap. Inr (push_segment segments gap Pending))
        else Inr segments)
       (\<lambda>segments'. layout_segments rest (br_end rng) (push_segment segments' rng Durable))"

definition segment_map_restore ::
  "JobId \<Rightarrow> Generation \<Rightarrow> u64 \<Rightarrow> usize \<Rightarrow> byte_range list \<Rightarrow> (DomainError, segment_map) result"
where
  "segment_map_restore job generation total_len maximum durable =
     res_bind (segment_map_new job generation total_len maximum) (\<lambda>m.
     res_bind (merge_durable total_len [] durable) (\<lambda>merged.
     res_bind (layout_segments merged 0 []) (\<lambda>(segments, cursor).
     res_bind
       (if cursor < total_len then
          res_bind (byte_range_new cursor total_len)
            (\<lambda>gap. Inr (push_segment segments gap Pending))
        else Inr segments) (\<lambda>segments'.
     if maximum < length segments' then Inl Capacity
     else Inr (m\<lparr>sm_next_id := length segments' + 1, sm_segments := segments'\<rparr>)))))"

definition durable_bytes :: "segment_map \<Rightarrow> u64" where
  "durable_bytes m =
     sum_list (map (\<lambda>s. br_len (sg_range s)) (filter (\<lambda>s. sg_state s = Durable) (sm_segments m)))"

definition all_durable :: "segment_map \<Rightarrow> bool" where
  "all_durable m = list_all (\<lambda>s. sg_state s = Durable) (sm_segments m)"

definition seg_index :: "segment_map \<Rightarrow> SegmentId \<Rightarrow> (DomainError, nat) result" where
  "seg_index m i = ok_or (position (\<lambda>s. sg_id s = i) (sm_segments m)) UnknownSegment"

definition set_segment_state :: "segment_map \<Rightarrow> nat \<Rightarrow> SegmentState \<Rightarrow> segment_map" where
  "set_segment_state m k st =
     m\<lparr>sm_segments := (sm_segments m)[k := (sm_segments m ! k)\<lparr>sg_state := st\<rparr>]\<rparr>"

definition split_pending ::
  "segment_map \<Rightarrow> SegmentId \<Rightarrow> u64 \<Rightarrow> (DomainError, segment_map \<times> SegmentId) result" where
  "split_pending m i at =
     res_bind (seg_index m i) (\<lambda>k.
     if sg_state (sm_segments m ! k) \<noteq> Pending then Inl InvalidTransition
     else if length (sm_segments m) = sm_maximum m then Inl Capacity
     else
     res_bind (br_split (sg_range (sm_segments m ! k)) at) (\<lambda>(left, right).
     res_bind (ok_or (checked_add (sm_next_id m) 1) Overflow) (\<lambda>next.
     let right_id = sm_next_id m;
         segments = (sm_segments m)[k := (sm_segments m ! k)\<lparr>sg_range := left\<rparr>];
         fresh = \<lparr>sg_id = right_id, sg_range = right, sg_state = Pending\<rparr>
     in Inr (m\<lparr>sm_segments := take (k + 1) segments @ fresh # drop (k + 1) segments,
              sm_next_id := next\<rparr>, right_id))))"

definition steal_largest_pending ::
  "segment_map \<Rightarrow> u64 \<Rightarrow> (DomainError, segment_map \<times> SegmentId option) result" where
  "steal_largest_pending m minimum =
     (if minimum = 0 then Inl InvalidInput
      else res_bind (ok_or (checked_mul minimum 2) Overflow) (\<lambda>threshold.
        case max_by_key (\<lambda>s. br_len (sg_range s))
               (filter (\<lambda>s. sg_state s = Pending \<and> threshold \<le> br_len (sg_range s))
                  (sm_segments m)) of
          None \<Rightarrow> Inr (m, None)
        | Some s \<Rightarrow>
            res_bind (split_pending m (sg_id s)
                        (br_start (sg_range s) + br_len (sg_range s) div 2))
              (\<lambda>(m', i). Inr (m', Some i))))"

definition lease_segment ::
  "segment_map \<Rightarrow> SegmentId \<Rightarrow> u64 \<Rightarrow> (DomainError, segment_map \<times> lease) result" where
  "lease_segment m i worker =
     (if worker = 0 then Inl InvalidInput
      else
      res_bind (seg_index m i) (\<lambda>k.
      if sg_state (sm_segments m ! k) \<noteq> Pending then Inl InvalidTransition
      else
      res_bind (ok_or (checked_add (sm_next_attempt m) 1) Overflow) (\<lambda>next.
      let attempt = sm_next_attempt m;
          m' = set_segment_state (m\<lparr>sm_next_attempt := next\<rparr>) k (InFlight worker attempt)
      in Inr (m', \<lparr>ls_job = sm_job m, ls_generation = sm_generation m, ls_id = i,
                   ls_attempt = attempt, ls_worker = worker,
                   ls_range = sg_range (sm_segments m ! k)\<rparr>))))"

definition lease_index :: "segment_map \<Rightarrow> lease \<Rightarrow> (DomainError, nat) result" where
  "lease_index m l =
     (if ls_job l \<noteq> sm_job m \<or> ls_generation l \<noteq> sm_generation m then Inl StaleToken
      else
      res_bind (map_err (\<lambda>_. StaleToken) (seg_index m (ls_id l))) (\<lambda>k.
      let s = sm_segments m ! k in
      if sg_range s \<noteq> ls_range l \<or> sg_state s \<noteq> InFlight (ls_worker l) (ls_attempt l)
      then Inl StaleToken
      else Inr k))"

definition mark_written :: "segment_map \<Rightarrow> lease \<Rightarrow> (DomainError, segment_map) result" where
  "mark_written m l =
     res_bind (lease_index m l) (\<lambda>k. Inr (set_segment_state m k (Written (ls_attempt l))))"

definition release :: "segment_map \<Rightarrow> lease \<Rightarrow> (DomainError, segment_map) result" where
  "release m l = res_bind (lease_index m l) (\<lambda>k. Inr (set_segment_state m k Pending))"

definition select_entry :: "segment \<Rightarrow> SegmentId \<times> byte_range \<times> u64" where
  "select_entry s =
     (sg_id s, sg_range s, case sg_state s of Written attempt \<Rightarrow> attempt | _ \<Rightarrow> 0)"

definition prepare_sync :: "segment_map \<Rightarrow> (DomainError, segment_map \<times> sync_ticket) result" where
  "prepare_sync m =
     (if sm_checkpoint m \<noteq> None then Inl CheckpointPending
      else
      let selected = filter (\<lambda>s. is_written (sg_state s)) (sm_segments m) in
      if selected = [] then Inl Incomplete
      else
      let selection = map select_entry selected;
          ids = map sg_id selected;
          ranges = map sg_range selected;
          sequence = sm_next_checkpoint m in
      res_bind (ok_or (checked_add (sm_next_checkpoint m) 1) Overflow) (\<lambda>next.
        Inr (m\<lparr>sm_next_checkpoint := next,
               sm_checkpoint := Some \<lparr>cp_sequence = sequence, cp_ids = ids,
                                      cp_selection = selection, cp_synced = False\<rparr>\<rparr>,
             \<lparr>st_job = sm_job m, st_generation = sm_generation m, st_sequence = sequence,
              st_ranges = ranges, st_selection = selection\<rparr>)))"

definition acknowledge_sync ::
  "segment_map \<Rightarrow> sync_ticket \<Rightarrow> (DomainError, segment_map \<times> commit_batch) result" where
  "acknowledge_sync m t =
     res_bind (ok_or (sm_checkpoint m) StaleToken) (\<lambda>c.
     if st_job t \<noteq> sm_job m \<or> st_generation t \<noteq> sm_generation m
        \<or> cp_sequence c \<noteq> st_sequence t \<or> cp_selection c \<noteq> st_selection t \<or> cp_synced c
     then Inl StaleToken
     else Inr (m\<lparr>sm_checkpoint := Some (c\<lparr>cp_synced := True\<rparr>)\<rparr>,
               \<lparr>cb_job = st_job t, cb_generation = st_generation t,
                cb_sequence = st_sequence t, cb_ranges = st_ranges t,
                cb_selection = st_selection t\<rparr>))"

definition make_durable :: "segment list \<Rightarrow> nat list \<Rightarrow> segment list" where
  "make_durable segments ks = fold (\<lambda>k ss. ss[k := (ss ! k)\<lparr>sg_state := Durable\<rparr>]) ks segments"

definition acknowledge_commit :: "segment_map \<Rightarrow> commit_batch \<Rightarrow> (DomainError, segment_map) result"
where
  "acknowledge_commit m b =
     res_bind (ok_or (sm_checkpoint m) StaleToken) (\<lambda>c.
     if cb_job b \<noteq> sm_job m \<or> cb_generation b \<noteq> sm_generation m
        \<or> cp_sequence c \<noteq> cb_sequence b \<or> cp_selection c \<noteq> cb_selection b \<or> \<not> cp_synced c
     then Inl StaleToken
     else
     res_bind (collect_res (map (seg_index m) (cp_ids c))) (\<lambda>indices.
     if list_ex (\<lambda>k. \<not> is_written (sg_state (sm_segments m ! k))) indices
     then Inl InvalidTransition
     else Inr (m\<lparr>sm_segments := make_durable (sm_segments m) indices,
                 sm_checkpoint := None\<rparr>)))"

definition discard_checkpoint :: "segment_map \<Rightarrow> segment_map" where
  "discard_checkpoint m = m\<lparr>sm_checkpoint := None\<rparr>"

definition replace_generation :: "segment_map \<Rightarrow> u64 \<Rightarrow> (DomainError, segment_map) result" where
  "replace_generation m total_len =
     (if sm_checkpoint m \<noteq> None \<or> list_ex (\<lambda>s. is_in_flight (sg_state s)) (sm_segments m)
      then Inl InvalidTransition
      else res_bind (generation_next (sm_generation m))
             (\<lambda>next. segment_map_new (sm_job m) next total_len (sm_maximum m)))"

lemmas segment_defs =
  discard_unsynced_def segment_map_new_def split_pending_def steal_largest_pending_def
  lease_segment_def lease_index_def mark_written_def release_def prepare_sync_def
  acknowledge_sync_def acknowledge_commit_def discard_checkpoint_def replace_generation_def

lemma sm_snapshot_id [simp]: "sm_snapshot m = m"
  by (simp add: sm_snapshot_def)

end
