(* ===== verification/Segment_Invariant.thy ===== *)
theory Segment_Invariant
  imports Segments
begin

text \<open>
  The invariant of the segment map and its preservation by every operation.

  \<open>chain a rs b\<close> says that the ranges follow each other without gap or overlap from \<open>a\<close> to
  \<open>b\<close>; from it come coverage, disjointness and the total length. Operations that change one
  segment's state go through \<open>sm_inv_set_state\<close>, the commit of a checkpoint through the
  closed form \<open>make_durable_ids\<close>.
\<close>

section \<open>Chains of ranges\<close>

fun chain :: "nat \<Rightarrow> byte_range list \<Rightarrow> nat \<Rightarrow> bool" where
  "chain a [] b \<longleftrightarrow> a = b"
| "chain a (r # rs) b \<longleftrightarrow> br_start r = a \<and> a < br_end r \<and> chain (br_end r) rs b"

lemma chain_append: "chain a (xs @ ys) b \<longleftrightarrow> (\<exists>c. chain a xs c \<and> chain c ys b)"
  by (induction xs arbitrary: a) auto

lemma chain_le: "chain a rs b \<Longrightarrow> a \<le> b"
  by (induction rs arbitrary: a) force+

lemma chain_bounds:
  "chain a rs b \<Longrightarrow> r \<in> set rs \<Longrightarrow> a \<le> br_start r \<and> br_start r < br_end r \<and> br_end r \<le> b"
  by (induction rs arbitrary: a) (auto dest: chain_le, fastforce+)

lemma chain_cover: "chain a rs b \<Longrightarrow> (\<Union>r \<in> set rs. bytes_of r) = {a..<b}"
proof (induction rs arbitrary: a)
  case Nil
  then show ?case by simp
next
  case (Cons r rs)
  then have "(\<Union>q \<in> set rs. bytes_of q) = {br_end r..<b}" and "br_end r \<le> b"
    by (auto dest: chain_le)
  with Cons.prems show ?case by (auto simp: bytes_of_def)
qed

lemma chain_sorted: "chain a rs b \<Longrightarrow> sorted_wrt (\<lambda>r q. br_end r \<le> br_start q) rs"
  by (induction rs arbitrary: a) (auto dest: chain_bounds)

lemma chain_sum: "chain a rs b \<Longrightarrow> sum_list (map br_len rs) = b - a"
proof (induction rs arbitrary: a)
  case Nil
  then show ?case by simp
next
  case (Cons r rs)
  then have "br_end r \<le> b" and "sum_list (map br_len rs) = b - br_end r"
    by (auto dest: chain_le)
  with Cons.prems show ?case by (simp add: br_len_def [of r])
qed

lemma chain_empty: "chain a [] b \<longleftrightarrow> a = b" "chain a rs a \<longleftrightarrow> rs = []"
  by (cases rs; auto dest: chain_le)+

lemma chain_consecutive:
  "chain a rs b \<Longrightarrow> Suc i < length rs \<Longrightarrow> br_start (rs ! Suc i) = br_end (rs ! i)"
proof (induction rs arbitrary: a i)
  case Nil
  then show ?case by simp
next
  case (Cons r rs)
  then show ?case by (cases i; cases rs) auto
qed

lemma chain_hd: "chain a rs b \<Longrightarrow> rs \<noteq> [] \<Longrightarrow> br_start (rs ! 0) = a"
  by (cases rs) auto

lemma chain_distinct_starts: "chain a rs b \<Longrightarrow> distinct (map br_start rs)"
  by (induction rs arbitrary: a) (force dest: chain_bounds)+

text \<open>Of the elements of a list laid out along a chain, only one holds a given offset.\<close>

lemma chain_unique:
  assumes "chain a (map f xs) b" "x \<in> set xs" "y \<in> set xs" "o' \<in> bytes_of (f x)" "o' \<in> bytes_of (f y)"
  shows "x = y"
  using assms
proof (induction xs arbitrary: a)
  case Nil
  then show ?case by simp
next
  case (Cons z xs)
  have "br_end (f z) \<le> br_start (f w)" if "w \<in> set xs" for w
    using Cons.prems(1) that chain_bounds [of "br_end (f z)" "map f xs" b "f w"] by auto
  with Cons show ?case by (fastforce simp: bytes_of_def)
qed

section \<open>The invariant\<close>

fun seg_attempt :: "SegmentState \<Rightarrow> u64 option" where
  "seg_attempt (InFlight w a) = Some a"
| "seg_attempt (Written a) = Some a"
| "seg_attempt Pending = None"
| "seg_attempt Durable = None"

definition entry_written :: "segment list \<Rightarrow> SegmentId \<times> byte_range \<times> u64 \<Rightarrow> bool" where
  "entry_written ss e \<longleftrightarrow>
     (\<exists>s \<in> set ss. sg_id s = fst e \<and> sg_range s = fst (snd e) \<and> sg_state s = Written (snd (snd e)))"

definition cp_ok :: "segment_map \<Rightarrow> checkpoint \<Rightarrow> bool" where
  "cp_ok m c \<longleftrightarrow>
     cp_sequence c < sm_next_checkpoint m \<and>
     cp_ids c = map fst (cp_selection c) \<and> cp_selection c \<noteq> [] \<and>
     (\<forall>e \<in> set (cp_selection c). entry_written (sm_segments m) e)"

definition sm_shape :: "segment_map \<Rightarrow> bool" where
  "sm_shape m \<longleftrightarrow>
     sm_total m \<le> I64_MAX \<and> 1 \<le> sm_maximum m \<and> sm_maximum m \<le> 262144 \<and>
     chain 0 (map sg_range (sm_segments m)) (sm_total m) \<and>
     length (sm_segments m) \<le> sm_maximum m"

definition sm_fresh :: "segment_map \<Rightarrow> bool" where
  "sm_fresh m \<longleftrightarrow>
     distinct (map sg_id (sm_segments m)) \<and>
     (\<forall>s \<in> set (sm_segments m). 0 < sg_id s \<and> sg_id s < sm_next_id m) \<and>
     (\<forall>s \<in> set (sm_segments m). \<forall>a. seg_attempt (sg_state s) = Some a \<longrightarrow> a < sm_next_attempt m) \<and>
     sm_next_id m \<le> U64_MAX \<and> sm_next_attempt m \<le> U64_MAX \<and> sm_next_checkpoint m \<le> U64_MAX"

definition sm_inv :: "segment_map \<Rightarrow> bool" where
  "sm_inv m \<longleftrightarrow> sm_shape m \<and> sm_fresh m \<and>
     (case sm_checkpoint m of None \<Rightarrow> True | Some c \<Rightarrow> cp_ok m c)"

lemmas sm_inv_defs = sm_inv_def sm_shape_def sm_fresh_def

lemma sm_inv_chain: "sm_inv m \<Longrightarrow> chain 0 (map sg_range (sm_segments m)) (sm_total m)"
  by (simp add: sm_inv_defs)

lemma sm_inv_range_ok:
  assumes "sm_inv m" "s \<in> set (sm_segments m)"
  shows "range_ok (sg_range s)" "br_end (sg_range s) \<le> sm_total m"
  using assms chain_bounds [OF sm_inv_chain, of m "sg_range s"]
  by (auto simp: range_ok_def sm_inv_defs)

lemma sm_inv_same_id:
  assumes "sm_inv m" "s \<in> set (sm_segments m)" "t \<in> set (sm_segments m)" "sg_id s = sg_id t"
  shows "s = t"
  using assms by (auto simp: sm_inv_defs distinct_map inj_on_def)

lemma sm_inv_update:
  assumes "sm_inv m"
    and "map sg_range ss = map sg_range (sm_segments m)"
    and "map sg_id ss = map sg_id (sm_segments m)"
    and "\<And>s a. s \<in> set ss \<Longrightarrow> seg_attempt (sg_state s) = Some a \<Longrightarrow> a < sm_next_attempt m"
    and "\<And>c. cp = Some c \<Longrightarrow> cp_ok (m\<lparr>sm_segments := ss\<rparr>) c"
  shows "sm_inv (m\<lparr>sm_segments := ss, sm_checkpoint := cp\<rparr>)"
proof -
  have len: "length ss = length (sm_segments m)"
    using assms(2) by (metis length_map)
  have ids: "sg_id ` set ss = sg_id ` set (sm_segments m)"
    using assms(3) by (metis set_map)
  have "0 < sg_id s \<and> sg_id s < sm_next_id m" if "s \<in> set ss" for s
    using that ids assms(1) unfolding sm_inv_defs by (metis (no_types, lifting) imageE imageI)
  then show ?thesis
    using assms len by (auto simp: sm_inv_defs cp_ok_def split: option.splits)
qed

lemma sm_inv_new:
  assumes "segment_map_new job g total_len maximum = Inr m"
  shows "sm_inv m" and "sm_total m = total_len" and "sm_maximum m = maximum"
    and "sm_generation m = g" and "sm_job m = job" and "sm_checkpoint m = None"
    and "\<forall>s \<in> set (sm_segments m). sg_state s = Pending"
  using assms
  by (auto simp: segment_map_new_def res_simps byte_range_new_eq_Inr sm_inv_defs width_simps
      split: if_splits)

section \<open>Finding a segment\<close>

lemma seg_index_Inr:
  assumes "seg_index m i = Inr k"
  shows "k < length (sm_segments m)" and "sg_id (sm_segments m ! k) = i"
  using assms position_SomeD [of "\<lambda>s. sg_id s = i" "sm_segments m" k]
  by (auto simp: seg_index_def res_simps)

lemma seg_index_of:
  assumes "sm_inv m" "k < length (sm_segments m)"
  shows "seg_index m (sg_id (sm_segments m ! k)) = Inr k"
  using assms position_distinct [of sg_id "sm_segments m" k]
  by (simp add: seg_index_def sm_inv_defs)

lemma lease_index_Inr:
  assumes "lease_index m l = Inr k"
  shows "k < length (sm_segments m)" and "sg_id (sm_segments m ! k) = ls_id l"
    and "sg_state (sm_segments m ! k) = InFlight (ls_worker l) (ls_attempt l)"
    and "sg_range (sm_segments m ! k) = ls_range l"
    and "ls_job l = sm_job m" and "ls_generation l = sm_generation m"
  using assms
  by (auto simp: lease_index_def Let_def res_simps seg_index_Inr split: if_splits)

section \<open>One segment changes its state\<close>

lemma set_state_segments [simp]:
  "sm_segments (set_segment_state m k st) =
     (sm_segments m)[k := (sm_segments m ! k)\<lparr>sg_state := st\<rparr>]"
  by (simp add: set_segment_state_def)

lemma set_state_other [simp]:
  "sm_job (set_segment_state m k st) = sm_job m"
  "sm_generation (set_segment_state m k st) = sm_generation m"
  "sm_total (set_segment_state m k st) = sm_total m"
  "sm_maximum (set_segment_state m k st) = sm_maximum m"
  "sm_next_id (set_segment_state m k st) = sm_next_id m"
  "sm_next_attempt (set_segment_state m k st) = sm_next_attempt m"
  "sm_next_checkpoint (set_segment_state m k st) = sm_next_checkpoint m"
  "sm_checkpoint (set_segment_state m k st) = sm_checkpoint m"
  by (simp_all add: set_segment_state_def)

lemma entry_written_update:
  assumes "entry_written ss e" "\<not> is_written (sg_state (ss ! k))"
  shows "entry_written (ss[k := t]) e"
proof -
  from assms(1) obtain j where j: "j < length ss" "sg_id (ss ! j) = fst e"
    "sg_range (ss ! j) = fst (snd e)" "sg_state (ss ! j) = Written (snd (snd e))"
    by (auto simp: entry_written_def in_set_conv_nth)
  with assms(2) have "j \<noteq> k" by (auto simp: is_written_def)
  with j show ?thesis
    unfolding entry_written_def by (metis length_list_update nth_list_update_neq nth_mem)
qed

lemma sm_inv_set_state:
  assumes inv: "sm_inv m" and old: "\<not> is_written (sg_state (sm_segments m ! k))"
    and new: "\<And>a. seg_attempt st = Some a \<Longrightarrow> a < sm_next_attempt m"
  shows "sm_inv (set_segment_state m k st)"
proof -
  let ?ss = "(sm_segments m)[k := (sm_segments m ! k)\<lparr>sg_state := st\<rparr>]"
  have "sm_inv (m\<lparr>sm_segments := ?ss, sm_checkpoint := sm_checkpoint m\<rparr>)"
  proof (rule sm_inv_update [OF inv])
    show "map sg_range ?ss = map sg_range (sm_segments m)"
      "map sg_id ?ss = map sg_id (sm_segments m)"
      by (simp_all add: map_update_same)
    show "a < sm_next_attempt m" if "s \<in> set ?ss" "seg_attempt (sg_state s) = Some a" for s a
      using set_update_cases [OF that(1)] that(2) new inv by (auto simp: sm_inv_defs)
    show "cp_ok (m\<lparr>sm_segments := ?ss\<rparr>) c" if "sm_checkpoint m = Some c" for c
      using inv that old by (auto simp: sm_inv_def cp_ok_def entry_written_update)
  qed
  then show ?thesis by (simp add: set_segment_state_def)
qed

lemma sm_inv_bump_attempt:
  assumes "sm_inv m" "Suc (sm_next_attempt m) \<le> U64_MAX"
  shows "sm_inv (m\<lparr>sm_next_attempt := Suc (sm_next_attempt m)\<rparr>)"
  using assms by (auto simp: sm_inv_defs cp_ok_def less_Suc_eq split: option.splits)

lemma is_written_simps [simp]:
  "is_written (Written a)" "\<not> is_written Pending" "\<not> is_written Durable"
  "\<not> is_written (InFlight w a)"
  by (simp_all add: is_written_def)

lemma is_in_flight_simps [simp]:
  "is_in_flight (InFlight w a)" "\<not> is_in_flight Pending" "\<not> is_in_flight Durable"
  "\<not> is_in_flight (Written a)"
  by (simp_all add: is_in_flight_def)

lemma is_writtenE: "is_written st \<Longrightarrow> (\<And>a. st = Written a \<Longrightarrow> P) \<Longrightarrow> P"
  by (cases st) auto

section \<open>Leases\<close>

lemma lease_segment_Inr:
  assumes "lease_segment m i w = Inr (m', l)"
  obtains k where "k < length (sm_segments m)" "sg_id (sm_segments m ! k) = i"
    "sg_state (sm_segments m ! k) = Pending" "0 < w" "Suc (sm_next_attempt m) \<le> U64_MAX"
    "m' = set_segment_state (m\<lparr>sm_next_attempt := Suc (sm_next_attempt m)\<rparr>) k
            (InFlight w (sm_next_attempt m))"
    "l = \<lparr>ls_job = sm_job m, ls_generation = sm_generation m, ls_id = i,
          ls_attempt = sm_next_attempt m, ls_worker = w,
          ls_range = sg_range (sm_segments m ! k)\<rparr>"
  using assms
  by (auto simp: lease_segment_def Let_def res_simps split: if_splits dest: seg_index_Inr)

lemma sm_inv_lease: "sm_inv m \<Longrightarrow> lease_segment m i w = Inr (m', l) \<Longrightarrow> sm_inv m'"
  by (erule lease_segment_Inr) (auto intro!: sm_inv_set_state sm_inv_bump_attempt)

lemma sm_inv_mark_written:
  assumes "sm_inv m" "mark_written m l = Inr m'"
  shows "sm_inv m'"
proof -
  from assms(2) obtain k where k: "lease_index m l = Inr k"
    and m': "m' = set_segment_state m k (Written (ls_attempt l))"
    by (auto simp: mark_written_def res_simps)
  note found = lease_index_Inr [OF k]
  with assms(1) have "ls_attempt l < sm_next_attempt m"
    by (metis nth_mem seg_attempt.simps(1) sm_fresh_def sm_inv_def)
  with assms(1) found show ?thesis
    unfolding m' by (intro sm_inv_set_state) auto
qed

lemma sm_inv_release: "sm_inv m \<Longrightarrow> release m l = Inr m' \<Longrightarrow> sm_inv m'"
  by (auto simp: release_def res_simps lease_index_Inr intro!: sm_inv_set_state)

section \<open>Splitting\<close>

lemma split_pending_Inr:
  assumes "split_pending m i at = Inr (m', j)"
  obtains pre s post where "sm_segments m = pre @ s # post" "sg_id s = i" "sg_state s = Pending"
    "length (sm_segments m) \<noteq> sm_maximum m"
    "br_start (sg_range s) < at" "at < br_end (sg_range s)" "Suc (sm_next_id m) \<le> U64_MAX"
    "j = sm_next_id m"
    "m' = m\<lparr>sm_segments := pre @ s\<lparr>sg_range := \<lparr>br_start = br_start (sg_range s), br_end = at\<rparr>\<rparr>
              # \<lparr>sg_id = sm_next_id m,
                 sg_range = \<lparr>br_start = at, br_end = br_end (sg_range s)\<rparr>,
                 sg_state = Pending\<rparr> # post,
            sm_next_id := Suc (sm_next_id m)\<rparr>"
proof -
  from assms obtain k where k: "seg_index m i = Inr k"
    by (auto simp: split_pending_def res_simps)
  note found = seg_index_Inr [OF k]
  let ?pre = "take k (sm_segments m)" and ?s = "sm_segments m ! k"
    and ?post = "drop (Suc k) (sm_segments m)"
  show thesis
  proof (rule that [of ?pre ?s ?post])
    show "sm_segments m = ?pre @ ?s # ?post" using found(1) by (rule update_split)
  qed (use assms k found in \<open>auto simp: split_pending_def Let_def res_simps br_split_eq_Inr
        take_Suc_conv_app_nth upd_conv_take_nth_drop min_def split: if_splits\<close>)
qed

lemma sm_inv_split:
  assumes inv: "sm_inv m" and split: "split_pending m i at = Inr (m', j)"
  shows "sm_inv m'"
  using split
proof (rule split_pending_Inr)
  fix pre post :: "segment list" and s :: segment
  let ?l = "s\<lparr>sg_range := \<lparr>br_start = br_start (sg_range s), br_end = at\<rparr>\<rparr>"
    and ?r = "\<lparr>sg_id = sm_next_id m, sg_range = \<lparr>br_start = at, br_end = br_end (sg_range s)\<rparr>,
               sg_state = Pending\<rparr>"
  assume segs: "sm_segments m = pre @ s # post" and pend: "sg_state s = Pending"
    and len: "length (sm_segments m) \<noteq> sm_maximum m"
    and at: "br_start (sg_range s) < at" "at < br_end (sg_range s)"
    and nx: "Suc (sm_next_id m) \<le> U64_MAX"
    and m': "m' = m\<lparr>sm_segments := pre @ ?l # ?r # post, sm_next_id := Suc (sm_next_id m)\<rparr>"
  have shape: "sm_shape m'"
    using inv segs len at unfolding m' by (auto simp: sm_inv_defs chain_append)
  have fresh: "sm_fresh m'"
    using inv segs nx pend unfolding m' by (auto simp: sm_inv_defs less_Suc_eq)
  have keep: "entry_written (sm_segments m') e" if "entry_written (sm_segments m) e" for e
    using that segs pend unfolding m' entry_written_def by auto
  show "sm_inv m'"
    using inv shape fresh keep unfolding m' by (auto simp: sm_inv_def cp_ok_def split: option.splits)
qed

lemma sm_inv_steal:
  "sm_inv m \<Longrightarrow> steal_largest_pending m n = Inr (m', r) \<Longrightarrow> sm_inv m'"
  by (auto simp: steal_largest_pending_def res_simps split: option.splits if_splits
      dest: sm_inv_split)

section \<open>Checkpoints\<close>

lemma unwrite_simps [simp]: "sg_range (unwrite s) = sg_range s" "sg_id (unwrite s) = sg_id s"
  by (simp_all add: unwrite_def)

lemma sm_inv_discard_unsynced:
  assumes "sm_inv m" "discard_unsynced m = Inr m'"
  shows "sm_inv m'"
proof -
  let ?ss = "map unwrite (sm_segments m)"
  from assms(2) have none: "sm_checkpoint m = None" and m': "m' = m\<lparr>sm_segments := ?ss\<rparr>"
    by (auto simp: discard_unsynced_def split: if_splits)
  have "sm_inv (m\<lparr>sm_segments := ?ss, sm_checkpoint := None\<rparr>)"
    by (rule sm_inv_update [OF assms(1)])
      (use assms(1) in \<open>auto simp: unwrite_def sm_inv_defs split: if_splits\<close>)
  with none show ?thesis unfolding m' by (simp add: none [symmetric])
qed

lemma sm_inv_discard_checkpoint: "sm_inv m \<Longrightarrow> sm_inv (discard_checkpoint m)"
  by (auto simp: sm_inv_defs discard_checkpoint_def)

lemma prepare_sync_Inr:
  assumes "prepare_sync m = Inr (m', t)"
  defines "sel \<equiv> filter (\<lambda>s. is_written (sg_state s)) (sm_segments m)"
  shows "sm_checkpoint m = None" and "sel \<noteq> []" and "Suc (sm_next_checkpoint m) \<le> U64_MAX"
    and "m' = m\<lparr>sm_next_checkpoint := Suc (sm_next_checkpoint m),
            sm_checkpoint := Some \<lparr>cp_sequence = sm_next_checkpoint m, cp_ids = map sg_id sel,
              cp_selection = map select_entry sel, cp_synced = False\<rparr>\<rparr>"
    and "t = \<lparr>st_job = sm_job m, st_generation = sm_generation m,
            st_sequence = sm_next_checkpoint m, st_ranges = map sg_range sel,
            st_selection = map select_entry sel\<rparr>"
  using assms by (auto simp: prepare_sync_def Let_def res_simps split: if_splits)

lemma fst_select_entry [simp]: "fst (select_entry s) = sg_id s" "fst \<circ> select_entry = sg_id"
  by (auto simp: select_entry_def)

lemma entry_written_select:
  "s \<in> set ss \<Longrightarrow> is_written (sg_state s) \<Longrightarrow> entry_written ss (select_entry s)"
  by (auto simp: entry_written_def select_entry_def elim!: is_writtenE)

lemma sm_inv_prepare_sync:
  assumes "sm_inv m" "prepare_sync m = Inr (m', t)"
  shows "sm_inv m'"
  using assms(1) prepare_sync_Inr [OF assms(2)]
  by (auto simp: sm_inv_defs cp_ok_def intro: entry_written_select)

lemma acknowledge_sync_Inr:
  assumes "acknowledge_sync m t = Inr (m', b)"
  obtains c where "sm_checkpoint m = Some c" "\<not> cp_synced c"
    "cp_sequence c = st_sequence t" "cp_selection c = st_selection t"
    "st_job t = sm_job m" "st_generation t = sm_generation m"
    "m' = m\<lparr>sm_checkpoint := Some (c\<lparr>cp_synced := True\<rparr>)\<rparr>"
    "b = \<lparr>cb_job = st_job t, cb_generation = st_generation t, cb_sequence = st_sequence t,
          cb_ranges = st_ranges t, cb_selection = st_selection t\<rparr>"
  using assms by (auto simp: acknowledge_sync_def res_simps split: if_splits)

lemma sm_inv_acknowledge_sync:
  assumes "sm_inv m" "acknowledge_sync m t = Inr (m', b)"
  shows "sm_inv m'"
  using assms(2) by (rule acknowledge_sync_Inr) (use assms(1) in \<open>auto simp: sm_inv_defs cp_ok_def\<close>)

section \<open>Committing a checkpoint\<close>

lemma make_durable_Cons:
  "make_durable ss (k # ks) = make_durable (ss[k := (ss ! k)\<lparr>sg_state := Durable\<rparr>]) ks"
  by (simp add: make_durable_def)

lemma make_durable_length [simp]: "length (make_durable ss ks) = length ss"
  by (induction ks arbitrary: ss) (simp_all add: make_durable_Cons, simp add: make_durable_def)

lemma make_durable_nth:
  assumes "\<And>k. k \<in> set ks \<Longrightarrow> k < length ss" and "j < length ss"
  shows "make_durable ss ks ! j = (if j \<in> set ks then (ss ! j)\<lparr>sg_state := Durable\<rparr> else ss ! j)"
  using assms
proof (induction ks arbitrary: ss)
  case Nil
  then show ?case by (simp add: make_durable_def)
next
  case (Cons k ks)
  let ?ss = "ss[k := (ss ! k)\<lparr>sg_state := Durable\<rparr>]"
  have "make_durable ?ss ks ! j = (if j \<in> set ks then (?ss ! j)\<lparr>sg_state := Durable\<rparr> else ?ss ! j)"
    by (rule Cons.IH) (use Cons.prems in auto)
  then show ?case using Cons.prems by (auto simp: make_durable_Cons nth_list_update)
qed

definition commit_segment :: "SegmentId set \<Rightarrow> segment \<Rightarrow> segment" where
  "commit_segment ids s = (if sg_id s \<in> ids then s\<lparr>sg_state := Durable\<rparr> else s)"

lemma make_durable_ids:
  assumes "sm_inv m" "map (seg_index m) ids = map Inr ks"
  shows "make_durable (sm_segments m) ks = map (commit_segment (set ids)) (sm_segments m)"
proof -
  have found: "\<exists>i \<in> set ids. seg_index m i = Inr k" if "k \<in> set ks" for k
  proof -
    from that have "Inr k \<in> set (map Inr ks :: (DomainError, nat) result list)" by simp
    with assms(2) have "Inr k \<in> set (map (seg_index m) ids)" by metis
    then show ?thesis by auto
  qed
  have bound: "k < length (sm_segments m)" if "k \<in> set ks" for k
    using found [OF that] seg_index_Inr(1) by blast
  have mem: "j \<in> set ks \<longleftrightarrow> sg_id (sm_segments m ! j) \<in> set ids"
    if "j < length (sm_segments m)" for j
  proof
    assume "j \<in> set ks"
    then show "sg_id (sm_segments m ! j) \<in> set ids" using found seg_index_Inr(2) by blast
  next
    assume "sg_id (sm_segments m ! j) \<in> set ids"
    then have "Inr j \<in> seg_index m ` set ids"
      using seg_index_of [OF assms(1) that] by (metis image_eqI)
    then have "Inr j \<in> set (map (Inr :: nat \<Rightarrow> (DomainError, nat) result) ks)"
      using assms(2) by (metis list.set_map)
    then show "j \<in> set ks" by auto
  qed
  show ?thesis
    by (rule nth_equalityI) (auto simp: make_durable_nth bound mem commit_segment_def)
qed

lemma acknowledge_commit_Inr:
  assumes "sm_inv m" "acknowledge_commit m b = Inr m'"
  obtains c where "sm_checkpoint m = Some c" "cp_synced c" "cp_sequence c = cb_sequence b"
    "cp_selection c = cb_selection b" "cb_job b = sm_job m" "cb_generation b = sm_generation m"
    "m' = m\<lparr>sm_segments := map (commit_segment (set (cp_ids c))) (sm_segments m),
            sm_checkpoint := None\<rparr>"
  using assms make_durable_ids [OF assms(1)]
  by (auto simp: acknowledge_commit_def res_simps collect_res_eq_Inr split: if_splits)

lemma commit_segment_simps [simp]:
  "sg_range (commit_segment ids s) = sg_range s" "sg_id (commit_segment ids s) = sg_id s"
  by (simp_all add: commit_segment_def)

lemma sm_inv_acknowledge_commit:
  assumes "sm_inv m" "acknowledge_commit m b = Inr m'"
  shows "sm_inv m'"
  using assms
proof (rule acknowledge_commit_Inr)
  fix c
  let ?ss = "map (commit_segment (set (cp_ids c))) (sm_segments m)"
  assume "m' = m\<lparr>sm_segments := ?ss, sm_checkpoint := None\<rparr>"
  moreover have "sm_inv (m\<lparr>sm_segments := ?ss, sm_checkpoint := None\<rparr>)"
    by (rule sm_inv_update [OF assms(1)])
      (use assms(1) in \<open>auto simp: commit_segment_def sm_inv_defs split: if_splits\<close>)
  ultimately show "sm_inv m'" by simp
qed

lemma sm_inv_replace_generation: "replace_generation m n = Inr m' \<Longrightarrow> sm_inv m'"
  by (auto simp: replace_generation_def res_simps split: if_splits dest: sm_inv_new(1))

end
