(* ===== verification/Segment_Steps.thy ===== *)
theory Segment_Steps
  imports Segment_Invariant
begin

text \<open>
  Runs of the segment map. \<open>worker_step\<close> is what workers and the planner do while a
  checkpoint may be in flight, \<open>sm_step\<close> adds the checkpoint protocol and the drain, and
  \<open>sm_life\<close> adds the replacement of the representation. Over these runs the theory shows that
  durable bytes only grow, that they grow by exactly a committed selection, that a lease and a
  checkpoint token are good at most once, and that an interleaved checkpoint always completes.
\<close>

section \<open>Step relations\<close>

inductive worker_step :: "segment_map \<Rightarrow> segment_map \<Rightarrow> bool" where
  ws_split: "split_pending m i at = Inr (m', j) \<Longrightarrow> worker_step m m'"
| ws_steal: "steal_largest_pending m n = Inr (m', r) \<Longrightarrow> worker_step m m'"
| ws_lease: "lease_segment m i w = Inr (m', l) \<Longrightarrow> worker_step m m'"
| ws_written: "mark_written m l = Inr m' \<Longrightarrow> worker_step m m'"
| ws_release: "release m l = Inr m' \<Longrightarrow> worker_step m m'"

inductive sm_step :: "segment_map \<Rightarrow> segment_map \<Rightarrow> bool" where
  ss_worker: "worker_step m m' \<Longrightarrow> sm_step m m'"
| ss_prepare: "prepare_sync m = Inr (m', t) \<Longrightarrow> sm_step m m'"
| ss_sync: "acknowledge_sync m t = Inr (m', b) \<Longrightarrow> sm_step m m'"
| ss_commit: "acknowledge_commit m b = Inr m' \<Longrightarrow> sm_step m m'"
| ss_discard_checkpoint: "sm_step m (discard_checkpoint m)"
| ss_discard_unsynced: "discard_unsynced m = Inr m' \<Longrightarrow> sm_step m m'"

inductive sm_life :: "segment_map \<Rightarrow> segment_map \<Rightarrow> bool" where
  sl_step: "sm_step m m' \<Longrightarrow> sm_life m m'"
| sl_replace: "replace_generation m n = Inr m' \<Longrightarrow> sm_life m m'"

text \<open>The bytes the map holds durable.\<close>

definition durable_set :: "segment_map \<Rightarrow> nat set" where
  "durable_set m = (\<Union>s \<in> {s \<in> set (sm_segments m). sg_state s = Durable}. bytes_of (sg_range s))"

section \<open>The invariant along runs\<close>

lemma worker_step_inv: "worker_step m m' \<Longrightarrow> sm_inv m \<Longrightarrow> sm_inv m'"
  by (induction rule: worker_step.induct)
    (auto dest: sm_inv_split sm_inv_steal sm_inv_lease sm_inv_mark_written sm_inv_release)

lemma sm_step_inv: "sm_step m m' \<Longrightarrow> sm_inv m \<Longrightarrow> sm_inv m'"
  by (induction rule: sm_step.induct)
    (auto dest: worker_step_inv sm_inv_prepare_sync sm_inv_acknowledge_sync
      sm_inv_acknowledge_commit sm_inv_discard_unsynced intro: sm_inv_discard_checkpoint)

lemma sm_life_inv: "sm_life m m' \<Longrightarrow> sm_inv m \<Longrightarrow> sm_inv m'"
  by (induction rule: sm_life.induct) (auto dest: sm_step_inv sm_inv_replace_generation)

lemma sm_steps_inv: "sm_step\<^sup>*\<^sup>* m m' \<Longrightarrow> sm_inv m \<Longrightarrow> sm_inv m'"
  by (induction rule: rtranclp_induct) (auto dest: sm_step_inv)

lemma sm_lives_inv: "sm_life\<^sup>*\<^sup>* m m' \<Longrightarrow> sm_inv m \<Longrightarrow> sm_inv m'"
  by (induction rule: rtranclp_induct) (auto dest: sm_life_inv)

lemma worker_steps_inv: "worker_step\<^sup>*\<^sup>* m m' \<Longrightarrow> sm_inv m \<Longrightarrow> sm_inv m'"
  by (induction rule: rtranclp_induct) (auto dest: worker_step_inv)

section \<open>What a worker step leaves alone\<close>

lemma split_pending_frame:
  assumes "split_pending m i at = Inr (m', j)"
  shows "sm_job m' = sm_job m" "sm_generation m' = sm_generation m" "sm_total m' = sm_total m"
    "sm_checkpoint m' = sm_checkpoint m" "sm_next_checkpoint m' = sm_next_checkpoint m"
    "sm_next_attempt m' = sm_next_attempt m" "sm_maximum m' = sm_maximum m"
    "durable_set m' = durable_set m"
  using assms by (auto elim!: split_pending_Inr simp: durable_set_def)

lemma steal_frame:
  assumes "steal_largest_pending m n = Inr (m', r)"
  obtains "m' = m" | i at j where "split_pending m i at = Inr (m', j)"
  using assms by (auto simp: steal_largest_pending_def res_simps split: option.splits if_splits)

lemma durable_set_state:
  assumes "sg_state (sm_segments m ! k) \<noteq> Durable" "st \<noteq> Durable"
  shows "durable_set (set_segment_state m k st) = durable_set m"
  using assms by (simp add: durable_set_def Collect_set_update)

lemma durable_set_counter [simp]:
  "durable_set (m\<lparr>sm_next_attempt := n\<rparr>) = durable_set m"
  "durable_set (m\<lparr>sm_next_checkpoint := n\<rparr>) = durable_set m"
  "durable_set (m\<lparr>sm_checkpoint := c\<rparr>) = durable_set m"
  by (simp_all add: durable_set_def)

lemma worker_step_frame:
  "worker_step m m' \<Longrightarrow>
     sm_job m' = sm_job m \<and> sm_generation m' = sm_generation m \<and> sm_total m' = sm_total m \<and>
     sm_checkpoint m' = sm_checkpoint m \<and> sm_next_checkpoint m' = sm_next_checkpoint m \<and>
     sm_next_attempt m \<le> sm_next_attempt m' \<and> durable_set m' = durable_set m"
proof (induction rule: worker_step.induct)
  case (ws_split m i at m' j)
  then show ?case by (simp add: split_pending_frame)
next
  case (ws_steal m n m' r)
  then show ?case by (rule steal_frame) (simp_all add: split_pending_frame)
next
  case (ws_lease m i w m' l)
  then show ?case by (rule lease_segment_Inr) (simp add: durable_set_state)
next
  case (ws_written m l m')
  then show ?case
    by (auto simp: mark_written_def res_simps durable_set_state lease_index_Inr)
next
  case (ws_release m l m')
  then show ?case
    by (auto simp: release_def res_simps durable_set_state lease_index_Inr)
qed

lemma worker_steps_frame:
  "worker_step\<^sup>*\<^sup>* m m' \<Longrightarrow>
     sm_job m' = sm_job m \<and> sm_generation m' = sm_generation m \<and> sm_total m' = sm_total m \<and>
     sm_checkpoint m' = sm_checkpoint m \<and> durable_set m' = durable_set m"
  by (induction rule: rtranclp_induct) (auto dest: worker_step_frame)

section \<open>Durability\<close>

lemma durable_set_unwrite:
  "discard_unsynced m = Inr m' \<Longrightarrow> durable_set m' = durable_set m"
  by (force simp: discard_unsynced_def durable_set_def unwrite_def split: if_splits)

lemma cp_ok_selected:
  assumes "sm_inv m" "cp_ok m c" "s \<in> set (sm_segments m)"
  shows "sg_id s \<in> set (cp_ids c) \<longleftrightarrow> (\<exists>a. (sg_id s, sg_range s, a) \<in> set (cp_selection c))"
proof
  assume "sg_id s \<in> set (cp_ids c)"
  with assms(2) obtain e where e: "e \<in> set (cp_selection c)" "fst e = sg_id s"
    by (auto simp: cp_ok_def)
  with assms(2) obtain t where "t \<in> set (sm_segments m)" "sg_id t = fst e" "sg_range t = fst (snd e)"
    by (auto simp: cp_ok_def entry_written_def)
  with e sm_inv_same_id [OF assms(1) assms(3)] show "\<exists>a. (sg_id s, sg_range s, a) \<in> set (cp_selection c)"
    by (metis prod.collapse)
next
  assume "\<exists>a. (sg_id s, sg_range s, a) \<in> set (cp_selection c)"
  with assms(2) show "sg_id s \<in> set (cp_ids c)" by (force simp: cp_ok_def)
qed

definition selection_bytes :: "selection \<Rightarrow> nat set" where
  "selection_bytes sel = (\<Union>(i, r, a) \<in> set sel. bytes_of r)"

lemma durable_set_commit:
  assumes "sm_inv m" "cp_ok m c"
  shows "durable_set (m\<lparr>sm_segments := map (commit_segment (set (cp_ids c))) (sm_segments m)\<rparr>)
         = durable_set m \<union> selection_bytes (cp_selection c)"
proof -
  have sel: "\<exists>s \<in> set (sm_segments m). sg_id s = i \<and> sg_range s = r \<and> sg_id s \<in> set (cp_ids c)"
    if "(i, r, a) \<in> set (cp_selection c)" for i r a
    using assms(2) that by (force simp: cp_ok_def entry_written_def)
  have com: "sg_state (commit_segment (set (cp_ids c)) s) = Durable \<longleftrightarrow>
      sg_state s = Durable \<or> (\<exists>a. (sg_id s, sg_range s, a) \<in> set (cp_selection c))"
    if "s \<in> set (sm_segments m)" for s
    using cp_ok_selected [OF assms that] by (auto simp: commit_segment_def)
  show ?thesis (is "?L = ?R")
  proof (rule set_eqI)
    fix x
    have "x \<in> ?L \<longleftrightarrow> (\<exists>s \<in> set (sm_segments m).
        sg_state (commit_segment (set (cp_ids c)) s) = Durable \<and> x \<in> bytes_of (sg_range s))"
      by (force simp: durable_set_def)
    also have "\<dots> \<longleftrightarrow> x \<in> durable_set m \<or> (\<exists>s \<in> set (sm_segments m).
        (\<exists>a. (sg_id s, sg_range s, a) \<in> set (cp_selection c)) \<and> x \<in> bytes_of (sg_range s))"
      using com by (auto simp: durable_set_def)
    also have "\<dots> \<longleftrightarrow> x \<in> ?R"
      using sel by (fastforce simp: selection_bytes_def)
    finally show "x \<in> ?L \<longleftrightarrow> x \<in> ?R" .
  qed
qed

lemma acknowledge_commit_durable:
  assumes "sm_inv m" "acknowledge_commit m b = Inr m'"
  shows "durable_set m' = durable_set m \<union> selection_bytes (cb_selection b)"
  using assms
  by (rule acknowledge_commit_Inr)
    (use assms(1) in \<open>auto simp: durable_set_commit sm_inv_def\<close>)

lemma prepare_sync_durable: "prepare_sync m = Inr (m', t) \<Longrightarrow> durable_set m' = durable_set m"
  by (drule prepare_sync_Inr(4)) simp

lemma acknowledge_sync_durable: "acknowledge_sync m t = Inr (m', b) \<Longrightarrow> durable_set m' = durable_set m"
  by (erule acknowledge_sync_Inr) simp

lemma sm_step_durable_mono: "sm_step m m' \<Longrightarrow> sm_inv m \<Longrightarrow> durable_set m \<subseteq> durable_set m'"
  by (induction rule: sm_step.induct)
    (auto dest: worker_step_frame prepare_sync_durable acknowledge_sync_durable
      acknowledge_commit_durable durable_set_unwrite simp: discard_checkpoint_def)

lemma sm_steps_durable_mono: "sm_step\<^sup>*\<^sup>* m m' \<Longrightarrow> sm_inv m \<Longrightarrow> durable_set m \<subseteq> durable_set m'"
  by (induction rule: rtranclp_induct) (auto dest: sm_step_durable_mono sm_steps_inv)

lemma durable_bytes_card:
  assumes "sm_inv m"
  shows "durable_bytes m = card (durable_set m)"
proof -
  define ds where "ds = filter (\<lambda>s. sg_state s = Durable) (sm_segments m)"
  have sorted: "sorted_wrt (\<lambda>r q. br_end r \<le> br_start q) (map sg_range ds)"
    using chain_sorted [OF sm_inv_chain [OF assms]]
    unfolding ds_def by (simp add: sorted_wrt_map sorted_wrt_filter)
  have "card (\<Union>s \<in> set ds. bytes_of (sg_range s)) = sum_list (map (\<lambda>s. br_len (sg_range s)) ds)"
    using sorted
  proof (induction ds)
    case Nil
    then show ?case by simp
  next
    case (Cons s ds)
    have "bytes_of (sg_range s) \<inter> (\<Union>t \<in> set ds. bytes_of (sg_range t)) = {}"
      using Cons.prems by (force simp: bytes_of_def)
    moreover have "finite (\<Union>t \<in> set ds. bytes_of (sg_range t))" "finite (bytes_of (sg_range s))"
      by (simp_all add: bytes_of_def)
    ultimately show ?case using Cons by (simp add: card_Un_disjoint)
  qed
  then show ?thesis by (simp add: ds_def durable_bytes_def durable_set_def)
qed

lemma durable_set_subset: "sm_inv m \<Longrightarrow> durable_set m \<subseteq> {0..<sm_total m}"
  using chain_cover [OF sm_inv_chain] by (fastforce simp: durable_set_def)

lemma all_durable_iff:
  assumes "sm_inv m"
  shows "all_durable m \<longleftrightarrow> durable_set m = {0..<sm_total m}"
proof
  assume "all_durable m"
  then have "durable_set m = (\<Union>r \<in> set (map sg_range (sm_segments m)). bytes_of r)"
    by (auto simp: all_durable_def durable_set_def list_all_iff)
  then show "durable_set m = {0..<sm_total m}" using chain_cover [OF sm_inv_chain [OF assms]] by simp
next
  assume full: "durable_set m = {0..<sm_total m}"
  show "all_durable m"
    unfolding all_durable_def list_all_iff
  proof
    fix s assume s: "s \<in> set (sm_segments m)"
    have "br_start (sg_range s) \<in> {0..<sm_total m}"
      using sm_inv_range_ok [OF assms s] by (auto simp: range_ok_def)
    with full have "br_start (sg_range s) \<in> durable_set m" by simp
    then obtain t where t: "t \<in> set (sm_segments m)" "sg_state t = Durable"
      "br_start (sg_range s) \<in> bytes_of (sg_range t)"
      by (auto simp: durable_set_def)
    have "s = t"
      using chain_unique [OF sm_inv_chain [OF assms] s t(1) _ t(3)] sm_inv_range_ok(1) [OF assms s]
      by (simp add: bytes_of_def range_ok_def)
    with t show "sg_state s = Durable" by simp
  qed
qed

section \<open>A lease is good at most once\<close>

text \<open>
  \<open>spent g i a m\<close>: the attempt \<open>a\<close> of generation \<open>g\<close> was issued and segment \<open>i\<close> is not in
  flight under it any more. No operation undoes this, because attempts are never reissued.
\<close>

definition spent :: "Generation \<Rightarrow> SegmentId \<Rightarrow> u64 \<Rightarrow> segment_map \<Rightarrow> bool" where
  "spent g i a m \<longleftrightarrow> g < sm_generation m \<or>
     (g = sm_generation m \<and> a < sm_next_attempt m \<and>
      (\<forall>s \<in> set (sm_segments m). sg_id s = i \<longrightarrow> (\<forall>w. sg_state s \<noteq> InFlight w a)))"

lemma spent_split: "split_pending m k at = Inr (m', j) \<Longrightarrow> spent g i a m \<Longrightarrow> spent g i a m'"
  by (auto elim!: split_pending_Inr simp: spent_def)

lemma spent_set_state:
  assumes "spent g i a m" "k < length (sm_segments m)" "\<And>w. st \<noteq> InFlight w a"
  shows "spent g i a (set_segment_state m k st)"
  using assms by (auto simp: spent_def dest!: set_update_cases)

lemma worker_step_spent: "worker_step m m' \<Longrightarrow> spent g i a m \<Longrightarrow> spent g i a m'"
proof (induction rule: worker_step.induct)
  case (ws_split m k at m' j)
  then show ?case by (rule spent_split)
next
  case (ws_steal m n m' r)
  then show ?case by (metis steal_frame spent_split)
next
  case (ws_lease m n w m' l)
  from ws_lease.hyps show ?case
  proof (rule lease_segment_Inr)
    fix k
    assume k: "k < length (sm_segments m)"
    let ?m = "m\<lparr>sm_next_attempt := Suc (sm_next_attempt m)\<rparr>"
    assume m': "m' = set_segment_state ?m k (InFlight w (sm_next_attempt m))"
    show "spent g i a m'"
    proof (cases "g = sm_generation m")
      case True
      with ws_lease.prems have "spent g i a ?m" "a < sm_next_attempt m" by (auto simp: spent_def)
      with k show ?thesis unfolding m' by (auto intro!: spent_set_state)
    next
      case False
      with ws_lease.prems m' show ?thesis by (auto simp: spent_def)
    qed
  qed
next
  case (ws_written m l m')
  then show ?case by (auto simp: mark_written_def res_simps intro!: spent_set_state dest: lease_index_Inr(1))
next
  case (ws_release m l m')
  then show ?case by (auto simp: release_def res_simps intro!: spent_set_state dest: lease_index_Inr(1))
qed

lemma spent_segments:
  assumes "spent g i a m" "sm_generation m' = sm_generation m" "sm_next_attempt m' = sm_next_attempt m"
    and "\<And>s. s \<in> set (sm_segments m') \<Longrightarrow> is_in_flight (sg_state s) \<Longrightarrow>
           \<exists>t \<in> set (sm_segments m). sg_id t = sg_id s \<and> sg_state t = sg_state s"
  shows "spent g i a m'"
  using assms unfolding spent_def by (metis is_in_flight_simps(1))

lemma sm_step_spent: "sm_step m m' \<Longrightarrow> sm_inv m \<Longrightarrow> spent g i a m \<Longrightarrow> spent g i a m'"
proof (induction rule: sm_step.induct)
  case (ss_worker m m')
  then show ?case by (blast intro: worker_step_spent)
next
  case (ss_prepare m m' t)
  then show ?case by (auto dest: prepare_sync_Inr(4) simp: spent_def)
next
  case (ss_sync m t m' b)
  then show ?case by (auto elim!: acknowledge_sync_Inr simp: spent_def)
next
  case (ss_commit m b m')
  from ss_commit.prems(1) ss_commit.hyps show ?case
    by (rule acknowledge_commit_Inr)
      (use ss_commit.prems in \<open>auto intro!: spent_segments [of g i a m] simp: commit_segment_def split: if_splits\<close>)
next
  case (ss_discard_checkpoint m)
  then show ?case by (simp add: discard_checkpoint_def spent_def)
next
  case (ss_discard_unsynced m m')
  then show ?case
    by (auto intro!: spent_segments [of g i a m] simp: discard_unsynced_def unwrite_def split: if_splits)
qed

lemma replace_generation_Suc:
  "replace_generation m n = Inr m' \<Longrightarrow> sm_generation m' = Suc (sm_generation m)"
  by (auto simp: replace_generation_def res_simps split: if_splits dest: sm_inv_new(4))

lemma sm_life_spent: "sm_life m m' \<Longrightarrow> sm_inv m \<Longrightarrow> spent g i a m \<Longrightarrow> spent g i a m'"
proof (induction rule: sm_life.induct)
  case (sl_step m m')
  then show ?case by (rule sm_step_spent)
next
  case (sl_replace m n m')
  then show ?case by (auto dest!: replace_generation_Suc simp: spent_def)
qed

lemma sm_lives_spent:
  "sm_life\<^sup>*\<^sup>* m m' \<Longrightarrow> sm_inv m \<Longrightarrow> spent g i a m \<Longrightarrow> spent g i a m'"
  by (induction rule: rtranclp_induct) (auto dest: sm_life_spent sm_lives_inv)

lemma spent_stale:
  assumes "spent (ls_generation l) (ls_id l) (ls_attempt l) m"
  shows "lease_index m l = Inl StaleToken"
proof (cases "ls_generation l = sm_generation m \<and> ls_job l = sm_job m")
  case False
  then show ?thesis by (auto simp: lease_index_def)
next
  case True
  show ?thesis
  proof (cases "seg_index m (ls_id l)")
    case (Inl e)
    with True show ?thesis by (simp add: lease_index_def)
  next
    case (Inr k)
    with True assms seg_index_Inr [OF Inr] show ?thesis
      by (auto simp: lease_index_def Let_def spent_def)
  qed
qed

section \<open>A checkpoint token is good at most once\<close>

definition retired :: "Generation \<Rightarrow> u64 \<Rightarrow> segment_map \<Rightarrow> bool" where
  "retired g q m \<longleftrightarrow> g < sm_generation m \<or>
     (g = sm_generation m \<and> q < sm_next_checkpoint m \<and>
      (\<forall>c. sm_checkpoint m = Some c \<longrightarrow> cp_sequence c \<noteq> q))"

lemma sm_step_retired: "sm_step m m' \<Longrightarrow> sm_inv m \<Longrightarrow> retired g q m \<Longrightarrow> retired g q m'"
proof (induction rule: sm_step.induct)
  case (ss_worker m m')
  then show ?case by (simp add: retired_def worker_step_frame)
next
  case (ss_prepare m m' t)
  then show ?case by (auto dest!: prepare_sync_Inr(4) simp: retired_def)
next
  case (ss_sync m t m' b)
  then show ?case by (auto elim!: acknowledge_sync_Inr simp: retired_def)
next
  case (ss_commit m b m')
  from ss_commit.prems(1) ss_commit.hyps show ?case
    by (rule acknowledge_commit_Inr) (use ss_commit.prems in \<open>auto simp: retired_def\<close>)
next
  case (ss_discard_checkpoint m)
  then show ?case by (auto simp: discard_checkpoint_def retired_def)
next
  case (ss_discard_unsynced m m')
  then show ?case by (auto simp: discard_unsynced_def retired_def split: if_splits)
qed

lemma sm_life_retired: "sm_life m m' \<Longrightarrow> sm_inv m \<Longrightarrow> retired g q m \<Longrightarrow> retired g q m'"
proof (induction rule: sm_life.induct)
  case (sl_step m m')
  then show ?case by (rule sm_step_retired)
next
  case (sl_replace m n m')
  then show ?case by (auto dest!: replace_generation_Suc simp: retired_def)
qed

lemma sm_lives_retired:
  "sm_life\<^sup>*\<^sup>* m m' \<Longrightarrow> sm_inv m \<Longrightarrow> retired g q m \<Longrightarrow> retired g q m'"
  by (induction rule: rtranclp_induct) (auto dest: sm_life_retired sm_lives_inv)

lemma retired_stale_ticket:
  "retired (st_generation t) (st_sequence t) m \<Longrightarrow> acknowledge_sync m t = Inl StaleToken"
  by (cases "sm_checkpoint m") (auto simp: acknowledge_sync_def retired_def)

lemma retired_stale_batch:
  "retired (cb_generation b) (cb_sequence b) m \<Longrightarrow> acknowledge_commit m b = Inl StaleToken"
  by (cases "sm_checkpoint m") (auto simp: acknowledge_commit_def retired_def)

section \<open>A checkpoint under concurrent workers completes\<close>

lemma acknowledge_sync_succeeds:
  assumes "sm_checkpoint m = Some c" "\<not> cp_synced c" "cp_sequence c = st_sequence t"
    "cp_selection c = st_selection t" "st_job t = sm_job m" "st_generation t = sm_generation m"
  shows "\<exists>m' b. acknowledge_sync m t = Inr (m', b)"
  using assms by (simp add: acknowledge_sync_def)

lemma acknowledge_commit_succeeds:
  assumes inv: "sm_inv m" and c: "sm_checkpoint m = Some c" "cp_synced c"
    "cp_sequence c = cb_sequence b" "cp_selection c = cb_selection b"
    "cb_job b = sm_job m" "cb_generation b = sm_generation m"
  shows "\<exists>m'. acknowledge_commit m b = Inr m'"
proof -
  have ok: "cp_ok m c" using inv c(1) by (simp add: sm_inv_def)
  have ex: "\<exists>k. seg_index m i = Inr k \<and> is_written (sg_state (sm_segments m ! k))"
    if "i \<in> set (cp_ids c)" for i
  proof -
    from ok that obtain s where "s \<in> set (sm_segments m)" "sg_id s = i" "is_written (sg_state s)"
      by (force simp: cp_ok_def entry_written_def)
    then show ?thesis using seg_index_of [OF inv] by (metis in_set_conv_nth)
  qed
  define k where "k i = (SOME k. seg_index m i = Inr k \<and> is_written (sg_state (sm_segments m ! k)))" for i
  have k: "seg_index m i = Inr (k i)" "is_written (sg_state (sm_segments m ! k i))"
    if "i \<in> set (cp_ids c)" for i
    using someI_ex [OF ex [OF that]] unfolding k_def by blast+
  have "collect_res (map (seg_index m) (cp_ids c)) = Inr (map k (cp_ids c))"
    using k(1) by (rule collect_res_map_Inr)
  with c k(2) show ?thesis by (auto simp: acknowledge_commit_def list_ex_iff)
qed

section \<open>Properties\<close>


text \<open>A concrete map over ten bytes and the states a first lease leads it through.\<close>

definition map10 :: "SegmentState \<Rightarrow> u64 \<Rightarrow> u64 \<Rightarrow> checkpoint option \<Rightarrow> segment_map" where
  "map10 st a q c =
     \<lparr>sm_job = 1, sm_generation = 1, sm_total = 10, sm_maximum = 4,
      sm_segments = [\<lparr>sg_id = 1, sg_range = \<lparr>br_start = 0, br_end = 10\<rparr>, sg_state = st\<rparr>],
      sm_next_id = 2, sm_next_attempt = a, sm_next_checkpoint = q, sm_checkpoint = c\<rparr>"

definition lease10 :: lease where
  "lease10 = \<lparr>ls_job = 1, ls_generation = 1, ls_id = 1, ls_attempt = 1, ls_worker = 7,
              ls_range = \<lparr>br_start = 0, br_end = 10\<rparr>\<rparr>"

definition cp10 :: "bool \<Rightarrow> checkpoint" where
  "cp10 synced = \<lparr>cp_sequence = 1, cp_ids = [1],
                  cp_selection = [(1, \<lparr>br_start = 0, br_end = 10\<rparr>, 1)], cp_synced = synced\<rparr>"

definition ticket10 :: sync_ticket where
  "ticket10 = \<lparr>st_job = 1, st_generation = 1, st_sequence = 1,
               st_ranges = [\<lparr>br_start = 0, br_end = 10\<rparr>],
               st_selection = [(1, \<lparr>br_start = 0, br_end = 10\<rparr>, 1)]\<rparr>"

definition batch10 :: commit_batch where
  "batch10 = \<lparr>cb_job = 1, cb_generation = 1, cb_sequence = 1,
              cb_ranges = [\<lparr>br_start = 0, br_end = 10\<rparr>],
              cb_selection = [(1, \<lparr>br_start = 0, br_end = 10\<rparr>, 1)]\<rparr>"

lemmas sample_defs = map10_def lease10_def cp10_def ticket10_def batch10_def

lemma sample_run:
  "segment_map_new 1 1 10 4 = Inr (map10 Pending 1 1 None)"
  "lease_segment (map10 Pending 1 1 None) 1 7 = Inr (map10 (InFlight 7 1) 2 1 None, lease10)"
  "mark_written (map10 (InFlight 7 1) 2 1 None) lease10 = Inr (map10 (Written 1) 2 1 None)"
  "release (map10 (InFlight 7 1) 2 1 None) lease10 = Inr (map10 Pending 2 1 None)"
  "prepare_sync (map10 (Written 1) 2 1 None) = Inr (map10 (Written 1) 2 2 (Some (cp10 False)), ticket10)"
  "acknowledge_sync (map10 (Written 1) 2 2 (Some (cp10 False))) ticket10
     = Inr (map10 (Written 1) 2 2 (Some (cp10 True)), batch10)"
  "acknowledge_commit (map10 (Written 1) 2 2 (Some (cp10 True))) batch10 = Inr (map10 Durable 2 2 None)"
  by (simp_all add: sample_defs segment_defs seg_index_def byte_range_new_def width_simps
      checked_add_def Let_def set_segment_state_def select_entry_def make_durable_def)

lemma sample_inv: "sm_inv (map10 Pending 1 1 None)"
  using sm_inv_new(1) [OF sample_run(1)] .

lemma sample_steps:
  "sm_step (map10 Pending 1 1 None) (map10 (InFlight 7 1) 2 1 None)"
  "sm_step (map10 (InFlight 7 1) 2 1 None) (map10 (Written 1) 2 1 None)"
  "sm_step (map10 (Written 1) 2 1 None) (map10 (Written 1) 2 2 (Some (cp10 False)))"
  "sm_step (map10 (Written 1) 2 2 (Some (cp10 False))) (map10 (Written 1) 2 2 (Some (cp10 True)))"
  "sm_step (map10 (Written 1) 2 2 (Some (cp10 True))) (map10 Durable 2 2 None)"
  using sample_run
  by (blast intro: ss_worker ws_lease ws_written ss_prepare ss_sync ss_commit)+

lemma sample_steps_inv:
  "sm_inv (map10 (InFlight 7 1) 2 1 None)" "sm_inv (map10 (Written 1) 2 1 None)"
  "sm_inv (map10 (Written 1) 2 2 (Some (cp10 False)))"
  "sm_inv (map10 (Written 1) 2 2 (Some (cp10 True)))" "sm_inv (map10 Durable 2 2 None)"
  using sample_inv sample_steps sm_step_inv by meson+


text \<open>
  Progress is never lost within a generation: along any run that does not replace the
  representation, the set of durable offsets and the durable byte count only grow.
\<close>

theorem durable_progress_monotone:
  assumes "sm_inv m" "sm_step\<^sup>*\<^sup>* m m'"
  shows "durable_set m \<subseteq> durable_set m' \<and> durable_bytes m \<le> durable_bytes m'"
proof -
  have inv': "sm_inv m'" using sm_steps_inv assms by blast
  have sub: "durable_set m \<subseteq> durable_set m'" using sm_steps_durable_mono assms by blast
  have "finite (durable_set m')" using durable_set_subset [OF inv'] finite_subset by blast
  with sub show ?thesis using durable_bytes_card assms(1) inv' card_mono by metis
qed

theorem durable_progress_monotone_witness:
  "sm_inv (map10 (Written 1) 2 2 (Some (cp10 True))) \<and>
   durable_bytes (map10 (Written 1) 2 2 (Some (cp10 True))) \<le> durable_bytes (map10 Durable 2 2 None) \<and>
   durable_bytes (map10 Durable 2 2 None) = 10"
proof -
  have "durable_bytes (map10 Durable 2 2 None) = 10"
    by (simp add: durable_bytes_def map10_def br_len_def)
  then show ?thesis
    using durable_progress_monotone [OF sample_steps_inv(4) r_into_rtranclp [where r = sm_step, OF sample_steps(5)]]
      sample_steps_inv(4) by blast
qed

text \<open>
  C2. Written and synced are not durable. A commit makes durable exactly the bytes of the
  selection its batch carries; every other step leaves the durable set as it was.
\<close>

theorem only_commit_makes_durable:
  assumes "sm_inv m" "sm_step m m'"
  shows "durable_set m' = durable_set m \<or>
    (\<exists>b c. acknowledge_commit m b = Inr m' \<and> sm_checkpoint m = Some c \<and> cp_synced c \<and>
       cp_selection c = cb_selection b \<and>
       durable_set m' = durable_set m \<union> selection_bytes (cb_selection b))"
  using assms(2)
proof (cases rule: sm_step.cases)
  case (ss_commit b)
  from assms(1) ss_commit show ?thesis
    by (rule acknowledge_commit_Inr)
      (use acknowledge_commit_durable [OF assms(1) ss_commit] ss_commit in blast)
qed (auto dest: worker_step_frame prepare_sync_durable acknowledge_sync_durable durable_set_unwrite
       simp: discard_checkpoint_def)

theorem only_commit_makes_durable_witness:
  "sm_inv (map10 (Written 1) 2 2 (Some (cp10 True))) \<and>
   sm_step (map10 (Written 1) 2 2 (Some (cp10 True))) (map10 Durable 2 2 None) \<and>
   (\<exists>b :: commit_batch. durable_set (map10 Durable 2 2 None) =
      durable_set (map10 (Written 1) 2 2 (Some (cp10 True))) \<union> selection_bytes (cb_selection b))"
proof -
  have "durable_set (map10 Durable 2 2 None) \<noteq> durable_set (map10 (Written 1) 2 2 (Some (cp10 True)))"
    by (auto simp: durable_set_def map10_def bytes_of_def)
  with only_commit_makes_durable [OF sample_steps_inv(4) sample_steps(5)]
  have "\<exists>b :: commit_batch. durable_set (map10 Durable 2 2 None) =
      durable_set (map10 (Written 1) 2 2 (Some (cp10 True))) \<union> selection_bytes (cb_selection b)"
    by auto
  with sample_steps_inv(4) sample_steps(5) show ?thesis by (intro conjI)
qed

text \<open>
  A checkpoint completes whatever the workers do meanwhile. If a ticket was issued and
  workers then split, steal, lease, write and release in any order, the sync acknowledgement is
  accepted; after more worker steps the commit is accepted too, and the durable bytes are then
  the old ones and exactly those the ticket selected. Bytes written after the ticket was issued
  wait for the next checkpoint.
\<close>

theorem checkpoint_completes:
  assumes "sm_inv m" "prepare_sync m = Inr (m1, t)" "worker_step\<^sup>*\<^sup>* m1 m2"
  shows "\<exists>m3 b. acknowledge_sync m2 t = Inr (m3, b) \<and>
    (\<forall>m4. worker_step\<^sup>*\<^sup>* m3 m4 \<longrightarrow>
      (\<exists>m5. acknowledge_commit m4 b = Inr m5 \<and>
        durable_set m5 = durable_set m \<union> selection_bytes (st_selection t)))"
proof -
  note prep = prepare_sync_Inr [OF assms(2)]
  have inv1: "sm_inv m1" and inv2: "sm_inv m2"
    using sm_inv_prepare_sync [OF assms(1,2)] worker_steps_inv [OF assms(3)] by blast+
  have f2: "sm_job m2 = sm_job m \<and> sm_generation m2 = sm_generation m \<and>
      sm_checkpoint m2 = sm_checkpoint m1 \<and> durable_set m2 = durable_set m"
    using worker_steps_frame [OF assms(3)] prep(4) prepare_sync_durable [OF assms(2)] by simp
  obtain m3 b where sync: "acknowledge_sync m2 t = Inr (m3, b)"
    using acknowledge_sync_succeeds [of m2 _ t] f2 prep(4,5) by auto
  have "\<exists>m5. acknowledge_commit m4 b = Inr m5 \<and>
      durable_set m5 = durable_set m \<union> selection_bytes (st_selection t)"
    if run: "worker_step\<^sup>*\<^sup>* m3 m4" for m4
    using sync
  proof (rule acknowledge_sync_Inr)
    fix c :: checkpoint
    assume c: "sm_checkpoint m2 = Some c" "cp_sequence c = st_sequence t"
      "cp_selection c = st_selection t" "st_job t = sm_job m2" "st_generation t = sm_generation m2"
      and m3: "m3 = m2\<lparr>sm_checkpoint := Some (c\<lparr>cp_synced := True\<rparr>)\<rparr>"
      and b: "b = \<lparr>cb_job = st_job t, cb_generation = st_generation t,
        cb_sequence = st_sequence t, cb_ranges = st_ranges t, cb_selection = st_selection t\<rparr>"
    have inv4: "sm_inv m4"
      using worker_steps_inv [OF run] sm_inv_acknowledge_sync [OF inv2 sync] by blast
    have f4: "sm_job m4 = sm_job m2" "sm_generation m4 = sm_generation m2"
      "sm_checkpoint m4 = Some (c\<lparr>cp_synced := True\<rparr>)" "durable_set m4 = durable_set m"
      using worker_steps_frame [OF run] m3 f2 acknowledge_sync_durable [OF sync] by auto
    obtain m5 where m5: "acknowledge_commit m4 b = Inr m5"
      using acknowledge_commit_succeeds [OF inv4 f4(3), of b] c b f4 by auto
    with acknowledge_commit_durable [OF inv4 m5] f4 b show ?thesis by auto
  qed
  with sync show ?thesis by blast
qed

theorem checkpoint_completes_witness:
  "sm_inv (map10 (Written 1) 2 1 None) \<and>
   (\<exists>m3 b. acknowledge_sync (map10 (Written 1) 2 2 (Some (cp10 False))) ticket10 = Inr (m3, b) \<and>
    (\<exists>m5. acknowledge_commit m3 b = Inr m5 \<and>
      durable_set m5 = durable_set (map10 (Written 1) 2 1 None) \<union> selection_bytes (st_selection ticket10)))"
  using checkpoint_completes [OF sample_steps_inv(2) sample_run(5) rtranclp.rtrancl_refl]
    sample_steps_inv(2) by blast

text \<open>
  A lease is good at most once. Once a lease has been written or released, every later
  state, across any number of operations and replacements, refuses to write or release it
  again with \<open>StaleToken\<close>, so a late worker can never touch a segment it no longer owns.
\<close>

theorem lease_single_use:
  assumes "sm_inv m" "mark_written m l = Inr m' \<or> release m l = Inr m'" "sm_life\<^sup>*\<^sup>* m' m''"
  shows "mark_written m'' l = Inl StaleToken \<and> release m'' l = Inl StaleToken"
proof -
  obtain k st where k: "lease_index m l = Inr k" and m': "m' = set_segment_state m k st"
    and st: "\<And>w. st \<noteq> InFlight w (ls_attempt l)"
    using assms(2) by (auto simp: mark_written_def release_def res_simps)
  note found = lease_index_Inr [OF k]
  have inv': "sm_inv m'"
    using assms(1,2) sm_inv_mark_written sm_inv_release by blast
  have now: "sm_segments m' ! k \<in> set (sm_segments m')" "sg_id (sm_segments m' ! k) = ls_id l"
    "sg_state (sm_segments m' ! k) = st"
    using found m' by (auto simp: set_update_memI)
  have "sg_state s = st" if "s \<in> set (sm_segments m')" "sg_id s = ls_id l" for s
    using sm_inv_same_id [OF inv' that(1) now(1)] that(2) now by simp
  moreover have "ls_attempt l < sm_next_attempt m"
    using assms(1) found(1,3) by (metis nth_mem seg_attempt.simps(1) sm_fresh_def sm_inv_def)
  ultimately have "spent (ls_generation l) (ls_id l) (ls_attempt l) m'"
    using found(6) st m' by (auto simp: spent_def)
  then have "lease_index m'' l = Inl StaleToken"
    using spent_stale sm_lives_spent [OF assms(3) inv'] by blast
  then show ?thesis by (simp add: mark_written_def release_def)
qed

theorem lease_single_use_witness:
  "release (map10 (InFlight 7 1) 2 1 None) lease10 = Inr (map10 Pending 2 1 None) \<and>
   mark_written (map10 Pending 2 1 None) lease10 = Inl StaleToken"
  using lease_single_use [OF sample_steps_inv(1) disjI2 [OF sample_run(4)] rtranclp.rtrancl_refl]
    sample_run(4) by blast

text \<open>
  Checkpoint tokens are good at most once. After a checkpoint is committed or discarded,
  every later state refuses its ticket and its batch with \<open>StaleToken\<close>; a result that arrives
  late from storage can therefore never mark bytes durable.
\<close>

theorem checkpoint_token_single_use:
  assumes "sm_inv m" "sm_checkpoint m = Some c"
    and "m' = discard_checkpoint m \<or> acknowledge_commit m b' = Inr m'" "sm_life\<^sup>*\<^sup>* m' m''"
    and "st_generation t = sm_generation m" "st_sequence t = cp_sequence c"
    and "cb_generation b = sm_generation m" "cb_sequence b = cp_sequence c"
  shows "acknowledge_sync m'' t = Inl StaleToken \<and> acknowledge_commit m'' b = Inl StaleToken"
proof -
  have seq: "cp_sequence c < sm_next_checkpoint m"
    using assms(1,2) by (simp add: sm_inv_def cp_ok_def)
  have m': "sm_checkpoint m' = None \<and> sm_generation m' = sm_generation m \<and>
      sm_next_checkpoint m' = sm_next_checkpoint m"
    using assms(3) by (auto simp: discard_checkpoint_def elim: acknowledge_commit_Inr [OF assms(1)])
  have inv': "sm_inv m'"
    using assms(1,3) sm_inv_discard_checkpoint sm_inv_acknowledge_commit by blast
  have "retired (sm_generation m) (cp_sequence c) m'"
    using m' seq by (simp add: retired_def)
  then have "retired (sm_generation m) (cp_sequence c) m''"
    using sm_lives_retired [OF assms(4) inv'] by blast
  then show ?thesis
    using retired_stale_ticket [of t m''] retired_stale_batch [of b m''] assms(5-8) by simp
qed

theorem checkpoint_token_single_use_witness:
  "acknowledge_sync (discard_checkpoint (map10 (Written 1) 2 2 (Some (cp10 False)))) ticket10 = Inl StaleToken"
  using checkpoint_token_single_use [OF sample_steps_inv(3), of "cp10 False"
      "discard_checkpoint (map10 (Written 1) 2 2 (Some (cp10 False)))" _ _ ticket10 batch10]
  by (simp add: sample_defs)

end
