(* ===== verification/Segment_Restore.thy ===== *)
theory Segment_Restore
  imports Segment_Steps
begin

text \<open>
  Restoring a segment map from persisted durable ranges. The result is characterised by what
  it must be (\<open>restored\<close>): a chain of alternating pending and durable segments whose durable
  part is the union of the given ranges. From that follow the invariant, the round trip of a
  live map through its durable ranges, and that a restored map never needs more segments than
  the live one had, so the capacity check cannot fail on a state the engine itself wrote.
\<close>

section \<open>Merging\<close>

definition ranges_bytes :: "byte_range list \<Rightarrow> nat set" where
  "ranges_bytes rs = (\<Union>r \<in> set rs. bytes_of r)"

definition ascending :: "byte_range list \<Rightarrow> bool" where
  "ascending rs \<longleftrightarrow> sorted_wrt (\<lambda>r q. br_end r \<le> br_start q) rs"

definition spaced :: "u64 \<Rightarrow> byte_range list \<Rightarrow> bool" where
  "spaced n rs \<longleftrightarrow> sorted_wrt (\<lambda>r q. br_end r < br_start q) rs \<and>
     (\<forall>r \<in> set rs. range_ok r \<and> br_end r \<le> n)"

lemma ranges_bytes_simps [simp]:
  "ranges_bytes [] = {}"
  "ranges_bytes (r # rs) = bytes_of r \<union> ranges_bytes rs"
  "ranges_bytes (xs @ ys) = ranges_bytes xs \<union> ranges_bytes ys"
  "ranges_bytes (rev xs) = ranges_bytes xs"
  by (auto simp: ranges_bytes_def)

lemma spaced_snoc:
  "spaced n (rs @ [q]) \<longleftrightarrow>
     spaced n rs \<and> range_ok q \<and> br_end q \<le> n \<and> (\<forall>r \<in> set rs. br_end r < br_start q)"
  by (auto simp: spaced_def sorted_wrt_append)

lemma spaced_extend_last:
  assumes "spaced n (rs @ [q])" "range_ok r" "br_end r \<le> n" "br_start r = br_end q"
  shows "spaced n (rs @ [\<lparr>br_start = br_start q, br_end = br_end r\<rparr>])"
  using assms by (auto simp: spaced_snoc range_ok_def)

lemma spaced_add_last:
  assumes "spaced n (rs @ [q])" "range_ok r" "br_end r \<le> n" "br_end q < br_start r"
  shows "spaced n ((rs @ [q]) @ [r])"
  using assms by (subst spaced_snoc) (force simp: spaced_snoc range_ok_def)

lemma merge_durable_Inr:
  assumes "merge_durable n acc ds = Inr ms" "spaced n (rev acc)" "\<forall>r \<in> set ds. range_ok r"
  shows "spaced n ms \<and> ranges_bytes ms = ranges_bytes acc \<union> ranges_bytes ds"
  using assms
proof (induction n acc ds rule: merge_durable.induct)
  case (1 n acc)
  then show ?case by auto
next
  case (2 n acc r rest)
  show ?case
  proof (cases acc)
    case Nil
    with 2 show ?thesis by (auto simp: spaced_def split: if_splits)
  next
    case (Cons q before)
    have len: "br_end r \<le> n" and ord: "br_end q \<le> br_start r" and rok: "range_ok r"
      using "2.prems" Cons by (auto split: if_splits)
    have sp: "spaced n (rev before @ [q])" using "2.prems"(2) Cons by simp
    show ?thesis
    proof (cases "br_start r = br_end q")
      case True
      let ?q = "\<lparr>br_start = br_start q, br_end = br_end r\<rparr>"
      have run: "merge_durable n (?q # before) rest = Inr ms"
        using "2.prems"(1) Cons True len by (auto simp: res_simps byte_range_new_eq_Inr)
      have new: "byte_range_new (br_start q) (br_end r) = Inr ?q"
        using "2.prems"(1) Cons True len by (auto simp: res_simps byte_range_new_eq_Inr)
      have "spaced n ms \<and> ranges_bytes ms = ranges_bytes (?q # before) \<union> ranges_bytes rest"
        using "2.IH"(2) [of q before ?q] run new Cons True len sp spaced_extend_last [OF sp rok len True]
          "2.prems"(3) by auto
      moreover have "bytes_of ?q = bytes_of q \<union> bytes_of r"
        using True sp rok by (auto simp: bytes_of_def spaced_snoc range_ok_def)
      ultimately show ?thesis using Cons by auto
    next
      case False
      with ord have lt: "br_end q < br_start r" by simp
      have run: "merge_durable n (r # acc) rest = Inr ms"
        using "2.prems"(1) Cons False len ord by auto
      have "spaced n ms \<and> ranges_bytes ms = ranges_bytes (r # acc) \<union> ranges_bytes rest"
        using "2.IH"(3) [of q before] run Cons False len ord spaced_add_last [OF sp rok len lt]
          "2.prems"(3) by auto
      then show ?thesis by auto
    qed
  qed
qed

lemma merge_durable_succeeds:
  assumes "ascending (rev acc @ ds)" "\<forall>r \<in> set (acc @ ds). range_ok r \<and> br_end r \<le> n"
  shows "\<exists>ms. merge_durable n acc ds = Inr ms"
  using assms
proof (induction n acc ds rule: merge_durable.induct)
  case (1 n acc)
  then show ?case by simp
next
  case (2 n acc r rest)
  show ?case
  proof (cases acc)
    case Nil
    with 2 show ?thesis by (auto simp: ascending_def)
  next
    case (Cons q before)
    with "2.prems" have ord: "br_end q \<le> br_start r" and len: "br_end r \<le> n"
      by (auto simp: ascending_def sorted_wrt_append)
    show ?thesis
    proof (cases "br_start r = br_end q")
      case True
      let ?q = "\<lparr>br_start = br_start q, br_end = br_end r\<rparr>"
      have new: "byte_range_new (br_start q) (br_end r) = Inr ?q"
        using "2.prems" Cons True by (auto simp: byte_range_new_eq_Inr range_ok_def)
      have "ascending (rev (?q # before) @ rest)"
        using "2.prems"(1) Cons by (auto simp: ascending_def sorted_wrt_append)
      moreover have "\<forall>x \<in> set ((?q # before) @ rest). range_ok x \<and> br_end x \<le> n"
        using "2.prems"(2) Cons True by (auto simp: range_ok_def)
      ultimately show ?thesis using "2.IH"(2) [of q before ?q] Cons True len new by auto
    next
      case False
      have "\<exists>ms. merge_durable n (r # q # before) rest = Inr ms"
        using "2.IH"(3) [of q before] "2.prems" Cons False ord len by auto
      then show ?thesis using Cons False ord len by auto
    qed
  qed
qed

section \<open>Laying out segments\<close>

definition resting :: "segment list \<Rightarrow> bool" where
  "resting ss \<longleftrightarrow> (\<forall>s \<in> set ss. sg_state s = Pending \<or> sg_state s = Durable)"

definition alternating :: "segment list \<Rightarrow> bool" where
  "alternating ss \<longleftrightarrow> successively (\<lambda>s t. sg_state s \<noteq> sg_state t) ss"

definition seg_durable :: "segment list \<Rightarrow> nat set" where
  "seg_durable ss = (\<Union>s \<in> {s \<in> set ss. sg_state s = Durable}. bytes_of (sg_range s))"

definition laid_out :: "segment list \<Rightarrow> u64 \<Rightarrow> bool" where
  "laid_out ss c \<longleftrightarrow> chain 0 (map sg_range ss) c \<and> map sg_id ss = [1..<Suc (length ss)] \<and>
     resting ss \<and> alternating ss"

lemma durable_set_seg: "durable_set m = seg_durable (sm_segments m)"
  by (simp add: durable_set_def seg_durable_def)

lemma seg_durable_push [simp]:
  "seg_durable (push_segment ss r st) =
     (if st = Durable then seg_durable ss \<union> bytes_of r else seg_durable ss)"
  by (auto simp: seg_durable_def push_segment_def)

lemma laid_out_Nil [simp]: "laid_out [] c \<longleftrightarrow> c = 0"
  by (auto simp: laid_out_def resting_def alternating_def)

lemma laid_out_push:
  assumes "laid_out ss c" "br_start r = c" "c < br_end r" "st = Pending \<or> st = Durable"
    "ss \<noteq> [] \<Longrightarrow> sg_state (last ss) \<noteq> st"
  shows "laid_out (push_segment ss r st) (br_end r)"
  using assms
  by (auto simp: laid_out_def push_segment_def chain_append resting_def alternating_def
      successively_append_iff upt_Suc)

lemma push_last [simp]: "push_segment ss r st \<noteq> []" "sg_state (last (push_segment ss r st)) = st"
  by (simp_all add: push_segment_def)

lemma layout_segments_ok:
  assumes "spaced n ms" "n \<le> I64_MAX" "laid_out ss c"
    and "\<And>r. r \<in> set ms \<Longrightarrow> c \<le> br_start r"
    and "ss \<noteq> [] \<Longrightarrow> sg_state (last ss) = Durable \<and> (\<forall>r \<in> set ms. c < br_start r)"
  shows "\<exists>ss' c'. layout_segments ms c ss = Inr (ss', c') \<and> laid_out ss' c' \<and>
    seg_durable ss' = seg_durable ss \<union> ranges_bytes ms \<and> (c \<le> n \<longrightarrow> c' \<le> n) \<and>
    (ss' \<noteq> [] \<longrightarrow> sg_state (last ss') = Durable)"
  using assms
proof (induction ms arbitrary: ss c)
  case Nil
  then show ?case by auto
next
  case (Cons r ms)
  have r: "range_ok r" "br_end r \<le> n" "spaced n ms" "\<forall>q \<in> set ms. br_end r < br_start q"
    using Cons.prems(1) by (auto simp: spaced_def)
  define gap where "gap = \<lparr>br_start = c, br_end = br_start r\<rparr>"
  define ss1 where "ss1 = (if c < br_start r then push_segment ss gap Pending else ss)"
  have ss1: "laid_out ss1 (br_start r)" "seg_durable ss1 = seg_durable ss"
    "ss1 \<noteq> [] \<Longrightarrow> sg_state (last ss1) \<noteq> Durable"
    using Cons.prems(3,4,5) laid_out_push [of ss c gap Pending]
    by (auto simp: ss1_def gap_def order.order_iff_strict)
  have "laid_out (push_segment ss1 r Durable) (br_end r)"
    using laid_out_push [OF ss1(1) refl, of Durable] ss1(3) r(1) by (auto simp: range_ok_def)
  then obtain ss' c' where IH: "layout_segments ms (br_end r) (push_segment ss1 r Durable) = Inr (ss', c')"
    "laid_out ss' c'" "seg_durable ss' = seg_durable (push_segment ss1 r Durable) \<union> ranges_bytes ms"
    "br_end r \<le> n \<longrightarrow> c' \<le> n" "ss' \<noteq> [] \<longrightarrow> sg_state (last ss') = Durable"
    using Cons.IH [of "push_segment ss1 r Durable" "br_end r"] r Cons.prems(2)
    by (auto simp: less_imp_le)
  have "layout_segments (r # ms) c ss = Inr (ss', c')"
    using IH(1) r Cons.prems(2) by (auto simp: ss1_def gap_def byte_range_new_def range_ok_def)
  with IH r(2) ss1(2) show ?case by auto
qed

section \<open>The restored map\<close>

lemma sm_inv_laid_out:
  assumes "laid_out ss n" "n \<le> I64_MAX" "length ss \<le> k" "1 \<le> k" "k \<le> 262144"
    "sm_segments m = ss" "sm_total m = n" "sm_maximum m = k" "sm_checkpoint m = None"
    "sm_next_id m = length ss + 1" "sm_next_attempt m = 1" "sm_next_checkpoint m = 1"
  shows "sm_inv m"
proof -
  have ids: "map sg_id ss = [1..<Suc (length ss)]" using assms(1) by (simp add: laid_out_def)
  have "set (map sg_id ss) = {1..<Suc (length ss)}" unfolding ids by auto
  then have bound: "0 < sg_id s \<and> sg_id s < Suc (length ss)" if "s \<in> set ss" for s
    using that by fastforce
  have "distinct (map sg_id ss)" unfolding ids by simp
  moreover have "length ss + 1 \<le> U64_MAX" using assms(3,5) by (simp add: width_simps)
  moreover have "seg_attempt (sg_state s) = None" if "s \<in> set ss" for s
    using assms(1) that by (auto simp: laid_out_def resting_def)
  ultimately show ?thesis
    using assms bound by (auto simp: sm_inv_defs laid_out_def)
qed

lemma segment_map_restore_ok:
  assumes ds: "ascending ds" "\<forall>r \<in> set ds. range_ok r \<and> br_end r \<le> n"
    and n: "n \<le> I64_MAX" "1 \<le> k" "k \<le> 262144"
  shows "\<exists>ss. laid_out ss n \<and> seg_durable ss = ranges_bytes ds \<and>
    segment_map_restore job g n k ds =
      (if k < length ss then Inl Capacity
       else Inr \<lparr>sm_job = job, sm_generation = g, sm_total = n, sm_maximum = k,
                 sm_segments = ss, sm_next_id = length ss + 1, sm_next_attempt = 1,
                 sm_next_checkpoint = 1, sm_checkpoint = None\<rparr>)"
proof -
  obtain m0 where m0: "segment_map_new job g n k = Inr m0" "sm_job m0 = job"
    "sm_generation m0 = g" "sm_total m0 = n" "sm_maximum m0 = k" "sm_next_attempt m0 = 1"
    "sm_next_checkpoint m0 = 1" "sm_checkpoint m0 = None"
    using n by (cases "n = 0") (simp_all add: segment_map_new_def byte_range_new_def)
  obtain ms where ms: "merge_durable n [] ds = Inr ms"
    using merge_durable_succeeds [of "[]" ds n] ds by auto
  have sp: "spaced n ms" "ranges_bytes ms = ranges_bytes ds"
    using merge_durable_Inr [OF ms] ds by (auto simp: spaced_def)
  obtain ss c where lay: "layout_segments ms 0 [] = Inr (ss, c)" "laid_out ss c"
    "seg_durable ss = ranges_bytes ds" "c \<le> n" "ss \<noteq> [] \<longrightarrow> sg_state (last ss) = Durable"
    using layout_segments_ok [of n ms "[]" 0] sp n by (auto simp: seg_durable_def)
  define gap where "gap = \<lparr>br_start = c, br_end = n\<rparr>"
  define ss' where "ss' = (if c < n then push_segment ss gap Pending else ss)"
  have "laid_out ss' n" "seg_durable ss' = ranges_bytes ds"
    using lay laid_out_push [of ss c gap Pending] by (auto simp: ss'_def gap_def)
  moreover have "segment_map_restore job g n k ds =
      (if k < length ss' then Inl Capacity
       else Inr (m0\<lparr>sm_next_id := length ss' + 1, sm_segments := ss'\<rparr>))"
    using m0(1) ms lay(1) n by (simp add: segment_map_restore_def ss'_def gap_def byte_range_new_def)
  moreover have "m0\<lparr>sm_next_id := length ss' + 1, sm_segments := ss'\<rparr> =
      \<lparr>sm_job = job, sm_generation = g, sm_total = n, sm_maximum = k,
       sm_segments = ss', sm_next_id = length ss' + 1, sm_next_attempt = 1,
       sm_next_checkpoint = 1, sm_checkpoint = None\<rparr>"
    using m0(2-8) by (cases m0) simp
  ultimately show ?thesis by auto
qed

section \<open>No layout with the same durable bytes is shorter\<close>

lemma seg_durable_status:
  assumes "chain 0 (map sg_range ss) n" "s \<in> set ss" "x \<in> bytes_of (sg_range s)"
  shows "x \<in> seg_durable ss \<longleftrightarrow> sg_state s = Durable"
proof
  assume "x \<in> seg_durable ss"
  then obtain t where "t \<in> set ss" "sg_state t = Durable" "x \<in> bytes_of (sg_range t)"
    by (auto simp: seg_durable_def)
  with chain_unique [OF assms(1) assms(2) _ assms(3)] show "sg_state s = Durable" by blast
next
  assume "sg_state s = Durable"
  with assms show "x \<in> seg_durable ss" by (auto simp: seg_durable_def)
qed

lemma laid_out_fewest:
  assumes lay: "laid_out ss n" and ch: "chain 0 (map sg_range ts) n"
    and same: "seg_durable ts = seg_durable ss"
  shows "length ss \<le> length ts"
proof -
  let ?starts = "\<lambda>ss. set (map br_start (map sg_range ss))"
  have chs: "chain 0 (map sg_range ss) n" using lay by (simp add: laid_out_def)
  have "?starts ss \<subseteq> ?starts ts"
  proof
    fix p assume "p \<in> ?starts ss"
    then obtain i where i: "i < length ss" "p = br_start (sg_range (ss ! i))"
      by (auto simp: in_set_conv_nth)
    have range_i: "br_start (sg_range (ss ! i)) < br_end (sg_range (ss ! i))" "br_end (sg_range (ss ! i)) \<le> n"
      using chain_bounds [OF chs, of "sg_range (ss ! i)"] i(1) by auto
    then have "p \<in> (\<Union>r \<in> set (map sg_range ts). bytes_of r)"
      using chain_cover [OF ch] i(2) by auto
    then obtain t where t: "t \<in> set ts" "p \<in> bytes_of (sg_range t)" by auto
    have "br_start (sg_range t) = p"
    proof (cases i)
      case 0
      with i chain_hd [OF chs] have "p = 0" by auto
      with t show ?thesis by (auto simp: bytes_of_def)
    next
      case (Suc j)
      have j: "br_end (sg_range (ss ! j)) = p"
        using chain_consecutive [OF chs, of j] i Suc by simp
      have "sg_state (ss ! j) \<noteq> sg_state (ss ! i)"
        using lay i(1) Suc by (auto simp: laid_out_def alternating_def successively_conv_nth)
      moreover have "sg_state (ss ! j) \<in> {Pending, Durable}" "sg_state (ss ! i) \<in> {Pending, Durable}"
        using lay i(1) Suc by (auto simp: laid_out_def resting_def)
      ultimately have diff: "(sg_state (ss ! j) = Durable) \<noteq> (sg_state (ss ! i) = Durable)" by auto
      have prev: "p - 1 \<in> bytes_of (sg_range (ss ! j))" "p \<in> bytes_of (sg_range (ss ! i))" "0 < p"
        using chain_bounds [OF chs, of "sg_range (ss ! j)"] i Suc j range_i by (auto simp: bytes_of_def)
      then have "p - 1 \<in> seg_durable ss \<longleftrightarrow> p \<notin> seg_durable ss"
        using diff seg_durable_status [OF chs nth_mem] i(1) Suc by (metis Suc_lessD)
      then have "p - 1 \<notin> bytes_of (sg_range t)"
        using seg_durable_status [OF ch t(1)] t(2) same by blast
      with t(2) prev(3) show ?thesis by (auto simp: bytes_of_def)
    qed
    with t(1) show "p \<in> ?starts ts" by auto
  qed
  then have "card (?starts ss) \<le> card (?starts ts)" by (intro card_mono) auto
  then show ?thesis
    using distinct_card [OF chain_distinct_starts [OF chs]] distinct_card [OF chain_distinct_starts [OF ch]]
    by simp
qed

text \<open>The durable ranges of a map, in the order a repository returns them.\<close>

definition durable_ranges :: "segment_map \<Rightarrow> byte_range list" where
  "durable_ranges m = map sg_range (filter (\<lambda>s. sg_state s = Durable) (sm_segments m))"

lemma durable_ranges_ok:
  assumes "sm_inv m"
  shows "ascending (durable_ranges m)"
    "\<forall>r \<in> set (durable_ranges m). range_ok r \<and> br_end r \<le> sm_total m"
    "ranges_bytes (durable_ranges m) = durable_set m"
proof -
  have "sorted_wrt (\<lambda>r q. br_end r \<le> br_start q) (map sg_range (sm_segments m))"
    using chain_sorted [OF sm_inv_chain [OF assms]] .
  then show "ascending (durable_ranges m)"
    by (simp add: ascending_def durable_ranges_def sorted_wrt_map sorted_wrt_filter)
  show "\<forall>r \<in> set (durable_ranges m). range_ok r \<and> br_end r \<le> sm_total m"
    using sm_inv_range_ok [OF assms] by (auto simp: durable_ranges_def)
  show "ranges_bytes (durable_ranges m) = durable_set m"
    by (auto simp: ranges_bytes_def durable_ranges_def durable_set_def)
qed

lemma restore_same_durable:
  assumes inv: "sm_inv m"
    and ds: "ascending ds" "\<forall>r \<in> set ds. range_ok r \<and> br_end r \<le> sm_total m"
    and same: "ranges_bytes ds = durable_set m"
  obtains m' where "segment_map_restore (sm_job m) (sm_generation m) (sm_total m) (sm_maximum m) ds = Inr m'"
    "sm_inv m'" "durable_set m' = durable_set m" "sm_total m' = sm_total m"
    "sm_maximum m' = sm_maximum m" "sm_generation m' = sm_generation m" "sm_job m' = sm_job m"
    "resting (sm_segments m')" "sm_checkpoint m' = None"
    "length (sm_segments m') \<le> length (sm_segments m)"
proof -
  have n: "sm_total m \<le> I64_MAX" "1 \<le> sm_maximum m" "sm_maximum m \<le> 262144"
    "length (sm_segments m) \<le> sm_maximum m" using inv by (auto simp: sm_inv_defs)
  obtain ss where ss: "laid_out ss (sm_total m)" "seg_durable ss = ranges_bytes ds"
    and eq: "segment_map_restore (sm_job m) (sm_generation m) (sm_total m) (sm_maximum m) ds =
      (if sm_maximum m < length ss then Inl Capacity
       else Inr \<lparr>sm_job = sm_job m, sm_generation = sm_generation m, sm_total = sm_total m,
                 sm_maximum = sm_maximum m, sm_segments = ss, sm_next_id = length ss + 1,
                 sm_next_attempt = 1, sm_next_checkpoint = 1, sm_checkpoint = None\<rparr>)"
    using segment_map_restore_ok [OF ds n(1-3)] by blast
  have few: "length ss \<le> length (sm_segments m)"
    using laid_out_fewest [OF ss(1) sm_inv_chain [OF inv]] ss(2) same by (simp add: durable_set_seg)
  let ?m = "\<lparr>sm_job = sm_job m, sm_generation = sm_generation m, sm_total = sm_total m,
       sm_maximum = sm_maximum m, sm_segments = ss, sm_next_id = length ss + 1,
       sm_next_attempt = 1, sm_next_checkpoint = 1, sm_checkpoint = None\<rparr>"
  have "sm_inv ?m" using sm_inv_laid_out [OF ss(1) n(1) _ n(2,3), of ?m] few n(4) by simp
  moreover have "durable_set ?m = durable_set m" using ss(2) same by (simp add: durable_set_seg)
  ultimately show thesis
    using that [of ?m] eq few n(4) ss(1) by (simp add: laid_out_def)
qed

section \<open>Properties\<close>

text \<open>
  C3. A map rebuilt from persisted ranges trusts exactly those ranges: whatever ascending,
  non-overlapping ranges inside the representation are given, a successful restore yields a
  valid map whose durable bytes are the union of the ranges, in which every other byte is
  pending, nothing is leased or merely written and no checkpoint is pending.
\<close>

theorem restore_trusts_exactly_the_durable_ranges:
  assumes "ascending ds" "\<forall>r \<in> set ds. range_ok r \<and> br_end r \<le> n"
    and "segment_map_restore job g n k ds = Inr m"
  shows "sm_inv m \<and> durable_set m = ranges_bytes ds \<and> sm_total m = n \<and>
    (\<forall>s \<in> set (sm_segments m). sg_state s = Pending \<or> sg_state s = Durable) \<and>
    \<not> has_pending_checkpoint m"
proof -
  have n: "n \<le> I64_MAX" "1 \<le> k" "k \<le> 262144"
    using assms(3) by (auto simp: segment_map_restore_def segment_map_new_def res_simps)
  obtain ss where ss: "laid_out ss n" "seg_durable ss = ranges_bytes ds" "length ss \<le> k"
    and m: "m = \<lparr>sm_job = job, sm_generation = g, sm_total = n, sm_maximum = k,
                 sm_segments = ss, sm_next_id = length ss + 1, sm_next_attempt = 1,
                 sm_next_checkpoint = 1, sm_checkpoint = None\<rparr>"
    using segment_map_restore_ok [OF assms(1,2) n, of job g] assms(3) by (auto split: if_splits)
  have "sm_inv m" using sm_inv_laid_out [OF ss(1) n(1) ss(3) n(2,3), of m] m by simp
  with ss m show ?thesis
    by (auto simp: durable_set_seg laid_out_def resting_def has_pending_checkpoint_def)
qed

theorem restore_trusts_exactly_the_durable_ranges_witness:
  "\<exists>m. segment_map_restore 1 1 10 4 [\<lparr>br_start = 2, br_end = 5\<rparr>, \<lparr>br_start = 5, br_end = 7\<rparr>] = Inr m \<and>
     durable_set m = ranges_bytes [\<lparr>br_start = 2, br_end = 5\<rparr>, \<lparr>br_start = 5, br_end = 7\<rparr>]"
proof -
  let ?ds = "[\<lparr>br_start = 2, br_end = 5\<rparr>, \<lparr>br_start = 5, br_end = 7\<rparr>] :: byte_range list"
  have asc: "ascending ?ds" by (simp add: ascending_def)
  have ok: "\<forall>r \<in> set ?ds. range_ok r \<and> br_end r \<le> 10" by (simp add: range_ok_def width_simps)
  obtain m where m: "segment_map_restore 1 1 10 4 ?ds = Inr m"
    by (simp add: segment_map_restore_def segment_map_new_def byte_range_new_def width_simps push_segment_def)
  show ?thesis using restore_trusts_exactly_the_durable_ranges [OF asc ok m] m by blast
qed

text \<open>
  A live map survives the round trip through its persisted ranges. Restoring from any
  ascending list of ranges with the same union as the durable segments (the repository keeps
  one row per committed extent, so its list may be finer) succeeds, never exceeds the segment
  limit, and gives a map with the same durable bytes, progress and completeness.
\<close>

theorem live_map_restores:
  assumes "sm_inv m" "ascending ds" "\<forall>r \<in> set ds. range_ok r \<and> br_end r \<le> sm_total m"
    and "ranges_bytes ds = durable_set m"
  shows "\<exists>m'. segment_map_restore (sm_job m) (sm_generation m) (sm_total m) (sm_maximum m) ds = Inr m' \<and>
    durable_set m' = durable_set m \<and> durable_bytes m' = durable_bytes m \<and>
    all_durable m' = all_durable m \<and> length (sm_segments m') \<le> length (sm_segments m)"
  using restore_same_durable [OF assms] durable_bytes_card all_durable_iff assms(1) by metis

theorem live_map_restores_witness:
  "sm_inv (map10 Durable 2 2 None) \<and>
   (\<exists>m'. segment_map_restore 1 1 10 4 [\<lparr>br_start = 0, br_end = 10\<rparr>] = Inr m' \<and> all_durable m')"
proof -
  let ?m = "map10 Durable 2 2 None"
  have ds: "durable_ranges ?m = [\<lparr>br_start = 0, br_end = 10\<rparr>]" by (simp add: durable_ranges_def map10_def)
  have "all_durable ?m" by (simp add: all_durable_def map10_def)
  then show ?thesis
    using live_map_restores [OF sample_steps_inv(5) durable_ranges_ok [OF sample_steps_inv(5)]]
      sample_steps_inv(5) unfolding ds by (simp add: map10_def) blast
qed

end
