(* ===== verification/Jobs.thy ===== *)
theory Jobs
  imports Segment_Restore
begin

text \<open>
  The job aggregate (\<open>crates/domain/src/job.rs\<close>): the lifecycle state machine, the planning of
  a command into an event, the checked replay of an event, the rebuilding of a persisted job
  and the segment operations a job admits in its current state.

  \<open>execute\<close> follows the match of the source arm by arm; an or-pattern is written once per
  alternative. It runs on a snapshot in the source, so an error leaves the job as it was. The
  boolean of its result is false for an accepted no-op.
\<close>

section \<open>State\<close>

datatype JobState =
    Queued | Probing | Transferring | Stopping | Paused | RetryWait | NeedsAction
  | Verifying | Publishing | Cancelling | Failed | Completed | Cancelled

datatype StopReason =
    RSourceChanged | RAuthentication | RStorage | RIntegrity | RNetwork | RPolicy | RUnknown
  | RDestination

datatype StopTarget =
    ToVerifying | ToQueued | ToPaused | ToRetryWait u64 | ToNeedsAction StopReason
  | ToFailed StopReason

datatype JobCommand =
    CStart
  | CProbeSucceeded u64 usize "digest option"
  | CPause
  | CResume
  | CCancel
  | CPreempt
  | CAllSegmentsDurable
  | CRetry u64
  | CRequireAction StopReason
  | CFail StopReason
  | CRepresentationChanged
  | CWorkersDrained
  | CRetryDue u64
  | CVerificationPassed
  | CPublishCommitted
  | CCleanupFinished
  | CReplaceRepresentation

fun stop_rank :: "StopTarget \<Rightarrow> u8" where
  "stop_rank ToVerifying = 0"
| "stop_rank ToQueued = 1"
| "stop_rank ToPaused = 2"
| "stop_rank (ToRetryWait _) = 3"
| "stop_rank (ToNeedsAction _) = 4"
| "stop_rank (ToFailed _) = 5"

definition stop_raise :: "StopTarget \<Rightarrow> StopTarget \<Rightarrow> StopTarget" where
  "stop_raise self other =
     (case (self, other) of
        (ToRetryWait a, ToRetryWait b) \<Rightarrow> ToRetryWait (max a b)
      | _ \<Rightarrow> if stop_rank self < stop_rank other then other else self)"

record job_projection =
  jp_state :: JobState
  jp_generation :: Generation
  jp_reason :: "StopReason option"
  jp_retry_at :: "u64 option"
  jp_stop :: "StopTarget option"
  jp_replace_on_drain :: bool
  jp_attempts :: u8
  jp_durable_bytes :: u64
  jp_validator :: "digest option"

record job_event =
  je_job :: JobId
  je_version :: u64
  je_from :: JobState
  je_to :: JobState
  je_generation :: Generation
  je_command :: JobCommand
  je_outcome :: job_projection

record job_record =
  jr_id :: JobId
  jr_spec :: job_spec
  jr_version :: u64
  jr_state :: JobState
  jr_generation :: Generation
  jr_reason :: "StopReason option"
  jr_retry_at :: "u64 option"
  jr_stop :: "StopTarget option"
  jr_replace_on_drain :: bool
  jr_attempts :: u8
  jr_plan :: "(u64 \<times> usize) option"
  jr_validator :: "digest option"
  jr_durable :: "byte_range list"

record job =
  j_id :: JobId
  j_spec :: job_spec
  j_state :: JobState
  j_generation :: Generation
  j_version :: u64
  j_reason :: "StopReason option"
  j_retry_at :: "u64 option"
  j_stop :: "StopTarget option"
  j_replace_on_drain :: bool
  j_attempts :: u8
  j_validator :: "digest option"
  j_segments :: "segment_map option"

section \<open>Construction, restoration and projection\<close>

definition job_snapshot :: "job \<Rightarrow> job" where
  "job_snapshot j =
     \<lparr>j_id = j_id j, j_spec = j_spec j, j_state = j_state j, j_generation = j_generation j,
      j_version = j_version j, j_reason = j_reason j, j_retry_at = j_retry_at j,
      j_stop = j_stop j, j_replace_on_drain = j_replace_on_drain j,
      j_attempts = j_attempts j, j_validator = j_validator j,
      j_segments = map_option sm_snapshot (j_segments j)\<rparr>"

definition job_new :: "JobId \<Rightarrow> job_spec \<Rightarrow> job" where
  "job_new i spec =
     \<lparr>j_id = i, j_spec = spec, j_state = Queued, j_generation = generation_initial,
      j_version = 0, j_reason = None, j_retry_at = None, j_stop = None,
      j_replace_on_drain = False, j_attempts = 0, j_validator = None, j_segments = None\<rparr>"

definition record_consistent :: "job_record \<Rightarrow> bool" where
  "record_consistent r \<longleftrightarrow>
     (jr_stop r \<noteq> None) = (jr_state r = Stopping) \<and>
     (\<not> jr_replace_on_drain r \<or> jr_state r = Stopping) \<and>
     (jr_retry_at r \<noteq> None) = (jr_state r = RetryWait) \<and>
     (jr_reason r \<noteq> None \<or> jr_state r \<notin> {NeedsAction, Failed}) \<and>
     (jr_plan r \<noteq> None \<or> jr_state r \<notin> {Transferring, Verifying, Publishing, Completed}) \<and>
     (jr_plan r \<noteq> None \<or> (jr_durable r = [] \<and> jr_validator r = None)) \<and>
     (case jr_plan r of None \<Rightarrow> True | Some (n, _) \<Rightarrow> n \<le> js_max_bytes (jr_spec r))"

definition job_restore :: "job_record \<Rightarrow> (DomainError, job) result" where
  "job_restore r =
     (if \<not> record_consistent r then Inl InvalidInput
      else
      res_bind (opt_try (\<lambda>(n, maximum).
                  segment_map_restore (jr_id r) (jr_generation r) n maximum (jr_durable r))
                (jr_plan r)) (\<lambda>segments.
      if jr_state r \<in> {Verifying, Publishing, Completed} \<and>
         \<not> (case segments of None \<Rightarrow> False | Some m \<Rightarrow> all_durable m)
      then Inl InvalidInput
      else Inr
        \<lparr>j_id = jr_id r, j_spec = jr_spec r, j_state = jr_state r,
         j_generation = jr_generation r, j_version = jr_version r, j_reason = jr_reason r,
         j_retry_at = jr_retry_at r, j_stop = jr_stop r,
         j_replace_on_drain = jr_replace_on_drain r, j_attempts = jr_attempts r,
         j_validator = jr_validator r, j_segments = segments\<rparr>))"

definition job_plan :: "job \<Rightarrow> (u64 \<times> usize) option" where
  "job_plan j = map_option (\<lambda>m. (sm_total m, sm_maximum m)) (j_segments j)"

definition projection :: "job \<Rightarrow> job_projection" where
  "projection j =
     \<lparr>jp_state = j_state j, jp_generation = j_generation j, jp_reason = j_reason j,
      jp_retry_at = j_retry_at j, jp_stop = j_stop j,
      jp_replace_on_drain = j_replace_on_drain j, jp_attempts = j_attempts j,
      jp_durable_bytes = (case j_segments j of None \<Rightarrow> 0 | Some m \<Rightarrow> durable_bytes m),
      jp_validator = j_validator j\<rparr>"

section \<open>Guards\<close>

definition has_active_leases :: "job \<Rightarrow> bool" where
  "has_active_leases j =
     (case j_segments j of None \<Rightarrow> False
      | Some m \<Rightarrow> list_ex (\<lambda>s. is_in_flight (sg_state s)) (sm_segments m))"

definition quiescent :: "job \<Rightarrow> bool" where
  "quiescent j \<longleftrightarrow> \<not> has_active_leases j \<and>
     \<not> (case j_segments j of None \<Rightarrow> False | Some m \<Rightarrow> has_pending_checkpoint m)"

definition settled :: "job \<Rightarrow> bool" where
  "settled j \<longleftrightarrow> quiescent j \<and>
     (j_replace_on_drain j \<or> \<not> (case j_segments j of None \<Rightarrow> False | Some m \<Rightarrow> has_unsynced m))"

definition job_all_durable :: "job \<Rightarrow> bool" where
  "job_all_durable j = (case j_segments j of None \<Rightarrow> False | Some m \<Rightarrow> all_durable m)"

definition cleanup_ready :: "job \<Rightarrow> bool" where
  "cleanup_ready j \<longleftrightarrow> j_state j = Cancelling \<and> quiescent j"

definition removable :: "job \<Rightarrow> bool" where
  "removable j \<longleftrightarrow>
     j_state j \<in> {Queued, Paused, RetryWait, NeedsAction, Failed, Completed, Cancelled}"

section \<open>Commands\<close>

type_synonym outcome = "(DomainError, bool \<times> job) result"

text \<open>The three ways an arm of the match ends.\<close>

definition enter :: "job \<Rightarrow> JobState \<Rightarrow> outcome" where
  "enter j next = Inr (True, j\<lparr>j_state := next\<rparr>)"

definition no_op :: "job \<Rightarrow> outcome" where
  "no_op j = Inr (False, j)"

definition begin_stop :: "job \<Rightarrow> StopTarget \<Rightarrow> outcome" where
  "begin_stop j target = enter (j\<lparr>j_stop := Some target\<rparr>) Stopping"

definition probe_succeeded :: "job \<Rightarrow> u64 \<Rightarrow> usize \<Rightarrow> digest option \<Rightarrow> outcome" where
  "probe_succeeded j n max_segments validator =
     (if js_max_bytes (j_spec j) < n \<or> \<not> (1 \<le> max_segments \<and> max_segments \<le> 262144)
      then Inl InvalidInput
      else case j_segments j of
        Some m \<Rightarrow>
          if sm_total m \<noteq> n \<or> sm_generation m \<noteq> j_generation j \<or> validator = None
             \<or> validator \<noteq> j_validator j
          then Inl InvalidInput
          else enter j Transferring
      | None \<Rightarrow>
          res_bind (segment_map_new (j_id j) (j_generation j) n max_segments)
            (\<lambda>m. enter (j\<lparr>j_validator := validator, j_segments := Some m\<rparr>) Transferring))"

definition raise_stop :: "job \<Rightarrow> StopTarget \<Rightarrow> outcome" where
  "raise_stop j cause =
     res_bind (ok_or (j_stop j) InvalidTransition) (\<lambda>current.
       let raised = stop_raise current cause in
       if raised = current then no_op j
       else enter (j\<lparr>j_stop := Some raised\<rparr>) Stopping)"

definition drop_replaced :: "job \<Rightarrow> (DomainError, job) result" where
  "drop_replaced j =
     (if j_replace_on_drain j then
        res_bind (generation_next (j_generation j))
          (\<lambda>g. Inr (j\<lparr>j_replace_on_drain := False, j_generation := g,
                     j_segments := None, j_validator := None\<rparr>))
      else Inr j)"

definition land :: "job \<Rightarrow> StopTarget \<Rightarrow> outcome" where
  "land j target =
     (case target of
        ToVerifying \<Rightarrow> enter j (if job_all_durable j then Verifying else Paused)
      | ToPaused \<Rightarrow> enter j Paused
      | ToQueued \<Rightarrow> enter j Queued
      | ToRetryWait at_tick \<Rightarrow> enter (j\<lparr>j_retry_at := Some at_tick\<rparr>) RetryWait
      | ToNeedsAction reason \<Rightarrow> enter (j\<lparr>j_reason := Some reason\<rparr>) NeedsAction
      | ToFailed reason \<Rightarrow> enter (j\<lparr>j_reason := Some reason\<rparr>) Failed)"

definition workers_drained :: "job \<Rightarrow> outcome" where
  "workers_drained j =
     (if \<not> settled j then Inl Incomplete
      else
      res_bind (ok_or (j_stop j) InvalidTransition) (\<lambda>target.
      res_bind (drop_replaced (j\<lparr>j_stop := None\<rparr>)) (\<lambda>drained. land drained target)))"

definition resume_ready :: "job \<Rightarrow> outcome" where
  "resume_ready j = enter j (if job_all_durable j then Verifying else Queued)"

definition cancel_job :: "job \<Rightarrow> outcome" where
  "cancel_job j =
     enter (j\<lparr>j_stop := None, j_replace_on_drain := False, j_retry_at := None\<rparr>) Cancelling"

definition replace_representation :: "job \<Rightarrow> outcome" where
  "replace_representation j =
     res_bind (generation_next (j_generation j)) (\<lambda>g.
       enter (j\<lparr>j_generation := g, j_segments := None, j_validator := None,
               j_reason := None, j_retry_at := None, j_attempts := 0\<rparr>) Queued)"

definition execute :: "job \<Rightarrow> JobCommand \<Rightarrow> outcome" where
  "execute j c =
     (case (j_state j, c) of
        (Queued, CStart) \<Rightarrow> enter (j\<lparr>j_attempts := min (j_attempts j + 1) U8_MAX\<rparr>) Probing
      | (Probing, CProbeSucceeded n k v) \<Rightarrow> probe_succeeded j n k v
      | (Probing, CPause) \<Rightarrow> begin_stop j ToPaused
      | (Transferring, CPause) \<Rightarrow> begin_stop j ToPaused
      | (Probing, CPreempt) \<Rightarrow> begin_stop j ToQueued
      | (Transferring, CPreempt) \<Rightarrow> begin_stop j ToQueued
      | (Probing, CRetry t) \<Rightarrow> begin_stop j (ToRetryWait t)
      | (Transferring, CRetry t) \<Rightarrow> begin_stop j (ToRetryWait t)
      | (Probing, CRequireAction r) \<Rightarrow> begin_stop j (ToNeedsAction r)
      | (Transferring, CRequireAction r) \<Rightarrow> begin_stop j (ToNeedsAction r)
      | (Probing, CFail r) \<Rightarrow> begin_stop j (ToFailed r)
      | (Transferring, CFail r) \<Rightarrow> begin_stop j (ToFailed r)
      | (Probing, CRepresentationChanged) \<Rightarrow>
          begin_stop (j\<lparr>j_replace_on_drain := True\<rparr>) ToQueued
      | (Transferring, CRepresentationChanged) \<Rightarrow>
          begin_stop (j\<lparr>j_replace_on_drain := True\<rparr>) ToQueued
      | (Transferring, CAllSegmentsDurable) \<Rightarrow>
          if \<not> job_all_durable j then Inl Incomplete else begin_stop j ToVerifying
      | (Stopping, CResume) \<Rightarrow>
          if j_stop j \<noteq> Some ToPaused then no_op j
          else enter (j\<lparr>j_stop := Some (if job_all_durable j \<and> \<not> j_replace_on_drain j
                                        then ToVerifying else ToQueued),
                       j_attempts := 0\<rparr>) Stopping
      | (Stopping, CRepresentationChanged) \<Rightarrow>
          if j_replace_on_drain j then no_op j
          else res_bind (ok_or (j_stop j) InvalidTransition) (\<lambda>current.
                 enter (j\<lparr>j_replace_on_drain := True,
                          j_stop := Some (stop_raise current ToQueued)\<rparr>) Stopping)
      | (Stopping, CPause) \<Rightarrow> raise_stop j ToPaused
      | (Stopping, CPreempt) \<Rightarrow> raise_stop j ToQueued
      | (Stopping, CRetry t) \<Rightarrow> raise_stop j (ToRetryWait t)
      | (Stopping, CRequireAction r) \<Rightarrow> raise_stop j (ToNeedsAction r)
      | (Stopping, CFail r) \<Rightarrow> raise_stop j (ToFailed r)
      | (Stopping, CWorkersDrained) \<Rightarrow> workers_drained j
      | (Queued, CPause) \<Rightarrow> enter j Paused
      | (Verifying, CPause) \<Rightarrow> enter j Paused
      | (RetryWait, CPause) \<Rightarrow> enter (j\<lparr>j_retry_at := None\<rparr>) Paused
      | (Paused, CPause) \<Rightarrow> no_op j
      | (NeedsAction, CPause) \<Rightarrow> no_op j
      | (Failed, CPause) \<Rightarrow> no_op j
      | (Cancelling, CPause) \<Rightarrow> no_op j
      | (Paused, CResume) \<Rightarrow> resume_ready (j\<lparr>j_attempts := 0\<rparr>)
      | (RetryWait, CResume) \<Rightarrow> enter (j\<lparr>j_retry_at := None, j_attempts := 0\<rparr>) Queued
      | (NeedsAction, CResume) \<Rightarrow>
          if j_reason j \<in> {Some RSourceChanged, Some RIntegrity} then Inl InvalidTransition
          else resume_ready (j\<lparr>j_reason := None, j_attempts := 0\<rparr>)
      | (Failed, CResume) \<Rightarrow> resume_ready (j\<lparr>j_reason := None, j_attempts := 0\<rparr>)
      | (Queued, CResume) \<Rightarrow> no_op j
      | (Probing, CResume) \<Rightarrow> no_op j
      | (Transferring, CResume) \<Rightarrow> no_op j
      | (Verifying, CResume) \<Rightarrow> no_op j
      | (Publishing, CResume) \<Rightarrow> no_op j
      | (RetryWait, CRetryDue now) \<Rightarrow>
          if (case j_retry_at j of None \<Rightarrow> True | Some at \<Rightarrow> now < at)
          then Inl InvalidTransition
          else enter (j\<lparr>j_retry_at := None\<rparr>) Queued
      | (Verifying, CRequireAction r) \<Rightarrow> enter (j\<lparr>j_reason := Some r\<rparr>) NeedsAction
      | (Publishing, CRequireAction r) \<Rightarrow> enter (j\<lparr>j_reason := Some r\<rparr>) NeedsAction
      | (Verifying, CFail r) \<Rightarrow> enter (j\<lparr>j_reason := Some r\<rparr>) Failed
      | (Verifying, CVerificationPassed) \<Rightarrow> enter j Publishing
      | (Publishing, CPublishCommitted) \<Rightarrow> enter j Completed
      | (Queued, CCancel) \<Rightarrow> cancel_job j
      | (Probing, CCancel) \<Rightarrow> cancel_job j
      | (Transferring, CCancel) \<Rightarrow> cancel_job j
      | (Stopping, CCancel) \<Rightarrow> cancel_job j
      | (Paused, CCancel) \<Rightarrow> cancel_job j
      | (RetryWait, CCancel) \<Rightarrow> cancel_job j
      | (NeedsAction, CCancel) \<Rightarrow> cancel_job j
      | (Verifying, CCancel) \<Rightarrow> cancel_job j
      | (Failed, CCancel) \<Rightarrow> cancel_job j
      | (Cancelling, CCancel) \<Rightarrow> no_op j
      | (Publishing, CPause) \<Rightarrow> Inl PublishInProgress
      | (Publishing, CCancel) \<Rightarrow> Inl PublishInProgress
      | (Cancelling, CCleanupFinished) \<Rightarrow>
          if \<not> quiescent j then Inl Incomplete else enter j Cancelled
      | (NeedsAction, CReplaceRepresentation) \<Rightarrow> replace_representation j
      | (Paused, CReplaceRepresentation) \<Rightarrow> replace_representation j
      | (Failed, CReplaceRepresentation) \<Rightarrow> replace_representation j
      | _ \<Rightarrow> Inl InvalidTransition)"

section \<open>Planning and replay\<close>

definition job_decide :: "job \<Rightarrow> JobCommand \<Rightarrow> (DomainError, job_event list) result" where
  "job_decide j c =
     res_bind (execute (job_snapshot j) c) (\<lambda>(changed, next).
       if \<not> changed then Inr []
       else res_bind (ok_or (checked_add (j_version j) 1) Overflow) (\<lambda>version.
         Inr [\<lparr>je_job = j_id j, je_version = version, je_from = j_state j,
               je_to = j_state next, je_generation = j_generation j, je_command = c,
               je_outcome = projection next\<rparr>]))"

definition job_apply :: "job \<Rightarrow> job_event \<Rightarrow> (DomainError, job) result" where
  "job_apply j e =
     (if je_job e \<noteq> j_id j \<or> je_from e \<noteq> j_state j \<or> je_generation e \<noteq> j_generation j
         \<or> checked_add (j_version j) 1 \<noteq> Some (je_version e)
      then Inl StaleEvent
      else res_bind (execute (job_snapshot j) (je_command e)) (\<lambda>(changed, next).
        if \<not> changed \<or> j_state next \<noteq> je_to e \<or> projection next \<noteq> je_outcome e
        then Inl StaleEvent
        else Inr (next\<lparr>j_version := je_version e\<rparr>)))"

fun apply_all :: "job \<Rightarrow> job_event list \<Rightarrow> (DomainError, job) result" where
  "apply_all j [] = Inr j"
| "apply_all j (e # es) = res_bind (job_apply j e) (\<lambda>j'. apply_all j' es)"

definition job_handle :: "job \<Rightarrow> JobCommand \<Rightarrow> (DomainError, job \<times> job_event list) result" where
  "job_handle j c =
     res_bind (job_decide j c) (\<lambda>events.
     res_bind (apply_all j events) (\<lambda>j'. Inr (j', events)))"

section \<open>Segment operations of a job\<close>

definition map_mut :: "job \<Rightarrow> (DomainError, segment_map) result" where
  "map_mut j =
     (if j_state j \<notin> {Transferring, Stopping, Cancelling} then Inl InvalidTransition
      else ok_or (j_segments j) Incomplete)"

definition put_map :: "job \<Rightarrow> segment_map \<Rightarrow> job" where
  "put_map j m = j\<lparr>j_segments := Some m\<rparr>"

definition job_lease_segment :: "job \<Rightarrow> SegmentId \<Rightarrow> u64 \<Rightarrow> (DomainError, job \<times> lease) result" where
  "job_lease_segment j i worker =
     (if j_state j \<noteq> Transferring then Inl InvalidTransition
      else res_bind (map_mut j) (\<lambda>m. res_bind (lease_segment m i worker)
             (\<lambda>(m', l). Inr (put_map j m', l))))"

definition job_split_pending :: "job \<Rightarrow> SegmentId \<Rightarrow> u64 \<Rightarrow> (DomainError, job \<times> SegmentId) result"
where
  "job_split_pending j i at =
     (if j_state j \<noteq> Transferring then Inl InvalidTransition
      else res_bind (map_mut j) (\<lambda>m. res_bind (split_pending m i at)
             (\<lambda>(m', r). Inr (put_map j m', r))))"

definition job_mark_written :: "job \<Rightarrow> lease \<Rightarrow> (DomainError, job) result" where
  "job_mark_written j l =
     res_bind (map_mut j) (\<lambda>m. res_bind (mark_written m l) (\<lambda>m'. Inr (put_map j m')))"

definition job_release :: "job \<Rightarrow> lease \<Rightarrow> (DomainError, job) result" where
  "job_release j l =
     res_bind (map_mut j) (\<lambda>m. res_bind (release m l) (\<lambda>m'. Inr (put_map j m')))"

definition abandon_checkpoint :: "job \<Rightarrow> (DomainError, job) result" where
  "abandon_checkpoint j = res_bind (map_mut j) (\<lambda>m. Inr (put_map j (discard_checkpoint m)))"

definition job_discard_unsynced :: "job \<Rightarrow> (DomainError, job) result" where
  "job_discard_unsynced j =
     (if j_state j \<noteq> Stopping then Inl InvalidTransition
      else res_bind (map_mut j) (\<lambda>m. res_bind (discard_unsynced m) (\<lambda>m'. Inr (put_map j m'))))"

definition job_prepare_sync :: "job \<Rightarrow> (DomainError, job \<times> sync_ticket) result" where
  "job_prepare_sync j =
     res_bind (map_mut j) (\<lambda>m. res_bind (prepare_sync m) (\<lambda>(m', t). Inr (put_map j m', t)))"

definition job_acknowledge_sync ::
  "job \<Rightarrow> sync_ticket \<Rightarrow> (DomainError, job \<times> commit_batch) result" where
  "job_acknowledge_sync j t =
     res_bind (map_mut j) (\<lambda>m. res_bind (acknowledge_sync m t)
       (\<lambda>(m', b). Inr (put_map j m', b)))"

definition job_acknowledge_commit :: "job \<Rightarrow> commit_batch \<Rightarrow> (DomainError, job) result" where
  "job_acknowledge_commit j b =
     res_bind (map_mut j) (\<lambda>m. res_bind (acknowledge_commit m b) (\<lambda>m'. Inr (put_map j m')))"

lemma job_snapshot_id [simp]: "job_snapshot j = j"
  by (cases "j_segments j") (simp_all add: job_snapshot_def)

lemmas arm_defs =
  enter_def no_op_def begin_stop_def probe_succeeded_def raise_stop_def workers_drained_def
  drop_replaced_def land_def
  resume_ready_def cancel_job_def replace_representation_def

end
