(* ===== verification/Job_Invariant.thy ===== *)
theory Job_Invariant
  imports Jobs
begin

text \<open>
  The invariant of the job aggregate and its preservation by every command, by every segment
  operation and by a restart from the persisted record. \<open>job_step\<close> is what a live process can
  do to a job, \<open>job_life\<close> adds restarts.

  The invariant ties the lifecycle fields to the state (a stop target exactly while stopping, a
  retry tick exactly while waiting, a reason wherever one is shown), the segment map to the job
  and its generation, and the state to the map: bytes under verification are all durable and a
  job at rest has neither lease nor unsynced byte nor open checkpoint.
\<close>

section \<open>The invariant\<close>

definition lifecycle_inv :: "job \<Rightarrow> bool" where
  "lifecycle_inv j \<longleftrightarrow>
     identifier_ok (j_id j) \<and> spec_ok (j_spec j) \<and> identifier_ok (j_generation j) \<and>
     j_version j \<le> U64_MAX \<and> j_attempts j \<le> U8_MAX \<and>
     (j_stop j = None \<longleftrightarrow> j_state j \<noteq> Stopping) \<and>
     (j_replace_on_drain j \<longrightarrow> j_state j = Stopping) \<and>
     (j_retry_at j = None \<longleftrightarrow> j_state j \<noteq> RetryWait) \<and>
     (j_state j \<in> {NeedsAction, Failed} \<longrightarrow> j_reason j \<noteq> None)"

definition at_rest :: "JobState \<Rightarrow> bool" where
  "at_rest s \<longleftrightarrow> s \<notin> {Transferring, Stopping, Cancelling, Cancelled}"

definition map_inv :: "job \<Rightarrow> segment_map \<Rightarrow> bool" where
  "map_inv j m \<longleftrightarrow>
     sm_inv m \<and> sm_job m = j_id j \<and> sm_generation m = j_generation j \<and>
     sm_total m \<le> js_max_bytes (j_spec j) \<and>
     (j_state j \<in> {Verifying, Publishing, Completed} \<longrightarrow> all_durable m) \<and>
     (j_stop j = Some ToVerifying \<longrightarrow> all_durable m \<and> \<not> j_replace_on_drain j) \<and>
     (at_rest (j_state j) \<longrightarrow> resting (sm_segments m) \<and> sm_checkpoint m = None) \<and>
     (j_state j = Cancelled \<longrightarrow>
        (\<forall>s \<in> set (sm_segments m). \<not> is_in_flight (sg_state s)) \<and> sm_checkpoint m = None)"

definition segments_inv :: "job \<Rightarrow> bool" where
  "segments_inv j \<longleftrightarrow>
     (case j_segments j of
        None \<Rightarrow> j_validator j = None \<and> j_stop j \<noteq> Some ToVerifying \<and>
                j_state j \<notin> {Transferring, Verifying, Publishing, Completed}
      | Some m \<Rightarrow> map_inv j m)"

definition job_inv :: "job \<Rightarrow> bool" where
  "job_inv j \<longleftrightarrow> lifecycle_inv j \<and> segments_inv j"

lemma job_inv_new: "identifier_ok i \<Longrightarrow> spec_ok s \<Longrightarrow> job_inv (job_new i s)"
  by (simp add: job_inv_def lifecycle_inv_def segments_inv_def job_new_def width_simps)

section \<open>Commands\<close>

lemma stop_raise_cases: "stop_raise a b \<in> {a, b} \<or> (\<exists>t. stop_raise a b = ToRetryWait t)"
  by (cases a; cases b) (auto simp: stop_raise_def)

lemma stop_raise_verifying [simp]:
  "stop_raise a ToQueued \<noteq> ToVerifying"
  "stop_raise a ToPaused \<noteq> ToVerifying"
  "stop_raise a (ToRetryWait t) \<noteq> ToVerifying"
  "stop_raise a (ToNeedsAction r) \<noteq> ToVerifying"
  "stop_raise a (ToFailed r) \<noteq> ToVerifying"
  by (cases a; simp add: stop_raise_def)+

lemma Suc_identifier_ok: "Suc g \<le> U64_MAX \<Longrightarrow> identifier_ok (Suc g)"
  by (simp add: identifier_ok_def)


lemma job_invI: "lifecycle_inv j \<Longrightarrow> segments_inv j \<Longrightarrow> job_inv j"
  by (simp add: job_inv_def)

lemma job_invD: "job_inv j \<Longrightarrow> lifecycle_inv j" "job_inv j \<Longrightarrow> segments_inv j"
  by (simp_all add: job_inv_def)

lemma enter_eq [simp]: "enter j s = Inr (ch, j') \<longleftrightarrow> ch \<and> j' = j\<lparr>j_state := s\<rparr>"
  by (auto simp: enter_def)

lemma no_op_eq [simp]: "no_op j = Inr (ch, j') \<longleftrightarrow> \<not> ch \<and> j' = j"
  by (auto simp: no_op_def)

text \<open>What no arm but a probe, a drain and a replacement touches.\<close>

definition same_core :: "job \<Rightarrow> job \<Rightarrow> bool" where
  "same_core j k \<longleftrightarrow>
     j_id k = j_id j \<and> j_spec k = j_spec j \<and> j_generation k = j_generation j \<and>
     j_version k = j_version j \<and> j_validator k = j_validator j \<and> j_segments k = j_segments j"

text \<open>Between resting states, while a stop is under way, after verification has begun, and into
  cancellation.\<close>

definition ids_inv :: "job \<Rightarrow> bool" where
  "ids_inv j \<longleftrightarrow> identifier_ok (j_id j) \<and> spec_ok (j_spec j) \<and> identifier_ok (j_generation j) \<and>
     j_version j \<le> U64_MAX"

lemma ids_inv_lifecycle: "job_inv j \<Longrightarrow> ids_inv j"
  by (simp add: job_inv_def lifecycle_inv_def ids_inv_def)

lemma rest_inv:
  assumes "job_inv j" "same_core j k" "at_rest (j_state j)" "j_state k \<in> {Queued, Probing, Paused}"
    and "j_stop k = None" "\<not> j_replace_on_drain k" "j_retry_at k = None" "j_attempts k \<le> U8_MAX"
  shows "job_inv k"
proof (rule job_invI)
  show "lifecycle_inv k"
    using ids_inv_lifecycle [OF assms(1)] assms(2-)
    by (elim insertE emptyE; simp add: lifecycle_inv_def same_core_def ids_inv_def)
  show "segments_inv k"
    using job_invD(2) [OF assms(1)] assms(2-)
    by (cases "j_segments j"; elim insertE emptyE; simp add: segments_inv_def map_inv_def same_core_def)
qed

lemma stopping_inv:
  assumes "job_inv j" "same_core j k" "j_state j \<in> {Probing, Transferring, Stopping}"
    and "j_state k = Stopping" "j_stop k = Some t" "j_retry_at k = None" "j_attempts k \<le> U8_MAX"
    and "t = ToVerifying \<longrightarrow> job_all_durable j \<and> \<not> j_replace_on_drain k"
  shows "job_inv k"
proof (rule job_invI)
  show "lifecycle_inv k"
    using ids_inv_lifecycle [OF assms(1)] assms(2-7) by (simp add: lifecycle_inv_def same_core_def ids_inv_def)
  show "segments_inv k"
    using job_invD(2) [OF assms(1)] assms(2,4,5,8)
    by (cases "j_segments j"; cases t;
        simp add: segments_inv_def map_inv_def at_rest_def same_core_def job_all_durable_def)
qed

lemma verified_inv:
  assumes "job_inv j" "same_core j k" "j_state j \<in> {Paused, NeedsAction, Failed, Verifying, Publishing}"
    and "job_all_durable j" "j_state k \<in> {Verifying, Publishing, Completed, NeedsAction, Failed}"
    and "j_stop k = None" "\<not> j_replace_on_drain k" "j_retry_at k = None" "j_attempts k \<le> U8_MAX"
    and "j_state k \<in> {NeedsAction, Failed} \<longrightarrow> j_reason k \<noteq> None"
  shows "job_inv k"
proof (rule job_invI)
  show "lifecycle_inv k"
    using ids_inv_lifecycle [OF assms(1)] assms(2-)
    by (elim insertE emptyE; simp add: lifecycle_inv_def same_core_def ids_inv_def)
  show "segments_inv k"
  proof (cases "j_segments j")
    case None
    then show ?thesis using assms(4) by (simp add: job_all_durable_def)
  next
    case (Some m)
    have "at_rest (j_state j)" using assms(3) by (auto simp: at_rest_def)
    moreover have "at_rest (j_state k)" "j_state k \<noteq> Cancelled" using assms(5) by (auto simp: at_rest_def)
    ultimately show ?thesis
      using job_invD(2) [OF assms(1)] assms(2,4,6) Some
      by (simp add: segments_inv_def map_inv_def same_core_def job_all_durable_def)
  qed
qed

lemma cancel_inv:
  assumes "job_inv j" "same_core j k" "j_state k = Cancelling"
    and "j_stop k = None" "\<not> j_replace_on_drain k" "j_retry_at k = None" "j_attempts k \<le> U8_MAX"
  shows "job_inv k"
proof (rule job_invI)
  show "lifecycle_inv k"
    using ids_inv_lifecycle [OF assms(1)] assms(2-) by (simp add: lifecycle_inv_def same_core_def ids_inv_def)
  show "segments_inv k"
    using job_invD(2) [OF assms(1)] assms(2-)
    by (simp add: segments_inv_def map_inv_def at_rest_def same_core_def split: option.splits)
qed

lemma probe_succeeded_inv:
  assumes "probe_succeeded j n k v = Inr (ch, j')" "job_inv j" "j_state j = Probing"
  shows "job_inv j'"
proof (rule job_invI)
  show "lifecycle_inv j'"
    using assms(1,3) job_invD(1) [OF assms(2)]
    by (auto simp: probe_succeeded_def lifecycle_inv_def res_simps split: option.splits if_splits)
  show "segments_inv j'"
    using assms(1,3) job_invD(2) [OF assms(2)] job_invD(1) [OF assms(2)]
    by (auto simp: probe_succeeded_def lifecycle_inv_def segments_inv_def map_inv_def
        at_rest_def res_simps sm_inv_new split: option.splits if_splits)
qed

lemma settled_resting:
  assumes "settled j" "\<not> j_replace_on_drain j" "j_segments j = Some m"
  shows "resting (sm_segments m)" "sm_checkpoint m = None"
proof -
  have "sg_state s = Pending \<or> sg_state s = Durable" if "s \<in> set (sm_segments m)" for s
    using assms that
    by (cases "sg_state s")
      (auto simp: settled_def quiescent_def has_active_leases_def has_unsynced_def list_ex_iff)
  then show "resting (sm_segments m)" by (simp add: resting_def)
  show "sm_checkpoint m = None"
    using assms by (auto simp: settled_def quiescent_def has_pending_checkpoint_def)
qed


text \<open>Draining: the map is either dropped with its generation or already at rest.\<close>

definition drained :: "job \<Rightarrow> bool" where
  "drained j \<longleftrightarrow>
     identifier_ok (j_id j) \<and> spec_ok (j_spec j) \<and> identifier_ok (j_generation j) \<and>
     j_version j \<le> U64_MAX \<and> j_attempts j \<le> U8_MAX \<and>
     j_stop j = None \<and> \<not> j_replace_on_drain j \<and> j_retry_at j = None \<and>
     (case j_segments j of
        None \<Rightarrow> j_validator j = None
      | Some m \<Rightarrow> sm_inv m \<and> sm_job m = j_id j \<and> sm_generation m = j_generation j \<and>
                  sm_total m \<le> js_max_bytes (j_spec j) \<and>
                  resting (sm_segments m) \<and> sm_checkpoint m = None)"

lemma drop_replaced_drained:
  assumes "job_inv j" "j_state j = Stopping" "settled j"
    and "drop_replaced (j\<lparr>j_stop := None\<rparr>) = Inr k"
  shows "drained k \<and> (\<not> j_replace_on_drain j \<longrightarrow> k = j\<lparr>j_stop := None\<rparr>)"
proof -
  note inv = job_invD [OF assms(1)]
  show ?thesis
  proof (cases "j_replace_on_drain j")
    case True
    then show ?thesis
      using assms(2,4) inv(1)
      by (auto simp: drop_replaced_def drained_def lifecycle_inv_def res_simps Suc_identifier_ok)
  next
    case False
    then have k: "k = j\<lparr>j_stop := None\<rparr>" using assms(4) by (simp add: drop_replaced_def)
    show ?thesis
      using assms(2) inv settled_resting [OF assms(3) False] False
      unfolding k drained_def lifecycle_inv_def segments_inv_def map_inv_def
      by (auto split: option.splits)
  qed
qed

lemma drained_lands:
  assumes "drained j" "st \<in> {Verifying, Paused, Queued, RetryWait, NeedsAction, Failed}"
    and "st = Verifying \<Longrightarrow> job_all_durable j"
    and "t = None \<longleftrightarrow> st \<noteq> RetryWait" "st \<in> {NeedsAction, Failed} \<Longrightarrow> r \<noteq> None"
  shows "job_inv (j\<lparr>j_retry_at := t, j_reason := r, j_state := st\<rparr>)"
proof (rule job_invI)
  let ?j = "j\<lparr>j_retry_at := t, j_reason := r, j_state := st\<rparr>"
  show "lifecycle_inv ?j" using assms by (auto simp: drained_def lifecycle_inv_def)
  show "segments_inv ?j"
    using assms(1-3)
    by (auto simp: drained_def segments_inv_def map_inv_def job_all_durable_def split: option.splits)
qed

lemma land_inv:
  assumes "drained j" "land j target = Inr (ch, j')"
  shows "job_inv j'"
proof -
  have r: "j_retry_at j = None" using assms(1) by (simp add: drained_def)
  have keep: "j\<lparr>j_retry_at := None\<rparr> = j" using r by (cases j) simp
  show ?thesis
  proof (cases target)
    case (ToRetryWait t)
    then show ?thesis
      using drained_lands [OF assms(1), of RetryWait "Some t" "j_reason j"] assms(2) by (simp add: land_def)
  next
    case (ToNeedsAction x)
    then show ?thesis
      using drained_lands [OF assms(1), of NeedsAction None "Some x"] assms(2) by (simp add: land_def keep)
  next
    case (ToFailed x)
    then show ?thesis
      using drained_lands [OF assms(1), of Failed None "Some x"] assms(2) by (simp add: land_def keep)
  qed (use drained_lands [OF assms(1), of _ None "j_reason j"] assms(2) in \<open>auto simp: land_def keep\<close>)
qed

lemma workers_drained_inv:
  assumes "workers_drained j = Inr (ch, j')" "job_inv j" "j_state j = Stopping"
  shows "job_inv j'"
  using assms(1) drop_replaced_drained [OF assms(2,3)] land_inv
  by (fastforce simp: workers_drained_def res_simps)

text \<open>Leaving the life cycle.\<close>

lemma replace_representation_inv:
  assumes "replace_representation j = Inr (ch, j')" "job_inv j" "j_state j \<in> {NeedsAction, Paused, Failed}"
  shows "job_inv j'"
proof (rule job_invI)
  show "lifecycle_inv j'"
    using assms(1,3) job_invD(1) [OF assms(2)]
    by (elim insertE emptyE; clarsimp simp: replace_representation_def lifecycle_inv_def res_simps Suc_identifier_ok)
  show "segments_inv j'"
    using assms(1,3) job_invD [OF assms(2)]
    by (elim insertE emptyE; clarsimp simp: replace_representation_def segments_inv_def lifecycle_inv_def res_simps)
qed

lemma cleanup_inv:
  assumes "job_inv j" "j_state j = Cancelling" "quiescent j"
  shows "job_inv (j\<lparr>j_state := Cancelled\<rparr>)"
proof (rule job_invI)
  let ?j = "j\<lparr>j_state := Cancelled\<rparr>"
  show "lifecycle_inv ?j" using job_invD(1) [OF assms(1)] assms(2) by (auto simp: lifecycle_inv_def)
  show "segments_inv ?j"
    using job_invD(2) [OF assms(1)] assms(2,3)
    by (auto simp: segments_inv_def map_inv_def at_rest_def quiescent_def has_active_leases_def
        has_pending_checkpoint_def list_ex_iff split: option.splits)
qed



lemma job_inv_clear:
  assumes "job_inv j"
  shows "j_state j \<noteq> Stopping \<Longrightarrow> j_stop j = None" "j_state j \<noteq> Stopping \<Longrightarrow> \<not> j_replace_on_drain j"
    "j_state j \<noteq> RetryWait \<Longrightarrow> j_retry_at j = None" "j_attempts j \<le> U8_MAX"
    "j_state j \<in> {Verifying, Publishing, Completed} \<Longrightarrow> job_all_durable j"
  using job_invD [OF assms]
  by (auto simp: lifecycle_inv_def segments_inv_def map_inv_def job_all_durable_def split: option.splits)

lemma execute_inv_working:
  assumes "execute j c = Inr (ch, j')" "job_inv j" "j_state j \<in> {Probing, Transferring}"
  shows "job_inv j'"
proof -
  note clear = job_inv_clear [OF assms(2)]
  show ?thesis
    using assms clear
    by (elim insertE emptyE; cases c;
      simp add: execute_def begin_stop_def cancel_job_def split: if_splits)
      (auto simp: same_core_def intro: probe_succeeded_inv stopping_inv cancel_inv)
qed

lemma execute_inv_stopping:
  assumes "execute j c = Inr (ch, j')" "job_inv j" "j_state j = Stopping"
  shows "job_inv j'"
  using assms job_inv_clear [OF assms(2)]
  by (cases c; simp add: execute_def cancel_job_def raise_stop_def Let_def res_simps split: if_splits)
    (auto simp: same_core_def intro: workers_drained_inv stopping_inv cancel_inv)

lemma execute_inv_resting:
  assumes "execute j c = Inr (ch, j')" "job_inv j"
    and "j_state j \<in> {Queued, Paused, RetryWait, NeedsAction, Failed}"
  shows "job_inv j'"
  using assms job_inv_clear [OF assms(2)]
  by (elim insertE emptyE; cases c;
      simp add: execute_def cancel_job_def resume_ready_def split: if_splits option.splits)
    (auto simp: same_core_def at_rest_def job_all_durable_def split: option.splits
      intro: rest_inv verified_inv cancel_inv replace_representation_inv)

lemma execute_inv_ending:
  assumes "execute j c = Inr (ch, j')" "job_inv j"
    and "j_state j \<in> {Verifying, Publishing, Cancelling, Completed, Cancelled}"
  shows "job_inv j'"
  using assms job_inv_clear [OF assms(2)]
  by (elim insertE emptyE; cases c; simp add: execute_def cancel_job_def split: if_splits)
    (auto simp: same_core_def at_rest_def intro: rest_inv verified_inv cancel_inv cleanup_inv)

lemma execute_inv: "execute j c = Inr (ch, j') \<Longrightarrow> job_inv j \<Longrightarrow> job_inv j'"
  using execute_inv_working execute_inv_stopping execute_inv_resting execute_inv_ending
  by (cases "j_state j") blast+

section \<open>Replay\<close>

lemma job_inv_version: "job_inv j \<Longrightarrow> v \<le> U64_MAX \<Longrightarrow> job_inv (j\<lparr>j_version := v\<rparr>)"
  by (simp add: job_inv_def lifecycle_inv_def segments_inv_def map_inv_def cong: option.case_cong)

lemma job_apply_Inr:
  assumes "job_apply j e = Inr j'"
  obtains k where "execute j (je_command e) = Inr (True, k)" "j' = k\<lparr>j_version := Suc (j_version j)\<rparr>"
    "Suc (j_version j) \<le> U64_MAX" "je_version e = Suc (j_version j)" "je_job e = j_id j"
    "je_from e = j_state j" "je_to e = j_state k" "je_generation e = j_generation j"
    "je_outcome e = projection k"
  using assms by (fastforce simp: job_apply_def res_simps split: if_splits)

lemma job_apply_inv: "job_apply j e = Inr j' \<Longrightarrow> job_inv j \<Longrightarrow> job_inv j'"
  by (erule job_apply_Inr) (auto intro: job_inv_version dest: execute_inv)

section \<open>Segment operations\<close>

inductive segment_op :: "job \<Rightarrow> job \<Rightarrow> bool" where
  so_lease: "job_lease_segment j i w = Inr (j', l) \<Longrightarrow> segment_op j j'"
| so_split: "job_split_pending j i at = Inr (j', r) \<Longrightarrow> segment_op j j'"
| so_written: "job_mark_written j l = Inr j' \<Longrightarrow> segment_op j j'"
| so_release: "job_release j l = Inr j' \<Longrightarrow> segment_op j j'"
| so_abandon: "abandon_checkpoint j = Inr j' \<Longrightarrow> segment_op j j'"
| so_discard: "job_discard_unsynced j = Inr j' \<Longrightarrow> segment_op j j'"
| so_prepare: "job_prepare_sync j = Inr (j', t) \<Longrightarrow> segment_op j j'"
| so_sync: "job_acknowledge_sync j t = Inr (j', b) \<Longrightarrow> segment_op j j'"
| so_commit: "job_acknowledge_commit j b = Inr j' \<Longrightarrow> segment_op j j'"

lemmas job_op_defs =
  job_lease_segment_def job_split_pending_def job_mark_written_def job_release_def
  abandon_checkpoint_def job_discard_unsynced_def job_prepare_sync_def job_acknowledge_sync_def
  job_acknowledge_commit_def

lemma map_mut_Inr:
  "map_mut j = Inr m \<longleftrightarrow> j_state j \<in> {Transferring, Stopping, Cancelling} \<and> j_segments j = Some m"
  by (auto simp: map_mut_def res_simps)

lemma segment_op_step:
  assumes "segment_op j j'"
  obtains m m' where "map_mut j = Inr m" "sm_step m m'" "j' = put_map j m'"
  using assms
  by (induction rule: segment_op.induct)
    (fastforce simp: job_op_defs res_simps split: if_splits prod.splits
      intro: sm_step.intros worker_step.intros)+

lemma sm_step_frame:
  "sm_step m m' \<Longrightarrow> sm_job m' = sm_job m \<and> sm_generation m' = sm_generation m \<and> sm_total m' = sm_total m"
proof (induction rule: sm_step.induct)
  case (ss_worker m m')
  then show ?case by (simp add: worker_step_frame)
next
  case (ss_prepare m m' t)
  then show ?case by (auto simp: prepare_sync_def Let_def res_simps split: if_splits)
next
  case (ss_sync m t m' b)
  then show ?case by (rule acknowledge_sync_Inr) simp
next
  case (ss_commit m b m')
  then show ?case by (auto simp: acknowledge_commit_def res_simps split: if_splits)
next
  case (ss_discard_checkpoint m)
  then show ?case by (simp add: discard_checkpoint_def)
next
  case (ss_discard_unsynced m m')
  then show ?case by (auto simp: discard_unsynced_def split: if_splits)
qed

lemma sm_step_all_durable:
  assumes "sm_step m m'" "sm_inv m" "all_durable m"
  shows "all_durable m'"
proof -
  have "sm_inv m'" using assms(1,2) by (rule sm_step_inv)
  moreover have "durable_set m' = {0..<sm_total m'}"
    using assms sm_step_durable_mono [OF assms(1,2)] durable_set_subset [OF \<open>sm_inv m'\<close>]
      sm_step_frame [OF assms(1)] by (auto simp: all_durable_iff)
  ultimately show ?thesis by (simp add: all_durable_iff)
qed

lemma segment_op_inv:
  assumes "segment_op j j'" "job_inv j"
  shows "job_inv j'"
proof -
  obtain m m' where m: "map_mut j = Inr m" "sm_step m m'" "j' = put_map j m'"
    using assms(1) by (rule segment_op_step)
  have j: "j_segments j = Some m" "j_state j \<in> {Transferring, Stopping, Cancelling}"
    using m(1) by (auto simp: map_mut_Inr)
  have mi: "map_inv j m" using job_invD(2) [OF assms(2)] j(1) by (simp add: segments_inv_def)
  then have inv: "sm_inv m" by (simp add: map_inv_def)
  have "sm_inv m'" using m(2) inv by (rule sm_step_inv)
  moreover have "all_durable m \<longrightarrow> all_durable m'" using sm_step_all_durable [OF m(2) inv] by simp
  moreover have "\<not> at_rest (j_state j)" "j_state j \<notin> {Verifying, Publishing, Completed, Cancelled}"
    using j(2) by (auto simp: at_rest_def)
  ultimately have "map_inv j' m'"
    using mi sm_step_frame [OF m(2)] unfolding m(3) by (simp add: map_inv_def put_map_def)
  moreover have "lifecycle_inv j'"
    using job_invD(1) [OF assms(2)] m(3) by (simp add: lifecycle_inv_def put_map_def)
  ultimately show ?thesis using m(3) by (simp add: job_inv_def segments_inv_def put_map_def)
qed

section \<open>Restart\<close>

text \<open>The record a repository keeps of a job; the durable ranges are whatever committed extents it
  stored, which need not be merged the way the live map has them.\<close>

definition record_of :: "job \<Rightarrow> byte_range list \<Rightarrow> job_record" where
  "record_of j ds =
     \<lparr>jr_id = j_id j, jr_spec = j_spec j, jr_version = j_version j, jr_state = j_state j,
      jr_generation = j_generation j, jr_reason = j_reason j, jr_retry_at = j_retry_at j,
      jr_stop = j_stop j, jr_replace_on_drain = j_replace_on_drain j,
      jr_attempts = j_attempts j, jr_plan = job_plan j, jr_validator = j_validator j,
      jr_durable = ds\<rparr>"

definition job_durable :: "job \<Rightarrow> nat set" where
  "job_durable j = (case j_segments j of None \<Rightarrow> {} | Some m \<Rightarrow> durable_set m)"

definition stored_extents :: "job \<Rightarrow> byte_range list \<Rightarrow> bool" where
  "stored_extents j ds \<longleftrightarrow>
     ascending ds \<and> ranges_bytes ds = job_durable j \<and>
     (\<forall>r \<in> set ds. range_ok r \<and> (\<forall>n k. job_plan j = Some (n, k) \<longrightarrow> br_end r \<le> n))"

lemma ranges_bytes_empty: "\<forall>r \<in> set ds. range_ok r \<Longrightarrow> ranges_bytes ds = {} \<Longrightarrow> ds = []"
  by (cases ds) (auto simp: bytes_of_def range_ok_def)

lemma record_of_consistent:
  assumes "job_inv j" "stored_extents j ds"
  shows "record_consistent (record_of j ds)"
proof (cases "j_segments j")
  case None
  have "ds = []"
    using assms(2) None by (intro ranges_bytes_empty) (auto simp: stored_extents_def job_durable_def)
  moreover have "j_validator j = None" "j_state j \<notin> {Transferring, Verifying, Publishing, Completed}"
    using job_invD(2) [OF assms(1)] None by (simp_all add: segments_inv_def)
  ultimately show ?thesis
    using job_invD(1) [OF assms(1)] None
    by (simp add: record_consistent_def record_of_def job_plan_def lifecycle_inv_def) blast
next
  case (Some m)
  have "sm_total m \<le> js_max_bytes (j_spec j)"
    using job_invD(2) [OF assms(1)] Some by (simp add: segments_inv_def map_inv_def)
  then show ?thesis
    using job_invD(1) [OF assms(1)] Some
    by (simp add: record_consistent_def record_of_def job_plan_def lifecycle_inv_def) blast
qed

lemma job_inv_restored:
  assumes "job_inv j" "j_segments j = Some m" "sm_inv m'" "sm_job m' = sm_job m"
    "sm_generation m' = sm_generation m" "sm_total m' = sm_total m"
    "all_durable m \<longrightarrow> all_durable m'" "resting (sm_segments m')" "sm_checkpoint m' = None"
  shows "job_inv (put_map j m')"
proof (rule job_invI)
  show "lifecycle_inv (put_map j m')"
    using job_invD(1) [OF assms(1)] by (simp add: lifecycle_inv_def put_map_def)
  have "map_inv j m" using job_invD(2) [OF assms(1)] assms(2) by (simp add: segments_inv_def)
  moreover have "\<forall>s \<in> set (sm_segments m'). \<not> is_in_flight (sg_state s)"
    using assms(8) by (auto simp: resting_def)
  ultimately show "segments_inv (put_map j m')"
    using assms(3-) by (auto simp: segments_inv_def put_map_def map_inv_def)
qed

lemma restart_ok:
  assumes "job_inv j" "stored_extents j ds"
  obtains j' where "job_restore (record_of j ds) = Inr j'" "job_inv j'" "projection j' = projection j"
    "job_durable j' = job_durable j" "j_version j' = j_version j" "job_plan j' = job_plan j"
    "j_id j' = j_id j" "j_spec j' = j_spec j" "settled j'"
proof (cases "j_segments j")
  case None
  have ok: "record_consistent (record_of j ds)" using assms by (rule record_of_consistent)
  have "ds = []"
    using assms(2) None by (intro ranges_bytes_empty) (auto simp: stored_extents_def job_durable_def)
  then have "job_restore (record_of j ds) = Inr j"
    using ok job_invD(2) [OF assms(1)] None
    by (simp add: job_restore_def record_of_def job_plan_def segments_inv_def)
  moreover have "settled j" using None by (simp add: settled_def quiescent_def has_active_leases_def)
  ultimately show ?thesis using that [of j] assms(1) by simp
next
  case (Some m)
  have ok: "record_consistent (record_of j ds)" using assms by (rule record_of_consistent)
  have mi: "map_inv j m" using job_invD(2) [OF assms(1)] Some by (simp add: segments_inv_def)
  then have inv: "sm_inv m" by (simp add: map_inv_def)
  have ds: "ascending ds" "\<forall>r \<in> set ds. range_ok r \<and> br_end r \<le> sm_total m"
    "ranges_bytes ds = durable_set m"
    using assms(2) Some by (auto simp: stored_extents_def job_plan_def job_durable_def)
  obtain m' where m':
    "segment_map_restore (sm_job m) (sm_generation m) (sm_total m) (sm_maximum m) ds = Inr m'"
    "sm_inv m'" "durable_set m' = durable_set m" "sm_total m' = sm_total m"
    "sm_maximum m' = sm_maximum m" "sm_generation m' = sm_generation m" "sm_job m' = sm_job m"
    "resting (sm_segments m')" "sm_checkpoint m' = None"
    using restore_same_durable [OF inv ds] by metis
  have all: "all_durable m' = all_durable m" using m' inv by (simp add: all_durable_iff)
  have idle: "settled (put_map j m')"
    using m'(8,9)
    by (auto simp: settled_def quiescent_def has_active_leases_def has_pending_checkpoint_def
        has_unsynced_def list_ex_iff put_map_def resting_def)
  have "job_restore (record_of j ds) = Inr (put_map j m')"
    using ok m'(1) mi Some all
    by (auto simp: job_restore_def record_of_def job_plan_def map_inv_def put_map_def)
  then show ?thesis
    using that [of "put_map j m'"] job_inv_restored [OF assms(1) Some] m' inv Some all idle
    by (simp add: projection_def put_map_def job_durable_def job_plan_def durable_bytes_card)
qed

section \<open>Runs\<close>

inductive job_step :: "job \<Rightarrow> job \<Rightarrow> bool" where
  js_apply: "job_apply j e = Inr j' \<Longrightarrow> job_step j j'"
| js_segment: "segment_op j j' \<Longrightarrow> job_step j j'"

inductive job_life :: "job \<Rightarrow> job \<Rightarrow> bool" where
  jl_step: "job_step j j' \<Longrightarrow> job_life j j'"
| jl_restart: "stored_extents j ds \<Longrightarrow> job_restore (record_of j ds) = Inr j' \<Longrightarrow> job_life j j'"

inductive_simps job_step_simps: "job_step j j'"
inductive_cases job_lifeE: "job_life j j'"

lemma job_step_inv: "job_step j j' \<Longrightarrow> job_inv j \<Longrightarrow> job_inv j'"
  by (auto simp: job_step_simps dest: job_apply_inv segment_op_inv)

lemma restart_inv:
  assumes "job_inv j" "stored_extents j ds" "job_restore (record_of j ds) = Inr j'"
  shows "job_inv j' \<and> projection j' = projection j \<and> job_durable j' = job_durable j \<and>
    j_version j' = j_version j \<and> j_id j' = j_id j \<and> j_spec j' = j_spec j"
  using assms(1,2) by (rule restart_ok) (use assms(3) in simp)

lemma job_life_inv: "job_life j j' \<Longrightarrow> job_inv j \<Longrightarrow> job_inv j'"
  by (erule job_lifeE) (auto dest: job_step_inv restart_inv)

lemma job_lives_inv: "job_life\<^sup>*\<^sup>* j j' \<Longrightarrow> job_inv j \<Longrightarrow> job_inv j'"
  by (induction rule: rtranclp_induct) (auto dest: job_life_inv)

lemma job_steps_inv: "job_step\<^sup>*\<^sup>* j j' \<Longrightarrow> job_inv j \<Longrightarrow> job_inv j'"
  by (induction rule: rtranclp_induct) (auto dest: job_step_inv)

end
