(* ===== verification/Job_Props.thy ===== *)
theory Job_Props
  imports Job_Invariant
begin

text \<open>
  What the job aggregate promises its callers: the frame of every command, the table of
  lifecycle successors, the agreement of planning and replay, and the properties of whole runs
  with restarts.
\<close>

section \<open>Frames and successors\<close>


definition core_frame :: "job \<Rightarrow> job \<Rightarrow> bool" where
  "core_frame j k \<longleftrightarrow>
     j_id k = j_id j \<and> j_spec k = j_spec j \<and> j_version k = j_version j \<and>
     ((j_generation k = j_generation j \<and> (j_segments k = j_segments j \<or> j_segments j = None)) \<or>
      (j_generation k = Suc (j_generation j) \<and> j_segments k = None))"

definition landing :: "StopTarget \<Rightarrow> bool \<Rightarrow> JobState" where
  "landing t durable =
     (case t of
        ToVerifying \<Rightarrow> if durable then Verifying else Paused
      | ToPaused \<Rightarrow> Paused
      | ToQueued \<Rightarrow> Queued
      | ToRetryWait _ \<Rightarrow> RetryWait
      | ToNeedsAction _ \<Rightarrow> NeedsAction
      | ToFailed _ \<Rightarrow> Failed)"

lemma land_frame:
  assumes "land j t = Inr (ch, k)"
  shows "ch \<and> core_frame j k \<and> j_state k = landing t (job_all_durable j) \<and> j_generation k = j_generation j \<and>
    j_segments k = j_segments j"
  using assms by (cases t) (simp_all add: land_def landing_def core_frame_def)

lemma workers_drained_frame:
  assumes "workers_drained j = Inr (ch, k)"
  shows "ch \<and> core_frame j k \<and>
    (\<exists>t. j_stop j = Some t \<and> j_state k = landing t (\<not> j_replace_on_drain j \<and> job_all_durable j))"
proof -
  from assms obtain t d where d: "j_stop j = Some t" "drop_replaced (j\<lparr>j_stop := None\<rparr>) = Inr d" "land d t = Inr (ch, k)"
    by (auto simp: workers_drained_def res_simps)
  have "core_frame j d \<and> (j_segments d = None \<or> j_generation d = j_generation j)
      \<and> job_all_durable d = (\<not> j_replace_on_drain j \<and> job_all_durable j)"
    using d(2) by (auto simp: drop_replaced_def core_frame_def res_simps job_all_durable_def split: if_splits)
  then show ?thesis using land_frame [OF d(3)] d(1) by (auto simp: core_frame_def)
qed

lemma probe_frame:
  assumes "probe_succeeded j n k v = Inr (ch, j')"
  shows "ch \<and> core_frame j j' \<and> j_state j' = Transferring"
  using assms by (auto simp: probe_succeeded_def core_frame_def res_simps split: option.splits if_splits)

lemma replace_frame:
  assumes "replace_representation j = Inr (ch, j')"
  shows "ch \<and> core_frame j j' \<and> j_state j' = Queued"
  using assms by (auto simp: replace_representation_def core_frame_def res_simps)

lemma execute_core:
  assumes "execute j c = Inr (ch, j')"
  shows "core_frame j j'"
  using assms
  by (cases "j_state j"; cases c; simp add: execute_def begin_stop_def raise_stop_def resume_ready_def cancel_job_def Let_def res_simps split: if_splits)
    (auto simp: core_frame_def dest: workers_drained_frame probe_frame replace_frame)

definition successors :: "JobState \<Rightarrow> JobState set" where
  "successors s =
     (case s of
        Queued \<Rightarrow> {Probing, Paused, Cancelling}
      | Probing \<Rightarrow> {Transferring, Stopping, Cancelling}
      | Transferring \<Rightarrow> {Stopping, Cancelling}
      | Stopping \<Rightarrow> {Stopping, Verifying, Queued, Paused, RetryWait, NeedsAction, Failed, Cancelling}
      | Paused \<Rightarrow> {Queued, Verifying, Cancelling}
      | RetryWait \<Rightarrow> {Queued, Paused, Cancelling}
      | NeedsAction \<Rightarrow> {Queued, Verifying, Cancelling}
      | Verifying \<Rightarrow> {Publishing, Paused, NeedsAction, Failed, Cancelling}
      | Publishing \<Rightarrow> {Completed, NeedsAction}
      | Cancelling \<Rightarrow> {Cancelled}
      | Failed \<Rightarrow> {Queued, Verifying, Cancelling}
      | Completed \<Rightarrow> {}
      | Cancelled \<Rightarrow> {})"

lemma landing_states: "landing t b \<in> {Verifying, Queued, Paused, RetryWait, NeedsAction, Failed}"
  by (cases t) (simp_all add: landing_def)

lemma execute_successor:
  assumes "execute j c = Inr (True, j')"
  shows "j_state j' \<in> successors (j_state j)"
  using assms
  by (cases "j_state j"; cases c; simp add: execute_def begin_stop_def raise_stop_def resume_ready_def cancel_job_def Let_def res_simps successors_def split: if_splits)
    (use landing_states in \<open>fastforce dest: workers_drained_frame probe_frame replace_frame\<close>)+

lemma execute_no_op:
  assumes "execute j c = Inr (False, j')"
  shows "j' = j"
  using assms
  by (cases "j_state j"; cases c; simp add: execute_def begin_stop_def raise_stop_def resume_ready_def cancel_job_def Let_def res_simps split: if_splits)
    (auto dest: workers_drained_frame probe_frame replace_frame)

section \<open>Monotone quantities of a run\<close>

definition job_progress :: "job \<Rightarrow> job \<Rightarrow> bool" where
  "job_progress j k \<longleftrightarrow>
     j_id k = j_id j \<and> j_spec k = j_spec j \<and> j_version j \<le> j_version k \<and>
     j_generation j \<le> j_generation k \<and>
     (j_generation k = j_generation j \<longrightarrow> job_durable j \<subseteq> job_durable k)"

lemma job_progress_trans: "job_progress i j \<Longrightarrow> job_progress j k \<Longrightarrow> job_progress i k"
  unfolding job_progress_def by (metis le_antisym order_trans)

lemma core_frame_progress: "core_frame j k \<Longrightarrow> v = Suc (j_version j) \<Longrightarrow> job_progress j (k\<lparr>j_version := v\<rparr>)"
  by (auto simp: core_frame_def job_progress_def job_durable_def)

lemma segment_op_progress:
  assumes "segment_op j k" "job_inv j"
  shows "job_progress j k"
proof -
  obtain m m' where m: "map_mut j = Inr m" "sm_step m m'" "k = put_map j m'"
    using assms(1) by (rule segment_op_step)
  then have seg: "j_segments j = Some m" by (simp add: map_mut_Inr)
  then have "sm_inv m" using job_invD(2) [OF assms(2)] by (simp add: segments_inv_def map_inv_def)
  then have "durable_set m \<subseteq> durable_set m'" using m(2) sm_step_durable_mono by blast
  then show ?thesis using seg m(3) by (simp add: job_progress_def job_durable_def put_map_def)
qed

lemma job_step_progress: "job_step j k \<Longrightarrow> job_inv j \<Longrightarrow> job_progress j k"
  by (erule job_step.cases)
    (auto elim!: job_apply_Inr intro: core_frame_progress segment_op_progress dest: execute_core)

lemma job_life_progress:
  assumes "job_life j k" "job_inv j"
  shows "job_progress j k"
  using assms(1)
proof (rule job_lifeE)
  assume "job_step j k"
  then show ?thesis using assms(2) by (rule job_step_progress)
next
  fix ds
  assume stored: "stored_extents j ds" "job_restore (record_of j ds) = Inr k"
  have k: "projection k = projection j \<and> job_durable k = job_durable j \<and>
      j_version k = j_version j \<and> j_id k = j_id j \<and> j_spec k = j_spec j"
    using restart_inv [OF assms(2) stored] by simp
  then have "j_generation k = j_generation j" by (simp add: projection_def)
  then show ?thesis using k by (simp add: job_progress_def)
qed

lemma job_lives_progress:
  assumes "job_life\<^sup>*\<^sup>* j k" "job_inv j"
  shows "job_progress j k"
  using assms(1)
proof (induction rule: rtranclp_induct)
  case base
  then show ?case by (simp add: job_progress_def)
next
  case (step k l)
  then show ?case
    using job_life_progress job_lives_inv assms(2) job_progress_trans by blast
qed

section \<open>A sample job\<close>

definition sample_spec :: job_spec where
  "sample_spec = \<lparr>js_source = 1, js_destination = 1, js_expected_sha256 = None,
                  js_priority = Normal, js_max_bytes = 1024\<rparr>"

definition sample_job :: "JobState \<Rightarrow> StopTarget option \<Rightarrow> u64 \<Rightarrow> segment_map option \<Rightarrow> job" where
  "sample_job s t v m =
     \<lparr>j_id = 1, j_spec = sample_spec, j_state = s, j_generation = 1, j_version = v,
      j_reason = None, j_retry_at = None, j_stop = t, j_replace_on_drain = False,
      j_attempts = 1, j_validator = (case m of None \<Rightarrow> None | Some _ \<Rightarrow> Some ''v''),
      j_segments = m\<rparr>"

definition event_of :: "job \<Rightarrow> JobCommand \<Rightarrow> job \<Rightarrow> job_event" where
  "event_of j c k =
     \<lparr>je_job = j_id j, je_version = Suc (j_version j), je_from = j_state j, je_to = j_state k,
      je_generation = j_generation j, je_command = c, je_outcome = projection k\<rparr>"

lemma event_of_applies:
  assumes "execute j c = Inr (True, k)" "Suc (j_version j) \<le> U64_MAX"
  shows "job_apply j (event_of j c k) = Inr (k\<lparr>j_version := Suc (j_version j)\<rparr>)"
  using assms by (simp add: job_apply_def event_of_def)

lemma sample_spec_ok: "spec_ok sample_spec" "identifier_ok 1"
  by (simp_all add: spec_ok_def sample_spec_def identifier_ok_def width_simps)

lemma sample_job_inv:
  "job_inv (job_new 1 sample_spec)"
  "job_inv (sample_job Transferring None 2 (Some (map10 Pending 1 1 None)))"
  "job_inv (sample_job Transferring None 2 (Some (map10 Durable 2 2 None)))"
  "job_inv (sample_job Stopping (Some ToVerifying) 3 (Some (map10 Durable 2 2 None)))"
  "job_inv (sample_job Publishing None 5 (Some (map10 Durable 2 2 None)))"
  using job_inv_new [OF sample_spec_ok(2,1)]
  by (simp_all del: One_nat_def add: job_inv_def lifecycle_inv_def segments_inv_def map_inv_def sample_job_def sample_inv
      sample_steps_inv all_durable_def resting_def at_rest_def sample_spec_ok width_simps)
    (simp_all add: map10_def sample_spec_def sample_inv)

lemma sample_job_execute:
  "execute (job_new 1 sample_spec) CStart = Inr (True, sample_job Probing None 0 None)"
  "execute (sample_job Probing None 1 None) (CProbeSucceeded 10 4 (Some ''v''))
     = Inr (True, sample_job Transferring None 1 (Some (map10 Pending 1 1 None)))"
  "execute (sample_job Transferring None 2 (Some (map10 Durable 2 2 None))) CAllSegmentsDurable
     = Inr (True, sample_job Stopping (Some ToVerifying) 2 (Some (map10 Durable 2 2 None)))"
  "execute (sample_job Stopping (Some ToVerifying) 3 (Some (map10 Durable 2 2 None))) CWorkersDrained
     = Inr (True, sample_job Verifying None 3 (Some (map10 Durable 2 2 None)))"
  "execute (sample_job Publishing None 5 (Some (map10 Durable 2 2 None))) CPublishCommitted
     = Inr (True, sample_job Completed None 5 (Some (map10 Durable 2 2 None)))"
  using sample_run(1)
  by (simp_all add: execute_def arm_defs sample_job_def job_new_def sample_spec_def generation_initial_def
      width_simps job_all_durable_def all_durable_def settled_def quiescent_def has_active_leases_def
      has_pending_checkpoint_def has_unsynced_def map10_def)

section \<open>Properties\<close>

text \<open>
  C4. In every state a job can reach from its creation, through any commands, segment
  operations and restarts, the lifecycle fields agree with the state and the segment map belongs
  to the job: a stop target exactly while stopping, a retry tick exactly while waiting, a reason
  whenever the user is shown one, a well-formed map of the current generation within the byte
  limit, all bytes durable from verification on, and no lease, unsynced byte or open checkpoint
  in a state at rest.
\<close>

theorem job_lifecycle_invariant:
  assumes "identifier_ok i" "spec_ok s" "job_life\<^sup>*\<^sup>* (job_new i s) j"
  shows "j_id j = i \<and> j_spec j = s \<and>
    (j_stop j = None \<longleftrightarrow> j_state j \<noteq> Stopping) \<and> (j_replace_on_drain j \<longrightarrow> j_state j = Stopping) \<and>
    (j_retry_at j = None \<longleftrightarrow> j_state j \<noteq> RetryWait) \<and>
    (j_state j \<in> {NeedsAction, Failed} \<longrightarrow> j_reason j \<noteq> None) \<and>
    (j_state j \<in> {Transferring, Verifying, Publishing, Completed} \<longrightarrow> j_segments j \<noteq> None) \<and>
    (\<forall>m. j_segments j = Some m \<longrightarrow>
       sm_inv m \<and> sm_job m = i \<and> sm_generation m = j_generation j \<and> sm_total m \<le> js_max_bytes s) \<and>
    (j_state j \<in> {Verifying, Publishing, Completed} \<longrightarrow> job_all_durable j) \<and>
    (at_rest (j_state j) \<longrightarrow> settled j)"
proof -
  have new: "job_inv (job_new i s)" using assms(1,2) by (rule job_inv_new)
  have inv: "job_inv j" using assms(3) new by (rule job_lives_inv)
  have core: "j_id j = i" "j_spec j = s"
    using job_lives_progress [OF assms(3) new] by (simp_all add: job_progress_def job_new_def)
  have life: "lifecycle_inv j" and seg: "segments_inv j" using inv by (rule job_invD)+
  have map: "map_inv j m" if "j_segments j = Some m" for m
    using seg that by (simp add: segments_inv_def)
  have rest: "settled j" if r: "at_rest (j_state j)"
  proof (cases "j_segments j")
    case None
    then show ?thesis by (simp add: settled_def quiescent_def has_active_leases_def)
  next
    case (Some m)
    then have "resting (sm_segments m)" "sm_checkpoint m = None"
      using map r by (simp_all add: map_inv_def)
    then show ?thesis
      using Some by (auto simp: settled_def quiescent_def has_active_leases_def
          has_pending_checkpoint_def has_unsynced_def list_ex_iff resting_def)
  qed
  have "j_state j \<in> {Transferring, Verifying, Publishing, Completed} \<longrightarrow> j_segments j \<noteq> None"
    using seg by (cases "j_segments j") (simp_all add: segments_inv_def)
  moreover have "j_state j \<in> {Verifying, Publishing, Completed} \<longrightarrow> job_all_durable j"
    using job_inv_clear(5) [OF inv] by simp
  ultimately show ?thesis
    using life map core rest unfolding lifecycle_inv_def map_inv_def by blast
qed

lemma sample_life:
  "job_life\<^sup>*\<^sup>* (job_new 1 sample_spec) (sample_job Transferring None 2 (Some (map10 Pending 1 1 None)))"
proof -
  have "job_life (job_new 1 sample_spec) (sample_job Probing None 1 None)"
    using event_of_applies [OF sample_job_execute(1)]
    by (intro jl_step js_apply) (simp add: sample_job_def job_new_def width_simps)
  moreover have "job_life (sample_job Probing None 1 None) (sample_job Transferring None 2 (Some (map10 Pending 1 1 None)))"
    using event_of_applies [OF sample_job_execute(2)]
    by (intro jl_step js_apply) (simp add: sample_job_def width_simps, simp add: numeral_2_eq_2)
  ultimately show ?thesis by (meson converse_rtranclp_into_rtranclp rtranclp.rtrancl_refl)
qed

theorem job_lifecycle_invariant_witness:
  "sm_total (map10 Pending 1 1 None) \<le> js_max_bytes sample_spec \<and>
   j_segments (sample_job Transferring None 2 (Some (map10 Pending 1 1 None))) \<noteq> None"
  using job_lifecycle_invariant [OF sample_spec_ok(2,1) sample_life]
  by (simp add: sample_job_def)

text \<open>
  C5. A restart loses nothing that was committed. Whatever extents the repository stored for the
  durable bytes of a live job (any ascending list of ranges covering exactly those bytes), the
  persisted record is accepted, and the rebuilt job has the same projection, version, plan and
  durable bytes, without leases or uncommitted bytes.
\<close>

theorem restart_rebuilds_the_job:
  assumes "job_inv j" "stored_extents j ds"
  shows "\<exists>j'. job_restore (record_of j ds) = Inr j' \<and> job_inv j' \<and> projection j' = projection j \<and>
    job_durable j' = job_durable j \<and> j_version j' = j_version j \<and> job_plan j' = job_plan j \<and> settled j'"
  using assms by (rule restart_ok) blast

theorem restart_rebuilds_the_job_witness:
  "\<exists>j'. job_restore (record_of (sample_job Stopping (Some ToVerifying) 3 (Some (map10 Durable 2 2 None)))
      [\<lparr>br_start = 0, br_end = 4\<rparr>, \<lparr>br_start = 4, br_end = 10\<rparr>]) = Inr j' \<and>
     job_durable j' = {0..<10}"
proof -
  let ?j = "sample_job Stopping (Some ToVerifying) 3 (Some (map10 Durable 2 2 None))"
  let ?ds = "[\<lparr>br_start = 0, br_end = 4\<rparr>, \<lparr>br_start = 4, br_end = 10\<rparr>] :: byte_range list"
  have d: "job_durable ?j = {0..<10}"
    by (auto simp: job_durable_def sample_job_def durable_set_def map10_def bytes_of_def)
  have "stored_extents ?j ?ds"
    unfolding stored_extents_def d
    by (auto simp: ascending_def bytes_of_def range_ok_def width_simps job_plan_def sample_job_def map10_def)
  then show ?thesis using restart_rebuilds_the_job [OF sample_job_inv(4)] d by metis
qed

text \<open>
  Planning and replay agree. A command is planned as no event exactly when it is an accepted
  no-op; otherwise it is one event, of the next version, that the unchanged aggregate accepts
  and that leaves exactly the projection the event carries. The job is not changed by planning.
\<close>

theorem planned_event_applies:
  assumes "job_decide j c = Inr es"
  shows "(es = [] \<and> execute j c = Inr (False, j) \<and> job_handle j c = Inr (j, [])) \<or>
    (\<exists>e j'. es = [e] \<and> je_version e = Suc (j_version j) \<and> je_command e = c \<and>
       je_to e \<in> successors (je_from e) \<and>
       job_apply j e = Inr j' \<and> j_version j' = Suc (j_version j) \<and> projection j' = je_outcome e \<and>
       job_handle j c = Inr (j', es))"
proof -
  obtain ch k where k: "execute j c = Inr (ch, k)"
    using assms by (auto simp: job_decide_def res_simps)
  show ?thesis
  proof (cases ch)
    case False
    then show ?thesis
      using assms k execute_no_op [of j c k] by (simp add: job_decide_def job_handle_def)
  next
    case True
    then have v: "Suc (j_version j) \<le> U64_MAX" and es: "es = [event_of j c k]"
      using assms k by (auto simp: job_decide_def res_simps event_of_def)
    have a: "job_apply j (event_of j c k) = Inr (k\<lparr>j_version := Suc (j_version j)\<rparr>)"
      using k True v by (simp add: event_of_applies)
    have "j_state k \<in> successors (j_state j)" using k True execute_successor by simp
    moreover have "projection (k\<lparr>j_version := Suc (j_version j)\<rparr>) = projection k"
      by (simp add: projection_def)
    ultimately show ?thesis
      using assms a es by (simp add: job_handle_def) (simp add: event_of_def)
  qed
qed

theorem planned_event_applies_witness:
  "\<exists>es e j'. job_decide (job_new 1 sample_spec) CStart = Inr es \<and> es = [e] \<and>
     job_apply (job_new 1 sample_spec) e = Inr j' \<and> j_version j' = 1"
proof -
  have d: "job_decide (job_new 1 sample_spec) CStart
      = Inr [event_of (job_new 1 sample_spec) CStart (sample_job Probing None 0 None)]"
    using sample_job_execute(1)
    by (simp add: job_decide_def event_of_def job_new_def checked_add_def width_simps)
  show ?thesis using planned_event_applies [OF d] d by (auto simp: job_new_def)
qed

text \<open>
  An event is applied at most once. Once applied, it is refused as stale by every later state
  of the job, restarts included, so a duplicate or a replayed prefix never changes the aggregate.
\<close>

theorem event_applies_once:
  assumes "job_inv j" "job_apply j e = Inr j'" "job_life\<^sup>*\<^sup>* j' k"
  shows "job_apply k e = Inl StaleEvent"
proof -
  have "job_inv j'" using assms(2,1) by (rule job_apply_inv)
  then have "j_version j' \<le> j_version k"
    using job_lives_progress [OF assms(3)] by (simp add: job_progress_def)
  moreover have "je_version e = j_version j'" using assms(2) by (elim job_apply_Inr) simp
  ultimately show ?thesis by (auto simp: job_apply_def)
qed

theorem event_applies_once_witness:
  "job_apply (job_new 1 sample_spec)
      (event_of (job_new 1 sample_spec) CStart (sample_job Probing None 0 None))
    = Inr (sample_job Probing None 1 None) \<and>
   job_apply (sample_job Probing None 1 None)
      (event_of (job_new 1 sample_spec) CStart (sample_job Probing None 0 None)) = Inl StaleEvent"
proof -
  have a: "job_apply (job_new 1 sample_spec)
      (event_of (job_new 1 sample_spec) CStart (sample_job Probing None 0 None))
    = Inr (sample_job Probing None 1 None)"
    using event_of_applies [OF sample_job_execute(1)]
    by (simp add: sample_job_def job_new_def width_simps)
  show ?thesis using event_applies_once [OF sample_job_inv(1) a rtranclp.rtrancl_refl] a by blast
qed

text \<open>
  Durable progress survives everything but a change of representation: along any run with
  restarts the version and the generation never go back, and while the generation stays the set
  of durable bytes only grows.
\<close>

theorem job_progress_survives:
  assumes "job_inv j" "job_life\<^sup>*\<^sup>* j k"
  shows "j_version j \<le> j_version k \<and> j_generation j \<le> j_generation k \<and>
    (j_generation k = j_generation j \<longrightarrow> job_durable j \<subseteq> job_durable k)"
  using job_lives_progress [OF assms(2,1)] by (simp add: job_progress_def)

theorem job_progress_survives_witness:
  "j_version (job_new 1 sample_spec) \<le>
     j_version (sample_job Transferring None 2 (Some (map10 Pending 1 1 None)))"
  using job_progress_survives [OF sample_job_inv(1) sample_life] by blast

text \<open>
  C6. A job completes only by publishing verified bytes: a step into \<open>Completed\<close> is
  \<open>PublishCommitted\<close> out of \<open>Publishing\<close>, a step into \<open>Publishing\<close> is \<open>VerificationPassed\<close> out of
  \<open>Verifying\<close>, and every completed job holds each byte of its resource durable.
\<close>

lemma enters_publishing:
  assumes "execute j c = Inr (True, k)" "j_state k \<in> {Publishing, Completed}"
  shows "(j_state k = Completed \<and> j_state j = Publishing \<and> c = CPublishCommitted) \<or>
         (j_state k = Publishing \<and> j_state j = Verifying \<and> c = CVerificationPassed)"
proof -
  have "j_state j \<in> {Verifying, Publishing}"
    using execute_successor [OF assms(1)] assms(2) by (cases "j_state j") (auto simp: successors_def)
  then show ?thesis
    using assms by (elim insertE emptyE; cases c) (auto simp: execute_def cancel_job_def)
qed

theorem completed_only_after_publish:
  assumes "job_inv j" "job_step j k" "j_state k \<in> {Publishing, Completed}" "j_state k \<noteq> j_state j"
  shows "(\<exists>e. job_apply j e = Inr k \<and>
      (if j_state k = Completed then j_state j = Publishing \<and> je_command e = CPublishCommitted
       else j_state j = Verifying \<and> je_command e = CVerificationPassed)) \<and>
    (\<exists>m. j_segments k = Some m \<and> job_durable k = {0..<sm_total m} \<and> durable_bytes m = sm_total m)"
proof -
  have inv: "job_inv k" using assms(2,1) by (rule job_step_inv)
  then obtain m where m: "j_segments k = Some m" "map_inv k m" "all_durable m"
    using assms(3) job_invD(2) [OF inv] by (cases "j_segments k") (auto simp: segments_inv_def map_inv_def)
  then have "job_durable k = {0..<sm_total m} \<and> durable_bytes m = sm_total m"
    by (simp add: job_durable_def map_inv_def durable_bytes_card all_durable_iff [THEN iffD1])
  moreover obtain e where e: "job_apply j e = Inr k"
    using assms(2,4) by (auto simp: job_step_simps put_map_def elim!: segment_op_step)
  moreover have "if j_state k = Completed then j_state j = Publishing \<and> je_command e = CPublishCommitted
       else j_state j = Verifying \<and> je_command e = CVerificationPassed"
    using e assms(3) by (rule_tac job_apply_Inr [OF e]) (auto dest: enters_publishing)
  ultimately show ?thesis using m(1) by blast
qed

theorem completed_only_after_publish_witness:
  "job_durable (sample_job Completed None 6 (Some (map10 Durable 2 2 None))) = {0..<10}"
proof -
  let ?j = "sample_job Publishing None 5 (Some (map10 Durable 2 2 None))"
  let ?k = "sample_job Completed None 6 (Some (map10 Durable 2 2 None))"
  have "job_step ?j ?k"
    using event_of_applies [OF sample_job_execute(5)]
    by (intro js_apply) (simp add: sample_job_def width_simps)
  then show ?thesis
    using completed_only_after_publish [OF sample_job_inv(5), of ?k] by (auto simp: sample_job_def map10_def)
qed

text \<open>
  \<open>Completed\<close> and \<open>Cancelled\<close> are final: every command is refused as an invalid transition
  and no step leads out of them. While the file is being published neither a pause nor a cancel
  is accepted; both report that publication is in progress.
\<close>

theorem final_states_absorb:
  "(j_state j \<in> {Completed, Cancelled} \<longrightarrow>
      execute j c = Inl InvalidTransition \<and> job_decide j c = Inl InvalidTransition \<and> \<not> job_step j k) \<and>
   (j_state j = Publishing \<longrightarrow>
      execute j CPause = Inl PublishInProgress \<and> execute j CCancel = Inl PublishInProgress)"
proof -
  have ex: "execute j c = Inl InvalidTransition" if "j_state j \<in> {Completed, Cancelled}" for c
    using that by (elim insertE emptyE; cases c) (simp_all add: execute_def)
  have "\<not> job_step j k" if s: "j_state j \<in> {Completed, Cancelled}"
  proof
    assume "job_step j k"
    then show False
    proof cases
      case (js_apply e)
      then show False by (elim job_apply_Inr) (simp add: ex [OF s])
    next
      case js_segment
      then show False using s by (elim segment_op_step) (auto simp: map_mut_Inr)
    qed
  qed
  then show ?thesis using ex by (auto simp: job_decide_def) (simp_all add: execute_def)
qed

theorem final_states_absorb_witness:
  "execute (sample_job Completed None 6 None) CResume = Inl InvalidTransition \<and>
   execute (sample_job Publishing None 5 None) CCancel = Inl PublishInProgress"
  using final_states_absorb [of "sample_job Completed None 6 None" CResume]
    final_states_absorb [of "sample_job Publishing None 5 None"]
  by (simp add: sample_job_def)

section \<open>Stopping\<close>

fun cause_of :: "JobCommand \<Rightarrow> StopTarget option" where
  "cause_of CPause = Some ToPaused"
| "cause_of CPreempt = Some ToQueued"
| "cause_of (CRetry t) = Some (ToRetryWait t)"
| "cause_of (CRequireAction r) = Some (ToNeedsAction r)"
| "cause_of (CFail r) = Some (ToFailed r)"
| "cause_of _ = None"

fun execute_all :: "job \<Rightarrow> JobCommand list \<Rightarrow> (DomainError, job) result" where
  "execute_all j [] = Inr j"
| "execute_all j (c # cs) = res_bind (execute j c) (\<lambda>(_, k). execute_all k cs)"

definition ticks :: "StopTarget set \<Rightarrow> u64 set" where
  "ticks ts = {a. ToRetryWait a \<in> ts}"

lemma stop_rank_raise: "stop_rank (stop_raise a b) = max (stop_rank a) (stop_rank b)"
  by (cases a; cases b) (simp_all add: stop_raise_def)

lemma stop_raise_tick:
  "stop_raise a b = ToRetryWait x \<Longrightarrow>
     x \<in> ticks {a, b} \<and> (\<forall>y \<in> ticks {a, b}. y \<le> x)"
  by (cases a; cases b) (auto simp: stop_raise_def ticks_def max_def split: if_splits)

lemma stop_raise_keeps:
  "(\<forall>x. stop_raise a b \<noteq> ToRetryWait x) \<Longrightarrow> stop_raise a b \<in> {a, b}"
  using stop_raise_cases [of a b] by auto

lemma execute_cause:
  assumes "j_state j = Stopping" "j_stop j = Some t" "cause_of c = Some d"
  shows "\<exists>ch. execute j c = Inr (ch, j\<lparr>j_stop := Some (stop_raise t d), j_state := Stopping\<rparr>)"
proof -
  have same: "j\<lparr>j_stop := Some t, j_state := Stopping\<rparr> = j" using assms(1,2) by (cases j) simp
  show ?thesis
    using assms same
    by (cases c) (auto simp: execute_def raise_stop_def no_op_def enter_def Let_def split: if_splits)
qed

lemma execute_causes:
  assumes "j_state j = Stopping" "j_stop j = Some t" "map cause_of cs = map Some ds"
  shows "execute_all j cs = Inr (j\<lparr>j_stop := Some (foldl stop_raise t ds), j_state := Stopping\<rparr>)"
  using assms
proof (induction cs arbitrary: j t ds)
  case Nil
  then show ?case by (cases j) simp
next
  case (Cons c cs)
  then obtain d ds' where d: "ds = d # ds'" "cause_of c = Some d" "map cause_of cs = map Some ds'"
    by (cases ds) auto
  then show ?case using execute_cause [OF Cons.prems(1,2)] Cons.IH by fastforce
qed

lemma foldl_raise_rank:
  "\<forall>d \<in> set (t # ds). stop_rank d \<le> stop_rank (foldl stop_raise t ds)"
proof (induction ds arbitrary: t)
  case (Cons d ds)
  show ?case using Cons [of "stop_raise t d"] by (simp add: stop_rank_raise)
qed simp

lemma foldl_raise_tick:
  "foldl stop_raise t ds = ToRetryWait x \<Longrightarrow>
     x \<in> ticks (set (t # ds)) \<and> (\<forall>y \<in> ticks (set (t # ds)). y \<le> x)"
proof (induction ds arbitrary: x rule: rev_induct)
  case Nil
  then show ?case by (simp add: ticks_def)
next
  case (snoc d ds)
  let ?y = "foldl stop_raise t ds"
  have x: "stop_raise ?y d = ToRetryWait x" using snoc.prems by simp
  have low: "stop_rank e \<le> stop_rank ?y" if "e \<in> set (t # ds)" for e
    using foldl_raise_rank that by blast
  show ?case
  proof (cases "\<exists>z. ?y = ToRetryWait z")
    case True
    then obtain z where z: "?y = ToRetryWait z" by blast
    show ?thesis
      using snoc.IH [OF z] stop_raise_tick [OF x] unfolding z by (auto simp: ticks_def)
  next
    case False
    then have d: "d = ToRetryWait x" "stop_rank ?y < 3"
      using x by (cases ?y; cases d; auto simp: stop_raise_def split: if_splits)+
    then show ?thesis using low by (fastforce simp: ticks_def)
  qed
qed

lemma foldl_raise_first:
  "(\<forall>x. foldl stop_raise t ds \<noteq> ToRetryWait x) \<Longrightarrow>
     find (\<lambda>d. stop_rank d = stop_rank (foldl stop_raise t ds)) (t # ds) = Some (foldl stop_raise t ds)"
proof (induction ds arbitrary: t)
  case (Cons d ds)
  obtain x where x: "x = foldl stop_raise (stop_raise t d) ds" by simp
  have le: "stop_rank (stop_raise t d) \<le> stop_rank x"
    using foldl_raise_rank [of "stop_raise t d" ds] x by simp
  have "\<forall>y. x \<noteq> ToRetryWait y" using Cons.prems x by simp
  then have r: "stop_rank x \<noteq> 3" by (cases x) auto
  have IH: "find (\<lambda>e. stop_rank e = stop_rank x) (stop_raise t d # ds) = Some x"
    using Cons.IH Cons.prems x by simp
  consider "stop_rank t = 3" "stop_rank d = 3" | "stop_raise t d = d" "stop_rank t < stop_rank d"
    | "stop_raise t d = t" "stop_rank d \<le> stop_rank t"
    by (cases t; cases d) (simp_all add: stop_raise_def)
  then have "find (\<lambda>e. stop_rank e = stop_rank x) (t # d # ds) = Some x"
    by cases (use IH le r in \<open>auto simp: stop_rank_raise split: if_splits\<close>)
  then show ?case using x by simp
qed simp

text \<open>
  Concurrent causes of a stop never lower its severity. A stopping job accepts any sequence of
  causes; the target it ends with has the highest rank among the old target and the causes, its
  retry tick is the latest one asked for, and otherwise it is the first target of that rank, so
  the first reason wins.
\<close>

theorem stop_causes_accumulate:
  assumes "j_state j = Stopping" "j_stop j = Some t" "map cause_of cs = map Some ds"
  shows "\<exists>x. execute_all j cs = Inr (j\<lparr>j_stop := Some x, j_state := Stopping\<rparr>) \<and>
    (\<forall>d \<in> set (t # ds). stop_rank d \<le> stop_rank x) \<and>
    (case x of ToRetryWait a \<Rightarrow> a \<in> ticks (set (t # ds)) \<and> (\<forall>b \<in> ticks (set (t # ds)). b \<le> a)
     | _ \<Rightarrow> find (\<lambda>d. stop_rank d = stop_rank x) (t # ds) = Some x)"
proof -
  let ?x = "foldl stop_raise t ds"
  have "case ?x of ToRetryWait a \<Rightarrow> a \<in> ticks (set (t # ds)) \<and> (\<forall>b \<in> ticks (set (t # ds)). b \<le> a)
     | _ \<Rightarrow> find (\<lambda>d. stop_rank d = stop_rank ?x) (t # ds) = Some ?x"
    using foldl_raise_tick [of t ds] foldl_raise_first [of t ds] by (cases ?x) fastforce+
  then show ?thesis using execute_causes [OF assms] foldl_raise_rank by blast
qed

theorem stop_causes_accumulate_witness:
  "\<exists>k. execute_all (sample_job Stopping (Some ToPaused) 3 None) [CRetry 9, CPreempt, CRetry 7] = Inr k \<and>
     j_stop k = Some (ToRetryWait 9)"
  using stop_causes_accumulate
    [of "sample_job Stopping (Some ToPaused) 3 None" ToPaused "[CRetry 9, CPreempt, CRetry 7]"
      "[ToRetryWait 9, ToQueued, ToRetryWait 7]"]
  by (fastforce simp: sample_job_def ticks_def split: StopTarget.splits)

text \<open>
  A drain finishes a stop. Until workers, checkpoints and written bytes have settled it is
  refused as incomplete; once they have, it always succeeds (short of generation overflow) and
  lands exactly where the target says: a job stopped because all its bytes are durable goes on
  to verification, and a pending change of representation drops the old map and its validator
  under the next generation.
\<close>

theorem drain_lands_on_target:
  assumes "job_inv j" "j_state j = Stopping"
    and "j_replace_on_drain j \<longrightarrow> j_generation j < U64_MAX"
  shows "(\<not> settled j \<longrightarrow> execute j CWorkersDrained = Inl Incomplete) \<and>
    (settled j \<longrightarrow> (\<exists>k t. execute j CWorkersDrained = Inr (True, k) \<and> j_stop j = Some t \<and>
       j_stop k = None \<and> \<not> j_replace_on_drain k \<and> j_state k = landing t True \<and>
       (if j_replace_on_drain j
        then j_generation k = Suc (j_generation j) \<and> j_segments k = None \<and> j_validator k = None
        else j_generation k = j_generation j \<and> j_segments k = j_segments j)))"
proof -
  obtain t where t: "j_stop j = Some t"
    using job_invD(1) [OF assms(1)] assms(2) by (cases "j_stop j") (auto simp: lifecycle_inv_def)
  have ver: "job_all_durable j \<and> \<not> j_replace_on_drain j" if "t = ToVerifying"
    using job_invD(2) [OF assms(1)] t that
    by (auto simp: segments_inv_def map_inv_def job_all_durable_def split: option.splits)
  have ex: "execute j CWorkersDrained = workers_drained j" using assms(2) by (simp add: execute_def)
  show ?thesis
  proof (cases "j_replace_on_drain j")
    case True
    then have "t \<noteq> ToVerifying" using ver by blast
    then show ?thesis
      unfolding ex using True assms(3) t
      by (cases t) (simp_all add: workers_drained_def drop_replaced_def land_def landing_def enter_def
          generation_next_def checked_add_def Suc_le_eq)
  next
    case False
    then show ?thesis
      unfolding ex using t ver
      by (cases t) (auto simp: workers_drained_def drop_replaced_def land_def landing_def enter_def
          job_all_durable_def)
  qed
qed

theorem drain_lands_on_target_witness:
  "\<exists>k. execute (sample_job Stopping (Some ToVerifying) 3 (Some (map10 Durable 2 2 None))) CWorkersDrained
     = Inr (True, k) \<and> j_state k = Verifying"
proof -
  let ?j = "sample_job Stopping (Some ToVerifying) 3 (Some (map10 Durable 2 2 None))"
  have "settled ?j"
    by (simp add: settled_def quiescent_def has_active_leases_def has_pending_checkpoint_def
        has_unsynced_def sample_job_def map10_def)
  then show ?thesis
    using drain_lands_on_target [OF sample_job_inv(4)] by (auto simp: sample_job_def landing_def)
qed

text \<open>
  Bytes of two representations are never mixed. A probe is accepted into a job that already
  has a map only if it reports the same length and the same strong validator the map belongs to,
  and then the map is kept as it is; a fresh map starts without a durable byte. The length never
  exceeds the byte limit of the job.
\<close>

theorem probe_keeps_one_representation:
  assumes "job_inv j" "execute j (CProbeSucceeded n k v) = Inr (ch, j')"
  shows "j_state j = Probing \<and> j_state j' = Transferring \<and> n \<le> js_max_bytes (j_spec j) \<and>
    (case j_segments j of
       Some m \<Rightarrow> j_segments j' = Some m \<and> sm_total m = n \<and> v \<noteq> None \<and> j_validator j = v
     | None \<Rightarrow> \<exists>m. j_segments j' = Some m \<and> sm_total m = n \<and> sm_maximum m = k \<and>
                 durable_set m = {} \<and> j_validator j' = v)"
proof -
  have st: "j_state j = Probing" and p: "probe_succeeded j n k v = Inr (ch, j')"
    using assms(2) by (cases "j_state j"; simp add: execute_def)+
  have "durable_set m = {}" if "segment_map_new (j_id j) (j_generation j) n k = Inr m" for m
    using sm_inv_new(7) [OF that] by (auto simp: durable_set_def)
  then show ?thesis
    using st p by (auto 0 3 simp: probe_succeeded_def res_simps sm_inv_new split: option.splits if_splits dest: sym)
qed

theorem probe_keeps_one_representation_witness:
  "\<exists>j'. execute (sample_job Probing None 1 None) (CProbeSucceeded 10 4 (Some ''v'')) = Inr (True, j') \<and>
     (\<exists>m. j_segments j' = Some m \<and> durable_set m = {})"
proof -
  have "job_inv (sample_job Probing None 1 None)"
    using sample_spec_ok
    by (simp add: job_inv_def lifecycle_inv_def segments_inv_def sample_job_def width_simps)
  then show ?thesis
    using probe_keeps_one_representation [OF _ sample_job_execute(2)] sample_job_execute(2)
    by (auto simp: sample_job_def)
qed

end
