(* ===== verification/Resume_Policy.thy ===== *)
theory Resume_Policy
  imports FHD_Prelude
begin

text \<open>
  The HTTP resume policy (\<open>crates/resume-policy/src/lib.rs\<close>): parsing of the header fields a
  resumed range depends on, over raw bytes, and the decision whether a response may be read into
  the partial file. The Debug implementations, which only redact, are not modelled.
\<close>

section \<open>Errors and fields\<close>

datatype PolicyError =
    MissingHeader | RepeatedHeader | FieldTooLarge | InvalidNumber | InvalidContentRange
  | InvalidStrongEtag | InvalidRequestRange | RepresentationChanged | RangeMismatch
  | LengthMismatch | NonIdentityEncoding | UnexpectedStatus

datatype Field = Missing | Single "byte list" | Repeated

definition MAX_FIELD_BYTES :: usize where
  "MAX_FIELD_BYTES = 8192"

definition is_ows :: "byte \<Rightarrow> bool" where
  "is_ows b \<longleftrightarrow> b = CHR 0x20 \<or> b = CHR 0x09"

definition trim_ascii_start_ows :: "byte list \<Rightarrow> byte list" where
  "trim_ascii_start_ows v = dropWhile is_ows v"

definition trim_ascii_end_ows :: "byte list \<Rightarrow> byte list" where
  "trim_ascii_end_ows v = rev (dropWhile is_ows (rev v))"

definition bounded :: "byte list \<Rightarrow> (PolicyError, byte list) result" where
  "bounded v =
     (if MAX_FIELD_BYTES < length v then Inl FieldTooLarge
      else Inr (trim_ascii_end_ows (trim_ascii_start_ows v)))"

fun required :: "Field \<Rightarrow> (PolicyError, byte list) result" where
  "required Missing = Inl MissingHeader"
| "required Repeated = Inl RepeatedHeader"
| "required (Single v) = bounded v"

section \<open>Numbers\<close>

definition is_ascii_digit :: "byte \<Rightarrow> bool" where
  "is_ascii_digit b \<longleftrightarrow> 48 \<le> (of_char b :: nat) \<and> (of_char b :: nat) \<le> 57"

fun decimal_fold :: "u64 \<Rightarrow> byte list \<Rightarrow> (PolicyError, u64) result" where
  "decimal_fold number [] = Inr number"
| "decimal_fold number (digit # rest) =
     (if \<not> is_ascii_digit digit then Inl InvalidNumber
      else res_bind (ok_or (Option.bind (checked_mul number 10)
                             (\<lambda>n. checked_add n (of_char digit - 48))) InvalidNumber)
             (\<lambda>n. decimal_fold n rest))"

definition decimal :: "byte list \<Rightarrow> (PolicyError, u64) result" where
  "decimal v = (if v = [] then Inl InvalidNumber else decimal_fold 0 v)"

section \<open>Entity tags\<close>

definition etag_char :: "byte \<Rightarrow> bool" where
  "etag_char b \<longleftrightarrow> (let n = of_char b :: nat in n = 0x21 \<or> (0x23 \<le> n \<and> n \<le> 0x7e) \<or> 0x80 \<le> n)"

definition strong_etag_parse :: "byte list \<Rightarrow> (PolicyError, byte list) result" where
  "strong_etag_parse raw =
     res_bind (bounded raw) (\<lambda>v.
       if length v < 2 \<or> hd v \<noteq> CHR 0x22 \<or> last v \<noteq> CHR 0x22 then Inl InvalidStrongEtag
       else if \<not> list_all etag_char (butlast (tl v)) then Inl InvalidStrongEtag
       else Inr v)"

section \<open>Content ranges\<close>

datatype ContentRange = Satisfied u64 u64 "u64 option" | Unsatisfied u64

definition ascii_lower :: "byte \<Rightarrow> byte" where
  "ascii_lower b =
     (let n = of_char b :: nat in if 65 \<le> n \<and> n \<le> 90 then char_of (n + 32) else b)"

definition eq_ignore_ascii_case :: "byte list \<Rightarrow> byte list \<Rightarrow> bool" where
  "eq_ignore_ascii_case a b \<longleftrightarrow> map ascii_lower a = map ascii_lower b"

fun split_on :: "byte \<Rightarrow> byte list \<Rightarrow> byte list list" where
  "split_on sep [] = [[]]"
| "split_on sep (c # cs) =
     (if c = sep then [] # split_on sep cs
      else case split_on sep cs of [] \<Rightarrow> [[c]] | p # ps \<Rightarrow> (c # p) # ps)"

definition parse_bounds ::
  "byte list \<Rightarrow> u64 option \<Rightarrow> (PolicyError, ContentRange) result" where
  "parse_bounds range_part total_part =
     (let bounds = split_on (CHR ''-'') range_part in
      res_bind (decimal (hd bounds)) (\<lambda>start.
      case tl bounds of
        [] \<Rightarrow> Inl InvalidContentRange
      | second # more \<Rightarrow>
          res_bind (decimal second) (\<lambda>final.
          if more \<noteq> [] \<or> final < start \<or> (case total_part of None \<Rightarrow> False | Some n \<Rightarrow> n \<le> final)
          then Inl InvalidContentRange
          else res_bind (ok_or (checked_add final 1) InvalidContentRange) (\<lambda>end_exclusive.
                 Inr (Satisfied start end_exclusive total_part)))))"

definition content_range_parse :: "byte list \<Rightarrow> (PolicyError, ContentRange) result" where
  "content_range_parse raw =
     res_bind (bounded raw) (\<lambda>v.
       if length v < 7 \<or> \<not> eq_ignore_ascii_case (take 6 v) ''bytes '' then Inl InvalidContentRange
       else case split_on (CHR ''/'') (drop 6 v) of
         [range_part, total_part] \<Rightarrow>
           if range_part = ''*'' then res_bind (decimal total_part) (\<lambda>n. Inr (Unsatisfied n))
           else res_bind (if total_part = ''*'' then Inr None
                          else res_bind (decimal total_part) (\<lambda>n. Inr (Some n)))
                  (parse_bounds range_part)
       | _ \<Rightarrow> Inl InvalidContentRange)"

section \<open>Requests and decisions\<close>

record resume_request =
  rr_start :: u64
  rr_end_exclusive :: u64
  rr_total :: u64
  rr_etag :: "byte list"

definition resume_request_new ::
  "u64 \<Rightarrow> u64 \<Rightarrow> u64 \<Rightarrow> byte list \<Rightarrow> (PolicyError, resume_request) result" where
  "resume_request_new start end_exclusive total_len etag =
     (if end_exclusive \<le> start \<or> total_len < end_exclusive then Inl InvalidRequestRange
      else Inr \<lparr>rr_start = start, rr_end_exclusive = end_exclusive, rr_total = total_len,
                rr_etag = etag\<rparr>)"

record response_headers =
  rh_content_range :: Field
  rh_content_length :: Field
  rh_etag :: Field
  rh_content_encoding :: Field

record body_permit =
  expected_bytes :: u64

definition verify_received_length :: "body_permit \<Rightarrow> u64 \<Rightarrow> (PolicyError, unit) result" where
  "verify_received_length p received =
     (if received = expected_bytes p then Inr () else Inl LengthMismatch)"

datatype Decision = ReadRange body_permit | RestartSeparately | Revalidate | Reject PolicyError

definition check_encoding :: "Field \<Rightarrow> (PolicyError, unit) result" where
  "check_encoding f =
     (case f of Missing \<Rightarrow> Inr ()
      | _ \<Rightarrow> res_bind (required f) (\<lambda>v.
               if \<not> eq_ignore_ascii_case v ''identity'' then Inl NonIdentityEncoding else Inr ()))"

definition check_partial ::
  "resume_request \<Rightarrow> response_headers \<Rightarrow> (PolicyError, body_permit) result" where
  "check_partial request headers =
     res_bind (check_encoding (rh_content_encoding headers)) (\<lambda>_.
     res_bind (required (rh_etag headers)) (\<lambda>tag_field.
     res_bind (strong_etag_parse tag_field) (\<lambda>tag.
     if tag \<noteq> rr_etag request then Inl RepresentationChanged
     else
     res_bind (required (rh_content_range headers)) (\<lambda>range_field.
     res_bind (content_range_parse range_field) (\<lambda>r.
     if r \<noteq> Satisfied (rr_start request) (rr_end_exclusive request) (Some (rr_total request))
     then Inl RangeMismatch
     else
     res_bind (ok_or (checked_sub (rr_end_exclusive request) (rr_start request)) InvalidRequestRange)
       (\<lambda>expected.
     res_bind (required (rh_content_length headers)) (\<lambda>length_field.
     res_bind (decimal length_field) (\<lambda>n.
     if n \<noteq> expected then Inl LengthMismatch
     else Inr \<lparr>expected_bytes = expected\<rparr>))))))))"

definition evaluate :: "resume_request \<Rightarrow> u16 \<Rightarrow> response_headers \<Rightarrow> Decision" where
  "evaluate request status headers =
     (if status = 200 then RestartSeparately
      else if status = 416 then Revalidate
      else if status = 206 then
        (case check_partial request headers of Inr permit \<Rightarrow> ReadRange permit | Inl e \<Rightarrow> Reject e)
      else Reject UnexpectedStatus)"

section \<open>Printing\<close>

text \<open>The canonical spellings a server sends, as the inverse of the parsers.\<close>

definition digit_char :: "nat \<Rightarrow> byte" where
  "digit_char d = char_of (48 + d)"

fun to_decimal :: "nat \<Rightarrow> byte list" where
  "to_decimal n = (if n < 10 then [digit_char n] else to_decimal (n div 10) @ [digit_char (n mod 10)])"

declare to_decimal.simps [simp del]

definition content_range_text :: "u64 \<Rightarrow> u64 \<Rightarrow> u64 \<Rightarrow> byte list" where
  "content_range_text start final total_part =
     ''bytes '' @ to_decimal start @ ''-'' @ to_decimal final @ ''/'' @ to_decimal total_part"

lemma digit_char_of [simp]: "d < 10 \<Longrightarrow> (of_char (digit_char d) :: nat) = 48 + d"
  by (simp add: digit_char_def)

lemma is_ascii_digit_char [simp]: "d < 10 \<Longrightarrow> is_ascii_digit (digit_char d)"
  by (simp add: is_ascii_digit_def)

lemma digit_not_ows: "is_ascii_digit b \<Longrightarrow> \<not> is_ows b"
  by (auto simp: is_ascii_digit_def is_ows_def)

lemma to_decimal_nonempty [simp]: "to_decimal n \<noteq> []"
  by (subst to_decimal.simps) simp

lemma to_decimal_digits: "b \<in> set (to_decimal n) \<Longrightarrow> is_ascii_digit b"
  by (induction n rule: to_decimal.induct) (subst (asm) (2) to_decimal.simps, auto split: if_splits)

lemma decimal_fold_append:
  "decimal_fold a (xs @ ys) = res_bind (decimal_fold a xs) (\<lambda>n. decimal_fold n ys)"
  by (induction xs arbitrary: a) (auto simp: res_bind_def split: sum.splits)

lemma decimal_fold_to_decimal: "n \<le> U64_MAX \<Longrightarrow> decimal_fold 0 (to_decimal n) = Inr n"
proof (induction n rule: to_decimal.induct)
  case (1 n)
  show ?case
  proof (cases "n < 10")
    case True
    then show ?thesis using "1.prems" by (subst to_decimal.simps) (simp add: checked_mul_def checked_add_def)
  next
    case False
    have "n div 10 * 10 + n mod 10 = n" by simp
    then have m: "n div 10 * 10 \<le> U64_MAX" and e: "10 * (n div 10) + n mod 10 = n"
      using "1.prems" by (linarith, simp)
    show ?thesis
      using False 1 m e
      by (subst to_decimal.simps) (simp add: decimal_fold_append checked_mul_def checked_add_def)
  qed
qed

lemma decimal_to_decimal [simp]: "n \<le> U64_MAX \<Longrightarrow> decimal (to_decimal n) = Inr n"
  by (simp add: decimal_def decimal_fold_to_decimal)

lemma decimal_bound: "decimal v = Inr n \<Longrightarrow> n \<le> U64_MAX"
proof -
  have "a \<le> U64_MAX \<Longrightarrow> decimal_fold a v = Inr n \<Longrightarrow> n \<le> U64_MAX" for a
    by (induction v arbitrary: a) (auto simp: res_simps split: if_splits option.splits bind_splits)
  from this [of 0] show "decimal v = Inr n \<Longrightarrow> n \<le> U64_MAX" by (simp add: decimal_def split: if_splits)
qed

section \<open>Splitting and trimming\<close>

lemma split_on_none: "sep \<notin> set xs \<Longrightarrow> split_on sep xs = [xs]"
  by (induction xs) auto

lemma split_on_append: "sep \<notin> set xs \<Longrightarrow> split_on sep (xs @ sep # ys) = xs # split_on sep ys"
  by (induction xs) auto

lemma to_decimal_free: "\<not> is_ascii_digit b \<Longrightarrow> b \<notin> set (to_decimal n)"
  using to_decimal_digits by blast

lemma separators_not_digits [simp]:
  "\<not> is_ascii_digit (CHR ''-'')" "\<not> is_ascii_digit (CHR ''/'')" "\<not> is_ascii_digit (CHR ''*'')"
  by (simp_all add: is_ascii_digit_def)

lemma to_decimal_not_star: "to_decimal n \<noteq> ''*''"
  using to_decimal_digits [of "CHR ''*''" n] by auto

lemma to_decimal_length: "n < 10 ^ k \<Longrightarrow> 0 < k \<Longrightarrow> length (to_decimal n) \<le> k"
proof (induction k arbitrary: n)
  case (Suc k)
  show ?case
  proof (cases "n < 10")
    case True
    then show ?thesis by (subst to_decimal.simps) simp
  next
    case False
    then have "0 < k" using Suc.prems(1) by (cases k) auto
    then have "length (to_decimal (n div 10)) \<le> k" using Suc.prems(1) by (intro Suc.IH) auto
    then show ?thesis using False by (subst to_decimal.simps) simp
  qed
qed simp

lemma to_decimal_short: "n \<le> U64_MAX \<Longrightarrow> length (to_decimal n) \<le> 20"
  by (rule to_decimal_length) (simp_all add: width_simps)

lemma dropWhile_all: "\<forall>b \<in> set xs. P b \<Longrightarrow> dropWhile P (xs @ ys) = dropWhile P ys"
  by (induction xs) auto

text \<open>A field value surrounded by optional white space.\<close>

definition padded :: "byte list \<Rightarrow> byte list \<Rightarrow> bool" where
  "padded v raw \<longleftrightarrow>
     (\<exists>a b. raw = a @ v @ b \<and> (\<forall>c \<in> set a \<union> set b. is_ows c)) \<and> length raw \<le> MAX_FIELD_BYTES"

definition tight :: "byte list \<Rightarrow> bool" where
  "tight v \<longleftrightarrow> v \<noteq> [] \<and> \<not> is_ows (hd v) \<and> \<not> is_ows (last v)"

lemma bounded_padded:
  assumes "padded v raw" "tight v"
  shows "bounded raw = Inr v"
proof -
  obtain a b where raw: "raw = a @ v @ b" "\<forall>c \<in> set a. is_ows c" "\<forall>c \<in> set b. is_ows c"
    "length raw \<le> MAX_FIELD_BYTES"
    using assms(1) by (auto simp: padded_def)
  have v: "v \<noteq> []" "\<not> is_ows (hd v)" "\<not> is_ows (last v)" using assms(2) by (auto simp: tight_def)
  have "trim_ascii_start_ows raw = v @ b"
    unfolding trim_ascii_start_ows_def raw(1) using raw(2) v
    by (subst dropWhile_all) (cases v; simp)+
  moreover have "dropWhile is_ows (rev (v @ b)) = rev v"
    using raw(3) v by (simp add: dropWhile_all) (cases v rule: rev_cases; simp)
  ultimately show ?thesis using raw(4) by (simp add: bounded_def trim_ascii_end_ows_def)
qed

lemma padded_refl: "length v \<le> MAX_FIELD_BYTES \<Longrightarrow> padded v v"
  by (auto simp: padded_def intro: exI [of _ "[]"])

lemma bounded_tight: "bounded raw = Inr v \<Longrightarrow> v \<noteq> [] \<Longrightarrow> tight v \<and> length v \<le> MAX_FIELD_BYTES"
proof -
  assume b: "bounded raw = Inr v" and ne: "v \<noteq> []"
  let ?u = "dropWhile is_ows raw"
  have v: "v = rev (dropWhile is_ows (rev ?u))" and len: "length raw \<le> MAX_FIELD_BYTES"
    using b by (auto simp: bounded_def trim_ascii_start_ows_def trim_ascii_end_ows_def split: if_splits)
  have "\<not> is_ows (last v)"
    using ne hd_dropWhile [of is_ows "rev ?u"] by (simp add: v last_rev)
  moreover obtain w where w: "?u = v @ w"
    using takeWhile_dropWhile_id [of is_ows "rev ?u"] unfolding v
    by (metis rev_append rev_rev_ident)
  moreover have "\<not> is_ows (hd v)"
    using ne w hd_dropWhile [of is_ows raw] by (metis append_is_Nil_conv hd_append2)
  moreover have "length v \<le> length raw" using w length_dropWhile_le [of is_ows raw] by simp
  ultimately show ?thesis using ne len by (simp add: tight_def)
qed

lemma to_decimal_tight: "tight (to_decimal n)"
  using to_decimal_digits [of "hd (to_decimal n)" n] to_decimal_digits [of "last (to_decimal n)" n]
  by (simp add: tight_def digit_not_ows)

section \<open>Content ranges, printed and parsed\<close>

lemma parse_bounds_text:
  assumes "a \<le> b" "b < n" "n \<le> U64_MAX"
  shows "parse_bounds (to_decimal a @ ''-'' @ to_decimal b) (Some n) = Inr (Satisfied a (Suc b) (Some n))"
  using assms
  by (simp add: parse_bounds_def split_on_append split_on_none to_decimal_free checked_add_def)

lemma content_range_text_tight: "tight (content_range_text a b n)"
  using to_decimal_tight [of n] by (simp add: content_range_text_def tight_def is_ows_def)

lemma content_range_text_short:
  "a \<le> U64_MAX \<Longrightarrow> b \<le> U64_MAX \<Longrightarrow> n \<le> U64_MAX \<Longrightarrow>
     length (content_range_text a b n) \<le> MAX_FIELD_BYTES"
  using to_decimal_short [of a] to_decimal_short [of b] to_decimal_short [of n]
  by (simp add: content_range_text_def MAX_FIELD_BYTES_def)

lemma content_range_padded:
  assumes "a \<le> b" "b < n" "n \<le> U64_MAX" "padded (content_range_text a b n) raw"
  shows "content_range_parse raw = Inr (Satisfied a (Suc b) (Some n))"
proof -
  let ?r = "to_decimal a @ ''-'' @ to_decimal b"
  have b: "bounded raw = Inr (content_range_text a b n)"
    using assms(4) content_range_text_tight by (rule bounded_padded)
  have "CHR ''/'' \<notin> set ?r" by (simp add: to_decimal_free)
  then have split: "split_on (CHR ''/'') (drop 6 (content_range_text a b n)) = [?r, to_decimal n]"
    using split_on_append [of "CHR ''/''" ?r "to_decimal n"]
    by (simp add: content_range_text_def split_on_none to_decimal_free)
  have "7 \<le> length (content_range_text a b n)" by (simp add: content_range_text_def)
  moreover have "take 6 (content_range_text a b n) = ''bytes ''" by (simp add: content_range_text_def)
  moreover have "?r \<noteq> ''*''" using to_decimal_nonempty [of a] by (cases "to_decimal a") auto
  ultimately show ?thesis
    using assms parse_bounds_text [OF assms(1-3)]
    by (simp add: content_range_parse_def b split to_decimal_not_star eq_ignore_ascii_case_def)
qed

lemma parse_bounds_sound:
  "parse_bounds r t = Inr (Satisfied a e n) \<Longrightarrow>
     t = n \<and> a < e \<and> e \<le> U64_MAX \<and> (\<forall>m. n = Some m \<longrightarrow> e \<le> m)"
  by (cases "tl (split_on (CHR ''-'') r)"; cases t)
    (auto simp: parse_bounds_def Let_def res_simps split: if_splits)

lemma content_range_sound:
  assumes "content_range_parse raw = Inr (Satisfied a e n)"
  shows "a < e \<and> e \<le> U64_MAX \<and> (\<forall>m. n = Some m \<longrightarrow> e \<le> m \<and> m \<le> U64_MAX)"
proof -
  obtain v where v: "bounded raw = Inr v" using assms by (auto simp: content_range_parse_def res_simps)
  obtain r t where "split_on (CHR ''/'') (drop 6 v) = [r, t]" "r \<noteq> ''*''"
    using assms v
    by (auto simp: content_range_parse_def res_simps split: list.split_asm if_split_asm)
  then obtain t' where "parse_bounds r t' = Inr (Satisfied a e n)" "t' = None \<or> (\<exists>k. decimal t = Inr k \<and> t' = Some k)"
    using assms v by (auto simp: content_range_parse_def res_simps split: if_split_asm)
  then show ?thesis using parse_bounds_sound decimal_bound by blast
qed

text \<open>
  Content-Range parsing inverts printing. Every well-formed range written by a server, with
  any white space around it that fits the field limit, parses to exactly that range with an
  exclusive end; and whatever text parses as a satisfied range denotes a nonempty range that fits
  in 64 bits and lies within the total it names.
\<close>

theorem content_range_round_trip:
  "(a \<le> b \<and> b < n \<and> n \<le> U64_MAX \<and> padded (content_range_text a b n) raw \<longrightarrow>
      content_range_parse raw = Inr (Satisfied a (b + 1) (Some n))) \<and>
   (content_range_parse other = Inr (Satisfied c e t) \<longrightarrow>
      c < e \<and> e \<le> U64_MAX \<and> (\<forall>m. t = Some m \<longrightarrow> e \<le> m \<and> m \<le> U64_MAX))"
  using content_range_padded content_range_sound by simp

theorem content_range_round_trip_witness:
  "content_range_parse (content_range_text 4 7 12) = Inr (Satisfied 4 8 (Some 12)) \<and>
   content_range_text 4 7 12 = ''bytes 4-7/12''"
proof -
  have "padded (content_range_text 4 7 12) (content_range_text 4 7 12)"
    by (intro padded_refl content_range_text_short) (simp_all add: width_simps)
  moreover have "content_range_text 4 7 12 = ''bytes 4-7/12''"
    by code_simp
  ultimately show ?thesis
    using content_range_round_trip [of 4 7 12 "content_range_text 4 7 12"] by (simp add: width_simps)
qed

section \<open>Decisions\<close>

lemma evaluate_ReadRange:
  "evaluate q status h = ReadRange p \<longleftrightarrow> status = 206 \<and> check_partial q h = Inr p"
  by (auto simp: evaluate_def split: sum.splits)

lemma check_partial_Inr:
  "check_partial q h = Inr p \<longleftrightarrow>
     check_encoding (rh_content_encoding h) = Inr () \<and>
     (\<exists>f. required (rh_etag h) = Inr f \<and> strong_etag_parse f = Inr (rr_etag q)) \<and>
     (\<exists>f. required (rh_content_range h) = Inr f \<and>
        content_range_parse f = Inr (Satisfied (rr_start q) (rr_end_exclusive q) (Some (rr_total q)))) \<and>
     rr_start q \<le> rr_end_exclusive q \<and>
     (\<exists>f. required (rh_content_length h) = Inr f \<and> decimal f = Inr (rr_end_exclusive q - rr_start q)) \<and>
     p = \<lparr>expected_bytes = rr_end_exclusive q - rr_start q\<rparr>"
  by (auto simp: check_partial_def res_simps)

lemma required_Inr: "required f = Inr v \<Longrightarrow> \<exists>raw. f = Single raw \<and> bounded raw = Inr v"
  by (cases f) auto

lemma bounded_idem:
  assumes "bounded raw = Inr v"
  shows "bounded v = Inr v"
proof (cases "v = []")
  case True
  then show ?thesis by (simp add: bounded_def trim_ascii_start_ows_def trim_ascii_end_ows_def)
next
  case False
  then show ?thesis using bounded_tight [OF assms] bounded_padded padded_refl by blast
qed

text \<open>
  No response is read into the partial file unless it is a 206 in the identity encoding whose
  ETag, Content-Range and Content-Length each occur exactly once and name the requested range of
  the pinned representation, byte for byte; the permit is for exactly that many bytes and a body
  of another length is refused. A 200 never continues the partial file and a 416 never completes
  it.
\<close>

theorem read_range_is_the_requested_range:
  assumes "resume_request_new start e n tag = Inr q" "evaluate q status h = ReadRange p"
  shows "status = 206 \<and> rh_etag h \<noteq> Repeated \<and> rh_etag h \<noteq> Missing \<and>
    (\<exists>raw. rh_etag h = Single raw \<and> bounded raw = Inr tag) \<and>
    (\<exists>raw. rh_content_range h = Single raw \<and> content_range_parse raw = Inr (Satisfied start e (Some n))) \<and>
    (\<exists>raw v. rh_content_length h = Single raw \<and> bounded raw = Inr v \<and> decimal v = Inr (e - start)) \<and>
    (\<forall>k. verify_received_length p k = Inr () \<longleftrightarrow> k = e - start) \<and> 0 < expected_bytes p"
proof -
  have q: "start < e" "rr_start q = start" "rr_end_exclusive q = e" "rr_total q = n" "rr_etag q = tag"
    using assms(1) by (auto simp: resume_request_new_def split: if_splits)
  have c: "status = 206" "check_partial q h = Inr p" using assms(2) by (simp_all add: evaluate_ReadRange)
  obtain f where f: "required (rh_etag h) = Inr f" "strong_etag_parse f = Inr tag"
    using c(2) q by (auto simp: check_partial_Inr)
  obtain raw where raw: "rh_etag h = Single raw" "bounded raw = Inr f"
    using required_Inr [OF f(1)] by blast
  have "f = tag" using f(2) bounded_idem [OF raw(2)] by (auto simp: strong_etag_parse_def split: if_splits)
  obtain g where g: "required (rh_content_range h) = Inr g" "content_range_parse g = Inr (Satisfied start e (Some n))"
    using c(2) q by (auto simp: check_partial_Inr)
  obtain raw' where raw': "rh_content_range h = Single raw'" "bounded raw' = Inr g"
    using required_Inr [OF g(1)] by blast
  have "content_range_parse raw' = content_range_parse g"
    using raw'(2) bounded_idem [OF raw'(2)] by (simp add: content_range_parse_def)
  moreover obtain raw'' v where "rh_content_length h = Single raw''" "bounded raw'' = Inr v" "decimal v = Inr (e - start)"
    using c(2) q by (auto simp: check_partial_Inr dest!: required_Inr)
  moreover have "p = \<lparr>expected_bytes = e - start\<rparr>" using c(2) q by (simp add: check_partial_Inr)
  ultimately show ?thesis
    using c(1) raw raw' g(2) \<open>f = tag\<close> q(1) by (auto simp: verify_received_length_def)
qed

definition sample_headers :: response_headers where
  "sample_headers =
     \<lparr>rh_content_range = Single ''bytes 4-7/12'', rh_content_length = Single ''4'',
      rh_etag = Single [CHR 0x22, CHR ''v'', CHR 0x22], rh_content_encoding = Missing\<rparr>"

definition sample_request :: resume_request where
  "sample_request = \<lparr>rr_start = 4, rr_end_exclusive = 8, rr_total = 12, rr_etag = [CHR 0x22, CHR ''v'', CHR 0x22]\<rparr>"

lemma sample_evaluate: "evaluate sample_request 206 sample_headers = ReadRange \<lparr>expected_bytes = 4\<rparr>"
  by (simp add: evaluate_def check_partial_def sample_headers_def sample_request_def check_encoding_def
      bounded_def MAX_FIELD_BYTES_def trim_ascii_start_ows_def trim_ascii_end_ows_def is_ows_def
      strong_etag_parse_def etag_char_def content_range_parse_def eq_ignore_ascii_case_def ascii_lower_def
      parse_bounds_def decimal_def is_ascii_digit_def checked_mul_def checked_add_def checked_sub_def width_simps)

theorem read_range_is_the_requested_range_witness:
  "(\<exists>raw. rh_content_range sample_headers = Single raw \<and>
      content_range_parse raw = Inr (Satisfied 4 8 (Some 12)))"
proof -
  have "resume_request_new 4 8 12 [CHR 0x22, CHR ''v'', CHR 0x22] = Inr sample_request"
    by (simp add: resume_request_new_def sample_request_def)
  then show ?thesis using read_range_is_the_requested_range [OF _ sample_evaluate] by blast
qed

text \<open>
  C39. A correct server is always understood. For a request pinned to a strong tag, a 206 that
  spells the canonical Content-Range, Content-Length and that tag, with any surrounding white
  space, is read exactly when the numbers are those of the request.
\<close>

theorem canonical_response_accepted_iff:
  assumes "resume_request_new start e total_len tag = Inr q" "strong_etag_parse tag = Inr tag"
    and "a \<le> b" "b < n" "n \<le> U64_MAX" "l \<le> U64_MAX" "e \<le> U64_MAX"
    and "padded (content_range_text a b n) r1" "padded (to_decimal l) r2" "padded tag r3"
    and "h = \<lparr>rh_content_range = Single r1, rh_content_length = Single r2, rh_etag = Single r3,
              rh_content_encoding = Missing\<rparr>"
  shows "(\<exists>p. evaluate q 206 h = ReadRange p) \<longleftrightarrow>
    a = start \<and> b + 1 = e \<and> n = total_len \<and> l = e - start"
proof -
  have q: "start < e" "rr_start q = start" "rr_end_exclusive q = e" "rr_total q = total_len" "rr_etag q = tag"
    using assms(1) by (auto simp: resume_request_new_def split: if_splits)
  have "tag \<noteq> []" "bounded tag = Inr tag"
    using assms(2) by (auto simp: strong_etag_parse_def res_simps split: if_splits)
  then have "tight tag" using bounded_tight by blast
  then have tag: "bounded r3 = Inr tag" using assms(10) by (intro bounded_padded)
  have len: "bounded r2 = Inr (to_decimal l)" using assms(9) to_decimal_tight by (rule bounded_padded)
  have rng: "bounded r1 = Inr (content_range_text a b n)"
    using assms(8) content_range_text_tight by (rule bounded_padded)
  have "padded (content_range_text a b n) (content_range_text a b n)"
    using assms(3-5) by (intro padded_refl content_range_text_short) auto
  then have parse: "content_range_parse (content_range_text a b n) = Inr (Satisfied a (Suc b) (Some n))"
    by (rule content_range_padded [OF assms(3-5)])
  show ?thesis
    using q assms(2,6) by (auto simp: evaluate_ReadRange check_partial_Inr assms(11) check_encoding_def tag len rng parse)
qed

theorem canonical_response_accepted_iff_witness:
  "\<exists>p. evaluate sample_request 206
     \<lparr>rh_content_range = Single (content_range_text 4 7 12), rh_content_length = Single (to_decimal 4),
      rh_etag = Single [CHR 0x22, CHR ''v'', CHR 0x22], rh_content_encoding = Missing\<rparr> = ReadRange p"
proof -
  let ?tag = "[CHR 0x22, CHR ''v'', CHR 0x22]"
  have q: "resume_request_new 4 8 12 ?tag = Inr sample_request"
    by (simp add: resume_request_new_def sample_request_def)
  have t: "strong_etag_parse ?tag = Inr ?tag"
    by (simp add: strong_etag_parse_def bounded_def MAX_FIELD_BYTES_def trim_ascii_start_ows_def
        trim_ascii_end_ows_def is_ows_def etag_char_def)
  have p: "padded (content_range_text 4 7 12) (content_range_text 4 7 12)" "padded (to_decimal 4) (to_decimal 4)"
    "padded ?tag ?tag"
    using to_decimal_short [of 4]
    by (auto intro!: padded_refl content_range_text_short simp: width_simps MAX_FIELD_BYTES_def)
  show ?thesis
    using canonical_response_accepted_iff [OF q t _ _ _ _ _ p refl] by (simp add: width_simps)
qed

end
