(* ===== verification/Download_Core.thy ===== *)
theory Download_Core
  imports Domain_Types
begin

text \<open>
  The lifecycle core of the first engine (\<open>crates/download-core\<close>): half-open byte ranges with their
  conversions, and the serialized state machine whose events are bound to one attempt.
\<close>

section \<open>Ranges\<close>

datatype RangeError = EmptyOrReversed | RangeOverflow | SplitOutsideInterior

record core_range =
  cr_start :: u64
  cr_end :: u64

definition core_range_new :: "u64 \<Rightarrow> u64 \<Rightarrow> (RangeError, core_range) result" where
  "core_range_new start end_exclusive =
     (if end_exclusive \<le> start then Inl EmptyOrReversed
      else Inr \<lparr>cr_start = start, cr_end = end_exclusive\<rparr>)"

definition from_start_and_length :: "u64 \<Rightarrow> u64 \<Rightarrow> (RangeError, core_range) result" where
  "from_start_and_length start len =
     res_bind (ok_or (checked_add start len) RangeOverflow) (core_range_new start)"

definition from_inclusive :: "u64 \<Rightarrow> u64 \<Rightarrow> (RangeError, core_range) result" where
  "from_inclusive start final =
     res_bind (ok_or (checked_add final 1) RangeOverflow) (core_range_new start)"

definition cr_length :: "core_range \<Rightarrow> u64" where
  "cr_length r = cr_end r - cr_start r"

definition inclusive_end :: "core_range \<Rightarrow> u64" where
  "inclusive_end r = cr_end r - 1"

definition split_at :: "core_range \<Rightarrow> u64 \<Rightarrow> (RangeError, core_range \<times> core_range) result" where
  "split_at r offset =
     (if offset \<le> cr_start r \<or> cr_end r \<le> offset then Inl SplitOutsideInterior
      else Inr (\<lparr>cr_start = cr_start r, cr_end = offset\<rparr>, \<lparr>cr_start = offset, cr_end = cr_end r\<rparr>))"

section \<open>The state machine\<close>

datatype CoreState =
    DQueued | DProbing | DDownloading | DPausing | DPaused | DRetryWait | DNeedsAction | DVerifying
  | DPublishing | DCancelling | DCancelled | DRecovering | DCompleted

datatype CoreCommand = DStart | DPause | DResume | DRetry | DCancel | DRecover

datatype CoreEvent =
    EProbeSucceeded | ETransferFinished | EVerified | EPublishSucceeded | EWorkersStopped
  | ERetryableFailureAfterStop | EActionRequiredAfterStop | EReconciled

datatype TransitionError = IllegalTransition | StaleAttempt | AttemptExhausted

record attempt_token =
  at_download_id :: nat
  at_sequence :: u64

record download =
  dl_state :: CoreState
  dl_attempt :: attempt_token

definition download_new :: "nat \<Rightarrow> download" where
  "download_new i = \<lparr>dl_state = DQueued, dl_attempt = \<lparr>at_download_id = i, at_sequence = 0\<rparr>\<rparr>"

definition command_target :: "CoreState \<Rightarrow> CoreCommand \<Rightarrow> (CoreState \<times> bool) option" where
  "command_target s c =
     (case c of
        DStart \<Rightarrow> if s = DQueued then Some (DProbing, True) else None
      | DResume \<Rightarrow> if s \<in> {DPaused, DNeedsAction} then Some (DProbing, True) else None
      | DRetry \<Rightarrow> if s = DRetryWait then Some (DProbing, True) else None
      | DPause \<Rightarrow>
          if s \<in> {DProbing, DDownloading, DVerifying} then Some (DPausing, False)
          else if s \<in> {DQueued, DRetryWait, DNeedsAction} then Some (DPaused, False)
          else None
      | DCancel \<Rightarrow>
          if s \<in> {DProbing, DDownloading, DVerifying, DPausing} then Some (DCancelling, False)
          else if s \<in> {DQueued, DPaused, DRetryWait, DNeedsAction} then Some (DCancelled, False)
          else None
      | DRecover \<Rightarrow>
          if s \<in> {DCompleted, DCancelled, DRecovering} then None else Some (DRecovering, True))"

definition download_command :: "download \<Rightarrow> CoreCommand \<Rightarrow> (TransitionError, download \<times> CoreState) result" where
  "download_command d c =
     res_bind (ok_or (command_target (dl_state d) c) IllegalTransition) (\<lambda>(next, new_attempt).
     res_bind (if new_attempt then
                 res_bind (ok_or (checked_add (at_sequence (dl_attempt d)) 1) AttemptExhausted)
                   (\<lambda>n. Inr (\<lparr>at_download_id = at_download_id (dl_attempt d), at_sequence = n\<rparr>))
               else Inr (dl_attempt d)) (\<lambda>attempt.
     Inr (\<lparr>dl_state = next, dl_attempt = attempt\<rparr>, next)))"

definition event_target :: "CoreState \<Rightarrow> CoreEvent \<Rightarrow> CoreState option" where
  "event_target s e =
     (case e of
        EProbeSucceeded \<Rightarrow> if s = DProbing then Some DDownloading else None
      | ETransferFinished \<Rightarrow> if s = DDownloading then Some DVerifying else None
      | EVerified \<Rightarrow> if s = DVerifying then Some DPublishing else None
      | EPublishSucceeded \<Rightarrow> if s = DPublishing then Some DCompleted else None
      | EWorkersStopped \<Rightarrow>
          if s = DPausing then Some DPaused else if s = DCancelling then Some DCancelled else None
      | ERetryableFailureAfterStop \<Rightarrow>
          if s \<in> {DProbing, DDownloading, DVerifying} then Some DRetryWait else None
      | EActionRequiredAfterStop \<Rightarrow>
          if s \<in> {DProbing, DDownloading, DVerifying, DPublishing, DRecovering} then Some DNeedsAction
          else None
      | EReconciled \<Rightarrow> if s = DRecovering then Some DPaused else None)"

definition download_event ::
  "download \<Rightarrow> attempt_token \<Rightarrow> CoreEvent \<Rightarrow> (TransitionError, download \<times> CoreState) result" where
  "download_event d attempt e =
     (if attempt \<noteq> dl_attempt d then Inl StaleAttempt
      else res_bind (ok_or (event_target (dl_state d) e) IllegalTransition)
             (\<lambda>next. Inr (d\<lparr>dl_state := next\<rparr>, next)))"

inductive core_step :: "download \<Rightarrow> download \<Rightarrow> bool" where
  cs_command: "download_command d c = Inr (d', s) \<Longrightarrow> core_step d d'"
| cs_event: "download_event d a e = Inr (d', s) \<Longrightarrow> core_step d d'"

inductive_cases core_stepE: "core_step d d'"

section \<open>Properties\<close>

definition to_domain :: "core_range \<Rightarrow> byte_range" where
  "to_domain r = \<lparr>br_start = cr_start r, br_end = cr_end r\<rparr>"

text \<open>
  The two range types of the program agree: on offsets the domain accepts, the core and the
  domain construct, measure and split the same ranges, and inclusive endpoints round trip.
\<close>

theorem core_range_matches_domain:
  assumes "e \<le> I64_MAX"
  shows "(case core_range_new s e of Inl _ \<Rightarrow> byte_range_new s e = Inl InvalidInput
          | Inr r \<Rightarrow> byte_range_new s e = Inr (to_domain r) \<and> cr_length r = br_len (to_domain r) \<and>
              from_inclusive s (inclusive_end r) = Inr r \<and>
              from_start_and_length s (cr_length r) = Inr r \<and>
              (\<forall>k. case split_at r k of
                 Inl _ \<Rightarrow> \<exists>x. br_split (to_domain r) k = Inl x
               | Inr (a, b) \<Rightarrow> br_split (to_domain r) k = Inr (to_domain a, to_domain b)))"
proof (cases "e \<le> s")
  case True
  then show ?thesis by (auto simp: core_range_new_def byte_range_new_def)
next
  case False
  have "e \<le> U64_MAX" using assms I64_le_U64 by (rule le_trans)
  then show ?thesis
    using False assms
    by (auto simp: core_range_new_def byte_range_new_def to_domain_def cr_length_def br_len_def
        from_inclusive_def inclusive_end_def from_start_and_length_def checked_add_def split_at_def
        br_split_def)
qed

theorem core_range_matches_domain_witness:
  "\<exists>r. core_range_new 3 9 = Inr r \<and> from_inclusive 3 8 = Inr r \<and> byte_range_new 3 9 = Inr (to_domain r)"
  using core_range_matches_domain [of 9 3]
  by (simp add: core_range_new_def inclusive_end_def width_simps)

lemma core_step_attempt:
  "core_step d d' \<Longrightarrow> at_download_id (dl_attempt d') = at_download_id (dl_attempt d) \<and>
     at_sequence (dl_attempt d) \<le> at_sequence (dl_attempt d')"
  by (erule core_stepE) (auto simp: download_command_def download_event_def res_simps split: if_splits)

lemma core_steps_attempt:
  "core_step\<^sup>*\<^sup>* d d' \<Longrightarrow> at_download_id (dl_attempt d') = at_download_id (dl_attempt d) \<and>
     at_sequence (dl_attempt d) \<le> at_sequence (dl_attempt d')"
  by (induction rule: rtranclp_induct) (auto dest: core_step_attempt)

lemma final_targets:
  assumes "s \<in> {DCompleted, DCancelled}"
  shows "command_target s c = None" "event_target s e = None"
  using assms by (cases c; cases e; auto simp: command_target_def event_target_def)+

lemma final_core_states: "dl_state k \<in> {DCompleted, DCancelled} \<Longrightarrow> \<not> core_step k k'"
  by (auto elim!: core_stepE simp: download_command_def download_event_def res_simps final_targets
      split: if_splits)

text \<open>
  Events of an obsolete attempt are dead. Once a command has opened a new attempt, no later
  state of the download accepts an event carrying the token of the old one, and the same holds
  for the token of another download. A completed or cancelled download accepts nothing at all.
\<close>

theorem obsolete_attempt_refused:
  assumes "download_command d c = Inr (d', s)" "dl_attempt d' \<noteq> dl_attempt d" "core_step\<^sup>*\<^sup>* d' k"
  shows "download_event k (dl_attempt d) e = Inl StaleAttempt \<and>
    (t \<noteq> at_download_id (dl_attempt d) \<longrightarrow>
       download_event k \<lparr>at_download_id = t, at_sequence = n\<rparr> e = Inl StaleAttempt) \<and>
    (dl_state k \<in> {DCompleted, DCancelled} \<longrightarrow> (\<forall>k'. \<not> core_step k k'))"
proof -
  have "at_download_id (dl_attempt d') = at_download_id (dl_attempt d)"
    "at_sequence (dl_attempt d) < at_sequence (dl_attempt d')"
    using assms(1,2) by (auto simp: download_command_def res_simps split: if_splits)
  then have later: "at_download_id (dl_attempt k) = at_download_id (dl_attempt d)"
    "at_sequence (dl_attempt d) < at_sequence (dl_attempt k)"
    using core_steps_attempt [OF assms(3)] by auto
  then have "dl_attempt k \<noteq> dl_attempt d" "t \<noteq> at_download_id (dl_attempt d) \<Longrightarrow>
      dl_attempt k \<noteq> \<lparr>at_download_id = t, at_sequence = n\<rparr>" by auto
  then show ?thesis using final_core_states [of k] by (simp add: download_event_def eq_commute)
qed

theorem obsolete_attempt_refused_witness:
  "\<exists>d' s. download_command (download_new 7) DStart = Inr (d', s) \<and>
     download_event d' (dl_attempt (download_new 7)) EProbeSucceeded = Inl StaleAttempt"
proof -
  let ?d = "\<lparr>dl_state = DProbing, dl_attempt = \<lparr>at_download_id = 7, at_sequence = 1\<rparr>\<rparr>"
  have c: "download_command (download_new 7) DStart = Inr (?d, DProbing)"
    by (simp add: download_command_def download_new_def command_target_def checked_add_def width_simps)
  show ?thesis
    using obsolete_attempt_refused [OF c, of ?d EProbeSucceeded] c by (auto simp: download_new_def)
qed

text \<open>
  Recovery never assumes success: after a crash every live download can be recovered, the new
  attempt invalidates all workers of the old one, and the only ways out of recovery are paused or
  in need of action, never completed.
\<close>

theorem recovery_is_conservative:
  assumes "at_sequence (dl_attempt d) < U64_MAX" "dl_state d \<notin> {DCompleted, DCancelled, DRecovering}"
  shows "\<exists>d'. download_command d DRecover = Inr (d', DRecovering) \<and>
    at_sequence (dl_attempt d') = at_sequence (dl_attempt d) + 1 \<and>
    (\<forall>k. core_step d' k \<longrightarrow> dl_state k \<in> {DPaused, DNeedsAction})"
proof -
  let ?d = "\<lparr>dl_state = DRecovering, dl_attempt =
      \<lparr>at_download_id = at_download_id (dl_attempt d), at_sequence = Suc (at_sequence (dl_attempt d))\<rparr>\<rparr>"
  have "download_command d DRecover = Inr (?d, DRecovering)"
    using assms by (auto simp: download_command_def command_target_def checked_add_def)
  moreover have "dl_state k \<in> {DPaused, DNeedsAction}" if "core_step ?d k" for k
  proof -
    have c: "command_target DRecovering c = None" for c by (cases c) (simp_all add: command_target_def)
    have e: "event_target DRecovering x = Some s \<Longrightarrow> s \<in> {DPaused, DNeedsAction}" for x s
      by (cases x) (simp_all add: event_target_def)
    from that show ?thesis
    proof (rule core_stepE)
      fix c s assume "download_command ?d c = Inr (k, s)"
      then show ?thesis by (simp add: download_command_def c)
    next
      fix a x s assume "download_event ?d a x = Inr (k, s)"
      then show ?thesis using e [of x s] by (auto simp: download_event_def res_simps split: if_splits)
    qed
  qed
  ultimately show ?thesis by fastforce
qed

theorem recovery_is_conservative_witness:
  "\<exists>d'. download_command (download_new 7) DRecover = Inr (d', DRecovering) \<and> at_sequence (dl_attempt d') = 1"
  using recovery_is_conservative [of "download_new 7"] by (auto simp: download_new_def width_simps)

end
