(* ===== verification/App_Ports.thy ===== *)
theory App_Ports
  imports Job_Props
begin

text \<open>
  The vocabulary of the application layer (\<open>crates/application/src/lib.rs\<close>): what its ports
  exchange. The ports themselves are traits; their implementations are modelled in the theories
  of the adapters.
\<close>

datatype AppError =
    AInvalidInput | AForbidden | AEntitlementDenied | APersistenceUnavailable
  | AIdempotencyConflict | APreviouslyRemoved | ACapacity | ACorruptRepository

fun app_error_code :: "AppError \<Rightarrow> string" where
  "app_error_code AInvalidInput = ''APP-INVALID-INPUT''"
| "app_error_code AForbidden = ''AUTH-DENIED''"
| "app_error_code AEntitlementDenied = ''ENTITLEMENT-DENIED''"
| "app_error_code APersistenceUnavailable = ''PERSISTENCE-UNAVAILABLE''"
| "app_error_code AIdempotencyConflict = ''COMMAND-CONFLICT''"
| "app_error_code APreviouslyRemoved = ''COMMAND-REMOVED''"
| "app_error_code ACapacity = ''QUEUE-CAPACITY''"
| "app_error_code ACorruptRepository = ''PERSISTENCE-CORRUPT''"

datatype CommitError = CommitConflict | CommitUnavailable | CommitCapacity

type_synonym Principal = u64

definition principal_new :: "u64 \<Rightarrow> (AppError, Principal) result" where
  "principal_new v = (if v = 0 then Inl AInvalidInput else Inr v)"

record receipt_key =
  rk_principal :: Principal
  rk_digest :: digest

record receipt =
  rc_key :: receipt_key
  rc_original :: job_spec
  rc_job :: JobId
  rc_removed :: bool

definition receipt_new :: "receipt_key \<Rightarrow> job_spec \<Rightarrow> JobId \<Rightarrow> receipt" where
  "receipt_new k s j = \<lparr>rc_key = k, rc_original = s, rc_job = j, rc_removed = False\<rparr>"

definition tombstone :: "receipt \<Rightarrow> receipt" where
  "tombstone r = r\<lparr>rc_removed := True\<rparr>"

definition replay :: "receipt \<Rightarrow> receipt_key \<Rightarrow> job_spec \<Rightarrow> (AppError, JobId) result" where
  "replay r k s =
     (if rc_key r \<noteq> k then Inl ACorruptRepository
      else if rc_original r \<noteq> s then Inl AIdempotencyConflict
      else if rc_removed r then Inl APreviouslyRemoved
      else Inr (rc_job r))"

record add_unit =
  au_job :: job
  au_receipt :: receipt

record durable_extent =
  de_range :: byte_range
  de_digest :: digest

record publish_intent =
  pi_job :: JobId
  pi_generation :: Generation
  pi_attempt :: u32
  pi_size :: u64
  pi_digest :: digest

record source_reference =
  sf_url :: "string option"
  sf_allow_http :: bool
  sf_sensitive :: bool

definition source_reference_new :: "string \<Rightarrow> bool \<Rightarrow> (AppError, source_reference) result" where
  "source_reference_new url allow_http =
     (if url = [] \<or> 16384 < length url then Inl AInvalidInput
      else Inr \<lparr>sf_url = Some url, sf_allow_http = allow_http, sf_sensitive = False\<rparr>)"

definition source_reference_sensitive :: "bool \<Rightarrow> source_reference" where
  "source_reference_sensitive allow_http =
     \<lparr>sf_url = None, sf_allow_http = allow_http, sf_sensitive = True\<rparr>"

end
