(* ===== verification/Persistence.thy ===== *)
theory Persistence
  imports App_Ports
begin

text \<open>
  The durable repository (\<open>crates/adapters/persistence\<close>): the tables of the SQLite schema as
  association lists and maps of rows, and every transaction of the adapter as a function on them.
  Columns are SQLite integers and blobs, so the encodings and the checked conversions of the
  source are part of the model.

  A transaction runs under one lock, and its effects appear together at commit or not at all.
  What the storage engine itself may refuse (a busy or failing disk) is the argument \<open>io\<close>: when it
  is false the transaction reports \<open>PUnavailable\<close> and changes nothing. Opening, migrating and
  locking the database file are not modelled.
\<close>

section \<open>Errors and column encodings\<close>

datatype PersistenceError =
    PInvalidPath | PInvalidLimits | PLocked | PUnavailable | PUnsupportedVersion | PCorrupt
  | PCapacity | PConflict | PMissing | PRemoved

definition commit_error :: "PersistenceError \<Rightarrow> CommitError" where
  "commit_error e =
     (case e of PConflict \<Rightarrow> CommitConflict | PCapacity \<Rightarrow> CommitCapacity | _ \<Rightarrow> CommitUnavailable)"

definition app_error :: "PersistenceError \<Rightarrow> AppError" where
  "app_error e =
     (case e of PCapacity \<Rightarrow> ACapacity | PCorrupt \<Rightarrow> ACorruptRepository
      | PUnsupportedVersion \<Rightarrow> ACorruptRepository | _ \<Rightarrow> APersistenceUnavailable)"

definition STATES :: "JobState list" where
  "STATES = [Queued, Probing, Transferring, Stopping, Paused, RetryWait, NeedsAction, Verifying,
             Publishing, Cancelling, Failed, Completed, Cancelled]"

definition REASONS :: "StopReason list" where
  "REASONS = [RSourceChanged, RAuthentication, RStorage, RIntegrity, RNetwork, RPolicy, RUnknown,
              RDestination]"

fun state_code :: "JobState \<Rightarrow> i64" where
  "state_code Queued = 0"
| "state_code Probing = 1"
| "state_code Transferring = 2"
| "state_code Stopping = 3"
| "state_code Paused = 4"
| "state_code RetryWait = 5"
| "state_code NeedsAction = 6"
| "state_code Verifying = 7"
| "state_code Publishing = 8"
| "state_code Cancelling = 9"
| "state_code Failed = 10"
| "state_code Completed = 11"
| "state_code Cancelled = 12"

definition REMOVABLE_CODES :: "i64 list" where
  "REMOVABLE_CODES = [0, 4, 5, 6, 10, 11, 12]"

definition nth_code :: "'a list \<Rightarrow> i64 \<Rightarrow> (PersistenceError, 'a) result" where
  "nth_code xs c = (if 0 \<le> c \<and> nat c < length xs then Inr (xs ! nat c) else Inl PCorrupt)"

definition state_of :: "i64 \<Rightarrow> (PersistenceError, JobState) result" where
  "state_of c = nth_code STATES c"

fun reason_code :: "StopReason \<Rightarrow> i64" where
  "reason_code RSourceChanged = 0"
| "reason_code RAuthentication = 1"
| "reason_code RStorage = 2"
| "reason_code RIntegrity = 3"
| "reason_code RNetwork = 4"
| "reason_code RPolicy = 5"
| "reason_code RUnknown = 6"
| "reason_code RDestination = 7"

definition reason_of :: "i64 \<Rightarrow> (PersistenceError, StopReason) result" where
  "reason_of c = nth_code REASONS c"

definition stored :: "u64 \<Rightarrow> (PersistenceError, i64) result" where
  "stored v = (if v \<le> I64_MAX then Inr (int v) else Inl PCorrupt)"

definition loaded :: "i64 \<Rightarrow> (PersistenceError, u64) result" where
  "loaded v = (if 0 \<le> v then Inr (nat v) else Inl PCorrupt)"

definition signed_id :: "JobId \<Rightarrow> (PersistenceError, i64) result" where
  "signed_id i = (if i \<le> I64_MAX then Inr (int i) else Inl PCorrupt)"

fun stop_columns :: "StopTarget option \<Rightarrow> (PersistenceError, i64 option \<times> i64 option) result" where
  "stop_columns None = Inr (None, None)"
| "stop_columns (Some ToVerifying) = Inr (Some 0, None)"
| "stop_columns (Some ToQueued) = Inr (Some 1, None)"
| "stop_columns (Some ToPaused) = Inr (Some 2, None)"
| "stop_columns (Some (ToRetryWait t)) = res_bind (stored t) (\<lambda>v. Inr (Some 3, Some v))"
| "stop_columns (Some (ToNeedsAction r)) = Inr (Some 4, Some (reason_code r))"
| "stop_columns (Some (ToFailed r)) = Inr (Some 5, Some (reason_code r))"

definition stop_of :: "i64 option \<Rightarrow> i64 option \<Rightarrow> (PersistenceError, StopTarget option) result" where
  "stop_of kind v =
     (case (kind, v) of
        (None, None) \<Rightarrow> Inr None
      | (Some k, None) \<Rightarrow>
          if k = 0 then Inr (Some ToVerifying)
          else if k = 1 then Inr (Some ToQueued)
          else if k = 2 then Inr (Some ToPaused)
          else Inl PCorrupt
      | (Some k, Some x) \<Rightarrow>
          if k = 3 then res_bind (loaded x) (\<lambda>t. Inr (Some (ToRetryWait t)))
          else if k = 4 then res_bind (reason_of x) (\<lambda>r. Inr (Some (ToNeedsAction r)))
          else if k = 5 then res_bind (reason_of x) (\<lambda>r. Inr (Some (ToFailed r)))
          else Inl PCorrupt
      | _ \<Rightarrow> Inl PCorrupt)"

definition priority_code :: "Priority \<Rightarrow> i64" where
  "priority_code p = (case p of Low \<Rightarrow> 0 | Normal \<Rightarrow> 1 | High \<Rightarrow> 2)"

text \<open>A \<open>u64\<close> as eight little-endian bytes; identifiers that may exceed a signed column are
  stored so.\<close>

definition u64_of_blob :: "byte list \<Rightarrow> (PersistenceError, u64) result" where
  "u64_of_blob b = (if length b = 8 then Inr (from_le_bytes b) else Inl PCorrupt)"

definition digest_of_blob :: "byte list \<Rightarrow> (PersistenceError, digest) result" where
  "digest_of_blob b = (if length b = 32 then Inr b else Inl PCorrupt)"

section \<open>Tables\<close>

record spec_row =
  sp_source :: "byte list"
  sp_destination :: "byte list"
  sp_expected :: "byte list option"
  sp_priority :: i64
  sp_max_bytes :: i64

record job_row =
  jw_spec :: spec_row
  jw_version :: i64

record state_row =
  sr_state :: i64
  sr_generation :: i64
  sr_reason :: "i64 option"
  sr_retry_at :: "i64 option"
  sr_stop_kind :: "i64 option"
  sr_stop_value :: "i64 option"
  sr_replace_on_drain :: i64
  sr_attempts :: i64
  sr_total :: "i64 option"
  sr_max_segments :: "i64 option"
  sr_validator :: "byte list option"

record extent_row =
  er_start :: i64
  er_end_excl :: i64
  er_digest :: "byte list"

record intent_row =
  iw_generation :: i64
  iw_attempt :: i64
  iw_size :: i64
  iw_digest :: "byte list"

record receipt_row =
  rw_job_id :: i64
  rw_spec :: spec_row
  rw_removed :: i64

record db =
  db_last_id :: i64
  db_jobs :: "(i64 \<times> job_row) list"
  db_receipts :: "((byte list \<times> byte list) \<times> receipt_row) list"
  db_state :: "i64 \<rightharpoonup> state_row"
  db_extents :: "i64 \<Rightarrow> i64 \<Rightarrow> extent_row list"
  db_intents :: "i64 \<rightharpoonup> intent_row"
  db_limit_jobs :: usize
  db_limit_receipts :: usize

definition encode_spec :: "job_spec \<Rightarrow> spec_row" where
  "encode_spec s =
     \<lparr>sp_source = le_bytes 8 (js_source s), sp_destination = le_bytes 8 (js_destination s),
      sp_expected = js_expected_sha256 s, sp_priority = priority_code (js_priority s),
      sp_max_bytes = int (js_max_bytes s)\<rparr>"

definition decode_spec :: "spec_row \<Rightarrow> (PersistenceError, job_spec) result" where
  "decode_spec r =
     res_bind (u64_of_blob (sp_source r)) (\<lambda>source.
     res_bind (u64_of_blob (sp_destination r)) (\<lambda>destination.
     res_bind (if sp_priority r = 0 then Inr Low else if sp_priority r = 1 then Inr Normal
               else if sp_priority r = 2 then Inr High else Inl PCorrupt) (\<lambda>importance.
     res_bind (map_err (\<lambda>_. PCorrupt) (identifier_new source)) (\<lambda>source.
     res_bind (map_err (\<lambda>_. PCorrupt) (identifier_new destination)) (\<lambda>destination.
     res_bind (opt_try digest_of_blob (sp_expected r)) (\<lambda>expected.
     res_bind (loaded (sp_max_bytes r)) (\<lambda>max_bytes.
     map_err (\<lambda>_. PCorrupt) (job_spec_new source destination expected importance max_bytes))))))))"

section \<open>Reading\<close>

record current_row =
  cu_state :: JobState
  cu_generation :: i64
  cu_plan :: "(i64 \<times> i64) option"
  cu_validator :: "byte list option"

definition zip_plan :: "i64 option \<Rightarrow> i64 option \<Rightarrow> (i64 \<times> i64) option" where
  "zip_plan a b = (case (a, b) of (Some x, Some y) \<Rightarrow> Some (x, y) | _ \<Rightarrow> None)"

definition current :: "db \<Rightarrow> i64 \<Rightarrow> (PersistenceError, current_row) result" where
  "current d i =
     (case db_state d i of
        None \<Rightarrow> Inr \<lparr>cu_state = Queued, cu_generation = 1, cu_plan = None, cu_validator = None\<rparr>
      | Some r \<Rightarrow>
          res_bind (state_of (sr_state r)) (\<lambda>s.
            Inr \<lparr>cu_state = s, cu_generation = sr_generation r,
                 cu_plan = zip_plan (sr_total r) (sr_max_segments r),
                 cu_validator = sr_validator r\<rparr>))"

definition decode_extent :: "extent_row \<Rightarrow> (PersistenceError, durable_extent) result" where
  "decode_extent r =
     res_bind (loaded (er_start r)) (\<lambda>start.
     res_bind (loaded (er_end_excl r)) (\<lambda>final.
     res_bind (map_err (\<lambda>_. PCorrupt) (byte_range_new start final)) (\<lambda>rng.
     res_bind (digest_of_blob (er_digest r)) (\<lambda>dg.
     Inr \<lparr>de_range = rng, de_digest = dg\<rparr>))))"

definition extents :: "db \<Rightarrow> i64 \<Rightarrow> i64 \<Rightarrow> (PersistenceError, durable_extent list) result" where
  "extents d i g = collect_res (map decode_extent (sort_key er_start (db_extents d i g)))"

definition extent_ranges :: "durable_extent list \<Rightarrow> byte_range list" where
  "extent_ranges es = map de_range es"

definition overlaps :: "byte_range \<Rightarrow> byte_range \<Rightarrow> bool" where
  "overlaps a b \<longleftrightarrow> br_start a < br_end b \<and> br_start b < br_end a"

fun admit_loop ::
  "durable_extent list \<Rightarrow> durable_extent list \<Rightarrow> durable_extent list \<Rightarrow> durable_extent list option" where
  "admit_loop existing fresh [] = Some fresh"
| "admit_loop existing fresh (e # rest) =
     (if e \<in> set existing \<or> e \<in> set fresh then admit_loop existing fresh rest
      else if list_ex (\<lambda>x. overlaps (de_range x) (de_range e)) (existing @ fresh) then None
      else admit_loop existing (fresh @ [e]) rest)"

definition admit :: "durable_extent list \<Rightarrow> durable_extent list \<Rightarrow> durable_extent list option" where
  "admit existing incoming = admit_loop existing [] incoming"

fun count_segments :: "byte_range list \<Rightarrow> nat \<Rightarrow> u64 \<Rightarrow> u64 \<Rightarrow> nat" where
  "count_segments [] count cursor n = count + (if cursor < n then 1 else 0)"
| "count_segments (r # rs) count cursor n =
     (if 0 < count \<and> br_start r = cursor then count_segments rs count (br_end r) n
      else count_segments rs (count + ((if cursor < br_start r then 1 else 0) + 1)) (br_end r) n)"

definition restored_segments :: "byte_range list \<Rightarrow> u64 \<Rightarrow> usize" where
  "restored_segments durable n = count_segments (sort_key br_start durable) 0 0 n"

section \<open>Transactions\<close>

definition next_plan ::
  "JobCommand \<Rightarrow> bool \<Rightarrow> (i64 \<times> i64) option \<Rightarrow> (PersistenceError, (i64 \<times> i64) option) result" where
  "next_plan c replaced plan =
     (if replaced then Inr None
      else case (c, plan) of
        (CProbeSucceeded n _ _, Some p) \<Rightarrow>
          res_bind (stored n) (\<lambda>t. if fst p \<noteq> t then Inl PConflict else Inr (Some p))
      | (CProbeSucceeded n k _, None) \<Rightarrow>
          res_bind (stored n) (\<lambda>t. res_bind (stored k) (\<lambda>m. Inr (Some (t, m))))
      | (_, p) \<Rightarrow> Inr p)"

definition next_validator ::
  "JobCommand \<Rightarrow> bool \<Rightarrow> (i64 \<times> i64) option \<Rightarrow> byte list option
   \<Rightarrow> (PersistenceError, byte list option) result" where
  "next_validator c replaced plan kept =
     (if replaced then Inr None
      else case c of
        CProbeSucceeded _ _ v \<Rightarrow>
          if plan = None then Inr v
          else if v = None \<or> v \<noteq> kept then Inl PConflict
          else Inr kept
      | _ \<Rightarrow> Inr kept)"

text \<open>The CHECK constraints of the \<open>job_state\<close> table.\<close>

definition state_row_ok :: "state_row \<Rightarrow> bool" where
  "state_row_ok r \<longleftrightarrow>
     0 \<le> sr_state r \<and> sr_state r \<le> 12 \<and> 0 < sr_generation r \<and>
     (case sr_reason r of None \<Rightarrow> True | Some x \<Rightarrow> 0 \<le> x \<and> x \<le> 7) \<and>
     (case sr_retry_at r of None \<Rightarrow> True | Some x \<Rightarrow> 0 \<le> x) \<and>
     (case sr_stop_kind r of None \<Rightarrow> True | Some x \<Rightarrow> 0 \<le> x \<and> x \<le> 5) \<and>
     (case sr_stop_value r of None \<Rightarrow> True | Some x \<Rightarrow> 0 \<le> x) \<and>
     sr_replace_on_drain r \<in> {0, 1} \<and> 0 \<le> sr_attempts r \<and> sr_attempts r \<le> 255 \<and>
     (case sr_total r of None \<Rightarrow> True | Some x \<Rightarrow> 0 \<le> x) \<and>
     (case sr_max_segments r of None \<Rightarrow> True | Some x \<Rightarrow> 1 \<le> x \<and> x \<le> 262144) \<and>
     (case sr_validator r of None \<Rightarrow> True | Some v \<Rightarrow> length v = 32) \<and>
     (sr_total r = None \<longleftrightarrow> sr_max_segments r = None) \<and>
     (sr_validator r = None \<or> sr_total r \<noteq> None)"

definition outcome_row ::
  "job_projection \<Rightarrow> i64 \<Rightarrow> (i64 \<times> i64) option \<Rightarrow> byte list option \<Rightarrow> (PersistenceError, state_row) result"
where
  "outcome_row p generation plan validator =
     res_bind (stop_columns (jp_stop p)) (\<lambda>(kind, v).
     res_bind (opt_try stored (jp_retry_at p)) (\<lambda>retry.
     Inr \<lparr>sr_state = state_code (jp_state p), sr_generation = generation,
          sr_reason = map_option reason_code (jp_reason p), sr_retry_at = retry,
          sr_stop_kind = kind, sr_stop_value = v,
          sr_replace_on_drain = (if jp_replace_on_drain p then 1 else 0),
          sr_attempts = int (jp_attempts p), sr_total = map_option fst plan,
          sr_max_segments = map_option snd plan, sr_validator = validator\<rparr>))"

definition clear_extents :: "db \<Rightarrow> i64 \<Rightarrow> db" where
  "clear_extents d i = d\<lparr>db_extents := (db_extents d)(i := (\<lambda>_. []))\<rparr>"

definition clear_intent :: "db \<Rightarrow> i64 \<Rightarrow> db" where
  "clear_intent d i = d\<lparr>db_intents := (db_intents d)(i := None)\<rparr>"

definition put_state :: "db \<Rightarrow> i64 \<Rightarrow> state_row \<Rightarrow> db" where
  "put_state d i r = d\<lparr>db_state := (db_state d)(i \<mapsto> r)\<rparr>"

definition set_version :: "db \<Rightarrow> i64 \<Rightarrow> i64 \<Rightarrow> db" where
  "set_version d i v =
     d\<lparr>db_jobs := map (\<lambda>(k, r). if k = i then (k, r\<lparr>jw_version := v\<rparr>) else (k, r)) (db_jobs d)\<rparr>"

text \<open>What a new representation or a finished publication makes obsolete.\<close>

definition drop_obsolete :: "db \<Rightarrow> i64 \<Rightarrow> bool \<Rightarrow> JobCommand \<Rightarrow> db" where
  "drop_obsolete d i replaced c =
     (let d1 = (if replaced then clear_intent (clear_extents d i) i else d) in
      if c = CPublishCommitted then clear_intent d1 i else d1)"

definition store_outcome ::
  "db \<Rightarrow> i64 \<Rightarrow> job_event \<Rightarrow> current_row \<Rightarrow> i64 \<Rightarrow> (PersistenceError, db) result" where
  "store_outcome d i e now generation =
     (let replaced = (generation \<noteq> cu_generation now) in
      res_bind (next_plan (je_command e) replaced (cu_plan now)) (\<lambda>plan.
      res_bind (next_validator (je_command e) replaced (cu_plan now) (cu_validator now)) (\<lambda>validator.
      if validator \<noteq> jp_validator (je_outcome e) then Inl PConflict else
      let d' = drop_obsolete d i replaced (je_command e) in
      res_bind (extents d' i generation) (\<lambda>es.
      if sum_list (map br_len (extent_ranges es)) < jp_durable_bytes (je_outcome e) then Inl PConflict else
      res_bind (outcome_row (je_outcome e) generation plan validator) (\<lambda>row.
      if \<not> state_row_ok row then Inl PUnavailable else
      res_bind (stored (je_version e)) (\<lambda>version.
      Inr (set_version (put_state d' i row) i version)))))))"

definition transition :: "db \<Rightarrow> job_event \<Rightarrow> bool \<Rightarrow> (PersistenceError, db) result" where
  "transition d e io =
     res_bind (signed_id (je_job e)) (\<lambda>i.
     if \<not> io then Inl PUnavailable else
     res_bind (ok_or (map_option jw_version (map_of (db_jobs d) i)) PConflict) (\<lambda>version.
     res_bind (current d i) (\<lambda>now.
     res_bind (loaded version) (\<lambda>v.
     if checked_add v 1 \<noteq> Some (je_version e) \<or> cu_state now \<noteq> je_from e then Inl PConflict else
     res_bind (stored (je_generation e)) (\<lambda>old.
     if cu_generation now \<noteq> old then Inl PConflict else
     res_bind (stored (jp_generation (je_outcome e))) (\<lambda>generation.
     store_outcome d i e now generation))))))"

definition encode_extent :: "durable_extent \<Rightarrow> (PersistenceError, extent_row) result" where
  "encode_extent e =
     res_bind (stored (br_start (de_range e))) (\<lambda>s.
     res_bind (stored (br_end (de_range e))) (\<lambda>f.
     Inr \<lparr>er_start = s, er_end_excl = f, er_digest = de_digest e\<rparr>))"

text \<open>The primary key and the CHECK constraints of the \<open>extents\<close> table.\<close>

definition extent_row_ok :: "extent_row list \<Rightarrow> extent_row \<Rightarrow> bool" where
  "extent_row_ok rows r \<longleftrightarrow>
     0 \<le> er_start r \<and> er_start r < er_end_excl r \<and> length (er_digest r) = 32 \<and>
     er_start r \<notin> set (map er_start rows)"

fun insert_extents :: "extent_row list \<Rightarrow> durable_extent list \<Rightarrow> (PersistenceError, extent_row list) result" where
  "insert_extents rows [] = Inr rows"
| "insert_extents rows (e # es) =
     res_bind (encode_extent e) (\<lambda>r.
       if \<not> extent_row_ok rows r then Inl PUnavailable else insert_extents (rows @ [r]) es)"

definition durable ::
  "db \<Rightarrow> JobId \<Rightarrow> Generation \<Rightarrow> durable_extent list \<Rightarrow> bool \<Rightarrow> (PersistenceError, db) result" where
  "durable d job generation incoming io =
     res_bind (signed_id job) (\<lambda>i.
     if \<not> io then Inl PUnavailable else
     if map_of (db_jobs d) i = None then Inl PConflict else
     res_bind (current d i) (\<lambda>now.
     res_bind (stored generation) (\<lambda>g.
     res_bind (ok_or (cu_plan now) PConflict) (\<lambda>(total_col, maximum).
     if g \<noteq> cu_generation now \<or> cu_state now \<notin> {Transferring, Stopping, Cancelling} then Inl PConflict else
     res_bind (loaded total_col) (\<lambda>n.
     if list_ex (\<lambda>e. n < br_end (de_range e)) incoming then Inl PCorrupt else
     res_bind (extents d i g) (\<lambda>existing.
     res_bind (ok_or (admit existing incoming) PConflict) (\<lambda>fresh.
     res_bind (loaded maximum) (\<lambda>m.
     if m < restored_segments (extent_ranges existing @ extent_ranges fresh) n then Inl PConflict else
     res_bind (insert_extents (db_extents d i g) fresh) (\<lambda>rows.
     Inr (d\<lparr>db_extents := (db_extents d)(i := (db_extents d i)(g := rows))\<rparr>))))))))))"

definition current_extents :: "db \<Rightarrow> JobId \<Rightarrow> (PersistenceError, durable_extent list) result" where
  "current_extents d job =
     res_bind (signed_id job) (\<lambda>i.
       extents d i (case db_state d i of None \<Rightarrow> 1 | Some r \<Rightarrow> sr_generation r))"

definition intent :: "db \<Rightarrow> JobId \<Rightarrow> (PersistenceError, publish_intent option) result" where
  "intent d job =
     res_bind (signed_id job) (\<lambda>i.
     case db_intents d i of
       None \<Rightarrow> Inr None
     | Some r \<Rightarrow>
         res_bind (loaded (iw_generation r)) (\<lambda>g.
         res_bind (map_err (\<lambda>_. PCorrupt) (identifier_new g)) (\<lambda>g.
         res_bind (if 0 \<le> iw_attempt r \<and> nat (iw_attempt r) \<le> U32_MAX then Inr (nat (iw_attempt r))
                   else Inl PCorrupt) (\<lambda>a.
         res_bind (loaded (iw_size r)) (\<lambda>s.
         res_bind (digest_of_blob (iw_digest r)) (\<lambda>dg.
         Inr (Some \<lparr>pi_job = job, pi_generation = g, pi_attempt = a, pi_size = s, pi_digest = dg\<rparr>)))))))"

definition intend_publish :: "db \<Rightarrow> publish_intent \<Rightarrow> bool \<Rightarrow> (PersistenceError, db) result" where
  "intend_publish d p io =
     res_bind (signed_id (pi_job p)) (\<lambda>i.
     if \<not> io then Inl PUnavailable else
     res_bind (current d i) (\<lambda>now.
     if cu_state now \<noteq> Verifying then Inl PConflict else
     res_bind (stored (pi_generation p)) (\<lambda>g.
     if cu_generation now \<noteq> g \<or>
        (case cu_plan now of None \<Rightarrow> True | Some (n, _) \<Rightarrow> loaded n \<noteq> Inr (pi_size p))
     then Inl PConflict else
     res_bind (stored (pi_size p)) (\<lambda>s.
     if pi_attempt p = 0 \<or> length (pi_digest p) \<noteq> 32 then Inl PUnavailable else
     Inr (d\<lparr>db_intents := (db_intents d)(i \<mapsto>
       \<lparr>iw_generation = g, iw_attempt = int (pi_attempt p), iw_size = s, iw_digest = pi_digest p\<rparr>)\<rparr>)))))"

section \<open>Loading\<close>

definition load_plan :: "state_row \<Rightarrow> (PersistenceError, (u64 \<times> usize) option) result" where
  "load_plan r =
     opt_try (\<lambda>(t, m). res_bind (loaded t) (\<lambda>t'. res_bind (loaded m) (\<lambda>m'. Inr (t', m'))))
       (zip_plan (sr_total r) (sr_max_segments r))"

definition load_record :: "db \<Rightarrow> i64 \<Rightarrow> job_row \<Rightarrow> (PersistenceError, job_record) result" where
  "load_record d i row =
     res_bind (opt_try digest_of_blob (case db_state d i of None \<Rightarrow> None | Some r \<Rightarrow> sr_validator r)) (\<lambda>validator.
     res_bind (loaded i) (\<lambda>id_val.
     res_bind (map_err (\<lambda>_. PCorrupt) (identifier_new id_val)) (\<lambda>job_id.
     res_bind (decode_spec (jw_spec row)) (\<lambda>spec.
     res_bind (loaded (jw_version row)) (\<lambda>version.
     case db_state d i of
       None \<Rightarrow> Inr
         \<lparr>jr_id = job_id, jr_spec = spec, jr_version = version, jr_state = Queued,
          jr_generation = generation_initial, jr_reason = None, jr_retry_at = None, jr_stop = None,
          jr_replace_on_drain = False, jr_attempts = 0, jr_plan = None, jr_validator = None,
          jr_durable = []\<rparr>
     | Some r \<Rightarrow>
         res_bind (load_plan r) (\<lambda>plan.
         res_bind (state_of (sr_state r)) (\<lambda>state.
         res_bind (loaded (sr_generation r)) (\<lambda>g.
         res_bind (map_err (\<lambda>_. PCorrupt) (identifier_new g)) (\<lambda>generation.
         res_bind (opt_try reason_of (sr_reason r)) (\<lambda>reason.
         res_bind (opt_try loaded (sr_retry_at r)) (\<lambda>retry_at.
         res_bind (stop_of (sr_stop_kind r) (sr_stop_value r)) (\<lambda>stop.
         res_bind (if 0 \<le> sr_attempts r \<and> nat (sr_attempts r) \<le> U8_MAX then Inr (nat (sr_attempts r))
                   else Inl PCorrupt) (\<lambda>attempts.
         res_bind (extents d i (sr_generation r)) (\<lambda>es.
         Inr
           \<lparr>jr_id = job_id, jr_spec = spec, jr_version = version, jr_state = state,
            jr_generation = generation, jr_reason = reason, jr_retry_at = retry_at, jr_stop = stop,
            jr_replace_on_drain = (sr_replace_on_drain r = 1), jr_attempts = attempts,
            jr_plan = plan, jr_validator = validator, jr_durable = extent_ranges es\<rparr>))))))))))))))"

definition load_job :: "db \<Rightarrow> i64 \<times> job_row \<Rightarrow> (PersistenceError, job) result" where
  "load_job d = (\<lambda>(i, row).
     res_bind (load_record d i row) (\<lambda>r. map_err (\<lambda>_. PCorrupt) (job_restore r)))"

definition load_jobs :: "db \<Rightarrow> (PersistenceError, job list) result" where
  "load_jobs d = collect_res (map (load_job d) (sort_key fst (db_jobs d)))"

section \<open>Admission\<close>

definition key_columns :: "receipt_key \<Rightarrow> byte list \<times> byte list" where
  "key_columns k = (le_bytes 8 (rk_principal k), rk_digest k)"

definition load_receipt :: "db \<Rightarrow> receipt_key \<Rightarrow> (PersistenceError, receipt option) result" where
  "load_receipt d k =
     (case map_of (db_receipts d) (key_columns k) of
        None \<Rightarrow> Inr None
      | Some row \<Rightarrow>
          res_bind (decode_spec (rw_spec row)) (\<lambda>spec.
          res_bind (loaded (rw_job_id row)) (\<lambda>id_val.
          res_bind (map_err (\<lambda>_. PCorrupt) (identifier_new id_val)) (\<lambda>job.
          res_bind (case map_of (db_jobs d) (rw_job_id row) of
                      Some saved \<Rightarrow>
                        if rw_removed row \<noteq> 0 then Inl PCorrupt
                        else res_bind (decode_spec (jw_spec saved))
                               (\<lambda>s. if s \<noteq> spec then Inl PCorrupt else Inr ())
                    | None \<Rightarrow> if rw_removed row \<noteq> 1 then Inl PCorrupt else Inr ()) (\<lambda>_.
          let r = receipt_new k spec job in
          Inr (Some (if rw_removed row = 1 then tombstone r else r)))))))"

definition reserve_id :: "db \<Rightarrow> bool \<Rightarrow> (PersistenceError, db \<times> JobId) result" where
  "reserve_id d io =
     (if \<not> io then Inl PUnavailable
      else if db_last_id d < 0 then Inl PCorrupt
      else if int I64_MAX < db_last_id d + 1 then Inl PCapacity
      else
        let next = db_last_id d + 1 in
        res_bind (map_err (\<lambda>_. PCorrupt) (identifier_new (nat next)))
          (\<lambda>i. Inr (d\<lparr>db_last_id := next\<rparr>, i)))"

definition commit_add :: "db \<Rightarrow> add_unit \<Rightarrow> bool \<Rightarrow> (PersistenceError, db) result" where
  "commit_add d u io =
     (let job = au_job u; receipt = au_receipt u in
      if j_id job \<noteq> rc_job receipt \<or> j_spec job \<noteq> rc_original receipt \<or> rc_removed receipt \<or>
         j_version job \<noteq> 0 \<or> j_state job \<noteq> Queued \<or> j_generation job \<noteq> 1
      then Inl PCorrupt else
      res_bind (signed_id (j_id job)) (\<lambda>i.
      if \<not> io then Inl PUnavailable else
      let k = key_columns (rc_key receipt); row = encode_spec (rc_original receipt) in
      if map_of (db_receipts d) k \<noteq> None \<or> map_of (db_jobs d) i \<noteq> None \<or>
         list_ex (\<lambda>(_, r). rw_job_id r = i) (db_receipts d)
      then Inl PConflict
      else if db_last_id d < i then Inl PCorrupt
      else if db_limit_jobs d \<le> length (db_jobs d) \<or> db_limit_receipts d \<le> length (db_receipts d)
      then Inl PCapacity
      else Inr (d\<lparr>db_jobs := db_jobs d @ [(i, \<lparr>jw_spec = row, jw_version = 0\<rparr>)],
                  db_receipts := db_receipts d @ [(k, \<lparr>rw_job_id = i, rw_spec = row, rw_removed = 0\<rparr>)]\<rparr>)))"

text \<open>Deleting a job cascades to its state, extents and publish intent.\<close>

definition remove :: "db \<Rightarrow> receipt_key \<Rightarrow> u64 \<Rightarrow> bool \<Rightarrow> (PersistenceError, db) result" where
  "remove d k expected_version io =
     (if I64_MAX < expected_version then Inl PConflict
      else if \<not> io then Inl PUnavailable
      else
      res_bind (load_receipt d k) (\<lambda>found.
      res_bind (ok_or found PMissing) (\<lambda>receipt.
      if rc_removed receipt then Inl PRemoved else
      res_bind (signed_id (rc_job receipt)) (\<lambda>i.
      if (case db_state d i of None \<Rightarrow> False | Some r \<Rightarrow> sr_state r \<notin> set REMOVABLE_CODES) then Inl PConflict
      else if map_option jw_version (map_of (db_jobs d) i) \<noteq> Some (int expected_version) then Inl PConflict
      else Inr (clear_intent (clear_extents (d
             \<lparr>db_jobs := filter (\<lambda>(j, _). j \<noteq> i) (db_jobs d), db_state := (db_state d)(i := None),
              db_receipts := map (\<lambda>(c, r). if c = key_columns k then (c, r\<lparr>rw_removed := 1\<rparr>) else (c, r))
                               (db_receipts d)\<rparr>) i) i)))))"

end
