(* ===== verification/Repository.thy ===== *)
theory Repository
  imports Persistence "HOL-Library.Multiset"
begin

text \<open>
  What the repository promises: its column encodings lose nothing, the extents it admits stay
  disjoint, the segment count it predicts is the one a restore builds, and its transactions
  simulate the job aggregate, so that a job loaded after a crash is the job that was running.
\<close>

section \<open>Encodings\<close>

lemma state_code_bounds: "0 \<le> state_code s" "state_code s \<le> 12"
  by (cases s; simp)+

lemma state_of_code [simp]: "state_of (state_code s) = Inr s"
  by (cases s) (simp_all add: state_of_def nth_code_def STATES_def)

lemma reason_code_bounds: "0 \<le> reason_code r" "reason_code r \<le> 7"
  by (cases r; simp)+

lemma reason_of_code [simp]: "reason_of (reason_code r) = Inr r"
  by (cases r) (simp_all add: reason_of_def nth_code_def REASONS_def)

lemma loaded_int [simp]: "loaded (int n) = Inr n"
  by (simp add: loaded_def)

lemma stored_Inr: "stored n = Inr v \<longleftrightarrow> n \<le> I64_MAX \<and> v = int n"
  by (auto simp: stored_def)

lemma stored_ok [simp]: "n \<le> I64_MAX \<Longrightarrow> stored n = Inr (int n)"
  by (simp add: stored_def)

fun target_fits :: "StopTarget \<Rightarrow> bool" where
  "target_fits (ToRetryWait t) \<longleftrightarrow> t \<le> I64_MAX"
| "target_fits _ \<longleftrightarrow> True"

definition stop_kind_of :: "StopTarget option \<Rightarrow> i64 option" where
  "stop_kind_of s = map_option (\<lambda>t. int (stop_rank t)) s"

definition stop_value_of :: "StopTarget option \<Rightarrow> i64 option" where
  "stop_value_of s =
     (case s of Some (ToRetryWait t) \<Rightarrow> Some (int t) | Some (ToNeedsAction r) \<Rightarrow> Some (reason_code r)
      | Some (ToFailed r) \<Rightarrow> Some (reason_code r) | _ \<Rightarrow> None)"

lemma stop_columns_eq:
  "(\<And>t. s = Some t \<Longrightarrow> target_fits t) \<Longrightarrow> stop_columns s = Inr (stop_kind_of s, stop_value_of s)"
  by (cases s; cases "the s") (simp_all add: stop_kind_of_def stop_value_of_def)

lemma stop_of_columns [simp]: "stop_of (stop_kind_of s) (stop_value_of s) = Inr s"
  by (cases s; cases "the s") (simp_all add: stop_of_def stop_kind_of_def stop_value_of_def)

lemma stop_columns_bounds:
  "stop_kind_of s = Some k \<Longrightarrow> 0 \<le> k \<and> k \<le> 5" "stop_value_of s = Some v \<Longrightarrow> 0 \<le> v"
  by (cases s; cases "the s"; auto simp: stop_kind_of_def stop_value_of_def reason_code_bounds)+

lemma u64_of_blob_le [simp]: "n \<le> U64_MAX \<Longrightarrow> u64_of_blob (le_bytes 8 n) = Inr n"
  by (simp add: u64_of_blob_def width_simps)

definition digest_ok :: "digest option \<Rightarrow> bool" where
  "digest_ok v \<longleftrightarrow> (case v of None \<Rightarrow> True | Some x \<Rightarrow> length x = 32)"

definition spec_fits :: "job_spec \<Rightarrow> bool" where
  "spec_fits s \<longleftrightarrow> spec_ok s \<and> identifier_ok (js_source s) \<and> identifier_ok (js_destination s) \<and>
     digest_ok (js_expected_sha256 s)"

lemma digest_try [simp]: "digest_ok v \<Longrightarrow> opt_try digest_of_blob v = Inr v"
  by (cases v) (simp_all add: digest_ok_def digest_of_blob_def)

lemma decode_encode_spec [simp]: "spec_fits s \<Longrightarrow> decode_spec (encode_spec s) = Inr s"
  by (cases "js_priority s")
    (simp_all add: decode_spec_def encode_spec_def spec_fits_def identifier_ok_def identifier_new_def
      spec_ok_def priority_code_def job_spec_new_def)

section \<open>Counting segments\<close>

fun pushes :: "byte_range list \<Rightarrow> u64 \<Rightarrow> u64 \<Rightarrow> nat" where
  "pushes [] c n = (if c < n then 1 else 0)"
| "pushes (r # rs) c n = (if c < br_start r then 1 else 0) + 1 + pushes rs (br_end r) n"

definition end_of :: "byte_range list \<Rightarrow> u64" where
  "end_of acc = (case acc of [] \<Rightarrow> 0 | q # _ \<Rightarrow> br_end q)"

fun pushed :: "byte_range list \<Rightarrow> nat" where
  "pushed [] = 0"
| "pushed (q # before) = pushed before + (if end_of before < br_start q then 1 else 0) + 1"

lemma pushes_rev: "pushes (rev acc @ rs) 0 n = pushed acc + pushes rs (end_of acc) n"
  by (induction acc arbitrary: rs) (simp_all add: end_of_def)

lemma length_push [simp]: "length (push_segment ss r st) = Suc (length ss)"
  by (simp add: push_segment_def)

lemma layout_length:
  "layout_segments ms c ss = Inr (ss', c') \<Longrightarrow>
     length ss' + (if c' < n then 1 else 0) = length ss + pushes ms c n"
proof (induction ms arbitrary: c ss)
  case (Cons r ms)
  obtain ss1 where ss1: "layout_segments ms (br_end r) (push_segment ss1 r Durable) = Inr (ss', c')"
    "length ss1 = length ss + (if c < br_start r then 1 else 0)"
    using Cons.prems by (cases "c < br_start r") (auto simp: res_simps length_push)
  show ?case using Cons.IH [OF ss1(1)] ss1(2) by (simp add: push_segment_def)
qed auto

lemma merge_count:
  "merge_durable n acc ds = Inr ms \<Longrightarrow> pushes ms 0 n = count_segments ds (pushed acc) (end_of acc) n"
proof (induction n acc ds rule: merge_durable.induct)
  case (1 n acc)
  then show ?case using pushes_rev [of acc "[]"] by auto
next
  case (2 n acc r rest)
  show ?case
  proof (cases acc)
    case Nil
    then show ?thesis using 2 by (auto simp: end_of_def split: if_splits)
  next
    case (Cons q before)
    then show ?thesis using 2 by (auto simp: end_of_def res_simps byte_range_new_eq_Inr split: if_splits)
  qed
qed

lemma ascending_sorted: "ascending ds \<Longrightarrow> \<forall>r \<in> set ds. range_ok r \<Longrightarrow> sorted (map br_start ds)"
  by (induction ds) (force simp: ascending_def range_ok_def)+

lemma sort_ascending: "ascending ds \<Longrightarrow> \<forall>r \<in> set ds. range_ok r \<Longrightarrow> sort_key br_start ds = ds"
  using ascending_sorted by (simp add: sort_key_id_if_sorted)

text \<open>The adapter's count is the number of segments a restore lays out, so its capacity check
  refuses exactly what a restore would.\<close>

lemma restore_capacity:
  assumes "ascending ds" "\<forall>r \<in> set ds. range_ok r \<and> br_end r \<le> n"
    and "n \<le> I64_MAX" "1 \<le> k" "k \<le> 262144"
  shows "segment_map_restore job g n k ds = Inl Capacity \<longleftrightarrow> k < restored_segments ds n"
    and "restored_segments ds n \<le> k \<Longrightarrow> \<exists>m. segment_map_restore job g n k ds = Inr m \<and>
           length (sm_segments m) = restored_segments ds n"
proof -
  obtain ms where ms: "merge_durable n [] ds = Inr ms"
    using merge_durable_succeeds [of "[]" ds n] assms by auto
  have sp: "spaced n ms" using merge_durable_Inr [OF ms] assms by (auto simp: spaced_def)
  obtain ss c where lay: "layout_segments ms 0 [] = Inr (ss, c)" "c \<le> n"
    using layout_segments_ok [of n ms "[]" 0] sp assms(3) by auto
  obtain m0 where m0: "segment_map_new job g n k = Inr m0"
    using assms(3-5) by (cases "n = 0") (simp_all add: segment_map_new_def byte_range_new_def)
  have gap: "c < n \<Longrightarrow> byte_range_new c n = Inr \<lparr>br_start = c, br_end = n\<rparr>"
    using assms(3) by (simp add: byte_range_new_def)
  define ss' where "ss' = (if c < n then push_segment ss \<lparr>br_start = c, br_end = n\<rparr> Pending else ss)"
  have "length ss' = pushes ms 0 n"
    using layout_length [OF lay(1), of n] by (simp add: ss'_def push_segment_def split: if_splits)
  also have "\<dots> = restored_segments ds n"
    using merge_count [OF ms] sort_ascending [OF assms(1)] assms(2)
    by (simp add: restored_segments_def end_of_def)
  finally have len: "length ss' = restored_segments ds n" .
  have "segment_map_restore job g n k ds =
      (if k < length ss' then Inl Capacity
       else Inr (m0\<lparr>sm_next_id := length ss' + 1, sm_segments := ss'\<rparr>))"
    using m0 ms lay(1) gap by (simp add: segment_map_restore_def ss'_def)
  then show "segment_map_restore job g n k ds = Inl Capacity \<longleftrightarrow> k < restored_segments ds n"
    "restored_segments ds n \<le> k \<Longrightarrow> \<exists>m. segment_map_restore job g n k ds = Inr m \<and>
           length (sm_segments m) = restored_segments ds n"
    using len by auto
qed

section \<open>Extents\<close>

lemma insort_key_map: "insort_key f (g x) (map g xs) = map g (insort_key (\<lambda>x. f (g x)) x xs)"
  by (induction xs) auto

lemma sort_key_map: "sort_key f (map g xs) = map g (sort_key (\<lambda>x. f (g x)) xs)"
  by (induction xs) (simp_all add: insort_key_map)

lemma insort_key_int: "insort_key (\<lambda>x. int (f x)) x xs = insort_key f x xs"
  by (induction xs) auto

lemma sort_key_int: "sort_key (\<lambda>x. int (f x)) xs = sort_key f xs"
  by (induction xs) (simp_all add: insort_key_int)

definition enc :: "durable_extent \<Rightarrow> extent_row" where
  "enc e = \<lparr>er_start = int (br_start (de_range e)), er_end_excl = int (br_end (de_range e)),
            er_digest = de_digest e\<rparr>"

definition extent_fits :: "u64 \<Rightarrow> durable_extent \<Rightarrow> bool" where
  "extent_fits n e \<longleftrightarrow> range_ok (de_range e) \<and> br_end (de_range e) \<le> n \<and> length (de_digest e) = 32"

definition disjoint_extents :: "durable_extent list \<Rightarrow> bool" where
  "disjoint_extents es \<longleftrightarrow> distinct es \<and>
     (\<forall>x \<in> set es. \<forall>y \<in> set es. x \<noteq> y \<longrightarrow> \<not> overlaps (de_range x) (de_range y))"

definition by_start :: "durable_extent list \<Rightarrow> durable_extent list" where
  "by_start es = sort_key (\<lambda>e. br_start (de_range e)) es"

lemma by_start_set [simp]: "set (by_start es) = set es" "distinct (by_start es) = distinct es"
  by (simp_all add: by_start_def)

lemma decode_enc: "extent_fits n e \<Longrightarrow> decode_extent (enc e) = Inr e"
  by (cases e; cases "de_range e")
    (simp add: decode_extent_def enc_def extent_fits_def digest_of_blob_def byte_range_new_def range_ok_def)

lemma extents_enc:
  assumes "db_extents d i g = map enc es" "\<forall>e \<in> set es. extent_fits n e"
  shows "extents d i g = Inr (by_start es)"
proof -
  have "sort_key er_start (map enc es) = map enc (by_start es)"
    by (simp add: sort_key_map by_start_def enc_def sort_key_int)
  moreover have "collect_res (map (\<lambda>e. decode_extent (enc e)) (by_start es)) = Inr (map id (by_start es))"
    using assms(2) decode_enc by (intro collect_res_map_Inr) auto
  ultimately show ?thesis using assms(1) by (simp add: extents_def comp_def)
qed

lemma by_start_ascending:
  assumes "disjoint_extents es" "\<forall>e \<in> set es. extent_fits n e"
  shows "ascending (extent_ranges (by_start es))"
proof -
  let ?xs = "by_start es"
  have "sorted_wrt (\<lambda>x y. br_start (de_range x) \<le> br_start (de_range y)) ?xs"
    using sorted_sort_key [of "\<lambda>e. br_start (de_range e)" es] by (simp add: by_start_def sorted_map)
  moreover have "distinct ?xs" using assms(1) by (simp add: disjoint_extents_def)
  ultimately have "sorted_wrt (\<lambda>x y. br_start (de_range x) \<le> br_start (de_range y) \<and> x \<noteq> y) ?xs"
    by (induction ?xs) (auto simp: distinct_conv_nth sorted_wrt_iff_nth_less)
  then have "sorted_wrt (\<lambda>x y. br_end (de_range x) \<le> br_start (de_range y)) ?xs"
  proof (rule sorted_wrt_mono_rel [rotated])
    fix x y assume xy: "x \<in> set ?xs" "y \<in> set ?xs" "br_start (de_range x) \<le> br_start (de_range y) \<and> x \<noteq> y"
    then have "\<not> overlaps (de_range x) (de_range y)" "range_ok (de_range y)"
      using assms by (auto simp: disjoint_extents_def extent_fits_def)
    then show "br_end (de_range x) \<le> br_start (de_range y)"
      using xy(3) by (auto simp: overlaps_def range_ok_def)
  qed
  then show ?thesis by (simp add: ascending_def extent_ranges_def sorted_wrt_map)
qed

lemma restored_by_start:
  "restored_segments (extent_ranges es) n = restored_segments (extent_ranges (by_start es)) n"
proof -
  have "sort_key br_start (map de_range es) = map de_range (by_start es)"
    by (simp add: sort_key_map by_start_def)
  moreover have "sort_key br_start (map de_range (by_start es)) = map de_range (by_start es)"
    using sorted_sort_key [of "\<lambda>e. br_start (de_range e)" es]
    by (intro sort_key_id_if_sorted) (simp add: by_start_def comp_def)
  ultimately show ?thesis by (simp add: restored_segments_def extent_ranges_def)
qed

lemma overlaps_sym: "overlaps a b = overlaps b a"
  by (auto simp: overlaps_def)

lemma admit_loop_Some:
  assumes "admit_loop existing fresh incoming = Some out" "disjoint_extents (existing @ fresh)"
  shows "disjoint_extents (existing @ out) \<and>
    set (existing @ out) = set existing \<union> set fresh \<union> set incoming \<and> set out \<subseteq> set fresh \<union> set incoming"
  using assms
proof (induction existing fresh incoming rule: admit_loop.induct)
  case (2 existing fresh e rest)
  show ?case
  proof (cases "e \<in> set existing \<or> e \<in> set fresh")
    case True
    then show ?thesis using 2 by auto
  next
    case False
    then have free: "\<not> list_ex (\<lambda>x. overlaps (de_range x) (de_range e)) (existing @ fresh)"
      and run: "admit_loop existing (fresh @ [e]) rest = Some out"
      using "2.prems"(1) by (auto split: if_splits)
    have "disjoint_extents (existing @ fresh @ [e])"
      using "2.prems"(2) False free by (auto simp: disjoint_extents_def list_ex_iff overlaps_sym)
    then show ?thesis using "2.IH"(2) [OF False free run] by auto
  qed
qed auto

lemma admit_loop_known: "set incoming \<subseteq> set existing \<union> set fresh \<Longrightarrow> admit_loop existing fresh incoming = Some fresh"
  by (induction existing fresh incoming rule: admit_loop.induct) auto

text \<open>New extents that overlap neither each other nor what is stored are all admitted.\<close>

lemma admit_loop_new:
  assumes "disjoint_extents (existing @ fresh @ incoming)"
  shows "admit_loop existing fresh incoming = Some (fresh @ incoming)"
  using assms
proof (induction existing fresh incoming rule: admit_loop.induct)
  case (2 existing fresh e rest)
  have "e \<notin> set existing" "e \<notin> set fresh" "\<not> list_ex (\<lambda>x. overlaps (de_range x) (de_range e)) (existing @ fresh)"
    using "2.prems" by (auto simp: disjoint_extents_def list_ex_iff)
  then show ?case using 2 by simp
qed simp

lemma insert_extents_enc:
  assumes "disjoint_extents (es @ fresh)" "\<forall>e \<in> set (es @ fresh). extent_fits n e"
  shows "insert_extents (map enc es) fresh = Inr (map enc (es @ fresh))"
  using assms
proof (induction fresh arbitrary: es)
  case (Cons e fresh)
  have fit: "extent_fits n e" using Cons.prems(2) by simp
  then have "br_start (de_range e) \<le> I64_MAX" "br_end (de_range e) \<le> I64_MAX"
    by (auto simp: extent_fits_def range_ok_def)
  then have e: "encode_extent e = Inr (enc e)" by (simp add: encode_extent_def enc_def)
  have "\<forall>x \<in> set es. br_start (de_range x) \<noteq> br_start (de_range e)"
  proof
    fix x assume that: "x \<in> set es"
    have "x \<noteq> e" "\<not> overlaps (de_range x) (de_range e)"
      using Cons.prems(1) that by (auto simp: disjoint_extents_def)
    moreover have "range_ok (de_range x)" using Cons.prems(2) that by (simp add: extent_fits_def)
    ultimately show "br_start (de_range x) \<noteq> br_start (de_range e)"
      using fit by (auto simp: overlaps_def extent_fits_def range_ok_def)
  qed
  then have "extent_row_ok (map enc es) (enc e)"
    using fit by (auto simp: extent_row_ok_def enc_def extent_fits_def range_ok_def)
  then show ?case using Cons.IH [of "es @ [e]"] Cons.prems e by simp
qed simp

definition extents_bytes :: "durable_extent list \<Rightarrow> nat set" where
  "extents_bytes es = ranges_bytes (extent_ranges es)"

lemma extents_bytes_set: "extents_bytes es = (\<Union>e \<in> set es. bytes_of (de_range e))"
  by (simp add: extents_bytes_def ranges_bytes_def extent_ranges_def)

lemma extents_bytes_by_start [simp]: "extents_bytes (by_start es) = extents_bytes es"
  by (simp add: extents_bytes_set)

lemma sum_extents:
  assumes "disjoint_extents es" "\<forall>e \<in> set es. extent_fits n e"
  shows "sum_list (map br_len (extent_ranges (by_start es))) = card (extents_bytes es)"
proof -
  have "card (ranges_bytes rs) = sum_list (map br_len rs)" if "ascending rs" "\<forall>r \<in> set rs. range_ok r" for rs
    using that
  proof (induction rs)
    case (Cons r rs)
    have "bytes_of r \<inter> ranges_bytes rs = {}"
      using Cons.prems by (fastforce simp: ascending_def ranges_bytes_def bytes_of_def)
    moreover have "finite (ranges_bytes rs)" "finite (bytes_of r)"
      by (simp_all add: ranges_bytes_def bytes_of_def)
    ultimately show ?case
      using Cons by (simp add: card_Un_disjoint ascending_def)
  qed simp
  moreover have "\<forall>r \<in> set (extent_ranges (by_start es)). range_ok r"
    using assms(2) by (auto simp: extent_ranges_def extent_fits_def)
  ultimately show ?thesis
    using by_start_ascending [OF assms] extents_bytes_by_start [of es] unfolding extents_bytes_def by metis
qed

section \<open>The repository holds a job\<close>

definition plan_cols :: "job \<Rightarrow> (i64 \<times> i64) option" where
  "plan_cols j = map_option (\<lambda>(n, k). (int n, int k)) (job_plan j)"

definition row_of :: "job \<Rightarrow> state_row" where
  "row_of j =
     \<lparr>sr_state = state_code (j_state j), sr_generation = int (j_generation j),
      sr_reason = map_option reason_code (j_reason j), sr_retry_at = map_option int (j_retry_at j),
      sr_stop_kind = stop_kind_of (j_stop j), sr_stop_value = stop_value_of (j_stop j),
      sr_replace_on_drain = (if j_replace_on_drain j then 1 else 0),
      sr_attempts = int (j_attempts j), sr_total = map_option fst (plan_cols j),
      sr_max_segments = map_option snd (plan_cols j), sr_validator = j_validator j\<rparr>"

text \<open>The widths the columns impose on a job; the first two come with the types of the source.\<close>

definition job_fits :: "job \<Rightarrow> bool" where
  "job_fits j \<longleftrightarrow> spec_fits (j_spec j) \<and> digest_ok (j_validator j) \<and>
     j_id j \<le> I64_MAX \<and> j_version j \<le> I64_MAX \<and> j_generation j \<le> I64_MAX \<and>
     (\<forall>t. j_retry_at j = Some t \<longrightarrow> t \<le> I64_MAX) \<and> (\<forall>t. j_stop j = Some t \<longrightarrow> target_fits t)"

definition untouched :: "job \<Rightarrow> bool" where
  "untouched j \<longleftrightarrow>
     j_state j = Queued \<and> j_generation j = generation_initial \<and> j_reason j = None \<and>
     j_retry_at j = None \<and> j_stop j = None \<and> \<not> j_replace_on_drain j \<and> j_attempts j = 0 \<and>
     j_validator j = None \<and> j_segments j = None"

text \<open>The extents stored for a job: tidy rows within the plan that a restore can rebuild, holding
  at least the bytes the job knows to be durable. Between committing extents and acknowledging
  the commit they hold more.\<close>

definition extents_hold :: "db \<Rightarrow> job \<Rightarrow> durable_extent list \<Rightarrow> bool" where
  "extents_hold d j es \<longleftrightarrow>
     db_extents d (int (j_id j)) (int (j_generation j)) = map enc es \<and> disjoint_extents es \<and>
     job_durable j \<subseteq> extents_bytes es \<and>
     (case job_plan j of
        None \<Rightarrow> es = []
      | Some (n, k) \<Rightarrow> (\<forall>e \<in> set es. extent_fits n e) \<and> restored_segments (extent_ranges es) n \<le> k)"

definition repo_holds :: "db \<Rightarrow> job \<Rightarrow> durable_extent list \<Rightarrow> bool" where
  "repo_holds d j es \<longleftrightarrow>
     job_fits j \<and>
     map_of (db_jobs d) (int (j_id j)) =
       Some \<lparr>jw_spec = encode_spec (j_spec j), jw_version = int (j_version j)\<rparr> \<and>
     (case db_state d (int (j_id j)) of None \<Rightarrow> untouched j | Some r \<Rightarrow> r = row_of j) \<and>
     extents_hold d j es"

lemma current_holds:
  assumes "repo_holds d j es"
  shows "current d (int (j_id j)) = Inr \<lparr>cu_state = j_state j, cu_generation = int (j_generation j),
    cu_plan = plan_cols j, cu_validator = j_validator j\<rparr>"
proof (cases "db_state d (int (j_id j))")
  case None
  then have "untouched j" using assms by (simp add: repo_holds_def)
  then show ?thesis
    by (simp add: None current_def untouched_def plan_cols_def job_plan_def generation_initial_def)
next
  case (Some r)
  then have "r = row_of j" using assms by (simp add: repo_holds_def)
  moreover have "zip_plan (map_option fst p) (map_option snd p) = p" for p :: "(i64 \<times> i64) option"
    by (cases p) (simp_all add: zip_plan_def)
  ultimately show ?thesis using Some by (simp add: current_def row_of_def)
qed

lemma plan_cols_Some: "plan_cols j = Some (a, b) \<longleftrightarrow> (\<exists>m. j_segments j = Some m \<and> a = int (sm_total m) \<and> b = int (sm_maximum m))"
  by (auto simp: plan_cols_def job_plan_def)

lemma extents_holds:
  assumes "extents_hold d j es" "job_inv j"
  shows "extents d (int (j_id j)) (int (j_generation j)) = Inr (by_start es)"
    and "\<exists>n. \<forall>e \<in> set es. extent_fits n e"
proof -
  show n: "\<exists>n. \<forall>e \<in> set es. extent_fits n e"
    using assms(1) by (auto simp: extents_hold_def split: option.splits)
  then show "extents d (int (j_id j)) (int (j_generation j)) = Inr (by_start es)"
    using assms(1) extents_enc by (auto simp: extents_hold_def)
qed

lemma outcome_row_of:
  assumes "job_fits j"
  shows "outcome_row (projection j) (int (j_generation j)) (plan_cols j) (j_validator j) = Inr (row_of j)"
proof -
  have "stop_columns (j_stop j) = Inr (stop_kind_of (j_stop j), stop_value_of (j_stop j))"
    using assms by (intro stop_columns_eq) (simp add: job_fits_def)
  moreover have "opt_try stored (j_retry_at j) = Inr (map_option int (j_retry_at j))"
    using assms by (cases "j_retry_at j") (simp_all add: job_fits_def)
  ultimately show ?thesis by (simp add: outcome_row_def row_of_def projection_def)
qed

lemma row_of_ok:
  assumes "job_fits j" "job_inv j"
  shows "state_row_ok (row_of j)"
proof -
  have life: "lifecycle_inv j" and seg: "segments_inv j" using assms(2) by (rule job_invD)+
  have "0 < j_generation j" "j_attempts j \<le> 255"
    using life by (auto simp: lifecycle_inv_def identifier_ok_def width_simps)
  moreover have "case plan_cols j of None \<Rightarrow> j_validator j = None
      | Some (a, b) \<Rightarrow> 0 \<le> a \<and> 1 \<le> b \<and> b \<le> 262144"
    using seg by (auto simp: segments_inv_def map_inv_def plan_cols_def job_plan_def sm_inv_defs split: option.splits)
  moreover have "digest_ok (j_validator j)" using assms(1) by (simp add: job_fits_def)
  ultimately show ?thesis
    using stop_columns_bounds [of "j_stop j"] state_code_bounds [of "j_state j"] reason_code_bounds
    by (auto simp: state_row_ok_def row_of_def digest_ok_def split: option.splits)
qed

section \<open>Loading\<close>

lemma ranges_bytes_bound: "\<forall>r \<in> set ds. range_ok r \<and> br_end r \<le> n \<Longrightarrow> ranges_bytes ds \<subseteq> {0..<n}"
  by (fastforce simp: ranges_bytes_def bytes_of_def)

lemma restore_from_repository:
  assumes inv: "job_inv j" and seg: "j_segments j = Some m"
    and ds: "ascending ds" "\<forall>r \<in> set ds. range_ok r \<and> br_end r \<le> sm_total m"
    and more: "durable_set m \<subseteq> ranges_bytes ds"
    and fits: "restored_segments ds (sm_total m) \<le> sm_maximum m"
  obtains m' where "job_restore (record_of j ds) = Inr (put_map j m')" "job_inv (put_map j m')"
    "durable_set m' = ranges_bytes ds" "sm_total m' = sm_total m" "sm_maximum m' = sm_maximum m" "sm_inv m'"
    "settled (put_map j m')"
proof -
  have mi: "map_inv j m" using job_invD(2) [OF inv] seg by (simp add: segments_inv_def)
  then have sm: "sm_inv m" by (simp add: map_inv_def)
  have n: "sm_total m \<le> I64_MAX" "1 \<le> sm_maximum m" "sm_maximum m \<le> 262144"
    using sm by (simp_all add: sm_inv_defs)
  obtain m' where m': "segment_map_restore (sm_job m) (sm_generation m) (sm_total m) (sm_maximum m) ds = Inr m'"
    using restore_capacity(2) [OF ds n fits] by blast
  obtain ss where ss: "laid_out ss (sm_total m)" "seg_durable ss = ranges_bytes ds" "length ss \<le> sm_maximum m"
    "m' = \<lparr>sm_job = sm_job m, sm_generation = sm_generation m, sm_total = sm_total m,
           sm_maximum = sm_maximum m, sm_segments = ss, sm_next_id = length ss + 1,
           sm_next_attempt = 1, sm_next_checkpoint = 1, sm_checkpoint = None\<rparr>"
    using segment_map_restore_ok [OF ds n, of "sm_job m" "sm_generation m"] m' by (auto split: if_splits)
  have inv': "sm_inv m'" by (rule sm_inv_laid_out [OF ss(1) n(1) ss(3) n(2,3)]) (simp_all add: ss(4))
  have dur: "durable_set m' = ranges_bytes ds" using ss(2,4) by (simp add: durable_set_seg)
  have rest: "resting (sm_segments m')" "sm_checkpoint m' = None"
    using ss(1,4) by (simp_all add: laid_out_def)
  have all: "all_durable m \<longrightarrow> all_durable m'"
    using more dur ranges_bytes_bound [OF ds(2)] sm inv' ss(4) by (auto simp: all_durable_iff)
  have jinv: "job_inv (put_map j m')"
    by (rule job_inv_restored [OF inv seg inv']) (use ss(4) all rest in simp_all)
  have ok: "record_consistent (record_of j ds)"
    using job_invD(1) [OF inv] mi seg
    by (simp add: record_consistent_def record_of_def job_plan_def lifecycle_inv_def map_inv_def) blast
  have "job_restore (record_of j ds) = Inr (put_map j m')"
    using ok m' mi seg all
    by (auto simp: job_restore_def record_of_def job_plan_def map_inv_def put_map_def)
  moreover have "settled (put_map j m')"
    using rest by (auto simp: settled_def quiescent_def has_active_leases_def has_pending_checkpoint_def
        has_unsynced_def list_ex_iff put_map_def resting_def)
  ultimately show ?thesis using that [of m'] jinv dur inv' ss(4) by simp
qed

lemma load_plan_row: "load_plan (row_of j) = Inr (job_plan j)"
  by (cases "job_plan j") (auto simp: load_plan_def row_of_def plan_cols_def zip_plan_def)

lemma load_record_holds:
  assumes holds: "repo_holds d j es" and inv: "job_inv j"
    and row: "map_of (db_jobs d) (int (j_id j)) = Some row"
  shows "load_record d (int (j_id j)) row = Inr (record_of j (extent_ranges (by_start es)))"
proof -
  have fit: "job_fits j" and r: "row = \<lparr>jw_spec = encode_spec (j_spec j), jw_version = int (j_version j)\<rparr>"
    using holds row by (simp_all add: repo_holds_def)
  have i: "identifier_new (j_id j) = Inr (j_id j)" "identifier_new (j_generation j) = Inr (j_generation j)"
    and a: "j_attempts j \<le> U8_MAX"
    using job_invD(1) [OF inv] by (auto simp: lifecycle_inv_def identifier_new_def identifier_ok_def)
  have spec: "decode_spec (encode_spec (j_spec j)) = Inr (j_spec j)" using fit by (simp add: job_fits_def)
  show ?thesis
  proof (cases "db_state d (int (j_id j))")
    case None
    then have u: "untouched j" using holds by (simp add: repo_holds_def)
    then have es: "es = []" using holds by (simp add: repo_holds_def extents_hold_def job_plan_def untouched_def)
    have "record_of j [] = \<lparr>jr_id = j_id j, jr_spec = j_spec j, jr_version = j_version j, jr_state = Queued,
          jr_generation = generation_initial, jr_reason = None, jr_retry_at = None, jr_stop = None,
          jr_replace_on_drain = False, jr_attempts = 0, jr_plan = None, jr_validator = None,
          jr_durable = []\<rparr>"
      using u by (simp add: untouched_def record_of_def job_plan_def)
    then show ?thesis
      using None i spec by (simp add: load_record_def r es extent_ranges_def by_start_def)
  next
    case (Some x)
    then have x: "x = row_of j" using holds by (simp add: repo_holds_def)
    have ex: "extents d (int (j_id j)) (int (j_generation j)) = Inr (by_start es)"
      using holds inv by (intro extents_holds(1)) (simp_all add: repo_holds_def)
    have "opt_try reason_of (map_option reason_code (j_reason j)) = Inr (j_reason j)"
      by (cases "j_reason j") simp_all
    moreover have "opt_try loaded (map_option int (j_retry_at j)) = Inr (j_retry_at j)"
      by (cases "j_retry_at j") simp_all
    moreover have "opt_try digest_of_blob (j_validator j) = Inr (j_validator j)"
      using fit by (simp add: job_fits_def)
    ultimately show ?thesis
      using Some x i a spec ex load_plan_row [of j]
      by (simp add: load_record_def r) (simp add: row_of_def record_of_def)
  qed
qed

section \<open>Committing a transition\<close>

definition plan_step :: "job \<Rightarrow> JobCommand \<Rightarrow> job \<Rightarrow> bool" where
  "plan_step j c k \<longleftrightarrow>
     (case c of
        CProbeSucceeded n K v \<Rightarrow>
          j_generation k = j_generation j \<and> j_validator k = v \<and>
          (case j_segments j of
             Some m \<Rightarrow> j_segments k = Some m \<and> v \<noteq> None \<and> v = j_validator j \<and> sm_total m = n
           | None \<Rightarrow> \<exists>m. segment_map_new (j_id j) (j_generation j) n K = Inr m \<and> j_segments k = Some m)
      | _ \<Rightarrow>
          (j_generation k = j_generation j \<and> j_segments k = j_segments j \<and> j_validator k = j_validator j) \<or>
          (j_generation k = Suc (j_generation j) \<and> j_segments k = None \<and> j_validator k = None))"

lemma land_plan:
  "land j t = Inr (ch, k) \<Longrightarrow>
     j_generation k = j_generation j \<and> j_segments k = j_segments j \<and> j_validator k = j_validator j"
  by (cases t) (simp_all add: land_def)

lemma workers_drained_plan: "workers_drained j = Inr (ch, k) \<Longrightarrow> plan_step j CWorkersDrained k"
  by (auto simp: workers_drained_def drop_replaced_def res_simps plan_step_def dest!: land_plan split: if_splits)

lemma probe_plan: "probe_succeeded j n K v = Inr (ch, k) \<Longrightarrow> plan_step j (CProbeSucceeded n K v) k"
  by (auto 0 3 simp: probe_succeeded_def res_simps plan_step_def split: option.splits if_splits dest: sym)

lemma execute_plan:
  assumes "execute j c = Inr (ch, k)"
  shows "plan_step j c k"
  using assms
  by (cases "j_state j"; cases c;
      simp add: execute_def begin_stop_def raise_stop_def resume_ready_def cancel_job_def Let_def res_simps
        split: if_splits)
    (auto simp: replace_representation_def res_simps plan_step_def
      dest!: workers_drained_plan probe_plan)

lemma map_of_set_version:
  "map_of (db_jobs (set_version d i v)) k =
     (if k = i then map_option (\<lambda>r. r\<lparr>jw_version := v\<rparr>) (map_of (db_jobs d) k) else map_of (db_jobs d) k)"
proof -
  have "map_of (map (\<lambda>(k, r). if k = i then (k, r\<lparr>jw_version := v\<rparr>) else (k, r)) xs) k =
     (if k = i then map_option (\<lambda>r. r\<lparr>jw_version := v\<rparr>) (map_of xs k) else map_of xs k)" for xs
    by (induction xs) auto
  from this [of "db_jobs d"] show ?thesis by (cases "k = i") (simp_all add: set_version_def)
qed

lemma next_plan_step:
  assumes "plan_step j c k" "\<And>m. j_segments k = Some m \<Longrightarrow> sm_inv m"
  shows "next_plan c (int (j_generation k) \<noteq> int (j_generation j)) (plan_cols j) = Inr (plan_cols k)"
proof (cases "\<exists>n K v. c = CProbeSucceeded n K v")
  case True
  then obtain n K v where c: "c = CProbeSucceeded n K v" by blast
  show ?thesis
  proof (cases "j_segments j")
    case None
    then obtain m where m: "j_segments k = Some m" "sm_total m = n" "sm_maximum m = K" "sm_inv m"
      using assms c by (auto simp: plan_step_def sm_inv_new)
    then have "n \<le> I64_MAX" "K \<le> I64_MAX" by (auto simp: sm_inv_defs width_simps)
    then show ?thesis
      using None assms(1) c m by (simp add: next_plan_def plan_step_def plan_cols_def job_plan_def)
  next
    case (Some m)
    then have "sm_total m \<le> I64_MAX" using assms c by (auto simp: plan_step_def sm_inv_defs)
    then show ?thesis
      using Some assms(1) c by (auto simp: next_plan_def plan_step_def plan_cols_def job_plan_def)
  qed
next
  case False
  then show ?thesis
    using assms(1)
    by (cases c) (auto simp: next_plan_def plan_step_def plan_cols_def job_plan_def split: option.splits)
qed

lemma next_validator_step:
  assumes "plan_step j c k"
  shows "next_validator c (int (j_generation k) \<noteq> int (j_generation j)) (plan_cols j) (j_validator j)
    = Inr (j_validator k)"
  using assms
  by (cases c)
    (auto 0 3 simp: next_validator_def plan_step_def plan_cols_def job_plan_def split: option.splits dest: sym)

definition next_extents :: "job \<Rightarrow> job \<Rightarrow> durable_extent list \<Rightarrow> durable_extent list" where
  "next_extents j k es = (if j_generation k = j_generation j then es else [])"

lemma extents_hold_step:
  assumes hold: "extents_hold d j es" and step: "plan_step j c k" "j_id k = j_id j"
    and inv: "\<And>m. j_segments k = Some m \<Longrightarrow> sm_inv m"
    and table: "db_extents d' (int (j_id j)) (int (j_generation k)) = map enc (next_extents j k es)"
  shows "extents_hold d' k (next_extents j k es)"
proof -
  consider (same) "j_generation k = j_generation j" "j_segments k = j_segments j"
    | (fresh) m where "j_generation k = j_generation j" "j_segments j = None" "j_segments k = Some m"
        "\<forall>s \<in> set (sm_segments m). sg_state s = Pending" "1 \<le> sm_maximum m"
    | (dropped) "j_generation k \<noteq> j_generation j" "j_segments k = None"
  proof (cases "\<exists>n K v. c = CProbeSucceeded n K v")
    case True
    then show ?thesis
      using step(1) inv that by (fastforce simp: plan_step_def sm_inv_defs sm_inv_new(7) split: option.splits)
  next
    case False
    then have "(j_generation k = j_generation j \<and> j_segments k = j_segments j) \<or>
        (j_generation k = Suc (j_generation j) \<and> j_segments k = None)"
      using step(1) by (cases c) (auto simp: plan_step_def)
    then show ?thesis using that(1,3) by fastforce
  qed
  then show ?thesis
  proof cases
    case same
    then show ?thesis
      using hold table step(2) by (simp add: extents_hold_def next_extents_def job_durable_def job_plan_def)
  next
    case fresh
    then have "es = []" using hold by (simp add: extents_hold_def job_plan_def)
    then show ?thesis
      using fresh table step(2)
      by (auto simp: extents_hold_def next_extents_def job_durable_def job_plan_def durable_set_def
          disjoint_extents_def restored_segments_def extent_ranges_def)
  next
    case dropped
    then show ?thesis
      using table step(2)
      by (simp add: extents_hold_def next_extents_def job_durable_def job_plan_def disjoint_extents_def)
  qed
qed

lemma job_fits_version: "job_fits (k\<lparr>j_version := v\<rparr>) \<Longrightarrow> w \<le> I64_MAX \<Longrightarrow> job_fits (k\<lparr>j_version := w\<rparr>)"
  by (simp add: job_fits_def)

lemma row_of_version [simp]: "row_of (k\<lparr>j_version := v\<rparr>) = row_of k"
  by (simp add: row_of_def plan_cols_def job_plan_def)

lemma durable_bytes_projection:
  assumes "job_inv j"
  shows "jp_durable_bytes (projection j) = card (job_durable j)"
  using job_invD(2) [OF assms]
  by (auto simp: projection_def job_durable_def segments_inv_def map_inv_def durable_bytes_card split: option.splits)

text \<open>A transition decided on the job the repository holds is accepted, and the repository then
  holds the job after the event.\<close>

lemma transition_simulates:
  assumes holds: "repo_holds d j es" and inv: "job_inv j"
    and app: "job_apply j e = Inr j'" and fits: "job_fits j'"
  shows "\<exists>d'. transition d e True = Inr d' \<and> repo_holds d' j' (next_extents j j' es)"
proof -
  obtain k where k: "execute j (je_command e) = Inr (True, k)" "j' = k\<lparr>j_version := Suc (j_version j)\<rparr>"
    "Suc (j_version j) \<le> U64_MAX" "je_version e = Suc (j_version j)" "je_job e = j_id j"
    "je_from e = j_state j" "je_generation e = j_generation j" "je_outcome e = projection k"
    using app by (elim job_apply_Inr)
  let ?i = "int (j_id j)" and ?es = "next_extents j k es"
  have kinv: "job_inv k" using k(1) inv by (rule execute_inv)
  have core: "j_id k = j_id j" "j_spec k = j_spec j" "j_version k = j_version j"
    using execute_core [OF k(1)] by (simp_all add: core_frame_def)
  have step: "plan_step j (je_command e) k" using k(1) by (rule execute_plan)
  have sinv: "sm_inv m" if "j_segments k = Some m" for m
    using job_invD(2) [OF kinv] that by (simp add: segments_inv_def map_inv_def)
  have jfit: "job_fits j" "j_id j \<le> I64_MAX" "j_generation j \<le> I64_MAX"
    using holds by (simp_all add: repo_holds_def job_fits_def)
  have kfit: "job_fits k" "j_generation k \<le> I64_MAX" "Suc (j_version j) \<le> I64_MAX"
    using fits k(2) core(3) jfit(1) by (auto simp: job_fits_def)
  have jrow: "map_of (db_jobs d) ?i = Some \<lparr>jw_spec = encode_spec (j_spec j), jw_version = int (j_version j)\<rparr>"
    using holds by (simp add: repo_holds_def)
  define repl where "repl = (int (j_generation k) \<noteq> int (j_generation j))"
  define d2 where "d2 = drop_obsolete d ?i repl (je_command e)"
  have tab: "db_extents d2 ?i (int (j_generation k)) = map enc ?es" "db_jobs d2 = db_jobs d"
    using holds
    by (auto simp: d2_def repl_def drop_obsolete_def clear_intent_def clear_extents_def next_extents_def
        repo_holds_def extents_hold_def Let_def)
  have hold2: "extents_hold d2 k ?es"
    using holds step core(1) sinv tab(1) by (intro extents_hold_step) (auto simp: repo_holds_def)
  then have ext: "extents d2 ?i (int (j_generation k)) = Inr (by_start ?es)"
    using extents_holds(1) [OF hold2 kinv] core(1) by simp
  obtain n where n: "\<forall>x \<in> set ?es. extent_fits n x" using extents_holds(2) [OF hold2 kinv] by blast
  have "finite (extents_bytes ?es)" by (simp add: extents_bytes_set bytes_of_def)
  then have dur: "\<not> sum_list (map br_len (extent_ranges (by_start ?es))) < jp_durable_bytes (projection k)"
    using hold2 sum_extents [OF _ n] durable_bytes_projection [OF kinv]
    by (auto simp: extents_hold_def not_less intro!: card_mono)
  have row: "outcome_row (projection k) (int (j_generation k)) (plan_cols k) (j_validator k) = Inr (row_of k)"
    "state_row_ok (row_of k)"
    using kfit kinv by (simp_all add: outcome_row_of row_of_ok)
  let ?d = "set_version (put_state d2 ?i (row_of k)) ?i (int (Suc (j_version j)))"
  let ?now = "\<lparr>cu_state = j_state j, cu_generation = int (j_generation j), cu_plan = plan_cols j,
    cu_validator = j_validator j\<rparr>"
  have p: "jp_generation (projection k) = j_generation k" "jp_validator (projection k) = j_validator k"
    by (simp_all add: projection_def)
  have "store_outcome d ?i e ?now (int (j_generation k)) = Inr ?d"
    using next_plan_step [OF step sinv] next_validator_step [OF step] ext dur row kfit(3)
    unfolding store_outcome_def k(4,8) Let_def current_row.simps repl_def [symmetric] d2_def [symmetric]
    by (simp add: p d2_def [symmetric] del: of_nat_Suc of_nat_eq_iff)
  then have "transition d e True = Inr ?d"
    using jfit kfit k(3) jrow
    by (simp add: transition_def k(4-8) signed_id_def current_holds [OF holds] checked_add_def p)
  moreover have "repo_holds ?d j' ?es"
    using fits k(2) core jrow tab hold2
    by (auto simp: repo_holds_def map_of_set_version put_state_def extents_hold_def job_durable_def job_plan_def)
      (auto simp: set_version_def)
  ultimately show ?thesis using k(2) by (auto simp: next_extents_def)
qed

section \<open>Committing extents\<close>

definition extents_typed :: "durable_extent list \<Rightarrow> bool" where
  "extents_typed es \<longleftrightarrow> (\<forall>e \<in> set es. range_ok (de_range e) \<and> length (de_digest e) = 32)"

lemma sort_key_sorted_prefix: "sort_key f (sort_key f xs @ ys) = sort_key f (xs @ ys)"
proof (rule properties_for_sort_key)
  fix k
  have "filter (\<lambda>x. f k = f x) (sort_key f zs) = filter (\<lambda>x. f k = f x) zs" for zs
    using sort_key_stable [of f "f k" zs] by (simp add: eq_commute)
  then show "filter (\<lambda>x. f k = f x) (sort_key f (xs @ ys)) = filter (\<lambda>x. f k = f x) (sort_key f xs @ ys)"
    by simp
qed simp_all

lemma restored_append_by_start:
  "restored_segments (extent_ranges (by_start es) @ extent_ranges fs) n = restored_segments (extent_ranges (es @ fs)) n"
  using restored_by_start [of "by_start es @ fs" n] restored_by_start [of "es @ fs" n]
  by (simp add: by_start_def sort_key_sorted_prefix extent_ranges_def)

lemma by_start_disjoint [simp]:
  "disjoint_extents (by_start es @ fs) = disjoint_extents (es @ fs)"
  "disjoint_extents (by_start es) = disjoint_extents es"
  by (auto simp: disjoint_extents_def)

definition put_extents :: "db \<Rightarrow> job \<Rightarrow> extent_row list \<Rightarrow> db" where
  "put_extents d j rows = d\<lparr>db_extents := (db_extents d)(int (j_id j) :=
     (db_extents d (int (j_id j)))(int (j_generation j) := rows))\<rparr>"

text \<open>What \<open>durable\<close> does when the repository holds the job.\<close>

lemma durable_holds:
  assumes holds: "repo_holds d j es" and inv: "job_inv j"
    and plan: "j_segments j = Some m" and state: "j_state j \<in> {Transferring, Stopping, Cancelling}"
    and typed: "extents_typed incoming"
  shows "durable d (j_id j) (j_generation j) incoming True =
    (if \<exists>e \<in> set incoming. sm_total m < br_end (de_range e) then Inl PCorrupt
     else case admit (by_start es) incoming of None \<Rightarrow> Inl PConflict
       | Some fresh \<Rightarrow>
           if sm_maximum m < restored_segments (extent_ranges (es @ fresh)) (sm_total m) then Inl PConflict
           else Inr (put_extents d j (map enc (es @ fresh))))"
proof -
  have fit: "j_id j \<le> I64_MAX" "j_generation j \<le> I64_MAX"
    using holds by (simp_all add: repo_holds_def job_fits_def)
  have hold: "extents_hold d j es" using holds by (simp add: repo_holds_def)
  have ext: "extents d (int (j_id j)) (int (j_generation j)) = Inr (by_start es)"
    using hold inv by (rule extents_holds(1))
  have cols: "plan_cols j = Some (int (sm_total m), int (sm_maximum m))"
    using plan by (simp add: plan_cols_def job_plan_def)
  have es: "db_extents d (int (j_id j)) (int (j_generation j)) = map enc es" "disjoint_extents es"
    "\<forall>e \<in> set es. extent_fits (sm_total m) e"
    using hold plan by (simp_all add: extents_hold_def job_plan_def)
  have ins: "insert_extents (map enc es) fresh = Inr (map enc (es @ fresh))"
    if "admit (by_start es) incoming = Some fresh" "\<forall>e \<in> set incoming. br_end (de_range e) \<le> sm_total m" for fresh
  proof (rule insert_extents_enc)
    have "disjoint_extents (by_start es @ [])" using es(2) by simp
    then have *: "disjoint_extents (by_start es @ fresh) \<and> set fresh \<subseteq> set incoming"
      using admit_loop_Some [of "by_start es" "[]" incoming fresh] that(1) by (simp add: admit_def)
    then show "disjoint_extents (es @ fresh)" by simp
    show "\<forall>e \<in> set (es @ fresh). extent_fits (sm_total m) e"
      using * es(3) typed that(2) by (auto simp: extents_typed_def extent_fits_def)
  qed
  have known: "map_of (db_jobs d) (int (j_id j)) \<noteq> None" using holds by (simp add: repo_holds_def)
  show ?thesis
  proof (cases "\<exists>e \<in> set incoming. sm_total m < br_end (de_range e)")
    case True
    then show ?thesis
      using fit known state
      by (auto simp: durable_def signed_id_def current_holds [OF holds] cols list_ex_iff)
  next
    case False
    then have le: "\<forall>e \<in> set incoming. br_end (de_range e) \<le> sm_total m" by auto
    show ?thesis
    proof (cases "admit (by_start es) incoming")
      case None
      then show ?thesis
        using fit known state False
        by (auto simp: durable_def signed_id_def current_holds [OF holds] cols list_ex_iff ext)
    next
      case (Some fresh)
      then show ?thesis
        using fit known state False ins [OF Some le] es(1)
        by (auto simp: durable_def signed_id_def current_holds [OF holds] cols list_ex_iff ext
            restored_append_by_start put_extents_def)
    qed
  qed
qed

lemma put_extents_holds:
  assumes holds: "repo_holds d j es" and plan: "j_segments j = Some m"
    and new: "disjoint_extents es'" "\<forall>e \<in> set es'. extent_fits (sm_total m) e"
      "restored_segments (extent_ranges es') (sm_total m) \<le> sm_maximum m" "job_durable j \<subseteq> extents_bytes es'"
  shows "repo_holds (put_extents d j (map enc es')) j es'"
  using assms by (simp add: repo_holds_def extents_hold_def put_extents_def job_plan_def)

lemma durable_Inr:
  assumes holds: "repo_holds d j es" and inv: "job_inv j"
    and plan: "j_segments j = Some m" and state: "j_state j \<in> {Transferring, Stopping, Cancelling}"
    and typed: "extents_typed incoming"
    and run: "durable d (j_id j) (j_generation j) incoming True = Inr d'"
  obtains es' where "repo_holds d' j es'" "set es' = set es \<union> set incoming" "d' = put_extents d j (map enc es')"
proof -
  obtain fresh where f: "admit (by_start es) incoming = Some fresh"
    "\<forall>e \<in> set incoming. br_end (de_range e) \<le> sm_total m"
    "restored_segments (extent_ranges (es @ fresh)) (sm_total m) \<le> sm_maximum m"
    "d' = put_extents d j (map enc (es @ fresh))"
    using run durable_holds [OF holds inv plan state typed]
    by (auto split: if_splits option.splits simp: not_less)
  have es: "disjoint_extents es" "\<forall>e \<in> set es. extent_fits (sm_total m) e" "job_durable j \<subseteq> extents_bytes es"
    using holds plan by (simp_all add: repo_holds_def extents_hold_def job_plan_def)
  have a: "disjoint_extents (by_start es @ fresh) \<and> set (by_start es @ fresh) = set (by_start es) \<union> set incoming"
    using admit_loop_Some [of "by_start es" "[]" incoming fresh] f(1) es(1) by (simp add: admit_def)
  then have "disjoint_extents (es @ fresh)" "set (es @ fresh) = set es \<union> set incoming" by simp_all
  moreover have "\<forall>e \<in> set (es @ fresh). extent_fits (sm_total m) e"
    using calculation(2) es(2) f(2) typed by (auto simp: extents_typed_def extent_fits_def)
  moreover have "job_durable j \<subseteq> extents_bytes (es @ fresh)"
    using es(3) by (auto simp: extents_bytes_set)
  ultimately show ?thesis
    using that [of "es @ fresh"] put_extents_holds [OF holds plan _ _ f(3)] f(4) by simp
qed

end
