(* ===== verification/Repository_Props.thy ===== *)
theory Repository_Props
  imports Repository
begin

text \<open>
  Runs of the repository and of a job with its repository. \<open>repo_step\<close> is any sequence of
  transactions on the whole database; \<open>live_step\<close> is one job in memory next to the database, in
  the order the coordinator uses: a transition is committed before it is applied and a
  checkpoint's extents are committed before they are acknowledged.
\<close>

section \<open>Transactions leave other jobs alone\<close>

definition same_at :: "i64 \<Rightarrow> db \<Rightarrow> db \<Rightarrow> bool" where
  "same_at i d d' \<longleftrightarrow>
     map_of (db_jobs d') i = map_of (db_jobs d) i \<and> db_state d' i = db_state d i \<and>
     db_extents d' i = db_extents d i"

lemma same_at_holds: "same_at (int (j_id j)) d d' \<Longrightarrow> repo_holds d' j es = repo_holds d j es"
  by (simp add: same_at_def repo_holds_def extents_hold_def)

lemma transition_db:
  assumes "transition d e io = Inr d'"
  obtains i row v where "signed_id (je_job e) = Inr i" "map_of (db_jobs d) i \<noteq> None"
    "\<exists>replaced. d' = set_version (put_state (drop_obsolete d i replaced (je_command e)) i row) i v"
  using assms
  by (auto simp: transition_def store_outcome_def res_simps Let_def split: if_splits)

lemma drop_obsolete_db:
  "db_jobs (drop_obsolete d i r c) = db_jobs d" "db_state (drop_obsolete d i r c) = db_state d"
  "k \<noteq> i \<Longrightarrow> db_extents (drop_obsolete d i r c) k = db_extents d k"
  "db_receipts (drop_obsolete d i r c) = db_receipts d" "db_last_id (drop_obsolete d i r c) = db_last_id d"
  by (simp_all add: drop_obsolete_def clear_intent_def clear_extents_def Let_def)

lemma set_version_keys: "map fst (db_jobs (set_version d i v)) = map fst (db_jobs d)"
  by (simp add: set_version_def comp_def case_prod_unfold)

lemma transition_frame:
  assumes "transition d e io = Inr d'" "k \<noteq> int (je_job e)"
  shows "same_at k d d'"
  using assms(1)
proof (rule transition_db)
  fix i row v assume i: "signed_id (je_job e) = Inr i"
    and d': "\<exists>replaced. d' = set_version (put_state (drop_obsolete d i replaced (je_command e)) i row) i v"
  have "k \<noteq> i" using i assms(2) by (auto simp: signed_id_def split: if_splits)
  then show "same_at k d d'"
    using d' by (auto simp: same_at_def map_of_set_version put_state_def drop_obsolete_db)
      (simp_all add: set_version_def drop_obsolete_db)
qed

lemma transition_keys: "transition d e io = Inr d' \<Longrightarrow> map fst (db_jobs d') = map fst (db_jobs d)"
  by (erule transition_db) (auto simp: set_version_keys put_state_def drop_obsolete_db)

lemma put_extents_frame: "k \<noteq> int (j_id j) \<Longrightarrow> same_at k d (put_extents d j rows)"
  by (simp add: same_at_def put_extents_def)

section \<open>A database every job of which can be loaded\<close>

definition repo_inv :: "db \<Rightarrow> bool" where
  "repo_inv d \<longleftrightarrow> distinct (map fst (db_jobs d)) \<and>
     (\<forall>i row. (i, row) \<in> set (db_jobs d) \<longrightarrow>
        (\<exists>j es. int (j_id j) = i \<and> job_inv j \<and> repo_holds d j es)) \<and>
     (\<forall>i. map_of (db_jobs d) i = None \<longrightarrow> db_state d i = None \<and> (\<forall>g. db_extents d i g = []))"

definition db_empty :: "usize \<Rightarrow> usize \<Rightarrow> db" where
  "db_empty jobs receipts =
     \<lparr>db_last_id = 0, db_jobs = [], db_receipts = [], db_state = Map.empty, db_extents = (\<lambda>_ _. []),
      db_intents = Map.empty, db_limit_jobs = jobs, db_limit_receipts = receipts\<rparr>"

lemma load_job_holds:
  assumes holds: "repo_holds d j es" and inv: "job_inv j"
    and row: "map_of (db_jobs d) (int (j_id j)) = Some row"
  obtains j' where "load_job d (int (j_id j), row) = Inr j'" "job_inv j'" "settled j'"
    "j_id j' = j_id j" "j_version j' = j_version j" "j_spec j' = j_spec j" "job_plan j' = job_plan j"
    "job_durable j' = extents_bytes es"
    "projection j' = (projection j)\<lparr>jp_durable_bytes := card (extents_bytes es)\<rparr>"
proof -
  let ?ds = "extent_ranges (by_start es)"
  have rec: "load_record d (int (j_id j)) row = Inr (record_of j ?ds)"
    using holds inv row by (rule load_record_holds)
  have hold: "extents_hold d j es" using holds by (simp add: repo_holds_def)
  show ?thesis
  proof (cases "j_segments j")
    case None
    then have es: "es = []" using hold by (simp add: extents_hold_def job_plan_def)
    have "stored_extents j []"
      using None by (simp add: stored_extents_def ascending_def job_durable_def)
    then obtain j' where j': "job_restore (record_of j []) = Inr j'" "job_inv j'" "projection j' = projection j"
      "job_durable j' = job_durable j" "j_version j' = j_version j" "job_plan j' = job_plan j"
      "j_id j' = j_id j" "j_spec j' = j_spec j" "settled j'"
      using restart_ok [OF inv] by metis
    then show ?thesis
      using that [of j'] rec es None
      by (simp add: load_job_def by_start_def extent_ranges_def job_durable_def extents_bytes_set projection_def)
  next
    case (Some m)
    then have tidy: "disjoint_extents es" "\<forall>e \<in> set es. extent_fits (sm_total m) e"
      "restored_segments (extent_ranges es) (sm_total m) \<le> sm_maximum m" "durable_set m \<subseteq> extents_bytes es"
      using hold by (simp_all add: extents_hold_def job_plan_def job_durable_def)
    have ds: "ascending ?ds" "\<forall>r \<in> set ?ds. range_ok r \<and> br_end r \<le> sm_total m"
      using by_start_ascending [OF tidy(1,2)] tidy(2) by (auto simp: extent_ranges_def extent_fits_def)
    have b: "ranges_bytes ?ds = extents_bytes es"
      using extents_bytes_by_start [of es] by (simp add: extents_bytes_def)
    obtain m' where m': "job_restore (record_of j ?ds) = Inr (put_map j m')" "job_inv (put_map j m')"
      "durable_set m' = ranges_bytes ?ds" "sm_total m' = sm_total m" "sm_maximum m' = sm_maximum m" "sm_inv m'"
      "settled (put_map j m')"
    proof (rule restore_from_repository [OF inv Some ds])
      show "durable_set m \<subseteq> ranges_bytes ?ds" using tidy(4) b by simp
      show "restored_segments ?ds (sm_total m) \<le> sm_maximum m" using tidy(3) restored_by_start by metis
    qed
    show ?thesis
      using that [of "put_map j m'"] m' rec b Some
      by (simp add: load_job_def put_map_def job_plan_def job_durable_def projection_def durable_bytes_card)
  qed
qed

lemma load_jobs_ok:
  assumes "repo_inv d"
  shows "\<exists>js. load_jobs d = Inr js \<and> length js = length (db_jobs d)"
proof -
  have "\<exists>j. load_job d p = Inr j" if mem: "p \<in> set (db_jobs d)" for p
  proof -
    obtain i row where p: "p = (i, row)" by fastforce
    obtain j es where j: "int (j_id j) = i" "job_inv j" "repo_holds d j es"
      using assms mem p unfolding repo_inv_def by blast
    have "map_of (db_jobs d) i = Some row"
      using assms mem p by (simp add: repo_inv_def)
    then show ?thesis using load_job_holds [OF j(3,2)] j(1) p by metis
  qed
  then have "collect_res (map (load_job d) (sort_key fst (db_jobs d)))
      = Inr (map (\<lambda>p. projr (load_job d p)) (sort_key fst (db_jobs d)))"
    by (intro collect_res_map_Inr) (metis set_sort sum.sel(2))
  then show ?thesis by (simp add: load_jobs_def)
qed

section \<open>Runs of the repository\<close>

text \<open>Events are only ever made by deciding a command on the job as it stands, so the transition
  step carries the job it was decided on.\<close>

inductive repo_step :: "db \<Rightarrow> db \<Rightarrow> bool" where
  rp_reserve: "reserve_id d io = Inr (d', i) \<Longrightarrow> repo_step d d'"
| rp_add: "commit_add d u io = Inr d' \<Longrightarrow> au_job u = job_new i spec \<Longrightarrow> identifier_ok i \<Longrightarrow>
    spec_fits spec \<Longrightarrow> repo_step d d'"
| rp_transition: "transition d e io = Inr d' \<Longrightarrow> repo_holds d j es \<Longrightarrow> job_inv j \<Longrightarrow>
    job_apply j e = Inr j' \<Longrightarrow> job_fits j' \<Longrightarrow> repo_step d d'"
| rp_extents: "durable d i g incoming io = Inr d' \<Longrightarrow> extents_typed incoming \<Longrightarrow> identifier_ok i \<Longrightarrow>
    repo_step d d'"
| rp_intent: "intend_publish d p io = Inr d' \<Longrightarrow> repo_step d d'"
| rp_remove: "remove d k v io = Inr d' \<Longrightarrow> repo_step d d'"

lemma repo_inv_same:
  assumes "repo_inv d" "map fst (db_jobs d') = map fst (db_jobs d)"
    and "\<And>k. k \<noteq> i \<Longrightarrow> same_at k d d'"
    and "(\<exists>j es. int (j_id j) = i \<and> job_inv j \<and> repo_holds d' j es) \<or> same_at i d d'"
  shows "repo_inv d'"
proof -
  have keys: "fst ` set (db_jobs d') = fst ` set (db_jobs d)" using assms(2) by (metis set_map)
  have "\<exists>j es. int (j_id j) = k \<and> job_inv j \<and> repo_holds d' j es" if mem: "(k, row) \<in> set (db_jobs d')" for k row
  proof -
    have "k \<in> fst ` set (db_jobs d)" using mem keys by force
    then obtain j es where j: "int (j_id j) = k" "job_inv j" "repo_holds d j es"
      using assms(1) unfolding repo_inv_def by fastforce
    show ?thesis
    proof (cases "same_at k d d'")
      case True
      then show ?thesis using j same_at_holds by blast
    next
      case False
      then have "k = i" using assms(3) by blast
      then show ?thesis using False assms(4) by simp
    qed
  qed
  moreover have "db_state d' k = None \<and> (\<forall>g. db_extents d' k g = [])" if none: "map_of (db_jobs d') k = None" for k
  proof -
    have old: "map_of (db_jobs d) k = None" using none keys by (simp add: map_of_eq_None_iff)
    have "same_at k d d'"
      using assms(3,4) none by (cases "k = i") (auto simp: repo_holds_def)
    then show ?thesis using old assms(1) by (simp add: same_at_def repo_inv_def)
  qed
  ultimately show ?thesis using assms(1,2) by (auto simp: repo_inv_def)
qed

text \<open>The same when rows appear or disappear.\<close>

lemma repo_inv_keys:
  assumes "repo_inv d" "distinct (map fst (db_jobs d'))"
    and "\<And>k. k \<notin> ks \<Longrightarrow> same_at k d d'"
    and "\<And>k. k \<in> ks \<Longrightarrow> k \<in> fst ` set (db_jobs d') \<Longrightarrow>
           \<exists>j es. int (j_id j) = k \<and> job_inv j \<and> repo_holds d' j es"
    and "\<And>k. k \<in> ks \<Longrightarrow> k \<notin> fst ` set (db_jobs d') \<Longrightarrow> db_state d' k = None \<and> (\<forall>g. db_extents d' k g = [])"
  shows "repo_inv d'"
proof -
  have "\<exists>j es. int (j_id j) = k \<and> job_inv j \<and> repo_holds d' j es" if mem: "(k, row) \<in> set (db_jobs d')" for k row
  proof (cases "k \<in> ks")
    case True
    then show ?thesis using mem assms(4) by force
  next
    case False
    then have s: "same_at k d d'" by (rule assms(3))
    have "map_of (db_jobs d') k \<noteq> None" using map_of_is_SomeI [OF assms(2) mem] by simp
    then obtain row' where "(k, row') \<in> set (db_jobs d)"
      using s by (metis map_of_SomeD option.exhaust same_at_def)
    then obtain j es where "int (j_id j) = k" "job_inv j" "repo_holds d j es"
      using assms(1) unfolding repo_inv_def by blast
    then show ?thesis using s same_at_holds by blast
  qed
  moreover have "db_state d' k = None \<and> (\<forall>g. db_extents d' k g = [])" if none: "map_of (db_jobs d') k = None" for k
  proof (cases "k \<in> ks")
    case True
    then show ?thesis using none assms(5) by (simp add: map_of_eq_None_iff)
  next
    case False
    then show ?thesis using assms(1) assms(3) none by (simp add: same_at_def repo_inv_def)
  qed
  ultimately show ?thesis using assms(2) by (auto simp: repo_inv_def)
qed

lemma same_at_refl [simp]: "same_at i d d"
  by (simp add: same_at_def)

lemma transition_repo_inv:
  assumes "transition d e io = Inr d'" "repo_holds d j es" "job_inv j" "job_apply j e = Inr j'" "job_fits j'"
    and "repo_inv d"
  shows "repo_inv d'"
proof -
  have io: "io" using assms(1) by (auto simp: transition_def res_simps split: if_splits)
  have id: "je_job e = j_id j" "j_id j' = j_id j"
    using assms(4) execute_core by (auto elim!: job_apply_Inr simp: core_frame_def)
  obtain es' where "repo_holds d' j' es'"
    using transition_simulates [OF assms(2-5)] assms(1) io by auto
  moreover have "job_inv j'" using assms(4,3) by (rule job_apply_inv)
  ultimately show ?thesis
    using id transition_frame [OF assms(1)]
    by (intro repo_inv_same [OF assms(6) transition_keys [OF assms(1)], of "int (j_id j)"]) auto
qed

lemma durable_repo_inv:
  assumes run: "durable d i g incoming io = Inr d'" and typed: "extents_typed incoming"
    and id: "identifier_ok i" and inv: "repo_inv d"
  shows "repo_inv d'"
proof -
  have io: "io" and fit: "i \<le> I64_MAX" and known: "map_of (db_jobs d) (int i) \<noteq> None"
    using run by (auto simp: durable_def signed_id_def res_simps split: if_splits)
  then obtain row where "(int i, row) \<in> set (db_jobs d)" by (meson map_of_SomeD option.exhaust_sel)
  then obtain j es where j: "int (j_id j) = int i" "job_inv j" "repo_holds d j es"
    using inv unfolding repo_inv_def by blast
  have cur: "g \<le> I64_MAX" "int g = int (j_generation j)" "j_state j \<in> {Transferring, Stopping, Cancelling}"
    "plan_cols j \<noteq> None"
    using run j current_holds [OF j(3)] io known fit
    by (auto simp: durable_def signed_id_def res_simps stored_def split: if_splits)
  then obtain m where m: "j_segments j = Some m" by (auto simp: plan_cols_def job_plan_def)
  have "durable d (j_id j) (j_generation j) incoming True = Inr d'" using run io j(1) cur(2) by simp
  then obtain es' where "repo_holds d' j es'" "d' = put_extents d j (map enc es')"
    using durable_Inr [OF j(3,2) m cur(3) typed] by metis
  then show ?thesis
    using j put_extents_frame
    by (intro repo_inv_same [OF inv, of _ "int i"]) (auto simp: put_extents_def)
qed

lemma commit_add_holds:
  assumes run: "commit_add d u io = Inr d'" and u: "au_job u = job_new i spec"
    and ok: "identifier_ok i" "spec_fits spec" and inv: "repo_inv d"
  obtains row where "repo_holds d' (job_new i spec) []" "map_of (db_jobs d) (int i) = None"
    "db_jobs d' = db_jobs d @ [(int i, row)]" "db_state d' = db_state d" "db_extents d' = db_extents d"
    "db_state d (int i) = None" "\<forall>g. db_extents d (int i) g = []"
proof -
  let ?row = "\<lparr>jw_spec = encode_spec spec, jw_version = 0\<rparr>"
  have fit: "i \<le> I64_MAX" and new: "map_of (db_jobs d) (int i) = None"
    and d': "db_jobs d' = db_jobs d @ [(int i, ?row)]" "db_state d' = db_state d" "db_extents d' = db_extents d"
    using run u
    by (auto simp: commit_add_def Let_def signed_id_def job_new_def res_simps split: if_splits)
  have none: "db_state d (int i) = None" "db_extents d (int i) g = []" for g
    using inv new by (simp_all add: repo_inv_def)
  have "job_fits (job_new i spec)"
    using ok fit by (simp add: job_fits_def job_new_def digest_ok_def generation_initial_def width_simps)
  moreover have "map_of (db_jobs d') (int i) = Some ?row"
    using new by (simp add: d'(1) map_add_def)
  ultimately have "repo_holds d' (job_new i spec) []"
    using none
    by (simp add: repo_holds_def d' untouched_def extents_hold_def job_new_def job_plan_def job_durable_def
        disjoint_extents_def)
  then show ?thesis using that new d' none by blast
qed

lemma commit_add_repo_inv:
  assumes run: "commit_add d u io = Inr d'" and u: "au_job u = job_new i spec"
    and ok: "identifier_ok i" "spec_fits spec" and inv: "repo_inv d"
  shows "repo_inv d'"
proof -
  obtain row where holds: "repo_holds d' (job_new i spec) []" and new: "map_of (db_jobs d) (int i) = None"
    and d': "db_jobs d' = db_jobs d @ [(int i, row)]" "db_state d' = db_state d" "db_extents d' = db_extents d"
    and none: "db_state d (int i) = None" "\<forall>g. db_extents d (int i) g = []"
    using assms by (rule commit_add_holds)
  have fresh: "int i \<notin> fst ` set (db_jobs d)" using new by (simp add: map_of_eq_None_iff)
  have "job_inv (job_new i spec)" using ok by (intro job_inv_new) (simp_all add: spec_fits_def)
  moreover have "same_at k d d'" if "k \<noteq> int i" for k
    using that by (auto simp: same_at_def d' map_add_def split: option.splits)
  ultimately show ?thesis
    using holds
    by (intro repo_inv_keys [OF inv, where ks = "{int i}"])
      (use fresh inv none in \<open>auto simp: d' repo_inv_def job_new_def\<close>)
qed

lemma remove_repo_inv:
  assumes run: "remove d k v io = Inr d'" and inv: "repo_inv d"
  shows "repo_inv d'"
proof -
  obtain i where d': "db_jobs d' = filter (\<lambda>(j, _). j \<noteq> i) (db_jobs d)" "db_state d' = (db_state d)(i := None)"
    "db_extents d' = (db_extents d)(i := (\<lambda>_. []))"
    using run by (auto simp: remove_def res_simps clear_intent_def clear_extents_def split: if_splits)
  have map: "map_of (filter (\<lambda>(j, _). j \<noteq> i) xs) k = (if k = i then None else map_of xs k)"
    for xs :: "(i64 \<times> job_row) list" and k
    by (induction xs) auto
  have "same_at k d d'" if "k \<noteq> i" for k using that by (simp add: same_at_def d' map)
  moreover have "map fst (filter (\<lambda>(j, _). j \<noteq> i) xs) = filter (\<lambda>j. j \<noteq> i) (map fst xs)"
    for xs :: "(i64 \<times> job_row) list"
    by (induction xs) auto
  ultimately show ?thesis
    using inv by (intro repo_inv_keys [OF inv, where ks = "{i}"]) (auto simp: d' repo_inv_def)
qed

lemma repo_step_inv: "repo_step d d' \<Longrightarrow> repo_inv d \<Longrightarrow> repo_inv d'"
proof (induction rule: repo_step.induct)
  case (rp_reserve d io d' i)
  then have "db_jobs d' = db_jobs d" "db_state d' = db_state d" "db_extents d' = db_extents d"
    by (auto simp: reserve_id_def Let_def res_simps split: if_splits)
  then show ?case using rp_reserve.prems by (intro repo_inv_same [of d d' 0]) (simp_all add: same_at_def)
next
  case (rp_intent d p io d')
  then have "db_jobs d' = db_jobs d" "db_state d' = db_state d" "db_extents d' = db_extents d"
    by (auto simp: intend_publish_def res_simps split: if_splits)
  then show ?case using rp_intent.prems by (intro repo_inv_same [of d d' 0]) (simp_all add: same_at_def)
qed (auto intro: commit_add_repo_inv transition_repo_inv durable_repo_inv remove_repo_inv)

lemma repo_inv_empty: "repo_inv (db_empty a b)"
  by (simp add: repo_inv_def db_empty_def)

lemma repo_steps_inv: "repo_step\<^sup>*\<^sup>* d d' \<Longrightarrow> repo_inv d \<Longrightarrow> repo_inv d'"
  by (induction rule: rtranclp_induct) (auto dest: repo_step_inv)


section \<open>A job and its repository\<close>

text \<open>One job in memory beside the database. Everything the coordinator may do with the pair is a
  step: commit a planned event and then apply it, work on the segment map without making bytes
  durable, commit extents, acknowledge a checkpoint all of whose ranges are stored, or restart
  from the database. \<open>lv_other\<close> is whatever other jobs' transactions do.\<close>

definition backed :: "durable_extent list \<Rightarrow> commit_batch \<Rightarrow> bool" where
  "backed es b \<longleftrightarrow> (\<forall>(i, r, a) \<in> set (cb_selection b). r \<in> set (extent_ranges es))"

inductive live_step :: "db \<times> job \<Rightarrow> db \<times> job \<Rightarrow> bool" where
  lv_transition: "job_apply j e = Inr j' \<Longrightarrow> job_fits j' \<Longrightarrow> transition d e True = Inr d' \<Longrightarrow>
    live_step (d, j) (d', j')"
| lv_segment: "segment_op j j' \<Longrightarrow> job_durable j' = job_durable j \<Longrightarrow> live_step (d, j) (d, j')"
| lv_extents: "durable d (j_id j) (j_generation j) incoming True = Inr d' \<Longrightarrow> extents_typed incoming \<Longrightarrow>
    live_step (d, j) (d', j)"
| lv_commit: "job_acknowledge_commit j b = Inr j' \<Longrightarrow> current_extents d (j_id j) = Inr es \<Longrightarrow> backed es b \<Longrightarrow>
    live_step (d, j) (d, j')"
| lv_restart: "map_of (db_jobs d) (int (j_id j)) = Some row \<Longrightarrow> load_job d (int (j_id j), row) = Inr j' \<Longrightarrow>
    live_step (d, j) (d, j')"
| lv_other: "same_at (int (j_id j)) d d' \<Longrightarrow> live_step (d, j) (d', j)"

inductive_cases live_stepE: "live_step (d, j) (d', j')"

lemma worker_step_maximum: "worker_step m m' \<Longrightarrow> sm_maximum m' = sm_maximum m"
  by (induction rule: worker_step.induct)
    (auto simp: segment_defs Let_def res_simps split: if_splits option.splits)

lemma sm_step_maximum: "sm_step m m' \<Longrightarrow> sm_maximum m' = sm_maximum m"
proof (induction rule: sm_step.induct)
  case (ss_sync m t m' b)
  then show ?case by (rule acknowledge_sync_Inr) simp
qed (auto simp: worker_step_maximum segment_defs Let_def res_simps split: if_splits)

lemma put_map_columns:
  "j_segments j = Some m \<Longrightarrow> sm_total m' = sm_total m \<Longrightarrow> sm_maximum m' = sm_maximum m \<Longrightarrow>
     job_plan (put_map j m') = job_plan j \<and> row_of (put_map j m') = row_of j \<and>
     j_id (put_map j m') = j_id j \<and> j_generation (put_map j m') = j_generation j \<and>
     j_version (put_map j m') = j_version j \<and> j_spec (put_map j m') = j_spec j \<and>
     job_fits (put_map j m') = job_fits j \<and> job_durable (put_map j m') = durable_set m'"
  by (simp add: put_map_def job_plan_def row_of_def plan_cols_def job_fits_def job_durable_def)

lemma segment_op_holds:
  assumes "segment_op j j'" "repo_holds d j es" "job_durable j' \<subseteq> extents_bytes es"
  shows "repo_holds d j' es"
proof -
  obtain m m' where m: "map_mut j = Inr m" "sm_step m m'" "j' = put_map j m'"
    using assms(1) by (rule segment_op_step)
  have seg: "j_segments j = Some m" using m(1) by (simp add: map_mut_Inr)
  then have "\<not> untouched j" by (simp add: untouched_def)
  then show ?thesis
    using assms(2,3) put_map_columns [OF seg, of m'] sm_step_frame [OF m(2)] sm_step_maximum [OF m(2)] m(3)
    by (simp add: repo_holds_def extents_hold_def split: option.splits)
qed


lemma current_extents_holds:
  assumes "repo_holds d j es" "job_inv j"
  shows "current_extents d (j_id j) = Inr (by_start es)"
proof -
  have "extents_hold d j es" "j_id j \<le> I64_MAX" using assms(1) by (simp_all add: repo_holds_def job_fits_def)
  moreover have "(case db_state d (int (j_id j)) of None \<Rightarrow> 1 | Some r \<Rightarrow> sr_generation r) = int (j_generation j)"
    using assms(1)
    by (cases "db_state d (int (j_id j))")
      (simp_all add: repo_holds_def untouched_def generation_initial_def row_of_def)
  ultimately show ?thesis
    using extents_holds(1) [OF _ assms(2)] by (simp add: current_extents_def signed_id_def)
qed

lemma commit_durable:
  assumes "job_acknowledge_commit j b = Inr j'" "job_inv j"
  shows "job_durable j' = job_durable j \<union> selection_bytes (cb_selection b)"
proof -
  obtain m m' where m: "map_mut j = Inr m" "acknowledge_commit m b = Inr m'" "j' = put_map j m'"
    using assms(1) by (auto simp: job_acknowledge_commit_def res_simps)
  have seg: "j_segments j = Some m" using m(1) by (simp add: map_mut_Inr)
  then have "sm_inv m" using job_invD(2) [OF assms(2)] by (simp add: segments_inv_def map_inv_def)
  then show ?thesis
    using acknowledge_commit_durable [OF _ m(2)] seg m(3) by (simp add: job_durable_def put_map_def)
qed

lemma backed_bytes: "backed es b \<Longrightarrow> selection_bytes (cb_selection b) \<subseteq> extents_bytes es"
  by (fastforce simp: backed_def selection_bytes_def extents_bytes_def ranges_bytes_def)

definition in_step :: "db \<Rightarrow> job \<Rightarrow> bool" where
  "in_step d j \<longleftrightarrow> job_inv j \<and> (\<exists>es. repo_holds d j es)"

lemma load_in_step:
  assumes "in_step d j" "map_of (db_jobs d) (int (j_id j)) = Some row"
  obtains j' where "load_job d (int (j_id j), row) = Inr j'" "in_step d j'" "settled j'"
    "j_id j' = j_id j" "j_version j' = j_version j" "j_spec j' = j_spec j" "job_plan j' = job_plan j"
    "job_durable j \<subseteq> job_durable j'"
    "projection j' = (projection j)\<lparr>jp_durable_bytes := card (job_durable j')\<rparr>"
proof -
  obtain es where inv: "job_inv j" and holds: "repo_holds d j es" using assms(1) by (auto simp: in_step_def)
  obtain j' where j': "load_job d (int (j_id j), row) = Inr j'" "job_inv j'" "settled j'"
    "j_id j' = j_id j" "j_version j' = j_version j" "j_spec j' = j_spec j" "job_plan j' = job_plan j"
    "job_durable j' = extents_bytes es"
    "projection j' = (projection j)\<lparr>jp_durable_bytes := card (extents_bytes es)\<rparr>"
    using holds inv assms(2) by (rule load_job_holds)
  have core: "j_state j' = j_state j" "j_generation j' = j_generation j" "j_reason j' = j_reason j"
    "j_retry_at j' = j_retry_at j" "j_stop j' = j_stop j" "j_replace_on_drain j' = j_replace_on_drain j"
    "j_attempts j' = j_attempts j" "j_validator j' = j_validator j"
    using j'(9) by (simp_all add: projection_def)
  have "plan_cols j' = plan_cols j" using j'(7) by (simp add: plan_cols_def)
  then have "row_of j' = row_of j" "job_fits j' = job_fits j"
    using core j'(4-7) by (simp_all add: row_of_def job_fits_def)
  moreover have "j_segments j' = None \<longleftrightarrow> j_segments j = None"
    using j'(7) by (auto simp: job_plan_def split: option.splits)
  then have "untouched j' = untouched j" using core by (simp add: untouched_def)
  moreover have "extents_hold d j' es" "job_durable j \<subseteq> extents_bytes es"
    using holds j'(4,7,8) core(2) by (simp_all add: repo_holds_def extents_hold_def)
  ultimately have "repo_holds d j' es"
    using holds j'(4-6) by (simp add: repo_holds_def split: option.splits)
  then show ?thesis using that [of j'] j' \<open>job_durable j \<subseteq> extents_bytes es\<close> by (auto simp: in_step_def)
qed

lemma live_step_in_step:
  assumes "live_step (d, j) (d', j')" "in_step d j"
  shows "in_step d' j' \<and> j_id j' = j_id j \<and> j_spec j' = j_spec j"
proof -
  obtain es where inv: "job_inv j" and holds: "repo_holds d j es" using assms(2) by (auto simp: in_step_def)
  have id: "j_id k = j_id j \<and> j_spec k = j_spec j" if "segment_op j k" for k
    using that by (rule segment_op_step) (simp add: put_map_def)
  show ?thesis
    using assms(1)
  proof (cases rule: live_stepE [consumes 1, case_names 1 2 3 4 5 6])
    case (1 e)
    have "j_id j' = j_id j" "j_spec j' = j_spec j" using 1(1) execute_core by (auto elim!: job_apply_Inr simp: core_frame_def)
    then show ?thesis
      using transition_simulates [OF holds inv 1(1,2)] 1(3) job_apply_inv [OF 1(1) inv] by (auto simp: in_step_def)
  next
    case 2
    then show ?thesis
      using segment_op_holds [OF 2(2) holds] segment_op_inv [OF 2(2) inv] holds id
      by (auto simp: in_step_def repo_holds_def extents_hold_def)
  next
    case (3 incoming)
    then have "plan_cols j \<noteq> None" "j_state j \<in> {Transferring, Stopping, Cancelling}"
      using current_holds [OF holds] by (auto simp: durable_def signed_id_def res_simps stored_def split: if_splits)
    then obtain m where "j_segments j = Some m" "j_state j \<in> {Transferring, Stopping, Cancelling}"
      by (auto simp: plan_cols_def job_plan_def)
    then show ?thesis using durable_Inr [OF holds inv _ _ 3(3,2)] inv 3(1) by (metis in_step_def)
  next
    case (4 b es')
    then have op: "segment_op j j'" by (blast intro: so_commit)
    have "job_durable j' \<subseteq> extents_bytes es"
      using commit_durable [OF 4(2) inv] backed_bytes [OF 4(4)] holds current_extents_holds [OF holds inv] 4(3)
      by (auto simp: repo_holds_def extents_hold_def)
    then show ?thesis
      using segment_op_holds [OF op holds] segment_op_inv [OF op inv] id [OF op] 4(1) by (auto simp: in_step_def)
  next
    case (5 row)
    show ?thesis using load_in_step [OF assms(2) 5(2)] 5(1,3) by (metis sum.inject(2))
  next
    case 6
    then show ?thesis using inv holds same_at_holds by (auto simp: in_step_def)
  qed
qed

lemma live_steps_in_step:
  "live_step\<^sup>*\<^sup>* p q \<Longrightarrow> in_step (fst p) (snd p) \<Longrightarrow> in_step (fst q) (snd q) \<and>
     j_id (snd q) = j_id (snd p) \<and> j_spec (snd q) = j_spec (snd p)"
  by (induction rule: rtranclp_induct) (auto dest: live_step_in_step)


section \<open>A whole checkpoint\<close>

lemma checkpoint_map:
  assumes inv: "sm_inv m" and run: "prepare_sync m = Inr (m1, t)" "acknowledge_sync m1 t = Inr (m2, b)"
  obtains m3 where "acknowledge_commit m2 b = Inr m3" "sm_inv m3" "sm_total m3 = sm_total m"
    "sm_maximum m3 = sm_maximum m" "durable_set m3 = durable_set m \<union> ranges_bytes (cb_ranges b)"
    "cb_ranges b = map sg_range (filter (\<lambda>s. is_written (sg_state s)) (sm_segments m))" "sm_step m2 m3"
proof -
  note p = prepare_sync_Inr [OF run(1)]
  have i2: "sm_inv m2" using sm_inv_acknowledge_sync [OF sm_inv_prepare_sync [OF inv run(1)] run(2)] .
  obtain c where c: "sm_checkpoint m2 = Some c" "cp_synced c" "cp_sequence c = cb_sequence b"
    "cp_selection c = cb_selection b" "cb_job b = sm_job m2" "cb_generation b = sm_generation m2"
    and b: "cb_ranges b = st_ranges t" "cb_selection b = st_selection t" "durable_set m2 = durable_set m1"
    using run(2) by (rule acknowledge_sync_Inr) (simp add: acknowledge_sync_durable [OF run(2)])
  obtain m3 where m3: "acknowledge_commit m2 b = Inr m3" using acknowledge_commit_succeeds [OF i2 c] by blast
  have sel: "selection_bytes (cb_selection b) = ranges_bytes (cb_ranges b)"
    using p(5) b by (force simp: selection_bytes_def ranges_bytes_def select_entry_def)
  have step: "sm_step m m1" "sm_step m1 m2" "sm_step m2 m3" using run m3 by (blast intro: sm_step.intros)+
  show ?thesis
  proof (rule that [OF m3 sm_inv_acknowledge_commit [OF i2 m3] _ _ _ _ step(3)])
    show "sm_total m3 = sm_total m" "sm_maximum m3 = sm_maximum m"
      using step [THEN sm_step_frame] step [THEN sm_step_maximum] by simp_all
    show "durable_set m3 = durable_set m \<union> ranges_bytes (cb_ranges b)"
      using acknowledge_commit_durable [OF i2 m3] sel b(3) prepare_sync_durable [OF run(1)] by simp
    show "cb_ranges b = map sg_range (filter (\<lambda>s. is_written (sg_state s)) (sm_segments m))"
      using p(5) b(1) by simp
  qed
qed

lemma overlaps_bytes: "overlaps a b \<Longrightarrow> range_ok a \<Longrightarrow> range_ok b \<Longrightarrow> bytes_of a \<inter> bytes_of b \<noteq> {}"
proof -
  assume "overlaps a b" "range_ok a" "range_ok b"
  then have "max (br_start a) (br_start b) \<in> bytes_of a \<inter> bytes_of b"
    by (auto simp: overlaps_def bytes_of_def range_ok_def)
  then show ?thesis by blast
qed

lemma ascending_disjoint:
  assumes "ascending (extent_ranges es)" "\<forall>e \<in> set es. range_ok (de_range e)"
  shows "disjoint_extents es"
proof -
  have sw: "sorted_wrt (\<lambda>x y. br_end (de_range x) \<le> br_start (de_range y)) es"
    using assms(1) by (simp add: ascending_def extent_ranges_def sorted_wrt_map)
  from sw assms(2) show ?thesis
    by (induction es) (fastforce simp: disjoint_extents_def overlaps_def range_ok_def)+
qed

lemma disjoint_append:
  assumes "disjoint_extents xs" "disjoint_extents ys" "\<forall>e \<in> set (xs @ ys). range_ok (de_range e)"
    "extents_bytes xs \<inter> extents_bytes ys = {}"
  shows "disjoint_extents (xs @ ys)"
proof -
  have cross: "\<not> overlaps (de_range x) (de_range y)" if xy: "x \<in> set xs" "y \<in> set ys" for x y
  proof
    assume "overlaps (de_range x) (de_range y)"
    then have "bytes_of (de_range x) \<inter> bytes_of (de_range y) \<noteq> {}"
      using xy assms(3) by (intro overlaps_bytes) auto
    then show False using xy assms(4) by (auto simp: extents_bytes_set)
  qed
  moreover have "set xs \<inter> set ys = {}"
  proof -
    have "overlaps (de_range x) (de_range x)" if "x \<in> set xs" for x
      using that assms(3) by (simp add: overlaps_def range_ok_def)
    then show ?thesis using cross by blast
  qed
  moreover have "\<not> overlaps (de_range y) (de_range x)" if "x \<in> set xs" "y \<in> set ys" for x y
    using cross [OF that] overlaps_sym by simp
  ultimately show ?thesis
    using assms(1,2) by (auto simp: disjoint_extents_def)
qed

lemma written_ranges:
  assumes "sm_inv m"
  defines "rs \<equiv> map sg_range (filter (\<lambda>s. is_written (sg_state s)) (sm_segments m))"
  shows "ascending rs" "\<forall>r \<in> set rs. range_ok r \<and> br_end r \<le> sm_total m" "ranges_bytes rs \<inter> durable_set m = {}"
proof -
  note chain = sm_inv_chain [OF assms(1)]
  have "sorted_wrt (\<lambda>x y. br_end (sg_range x) \<le> br_start (sg_range y)) (sm_segments m)"
    using chain_sorted [OF chain] by (simp add: sorted_wrt_map)
  then show "ascending rs" by (simp add: rs_def ascending_def sorted_wrt_map sorted_wrt_filter)
  show "\<forall>r \<in> set rs. range_ok r \<and> br_end r \<le> sm_total m"
    using chain_bounds [OF chain] sm_inv_range_ok [OF assms(1)] by (auto simp: rs_def)
  show "ranges_bytes rs \<inter> durable_set m = {}"
    using chain_unique [OF chain] by (fastforce simp: rs_def ranges_bytes_def durable_set_def)
qed

lemma same_bytes_fit:
  assumes inv: "sm_inv m" and es: "disjoint_extents es" "\<forall>e \<in> set es. extent_fits (sm_total m) e"
    and same: "extents_bytes es = durable_set m"
  shows "restored_segments (extent_ranges es) (sm_total m) \<le> sm_maximum m"
proof -
  let ?ds = "extent_ranges (by_start es)"
  have ds: "ascending ?ds" "\<forall>r \<in> set ?ds. range_ok r \<and> br_end r \<le> sm_total m" "ranges_bytes ?ds = durable_set m"
    using by_start_ascending [OF es] es(2) same extents_bytes_by_start [of es]
    by (auto simp: extent_ranges_def extent_fits_def extents_bytes_def)
  have n: "sm_total m \<le> I64_MAX" "1 \<le> sm_maximum m" "sm_maximum m \<le> 262144"
    using inv by (simp_all add: sm_inv_defs)
  obtain m' where "segment_map_restore (sm_job m) (sm_generation m) (sm_total m) (sm_maximum m) ?ds = Inr m'"
    using restore_same_durable [OF inv ds] by blast
  then have "\<not> sm_maximum m < restored_segments ?ds (sm_total m)"
    using restore_capacity(1) [OF ds(1,2) n, of "sm_job m" "sm_generation m"] by simp
  then show ?thesis using restored_by_start by (metis not_less)
qed


lemma durable_accepts:
  assumes holds: "repo_holds d j es" and inv: "job_inv j" and m: "map_mut j = Inr m"
    and typed: "extents_typed incoming"
    and new: "disjoint_extents (es @ incoming)" "\<forall>e \<in> set incoming. br_end (de_range e) \<le> sm_total m"
    and fits: "restored_segments (extent_ranges (es @ incoming)) (sm_total m) \<le> sm_maximum m"
  shows "durable d (j_id j) (j_generation j) incoming True = Inr (put_extents d j (map enc (es @ incoming)))"
proof -
  have j: "j_segments j = Some m" "j_state j \<in> {Transferring, Stopping, Cancelling}"
    using m by (auto simp: map_mut_Inr)
  have "admit (by_start es) incoming = Some incoming"
    using admit_loop_new [of "by_start es" "[]" incoming] new(1) by (simp add: admit_def)
  then show ?thesis using durable_holds [OF holds inv j typed] new(2) fits by (auto simp: not_less)
qed

lemma checkpoint_stored:
  assumes holds: "repo_holds d j es" and inv: "job_inv j" and sync: "extents_bytes es = job_durable j"
    and run: "job_prepare_sync j = Inr (j1, t)" "job_acknowledge_sync j1 t = Inr (j2, b)"
    and inc: "extent_ranges incoming = cb_ranges b" "\<forall>e \<in> set incoming. length (de_digest e) = 32"
  shows "\<exists>d' j3. durable d (j_id j) (j_generation j) incoming True = Inr d' \<and>
    job_acknowledge_commit j2 b = Inr j3 \<and> repo_holds d' j3 (es @ incoming) \<and>
    extents_bytes (es @ incoming) = job_durable j3 \<and> job_durable j3 = job_durable j \<union> ranges_bytes (cb_ranges b)"
proof -
  obtain m m1 where m: "map_mut j = Inr m" "prepare_sync m = Inr (m1, t)" and j1: "j1 = put_map j m1"
    using run(1) by (auto simp: job_prepare_sync_def res_simps split: prod.splits)
  obtain m2 where m2: "acknowledge_sync m1 t = Inr (m2, b)" and j2: "j2 = put_map j m2"
    using run(2) j1 by (auto simp: job_acknowledge_sync_def res_simps put_map_def map_mut_Inr split: prod.splits)
  have seg: "j_segments j = Some m" using m(1) by (simp add: map_mut_Inr)
  have mi: "sm_inv m" using job_invD(2) [OF inv] seg by (simp add: segments_inv_def map_inv_def)
  obtain m3 where m3: "acknowledge_commit m2 b = Inr m3" "sm_inv m3" "sm_total m3 = sm_total m"
    "sm_maximum m3 = sm_maximum m" "durable_set m3 = durable_set m \<union> ranges_bytes (cb_ranges b)"
    "cb_ranges b = map sg_range (filter (\<lambda>s. is_written (sg_state s)) (sm_segments m))" "sm_step m2 m3"
    using mi m(2) m2 by (rule checkpoint_map)
  note w = written_ranges [OF mi, folded m3(6)]
  have es: "disjoint_extents es" "\<forall>e \<in> set es. extent_fits (sm_total m) e" "extents_bytes es = durable_set m"
    using holds sync seg by (simp_all add: repo_holds_def extents_hold_def job_plan_def job_durable_def)
  have typed: "extents_typed incoming" and le: "\<forall>e \<in> set incoming. br_end (de_range e) \<le> sm_total m"
    using w(2) inc by (auto simp: extents_typed_def extent_ranges_def simp flip: inc(1))
  have bytes: "extents_bytes incoming = ranges_bytes (cb_ranges b)" using inc(1) by (simp add: extents_bytes_def)
  have "disjoint_extents incoming"
    using w(1) inc(1) typed by (intro ascending_disjoint) (simp_all add: extents_typed_def)
  then have dis: "disjoint_extents (es @ incoming)"
    using es typed w(3) bytes by (intro disjoint_append) (auto simp: extents_typed_def extent_fits_def)
  have fit: "\<forall>e \<in> set (es @ incoming). extent_fits (sm_total m) e"
    using es(2) typed le by (auto simp: extents_typed_def extent_fits_def)
  have all: "extents_bytes (es @ incoming) = durable_set m3"
    using bytes es(3) m3(5) by (auto simp: extents_bytes_set)
  have cap: "restored_segments (extent_ranges (es @ incoming)) (sm_total m) \<le> sm_maximum m"
    using same_bytes_fit [OF m3(2) dis _ all] fit m3(3,4) by simp
  let ?d = "put_extents d j (map enc (es @ incoming))" and ?j = "put_map j m3"
  have "durable d (j_id j) (j_generation j) incoming True = Inr ?d"
    using holds inv m(1) typed dis le cap by (rule durable_accepts)
  moreover have "job_acknowledge_commit j2 b = Inr ?j"
    using m(1) m3(1) j2 by (simp add: job_acknowledge_commit_def map_mut_def put_map_def split: if_splits)
  moreover have "repo_holds ?d j (es @ incoming)"
    using put_extents_holds [OF holds seg dis fit cap] es(3) seg by (auto simp: job_durable_def extents_bytes_set)
  then have "repo_holds ?d ?j (es @ incoming)"
    using put_map_columns [OF seg m3(3,4)] seg all
    by (auto simp: repo_holds_def extents_hold_def untouched_def split: option.splits)
  ultimately show ?thesis
    using all m3(5) seg by (auto simp: job_durable_def put_map_def)
qed


lemma durable_again:
  assumes holds: "repo_holds d j es" and inv: "job_inv j" and m: "map_mut j = Inr m"
    and typed: "extents_typed incoming" and known: "set incoming \<subseteq> set es"
  shows "durable d (j_id j) (j_generation j) incoming True = Inr d"
proof -
  have j: "j_segments j = Some m" "j_state j \<in> {Transferring, Stopping, Cancelling}"
    using m by (auto simp: map_mut_Inr)
  have es: "db_extents d (int (j_id j)) (int (j_generation j)) = map enc es"
    "\<forall>e \<in> set es. extent_fits (sm_total m) e"
    "restored_segments (extent_ranges es) (sm_total m) \<le> sm_maximum m"
    using holds j(1) by (simp_all add: repo_holds_def extents_hold_def job_plan_def)
  have "admit (by_start es) incoming = Some []"
    using admit_loop_known [of incoming "by_start es" "[]"] known by (simp add: admit_def)
  moreover have "\<not> (\<exists>e \<in> set incoming. sm_total m < br_end (de_range e))"
    using known es(2) unfolding extent_fits_def by (meson leD subsetD)
  moreover have "put_extents d j (map enc es) = d" using es(1) [symmetric] by (simp add: put_extents_def)
  ultimately show ?thesis using durable_holds [OF holds inv j typed] es(3) by auto
qed

lemma in_step_new:
  assumes "commit_add d u True = Inr d'" "au_job u = job_new i spec" "identifier_ok i" "spec_fits spec" "repo_inv d"
  shows "in_step d' (job_new i spec)"
  using assms by (rule commit_add_holds) (use assms job_inv_new in \<open>auto simp: in_step_def spec_fits_def\<close>)

text \<open>The jobs and databases that occur together.\<close>

definition running :: "db \<Rightarrow> job \<Rightarrow> bool" where
  "running d j \<longleftrightarrow> (\<exists>a b d0 u d1 i spec. repo_step\<^sup>*\<^sup>* (db_empty a b) d0 \<and> commit_add d0 u True = Inr d1 \<and>
     au_job u = job_new i spec \<and> identifier_ok i \<and> spec_fits spec \<and> live_step\<^sup>*\<^sup>* (d1, job_new i spec) (d, j))"

lemma running_step: "running d j \<Longrightarrow> live_step (d, j) (d', j') \<Longrightarrow> running d' j'"
  unfolding running_def by (meson rtranclp.rtrancl_into_rtrancl)

lemma running_in_step: "running d j \<Longrightarrow> in_step d j"
  unfolding running_def using repo_steps_inv [OF _ repo_inv_empty] in_step_new live_steps_in_step by fastforce

lemma flushed_batch:
  assumes "job_prepare_sync j = Inr (j1, t)" "job_acknowledge_sync j1 t = Inr (j2, b)"
  shows "job_durable j1 = job_durable j \<and> job_durable j2 = job_durable j \<and> j_id j2 = j_id j \<and>
    j_generation j2 = j_generation j \<and> (\<forall>es. extent_ranges es = cb_ranges b \<longrightarrow> backed es b)"
proof -
  obtain m m1 where m: "map_mut j = Inr m" "prepare_sync m = Inr (m1, t)" and j1: "j1 = put_map j m1"
    using assms(1) by (auto simp: job_prepare_sync_def res_simps split: prod.splits)
  obtain m2 where m2: "acknowledge_sync m1 t = Inr (m2, b)" and j2: "j2 = put_map j m2"
    using assms(2) j1 by (auto simp: job_acknowledge_sync_def res_simps put_map_def map_mut_Inr split: prod.splits)
  have "cb_ranges b = st_ranges t" "cb_selection b = st_selection t" using m2 by (rule acknowledge_sync_Inr, simp)+
  moreover have "durable_set m1 = durable_set m" "durable_set m2 = durable_set m"
    using prepare_sync_durable [OF m(2)] acknowledge_sync_durable [OF m2] by simp_all
  ultimately show ?thesis
    using prepare_sync_Inr(5) [OF m(2)] m(1) j1 j2
    by (auto simp: put_map_def map_mut_Inr job_durable_def backed_def select_entry_def)
qed

lemma backed_more: "backed es b \<Longrightarrow> set es \<subseteq> set fs \<Longrightarrow> backed fs b"
  by (fastforce simp: backed_def extent_ranges_def)

lemma checkpoint_running:
  assumes "running d j" "segment_op j j1" "segment_op j1 j2" "job_durable j1 = job_durable j"
    "job_durable j2 = job_durable j1" "durable d (j_id j2) (j_generation j2) incoming True = Inr d'"
    "extents_typed incoming" "job_acknowledge_commit j2 b = Inr j3" "current_extents d' (j_id j2) = Inr es"
    "backed es b"
  shows "running d' j3"
proof -
  have "running d j1" using assms by (blast intro: running_step lv_segment)
  then have "running d j2" using assms by (blast intro: running_step lv_segment)
  then have "running d' j2" using assms by (blast intro: running_step lv_extents)
  then show ?thesis using assms by (blast intro: running_step lv_commit)
qed

section \<open>A sample database\<close>

definition sample_key :: receipt_key where
  "sample_key = \<lparr>rk_principal = 1, rk_digest = replicate 32 CHR ''k''\<rparr>"

definition sample_unit :: add_unit where
  "sample_unit = \<lparr>au_job = job_new 1 sample_spec, au_receipt = receipt_new sample_key sample_spec 1\<rparr>"

definition plain_job :: "JobState \<Rightarrow> u64 \<Rightarrow> segment_map option \<Rightarrow> job" where
  "plain_job s v m = (sample_job s None v m)\<lparr>j_validator := None\<rparr>"

definition sample_db :: "JobState \<Rightarrow> u64 \<Rightarrow> segment_map option \<Rightarrow> db" where
  "sample_db s v m =
     \<lparr>db_last_id = 1, db_jobs = [(1, \<lparr>jw_spec = encode_spec sample_spec, jw_version = int v\<rparr>)],
      db_receipts = [(key_columns sample_key, \<lparr>rw_job_id = 1, rw_spec = encode_spec sample_spec, rw_removed = 0\<rparr>)],
      db_state = (if v = 0 then Map.empty else [1 \<mapsto> row_of (plain_job s v m)]),
      db_extents = (\<lambda>_ _. []), db_intents = Map.empty, db_limit_jobs = 4, db_limit_receipts = 4\<rparr>"

lemmas sample_db_defs = sample_db_def sample_unit_def sample_key_def plain_job_def sample_job_def
  job_new_def receipt_new_def generation_initial_def

lemma sample_fits: "spec_fits sample_spec" "identifier_ok 1"
  using sample_spec_ok by (simp_all add: spec_fits_def sample_spec_def identifier_ok_def width_simps digest_ok_def)

lemma sample_admitted:
  "reserve_id (db_empty 4 4) True = Inr ((db_empty 4 4)\<lparr>db_last_id := 1\<rparr>, 1)"
  "commit_add ((db_empty 4 4)\<lparr>db_last_id := 1\<rparr>) sample_unit True = Inr (sample_db Queued 0 None)"
  by (simp_all add: reserve_id_def commit_add_def sample_db_defs db_empty_def identifier_new_def width_simps Let_def
      signed_id_def)

lemma sample_events:
  "execute (job_new 1 sample_spec) CStart = Inr (True, plain_job Probing 0 None)"
  "execute (plain_job Probing 1 None) (CProbeSucceeded 10 4 None)
     = Inr (True, plain_job Transferring 1 (Some (map10 Pending 1 1 None)))"
  using sample_run(1)
  by (simp_all add: execute_def arm_defs sample_db_defs sample_spec_def width_simps)

definition sample_start :: job_event where
  "sample_start = event_of (job_new 1 sample_spec) CStart (plain_job Probing 0 None)"

definition sample_probed :: job_event where
  "sample_probed = event_of (plain_job Probing 1 None) (CProbeSucceeded 10 4 None)
     (plain_job Transferring 1 (Some (map10 Pending 1 1 None)))"

lemmas sample_eval =
  transition_def sample_start_def sample_probed_def event_of_def sample_db_defs signed_id_def current_def
  store_outcome_def next_plan_def next_validator_def Let_def drop_obsolete_def extents_def outcome_row_def
  projection_def row_of_def state_row_ok_def set_version_def put_state_def checked_add_def zip_plan_def
  plan_cols_def job_plan_def width_simps state_of_def nth_code_def STATES_def map10_def stop_kind_of_def
  stop_value_of_def durable_bytes_def loaded_def stored_def

lemma sample_transitions:
  "transition (sample_db Queued 0 None) sample_start True = Inr (sample_db Probing 1 None)"
  "transition (sample_db Probing 1 None) sample_probed True
     = Inr (sample_db Transferring 2 (Some (map10 Pending 1 1 None)))"
  by (simp_all add: sample_eval)

lemma sample_applies:
  "job_apply (job_new 1 sample_spec) sample_start = Inr (plain_job Probing 1 None)"
  "job_apply (plain_job Probing 1 None) sample_probed = Inr (plain_job Transferring 2 (Some (map10 Pending 1 1 None)))"
  unfolding sample_start_def sample_probed_def
  using sample_events [THEN event_of_applies]
  by (simp_all add: sample_db_defs width_simps)

lemma sample_job_fits: "job_fits (plain_job s v m)" if "v \<le> I64_MAX"
  using that sample_fits by (simp add: job_fits_def plain_job_def sample_job_def digest_ok_def width_simps)

abbreviation written10 :: "checkpoint option \<Rightarrow> u64 \<Rightarrow> job" where
  "written10 c q \<equiv> plain_job Transferring 2 (Some (map10 (Written 1) 2 q c))"

lemma sample_map_mut: "j_state (plain_job s v mm) = s"
  "map_mut (plain_job Transferring v (Some m)) = Inr m"
  "put_map (plain_job Transferring v (Some m)) m' = plain_job Transferring v (Some m')"
  "job_durable (plain_job s v (Some (map10 st a q c))) = (if st = Durable then {0..<10} else {})"
  by (simp_all add: plain_job_def sample_job_def map_mut_def put_map_def job_durable_def durable_set_def map10_def
      bytes_of_def)

lemma sample_ops:
  "job_lease_segment (plain_job Transferring 2 (Some (map10 Pending 1 1 None))) 1 7
     = Inr (plain_job Transferring 2 (Some (map10 (InFlight 7 1) 2 1 None)), lease10)"
  "job_mark_written (plain_job Transferring 2 (Some (map10 (InFlight 7 1) 2 1 None))) lease10 = Inr (written10 None 1)"
  "job_prepare_sync (written10 None 1) = Inr (written10 (Some (cp10 False)) 2, ticket10)"
  "job_acknowledge_sync (written10 (Some (cp10 False)) 2) ticket10 = Inr (written10 (Some (cp10 True)) 2, batch10)"
  by (simp_all del: One_nat_def add: job_op_defs sample_map_mut sample_run)

lemma sample_running:
  "running (sample_db Queued 0 None) (job_new 1 sample_spec)"
  "running (sample_db Probing 1 None) (plain_job Probing 1 None)"
  "running (sample_db Transferring 2 (Some (map10 Pending 1 1 None))) (plain_job Transferring 2 (Some (map10 Pending 1 1 None)))"
  "running (sample_db Transferring 2 (Some (map10 Pending 1 1 None))) (plain_job Transferring 2 (Some (map10 (Written 1) 2 1 None)))"
proof -
  show 0: "running (sample_db Queued 0 None) (job_new 1 sample_spec)"
    unfolding running_def
    using rp_reserve [OF sample_admitted(1)] sample_admitted(2) sample_fits
    by (intro exI [of _ 4] exI [of _ "(db_empty 4 4)\<lparr>db_last_id := 1\<rparr>"] exI [of _ sample_unit]
        exI [of _ "sample_db Queued 0 None"] exI [of _ 1] exI [of _ sample_spec])
      (auto simp: sample_unit_def)
  show 1: "running (sample_db Probing 1 None) (plain_job Probing 1 None)"
    by (rule running_step [OF 0 lv_transition [OF sample_applies(1) _ sample_transitions(1)]])
      (simp add: sample_job_fits width_simps)
  show 2: "running (sample_db Transferring 2 (Some (map10 Pending 1 1 None))) (plain_job Transferring 2 (Some (map10 Pending 1 1 None)))"
    by (rule running_step [OF 1 lv_transition [OF sample_applies(2) _ sample_transitions(2)]])
      (simp add: sample_job_fits width_simps)
  let ?d = "sample_db Transferring 2 (Some (map10 Pending 1 1 None))"
  have "running ?d (plain_job Transferring 2 (Some (map10 (InFlight 7 1) 2 1 None)))"
    by (rule running_step [OF 2 lv_segment [OF so_lease [OF sample_ops(1)]]]) (simp add: sample_map_mut)
  then show "running ?d (written10 None 1)"
    by (rule running_step [OF _ lv_segment [OF so_written [OF sample_ops(2)]]]) (simp add: sample_map_mut)
qed

section \<open>Properties\<close>

text \<open>
  The repository never stores a state it could not load again: whatever sequence of
  reservations, admissions, transitions, extent commits, publish intents and removals of any jobs
  is committed, starting from an empty database, loading the jobs succeeds and yields one valid,
  settled aggregate for every stored row.
\<close>

theorem repository_always_loads:
  assumes "repo_step\<^sup>*\<^sup>* (db_empty a b) d"
  shows "\<exists>js. load_jobs d = Inr js \<and> length js = length (db_jobs d) \<and> (\<forall>j \<in> set js. job_inv j \<and> settled j)"
proof -
  have inv: "repo_inv d" using assms repo_inv_empty by (rule repo_steps_inv)
  then obtain js where js: "load_jobs d = Inr js" "length js = length (db_jobs d)" using load_jobs_ok by blast
  have "job_inv j \<and> settled j" if mem: "j \<in> set js" for j
  proof -
    have "map (load_job d) (sort_key fst (db_jobs d)) = map Inr js"
      using js(1) by (simp add: load_jobs_def collect_res_eq_Inr)
    then have "Inr j \<in> set (map (load_job d) (sort_key fst (db_jobs d)))" using mem by simp
    then obtain p where p: "p \<in> set (db_jobs d)" "load_job d p = Inr j" by force
    obtain i row where ir: "p = (i, row)" by fastforce
    then obtain k es where k: "int (j_id k) = i" "job_inv k" "repo_holds d k es"
      using inv p(1) unfolding repo_inv_def by blast
    have "map_of (db_jobs d) (int (j_id k)) = Some row" using inv p(1) ir k(1) by (simp add: repo_inv_def)
    then show ?thesis using load_job_holds [OF k(3,2)] k(1) p(2) ir by (metis sum.inject(2))
  qed
  then show ?thesis using js by blast
qed

theorem repository_always_loads_witness:
  "repo_step\<^sup>*\<^sup>* (db_empty 4 4) (sample_db Queued 0 None) \<and>
   (\<exists>js. load_jobs (sample_db Queued 0 None) = Inr js \<and> length js = 1)"
proof -
  have "repo_step (db_empty 4 4) ((db_empty 4 4)\<lparr>db_last_id := 1\<rparr>)"
    using sample_admitted(1) by (rule rp_reserve)
  moreover have "repo_step ((db_empty 4 4)\<lparr>db_last_id := 1\<rparr>) (sample_db Queued 0 None)"
    using sample_admitted(2) _ sample_fits(2,1) by (rule rp_add) (simp add: sample_unit_def)
  ultimately have run: "repo_step\<^sup>*\<^sup>* (db_empty 4 4) (sample_db Queued 0 None)" by auto
  show ?thesis using repository_always_loads [OF run] run by (auto simp: sample_db_def)
qed

text \<open>
  C7. Crash recovery. Take a job admitted to a reachable database and run it with that database in
  the order the coordinator keeps: events are committed before they are applied, extents are
  committed before a checkpoint is acknowledged, other jobs commit whatever they like, and the
  process may restart. At every moment loading the job succeeds and gives the projection, version
  and plan the aggregate has, with no lease or unsynced byte; its durable bytes include every byte
  the aggregate counted as durable.
\<close>

theorem crash_recovery:
  assumes "running d j"
  shows "\<exists>row j'. map_of (db_jobs d) (int (j_id j)) = Some row \<and> load_job d (int (j_id j), row) = Inr j' \<and>
    j_version j' = j_version j \<and> j_spec j' = j_spec j \<and> job_plan j' = job_plan j \<and> settled j' \<and>
    job_durable j \<subseteq> job_durable j' \<and>
    projection j' = (projection j)\<lparr>jp_durable_bytes := card (job_durable j')\<rparr>"
proof -
  have step: "in_step d j" using assms by (rule running_in_step)
  then obtain row where row: "map_of (db_jobs d) (int (j_id j)) = Some row"
    by (auto simp: in_step_def repo_holds_def)
  show ?thesis by (rule load_in_step [OF step row]) (use row in auto)
qed

theorem crash_recovery_witness:
  "running (sample_db Transferring 2 (Some (map10 Pending 1 1 None))) (written10 None 1) \<and>
   (\<exists>row j'. map_of (db_jobs (sample_db Transferring 2 (Some (map10 Pending 1 1 None)))) 1 = Some row \<and>
      load_job (sample_db Transferring 2 (Some (map10 Pending 1 1 None))) (1, row) = Inr j' \<and>
      j_version j' = 2 \<and> job_plan j' = Some (10, 4))"
  using crash_recovery [OF sample_running(4)] sample_running(4)
  by (auto simp: plain_job_def sample_job_def job_plan_def map10_def)



text \<open>
  A checkpoint goes through. When the stored extents are what the job counts as durable and it
  prepares a checkpoint and acknowledges the flush, the repository accepts one extent per flushed
  range, with its digest, within the segment bound; committing the same extents again changes
  nothing; the acknowledgement that follows succeeds, adds exactly the flushed bytes, and what a
  restart then loads has exactly those durable bytes.
\<close>

theorem checkpoint_is_committed:
  assumes run: "running d j" and ext: "current_extents d (j_id j) = Inr es" "extents_bytes es = job_durable j"
    and sync: "job_prepare_sync j = Inr (j1, t)" "job_acknowledge_sync j1 t = Inr (j2, b)"
    and inc: "extent_ranges incoming = cb_ranges b" "\<forall>e \<in> set incoming. length (de_digest e) = 32"
  shows "\<exists>d' j3 row j'. durable d (j_id j) (j_generation j) incoming True = Inr d' \<and>
    durable d' (j_id j) (j_generation j) incoming True = Inr d' \<and>
    job_acknowledge_commit j2 b = Inr j3 \<and> running d' j3 \<and>
    job_durable j3 = job_durable j \<union> ranges_bytes (cb_ranges b) \<and>
    map_of (db_jobs d') (int (j_id j)) = Some row \<and> load_job d' (int (j_id j), row) = Inr j' \<and>
    job_durable j' = job_durable j3"
proof -
  have step: "in_step d j" using run by (rule running_in_step)
  then obtain xs where inv: "job_inv j" and holds: "repo_holds d j xs" by (auto simp: in_step_def)
  have xs: "extents_bytes xs = job_durable j"
    using current_extents_holds [OF holds inv] ext by simp
  obtain d' j3 where d': "durable d (j_id j) (j_generation j) incoming True = Inr d'"
    and j3: "job_acknowledge_commit j2 b = Inr j3" and holds3: "repo_holds d' j3 (xs @ incoming)"
    and same: "extents_bytes (xs @ incoming) = job_durable j3"
    "job_durable j3 = job_durable j \<union> ranges_bytes (cb_ranges b)"
    using checkpoint_stored [OF holds inv xs sync inc] by blast
  have ops: "segment_op j j1" "segment_op j1 j2" "segment_op j2 j3"
    using sync j3 by (blast intro: segment_op.intros)+
  have inv3: "job_inv j3" using ops inv by (blast intro: segment_op_inv)
  have id: "j_id j3 = j_id j" "j_generation j3 = j_generation j"
    using ops by (auto elim!: segment_op_step simp: put_map_def)
  obtain m where m: "map_mut j3 = Inr m"
    using ops by (auto elim!: segment_op_step simp: put_map_def map_mut_Inr)
  have typed: "extents_typed incoming" using holds3 inv3 m inc(2)
    by (auto simp: extents_typed_def repo_holds_def extents_hold_def extent_fits_def job_plan_def map_mut_Inr)
  have "durable d' (j_id j3) (j_generation j3) incoming True = Inr d'"
    using durable_again [OF holds3 inv3 m typed] by simp
  moreover have "running d' j3"
    using run d' current_extents_holds [OF holds3 inv3] id ops j3
      flushed_batch [OF sync] backed_more [of incoming b "by_start (xs @ incoming)"] inc(1) typed
    by (intro checkpoint_running [of d j j1 j2 incoming d' b j3 "by_start (xs @ incoming)"]) auto
  moreover obtain row where row: "map_of (db_jobs d') (int (j_id j3)) = Some row"
    using holds3 by (auto simp: repo_holds_def)
  moreover obtain j' where "load_job d' (int (j_id j3), row) = Inr j'" "job_durable j' = extents_bytes (xs @ incoming)"
    using load_job_holds [OF holds3 inv3 row] by blast
  ultimately show ?thesis using d' j3 same id by auto
qed

theorem checkpoint_is_committed_witness:
  "\<exists>d' j3. durable (sample_db Transferring 2 (Some (map10 Pending 1 1 None))) 1 1
     [\<lparr>de_range = \<lparr>br_start = 0, br_end = 10\<rparr>, de_digest = replicate 32 CHR ''x''\<rparr>] True = Inr d' \<and>
   job_acknowledge_commit (written10 (Some (cp10 True)) 2) batch10 = Inr j3 \<and> running d' j3 \<and>
   job_durable j3 = {0..<10}"
proof -
  let ?d = "sample_db Transferring 2 (Some (map10 Pending 1 1 None))"
  let ?e = "[\<lparr>de_range = \<lparr>br_start = 0, br_end = 10\<rparr>, de_digest = replicate 32 CHR ''x''\<rparr>]"
  have ext: "current_extents ?d (j_id (written10 None 1)) = Inr []" "extents_bytes [] = job_durable (written10 None 1)"
    by (simp_all add: current_extents_def sample_db_defs signed_id_def width_simps extents_def sample_map_mut
        extents_bytes_set job_durable_def durable_set_def map10_def)
  have b: "extent_ranges ?e = cb_ranges batch10" "\<forall>e \<in> set ?e. length (de_digest e) = 32"
    by (simp_all add: extent_ranges_def batch10_def)
  have id: "j_id (written10 None 1) = 1" "j_generation (written10 None 1) = 1"
    by (simp_all add: plain_job_def sample_job_def)
  show ?thesis
    using checkpoint_is_committed [OF sample_running(4) ext sample_ops(3,4) b]
    unfolding id by (auto simp: sample_map_mut batch10_def bytes_of_def)
qed

end
