(* ===== verification/Admission.thy ===== *)
theory Admission
  imports Repository_Props
begin

text \<open>
  Admission of a download (\<open>AddDownload\<close> of \<open>crates/application/src/lib.rs\<close>) over the
  \<open>JobRepository\<close> port, and the SQLite adapter's implementation of that port. The operation
  awaits the repository several times, so it is a sequence of phases between which other callers
  and transactions may run; the locale \<open>admission_store\<close> states what it needs of the port.
\<close>

section \<open>The port\<close>

text \<open>The trait object: every call also takes whether the storage engine works this time, and
  committing takes whether the answer of a successful commit arrives.\<close>

record 's job_repository =
  port_receipt :: "'s \<Rightarrow> receipt_key \<Rightarrow> bool \<Rightarrow> (AppError, receipt option) result"
  port_reserve_id :: "'s \<Rightarrow> bool \<Rightarrow> 's \<times> (AppError, JobId) result"
  port_commit_add :: "'s \<Rightarrow> add_unit \<Rightarrow> bool \<Rightarrow> bool \<Rightarrow> 's \<times> (CommitError, unit) result"

definition sqlite_receipt :: "db \<Rightarrow> receipt_key \<Rightarrow> bool \<Rightarrow> (AppError, receipt option) result" where
  "sqlite_receipt d k io = (if io then map_err app_error (load_receipt d k) else Inl APersistenceUnavailable)"

definition sqlite_reserve_id :: "db \<Rightarrow> bool \<Rightarrow> db \<times> (AppError, JobId) result" where
  "sqlite_reserve_id d io =
     (case reserve_id d io of Inl e \<Rightarrow> (d, Inl (app_error e)) | Inr (d', i) \<Rightarrow> (d', Inr i))"

definition sqlite_commit_add :: "db \<Rightarrow> add_unit \<Rightarrow> bool \<Rightarrow> bool \<Rightarrow> db \<times> (CommitError, unit) result" where
  "sqlite_commit_add d u io acked =
     (case commit_add d u io of
        Inl e \<Rightarrow> (d, Inl (commit_error e))
      | Inr d' \<Rightarrow> (d', if acked then Inr () else Inl CommitUnavailable))"

definition sqlite_jobs :: "db job_repository" where
  "sqlite_jobs = \<lparr>port_receipt = sqlite_receipt, port_reserve_id = sqlite_reserve_id,
                  port_commit_add = sqlite_commit_add\<rparr>"

section \<open>Adding a download\<close>

type_synonym gate = "Principal \<Rightarrow> job_spec \<Rightarrow> (AppError, unit) result"

datatype add_phase =
    AddAuthorize | AddLookup | AddEntitle | AddReserve | AddCommit JobId | AddReconcile
  | AddDone "(AppError, JobId) result"

definition add_unit_new :: "receipt_key \<Rightarrow> job_spec \<Rightarrow> JobId \<Rightarrow> add_unit" where
  "add_unit_new k spec i = \<lparr>au_job = job_new i spec, au_receipt = receipt_new k spec i\<rparr>"

fun add_advance ::
  "'s job_repository \<Rightarrow> gate \<Rightarrow> gate \<Rightarrow> receipt_key \<Rightarrow> job_spec \<Rightarrow> bool \<Rightarrow> bool \<Rightarrow> 's \<times> add_phase \<Rightarrow> 's \<times> add_phase"
where
  "add_advance repo authorizer entitlement k spec io acked (s, AddAuthorize) =
     (s, case authorizer (rk_principal k) spec of Inl e \<Rightarrow> AddDone (Inl e) | Inr _ \<Rightarrow> AddLookup)"
| "add_advance repo authorizer entitlement k spec io acked (s, AddLookup) =
     (s, case port_receipt repo s k io of
           Inl e \<Rightarrow> AddDone (Inl e)
         | Inr (Some r) \<Rightarrow> AddDone (replay r k spec)
         | Inr None \<Rightarrow> AddEntitle)"
| "add_advance repo authorizer entitlement k spec io acked (s, AddEntitle) =
     (s, case entitlement (rk_principal k) spec of Inl e \<Rightarrow> AddDone (Inl e) | Inr _ \<Rightarrow> AddReserve)"
| "add_advance repo authorizer entitlement k spec io acked (s, AddReserve) =
     (let (s', r) = port_reserve_id repo s io in
      (s', case r of Inl e \<Rightarrow> AddDone (Inl e) | Inr i \<Rightarrow> AddCommit i))"
| "add_advance repo authorizer entitlement k spec io acked (s, AddCommit i) =
     (let (s', r) = port_commit_add repo s (add_unit_new k spec i) io acked in
      (s', case r of
             Inr _ \<Rightarrow> AddDone (Inr i)
           | Inl CommitConflict \<Rightarrow> AddReconcile
           | Inl CommitUnavailable \<Rightarrow> AddDone (Inl APersistenceUnavailable)
           | Inl CommitCapacity \<Rightarrow> AddDone (Inl ACapacity)))"
| "add_advance repo authorizer entitlement k spec io acked (s, AddReconcile) =
     (s, AddDone (res_bind (port_receipt repo s k io) (\<lambda>found.
           res_bind (ok_or found ACorruptRepository) (\<lambda>r. replay r k spec))))"
| "add_advance repo authorizer entitlement k spec io acked (s, AddDone r) = (s, AddDone r)"

text \<open>A call nobody interferes with; the longest path has six phases.\<close>

definition add_execute ::
  "'s job_repository \<Rightarrow> gate \<Rightarrow> gate \<Rightarrow> receipt_key \<Rightarrow> job_spec \<Rightarrow> bool \<Rightarrow> bool \<Rightarrow> 's \<Rightarrow> 's \<times> add_phase"
where
  "add_execute repo authorizer entitlement k spec io acked s =
     (add_advance repo authorizer entitlement k spec io acked ^^ 6) (s, AddAuthorize)"

lemma add_advance_done [simp]:
  "(add_advance repo a e k spec io acked ^^ n) (s, AddDone r) = (s, AddDone r)"
  by (induction n) simp_all

text \<open>Any number of callers, each at its own phase, and any other transactions.\<close>

type_synonym 's admission_world = "'s \<times> (nat \<rightharpoonup> receipt_key \<times> job_spec \<times> add_phase)"

definition key_ok :: "receipt_key \<Rightarrow> bool" where
  "key_ok k \<longleftrightarrow> identifier_ok (rk_principal k) \<and> length (rk_digest k) = 32"

inductive admission_step ::
  "'s job_repository \<Rightarrow> ('s \<Rightarrow> 's \<Rightarrow> bool) \<Rightarrow> 's admission_world \<Rightarrow> 's admission_world \<Rightarrow> bool"
  for repo :: "'s job_repository" and other :: "'s \<Rightarrow> 's \<Rightarrow> bool"
where
  ad_call: "calls c = None \<Longrightarrow> key_ok k \<Longrightarrow> spec_fits spec \<Longrightarrow>
    admission_step repo other (s, calls) (s, calls(c \<mapsto> (k, spec, AddAuthorize)))"
| ad_advance: "calls c = Some (k, spec, ph) \<Longrightarrow>
    add_advance repo authorizer entitlement k spec io acked (s, ph) = (s', ph') \<Longrightarrow>
    admission_step repo other (s, calls) (s', calls(c \<mapsto> (k, spec, ph')))"
| ad_other: "other s s' \<Longrightarrow> admission_step repo other (s, calls) (s', calls)"

section \<open>What admission needs of a repository\<close>

locale admission_store =
  fixes repo :: "'s job_repository"
    and other :: "'s \<Rightarrow> 's \<Rightarrow> bool"
    and inv :: "'s \<Rightarrow> bool"
    and view :: "'s \<Rightarrow> receipt_key \<Rightarrow> (job_spec \<times> JobId) option"
  assumes receipt_is_view: "inv s \<Longrightarrow> key_ok k \<Longrightarrow> port_receipt repo s k io = Inr found \<Longrightarrow>
      map_option (\<lambda>r. (rc_original r, rc_job r)) found = view s k"
    and reserve_keeps: "inv s \<Longrightarrow> port_reserve_id repo s io = (s', r) \<Longrightarrow>
      inv s' \<and> view s' = view s \<and> (\<forall>i. r = Inr i \<longrightarrow> identifier_ok i)"
    and commit_inserts: "inv s \<Longrightarrow> key_ok k \<Longrightarrow> spec_fits spec \<Longrightarrow> identifier_ok i \<Longrightarrow>
      port_commit_add repo s (add_unit_new k spec i) io acked = (s', answer) \<Longrightarrow>
      inv s' \<and> (answer = Inr () \<longrightarrow> view s' = (view s)(k \<mapsto> (spec, i))) \<and>
      (view s' = view s \<or> view s k = None \<and> view s' = (view s)(k \<mapsto> (spec, i)))"
    and other_keeps: "inv s \<Longrightarrow> other s s' \<Longrightarrow> inv s' \<and> view s \<subseteq>\<^sub>m view s'"
    and ids_unique: "inv s \<Longrightarrow> view s k = Some (spec, i) \<Longrightarrow> view s k' = Some (spec', i) \<Longrightarrow> k = k'"
begin

definition world_ok :: "'s admission_world \<Rightarrow> bool" where
  "world_ok w \<longleftrightarrow> inv (fst w) \<and> (\<forall>c k spec ph. snd w c = Some (k, spec, ph) \<longrightarrow>
     key_ok k \<and> spec_fits spec \<and>
     (\<forall>i. ph = AddCommit i \<longrightarrow> identifier_ok i) \<and>
     (\<forall>i. ph = AddDone (Inr i) \<longrightarrow> view (fst w) k = Some (spec, i)))"

lemma replay_view:
  assumes "inv s" "key_ok k" "port_receipt repo s k io = Inr (Some r)" "replay r k spec = Inr i"
  shows "view s k = Some (spec, i)"
  using receipt_is_view [OF assms(1-3)] assms(4) by (auto simp: replay_def split: if_splits)

lemma advance_ok:
  assumes "inv s" "key_ok k" "spec_fits spec" "\<And>i. ph = AddCommit i \<Longrightarrow> identifier_ok i"
    and "\<And>i. ph = AddDone (Inr i) \<Longrightarrow> view s k = Some (spec, i)"
    and run: "add_advance repo a e k spec io acked (s, ph) = (s', ph')"
  shows "inv s' \<and> view s \<subseteq>\<^sub>m view s' \<and> (\<forall>i. ph' = AddCommit i \<longrightarrow> identifier_ok i) \<and>
    (\<forall>i. ph' = AddDone (Inr i) \<longrightarrow> view s' k = Some (spec, i))"
proof (cases ph)
  case AddLookup
  then show ?thesis
    using run assms(1) replay_view [OF assms(1,2)] by (auto split: sum.splits option.splits)
next
  case AddReserve
  then show ?thesis
    using run reserve_keeps [OF assms(1)] by (auto split: sum.splits prod.splits)
next
  case (AddCommit i)
  obtain s1 r where c: "port_commit_add repo s (add_unit_new k spec i) io acked = (s1, r)" by fastforce
  have s1: "s1 = s'" using run AddCommit c by simp
  have "inv s' \<and> (r = Inr () \<longrightarrow> view s' = (view s)(k \<mapsto> (spec, i))) \<and>
      (view s' = view s \<or> view s k = None \<and> view s' = (view s)(k \<mapsto> (spec, i)))"
    using commit_inserts [OF assms(1-3) assms(4) [OF AddCommit] c] s1 by simp
  moreover have "ph' = AddDone (Inr j) \<longrightarrow> r = Inr () \<and> j = i" "ph' \<noteq> AddCommit j" for j
    using run AddCommit c by (auto split: sum.splits CommitError.splits)
  ultimately show ?thesis by (auto simp: map_le_def)
next
  case AddReconcile
  then show ?thesis
    using run assms(1) replay_view [OF assms(1,2)] by (auto simp: res_simps)
next
  case (AddDone x)
  then show ?thesis using run assms(1,5) by auto
qed (use run assms(1) in \<open>auto split: sum.splits\<close>)

lemma step_ok:
  assumes "admission_step repo other w w'" "world_ok w"
  shows "world_ok w'"
  using assms
proof (induction rule: admission_step.induct)
  case (ad_call calls c k spec s)
  then show ?case by (auto simp: world_ok_def split: if_splits)
next
  case (ad_advance calls c k spec ph a e io acked s s' ph')
  have "inv s' \<and> view s \<subseteq>\<^sub>m view s' \<and> (\<forall>i. ph' = AddCommit i \<longrightarrow> identifier_ok i) \<and>
      (\<forall>i. ph' = AddDone (Inr i) \<longrightarrow> view s' k = Some (spec, i))"
    using ad_advance by (intro advance_ok [where ph = ph]) (auto simp: world_ok_def)
  then show ?case
    using ad_advance.prems ad_advance.hyps(1) by (auto simp: world_ok_def map_le_def dom_def split: if_splits)
next
  case (ad_other s s' calls)
  then show ?case
    using other_keeps [of s s'] by (auto simp: world_ok_def map_le_def dom_def)
qed

lemma steps_ok: "(admission_step repo other)\<^sup>*\<^sup>* w w' \<Longrightarrow> world_ok w \<Longrightarrow> world_ok w'"
  by (induction rule: rtranclp_induct) (auto dest: step_ok)

lemma one_job_per_command:
  assumes "(admission_step repo other)\<^sup>*\<^sup>* (s, Map.empty) (s', calls)" "inv s"
    and "calls c = Some (k, spec, AddDone (Inr i))" "calls c' = Some (k', spec', AddDone (Inr i'))"
  shows "view s' k = Some (spec, i) \<and> (i = i' \<longleftrightarrow> k = k') \<and> (k = k' \<longrightarrow> spec = spec')"
proof -
  have "world_ok (s, Map.empty)" using assms(2) by (simp add: world_ok_def)
  then have ok: "world_ok (s', calls)" using assms(1) steps_ok by blast
  have v: "view s' k = Some (spec, i)" "view s' k' = Some (spec', i')" "inv s'"
    using ok assms(3,4) by (simp_all add: world_ok_def)
  have "k = k'" if "i = i'" using ids_unique [OF v(3,1)] v(2) that by blast
  then show ?thesis using v by auto
qed

end


section \<open>The database as an admission store\<close>

text \<open>What the adapter checks of the admission tables when it opens a database.\<close>

definition admission_consistent :: "db \<Rightarrow> bool" where
  "admission_consistent d \<longleftrightarrow>
     length (db_jobs d) \<le> db_limit_jobs d \<and> length (db_receipts d) \<le> db_limit_receipts d \<and>
     list_all (\<lambda>(_, r). \<not> (rw_removed r = 0 \<and> map_of (db_jobs d) (rw_job_id r) = None) \<and>
                 \<not> (rw_removed r = 1 \<and> map_of (db_jobs d) (rw_job_id r) \<noteq> None) \<and>
                 \<not> db_last_id d < rw_job_id r) (db_receipts d) \<and>
     list_all (\<lambda>(i, _). i \<in> set (map (\<lambda>(_, r). rw_job_id r) (db_receipts d))) (db_jobs d) \<and>
     0 \<le> db_last_id d"

definition receipt_ids :: "db \<Rightarrow> i64 list" where
  "receipt_ids d = map (\<lambda>(_, r). rw_job_id r) (db_receipts d)"

definition receipt_row_ok :: "db \<Rightarrow> receipt_row \<Rightarrow> bool" where
  "receipt_row_ok d r \<longleftrightarrow>
     (\<exists>spec i. spec_fits spec \<and> identifier_ok i \<and> rw_spec r = encode_spec spec \<and> rw_job_id r = int i) \<and>
     rw_job_id r \<le> db_last_id d \<and> rw_job_id r \<le> int I64_MAX \<and>
     (rw_removed r = 0 \<and> (\<exists>row. map_of (db_jobs d) (rw_job_id r) = Some row \<and> jw_spec row = rw_spec r) \<or>
      rw_removed r = 1 \<and> map_of (db_jobs d) (rw_job_id r) = None)"

definition admission_inv :: "db \<Rightarrow> bool" where
  "admission_inv d \<longleftrightarrow>
     distinct (map fst (db_receipts d)) \<and> distinct (receipt_ids d) \<and>
     (\<forall>(c, r) \<in> set (db_receipts d). receipt_row_ok d r) \<and>
     distinct (map fst (db_jobs d)) \<and> set (map fst (db_jobs d)) \<subseteq> set (receipt_ids d) \<and>
     length (db_jobs d) \<le> db_limit_jobs d \<and> length (db_receipts d) \<le> db_limit_receipts d \<and> 0 \<le> db_last_id d"

lemma admission_inv_empty: "admission_inv (db_empty a b)"
  by (simp add: admission_inv_def db_empty_def receipt_ids_def)

lemma admission_inv_consistent:
  assumes "admission_inv d"
  shows "admission_consistent d"
proof -
  let ?bad = "\<lambda>r. \<not> (rw_removed r = 0 \<and> map_of (db_jobs d) (rw_job_id r) = None) \<and>
      \<not> (rw_removed r = 1 \<and> map_of (db_jobs d) (rw_job_id r) \<noteq> None) \<and> \<not> db_last_id d < rw_job_id r"
  have rows: "receipt_row_ok d r" if "(c, r) \<in> set (db_receipts d)" for c r
    using assms that unfolding admission_inv_def by blast
  have "?bad r" if "(c, r) \<in> set (db_receipts d)" for c r
    using rows [OF that] by (auto simp: receipt_row_ok_def)
  then have "list_all (\<lambda>(_, r). ?bad r) (db_receipts d)" unfolding list_all_iff by blast
  moreover have "list_all (\<lambda>(i, _). i \<in> set (receipt_ids d)) (db_jobs d)"
    using assms by (force simp: admission_inv_def list_all_iff)
  moreover have "length (db_jobs d) \<le> db_limit_jobs d" "length (db_receipts d) \<le> db_limit_receipts d"
    "0 \<le> db_last_id d"
    using assms unfolding admission_inv_def by blast+
  ultimately show ?thesis unfolding admission_consistent_def receipt_ids_def by blast
qed

text \<open>Transactions that keep receipts, job keys and specifications.\<close>

lemma admission_inv_frame:
  assumes "admission_inv d" "db_receipts d' = db_receipts d" "map fst (db_jobs d') = map fst (db_jobs d)"
    and "\<And>i. map_option jw_spec (map_of (db_jobs d') i) = map_option jw_spec (map_of (db_jobs d) i)"
    and "db_last_id d \<le> db_last_id d'" "db_limit_jobs d' = db_limit_jobs d" "db_limit_receipts d' = db_limit_receipts d"
  shows "admission_inv d'"
proof -
  have "receipt_row_ok d' r" if "receipt_row_ok d r" for r
    using that assms(5) assms(4) [of "rw_job_id r"]
    unfolding receipt_row_ok_def
    by (cases "map_of (db_jobs d) (rw_job_id r)"; cases "map_of (db_jobs d') (rw_job_id r)") auto
  moreover have "length (db_jobs d') = length (db_jobs d)" using assms(3) by (metis length_map)
  ultimately show ?thesis
    using assms(1,2,3,5,6,7) unfolding admission_inv_def receipt_ids_def by auto
qed

lemma transition_admission:
  assumes "transition d e io = Inr d'"
  shows "db_receipts d' = db_receipts d \<and> map fst (db_jobs d') = map fst (db_jobs d) \<and>
    (\<forall>i. map_option jw_spec (map_of (db_jobs d') i) = map_option jw_spec (map_of (db_jobs d) i)) \<and>
    db_last_id d' = db_last_id d \<and> db_limit_jobs d' = db_limit_jobs d \<and> db_limit_receipts d' = db_limit_receipts d"
  using assms
proof (rule transition_db)
  fix i row v
  assume "\<exists>replaced. d' = set_version (put_state (drop_obsolete d i replaced (je_command e)) i row) i v"
  then obtain rep where d': "d' = set_version (put_state (drop_obsolete d i rep (je_command e)) i row) i v" by blast
  have lim: "db_limit_jobs (drop_obsolete d i rep c) = db_limit_jobs d"
    "db_limit_receipts (drop_obsolete d i rep c) = db_limit_receipts d" for c
    by (simp_all add: drop_obsolete_def clear_intent_def clear_extents_def Let_def)
  show ?thesis
    using transition_keys [OF assms] lim
    by (auto simp: d' map_of_set_version put_state_def drop_obsolete_db option.map_comp comp_def)
      (simp_all add: set_version_def drop_obsolete_db)
qed


lemma commit_add_Inr:
  assumes "commit_add d u io = Inr d'" "au_job u = job_new i spec"
  obtains "io" "rc_original (au_receipt u) = spec" "rc_job (au_receipt u) = i" "i \<le> I64_MAX" "int i \<le> db_last_id d"
    "map_of (db_receipts d) (key_columns (rc_key (au_receipt u))) = None" "map_of (db_jobs d) (int i) = None"
    "int i \<notin> set (receipt_ids d)" "length (db_jobs d) < db_limit_jobs d" "length (db_receipts d) < db_limit_receipts d"
    "d' = d\<lparr>db_jobs := db_jobs d @ [(int i, \<lparr>jw_spec = encode_spec spec, jw_version = 0\<rparr>)],
            db_receipts := db_receipts d @ [(key_columns (rc_key (au_receipt u)),
              \<lparr>rw_job_id = int i, rw_spec = encode_spec spec, rw_removed = 0\<rparr>)]\<rparr>"
proof -
  have "list_ex (\<lambda>(_, r). rw_job_id r = int i) (db_receipts d) \<longleftrightarrow> int i \<in> set (receipt_ids d)"
    by (force simp: list_ex_iff receipt_ids_def)
  then show ?thesis
    using assms
    by (intro that; simp add: commit_add_def Let_def job_new_def res_simps signed_id_def not_less not_le split: if_splits)
qed

lemma remove_Inr:
  assumes "remove d k v io = Inr d'"
  obtains i row r where "load_receipt d k = Inr (Some r)" "\<not> rc_removed r" "i = int (rc_job r)"
    "map_of (db_jobs d) i = Some row"
    "db_jobs d' = filter (\<lambda>(j, _). j \<noteq> i) (db_jobs d)" "db_last_id d' = db_last_id d"
    "db_receipts d' = map (\<lambda>(c, r). if c = key_columns k then (c, r\<lparr>rw_removed := 1\<rparr>) else (c, r)) (db_receipts d)"
    "db_limit_jobs d' = db_limit_jobs d" "db_limit_receipts d' = db_limit_receipts d"
  using assms
  by (auto simp: remove_def res_simps clear_intent_def clear_extents_def signed_id_def split: if_splits)


lemma receipt_row_ok_more:
  assumes "receipt_row_ok d r" "db_last_id d \<le> db_last_id d'"
    and "map_of (db_jobs d') (rw_job_id r) = map_of (db_jobs d) (rw_job_id r)"
  shows "receipt_row_ok d' r"
  using assms by (auto simp: receipt_row_ok_def)

lemma commit_add_admission:
  assumes run: "commit_add d u io = Inr d'" and u: "au_job u = job_new i spec"
    and ok: "identifier_ok i" "spec_fits spec" and inv: "admission_inv d"
  shows "admission_inv d'"
  using run u
proof (rule commit_add_Inr)
  let ?row = "\<lparr>rw_job_id = int i, rw_spec = encode_spec spec, rw_removed = 0\<rparr>"
  assume i: "i \<le> I64_MAX" "int i \<le> db_last_id d"
    and new: "map_of (db_receipts d) (key_columns (rc_key (au_receipt u))) = None" "map_of (db_jobs d) (int i) = None"
      "int i \<notin> set (receipt_ids d)"
    and room: "length (db_jobs d) < db_limit_jobs d" "length (db_receipts d) < db_limit_receipts d"
    and d': "d' = d\<lparr>db_jobs := db_jobs d @ [(int i, \<lparr>jw_spec = encode_spec spec, jw_version = 0\<rparr>)],
            db_receipts := db_receipts d @ [(key_columns (rc_key (au_receipt u)), ?row)]\<rparr>"
  have map: "map_of (db_jobs d') k = (if k = int i then Some \<lparr>jw_spec = encode_spec spec, jw_version = 0\<rparr>
      else map_of (db_jobs d) k)" for k
    using new(2) by (auto simp: d' map_add_def split: option.splits)
  have ids: "receipt_ids d' = receipt_ids d @ [int i]" by (simp add: d' receipt_ids_def)
  have "receipt_row_ok d' r" if mem: "(c, r) \<in> set (db_receipts d')" for c r
  proof (cases "(c, r) \<in> set (db_receipts d)")
    case True
    then have "rw_job_id r \<noteq> int i" using new(3) by (force simp: receipt_ids_def)
    moreover have "receipt_row_ok d r" using inv True unfolding admission_inv_def by blast
    ultimately show ?thesis using map by (intro receipt_row_ok_more [of d r d']) (simp_all add: d')
  next
    case False
    then have "r = ?row" using mem by (simp add: d')
    then show ?thesis using ok i unfolding receipt_row_ok_def by (auto simp: map) (simp_all add: d')
  qed
  moreover have "distinct (map fst (db_receipts d'))" "distinct (map fst (db_jobs d'))" "distinct (receipt_ids d')"
    using inv new unfolding ids by (auto simp: admission_inv_def d' map_of_eq_None_iff)
  moreover have "set (map fst (db_jobs d')) \<subseteq> set (receipt_ids d')"
    using inv unfolding ids by (auto simp: admission_inv_def d')
  moreover have "length (db_jobs d') \<le> db_limit_jobs d'" "length (db_receipts d') \<le> db_limit_receipts d'"
    "0 \<le> db_last_id d'"
    using inv room by (simp_all add: admission_inv_def d')
  ultimately show ?thesis unfolding admission_inv_def by blast
qed

lemma load_receipt_inv:
  assumes inv: "admission_inv d"
  shows "load_receipt d k = (case map_of (db_receipts d) (key_columns k) of
      None \<Rightarrow> Inr None
    | Some r \<Rightarrow> Inr (Some \<lparr>rc_key = k, rc_original = projr (decode_spec (rw_spec r)), rc_job = nat (rw_job_id r),
                     rc_removed = (rw_removed r = 1)\<rparr>))"
proof (cases "map_of (db_receipts d) (key_columns k)")
  case None
  then show ?thesis by (simp add: load_receipt_def)
next
  case (Some r)
  then have "receipt_row_ok d r" using inv map_of_SomeD unfolding admission_inv_def by fastforce
  then obtain spec i where s: "spec_fits spec" "identifier_ok i" "rw_spec r = encode_spec spec" "rw_job_id r = int i"
    and j: "rw_removed r = 0 \<and> (\<exists>row. map_of (db_jobs d) (int i) = Some row \<and> jw_spec row = encode_spec spec) \<or>
      rw_removed r = 1 \<and> map_of (db_jobs d) (int i) = None"
    unfolding receipt_row_ok_def by auto
  have "identifier_new i = Inr i" using s(2) by (simp add: identifier_ok_def identifier_new_def)
  then show ?thesis
    using Some s j by (auto simp: load_receipt_def Let_def receipt_new_def tombstone_def)
qed

lemma map_of_tombstone:
  "map_of (map (\<lambda>(c, r). if c = k then (c, f r) else (c, r)) xs) c =
     (if c = k then map_option f (map_of xs c) else map_of xs c)"
  by (induction xs) auto

lemma map_of_filter_key:
  "map_of (filter (\<lambda>(j, _). j \<noteq> i) xs) k = (if k = i then None else map_of xs k)"
  by (induction xs) auto

lemma remove_admission:
  assumes run: "remove d k v io = Inr d'" and inv: "admission_inv d"
  shows "admission_inv d'"
  using run
proof (rule remove_Inr)
  fix i :: int and row r
  assume r: "load_receipt d k = Inr (Some r)" "\<not> rc_removed r" "i = int (rc_job r)"
    and d': "db_jobs d' = filter (\<lambda>(j, _). j \<noteq> i) (db_jobs d)" "db_last_id d' = db_last_id d"
      "db_receipts d' = map (\<lambda>(c, r). if c = key_columns k then (c, r\<lparr>rw_removed := 1\<rparr>) else (c, r)) (db_receipts d)"
      "db_limit_jobs d' = db_limit_jobs d" "db_limit_receipts d' = db_limit_receipts d"
  obtain q where q: "map_of (db_receipts d) (key_columns k) = Some q" "i = rw_job_id q"
  proof -
    obtain q where "map_of (db_receipts d) (key_columns k) = Some q" "rc_job r = nat (rw_job_id q)"
      using r(1) unfolding load_receipt_inv [OF inv] by (auto split: option.splits)
    moreover have "receipt_row_ok d q" using inv calculation(1) map_of_SomeD unfolding admission_inv_def by fastforce
    ultimately show ?thesis using that r(3) by (auto simp: receipt_row_ok_def)
  qed
  have ids: "receipt_ids d' = receipt_ids d" and keys: "map fst (db_receipts d') = map fst (db_receipts d)"
    by (auto simp: d' receipt_ids_def)
  have "receipt_row_ok d' x" if mem: "(c, x) \<in> set (db_receipts d')" for c x
  proof (cases "c = key_columns k")
    case True
    have dis: "distinct (map fst (db_receipts d'))" using inv keys by (simp add: admission_inv_def)
    have "x = q\<lparr>rw_removed := 1\<rparr>"
      using map_of_is_SomeI [OF dis mem] q(1) True by (simp add: d' map_of_tombstone)
    moreover have "receipt_row_ok d q" using inv q(1) map_of_SomeD unfolding admission_inv_def by fastforce
    ultimately show ?thesis using q(2) by (auto simp: receipt_row_ok_def d' map_of_filter_key)
  next
    case False
    then have old: "(c, x) \<in> set (db_receipts d)" using mem by (auto simp: d')
    have "rw_job_id x \<noteq> i"
    proof
      assume "rw_job_id x = i"
      moreover have "distinct (map (\<lambda>p. rw_job_id (snd p)) (db_receipts d))"
        using inv by (simp add: admission_inv_def receipt_ids_def case_prod_unfold)
      moreover have "(key_columns k, q) \<in> set (db_receipts d)" using q(1) by (rule map_of_SomeD)
      ultimately have "(c, x) = (key_columns k, q)" using old q(2) unfolding distinct_map inj_on_def by force
      then show False using False by simp
    qed
    moreover have "receipt_row_ok d x" using inv old unfolding admission_inv_def by blast
    ultimately show ?thesis by (intro receipt_row_ok_more [of d x d']) (simp_all add: d' map_of_filter_key)
  qed
  moreover have "distinct (map fst (db_jobs d'))" "set (map fst (db_jobs d')) \<subseteq> set (receipt_ids d')"
    using inv unfolding ids by (auto simp: admission_inv_def d' distinct_map inj_on_def)
  moreover have "length (db_jobs d') \<le> length (db_jobs d)" by (simp add: d')
  ultimately show ?thesis
    using inv keys unfolding admission_inv_def ids by (auto simp: d'(2,4,5)) (metis length_map)
qed


lemma repo_step_admission: "repo_step d d' \<Longrightarrow> admission_inv d \<Longrightarrow> admission_inv d'"
proof (induction rule: repo_step.induct)
  case (rp_reserve d io d' i)
  then have "d' = d\<lparr>db_last_id := db_last_id d + 1\<rparr>"
    by (auto simp: reserve_id_def Let_def res_simps split: if_splits)
  then show ?case using rp_reserve.prems by (intro admission_inv_frame [of d d']) simp_all
next
  case (rp_transition d e io d' j es j')
  then show ?case using transition_admission [of d e io d'] by (intro admission_inv_frame [of d d']) simp_all
next
  case (rp_extents d i g incoming io d')
  then have "\<exists>x. d' = d\<lparr>db_extents := x\<rparr>" by (auto simp: durable_def res_simps split: if_splits)
  then show ?case using rp_extents.prems by (intro admission_inv_frame [of d d']) auto
next
  case (rp_intent d p io d')
  then have "\<exists>x. d' = d\<lparr>db_intents := x\<rparr>" by (auto simp: intend_publish_def res_simps split: if_splits)
  then show ?case using rp_intent.prems by (intro admission_inv_frame [of d d']) auto
qed (auto intro: commit_add_admission remove_admission)

lemma repo_steps_admission: "repo_step\<^sup>*\<^sup>* d d' \<Longrightarrow> admission_inv d \<Longrightarrow> admission_inv d'"
  by (induction rule: rtranclp_induct) (auto dest: repo_step_admission)

definition admission_view :: "db \<Rightarrow> receipt_key \<Rightarrow> (job_spec \<times> JobId) option" where
  "admission_view d k =
     (if key_ok k then map_option (\<lambda>r. (projr (decode_spec (rw_spec r)), nat (rw_job_id r)))
                         (map_of (db_receipts d) (key_columns k))
      else None)"

lemma key_columns_inj: "key_ok k \<Longrightarrow> key_ok k' \<Longrightarrow> key_columns k = key_columns k' \<longleftrightarrow> k = k'"
proof -
  assume ok: "key_ok k" "key_ok k'"
  have "rk_principal k = rk_principal k'" if "le_bytes 8 (rk_principal k) = le_bytes 8 (rk_principal k')"
    using arg_cong [OF that, of u64_of_blob] ok by (simp add: key_ok_def identifier_ok_def)
  then show ?thesis by (auto simp: key_columns_def)
qed

lemma receipts_grow:
  assumes "repo_step d d'"
  shows "db_receipts d' = db_receipts d \<or>
    (\<exists>c r. db_receipts d' = db_receipts d @ [(c, r)] \<and> map_of (db_receipts d) c = None) \<or>
    (\<exists>k. db_receipts d' = map (\<lambda>(c, r). if c = k then (c, r\<lparr>rw_removed := 1\<rparr>) else (c, r)) (db_receipts d))"
  using assms
proof (induction rule: repo_step.induct)
  case (rp_reserve d io d' i)
  then show ?case by (auto simp: reserve_id_def Let_def res_simps split: if_splits)
next
  case (rp_add d u io d' i spec)
  show ?case using rp_add(1,2) by (rule commit_add_Inr) auto
next
  case (rp_transition d e io d' j es j')
  then show ?case using transition_admission [of d e io d'] by simp
next
  case (rp_extents d i g incoming io d')
  then show ?case by (auto simp: durable_def res_simps split: if_splits)
next
  case (rp_intent d p io d')
  then show ?case by (auto simp: intend_publish_def res_simps split: if_splits)
next
  case (rp_remove d k v io d')
  then show ?case by (rule remove_Inr) blast
qed

lemma repo_step_view:
  assumes "repo_step d d'"
  shows "admission_view d \<subseteq>\<^sub>m admission_view d'"
proof -
  have "admission_view d' k = admission_view d k" if v: "admission_view d k \<noteq> None" for k
    using receipts_grow [OF assms]
  proof (elim disjE exE conjE)
    fix c assume "db_receipts d' = map (\<lambda>(c', r). if c' = c then (c', r\<lparr>rw_removed := 1\<rparr>) else (c', r)) (db_receipts d)"
    then show ?thesis by (simp add: admission_view_def map_of_tombstone option.map_comp comp_def)
  next
    fix c r assume "db_receipts d' = db_receipts d @ [(c, r)]"
    then show ?thesis using v by (auto simp: admission_view_def map_add_def split: if_splits option.splits)
  qed (simp add: admission_view_def)
  then show ?thesis by (auto simp: map_le_def dom_def)
qed


lemma admission_rows:
  assumes "admission_inv d" "map_of (db_receipts d) c = Some r"
  shows "receipt_row_ok d r"
  using assms map_of_SomeD unfolding admission_inv_def by fastforce

lemma receipt_id_row:
  assumes inv: "admission_inv d" and "map_of (db_receipts d) c = Some r" "map_of (db_receipts d) c' = Some r'"
    "nat (rw_job_id r) = nat (rw_job_id r')"
  shows "c = c'"
proof -
  have "rw_job_id r = rw_job_id r'"
    using admission_rows [OF inv assms(2)] admission_rows [OF inv assms(3)] assms(4)
    by (auto simp: receipt_row_ok_def)
  moreover have "distinct (map (\<lambda>p. rw_job_id (snd p)) (db_receipts d))"
    using inv by (simp add: admission_inv_def receipt_ids_def case_prod_unfold)
  moreover have "(c, r) \<in> set (db_receipts d)" "(c', r') \<in> set (db_receipts d)" using assms(2,3) by (auto dest: map_of_SomeD)
  ultimately have "(c, r) = (c', r')" unfolding distinct_map inj_on_def by force
  then show ?thesis by simp
qed

lemma commit_view:
  assumes run: "commit_add d (add_unit_new k spec i) io = Inr d'" and k: "key_ok k" and spec: "spec_fits spec"
  shows "admission_view d k = None \<and> admission_view d' = (admission_view d)(k \<mapsto> (spec, i))"
proof -
  have u: "au_job (add_unit_new k spec i) = job_new i spec" "rc_key (au_receipt (add_unit_new k spec i)) = k"
    by (simp_all add: add_unit_new_def receipt_new_def)
  show ?thesis
    using run u(1)
  proof (rule commit_add_Inr)
    assume new: "map_of (db_receipts d) (key_columns (rc_key (au_receipt (add_unit_new k spec i)))) = None"
      and d': "d' = d\<lparr>db_jobs := db_jobs d @ [(int i, \<lparr>jw_spec = encode_spec spec, jw_version = 0\<rparr>)],
            db_receipts := db_receipts d @ [(key_columns (rc_key (au_receipt (add_unit_new k spec i))),
              \<lparr>rw_job_id = int i, rw_spec = encode_spec spec, rw_removed = 0\<rparr>)]\<rparr>"
    have "admission_view d' k' = ((admission_view d)(k \<mapsto> (spec, i))) k'" for k'
      using new k spec key_columns_inj [of k k'] unfolding u(2) d'
      by (auto simp: admission_view_def map_add_def split: option.splits)
    then show ?thesis using new k unfolding u(2) by (auto simp: admission_view_def)
  qed
qed

interpretation sqlite: admission_store sqlite_jobs repo_step admission_inv admission_view
proof
  fix d k io found
  assume "admission_inv d" "key_ok k" "port_receipt sqlite_jobs d k io = Inr found"
  then show "map_option (\<lambda>r. (rc_original r, rc_job r)) found = admission_view d k"
    by (auto simp: sqlite_jobs_def sqlite_receipt_def load_receipt_inv admission_view_def
        split: if_splits option.splits)
next
  fix d io d' r
  assume inv: "admission_inv d" and run: "port_reserve_id sqlite_jobs d io = (d', r)"
  show "admission_inv d' \<and> admission_view d' = admission_view d \<and> (\<forall>i. r = Inr i \<longrightarrow> identifier_ok i)"
  proof (cases "reserve_id d io")
    case (Inl e)
    then show ?thesis using inv run by (auto simp: sqlite_jobs_def sqlite_reserve_id_def)
  next
    case (Inr p)
    obtain i where p: "p = (d', i)" "r = Inr i"
      using Inr run by (auto simp: sqlite_jobs_def sqlite_reserve_id_def split: prod.splits)
    have "admission_inv d'" using repo_step_admission [OF rp_reserve inv] Inr p by simp
    moreover have "db_receipts d' = db_receipts d" "identifier_ok i"
      using Inr p by (auto simp: reserve_id_def Let_def res_simps identifier_new_def identifier_ok_def width_simps split: if_splits)
    ultimately show ?thesis using p by (auto simp: admission_view_def)
  qed
next
  fix d k spec i io acked d' and answer :: "(CommitError, unit) result"
  assume inv: "admission_inv d" and ok: "key_ok k" "spec_fits spec" "identifier_ok i"
    and run: "port_commit_add sqlite_jobs d (add_unit_new k spec i) io acked = (d', answer)"
  show "admission_inv d' \<and> (answer = Inr () \<longrightarrow> admission_view d' = (admission_view d)(k \<mapsto> (spec, i))) \<and>
      (admission_view d' = admission_view d \<or>
       admission_view d k = None \<and> admission_view d' = (admission_view d)(k \<mapsto> (spec, i)))"
  proof (cases "commit_add d (add_unit_new k spec i) io")
    case (Inl e)
    then show ?thesis using inv run by (auto simp: sqlite_jobs_def sqlite_commit_add_def)
  next
    case (Inr x)
    then have x: "commit_add d (add_unit_new k spec i) io = Inr d'"
      using run by (simp add: sqlite_jobs_def sqlite_commit_add_def)
    have "admission_inv d'"
      using commit_add_admission [OF x _ ok(3,2) inv] by (simp add: add_unit_new_def)
    then show ?thesis using commit_view [OF x ok(1,2)] by blast
  qed
next
  fix d d' assume "admission_inv d" "repo_step d d'"
  then show "admission_inv d' \<and> admission_view d \<subseteq>\<^sub>m admission_view d'"
    using repo_step_admission repo_step_view by blast
next
  fix d k spec i k' spec'
  assume inv: "admission_inv d" and v: "admission_view d k = Some (spec, i)" "admission_view d k' = Some (spec', i)"
  obtain r r' where "map_of (db_receipts d) (key_columns k) = Some r" "i = nat (rw_job_id r)"
    "map_of (db_receipts d) (key_columns k') = Some r'" "i = nat (rw_job_id r')" "key_ok k" "key_ok k'"
    using v by (auto simp: admission_view_def split: if_splits)
  then show "k = k'" using receipt_id_row [OF inv] key_columns_inj by metis
qed

text \<open>The outcome of a call nobody interferes with, on a reachable database and working storage.\<close>

definition admitted_db :: "db \<Rightarrow> receipt_key \<Rightarrow> job_spec \<Rightarrow> db" where
  "admitted_db d k spec =
     (let i = db_last_id d + 1 in
      d\<lparr>db_last_id := i,
        db_jobs := db_jobs d @ [(i, \<lparr>jw_spec = encode_spec spec, jw_version = 0\<rparr>)],
        db_receipts := db_receipts d @
          [(key_columns k, \<lparr>rw_job_id = i, rw_spec = encode_spec spec, rw_removed = 0\<rparr>)]\<rparr>)"

definition admission_full :: "db \<Rightarrow> bool" where
  "admission_full d \<longleftrightarrow>
     db_limit_jobs d \<le> length (db_jobs d) \<or> db_limit_receipts d \<le> length (db_receipts d)"

definition add_outcome :: "gate \<Rightarrow> gate \<Rightarrow> receipt_key \<Rightarrow> job_spec \<Rightarrow> db \<Rightarrow> db \<times> (AppError, JobId) result" where
  "add_outcome authorizer entitlement k spec d =
     (case authorizer (rk_principal k) spec of
        Inl e \<Rightarrow> (d, Inl e)
      | Inr _ \<Rightarrow>
          (case map_of (db_receipts d) (key_columns k) of
             Some r \<Rightarrow>
               (d, if decode_spec (rw_spec r) \<noteq> Inr spec then Inl AIdempotencyConflict
                   else if rw_removed r = 1 then Inl APreviouslyRemoved
                   else Inr (nat (rw_job_id r)))
           | None \<Rightarrow>
               (case entitlement (rk_principal k) spec of
                  Inl e \<Rightarrow> (d, Inl e)
                | Inr _ \<Rightarrow>
                    if int I64_MAX \<le> db_last_id d then (d, Inl ACapacity)
                    else if admission_full d then (d\<lparr>db_last_id := db_last_id d + 1\<rparr>, Inl ACapacity)
                    else (admitted_db d k spec, Inr (nat (db_last_id d + 1))))))"

lemma six: "(6::nat) = Suc (Suc (Suc (Suc (Suc (Suc 0)))))"
  by simp

lemma fresh_id:
  assumes "admission_inv d"
  shows "map_of (db_jobs d) (db_last_id d + 1) = None" "db_last_id d + 1 \<notin> set (receipt_ids d)"
proof -
  have "i \<le> db_last_id d" if "i \<in> set (receipt_ids d)" for i
    using assms that by (fastforce simp: admission_inv_def receipt_ids_def receipt_row_ok_def)
  then show "db_last_id d + 1 \<notin> set (receipt_ids d)" by force
  then show "map_of (db_jobs d) (db_last_id d + 1) = None"
    using assms by (auto simp: admission_inv_def map_of_eq_None_iff)
qed

lemma commit_fresh:
  assumes inv: "admission_inv d" and new: "map_of (db_receipts d) (key_columns k) = None"
    and room: "db_last_id d < int I64_MAX"
  shows "sqlite_commit_add (d\<lparr>db_last_id := db_last_id d + 1\<rparr>) (add_unit_new k spec (nat (db_last_id d + 1))) True True
    = (if admission_full d then (d\<lparr>db_last_id := db_last_id d + 1\<rparr>, Inl CommitCapacity)
       else (admitted_db d k spec, Inr ()))"
proof -
  have last: "0 \<le> db_last_id d" using inv by (simp add: admission_inv_def)
  have "\<not> list_ex (\<lambda>(_, r). rw_job_id r = db_last_id d + 1) (db_receipts d)"
    using fresh_id(2) [OF inv] by (force simp: list_ex_iff receipt_ids_def)
  then show ?thesis
    using fresh_id(1) [OF inv] new room last
    by (auto simp: sqlite_commit_add_def commit_add_def add_unit_new_def receipt_new_def job_new_def
        generation_initial_def signed_id_def Let_def admission_full_def admitted_db_def commit_error_def)
qed

lemma reserve_fresh:
  assumes "admission_inv d" "db_last_id d < int I64_MAX"
  shows "sqlite_reserve_id d True = (d\<lparr>db_last_id := db_last_id d + 1\<rparr>, Inr (nat (db_last_id d + 1)))"
  using assms
  by (auto simp: sqlite_reserve_id_def reserve_id_def admission_inv_def Let_def identifier_new_def)


lemma replay_stored:
  assumes inv: "admission_inv d" and row: "map_of (db_receipts d) (key_columns k) = Some r"
  shows "sqlite_receipt d k True = Inr (Some \<lparr>rc_key = k, rc_original = projr (decode_spec (rw_spec r)),
      rc_job = nat (rw_job_id r), rc_removed = (rw_removed r = 1)\<rparr>)"
    and "\<exists>spec. decode_spec (rw_spec r) = Inr spec"
  using load_receipt_inv [OF inv, of k] row admission_rows [OF inv row]
  by (auto simp: sqlite_receipt_def receipt_row_ok_def)

lemma add_execute_outcome:
  assumes inv: "admission_inv d"
  shows "add_execute sqlite_jobs auth ent k spec True True d =
    (let (d', r) = add_outcome auth ent k spec d in (d', AddDone r))"
proof (cases "auth (rk_principal k) spec")
  case (Inl e)
  then show ?thesis by (simp add: add_execute_def add_outcome_def six)
next
  case auth: (Inr u)
  show ?thesis
  proof (cases "map_of (db_receipts d) (key_columns k)")
    case (Some r)
    obtain s where s: "decode_spec (rw_spec r) = Inr s" using replay_stored(2) [OF inv Some] by blast
    then show ?thesis
      using auth Some replay_stored(1) [OF inv Some]
      by (auto simp: add_execute_def add_outcome_def six sqlite_jobs_def replay_def)
  next
    case None
    then have look: "sqlite_receipt d k True = Inr None"
      by (simp add: sqlite_receipt_def load_receipt_def)
    show ?thesis
    proof (cases "ent (rk_principal k) spec")
      case (Inl e)
      then show ?thesis
        using auth None look by (simp add: add_execute_def add_outcome_def six sqlite_jobs_def)
    next
      case ent: (Inr v)
      show ?thesis
      proof (cases "db_last_id d < int I64_MAX")
        case True
        then show ?thesis
          using auth None look ent reserve_fresh [OF inv True] commit_fresh [OF inv None True]
          by (auto simp: add_execute_def add_outcome_def six sqlite_jobs_def)
      next
        case False
        then have "sqlite_reserve_id d True = (d, Inl ACapacity)"
          using inv by (simp add: sqlite_reserve_id_def reserve_id_def admission_inv_def app_error_def)
        then show ?thesis
          using auth None look ent False by (simp add: add_execute_def add_outcome_def six sqlite_jobs_def)
      qed
    qed
  qed
qed

section \<open>Properties\<close>

text \<open>
  C37. A command admits at most one job. Any number of callers may be adding downloads at once,
  interleaved at every await with each other and with all other transactions, with failing storage
  and with answers of successful commits lost; whenever two of them have succeeded they hold the
  same job exactly if they sent the same command key, a shared key implies the same specification,
  and the receipt of every success is in the database.
\<close>

theorem one_admission_per_command:
  assumes "repo_step\<^sup>*\<^sup>* (db_empty a b) d" "(admission_step sqlite_jobs repo_step)\<^sup>*\<^sup>* (d, Map.empty) (d', calls)"
    and "calls c = Some (k, spec, AddDone (Inr i))" "calls c' = Some (k', spec', AddDone (Inr i'))"
  shows "(i = i' \<longleftrightarrow> k = k') \<and> (k = k' \<longrightarrow> spec = spec') \<and>
    (\<exists>r. map_of (db_receipts d') (key_columns k) = Some r \<and> rw_job_id r = int i \<and> decode_spec (rw_spec r) = Inr spec)"
proof -
  have inv: "admission_inv d" using assms(1) admission_inv_empty by (rule repo_steps_admission)
  have all: "admission_view d' k = Some (spec, i) \<and> (i = i' \<longleftrightarrow> k = k') \<and> (k = k' \<longrightarrow> spec = spec')"
    using assms(2) inv assms(3,4) by (rule sqlite.one_job_per_command)
  have inv': "admission_inv d'"
    using sqlite.steps_ok [OF assms(2)] inv by (simp add: sqlite.world_ok_def)
  obtain r where r: "map_of (db_receipts d') (key_columns k) = Some r" "spec = projr (decode_spec (rw_spec r))"
    "i = nat (rw_job_id r)"
    using all by (auto simp: admission_view_def split: if_splits)
  have "receipt_row_ok d' r" using inv' r(1) by (rule admission_rows)
  then have "rw_job_id r = int i" "decode_spec (rw_spec r) = Inr spec"
    using r(2,3) by (auto simp: receipt_row_ok_def)
  then show ?thesis using all r(1) by blast
qed


lemma sample_repo_run:
  "repo_step\<^sup>*\<^sup>* (db_empty 4 4) ((db_empty 4 4)\<lparr>db_last_id := 1\<rparr>)" "repo_step\<^sup>*\<^sup>* (db_empty 4 4) (sample_db Queued 0 None)"
proof -
  have 1: "repo_step (db_empty 4 4) ((db_empty 4 4)\<lparr>db_last_id := 1\<rparr>)"
    using sample_admitted(1) by (rule rp_reserve)
  have 2: "repo_step ((db_empty 4 4)\<lparr>db_last_id := 1\<rparr>) (sample_db Queued 0 None)"
    using sample_admitted(2) _ sample_fits(2,1) by (rule rp_add) (simp add: sample_unit_def)
  show "repo_step\<^sup>*\<^sup>* (db_empty 4 4) ((db_empty 4 4)\<lparr>db_last_id := 1\<rparr>)" using 1 by blast
  then show "repo_step\<^sup>*\<^sup>* (db_empty 4 4) (sample_db Queued 0 None)" using 2 by (rule rtranclp.rtrancl_into_rtrancl)
qed

definition allow :: gate where
  "allow p spec = Inr ()"

theorem one_admission_per_command_witness:
  "\<exists>calls. (admission_step sqlite_jobs repo_step)\<^sup>*\<^sup>* (sample_db Queued 0 None, Map.empty) (sample_db Queued 0 None, calls) \<and>
     calls 0 = Some (sample_key, sample_spec, AddDone (Inr 1)) \<and>
     (\<exists>r. map_of (db_receipts (sample_db Queued 0 None)) (key_columns sample_key) = Some r \<and> rw_job_id r = 1)"
proof -
  let ?d = "sample_db Queued 0 None" and ?k = "sample_key"
  let ?c = "\<lambda>ph. [0 \<mapsto> (?k, sample_spec, ph)] :: nat \<rightharpoonup> receipt_key \<times> job_spec \<times> add_phase"
  have k: "key_ok ?k" by (simp add: key_ok_def sample_key_def identifier_ok_def width_simps)
  have inv: "admission_inv ?d" using sample_repo_run(2) admission_inv_empty by (rule repo_steps_admission)
  have row: "map_of (db_receipts ?d) (key_columns ?k)
      = Some \<lparr>rw_job_id = 1, rw_spec = encode_spec sample_spec, rw_removed = 0\<rparr>"
    by (simp add: sample_db_def)
  have look: "add_advance sqlite_jobs allow allow ?k sample_spec True True (?d, AddLookup) = (?d, AddDone (Inr 1))"
    using replay_stored(1) [OF inv row] sample_fits(1) by (simp add: sqlite_jobs_def replay_def)
  have "admission_step sqlite_jobs repo_step (?d, Map.empty) (?d, ?c AddAuthorize)"
    using k sample_fits(1) by (intro ad_call) simp_all
  moreover have "admission_step sqlite_jobs repo_step (?d, ?c AddAuthorize) (?d, ?c AddLookup)"
    using ad_advance [of "?c AddAuthorize" 0 ?k sample_spec AddAuthorize sqlite_jobs allow allow True True ?d ?d AddLookup repo_step]
    by (simp add: allow_def)
  moreover have "admission_step sqlite_jobs repo_step (?d, ?c AddLookup) (?d, ?c (AddDone (Inr 1)))"
    using ad_advance [of "?c AddLookup" 0 ?k sample_spec AddLookup, OF _ look] by simp
  ultimately have run: "(admission_step sqlite_jobs repo_step)\<^sup>*\<^sup>* (?d, Map.empty) (?d, ?c (AddDone (Inr 1)))"
    by (meson converse_rtranclp_into_rtranclp r_into_rtranclp)
  show ?thesis
    using one_admission_per_command [OF sample_repo_run(2) run, of 0 ?k sample_spec 1 0 ?k sample_spec 1] run
    by (intro exI [of _ "?c (AddDone (Inr 1))"]) auto
qed

text \<open>
  What adding a download returns and stores, on every path: an unauthorized caller is refused
  before anything is read; a known command returns its job again without consulting the entitlement
  gate or changing anything, or reports that the specification differs or that the job was removed;
  a new command gets the next identifier and is stored with its receipt in one transaction, unless
  the entitlement is refused or the tables or the identifiers are exhausted.
\<close>

theorem add_download_outcome:
  assumes "repo_step\<^sup>*\<^sup>* (db_empty a b) d"
  shows "add_execute sqlite_jobs authorizer entitlement k spec True True d =
    (let (d', r) = add_outcome authorizer entitlement k spec d in (d', AddDone r))"
  using assms admission_inv_empty by (intro add_execute_outcome) (rule repo_steps_admission)

theorem add_download_outcome_witness:
  "repo_step\<^sup>*\<^sup>* (db_empty 4 4) (sample_db Queued 0 None) \<and>
   add_execute sqlite_jobs allow allow sample_key sample_spec True True (sample_db Queued 0 None)
     = (sample_db Queued 0 None, AddDone (Inr 1))"
  using add_download_outcome [OF sample_repo_run(2), of allow allow sample_key sample_spec] sample_repo_run(2) sample_fits(1)
  by (simp add: add_outcome_def allow_def sample_db_def)

text \<open>
  Every database the transactions can produce passes the admission checks of the next start:
  both tables within their limits, no live receipt without its job, no removed receipt with one, no
  job without a receipt and no identifier beyond the sequence.
\<close>

theorem startup_check_accepts:
  assumes "repo_step\<^sup>*\<^sup>* (db_empty a b) d"
  shows "admission_consistent d"
  using repo_steps_admission [OF assms admission_inv_empty] by (rule admission_inv_consistent)

theorem startup_check_accepts_witness: "admission_consistent (sample_db Queued 0 None)"
  using sample_repo_run(2) by (rule startup_check_accepts)

end
