(* ===== verification/Origin.thy ===== *)
theory Origin
  imports FHD_Prelude
begin

text \<open>
  The origin governor (\<open>crates/runtime/src/origin.rs\<close>): how many connections one origin carries
  across all jobs and when it may be approached again after it failed or pushed back. The mutex
  makes every operation atomic, so the model is a function on the guarded map; an absent row is
  the default state.
\<close>

type_synonym OriginId = u64

record origin_limits =
  ol_connections :: usize
  ol_failures_before_pause :: u32
  ol_pause_ms :: u64
  ol_maximum_pause_ms :: u64

definition origin_limits_default :: origin_limits where
  "origin_limits_default = \<lparr>ol_connections = 8, ol_failures_before_pause = 3, ol_pause_ms = 1000,
     ol_maximum_pause_ms = 300000\<rparr>"

definition limits_valid :: "origin_limits \<Rightarrow> bool" where
  "limits_valid l \<longleftrightarrow>
     (1 \<le> ol_connections l \<and> ol_connections l \<le> 64) \<and> 1 \<le> ol_failures_before_pause l \<and>
     0 < ol_pause_ms l \<and> (ol_pause_ms l \<le> ol_maximum_pause_ms l \<and> ol_maximum_pause_ms l \<le> 86400000)"

record origin_state =
  os_in_flight :: usize
  os_failures :: u32
  os_backoff_until :: u64
  os_floor_until :: u64

definition origin_state_default :: origin_state where
  "origin_state_default = \<lparr>os_in_flight = 0, os_failures = 0, os_backoff_until = 0, os_floor_until = 0\<rparr>"

definition state_ready_at :: "origin_state \<Rightarrow> u64" where
  "state_ready_at s = max (os_backoff_until s) (os_floor_until s)"

definition state_settled :: "origin_state \<Rightarrow> u64 \<Rightarrow> bool" where
  "state_settled s now \<longleftrightarrow> os_in_flight s = 0 \<and> os_failures s = 0 \<and> state_ready_at s \<le> now"

record governor =
  gv_limits :: origin_limits
  gv_origins :: "OriginId \<rightharpoonup> origin_state"

definition governor_new :: "origin_limits \<Rightarrow> (unit, governor) result" where
  "governor_new l = (if \<not> limits_valid l then Inl () else Inr \<lparr>gv_limits = l, gv_origins = Map.empty\<rparr>)"

definition entry_or_default :: "governor \<Rightarrow> OriginId \<Rightarrow> origin_state" where
  "entry_or_default g i = (case gv_origins g i of None \<Rightarrow> origin_state_default | Some s \<Rightarrow> s)"

definition put_origin :: "governor \<Rightarrow> OriginId \<Rightarrow> origin_state \<Rightarrow> governor" where
  "put_origin g i s = g\<lparr>gv_origins := (gv_origins g)(i \<mapsto> s)\<rparr>"

definition put_unless_settled :: "governor \<Rightarrow> OriginId \<Rightarrow> origin_state \<Rightarrow> u64 \<Rightarrow> governor" where
  "put_unless_settled g i s now =
     (if state_settled s now then g\<lparr>gv_origins := (gv_origins g)(i := None)\<rparr> else put_origin g i s)"

definition origin_admit :: "governor \<Rightarrow> OriginId \<Rightarrow> usize \<Rightarrow> u64 \<Rightarrow> governor \<times> usize" where
  "origin_admit g i want now =
     (let s = entry_or_default g i in
      if now < state_ready_at s then (put_origin g i s, 0)
      else let grant = min want (ol_connections (gv_limits g) - os_in_flight s) in
           (put_origin g i (s\<lparr>os_in_flight := os_in_flight s + grant\<rparr>), grant))"

definition origin_release :: "governor \<Rightarrow> OriginId \<Rightarrow> usize \<Rightarrow> u64 \<Rightarrow> governor" where
  "origin_release g i granted now =
     (case gv_origins g i of None \<Rightarrow> g
      | Some s \<Rightarrow> put_unless_settled g i (s\<lparr>os_in_flight := os_in_flight s - granted\<rparr>) now)"

definition origin_succeeded :: "governor \<Rightarrow> OriginId \<Rightarrow> u64 \<Rightarrow> governor" where
  "origin_succeeded g i now =
     (case gv_origins g i of None \<Rightarrow> g
      | Some s \<Rightarrow> put_unless_settled g i (s\<lparr>os_failures := 0, os_backoff_until := 0\<rparr>) now)"

definition pause_for :: "governor \<Rightarrow> u32 \<Rightarrow> u64" where
  "pause_for g failures =
     min (saturating_mul (ol_pause_ms (gv_limits g)) (2 ^ min (failures - 1) 31))
         (ol_maximum_pause_ms (gv_limits g))"

definition bump_failures :: "origin_state \<Rightarrow> origin_state" where
  "bump_failures s = s\<lparr>os_failures := min (os_failures s + 1) U32_MAX\<rparr>"

definition origin_throttled :: "governor \<Rightarrow> OriginId \<Rightarrow> u64 option \<Rightarrow> u64 \<Rightarrow> governor" where
  "origin_throttled g i retry_after_ms now =
     (let s = bump_failures (entry_or_default g i);
          s1 = (case retry_after_ms of None \<Rightarrow> s
                | Some asked \<Rightarrow>
                    let asked = min asked (ol_maximum_pause_ms (gv_limits g)) in
                    s\<lparr>os_floor_until := max (os_floor_until s) (saturating_add now asked)\<rparr>);
          ours = saturating_add now (pause_for g (os_failures s1)) in
      put_origin g i (s1\<lparr>os_backoff_until := max (os_backoff_until s1) ours\<rparr>))"

definition origin_failed :: "governor \<Rightarrow> OriginId \<Rightarrow> u64 \<Rightarrow> governor" where
  "origin_failed g i now =
     (let s = bump_failures (entry_or_default g i);
          before = ol_failures_before_pause (gv_limits g) in
      if before \<le> os_failures s then
        let pause = pause_for g (os_failures s - before + 1) in
        put_origin g i (s\<lparr>os_backoff_until := max (os_backoff_until s) (saturating_add now pause)\<rparr>)
      else put_origin g i s)"

definition origin_ready_at :: "governor \<Rightarrow> OriginId \<Rightarrow> u64 \<Rightarrow> u64 option" where
  "origin_ready_at g i now =
     (case gv_origins g i of None \<Rightarrow> None
      | Some s \<Rightarrow> if now < state_ready_at s then Some (state_ready_at s) else None)"

section \<open>Invariant\<close>

text \<open>At the cap, a stand-down never reaches further than the maximum pause beyond the latest
  clock reading, and a row's counters fit their types.\<close>

definition row_inv :: "origin_limits \<Rightarrow> u64 \<Rightarrow> origin_state \<Rightarrow> bool" where
  "row_inv l now s \<longleftrightarrow>
     os_in_flight s \<le> ol_connections l \<and> os_failures s \<le> U32_MAX \<and>
     os_backoff_until s \<le> now + ol_maximum_pause_ms l \<and> os_floor_until s \<le> now + ol_maximum_pause_ms l"

definition governor_inv :: "governor \<Rightarrow> u64 \<Rightarrow> bool" where
  "governor_inv g now \<longleftrightarrow>
     limits_valid (gv_limits g) \<and> (\<forall>i s. gv_origins g i = Some s \<longrightarrow> row_inv (gv_limits g) now s)"

lemma row_inv_later: "row_inv l now s \<Longrightarrow> now \<le> later \<Longrightarrow> row_inv l later s"
  by (auto simp: row_inv_def)

lemma governor_inv_later: "governor_inv g now \<Longrightarrow> now \<le> later \<Longrightarrow> governor_inv g later"
  by (auto simp: governor_inv_def intro: row_inv_later)

lemma governor_inv_new: "governor_new l = Inr g \<Longrightarrow> governor_inv g now"
  by (auto simp: governor_new_def governor_inv_def split: if_splits)

lemma entry_inv: "governor_inv g now \<Longrightarrow> row_inv (gv_limits g) now (entry_or_default g i)"
  by (auto simp: governor_inv_def entry_or_default_def row_inv_def origin_state_default_def width_simps
      split: option.splits)

lemma put_origin_inv:
  "governor_inv g now \<Longrightarrow> row_inv (gv_limits g) now s \<Longrightarrow> governor_inv (put_origin g i s) now"
  by (simp add: governor_inv_def put_origin_def)

lemma put_unless_settled_inv:
  "governor_inv g now \<Longrightarrow> row_inv (gv_limits g) now s \<Longrightarrow> governor_inv (put_unless_settled g i s t) now"
  by (auto simp: put_unless_settled_def put_origin_inv) (auto simp: governor_inv_def split: if_splits)

lemma pause_for_le: "pause_for g n \<le> ol_maximum_pause_ms (gv_limits g)"
  by (simp add: pause_for_def)

lemma saturating_add_pause: "p \<le> m \<Longrightarrow> saturating_add now p \<le> now + m"
  by (simp add: saturating_add_def)

section \<open>Operations and runs\<close>

text \<open>One operation at a clock reading; a run reads a clock that never goes back.\<close>

inductive governor_op :: "u64 \<Rightarrow> governor \<Rightarrow> governor \<Rightarrow> bool" for now where
  go_admit: "origin_admit g i want now = (g', grant) \<Longrightarrow> governor_op now g g'"
| go_release: "governor_op now g (origin_release g i n now)"
| go_succeeded: "governor_op now g (origin_succeeded g i now)"
| go_throttled: "governor_op now g (origin_throttled g i r now)"
| go_failed: "governor_op now g (origin_failed g i now)"

inductive governor_run :: "governor \<Rightarrow> u64 \<Rightarrow> governor \<Rightarrow> u64 \<Rightarrow> bool" where
  gr_refl: "governor_run g t g t"
| gr_step: "governor_run g t h u \<Longrightarrow> u \<le> now \<Longrightarrow> governor_op now h k \<Longrightarrow> governor_run g t k now"

lemmas governor_defs =
  origin_admit_def origin_release_def origin_succeeded_def origin_throttled_def origin_failed_def

lemma row_inv_failures:
  "row_inv l now s \<Longrightarrow> row_inv l now (bump_failures s)"
  by (simp add: row_inv_def bump_failures_def)

lemma governor_op_inv:
  assumes "governor_op now g g'" "governor_inv g now"
  shows "governor_inv g' now \<and> gv_limits g' = gv_limits g"
  using assms
proof (induction rule: governor_op.induct)
  case (go_admit g i want g' grant)
  then show ?case
    using entry_inv [OF go_admit.prems, of i]
    by (auto simp: origin_admit_def Let_def row_inv_def put_origin_def split: if_splits
        intro!: put_origin_inv [unfolded put_origin_def])
next
  case (go_release g i n)
  then show ?case
    by (auto simp: origin_release_def put_unless_settled_def put_origin_def governor_inv_def row_inv_def
        split: option.splits if_splits intro: order_trans [OF diff_le_self])
next
  case (go_succeeded g i)
  then show ?case
    by (auto simp: origin_succeeded_def put_unless_settled_def put_origin_def governor_inv_def row_inv_def
        split: option.splits if_splits)
next
  case (go_throttled g i r)
  let ?s = "bump_failures (entry_or_default g i)"
  have row: "row_inv (gv_limits g) now ?s" using entry_inv [OF go_throttled] by (rule row_inv_failures)
  show ?case
    using go_throttled row pause_for_le [of g] saturating_add_pause
    by (auto simp: origin_throttled_def Let_def row_inv_def put_origin_def [symmetric] split: option.splits
        intro!: put_origin_inv) (simp_all add: put_origin_def)
next
  case (go_failed g i)
  let ?s = "bump_failures (entry_or_default g i)"
  have row: "row_inv (gv_limits g) now ?s" using entry_inv [OF go_failed] by (rule row_inv_failures)
  show ?case
    using go_failed row pause_for_le [of g] saturating_add_pause
    by (auto simp: origin_failed_def Let_def row_inv_def put_origin_def [symmetric] intro!: put_origin_inv)
      (simp_all add: put_origin_def)
qed

lemma governor_run_inv:
  assumes "governor_run g t h u" "governor_inv g t"
  shows "governor_inv h u \<and> gv_limits h = gv_limits g \<and> t \<le> u"
  using assms
proof (induction rule: governor_run.induct)
  case (gr_step g t h u now k)
  then show ?case using governor_op_inv governor_inv_later by (metis order_trans)
qed simp

section \<open>The floor a server asked for\<close>

definition floor_of :: "governor \<Rightarrow> OriginId \<Rightarrow> u64" where
  "floor_of g i = os_floor_until (entry_or_default g i)"

lemma floor_put [simp]: "floor_of (put_origin g i s) j = (if j = i then os_floor_until s else floor_of g j)"
  by (simp add: floor_of_def put_origin_def entry_or_default_def)

lemma bump_failures_floor [simp]: "os_floor_until (bump_failures s) = os_floor_until s"
  by (simp add: bump_failures_def)

lemma governor_op_floor:
  "governor_op now g g' \<Longrightarrow> floor_of g i \<le> floor_of g' i \<or> floor_of g i \<le> now"
proof (induction rule: governor_op.induct)
  case (go_admit g j want g' grant)
  then show ?case
    by (auto simp: origin_admit_def Let_def split: if_splits) (simp_all add: floor_of_def)
next
  case (go_release g j n)
  then show ?case
    by (auto simp: origin_release_def put_unless_settled_def floor_of_def put_origin_def entry_or_default_def
        state_settled_def state_ready_at_def split: option.splits)
next
  case (go_succeeded g j)
  then show ?case
    by (auto simp: origin_succeeded_def put_unless_settled_def floor_of_def put_origin_def entry_or_default_def
        state_settled_def state_ready_at_def split: option.splits)
next
  case (go_throttled g j r)
  then show ?case
    by (auto simp: origin_throttled_def Let_def split: option.splits) (simp_all add: floor_of_def)
next
  case (go_failed g j)
  then show ?case by (auto simp: origin_failed_def Let_def) (simp_all add: floor_of_def)
qed

lemma governor_run_floor:
  assumes "governor_run g t h u" "u < floor_of g i"
  shows "floor_of g i \<le> floor_of h i"
  using assms
proof (induction rule: governor_run.induct)
  case (gr_step g t h u now k)
  then have "floor_of g i \<le> floor_of h i" by simp
  moreover have "floor_of h i \<le> floor_of k i \<or> floor_of h i \<le> now"
    using gr_step.hyps(3) by (rule governor_op_floor)
  ultimately show ?case using gr_step.prems by linarith
qed simp

section \<open>The ledger of connections\<close>

text \<open>
  What a client of the governor relies on: a grant is taken from an origin's budget and returned
  to it, never exceeds the cap, and no report of success or failure changes the count. A client
  that keeps a list of the grants it holds then always agrees with the governor.
\<close>

locale connection_ledger =
  fixes in_flight :: "'g \<Rightarrow> 'o \<Rightarrow> nat"
    and cap :: "'g \<Rightarrow> nat"
    and admit :: "'g \<Rightarrow> 'o \<Rightarrow> nat \<Rightarrow> nat \<Rightarrow> 'g \<times> nat"
    and give_back :: "'g \<Rightarrow> 'o \<Rightarrow> nat \<Rightarrow> nat \<Rightarrow> 'g"
    and report_ok :: "'g \<Rightarrow> 'o \<Rightarrow> nat \<Rightarrow> 'g"
  assumes admit_law: "admit g i want now = (g', n) \<Longrightarrow>
      n \<le> want \<and> cap g' = cap g \<and> (in_flight g i \<le> cap g \<longrightarrow> in_flight g i + n \<le> cap g) \<and>
      in_flight g' j = in_flight g j + (if j = i then n else 0)"
    and give_back_law: "cap (give_back g i n now) = cap g \<and>
      in_flight (give_back g i n now) j = in_flight g j - (if j = i then n else 0)"
    and report_law: "cap (report_ok g i now) = cap g \<and> in_flight (report_ok g i now) j = in_flight g j"
begin

definition held :: "('o \<times> nat) list \<Rightarrow> 'o \<Rightarrow> nat" where
  "held gs i = sum_list (map snd (filter (\<lambda>e. fst e = i) gs))"

definition balanced :: "'g \<Rightarrow> ('o \<times> nat) list \<Rightarrow> bool" where
  "balanced g gs \<longleftrightarrow> (\<forall>i. in_flight g i = held gs i \<and> held gs i \<le> cap g)"

lemma held_simps [simp]:
  "held [] i = 0"
  "held (e # gs) i = (if fst e = i then snd e else 0) + held gs i"
  "held (xs @ ys) i = held xs i + held ys i"
  by (simp_all add: held_def)

lemma balanced_admit:
  assumes "balanced g gs" "admit g i want now = (g', n)"
  shows "balanced g' (gs @ [(i, n)])"
  using assms(1) admit_law [OF assms(2)] by (auto simp: balanced_def)

lemma held_remove: "e \<in> set gs \<Longrightarrow> held gs i = held (remove1 e gs) i + (if fst e = i then snd e else 0)"
  by (induction gs) auto

lemma balanced_give_back:
  assumes "balanced g gs" "(i, n) \<in> set gs"
  shows "balanced (give_back g i n now) (remove1 (i, n) gs)"
proof -
  have "held gs j = held (remove1 (i, n) gs) j + (if i = j then n else 0)" for j
    using held_remove [OF assms(2)] by simp
  moreover have "in_flight g j = held gs j \<and> held gs j \<le> cap g" for j
    using assms(1) by (simp add: balanced_def)
  ultimately have "in_flight g j = held (remove1 (i, n) gs) j + (if i = j then n else 0)"
    "held (remove1 (i, n) gs) j \<le> cap g" for j
    by (metis, metis add_leD1)
  then show ?thesis using give_back_law by (simp add: balanced_def)
qed

lemma balanced_report: "balanced g gs \<Longrightarrow> balanced (report_ok g i now) gs"
  using report_law by (auto simp: balanced_def)

lemma balanced_perm: "balanced g gs \<Longrightarrow> (\<And>i. held gs i = held hs i) \<Longrightarrow> balanced g hs"
  by (simp add: balanced_def)

lemma balanced_zero: "balanced g (gs @ [(i, 0)]) \<Longrightarrow> balanced g gs"
  by (erule balanced_perm) simp

end

definition governor_in_flight :: "governor \<Rightarrow> OriginId \<Rightarrow> usize" where
  "governor_in_flight g i = os_in_flight (entry_or_default g i)"

definition governor_cap :: "governor \<Rightarrow> usize" where
  "governor_cap g = ol_connections (gv_limits g)"

lemma in_flight_put:
  "governor_in_flight (put_origin g i s) j = (if j = i then os_in_flight s else governor_in_flight g j)"
  "governor_cap (put_origin g i s) = governor_cap g"
  by (simp_all add: governor_in_flight_def governor_cap_def put_origin_def entry_or_default_def)

lemma in_flight_put_settled:
  "governor_in_flight (put_unless_settled g i s now) j = (if j = i then os_in_flight s else governor_in_flight g j)"
  "governor_cap (put_unless_settled g i s now) = governor_cap g"
  by (auto simp: put_unless_settled_def in_flight_put)
    (simp_all add: governor_in_flight_def governor_cap_def entry_or_default_def state_settled_def
      origin_state_default_def)

interpretation gov: connection_ledger governor_in_flight governor_cap origin_admit origin_release origin_succeeded
proof
  fix g i want now g' n j
  assume "origin_admit g i want now = (g', n)"
  then show "n \<le> want \<and> governor_cap g' = governor_cap g \<and>
      (governor_in_flight g i \<le> governor_cap g \<longrightarrow> governor_in_flight g i + n \<le> governor_cap g) \<and>
      governor_in_flight g' j = governor_in_flight g j + (if j = i then n else 0)"
    by (auto simp: origin_admit_def Let_def in_flight_put split: if_splits)
      (auto simp: governor_in_flight_def governor_cap_def)
next
  fix g i n now j
  show "governor_cap (origin_release g i n now) = governor_cap g \<and>
      governor_in_flight (origin_release g i n now) j = governor_in_flight g j - (if j = i then n else 0)"
    by (auto simp: origin_release_def in_flight_put_settled split: option.splits)
      (auto simp: governor_in_flight_def entry_or_default_def origin_state_default_def)
next
  fix g i now j
  show "governor_cap (origin_succeeded g i now) = governor_cap g \<and>
      governor_in_flight (origin_succeeded g i now) j = governor_in_flight g j"
    by (auto simp: origin_succeeded_def in_flight_put_settled split: option.splits)
      (auto simp: governor_in_flight_def entry_or_default_def)
qed

section \<open>Properties\<close>

text \<open>
  C40. No origin is overloaded or parked. Over any run of admissions, releases and reports at clock
  readings that never go back, an origin never carries more connections than the limit and never
  stands down for longer than the maximum pause beyond the latest reading, whatever delay a
  server asked for; once that pause has passed, a request for connections is granted unless the
  origin is full.
\<close>

theorem origin_never_overloaded_or_parked:
  assumes "governor_new l = Inr g" "governor_run g t h now"
  shows "governor_in_flight h i \<le> ol_connections l \<and>
    (\<forall>at. origin_ready_at h i now = Some at \<longrightarrow> at \<le> now + ol_maximum_pause_ms l) \<and>
    (\<forall>later want h' n. now + ol_maximum_pause_ms l \<le> later \<and> 0 < want \<and>
       governor_in_flight h i < ol_connections l \<and> origin_admit h i want later = (h', n) \<longrightarrow> 0 < n)"
proof -
  have l: "gv_limits g = l" using assms(1) by (auto simp: governor_new_def split: if_splits)
  have inv: "governor_inv h now" "gv_limits h = l"
    using governor_run_inv [OF assms(2) governor_inv_new [OF assms(1)]] l by auto
  have row: "row_inv l now (entry_or_default h i)" using entry_inv [OF inv(1)] inv(2) by simp
  then have ready: "state_ready_at (entry_or_default h i) \<le> now + ol_maximum_pause_ms l"
    by (simp add: row_inv_def state_ready_at_def)
  then have "\<forall>at. origin_ready_at h i now = Some at \<longrightarrow> at \<le> now + ol_maximum_pause_ms l"
    by (auto simp: origin_ready_at_def entry_or_default_def split: option.splits if_splits)
  moreover have "0 < n" if "now + ol_maximum_pause_ms l \<le> later" "0 < want"
    "governor_in_flight h i < ol_connections l" "origin_admit h i want later = (h', n)" for later want h' n
    using that ready inv(2) by (auto simp: origin_admit_def Let_def governor_in_flight_def split: if_splits)
  ultimately show ?thesis using row by (auto simp: row_inv_def governor_in_flight_def)
qed

theorem origin_never_overloaded_or_parked_witness:
  "\<exists>g. governor_new origin_limits_default = Inr g \<and>
     governor_in_flight (fst (origin_admit g 1 20 0)) 1 \<le> 8"
proof -
  define g where "g = \<lparr>gv_limits = origin_limits_default, gv_origins = Map.empty\<rparr>"
  have g: "governor_new origin_limits_default = Inr g"
    by (simp add: governor_new_def limits_valid_def origin_limits_default_def g_def)
  have "governor_run g 0 (fst (origin_admit g 1 20 0)) 0"
    by (rule gr_step [OF gr_refl]) (auto intro: go_admit [of _ 1 20 0 _ "snd (origin_admit g 1 20 0)"])
  from origin_never_overloaded_or_parked [OF g this] show ?thesis
    using g by (auto simp: origin_limits_default_def)
qed

text \<open>
  A delay the server asked for is observed. After a throttling response that names a delay, no
  later operation, not even a success reported for another job of the origin, makes the governor
  grant a connection to that origin before the delay (capped by the maximum pause) has passed.
\<close>

theorem throttle_floor_holds:
  assumes "governor_run (origin_throttled g i (Some asked) now) now h later"
    and "later < now + min asked (ol_maximum_pause_ms (gv_limits g))"
    and "now + ol_maximum_pause_ms (gv_limits g) \<le> U64_MAX"
  shows "snd (origin_admit h i want later) = 0"
proof -
  let ?g = "origin_throttled g i (Some asked) now"
  have f: "now + min asked (ol_maximum_pause_ms (gv_limits g)) \<le> floor_of ?g i"
    using assms(3) by (simp add: origin_throttled_def Let_def saturating_add_def)
  then have "floor_of ?g i \<le> floor_of h i" using assms(1,2) by (intro governor_run_floor) auto
  then have "later < floor_of h i" using f assms(2) by linarith
  then show ?thesis by (auto simp: origin_admit_def Let_def floor_of_def state_ready_at_def)
qed

theorem throttle_floor_holds_witness:
  "snd (origin_admit (origin_succeeded (origin_throttled \<lparr>gv_limits = origin_limits_default,
      gv_origins = Map.empty\<rparr> 1 (Some 5000) 100) 1 200) 1 4 200) = 0"
proof -
  let ?g = "\<lparr>gv_limits = origin_limits_default, gv_origins = Map.empty\<rparr> :: governor"
  have "governor_run (origin_throttled ?g 1 (Some 5000) 100) 100
      (origin_succeeded (origin_throttled ?g 1 (Some 5000) 100) 1 200) 200"
    by (rule gr_step [OF gr_refl]) (auto intro: go_succeeded)
  from throttle_floor_holds [OF this] show ?thesis
    by (simp add: origin_limits_default_def width_simps)
qed

end
