(* ===== verification/Retry.thy ===== *)
theory Retry
  imports Domain_Types
begin

text \<open>
  The retry policy (\<open>crates/domain/src/retry.rs\<close>): a bounded number of attempts with exponential,
  jittered backoff, in which the deadline a server asked for is a floor. Clock and jitter are
  arguments, as in the source.
\<close>

datatype ErrorClass = Transient | Throttled | UserAction | IntegrityError | Fatal

datatype RetryDecision = RetryAt u64 | RetryNeedsAction | Exhausted

record retry_policy =
  rp_maximum_attempts :: u8
  rp_base_delay :: u64
  rp_maximum_delay :: u64

definition retry_policy_new :: "u8 \<Rightarrow> u64 \<Rightarrow> u64 \<Rightarrow> (DomainError, retry_policy) result" where
  "retry_policy_new maximum_attempts base_delay maximum_delay =
     (if \<not> (1 \<le> maximum_attempts \<and> maximum_attempts \<le> 32) \<or> base_delay = 0 \<or>
         maximum_delay < base_delay \<or> 86400000 < maximum_delay
      then Inl InvalidInput
      else Inr \<lparr>rp_maximum_attempts = maximum_attempts, rp_base_delay = base_delay,
                rp_maximum_delay = maximum_delay\<rparr>)"

definition backoff_cap :: "retry_policy \<Rightarrow> u8 \<Rightarrow> u64" where
  "backoff_cap p attempts =
     min (saturating_mul (rp_base_delay p) (2 ^ min (attempts - 1) 31)) (rp_maximum_delay p)"

definition retry_decide ::
  "retry_policy \<Rightarrow> ErrorClass \<Rightarrow> u8 \<Rightarrow> u64 \<Rightarrow> u64 option \<Rightarrow> u64 \<Rightarrow> (DomainError, RetryDecision) result"
where
  "retry_decide p class attempts now retry_after_deadline jitter =
     (if attempts = 0 then Inl InvalidInput
      else if class \<in> {UserAction, IntegrityError, Fatal} then Inr RetryNeedsAction
      else if rp_maximum_attempts p \<le> attempts then Inr Exhausted
      else
        res_bind (ok_or (checked_add now (jitter mod (backoff_cap p attempts + 1))) Overflow) (\<lambda>at.
          Inr (RetryAt (max at (case retry_after_deadline of None \<Rightarrow> now | Some d \<Rightarrow> d)))))"

definition policy_ok :: "retry_policy \<Rightarrow> bool" where
  "policy_ok p \<longleftrightarrow> 1 \<le> rp_maximum_attempts p \<and> rp_maximum_attempts p \<le> 32 \<and>
     0 < rp_base_delay p \<and> rp_base_delay p \<le> rp_maximum_delay p \<and> rp_maximum_delay p \<le> 86400000"

lemma retry_policy_new_ok: "retry_policy_new a b c = Inr p \<Longrightarrow> policy_ok p"
  by (auto simp: retry_policy_new_def policy_ok_def split: if_splits)

text \<open>With a valid policy the multiplication never saturates below the maximum delay: the cap is
  the exact doubling backoff. An attempt below the limit is at most 31, so the shift is not
  clipped either.\<close>

lemma backoff_cap_exact:
  assumes "policy_ok p" "attempts < rp_maximum_attempts p"
  shows "backoff_cap p attempts = min (rp_base_delay p * 2 ^ (attempts - 1)) (rp_maximum_delay p)"
proof -
  have "rp_maximum_delay p \<le> U64_MAX" using assms(1) by (simp add: policy_ok_def width_simps)
  moreover have "attempts - 1 \<le> 31" using assms by (auto simp: policy_ok_def)
  ultimately show ?thesis by (simp add: backoff_cap_def saturating_mul_def min_def)
qed

lemma backoff_cap_le: "backoff_cap p attempts \<le> rp_maximum_delay p"
  by (simp add: backoff_cap_def)

text \<open>
  C38. The retry decision. Errors that need the user never retry, a spent attempt budget is
  exhausted, and otherwise a retry is granted whose tick is never before now nor before the
  deadline the server asked for, and lies beyond both by at most the doubling backoff, itself
  capped by the maximum delay. The only failures are a zero attempt count and a clock at its end.
\<close>

theorem retry_decision_bounds:
  assumes "policy_ok p" "0 < attempts"
  shows "(class \<in> {UserAction, IntegrityError, Fatal} \<longrightarrow>
      retry_decide p class attempts now deadline jitter = Inr RetryNeedsAction) \<and>
    (class \<in> {Transient, Throttled} \<and> rp_maximum_attempts p \<le> attempts \<longrightarrow>
      retry_decide p class attempts now deadline jitter = Inr Exhausted) \<and>
    (class \<in> {Transient, Throttled} \<and> attempts < rp_maximum_attempts p \<and>
       now + rp_maximum_delay p \<le> U64_MAX \<longrightarrow>
      (\<exists>at. retry_decide p class attempts now deadline jitter = Inr (RetryAt at) \<and> now \<le> at \<and>
         (\<forall>d. deadline = Some d \<longrightarrow> d \<le> at) \<and>
         at \<le> max (now + min (rp_base_delay p * 2 ^ (attempts - 1)) (rp_maximum_delay p))
                  (case deadline of None \<Rightarrow> now | Some d \<Rightarrow> d)))"
proof -
  let ?cap = "backoff_cap p attempts"
  have j: "jitter mod (?cap + 1) \<le> ?cap"
    using mod_less_divisor [of "?cap + 1" jitter] by linarith
  then have fits: "now + jitter mod (?cap + 1) \<le> U64_MAX" if "now + rp_maximum_delay p \<le> U64_MAX"
    using that backoff_cap_le [of p attempts] by linarith
  let ?floor = "case deadline of None \<Rightarrow> now | Some d \<Rightarrow> d"
  let ?at = "max (now + jitter mod (?cap + 1)) ?floor"
  have ub: "?at \<le> max (now + ?cap) ?floor" using j by (intro max.mono) simp_all
  have "retry_decide p class attempts now deadline jitter = Inr (RetryAt ?at) \<and> now \<le> ?at \<and>
      (\<forall>d. deadline = Some d \<longrightarrow> d \<le> ?at) \<and> ?at \<le> max (now + ?cap) ?floor"
    if "class \<in> {Transient, Throttled}" "attempts < rp_maximum_attempts p"
      "now + rp_maximum_delay p \<le> U64_MAX"
    using that assms(2) fits ub by (auto simp: retry_decide_def checked_add_def)
  then show ?thesis
    using assms(2) backoff_cap_exact [OF assms(1), of attempts]
    by (auto simp: retry_decide_def)
qed

theorem retry_decision_bounds_witness:
  "\<exists>p. retry_policy_new 5 1000 60000 = Inr p \<and>
     (\<exists>at. retry_decide p Throttled 2 100 (Some 5000) 77 = Inr (RetryAt at) \<and> 5000 \<le> at \<and> at \<le> 5000)"
proof -
  define p where "p = \<lparr>rp_maximum_attempts = 5, rp_base_delay = 1000, rp_maximum_delay = 60000\<rparr>"
  have p: "retry_policy_new 5 1000 60000 = Inr p" by (simp add: retry_policy_new_def p_def)
  have "\<exists>at. retry_decide p Throttled 2 100 (Some 5000) 77 = Inr (RetryAt at) \<and> 5000 \<le> at \<and> at \<le> 5000"
    using retry_decision_bounds [OF retry_policy_new_ok [OF p], of 2 Throttled 100 "Some 5000" 77]
    by (auto simp: p_def width_simps)
  then show ?thesis using p by blast
qed

end
