(* ===== verification/Coordinator.thy ===== *)
theory Coordinator
  imports Admission Origin Retry
begin

text \<open>
  The coordinator (\<open>crates/runtime/src/coordinator.rs\<close>): one session of one job. The session owns
  the aggregate; every transition is decided, committed to the repository and only then applied.
  A session operation is a function from the session to the session it leaves and a result, so an
  operation that fails half way still shows what it did to the job and to the database.

  What happens outside is given as data: the fate of each transaction of the repository in turn,
  and an \<open>outside\<close> record with the clock, the answers of the writer lane, the part store, the
  destination and the transport. Telemetry is not modelled.
\<close>

section \<open>Vocabulary\<close>

datatype StorageError =
    SInvalidInput | SInvalidState | SBounds | SLocked | SIo | SIntegrity | SConflict | SUnsupported

datatype WriterError =
    WInvalidCapacity | WWrongGeneration | WBounds | WCancelled | WClosed | WWorkerFailed | WStorage StorageError

datatype TransportError =
    TransportTransient | TransportThrottled "u64 option" | TransportRepresentationChanged
  | TransportUserAction StopReason | TransportFatal StopReason

datatype Control = ControlPause | ControlCancel

datatype SessionEnd = Settled JobState | Published string

datatype RunError =
    RInvalidConfig | RNotRunnable JobState | RDomain DomainError | RCommit CommitError | RRepository
  | RWriter WriterError | RStorageError StorageError | RInvariant

datatype Failure = FailCancelled | FailTransport TransportError | FailWriter WriterError | FailPanicked

datatype Occupant = OccupantFile u64 digest | OtherSize | NotAFile

record probe =
  pb_total :: u64
  pb_validator :: "digest option"

definition pb_ranges :: "probe \<Rightarrow> bool" where
  "pb_ranges p \<longleftrightarrow> pb_validator p \<noteq> None"

record part_spec =
  ps_job :: JobId
  ps_generation :: Generation
  ps_size :: u64

definition part_spec_new :: "JobId \<Rightarrow> Generation \<Rightarrow> u64 \<Rightarrow> (DomainError, part_spec) result" where
  "part_spec_new job generation n =
     (if I64_MAX < n then Inl InvalidInput
      else Inr \<lparr>ps_job = job, ps_generation = generation, ps_size = n\<rparr>)"

record coordinator_config =
  cc_connections :: usize
  cc_max_segments :: usize
  cc_min_segment :: u64
  cc_checkpoint_bytes :: u64
  cc_writer_capacity :: usize
  cc_retry :: retry_policy

definition config_valid :: "coordinator_config \<Rightarrow> bool" where
  "config_valid c \<longleftrightarrow>
     (1 \<le> cc_connections c \<and> cc_connections c \<le> 16) \<and>
     (cc_connections c \<le> cc_max_segments c \<and> cc_max_segments c \<le> 262144) \<and>
     0 < cc_min_segment c \<and> 0 < cc_checkpoint_bytes c \<and>
     (1 \<le> cc_writer_capacity c \<and> cc_writer_capacity c \<le> 256)"

text \<open>A transaction works, fails without effect, or takes effect and loses its answer.\<close>

datatype fate = Works | Fails | LosesAnswer

record session =
  ss_config :: coordinator_config
  ss_repo :: db
  ss_fates :: "fate list"
  ss_governor :: "governor option"
  ss_origin :: OriginId
  ss_job :: job
  ss_control :: "Control list"
  ss_control_open :: bool
  ss_writer :: bool
  ss_leases :: "(u64 \<times> lease) list"
  ss_stop_workers :: bool
  ss_unsynced :: u64
  ss_storage_failed :: bool
  ss_connections :: usize
  ss_next_worker :: u64

text \<open>The answers of everything outside for one operation.\<close>

record outside =
  ou_now :: u64
  ou_jitter :: u64
  ou_sync :: bool
  ou_hash :: "byte_range \<Rightarrow> digest option"
  ou_verify :: "digest option \<Rightarrow> (byte_range \<times> digest) list \<Rightarrow> (WriterError, digest) result"
  ou_parts :: bool
  ou_open :: "part_spec \<Rightarrow> durable_extent list \<Rightarrow> (StorageError, unit) result"
  ou_destination :: "string option"
  ou_inspect :: "string \<Rightarrow> u64 \<Rightarrow> (RunError, Occupant option) result"
  ou_publish :: "string \<Rightarrow> (WriterError, string) result"

type_synonym 'a session_op = "session \<Rightarrow> session \<times> (RunError, 'a) result"

definition op_ok :: "'a \<Rightarrow> 'a session_op" where
  "op_ok x s = (s, Inr x)"

definition op_fail :: "RunError \<Rightarrow> 'a session_op" where
  "op_fail e s = (s, Inl e)"

definition op_bind :: "'a session_op \<Rightarrow> ('a \<Rightarrow> 'b session_op) \<Rightarrow> 'b session_op" where
  "op_bind m f s = (case m s of (s', Inl e) \<Rightarrow> (s', Inl e) | (s', Inr x) \<Rightarrow> f x s')"

definition op_with :: "(session \<Rightarrow> 'a session_op) \<Rightarrow> 'a session_op" where
  "op_with f s = f s s"

definition op_change :: "(session \<Rightarrow> session) \<Rightarrow> unit session_op" where
  "op_change f s = (f s, Inr ())"

text \<open>An operation of the aggregate; on an error the aggregate is unchanged.\<close>

definition op_job :: "(job \<Rightarrow> (DomainError, job \<times> 'a) result) \<Rightarrow> 'a session_op" where
  "op_job f s = (case f (ss_job s) of
      Inl e \<Rightarrow> (s, Inl (RDomain e))
    | Inr (j, x) \<Rightarrow> (s\<lparr>ss_job := j\<rparr>, Inr x))"

definition op_job_unit :: "(job \<Rightarrow> (DomainError, job) result) \<Rightarrow> unit session_op" where
  "op_job_unit f = op_job (\<lambda>j. res_bind (f j) (\<lambda>j'. Inr (j', ())))"

section \<open>Transactions\<close>

definition next_fate :: "session \<Rightarrow> fate \<times> session" where
  "next_fate s = (case ss_fates s of [] \<Rightarrow> (Works, s) | f # fs \<Rightarrow> (f, s\<lparr>ss_fates := fs\<rparr>))"

definition run_transaction :: "(db \<Rightarrow> bool \<Rightarrow> (PersistenceError, db) result) \<Rightarrow> session \<Rightarrow>
  session \<times> (CommitError, unit) result" where
  "run_transaction t s =
     (let (f, s1) = next_fate s in
      case t (ss_repo s1) (f \<noteq> Fails) of
        Inl e \<Rightarrow> (s1, Inl (commit_error e))
      | Inr d \<Rightarrow> (s1\<lparr>ss_repo := d\<rparr>, if f = LosesAnswer then Inl CommitUnavailable else Inr ()))"

definition commit_transition :: "job_event \<Rightarrow> session \<Rightarrow> session \<times> (CommitError, unit) result" where
  "commit_transition e = run_transaction (\<lambda>d io. transition d e io)"

definition commit_extents ::
  "JobId \<Rightarrow> Generation \<Rightarrow> durable_extent list \<Rightarrow> session \<Rightarrow> session \<times> (CommitError, unit) result" where
  "commit_extents job generation es = run_transaction (\<lambda>d io. durable d job generation es io)"

definition record_publish_intent :: "publish_intent \<Rightarrow> session \<Rightarrow> session \<times> (CommitError, unit) result" where
  "record_publish_intent p = run_transaction (\<lambda>d io. intend_publish d p io)"

definition op_commit :: "(session \<Rightarrow> session \<times> (CommitError, unit) result) \<Rightarrow> unit session_op" where
  "op_commit t s = (let (s', r) = t s in (s', map_err RCommit r))"

fun commit_and_apply :: "job_event list \<Rightarrow> unit session_op" where
  "commit_and_apply [] = op_ok ()"
| "commit_and_apply (e # es) =
     op_bind (op_commit (commit_transition e)) (\<lambda>_.
     op_bind (op_job_unit (\<lambda>j. job_apply j e)) (\<lambda>_.
     commit_and_apply es))"

definition session_step :: "JobCommand \<Rightarrow> unit session_op" where
  "session_step c =
     op_with (\<lambda>s. case job_decide (ss_job s) c of
        Inl e \<Rightarrow> op_fail (RDomain e)
      | Inr events \<Rightarrow> commit_and_apply events)"

text \<open>\<open>Coordinator::recover\<close>; removing the part of a cancelled job is best effort and leaves no
  trace in the session.\<close>

definition recover :: "unit session_op" where
  "recover =
     op_with (\<lambda>s.
       if j_state (ss_job s) \<in> {Probing, Transferring, Verifying} then
         op_bind (session_step CPause) (\<lambda>_. op_with (\<lambda>s.
           if j_state (ss_job s) = Stopping then session_step CWorkersDrained else op_ok ()))
       else if j_state (ss_job s) = Stopping then session_step CWorkersDrained
       else if j_state (ss_job s) = Cancelling then session_step CCleanupFinished
       else op_ok ())"

section \<open>Planning\<close>

definition wrap64 :: "nat \<Rightarrow> u64" where
  "wrap64 n = n mod 2 ^ 64"

definition div_ceil :: "u64 \<Rightarrow> u64 \<Rightarrow> u64" where
  "div_ceil a b = (if a mod b = 0 then a div b else a div b + 1)"

text \<open>The splitting loop stops at the first refusal for capacity. Each round moves the cut on by
  the piece size, so the distance to the end shrinks.\<close>

function split_loop :: "u64 \<Rightarrow> u64 \<Rightarrow> SegmentId \<Rightarrow> u64 \<Rightarrow> unit session_op" where
  "split_loop n piece here at s =
     (if piece = 0 \<or> n \<le> at then (s, Inr ())
      else case job_split_pending (ss_job s) here at of
        Inr (j, right) \<Rightarrow> split_loop n piece right (at + piece) (s\<lparr>ss_job := j\<rparr>)
      | Inl Capacity \<Rightarrow> (s, Inr ())
      | Inl e \<Rightarrow> (s, Inl (RDomain e)))"
  by pat_completeness auto
termination by (relation "measure (\<lambda>(n, piece, here, at, s). n - at)") auto

definition initial_split :: "unit session_op" where
  "initial_split =
     op_with (\<lambda>s. case j_segments (ss_job s) of
        None \<Rightarrow> op_ok ()
      | Some m \<Rightarrow>
          (case sm_segments m of
             [only] \<Rightarrow>
               if sg_state only \<noteq> Pending \<or> br_start (sg_range only) \<noteq> 0 then op_ok ()
               else
                 let n = br_end (sg_range only);
                     unit = cc_min_segment (ss_config s);
                     pieces = min (n div unit) (ss_connections s) in
                 if pieces < 2 then op_ok ()
                 else let piece = wrap64 (div_ceil (div_ceil n pieces) unit * unit) in
                      split_loop n piece (sg_id only) piece
           | _ \<Rightarrow> op_ok ()))"

definition pending_segments :: "job \<Rightarrow> segment list" where
  "pending_segments j =
     (case j_segments j of None \<Rightarrow> []
      | Some m \<Rightarrow> filter (\<lambda>s. sg_state s = Pending) (sm_segments m))"

definition lease_cap :: "coordinator_config \<Rightarrow> u64" where
  "lease_cap c =
     wrap64 (div_ceil (max (cc_checkpoint_bytes c) (cc_min_segment c)) (cc_min_segment c) * cc_min_segment c)"

definition cap_lease :: "SegmentId \<Rightarrow> SegmentId session_op" where
  "cap_lease i s =
     (case j_segments (ss_job s) of
        None \<Rightarrow> (s, Inr i)
      | Some m \<Rightarrow>
          (case find (\<lambda>x. sg_id x = i) (sm_segments m) of
             None \<Rightarrow> (s, Inr i)
           | Some x \<Rightarrow>
               if lease_cap (ss_config s) < br_len (sg_range x) then
                 (case job_split_pending (ss_job s) i (br_start (sg_range x) + lease_cap (ss_config s)) of
                    Inr (j, _) \<Rightarrow> (s\<lparr>ss_job := j\<rparr>, Inr i)
                  | Inl Capacity \<Rightarrow> (s, Inr i)
                  | Inl e \<Rightarrow> (s, Inl (RDomain e)))
               else (s, Inr i)))"

definition steal_point :: "coordinator_config \<Rightarrow> byte_range \<Rightarrow> u64" where
  "steal_point c r =
     wrap64 (br_start r + wrap64 (div_ceil (br_len r div 2) (cc_min_segment c) * cc_min_segment c))"

definition next_pending :: "SegmentId option session_op" where
  "next_pending s =
     (case pending_segments (ss_job s) of
        [] \<Rightarrow> (s, Inr None)
      | first # rest \<Rightarrow>
          let pending = first # rest;
              idle = ss_connections s - length (ss_leases s);
              unit = cc_min_segment (ss_config s);
              capped = op_bind (cap_lease (sg_id first)) (\<lambda>i. op_ok (Some i)) in
          case max_by_key (\<lambda>x. br_len (sg_range x)) pending of
            None \<Rightarrow> capped s
          | Some x \<Rightarrow>
              let mid = steal_point (ss_config s) (sg_range x) in
              if length pending < idle \<and> wrap64 (2 * unit) \<le> br_len (sg_range x) \<and> mid < br_end (sg_range x) then
                (case job_split_pending (ss_job s) (sg_id x) mid of
                   Inr (j, right) \<Rightarrow> (s\<lparr>ss_job := j\<rparr>, Inr (Some right))
                 | Inl Capacity \<Rightarrow> capped s
                 | Inl e \<Rightarrow> (s, Inl (RDomain e)))
              else capped s)"

lemma cap_lease_frame: "cap_lease i s = (s', r) \<Longrightarrow> s' = s\<lparr>ss_job := ss_job s'\<rparr>"
  by (auto simp: cap_lease_def split: option.splits sum.splits prod.splits if_splits DomainError.splits)

lemma next_pending_frame:
  assumes "next_pending s = (s', r)"
  shows "s' = s\<lparr>ss_job := ss_job s'\<rparr>"
proof -
  have capped: "t' = s\<lparr>ss_job := ss_job t'\<rparr>" if "op_bind (cap_lease i) (\<lambda>i. op_ok (Some i)) s = (t', q)" for i t' q
    using that cap_lease_frame [of i s]
    by (cases "cap_lease i s") (auto simp: op_bind_def op_ok_def split: sum.splits)
  show ?thesis
    using assms
    by (auto simp: next_pending_def Let_def dest: capped
        split: list.splits option.splits if_splits sum.splits prod.splits DomainError.splits)
qed

text \<open>Each round of the loop adds a worker, so the free connections shrink.\<close>

function spawn_workers :: "unit session_op" where
  "spawn_workers s =
     (if j_state (ss_job s) = Transferring \<and> length (ss_leases s) < ss_connections s then
        (case next_pending s of
           (s1, Inl e) \<Rightarrow> (s1, Inl e)
         | (s1, Inr None) \<Rightarrow> (s1, Inr ())
         | (s1, Inr (Some i)) \<Rightarrow>
             let s2 = s1\<lparr>ss_next_worker := ss_next_worker s1 + 1\<rparr> in
             (case job_lease_segment (ss_job s2) i (ss_next_worker s2) of
                Inl e \<Rightarrow> (s2, Inl (RDomain e))
              | Inr (j, l) \<Rightarrow>
                  if \<not> ss_writer s2 then (s2\<lparr>ss_job := j\<rparr>, Inl (RWriter WClosed))
                  else spawn_workers (s2\<lparr>ss_job := j, ss_leases := ss_leases s2 @ [(ss_next_worker s2, l)]\<rparr>)))
      else (s, Inr ()))"
  by pat_completeness auto
termination
proof (relation "measure (\<lambda>s. ss_connections s - length (ss_leases s))")
  fix s s1 :: session and r x i s2 y j l
  assume go: "j_state (ss_job s) = Transferring \<and> length (ss_leases s) < ss_connections s"
    and run: "(s1, r) = next_pending s" and s2: "s2 = s1\<lparr>ss_next_worker := ss_next_worker s1 + 1\<rparr>"
  have "s1 = s\<lparr>ss_job := ss_job s1\<rparr>" using run [symmetric] by (rule next_pending_frame)
  then have "ss_leases s1 = ss_leases s" "ss_connections s1 = ss_connections s" by (metis session.select_convs session.surjective session.update_convs)+
  then show "(s2\<lparr>ss_job := j, ss_leases := ss_leases s2 @ [(ss_next_worker s2, l)]\<rparr>, s)
      \<in> measure (\<lambda>s. ss_connections s - length (ss_leases s))"
    using go s2 by auto
qed simp


section \<open>Stopping\<close>

definition stop_with :: "JobCommand \<Rightarrow> unit session_op" where
  "stop_with c =
     op_bind (op_with (\<lambda>s. if j_state (ss_job s) \<in> {Probing, Transferring, Stopping} then session_step c else op_ok ()))
       (\<lambda>_. op_change (\<lambda>s. s\<lparr>ss_stop_workers := True\<rparr>))"

definition on_control :: "Control option \<Rightarrow> unit session_op" where
  "on_control c =
     (case c of
        None \<Rightarrow> op_change (\<lambda>s. s\<lparr>ss_control_open := False\<rparr>)
      | Some ControlPause \<Rightarrow> stop_with CPause
      | Some ControlCancel \<Rightarrow>
          op_bind (session_step CCancel) (\<lambda>_. op_change (\<lambda>s. s\<lparr>ss_stop_workers := True\<rparr>)))"

text \<open>The governor hears of the failure; the retry policy decides when this job asks again.\<close>

definition tell_governor :: "outside \<Rightarrow> TransportError \<Rightarrow> session \<Rightarrow> session" where
  "tell_governor out e s =
     s\<lparr>ss_governor := map_option (\<lambda>g.
          case e of TransportThrottled after \<Rightarrow> origin_throttled g (ss_origin s) after (ou_now out)
          | _ \<Rightarrow> origin_failed g (ss_origin s) (ou_now out)) (ss_governor s)\<rparr>"

definition retry_command :: "outside \<Rightarrow> TransportError \<Rightarrow> session \<Rightarrow> JobCommand" where
  "retry_command out e s =
     (let (class, deadline) =
        (case e of TransportThrottled after \<Rightarrow> (Throttled, map_option (saturating_add (ou_now out)) after)
         | _ \<Rightarrow> (Transient, None)) in
      case retry_decide (cc_retry (ss_config s)) class (max (j_attempts (ss_job s)) 1) (ou_now out) deadline
             (ou_jitter out) of
        Inr (RetryAt at) \<Rightarrow> CRetry at
      | _ \<Rightarrow> CRequireAction RNetwork)"

definition on_transport_error :: "outside \<Rightarrow> TransportError \<Rightarrow> unit session_op" where
  "on_transport_error out e =
     (case e of
        TransportRepresentationChanged \<Rightarrow> stop_with CRepresentationChanged
      | TransportUserAction r \<Rightarrow> stop_with (CRequireAction r)
      | TransportFatal r \<Rightarrow> stop_with (CFail r)
      | _ \<Rightarrow> op_bind (op_change (tell_governor out e)) (\<lambda>_. op_with (\<lambda>s. stop_with (retry_command out e s))))"

definition on_storage_failure :: "unit session_op" where
  "on_storage_failure =
     op_bind (op_change (\<lambda>s. s\<lparr>ss_storage_failed := True\<rparr>)) (\<lambda>_. stop_with (CRequireAction RStorage))"

definition take_lease :: "u64 \<Rightarrow> lease session_op" where
  "take_lease w s =
     (case map_of (ss_leases s) w of
        None \<Rightarrow> (s, Inl RInvariant)
      | Some l \<Rightarrow> (s\<lparr>ss_leases := filter (\<lambda>(v, _). v \<noteq> w) (ss_leases s)\<rparr>, Inr l))"

definition on_worker :: "outside \<Rightarrow> u64 \<Rightarrow> (Failure, unit) result \<Rightarrow> unit session_op" where
  "on_worker out w outcome =
     op_bind (take_lease w) (\<lambda>l.
     case outcome of
       Inr _ \<Rightarrow>
         op_bind (op_job_unit (\<lambda>j. job_mark_written j l)) (\<lambda>_.
           op_change (\<lambda>s. s\<lparr>ss_unsynced := ss_unsynced s + br_len (ls_range l)\<rparr>))
     | Inl failure \<Rightarrow>
         op_bind (op_job_unit (\<lambda>j. job_release j l)) (\<lambda>_.
           case failure of
             FailCancelled \<Rightarrow> op_ok ()
           | FailTransport e \<Rightarrow> on_transport_error out e
           | FailWriter WCancelled \<Rightarrow> op_ok ()
           | FailWriter _ \<Rightarrow> on_storage_failure
           | FailPanicked \<Rightarrow> stop_with (CFail RUnknown)))"

section \<open>Checkpoint\<close>

definition session_has_unsynced :: "session \<Rightarrow> bool" where
  "session_has_unsynced s = (case j_segments (ss_job s) of None \<Rightarrow> False | Some m \<Rightarrow> has_unsynced m)"

fun hash_ranges :: "(byte_range \<Rightarrow> digest option) \<Rightarrow> byte_range list \<Rightarrow> durable_extent list option" where
  "hash_ranges h [] = Some []"
| "hash_ranges h (r # rs) =
     (case h r of None \<Rightarrow> None
      | Some d \<Rightarrow> map_option (\<lambda>es. \<lparr>de_range = r, de_digest = d\<rparr> # es) (hash_ranges h rs))"

text \<open>An ambiguous failure is retried with identical extents.\<close>

fun commit_extents_retrying ::
  "nat \<Rightarrow> JobId \<Rightarrow> Generation \<Rightarrow> durable_extent list \<Rightarrow> session \<Rightarrow> session \<times> (CommitError, unit) result" where
  "commit_extents_retrying 0 job g es s = commit_extents job g es s"
| "commit_extents_retrying (Suc n) job g es s =
     (case commit_extents job g es s of
        (s', Inl CommitUnavailable) \<Rightarrow> commit_extents_retrying n job g es s'
      | r \<Rightarrow> r)"

definition session_checkpoint :: "outside \<Rightarrow> unit session_op" where
  "session_checkpoint out =
     op_with (\<lambda>s.
       if \<not> session_has_unsynced s \<or> ss_storage_failed s then op_ok ()
       else if \<not> ss_writer s then op_fail (RWriter WClosed)
       else
         op_bind (op_job job_prepare_sync) (\<lambda>ticket.
         if \<not> ou_sync out then op_bind (op_job_unit abandon_checkpoint) (\<lambda>_. on_storage_failure)
         else
         op_bind (op_job (\<lambda>j. job_acknowledge_sync j ticket)) (\<lambda>batch.
         case hash_ranges (ou_hash out) (cb_ranges batch) of
           None \<Rightarrow> op_bind (op_job_unit abandon_checkpoint) (\<lambda>_. on_storage_failure)
         | Some es \<Rightarrow>
             (\<lambda>s. case commit_extents_retrying 2 (cb_job batch) (cb_generation batch) es s of
                (s', Inl e) \<Rightarrow> op_bind (op_job_unit abandon_checkpoint) (\<lambda>_. op_fail (RCommit e)) s'
              | (s', Inr _) \<Rightarrow>
                  op_bind (op_job_unit (\<lambda>j. job_acknowledge_commit j batch)) (\<lambda>_.
                    op_change (\<lambda>s. s\<lparr>ss_unsynced := 0\<rparr>)) s'))))"

section \<open>Publication\<close>

definition op_read :: "(db \<Rightarrow> (PersistenceError, 'a) result) \<Rightarrow> 'a session_op" where
  "op_read f s =
     (let (x, s1) = next_fate s in
      if x = Fails then (s1, Inl RRepository)
      else (s1, map_err (\<lambda>_. RRepository) (f (ss_repo s1))))"

definition open_part :: "outside \<Rightarrow> unit session_op" where
  "open_part out =
     op_with (\<lambda>s. case job_plan (ss_job s) of
        None \<Rightarrow> op_fail (RNotRunnable (j_state (ss_job s)))
      | Some (n, _) \<Rightarrow>
          (case part_spec_new (j_id (ss_job s)) (j_generation (ss_job s)) n of
             Inl e \<Rightarrow> op_fail (RDomain e)
           | Inr spec \<Rightarrow>
               op_bind (op_read (\<lambda>d. current_extents d (j_id (ss_job s)))) (\<lambda>es.
               if \<not> ou_parts out then op_fail (RStorageError SInvalidInput)
               else case ou_open out spec es of
                 Inr _ \<Rightarrow>
                   if \<not> (1 \<le> cc_writer_capacity (ss_config s) \<and> cc_writer_capacity (ss_config s) \<le> 256)
                   then op_fail (RWriter WInvalidCapacity)
                   else op_change (\<lambda>s. s\<lparr>ss_writer := True\<rparr>)
               | Inl e \<Rightarrow>
                   let reason = (if e = SIntegrity then RIntegrity else RStorage) in
                   op_bind (op_change (\<lambda>s. s\<lparr>ss_storage_failed := True\<rparr>)) (\<lambda>_. op_with (\<lambda>s.
                     if j_state (ss_job s) \<in> {Verifying, Publishing} then session_step (CRequireAction reason)
                     else stop_with (CRequireAction reason))))))"

definition settled_end :: "SessionEnd session_op" where
  "settled_end s = (s, Inr (Settled (j_state (ss_job s))))"

definition publish_blocked :: "StopReason \<Rightarrow> SessionEnd session_op" where
  "publish_blocked reason =
     op_bind (op_with (\<lambda>s. if j_state (ss_job s) \<in> {Publishing, Verifying} then session_step (CRequireAction reason)
                       else op_ok ())) (\<lambda>_. settled_end)"

definition extent_record :: "durable_extent list \<Rightarrow> (byte_range \<times> digest) list" where
  "extent_record es = map (\<lambda>e. (de_range e, de_digest e)) es"

text \<open>A part reopened in this session proves its bytes again before the rename.\<close>

definition reverify :: "outside \<Rightarrow> publish_intent \<Rightarrow> StopReason option session_op" where
  "reverify out p =
     (if \<not> ou_sync out then op_ok (Some RStorage)
      else op_with (\<lambda>s. op_bind (op_read (\<lambda>d. current_extents d (j_id (ss_job s)))) (\<lambda>es.
        case ou_verify out (js_expected_sha256 (j_spec (ss_job s))) (extent_record es) of
          Inr dg \<Rightarrow> op_ok (if dg = pi_digest p then None else Some RIntegrity)
        | Inl (WStorage SIntegrity) \<Rightarrow> op_ok (Some RIntegrity)
        | Inl _ \<Rightarrow> op_ok (Some RStorage))))"

definition rename_part :: "outside \<Rightarrow> string \<Rightarrow> SessionEnd session_op" where
  "rename_part out destination =
     (case ou_publish out destination of
        Inr path \<Rightarrow> op_bind (session_step CPublishCommitted) (\<lambda>_. op_ok (Published path))
      | Inl (WStorage SConflict) \<Rightarrow> publish_blocked RDestination
      | Inl _ \<Rightarrow> publish_blocked RStorage)"

definition attempt_publish :: "outside \<Rightarrow> publish_intent \<Rightarrow> SessionEnd session_op" where
  "attempt_publish out p =
     op_with (\<lambda>s.
       if pi_generation p \<noteq> j_generation (ss_job s) then publish_blocked RStorage
       else case ou_destination out of
         None \<Rightarrow> op_fail RRepository
       | Some destination \<Rightarrow>
           (case ou_inspect out destination (pi_size p) of
              Inl e \<Rightarrow> op_fail e
            | Inr (Some found) \<Rightarrow>
                if found = OccupantFile (pi_size p) (pi_digest p) then
                  op_bind (session_step CPublishCommitted) (\<lambda>_. op_ok (Published destination))
                else publish_blocked RDestination
            | Inr None \<Rightarrow>
                op_bind (if ss_writer s then op_ok () else open_part out) (\<lambda>_. op_with (\<lambda>t.
                if \<not> ss_writer t then settled_end
                else if ss_writer s then rename_part out destination
                else op_bind (reverify out p) (\<lambda>verdict.
                  case verdict of None \<Rightarrow> rename_part out destination
                  | Some reason \<Rightarrow> publish_blocked reason)))))"

definition publish :: "outside \<Rightarrow> digest \<Rightarrow> SessionEnd session_op" where
  "publish out dg =
     op_with (\<lambda>s.
     op_bind (op_read (\<lambda>d. intent d (j_id (ss_job s)))) (\<lambda>previous.
     let p = \<lparr>pi_job = j_id (ss_job s), pi_generation = j_generation (ss_job s),
              pi_attempt = (case previous of None \<Rightarrow> 1 | Some q \<Rightarrow> min (pi_attempt q + 1) U32_MAX),
              pi_size = (case job_plan (ss_job s) of None \<Rightarrow> 0 | Some (n, _) \<Rightarrow> n), pi_digest = dg\<rparr> in
     op_bind (op_commit (record_publish_intent p)) (\<lambda>_.
     op_bind (session_step CVerificationPassed) (\<lambda>_.
     attempt_publish out p))))"

definition resume_publish :: "outside \<Rightarrow> SessionEnd session_op" where
  "resume_publish out =
     op_with (\<lambda>s.
     op_bind (op_read (\<lambda>d. intent d (j_id (ss_job s)))) (\<lambda>found.
     case found of
       None \<Rightarrow> op_bind (session_step (CRequireAction RStorage)) (\<lambda>_. settled_end)
     | Some p \<Rightarrow> attempt_publish out p))"

definition verify :: "outside \<Rightarrow> SessionEnd session_op" where
  "verify out =
     op_with (\<lambda>s.
       if \<not> ss_writer s then settled_end
       else if \<not> ou_sync out then op_bind (session_step (CRequireAction RStorage)) (\<lambda>_. settled_end)
       else
       op_bind (op_read (\<lambda>d. current_extents d (j_id (ss_job s)))) (\<lambda>es.
       case ou_verify out (js_expected_sha256 (j_spec (ss_job s))) (extent_record es) of
         Inr dg \<Rightarrow> publish out dg
       | Inl e \<Rightarrow>
           op_bind (session_step (CRequireAction (if e = WStorage SIntegrity then RIntegrity else RStorage)))
             (\<lambda>_. settled_end)))"

section \<open>The session\<close>

fun join_workers :: "outside \<Rightarrow> (u64 \<times> (Failure, unit) result) list \<Rightarrow> unit session_op" where
  "join_workers out [] = op_ok ()"
| "join_workers out ((w, outcome) # rest) = op_bind (on_worker out w outcome) (\<lambda>_. join_workers out rest)"

fun drain_controls :: "Control list \<Rightarrow> unit session_op" where
  "drain_controls [] = op_ok ()"
| "drain_controls (c # cs) =
     op_bind (op_change (\<lambda>s. s\<lparr>ss_control := cs\<rparr>)) (\<lambda>_.
     op_bind (op_with (\<lambda>s. if c = ControlCancel \<and> j_state (ss_job s) \<in> {Stopping, Paused}
                        then session_step CCancel else op_ok ())) (\<lambda>_.
     drain_controls cs))"

definition final_checkpoint :: "outside \<Rightarrow> unit session_op" where
  "final_checkpoint out =
     op_with (\<lambda>s.
       if session_has_unsynced s \<and> \<not> j_replace_on_drain (ss_job s) then
         if ss_storage_failed s then op_job_unit job_discard_unsynced
         else op_bind (session_checkpoint out) (\<lambda>_. op_with (\<lambda>s.
                if ss_storage_failed s then op_job_unit job_discard_unsynced else op_ok ()))
       else op_ok ())"

definition finish :: "outside \<Rightarrow> (u64 \<times> (Failure, unit) result) list \<Rightarrow> SessionEnd session_op" where
  "finish out joined =
     op_bind (join_workers out joined) (\<lambda>_.
     op_bind (op_with (\<lambda>s. if ss_control_open s then drain_controls (ss_control s) else op_ok ())) (\<lambda>_.
     op_bind (op_with (\<lambda>s.
        if j_state (ss_job s) = Stopping then
          op_bind (final_checkpoint out) (\<lambda>_. session_step CWorkersDrained)
        else if j_state (ss_job s) = Cancelling then session_step CCleanupFinished
        else op_ok ())) (\<lambda>_.
     op_with (\<lambda>s. if j_state (ss_job s) = Verifying then verify out else settled_end))))"

text \<open>One turn of the transfer loop up to its \<open>select\<close>: go round again, wait for a worker or a
  control message, or leave the loop.\<close>

datatype turn = TurnAgain | TurnSelect | TurnDone

definition transfer_turn :: "outside \<Rightarrow> turn session_op" where
  "transfer_turn out =
     op_bind spawn_workers (\<lambda>_. op_with (\<lambda>s.
     if ss_leases s = [] then
       if j_state (ss_job s) = Transferring then
         if session_has_unsynced s then op_bind (session_checkpoint out) (\<lambda>_. op_ok TurnAgain)
         else if (case j_segments (ss_job s) of None \<Rightarrow> False | Some m \<Rightarrow> all_durable m) then
           op_bind (session_step CAllSegmentsDurable) (\<lambda>_. op_ok TurnAgain)
         else op_fail RInvariant
       else op_ok TurnDone
     else if j_state (ss_job s) = Transferring \<and> cc_checkpoint_bytes (ss_config s) \<le> ss_unsynced s then
       op_bind (session_checkpoint out) (\<lambda>_. op_ok TurnSelect)
     else op_ok TurnSelect))"

text \<open>The part of \<open>drive\<close> after a successful probe, up to the transfer loop.\<close>

definition on_probe :: "outside \<Rightarrow> probe \<Rightarrow> bool session_op" where
  "on_probe out p =
     op_with (\<lambda>s.
     if (case job_plan (ss_job s) of None \<Rightarrow> False
         | Some (n, _) \<Rightarrow> n \<noteq> pb_total p \<or> pb_validator p = None \<or> pb_validator p \<noteq> j_validator (ss_job s))
     then op_bind (session_step CRepresentationChanged) (\<lambda>_. op_ok False)
     else
       op_bind (op_change (\<lambda>s. s\<lparr>ss_governor := map_option (\<lambda>g. origin_succeeded g (ss_origin s) (ou_now out)) (ss_governor s),
                                 ss_connections := (if pb_ranges p then ss_connections s else 1)\<rparr>)) (\<lambda>_.
       op_bind (session_step (CProbeSucceeded (pb_total p)
                  (if pb_ranges p then cc_max_segments (ss_config s) else 1) (pb_validator p))) (\<lambda>_.
       op_bind (open_part out) (\<lambda>_. op_with (\<lambda>s.
         if j_state (ss_job s) \<noteq> Transferring then op_ok False
         else op_bind initial_split (\<lambda>_. op_ok True))))))"

text \<open>Everything a session may be asked to do, in the order the events outside arrive.\<close>

datatype session_event =
    EvStart | EvProbe probe | EvProbeFailed TransportError | EvTurn | EvControl "Control option"
  | EvWorker u64 "(Failure, unit) result" | EvFinish "(u64 \<times> (Failure, unit) result) list"
  | EvOpenPart | EvVerify | EvResumePublish | EvRecover | EvCommand JobCommand

definition op_unit :: "'a session_op \<Rightarrow> unit session_op" where
  "op_unit m = op_bind m (\<lambda>_. op_ok ())"

fun perform :: "outside \<Rightarrow> session_event \<Rightarrow> unit session_op" where
  "perform out EvStart = session_step CStart"
| "perform out (EvProbe p) = op_unit (on_probe out p)"
| "perform out (EvProbeFailed e) = on_transport_error out e"
| "perform out EvTurn = op_unit (transfer_turn out)"
| "perform out (EvControl c) = on_control c"
| "perform out (EvWorker w outcome) = on_worker out w outcome"
| "perform out (EvFinish joined) = op_unit (finish out joined)"
| "perform out EvOpenPart = open_part out"
| "perform out EvVerify = op_unit (verify out)"
| "perform out EvResumePublish = op_unit (resume_publish out)"
| "perform out EvRecover = recover"
| "perform out (EvCommand c) = session_step c"

end
