(* ===== verification/Session_Props.thy ===== *)
theory Session_Props
  imports Coordinator
begin

text \<open>
  What a session does to the record of its job. Every operation of the coordinator, whatever the
  outside answers and whichever transactions fail or lose their answers, keeps the repository
  loadable, and unless a commit failed it also keeps the aggregate in step with the repository.
\<close>

named_theorems op_rules \<open>how session operations keep the record\<close>

section \<open>Planned events\<close>

lemma decide_events:
  assumes "job_decide j c = Inr es"
  obtains "es = []" | e j' where "es = [e]" "job_apply j e = Inr j'"
proof -
  obtain ch k where k: "execute j c = Inr (ch, k)"
    using assms by (auto simp: job_decide_def res_simps)
  show ?thesis
  proof (cases ch)
    case False
    then show ?thesis using assms k that(1) by (auto simp: job_decide_def)
  next
    case True
    then have ok: "Suc (j_version j) \<le> U64_MAX" and es: "es = [event_of j c k]"
      using assms k by (auto simp: job_decide_def event_of_def checked_add_def res_simps split: if_splits)
    have "execute j c = Inr (True, k)" using k True by simp
    then show ?thesis using that(2) [OF es] event_of_applies ok by blast
  qed
qed

lemma transition_fits:
  assumes holds: "repo_holds d j es" and app: "job_apply j e = Inr j'" and run: "transition d e io = Inr d'"
  shows "job_fits j'"
proof -
  obtain k where k: "execute j (je_command e) = Inr (True, k)" "j' = k\<lparr>j_version := Suc (j_version j)\<rparr>"
    "je_version e = Suc (j_version j)" "je_job e = j_id j" "je_outcome e = projection k"
    using app by (rule job_apply_Inr)
  have core: "j_id k = j_id j" "j_spec k = j_spec j"
    using execute_core [OF k(1)] by (simp_all add: core_frame_def)
  have old: "spec_fits (j_spec j)" "j_id j \<le> I64_MAX" using holds by (simp_all add: repo_holds_def job_fits_def)
  obtain plan row kind v retry where
    new: "Suc (j_version j) \<le> I64_MAX" "j_generation k \<le> I64_MAX" "stop_columns (j_stop k) = Inr (kind, v)"
    "opt_try stored (j_retry_at k) = Inr retry" "state_row_ok row" "sr_validator row = j_validator k"
    using run k(3,5)
    by (auto simp: transition_def store_outcome_def outcome_row_def projection_def Let_def res_simps stored_Inr
        split: if_splits prod.splits)
  have "digest_ok (j_validator k)"
    using new(5,6) by (auto simp: state_row_ok_def digest_ok_def split: option.splits)
  moreover have "t \<le> I64_MAX" if "j_retry_at k = Some t" for t
    using new(4) that by (simp add: res_simps stored_Inr)
  moreover have "target_fits t" if "j_stop k = Some t" for t
    using new(3) that by (cases t) (auto simp: res_simps stored_Inr)
  ultimately show ?thesis
    using old core new(1,2) k(2) by (simp add: job_fits_def)
qed

lemma in_step_transition:
  assumes "in_step d j" "job_apply j e = Inr j'" "transition d e True = Inr d'"
  shows "in_step d' j' \<and> j_id j' = j_id j"
proof -
  obtain es where holds: "repo_holds d j es" using assms(1) by (auto simp: in_step_def)
  have "live_step (d, j) (d', j')" using assms(2) transition_fits [OF holds assms(2,3)] assms(3) by (rule lv_transition)
  then show ?thesis using live_step_in_step assms(1) by blast
qed

section \<open>Triples\<close>

definition tracked :: "JobId \<Rightarrow> session \<Rightarrow> bool" where
  "tracked i s \<longleftrightarrow> in_step (ss_repo s) (ss_job s) \<and> j_id (ss_job s) = i"

definition recoverable :: "JobId \<Rightarrow> session \<Rightarrow> bool" where
  "recoverable i s \<longleftrightarrow> (\<exists>j. in_step (ss_repo s) j \<and> j_id j = i)"

definition failed_safely :: "JobId \<Rightarrow> RunError \<Rightarrow> session \<Rightarrow> bool" where
  "failed_safely i e s \<longleftrightarrow> recoverable i s \<and> (tracked i s \<or> (\<exists>c. e = RCommit c))"

text \<open>How an operation started in step with the repository may end.\<close>

definition ends_well :: "JobId \<Rightarrow> session \<times> (RunError, 'a) result \<Rightarrow> bool" where
  "ends_well i p \<longleftrightarrow> (case snd p of Inr _ \<Rightarrow> tracked i (fst p) | Inl e \<Rightarrow> failed_safely i e (fst p))"

definition keeps :: "JobId \<Rightarrow> 'a session_op \<Rightarrow> bool" where
  "keeps i m \<longleftrightarrow> (\<forall>s. tracked i s \<longrightarrow> ends_well i (m s))"

lemma tracked_recoverable: "tracked i s \<Longrightarrow> recoverable i s"
  by (auto simp: tracked_def recoverable_def)

lemma ends_well_simps [simp]:
  "ends_well i (s, Inr x) \<longleftrightarrow> tracked i s"
  "ends_well i (s, Inl e) \<longleftrightarrow> failed_safely i e s"
  by (simp_all add: ends_well_def)

lemma failed_tracked [simp]: "tracked i s \<Longrightarrow> failed_safely i e s"
  by (simp add: failed_safely_def tracked_recoverable)

lemma keepsI: "(\<And>s. tracked i s \<Longrightarrow> ends_well i (m s)) \<Longrightarrow> keeps i m"
  by (simp add: keeps_def)

lemma keepsD: "keeps i m \<Longrightarrow> tracked i s \<Longrightarrow> ends_well i (m s)"
  by (simp add: keeps_def)

lemma ends_well_bind:
  assumes "ends_well i (m s)" "\<And>x t. m s = (t, Inr x) \<Longrightarrow> tracked i t \<Longrightarrow> ends_well i (f x t)"
  shows "ends_well i (op_bind m f s)"
proof -
  obtain t r where m: "m s = (t, r)" by fastforce
  then show ?thesis using assms by (cases r) (auto simp: op_bind_def)
qed

lemma keeps_bind [op_rules]: "keeps i m \<Longrightarrow> (\<And>x. keeps i (f x)) \<Longrightarrow> keeps i (op_bind m f)"
  by (intro keepsI ends_well_bind) (auto dest: keepsD)

lemma keeps_ok [op_rules]: "keeps i (op_ok x)"
  by (simp add: keeps_def op_ok_def)

lemma keeps_fail [op_rules]: "keeps i (op_fail e)"
  by (simp add: keeps_def op_fail_def)

lemma keeps_with [op_rules]: "(\<And>s. keeps i (f s)) \<Longrightarrow> keeps i (op_with f)"
  by (simp add: keeps_def op_with_def)

lemma keeps_if [op_rules]: "keeps i m \<Longrightarrow> keeps i n \<Longrightarrow> keeps i (if b then m else n)"
  by simp

lemma keeps_change [op_rules]:
  "(\<And>s. ss_repo (f s) = ss_repo s \<and> ss_job (f s) = ss_job s) \<Longrightarrow> keeps i (op_change f)"
  by (simp add: keeps_def op_change_def tracked_def)

text \<open>An operation of the aggregate that makes no byte durable.\<close>

lemma tracked_segment:
  assumes "tracked i s" "segment_op (ss_job s) j" "job_durable j = job_durable (ss_job s)"
  shows "tracked i (s\<lparr>ss_job := j\<rparr>)"
proof -
  have "live_step (ss_repo s, ss_job s) (ss_repo s, j)" using assms(2,3) by (rule lv_segment)
  then show ?thesis using assms(1) live_step_in_step by (fastforce simp: tracked_def)
qed

lemma keeps_job:
  assumes "\<And>j j' x. job_inv j \<Longrightarrow> f j = Inr (j', x) \<Longrightarrow> segment_op j j' \<and> job_durable j' = job_durable j"
  shows "keeps i (op_job f)"
proof (rule keepsI)
  fix s assume t: "tracked i s"
  have inv: "job_inv (ss_job s)" using t by (simp add: tracked_def in_step_def)
  show "ends_well i (op_job f s)"
  proof (cases "f (ss_job s)")
    case (Inl e)
    then show ?thesis using t by (simp add: op_job_def)
  next
    case (Inr p)
    then obtain j x where p: "f (ss_job s) = Inr (j, x)" by (cases p) simp
    have "tracked i (s\<lparr>ss_job := j\<rparr>)" using tracked_segment [OF t] assms [OF inv p] by blast
    then show ?thesis using p by (simp add: op_job_def)
  qed
qed

lemma keeps_job_unit:
  assumes "\<And>j j'. job_inv j \<Longrightarrow> f j = Inr j' \<Longrightarrow> segment_op j j' \<and> job_durable j' = job_durable j"
  shows "keeps i (op_job_unit f)"
  unfolding op_job_unit_def by (rule keeps_job) (auto simp: res_simps dest: assms)

lemma worker_durable:
  assumes "map_mut j = Inr m" "worker_step m m'"
  shows "job_durable (put_map j m') = job_durable j"
  using assms worker_step_frame [OF assms(2)] by (simp add: map_mut_Inr job_durable_def put_map_def)

lemma split_quiet: "job_split_pending j k at = Inr (j', r) \<Longrightarrow> segment_op j j' \<and> job_durable j' = job_durable j"
  by (rule conjI, erule so_split, clarsimp simp: job_split_pending_def res_simps split: if_splits, rule worker_durable,
      assumption, erule ws_split)

lemma lease_quiet: "job_lease_segment j k w = Inr (j', l) \<Longrightarrow> segment_op j j' \<and> job_durable j' = job_durable j"
  by (rule conjI, erule so_lease, clarsimp simp: job_lease_segment_def res_simps split: if_splits, rule worker_durable,
      assumption, erule ws_lease)

lemma written_quiet: "job_mark_written j l = Inr j' \<Longrightarrow> segment_op j j' \<and> job_durable j' = job_durable j"
  by (rule conjI, erule so_written, clarsimp simp: job_mark_written_def res_simps split: if_splits, rule worker_durable,
      assumption, erule ws_written)

lemma release_quiet: "job_release j l = Inr j' \<Longrightarrow> segment_op j j' \<and> job_durable j' = job_durable j"
  by (rule conjI, erule so_release, clarsimp simp: job_release_def res_simps split: if_splits, rule worker_durable,
      assumption, erule ws_release)

lemma abandon_quiet: "abandon_checkpoint j = Inr j' \<Longrightarrow> segment_op j j' \<and> job_durable j' = job_durable j"
  by (auto simp: abandon_checkpoint_def res_simps map_mut_Inr discard_checkpoint_def job_durable_def put_map_def
      durable_set_def intro: so_abandon)

lemma discard_quiet: "job_discard_unsynced j = Inr j' \<Longrightarrow> segment_op j j' \<and> job_durable j' = job_durable j"
  by (auto simp: job_discard_unsynced_def res_simps map_mut_Inr job_durable_def put_map_def durable_set_unwrite
      split: if_splits intro: so_discard)


section \<open>Transactions\<close>

lemma run_transaction_cases:
  assumes "run_transaction t s = (s', r)" "\<And>d d'. t d False \<noteq> Inr d'"
  obtains (unchanged) c where "r = Inl c" "ss_repo s' = ss_repo s" "ss_job s' = ss_job s"
  | (effect) d where "t (ss_repo s) True = Inr d" "ss_repo s' = d" "ss_job s' = ss_job s"
proof -
  obtain f s1 where f: "next_fate s = (f, s1)" "ss_repo s1 = ss_repo s" "ss_job s1 = ss_job s"
    by (cases "ss_fates s") (auto simp: next_fate_def)
  show ?thesis
  proof (cases "t (ss_repo s) (f \<noteq> Fails)")
    case (Inl e)
    then have "r = Inl (commit_error e)" "s' = s1" using assms(1) f by (auto simp: run_transaction_def Let_def)
    then show ?thesis using unchanged f(2,3) by blast
  next
    case (Inr d)
    then have "f \<noteq> Fails" using assms(2) by (cases "f = Fails") auto
    moreover have "s' = s1\<lparr>ss_repo := d\<rparr>" using Inr assms(1) f by (auto simp: run_transaction_def Let_def)
    ultimately show ?thesis using effect [of d] Inr f(3) by simp
  qed
qed

lemma transition_io: "transition d e False \<noteq> Inr d'"
  by (auto simp: transition_def res_simps)

lemma durable_io: "durable d i g es False \<noteq> Inr d'"
  by (auto simp: durable_def res_simps)

lemma intend_io: "intend_publish d p False \<noteq> Inr d'"
  by (auto simp: intend_publish_def res_simps)

lemma keeps_commit_apply:
  assumes t: "tracked i s" and app: "job_apply (ss_job s) e = Inr j'"
  shows "ends_well i (commit_and_apply [e] s)"
proof -
  obtain s1 q where c: "commit_transition e s = (s1, q)" by fastforce
  have step: "in_step (ss_repo s) (ss_job s)" "j_id (ss_job s) = i" using t by (simp_all add: tracked_def)
  have run: "commit_and_apply [e] s = (case q of Inl x \<Rightarrow> (s1, Inl (RCommit x))
      | Inr _ \<Rightarrow> op_job_unit (\<lambda>j. job_apply j e) s1)"
    using c by (cases q)
      (auto simp: op_commit_def op_bind_def op_ok_def op_job_unit_def op_job_def Let_def split: sum.splits)
  from c [unfolded commit_transition_def] transition_io show ?thesis
  proof (cases rule: run_transaction_cases)
    case (unchanged x)
    then have "tracked i s1" using t by (simp add: tracked_def)
    then show ?thesis using run unchanged(1) by simp
  next
    case (effect d)
    have new: "in_step d j'" "j_id j' = i" using in_step_transition [OF step(1) app effect(1)] step(2) by auto
    then have "failed_safely i (RCommit x) s1" for x using effect(2) by (auto simp: failed_safely_def recoverable_def)
    moreover have "tracked i (s1\<lparr>ss_job := j'\<rparr>)" using new effect(2) by (simp add: tracked_def)
    ultimately show ?thesis
      using run app effect(3) by (cases q) (simp_all add: op_job_unit_def op_job_def)
  qed
qed

lemma keeps_step [op_rules]: "keeps i (session_step c)"
proof (rule keepsI)
  fix s assume t: "tracked i s"
  show "ends_well i (session_step c s)"
  proof (cases "job_decide (ss_job s) c")
    case (Inl e)
    then show ?thesis using t by (simp add: session_step_def op_with_def op_fail_def)
  next
    case (Inr es)
    from Inr show ?thesis
    proof (rule decide_events)
      assume "es = []"
      then show ?thesis using Inr t by (simp add: session_step_def op_with_def op_ok_def)
    next
      fix e j' assume "es = [e]" "job_apply (ss_job s) e = Inr j'"
      then show ?thesis
        using keeps_commit_apply [OF t] Inr unfolding session_step_def op_with_def by simp
    qed
  qed
qed

lemma keeps_recover: "keeps i recover"
  unfolding recover_def by (intro op_rules)

section \<open>Stopping and workers\<close>

lemma keeps_stop_with [op_rules]: "keeps i (stop_with c)"
  unfolding stop_with_def by (intro op_rules) simp

lemma keeps_on_control: "keeps i (on_control c)"
  unfolding on_control_def by (auto split: option.splits Control.splits intro!: op_rules)

lemma keeps_on_transport_error [op_rules]: "keeps i (on_transport_error out e)"
  unfolding on_transport_error_def
  by (auto split: TransportError.splits intro!: op_rules simp: tell_governor_def)

lemma keeps_on_storage_failure [op_rules]: "keeps i on_storage_failure"
  unfolding on_storage_failure_def by (intro op_rules) simp

lemma keeps_take_lease [op_rules]: "keeps i (take_lease w)"
  by (rule keepsI) (auto simp: take_lease_def tracked_def split: option.splits intro!: failed_tracked)

lemma keeps_on_worker [op_rules]: "keeps i (on_worker out w outcome)"
proof -
  have "keeps i (op_job_unit (\<lambda>j. job_mark_written j l))" for l
    by (intro keeps_job_unit written_quiet)
  moreover have "keeps i (op_job_unit (\<lambda>j. job_release j l))" for l
    by (intro keeps_job_unit release_quiet)
  ultimately show ?thesis
    unfolding on_worker_def
    by (auto split: sum.splits Failure.splits WriterError.splits intro!: op_rules)
qed


section \<open>Planning\<close>

lemma tracked_split:
  "tracked i s \<Longrightarrow> job_split_pending (ss_job s) k at = Inr (j, r) \<Longrightarrow> tracked i (s\<lparr>ss_job := j\<rparr>)"
  using tracked_segment split_quiet by blast

lemma ends_well_split_loop: "tracked i s \<Longrightarrow> ends_well i (split_loop n piece k at s)"
proof (induction n piece k at s rule: split_loop.induct)
  case (1 n piece k at s)
  then show ?case
    by (subst split_loop.simps)
      (auto simp del: split_loop.simps split: sum.splits DomainError.splits dest: tracked_split)
qed

lemma keeps_initial_split [op_rules]: "keeps i initial_split"
proof -
  have loop: "keeps i (split_loop n piece k at)" for n piece k at
    by (intro keepsI ends_well_split_loop)
  show ?thesis
    unfolding initial_split_def Let_def
    by (auto simp del: split_loop.simps split: option.splits list.splits intro!: op_rules loop)
qed

lemma ends_well_cap_lease: "tracked i s \<Longrightarrow> ends_well i (cap_lease k s)"
  by (auto simp: cap_lease_def split: option.splits sum.splits DomainError.splits dest: tracked_split)

lemma ends_well_next_pending:
  assumes t: "tracked i s"
  shows "ends_well i (next_pending s)"
proof -
  have "keeps i (op_bind (cap_lease k) (\<lambda>i. op_ok (Some i)))" for k
    by (intro op_rules keepsI ends_well_cap_lease)
  then have capped: "ends_well i (op_bind (cap_lease k) (\<lambda>i. op_ok (Some i)) s)" for k
    using t by (rule keepsD)
  show ?thesis
    using t capped
    by (auto simp: next_pending_def Let_def tracked_split
        split: list.splits option.splits sum.splits DomainError.splits)
qed

lemma ends_well_spawn: "tracked i s \<Longrightarrow> ends_well i (spawn_workers s)"
proof (induction s rule: spawn_workers.induct)
  case (1 s)
  show ?case
  proof (cases "j_state (ss_job s) = Transferring \<and> length (ss_leases s) < ss_connections s")
    case False
    then show ?thesis using 1(2) by (subst spawn_workers.simps) auto
  next
    case go: True
    obtain s1 r where n: "next_pending s = (s1, r)" by fastforce
    then have e: "ends_well i (s1, r)" using ends_well_next_pending [OF 1(2)] by metis
    consider (err) x where "r = Inl x" | (none) "r = Inr None" | (some) k where "r = Inr (Some k)"
      by (cases r) (auto elim: option.exhaust)
    then show ?thesis
    proof cases
      case err
      then show ?thesis using go n e by (subst spawn_workers.simps) simp
    next
      case none
      then show ?thesis using go n e by (subst spawn_workers.simps) simp
    next
      case (some k)
      let ?s2 = "s1\<lparr>ss_next_worker := ss_next_worker s1 + 1\<rparr>"
      have t2: "tracked i ?s2" using e some by (simp add: tracked_def)
      show ?thesis
      proof (cases "job_lease_segment (ss_job ?s2) k (ss_next_worker ?s2)")
        case (Inl x)
        then show ?thesis using go n some t2 by (subst spawn_workers.simps) simp
      next
        case (Inr p)
        obtain j l where p: "p = (j, l)" by fastforce
        have tj: "tracked i (?s2\<lparr>ss_job := j\<rparr>)" using tracked_segment [OF t2] lease_quiet Inr p by blast
        let ?s3 = "?s2\<lparr>ss_job := j, ss_leases := ss_leases ?s2 @ [(ss_next_worker ?s2, l)]\<rparr>"
        have "tracked i ?s3" using tj by (simp add: tracked_def)
        then have "ss_writer ?s2 \<Longrightarrow> ends_well i (spawn_workers ?s3)"
          using 1(1) [OF go n [symmetric] some refl refl Inr p [symmetric]] by blast
        then show ?thesis
          using go n some Inr p tj by (subst spawn_workers.simps) (auto simp del: spawn_workers.simps simp: Let_def)
      qed
    qed
  qed
qed

lemma keeps_spawn [op_rules]: "keeps i spawn_workers"
  by (intro keepsI ends_well_spawn)


section \<open>Checkpoint\<close>

text \<open>A hash of the writer lane is thirty-two bytes, as its type in the source says.\<close>

definition outside_ok :: "outside \<Rightarrow> bool" where
  "outside_ok out \<longleftrightarrow> (\<forall>r d. ou_hash out r = Some d \<longrightarrow> length d = 32)"

lemma hash_ranges_Some:
  "hash_ranges h rs = Some es \<Longrightarrow> extent_ranges es = rs \<and> (\<forall>e \<in> set es. h (de_range e) = Some (de_digest e))"
  by (induction rs arbitrary: es) (auto simp: extent_ranges_def split: option.splits)

lemma tracked_extents:
  assumes t: "tracked i s" and typed: "extents_typed es"
    and run: "commit_extents i (j_generation (ss_job s)) es s = (s', r)"
  shows "tracked i s' \<and> ss_job s' = ss_job s \<and>
    (r = Inr () \<longrightarrow> (\<exists>xs. current_extents (ss_repo s') i = Inr xs \<and> set es \<subseteq> set xs))"
proof -
  have step: "in_step (ss_repo s) (ss_job s)" "j_id (ss_job s) = i" using t by (simp_all add: tracked_def)
  obtain ys where inv: "job_inv (ss_job s)" and holds: "repo_holds (ss_repo s) (ss_job s) ys"
    using step(1) by (auto simp: in_step_def)
  from run [unfolded commit_extents_def] durable_io show ?thesis
  proof (cases rule: run_transaction_cases)
    case (unchanged c)
    then show ?thesis using t by (simp add: tracked_def)
  next
    case (effect d)
    have "live_step (ss_repo s, ss_job s) (d, ss_job s)"
      using effect(1) step(2) typed by (intro lv_extents [of _ _ es]) auto
    then have "in_step d (ss_job s)" using live_step_in_step step(1) by blast
    then have t': "tracked i s'" using effect(2,3) step(2) by (simp add: tracked_def)
    have "plan_cols (ss_job s) \<noteq> None" "j_state (ss_job s) \<in> {Transferring, Stopping, Cancelling}"
      using effect(1) step(2) current_holds [OF holds]
      by (auto simp: durable_def signed_id_def res_simps stored_def split: if_splits)
    then obtain m where m: "j_segments (ss_job s) = Some m" "j_state (ss_job s) \<in> {Transferring, Stopping, Cancelling}"
      by (auto simp: plan_cols_def job_plan_def)
    obtain zs where zs: "repo_holds d (ss_job s) zs" "set zs = set ys \<union> set es"
      using durable_Inr [OF holds inv m typed] effect(1) step(2) by metis
    have "current_extents d i = Inr (by_start zs)" using current_extents_holds [OF zs(1) inv] step(2) by simp
    then show ?thesis using t' effect(2,3) zs(2) by auto
  qed
qed

lemma tracked_extents_retrying:
  assumes "tracked i s" "extents_typed es" "commit_extents_retrying n i (j_generation (ss_job s)) es s = (s', r)"
  shows "tracked i s' \<and> ss_job s' = ss_job s \<and>
    (r = Inr () \<longrightarrow> (\<exists>xs. current_extents (ss_repo s') i = Inr xs \<and> set es \<subseteq> set xs))"
  using assms
proof (induction n arbitrary: s)
  case 0
  then show ?case using tracked_extents [OF 0(1,2)] by simp
next
  case (Suc n)
  obtain s1 q where c: "commit_extents i (j_generation (ss_job s)) es s = (s1, q)" by fastforce
  note first = tracked_extents [OF Suc.prems(1,2) c]
  show ?case
  proof (cases "q = Inl CommitUnavailable")
    case True
    then show ?thesis using Suc.IH [of s1] Suc.prems(2,3) first c by simp
  next
    case False
    then have "(s', r) = (s1, q)"
      using Suc.prems(3) c by (cases q) (auto split: CommitError.splits)
    then show ?thesis using first by simp
  qed
qed

lemma batch_of_job:
  assumes "job_inv j" "job_prepare_sync j = Inr (j1, t)" "job_acknowledge_sync j1 t = Inr (j2, b)"
  shows "cb_job b = j_id j2 \<and> cb_generation b = j_generation j2 \<and> (\<forall>r \<in> set (cb_ranges b). range_ok r)"
proof -
  obtain m m1 where m: "map_mut j = Inr m" "prepare_sync m = Inr (m1, t)" and j1: "j1 = put_map j m1"
    using assms(2) by (auto simp: job_prepare_sync_def res_simps split: prod.splits)
  obtain m2 where m2: "acknowledge_sync m1 t = Inr (m2, b)" and j2: "j2 = put_map j m2"
    using assms(3) j1 by (auto simp: job_acknowledge_sync_def res_simps put_map_def map_mut_Inr split: prod.splits)
  have mi: "sm_inv m" "sm_job m = j_id j" "sm_generation m = j_generation j"
    using job_invD(2) [OF assms(1)] m(1) by (auto simp: segments_inv_def map_inv_def map_mut_Inr)
  have b: "cb_job b = st_job t" "cb_generation b = st_generation t" "cb_ranges b = st_ranges t"
    using m2 by (rule acknowledge_sync_Inr, simp)+
  show ?thesis
    using b prepare_sync_Inr(5) [OF m(2)] mi j2 written_ranges(2) [OF mi(1)] by (simp add: put_map_def)
qed

lemma tracked_commit:
  assumes "tracked i s" "job_acknowledge_commit (ss_job s) b = Inr j" "current_extents (ss_repo s) i = Inr es" "backed es b"
  shows "tracked i (s\<lparr>ss_job := j\<rparr>)"
proof -
  have "live_step (ss_repo s, ss_job s) (ss_repo s, j)"
    using assms by (intro lv_commit [of _ b _ _ es]) (simp_all add: tracked_def)
  then show ?thesis using assms(1) live_step_in_step by (fastforce simp: tracked_def)
qed

lemma keeps_abandon: "keeps i (op_job_unit abandon_checkpoint)"
  by (intro keeps_job_unit abandon_quiet)

lemma ends_well_commit_batch:
  assumes t: "tracked i s" and typed: "extents_typed es"
    and b: "cb_job b = i" "cb_generation b = j_generation (ss_job s)" "backed es b"
  shows "ends_well i (case commit_extents_retrying 2 (cb_job b) (cb_generation b) es s of
      (s', Inl e) \<Rightarrow> op_bind (op_job_unit abandon_checkpoint) (\<lambda>_. op_fail (RCommit e)) s'
    | (s', Inr _) \<Rightarrow> op_bind (op_job_unit (\<lambda>j. job_acknowledge_commit j b)) (\<lambda>_. op_change (\<lambda>s. s\<lparr>ss_unsynced := 0\<rparr>)) s')"
proof -
  obtain s' r where run: "commit_extents_retrying 2 i (j_generation (ss_job s)) es s = (s', r)" by fastforce
  have t': "tracked i s'" "r = Inr () \<longrightarrow> (\<exists>xs. current_extents (ss_repo s') i = Inr xs \<and> set es \<subseteq> set xs)"
    using tracked_extents_retrying [OF t typed run] by auto
  have "ends_well i (op_bind (op_job_unit abandon_checkpoint) (\<lambda>_. op_fail (RCommit e)) s')" for e
    using t'(1) by (intro keepsD [of i] op_rules keeps_abandon)
  moreover have "ends_well i (op_bind (op_job_unit (\<lambda>j. job_acknowledge_commit j b))
      (\<lambda>_. op_change (\<lambda>s. s\<lparr>ss_unsynced := 0\<rparr>)) s')" if ok: "r = Inr ()"
  proof (rule ends_well_bind)
    obtain xs where xs: "current_extents (ss_repo s') i = Inr xs" "set es \<subseteq> set xs" using t'(2) ok by blast
    have "backed xs b" using b(3) xs(2) by (rule backed_more)
    then show "ends_well i (op_job_unit (\<lambda>j. job_acknowledge_commit j b) s')"
      using t'(1) tracked_commit [OF t'(1) _ xs(1)]
      by (auto simp: op_job_unit_def op_job_def split: sum.splits prod.splits simp: res_simps)
    fix u :: unit and s2
    assume "tracked i s2"
    then show "ends_well i (op_change (\<lambda>s. s\<lparr>ss_unsynced := 0\<rparr>) s2)" by (simp add: op_change_def tracked_def)
  qed
  ultimately show ?thesis using run b(1,2) by (cases r) auto
qed


lemma ends_well_checkpoint:
  assumes t: "tracked i s" and out: "outside_ok out"
  shows "ends_well i (session_checkpoint out s)"
proof (cases "\<not> session_has_unsynced s \<or> ss_storage_failed s \<or> \<not> ss_writer s")
  case True
  then show ?thesis using t by (auto simp: session_checkpoint_def op_with_def op_ok_def op_fail_def)
next
  case go: False
  let ?failed = "op_bind (op_job_unit abandon_checkpoint) (\<lambda>_. on_storage_failure)"
  have failed: "tracked i u \<Longrightarrow> ends_well i (?failed u)" for u
    by (rule keepsD) (intro op_rules keeps_abandon)
  have inv: "job_inv (ss_job s)" using t by (simp add: tracked_def in_step_def)
  show ?thesis
  proof (cases "job_prepare_sync (ss_job s)")
    case (Inl e)
    then show ?thesis using go t by (auto simp: session_checkpoint_def op_with_def op_bind_def op_job_def)
  next
    case (Inr p)
    obtain j1 tk where p: "job_prepare_sync (ss_job s) = Inr (j1, tk)" using Inr by (cases p) simp
    have "segment_op (ss_job s) j1" using p by (rule so_prepare)
    moreover have "job_durable j1 = job_durable (ss_job s)"
      using p by (auto simp: job_prepare_sync_def res_simps map_mut_Inr job_durable_def put_map_def prepare_sync_durable)
    ultimately have t1: "tracked i (s\<lparr>ss_job := j1\<rparr>)" using tracked_segment [OF t] by blast
    show ?thesis
    proof (cases "ou_sync out \<and> (\<exists>q. job_acknowledge_sync j1 tk = Inr q)")
      case False
      then show ?thesis
        using go p t1 failed [OF t1]
        by (cases "job_acknowledge_sync j1 tk")
          (auto simp: session_checkpoint_def op_with_def op_bind_def [of "op_job _"] op_job_def)
    next
      case True
      then obtain j2 b where b: "job_acknowledge_sync j1 tk = Inr (j2, b)" by fastforce
      let ?s2 = "s\<lparr>ss_job := j2\<rparr>"
      note flush = flushed_batch [OF p b]
      have "segment_op j1 j2" using b by (rule so_sync)
      then have t2: "tracked i ?s2" using tracked_segment [OF t1] flush by simp
      have batch: "cb_job b = i" "cb_generation b = j_generation (ss_job ?s2)" "\<forall>r \<in> set (cb_ranges b). range_ok r"
        using batch_of_job [OF inv p b] t2 by (simp_all add: tracked_def)
      have run: "session_checkpoint out s = (case hash_ranges (ou_hash out) (cb_ranges b) of
          None \<Rightarrow> ?failed ?s2
        | Some es \<Rightarrow> (case commit_extents_retrying 2 (cb_job b) (cb_generation b) es ?s2 of
              (s', Inl e) \<Rightarrow> op_bind (op_job_unit abandon_checkpoint) (\<lambda>_. op_fail (RCommit e)) s'
            | (s', Inr _) \<Rightarrow>
                op_bind (op_job_unit (\<lambda>j. job_acknowledge_commit j b)) (\<lambda>_. op_change (\<lambda>s. s\<lparr>ss_unsynced := 0\<rparr>)) s'))"
        using go p b True
        by (cases "hash_ranges (ou_hash out) (cb_ranges b)")
          (simp_all add: session_checkpoint_def op_with_def op_bind_def [of "op_job _"] op_job_def)
      show ?thesis
      proof (cases "hash_ranges (ou_hash out) (cb_ranges b)")
        case None
        then show ?thesis using run failed [OF t2] by simp
      next
        case (Some es)
        note h = hash_ranges_Some [OF Some]
        have "set (cb_ranges b) = de_range ` set es" using h by (metis extent_ranges_def set_map)
        then have "extents_typed es"
          using h batch(3) out by (auto simp: extents_typed_def outside_ok_def)
        moreover have "backed es b" using h flush by blast
        ultimately show ?thesis
          using run Some ends_well_commit_batch [OF t2 _ batch(1,2)] by simp
      qed
    qed
  qed
qed

lemma keeps_checkpoint [op_rules]: "outside_ok out \<Longrightarrow> keeps i (session_checkpoint out)"
  by (intro keepsI ends_well_checkpoint)


section \<open>Publication\<close>

lemma keeps_read [op_rules]: "keeps i (op_read f)"
proof (rule keepsI)
  fix s assume t: "tracked i s"
  obtain x s1 where x: "next_fate s = (x, s1)" "ss_repo s1 = ss_repo s" "ss_job s1 = ss_job s"
    by (cases "ss_fates s") (auto simp: next_fate_def)
  then have "tracked i s1" using t by (simp add: tracked_def)
  then show "ends_well i (op_read f s)"
    using x(1) by (cases "f (ss_repo s1)") (auto simp: op_read_def)
qed

lemma keeps_intent [op_rules]: "keeps i (op_commit (record_publish_intent p))"
proof (rule keepsI)
  fix s assume t: "tracked i s"
  obtain s' r where run: "record_publish_intent p s = (s', r)" by fastforce
  have "tracked i s'"
    using run [unfolded record_publish_intent_def] intend_io
  proof (cases rule: run_transaction_cases)
    case (unchanged c)
    then show ?thesis using t by (simp add: tracked_def)
  next
    case (effect d)
    have "same_at k (ss_repo s) d" for k
      using effect(1) by (auto simp: intend_publish_def res_simps same_at_def split: if_splits)
    then have "live_step (ss_repo s, ss_job s) (d, ss_job s)" by (rule lv_other)
    then show ?thesis using t effect(2,3) live_step_in_step by (auto simp: tracked_def)
  qed
  then show "ends_well i (op_commit (record_publish_intent p) s)"
    using run by (cases r) (simp_all add: op_commit_def)
qed

lemma keeps_settled_end [op_rules]: "keeps i settled_end"
  by (rule keepsI) (simp add: settled_end_def)

lemma keeps_open_part [op_rules]: "keeps i (open_part out)"
  unfolding open_part_def Let_def
  by (rule keeps_with) (auto split: option.splits sum.splits intro!: op_rules)

lemma keeps_publish_blocked [op_rules]: "keeps i (publish_blocked r)"
  unfolding publish_blocked_def by (intro op_rules)

lemma keeps_reverify [op_rules]: "keeps i (reverify out p)"
  unfolding reverify_def
  by (auto split: sum.splits WriterError.splits StorageError.splits intro!: op_rules)

lemma keeps_rename [op_rules]: "keeps i (rename_part out x)"
  unfolding rename_part_def
  by (auto split: sum.splits WriterError.splits StorageError.splits intro!: op_rules)

lemma keeps_attempt_publish [op_rules]: "keeps i (attempt_publish out p)"
  unfolding attempt_publish_def
  by (rule keeps_with) (auto split: option.splits sum.splits intro!: op_rules)

lemma keeps_publish [op_rules]: "keeps i (publish out dg)"
  unfolding publish_def Let_def by (intro op_rules)

lemma keeps_resume_publish: "keeps i (resume_publish out)"
  unfolding resume_publish_def
  by (rule keeps_with) (auto split: option.splits intro!: op_rules)

lemma keeps_verify [op_rules]: "keeps i (verify out)"
  unfolding verify_def
  by (rule keeps_with) (auto split: sum.splits intro!: op_rules)

section \<open>The whole session\<close>

lemma keeps_join_workers [op_rules]: "keeps i (join_workers out ws)"
  by (induction out ws rule: join_workers.induct) (auto intro!: op_rules)

lemma keeps_drain_controls [op_rules]: "keeps i (drain_controls cs)"
  by (induction cs) (auto intro!: op_rules)

lemma keeps_final_checkpoint [op_rules]: "outside_ok out \<Longrightarrow> keeps i (final_checkpoint out)"
  unfolding final_checkpoint_def by (intro op_rules keeps_job_unit discard_quiet)

lemma keeps_finish: "outside_ok out \<Longrightarrow> keeps i (finish out ws)"
  unfolding finish_def by (intro op_rules)

lemma keeps_transfer_turn: "outside_ok out \<Longrightarrow> keeps i (transfer_turn out)"
  unfolding transfer_turn_def by (intro op_rules)

lemma keeps_on_probe: "keeps i (on_probe out p)"
  unfolding on_probe_def by (intro op_rules) simp

lemma keeps_perform: "outside_ok out \<Longrightarrow> keeps i (perform out e)"
  by (cases e)
    (auto simp: op_unit_def intro!: op_rules keeps_on_probe keeps_transfer_turn keeps_on_control keeps_finish
      keeps_resume_publish keeps_recover)


fun session_run :: "(outside \<times> session_event) list \<Rightarrow> unit session_op" where
  "session_run [] = op_ok ()"
| "session_run ((out, e) # es) = op_bind (perform out e) (\<lambda>_. session_run es)"

lemma keeps_session_run: "\<forall>(out, e) \<in> set es. outside_ok out \<Longrightarrow> keeps i (session_run es)"
  by (induction es rule: session_run.induct) (auto intro!: op_rules keeps_perform)

lemma in_step_row: "in_step d j \<Longrightarrow> \<exists>row. map_of (db_jobs d) (int (j_id j)) = Some row"
  by (auto simp: in_step_def repo_holds_def)

section \<open>Properties\<close>


definition sample_config :: coordinator_config where
  "sample_config = \<lparr>cc_connections = 2, cc_max_segments = 4, cc_min_segment = 1, cc_checkpoint_bytes = 1,
     cc_writer_capacity = 1, cc_retry = \<lparr>rp_maximum_attempts = 3, rp_base_delay = 1, rp_maximum_delay = 10\<rparr>\<rparr>"

definition sample_session :: "db \<Rightarrow> job \<Rightarrow> fate list \<Rightarrow> session" where
  "sample_session d j fates =
     \<lparr>ss_config = sample_config, ss_repo = d, ss_fates = fates, ss_governor = None, ss_origin = 1, ss_job = j,
      ss_control = [], ss_control_open = True, ss_writer = True, ss_leases = [], ss_stop_workers = False,
      ss_unsynced = 0, ss_storage_failed = False, ss_connections = 2, ss_next_worker = 0\<rparr>"

definition sample_outside :: outside where
  "sample_outside = \<lparr>ou_now = 0, ou_jitter = 0, ou_sync = True, ou_hash = (\<lambda>_. Some (replicate 32 CHR ''x'')),
     ou_verify = (\<lambda>_ _. Inr (replicate 32 CHR ''y'')), ou_parts = True, ou_open = (\<lambda>_ _. Inr ()),
     ou_destination = Some ''f'', ou_inspect = (\<lambda>_ _. Inr None), ou_publish = Inr\<rparr>"


end
