(* ===== verification/Planning_Props.thy ===== *)
theory Planning_Props
  imports Session_Props
begin

text \<open>
  How a session cuts its plan into pieces and hands them to workers: the initial split, the
  stealing of the largest pending piece, the cap on one lease and the loop that starts workers.
\<close>

section \<open>Splitting a pending segment\<close>

text \<open>At an interior point only the two bounds of the map can refuse.\<close>

lemma split_pending_interior:
  assumes inv: "sm_inv m" and x: "x \<in> set (sm_segments m)" "sg_state x = Pending"
    and at: "br_start (sg_range x) < at" "at < br_end (sg_range x)" and ids: "Suc (sm_next_id m) \<le> U64_MAX"
  shows "split_pending m (sg_id x) at = Inl Capacity \<and> length (sm_segments m) = sm_maximum m \<or>
    (\<exists>m'. split_pending m (sg_id x) at = Inr (m', sm_next_id m) \<and> sm_next_id m' = Suc (sm_next_id m) \<and>
       length (sm_segments m) < sm_maximum m)"
proof -
  obtain k where k: "k < length (sm_segments m)" "sm_segments m ! k = x" using x(1) by (metis in_set_conv_nth)
  have i: "seg_index m (sg_id x) = Inr k" using seg_index_of [OF inv k(1)] k(2) by simp
  have "length (sm_segments m) \<le> sm_maximum m" using inv by (simp add: sm_inv_defs)
  moreover have "br_end (sg_range x) \<le> I64_MAX" using chain_bounds [OF sm_inv_chain [OF inv], of "sg_range x"] x(1) inv by (auto simp: sm_inv_defs)
  ultimately show ?thesis
    using i k x(2) at ids
    by (auto simp: split_pending_def br_split_def byte_range_new_def checked_add_def Let_def)
qed

lemma split_pending_pieces:
  assumes inv: "sm_inv m" and run: "split_pending m (sg_id x) at = Inr (m', r)" and x: "x \<in> set (sm_segments m)"
  shows "\<exists>y z. sg_id y = sg_id x \<and> sg_state y = Pending \<and> sg_range y = \<lparr>br_start = br_start (sg_range x), br_end = at\<rparr> \<and>
    sg_id z = r \<and> sg_state z = Pending \<and> sg_range z = \<lparr>br_start = at, br_end = br_end (sg_range x)\<rparr> \<and>
    set (sm_segments m') = set (sm_segments m) - {x} \<union> {y, z} \<and> length (sm_segments m') = Suc (length (sm_segments m))"
  using run
proof (rule split_pending_Inr)
  fix pre s post
  assume segs: "sm_segments m = pre @ s # post" and s: "sg_id s = sg_id x" "sg_state s = Pending" and r: "r = sm_next_id m"
    and m': "m' = m\<lparr>sm_segments := pre @ s\<lparr>sg_range := \<lparr>br_start = br_start (sg_range s), br_end = at\<rparr>\<rparr>
              # \<lparr>sg_id = sm_next_id m, sg_range = \<lparr>br_start = at, br_end = br_end (sg_range s)\<rparr>,
                 sg_state = Pending\<rparr> # post, sm_next_id := Suc (sm_next_id m)\<rparr>"
  have "s = x" using sm_inv_same_id [OF inv] segs x s(1) by auto
  moreover have "s \<notin> set pre \<union> set post"
    using inv segs by (auto simp: sm_inv_defs)
  ultimately show ?thesis using segs s(2) r m'
    by (intro exI [of _ "s\<lparr>sg_range := \<lparr>br_start = br_start (sg_range s), br_end = at\<rparr>\<rparr>"]
        exI [of _ "\<lparr>sg_id = sm_next_id m, sg_range = \<lparr>br_start = at, br_end = br_end (sg_range s)\<rparr>, sg_state = Pending\<rparr>"])
      auto
qed

section \<open>The initial split\<close>

lemma job_split:
  assumes "j_state j = Transferring" "j_segments j = Some m"
  shows "job_split_pending j i at = (case split_pending m i at of Inl e \<Rightarrow> Inl e | Inr (m', r) \<Rightarrow> Inr (put_map j m', r))"
  using assms by (auto simp: job_split_pending_def map_mut_def res_bind_def split: sum.splits)

text \<open>Pieces cut so far: pending, aligned and no longer than the piece size.\<close>

definition aligned :: "u64 \<Rightarrow> u64 \<Rightarrow> segment \<Rightarrow> bool" where
  "aligned unit piece s \<longleftrightarrow> sg_state s = Pending \<and> unit dvd br_start (sg_range s) \<and> br_len (sg_range s) \<le> piece"

lemma more_cuts:
  fixes n at piece :: nat
  assumes "at < n" "0 < piece"
  shows "(n - at + piece - 1) div piece = Suc ((n - (at + piece) + piece - 1) div piece)"
proof (cases "n \<le> at + piece")
  case True
  then have "n - (at + piece) = 0" "(n - at - 1) div piece = 0" using assms by (auto intro: div_less)
  moreover have "n - at + piece - 1 = (n - at - 1) + piece" using assms by simp
  then have "(n - at + piece - 1) div piece = (n - at - 1) div piece + 1" using assms(2) by (metis div_add_self2 not_less_zero)
  ultimately show ?thesis using assms(2) by simp
next
  case False
  then have "n - at + piece - 1 = (n - (at + piece) + piece - 1) + piece" using assms by simp
  then show ?thesis using assms(2) by (metis add.commute div_add_self1 not_less_zero plus_1_eq_Suc)
qed

lemma split_loop_pieces:
  assumes "sm_inv m" "j_state (ss_job s) = Transferring" "j_segments (ss_job s) = Some m"
    and "x \<in> set (sm_segments m)" "sg_state x = Pending" "sg_range x = \<lparr>br_start = at - piece, br_end = n\<rparr>"
    and "0 < piece" "piece \<le> at" "unit dvd piece" "unit dvd at"
    and "\<forall>y \<in> set (sm_segments m). y \<noteq> x \<longrightarrow> aligned unit piece y"
    and "length (sm_segments m) + (n - at + piece - 1) div piece \<le> sm_maximum m"
    and "sm_next_id m + (n - at + piece - 1) div piece \<le> U64_MAX"
  shows "\<exists>m'. split_loop n piece (sg_id x) at s = (s\<lparr>ss_job := put_map (ss_job s) m'\<rparr>, Inr ()) \<and>
    worker_step\<^sup>*\<^sup>* m m' \<and> (\<forall>y \<in> set (sm_segments m'). aligned unit piece y) \<and>
    length (sm_segments m') = length (sm_segments m) + (n - at + piece - 1) div piece"
  using assms
proof (induction n piece "sg_id x" at s arbitrary: x m rule: split_loop.induct)
  case (1 n piece at s)
  have dv: "unit dvd at - piece" using 1(9-11) by (simp add: dvd_diff_nat)
  show ?case
  proof (cases "n \<le> at")
    case True
    then have "(n - at + piece - 1) div piece = 0" using 1(8) by simp
    moreover have "aligned unit piece x" using 1(6,7) dv True by (simp add: aligned_def br_len_def)
    moreover have "s\<lparr>ss_job := put_map (ss_job s) m\<rparr> = s" using 1(4) by (simp add: put_map_def)
    ultimately show ?thesis
      using True 1(12) by (subst split_loop.simps) (intro exI [of _ m], auto)
  next
    case False
    note more = more_cuts [of at n piece]
    have at: "br_start (sg_range x) < at" "at < br_end (sg_range x)" using 1(7-9) False by auto
    have "Suc (sm_next_id m) \<le> U64_MAX" "length (sm_segments m) \<noteq> sm_maximum m"
      using 1(13,14) more 1(8) False by auto
    then obtain m1 where m1: "split_pending m (sg_id x) at = Inr (m1, sm_next_id m)" "sm_next_id m1 = Suc (sm_next_id m)"
      using split_pending_interior [OF 1(2,5,6) at] by blast
    obtain y z where yz: "sg_id y = sg_id x" "sg_state y = Pending" "sg_range y = \<lparr>br_start = at - piece, br_end = at\<rparr>"
      "sg_id z = sm_next_id m" "sg_state z = Pending" "sg_range z = \<lparr>br_start = at, br_end = n\<rparr>"
      "set (sm_segments m1) = set (sm_segments m) - {x} \<union> {y, z}" "length (sm_segments m1) = Suc (length (sm_segments m))"
      using split_pending_pieces [OF 1(2) m1(1) 1(5)] 1(7) by auto
    let ?s1 = "s\<lparr>ss_job := put_map (ss_job s) m1\<rparr>"
    have js: "job_split_pending (ss_job s) (sg_id x) at = Inr (put_map (ss_job s) m1, sm_next_id m)"
      using job_split [OF 1(3,4)] m1(1) by simp
    have y: "aligned unit piece y" using yz(2,3) dv 1(9) by (simp add: aligned_def br_len_def)
    have mx: "sm_maximum m1 = sm_maximum m" using split_pending_frame(7) [OF m1(1)] .
    have "\<exists>m'. split_loop n piece (sg_id z) (at + piece) ?s1 = (?s1\<lparr>ss_job := put_map (ss_job ?s1) m'\<rparr>, Inr ()) \<and>
      worker_step\<^sup>*\<^sup>* m1 m' \<and> (\<forall>y \<in> set (sm_segments m'). aligned unit piece y) \<and>
      length (sm_segments m') = length (sm_segments m1) + (n - (at + piece) + piece - 1) div piece"
    proof (rule 1(1) [of "(put_map (ss_job s) m1, sm_next_id m)" "put_map (ss_job s) m1" z m1])
      show "\<forall>v \<in> set (sm_segments m1). v \<noteq> z \<longrightarrow> aligned unit piece v" using yz(7) y 1(12) by auto
    qed (use False 1(3,8-11,13,14) js yz sm_inv_split [OF 1(2) m1(1)] mx m1(2) more in \<open>auto simp: put_map_def\<close>)
    then obtain m' where m': "split_loop n piece (sm_next_id m) (at + piece) ?s1 = (?s1\<lparr>ss_job := put_map (ss_job ?s1) m'\<rparr>, Inr ())"
      "worker_step\<^sup>*\<^sup>* m1 m'" "\<forall>y \<in> set (sm_segments m'). aligned unit piece y"
      "length (sm_segments m') = length (sm_segments m1) + (n - (at + piece) + piece - 1) div piece"
      using yz(4) by auto
    have "worker_step m m1" using m1(1) by (rule ws_split)
    then have "worker_step\<^sup>*\<^sup>* m m'" using m'(2) by (rule converse_rtranclp_into_rtranclp)
    moreover have "split_loop n piece (sg_id x) at s = (s\<lparr>ss_job := put_map (ss_job s) m'\<rparr>, Inr ())"
      using False 1(8) js m'(1) by (subst split_loop.simps) (simp add: put_map_def)
    ultimately show ?thesis using m'(3,4) yz(8) more False 1(8) by (intro exI [of _ m']) auto
  qed
qed


lemma div_ceil_mult:
  assumes "0 < b"
  shows "a \<le> div_ceil a b * b" "div_ceil a b * b < a + b" "div_ceil a b * b = 0 \<longleftrightarrow> a = 0"
proof -
  define q where "q = a div b * b"
  have e: "a = q + a mod b" unfolding q_def by simp
  have r: "a mod b < b" using assms by simp
  have c: "div_ceil a b * b = (if a mod b = 0 then q else q + b)" by (simp add: div_ceil_def q_def)
  show "a \<le> div_ceil a b * b" using c e r by (simp split: if_splits)
  show "div_ceil a b * b < a + b" using c e r assms by (simp split: if_splits)
  then show "div_ceil a b * b = 0 \<longleftrightarrow> a = 0" unfolding c using e assms by (cases "a mod b = 0") auto
qed

lemma wrap64_id [simp]: "n \<le> U64_MAX \<Longrightarrow> wrap64 n = n"
  by (simp add: wrap64_def U64_MAX_def)

lemma split_piece_size:
  assumes "0 < unit" "2 \<le> k" "k \<le> n div unit" "n \<le> I64_MAX"
  defines "piece \<equiv> div_ceil (div_ceil n k) unit * unit"
  shows "wrap64 piece = piece" "0 < piece" "n \<le> piece * k" "unit dvd piece"
proof -
  have k: "0 < k" using assms(2) by simp
  note n = div_ceil_mult(1,2) [OF k, of n] and p = div_ceil_mult(1,2) [OF assms(1), of "div_ceil n k"]
  have "2 * unit \<le> n" using assms(1-3) by (metis div_times_less_eq_dividend le_trans mult_le_mono1)
  moreover have "div_ceil n k \<le> n" using n(2) assms(2)
    by (cases "n = 0") (auto simp: div_ceil_def div_less_dividend Suc_leI)
  ultimately show "wrap64 piece = piece"
    using p(2) assms(4) I64_le_U64 unfolding piece_def by (intro wrap64_id) (simp add: I64_MAX_def U64_MAX_def)
  have "0 < n" using \<open>2 * unit \<le> n\<close> assms(1) by simp
  then have "0 < div_ceil n k" using n(1) by (cases "div_ceil n k") auto
  then show "0 < piece" using p(1) unfolding piece_def by linarith
  show "n \<le> piece * k" using n(1) mult_le_mono1 [OF p(1), of k] unfolding piece_def by (rule le_trans)
  show "unit dvd piece" by (simp add: piece_def)
qed

lemma initial_split_spec:
  assumes inv: "sm_inv m" and job: "j_state (ss_job s) = Transferring" "j_segments (ss_job s) = Some m"
    and only: "sm_segments m = [x]" "sg_state x = Pending" and unit: "0 < cc_min_segment (ss_config s)"
    and room: "ss_connections s \<le> sm_maximum m" "sm_next_id m + ss_connections s \<le> U64_MAX"
    and k: "k = min (sm_total m div cc_min_segment (ss_config s)) (ss_connections s)" "2 \<le> k"
    and piece: "piece = div_ceil (div_ceil (sm_total m) k) (cc_min_segment (ss_config s)) * cc_min_segment (ss_config s)"
  shows "\<exists>m'. initial_split s = (s\<lparr>ss_job := put_map (ss_job s) m'\<rparr>, Inr ()) \<and> worker_step\<^sup>*\<^sup>* m m' \<and>
    length (sm_segments m') \<le> k \<and> (\<forall>y \<in> set (sm_segments m'). aligned (cc_min_segment (ss_config s)) piece y)"
proof -
  let ?n = "sm_total m" and ?u = "cc_min_segment (ss_config s)"
  have r: "sg_range x = \<lparr>br_start = 0, br_end = ?n\<rparr>" and n: "?n \<le> I64_MAX"
    using sm_inv_chain [OF inv] only(1) inv by (auto simp: sm_inv_defs)
  have kn: "k \<le> ?n div ?u" using k(1) by simp
  note size = split_piece_size [OF unit k(2) kn n, folded piece]
  have cuts: "(?n - piece + piece - 1) div piece \<le> k - 1"
  proof -
    have "?n - piece + piece - 1 < k * piece" using size(2,3) k(2) by (cases k) (auto simp: mult.commute)
    then have "(?n - piece + piece - 1) div piece < k" using size(2) by (simp add: div_less_iff_less_mult)
    then show ?thesis by simp
  qed
  have fits: "length (sm_segments m) + (?n - piece + piece - 1) div piece \<le> sm_maximum m"
    "sm_next_id m + (?n - piece + piece - 1) div piece \<le> U64_MAX"
    using cuts room k by (auto simp: only(1))
  have run: "initial_split s = split_loop ?n piece (sg_id x) piece s"
    using job(2) only r k(2) size(1)
    by (simp add: initial_split_def op_with_def Let_def piece flip: k(1) del: split_loop.simps)
  have "\<exists>m'. split_loop ?n piece (sg_id x) piece s = (s\<lparr>ss_job := put_map (ss_job s) m'\<rparr>, Inr ()) \<and>
    worker_step\<^sup>*\<^sup>* m m' \<and> (\<forall>y \<in> set (sm_segments m'). aligned ?u piece y) \<and>
    length (sm_segments m') = length (sm_segments m) + (?n - piece + piece - 1) div piece"
    by (rule split_loop_pieces [OF inv job _ only(2) _ size(2) _ size(4) size(4) _ fits]) (simp_all add: only(1) r)
  then show ?thesis using run cuts k(2) by (auto simp: only(1))
qed


section \<open>Choosing the next lease\<close>

text \<open>The units are small enough that the plain arithmetic of the planner does not wrap.\<close>

definition unit_ok :: "coordinator_config \<Rightarrow> bool" where
  "unit_ok c \<longleftrightarrow> 0 < cc_min_segment c \<and> cc_min_segment c \<le> 2 ^ 62 \<and> cc_checkpoint_bytes c \<le> 2 ^ 62"

lemma lease_cap_bounds:
  assumes "unit_ok c"
  shows "max (cc_checkpoint_bytes c) (cc_min_segment c) \<le> lease_cap c"
    "lease_cap c < max (cc_checkpoint_bytes c) (cc_min_segment c) + cc_min_segment c" "0 < lease_cap c"
proof -
  let ?m = "max (cc_checkpoint_bytes c) (cc_min_segment c)"
  have u: "0 < cc_min_segment c" using assms by (simp add: unit_ok_def)
  note d = div_ceil_mult(1,2) [OF u, of ?m]
  have "div_ceil ?m (cc_min_segment c) * cc_min_segment c \<le> U64_MAX"
    using d(2) assms by (simp add: unit_ok_def U64_MAX_def max_def split: if_splits)
  then have "lease_cap c = div_ceil ?m (cc_min_segment c) * cc_min_segment c" by (simp add: lease_cap_def)
  then show "?m \<le> lease_cap c" "lease_cap c < ?m + cc_min_segment c" using d by simp_all
  then show "0 < lease_cap c" using u by linarith
qed

lemma steal_point_bounds:
  assumes "unit_ok c" "br_end r \<le> I64_MAX" "br_start r < br_end r" "wrap64 (2 * cc_min_segment c) \<le> br_len r"
  shows "br_start r < steal_point c r" "cc_min_segment c dvd steal_point c r - br_start r"
proof -
  let ?u = "cc_min_segment c" and ?h = "div_ceil (br_len r div 2) (cc_min_segment c) * cc_min_segment c"
  have u: "0 < ?u" "?u \<le> 2 ^ 62" using assms(1) by (simp_all add: unit_ok_def)
  note d = div_ceil_mult(1,2) [OF u(1), of "br_len r div 2"]
  have "wrap64 (2 * ?u) = 2 * ?u" using u(2) by (intro wrap64_id) (simp add: U64_MAX_def)
  then have len: "2 * ?u \<le> br_len r" using assms(4) by simp
  have "br_start r + ?h < br_start r + br_len r div 2 + ?u" using d(2) by simp
  also have "\<dots> \<le> I64_MAX + 2 ^ 62" using assms(2,3) u(2) by (simp add: br_len_def)
  finally have h: "br_start r + ?h \<le> U64_MAX" by (simp add: I64_MAX_def U64_MAX_def)
  then have "steal_point c r = br_start r + ?h" by (simp add: steal_point_def)
  moreover have "0 < ?h" using d(1) len u(1) by linarith
  ultimately show "br_start r < steal_point c r" "?u dvd steal_point c r - br_start r" by simp_all
qed

lemma find_id:
  assumes "sm_inv m" "x \<in> set (sm_segments m)"
  shows "find (\<lambda>y. sg_id y = sg_id x) (sm_segments m) = Some x"
proof -
  obtain y where y: "find (\<lambda>y. sg_id y = sg_id x) (sm_segments m) = Some y"
    using assms(2) by (cases "find (\<lambda>y. sg_id y = sg_id x) (sm_segments m)") (auto simp: find_None_iff)
  then have "y \<in> set (sm_segments m)" "sg_id y = sg_id x" by (auto simp: find_Some_iff)
  then show ?thesis using sm_inv_same_id [OF assms(1)] assms(2) y by metis
qed

text \<open>What handing out one pending segment may do to the map: leave it, or cut one segment in two.\<close>

definition cut_at_most :: "segment_map \<Rightarrow> segment_map \<Rightarrow> bool" where
  "cut_at_most m m' \<longleftrightarrow> m' = m \<or> (\<exists>i at r. split_pending m i at = Inr (m', r))"

lemma cut_frame:
  assumes "cut_at_most m m'" "sm_inv m"
  shows "sm_inv m'" "sm_next_id m' \<le> Suc (sm_next_id m)" "sm_next_attempt m' = sm_next_attempt m" "worker_step\<^sup>*\<^sup>* m m'"
proof -
  consider "m' = m" | i at r where "split_pending m i at = Inr (m', r)" using assms(1) by (auto simp: cut_at_most_def)
  then have "sm_inv m' \<and> sm_next_id m' \<le> Suc (sm_next_id m) \<and> sm_next_attempt m' = sm_next_attempt m \<and> worker_step\<^sup>*\<^sup>* m m'"
  proof cases
    case 2
    then have "sm_next_id m' = Suc (sm_next_id m)" by (auto elim!: split_pending_Inr)
    then show ?thesis
      using split_pending_frame(6) [OF 2] sm_inv_split [OF assms(2) 2] ws_split [OF 2] by auto
  qed (use assms(2) in simp)
  then show "sm_inv m'" "sm_next_id m' \<le> Suc (sm_next_id m)" "sm_next_attempt m' = sm_next_attempt m" "worker_step\<^sup>*\<^sup>* m m'"
    by simp_all
qed

lemma interior_of:
  assumes "sm_inv m" "x \<in> set (sm_segments m)"
  shows "br_start (sg_range x) < br_end (sg_range x)" "br_end (sg_range x) \<le> I64_MAX"
  using chain_bounds [OF sm_inv_chain [OF assms(1)], of "sg_range x"] assms by (auto simp: sm_inv_defs)

lemma cap_lease_spec:
  assumes inv: "sm_inv m" and job: "j_state (ss_job s) = Transferring" "j_segments (ss_job s) = Some m"
    and unit: "unit_ok (ss_config s)" and ids: "Suc (sm_next_id m) \<le> U64_MAX"
    and x: "x \<in> set (sm_segments m)" "sg_state x = Pending"
  shows "\<exists>m' y. cap_lease (sg_id x) s = (s\<lparr>ss_job := put_map (ss_job s) m'\<rparr>, Inr (sg_id x)) \<and> cut_at_most m m' \<and>
    y \<in> set (sm_segments m') \<and> sg_id y = sg_id x \<and> sg_state y = Pending \<and>
    (br_len (sg_range y) \<le> lease_cap (ss_config s) \<or> length (sm_segments m) = sm_maximum m)"
proof -
  let ?cap = "lease_cap (ss_config s)" and ?at = "br_start (sg_range x) + lease_cap (ss_config s)"
  have same: "s\<lparr>ss_job := put_map (ss_job s) m\<rparr> = s" using job(2) by (simp add: put_map_def)
  show ?thesis
  proof (cases "?cap < br_len (sg_range x)")
    case True
    then have at: "br_start (sg_range x) < ?at" "?at < br_end (sg_range x)"
      using lease_cap_bounds(3) [OF unit] by (auto simp: br_len_def)
    consider "split_pending m (sg_id x) ?at = Inl Capacity" "length (sm_segments m) = sm_maximum m"
      | m' where "split_pending m (sg_id x) ?at = Inr (m', sm_next_id m)"
      using split_pending_interior [OF inv x at ids] by blast
    then show ?thesis
    proof cases
      case 1
      then show ?thesis using x True job find_id [OF inv x(1)] same
        by (intro exI [of _ m] exI [of _ x]) (simp add: cap_lease_def job_split cut_at_most_def)
    next
      case 2
      obtain y where y: "y \<in> set (sm_segments m')" "sg_id y = sg_id x" "sg_state y = Pending"
        "sg_range y = \<lparr>br_start = br_start (sg_range x), br_end = ?at\<rparr>"
        using split_pending_pieces [OF inv 2 x(1)] by blast
      then have "br_len (sg_range y) = ?cap" by (simp add: br_len_def)
      then show ?thesis using 2 x True job find_id [OF inv x(1)] y(1-3)
        by (intro exI [of _ m'] exI [of _ y]) (auto simp: cap_lease_def job_split cut_at_most_def)
    qed
  next
    case False
    then show ?thesis using x job find_id [OF inv x(1)] same
      by (intro exI [of _ m] exI [of _ x]) (simp add: cap_lease_def cut_at_most_def)
  qed
qed


lemma capped_spec:
  assumes "sm_inv m" "j_state (ss_job s) = Transferring" "j_segments (ss_job s) = Some m" "unit_ok (ss_config s)"
    "Suc (sm_next_id m) \<le> U64_MAX" "x \<in> set (sm_segments m)" "sg_state x = Pending"
  shows "\<exists>m' y. op_bind (cap_lease (sg_id x)) (\<lambda>i. op_ok (Some i)) s = (s\<lparr>ss_job := put_map (ss_job s) m'\<rparr>, Inr (Some (sg_id y))) \<and>
    cut_at_most m m' \<and> y \<in> set (sm_segments m') \<and> sg_state y = Pending"
proof -
  obtain m' y where "cap_lease (sg_id x) s = (s\<lparr>ss_job := put_map (ss_job s) m'\<rparr>, Inr (sg_id y))" "cut_at_most m m'"
    "y \<in> set (sm_segments m')" "sg_state y = Pending" using cap_lease_spec [OF assms] by metis
  then show ?thesis by (intro exI [of _ m'] exI [of _ y]) (simp add: op_bind_def op_ok_def)
qed

lemma next_pending_spec:
  assumes inv: "sm_inv m" and job: "j_state (ss_job s) = Transferring" "j_segments (ss_job s) = Some m"
    and unit: "unit_ok (ss_config s)" and ids: "Suc (sm_next_id m) \<le> U64_MAX"
  shows "pending_segments (ss_job s) = [] \<and> next_pending s = (s, Inr None) \<or>
    (\<exists>m' y. next_pending s = (s\<lparr>ss_job := put_map (ss_job s) m'\<rparr>, Inr (Some (sg_id y))) \<and> cut_at_most m m' \<and>
       y \<in> set (sm_segments m') \<and> sg_state y = Pending)"
proof (cases "pending_segments (ss_job s)")
  case Nil
  then show ?thesis by (simp add: next_pending_def)
next
  case (Cons first rest)
  have pend: "x \<in> set (sm_segments m) \<and> sg_state x = Pending" if "x \<in> set (first # rest)" for x
    using that job(2) Cons [symmetric] by (auto simp: pending_segments_def)
  note capped = capped_spec [OF inv job unit ids, of first]
  obtain x where x: "max_by_key (\<lambda>x. br_len (sg_range x)) (first # rest) = Some x"
    using max_by_key_None [of "\<lambda>x. br_len (sg_range x)" "first # rest"] by (metis list.discI option.exhaust)
  then have in_x: "x \<in> set (sm_segments m)" "sg_state x = Pending" using pend max_by_key_SomeD [OF x] by auto
  let ?c = "ss_config s" and ?mid = "steal_point (ss_config s) (sg_range x)"
  let ?steal = "length (first # rest) < ss_connections s - length (ss_leases s) \<and>
    wrap64 (2 * cc_min_segment ?c) \<le> br_len (sg_range x) \<and> ?mid < br_end (sg_range x)"
  show ?thesis
  proof (cases ?steal)
    case False
    then have "next_pending s = op_bind (cap_lease (sg_id first)) (\<lambda>i. op_ok (Some i)) s"
      by (auto simp add: next_pending_def Cons x Let_def simp del: max_by_key.simps)
    then show ?thesis using capped pend by auto
  next
    case True
    have mid: "br_start (sg_range x) < ?mid" "?mid < br_end (sg_range x)"
      using steal_point_bounds(1) [OF unit interior_of(2,1) [OF inv in_x(1)]] True by auto
    have run: "next_pending s = (case job_split_pending (ss_job s) (sg_id x) ?mid of
        Inr (j, right) \<Rightarrow> (s\<lparr>ss_job := j\<rparr>, Inr (Some right))
      | Inl Capacity \<Rightarrow> op_bind (cap_lease (sg_id first)) (\<lambda>i. op_ok (Some i)) s
      | Inl e \<Rightarrow> (s, Inl (RDomain e)))"
      using True by (simp add: next_pending_def Cons x Let_def del: max_by_key.simps)
    consider "split_pending m (sg_id x) ?mid = Inl Capacity"
      | m' where "split_pending m (sg_id x) ?mid = Inr (m', sm_next_id m)"
      using split_pending_interior [OF inv in_x mid ids] by blast
    then show ?thesis
    proof cases
      case 1
      then have "next_pending s = op_bind (cap_lease (sg_id first)) (\<lambda>i. op_ok (Some i)) s"
        using run job_split [OF job] by simp
      then show ?thesis using capped pend by auto
    next
      case 2
      then have "next_pending s = (s\<lparr>ss_job := put_map (ss_job s) m'\<rparr>, Inr (Some (sm_next_id m)))"
        using run job_split [OF job] by simp
      moreover obtain y where "y \<in> set (sm_segments m')" "sg_id y = sm_next_id m" "sg_state y = Pending"
        using split_pending_pieces [OF inv 2 in_x(1)] by auto
      ultimately have "next_pending s = (s\<lparr>ss_job := put_map (ss_job s) m'\<rparr>, Inr (Some (sg_id y))) \<and> cut_at_most m m' \<and>
          y \<in> set (sm_segments m') \<and> sg_state y = Pending" using 2 unfolding cut_at_most_def by auto
      then show ?thesis by blast
    qed
  qed
qed

section \<open>Starting workers\<close>

lemma lease_pending:
  assumes "sm_inv m" "y \<in> set (sm_segments m)" "sg_state y = Pending" "0 < w" "Suc (sm_next_attempt m) \<le> U64_MAX"
  shows "\<exists>m' l. lease_segment m (sg_id y) w = Inr (m', l) \<and> sm_next_id m' = sm_next_id m \<and>
    sm_next_attempt m' = Suc (sm_next_attempt m)"
proof -
  obtain k where k: "k < length (sm_segments m)" "sm_segments m ! k = y" using assms(2) by (metis in_set_conv_nth)
  have "seg_index m (sg_id y) = Inr k" using seg_index_of [OF assms(1) k(1)] k(2) by simp
  then show ?thesis using assms k by (simp add: lease_segment_def checked_add_def Let_def)
qed

text \<open>The loop ends with every connection busy or no pending segment left.\<close>

lemma spawn_workers_spec:
  assumes "sm_inv m" "j_state (ss_job s) = Transferring" "j_segments (ss_job s) = Some m" "unit_ok (ss_config s)"
    and "ss_writer s" "length (ss_leases s) \<le> ss_connections s"
    and "sm_next_id m + (ss_connections s - length (ss_leases s)) \<le> U64_MAX"
    and "sm_next_attempt m + (ss_connections s - length (ss_leases s)) \<le> U64_MAX"
  shows "\<exists>s' m'. spawn_workers s = (s', Inr ()) \<and> worker_step\<^sup>*\<^sup>* m m' \<and> ss_job s' = put_map (ss_job s) m' \<and>
    (length (ss_leases s') = ss_connections s \<or> length (ss_leases s') < ss_connections s \<and> pending_segments (ss_job s') = [])"
  using assms
proof (induction "ss_connections s - length (ss_leases s)" arbitrary: s m rule: less_induct)
  case (less s)
  show ?case
  proof (cases "length (ss_leases s) < ss_connections s")
    case False
    then show ?thesis using less(4,7) by (intro exI [of _ s] exI [of _ m]) (simp add: put_map_def)
  next
    case True
    have ids: "Suc (sm_next_id m) \<le> U64_MAX" and att: "Suc (sm_next_attempt m) \<le> U64_MAX" using less(8,9) True by linarith+
    consider "pending_segments (ss_job s) = []" "next_pending s = (s, Inr None)"
      | m1 y where "next_pending s = (s\<lparr>ss_job := put_map (ss_job s) m1\<rparr>, Inr (Some (sg_id y)))" "cut_at_most m m1"
        "y \<in> set (sm_segments m1)" "sg_state y = Pending"
      using next_pending_spec [OF less(2-5) ids] by blast
    then show ?thesis
    proof cases
      case 1
      then show ?thesis using True \<open>j_state (ss_job s) = Transferring\<close> \<open>j_segments (ss_job s) = Some m\<close>
        by (intro exI [of _ s] exI [of _ m]) (simp add: put_map_def)
    next
      case 2
      note cut = cut_frame [OF 2(2) less(2)]
      let ?w = "ss_next_worker s + 1"
      obtain m2 l where m2: "lease_segment m1 (sg_id y) ?w = Inr (m2, l)" "sm_next_id m2 = sm_next_id m1"
        "sm_next_attempt m2 = Suc (sm_next_attempt m1)"
        using lease_pending [OF cut(1) 2(3,4), of ?w] cut(3) att by auto
      let ?s3 = "s\<lparr>ss_next_worker := ?w, ss_job := put_map (ss_job s) m2, ss_leases := ss_leases s @ [(?w, l)]\<rparr>"
      have lease: "job_lease_segment (put_map (ss_job s) m1) (sg_id y) ?w = Inr (put_map (ss_job s) m2, l)"
        using m2(1) less(3) by (simp add: job_lease_segment_def map_mut_def put_map_def)
      have "\<exists>s' m'. spawn_workers ?s3 = (s', Inr ()) \<and> worker_step\<^sup>*\<^sup>* m2 m' \<and> ss_job s' = put_map (ss_job ?s3) m' \<and>
        (length (ss_leases s') = ss_connections ?s3 \<or> length (ss_leases s') < ss_connections ?s3 \<and> pending_segments (ss_job s') = [])"
        by (rule less(1)) (use True less(3,5-9) sm_inv_lease [OF cut(1) m2(1)] m2(2,3) cut(2,3) in \<open>auto simp: put_map_def\<close>)
      then obtain s' m' where s': "spawn_workers ?s3 = (s', Inr ())" "worker_step\<^sup>*\<^sup>* m2 m'" "ss_job s' = put_map (ss_job s) m'"
        "length (ss_leases s') = ss_connections s \<or> length (ss_leases s') < ss_connections s \<and> pending_segments (ss_job s') = []"
        by (auto simp: put_map_def simp del: spawn_workers.simps)
      have "spawn_workers s = spawn_workers ?s3"
        using True less(3,6) 2(1) lease by (subst spawn_workers.simps) (simp add: Let_def del: spawn_workers.simps)
      moreover have "worker_step\<^sup>*\<^sup>* m m'"
        using cut(4) ws_lease [OF m2(1)] s'(2) by (meson converse_rtranclp_into_rtranclp rtranclp_trans)
      ultimately show ?thesis using s' by metis
    qed
  qed
qed


section \<open>Properties\<close>

definition sample_transfer :: session where
  "sample_transfer = sample_session (sample_db Transferring 2 (Some (map10 Pending 1 1 None)))
     (plain_job Transferring 2 (Some (map10 Pending 1 1 None))) []"

lemmas sample_transfer_defs = sample_transfer_def sample_session_def sample_config_def plain_job_def sample_job_def map10_def

lemma sample_transfer_ok:
  "j_state (ss_job sample_transfer) = Transferring" "j_segments (ss_job sample_transfer) = Some (map10 Pending 1 1 None)"
  "ss_connections sample_transfer = 2" "ss_leases sample_transfer = []" "ss_writer sample_transfer"
  "config_valid (ss_config sample_transfer)" "unit_ok (ss_config sample_transfer)" "cc_min_segment (ss_config sample_transfer) = 1"
  by (simp_all add: sample_transfer_defs config_valid_def unit_ok_def)

text \<open>
  A fresh plan is cut into at most one piece per connection. When the resource has at least two
  units and two connections, the cut succeeds: every piece is pending, starts at a multiple of the
  split granularity and is no longer than one connection's share rounded up to it, there are no more
  pieces than connections, and the pieces still partition the resource. Otherwise the plan stays.
\<close>

theorem initial_split_pieces:
  assumes "sm_inv m" "j_state (ss_job s) = Transferring" "j_segments (ss_job s) = Some m" "sm_segments m = [x]"
    and "sg_state x = Pending" "config_valid (ss_config s)" "ss_connections s \<le> sm_maximum m"
    and "sm_next_id m + ss_connections s \<le> U64_MAX"
    and "k = min (sm_total m div cc_min_segment (ss_config s)) (ss_connections s)"
  shows "if k < 2 then initial_split s = (s, Inr ())
    else \<exists>m'. initial_split s = (s\<lparr>ss_job := put_map (ss_job s) m'\<rparr>, Inr ()) \<and> sm_inv m' \<and> sm_total m' = sm_total m \<and>
      length (sm_segments m') \<le> k \<and>
      (\<forall>y \<in> set (sm_segments m'). sg_state y = Pending \<and> cc_min_segment (ss_config s) dvd br_start (sg_range y) \<and>
         br_len (sg_range y) \<le> div_ceil (div_ceil (sm_total m) k) (cc_min_segment (ss_config s)) * cc_min_segment (ss_config s))"
proof (cases "k < 2")
  case True
  have "br_end (sg_range x) = sm_total m" using sm_inv_chain [OF assms(1)] assms(4) by auto
  then show ?thesis using True assms(3,4,9) by (simp add: initial_split_def op_with_def op_ok_def Let_def)
next
  case False
  have "0 < cc_min_segment (ss_config s)" using assms(6) by (simp add: config_valid_def)
  then obtain m' where m': "initial_split s = (s\<lparr>ss_job := put_map (ss_job s) m'\<rparr>, Inr ())" "worker_step\<^sup>*\<^sup>* m m'"
    "length (sm_segments m') \<le> k" "\<forall>y \<in> set (sm_segments m'). aligned (cc_min_segment (ss_config s))
      (div_ceil (div_ceil (sm_total m) k) (cc_min_segment (ss_config s)) * cc_min_segment (ss_config s)) y"
    using initial_split_spec [OF assms(1-5) _ assms(7-9) _ refl] False by auto
  then show ?thesis using False worker_steps_inv [OF m'(2) assms(1)] worker_steps_frame [OF m'(2)]
    by (auto simp: aligned_def)
qed

theorem initial_split_pieces_witness:
  "\<exists>m'. initial_split sample_transfer = (sample_transfer\<lparr>ss_job := put_map (ss_job sample_transfer) m'\<rparr>, Inr ()) \<and>
     sm_inv m' \<and> length (sm_segments m') \<le> 2 \<and> (\<forall>y \<in> set (sm_segments m'). br_len (sg_range y) \<le> 5)"
proof -
  have x: "sm_segments (map10 Pending 1 1 None) = [\<lparr>sg_id = 1, sg_range = \<lparr>br_start = 0, br_end = 10\<rparr>, sg_state = Pending\<rparr>]"
    by (simp add: map10_def)
  have m: "sm_total (map10 Pending 1 1 None) = 10" "sm_maximum (map10 Pending 1 1 None) = 4" "sm_next_id (map10 Pending 1 1 None) = 2"
    by (simp_all add: map10_def)
  show ?thesis
    using initial_split_pieces [OF sample_inv sample_transfer_ok(1,2) x _ sample_transfer_ok(6) _ _ refl] sample_transfer_ok(3,8) m
    by (auto simp: width_simps div_ceil_def)
qed

text \<open>
  C10. The loop that starts workers keeps the connections busy. In a transferring session whose
  counters have room it never fails, only cuts and leases segments, and stops with either every
  connection occupied or nothing left to lease, so no connection idles beside pending work.
\<close>

theorem spawn_workers_work_conserving:
  assumes "sm_inv m" "j_state (ss_job s) = Transferring" "j_segments (ss_job s) = Some m" "unit_ok (ss_config s)"
    and "ss_writer s" "length (ss_leases s) \<le> ss_connections s"
    and "sm_next_id m + (ss_connections s - length (ss_leases s)) \<le> U64_MAX"
    and "sm_next_attempt m + (ss_connections s - length (ss_leases s)) \<le> U64_MAX"
  shows "\<exists>s' m'. spawn_workers s = (s', Inr ()) \<and> ss_job s' = put_map (ss_job s) m' \<and> sm_inv m' \<and>
    durable_set m' = durable_set m \<and> length (ss_leases s') \<le> ss_connections s \<and>
    (length (ss_leases s') = ss_connections s \<or> pending_segments (ss_job s') = [])"
proof -
  obtain s' m' where "spawn_workers s = (s', Inr ())" "worker_step\<^sup>*\<^sup>* m m'" "ss_job s' = put_map (ss_job s) m'"
    "length (ss_leases s') = ss_connections s \<or> length (ss_leases s') < ss_connections s \<and> pending_segments (ss_job s') = []"
    using spawn_workers_spec [OF assms] by auto
  then show ?thesis using worker_steps_inv [OF _ assms(1)] worker_steps_frame by (intro exI [of _ s'] exI [of _ m']) auto
qed

theorem spawn_workers_work_conserving_witness:
  "\<exists>s' m'. spawn_workers sample_transfer = (s', Inr ()) \<and> sm_inv m' \<and> durable_set m' = {} \<and>
     (length (ss_leases s') = 2 \<or> pending_segments (ss_job s') = [])"
proof -
  have m: "sm_next_id (map10 Pending 1 1 None) = 2" "sm_next_attempt (map10 Pending 1 1 None) = 1"
    "durable_set (map10 Pending 1 1 None) = {}" by (simp_all add: map10_def durable_set_def)
  show ?thesis
    using spawn_workers_work_conserving [OF sample_inv sample_transfer_ok(1,2,7,5)] sample_transfer_ok(3,4) m
    by (auto simp: width_simps)
qed

text \<open>
  The cap on one lease applies to the first pending segment only: a segment cut off the largest
  piece for an idle connection is leased whole, here five bytes where the cap is one.
\<close>

lemma stolen_lease_exceeds_cap:
  "\<exists>s' m y. next_pending sample_transfer = (s', Inr (Some (sg_id y))) \<and> j_segments (ss_job s') = Some m \<and>
     y \<in> set (sm_segments m) \<and> br_len (sg_range y) = 5 \<and> lease_cap (ss_config s') = 1"
  by (auto intro!: exI [of _ "\<lparr>sg_id = 2, sg_range = \<lparr>br_start = 5, br_end = 10\<rparr>, sg_state = Pending\<rparr>"]
      simp: sample_transfer_defs next_pending_def pending_segments_def Let_def wrap64_def steal_point_def div_ceil_def
      job_split_pending_def map_mut_def split_pending_def seg_index_def br_split_def byte_range_new_def checked_add_def
      width_simps put_map_def lease_cap_def br_len_def)

end
