(* ===== verification/Scheduler.thy ===== *)
theory Scheduler
  imports Session_Props "HOL-Library.Multiset" "HOL-Library.Sublist"
begin

text \<open>
  The scheduler (\<open>crates/runtime/src/scheduler.rs\<close>): who runs. It owns the queue, the engine-wide
  and the per-origin connection budget and the waiting. Sessions are tasks outside: a script gives,
  for each round of the loop, what they did to the shared repository and reported to the shared
  governor meanwhile, the clock readings, which control channels are full, and what the round's
  \<open>select\<close> yields. Transitions of queued jobs go through the coordinator's own operations.
\<close>

section \<open>Data\<close>

record scheduler_config =
  sc_max_active :: usize
  sc_connections :: usize
  sc_per_job :: usize
  sc_resident :: bool

definition scheduler_config_valid :: "scheduler_config \<Rightarrow> bool" where
  "scheduler_config_valid c \<longleftrightarrow>
     (1 \<le> sc_max_active c \<and> sc_max_active c \<le> 4096) \<and> (1 \<le> sc_connections c \<and> sc_connections c \<le> 4096) \<and>
     (1 \<le> sc_per_job c \<and> sc_per_job c \<le> sc_connections c)"

datatype Command = Admit job | PauseJob JobId | CancelJob JobId | Shutdown

record job_outcome =
  oc_id :: JobId
  oc_job :: "job option"
  oc_result :: "(RunError, SessionEnd) result option"

definition outcome_settled :: "job \<Rightarrow> job_outcome" where
  "outcome_settled j = \<lparr>oc_id = j_id j, oc_job = Some j, oc_result = None\<rparr>"

definition outcome_failed :: "JobId \<Rightarrow> RunError \<Rightarrow> job_outcome" where
  "outcome_failed i e = \<lparr>oc_id = i, oc_job = None, oc_result = Some (Inl e)\<rparr>"

record queue_entry =
  en_job :: job
  en_origin :: OriginId

text \<open>A running session's side of the scheduler; \<open>ac_sent\<close> are the controls its channel accepted.\<close>

record active_session =
  ac_sent :: "Control list"
  ac_origin :: OriginId
  ac_grant :: usize

record job_queue =
  qu_ready :: "queue_entry list"
  qu_waiting :: "queue_entry list"
  qu_done :: "job_outcome list"

definition queue_take :: "queue_entry \<Rightarrow> job_queue \<Rightarrow> job_queue" where
  "queue_take e q =
     (if j_state (en_job e) \<in> {Queued, Verifying, Publishing} then q\<lparr>qu_ready := qu_ready q @ [e]\<rparr>
      else if j_state (en_job e) = RetryWait then q\<lparr>qu_waiting := qu_waiting q @ [e]\<rparr>
      else q\<lparr>qu_done := qu_done q @ [outcome_settled (en_job e)]\<rparr>)"

definition take_at :: "nat \<Rightarrow> 'a list \<Rightarrow> 'a list" where
  "take_at k xs = take k xs @ drop (Suc k) xs"

definition queue_remove :: "JobId \<Rightarrow> job_queue \<Rightarrow> (queue_entry \<times> job_queue) option" where
  "queue_remove i q =
     (case position (\<lambda>e. j_id (en_job e) = i) (qu_ready q) of
        Some k \<Rightarrow> Some (qu_ready q ! k, q\<lparr>qu_ready := take_at k (qu_ready q)\<rparr>)
      | None \<Rightarrow>
          (case position (\<lambda>e. j_id (en_job e) = i) (qu_waiting q) of
             Some k \<Rightarrow> Some (qu_waiting q ! k, q\<lparr>qu_waiting := take_at k (qu_waiting q)\<rparr>)
           | None \<Rightarrow> None))"

definition queue_idle :: "job_queue \<Rightarrow> bool" where
  "queue_idle q \<longleftrightarrow> qu_ready q = [] \<and> qu_waiting q = []"

definition queue_drain :: "job_queue \<Rightarrow> queue_entry list" where
  "queue_drain q = qu_ready q @ qu_waiting q"

record scheduler =
  sd_config :: scheduler_config
  sd_coordinator :: session
  sd_governor :: governor
  sd_queue :: job_queue
  sd_active :: "(JobId \<times> active_session) list"
  sd_owners :: "(u64 \<times> JobId) list"
  sd_sessions :: "(u64 \<times> JobId) list"
  sd_next_task :: u64
  sd_last :: "(JobId \<times> SessionEnd) list"
  sd_deferred :: "(JobId \<times> Control) list"
  sd_used :: usize
  sd_open :: bool
  sd_stopping :: bool

datatype origin_report = ReportSucceeded OriginId | ReportThrottled OriginId "u64 option" | ReportFailed OriginId

text \<open>What the world outside did before and during one round.\<close>

record round_world =
  ro_repo :: db
  ro_fates :: "fate list"
  ro_reports :: "(origin_report \<times> u64) list"
  ro_origin :: "SourceRef \<Rightarrow> OriginId"
  ro_full :: "JobId \<Rightarrow> bool"
  ro_promote_now :: u64
  ro_admit_now :: u64
  ro_deadline_now :: u64
  ro_now :: u64

fun apply_report :: "origin_report \<times> u64 \<Rightarrow> governor \<Rightarrow> governor" where
  "apply_report (ReportSucceeded i, now) g = origin_succeeded g i now"
| "apply_report (ReportThrottled i after, now) g = origin_throttled g i after now"
| "apply_report (ReportFailed i, now) g = origin_failed g i now"

definition meanwhile :: "round_world \<Rightarrow> scheduler \<Rightarrow> scheduler" where
  "meanwhile w s =
     s\<lparr>sd_coordinator := (sd_coordinator s)\<lparr>ss_repo := ro_repo w, ss_fates := ro_fates w\<rparr>,
       sd_governor := fold apply_report (ro_reports w) (sd_governor s)\<rparr>"

section \<open>Calls of the coordinator\<close>

definition scheduler_new :: "session \<Rightarrow> governor \<Rightarrow> scheduler_config \<Rightarrow> (RunError, scheduler) result" where
  "scheduler_new c g config =
     (if \<not> scheduler_config_valid config \<or> cc_connections (ss_config c) < sc_per_job config then Inl RInvalidConfig
      else Inr \<lparr>sd_config = config, sd_coordinator = c, sd_governor = g,
                sd_queue = \<lparr>qu_ready = [], qu_waiting = [], qu_done = []\<rparr>, sd_active = [], sd_owners = [],
                sd_sessions = [], sd_next_task = 1, sd_last = [], sd_deferred = [], sd_used = 0,
                sd_open = True, sd_stopping = False\<rparr>)"

text \<open>One call of \<open>Coordinator::command\<close> or \<open>Coordinator::recover\<close> on a job.\<close>

definition coordinate :: "unit session_op \<Rightarrow> job \<Rightarrow> scheduler \<Rightarrow> scheduler \<times> (RunError, job) result" where
  "coordinate m j s =
     (let (c, r) = m ((sd_coordinator s)\<lparr>ss_job := j\<rparr>) in
      (s\<lparr>sd_coordinator := c\<rparr>, case r of Inl e \<Rightarrow> Inl e | Inr _ \<Rightarrow> Inr (ss_job c)))"

definition with_queue :: "(job_queue \<Rightarrow> job_queue) \<Rightarrow> scheduler \<Rightarrow> scheduler" where
  "with_queue f s = s\<lparr>sd_queue := f (sd_queue s)\<rparr>"

definition push_done :: "job_outcome \<Rightarrow> scheduler \<Rightarrow> scheduler" where
  "push_done x = with_queue (\<lambda>q. q\<lparr>qu_done := qu_done q @ [x]\<rparr>)"

definition settle :: "job \<Rightarrow> scheduler \<Rightarrow> scheduler \<times> (RunError, job) result" where
  "settle j s =
     (if j_state j \<in> {Probing, Transferring, Stopping, Cancelling} then coordinate recover j s
      else (s, Inr j))"

definition enqueue :: "round_world \<Rightarrow> job \<Rightarrow> scheduler \<Rightarrow> scheduler" where
  "enqueue w j = with_queue (queue_take \<lparr>en_job = j, en_origin = ro_origin w (js_source (j_spec j))\<rparr>)"

text \<open>The intake of the jobs a run starts with; a second job of one identity is refused.\<close>

fun intake :: "round_world \<Rightarrow> JobId list \<Rightarrow> job list \<Rightarrow> scheduler \<Rightarrow> scheduler" where
  "intake w seen [] s = s"
| "intake w seen (j # js) s =
     (if j_id j \<in> set seen then intake w seen js (push_done (outcome_failed (j_id j) RInvariant) s)
      else intake w (seen @ [j_id j]) js
        (case settle j s of
           (s1, Inr j1) \<Rightarrow> enqueue w j1 s1
         | (s1, Inl e) \<Rightarrow> push_done (outcome_failed (j_id j) e) s1))"

section \<open>The rounds\<close>

definition sched_finish :: "u64 \<Rightarrow> JobId \<Rightarrow> (RunError, SessionEnd) result \<Rightarrow> scheduler \<Rightarrow> scheduler" where
  "sched_finish now i r s =
     (case map_of (sd_active s) i of
        None \<Rightarrow> s
      | Some a \<Rightarrow>
          let g = origin_release (sd_governor s) (ac_origin a) (ac_grant a) now in
          s\<lparr>sd_active := filter (\<lambda>(k, _). k \<noteq> i) (sd_active s), sd_used := sd_used s - ac_grant a,
            sd_governor := (case r of Inr (Published _) \<Rightarrow> origin_succeeded g (ac_origin a) now | _ \<Rightarrow> g)\<rparr>)"

fun promote_entries :: "u64 \<Rightarrow> queue_entry list \<Rightarrow> scheduler \<Rightarrow> scheduler" where
  "promote_entries now [] s = s"
| "promote_entries now (e # es) s =
     (if (case j_retry_at (en_job e) of None \<Rightarrow> False | Some at \<Rightarrow> now < at)
      then promote_entries now es (with_queue (\<lambda>q. q\<lparr>qu_waiting := qu_waiting q @ [e]\<rparr>) s)
      else promote_entries now es
        (case coordinate (session_step (CRetryDue now)) (en_job e) s of
           (s1, Inr j) \<Rightarrow> with_queue (queue_take \<lparr>en_job = j, en_origin = en_origin e\<rparr>) s1
         | (s1, Inl err) \<Rightarrow> push_done (outcome_failed (j_id (en_job e)) err) s1))"

definition promote_due :: "u64 \<Rightarrow> scheduler \<Rightarrow> scheduler" where
  "promote_due now s =
     promote_entries now (qu_waiting (sd_queue s)) (with_queue (\<lambda>q. q\<lparr>qu_waiting := []\<rparr>) s)"

definition start_session :: "queue_entry \<Rightarrow> usize \<Rightarrow> scheduler \<Rightarrow> scheduler" where
  "start_session e grant s =
     (let i = j_id (en_job e); t = sd_next_task s in
      s\<lparr>sd_active := (i, \<lparr>ac_sent = [], ac_origin = en_origin e, ac_grant = grant\<rparr>) # filter (\<lambda>(k, _). k \<noteq> i) (sd_active s),
        sd_used := sd_used s + grant, sd_sessions := sd_sessions s @ [(t, i)],
        sd_owners := (t, i) # sd_owners s, sd_next_task := t + 1\<rparr>)"

fun start_ready :: "u64 \<Rightarrow> queue_entry list \<Rightarrow> queue_entry list \<Rightarrow> bool \<Rightarrow> scheduler \<Rightarrow> scheduler \<times> bool" where
  "start_ready now [] skipped started s = (with_queue (\<lambda>q. q\<lparr>qu_ready := skipped\<rparr>) s, started)"
| "start_ready now (e # rest) skipped started s =
     (let spare = sc_connections (sd_config s) - sd_used s in
      if sc_max_active (sd_config s) \<le> length (sd_active s) \<or> spare = 0
      then (with_queue (\<lambda>q. q\<lparr>qu_ready := skipped @ e # rest\<rparr>) s, started)
      else
        let (g, grant) = origin_admit (sd_governor s) (en_origin e) (min (sc_per_job (sd_config s)) spare) now;
            s1 = s\<lparr>sd_governor := g\<rparr> in
        if grant = 0 then start_ready now rest (skipped @ [e]) started s1
        else start_ready now rest skipped True (start_session e grant s1))"

definition sched_admit :: "u64 \<Rightarrow> scheduler \<Rightarrow> scheduler \<times> bool" where
  "sched_admit now s = start_ready now (qu_ready (sd_queue s)) [] False s"

text \<open>A control goes to the session's channel, or is kept for later when the channel is full.\<close>

definition send_control :: "(JobId \<Rightarrow> bool) \<Rightarrow> JobId \<Rightarrow> Control \<Rightarrow> scheduler \<Rightarrow> scheduler" where
  "send_control full i c s =
     (if full i then s\<lparr>sd_deferred := sd_deferred s @ [(i, c)]\<rparr>
      else s\<lparr>sd_active := map (\<lambda>(k, a). if k = i then (k, a\<lparr>ac_sent := ac_sent a @ [c]\<rparr>) else (k, a)) (sd_active s)\<rparr>)"

fun deliver_all :: "(JobId \<Rightarrow> bool) \<Rightarrow> (JobId \<times> Control) list \<Rightarrow> scheduler \<Rightarrow> scheduler" where
  "deliver_all full [] s = s"
| "deliver_all full ((i, c) # ds) s =
     deliver_all full ds (if map_of (sd_active s) i = None then s else send_control full i c s)"

definition deliver :: "(JobId \<Rightarrow> bool) \<Rightarrow> scheduler \<Rightarrow> scheduler" where
  "deliver full s = deliver_all full (sd_deferred s) (s\<lparr>sd_deferred := []\<rparr>)"

fun pause_all :: "(JobId \<Rightarrow> bool) \<Rightarrow> JobId list \<Rightarrow> scheduler \<Rightarrow> scheduler" where
  "pause_all full [] s = s"
| "pause_all full (i # is) s = pause_all full is (send_control full i ControlPause s)"

definition control_command :: "Control \<Rightarrow> JobCommand" where
  "control_command c = (case c of ControlPause \<Rightarrow> CPause | ControlCancel \<Rightarrow> CCancel)"

definition control_job :: "round_world \<Rightarrow> JobId \<Rightarrow> Control \<Rightarrow> scheduler \<Rightarrow> scheduler" where
  "control_job w i c s =
     (if map_of (sd_active s) i \<noteq> None then send_control (ro_full w) i c s
      else case queue_remove i (sd_queue s) of
        None \<Rightarrow> s
      | Some (e, q) \<Rightarrow>
          (case coordinate (session_step (control_command c)) (en_job e) (s\<lparr>sd_queue := q\<rparr>) of
             (s1, Inl err) \<Rightarrow> push_done (outcome_failed i err) s1
           | (s1, Inr j) \<Rightarrow>
               (case settle j s1 of
                  (s2, Inr j') \<Rightarrow> with_queue (queue_take \<lparr>en_job = j', en_origin = en_origin e\<rparr>) s2
                | (s2, Inl err) \<Rightarrow> push_done (outcome_failed (j_id j) err) s2)))"

text \<open>The second component tells whether the scheduler stops admitting and drains.\<close>

fun on_command :: "round_world \<Rightarrow> Command \<Rightarrow> scheduler \<Rightarrow> scheduler \<times> bool" where
  "on_command w (Admit j) s = (enqueue w j s, False)"
| "on_command w Shutdown s = (pause_all (ro_full w) (map fst (sd_active s)) s, True)"
| "on_command w (PauseJob i) s = (control_job w i ControlPause s, False)"
| "on_command w (CancelJob i) s = (control_job w i ControlCancel s, False)"

definition min_option :: "nat list \<Rightarrow> nat option" where
  "min_option xs = (if xs = [] then None else Some (Min (set xs)))"

definition next_deadline :: "u64 \<Rightarrow> scheduler \<Rightarrow> u64 option" where
  "next_deadline now s =
     (let retry = min_option (filter (\<lambda>at. now < at)
                    (List.map_filter (\<lambda>e. j_retry_at (en_job e)) (qu_waiting (sd_queue s))));
          origin = min_option (List.map_filter (\<lambda>e. origin_ready_at (sd_governor s) (en_origin e) now)
                    (qu_ready (sd_queue s))) in
      case (retry, origin) of
        (Some a, Some b) \<Rightarrow> Some (min a b)
      | (Some a, None) \<Rightarrow> Some a
      | (None, b) \<Rightarrow> b)"

datatype round = RoundBreak | RoundSelect "u64 option"

text \<open>One round of the loop up to its \<open>select\<close>.\<close>

definition sched_round :: "round_world \<Rightarrow> scheduler \<Rightarrow> scheduler \<times> round" where
  "sched_round w s =
     (let s1 = deliver (ro_full w) (meanwhile w s);
          (s2, started) = (if sd_stopping s1 then (s1, False) else sched_admit (ro_admit_now w) (promote_due (ro_promote_now w) s1));
          waiting = (sc_resident (sd_config s2) \<and> sd_open s2);
          deadline = next_deadline (ro_deadline_now w) s2 in
      (s2, if sd_sessions s2 = [] \<and> (sd_stopping s2 \<or> queue_idle (sd_queue s2) \<and> \<not> waiting) then RoundBreak
           else if sd_sessions s2 = [] \<and> \<not> started \<and> deadline = None \<and> \<not> waiting then RoundBreak
           else RoundSelect deadline))"

datatype arrival =
    SessionReturned u64 job "(RunError, SessionEnd) result" | SessionPanicked u64
  | CommandReceived "Command option" | DeadlineReached

fun on_arrival :: "round_world \<Rightarrow> arrival \<Rightarrow> scheduler \<Rightarrow> scheduler" where
  "on_arrival w (SessionReturned t j r) s =
     (case map_of (sd_sessions s) t of
        None \<Rightarrow> s
      | Some i \<Rightarrow>
          let s1 = sched_finish (ro_now w) i r (s\<lparr>sd_sessions := filter (\<lambda>(u, _). u \<noteq> t) (sd_sessions s)\<rparr>) in
          (case r of
             Inr end \<Rightarrow> enqueue w j (s1\<lparr>sd_last := (i, end) # filter (\<lambda>(k, _). k \<noteq> i) (sd_last s1)\<rparr>)
           | Inl e \<Rightarrow> push_done (outcome_failed i e) s1))"
| "on_arrival w (SessionPanicked t) s =
     (case map_of (sd_sessions s) t of
        None \<Rightarrow> s
      | Some _ \<Rightarrow>
          let s1 = s\<lparr>sd_sessions := filter (\<lambda>(u, _). u \<noteq> t) (sd_sessions s)\<rparr> in
          (case map_of (sd_owners s1) t of
             None \<Rightarrow> s1
           | Some i \<Rightarrow>
               push_done (outcome_failed i RInvariant)
                 (sched_finish (ro_now w) i (Inl RInvariant)
                   (s1\<lparr>sd_owners := filter (\<lambda>(u, _). u \<noteq> t) (sd_owners s1)\<rparr>))))"
| "on_arrival w (CommandReceived None) s = s\<lparr>sd_open := False\<rparr>"
| "on_arrival w (CommandReceived (Some c)) s =
     (if \<not> sd_open s then s
      else let (s1, stop) = on_command w c s in if stop then s1\<lparr>sd_stopping := True\<rparr> else s1)"
| "on_arrival w DeadlineReached s = s"

text \<open>How the run returns: what is still queued is handed back, and an outcome without a result
  takes how the job's last session ended. Only the first outcome of an identity finds it.\<close>

fun fill_results :: "(JobId \<times> SessionEnd) list \<Rightarrow> job_outcome list \<Rightarrow> job_outcome list" where
  "fill_results ls [] = []"
| "fill_results ls (x # xs) =
     (if oc_result x = None
      then x\<lparr>oc_result := map_option Inr (map_of ls (oc_id x))\<rparr> # fill_results (filter (\<lambda>(k, _). k \<noteq> oc_id x) ls) xs
      else x # fill_results ls xs)"

definition sched_outcomes :: "scheduler \<Rightarrow> job_outcome list" where
  "sched_outcomes s =
     sort_key oc_id (fill_results (sd_last s)
       (qu_done (sd_queue s) @ map (\<lambda>e. outcome_settled (en_job e)) (queue_drain (sd_queue s))))"

text \<open>The loop over a script; a script that runs out leaves the scheduler waiting.\<close>

fun sched_run :: "(round_world \<times> arrival) list \<Rightarrow> scheduler \<Rightarrow> scheduler \<times> job_outcome list option" where
  "sched_run [] s = (s, None)"
| "sched_run ((w, a) # rest) s =
     (case sched_round w s of
        (s1, RoundBreak) \<Rightarrow> (s1, Some (sched_outcomes s1))
      | (s1, RoundSelect _) \<Rightarrow> sched_run rest (on_arrival w a s1))"

definition scheduler_run :: "round_world \<Rightarrow> job list \<Rightarrow> (round_world \<times> arrival) list \<Rightarrow> scheduler \<Rightarrow>
  scheduler \<times> job_outcome list option" where
  "scheduler_run w jobs script s = sched_run script (intake w [] jobs s)"

end
