(* ===== verification/Scheduler_Props.thy ===== *)
theory Scheduler_Props
  imports Scheduler
begin

text \<open>
  What the scheduler promises: every job it is given comes back exactly once, the connection and
  session budgets hold and agree with the governor, and admission keeps the queue's order.
\<close>

section \<open>The coordinator keeps a job's identity\<close>

definition keeps_id :: "'a session_op \<Rightarrow> bool" where
  "keeps_id m \<longleftrightarrow> (\<forall>s s' r. m s = (s', r) \<longrightarrow> j_id (ss_job s') = j_id (ss_job s))"

lemma keeps_id_bind: "keeps_id m \<Longrightarrow> (\<And>x. keeps_id (f x)) \<Longrightarrow> keeps_id (op_bind m f)"
  by (fastforce simp: keeps_id_def op_bind_def split: prod.splits sum.splits)

lemma keeps_id_with: "(\<And>s. keeps_id (f s)) \<Longrightarrow> keeps_id (op_with f)"
  by (auto simp: keeps_id_def op_with_def)

lemma keeps_id_simple: "keeps_id (op_ok x)" "keeps_id (op_fail e)"
  by (auto simp: keeps_id_def op_ok_def op_fail_def)

lemma keeps_id_commit: "keeps_id (op_commit (commit_transition e))"
  by (auto simp: keeps_id_def op_commit_def commit_transition_def run_transaction_def next_fate_def Let_def
      split: prod.splits list.splits sum.splits)

lemma keeps_id_apply: "keeps_id (op_job_unit (\<lambda>j. job_apply j e))"
  unfolding keeps_id_def
proof (intro allI impI)
  fix s s' r
  assume run: "op_job_unit (\<lambda>j. job_apply j e) s = (s', r)"
  show "j_id (ss_job s') = j_id (ss_job s)"
  proof (cases "job_apply (ss_job s) e")
    case (Inr j)
    then obtain k where "execute (ss_job s) (je_command e) = Inr (True, k)" "j = k\<lparr>j_version := Suc (j_version (ss_job s))\<rparr>"
      by (rule job_apply_Inr)
    then have "j_id j = j_id (ss_job s)" using execute_core by (fastforce simp: core_frame_def)
    then show ?thesis using run Inr by (auto simp: op_job_unit_def op_job_def)
  qed (use run in \<open>auto simp: op_job_unit_def op_job_def\<close>)
qed

lemma keeps_id_commit_and_apply: "keeps_id (commit_and_apply es)"
  by (induction es) (auto intro!: keeps_id_bind keeps_id_simple keeps_id_commit keeps_id_apply)

lemma keeps_id_step: "keeps_id (session_step c)"
  unfolding session_step_def
  by (rule keeps_id_with) (auto intro: keeps_id_simple keeps_id_commit_and_apply split: sum.splits)

lemma keeps_id_recover: "keeps_id recover"
  unfolding recover_def by (auto intro!: keeps_id_with keeps_id_bind keeps_id_step keeps_id_simple)

text \<open>A call on a queued job leaves the scheduler alone but for the coordinator's own state.\<close>

lemma coordinate_frame:
  assumes "keeps_id m" "coordinate m j s = (s', r)"
  obtains c where "s' = s\<lparr>sd_coordinator := c\<rparr>" "\<And>j'. r = Inr j' \<Longrightarrow> j_id j' = j_id j"
proof -
  obtain c q where c: "m ((sd_coordinator s)\<lparr>ss_job := j\<rparr>) = (c, q)" by fastforce
  then have "j_id (ss_job c) = j_id j" using assms(1) by (fastforce simp: keeps_id_def)
  then show ?thesis using assms(2) c that [of c] by (auto simp: coordinate_def split: sum.splits)
qed

lemma settle_frame:
  assumes "settle j s = (s', r)"
  obtains c where "s' = s\<lparr>sd_coordinator := c\<rparr>" "\<And>j'. r = Inr j' \<Longrightarrow> j_id j' = j_id j"
proof (cases "j_state j \<in> {Probing, Transferring, Stopping, Cancelling}")
  case True
  then have "coordinate recover j s = (s', r)" using assms by (simp add: settle_def)
  then show ?thesis by (rule coordinate_frame [OF keeps_id_recover]) (rule that)
next
  case False
  then show ?thesis using assms that [of "sd_coordinator s"] by (auto simp: settle_def)
qed

section \<open>Where each job is\<close>

abbreviation entry_id :: "queue_entry \<Rightarrow> JobId" where "entry_id e \<equiv> j_id (en_job e)"

definition live_ids :: "scheduler \<Rightarrow> JobId multiset" where
  "live_ids s = mset (map entry_id (qu_ready (sd_queue s))) + mset (map entry_id (qu_waiting (sd_queue s)))
     + mset (map snd (sd_sessions s))"

definition job_ids :: "scheduler \<Rightarrow> JobId multiset" where
  "job_ids s = live_ids s + mset (map oc_id (qu_done (sd_queue s)))"

text \<open>Every outcome that carries a job carries the one it names.\<close>

definition outcomes_ok :: "scheduler \<Rightarrow> bool" where
  "outcomes_ok s \<longleftrightarrow> (\<forall>x \<in> set (qu_done (sd_queue s)). \<forall>j. oc_job x = Some j \<longrightarrow> j_id j = oc_id x)"

lemmas ids_defs = job_ids_def live_ids_def outcomes_ok_def with_queue_def

lemma take_ids:
  "job_ids (with_queue (queue_take e) s) = add_mset (entry_id e) (job_ids s)"
  "live_ids (with_queue (queue_take e) s) = live_ids s \<or>
   live_ids (with_queue (queue_take e) s) = add_mset (entry_id e) (live_ids s)"
  "outcomes_ok (with_queue (queue_take e) s) = outcomes_ok s"
  by (auto simp: ids_defs queue_take_def outcome_settled_def)

lemma done_ids:
  "job_ids (push_done x s) = add_mset (oc_id x) (job_ids s)"
  "live_ids (push_done x s) = live_ids s"
  "outcomes_ok (push_done (outcome_failed i e) s) = outcomes_ok s"
  by (auto simp: ids_defs push_done_def outcome_failed_def)

lemma ids_coordinator [simp]:
  "job_ids (s\<lparr>sd_coordinator := c\<rparr>) = job_ids s" "live_ids (s\<lparr>sd_coordinator := c\<rparr>) = live_ids s"
  "outcomes_ok (s\<lparr>sd_coordinator := c\<rparr>) = outcomes_ok s"
  by (simp_all add: ids_defs)

text \<open>What an operation on the queue leaves alone: the grants, the sessions and what the governor
  counts. Controls, the coordinator's own state and the record of last results may change.\<close>

definition grants :: "scheduler \<Rightarrow> (JobId \<times> OriginId \<times> usize) list" where
  "grants s = map (\<lambda>(i, a). (i, ac_origin a, ac_grant a)) (sd_active s)"

definition same_sessions :: "scheduler \<Rightarrow> scheduler \<Rightarrow> bool" where
  "same_sessions s t \<longleftrightarrow> sd_config t = sd_config s \<and> grants t = grants s \<and>
     governor_in_flight (sd_governor t) = governor_in_flight (sd_governor s) \<and>
     governor_cap (sd_governor t) = governor_cap (sd_governor s) \<and>
     sd_owners t = sd_owners s \<and> sd_sessions t = sd_sessions s \<and> sd_next_task t = sd_next_task s \<and>
     sd_used t = sd_used s \<and> sd_open t = sd_open s \<and> sd_stopping t = sd_stopping s"

lemma same_sessions_refl [simp]: "same_sessions s s"
  by (simp add: same_sessions_def)

lemma same_sessions_trans: "same_sessions s t \<Longrightarrow> same_sessions t u \<Longrightarrow> same_sessions s u"
  by (simp add: same_sessions_def)

lemma same_sessions_simps [simp]:
  "same_sessions s (with_queue f t) = same_sessions s t" "same_sessions s (push_done x t) = same_sessions s t"
  "same_sessions s (t\<lparr>sd_coordinator := c\<rparr>) = same_sessions s t"
  "same_sessions s (t\<lparr>sd_queue := q\<rparr>) = same_sessions s t"
  by (simp_all add: same_sessions_def with_queue_def push_done_def grants_def)

text \<open>A step that takes no new job: the jobs held stay the same and none becomes live again.\<close>

definition requeues :: "scheduler \<Rightarrow> scheduler \<Rightarrow> bool" where
  "requeues s t \<longleftrightarrow> same_sessions s t \<and> job_ids t = job_ids s \<and> live_ids t \<subseteq># live_ids s \<and> (outcomes_ok s \<longrightarrow> outcomes_ok t)"

lemma requeues_trans: "requeues s t \<Longrightarrow> requeues t u \<Longrightarrow> requeues s u"
  by (auto simp: requeues_def intro: same_sessions_trans subset_mset.order_trans)

text \<open>Handing an entry taken out of the queue back to it, or to the outcomes.\<close>

lemma back_ids:
  assumes "add_mset (entry_id e) (job_ids s1) = job_ids s" "add_mset (entry_id e) (live_ids s1) = live_ids s"
    "same_sessions s s1" "outcomes_ok s \<longrightarrow> outcomes_ok s1" "entry_id e = i"
  shows "entry_id f = i \<Longrightarrow> requeues s (with_queue (queue_take f) s1)"
    "requeues s (push_done (outcome_failed i x) s1)"
  using assms take_ids [of f s1] done_ids(1,2) [of "outcome_failed i x" s1] done_ids(3) [of i x s1]
  by (auto simp: requeues_def outcome_failed_def mset_subset_eq_add_mset_cancel simp flip: assms(1,2))


lemma promote_entries_ids:
  "same_sessions s (promote_entries now es s) \<and> job_ids (promote_entries now es s) = job_ids s + mset (map entry_id es) \<and>
   live_ids (promote_entries now es s) \<subseteq># live_ids s + mset (map entry_id es) \<and>
   (outcomes_ok s \<longrightarrow> outcomes_ok (promote_entries now es s))"
proof (induction es arbitrary: s)
  case (Cons e es)
  have step: "\<exists>s1. promote_entries now (e # es) s = promote_entries now es s1 \<and> same_sessions s s1 \<and>
      job_ids s1 = add_mset (entry_id e) (job_ids s) \<and> live_ids s1 \<subseteq># add_mset (entry_id e) (live_ids s) \<and>
      (outcomes_ok s \<longrightarrow> outcomes_ok s1)"
  proof (cases "case j_retry_at (en_job e) of None \<Rightarrow> False | Some at \<Rightarrow> now < at")
    case True
    then show ?thesis
      by (intro exI [of _ "with_queue (\<lambda>q. q\<lparr>qu_waiting := qu_waiting q @ [e]\<rparr>) s"]) (simp add: ids_defs same_sessions_def grants_def)
  next
    case False
    obtain s1 r where r: "coordinate (session_step (CRetryDue now)) (en_job e) s = (s1, r)" by fastforce
    obtain c where c: "s1 = s\<lparr>sd_coordinator := c\<rparr>" "\<And>j. r = Inr j \<Longrightarrow> j_id j = entry_id e"
      using coordinate_frame [OF keeps_id_step r] by blast
    show ?thesis
    proof (cases r)
      case (Inl x)
      let ?t = "push_done (outcome_failed (entry_id e) x) s1"
      have "promote_entries now (e # es) s = promote_entries now es ?t" using False r Inl by simp
      moreover have "job_ids ?t = add_mset (entry_id e) (job_ids s)" "live_ids ?t = live_ids s" "outcomes_ok ?t = outcomes_ok s"
        using done_ids(1,2) [of "outcome_failed (entry_id e) x" s1] done_ids(3) [of "entry_id e" x s1] c(1)
        by (simp_all add: outcome_failed_def)
      ultimately show ?thesis using c(1) by (intro exI [of _ ?t]) simp
    next
      case (Inr j)
      let ?f = "\<lparr>en_job = j, en_origin = en_origin e\<rparr>"
      let ?t = "with_queue (queue_take ?f) s1"
      have "promote_entries now (e # es) s = promote_entries now es ?t" using False r Inr by simp
      moreover have "job_ids ?t = add_mset (entry_id e) (job_ids s)" "outcomes_ok ?t = outcomes_ok s"
        "live_ids ?t = live_ids s \<or> live_ids ?t = add_mset (entry_id e) (live_ids s)"
        using take_ids [of ?f s1] c(1) c(2) [OF Inr] by simp_all
      ultimately show ?thesis using c(1) by (intro exI [of _ ?t]) auto
    qed
  qed
  then obtain s1 where s1: "promote_entries now (e # es) s = promote_entries now es s1" "same_sessions s s1"
    "job_ids s1 = add_mset (entry_id e) (job_ids s)" "live_ids s1 \<subseteq># add_mset (entry_id e) (live_ids s)"
    "outcomes_ok s \<longrightarrow> outcomes_ok s1" by blast
  have "live_ids (promote_entries now es s1) \<subseteq># live_ids s + mset (map entry_id (e # es))"
    using Cons.IH [of s1] s1(4) by (auto intro: subset_mset.order_trans)
  then show ?case using Cons.IH [of s1] s1 same_sessions_trans by auto
qed simp

lemma promote_due_ids: "requeues s (promote_due now s)"
proof -
  let ?t = "with_queue (\<lambda>q. q\<lparr>qu_waiting := []\<rparr>) s"
  have "job_ids ?t + mset (map entry_id (qu_waiting (sd_queue s))) = job_ids s"
    "live_ids ?t + mset (map entry_id (qu_waiting (sd_queue s))) = live_ids s" "outcomes_ok ?t = outcomes_ok s"
    by (simp_all add: ids_defs)
  moreover have "same_sessions s u" if "same_sessions ?t u" for u
    using that by (simp add: same_sessions_def with_queue_def grants_def)
  ultimately show ?thesis
    using promote_entries_ids [of ?t now "qu_waiting (sd_queue s)"] unfolding requeues_def promote_due_def by metis
qed

lemma take_at_mset: "k < length xs \<Longrightarrow> add_mset (xs ! k) (mset (take_at k xs)) = mset xs"
  by (metis add_mset_add_single append_take_drop_id id_take_nth_drop mset.simps(2) mset_append take_at_def union_mset_add_mset_right)

lemma queue_remove_ids:
  assumes "queue_remove i (sd_queue s) = Some (e, q)"
  shows "entry_id e = i" "add_mset i (job_ids (s\<lparr>sd_queue := q\<rparr>)) = job_ids s"
    "add_mset i (live_ids (s\<lparr>sd_queue := q\<rparr>)) = live_ids s" "outcomes_ok (s\<lparr>sd_queue := q\<rparr>) = outcomes_ok s"
proof -
  have map_mset: "add_mset (entry_id (xs ! k)) (mset (map entry_id (take_at k xs))) = mset (map entry_id xs)"
    if "k < length xs" for k xs
    using arg_cong [OF take_at_mset [OF that], of "image_mset entry_id"] by simp
  obtain k where "k < length (qu_ready (sd_queue s)) \<and> entry_id (qu_ready (sd_queue s) ! k) = i \<and>
      e = qu_ready (sd_queue s) ! k \<and> q = (sd_queue s)\<lparr>qu_ready := take_at k (qu_ready (sd_queue s))\<rparr>
    \<or> k < length (qu_waiting (sd_queue s)) \<and> entry_id (qu_waiting (sd_queue s) ! k) = i \<and>
      e = qu_waiting (sd_queue s) ! k \<and> q = (sd_queue s)\<lparr>qu_waiting := take_at k (qu_waiting (sd_queue s))\<rparr>"
    using assms by (auto simp: queue_remove_def split: option.splits dest!: position_SomeD)
  then show "entry_id e = i" "add_mset i (job_ids (s\<lparr>sd_queue := q\<rparr>)) = job_ids s"
    "add_mset i (live_ids (s\<lparr>sd_queue := q\<rparr>)) = live_ids s" "outcomes_ok (s\<lparr>sd_queue := q\<rparr>) = outcomes_ok s"
    using map_mset [of k "qu_ready (sd_queue s)", symmetric] map_mset [of k "qu_waiting (sd_queue s)", symmetric]
    by (auto simp: ids_defs)
qed


lemma requeues_refl [simp]: "requeues s s"
  by (simp add: requeues_def)

lemma send_control_ids: "requeues s (send_control full i c s)"
  by (auto simp: send_control_def requeues_def same_sessions_def ids_defs grants_def)

lemma pause_all_ids: "requeues s (pause_all full is s)"
proof (induction "is" arbitrary: s)
  case (Cons i "is")
  then show ?case using requeues_trans [OF send_control_ids Cons] by simp
qed simp

lemma deliver_all_ids: "requeues s (deliver_all full ds s)"
proof (induction full ds s rule: deliver_all.induct)
  case (2 full i c ds s)
  then show ?case using requeues_trans [OF send_control_ids] by auto
qed simp

lemma deliver_ids: "requeues s (deliver full s)"
proof -
  have "requeues s (s\<lparr>sd_deferred := []\<rparr>)" by (simp add: requeues_def same_sessions_def ids_defs grants_def)
  then show ?thesis unfolding deliver_def using deliver_all_ids by (rule requeues_trans)
qed

lemma report_in_flight:
  "governor_in_flight (apply_report x g) = governor_in_flight g \<and> governor_cap (apply_report x g) = governor_cap g"
proof (cases x)
  case (Pair r now)
  then show ?thesis
  proof (cases r)
    case (ReportSucceeded i)
    then show ?thesis using Pair gov.report_law by auto
  next
    case (ReportThrottled i after)
    then show ?thesis using Pair
      by (auto simp: origin_throttled_def Let_def in_flight_put governor_in_flight_def [symmetric] fun_eq_iff split: option.splits)
        (simp_all add: governor_in_flight_def bump_failures_def)
  next
    case (ReportFailed i)
    then show ?thesis using Pair
      by (auto simp: origin_failed_def Let_def in_flight_put fun_eq_iff)
        (simp_all add: governor_in_flight_def bump_failures_def)
  qed
qed

lemma meanwhile_ids: "requeues s (meanwhile w s)"
proof -
  have "governor_in_flight (fold apply_report rs g) = governor_in_flight g \<and>
      governor_cap (fold apply_report rs g) = governor_cap g" for rs g
    by (induction rs arbitrary: g) (simp_all add: report_in_flight)
  then show ?thesis by (simp add: requeues_def same_sessions_def ids_defs grants_def meanwhile_def)
qed

lemma control_job_ids: "requeues s (control_job w i c s)"
proof (cases "map_of (sd_active s) i = None \<and> queue_remove i (sd_queue s) \<noteq> None")
  case False
  then show ?thesis using send_control_ids by (cases "queue_remove i (sd_queue s)") (auto simp: control_job_def)
next
  case True
  then obtain e q where q: "queue_remove i (sd_queue s) = Some (e, q)" by auto
  let ?s0 = "s\<lparr>sd_queue := q\<rparr>"
  obtain s1 r where r: "coordinate (session_step (control_command c)) (en_job e) ?s0 = (s1, r)" by fastforce
  obtain k where k: "s1 = ?s0\<lparr>sd_coordinator := k\<rparr>" "\<And>j. r = Inr j \<Longrightarrow> j_id j = entry_id e"
    using coordinate_frame [OF keeps_id_step r] by blast
  note out = queue_remove_ids [OF q]
  show ?thesis
  proof (cases r)
    case (Inl x)
    then have "control_job w i c s = push_done (outcome_failed i x) s1" using True q r by (simp add: control_job_def)
    then show ?thesis using back_ids(2) [of e s1 s i x] out k(1) by simp
  next
    case (Inr j)
    obtain s2 r2 where r2: "settle j s1 = (s2, r2)" by fastforce
    obtain k2 where k2: "s2 = s1\<lparr>sd_coordinator := k2\<rparr>" "\<And>j'. r2 = Inr j' \<Longrightarrow> j_id j' = j_id j"
      using settle_frame [OF r2] by blast
    have id: "j_id j = i" using k(2) [OF Inr] out(1) by simp
    show ?thesis
    proof (cases r2)
      case (Inl x)
      then have "control_job w i c s = push_done (outcome_failed i x) s2" using True q r Inr r2 id by (simp add: control_job_def)
      then show ?thesis using back_ids(2) [of e s2 s i x] out k(1) k2(1) by simp
    next
      case r2: (Inr j')
      let ?f = "\<lparr>en_job = j', en_origin = en_origin e\<rparr>"
      have "control_job w i c s = with_queue (queue_take ?f) s2"
        using True q r Inr \<open>settle j s1 = (s2, r2)\<close> r2 by (simp add: control_job_def)
      then show ?thesis using back_ids(1) [of e s2 s i ?f] out k(1) k2 r2 id by simp
    qed
  qed
qed

section \<open>The ledger\<close>

text \<open>Each running session is one task with one owner entry.\<close>

definition task_ok :: "scheduler \<Rightarrow> bool" where
  "task_ok s \<longleftrightarrow> distinct (map fst (sd_sessions s)) \<and>
     (\<forall>(t, i) \<in> set (sd_sessions s). t < sd_next_task s \<and> map_of (sd_owners s) t = Some i)"

text \<open>The budgets: what is held is what is counted, here and at the governor, and within the limits.\<close>

definition ledger :: "scheduler \<Rightarrow> bool" where
  "ledger s \<longleftrightarrow> (\<forall>i. count (live_ids s) i \<le> 1) \<and> distinct (map fst (grants s)) \<and>
     set (map fst (grants s)) = set (map snd (sd_sessions s)) \<and>
     sd_used s = sum_list (map (snd \<circ> snd) (grants s)) \<and> gov.balanced (sd_governor s) (map snd (grants s)) \<and>
     length (grants s) \<le> sc_max_active (sd_config s) \<and> sd_used s \<le> sc_connections (sd_config s) \<and>
     (\<forall>(i, g, n) \<in> set (grants s). 1 \<le> n \<and> n \<le> sc_per_job (sd_config s))"

lemma requeues_ledger:
  assumes "requeues s t"
  shows "task_ok s \<Longrightarrow> task_ok t" "ledger s \<Longrightarrow> ledger t"
proof -
  show "task_ok s \<Longrightarrow> task_ok t" using assms by (simp add: requeues_def same_sessions_def task_ok_def)
  have "count (live_ids t) i \<le> count (live_ids s) i" for i
    using assms by (simp add: requeues_def mset_subset_eq_count)
  then show "ledger s \<Longrightarrow> ledger t"
    using assms by (auto simp: requeues_def same_sessions_def ledger_def gov.balanced_def intro: order_trans)
qed


abbreviation put_ready :: "queue_entry list \<Rightarrow> scheduler \<Rightarrow> scheduler" where
  "put_ready es \<equiv> with_queue (\<lambda>q. q\<lparr>qu_ready := es\<rparr>)"

lemma ledger_session:
  assumes "ledger (put_ready (xs @ e # ys) s)" "task_ok (put_ready (xs @ e # ys) s)"
    and admit: "origin_admit (sd_governor s) (en_origin e) (min (sc_per_job (sd_config s)) (sc_connections (sd_config s) - sd_used s)) now = (g, n)"
    and room: "length (sd_active s) < sc_max_active (sd_config s)" and n: "n \<noteq> 0"
  shows "ledger (put_ready (xs @ ys) (start_session e n (s\<lparr>sd_governor := g\<rparr>)))"
proof -
  let ?i = "entry_id e" and ?t = "put_ready (xs @ ys) (start_session e n (s\<lparr>sd_governor := g\<rparr>))"
  have old: "\<forall>i. count (live_ids (put_ready (xs @ e # ys) s)) i \<le> 1" "distinct (map fst (grants s))"
    "set (map fst (grants s)) = set (map snd (sd_sessions s))" "sd_used s = sum_list (map (snd \<circ> snd) (grants s))"
    "gov.balanced (sd_governor s) (map snd (grants s))" "sd_used s \<le> sc_connections (sd_config s)"
    "\<forall>(i, o', m) \<in> set (grants s). 1 \<le> m \<and> m \<le> sc_per_job (sd_config s)"
    using assms(1) by (simp_all add: ledger_def grants_def with_queue_def)
  have live: "live_ids ?t = live_ids (put_ready (xs @ e # ys) s)"
    by (simp add: live_ids_def with_queue_def start_session_def Let_def)
  have "count (mset (map snd (sd_sessions s))) ?i = 0"
    using old(1) [rule_format, of ?i] by (simp add: live_ids_def with_queue_def)
  then have "?i \<notin> set (map snd (sd_sessions s))" by (metis count_mset_0_iff)
  then have fresh: "?i \<notin> fst ` set (grants s)" using old(3) by simp
  then have "filter (\<lambda>(k, _). k \<noteq> ?i) (sd_active s) = sd_active s"
    by (force simp: grants_def filter_id_conv image_iff)
  then have gr: "grants ?t = (?i, en_origin e, n) # grants s"
    by (simp add: grants_def with_queue_def start_session_def Let_def)
  have le: "n \<le> sc_per_job (sd_config s)" "n \<le> sc_connections (sd_config s) - sd_used s" using gov.admit_law [OF admit] by auto
  have "gov.balanced g (map snd (grants s) @ [(en_origin e, n)])" using old(5) admit by (rule gov.balanced_admit)
  then have bal: "gov.balanced g (map snd (grants ?t))" unfolding gr by (rule gov.balanced_perm) simp
  have rest: "sd_config ?t = sd_config s" "sd_governor ?t = g" "sd_used ?t = sd_used s + n"
    "map snd (sd_sessions ?t) = map snd (sd_sessions s) @ [?i]"
    by (simp_all add: with_queue_def start_session_def Let_def)
  have "length (grants s) < sc_max_active (sd_config s)" using room by (simp add: grants_def)
  then show ?thesis
    unfolding ledger_def live rest using old(1-4,6,7) bal le n fresh gr by auto
qed

lemma task_session:
  assumes "task_ok s"
  shows "task_ok (put_ready xs (start_session e n (s\<lparr>sd_governor := g\<rparr>)))"
proof -
  have "t \<noteq> sd_next_task s" if "(t, i) \<in> set (sd_sessions s)" for t i using assms that by (auto simp: task_ok_def)
  then show ?thesis using assms by (auto simp: task_ok_def with_queue_def start_session_def Let_def)
qed

lemma ledger_governor:
  assumes "ledger s" "origin_admit (sd_governor s) i want now = (g, 0)"
  shows "ledger (s\<lparr>sd_governor := g\<rparr>)"
proof -
  have "gov.balanced g (map snd (grants s) @ [(i, 0)])"
    using assms by (intro gov.balanced_admit) (simp_all add: ledger_def)
  then have "gov.balanced g (map snd (grants s))" by (rule gov.balanced_zero)
  then show ?thesis using assms(1) by (simp add: ledger_def live_ids_def grants_def)
qed

text \<open>The loop moves jobs from the ready queue to sessions, in order, and keeps the budgets.\<close>

lemma start_ready_ids:
  assumes "start_ready now es skipped started s = (s', b)"
  shows "job_ids s' = job_ids (put_ready (skipped @ es) s) \<and> (outcomes_ok s \<longrightarrow> outcomes_ok s') \<and>
    (task_ok s \<longrightarrow> task_ok s') \<and> (task_ok s \<and> ledger (put_ready (skipped @ es) s) \<longrightarrow> ledger s') \<and>
    governor_cap (sd_governor s') = governor_cap (sd_governor s) \<and> sd_config s' = sd_config s"
  using assms
proof (induction now es skipped started s rule: start_ready.induct)
  case (1 now skipped started s)
  then show ?case by (auto simp: ids_defs task_ok_def)
next
  case (2 now e rest skipped started s)
  have cap: "governor_cap g = governor_cap (sd_governor s)" if "origin_admit (sd_governor s) i want now = (g, n)" for i want g n
    using gov.admit_law [OF that] by simp
  let ?spare = "sc_connections (sd_config s) - sd_used s"
  show ?case
  proof (cases "sc_max_active (sd_config s) \<le> length (sd_active s) \<or> ?spare = 0")
    case True
    then show ?thesis using 2(3) by (auto simp: ids_defs task_ok_def)
  next
    case False
    obtain g n where g: "origin_admit (sd_governor s) (en_origin e) (min (sc_per_job (sd_config s)) ?spare) now = (g, n)" by fastforce
    show ?thesis
    proof (cases "n = 0")
      case True
      let ?s1 = "s\<lparr>sd_governor := g\<rparr>"
      have "start_ready now rest (skipped @ [e]) started ?s1 = (s', b)" using 2(3) False g True by (simp add: Let_def)
      from 2(1) [OF refl False g [symmetric] refl refl True this]
      have IH: "job_ids s' = job_ids (put_ready (skipped @ e # rest) ?s1)" "outcomes_ok ?s1 \<longrightarrow> outcomes_ok s'"
        "task_ok ?s1 \<longrightarrow> task_ok s'" "task_ok ?s1 \<and> ledger (put_ready (skipped @ e # rest) ?s1) \<longrightarrow> ledger s'"
        "governor_cap (sd_governor s') = governor_cap (sd_governor s)" "sd_config s' = sd_config s"
        using cap [OF g] by simp_all
      moreover have "put_ready (skipped @ e # rest) ?s1 = (put_ready (skipped @ e # rest) s)\<lparr>sd_governor := g\<rparr>"
        by (simp add: with_queue_def)
      moreover have "ledger ((put_ready (skipped @ e # rest) s)\<lparr>sd_governor := g\<rparr>)" if "ledger (put_ready (skipped @ e # rest) s)"
        using ledger_governor [OF that] g True by (simp add: with_queue_def)
      moreover have "job_ids (put_ready (skipped @ e # rest) ?s1) = job_ids (put_ready (skipped @ e # rest) s)"
        "outcomes_ok ?s1 = outcomes_ok s" "task_ok ?s1 = task_ok s" by (simp_all add: ids_defs task_ok_def)
      ultimately show ?thesis by metis
    next
      case n: False
      let ?s1 = "start_session e n (s\<lparr>sd_governor := g\<rparr>)"
      have "start_ready now rest skipped True ?s1 = (s', b)" using 2(3) False g n by (simp add: Let_def)
      from 2(2) [OF refl False g [symmetric] refl refl n this]
      have IH: "job_ids s' = job_ids (put_ready (skipped @ rest) ?s1)" "outcomes_ok ?s1 \<longrightarrow> outcomes_ok s'"
        "task_ok ?s1 \<longrightarrow> task_ok s'" "task_ok ?s1 \<and> ledger (put_ready (skipped @ rest) ?s1) \<longrightarrow> ledger s'"
        "governor_cap (sd_governor s') = governor_cap (sd_governor ?s1)" "sd_config s' = sd_config ?s1" by simp_all
      have ids: "job_ids (put_ready (skipped @ rest) ?s1) = job_ids (put_ready (skipped @ e # rest) s)" "outcomes_ok ?s1 = outcomes_ok s"
        "governor_cap (sd_governor ?s1) = governor_cap (sd_governor s)" "sd_config ?s1 = sd_config s"
        using cap [OF g] by (simp_all add: ids_defs start_session_def Let_def)
      have task: "task_ok ?s1" if "task_ok s" using task_session [OF that, of "qu_ready (sd_queue s)" e n g] by (simp add: task_ok_def with_queue_def)
      have "ledger (put_ready (skipped @ rest) ?s1)" if "task_ok s" "ledger (put_ready (skipped @ e # rest) s)"
        using ledger_session [OF that(2) _ g _ n] that(1) False by (simp add: task_ok_def with_queue_def)
      then show ?thesis using IH ids task by simp
    qed
  qed
qed


lemma filter_key:
  assumes "distinct (map fst xs)" "map_of xs t = Some i"
  shows "add_mset i (mset (map snd (filter (\<lambda>(u, _). u \<noteq> t) xs))) = mset (map snd xs)"
  using assms
proof (induction xs)
  case (Cons x xs)
  obtain u v where x: "x = (u, v)" by fastforce
  show ?case
  proof (cases "u = t")
    case True
    then have "filter (\<lambda>(u, _). u \<noteq> t) xs = xs" using Cons.prems(1) x by (force simp: filter_id_conv)
    then show ?thesis using Cons.prems(2) x True by simp
  next
    case False
    then show ?thesis using Cons x by (simp add: add_mset_commute)
  qed
qed simp

text \<open>Dropping one grant from a list of grants with distinct owners.\<close>

lemma drop_grant:
  assumes "distinct (map fst gs)" "(i, x, n) \<in> set gs"
  shows "sum_list (map (snd \<circ> snd) gs) = n + sum_list (map (snd \<circ> snd) (filter (\<lambda>(k, _). k \<noteq> i) gs)) \<and>
    gov.held (map snd gs) j = (if x = j then n else 0) + gov.held (map snd (filter (\<lambda>(k, _). k \<noteq> i) gs)) j"
  using assms
proof (induction gs)
  case (Cons g gs)
  obtain k y m where g: "g = (k, y, m)" by (cases g) auto
  show ?case
  proof (cases "k = i")
    case True
    then have "filter (\<lambda>(k, _). k \<noteq> i) gs = gs" "y = x" "m = n" using Cons.prems g by (force simp: filter_id_conv)+
    then show ?thesis using True g by simp
  next
    case False
    then show ?thesis using Cons g by auto
  qed
qed simp

lemma grants_filter:
  "map (\<lambda>(i, a). (i, ac_origin a, ac_grant a)) (filter (\<lambda>(k, _). k \<noteq> i) xs) =
   filter (\<lambda>(k, _). k \<noteq> i) (map (\<lambda>(i, a). (i, ac_origin a, ac_grant a)) xs)"
  by (induction xs) auto

lemma finish_frame:
  "sd_sessions (sched_finish now i r s) = sd_sessions s" "sd_owners (sched_finish now i r s) = sd_owners s"
  "sd_queue (sched_finish now i r s) = sd_queue s" "sd_next_task (sched_finish now i r s) = sd_next_task s"
  "sd_config (sched_finish now i r s) = sd_config s" "sd_open (sched_finish now i r s) = sd_open s"
  "grants (sched_finish now i r s) = filter (\<lambda>(k, _). k \<noteq> i) (grants s)"
  "governor_cap (sd_governor (sched_finish now i r s)) = governor_cap (sd_governor s)"
  by (auto simp: sched_finish_def Let_def grants_def grants_filter gov.give_back_law gov.report_law
      split: option.splits sum.splits SessionEnd.splits)
    (force simp: map_of_eq_None_iff filter_id_conv image_iff intro!: filter_True [symmetric])

lemma finish_ids:
  assumes "task_ok s" "map_of (sd_sessions s) t = Some i"
    and s1_def: "s1 = sched_finish now i r (s\<lparr>sd_sessions := filter (\<lambda>(u, _). u \<noteq> t) (sd_sessions s)\<rparr>)"
  shows "add_mset i (job_ids s1) = job_ids s" "add_mset i (live_ids s1) = live_ids s" "outcomes_ok s1 = outcomes_ok s" "task_ok s1"
proof -
  have "add_mset i (mset (map snd (filter (\<lambda>(u, _). u \<noteq> t) (sd_sessions s)))) = mset (map snd (sd_sessions s))"
    using assms(1,2) by (intro filter_key) (simp add: task_ok_def)
  from this [symmetric] show "add_mset i (job_ids s1) = job_ids s" "add_mset i (live_ids s1) = live_ids s"
    by (simp_all add: s1_def ids_defs finish_frame del: mset_map)
  show "outcomes_ok s1 = outcomes_ok s" by (simp add: s1_def outcomes_ok_def finish_frame)
  show "task_ok s1" using assms(1) by (auto simp: s1_def task_ok_def finish_frame distinct_map_filter)
qed

lemma finish_ledger:
  assumes task: "task_ok s" and led: "ledger s" and i: "map_of (sd_sessions s) t = Some i"
  shows "ledger (sched_finish now i r (s\<lparr>sd_sessions := filter (\<lambda>(u, _). u \<noteq> t) (sd_sessions s)\<rparr>))"
proof -
  let ?s0 = "s\<lparr>sd_sessions := filter (\<lambda>(u, _). u \<noteq> t) (sd_sessions s)\<rparr>"
  let ?s1 = "sched_finish now i r ?s0" and ?gs = "filter (\<lambda>(k, _). k \<noteq> i) (grants s)"
  have old: "\<forall>i. count (live_ids s) i \<le> 1" "distinct (map fst (grants s))" "set (map fst (grants s)) = set (map snd (sd_sessions s))"
    "sd_used s = sum_list (map (snd \<circ> snd) (grants s))" "gov.balanced (sd_governor s) (map snd (grants s))"
    "length (grants s) \<le> sc_max_active (sd_config s)" "sd_used s \<le> sc_connections (sd_config s)"
    "\<forall>(i, g, n) \<in> set (grants s). 1 \<le> n \<and> n \<le> sc_per_job (sd_config s)"
    using led by (simp_all add: ledger_def)
  have "i \<in> set (map fst (grants s))" using old(3) i by (auto dest: map_of_SomeD simp: rev_image_eqI)
  then obtain a where a: "map_of (sd_active s) i = Some a"
    by (cases "map_of (sd_active s) i") (auto simp: grants_def map_of_eq_None_iff rev_image_eqI)
  let ?o = "ac_origin a" and ?n = "ac_grant a"
  have mem: "(i, ?o, ?n) \<in> set (grants s)" using map_of_SomeD [OF a] by (force simp: grants_def)
  note drop = drop_grant [OF old(2) mem]
  have gr: "grants ?s1 = ?gs" using finish_frame(7) [of now i r ?s0] by (simp add: grants_def)
  note live = finish_ids(2) [OF task i refl, of now r]
  have "count (live_ids ?s1) j \<le> count (live_ids s) j" for j unfolding live [symmetric] by simp
  then have once: "count (live_ids ?s1) j \<le> 1" for j using old(1) order_trans by blast
  have mset_s: "add_mset i (mset (map snd (sd_sessions ?s1))) = mset (map snd (sd_sessions s))"
    using filter_key [OF _ i] task by (simp add: finish_frame task_ok_def)
  have "count (live_ids ?s1) i = 0" using old(1) [rule_format, of i] live [symmetric] by simp
  then have "i \<notin> set (map snd (sd_sessions ?s1))" by (simp add: live_ids_def count_eq_zero_iff)
  moreover have "set (map snd (sd_sessions s)) = insert i (set (map snd (sd_sessions ?s1)))"
    using arg_cong [OF mset_s, of set_mset] by (simp del: mset_map)
  moreover have "set (map fst ?gs) = set (map fst (grants s)) - {i}" by force
  ultimately have keys: "set (map fst ?gs) = set (map snd (sd_sessions ?s1))" using old(3) by auto
  have rem: "gov.balanced (origin_release (sd_governor s) ?o ?n now) (remove1 (?o, ?n) (map snd (grants s)))"
    using old(5) mem by (intro gov.balanced_give_back) force+
  have "(?o, ?n) \<in> set (map snd (grants s))" using mem by force
  then have "gov.held (remove1 (?o, ?n) (map snd (grants s))) j = gov.held (map snd ?gs) j" for j
    using gov.held_remove [of "(?o, ?n)" "map snd (grants s)" j] drop [of j] by (auto split: if_splits)
  with rem have bal: "gov.balanced (origin_release (sd_governor s) ?o ?n now) (map snd ?gs)" by (rule gov.balanced_perm)
  then have "gov.balanced (sd_governor ?s1) (map snd ?gs)"
    using a gov.balanced_report [OF bal] by (auto simp: sched_finish_def Let_def split: sum.splits SessionEnd.splits)
  moreover have "sd_used ?s1 = sum_list (map (snd \<circ> snd) ?gs)" using a drop old(4) by (simp add: sched_finish_def Let_def)
  moreover have "length ?gs \<le> sc_max_active (sd_config s)" using old(6) by (meson length_filter_le order_trans)
  moreover have "sum_list (map (snd \<circ> snd) ?gs) \<le> sc_connections (sd_config s)" using drop [THEN conjunct1] old(4,7) by linarith
  ultimately show ?thesis
    unfolding ledger_def gr using once keys old(2,8) finish_frame(5) [of now i r ?s0] by (auto simp: distinct_map_filter)
qed


section \<open>Rounds and runs\<close>

text \<open>A returning session hands back its own job; a newly admitted job is not held already.\<close>

fun own_job :: "arrival \<Rightarrow> scheduler \<Rightarrow> bool" where
  "own_job (SessionReturned t j r) s \<longleftrightarrow> map_of (sd_sessions s) t = Some (j_id j)"
| "own_job _ s \<longleftrightarrow> True"

fun fresh_admit :: "arrival \<Rightarrow> scheduler \<Rightarrow> bool" where
  "fresh_admit (CommandReceived (Some (Admit j))) s \<longleftrightarrow> j_id j \<notin># live_ids s"
| "fresh_admit _ s \<longleftrightarrow> True"

fun newcomers :: "arrival \<Rightarrow> scheduler \<Rightarrow> JobId list" where
  "newcomers (CommandReceived (Some (Admit j))) s = (if sd_open s then [j_id j] else [])"
| "newcomers _ s = []"

lemma ledger_frame [simp]:
  "ledger (s\<lparr>sd_last := l\<rparr>) = ledger s" "ledger (s\<lparr>sd_owners := x\<rparr>) = ledger s" "ledger (s\<lparr>sd_open := b\<rparr>) = ledger s"
  "ledger (s\<lparr>sd_stopping := b\<rparr>) = ledger s" "ledger (push_done y s) = ledger s"
  by (simp_all add: ledger_def live_ids_def grants_def push_done_def with_queue_def)

lemma ids_frame [simp]:
  "job_ids (s\<lparr>sd_last := l\<rparr>) = job_ids s" "job_ids (s\<lparr>sd_owners := x\<rparr>) = job_ids s" "job_ids (s\<lparr>sd_open := b\<rparr>) = job_ids s"
  "job_ids (s\<lparr>sd_stopping := b\<rparr>) = job_ids s"
  "live_ids (s\<lparr>sd_last := l\<rparr>) = live_ids s"
  "outcomes_ok (s\<lparr>sd_last := l\<rparr>) = outcomes_ok s" "outcomes_ok (s\<lparr>sd_owners := x\<rparr>) = outcomes_ok s"
  "outcomes_ok (s\<lparr>sd_open := b\<rparr>) = outcomes_ok s" "outcomes_ok (s\<lparr>sd_stopping := b\<rparr>) = outcomes_ok s"
  "task_ok (s\<lparr>sd_last := l\<rparr>) = task_ok s" "task_ok (s\<lparr>sd_open := b\<rparr>) = task_ok s"
  "task_ok (s\<lparr>sd_stopping := b\<rparr>) = task_ok s" "task_ok (push_done y s) = task_ok s" "task_ok (with_queue f s) = task_ok s"
  by (simp_all add: ids_defs task_ok_def push_done_def)

lemma ledger_take:
  assumes "ledger s" "entry_id e \<notin># live_ids s"
  shows "ledger (with_queue (queue_take e) s)"
proof -
  have "count (live_ids (with_queue (queue_take e) s)) i \<le> 1" for i
    using take_ids(2) [of e s] assms by (auto simp: ledger_def not_in_iff)
  then show ?thesis using assms(1) by (simp add: ledger_def grants_def with_queue_def)
qed

lemma enqueue_ids:
  "job_ids (enqueue w j s) = add_mset (j_id j) (job_ids s)" "outcomes_ok (enqueue w j s) = outcomes_ok s"
  "ledger s \<Longrightarrow> j_id j \<notin># live_ids s \<Longrightarrow> ledger (enqueue w j s)" "task_ok (enqueue w j s) = task_ok s"
  by (simp_all add: enqueue_def take_ids ledger_take)

text \<open>One arrival: the jobs held grow by those newly admitted, and the budgets are kept.\<close>

definition arrives_well :: "JobId list \<Rightarrow> bool \<Rightarrow> scheduler \<Rightarrow> scheduler \<Rightarrow> bool" where
  "arrives_well new fresh s t \<longleftrightarrow> job_ids t = job_ids s + mset new \<and> (outcomes_ok s \<longrightarrow> outcomes_ok t) \<and> task_ok t \<and>
     (ledger s \<and> fresh \<longrightarrow> ledger t) \<and> sd_config t = sd_config s \<and>
     governor_cap (sd_governor t) = governor_cap (sd_governor s)"

lemma queue_frame [simp]:
  "sd_config (push_done x s) = sd_config s" "sd_governor (push_done x s) = sd_governor s"
  "sd_config (enqueue w j s) = sd_config s" "sd_governor (enqueue w j s) = sd_governor s"
  by (simp_all add: push_done_def with_queue_def enqueue_def)

lemma failed_arrives: "task_ok s \<Longrightarrow> arrives_well [i] True s (push_done (outcome_failed i e) s)"
  using done_ids(1) [of "outcome_failed i e" s] done_ids(3) by (simp add: arrives_well_def outcome_failed_def)

lemma requeues_arrives: "requeues s t \<Longrightarrow> task_ok s \<Longrightarrow> arrives_well [] f s t"
  using requeues_ledger by (auto simp: arrives_well_def requeues_def same_sessions_def)

lemma session_returned:
  assumes "task_ok s" "map_of (sd_sessions s) t = Some (j_id j)"
  shows "arrives_well [] True s (on_arrival w (SessionReturned t j r) s)"
proof -
  let ?s1 = "sched_finish (ro_now w) (j_id j) r (s\<lparr>sd_sessions := filter (\<lambda>(u, _). u \<noteq> t) (sd_sessions s)\<rparr>)"
  note f = finish_ids [OF assms refl, of "ro_now w" r]
  have led: "ledger ?s1 \<and> j_id j \<notin># live_ids ?s1" if "ledger s"
  proof -
    have "count (live_ids s) (j_id j) \<le> 1" using that by (simp add: ledger_def)
    then have "count (live_ids ?s1) (j_id j) = 0" using f(2) [symmetric] by simp
    then show ?thesis using finish_ledger [OF assms(1) that assms(2)] by (simp add: count_eq_zero_iff)
  qed
  show ?thesis
  proof (cases r)
    case (Inl e)
    let ?t = "push_done (outcome_failed (j_id j) e) ?s1"
    have "on_arrival w (SessionReturned t j r) s = ?t" using assms(2) Inl by (simp add: Let_def)
    moreover have "job_ids ?t = job_ids s" using done_ids(1) [of "outcome_failed (j_id j) e" ?s1] f(1) by (simp add: outcome_failed_def)
    ultimately show ?thesis using f(3,4) led done_ids(3) by (simp add: arrives_well_def finish_frame)
  next
    case (Inr e)
    let ?s2 = "?s1\<lparr>sd_last := (j_id j, e) # filter (\<lambda>(k, _). k \<noteq> j_id j) (sd_last ?s1)\<rparr>"
    have "on_arrival w (SessionReturned t j r) s = enqueue w j ?s2" using assms(2) Inr by (simp add: Let_def)
    moreover have "job_ids (enqueue w j ?s2) = job_ids s" using f(1) by (simp add: enqueue_ids(1))
    ultimately show ?thesis using f(3,4) led by (simp add: arrives_well_def enqueue_ids finish_frame)
  qed
qed

lemma session_panicked:
  assumes "task_ok s"
  shows "arrives_well [] True s (on_arrival w (SessionPanicked t) s)"
proof (cases "map_of (sd_sessions s) t")
  case (Some i)
  let ?s0 = "s\<lparr>sd_sessions := filter (\<lambda>(u, _). u \<noteq> t) (sd_sessions s)\<rparr>"
  let ?ow = "filter (\<lambda>(u, _). u \<noteq> t) (sd_owners s)"
  let ?s1 = "sched_finish (ro_now w) i (Inl RInvariant) ?s0"
  let ?s2 = "sched_finish (ro_now w) i (Inl RInvariant) (?s0\<lparr>sd_owners := ?ow\<rparr>)"
  note f = finish_ids [OF assms Some refl, of "ro_now w" "Inl RInvariant"]
  have swap: "?s2 = ?s1\<lparr>sd_owners := ?ow\<rparr>" by (simp add: sched_finish_def Let_def split: option.splits)
  have "map_of (sd_owners s) t = Some i" using assms map_of_SomeD [OF Some] by (auto simp: task_ok_def)
  then have run: "on_arrival w (SessionPanicked t) s = push_done (outcome_failed i RInvariant) ?s2" using Some by (simp add: Let_def)
  have "map_of ?ow u = map_of (sd_owners s) u" if "u \<noteq> t" for u
    using that by (induction "sd_owners s") (auto simp: map_of_filter_key)
  then have "task_ok ?s2" using f(4) by (auto simp: swap task_ok_def finish_frame)
  moreover have "job_ids (push_done (outcome_failed i RInvariant) ?s2) = job_ids s"
    using done_ids(1) [of "outcome_failed i RInvariant" ?s2] f(1) by (simp add: outcome_failed_def swap)
  ultimately show ?thesis
    unfolding run using f(3) finish_ledger [OF assms _ Some] done_ids(3) by (simp add: arrives_well_def swap finish_frame)
qed (use assms in \<open>simp add: arrives_well_def\<close>)

lemma arrival_ok:
  assumes "task_ok s" "own_job a s"
  shows "arrives_well (newcomers a s) (fresh_admit a s) s (on_arrival w a s)"
proof (cases a)
  case (SessionReturned t j r)
  then show ?thesis using session_returned [OF assms(1), of t j w r] assms(2) by simp
next
  case (SessionPanicked t)
  then show ?thesis using session_panicked [OF assms(1)] by simp
next
  case (CommandReceived m)
  show ?thesis
  proof (cases m)
    case (Some c)
    have pause: "arrives_well [] f s (pause_all x is s)" "arrives_well [] f s (control_job w i k s)" for f x "is" i k
      using requeues_arrives pause_all_ids control_job_ids assms(1) by blast+
    show ?thesis
    proof (cases c)
      case (Admit j)
      then show ?thesis using CommandReceived Some assms(1)
        by (auto simp: arrives_well_def enqueue_ids)
    next
      case Shutdown
      then show ?thesis using CommandReceived Some assms(1) pause(1) [of True "ro_full w" "map fst (sd_active s)"]
        by (auto simp: arrives_well_def)
    qed (use CommandReceived Some assms(1) pause(2) in \<open>auto simp: arrives_well_def\<close>)
  qed (use CommandReceived assms in \<open>simp add: arrives_well_def\<close>)
qed (use assms in \<open>simp add: arrives_well_def\<close>)


lemma arrives_well_trans:
  "arrives_well xs f s t \<Longrightarrow> arrives_well ys g t u \<Longrightarrow> arrives_well (xs @ ys) (f \<and> g) s u"
  by (auto simp: arrives_well_def)

lemma arrives_well_then: "arrives_well [] True s t \<Longrightarrow> arrives_well ys g t u \<Longrightarrow> arrives_well ys g s u"
  using arrives_well_trans [of "[]" True s t ys g u] by simp

lemma sched_admit_ok:
  assumes "task_ok s" "sched_admit now s = (s', b)"
  shows "arrives_well [] True s s'"
proof -
  have same: "put_ready (qu_ready (sd_queue s)) s = s" by (simp add: with_queue_def)
  show ?thesis
    using start_ready_ids [OF assms(2) [unfolded sched_admit_def]] assms(1) unfolding append_Nil same by (simp add: arrives_well_def)
qed

lemma round_ok:
  assumes "task_ok s" "sched_round w s = (s', r)"
  shows "arrives_well [] True s s'" "r = RoundBreak \<Longrightarrow> sd_sessions s' = []"
proof -
  let ?s1 = "deliver (ro_full w) (meanwhile w s)"
  have s1: "arrives_well [] True s ?s1"
    using requeues_trans [OF meanwhile_ids deliver_ids] assms(1) by (rule requeues_arrives)
  have s2: "arrives_well [] True ?s1 (promote_due (ro_promote_now w) ?s1)"
    using s1 by (intro requeues_arrives promote_due_ids) (simp add: arrives_well_def)
  obtain t b where t: "sched_admit (ro_admit_now w) (promote_due (ro_promote_now w) ?s1) = (t, b)" by fastforce
  have s3: "arrives_well [] True s t"
    using arrives_well_then [OF arrives_well_then [OF s1 s2] sched_admit_ok [OF _ t]] s2 by (simp add: arrives_well_def)
  show "arrives_well [] True s s'" using assms(2) t s1 s3 by (auto simp: sched_round_def Let_def split: if_splits)
  show "r = RoundBreak \<Longrightarrow> sd_sessions s' = []" using assms(2) by (auto simp: sched_round_def Let_def split: prod.splits if_splits)
qed

text \<open>A predicate that holds of every arrival of a run, and the jobs admitted along it.\<close>

fun along :: "(arrival \<Rightarrow> scheduler \<Rightarrow> bool) \<Rightarrow> (round_world \<times> arrival) list \<Rightarrow> scheduler \<Rightarrow> bool" where
  "along P [] s \<longleftrightarrow> True"
| "along P ((w, a) # rest) s \<longleftrightarrow>
     (case sched_round w s of
        (s1, RoundBreak) \<Rightarrow> True
      | (s1, RoundSelect _) \<Rightarrow> P a s1 \<and> along P rest (on_arrival w a s1))"

fun admitted :: "(round_world \<times> arrival) list \<Rightarrow> scheduler \<Rightarrow> JobId list" where
  "admitted [] s = []"
| "admitted ((w, a) # rest) s =
     (case sched_round w s of
        (s1, RoundBreak) \<Rightarrow> []
      | (s1, RoundSelect _) \<Rightarrow> newcomers a s1 @ admitted rest (on_arrival w a s1))"

lemma run_ok:
  assumes "task_ok s" "along own_job script s" "sched_run script s = (s', r)"
  shows "arrives_well (admitted script s) (along fresh_admit script s) s s' \<and>
    (\<forall>outs. r = Some outs \<longrightarrow> sd_sessions s' = [] \<and> outs = sched_outcomes s')"
  using assms
proof (induction script arbitrary: s)
  case (Cons x rest)
  obtain w a where x: "x = (w, a)" by fastforce
  obtain s1 k where k: "sched_round w s = (s1, k)" by fastforce
  note first = round_ok [OF Cons.prems(1) k]
  show ?case
  proof (cases k)
    case RoundBreak
    then show ?thesis using first Cons.prems(3) x k by auto
  next
    case (RoundSelect d)
    have own: "own_job a s1" "along own_job rest (on_arrival w a s1)" and run: "sched_run rest (on_arrival w a s1) = (s', r)"
      using Cons.prems(2,3) x k RoundSelect by simp_all
    have step: "arrives_well (newcomers a s1) (fresh_admit a s1) s1 (on_arrival w a s1)"
      using first(1) own(1) by (intro arrival_ok) (simp_all add: arrives_well_def)
    then have task: "task_ok (on_arrival w a s1)" by (simp add: arrives_well_def)
    have "arrives_well (newcomers a s1 @ admitted rest (on_arrival w a s1))
        (fresh_admit a s1 \<and> along fresh_admit rest (on_arrival w a s1)) s s'"
      using arrives_well_then [OF first(1) arrives_well_trans [OF step]] Cons.IH [OF task own(2) run] by blast
    then show ?thesis using x k RoundSelect Cons.IH [OF task own(2) run] by simp
  qed
qed (simp add: arrives_well_def)

lemma intake_ok:
  assumes "task_ok s" "ledger s" "\<forall>i. i \<in># live_ids s \<longrightarrow> i \<in> set seen"
  shows "arrives_well (map j_id jobs) True s (intake w seen jobs s)"
  using assms
proof (induction w seen jobs s rule: intake.induct)
  case (2 w seen j js s)
  show ?case
  proof (cases "j_id j \<in> set seen")
    case True
    let ?s1 = "push_done (outcome_failed (j_id j) RInvariant) s"
    have "arrives_well [j_id j] True s ?s1" using 2(3) by (rule failed_arrives)
    moreover have "arrives_well (map j_id js) True ?s1 (intake w seen js ?s1)"
      using 2(1) [OF True] 2(3-5) done_ids(2) by simp
    ultimately show ?thesis using True arrives_well_trans [of "[j_id j]" True s ?s1] by fastforce
  next
    case False
    obtain s0 r where r: "settle j s = (s0, r)" by fastforce
    obtain c where c: "s0 = s\<lparr>sd_coordinator := c\<rparr>" "\<And>j'. r = Inr j' \<Longrightarrow> j_id j' = j_id j" using settle_frame [OF r] by blast
    have rq: "requeues s s0" by (simp add: requeues_def c(1))
    define s1 where "s1 = (case r of Inr j1 \<Rightarrow> enqueue w j1 s0 | Inl e \<Rightarrow> push_done (outcome_failed (j_id j) e) s0)"
    have new: "j_id j \<notin># live_ids s0" using 2(5) False c(1) by auto
    have "arrives_well [j_id j] True s s1 \<and> live_ids s1 \<subseteq># add_mset (j_id j) (live_ids s)"
    proof (cases r)
      case (Inl e)
      then show ?thesis
        using arrives_well_then [OF requeues_arrives [OF rq 2(3)] failed_arrives [OF requeues_ledger(1) [OF rq 2(3)]]]
          done_ids(2) c(1) by (simp add: s1_def)
    next
      case (Inr j1)
      then show ?thesis
        using 2(3) requeues_ledger [OF rq] c new enqueue_ids(1,2,4) [of w j1 s0] enqueue_ids(3) [of s0 j1 w] take_ids(2) [of "\<lparr>en_job = j1, en_origin = ro_origin w (js_source (j_spec j1))\<rparr>" s0]
        by (auto simp: s1_def arrives_well_def enqueue_def [symmetric])
    qed
    then have s1: "arrives_well [j_id j] True s s1" "live_ids s1 \<subseteq># add_mset (j_id j) (live_ids s)" by simp_all
    have "\<forall>i. i \<in># live_ids s1 \<longrightarrow> i \<in> set (seen @ [j_id j])" using 2(5) mset_subset_eqD [OF s1(2)] by auto
    then have "arrives_well (map j_id js) True s1 (intake w (seen @ [j_id j]) js s1)"
      using 2(2) [OF False] s1(1) 2(4) r by (simp add: arrives_well_def s1_def)
    moreover have "intake w seen (j # js) s = intake w (seen @ [j_id j]) js s1" using False r by (simp add: s1_def split: sum.splits)
    ultimately show ?thesis using arrives_well_trans [OF s1(1)] by fastforce
  qed
qed (simp add: arrives_well_def)

lemma fill_results_ids: "map oc_id (fill_results ls xs) = map oc_id xs"
  by (induction ls xs rule: fill_results.induct) auto

lemma fill_results_named:
  "\<forall>x \<in> set xs. \<forall>j. oc_job x = Some j \<longrightarrow> j_id j = oc_id x \<Longrightarrow>
   \<forall>x \<in> set (fill_results ls xs). \<forall>j. oc_job x = Some j \<longrightarrow> j_id j = oc_id x"
  by (induction ls xs rule: fill_results.induct) auto

lemma new_ok:
  assumes "scheduler_new c g config = Inr s" "governor_new l = Inr g"
  shows "task_ok s" "ledger s" "live_ids s = {#}" "job_ids s = {#}" "outcomes_ok s" "sd_config s = config" "scheduler_config_valid config"
proof -
  have g: "gv_origins g = Map.empty" using assms(2) by (auto simp: governor_new_def split: if_splits)
  then have "gov.balanced g []"
    by (simp add: gov.balanced_def governor_in_flight_def entry_or_default_def origin_state_default_def)
  then show "task_ok s" "ledger s" "live_ids s = {#}" "job_ids s = {#}" "outcomes_ok s" "sd_config s = config" "scheduler_config_valid config"
    using assms(1) by (auto simp: scheduler_new_def task_ok_def ledger_def ids_defs grants_def split: if_splits)
qed


section \<open>Admission order\<close>

text \<open>An origin that grants nothing now keeps granting nothing while others are admitted.\<close>

definition blocked :: "governor \<Rightarrow> OriginId \<Rightarrow> u64 \<Rightarrow> bool" where
  "blocked g i now \<longleftrightarrow> now < state_ready_at (entry_or_default g i) \<or> governor_cap g \<le> governor_in_flight g i"

lemma blocked_grants_nothing: "blocked g i now \<Longrightarrow> snd (origin_admit g i want now) = 0"
  by (auto simp: blocked_def origin_admit_def Let_def governor_cap_def governor_in_flight_def)

lemma blocked_when_refused: "origin_admit g i want now = (g', 0) \<Longrightarrow> 0 < want \<Longrightarrow> blocked g' i now"
  by (auto simp: blocked_def origin_admit_def Let_def governor_cap_def governor_in_flight_def put_origin_def entry_or_default_def
      split: if_splits)

lemma blocked_admit: "blocked g j now \<Longrightarrow> origin_admit g i want now = (g', n) \<Longrightarrow> blocked g' j now"
  using gov.admit_law [of g i want now g' n j]
  by (auto simp: blocked_def origin_admit_def Let_def put_origin_def entry_or_default_def state_ready_at_def split: if_splits)

lemma start_ready_order:
  assumes "start_ready now es skipped started s = (s', b)" "0 < sc_per_job (sd_config s)"
    and "\<forall>e \<in> set skipped. blocked (sd_governor s) (en_origin e) now"
  shows "\<exists>ran left. qu_ready (sd_queue s') = skipped @ left \<and> qu_waiting (sd_queue s') = qu_waiting (sd_queue s) \<and>
    map snd (sd_sessions s') = map snd (sd_sessions s) @ map entry_id ran \<and> subseq ran es \<and> subseq left es \<and>
    mset es = mset ran + mset left \<and> b = (started \<or> ran \<noteq> []) \<and>
    (sc_max_active (sd_config s) \<le> length (sd_active s') \<or> sc_connections (sd_config s) \<le> sd_used s' \<or>
     (\<forall>e \<in> set (skipped @ left). blocked (sd_governor s') (en_origin e) now))"
  using assms
proof (induction now es skipped started s rule: start_ready.induct)
  case (1 now skipped started s)
  then show ?case by (intro exI [of _ "[]"]) (auto simp: with_queue_def)
next
  case (2 now e rest skipped started s)
  let ?spare = "sc_connections (sd_config s) - sd_used s"
  show ?case
  proof (cases "sc_max_active (sd_config s) \<le> length (sd_active s) \<or> ?spare = 0")
    case True
    then show ?thesis using 2(3) by (intro exI [of _ "[]"] exI [of _ "e # rest"]) (auto simp: with_queue_def)
  next
    case False
    obtain g n where g: "origin_admit (sd_governor s) (en_origin e) (min (sc_per_job (sd_config s)) ?spare) now = (g, n)" by fastforce
    have keep: "\<forall>x \<in> set skipped. blocked g (en_origin x) now" using 2(5) blocked_admit [OF _ g] by blast
    show ?thesis
    proof (cases "n = 0")
      case True
      have run: "start_ready now rest (skipped @ [e]) started (s\<lparr>sd_governor := g\<rparr>) = (s', b)" using 2(3) False g True by (simp add: Let_def)
      have "blocked g (en_origin e) now" using blocked_when_refused [of "sd_governor s" "en_origin e" _ now g] g True 2(4) False by auto
      then have skip: "\<forall>x \<in> set (skipped @ [e]). blocked g (en_origin x) now" using keep by auto
      obtain ran left where rl: "qu_ready (sd_queue s') = (skipped @ [e]) @ left" "qu_waiting (sd_queue s') = qu_waiting (sd_queue s)"
        "map snd (sd_sessions s') = map snd (sd_sessions s) @ map entry_id ran" "subseq ran rest" "subseq left rest"
        "mset rest = mset ran + mset left" "b = (started \<or> ran \<noteq> [])"
        "sc_max_active (sd_config s) \<le> length (sd_active s') \<or> sc_connections (sd_config s) \<le> sd_used s' \<or>
         (\<forall>e \<in> set ((skipped @ [e]) @ left). blocked (sd_governor s') (en_origin e) now)"
        using 2(1) [OF refl False g [symmetric] refl refl True run] 2(4) skip by auto
      then show ?thesis by (intro exI [of _ ran] exI [of _ "e # left"]) auto
    next
      case n: False
      let ?s1 = "start_session e n (s\<lparr>sd_governor := g\<rparr>)"
      have run: "start_ready now rest skipped True ?s1 = (s', b)" using 2(3) False g n by (simp add: Let_def)
      have s1: "sd_config ?s1 = sd_config s" "sd_governor ?s1 = g" "sd_queue ?s1 = sd_queue s"
        "map snd (sd_sessions ?s1) = map snd (sd_sessions s) @ [entry_id e]" by (simp_all add: start_session_def Let_def)
      obtain ran left where rl: "qu_ready (sd_queue s') = skipped @ left" "qu_waiting (sd_queue s') = qu_waiting (sd_queue s)"
        "map snd (sd_sessions s') = map snd (sd_sessions s) @ entry_id e # map entry_id ran" "subseq ran rest" "subseq left rest"
        "mset rest = mset ran + mset left" "b"
        "sc_max_active (sd_config s) \<le> length (sd_active s') \<or> sc_connections (sd_config s) \<le> sd_used s' \<or>
         (\<forall>e \<in> set (skipped @ left). blocked (sd_governor s') (en_origin e) now)"
        using 2(2) [OF refl False g [symmetric] refl refl n run] 2(4) keep s1 by auto
      then show ?thesis by (intro exI [of _ "e # ran"] exI [of _ left]) auto
    qed
  qed
qed


section \<open>Properties\<close>

definition sample_scheduler :: "bool \<Rightarrow> scheduler" where
  "sample_scheduler resident =
     \<lparr>sd_config = \<lparr>sc_max_active = 2, sc_connections = 4, sc_per_job = 2, sc_resident = resident\<rparr>,
      sd_coordinator = sample_session (sample_db Queued 0 None) (job_new 1 sample_spec) [],
      sd_governor = \<lparr>gv_limits = origin_limits_default, gv_origins = Map.empty\<rparr>,
      sd_queue = \<lparr>qu_ready = [], qu_waiting = [], qu_done = []\<rparr>, sd_active = [], sd_owners = [],
      sd_sessions = [], sd_next_task = 1, sd_last = [], sd_deferred = [], sd_used = 0,
      sd_open = True, sd_stopping = False\<rparr>"

definition sample_world :: "u64 \<Rightarrow> u64 \<Rightarrow> round_world" where
  "sample_world t u =
     \<lparr>ro_repo = sample_db Queued 0 None, ro_fates = [], ro_reports = [], ro_origin = (\<lambda>_. 1), ro_full = (\<lambda>_. False),
      ro_promote_now = t, ro_admit_now = t, ro_deadline_now = u, ro_now = u\<rparr>"

lemma sample_new:
  "governor_new origin_limits_default = Inr (sd_governor (sample_scheduler b))"
  "scheduler_new (sd_coordinator (sample_scheduler b)) (sd_governor (sample_scheduler b)) (sd_config (sample_scheduler b)) =
     Inr (sample_scheduler b)"
  by (simp_all add: governor_new_def limits_valid_def origin_limits_default_def sample_scheduler_def scheduler_new_def
      scheduler_config_valid_def sample_session_def sample_config_def)

text \<open>Enough to evaluate a short run on the sample.\<close>

lemmas sample_run_simps = sample_scheduler_def sample_world_def sched_round_def meanwhile_def deliver_def promote_due_def
  sched_admit_def with_queue_def enqueue_def queue_take_def settle_def start_session_def origin_admit_def entry_or_default_def
  origin_state_default_def state_ready_at_def put_origin_def origin_limits_default_def next_deadline_def min_option_def
  queue_idle_def sched_finish_def origin_release_def put_unless_settled_def state_settled_def push_done_def job_new_def Let_def

text \<open>
  C11. Every job comes back exactly once. Whatever sessions return or panic, whatever commands arrive
  and however the transitions of queued jobs fail, when the scheduler returns, the identities of its
  outcomes are those of the jobs it started with and of the jobs it admitted meanwhile, each once
  per time it was given, in order, and an outcome that carries a job carries the one it names.
\<close>

theorem every_job_comes_back_once:
  assumes "scheduler_new c g config = Inr s0" "governor_new l = Inr g" "along own_job script (intake w [] jobs s0)"
    and "scheduler_run w jobs script s0 = (s, Some outs)"
  shows "mset (map oc_id outs) = mset (map j_id jobs) + mset (admitted script (intake w [] jobs s0)) \<and>
    sorted (map oc_id outs) \<and> (\<forall>x \<in> set outs. \<forall>j. oc_job x = Some j \<longrightarrow> j_id j = oc_id x)"
proof -
  note new = new_ok [OF assms(1,2)]
  have start: "arrives_well (map j_id jobs) True s0 (intake w [] jobs s0)" using new by (intro intake_ok) simp_all
  then have "task_ok (intake w [] jobs s0)" by (simp add: arrives_well_def)
  from run_ok [OF this assms(3)] assms(4)
  have run: "arrives_well (admitted script (intake w [] jobs s0)) (along fresh_admit script (intake w [] jobs s0)) (intake w [] jobs s0) s"
    "sd_sessions s = []" "outs = sched_outcomes s" by (auto simp: scheduler_run_def)
  let ?xs = "qu_done (sd_queue s) @ map (\<lambda>e. outcome_settled (en_job e)) (queue_drain (sd_queue s))"
  have "mset (map oc_id outs) = mset (map oc_id (fill_results (sd_last s) ?xs))" by (simp add: run(3) sched_outcomes_def)
  also have "\<dots> = mset (map oc_id ?xs)" by (simp only: fill_results_ids)
  also have "\<dots> = job_ids s" using run(2) by (simp add: job_ids_def live_ids_def queue_drain_def outcome_settled_def o_def)
  finally have ids: "mset (map oc_id outs) = job_ids s" .
  have "outcomes_ok s" using start run(1) new(5) by (simp add: arrives_well_def)
  then have "\<forall>x \<in> set ?xs. \<forall>j. oc_job x = Some j \<longrightarrow> j_id j = oc_id x" by (auto simp: outcomes_ok_def outcome_settled_def)
  then have "\<forall>x \<in> set (fill_results (sd_last s) ?xs). \<forall>j. oc_job x = Some j \<longrightarrow> j_id j = oc_id x"
    by (rule fill_results_named)
  then show ?thesis using ids start run(1,3) new(4) by (simp add: arrives_well_def sched_outcomes_def)
qed

theorem every_job_comes_back_once_witness:
  "\<exists>s outs. scheduler_run (sample_world 0 0) [job_new 1 sample_spec]
     [(sample_world 0 0, SessionReturned 1 (job_new 1 sample_spec) (Inl RRepository)), (sample_world 0 0, DeadlineReached)]
     (sample_scheduler False) = (s, Some outs) \<and> mset (map oc_id outs) = {#1#}"
proof -
  let ?w = "sample_world 0 0" and ?j = "job_new 1 sample_spec"
  let ?script = "[(?w, SessionReturned 1 ?j (Inl RRepository)), (?w, DeadlineReached)]"
  let ?s0 = "intake ?w [] [?j] (sample_scheduler False)"
  obtain s outs where run: "scheduler_run ?w [?j] ?script (sample_scheduler False) = (s, Some outs)"
    by (simp add: scheduler_run_def sample_run_simps)
  have "along own_job ?script ?s0" "admitted ?script ?s0 = []"
    by (simp_all add: sample_run_simps)
  then show ?thesis
    using every_job_comes_back_once [OF sample_new(2,1) _ run] run by (simp add: job_new_def)
qed

lemma scheduler_budgets_within:
  assumes "scheduler_new c g config = Inr s0" "governor_new l = Inr g" "along own_job script (intake w [] jobs s0)"
    and "along fresh_admit script (intake w [] jobs s0)" "scheduler_run w jobs script s0 = (s, r)"
  shows "length (sd_active s) \<le> sc_max_active config \<and>
    sd_used s = sum_list (map (\<lambda>(i, a). ac_grant a) (sd_active s)) \<and> sd_used s \<le> sc_connections config \<and>
    (\<forall>(i, a) \<in> set (sd_active s). 1 \<le> ac_grant a \<and> ac_grant a \<le> sc_per_job config) \<and>
    (\<forall>x. governor_in_flight (sd_governor s) x =
         sum_list (map (\<lambda>(i, a). if ac_origin a = x then ac_grant a else 0) (sd_active s)) \<and>
       governor_in_flight (sd_governor s) x \<le> ol_connections l)"
proof -
  note new = new_ok [OF assms(1,2)]
  have start: "arrives_well (map j_id jobs) True s0 (intake w [] jobs s0)" using new by (intro intake_ok) simp_all
  then have t: "task_ok (intake w [] jobs s0)" "ledger (intake w [] jobs s0)" using new(2) by (simp_all add: arrives_well_def)
  from run_ok [OF t(1) assms(3)] assms(5)
  have run: "arrives_well (admitted script (intake w [] jobs s0)) (along fresh_admit script (intake w [] jobs s0)) (intake w [] jobs s0) s"
    by (auto simp: scheduler_run_def)
  have g: "governor_cap g = ol_connections l" "sd_governor s0 = g"
    using assms(1,2) by (auto simp: governor_new_def governor_cap_def scheduler_new_def split: if_splits)
  have led: "ledger s" "sd_config s = config" "governor_cap (sd_governor s) = ol_connections l"
    using run start t(2) assms(4) new(6) g by (simp_all add: arrives_well_def)
  have held: "gov.held (map snd (map (\<lambda>(i, a). (i, ac_origin a, ac_grant a)) xs)) x =
      sum_list (map (\<lambda>(i, a). if ac_origin a = x then ac_grant a else 0) xs)" for xs x by (induction xs) auto
  have used: "sum_list (map (snd \<circ> snd) (grants s)) = sum_list (map (\<lambda>(i, a). ac_grant a) (sd_active s))"
    by (simp add: grants_def o_def case_prod_unfold)
  show ?thesis
    using led used held by (auto simp: ledger_def gov.balanced_def) (auto simp: grants_def)
qed

text \<open>
  C12. The budgets hold. As long as a job is admitted only while it is not already queued or
  running, in every state of a run no more sessions are active than the configuration allows, the
  connections in use are the sum of the grants held and within the engine's ceiling, every grant is
  between one and the per-job ceiling, and for every origin the governor counts exactly the
  connections held for it, never more than the origin's limit.
\<close>

theorem scheduler_budgets_hold:
  assumes "scheduler_new c g config = Inr s0" "governor_new l = Inr g" "along own_job script (intake w [] jobs s0)"
    and "along fresh_admit script (intake w [] jobs s0)" "scheduler_run w jobs script s0 = (s, r)"
  shows "length (sd_active s) \<le> sc_max_active config \<and>
    sd_used s = sum_list (map (\<lambda>(i, a). ac_grant a) (sd_active s)) \<and> sd_used s \<le> sc_connections config \<and>
    (\<forall>(i, a) \<in> set (sd_active s). 1 \<le> ac_grant a \<and> ac_grant a \<le> sc_per_job config) \<and>
    (\<forall>x. governor_in_flight (sd_governor s) x =
         sum_list (map (\<lambda>(i, a). if ac_origin a = x then ac_grant a else 0) (sd_active s)) \<and>
       governor_in_flight (sd_governor s) x \<le> ol_connections l)"
  using assms by (rule scheduler_budgets_within)

theorem scheduler_budgets_hold_witness:
  "\<exists>s. scheduler_run (sample_world 0 0) [job_new 1 sample_spec] [(sample_world 0 0, DeadlineReached)]
     (sample_scheduler False) = (s, None) \<and> map fst (sd_active s) = [1] \<and> sd_used s \<le> 4 \<and>
     governor_in_flight (sd_governor s) 1 \<le> 8"
proof -
  let ?w = "sample_world 0 0" and ?j = "job_new 1 sample_spec"
  let ?script = "[(?w, DeadlineReached)]"
  let ?s0 = "intake ?w [] [?j] (sample_scheduler False)"
  obtain s where run: "scheduler_run ?w [?j] ?script (sample_scheduler False) = (s, None)" "map fst (sd_active s) = [1]"
    by (simp add: scheduler_run_def sample_run_simps)
  have "along own_job ?script ?s0" "along fresh_admit ?script ?s0" by (simp_all add: sample_run_simps)
  then show ?thesis
    using scheduler_budgets_hold [OF sample_new(2,1) _ _ run(1)] run
    by (auto simp: sample_scheduler_def origin_limits_default_def)
qed

text \<open>
  Admission follows the queue and wastes nothing. A pass over the ready queue starts jobs in
  queue order and leaves the others in their order, neither losing nor duplicating one, and reports
  whether any started. It stops only when the sessions or the connections are exhausted, or when no
  remaining job's origin grants a connection at that moment.
\<close>

theorem admission_keeps_order:
  assumes "scheduler_config_valid (sd_config s)" "sched_admit now s = (s', started)"
  shows "\<exists>ran. map snd (sd_sessions s') = map snd (sd_sessions s) @ map entry_id ran \<and>
    subseq ran (qu_ready (sd_queue s)) \<and> subseq (qu_ready (sd_queue s')) (qu_ready (sd_queue s)) \<and>
    mset (qu_ready (sd_queue s)) = mset ran + mset (qu_ready (sd_queue s')) \<and>
    qu_waiting (sd_queue s') = qu_waiting (sd_queue s) \<and> (started \<longleftrightarrow> ran \<noteq> []) \<and>
    (sc_max_active (sd_config s) \<le> length (sd_active s') \<or> sc_connections (sd_config s) \<le> sd_used s' \<or>
     (\<forall>e \<in> set (qu_ready (sd_queue s')). \<forall>want. snd (origin_admit (sd_governor s') (en_origin e) want now) = 0))"
proof -
  have "0 < sc_per_job (sd_config s)" using assms(1) by (simp add: scheduler_config_valid_def)
  from start_ready_order [OF assms(2) [unfolded sched_admit_def] this]
  obtain ran where "qu_waiting (sd_queue s') = qu_waiting (sd_queue s)"
    "map snd (sd_sessions s') = map snd (sd_sessions s) @ map entry_id ran" "subseq ran (qu_ready (sd_queue s))"
    "subseq (qu_ready (sd_queue s')) (qu_ready (sd_queue s))" "mset (qu_ready (sd_queue s)) = mset ran + mset (qu_ready (sd_queue s'))"
    "started \<longleftrightarrow> ran \<noteq> []"
    "sc_max_active (sd_config s) \<le> length (sd_active s') \<or> sc_connections (sd_config s) \<le> sd_used s' \<or>
     (\<forall>e \<in> set (qu_ready (sd_queue s')). blocked (sd_governor s') (en_origin e) now)" by auto
  then show ?thesis using blocked_grants_nothing by (intro exI [of _ ran]) blast
qed

theorem admission_keeps_order_witness:
  "\<exists>s' ran. fst (sched_admit 0 (intake (sample_world 0 0) [] [job_new 1 sample_spec] (sample_scheduler False))) = s' \<and>
     map snd (sd_sessions s') = map entry_id ran \<and>
     subseq ran [\<lparr>en_job = job_new 1 sample_spec, en_origin = 1\<rparr>]"
proof -
  let ?s = "intake (sample_world 0 0) [] [job_new 1 sample_spec] (sample_scheduler False)"
  have s: "scheduler_config_valid (sd_config ?s)" "qu_ready (sd_queue ?s) = [\<lparr>en_job = job_new 1 sample_spec, en_origin = 1\<rparr>]"
    "sd_sessions ?s = []"
    by (simp_all add: sample_scheduler_def sample_world_def settle_def enqueue_def with_queue_def queue_take_def job_new_def
        scheduler_config_valid_def)
  obtain s' b where run: "sched_admit 0 ?s = (s', b)" by fastforce
  show ?thesis using admission_keeps_order [OF s(1) run] s(2,3) run by auto
qed

section \<open>Two ways the loop goes wrong\<close>

text \<open>
  Admitting a job that is already running is not refused. Its second session replaces the first
  one's entry, so when both have ended one grant is returned and the other is lost: nothing runs,
  and two connections stay counted, here and at the governor.
\<close>

lemma duplicate_admission_leaks:
  "\<exists>s. scheduler_run (sample_world 0 0) [job_new 1 sample_spec]
     [(sample_world 0 0, CommandReceived (Some (Admit (job_new 1 sample_spec)))),
      (sample_world 0 0, SessionReturned 1 (job_new 1 sample_spec) (Inl RRepository)),
      (sample_world 0 0, SessionReturned 2 (job_new 1 sample_spec) (Inl RRepository))]
     (sample_scheduler True) = (s, None) \<and>
   sd_sessions s = [] \<and> sd_active s = [] \<and> qu_ready (sd_queue s) = [] \<and> sd_used s = 2 \<and> governor_in_flight (sd_governor s) 1 = 2"
  by (simp add: scheduler_run_def sample_run_simps governor_in_flight_def)

text \<open>
  The deadline is computed at a later clock reading than the promotion of due jobs. A retry that
  falls due between the two is neither promoted nor waited for: the resident scheduler then waits
  for a command with no deadline set, and a one-shot run returns with the due job still waiting.
\<close>

definition retry_job :: job where
  "retry_job = (job_new 1 sample_spec)\<lparr>j_state := RetryWait, j_retry_at := Some 5\<rparr>"

lemma deadline_slips_by:
  "\<exists>s. sched_round (sample_world 4 5) (intake (sample_world 0 0) [] [retry_job] (sample_scheduler True)) = (s, RoundSelect None) \<and>
     map en_job (qu_waiting (sd_queue s)) = [retry_job] \<and> sd_sessions s = []"
  "\<exists>s. sched_round (sample_world 4 5) (intake (sample_world 0 0) [] [retry_job] (sample_scheduler False)) = (s, RoundBreak) \<and>
     map en_job (qu_waiting (sd_queue s)) = [retry_job]"
  by (simp_all add: sample_run_simps retry_job_def List.map_filter_def)

end
