(* ===== verification/Part_File.thy ===== *)
theory Part_File
  imports Coordinator
begin

text \<open>
  The part file (\<open>crates/adapters/storage/src/lib.rs\<close>): one generation of one job on disk, with the
  ranges it knows to be written, the ranges recovered from the repository, and what has been synced,
  verified, sealed and published. The operating system is given as answers taken one per fallible
  call, an exhausted list meaning that calls succeed; SHA-256 is a parameter of the operations that
  hash. Paths, permissions and links of the directory are not modelled.
\<close>

section \<open>Data\<close>

definition MAX_EXTENTS :: nat where "MAX_EXTENTS = 262144"

text \<open>A call succeeds, fails, finds nothing, or (a write) fails after some bytes.\<close>

datatype os_answer = OsOk | OsFail | OsNotFound | OsPartial nat

record file_part =
  fp_file :: "byte list"
  fp_meta :: "byte list"
  fp_present :: bool
  fp_spec :: part_spec
  fp_coverage :: "byte_range list"
  fp_protected :: "byte_range list"
  fp_synchronized :: bool
  fp_verified :: "digest option"
  fp_sealed :: bool
  fp_published :: bool
  fp_cancelled :: bool
  fp_poisoned :: bool
  fp_os :: "os_answer list"

definition os_call :: "file_part \<Rightarrow> file_part \<times> os_answer" where
  "os_call f = (case fp_os f of [] \<Rightarrow> (f, OsOk) | a # as \<Rightarrow> (f\<lparr>fp_os := as\<rparr>, a))"

section \<open>Opening\<close>

definition MAGIC :: "byte list" where
  "MAGIC = ''FHDPART'' @ [CHR 0x00, CHR 0x01]"

definition identity :: "part_spec \<Rightarrow> bool \<Rightarrow> byte list" where
  "identity s sealed =
     MAGIC @ le_bytes 8 (ps_job s) @ le_bytes 8 (ps_generation s) @ le_bytes 8 (ps_size s) @
     [if sealed then CHR 0x01 else CHR 0x00]"

text \<open>What the directory holds of a generation: the part and its sidecar.\<close>

record disk_part =
  dp_file :: "byte list option"
  dp_meta :: "byte list option"

definition fresh_handle :: "part_spec \<Rightarrow> byte list \<Rightarrow> byte list \<Rightarrow> bool \<Rightarrow> bool \<Rightarrow> file_part" where
  "fresh_handle s file meta create sealed =
     \<lparr>fp_file = file, fp_meta = meta, fp_present = True, fp_spec = s, fp_coverage = [], fp_protected = [],
      fp_synchronized = create, fp_verified = None, fp_sealed = sealed, fp_published = False,
      fp_cancelled = False, fp_poisoned = False, fp_os = []\<rparr>"

text \<open>Creating is a sequence of calls: create the part, create the sidecar, size the part, sync it,
  write the sidecar, sync it, sync the directory. \<open>steps\<close> of them succeed before one fails or the
  process dies; seven are all of them.\<close>

definition created :: "nat \<Rightarrow> disk_part \<Rightarrow> part_spec \<Rightarrow> disk_part" where
  "created steps d s =
     \<lparr>dp_file = (if steps = 0 then dp_file d else if steps < 3 then Some [] else Some (replicate (ps_size s) (CHR 0x00))),
      dp_meta = (if steps < 2 then dp_meta d else if steps < 5 then Some [] else Some (identity s False))\<rparr>"

definition part_create :: "nat \<Rightarrow> disk_part \<Rightarrow> part_spec \<Rightarrow> disk_part \<times> (StorageError, file_part) result" where
  "part_create steps d s =
     (if dp_file d \<noteq> None then (d, Inl SConflict)
      else if dp_meta d \<noteq> None then (created (min steps 1) d s, Inl SIo)
      else if steps < 7 then (created steps d s, Inl SIo)
      else (created steps d s, Inr (fresh_handle s (replicate (ps_size s) (CHR 0x00)) (identity s False) True False)))"

definition part_open :: "disk_part \<Rightarrow> part_spec \<Rightarrow> (StorageError, file_part) result" where
  "part_open d s =
     (case (dp_file d, dp_meta d) of
        (Some file, Some meta) \<Rightarrow>
          if length meta \<noteq> 34 \<or> length file \<noteq> ps_size s then Inl SIntegrity
          else if take 33 meta \<noteq> take 33 (identity s False) \<or> 1 < (of_char (meta ! 33) :: nat) then Inl SIntegrity
          else Inr (fresh_handle s file meta False (meta ! 33 = CHR 0x01))
      | _ \<Rightarrow> Inl SIo)"

section \<open>Coverage\<close>

text \<open>The merging loop of \<open>coverage_plan\<close>: how many entries the new range absorbs and what they
  grow it to.\<close>

fun absorb :: "byte_range list \<Rightarrow> u64 \<Rightarrow> u64 \<Rightarrow> nat \<times> u64 \<times> u64" where
  "absorb [] s e = (0, s, e)"
| "absorb (x # xs) s e =
     (if e < br_start x then (0, s, e)
      else let (n, s', e') = absorb xs (min s (br_start x)) (max e (br_end x)) in (Suc n, s', e'))"

definition coverage_plan :: "byte_range list \<Rightarrow> byte_range \<Rightarrow> (StorageError, nat \<times> nat \<times> byte_range) result" where
  "coverage_plan cov r =
     (let first = length (takeWhile (\<lambda>x. br_end x < br_start r) cov);
          (n, s, e) = absorb (drop first cov) (br_start r) (br_end r) in
      if MAX_EXTENTS < length cov - n + 1 then Inl SBounds
      else res_bind (map_err (\<lambda>_. SBounds) (byte_range_new s e)) (\<lambda>q. Inr (first, first + n, q)))"

definition add_coverage :: "byte_range list \<Rightarrow> nat \<times> nat \<times> byte_range \<Rightarrow> byte_range list" where
  "add_coverage cov p = (case p of (first, last', q) \<Rightarrow> take first cov @ [q] @ drop last' cov)"

definition part_complete :: "file_part \<Rightarrow> bool" where
  "part_complete f \<longleftrightarrow> ps_size (fp_spec f) = 0 \<or>
     (length (fp_coverage f) = 1 \<and> br_start (fp_coverage f ! 0) = 0 \<and> br_end (fp_coverage f ! 0) = ps_size (fp_spec f))"

definition part_range :: "file_part \<Rightarrow> u64 \<Rightarrow> nat \<Rightarrow> (StorageError, byte_range) result" where
  "part_range f offset n =
     res_bind (ok_or (checked_add offset n) SBounds) (\<lambda>e.
     if ps_size (fp_spec f) < e then Inl SBounds
     else map_err (\<lambda>_. SBounds) (byte_range_new offset e))"

section \<open>Operations\<close>

definition overwrite :: "byte list \<Rightarrow> nat \<Rightarrow> byte list \<Rightarrow> byte list" where
  "overwrite xs off bs = take off xs @ replicate (off - length xs) (CHR 0x00) @ bs @ drop (off + length bs) xs"

text \<open>The region itself: seek, then write everything; a failed write leaves a prefix behind.\<close>

definition write_bytes :: "file_part \<Rightarrow> u64 \<Rightarrow> byte list \<Rightarrow> file_part \<times> (StorageError, unit) result" where
  "write_bytes f offset bs =
     (case os_call f of
        (f1, OsOk) \<Rightarrow>
          (case os_call f1 of
             (f2, OsOk) \<Rightarrow> (f2\<lparr>fp_file := overwrite (fp_file f2) offset bs\<rparr>, Inr ())
           | (f2, OsPartial n) \<Rightarrow> (f2\<lparr>fp_file := overwrite (fp_file f2) offset (take n bs)\<rparr>, Inl SIo)
           | (f2, _) \<Rightarrow> (f2, Inl SIo))
      | (f1, _) \<Rightarrow> (f1, Inl SIo))"

definition overlaps_protected :: "file_part \<Rightarrow> byte_range \<Rightarrow> bool" where
  "overlaps_protected f r \<longleftrightarrow>
     list_ex (\<lambda>x. br_start x < br_end r \<and> br_start r < br_end x) (fp_protected f)"

definition write_at :: "file_part \<Rightarrow> u64 \<Rightarrow> byte list \<Rightarrow> file_part \<times> (StorageError, unit) result" where
  "write_at f offset bs =
     (if fp_poisoned f then (f, Inl SInvalidState)
      else if fp_sealed f then (f, Inl SInvalidState)
      else if bs = [] then (f, if offset \<le> ps_size (fp_spec f) then Inr () else Inl SBounds)
      else case part_range f offset (length bs) of
        Inl e \<Rightarrow> (f, Inl e)
      | Inr r \<Rightarrow>
          if overlaps_protected f r then (f, Inl SInvalidState)
          else case coverage_plan (fp_coverage f) r of
            Inl e \<Rightarrow> (f, Inl e)
          | Inr plan \<Rightarrow>
              (case write_bytes (f\<lparr>fp_poisoned := True, fp_synchronized := False, fp_verified := None\<rparr>) offset bs of
                 (f1, Inl e) \<Rightarrow> (f1, Inl e)
               | (f1, Inr _) \<Rightarrow> (f1\<lparr>fp_coverage := add_coverage (fp_coverage f1) plan, fp_poisoned := False\<rparr>, Inr ())))"

definition part_sync :: "file_part \<Rightarrow> file_part \<times> (StorageError, unit) result" where
  "part_sync f =
     (if fp_poisoned f then (f, Inl SInvalidState)
      else case os_call (f\<lparr>fp_poisoned := True\<rparr>) of
        (f1, OsOk) \<Rightarrow> (f1\<lparr>fp_synchronized := True, fp_poisoned := False\<rparr>, Inr ())
      | (f1, _) \<Rightarrow> (f1, Inl SIo))"

text \<open>Hashing reads exactly the range, in blocks; a file too short, or a failing read, is an error.\<close>

definition hash_bytes :: "(byte list \<Rightarrow> digest) \<Rightarrow> file_part \<Rightarrow> u64 \<Rightarrow> u64 \<Rightarrow> file_part \<times> (StorageError, digest) result" where
  "hash_bytes sha f start n =
     (case os_call f of
        (f1, OsOk) \<Rightarrow> (f1, if 0 < n \<and> length (fp_file f1) < start + n then Inl SIo
                          else Inr (sha (take n (drop start (fp_file f1)))))
      | (f1, _) \<Rightarrow> (f1, Inl SIo))"

definition hash_range :: "(byte list \<Rightarrow> digest) \<Rightarrow> file_part \<Rightarrow> byte_range \<Rightarrow> file_part \<times> (StorageError, digest) result" where
  "hash_range sha f r =
     (if fp_poisoned f then (f, Inl SInvalidState)
      else if ps_size (fp_spec f) < br_end r then (f, Inl SBounds)
      else hash_bytes sha f (br_start r) (br_len r))"

definition recover_extent :: "(byte list \<Rightarrow> digest) \<Rightarrow> file_part \<Rightarrow> byte_range \<Rightarrow> digest \<Rightarrow> file_part \<times> (StorageError, unit) result" where
  "recover_extent sha f r d =
     (if fp_poisoned f then (f, Inl SInvalidState)
      else if ps_size (fp_spec f) < br_end r then (f, Inl SBounds)
      else case coverage_plan (fp_coverage f) r of
        Inl e \<Rightarrow> (f, Inl e)
      | Inr plan \<Rightarrow>
          (case hash_bytes sha f (br_start r) (br_len r) of
             (f1, Inl e) \<Rightarrow> (f1, Inl e)
           | (f1, Inr h) \<Rightarrow>
               if h \<noteq> d then (f1, Inl SIntegrity)
               else if MAX_EXTENTS \<le> length (fp_protected f1) then (f1, Inl SBounds)
               else (f1\<lparr>fp_protected := fp_protected f1 @ [r], fp_coverage := add_coverage (fp_coverage f1) plan\<rparr>, Inr ())))"

fun reach :: "byte_range list \<Rightarrow> u64 \<Rightarrow> u64 option" where
  "reach [] reached = Some reached"
| "reach (r # rs) reached = (if reached < br_start r then None else reach rs (max reached (br_end r)))"

fun check_record :: "(byte list \<Rightarrow> digest) \<Rightarrow> file_part \<Rightarrow> (byte_range \<times> digest) list \<Rightarrow> file_part \<times> (StorageError, unit) result" where
  "check_record sha f [] = (f, Inr ())"
| "check_record sha f ((r, d) # rest) =
     (if ps_size (fp_spec f) < br_end r then (f, Inl SBounds)
      else case hash_bytes sha f (br_start r) (br_len r) of
        (f1, Inl e) \<Rightarrow> (f1, Inl e)
      | (f1, Inr h) \<Rightarrow> if h \<noteq> d then (f1, Inl SIntegrity) else check_record sha f1 rest)"

definition part_verify :: "(byte list \<Rightarrow> digest) \<Rightarrow> file_part \<Rightarrow> digest option \<Rightarrow> (byte_range \<times> digest) list \<Rightarrow>
  file_part \<times> (StorageError, digest) result" where
  "part_verify sha f expected record =
     (if fp_poisoned f then (f, Inl SInvalidState)
      else let f1 = f\<lparr>fp_verified := None\<rparr> in
      if \<not> part_complete f1 \<or> \<not> fp_synchronized f1 then (f1, Inl SInvalidState)
      else case os_call f1 of
        (f2, OsOk) \<Rightarrow>
          if length (fp_file f2) \<noteq> ps_size (fp_spec f2) then (f2, Inl SIntegrity)
          else if reach (sort_key br_start (map fst record)) 0 \<noteq> Some (ps_size (fp_spec f2)) then (f2, Inl SIntegrity)
          else
            (case check_record sha f2 record of
               (f3, Inl e) \<Rightarrow> (f3, Inl e)
             | (f3, Inr _) \<Rightarrow>
                 (case hash_bytes sha f3 0 (ps_size (fp_spec f3)) of
                    (f4, Inl e) \<Rightarrow> (f4, Inl e)
                  | (f4, Inr d) \<Rightarrow>
                      if (case expected of None \<Rightarrow> False | Some x \<Rightarrow> x \<noteq> d) then (f4, Inl SIntegrity)
                      else (f4\<lparr>fp_verified := Some d\<rparr>, Inr d)))
      | (f2, _) \<Rightarrow> (f2, Inl SIo))"

definition part_abandon :: "file_part \<Rightarrow> file_part" where
  "part_abandon f = f\<lparr>fp_cancelled := True\<rparr>"

text \<open>The part goes before its sidecar; a name already gone is no error.\<close>

definition part_discard :: "file_part \<Rightarrow> file_part \<times> (StorageError, unit) result" where
  "part_discard f =
     (if \<not> fp_published f \<and> \<not> fp_cancelled f then (f, Inl SInvalidState)
      else case os_call (f\<lparr>fp_poisoned := True\<rparr>) of
        (f1, a) \<Rightarrow>
          if a \<noteq> OsOk \<and> a \<noteq> OsNotFound then (f1, Inl SIo)
          else
            (case os_call (f1\<lparr>fp_present := False\<rparr>) of
               (f2, b) \<Rightarrow>
                 if b \<noteq> OsOk \<and> b \<noteq> OsNotFound then (f2, Inl SIo)
                 else case os_call f2 of (f3, c) \<Rightarrow> (f3, if c = OsOk then Inr () else Inl SIo)))"

section \<open>Publication\<close>

datatype link_error = AlreadyExists | LinkUnsupported | CrossesDevices | LinkOther

text \<open>What publication meets outside: the resolved destination, whether it is taken, whether the
  part is still an ordinary file, the staged link and the bytes read through it, and the final link.\<close>

record publish_world =
  pw_resolve :: "string \<Rightarrow> (StorageError, string) result"
  pw_taken :: "string \<Rightarrow> (StorageError, bool) result"
  pw_ordinary :: "(StorageError, unit) result"
  pw_stage :: bool
  pw_staged :: "byte list option"
  pw_link :: "link_error option"

definition link_failure :: "link_error \<Rightarrow> StorageError" where
  "link_failure e =
     (case e of AlreadyExists \<Rightarrow> SConflict | LinkUnsupported \<Rightarrow> SUnsupported | CrossesDevices \<Rightarrow> SUnsupported
      | LinkOther \<Rightarrow> SIo)"

definition hash_whole :: "(byte list \<Rightarrow> digest) \<Rightarrow> byte list \<Rightarrow> u64 \<Rightarrow> digest option" where
  "hash_whole sha file n = (if length file < n then None else Some (sha (take n file)))"

text \<open>Freezing the generation: seek, write the flag, sync; a failed sync may leave the flag set.\<close>

definition seal :: "file_part \<Rightarrow> file_part \<times> bool" where
  "seal f =
     (case os_call f of
        (f1, a) \<Rightarrow>
          if a \<noteq> OsOk then (f1, False)
          else case os_call f1 of
            (f2, b) \<Rightarrow>
              if b \<noteq> OsOk then (f2, False)
              else case os_call (f2\<lparr>fp_meta := (fp_meta f2)[33 := CHR 0x01]\<rparr>) of
                (f3, c) \<Rightarrow> if c = OsOk then (f3\<lparr>fp_sealed := True\<rparr>, True) else (f3, False))"

definition finish_publish :: "file_part \<Rightarrow> string \<Rightarrow> file_part \<times> (StorageError, string) result" where
  "finish_publish f destination =
     (case os_call f of
        (f1, a) \<Rightarrow> if a = OsOk then (f1\<lparr>fp_published := True, fp_poisoned := False\<rparr>, Inr destination) else (f1, Inl SIo))"

text \<open>The part is linked under a staged name and proved there before the destination appears.\<close>

definition publish_staged :: "(byte list \<Rightarrow> digest) \<Rightarrow> publish_world \<Rightarrow> file_part \<Rightarrow> digest \<Rightarrow> string \<Rightarrow>
  file_part \<times> (StorageError, string) result" where
  "publish_staged sha w f expected destination =
     (if \<not> pw_stage w then (f\<lparr>fp_poisoned := False, fp_sealed := False\<rparr>, Inl SIo)
      else if (case pw_staged w of None \<Rightarrow> None | Some file \<Rightarrow> hash_whole sha file (ps_size (fp_spec f))) \<noteq> Some expected
      then (f\<lparr>fp_poisoned := False, fp_sealed := False, fp_verified := None\<rparr>, Inl SIntegrity)
      else case pw_link w of
        Some e \<Rightarrow> (f\<lparr>fp_poisoned := False\<rparr>, Inl (link_failure e))
      | None \<Rightarrow> finish_publish f destination)"

text \<open>What must hold before anything is linked.\<close>

definition publish_ready :: "publish_world \<Rightarrow> file_part \<Rightarrow> string \<Rightarrow> (StorageError, string \<times> digest) result" where
  "publish_ready w f path =
     (if fp_poisoned f then Inl SInvalidState
      else res_bind (ok_or (fp_verified f) SInvalidState) (\<lambda>expected.
      if \<not> fp_synchronized f \<or> \<not> part_complete f then Inl SInvalidState
      else
      res_bind (pw_resolve w path) (\<lambda>destination.
      res_bind (pw_taken w destination) (\<lambda>taken.
      if taken then Inl SConflict
      else res_bind (pw_ordinary w) (\<lambda>_. Inr (destination, expected))))))"

definition part_publish :: "(byte list \<Rightarrow> digest) \<Rightarrow> publish_world \<Rightarrow> file_part \<Rightarrow> string \<Rightarrow>
  file_part \<times> (StorageError, string) result" where
  "part_publish sha w f path =
     (case publish_ready w f path of
        Inl e \<Rightarrow> (f, Inl e)
      | Inr (destination, expected) \<Rightarrow>
          if length (fp_file f) \<noteq> ps_size (fp_spec f) then (f\<lparr>fp_verified := None\<rparr>, Inl SIntegrity)
          else case seal (f\<lparr>fp_poisoned := True\<rparr>) of
            (f1, False) \<Rightarrow> (f1, Inl SIo)
          | (f1, True) \<Rightarrow> publish_staged sha w f1 expected destination)"

end
