(* ===== verification/Part_Props.thy ===== *)
theory Part_Props
  imports Part_File
begin

text \<open>
  What a part file promises: its coverage is exactly the bytes written or proved through the handle,
  in canonical form; recovered extents are never overwritten; and only bytes that were verified
  against the record, and proved once more through the staged link, are ever published.
\<close>

section \<open>Coverage\<close>

lemma absorb_spec:
  assumes "sorted_wrt (\<lambda>r q. br_end r < br_start q) xs" "\<forall>x \<in> set xs. range_ok x \<and> s \<le> br_end x" "s < e"
    and "absorb xs s e = (n, s', e')"
  shows "n \<le> length xs \<and> s' \<le> s \<and> e \<le> e' \<and> {s'..<e'} = {s..<e} \<union> ranges_bytes (take n xs) \<and>
    (\<forall>x \<in> set (drop n xs). e' < br_start x) \<and> (s' = s \<or> s' \<in> br_start ` set xs) \<and> (e' = e \<or> e' \<in> br_end ` set xs)"
  using assms
proof (induction xs arbitrary: s e n s' e')
  case (Cons x xs)
  show ?case
  proof (cases "e < br_start x")
    case True
    have "e < br_start y" if "y \<in> set xs" for y
      using Cons.prems(1,2) that True by (fastforce simp: range_ok_def)
    then show ?thesis using Cons.prems(4) True by auto
  next
    case False
    let ?s = "min s (br_start x)" and ?e = "max e (br_end x)"
    obtain m where m: "absorb xs ?s ?e = (m, s', e')" "n = Suc m"
      using Cons.prems(4) False by (auto simp: Let_def split: prod.splits)
    have x: "range_ok x" "s \<le> br_end x" using Cons.prems(2) by auto
    have IH: "m \<le> length xs \<and> s' \<le> ?s \<and> ?e \<le> e' \<and> {s'..<e'} = {?s..<?e} \<union> ranges_bytes (take m xs) \<and>
      (\<forall>x \<in> set (drop m xs). e' < br_start x) \<and> (s' = ?s \<or> s' \<in> br_start ` set xs) \<and> (e' = ?e \<or> e' \<in> br_end ` set xs)"
      using Cons.prems(1-3) m(1) x by (intro Cons.IH) (auto simp: range_ok_def)
    have "{?s..<?e} = {s..<e} \<union> bytes_of x"
      using Cons.prems(3) x False by (auto simp: bytes_of_def range_ok_def)
    then have "{s'..<e'} = {s..<e} \<union> ranges_bytes (take n (x # xs))" using IH m(2) by auto
    then show ?thesis using IH m(2) by (auto simp: min_def max_def split: if_splits)
  qed
qed auto

lemma ranges_bytes_append [simp]: "ranges_bytes (xs @ ys) = ranges_bytes xs \<union> ranges_bytes ys"
  by (auto simp: ranges_bytes_def)

text \<open>Adding a range to a canonical coverage keeps it canonical and adds exactly its bytes.\<close>

lemma coverage_merge:
  assumes cov: "spaced n cov" and r: "range_ok r" "br_end r \<le> n"
  obtains p where
    "coverage_plan cov r = (if MAX_EXTENTS < length (add_coverage cov p) then Inl SBounds else Inr p)"
    "spaced n (add_coverage cov p)" "ranges_bytes (add_coverage cov p) = ranges_bytes cov \<union> bytes_of r"
proof -
  define A where "A = takeWhile (\<lambda>x. br_end x < br_start r) cov"
  define B where "B = dropWhile (\<lambda>x. br_end x < br_start r) cov"
  have split: "cov = A @ B" by (simp add: A_def B_def)
  have len: "length (takeWhile (\<lambda>x. br_end x < br_start r) cov) = length A" by (simp add: A_def)
  have left: "\<forall>x \<in> set A. br_end x < br_start r" using set_takeWhileD by (fastforce simp: A_def)
  have hd_B: "B \<noteq> [] \<Longrightarrow> br_start r \<le> br_end (hd B)"
    using hd_dropWhile [of "\<lambda>x. br_end x < br_start r" cov] by (simp add: B_def not_less)
  obtain m s e where m: "absorb B (br_start r) (br_end r) = (m, s, e)" by (metis surj_pair)
  have sorted: "sorted_wrt (\<lambda>r q. br_end r < br_start q) A" "sorted_wrt (\<lambda>r q. br_end r < br_start q) B"
    "\<forall>x \<in> set A. \<forall>y \<in> set B. br_end x < br_start y" "\<forall>x \<in> set A \<union> set B. range_ok x \<and> br_end x \<le> n"
    using cov by (auto simp: split spaced_def sorted_wrt_append)
  have right: "\<forall>x \<in> set B. range_ok x \<and> br_start r \<le> br_end x"
  proof
    fix x assume x: "x \<in> set B"
    then have "br_end (hd B) \<le> br_end x" using sorted(2,4)
      by (cases B) (auto simp: range_ok_def, metis UnCI less_imp_le order_less_trans)
    then show "range_ok x \<and> br_start r \<le> br_end x" using hd_B x sorted(4) by force
  qed
  have pos: "br_start r < br_end r" using r(1) by (simp add: range_ok_def)
  note spec = absorb_spec [OF sorted(2) right pos m]
  define q where "q = \<lparr>br_start = s, br_end = e\<rparr>"
  define p where "p = (length A, length A + m, q)"
  have e: "s < e" "e \<le> n" "e \<le> I64_MAX"
    using spec r pos sorted(4) by (auto simp: range_ok_def)
  have qr: "byte_range_new s e = Inr q" "range_ok q" using e by (simp_all add: byte_range_new_def q_def range_ok_def)
  have new: "add_coverage cov p = A @ q # drop m B" by (simp add: add_coverage_def p_def split)
  have before: "\<forall>x \<in> set A. br_end x < s" using spec left sorted(3) by auto
  have spaced: "spaced n (add_coverage cov p)"
    unfolding new spaced_def sorted_wrt_append
    using sorted spec before e qr sorted_wrt_drop [OF sorted(2), of m] by (auto simp: q_def dest: in_set_dropD)
  have "bytes_of q = bytes_of r \<union> ranges_bytes (take m B)" using spec by (simp add: bytes_of_def q_def)
  moreover have "ranges_bytes B = ranges_bytes (take m B) \<union> ranges_bytes (drop m B)"
    by (metis append_take_drop_id ranges_bytes_append)
  ultimately have bytes: "ranges_bytes (add_coverage cov p) = ranges_bytes cov \<union> bytes_of r"
    unfolding new by (auto simp: split)
  have "length (add_coverage cov p) = length cov - m + 1" unfolding new using spec by (simp add: split)
  then have "coverage_plan cov r = (if MAX_EXTENTS < length (add_coverage cov p) then Inl SBounds else Inr p)"
    using m qr(1) unfolding coverage_plan_def len Let_def p_def by (simp add: split res_simps)
  then show ?thesis using that spaced bytes by blast
qed

lemma coverage_plan_ok:
  assumes "spaced n cov" "range_ok r" "br_end r \<le> n" "coverage_plan cov r = Inr p"
  shows "spaced n (add_coverage cov p)" "ranges_bytes (add_coverage cov p) = ranges_bytes cov \<union> bytes_of r"
    "length (add_coverage cov p) \<le> MAX_EXTENTS"
  using coverage_merge [OF assms(1-3)] assms(4) by (metis Inl_Inr_False Inr_inject not_less)+

section \<open>Invariant\<close>

definition part_inv :: "file_part \<Rightarrow> bool" where
  "part_inv f \<longleftrightarrow> ps_size (fp_spec f) \<le> I64_MAX \<and> spaced (ps_size (fp_spec f)) (fp_coverage f) \<and>
     length (fp_coverage f) \<le> MAX_EXTENTS \<and>
     (\<forall>p \<in> set (fp_protected f). range_ok p \<and> bytes_of p \<subseteq> ranges_bytes (fp_coverage f)) \<and>
     (fp_verified f \<noteq> None \<longrightarrow> fp_synchronized f \<and> part_complete f)"

lemma spaced_ext: "spaced n xs \<Longrightarrow> ranges_bytes xs \<subseteq> {0..<n}"
  by (fastforce simp: spaced_def ranges_bytes_def bytes_of_def)

text \<open>A canonical coverage of everything is one range.\<close>

lemma complete_iff:
  assumes "spaced (ps_size (fp_spec f)) (fp_coverage f)"
  shows "part_complete f \<longleftrightarrow> ranges_bytes (fp_coverage f) = {0..<ps_size (fp_spec f)}"
proof
  assume "part_complete f"
  then show "ranges_bytes (fp_coverage f) = {0..<ps_size (fp_spec f)}"
    using spaced_ext [OF assms] by (auto simp: part_complete_def bytes_of_def length_Suc_conv)
next
  assume all: "ranges_bytes (fp_coverage f) = {0..<ps_size (fp_spec f)}"
  show "part_complete f"
  proof (cases "fp_coverage f")
    case Nil
    then show ?thesis using all by (simp add: part_complete_def)
  next
    case (Cons r rs)
    let ?n = "ps_size (fp_spec f)"
    have ok: "range_ok r" "br_end r \<le> ?n" "\<forall>q \<in> set rs. br_end r < br_start q"
      using assms Cons by (simp_all add: spaced_def)
    have "rs = []"
    proof (rule ccontr)
      assume "rs \<noteq> []"
      then obtain q where "q \<in> set rs" by (cases rs) auto
      then have "br_end r < ?n" using ok(3) assms Cons by (fastforce simp: spaced_def range_ok_def)
      then have "br_end r \<in> ranges_bytes (fp_coverage f)" using all by simp
      then show False using Cons ok(3) by (fastforce simp: ranges_bytes_def bytes_of_def)
    qed
    moreover have "0 \<in> bytes_of r" using all Cons ok(1,2) \<open>rs = []\<close> by (auto simp: range_ok_def)
    moreover have "br_end r = ?n"
    proof (rule ccontr)
      assume "br_end r \<noteq> ?n"
      then have "br_end r \<in> ranges_bytes (fp_coverage f)" using all ok(2) by simp
      then show False using Cons \<open>rs = []\<close> by (simp add: bytes_of_def)
    qed
    ultimately show ?thesis using Cons by (simp add: part_complete_def bytes_of_def)
  qed
qed

lemma os_call_frame:
  assumes "os_call f = (f', a)"
  obtains os where "f' = f\<lparr>fp_os := os\<rparr>"
  using assms that [of "fp_os f"] by (auto simp: os_call_def split: list.splits)

lemma hash_bytes_frame:
  assumes "hash_bytes sha f a n = (f', r)"
  obtains os where "f' = f\<lparr>fp_os := os\<rparr>" "\<And>d. r = Inr d \<Longrightarrow> d = sha (take n (drop a (fp_file f))) \<and> (0 < n \<longrightarrow> a + n \<le> length (fp_file f))"
proof -
  obtain f1 x where f1: "os_call f = (f1, x)" by fastforce
  obtain os where "f1 = f\<lparr>fp_os := os\<rparr>" using os_call_frame [OF f1] .
  then show ?thesis using assms f1 that [of os] by (auto simp: hash_bytes_def split: os_answer.splits if_splits)
qed

lemma write_bytes_frame:
  assumes "write_bytes f a bs = (f', r)"
  obtains os k where "f' = f\<lparr>fp_os := os, fp_file := overwrite (fp_file f) a (take k bs)\<rparr>" "k \<le> length bs" "r = Inr () \<Longrightarrow> k = length bs"
  | os where "f' = f\<lparr>fp_os := os\<rparr>" "r \<noteq> Inr ()"
proof -
  obtain f1 x where f1: "os_call f = (f1, x)" by fastforce
  obtain os1 where o1: "f1 = f\<lparr>fp_os := os1\<rparr>" using os_call_frame [OF f1] .
  obtain f2 y where f2: "os_call f1 = (f2, y)" by fastforce
  obtain os2 where o2: "f2 = f1\<lparr>fp_os := os2\<rparr>" using os_call_frame [OF f2] .
  show ?thesis
  proof (cases "x = OsOk")
    case False
    then show ?thesis using assms f1 o1 that(2) [of os1] by (cases x) (auto simp: write_bytes_def)
  next
    case True
    show ?thesis
    proof (cases y)
      case OsOk
      then show ?thesis using assms f1 f2 o1 o2 True that(1) [of "length bs" os2] by (auto simp: write_bytes_def)
    next
      case (OsPartial n)
      then show ?thesis using assms f1 f2 o1 o2 True that(1) [of "min n (length bs)" os2] by (auto simp: write_bytes_def min_def)
    qed (use assms f1 f2 o1 o2 True that(2) [of os2] in \<open>auto simp: write_bytes_def\<close>)
  qed
qed

lemma part_range_Inr:
  assumes "part_range f offset n = Inr r"
  shows "r = \<lparr>br_start = offset, br_end = offset + n\<rparr>" "range_ok r" "br_end r \<le> ps_size (fp_spec f)"
  using assms byte_range_new_ok by (auto simp: part_range_def res_simps byte_range_new_eq_Inr split: if_splits)


section \<open>Steps\<close>

text \<open>What a verification attests of a file: its whole digest, and that every recorded range still
  hashes to what was recorded, the records leaving no byte out.\<close>

definition attests :: "(byte list \<Rightarrow> digest) \<Rightarrow> byte list \<Rightarrow> nat \<Rightarrow> (byte_range \<times> digest) list \<Rightarrow> digest \<Rightarrow> bool" where
  "attests sha file n recs d \<longleftrightarrow> length file = n \<and> d = sha file \<and> {0..<n} \<subseteq> ranges_bytes (map fst recs) \<and>
     (\<forall>(r, h) \<in> set recs. br_end r \<le> n \<and> sha (take (br_len r) (drop (br_start r) file)) = h)"

lemma reach_covers: "reach rs a = Some n \<Longrightarrow> {a..<n} \<subseteq> ranges_bytes rs"
proof (induction rs arbitrary: a)
  case (Cons r rs)
  then have "br_start r \<le> a" "{max a (br_end r)..<n} \<subseteq> ranges_bytes rs" by (auto split: if_splits)
  moreover have "{a..<n} \<subseteq> {br_start r..<br_end r} \<union> {max a (br_end r)..<n}" using calculation(1) by auto
  ultimately show ?case by (auto simp: bytes_of_def)
qed simp

lemma check_record_ok:
  "check_record sha f recs = (f', Inr ()) \<Longrightarrow> (\<exists>os. f' = f\<lparr>fp_os := os\<rparr>) \<and>
     (\<forall>(r, h) \<in> set recs. br_end r \<le> ps_size (fp_spec f) \<and> sha (take (br_len r) (drop (br_start r) (fp_file f))) = h)"
proof (induction recs arbitrary: f)
  case Nil
  then show ?case by (auto intro!: exI [of _ "fp_os f"])
next
  case (Cons x recs)
  obtain r d where x: "x = (r, d)" by fastforce
  obtain f1 h where h: "hash_bytes sha f (br_start r) (br_len r) = (f1, h)" by fastforce
  obtain os where os: "f1 = f\<lparr>fp_os := os\<rparr>" "\<And>d. h = Inr d \<Longrightarrow> d = sha (take (br_len r) (drop (br_start r) (fp_file f)))"
    using hash_bytes_frame [OF h] by metis
  have "h = Inr d" "br_end r \<le> ps_size (fp_spec f)" "check_record sha f1 recs = (f', Inr ())"
    using Cons.prems x h by (auto split: if_splits sum.splits)
  then show ?case using Cons.IH [of f1] os x by auto
qed

lemma check_record_frame: "check_record sha f recs = (f', q) \<Longrightarrow> \<exists>os. f' = f\<lparr>fp_os := os\<rparr>"
proof (induction recs arbitrary: f)
  case Nil
  then show ?case by (auto intro!: exI [of _ "fp_os f"])
next
  case (Cons x recs)
  obtain r d where x: "x = (r, d)" by fastforce
  obtain f1 h where h: "hash_bytes sha f (br_start r) (br_len r) = (f1, h)" by fastforce
  obtain os where os: "f1 = f\<lparr>fp_os := os\<rparr>" using hash_bytes_frame [OF h] by metis
  have "f' = f \<or> f' = f1 \<or> check_record sha f1 recs = (f', q)"
    using Cons.prems x h by (auto split: if_splits sum.splits)
  moreover have "\<exists>os. f = f\<lparr>fp_os := os\<rparr>" by (intro exI [of _ "fp_os f"]) simp
  ultimately show ?case using Cons.IH [of f1] os by auto
qed

text \<open>Verification changes nothing but what is known to be verified, and attests what it returns.\<close>

lemma part_verify_ok:
  assumes "part_verify sha f expected recs = (f', q)"
  shows "\<exists>os v. f' = f\<lparr>fp_os := os, fp_verified := v\<rparr> \<and> (v = fp_verified f \<and> fp_poisoned f \<or> v = None \<or>
    (\<exists>d. v = Some d \<and> q = Inr d \<and> (case expected of None \<Rightarrow> True | Some x \<Rightarrow> x = d) \<and> fp_synchronized f \<and> part_complete f \<and>
       attests sha (fp_file f) (ps_size (fp_spec f)) recs d))"
proof -
  let ?f1 = "f\<lparr>fp_verified := None\<rparr>" and ?n = "ps_size (fp_spec f)"
  obtain f2 a where f2: "os_call ?f1 = (f2, a)" by fastforce
  obtain os2 where o2: "f2 = ?f1\<lparr>fp_os := os2\<rparr>" using os_call_frame [OF f2] .
  obtain f3 q3 where f3: "check_record sha f2 recs = (f3, q3)" by fastforce
  obtain os3 where o3: "f3 = f2\<lparr>fp_os := os3\<rparr>" using check_record_frame [OF f3] by blast
  obtain f4 h where f4: "hash_bytes sha f3 0 (ps_size (fp_spec f3)) = (f4, h)" by fastforce
  obtain os4 where o4: "f4 = f3\<lparr>fp_os := os4\<rparr>" "\<And>d. h = Inr d \<Longrightarrow> d = sha (take ?n (fp_file f))"
    using hash_bytes_frame [OF f4] o2 o3 by (metis (no_types, lifting) drop0 file_part.select_convs(1,4) file_part.surjective file_part.update_convs(8,13))
  consider (same) "f' = f" "fp_poisoned f" | (none) "f' \<in> {?f1, f2, f3, f4}"
    | (ok) d where "f' = f4\<lparr>fp_verified := Some d\<rparr>" "q = Inr d" "h = Inr d" "case expected of None \<Rightarrow> True | Some x \<Rightarrow> x = d"
      "q3 = Inr ()" "reach (sort_key br_start (map fst recs)) 0 = Some ?n" "length (fp_file f) = ?n" "fp_synchronized f" "part_complete f"
  proof -
    have c: "part_complete ?f1 = part_complete f" by (simp add: part_complete_def)
    have run: "(f', q) = (if fp_poisoned f then (f, Inl SInvalidState)
      else if \<not> part_complete f \<or> \<not> fp_synchronized f then (?f1, Inl SInvalidState)
      else if a \<noteq> OsOk then (f2, Inl SIo)
      else if length (fp_file f) \<noteq> ?n then (f2, Inl SIntegrity)
      else if reach (sort_key br_start (map fst recs)) 0 \<noteq> Some ?n then (f2, Inl SIntegrity)
      else case q3 of Inl e \<Rightarrow> (f3, Inl e)
        | Inr _ \<Rightarrow> (case h of Inl e \<Rightarrow> (f4, Inl e)
            | Inr d \<Rightarrow> if (case expected of None \<Rightarrow> False | Some x \<Rightarrow> x \<noteq> d) then (f4, Inl SIntegrity)
                       else (f4\<lparr>fp_verified := Some d\<rparr>, Inr d)))"
      unfolding assms [symmetric] part_verify_def Let_def f2 f3 [unfolded o2] c using o2 o3 f3 f4
      by (cases a; cases q3) (simp_all add: o2 o3)
    show ?thesis
    proof (cases "fp_poisoned f \<or> \<not> part_complete f \<or> \<not> fp_synchronized f \<or> a \<noteq> OsOk \<or> length (fp_file f) \<noteq> ?n \<or>
        reach (sort_key br_start (map fst recs)) 0 \<noteq> Some ?n")
      case True
      then show ?thesis using run same none by (auto split: if_splits)
    next
      case False
      let ?wrong = "\<lambda>d. case expected of None \<Rightarrow> False | Some x \<Rightarrow> x \<noteq> d"
      have tail: "(f', q) = (case q3 of Inl e \<Rightarrow> (f3, Inl e)
        | Inr _ \<Rightarrow> (case h of Inl e \<Rightarrow> (f4, Inl e)
            | Inr d \<Rightarrow> if ?wrong d then (f4, Inl SIntegrity) else (f4\<lparr>fp_verified := Some d\<rparr>, Inr d)))"
        using run False by simp
      show ?thesis
      proof (cases "(\<exists>e. q3 = Inl e) \<or> (\<exists>e. h = Inl e) \<or> (\<exists>d. h = Inr d \<and> ?wrong d)")
        case True
        then have "f' = f3 \<or> f' = f4" using tail by (auto split: sum.splits)
        then show ?thesis using none by blast
      next
        case right: False
        then obtain d where d: "q3 = Inr ()" "h = Inr d" "\<not> ?wrong d" by (cases q3; cases h) auto
        then have "f' = f4\<lparr>fp_verified := Some d\<rparr>" "q = Inr d" using tail by simp_all
        moreover have "case expected of None \<Rightarrow> True | Some x \<Rightarrow> x = d" using d(3) by (cases expected) auto
        ultimately show ?thesis using ok [of d] d False by blast
      qed
    qed
  qed
  then show ?thesis
  proof cases
    case same
    then show ?thesis by (intro exI [of _ "fp_os f"] exI [of _ "fp_verified f"]) simp
  next
    case none
    have "f' = f\<lparr>fp_os := fp_os f', fp_verified := None\<rparr>" using none o2 o3 o4(1) by auto
    then show ?thesis by blast
  next
    case ok
    have rec: "\<forall>(r, h) \<in> set recs. br_end r \<le> ?n \<and> sha (take (br_len r) (drop (br_start r) (fp_file f))) = h"
      using check_record_ok [of sha f2 recs f3] f3 ok(5) o2 by simp
    have "{0..<?n} \<subseteq> ranges_bytes (map fst recs)" using reach_covers [OF ok(6)] by (simp add: ranges_bytes_def)
    then have "attests sha (fp_file f) ?n recs d" using ok(3,7) o4(2) rec by (simp add: attests_def)
    then show ?thesis using ok o2 o3 o4(1) by (intro exI [of _ os4] exI [of _ "Some d"]) simp
  qed
qed


text \<open>One operation on a handle and the bytes it adds to what the handle knows to be written.
  Between operations the file may be changed by someone else and the operating system may answer
  as it likes.\<close>

inductive part_step :: "(byte list \<Rightarrow> digest) \<Rightarrow> file_part \<Rightarrow> nat set \<Rightarrow> file_part \<Rightarrow> bool" for sha where
  ps_write: "write_at f offset bs = (f', Inr ()) \<Longrightarrow> part_step sha f {offset..<offset + length bs} f'"
| ps_write_fails: "write_at f offset bs = (f', Inl e) \<Longrightarrow> part_step sha f {} f'"
| ps_sync: "part_sync f = (f', r) \<Longrightarrow> part_step sha f {} f'"
| ps_hash: "hash_range sha f q = (f', r) \<Longrightarrow> part_step sha f {} f'"
| ps_recover: "range_ok q \<Longrightarrow> recover_extent sha f q d = (f', Inr ()) \<Longrightarrow> part_step sha f (bytes_of q) f'"
| ps_recover_fails: "recover_extent sha f q d = (f', Inl e) \<Longrightarrow> part_step sha f {} f'"
| ps_verify: "part_verify sha f expected recs = (f', r) \<Longrightarrow> part_step sha f {} f'"
| ps_publish: "part_publish sha w f path = (f', r) \<Longrightarrow> part_step sha f {} f'"
| ps_abandon: "part_step sha f {} (part_abandon f)"
| ps_discard: "part_discard f = (f', r) \<Longrightarrow> part_step sha f {} f'"
| ps_outside: "part_step sha f {} (f\<lparr>fp_file := file, fp_os := os\<rparr>)"

text \<open>What is verified stays attested by the file it was verified on.\<close>

definition attested :: "(byte list \<Rightarrow> digest) \<Rightarrow> file_part \<Rightarrow> bool" where
  "attested sha f \<longleftrightarrow> (\<forall>d. fp_verified f = Some d \<longrightarrow> (\<exists>file recs. attests sha file (ps_size (fp_spec f)) recs d))"

text \<open>What an operation may do to a handle without touching its coverage: it may forget what was
  verified, but not invent it.\<close>

definition handles_well :: "(byte list \<Rightarrow> digest) \<Rightarrow> nat set \<Rightarrow> file_part \<Rightarrow> file_part \<Rightarrow> bool" where
  "handles_well sha X f f' \<longleftrightarrow> fp_spec f' = fp_spec f \<and> (part_inv f \<longrightarrow> part_inv f') \<and>
     (part_inv f \<longrightarrow> ranges_bytes (fp_coverage f') = ranges_bytes (fp_coverage f) \<union> X) \<and>
     (attested sha f \<longrightarrow> attested sha f')"

lemma quiet_handles_well:
  assumes "fp_spec f' = fp_spec f" "fp_coverage f' = fp_coverage f" "fp_protected f' = fp_protected f"
    "fp_verified f' = None \<or> fp_verified f' = fp_verified f \<and> (fp_synchronized f \<longrightarrow> fp_synchronized f')"
  shows "handles_well sha {} f f'"
  using assms by (auto simp: handles_well_def part_inv_def attested_def part_complete_def)

lemma write_handles_well:
  assumes "write_at f offset bs = (f', r)"
  shows "handles_well sha (if r = Inr () then {offset..<offset + length bs} else {}) f f'"
proof (cases "fp_poisoned f \<or> fp_sealed f \<or> bs = []")
  case True
  then have "f' = f" "r = Inr () \<longrightarrow> bs = []" using assms by (auto simp: write_at_def split: if_splits)
  then show ?thesis using quiet_handles_well [of f f sha] by auto
next
  case False
  let ?f0 = "f\<lparr>fp_poisoned := True, fp_synchronized := False, fp_verified := None\<rparr>"
  consider (refused) "f' = f" "r \<noteq> Inr ()"
    | (failed) q p e where "part_range f offset (length bs) = Inr q" "coverage_plan (fp_coverage f) q = Inr p"
        "write_bytes ?f0 offset bs = (f', Inl e)" "r = Inl e"
    | (done') q p f1 where "part_range f offset (length bs) = Inr q" "coverage_plan (fp_coverage f) q = Inr p"
        "write_bytes ?f0 offset bs = (f1, Inr ())" "f' = f1\<lparr>fp_coverage := add_coverage (fp_coverage f1) p, fp_poisoned := False\<rparr>" "r = Inr ()"
    using assms False by (auto simp: write_at_def split: sum.splits prod.splits if_splits)
  then show ?thesis
  proof cases
    case refused
    then show ?thesis using quiet_handles_well [of f f sha] by auto
  next
    case failed
    then have "fp_spec f' = fp_spec f \<and> fp_coverage f' = fp_coverage f \<and> fp_protected f' = fp_protected f \<and> fp_verified f' = None"
      by (elim write_bytes_frame) auto
    then show ?thesis using quiet_handles_well [of f' f sha] failed(4) by simp
  next
    case done'
    note q = part_range_Inr [OF done'(1)]
    have f1: "fp_spec f1 = fp_spec f" "fp_coverage f1 = fp_coverage f" "fp_protected f1 = fp_protected f" "fp_verified f1 = None"
      using done'(3) by (elim write_bytes_frame; auto)+
    have cov: "spaced (ps_size (fp_spec f)) (add_coverage (fp_coverage f) p)"
      "ranges_bytes (add_coverage (fp_coverage f) p) = ranges_bytes (fp_coverage f) \<union> bytes_of q"
      "length (add_coverage (fp_coverage f) p) \<le> MAX_EXTENTS" if "part_inv f"
      using coverage_plan_ok [OF _ q(2,3) done'(2)] that by (simp_all add: part_inv_def)
    have "bytes_of q = {offset..<offset + length bs}" by (simp add: q(1) bytes_of_def)
    then show ?thesis
      using cov f1 done'(4,5) by (auto simp: handles_well_def part_inv_def attested_def)
  qed
qed

lemma recover_handles_well:
  assumes "recover_extent sha f q d = (f', r)" "r = Inr () \<longrightarrow> range_ok q"
  shows "handles_well sha (if r = Inr () then bytes_of q else {}) f f'"
proof (cases "r = Inr ()")
  case False
  obtain f1 h where h: "hash_bytes sha f (br_start q) (br_len q) = (f1, h)" by fastforce
  obtain os where "f1 = f\<lparr>fp_os := os\<rparr>" using hash_bytes_frame [OF h] by metis
  moreover have "f' = f \<or> f' = f1"
    using assms(1) False h by (auto simp: recover_extent_def split: sum.splits prod.splits if_splits)
  ultimately show ?thesis using False by (auto intro!: quiet_handles_well)
next
  case True
  obtain p f1 h where p: "coverage_plan (fp_coverage f) q = Inr p" "hash_bytes sha f (br_start q) (br_len q) = (f1, h)"
    "br_end q \<le> ps_size (fp_spec f)"
    "f' = f1\<lparr>fp_protected := fp_protected f1 @ [q], fp_coverage := add_coverage (fp_coverage f1) p\<rparr>"
    using assms(1) True by (auto simp: recover_extent_def split: sum.splits prod.splits if_splits)
  obtain os where f1: "f1 = f\<lparr>fp_os := os\<rparr>" using hash_bytes_frame [OF p(2)] by metis
  have q: "range_ok q" using assms(2) True by simp
  have cov: "spaced (ps_size (fp_spec f)) (add_coverage (fp_coverage f) p)"
    "ranges_bytes (add_coverage (fp_coverage f) p) = ranges_bytes (fp_coverage f) \<union> bytes_of q"
    "length (add_coverage (fp_coverage f) p) \<le> MAX_EXTENTS" if "part_inv f"
    using coverage_plan_ok [OF _ q p(3) p(1)] that by (simp_all add: part_inv_def)
  have complete: "part_complete f'" if "part_inv f" "part_complete f"
  proof -
    have "ranges_bytes (fp_coverage f') = {0..<ps_size (fp_spec f)}"
      using cov(2) [OF that(1)] complete_iff [of f] that p(3,4) f1 by (auto simp: part_inv_def bytes_of_def)
    then show ?thesis using complete_iff [of f'] cov(1) [OF that(1)] p(4) f1 by simp
  qed
  show ?thesis
    using True q cov complete p(4) f1 by (auto simp: handles_well_def part_inv_def attested_def)
qed

lemma publish_handles_well:
  assumes "part_publish sha w f path = (f', r)"
  shows "handles_well sha {} f f'"
proof (rule quiet_handles_well)
  obtain f1 b where s: "seal (f\<lparr>fp_poisoned := True\<rparr>) = (f1, b)" by fastforce
  have same: "fp_spec f1 = fp_spec f \<and> fp_coverage f1 = fp_coverage f \<and> fp_protected f1 = fp_protected f \<and>
      fp_verified f1 = fp_verified f \<and> fp_synchronized f1 = fp_synchronized f"
    using s by (auto simp: seal_def os_call_def split: list.splits if_splits)
  have fin: "fp_spec g = fp_spec h \<and> fp_coverage g = fp_coverage h \<and> fp_protected g = fp_protected h \<and>
      fp_verified g = fp_verified h \<and> fp_synchronized g = fp_synchronized h" if "finish_publish h x = (g, y)" for g h x y
    using that by (auto simp: finish_publish_def os_call_def split: list.splits if_splits)
  have staged: "fp_spec g = fp_spec h \<and> fp_coverage g = fp_coverage h \<and> fp_protected g = fp_protected h \<and>
      (fp_verified g = None \<or> fp_verified g = fp_verified h \<and> fp_synchronized g = fp_synchronized h)"
    if "publish_staged sha w h x d = (g, y)" for g h x d y
  proof (cases "finish_publish h d")
    case (Pair k z)
    show ?thesis using that fin [OF Pair] Pair by (auto simp: publish_staged_def split: if_splits option.splits)
  qed
  have "fp_spec f' = fp_spec f \<and> fp_coverage f' = fp_coverage f \<and> fp_protected f' = fp_protected f \<and>
    (fp_verified f' = None \<or> fp_verified f' = fp_verified f \<and> (fp_synchronized f \<longrightarrow> fp_synchronized f'))"
  proof (cases "publish_ready w f path")
    case (Inr x)
    obtain dst ex where x: "x = (dst, ex)" by fastforce
    obtain g y where g: "publish_staged sha w f1 ex dst = (g, y)" by fastforce
    show ?thesis using assms s same staged [OF g] g Inr x by (cases b) (auto simp: part_publish_def split: if_splits)
  qed (use assms in \<open>simp add: part_publish_def\<close>)
  then show "fp_spec f' = fp_spec f" "fp_coverage f' = fp_coverage f" "fp_protected f' = fp_protected f"
    "fp_verified f' = None \<or> fp_verified f' = fp_verified f \<and> (fp_synchronized f \<longrightarrow> fp_synchronized f')" by simp_all
qed

lemma verify_handles_well:
  assumes "part_verify sha f expected recs = (f', r)"
  shows "handles_well sha {} f f'"
proof -
  obtain os v where f': "f' = f\<lparr>fp_os := os, fp_verified := v\<rparr>"
    and v: "v = fp_verified f \<or> v = None \<or> (\<exists>d. v = Some d \<and> fp_synchronized f \<and> part_complete f \<and>
      attests sha (fp_file f) (ps_size (fp_spec f)) recs d)"
    using part_verify_ok [OF assms] by blast
  have same: "fp_spec f' = fp_spec f" "fp_coverage f' = fp_coverage f" "fp_protected f' = fp_protected f"
    "fp_synchronized f' = fp_synchronized f" "fp_verified f' = v" "part_complete f' = part_complete f"
    by (simp_all add: f' part_complete_def)
  have "attested sha f'" if "attested sha f" using v that unfolding attested_def same(1,5)
    by (elim disjE exE conjE) (simp_all, blast)
  then show ?thesis using v same unfolding handles_well_def part_inv_def by auto
qed

lemma step_handles_well: "part_step sha f X f' \<Longrightarrow> handles_well sha X f f'"
proof (induction rule: part_step.induct)
  case (ps_write f offset bs f')
  then show ?case using write_handles_well [OF ps_write, of sha] by simp
next
  case (ps_write_fails f offset bs f' e)
  then show ?case using write_handles_well [OF ps_write_fails, of sha] by simp
next
  case (ps_sync f f' r)
  then show ?case by (intro quiet_handles_well) (auto simp: part_sync_def os_call_def split: list.splits os_answer.splits if_splits)
next
  case (ps_hash f q f' r)
  then have "f' = f \<or> (\<exists>os. f' = f\<lparr>fp_os := os\<rparr>)"
    by (auto simp: hash_range_def split: if_splits elim: hash_bytes_frame)
  then show ?case by (intro quiet_handles_well) auto
next
  case (ps_recover q f d f')
  then show ?case using recover_handles_well [OF ps_recover(2)] by simp
next
  case (ps_recover_fails f q d f' e)
  then show ?case using recover_handles_well [OF ps_recover_fails] by simp
next
  case (ps_verify f expected recs f' r)
  then show ?case by (rule verify_handles_well)
next
  case (ps_publish w f path f' r)
  then show ?case by (rule publish_handles_well)
next
  case (ps_abandon f)
  then show ?case by (intro quiet_handles_well) (simp_all add: part_abandon_def)
next
  case (ps_discard f f' r)
  then show ?case by (intro quiet_handles_well)
      (auto simp: part_discard_def os_call_def split: list.splits if_splits)
next
  case (ps_outside f bs os)
  then show ?case by (intro quiet_handles_well) simp_all
qed


text \<open>A run of a handle, with everything it added.\<close>

inductive part_run :: "(byte list \<Rightarrow> digest) \<Rightarrow> file_part \<Rightarrow> nat set \<Rightarrow> file_part \<Rightarrow> bool" for sha where
  pr_refl: "part_run sha f {} f"
| pr_step: "part_run sha f X g \<Longrightarrow> part_step sha g Y h \<Longrightarrow> part_run sha f (X \<union> Y) h"

lemma run_handles_well: "part_run sha f X f' \<Longrightarrow> handles_well sha X f f'"
proof (induction rule: part_run.induct)
  case (pr_refl f)
  then show ?case by (simp add: handles_well_def)
next
  case (pr_step f X g Y h)
  then show ?case using step_handles_well [OF pr_step.hyps(2)] by (auto simp: handles_well_def)
qed

lemma fresh_inv: "ps_size s \<le> I64_MAX \<Longrightarrow> part_inv (fresh_handle s file meta c z) \<and> attested sha (fresh_handle s file meta c z)"
  by (simp add: fresh_handle_def part_inv_def spaced_def attested_def MAX_EXTENTS_def)

lemma opened_fresh:
  assumes "part_open d s = Inr f \<or> part_create steps d s = (d', Inr f)"
  shows "\<exists>file meta c z. f = fresh_handle s file meta c z"
  using assms by (auto simp: part_open_def part_create_def split: option.splits if_splits)

section \<open>Properties\<close>

text \<open>
  C22. The coverage of a part is exact. Whatever is done through a handle since it was opened or
  created, and whatever fails or happens to the file meanwhile, the ranges the handle counts as
  written are sorted, non-empty and never touch, stay within the file and the extent limit, and hold
  exactly the bytes of the writes and recoveries that succeeded; the part counts as complete exactly
  when those are all its bytes.
\<close>

theorem part_coverage_exact:
  assumes "part_open d s = Inr f \<or> part_create steps d s = (d', Inr f)" "ps_size s \<le> I64_MAX" "part_run sha f X f'"
  shows "spaced (ps_size s) (fp_coverage f') \<and> length (fp_coverage f') \<le> MAX_EXTENTS \<and>
    ranges_bytes (fp_coverage f') = X \<and> (part_complete f' \<longleftrightarrow> X = {0..<ps_size s})"
proof -
  obtain data meta c z where f: "f = fresh_handle s data meta c z" using opened_fresh [OF assms(1)] by blast
  have "part_inv f" "fp_spec f = s" "ranges_bytes (fp_coverage f) = {}"
    using fresh_inv [OF assms(2)] by (simp_all add: f) (simp_all add: fresh_handle_def)
  then have "part_inv f'" "fp_spec f' = s" "ranges_bytes (fp_coverage f') = X"
    using run_handles_well [OF assms(3)] by (auto simp: handles_well_def)
  then show ?thesis using complete_iff [of f'] by (auto simp: part_inv_def)
qed

definition sample_part :: part_spec where
  "sample_part = \<lparr>ps_job = 1, ps_generation = 1, ps_size = 4\<rparr>"

definition sample_handle :: file_part where
  "sample_handle = fresh_handle sample_part (replicate 4 (CHR 0x00)) (identity sample_part False) True False"

lemma sample_created: "\<exists>d'. part_create 7 \<lparr>dp_file = None, dp_meta = None\<rparr> sample_part = (d', Inr sample_handle)"
  by (simp add: part_create_def sample_handle_def sample_part_def)

definition sample_written :: "bool \<Rightarrow> digest option \<Rightarrow> file_part" where
  "sample_written synced v = sample_handle\<lparr>fp_file := ''abcd'', fp_coverage := [\<lparr>br_start = 0, br_end = 4\<rparr>],
     fp_synchronized := synced, fp_verified := v\<rparr>"

definition sample_publish :: publish_world where
  "sample_publish = \<lparr>pw_resolve = Inr, pw_taken = (\<lambda>_. Inr False), pw_ordinary = Inr (), pw_stage = True,
     pw_staged = Some ''abcd'', pw_link = None\<rparr>"

lemmas sample_part_defs = sample_written_def sample_handle_def fresh_handle_def sample_part_def os_call_def part_complete_def

lemma sample_part_ops:
  "write_at sample_handle 0 ''abcd'' = (sample_written False None, Inr ())"
  "part_sync (sample_written False None) = (sample_written True None, Inr ())"
  "part_verify (\<lambda>x. x) (sample_written True None) None [(\<lparr>br_start = 0, br_end = 4\<rparr>, ''abcd'')]
     = (sample_written True (Some ''abcd''), Inr ''abcd'')"
  "snd (part_publish (\<lambda>x. x) sample_publish (sample_written True (Some ''abcd'')) ''f'') = Inr ''f''"
  by (simp_all add: write_at_def part_range_def checked_add_def byte_range_new_def overlaps_protected_def coverage_plan_def
      add_coverage_def write_bytes_def MAX_EXTENTS_def width_simps Let_def overwrite_def part_sync_def part_verify_def
      hash_bytes_def br_len_def part_publish_def publish_ready_def publish_staged_def sample_publish_def seal_def finish_publish_def
      hash_whole_def sample_part_defs)

lemma sample_part_run: "part_run sha sample_handle ({} \<union> {0..<0 + length ''abcd''}) (sample_written False None)"
  by (rule pr_step [OF pr_refl ps_write [OF sample_part_ops(1)]])

lemma sample_size: "ps_size sample_part \<le> I64_MAX" "ps_size sample_part = 4"
  by (simp_all add: sample_part_def width_simps)

theorem part_coverage_exact_witness:
  "ranges_bytes (fp_coverage (sample_written False None)) = {0..<4} \<and> part_complete (sample_written False None)"
proof -
  obtain d' where d: "part_create 7 \<lparr>dp_file = None, dp_meta = None\<rparr> sample_part = (d', Inr sample_handle)" using sample_created by blast
  show ?thesis
    using part_coverage_exact [OF disjI2 [OF d] sample_size(1) sample_part_run] unfolding sample_size(2)
    by (simp add: eval_nat_numeral)
qed




section \<open>Reopening\<close>

text \<open>A part that was created completely reopens as itself, and never as another generation.\<close>

lemma identity_length [simp]: "length (identity s b) = 34"
  by (simp add: identity_def MAGIC_def)

lemma identity_flag [simp]: "identity s b ! 33 = (if b then CHR 0x01 else CHR 0x00)" "take 33 (identity s True) = take 33 (identity s False)"
  by (simp_all add: identity_def MAGIC_def nth_append)

lemma created_part_reopens:
  assumes "part_create steps d s = (d', Inr f)"
  shows "part_open d' s = Inr (f\<lparr>fp_synchronized := False\<rparr>)"
proof -
  have "7 \<le> steps" "d' = created steps d s" "f = fresh_handle s (replicate (ps_size s) (CHR 0x00)) (identity s False) True False"
    using assms by (auto simp: part_create_def split: if_splits)
  then show ?thesis by (simp add: part_open_def created_def fresh_handle_def)
qed

lemma identity_inj:
  assumes "take 33 (identity s a) = take 33 (identity t b)"
    and "ps_job s \<le> U64_MAX" "ps_generation s \<le> U64_MAX" "ps_size s \<le> U64_MAX"
    and "ps_job t \<le> U64_MAX" "ps_generation t \<le> U64_MAX" "ps_size t \<le> U64_MAX"
  shows "ps_job s = ps_job t \<and> ps_generation s = ps_generation t \<and> ps_size s = ps_size t"
proof -
  have "le_bytes 8 (ps_job s) = le_bytes 8 (ps_job t)" "le_bytes 8 (ps_generation s) = le_bytes 8 (ps_generation t)"
    "le_bytes 8 (ps_size s) = le_bytes 8 (ps_size t)"
    using assms(1) by (auto simp: identity_def MAGIC_def)
  moreover have "from_le_bytes (le_bytes 8 n) = n" if "n \<le> U64_MAX" for n
    using that by (intro from_le_bytes_le) (simp add: U64_MAX_def)
  ultimately show ?thesis using assms(2-7) by metis
qed

text \<open>
  A creation that was interrupted after the part appeared and before its sidecar was written leaves
  a generation that can be neither created nor opened again.
\<close>

lemma interrupted_creation_is_final:
  assumes "part_create steps \<lparr>dp_file = None, dp_meta = None\<rparr> s = (d, r)" "1 \<le> steps" "steps < 5"
  shows "part_create 7 d s = (d, Inl SConflict)" "part_open d s = Inl SIo \<or> part_open d s = Inl SIntegrity"
  using assms by (auto simp: part_create_def created_def part_open_def split: if_splits)

end
