(* ===== verification/Buffers.thy ===== *)
theory Buffers
  imports FHD_Prelude
begin

text \<open>
  The buffer pool (\<open>crates/runtime/src/buffers.rs\<close>): memory for bytes on their way to the writer.
  A pool owns a fixed number of blocks; a buffer holds one block and one permit, and dropping it
  returns first the block and then the permit. Waiting for a permit is the value \<open>Waits\<close>.
\<close>

datatype BufferError = BInvalidBudget | BInvalidLength | BCancelled | BClosed

definition MAX_BUFFER :: usize where "MAX_BUFFER = 256 * 1024"

record buffer_pool =
  bp_permits :: usize
  bp_closed :: bool
  bp_block :: usize
  bp_blocks :: usize
  bp_free :: "byte list list"

record buffer =
  bf_bytes :: "byte list"
  bf_len :: usize

definition pool_new :: "usize \<Rightarrow> (BufferError, buffer_pool) result" where
  "pool_new budget =
     (if \<not> (1 \<le> budget \<and> budget \<le> 512 * 1024 * 1024) then Inl BInvalidBudget
      else let block = min budget MAX_BUFFER; blocks = budget div block in
        Inr \<lparr>bp_permits = blocks, bp_closed = False, bp_block = block, bp_blocks = blocks, bp_free = []\<rparr>)"

definition pool_capacity :: "buffer_pool \<Rightarrow> usize" where
  "pool_capacity p = bp_block p * bp_blocks p"

definition pool_in_use :: "buffer_pool \<Rightarrow> usize" where
  "pool_in_use p = (bp_blocks p - bp_permits p) * bp_block p"

definition pool_close :: "buffer_pool \<Rightarrow> buffer_pool" where
  "pool_close p = p\<lparr>bp_closed := True\<rparr>"

definition buffer_slice :: "buffer \<Rightarrow> byte list" where
  "buffer_slice b = take (bf_len b) (bf_bytes b)"

definition fill_zero :: "nat \<Rightarrow> byte list \<Rightarrow> byte list" where
  "fill_zero n bs = replicate (min n (length bs)) (CHR 0x00) @ drop n bs"

datatype 'a attempt = Waits | Refused BufferError | Got 'a

definition acquire :: "usize \<Rightarrow> bool \<Rightarrow> buffer_pool \<Rightarrow> (buffer \<times> buffer_pool) attempt" where
  "acquire n cancelled p =
     (if n = 0 \<or> bp_block p < n then Refused BInvalidLength
      else if cancelled then Refused BCancelled
      else if bp_closed p then Refused BClosed
      else if bp_permits p = 0 then Waits
      else
        let (bytes, free) = (case rev (bp_free p) of
              [] \<Rightarrow> (replicate (bp_block p) (CHR 0x00), bp_free p)
            | b # _ \<Rightarrow> (b, butlast (bp_free p))) in
        Got (\<lparr>bf_bytes = fill_zero n bytes, bf_len = n\<rparr>, p\<lparr>bp_permits := bp_permits p - 1, bp_free := free\<rparr>))"

definition buffer_append :: "buffer \<Rightarrow> buffer \<Rightarrow> buffer option" where
  "buffer_append a b =
     (case checked_add (bf_len a) (bf_len b) of
        None \<Rightarrow> None
      | Some e \<Rightarrow>
          if length (bf_bytes a) < e then None
          else Some (a\<lparr>bf_bytes := take (bf_len a) (bf_bytes a) @ buffer_slice b @ drop e (bf_bytes a), bf_len := e\<rparr>))"

definition buffer_drop :: "buffer \<Rightarrow> buffer_pool \<Rightarrow> buffer_pool" where
  "buffer_drop b p = p\<lparr>bp_free := bp_free p @ [bf_bytes b], bp_permits := bp_permits p + 1\<rparr>"

section \<open>Accounting\<close>

definition buffer_ok :: "buffer_pool \<Rightarrow> buffer \<Rightarrow> bool" where
  "buffer_ok p b \<longleftrightarrow> length (bf_bytes b) = bp_block p \<and> 0 < bf_len b \<and> bf_len b \<le> bp_block p"

text \<open>Every block is free, not yet allocated, or in one of the buffers held.\<close>

definition pool_inv :: "buffer_pool \<Rightarrow> buffer list \<Rightarrow> bool" where
  "pool_inv p held \<longleftrightarrow> bp_permits p + length held = bp_blocks p \<and> length (bp_free p) \<le> bp_permits p \<and>
     (\<forall>x \<in> set (bp_free p). length x = bp_block p) \<and> (\<forall>b \<in> set held. buffer_ok p b)"

lemma pool_new_inv: "pool_new budget = Inr p \<Longrightarrow> pool_inv p [] \<and> pool_capacity p \<le> budget"
  by (auto simp: pool_new_def pool_inv_def pool_capacity_def Let_def split: if_splits)

lemma fill_zero_length [simp]: "length (fill_zero n bs) = length bs"
  by (simp add: fill_zero_def)

text \<open>A buffer shows zeros, whatever block it reuses, and its credit is taken from the pool.\<close>

lemma acquire_fresh:
  assumes "pool_inv p held" "acquire n cancelled p = Got (b, p')"
  shows "pool_inv p' (b # held)" "buffer_slice b = replicate n (CHR 0x00)" "pool_in_use p' = pool_in_use p + bp_block p"
proof -
  obtain bytes free where bf: "(case rev (bp_free p) of [] \<Rightarrow> (replicate (bp_block p) (CHR 0x00), bp_free p)
      | b # _ \<Rightarrow> (b, butlast (bp_free p))) = (bytes, free)" by fastforce
  have b: "b = \<lparr>bf_bytes = fill_zero n bytes, bf_len = n\<rparr>" "p' = p\<lparr>bp_permits := bp_permits p - 1, bp_free := free\<rparr>"
    "0 < n" "n \<le> bp_block p" "0 < bp_permits p"
    using assms(2) bf by (auto simp: acquire_def split: if_splits)
  have free: "length bytes = bp_block p \<and> length free \<le> bp_permits p - 1 \<and> set free \<subseteq> set (bp_free p)"
  proof (cases "bp_free p" rule: rev_cases)
    case Nil
    then show ?thesis using bf by auto
  next
    case (snoc xs x)
    then show ?thesis using bf assms(1) by (auto simp: pool_inv_def)
  qed
  show "pool_inv p' (b # held)" using assms(1) b free by (auto simp: pool_inv_def buffer_ok_def)
  show "buffer_slice b = replicate n (CHR 0x00)" using b free by (simp add: buffer_slice_def fill_zero_def)
  have "bp_permits p \<le> bp_blocks p" using assms(1) by (simp add: pool_inv_def)
  then have "bp_blocks p - (bp_permits p - 1) = Suc (bp_blocks p - bp_permits p)" using b(5) by simp
  then show "pool_in_use p' = pool_in_use p + bp_block p" using b(2) by (simp add: pool_in_use_def)
qed

lemma drop_returns:
  assumes "pool_inv p (xs @ b # ys)"
  shows "pool_inv (buffer_drop b p) (xs @ ys)"
  using assms by (auto simp: pool_inv_def buffer_drop_def buffer_ok_def)

lemma append_slice:
  assumes "buffer_append a b = Some c" "bf_len a \<le> length (bf_bytes a)" "bf_len b \<le> length (bf_bytes b)"
  shows "buffer_slice c = buffer_slice a @ buffer_slice b" "length (bf_bytes c) = length (bf_bytes a)" "bf_len c = bf_len a + bf_len b"
  using assms by (auto simp: buffer_append_def buffer_slice_def checked_add_def split: if_splits)

end
