(* ===== verification/Writer.thy ===== *)
theory Writer
  imports Part_Props Buffers
begin

text \<open>
  The writer lane (\<open>crates/runtime/src/writer.rs\<close>): the one thread that owns a part file. Commands
  arrive in order through a bounded queue; adjacent writes that are already queued are joined into
  one. The file is reached through the operations of the \<open>SegmentFile\<close> trait, a parameter of the
  lane; how many commands are already queued when a write is taken is given as a list of numbers.
\<close>

section \<open>The lane\<close>

text \<open>The trait \<open>SegmentFile\<close>.\<close>

record 'f file_ops =
  fo_write_at :: "'f \<Rightarrow> u64 \<Rightarrow> byte list \<Rightarrow> 'f \<times> (StorageError, unit) result"
  fo_sync :: "'f \<Rightarrow> 'f \<times> (StorageError, unit) result"
  fo_hash_range :: "'f \<Rightarrow> byte_range \<Rightarrow> 'f \<times> (StorageError, digest) result"
  fo_verify :: "'f \<Rightarrow> digest option \<Rightarrow> (byte_range \<times> digest) list \<Rightarrow> 'f \<times> (StorageError, digest) result"
  fo_publish :: "'f \<Rightarrow> string \<Rightarrow> 'f \<times> (StorageError, string) result"
  fo_discard :: "'f \<Rightarrow> 'f \<times> (StorageError, unit) result"
  fo_abandon :: "'f \<Rightarrow> 'f"

datatype lane_command =
    LWrite u64 buffer | LSync | LHash byte_range | LVerify "digest option" "(byte_range \<times> digest) list"
  | LPublish string | LDiscard bool

datatype lane_reply = AckUnit "(WriterError, unit) result" | AckDigest "(WriterError, digest) result" | AckPath "(WriterError, string) result"

text \<open>The file, the failure that poisons the lane, and the replies sent so far, each to the sender
  of a command.\<close>

record 'f lane =
  ln_file :: 'f
  ln_failure :: "WriterError option"
  ln_replies :: "(nat \<times> lane_reply) list"

definition writer_start :: "nat \<Rightarrow> 'f \<Rightarrow> (WriterError, 'f lane) result" where
  "writer_start capacity f =
     (if \<not> (1 \<le> capacity \<and> capacity \<le> 256) then Inl WInvalidCapacity
      else Inr \<lparr>ln_file = f, ln_failure = None, ln_replies = []\<rparr>)"

text \<open>What the handles check before a command is sent.\<close>

definition write_admitted :: "part_spec \<Rightarrow> part_spec \<Rightarrow> u64 \<Rightarrow> buffer \<Rightarrow> (WriterError, lane_command) result" where
  "write_admitted own spec offset b =
     (if spec \<noteq> own then Inl WWrongGeneration
      else case checked_add offset (bf_len b) of
        None \<Rightarrow> Inl WBounds
      | Some e \<Rightarrow> if ps_size own < e then Inl WBounds else Inr (LWrite offset b))"

definition hash_admitted :: "part_spec \<Rightarrow> byte_range \<Rightarrow> (WriterError, lane_command) result" where
  "hash_admitted own r = (if ps_size own < br_end r then Inl WBounds else Inr (LHash r))"

text \<open>A poisoned lane answers with its failure and does not touch the file.\<close>

definition guarded :: "('f \<Rightarrow> 'f \<times> (StorageError, 'a) result) \<Rightarrow> 'f lane \<Rightarrow> 'f lane \<times> (WriterError, 'a) result" where
  "guarded op l =
     (case ln_failure l of
        Some e \<Rightarrow> (l, Inl e)
      | None \<Rightarrow> (case op (ln_file l) of (f, r) \<Rightarrow> (l\<lparr>ln_file := f\<rparr>, map_err WStorage r)))"

definition poison :: "(WriterError, 'a) result \<Rightarrow> WriterError option \<Rightarrow> 'f lane \<Rightarrow> 'f lane" where
  "poison r verdict l =
     (case r of Inl e \<Rightarrow> if verdict = Some e then l else l\<lparr>ln_failure := Some e\<rparr> | Inr _ \<Rightarrow> l)"

definition answer :: "nat list \<Rightarrow> lane_reply \<Rightarrow> 'f lane \<Rightarrow> 'f lane" where
  "answer ids x l = l\<lparr>ln_replies := ln_replies l @ map (\<lambda>i. (i, x)) ids\<rparr>"

definition lane_write :: "'f file_ops \<Rightarrow> nat list \<Rightarrow> u64 \<Rightarrow> buffer \<Rightarrow> 'f lane \<Rightarrow> 'f lane" where
  "lane_write ops ids offset b l =
     (case guarded (\<lambda>f. fo_write_at ops f offset (buffer_slice b)) l of
        (l1, r) \<Rightarrow> answer ids (AckUnit r) (poison r None l1))"

definition lane_discard :: "'f file_ops \<Rightarrow> nat \<Rightarrow> bool \<Rightarrow> 'f lane \<Rightarrow> 'f lane" where
  "lane_discard ops i abandon l =
     (case guarded (\<lambda>f. fo_discard ops (if abandon then fo_abandon ops f else f)) l of
        (l1, r) \<Rightarrow> answer [i] (AckUnit r) (l1\<lparr>ln_failure := Some (case r of Inl e \<Rightarrow> e | Inr _ \<Rightarrow> WClosed)\<rparr>))"

text \<open>One command alone. A digest mismatch and a destination conflict are verdicts: they do not
  poison the lane.\<close>

fun lane_step :: "'f file_ops \<Rightarrow> nat \<times> lane_command \<Rightarrow> 'f lane \<Rightarrow> 'f lane" where
  "lane_step ops (i, LWrite offset b) l = lane_write ops [i] offset b l"
| "lane_step ops (i, LSync) l =
     (case guarded (fo_sync ops) l of (l1, r) \<Rightarrow> answer [i] (AckUnit r) (poison r None l1))"
| "lane_step ops (i, LHash q) l =
     (case guarded (\<lambda>f. fo_hash_range ops f q) l of (l1, r) \<Rightarrow> answer [i] (AckDigest r) (poison r None l1))"
| "lane_step ops (i, LDiscard abandon) l = lane_discard ops i abandon l"
| "lane_step ops (i, LPublish path) l =
     (case guarded (\<lambda>f. fo_publish ops f path) l of
        (l1, r) \<Rightarrow> answer [i] (AckPath r) (poison r (Some (WStorage SConflict)) l1))"
| "lane_step ops (i, LVerify expected recs) l =
     (case guarded (\<lambda>f. fo_verify ops f expected recs) l of
        (l1, r) \<Rightarrow> answer [i] (AckDigest r) (poison r (Some (WStorage SIntegrity)) l1))"

text \<open>Joining: only writes already queued, only while each continues the last and still fits the
  first one's block. What does not join stays at the head of the queue.\<close>

fun coalesce :: "nat \<Rightarrow> u64 \<Rightarrow> buffer \<Rightarrow> (nat \<times> lane_command) list \<Rightarrow> buffer \<times> nat list \<times> (nat \<times> lane_command) list" where
  "coalesce (Suc k) offset b ((i, LWrite next c) # cs) =
     (if checked_add offset (bf_len b) \<noteq> Some next then (b, [], (i, LWrite next c) # cs)
      else case buffer_append b c of
        None \<Rightarrow> (b, [], (i, LWrite next c) # cs)
      | Some b' \<Rightarrow> (case coalesce k offset b' cs of (b'', is, rest) \<Rightarrow> (b'', i # is, rest)))"
| "coalesce _ offset b cs = (b, [], cs)"

lemma coalesce_shrinks: "coalesce k offset b cs = (b', is, rest) \<Longrightarrow> length rest \<le> length cs"
  by (induction k offset b cs arbitrary: "is" rest rule: coalesce.induct)
    (auto split: if_splits option.splits prod.splits intro: le_SucI)

function lane_run :: "'f file_ops \<Rightarrow> nat \<Rightarrow> nat list \<Rightarrow> (nat \<times> lane_command) list \<Rightarrow> 'f lane \<Rightarrow> 'f lane" where
  "lane_run ops capacity queued [] l = l"
| "lane_run ops capacity queued ((i, LWrite offset b) # cs) l =
     (case coalesce (min (capacity - 1) (case queued of [] \<Rightarrow> 0 | q # _ \<Rightarrow> q)) offset b cs of
        (b', is, rest) \<Rightarrow> lane_run ops capacity (tl queued) rest (lane_write ops (i # is) offset b' l))"
| "lane_run ops capacity queued ((i, LSync) # cs) l = lane_run ops capacity queued cs (lane_step ops (i, LSync) l)"
| "lane_run ops capacity queued ((i, LHash q) # cs) l = lane_run ops capacity queued cs (lane_step ops (i, LHash q) l)"
| "lane_run ops capacity queued ((i, LVerify x y) # cs) l = lane_run ops capacity queued cs (lane_step ops (i, LVerify x y) l)"
| "lane_run ops capacity queued ((i, LPublish p) # cs) l = lane_run ops capacity queued cs (lane_step ops (i, LPublish p) l)"
| "lane_run ops capacity queued ((i, LDiscard a) # cs) l = lane_run ops capacity queued cs (lane_step ops (i, LDiscard a) l)"
  by pat_completeness auto
termination
  by (relation "measure (\<lambda>(ops, capacity, queued, cs, l). length cs)") (auto dest: sym [THEN coalesce_shrinks])

text \<open>The reference: every command by itself, in order.\<close>

definition serial :: "'f file_ops \<Rightarrow> (nat \<times> lane_command) list \<Rightarrow> 'f lane \<Rightarrow> 'f lane" where
  "serial ops cs l = fold (lane_step ops) cs l"

end
