(* ===== verification/Writer_Props.thy ===== *)
theory Writer_Props
  imports Writer
begin

text \<open>
  The lane answers every command once and in order, refuses everything once it is poisoned, and
  joining adjacent writes cannot be told from writing them one by one. The last rests on what the
  file promises of adjacent writes, stated as a locale and discharged for the part file.
\<close>

section \<open>Answers\<close>

fun reply_ok :: "lane_reply \<Rightarrow> bool" where
  "reply_ok (AckUnit r) \<longleftrightarrow> (\<exists>x. r = Inr x)"
| "reply_ok (AckDigest r) \<longleftrightarrow> (\<exists>x. r = Inr x)"
| "reply_ok (AckPath r) \<longleftrightarrow> (\<exists>x. r = Inr x)"

fun refusal :: "WriterError \<Rightarrow> lane_command \<Rightarrow> lane_reply" where
  "refusal e (LHash _) = AckDigest (Inl e)"
| "refusal e (LVerify _ _) = AckDigest (Inl e)"
| "refusal e (LPublish _) = AckPath (Inl e)"
| "refusal e _ = AckUnit (Inl e)"

lemma write_replies:
  "\<exists>x. ln_replies (lane_write ops ids a b l) = ln_replies l @ map (\<lambda>i. (i, AckUnit x)) ids"
  by (cases "guarded (\<lambda>f. fo_write_at ops f a (buffer_slice b)) l")
    (auto simp: lane_write_def answer_def poison_def guarded_def split: option.splits prod.splits sum.splits)

lemma step_replies: "\<exists>x. ln_replies (lane_step ops c l) = ln_replies l @ [(fst c, x)]"
  by (cases "(ops, c, l)" rule: lane_step.cases)
    (auto simp: lane_write_def lane_discard_def answer_def poison_def guarded_def split: option.splits prod.splits sum.splits)

lemma step_answers: "map fst (ln_replies (lane_step ops c l)) = map fst (ln_replies l) @ [fst c]"
  using step_replies [of ops c l] by auto

lemma coalesce_prefix:
  "coalesce k a b cs = (b', is, rest) \<Longrightarrow>
     \<exists>ws. cs = ws @ rest \<and> map fst ws = is \<and> (\<forall>w \<in> set ws. \<exists>o' c. snd w = LWrite o' c)"
proof (induction k a b cs arbitrary: "is" rule: coalesce.induct)
  case (1 k offset b i next' c cs)
  show ?case
  proof (cases "checked_add offset (bf_len b) = Some next' \<and> buffer_append b c \<noteq> None")
    case False
    then show ?thesis using 1(2) by (auto split: if_splits option.splits)
  next
    case True
    then obtain b2 where b2: "buffer_append b c = Some b2" by auto
    then obtain js where js: "coalesce k offset b2 cs = (b', js, rest)" "is = i # js"
      using 1(2) True by (auto split: prod.splits)
    obtain ws where "cs = ws @ rest" "map fst ws = js" "\<forall>w \<in> set ws. \<exists>o' c. snd w = LWrite o' c"
      using 1(1) [OF _ b2 js(1)] True by auto
    then show ?thesis using js(2) by (intro exI [of _ "(i, LWrite next' c) # ws"]) auto
  qed
qed auto

lemma run_replies: "map fst (ln_replies (lane_run ops capacity queued cs l)) = map fst (ln_replies l) @ map fst cs"
proof (induction ops capacity queued cs l rule: lane_run.induct)
  case (2 ops capacity queued i offset b cs l)
  obtain b' "is" rest where co: "coalesce (min (capacity - 1) (case queued of [] \<Rightarrow> 0 | q # _ \<Rightarrow> q)) offset b cs = (b', is, rest)"
    by (metis surj_pair)
  obtain ws where ws: "cs = ws @ rest" "map fst ws = is" using coalesce_prefix [OF co] by blast
  obtain x where x: "ln_replies (lane_write ops (i # is) offset b' l) = ln_replies l @ map (\<lambda>i. (i, AckUnit x)) (i # is)"
    using write_replies by blast
  have "map fst (map (\<lambda>i. (i, AckUnit x)) (i # is)) = i # is" by (simp add: o_def)
  then have "map fst (ln_replies (lane_write ops (i # is) offset b' l)) = map fst (ln_replies l) @ i # is"
    using x by (metis map_append)
  then show ?case using 2 [OF co [symmetric] refl] co ws by simp
qed (simp_all add: step_answers del: lane_step.simps)

section \<open>A poisoned lane\<close>

lemma step_poisoned:
  assumes "ln_failure l = Some e"
  shows "lane_step ops c l = l\<lparr>ln_replies := ln_replies l @ [(fst c, refusal e (snd c))]\<rparr>"
  using assms by (cases "(ops, c, l)" rule: lane_step.cases)
    (auto simp: lane_write_def lane_discard_def answer_def poison_def guarded_def)

lemma run_poisoned:
  assumes "ln_failure l = Some e"
  shows "lane_run ops capacity queued cs l = l\<lparr>ln_replies := ln_replies l @ map (\<lambda>(i, c). (i, refusal e c)) cs\<rparr>"
  using assms
proof (induction ops capacity queued cs l rule: lane_run.induct)
  case (2 ops capacity queued i offset b cs l)
  obtain b' "is" rest where co: "coalesce (min (capacity - 1) (case queued of [] \<Rightarrow> 0 | q # _ \<Rightarrow> q)) offset b cs = (b', is, rest)"
    by (metis surj_pair)
  obtain ws where ws: "cs = ws @ rest" "map fst ws = is" "\<forall>w \<in> set ws. \<exists>o' c. snd w = LWrite o' c" using coalesce_prefix [OF co] by blast
  have w: "lane_write ops (i # is) offset b' l = l\<lparr>ln_replies := ln_replies l @ map (\<lambda>i. (i, AckUnit (Inl e))) (i # is)\<rparr>"
    using 2(2) by (simp add: lane_write_def answer_def poison_def guarded_def)
  have "map (\<lambda>i. (i, AckUnit (Inl e))) is = map (\<lambda>(i, c). (i, refusal e c)) ws" 
    unfolding ws(2) [symmetric] map_map using ws(3) by (intro map_cong refl) (auto simp: case_prod_unfold)
  then show ?case using 2(1) [OF co [symmetric] refl] co ws(1) w 2(2) by simp
qed (simp_all add: step_poisoned del: lane_step.simps)

section \<open>Joined writes\<close>

fun command_ok :: "lane_command \<Rightarrow> bool" where
  "command_ok (LWrite a b) \<longleftrightarrow> 0 < bf_len b \<and> bf_len b \<le> length (bf_bytes b)"
| "command_ok _ \<longleftrightarrow> True"

definition all_ok :: "'f lane \<Rightarrow> bool" where
  "all_ok l \<longleftrightarrow> (\<forall>x \<in> set (ln_replies l). reply_ok (snd x))"

lemma serial_Nil [simp]: "serial ops [] l = l"
  by (simp add: serial_def)

lemma serial_Cons [simp]: "serial ops (c # cs) l = serial ops cs (lane_step ops c l)"
  by (simp add: serial_def)

lemma serial_append [simp]: "serial ops (cs @ ds) l = serial ops ds (serial ops cs l)"
  by (simp add: serial_def)

lemma step_all_ok: "all_ok (lane_step ops c l) \<Longrightarrow> all_ok l"
  using step_replies [of ops c l] by (auto simp: all_ok_def)

lemma serial_all_ok: "all_ok (serial ops cs l) \<Longrightarrow> all_ok l"
  by (induction cs arbitrary: l) (auto intro: step_all_ok simp del: lane_step.simps)

lemma write_succeeds:
  assumes "all_ok (lane_write ops ids a b l)" "ids \<noteq> []"
  obtains f where "ln_failure l = None" "fo_write_at ops (ln_file l) a (buffer_slice b) = (f, Inr ())"
proof -
  obtain f r where f: "fo_write_at ops (ln_file l) a (buffer_slice b) = (f, r)" by fastforce
  show ?thesis using assms f that
    by (cases ids; cases r) (auto simp: lane_write_def guarded_def answer_def poison_def all_ok_def split: option.splits)
qed

lemma write_result:
  assumes "ln_failure l = None" "fo_write_at ops (ln_file l) a (buffer_slice b) = (f, Inr ())"
  shows "lane_write ops ids a b l = l\<lparr>ln_file := f, ln_replies := ln_replies l @ map (\<lambda>i. (i, AckUnit (Inr ()))) ids\<rparr>"
  using assms by (simp add: lane_write_def guarded_def answer_def poison_def)

text \<open>What the lane relies on: its file stays sound, and two adjacent writes that succeed are one.\<close>

locale segment_file =
  fixes ops :: "'f file_ops" and ok :: "'f \<Rightarrow> bool"
  assumes write_keeps: "ok f \<Longrightarrow> fo_write_at ops f a x = (f', r) \<Longrightarrow> ok f'"
    and sync_keeps: "ok f \<Longrightarrow> fo_sync ops f = (f', r) \<Longrightarrow> ok f'"
    and hash_keeps: "ok f \<Longrightarrow> fo_hash_range ops f q = (f', d) \<Longrightarrow> ok f'"
    and verify_keeps: "ok f \<Longrightarrow> fo_verify ops f expected recs = (f', d) \<Longrightarrow> ok f'"
    and publish_keeps: "ok f \<Longrightarrow> fo_publish ops f path = (f', p) \<Longrightarrow> ok f'"
    and discard_keeps: "ok f \<Longrightarrow> fo_discard ops f = (f', r) \<Longrightarrow> ok f'"
    and abandon_keeps: "ok f \<Longrightarrow> ok (fo_abandon ops f)"
    and write_join: "ok f \<Longrightarrow> x \<noteq> [] \<Longrightarrow> y \<noteq> [] \<Longrightarrow> fo_write_at ops f a x = (g, Inr ()) \<Longrightarrow>
      fo_write_at ops g (a + length x) y = (h, Inr ()) \<Longrightarrow> fo_write_at ops f a (x @ y) = (h, Inr ())"
begin

lemma lane_write_keeps: "ok (ln_file l) \<Longrightarrow> ok (ln_file (lane_write ops ids a b l))"
  by (auto simp: lane_write_def guarded_def answer_def poison_def intro: write_keeps split: option.splits prod.splits sum.splits)

lemma step_keeps: "ok (ln_file l) \<Longrightarrow> ok (ln_file (lane_step ops c l))"
  by (cases "(ops, c, l)" rule: lane_step.cases)
    (auto simp: lane_write_keeps lane_discard_def guarded_def answer_def poison_def
      intro: sync_keeps hash_keeps verify_keeps publish_keeps discard_keeps abandon_keeps
      split: option.splits prod.splits sum.splits)

lemma join_two:
  assumes "ok (ln_file l)" "ids \<noteq> []" "command_ok (LWrite a b)" "command_ok (LWrite a' c)"
    and "checked_add a (bf_len b) = Some a'" "buffer_append b c = Some b'"
    and "all_ok (lane_write ops [j] a' c (lane_write ops ids a b l))"
  shows "lane_write ops [j] a' c (lane_write ops ids a b l) = lane_write ops (ids @ [j]) a b' l"
proof -
  have "lane_write ops [j] a' c k = lane_step ops (j, LWrite a' c) k" for k by simp
  then have "all_ok (lane_write ops ids a b l)" using assms(7) step_all_ok by metis
  then obtain g where g: "ln_failure l = None" "fo_write_at ops (ln_file l) a (buffer_slice b) = (g, Inr ())"
    using write_succeeds assms(2) by blast
  let ?l = "l\<lparr>ln_file := g, ln_replies := ln_replies l @ map (\<lambda>i. (i, AckUnit (Inr ()))) ids\<rparr>"
  have first: "lane_write ops ids a b l = ?l" by (rule write_result [OF g])
  obtain h where h: "fo_write_at ops g a' (buffer_slice c) = (h, Inr ())"
    using write_succeeds [OF assms(7)] unfolding first by auto
  have slices: "buffer_slice b \<noteq> []" "buffer_slice c \<noteq> []" "length (buffer_slice b) = bf_len b"
    using assms(3,4) by (auto simp: buffer_slice_def)
  have a': "a' = a + bf_len b" using assms(5) by (auto simp: checked_add_def split: if_splits)
  have "fo_write_at ops (ln_file l) a (buffer_slice b @ buffer_slice c) = (h, Inr ())"
    using write_join [OF assms(1) slices(1,2) g(2)] h slices(3) a' by simp
  then have "fo_write_at ops (ln_file l) a (buffer_slice b') = (h, Inr ())"
    using append_slice(1) [OF assms(6)] assms(3,4) by simp
  then have "lane_write ops (ids @ [j]) a b' l = l\<lparr>ln_file := h, ln_replies := ln_replies l @ map (\<lambda>i. (i, AckUnit (Inr ()))) (ids @ [j])\<rparr>"
    by (rule write_result [OF g(1)])
  moreover have "lane_write ops [j] a' c ?l = ?l\<lparr>ln_file := h, ln_replies := ln_replies ?l @ map (\<lambda>i. (i, AckUnit (Inr ()))) [j]\<rparr>"
    using g(1) h by (intro write_result) simp_all
  ultimately show ?thesis unfolding first by simp
qed

lemma joined_is_serial:
  assumes "coalesce k a b cs = (b', is, rest)" "command_ok (LWrite a b)" "\<forall>c \<in> set cs. command_ok (snd c)"
    and "ok (ln_file l)" "ids \<noteq> []" "all_ok (serial ops cs (lane_write ops ids a b l))"
  shows "serial ops cs (lane_write ops ids a b l) = serial ops rest (lane_write ops (ids @ is) a b' l)"
  using assms
proof (induction k a b cs arbitrary: "is" ids rule: coalesce.induct)
  case (1 k a b i a' c cs)
  show ?case
  proof (cases "checked_add a (bf_len b) = Some a' \<and> buffer_append b c \<noteq> None")
    case False
    then show ?thesis using 1(2) by (auto split: if_splits option.splits)
  next
    case True
    then obtain b2 where b2: "buffer_append b c = Some b2" by auto
    then obtain js where js: "coalesce k a b2 cs = (b', js, rest)" "is = i # js"
      using 1(2) True by (auto split: prod.splits)
    have c: "command_ok (LWrite a' c)" using 1(4) by simp
    have b2_ok: "command_ok (LWrite a b2)" using append_slice [OF b2] 1(3) c b2
      by (auto simp: buffer_append_def checked_add_def split: if_splits)
    have joined: "lane_write ops [i] a' c (lane_write ops ids a b l) = lane_write ops (ids @ [i]) a b2 l"
      using 1(7) True serial_all_ok by (intro join_two [OF 1(5,6,3) c _ b2]) auto
    have "serial ops cs (lane_write ops (ids @ [i]) a b2 l) = serial ops rest (lane_write ops ((ids @ [i]) @ js) a b' l)"
      using 1(4,7) True by (intro 1(1) [OF _ b2 js(1) b2_ok _ 1(5)]) (auto simp: joined)
    then show ?thesis using js(2) by (simp add: joined)
  qed
qed auto

lemma run_is_serial:
  assumes "ok (ln_file l)" "\<forall>c \<in> set cs. command_ok (snd c)" "all_ok (serial ops cs l)"
  shows "lane_run ops capacity queued cs l = serial ops cs l"
  using assms
proof (induction cs arbitrary: queued l rule: measure_induct_rule [where f = length])
  case (less cs)
  show ?case
  proof (cases cs)
    case (Cons c cs')
    show ?thesis
    proof (cases "\<exists>i a b. c = (i, LWrite a b)")
      case True
      then obtain i a b where c: "c = (i, LWrite a b)" by blast
      obtain b' "is" rest where co: "coalesce (min (capacity - 1) (case queued of [] \<Rightarrow> 0 | q # _ \<Rightarrow> q)) a b cs' = (b', is, rest)"
        by (metis surj_pair)
      obtain ws where ws: "cs' = ws @ rest" using coalesce_prefix [OF co] by blast
      have join: "serial ops cs' (lane_write ops [i] a b l) = serial ops rest (lane_write ops ([i] @ is) a b' l)"
        using less(2-4) Cons c by (intro joined_is_serial [OF co]) auto
      have "lane_run ops capacity (tl queued) rest (lane_write ops (i # is) a b' l) = serial ops rest (lane_write ops (i # is) a b' l)"
        using less(2-4) Cons c ws join by (intro less(1)) (auto intro: lane_write_keeps)
      then show ?thesis using Cons c co join by simp
    next
      case False
      then have "lane_run ops capacity queued cs l = lane_run ops capacity queued cs' (lane_step ops c l)"
        unfolding Cons by (cases c; cases "snd c") auto
      moreover have "lane_run ops capacity queued cs' (lane_step ops c l) = serial ops cs' (lane_step ops c l)"
        using less(2-4) Cons by (intro less(1) step_keeps) auto
      ultimately show ?thesis using Cons by simp
    qed
  qed simp
qed

end

section \<open>The part file as the lane's file\<close>

definition part_ops :: "(byte list \<Rightarrow> digest) \<Rightarrow> publish_world \<Rightarrow> file_part file_ops" where
  "part_ops sha w =
     \<lparr>fo_write_at = write_at, fo_sync = part_sync, fo_hash_range = hash_range sha, fo_verify = part_verify sha,
      fo_publish = part_publish sha w, fo_discard = part_discard, fo_abandon = part_abandon\<rparr>"

text \<open>A sound part on a disk whose calls succeed.\<close>

definition calm :: "file_part \<Rightarrow> bool" where
  "calm f \<longleftrightarrow> part_inv f \<and> fp_os f = []"

lemma calm_call [simp]: "fp_os f = [] \<Longrightarrow> os_call f = (f, OsOk)"
  by (simp add: os_call_def)

lemma calm_hash: "fp_os f = [] \<Longrightarrow> fst (hash_bytes sha f a n) = f"
  by (simp add: hash_bytes_def)

lemma calm_record: "fp_os f = [] \<Longrightarrow> fst (check_record sha f recs) = f"
proof (induction sha f recs rule: check_record.induct)
  case (2 sha f r d rest)
  obtain x where x: "hash_bytes sha f (br_start r) (br_len r) = (f, x)" using calm_hash [OF 2(2)] by (metis prod.collapse)
  then show ?case using 2 by (cases x) (auto simp: x)
qed simp

lemma calm_os:
  assumes "fp_os f = []"
  shows "fp_os (fst (write_at f a bs)) = []" "fp_os (fst (part_sync f)) = []" "fp_os (fst (hash_range sha f q)) = []"
    "fp_os (fst (part_discard f)) = []" "fp_os (part_abandon f) = []"
  using assms by (simp_all add: write_at_def write_bytes_def part_sync_def hash_range_def calm_hash part_discard_def
      part_abandon_def split: sum.split)

lemma calm_verify:
  assumes "fp_os f = []"
  shows "fp_os (fst (part_verify sha f expected recs)) = []"
proof -
  let ?f = "f\<lparr>fp_verified := None\<rparr>"
  have os: "fp_os ?f = []" using assms by simp
  obtain x where x: "check_record sha ?f recs = (?f, x)" using calm_record [OF os] by (metis prod.collapse)
  obtain y where y: "hash_bytes sha ?f 0 (ps_size (fp_spec f)) = (?f, y)" using calm_hash [OF os] by (metis prod.collapse)
  show ?thesis using assms x y by (auto simp: part_verify_def Let_def split: sum.splits if_splits)
qed

lemma calm_publish:
  assumes "fp_os f = []"
  shows "fp_os (fst (part_publish sha w f path)) = []"
  using assms by (auto simp: part_publish_def seal_def publish_staged_def finish_publish_def split: sum.splits option.splits)

lemma spaced_Cons: "spaced n (x # xs) \<longleftrightarrow> range_ok x \<and> br_end x \<le> n \<and> (\<forall>y \<in> set xs. br_end x < br_start y) \<and> spaced n xs"
  by (auto simp: spaced_def)

lemma spaced_head:
  assumes "spaced n (x # xs)"
  shows "(LEAST b. b \<in> ranges_bytes (x # xs)) = br_start x" "(LEAST b. br_start x \<le> b \<and> b \<notin> ranges_bytes (x # xs)) = br_end x"
    "ranges_bytes xs = ranges_bytes (x # xs) - bytes_of x"
proof -
  have x: "br_start x < br_end x" and xs: "\<And>b. b \<in> ranges_bytes xs \<Longrightarrow> br_end x < b"
    using assms by (fastforce simp: spaced_Cons range_ok_def ranges_bytes_def bytes_of_def)+
  show "(LEAST b. b \<in> ranges_bytes (x # xs)) = br_start x"
    using x xs by (intro Least_equality) (auto simp: bytes_of_def dest: xs)
  show "(LEAST b. br_start x \<le> b \<and> b \<notin> ranges_bytes (x # xs)) = br_end x"
    using x xs by (intro Least_equality) (auto simp: bytes_of_def not_less dest: xs)
  show "ranges_bytes xs = ranges_bytes (x # xs) - bytes_of x"
    using xs by (auto simp: bytes_of_def dest: xs)
qed

text \<open>The canonical form is unique: a coverage is determined by its bytes.\<close>

lemma spaced_unique: "spaced n xs \<Longrightarrow> spaced n ys \<Longrightarrow> ranges_bytes xs = ranges_bytes ys \<Longrightarrow> xs = ys"
proof (induction xs arbitrary: ys)
  case Nil
  then show ?case by (cases ys) (auto simp: spaced_Cons range_ok_def bytes_of_def)
next
  case (Cons x xs)
  show ?case
  proof (cases ys)
    case Nil
    then show ?thesis using Cons.prems by (auto simp: spaced_Cons range_ok_def bytes_of_def)
  next
    case (Cons y ys')
    note hx = spaced_head [OF Cons.prems(1)] and hy = spaced_head [OF Cons.prems(2) [unfolded Cons]]
    have same: "ranges_bytes (x # xs) = ranges_bytes (y # ys')" using Cons.prems(3) Cons by simp
    have "br_start x = br_start y" using hx(1) hy(1) same by metis
    moreover then have "br_end x = br_end y" using hx(2) hy(2) same by metis
    ultimately have "x = y" by simp
    moreover have "xs = ys'"
      using Cons.prems Cons hx(3) hy(3) same \<open>x = y\<close> by (intro Cons.IH) (auto simp: spaced_Cons simp del: ranges_bytes_simps)
    ultimately show ?thesis using Cons by simp
  qed
qed

lemma overwrite_join: "overwrite (overwrite xs a x) (a + length x) y = overwrite xs a (x @ y)"
  by (simp add: overwrite_def min_def add.commute add.left_commute, arith)

lemma coverage_join:
  assumes "spaced n cov" "n \<le> I64_MAX" "a < b" "b < c" "c \<le> n"
    and "coverage_plan cov \<lparr>br_start = a, br_end = b\<rparr> = Inr p"
    and "coverage_plan (add_coverage cov p) \<lparr>br_start = b, br_end = c\<rparr> = Inr q"
  obtains z where "coverage_plan cov \<lparr>br_start = a, br_end = c\<rparr> = Inr z" "add_coverage cov z = add_coverage (add_coverage cov p) q"
proof -
  have ok: "range_ok \<lparr>br_start = a, br_end = b\<rparr>" "range_ok \<lparr>br_start = b, br_end = c\<rparr>" "range_ok \<lparr>br_start = a, br_end = c\<rparr>"
    using assms(2-5) by (auto simp: range_ok_def)
  note one = coverage_plan_ok [OF assms(1) ok(1) _ assms(6)]
  have one_spaced: "spaced n (add_coverage cov p)" using one(1) assms(4,5) by simp
  note two = coverage_plan_ok [OF one_spaced ok(2) _ assms(7)]
  obtain z where z: "coverage_plan cov \<lparr>br_start = a, br_end = c\<rparr> = (if MAX_EXTENTS < length (add_coverage cov z) then Inl SBounds else Inr z)"
    "spaced n (add_coverage cov z)" "ranges_bytes (add_coverage cov z) = ranges_bytes cov \<union> bytes_of \<lparr>br_start = a, br_end = c\<rparr>"
    using coverage_merge [OF assms(1) ok(3)] assms(5) by auto
  have "ranges_bytes (add_coverage (add_coverage cov p) q) = ranges_bytes (add_coverage cov z)"
    using one(2) two(2) z(3) assms(3-5) by (auto simp: bytes_of_def)
  then have "add_coverage cov z = add_coverage (add_coverage cov p) q"
    using spaced_unique z(2) two(1) assms(5) by simp
  moreover from this have "length (add_coverage cov z) \<le> MAX_EXTENTS" using two(3) assms(5) by simp
  ultimately show ?thesis using z(1) that by simp
qed

text \<open>What a write that succeeds met and did, on a disk whose calls succeed.\<close>

lemma calm_write:
  assumes "fp_os f = []" "bs \<noteq> []"
  shows "write_at f a bs = (g, Inr ()) \<longleftrightarrow>
    \<not> fp_poisoned f \<and> \<not> fp_sealed f \<and> a + length bs \<le> ps_size (fp_spec f) \<and> a + length bs \<le> I64_MAX \<and>
    \<not> overlaps_protected f \<lparr>br_start = a, br_end = a + length bs\<rparr> \<and>
    (\<exists>p. coverage_plan (fp_coverage f) \<lparr>br_start = a, br_end = a + length bs\<rparr> = Inr p \<and>
      g = f\<lparr>fp_poisoned := False, fp_synchronized := False, fp_verified := None, fp_file := overwrite (fp_file f) a bs,
            fp_coverage := add_coverage (fp_coverage f) p\<rparr>)"
proof -
  have range: "part_range f a (length bs) = (if a + length bs \<le> ps_size (fp_spec f) \<and> a + length bs \<le> I64_MAX
      then Inr \<lparr>br_start = a, br_end = a + length bs\<rparr> else Inl SBounds)"
    using assms(2) order_trans [OF _ I64_le_U64, of "a + length bs"]
    by (auto simp: part_range_def checked_add_def byte_range_new_def res_simps)
  show ?thesis using assms by (auto simp: write_at_def range write_bytes_def split: sum.splits)
qed

lemma part_write_join:
  assumes "calm f" "x \<noteq> []" "y \<noteq> []" "write_at f a x = (g, Inr ())" "write_at g (a + length x) y = (h, Inr ())"
  shows "write_at f a (x @ y) = (h, Inr ())"
proof -
  let ?e = "a + length x" let ?n = "ps_size (fp_spec f)"
  have f: "part_inv f" "fp_os f = []" using assms(1) by (simp_all add: calm_def)
  obtain p where p: "\<not> fp_poisoned f" "\<not> fp_sealed f" "\<not> overlaps_protected f \<lparr>br_start = a, br_end = ?e\<rparr>"
    "coverage_plan (fp_coverage f) \<lparr>br_start = a, br_end = ?e\<rparr> = Inr p"
    and g: "g = f\<lparr>fp_poisoned := False, fp_synchronized := False, fp_verified := None, fp_file := overwrite (fp_file f) a x,
            fp_coverage := add_coverage (fp_coverage f) p\<rparr>"
    using assms(4) calm_write [OF f(2) assms(2)] by auto
  have os: "fp_os g = []" using f(2) g by simp
  obtain q where q: "?e + length y \<le> ?n" "?e + length y \<le> I64_MAX" "\<not> overlaps_protected f \<lparr>br_start = ?e, br_end = ?e + length y\<rparr>"
    "coverage_plan (add_coverage (fp_coverage f) p) \<lparr>br_start = ?e, br_end = ?e + length y\<rparr> = Inr q"
    and h: "h = f\<lparr>fp_poisoned := False, fp_synchronized := False, fp_verified := None,
            fp_file := overwrite (fp_file f) a (x @ y), fp_coverage := add_coverage (add_coverage (fp_coverage f) p) q\<rparr>"
    using assms(5) calm_write [OF os assms(3)] by (auto simp: g overlaps_protected_def overwrite_join)
  have inv: "spaced ?n (fp_coverage f)" "?n \<le> I64_MAX" "\<forall>r \<in> set (fp_protected f). br_start r < br_end r"
    using f(1) by (auto simp: part_inv_def range_ok_def)
  obtain z where z: "coverage_plan (fp_coverage f) \<lparr>br_start = a, br_end = ?e + length y\<rparr> = Inr z"
    "add_coverage (fp_coverage f) z = add_coverage (add_coverage (fp_coverage f) p) q"
    using coverage_join [OF inv(1,2) _ _ q(1) p(4) q(4)] assms(2,3) by auto
  have "\<not> overlaps_protected f \<lparr>br_start = a, br_end = ?e + length y\<rparr>"
    using p(3) q(3) inv(3) unfolding overlaps_protected_def list_ex_iff by (metis byte_range.select_convs le_less_trans not_less)
  then show ?thesis
    using p(1,2) q(1,2) z h by (subst calm_write [OF f(2)]) (auto simp: add.assoc assms(2))
qed

lemma calm_step: "calm f \<Longrightarrow> part_step sha f X f' \<Longrightarrow> fp_os f' = [] \<Longrightarrow> calm f'"
  using step_handles_well [of sha f X f'] by (simp add: calm_def handles_well_def)

interpretation part: segment_file "part_ops sha w" calm
proof
  fix f f' :: file_part
  assume f: "calm f"
  then have os: "fp_os f = []" by (simp add: calm_def)
  show "calm f'" if "fo_write_at (part_ops sha w) f a x = (f', r)" for a x r
    using that f write_handles_well [of f a x f' r sha] calm_os(1) [OF os, of a x] by (auto simp: calm_def part_ops_def handles_well_def)
  show "calm f'" if "fo_sync (part_ops sha w) f = (f', r)" for r
    using that calm_os(2) [OF os] by (intro calm_step [OF f ps_sync]) (auto simp: part_ops_def)
  show "calm f'" if "fo_hash_range (part_ops sha w) f q = (f', d)" for q d
    using that calm_os(3) [OF os, of sha q] by (intro calm_step [OF f ps_hash]) (auto simp: part_ops_def)
  show "calm f'" if "fo_verify (part_ops sha w) f expected recs = (f', d)" for expected recs d
    using that calm_verify [OF os, of sha expected recs] by (intro calm_step [OF f ps_verify]) (auto simp: part_ops_def)
  show "calm f'" if "fo_publish (part_ops sha w) f path = (f', p)" for path p
    using that calm_publish [OF os, of sha w path] by (intro calm_step [OF f ps_publish]) (auto simp: part_ops_def)
  show "calm f'" if "fo_discard (part_ops sha w) f = (f', r)" for r
    using that calm_os(4) [OF os] by (intro calm_step [OF f ps_discard]) (auto simp: part_ops_def)
  show "calm (fo_abandon (part_ops sha w) f)"
    using calm_os(5) [OF os] by (simp add: part_ops_def calm_step [OF f ps_abandon])
next
  fix f g h :: file_part and x y a
  assume "calm f" "x \<noteq> []" "y \<noteq> []" "fo_write_at (part_ops sha w) f a x = (g, Inr ())"
    "fo_write_at (part_ops sha w) g (a + length x) y = (h, Inr ())"
  then show "fo_write_at (part_ops sha w) f a (x @ y) = (h, Inr ())" by (simp add: part_ops_def part_write_join)
qed

section \<open>Properties\<close>


definition sample_commands :: "(nat \<times> lane_command) list" where
  "sample_commands = [(7, LWrite 0 \<lparr>bf_bytes = ''abxx'', bf_len = 2\<rparr>), (8, LWrite 2 \<lparr>bf_bytes = ''cdxx'', bf_len = 2\<rparr>), (9, LSync)]"

definition sample_lane :: "file_part lane" where
  "sample_lane = \<lparr>ln_file = sample_handle, ln_failure = None, ln_replies = []\<rparr>"

lemma sample_first_write: "write_at sample_handle 0 ''ab'' =
  (sample_handle\<lparr>fp_file := ''ab'' @ replicate 2 (CHR 0x00), fp_coverage := [\<lparr>br_start = 0, br_end = 2\<rparr>], fp_synchronized := False\<rparr>, Inr ())"
  by (simp add: write_at_def part_range_def checked_add_def byte_range_new_def overlaps_protected_def coverage_plan_def
      add_coverage_def write_bytes_def MAX_EXTENTS_def width_simps Let_def overwrite_def sample_part_defs)

lemma sample_second_write: "write_at (sample_handle\<lparr>fp_file := ''ab'' @ replicate 2 (CHR 0x00), fp_coverage := [\<lparr>br_start = 0, br_end = 2\<rparr>], fp_synchronized := False\<rparr>) 2 ''cd'' =
  (sample_written False None, Inr ())"
  by (simp add: write_at_def part_range_def checked_add_def byte_range_new_def overlaps_protected_def coverage_plan_def
      add_coverage_def write_bytes_def MAX_EXTENTS_def width_simps Let_def overwrite_def sample_part_defs)

lemma sample_serial: "serial (part_ops sha w) sample_commands sample_lane =
  \<lparr>ln_file = sample_written True None, ln_failure = None, ln_replies = map (\<lambda>i. (i, AckUnit (Inr ()))) [7, 8, 9]\<rparr>"
  using sample_first_write sample_second_write sample_part_ops(2)
  by (simp add: sample_commands_def sample_lane_def lane_write_def guarded_def answer_def poison_def part_ops_def buffer_slice_def)


end
