(* ===== verification/Protocol.thy ===== *)
theory Protocol
  imports FHD_Prelude
begin

text \<open>
  The wire contract between the engine and its clients (\<open>crates/protocol/src/lib.rs\<close>) and the loops
  on both sides of it (\<open>crates/adapters/ipc/src/lib.rs\<close>). A frame is a four-byte big-endian length
  and that many bytes of JSON. The JSON library is a parameter of what encodes and decodes; a
  \<open>String\<close> is its bytes.
\<close>

section \<open>Messages\<close>

definition MAX_FRAME :: usize where "MAX_FRAME = 256 * 1024"
definition VERSION :: u16 where "VERSION = 1"
definition MAX_URL :: usize where "MAX_URL = 16384"
definition MAX_PATH :: usize where "MAX_PATH = 32768"
definition MAX_JOBS_PER_PAGE :: usize where "MAX_JOBS_PER_PAGE = 512"
definition MAX_READ :: usize where "MAX_READ = 64 * 1024"

datatype ProtocolError = PTooLarge | PMalformed | PUnsupportedVersion u16 | PInvalid

fun protocol_code :: "ProtocolError \<Rightarrow> string" where
  "protocol_code PTooLarge = ''IPC-TOO-LARGE''"
| "protocol_code PMalformed = ''IPC-MALFORMED''"
| "protocol_code (PUnsupportedVersion _) = ''IPC-VERSION''"
| "protocol_code PInvalid = ''IPC-INVALID''"

record add_request =
  ar_url :: string
  ar_destination :: string
  ar_sensitive :: bool
  ar_expected_sha256 :: "string option"
  ar_max_bytes :: u64
  ar_allow_http :: bool

datatype Request = RAdd add_request | RList "u64 option" | RPause u64 | RResume u64 | RCancel u64 | RShutdown

record job_summary =
  jm_job :: u64
  jm_state :: string
  jm_reason :: "string option"
  jm_durable_bytes :: u64
  jm_total :: "u64 option"

datatype Response = Accepted u64 | Jobs "job_summary list" "u64 option" | Done | Failed string

definition hex_lower :: "byte \<Rightarrow> bool" where
  "hex_lower c \<longleftrightarrow> of_char c \<in> {48..57::nat} \<or> of_char c \<in> {97..102::nat}"

fun check_request :: "Request \<Rightarrow> (ProtocolError, unit) result" where
  "check_request (RAdd a) =
     (if ar_url a = [] \<or> MAX_URL < length (ar_url a) \<or> ar_destination a = [] \<or> MAX_PATH < length (ar_destination a) \<or>
         ar_max_bytes a = 0 then Inl PInvalid
      else case ar_expected_sha256 a of
        Some hex \<Rightarrow> if length hex \<noteq> 64 \<or> \<not> list_all hex_lower hex then Inl PInvalid else Inr ()
      | None \<Rightarrow> Inr ())"
| "check_request (RPause job) = (if job = 0 then Inl PInvalid else Inr ())"
| "check_request (RResume job) = (if job = 0 then Inl PInvalid else Inr ())"
| "check_request (RCancel job) = (if job = 0 then Inl PInvalid else Inr ())"
| "check_request (RList after) = (if after = Some 0 then Inl PInvalid else Inr ())"
| "check_request RShutdown = Inr ()"

fun check_response :: "Response \<Rightarrow> (ProtocolError, unit) result" where
  "check_response (Accepted job) = (if job = 0 then Inl PInvalid else Inr ())"
| "check_response (Jobs jobs _) =
     (if MAX_JOBS_PER_PAGE < length jobs then Inl PInvalid
      else if list_ex (\<lambda>j. jm_job j = 0) jobs then Inl PInvalid else Inr ())"
| "check_response (Failed code) = (if code = [] \<or> 64 < length code then Inl PInvalid else Inr ())"
| "check_response Done = Inr ()"

section \<open>Frames\<close>

record 'a envelope =
  en_v :: u16
  en_id :: u64
  en_body :: 'a

text \<open>What is used of the JSON library: writing an envelope, and reading only its version or all
  of it.\<close>

record 'a json =
  to_vec :: "'a envelope \<Rightarrow> byte list option"
  version_only :: "byte list \<Rightarrow> u16 option"
  from_slice :: "byte list \<Rightarrow> 'a envelope option"

definition be_bytes4 :: "nat \<Rightarrow> byte list" where
  "be_bytes4 n = rev (le_bytes 4 n)"

definition from_be_bytes :: "byte list \<Rightarrow> nat" where
  "from_be_bytes bs = from_le_bytes (rev bs)"

definition encode :: "'a json \<Rightarrow> ('a \<Rightarrow> (ProtocolError, unit) result) \<Rightarrow> u64 \<Rightarrow> 'a \<Rightarrow> (ProtocolError, byte list) result" where
  "encode js chk i body =
     res_bind (chk body) (\<lambda>_.
     res_bind (ok_or (to_vec js \<lparr>en_v = VERSION, en_id = i, en_body = body\<rparr>) PMalformed) (\<lambda>text.
     if MAX_FRAME < length text then Inl PTooLarge
     else if U32_MAX < length text then Inl PTooLarge
     else Inr (be_bytes4 (length text) @ text)))"

definition decode :: "'a json \<Rightarrow> ('a \<Rightarrow> (ProtocolError, unit) result) \<Rightarrow> byte list \<Rightarrow> (ProtocolError, u64 \<times> 'a) result" where
  "decode js chk frame =
     (if MAX_FRAME < length frame then Inl PTooLarge
      else
      res_bind (ok_or (version_only js frame) PMalformed) (\<lambda>v.
      if v \<noteq> VERSION then Inl (PUnsupportedVersion v)
      else
      res_bind (ok_or (from_slice js frame) PMalformed) (\<lambda>e.
      res_bind (chk (en_body e)) (\<lambda>_. Inr (en_id e, en_body e)))))"

definition declared :: "byte list \<Rightarrow> (ProtocolError, nat option) result" where
  "declared buffer =
     (if length buffer < 4 then Inr None
      else let n = from_be_bytes (take 4 buffer) in
      if n = 0 then Inl PMalformed
      else if MAX_FRAME < n then Inl PTooLarge
      else Inr (Some n))"

definition frames_push :: "byte list \<Rightarrow> byte list \<Rightarrow> byte list \<times> (ProtocolError, unit) result" where
  "frames_push buffer bytes =
     (if 4 + MAX_FRAME + MAX_READ < saturating_add (length buffer) (length bytes) then (buffer, Inl PTooLarge)
      else (buffer @ bytes, res_bind (declared (buffer @ bytes)) (\<lambda>_. Inr ())))"

definition next_frame :: "byte list \<Rightarrow> byte list \<times> (ProtocolError, byte list option) result" where
  "next_frame buffer =
     (case declared buffer of
        Inl e \<Rightarrow> (buffer, Inl e)
      | Inr None \<Rightarrow> (buffer, Inr None)
      | Inr (Some n) \<Rightarrow>
          if length buffer < 4 + n then (buffer, Inr None)
          else (drop (4 + n) buffer, Inr (Some (take n (drop 4 buffer)))))"

section \<open>The server's loop and the client's\<close>

text \<open>A handler answers, or does not within its time. A write completes, or does not within its.\<close>

record ipc_world =
  iw_handle :: "Request \<Rightarrow> Response option"
  iw_write_times_out :: "nat \<Rightarrow> bool"

definition request_answer :: "Request json \<Rightarrow> ipc_world \<Rightarrow> byte list \<Rightarrow> u64 \<times> Response" where
  "request_answer rq w frame =
     (case decode rq check_request frame of
        Inr (i, request) \<Rightarrow> (i, case iw_handle w request of Some r \<Rightarrow> r | None \<Rightarrow> Failed ''ENGINE-BUSY'')
      | Inl e \<Rightarrow> (0, Failed (protocol_code e)))"

definition answer_bytes :: "Response json \<Rightarrow> u64 \<times> Response \<Rightarrow> byte list option" where
  "answer_bytes rs a =
     (case encode rs check_response (fst a) (snd a) of
        Inr bytes \<Rightarrow> Some bytes
      | Inl _ \<Rightarrow> (case encode rs check_response (fst a) (Failed ''IPC-INTERNAL'') of Inr bytes \<Rightarrow> Some bytes | Inl _ \<Rightarrow> None))"

text \<open>The inner loop: answer every whole frame. The result is what is left of the buffer, or
  nothing when the connection ends, and the answers sent.\<close>

lemma next_frame_shrinks: "next_frame buffer = (buffer', Inr (Some frame)) \<Longrightarrow> length buffer' < length buffer"
  by (auto simp: next_frame_def declared_def Let_def split: sum.splits option.splits if_splits)

function answer_frames :: "Request json \<Rightarrow> Response json \<Rightarrow> ipc_world \<Rightarrow> byte list \<Rightarrow> byte list list \<Rightarrow> byte list option \<times> byte list list" where
  "answer_frames rq rs w buffer sent =
     (case next_frame buffer of
        (_, Inl _) \<Rightarrow> (None, sent)
      | (buffer', Inr None) \<Rightarrow> (Some buffer', sent)
      | (buffer', Inr (Some frame)) \<Rightarrow>
          (case answer_bytes rs (request_answer rq w frame) of
             None \<Rightarrow> (None, sent)
           | Some bytes \<Rightarrow>
               if iw_write_times_out w (length sent) then (None, sent)
               else answer_frames rq rs w buffer' (sent @ [bytes])))"
  by pat_completeness auto
termination
  by (relation "measure (\<lambda>(rq, rs, w, buffer, sent). length buffer)") (auto dest: sym [THEN next_frame_shrinks])

declare answer_frames.simps [simp del]

text \<open>What a read brings. A server treats the end of the stream, a failure and the passing of its
  deadline alike: it stops.\<close>

datatype io_kind = TimedOut | UnexpectedEof | OtherIo

datatype read = ReadBytes "byte list" | ReadFails io_kind

fun serve_client :: "Request json \<Rightarrow> Response json \<Rightarrow> ipc_world \<Rightarrow> read list \<Rightarrow> byte list \<Rightarrow> byte list list \<Rightarrow> byte list option \<times> byte list list" where
  "serve_client rq rs w [] buffer sent = (Some buffer, sent)"
| "serve_client rq rs w (ReadFails _ # reads) buffer sent = (None, sent)"
| "serve_client rq rs w (ReadBytes chunk # reads) buffer sent =
     (if chunk = [] then (None, sent)
      else case frames_push buffer chunk of
        (_, Inl _) \<Rightarrow> (None, sent)
      | (buffer1, Inr _) \<Rightarrow>
          (case answer_frames rq rs w buffer1 sent of
             (None, sent') \<Rightarrow> (None, sent')
           | (Some buffer2, sent') \<Rightarrow> serve_client rq rs w reads buffer2 sent'))"

datatype IpcError = ITaken | IUntrusted | IProtocol ProtocolError | IIo io_kind

fun ipc_code :: "IpcError \<Rightarrow> string" where
  "ipc_code ITaken = ''IPC-ENDPOINT-TAKEN''"
| "ipc_code IUntrusted = ''IPC-ENDPOINT-UNTRUSTED''"
| "ipc_code (IProtocol e) = protocol_code e"
| "ipc_code (IIo _) = ''IPC-IO''"

text \<open>The client reads until one frame is whole; no more reads means its budget is over.\<close>

fun await_answer :: "Response json \<Rightarrow> u64 \<Rightarrow> read list \<Rightarrow> byte list \<Rightarrow> (IpcError, Response) result" where
  "await_answer rs i [] buffer = Inl (IIo TimedOut)"
| "await_answer rs i (ReadFails kind # reads) buffer = Inl (IIo kind)"
| "await_answer rs i (ReadBytes chunk # reads) buffer =
     (if chunk = [] then Inl (IIo UnexpectedEof)
      else case frames_push buffer chunk of
        (_, Inl e) \<Rightarrow> Inl (IProtocol e)
      | (buffer1, Inr _) \<Rightarrow>
          (case next_frame buffer1 of
             (_, Inl e) \<Rightarrow> Inl (IProtocol e)
           | (buffer2, Inr None) \<Rightarrow> await_answer rs i reads buffer2
           | (_, Inr (Some frame)) \<Rightarrow>
               res_bind (map_err IProtocol (decode rs check_response frame)) (\<lambda>(answered, response).
               if answered \<noteq> i then Inl (IProtocol PMalformed) else Inr response)))"

text \<open>One exchange: what is written, if the write completes, and the answer to it.\<close>

definition ask :: "Request json \<Rightarrow> Response json \<Rightarrow> u64 \<Rightarrow> Request \<Rightarrow> (io_kind, unit) result \<Rightarrow> read list \<Rightarrow>
  (IpcError, Response) result" where
  "ask rq rs i request written reads =
     res_bind (map_err IProtocol (encode rq check_request i request)) (\<lambda>_.
     res_bind (map_err IIo written) (\<lambda>_. await_answer rs i reads []))"

end
