(* ===== verification/Protocol_Props.thy ===== *)
theory Protocol_Props
  imports Protocol
begin

text \<open>
  Reassembly: however the stream of frames is split into reads, the frames come out whole and in
  order; what is not a frame is refused at its header; and a request asked over the surface gets
  the handler's answer.
\<close>

section \<open>Framing\<close>

definition frame_ok :: "byte list \<Rightarrow> bool" where
  "frame_ok f \<longleftrightarrow> 0 < length f \<and> length f \<le> MAX_FRAME"

definition framed :: "byte list \<Rightarrow> byte list" where
  "framed f = be_bytes4 (length f) @ f"

definition wire :: "byte list list \<Rightarrow> byte list" where
  "wire fs = concat (map framed fs)"

lemma wire_simps [simp]: "wire [] = []" "wire (f # fs) = framed f @ wire fs"
  by (simp_all add: wire_def)

lemma be_bytes4_length [simp]: "length (be_bytes4 n) = 4"
  by (simp add: be_bytes4_def)

lemma from_be_bytes4: "n \<le> MAX_FRAME \<Longrightarrow> from_be_bytes (be_bytes4 n) = n"
  by (simp add: from_be_bytes_def be_bytes4_def MAX_FRAME_def)

lemma framed_length [simp]: "length (framed f) = 4 + length f"
  by (simp add: framed_def)

lemma framed_not_Nil [simp]: "framed f \<noteq> []"
  by (metis add_is_0 framed_length list.size(3) zero_neq_numeral)

text \<open>The header is all that decides: a prefix of a frame announces its length once four bytes are
  there.\<close>

lemma declared_prefix:
  assumes "frame_ok f" "b @ c = framed f @ rest"
  shows "declared b = Inr (if length b < 4 then None else Some (length f))"
proof (cases "length b < 4")
  case False
  then have "take 4 b = take 4 (b @ c)" by simp
  also have "\<dots> = be_bytes4 (length f)" by (simp add: assms(2) framed_def)
  finally show ?thesis using False assms(1) by (simp add: declared_def frame_ok_def from_be_bytes4)
qed (simp add: declared_def)

lemma next_frame_whole: "frame_ok f \<Longrightarrow> next_frame (framed f @ rest) = (rest, Inr (Some f))"
  using declared_prefix [of f "framed f @ rest" "[]" rest] by (simp add: next_frame_def) (simp add: framed_def)

lemma next_frame_partial:
  assumes "frame_ok f" "b @ c = framed f @ rest" "length b < 4 + length f"
  shows "next_frame b = (b, Inr None)"
  using declared_prefix [OF assms(1,2)] assms(3) by (simp add: next_frame_def)

text \<open>What is left of a buffer after every whole frame was taken: less than one more frame.\<close>

definition partial_frame :: "byte list \<Rightarrow> byte list list \<Rightarrow> bool" where
  "partial_frame b fs \<longleftrightarrow> (case fs of [] \<Rightarrow> b = [] | f # _ \<Rightarrow> length b < 4 + length f)"

lemma push_ok:
  assumes "partial_frame b fs" "\<forall>f \<in> set fs. frame_ok f" "(b @ x) @ c = wire fs" "length x \<le> MAX_READ"
  shows "frames_push b x = (b @ x, Inr ())"
proof -
  have len: "length b + length x \<le> 4 + MAX_FRAME + MAX_READ"
    using assms(1,2,4) by (auto simp: partial_frame_def frame_ok_def split: list.splits)
  have "\<exists>y. declared (b @ x) = Inr y"
  proof (cases fs)
    case Nil
    then show ?thesis using assms(3) by (simp add: declared_def)
  next
    case (Cons f fs')
    then show ?thesis using declared_prefix [of f "b @ x" c "wire fs'"] assms(2,3) by simp
  qed
  then show ?thesis using len by (auto simp: frames_push_def saturating_add_def min_def)
qed

section \<open>The server\<close>

definition answer_of :: "Request json \<Rightarrow> Response json \<Rightarrow> ipc_world \<Rightarrow> byte list \<Rightarrow> byte list" where
  "answer_of rq rs w f = the (answer_bytes rs (request_answer rq w f))"

lemma answer_frames_wire:
  assumes "\<forall>f \<in> set fs. frame_ok f \<and> answer_bytes rs (request_answer rq w f) \<noteq> None" "\<forall>n. \<not> iw_write_times_out w n"
    and "b @ c = wire fs"
  shows "\<exists>fs1 fs2 b'. fs = fs1 @ fs2 \<and> b' @ c = wire fs2 \<and> partial_frame b' fs2 \<and>
    answer_frames rq rs w b sent = (Some b', sent @ map (answer_of rq rs w) fs1)"
  using assms(1,3)
proof (induction fs arbitrary: b sent)
  case Nil
  then show ?case by (intro exI [of _ "[]"]) (simp add: partial_frame_def answer_frames.simps next_frame_def declared_def)
next
  case (Cons f fs)
  have f: "frame_ok f" "answer_bytes rs (request_answer rq w f) = Some (answer_of rq rs w f)"
    using Cons.prems(1) by (auto simp: answer_of_def)
  show ?case
  proof (cases "length b < 4 + length f")
    case True
    then have "next_frame b = (b, Inr None)" using next_frame_partial [of f b c "wire fs"] f Cons.prems(2) by simp
    then show ?thesis using True Cons.prems(2)
      by (intro exI [of _ "[]"] exI [of _ "f # fs"] exI [of _ b]) (simp add: partial_frame_def answer_frames.simps)
  next
    case False
    define b2 where "b2 = drop (4 + length f) b"
    have "take (4 + length f) b = framed f" "b2 @ c = wire fs"
      using False arg_cong [OF Cons.prems(2), of "take (4 + length f)"] arg_cong [OF Cons.prems(2), of "drop (4 + length f)"]
      by (simp_all add: b2_def)
    then have b2: "b = framed f @ b2" "b2 @ c = wire fs" by (metis append_take_drop_id b2_def)+
    obtain fs1 fs2 b' where ih: "fs = fs1 @ fs2" "b' @ c = wire fs2" "partial_frame b' fs2"
      "answer_frames rq rs w b2 (sent @ [answer_of rq rs w f]) = (Some b', (sent @ [answer_of rq rs w f]) @ map (answer_of rq rs w) fs1)"
      using Cons.IH [of b2 "sent @ [answer_of rq rs w f]"] Cons.prems(1) b2(2) by auto
    have "answer_frames rq rs w b sent = answer_frames rq rs w b2 (sent @ [answer_of rq rs w f])"
      unfolding b2(1) using f assms(2) by (subst answer_frames.simps) (simp add: next_frame_whole)
    then show ?thesis using ih by (intro exI [of _ "f # fs1"] exI [of _ fs2] exI [of _ b']) simp
  qed
qed

definition reads_ok :: "byte list list \<Rightarrow> bool" where
  "reads_ok xs \<longleftrightarrow> (\<forall>x \<in> set xs. x \<noteq> [] \<and> length x \<le> 16 * 1024)"

lemma serve_client_wire:
  assumes "\<forall>f \<in> set fs. frame_ok f \<and> answer_bytes rs (request_answer rq w f) \<noteq> None" "\<forall>n. \<not> iw_write_times_out w n"
    and "b @ concat xs = wire fs" "partial_frame b fs" "reads_ok xs"
  shows "serve_client rq rs w (map ReadBytes xs) b sent = (Some [], sent @ map (answer_of rq rs w) fs)"
  using assms(1,3-5)
proof (induction xs arbitrary: b fs sent)
  case Nil
  then have "fs = []" by (cases fs) (auto simp: partial_frame_def)
  then show ?case using Nil by simp
next
  case (Cons x xs)
  have x: "x \<noteq> []" "length x \<le> MAX_READ" using Cons.prems(4) by (auto simp: reads_ok_def MAX_READ_def)
  have push: "frames_push b x = (b @ x, Inr ())"
    using Cons.prems x by (intro push_ok [of b fs x "concat xs"]) auto
  obtain fs1 fs2 b' where split: "fs = fs1 @ fs2" "b' @ concat xs = wire fs2" "partial_frame b' fs2"
    "answer_frames rq rs w (b @ x) sent = (Some b', sent @ map (answer_of rq rs w) fs1)"
    using answer_frames_wire [of fs rs rq w "b @ x" "concat xs" sent] Cons.prems assms(2) by auto
  have "serve_client rq rs w (map ReadBytes xs) b' (sent @ map (answer_of rq rs w) fs1) =
    (Some [], (sent @ map (answer_of rq rs w) fs1) @ map (answer_of rq rs w) fs2)"
    using Cons.prems split by (intro Cons.IH) (auto simp: reads_ok_def)
  then show ?case using x(1) push split(1,4) by simp
qed

section \<open>The client\<close>

lemma await_wire:
  assumes "frame_ok f" "b @ concat xs = framed f" "length b < 4 + length f" "reads_ok xs"
  shows "await_answer rs i (map ReadBytes xs) b = res_bind (map_err IProtocol (decode rs check_response f))
    (\<lambda>(answered, response). if answered \<noteq> i then Inl (IProtocol PMalformed) else Inr response)"
  using assms(2-4)
proof (induction xs arbitrary: b)
  case Nil
  then have "length b = length (framed f)" by simp
  then show ?case using Nil by simp
next
  case (Cons x xs)
  have x: "x \<noteq> []" "length x \<le> MAX_READ" using Cons.prems(3) by (auto simp: reads_ok_def MAX_READ_def)
  have push: "frames_push b x = (b @ x, Inr ())"
    using Cons.prems x assms(1) by (intro push_ok [of b "[f]" x "concat xs"]) (auto simp: partial_frame_def)
  show ?case
  proof (cases "length (b @ x) < 4 + length f")
    case True
    then have "next_frame (b @ x) = (b @ x, Inr None)"
      using next_frame_partial [of f "b @ x" "concat xs" "[]"] assms(1) Cons.prems(1) by simp
    then show ?thesis using Cons.IH [of "b @ x"] Cons.prems True push x(1) by (simp add: reads_ok_def)
  next
    case False
    have "length (b @ x) + length (concat xs) = 4 + length f"
      using arg_cong [OF Cons.prems(1), of length] by (simp add: add.assoc del: length_concat)
    then have "concat xs = []" using False by (metis add_le_same_cancel1 le_zero_eq length_0_conv not_less)
    then have "b @ x = framed f @ []" using Cons.prems(1) by (simp del: concat_eq_Nil_conv)
    then have "next_frame (b @ x) = ([], Inr (Some f))" using next_frame_whole [OF assms(1), of "[]"] by simp
    then show ?thesis using push x(1) by simp
  qed
qed

section \<open>Properties\<close>

text \<open>What the JSON library documents: what it writes it reads back, version first or all at once.\<close>

definition json_faithful :: "'a json \<Rightarrow> bool" where
  "json_faithful js \<longleftrightarrow> (\<forall>e text. to_vec js e = Some text \<longrightarrow>
     text \<noteq> [] \<and> version_only js text = Some (en_v e) \<and> from_slice js text = Some e)"

lemma encode_decode:
  assumes "json_faithful js" "encode js chk i body = Inr bytes"
  obtains f where "bytes = framed f" "frame_ok f" "decode js chk f = Inr (i, body)"
proof -
  obtain f where f: "chk body = Inr ()" "to_vec js \<lparr>en_v = VERSION, en_id = i, en_body = body\<rparr> = Some f"
    "length f \<le> MAX_FRAME" "bytes = framed f"
    using assms(2) by (auto simp: encode_def res_simps framed_def split: if_splits option.splits)
  then have "f \<noteq> []" "version_only js f = Some VERSION" "from_slice js f = Some \<lparr>en_v = VERSION, en_id = i, en_body = body\<rparr>"
    using assms(1) unfolding json_faithful_def by force+
  then show ?thesis using f that by (auto simp: frame_ok_def decode_def)
qed

text \<open>What the handler says to a request, and what is said when it is late or says what the contract
  cannot carry.\<close>

definition reply_to :: "Response json \<Rightarrow> ipc_world \<Rightarrow> u64 \<Rightarrow> Request \<Rightarrow> Response" where
  "reply_to rs w i r =
     (let a = (case iw_handle w r of Some x \<Rightarrow> x | None \<Rightarrow> Failed ''ENGINE-BUSY'') in
      case encode rs check_response i a of Inr _ \<Rightarrow> a | Inl _ \<Rightarrow> Failed ''IPC-INTERNAL'')"

lemma answer_decodes:
  assumes "json_faithful rs" "decode rq check_request f = Inr (i, r)"
    and "\<exists>bytes. encode rs check_response i (Failed ''IPC-INTERNAL'') = Inr bytes"
  obtains g where "answer_bytes rs (request_answer rq w f) = Some (framed g)" "frame_ok g"
    "decode rs check_response g = Inr (i, reply_to rs w i r)"
proof -
  let ?a = "case iw_handle w r of Some x \<Rightarrow> x | None \<Rightarrow> Failed ''ENGINE-BUSY''"
  have req: "request_answer rq w f = (i, ?a)" by (simp add: request_answer_def assms(2))
  obtain bytes where bytes: "answer_bytes rs (request_answer rq w f) = Some bytes" "encode rs check_response i (reply_to rs w i r) = Inr bytes"
  proof (cases "encode rs check_response i ?a")
    case (Inl e)
    then show ?thesis using assms(3) that unfolding req by (auto simp: answer_bytes_def reply_to_def)
  next
    case (Inr x)
    then show ?thesis using that unfolding req by (auto simp: answer_bytes_def reply_to_def Let_def)
  qed
  then show ?thesis using encode_decode [OF assms(1) bytes(2)] that by metis
qed

lemma requests_as_frames:
  assumes "json_faithful rq" "list_all2 (\<lambda>a bytes. encode rq chk (fst a) (snd a) = Inr bytes) asked sent"
  shows "\<exists>fs. concat sent = wire fs \<and> list_all2 (\<lambda>a f. frame_ok f \<and> decode rq chk f = Inr a) asked fs"
  using assms(2)
proof (induction asked sent rule: list_all2_induct)
  case (Cons a as b bs)
  obtain f where f: "b = framed f" "frame_ok f" "decode rq chk f = Inr a"
    using encode_decode [OF assms(1) Cons(1)] by auto
  obtain fs where fs: "concat bs = wire fs" "list_all2 (\<lambda>a f. frame_ok f \<and> decode rq chk f = Inr a) as fs" using Cons(3) by blast
  show ?case using f fs by (intro exI [of _ "f # fs"]) simp
qed (auto intro: exI [of _ "[]"])

text \<open>
  C25. The control surface answers every request once, in order, and the client receives what the
  handler said. Take any requests that can be encoded, written one after another and read by the
  server in pieces however the stream splits them, with no write running out of its time: the
  server keeps the connection, holds nothing back and sends one answer per request, and whatever
  way an answer is split on its way the client that asked gets the handler's response under its own
  identity, or the code for a handler that was late or said what a frame cannot carry. JSON is
  assumed to read back what it wrote and to be able to write the internal-error answer.
\<close>

theorem control_surface_round_trip:
  assumes "json_faithful rq" "json_faithful rs" "\<forall>n. \<not> iw_write_times_out w n"
    and "list_all2 (\<lambda>(i, r) bytes. encode rq check_request i r = Inr bytes) asked sent"
    and "\<forall>(i, r) \<in> set asked. \<exists>bytes. encode rs check_response i (Failed ''IPC-INTERNAL'') = Inr bytes"
    and "concat pieces = concat sent" "reads_ok pieces"
  shows "\<exists>answers. serve_client rq rs w (map ReadBytes pieces) [] [] = (Some [], answers) \<and>
    length answers = length asked \<and>
    (\<forall>k < length asked. \<forall>parts. concat parts = answers ! k \<longrightarrow> reads_ok parts \<longrightarrow>
       (case asked ! k of (i, r) \<Rightarrow> ask rq rs i r (Inr ()) (map ReadBytes parts) = Inr (reply_to rs w i r)))"
proof -
  obtain fs where fs: "concat sent = wire fs"
    "list_all2 (\<lambda>a f. frame_ok f \<and> decode rq check_request f = Inr a) asked fs"
    using requests_as_frames [OF assms(1), of check_request asked sent] assms(4) by (auto simp: case_prod_unfold)
  have len: "length fs = length asked" "length sent = length asked" using fs(2) assms(4) by (auto dest: list_all2_lengthD)
  have each: "\<exists>g. answer_bytes rs (request_answer rq w (fs ! k)) = Some (framed g) \<and> frame_ok g \<and>
    decode rs check_response g = Inr (fst (asked ! k), reply_to rs w (fst (asked ! k)) (snd (asked ! k)))" if "k < length asked" for k
  proof -
    have "decode rq check_request (fs ! k) = Inr (fst (asked ! k), snd (asked ! k))"
      using list_all2_nthD [OF fs(2) that] by simp
    moreover have "\<exists>bytes. encode rs check_response (fst (asked ! k)) (Failed ''IPC-INTERNAL'') = Inr bytes"
      using assms(5) nth_mem [OF that] by (auto simp: case_prod_unfold)
    ultimately show ?thesis using answer_decodes [OF assms(2)] by metis
  qed
  have "frame_ok f \<and> answer_bytes rs (request_answer rq w f) \<noteq> None" if "f \<in> set fs" for f
  proof -
    obtain k where "k < length asked" "f = fs ! k" using \<open>f \<in> set fs\<close> len(1) by (auto simp: in_set_conv_nth)
    then show ?thesis using each [of k] fs(2) by (auto simp: list_all2_conv_all_nth)
  qed
  then have serve: "serve_client rq rs w (map ReadBytes pieces) [] [] = (Some [], [] @ map (answer_of rq rs w) fs)"
    using assms(3,6,7) fs(1) by (intro serve_client_wire) (auto simp: partial_frame_def split: list.splits)
  have "ask rq rs (fst (asked ! k)) (snd (asked ! k)) (Inr ()) (map ReadBytes parts) = Inr (reply_to rs w (fst (asked ! k)) (snd (asked ! k)))"
    if k: "k < length asked" and parts: "concat parts = map (answer_of rq rs w) fs ! k" "reads_ok parts" for k parts
  proof -
    obtain g where g: "answer_bytes rs (request_answer rq w (fs ! k)) = Some (framed g)" "frame_ok g"
      "decode rs check_response g = Inr (fst (asked ! k), reply_to rs w (fst (asked ! k)) (snd (asked ! k)))"
      using each [OF k] by blast
    have "[] @ concat parts = framed g" using parts(1) k len(1) g(1) by (simp add: answer_of_def)
    then have "await_answer rs (fst (asked ! k)) (map ReadBytes parts) [] = Inr (reply_to rs w (fst (asked ! k)) (snd (asked ! k)))"
      using await_wire [OF g(2) _ _ parts(2)] g(3) by (simp add: map_err_def)
    moreover have "encode rq check_request (fst (asked ! k)) (snd (asked ! k)) = Inr (sent ! k)"
      using list_all2_nthD [OF assms(4) k] by (simp add: case_prod_unfold)
    ultimately show ?thesis by (simp add: ask_def map_err_def)
  qed
  then show ?thesis using serve len(1) by (intro exI [of _ "map (answer_of rq rs w) fs"]) (auto simp: case_prod_unfold)
qed


definition sample_rq :: "Request json" where
  "sample_rq = \<lparr>to_vec = (\<lambda>e. if e = \<lparr>en_v = 1, en_id = 7, en_body = RPause 3\<rparr> then Some ''p'' else None),
     version_only = (\<lambda>_. Some 1), from_slice = (\<lambda>_. Some \<lparr>en_v = 1, en_id = 7, en_body = RPause 3\<rparr>)\<rparr>"

definition sample_rs :: "Response json" where
  "sample_rs = \<lparr>to_vec = (\<lambda>e. if e = \<lparr>en_v = 1, en_id = 7, en_body = Done\<rparr> then Some ''d''
       else if e = \<lparr>en_v = 1, en_id = 7, en_body = Failed ''IPC-INTERNAL''\<rparr> then Some ''f'' else None),
     version_only = (\<lambda>_. Some 1),
     from_slice = (\<lambda>t. Some \<lparr>en_v = 1, en_id = 7, en_body = if t = ''d'' then Done else Failed ''IPC-INTERNAL''\<rparr>)\<rparr>"

definition sample_ipc :: ipc_world where
  "sample_ipc = \<lparr>iw_handle = (\<lambda>_. Some Done), iw_write_times_out = (\<lambda>_. False)\<rparr>"

lemmas sample_codec = sample_rq_def sample_rs_def sample_ipc_def encode_def VERSION_def MAX_FRAME_def U32_MAX_def
  json_faithful_def ok_or_def

lemma sample_asks:
  "json_faithful sample_rq" "json_faithful sample_rs" "\<forall>n. \<not> iw_write_times_out sample_ipc n"
  "encode sample_rq check_request 7 (RPause 3) = Inr (framed ''p'')"
  "encode sample_rs check_response 7 (Failed ''IPC-INTERNAL'') = Inr (framed ''f'')"
  "encode sample_rs check_response 7 Done = Inr (framed ''d'')"
  by (auto simp: sample_codec framed_def)

theorem control_surface_round_trip_witness:
  "\<exists>answers. serve_client sample_rq sample_rs sample_ipc (map ReadBytes [take 2 (framed ''p''), drop 2 (framed ''p'')]) [] [] = (Some [], answers) \<and>
     length answers = 1 \<and> (\<forall>parts. concat parts = answers ! 0 \<longrightarrow> reads_ok parts \<longrightarrow>
       ask sample_rq sample_rs 7 (RPause 3) (Inr ()) (map ReadBytes parts) = Inr Done)"
proof -
  have sent: "list_all2 (\<lambda>(i, r) bytes. encode sample_rq check_request i r = Inr bytes) [(7, RPause 3)] [framed ''p'']"
    and late: "\<forall>(i, r) \<in> set [(7 :: u64, RPause 3)]. \<exists>bytes. encode sample_rs check_response i (Failed ''IPC-INTERNAL'') = Inr bytes"
    using sample_asks(4,5) by simp_all
  have pieces: "concat [take 2 (framed ''p''), drop 2 (framed ''p'')] = concat [framed ''p'']"
    "reads_ok [take 2 (framed ''p''), drop 2 (framed ''p'')]"
    by (simp_all add: reads_ok_def)
  have "reply_to sample_rs sample_ipc 7 (RPause 3) = Done" using sample_asks(6) by (simp add: reply_to_def sample_ipc_def)
  then show ?thesis using control_surface_round_trip [OF sample_asks(1-3) sent late pieces] by auto
qed

section \<open>Refusals\<close>

text \<open>A header that announces nothing or too much is refused with the bytes that complete it, and no
  buffer outgrows a frame and a read.\<close>

lemma header_refused:
  assumes "4 \<le> length (b @ x)" "from_be_bytes (take 4 (b @ x)) = 0 \<or> MAX_FRAME < from_be_bytes (take 4 (b @ x))"
  shows "\<exists>e. snd (frames_push b x) = Inl e"
  using assms by (auto simp: frames_push_def declared_def Let_def)

lemma frames_bounded: "length b \<le> 4 + MAX_FRAME + MAX_READ \<Longrightarrow> length (fst (frames_push b x)) \<le> 4 + MAX_FRAME + MAX_READ"
  by (auto simp: frames_push_def saturating_add_def min_def MAX_FRAME_def MAX_READ_def U64_MAX_def split: if_splits)

text \<open>
  The engine is only ever handed requests of the contract. Whatever bytes a frame holds and
  however its JSON is read, a request that is decoded has this contract's version, names no job by
  zero, and an addition carries a link and a destination within their limits, a non-zero size limit
  and, when it names a digest, exactly 64 lower-case hexadecimal digits; a frame over the limit is
  never parsed.
\<close>

theorem decoded_requests_are_valid:
  assumes "decode rq check_request frame = Inr (i, r)"
  shows "length frame \<le> MAX_FRAME \<and> version_only rq frame = Some VERSION \<and>
    (case r of
       RAdd a \<Rightarrow> ar_url a \<noteq> [] \<and> length (ar_url a) \<le> MAX_URL \<and> ar_destination a \<noteq> [] \<and> length (ar_destination a) \<le> MAX_PATH \<and>
         0 < ar_max_bytes a \<and>
         (\<forall>hex. ar_expected_sha256 a = Some hex \<longrightarrow> length hex = 64 \<and> set hex \<subseteq> set ''0123456789abcdef'')
     | RList after \<Rightarrow> after \<noteq> Some 0
     | RPause job \<Rightarrow> 0 < job | RResume job \<Rightarrow> 0 < job | RCancel job \<Rightarrow> 0 < job | RShutdown \<Rightarrow> True)"
proof -
  have hex: "c \<in> set ''0123456789abcdef''" if "hex_lower c" for c
  proof -
    have "c = char_of (of_char c :: nat)" by simp
    moreover have "(of_char c :: nat) \<in> {48, 49, 50, 51, 52, 53, 54, 55, 56, 57, 97, 98, 99, 100, 101, 102}"
      using that unfolding hex_lower_def by (simp only: atLeastAtMost_iff insert_iff empty_iff) presburger
    ultimately show ?thesis by (auto simp: char_of_def bit_Suc_0_iff)
  qed
  have "length frame \<le> MAX_FRAME" "version_only rq frame = Some VERSION" "check_request r = Inr ()"
    using assms by (auto simp: decode_def res_simps ok_or_def split: if_splits option.splits)
  then show ?thesis by (cases r) (auto simp: list_all_iff split: if_splits option.splits dest!: hex)
qed

theorem decoded_requests_are_valid_witness:
  "decode sample_rq check_request ''p'' = Inr (7, RPause 3) \<and> (0::nat) < 3"
proof -
  have d: "decode sample_rq check_request ''p'' = Inr (7, RPause 3)" by (simp add: decode_def sample_codec)
  show ?thesis using decoded_requests_are_valid [OF d] d by simp
qed

end
