(* ===== verification/Config.thy ===== *)
theory Config
  imports FHD_Prelude
begin

text \<open>
  Effective settings (\<open>crates/config/src/lib.rs\<close>): patches that only accept values within the bounds
  of each setting, and the resolution of a user's patch and an enforced one over the defaults. The
  URL parser is a parameter of reading a proxy endpoint.
\<close>

section \<open>Settings\<close>

datatype Setting = ActiveJobs | ConnectionsPerJob | ConnectionsPerOrigin | BufferBytes | Redirects
  | ConnectTimeoutMs | TlsTimeoutMs | FirstByteTimeoutMs | ReadIdleTimeoutMs | PoolIdleTtlMs | ProposalTtlMs

definition MIB :: u64 where "MIB = 1024 * 1024"
definition SETTING_COUNT :: usize where "SETTING_COUNT = 11"

fun setting_bounds :: "Setting \<Rightarrow> u64 \<times> u64" where
  "setting_bounds ActiveJobs = (1, 32)"
| "setting_bounds ConnectionsPerJob = (1, 16)"
| "setting_bounds ConnectionsPerOrigin = (1, 32)"
| "setting_bounds BufferBytes = (MIB, 512 * MIB)"
| "setting_bounds Redirects = (0, 20)"
| "setting_bounds ConnectTimeoutMs = (100, 120000)"
| "setting_bounds TlsTimeoutMs = (100, 120000)"
| "setting_bounds FirstByteTimeoutMs = (100, 600000)"
| "setting_bounds ReadIdleTimeoutMs = (100, 600000)"
| "setting_bounds PoolIdleTtlMs = (1000, 3600000)"
| "setting_bounds ProposalTtlMs = (1000, 86400000)"

text \<open>The discriminant the enumeration is declared with.\<close>

fun setting_index :: "Setting \<Rightarrow> usize" where
  "setting_index ActiveJobs = 0"
| "setting_index ConnectionsPerJob = 1"
| "setting_index ConnectionsPerOrigin = 2"
| "setting_index BufferBytes = 3"
| "setting_index Redirects = 4"
| "setting_index ConnectTimeoutMs = 5"
| "setting_index TlsTimeoutMs = 6"
| "setting_index FirstByteTimeoutMs = 7"
| "setting_index ReadIdleTimeoutMs = 8"
| "setting_index PoolIdleTtlMs = 9"
| "setting_index ProposalTtlMs = 10"

datatype ConfigError = OutOfRange Setting | InvalidProxy

section \<open>Proxy\<close>

record url =
  u_scheme :: string
  u_host :: "string option"
  u_username :: string
  u_password :: "string option"
  u_query :: "string option"
  u_fragment :: "string option"
  u_path :: string
  u_port :: "u16 option"

definition proxy_parse :: "(nat list \<Rightarrow> url option) \<Rightarrow> nat list \<Rightarrow> (ConfigError, url) result" where
  "proxy_parse parse raw =
     (if 4096 < utf8_len raw \<or> list_ex is_control raw then Inl InvalidProxy
      else
      res_bind (ok_or (parse raw) InvalidProxy) (\<lambda>url.
      if \<not> (u_scheme url = ''http'' \<or> u_scheme url = ''https'') \<or> u_host url = None \<or> u_username url \<noteq> [] \<or>
         u_password url \<noteq> None \<or> u_query url \<noteq> None \<or> u_fragment url \<noteq> None \<or> u_path url \<noteq> ''/'' \<or> u_port url = Some 0
      then Inl InvalidProxy else Inr url))"

datatype NetworkPolicy = Direct | System | Proxy url

section \<open>Patches\<close>

datatype Source = SourceDefault | SourceUser | SourceEnforced

record config_patch =
  cp_numbers :: "u64 option list"
  cp_network :: "NetworkPolicy option"
  cp_telemetry :: "bool option"
  cp_allow_http :: "bool option"

definition patch_default :: config_patch where
  "patch_default = \<lparr>cp_numbers = replicate SETTING_COUNT None, cp_network = None, cp_telemetry = None, cp_allow_http = None\<rparr>"

definition patch_set :: "config_patch \<Rightarrow> Setting \<Rightarrow> u64 \<Rightarrow> (ConfigError, config_patch) result" where
  "patch_set p s value =
     (case setting_bounds s of (lo, hi) \<Rightarrow>
        if \<not> (lo \<le> value \<and> value \<le> hi) then Inl (OutOfRange s)
        else Inr (p\<lparr>cp_numbers := (cp_numbers p)[setting_index s := Some value]\<rparr>))"

definition with_network :: "config_patch \<Rightarrow> NetworkPolicy \<Rightarrow> config_patch" where
  "with_network p v = p\<lparr>cp_network := Some v\<rparr>"

definition with_telemetry :: "config_patch \<Rightarrow> bool \<Rightarrow> config_patch" where
  "with_telemetry p v = p\<lparr>cp_telemetry := Some v\<rparr>"

definition with_http :: "config_patch \<Rightarrow> bool \<Rightarrow> config_patch" where
  "with_http p v = p\<lparr>cp_allow_http := Some v\<rparr>"

section \<open>Resolution\<close>

record effective_config =
  ec_numbers :: "u64 list"
  ec_sources :: "Source list"
  ec_network :: NetworkPolicy
  ec_network_source :: Source
  ec_telemetry :: bool
  ec_telemetry_source :: Source
  ec_allow_http :: bool
  ec_http_source :: Source

definition config_default :: effective_config where
  "config_default =
     \<lparr>ec_numbers = [4, 8, 8, 64 * MIB, 10, 15000, 15000, 30000, 30000, 90000, 900000],
      ec_sources = replicate SETTING_COUNT SourceDefault, ec_network = Direct, ec_network_source = SourceDefault,
      ec_telemetry = True, ec_telemetry_source = SourceDefault, ec_allow_http = False, ec_http_source = SourceDefault\<rparr>"

text \<open>The loop over the indexed numbers of one patch, then its other fields.\<close>

fun apply_numbers :: "nat \<Rightarrow> u64 option list \<Rightarrow> Source \<Rightarrow> effective_config \<Rightarrow> effective_config" where
  "apply_numbers i [] source c = c"
| "apply_numbers i (None # vs) source c = apply_numbers (Suc i) vs source c"
| "apply_numbers i (Some v # vs) source c =
     apply_numbers (Suc i) vs source (c\<lparr>ec_numbers := (ec_numbers c)[i := v], ec_sources := (ec_sources c)[i := source]\<rparr>)"

definition apply_patch :: "config_patch \<times> Source \<Rightarrow> effective_config \<Rightarrow> effective_config" where
  "apply_patch ps c0 =
     (case ps of (p, source) \<Rightarrow>
        let c1 = apply_numbers 0 (cp_numbers p) source c0;
            c2 = (case cp_network p of None \<Rightarrow> c1 | Some v \<Rightarrow> c1\<lparr>ec_network := v, ec_network_source := source\<rparr>);
            c3 = (case cp_telemetry p of None \<Rightarrow> c2 | Some v \<Rightarrow> c2\<lparr>ec_telemetry := v, ec_telemetry_source := source\<rparr>)
        in (case cp_allow_http p of None \<Rightarrow> c3 | Some v \<Rightarrow> c3\<lparr>ec_allow_http := v, ec_http_source := source\<rparr>))"

definition resolve :: "config_patch \<Rightarrow> config_patch \<Rightarrow> effective_config" where
  "resolve user enforced = fold apply_patch [(user, SourceUser), (enforced, SourceEnforced)] config_default"

definition config_value :: "effective_config \<Rightarrow> Setting \<Rightarrow> u64" where
  "config_value c s = ec_numbers c ! setting_index s"

definition config_source :: "effective_config \<Rightarrow> Setting \<Rightarrow> Source" where
  "config_source c s = ec_sources c ! setting_index s"

section \<open>Layers\<close>

lemma setting_index_less [simp]: "setting_index s < SETTING_COUNT"
  by (cases s) (simp_all add: SETTING_COUNT_def)

lemma setting_index_inj: "setting_index s = setting_index t \<longleftrightarrow> s = t"
  by (cases s; cases t) simp_all

text \<open>A patch as it can be built: defaults and accepted changes.\<close>

inductive patch_built :: "config_patch \<Rightarrow> bool" where
  pb_default: "patch_built patch_default"
| pb_set: "patch_built p \<Longrightarrow> patch_set p s v = Inr p' \<Longrightarrow> patch_built p'"
| pb_network: "patch_built p \<Longrightarrow> patch_built (with_network p n)"
| pb_telemetry: "patch_built p \<Longrightarrow> patch_built (with_telemetry p b)"
| pb_http: "patch_built p \<Longrightarrow> patch_built (with_http p b)"

definition patch_number :: "config_patch \<Rightarrow> Setting \<Rightarrow> u64 option" where
  "patch_number p s = cp_numbers p ! setting_index s"

definition in_bounds :: "Setting \<Rightarrow> u64 \<Rightarrow> bool" where
  "in_bounds s v \<longleftrightarrow> fst (setting_bounds s) \<le> v \<and> v \<le> snd (setting_bounds s)"

lemma patch_built_ok:
  "patch_built p \<Longrightarrow> length (cp_numbers p) = SETTING_COUNT \<and> (\<forall>s v. patch_number p s = Some v \<longrightarrow> in_bounds s v)"
proof (induction rule: patch_built.induct)
  case (pb_set p s v p')
  then have "p' = p\<lparr>cp_numbers := (cp_numbers p)[setting_index s := Some v]\<rparr>" "in_bounds s v"
    by (auto simp: patch_set_def in_bounds_def split: prod.splits if_splits)
  then show ?case using pb_set.IH by (auto simp: patch_number_def nth_list_update setting_index_inj split: if_splits)
qed (auto simp: patch_default_def patch_number_def with_network_def with_telemetry_def with_http_def)

lemma apply_numbers_frame:
  "length (ec_numbers (apply_numbers i vs source c)) = length (ec_numbers c)"
  "length (ec_sources (apply_numbers i vs source c)) = length (ec_sources c)"
  "ec_network (apply_numbers i vs source c) = ec_network c" "ec_network_source (apply_numbers i vs source c) = ec_network_source c"
  "ec_telemetry (apply_numbers i vs source c) = ec_telemetry c" "ec_telemetry_source (apply_numbers i vs source c) = ec_telemetry_source c"
  "ec_allow_http (apply_numbers i vs source c) = ec_allow_http c" "ec_http_source (apply_numbers i vs source c) = ec_http_source c"
  by (induction i vs source c rule: apply_numbers.induct) simp_all

lemma apply_numbers_nth:
  assumes "i + length vs = length (ec_numbers c)" "length (ec_sources c) = length (ec_numbers c)" "k < length (ec_numbers c)"
  shows "ec_numbers (apply_numbers i vs source c) ! k = (if k < i then ec_numbers c ! k else case vs ! (k - i) of None \<Rightarrow> ec_numbers c ! k | Some v \<Rightarrow> v)"
    "ec_sources (apply_numbers i vs source c) ! k = (if k < i then ec_sources c ! k else case vs ! (k - i) of None \<Rightarrow> ec_sources c ! k | Some v \<Rightarrow> source)"
  using assms
  by (induction i vs source c rule: apply_numbers.induct) (auto simp: nth_list_update nth_Cons' not_less_eq split: option.splits)

lemma apply_patch_ok:
  assumes "length (cp_numbers p) = SETTING_COUNT" "length (ec_numbers c) = SETTING_COUNT" "length (ec_sources c) = SETTING_COUNT"
  shows "length (ec_numbers (apply_patch (p, source) c)) = SETTING_COUNT" "length (ec_sources (apply_patch (p, source) c)) = SETTING_COUNT"
    "config_value (apply_patch (p, source) c) s = (case patch_number p s of None \<Rightarrow> config_value c s | Some v \<Rightarrow> v)"
    "config_source (apply_patch (p, source) c) s = (case patch_number p s of None \<Rightarrow> config_source c s | Some v \<Rightarrow> source)"
proof -
  have n: "ec_numbers (apply_patch (p, source) c) = ec_numbers (apply_numbers 0 (cp_numbers p) source c)"
    "ec_sources (apply_patch (p, source) c) = ec_sources (apply_numbers 0 (cp_numbers p) source c)"
    by (simp_all add: apply_patch_def Let_def split: option.splits)
  show "length (ec_numbers (apply_patch (p, source) c)) = SETTING_COUNT" "length (ec_sources (apply_patch (p, source) c)) = SETTING_COUNT"
    unfolding n using assms by (simp_all add: apply_numbers_frame)
  show "config_value (apply_patch (p, source) c) s = (case patch_number p s of None \<Rightarrow> config_value c s | Some v \<Rightarrow> v)"
    "config_source (apply_patch (p, source) c) s = (case patch_number p s of None \<Rightarrow> config_source c s | Some v \<Rightarrow> source)"
    unfolding config_value_def config_source_def n patch_number_def using assms
    by (simp_all add: apply_numbers_nth split: option.splits)
qed

text \<open>
  Effective settings are layered and in bounds. For any two patches that can be built, every
  setting of the resolved configuration lies within its bounds, has the enforced value if there is
  one, else the user's, else the default, and reports which of the three it is; the network policy,
  local telemetry and plain HTTP are layered the same way.
\<close>

theorem effective_settings_layered:
  assumes "patch_built user" "patch_built enforced"
  shows "in_bounds s (config_value (resolve user enforced) s) \<and>
    (config_value (resolve user enforced) s, config_source (resolve user enforced) s) =
      (case patch_number enforced s of Some v \<Rightarrow> (v, SourceEnforced) | None \<Rightarrow>
       case patch_number user s of Some v \<Rightarrow> (v, SourceUser) | None \<Rightarrow> (config_value config_default s, SourceDefault)) \<and>
    (ec_allow_http (resolve user enforced), ec_http_source (resolve user enforced)) =
      (case cp_allow_http enforced of Some v \<Rightarrow> (v, SourceEnforced) | None \<Rightarrow>
       case cp_allow_http user of Some v \<Rightarrow> (v, SourceUser) | None \<Rightarrow> (False, SourceDefault)) \<and>
    (ec_telemetry (resolve user enforced), ec_telemetry_source (resolve user enforced)) =
      (case cp_telemetry enforced of Some v \<Rightarrow> (v, SourceEnforced) | None \<Rightarrow>
       case cp_telemetry user of Some v \<Rightarrow> (v, SourceUser) | None \<Rightarrow> (True, SourceDefault)) \<and>
    (ec_network (resolve user enforced), ec_network_source (resolve user enforced)) =
      (case cp_network enforced of Some v \<Rightarrow> (v, SourceEnforced) | None \<Rightarrow>
       case cp_network user of Some v \<Rightarrow> (v, SourceUser) | None \<Rightarrow> (Direct, SourceDefault))"
proof -
  note u = patch_built_ok [OF assms(1)] and e = patch_built_ok [OF assms(2)]
  have d: "length (ec_numbers config_default) = SETTING_COUNT" "length (ec_sources config_default) = SETTING_COUNT"
    "config_source config_default s = SourceDefault" "in_bounds s (config_value config_default s)"
    by (simp_all add: config_default_def SETTING_COUNT_def config_source_def)
      (cases s; simp_all add: config_value_def in_bounds_def config_source_def MIB_def nth_Cons' SETTING_COUNT_def)+
  note one = apply_patch_ok [where p = user and source = SourceUser, OF conjunct1 [OF u] d(1,2)]
  note two = apply_patch_ok(3,4) [where p = enforced and source = SourceEnforced, OF conjunct1 [OF e] one(1,2)]
  have layers: "(config_value (resolve user enforced) s, config_source (resolve user enforced) s) =
      (case patch_number enforced s of Some v \<Rightarrow> (v, SourceEnforced) | None \<Rightarrow>
       case patch_number user s of Some v \<Rightarrow> (v, SourceUser) | None \<Rightarrow> (config_value config_default s, SourceDefault))"
    by (simp add: resolve_def two one(3,4) d(3) split: option.splits)
  have "in_bounds s (config_value (resolve user enforced) s)" using layers u e d(4) by (auto split: option.splits)
  then show ?thesis using layers
    by (simp add: resolve_def apply_patch_def Let_def apply_numbers_frame config_default_def split: option.splits)
qed

theorem effective_settings_layered_witness:
  "patch_set patch_default ActiveJobs 9 = Inr (patch_default\<lparr>cp_numbers := (cp_numbers patch_default)[0 := Some 9]\<rparr>) \<and>
   config_value (resolve (patch_default\<lparr>cp_numbers := (cp_numbers patch_default)[0 := Some 9]\<rparr>) (with_http patch_default True)) ActiveJobs = 9"
proof -
  let ?p = "patch_default\<lparr>cp_numbers := (cp_numbers patch_default)[0 := Some 9]\<rparr>"
  have p: "patch_set patch_default ActiveJobs 9 = Inr ?p" by (simp add: patch_set_def)
  have "patch_number (with_http patch_default True) ActiveJobs = None" "patch_number ?p ActiveJobs = Some 9"
    by (simp_all add: patch_number_def with_http_def patch_default_def SETTING_COUNT_def)
  then show ?thesis
    using effective_settings_layered [OF pb_set [OF pb_default p] pb_http [OF pb_default], of ActiveJobs True] p by simp
qed

end
