(* ===== verification/Telemetry.thy ===== *)
theory Telemetry
  imports FHD_Prelude
begin

text \<open>
  Local events (\<open>crates/telemetry/src/lib.rs\<close>): values that are bounded and never printed, the fixed
  set of codes, and the bounded recorder with its counters. What the tracing sink does with an event
  is outside.
\<close>

section \<open>Values and events\<close>

datatype TelemetryError = InvalidCapacity | SensitiveValueTooLarge | SequenceExhausted

definition sensitive_new :: "nat \<Rightarrow> string \<Rightarrow> (TelemetryError, string) result" where
  "sensitive_new limit value = (if limit < length value then Inl SensitiveValueTooLarge else Inr value)"

datatype Code = JobAccepted | JobPaused | JobCompleted | DnsFailed | ConnectTimeout | TlsRejected | ReadTimeout
  | RequestThrottled | SourceChanged | DiskFull | StorageFailed | CheckpointCommitted | BufferPressure
  | PolicyRejected | CommandIgnored

definition CODE_COUNT :: nat where "CODE_COUNT = 15"

fun code_index :: "Code \<Rightarrow> nat" where
  "code_index JobAccepted = 0" | "code_index JobPaused = 1" | "code_index JobCompleted = 2"
| "code_index DnsFailed = 3" | "code_index ConnectTimeout = 4" | "code_index TlsRejected = 5"
| "code_index ReadTimeout = 6" | "code_index RequestThrottled = 7" | "code_index SourceChanged = 8"
| "code_index DiskFull = 9" | "code_index StorageFailed = 10" | "code_index CheckpointCommitted = 11"
| "code_index BufferPressure = 12" | "code_index PolicyRejected = 13" | "code_index CommandIgnored = 14"

fun code_str :: "Code \<Rightarrow> string" where
  "code_str JobAccepted = ''JOB-ACCEPTED''"
| "code_str JobPaused = ''JOB-PAUSED''"
| "code_str JobCompleted = ''JOB-COMPLETED''"
| "code_str DnsFailed = ''NET-DNS''"
| "code_str ConnectTimeout = ''NET-TIMEOUT-CONNECT''"
| "code_str TlsRejected = ''NET-TLS-REJECTED''"
| "code_str ReadTimeout = ''NET-TIMEOUT-READ''"
| "code_str RequestThrottled = ''NET-THROTTLED''"
| "code_str SourceChanged = ''SRC-CHANGED''"
| "code_str DiskFull = ''DISK-FULL''"
| "code_str StorageFailed = ''DISK-IO''"
| "code_str CheckpointCommitted = ''STORE-COMMITTED''"
| "code_str BufferPressure = ''BUFFER-PRESSURE''"
| "code_str PolicyRejected = ''POLICY-REJECTED''"
| "code_str CommandIgnored = ''CMD-IGNORED''"

record event =
  ev_code :: Code
  ev_job_id :: "u64 option"
  ev_generation :: "u64 option"
  ev_value :: u64
  ev_elapsed_ms :: u64

definition event_new :: "Code \<Rightarrow> event" where
  "event_new c = \<lparr>ev_code = c, ev_job_id = None, ev_generation = None, ev_value = 0, ev_elapsed_ms = 0\<rparr>"

definition for_job :: "event \<Rightarrow> u64 \<Rightarrow> u64 \<Rightarrow> event" where
  "for_job e job generation = e\<lparr>ev_job_id := Some job, ev_generation := Some generation\<rparr>"

text \<open>The elapsed time is given in milliseconds, as a 128-bit number.\<close>

definition with_measurement :: "event \<Rightarrow> u64 \<Rightarrow> nat \<Rightarrow> event" where
  "with_measurement e value millis = e\<lparr>ev_value := value, ev_elapsed_ms := (if millis \<le> U64_MAX then millis else U64_MAX)\<rparr>"

section \<open>The recorder\<close>

record recorded =
  rc_sequence :: u64
  rc_event :: event

record metrics =
  mt_counts :: "u64 list"
  mt_overwritten :: u64

record recorder =
  re_records :: "recorded list"
  re_capacity :: usize
  re_sequence :: u64
  re_metrics :: metrics
  re_enabled :: bool

definition recorder_new :: "usize \<Rightarrow> (TelemetryError, recorder) result" where
  "recorder_new capacity =
     (if \<not> (1 \<le> capacity \<and> capacity \<le> 4096) then Inl InvalidCapacity
      else Inr \<lparr>re_records = [], re_capacity = capacity, re_sequence = 0,
                re_metrics = \<lparr>mt_counts = replicate CODE_COUNT 0, mt_overwritten = 0\<rparr>, re_enabled = True\<rparr>)"

definition set_enabled :: "recorder \<Rightarrow> bool \<Rightarrow> recorder" where
  "set_enabled r b = r\<lparr>re_enabled := b\<rparr>"

definition clear_records :: "recorder \<Rightarrow> recorder" where
  "clear_records r = r\<lparr>re_records := []\<rparr>"

definition metrics_count :: "metrics \<Rightarrow> Code \<Rightarrow> u64" where
  "metrics_count m c = mt_counts m ! code_index c"

definition record_event :: "recorder \<Rightarrow> event \<Rightarrow> recorder \<times> (TelemetryError, u64 option) result" where
  "record_event r e =
     (if \<not> re_enabled r then (r, Inr None)
      else case checked_add (re_sequence r) 1 of
        None \<Rightarrow> (r, Inl SequenceExhausted)
      | Some n \<Rightarrow>
          let full = (length (re_records r) = re_capacity r);
              kept = (if full then tl (re_records r) else re_records r);
              over = (if full then saturating_add (mt_overwritten (re_metrics r)) 1 else mt_overwritten (re_metrics r));
              i = code_index (ev_code e);
              counts = mt_counts (re_metrics r) in
          (r\<lparr>re_sequence := n,
             re_metrics := \<lparr>mt_counts = counts[i := saturating_add (counts ! i) 1], mt_overwritten = over\<rparr>,
             re_records := kept @ [\<lparr>rc_sequence = n, rc_event = e\<rparr>]\<rparr>, Inr (Some n)))"

section \<open>What is kept\<close>

definition numbered :: "event list \<Rightarrow> recorded list" where
  "numbered es = map (\<lambda>(i, e). \<lparr>rc_sequence = Suc i, rc_event = e\<rparr>) (enumerate 0 es)"

lemma numbered_snoc: "numbered (es @ [e]) = numbered es @ [\<lparr>rc_sequence = Suc (length es), rc_event = e\<rparr>]"
  by (simp add: numbered_def enumerate_append_eq)

lemma numbered_length [simp]: "length (numbered es) = length es"
  by (simp add: numbered_def)

lemma code_index_less: "code_index c < CODE_COUNT"
  by (cases c) (simp_all add: CODE_COUNT_def)

lemma code_index_inj: "code_index c = code_index d \<longleftrightarrow> c = d"
  by (cases c; cases d) simp_all

text \<open>After any events a recorder that is on holds the last of them, as many as its capacity, with
  consecutive sequence numbers, and its counters count all of them.\<close>

definition recorder_holds :: "recorder \<Rightarrow> event list \<Rightarrow> bool" where
  "recorder_holds r es \<longleftrightarrow> re_enabled r \<and> 1 \<le> re_capacity r \<and> re_sequence r = length es \<and>
     re_records r = drop (length es - re_capacity r) (numbered es) \<and>
     mt_overwritten (re_metrics r) = length es - re_capacity r \<and> length (mt_counts (re_metrics r)) = CODE_COUNT \<and>
     (\<forall>c. metrics_count (re_metrics r) c = length (filter (\<lambda>e. ev_code e = c) es))"

lemma recorder_new_holds: "recorder_new capacity = Inr r \<Longrightarrow> recorder_holds r []"
  using code_index_less by (auto simp: recorder_new_def recorder_holds_def numbered_def metrics_count_def split: if_splits)

lemma record_event_holds:
  assumes "recorder_holds r es" "length es < U64_MAX"
  shows "\<exists>r'. record_event r e = (r', Inr (Some (Suc (length es)))) \<and> recorder_holds r' (es @ [e]) \<and> re_capacity r' = re_capacity r"
proof -
  note r = assms(1) [unfolded recorder_holds_def]
  let ?m = "re_metrics r" let ?i = "code_index (ev_code e)" let ?n = "length es" let ?k = "re_capacity r"
  have full: "length (re_records r) = ?k \<longleftrightarrow> ?k \<le> ?n" using r by auto
  have "length (filter (\<lambda>x. ev_code x = ev_code e) es) < U64_MAX" by (rule le_less_trans [OF length_filter_le assms(2)])
  then have i: "saturating_add (mt_counts ?m ! ?i) 1 = Suc (length (filter (\<lambda>x. ev_code x = ev_code e) es))"
    using r assms(2) by (simp add: saturating_add_def metrics_count_def)
  have over: "?k \<le> ?n \<Longrightarrow> saturating_add (mt_overwritten ?m) 1 = Suc ?n - ?k" using r assms(2) by (simp add: saturating_add_def)
  let ?r = "r\<lparr>re_sequence := Suc ?n,
    re_metrics := \<lparr>mt_counts = (mt_counts ?m)[?i := Suc (length (filter (\<lambda>x. ev_code x = ev_code e) es))], mt_overwritten = Suc ?n - ?k\<rparr>,
    re_records := drop (Suc ?n - ?k) (numbered es) @ [\<lparr>rc_sequence = Suc ?n, rc_event = e\<rparr>]\<rparr>"
  have "(if ?k \<le> ?n then tl (re_records r) else re_records r) = drop (Suc ?n - ?k) (numbered es)"
    using r by (auto simp: tl_drop Suc_diff_le drop_Suc)
  then have step: "record_event r e = (?r, Inr (Some (Suc ?n)))"
    using r assms(2) i over unfolding record_event_def full Let_def by (simp add: checked_add_def)
  have "recorder_holds ?r (es @ [e])"
    using r code_index_less by (auto simp: recorder_holds_def numbered_snoc metrics_count_def nth_list_update code_index_inj)
  then show ?thesis using step by auto
qed

end
