(* ===== verification/Http.thy ===== *)
theory Http
  imports Coordinator Resume_Policy "HOL-Library.Char_ord" "HOL-Library.List_Lexorder"
begin

text \<open>
  The HTTP transport adapter (\<open>crates/adapters/http/src/lib.rs\<close>): what a source is bound to, the
  redirects that are followed by hand, what is read of a response, and the stream of one range. The
  URL and header libraries, SHA-256 and the server are parameters: the server's answers are given
  one per request. A header map is the list of its fields with lower-case names.
\<close>

section \<open>Sources\<close>

definition MAX_URL_BYTES :: usize where "MAX_URL_BYTES = 16384"
definition MAX_FIELD :: usize where "MAX_FIELD = 8192"

datatype BindingError = AlreadyBound | InvalidUrl | InsecureHttp | InvalidCredential | TooManyOrigins

text \<open>Scheme, host and port; only such origins pass \<open>parse_url\<close>.\<close>

type_synonym origin = "string \<times> string \<times> nat"

text \<open>What is used of the URL library. A text is its code points.\<close>

record 'u url_lib =
  ul_parse :: "nat list \<Rightarrow> 'u option"
  ul_as_str :: "'u \<Rightarrow> nat list"
  ul_join :: "'u \<Rightarrow> byte list \<Rightarrow> 'u option"
  ul_scheme :: "'u \<Rightarrow> string"
  ul_host :: "'u \<Rightarrow> string option"
  ul_username :: "'u \<Rightarrow> string"
  ul_password :: "'u \<Rightarrow> string option"
  ul_fragment :: "'u \<Rightarrow> string option"
  ul_query :: "'u \<Rightarrow> string option"
  ul_path :: "'u \<Rightarrow> string"
  ul_origin :: "'u \<Rightarrow> origin"
  ul_serialize :: "origin \<Rightarrow> string"
  ul_header_ok :: "string \<Rightarrow> bool"

definition parse_url :: "'u url_lib \<Rightarrow> nat list \<Rightarrow> bool \<Rightarrow> (BindingError, 'u) result" where
  "parse_url ul raw allow_http =
     (if MAX_URL_BYTES < utf8_len raw \<or> list_ex is_control raw then Inl InvalidUrl
      else
      res_bind (ok_or (ul_parse ul raw) InvalidUrl) (\<lambda>url.
      if \<not> (ul_scheme ul url = ''http'' \<or> ul_scheme ul url = ''https'') \<or> ul_host ul url = None \<or>
         ul_username ul url \<noteq> [] \<or> ul_password ul url \<noteq> None \<or> ul_fragment ul url \<noteq> None then Inl InvalidUrl
      else if ul_scheme ul url = ''http'' \<and> \<not> allow_http then Inl InsecureHttp
      else Inr url))"

record 'u source_binding =
  sb_url :: 'u
  sb_authorization :: "string option"
  sb_cookie :: "string option"
  sb_allow_http :: bool
  sb_redirect_origins :: "string list"

definition ascii_control :: "byte \<Rightarrow> bool" where
  "ascii_control b \<longleftrightarrow> (of_char b :: nat) < 32 \<or> (of_char b :: nat) = 127"

definition credential_ok :: "'u url_lib \<Rightarrow> string \<Rightarrow> bool" where
  "credential_ok ul v \<longleftrightarrow> v \<noteq> [] \<and> length v \<le> MAX_FIELD \<and> list_all (\<lambda>b. (of_char b :: nat) < 128) v \<and>
     \<not> list_ex ascii_control v \<and> ul_header_ok ul v"

definition redirect_origin :: "'u url_lib \<Rightarrow> nat list \<Rightarrow> (BindingError, string) result" where
  "redirect_origin ul raw =
     res_bind (parse_url ul raw True) (\<lambda>parsed.
     if ul_path ul parsed \<noteq> ''/'' \<or> ul_query ul parsed \<noteq> None then Inl InvalidUrl
     else Inr (ul_serialize ul (ul_origin ul parsed)))"

definition binding_new :: "'u url_lib \<Rightarrow> nat list \<Rightarrow> string option \<Rightarrow> string option \<Rightarrow> bool \<Rightarrow> nat list list \<Rightarrow>
  (BindingError, 'u source_binding) result" where
  "binding_new ul raw authorization cookie allow_http origins =
     res_bind (parse_url ul raw allow_http) (\<lambda>url.
     if list_ex (\<lambda>x. case x of None \<Rightarrow> False | Some v \<Rightarrow> \<not> credential_ok ul v) [authorization, cookie] then Inl InvalidCredential
     else if 8 < length origins then Inl TooManyOrigins
     else
     res_bind (collect_res (map (redirect_origin ul) origins)) (\<lambda>os.
     Inr \<lparr>sb_url = url, sb_authorization = authorization, sb_cookie = cookie, sb_allow_http = allow_http,
          sb_redirect_origins = remdups_adj (sort os)\<rparr>))"

record 'u representation =
  rp_etag :: "byte list"
  rp_total :: u64
  rp_url :: 'u

record 'u registry =
  rg_bindings :: "SourceRef \<rightharpoonup> 'u source_binding"
  rg_probed :: "SourceRef \<rightharpoonup> 'u representation"

definition registry_default :: "'u registry" where
  "registry_default = \<lparr>rg_bindings = Map.empty, rg_probed = Map.empty\<rparr>"

definition http_bind :: "'u registry \<Rightarrow> SourceRef \<Rightarrow> 'u source_binding \<Rightarrow> 'u registry \<times> (BindingError, unit) result" where
  "http_bind g s b =
     (if rg_bindings g s \<noteq> None then (g, Inl AlreadyBound)
      else (g\<lparr>rg_bindings := (rg_bindings g)(s \<mapsto> b)\<rparr>, Inr ()))"

definition http_unbind :: "'u registry \<Rightarrow> SourceRef \<Rightarrow> 'u registry" where
  "http_unbind g s = g\<lparr>rg_bindings := (rg_bindings g)(s := None), rg_probed := (rg_probed g)(s := None)\<rparr>"

section \<open>Reading a response\<close>

type_synonym header_map = "(string \<times> byte list) list"

record http_response =
  hs_status :: nat
  hs_headers :: header_map

definition get_all :: "header_map \<Rightarrow> string \<Rightarrow> byte list list" where
  "get_all h name = map snd (filter (\<lambda>x. fst x = name) h)"

definition single :: "header_map \<Rightarrow> string \<Rightarrow> byte list option" where
  "single h name = (case get_all h name of [v] \<Rightarrow> if length v \<le> MAX_FIELD then Some v else None | _ \<Rightarrow> None)"

fun digits_fold :: "u64 \<Rightarrow> byte list \<Rightarrow> u64 option" where
  "digits_fold n [] = Some n"
| "digits_fold n (b # bs) =
     (if \<not> is_ascii_digit b then None
      else case Option.bind (checked_mul n 10) (\<lambda>m. checked_add m (of_char b - 48)) of
        None \<Rightarrow> None | Some m \<Rightarrow> digits_fold m bs)"

definition digits :: "byte list \<Rightarrow> u64 option" where
  "digits v = (if v = [] \<or> 20 < length v then None else digits_fold 0 v)"

definition ascii_whitespace :: "byte \<Rightarrow> bool" where
  "ascii_whitespace b \<longleftrightarrow> (of_char b :: nat) \<in> {9, 10, 12, 13, 32}"

definition trim_ascii :: "byte list \<Rightarrow> byte list" where
  "trim_ascii v = rev (dropWhile ascii_whitespace (rev (dropWhile ascii_whitespace v)))"

definition representation_is_plain :: "header_map \<Rightarrow> bool" where
  "representation_is_plain h \<longleftrightarrow>
     (case length (get_all h ''content-encoding'') of
        0 \<Rightarrow> True
      | Suc 0 \<Rightarrow> (case single h ''content-encoding'' of None \<Rightarrow> False | Some v \<Rightarrow> eq_ignore_ascii_case v ''identity'')
      | _ \<Rightarrow> False) \<and>
     \<not> (get_all h ''transfer-encoding'' \<noteq> [] \<and> get_all h ''content-length'' \<noteq> []) \<and>
     (case length (get_all h ''content-type'') of
        0 \<Rightarrow> True
      | Suc 0 \<Rightarrow> (case single h ''content-type'' of None \<Rightarrow> False
          | Some v \<Rightarrow> \<not> (10 \<le> length (trim_ascii v) \<and> eq_ignore_ascii_case (take 10 (trim_ascii v)) ''multipart/''))
      | _ \<Rightarrow> False)"

definition strip_bytes :: "byte list \<Rightarrow> byte list option" where
  "strip_bytes v = (if take 6 v = ''bytes '' then Some (drop 6 v) else None)"

text \<open>Cutting at the first occurrence of a byte, which stays with the rest.\<close>

definition split_at_byte :: "byte \<Rightarrow> byte list \<Rightarrow> (byte list \<times> byte list) option" where
  "split_at_byte c v = (if c \<in> set v then Some (takeWhile (\<lambda>b. b \<noteq> c) v, dropWhile (\<lambda>b. b \<noteq> c) v) else None)"

definition header_content_range :: "header_map \<Rightarrow> byte_range \<Rightarrow> u64 option" where
  "header_content_range h expected =
     Option.bind (single h ''content-range'') (\<lambda>v.
     Option.bind (strip_bytes v) (\<lambda>rest.
     Option.bind (split_at_byte (CHR ''/'') rest) (\<lambda>(rng, tail).
     Option.bind (digits (tl tail)) (\<lambda>n.
     Option.bind (split_at_byte (CHR ''-'') rng) (\<lambda>(s, e).
     Option.bind (digits s) (\<lambda>start.
     Option.bind (digits (tl e)) (\<lambda>last.
     if start \<noteq> br_start expected then None
     else Option.bind (checked_add last 1) (\<lambda>e'.
       if e' \<noteq> br_end expected \<or> n \<le> last then None else Some n))))))))"

text \<open>Well-formed UTF-8.\<close>

fun utf8_tail :: "nat \<Rightarrow> nat \<Rightarrow> nat \<Rightarrow> byte list \<Rightarrow> byte list option" where
  "utf8_tail 0 lo hi bs = Some bs"
| "utf8_tail (Suc k) lo hi [] = None"
| "utf8_tail (Suc k) lo hi (b # bs) =
     (if lo \<le> (of_char b :: nat) \<and> (of_char b :: nat) \<le> hi then utf8_tail k 128 191 bs else None)"

definition utf8_char :: "byte \<Rightarrow> byte list \<Rightarrow> byte list option" where
  "utf8_char b bs =
     (let n = of_char b :: nat in
      if n < 128 then Some bs
      else if 194 \<le> n \<and> n \<le> 223 then utf8_tail 1 128 191 bs
      else if n = 224 then utf8_tail 2 160 191 bs
      else if n = 237 then utf8_tail 2 128 159 bs
      else if 225 \<le> n \<and> n \<le> 239 then utf8_tail 2 128 191 bs
      else if n = 240 then utf8_tail 3 144 191 bs
      else if 241 \<le> n \<and> n \<le> 243 then utf8_tail 3 128 191 bs
      else if n = 244 then utf8_tail 3 128 143 bs
      else None)"

lemma utf8_tail_length: "utf8_tail k lo hi bs = Some cs \<Longrightarrow> length cs \<le> length bs"
  by (induction k lo hi bs rule: utf8_tail.induct) (auto split: if_splits)

lemma utf8_char_length: "utf8_char b bs = Some cs \<Longrightarrow> length cs \<le> length bs"
  by (auto simp: utf8_char_def Let_def split: if_splits dest: utf8_tail_length)

function utf8_ok :: "byte list \<Rightarrow> bool" where
  "utf8_ok [] \<longleftrightarrow> True"
| "utf8_ok (b # bs) \<longleftrightarrow> (case utf8_char b bs of None \<Rightarrow> False | Some cs \<Rightarrow> utf8_ok cs)"
  by pat_completeness auto
termination
  by (relation "measure length") (auto dest: utf8_char_length)

definition strong_validator :: "header_map \<Rightarrow> byte list option" where
  "strong_validator h =
     Option.bind (single h ''etag'') (\<lambda>v.
     case strong_etag_parse v of Inl _ \<Rightarrow> None | Inr _ \<Rightarrow> if utf8_ok v then Some v else None)"

definition validator_digest :: "(byte list \<Rightarrow> digest) \<Rightarrow> byte list \<Rightarrow> digest" where
  "validator_digest sha etag =
     sha (''FHD.representation.validator.v1'' @ [CHR 0x00] @ le_bytes 8 (length etag) @ etag)"

definition origin_digest :: "(byte list \<Rightarrow> digest) \<Rightarrow> byte list \<Rightarrow> byte list \<Rightarrow> byte list \<Rightarrow> byte list" where
  "origin_digest sha salt label value = take 16 (sha (salt @ label @ le_bytes 8 (length value) @ value))"

definition http_origin :: "(byte list \<Rightarrow> digest) \<Rightarrow> byte list \<Rightarrow> 'u url_lib \<Rightarrow> 'u registry \<Rightarrow> SourceRef \<Rightarrow> byte list" where
  "http_origin sha salt ul g s =
     (case rg_bindings g s of
        Some b \<Rightarrow> origin_digest sha salt (''FHD.transport.origin.v1'' @ [CHR 0x00]) (ul_serialize ul (ul_origin ul (sb_url b)))
      | None \<Rightarrow> origin_digest sha salt (''FHD.transport.unbound-source.v1'' @ [CHR 0x00]) (le_bytes 8 s))"

definition status_error :: "nat \<Rightarrow> header_map \<Rightarrow> TransportError" where
  "status_error status h =
     (let retry_after_ms = map_option (\<lambda>ms. min ms 86400000)
            (Option.bind (Option.bind (single h ''retry-after'') digits) (\<lambda>s. checked_mul s 1000)) in
      if status \<in> {408, 425, 500, 502, 504} then TransportTransient
      else if status \<in> {429, 503} then TransportThrottled retry_after_ms
      else if status \<in> {401, 407} then TransportUserAction RAuthentication
      else if status \<in> {403, 451} then TransportUserAction RPolicy
      else if status \<in> {404, 410} then TransportUserAction RSourceChanged
      else if status = 416 then TransportRepresentationChanged
      else TransportFatal RUnknown)"

section \<open>Connection failures\<close>

datatype Refusal = RefusedCertificate | RevocationUnknown | RefusedOther

fun prefix_at :: "byte list \<Rightarrow> byte list \<Rightarrow> bool" where
  "prefix_at [] ys \<longleftrightarrow> True"
| "prefix_at (x # xs) (y # ys) \<longleftrightarrow> x = y \<and> prefix_at xs ys"
| "prefix_at (x # xs) [] \<longleftrightarrow> False"

fun contains_text :: "byte list \<Rightarrow> byte list \<Rightarrow> bool" where
  "contains_text text [] \<longleftrightarrow> text = []"
| "contains_text text (b # bs) \<longleftrightarrow> prefix_at text (b # bs) \<or> contains_text text bs"

fun before_text :: "byte list \<Rightarrow> byte list \<Rightarrow> byte list" where
  "before_text text [] = []"
| "before_text text (b # bs) = (if prefix_at text (b # bs) then [] else b # before_text text bs)"

fun after_text :: "byte list \<Rightarrow> byte list \<Rightarrow> byte list option" where
  "after_text text [] = None"
| "after_text text (b # bs) = (if prefix_at text (b # bs) then Some (drop (length text) (b # bs)) else after_text text bs)"

definition ascii_alphanumeric :: "byte \<Rightarrow> bool" where
  "ascii_alphanumeric b \<longleftrightarrow> (let n = of_char b :: nat in 48 \<le> n \<and> n \<le> 57 \<or> 65 \<le> n \<and> n \<le> 90 \<or> 97 \<le> n \<and> n \<le> 122)"

definition PEER_CERTIFICATE :: "byte list" where "PEER_CERTIFICATE = ''invalid peer certificate: ''"

definition refusal_of :: "byte list \<Rightarrow> Refusal option" where
  "refusal_of text =
     (case after_text PEER_CERTIFICATE text of
        Some rest \<Rightarrow>
          if takeWhile ascii_alphanumeric (before_text PEER_CERTIFICATE rest) \<in> {''UnknownRevocationStatus'', ''ExpiredRevocationList''}
          then Some RevocationUnknown else Some RefusedCertificate
      | None \<Rightarrow>
          if list_ex (\<lambda>needle. contains_text needle (map ascii_lower text))
               [''tls'', ''handshake'', ''certificate'', ''dns error'', ''lookup address'']
          then Some RefusedOther else None)"

text \<open>An error is the chain of its messages, from the outermost.\<close>

definition connection_error :: "byte list list \<Rightarrow> TransportError" where
  "connection_error causes =
     (case fold (\<lambda>line found. case refusal_of line of Some r \<Rightarrow> Some r | None \<Rightarrow> found) causes None of
        Some _ \<Rightarrow> TransportUserAction RPolicy
      | None \<Rightarrow> TransportTransient)"

section \<open>Requests\<close>

record 'u http_request =
  hq_url :: 'u
  hq_authorization :: "string option"
  hq_cookie :: "string option"
  hq_range :: "(u64 \<times> u64) option"
  hq_if_range :: "byte list option"

datatype exchange = NoAnswer | Broken "byte list list" | Answered http_response

definition next_hop :: "'u url_lib \<Rightarrow> 'u source_binding \<Rightarrow> 'u \<Rightarrow> http_response \<Rightarrow> (TransportError, 'u) result" where
  "next_hop ul b url r =
     res_bind (ok_or (single (hs_headers r) ''location'') (TransportFatal RUnknown)) (\<lambda>location.
     if \<not> utf8_ok location then Inl (TransportFatal RUnknown)
     else
     res_bind (ok_or (ul_join ul url location) (TransportFatal RUnknown)) (\<lambda>joined.
     res_bind (map_err (\<lambda>_. TransportFatal RPolicy) (parse_url ul (ul_as_str ul joined) (sb_allow_http b))) (\<lambda>next.
     if ul_scheme ul url = ''https'' \<and> ul_scheme ul next \<noteq> ''https'' then Inl (TransportFatal RPolicy)
     else if ul_origin ul next \<noteq> ul_origin ul url \<and>
             \<not> list_ex (\<lambda>origin. origin = ul_serialize ul (ul_origin ul next)) (sb_redirect_origins b)
     then Inl (TransportFatal RPolicy)
     else Inr next)))"

definition hop_request :: "'u source_binding \<Rightarrow> 'u \<Rightarrow> bool \<Rightarrow> (u64 \<times> u64) option \<Rightarrow> byte list option \<Rightarrow> 'u http_request" where
  "hop_request b url credentials rng if_range =
     \<lparr>hq_url = url, hq_authorization = (if credentials then sb_authorization b else None),
      hq_cookie = (if credentials then sb_cookie b else None), hq_range = rng,
      hq_if_range = (if rng = None then None else if_range)\<rparr>"

text \<open>The loop of \<open>send\<close>: at most so many hops, the requests made, and the response with the URL it
  came from. The server's answers are taken one per request.\<close>

fun send_loop :: "'u url_lib \<Rightarrow> 'u source_binding \<Rightarrow> (u64 \<times> u64) option \<Rightarrow> byte list option \<Rightarrow> nat \<Rightarrow> exchange list \<Rightarrow> 'u \<Rightarrow> bool \<Rightarrow>
  'u http_request list \<times> (TransportError, 'u \<times> http_response) result" where
  "send_loop ul b rng if_range 0 net url credentials = ([], Inl (TransportFatal RPolicy))"
| "send_loop ul b rng if_range (Suc hops) net url credentials =
     (if credentials \<and> list_ex (\<lambda>x. case x of None \<Rightarrow> False | Some v \<Rightarrow> \<not> ul_header_ok ul v) [sb_authorization b, sb_cookie b]
      then ([], Inl (TransportFatal RPolicy))
      else
        let request = hop_request b url credentials rng if_range in
        case (case net of [] \<Rightarrow> NoAnswer | x # _ \<Rightarrow> x) of
          NoAnswer \<Rightarrow> ([request], Inl TransportTransient)
        | Broken causes \<Rightarrow> ([request], Inl (connection_error causes))
        | Answered r \<Rightarrow>
            if hs_status r \<notin> {301, 302, 303, 307, 308} then ([request], Inr (url, r))
            else case next_hop ul b url r of
              Inl e \<Rightarrow> ([request], Inl e)
            | Inr next \<Rightarrow>
                (case send_loop ul b rng if_range hops (tl net) next (credentials \<and> ul_origin ul next = ul_origin ul (sb_url b)) of
                   (later, result) \<Rightarrow> (request # later, result)))"

definition send :: "'u url_lib \<Rightarrow> nat \<Rightarrow> 'u source_binding \<Rightarrow> 'u \<Rightarrow> (u64 \<times> u64) option \<Rightarrow> byte list option \<Rightarrow> exchange list \<Rightarrow>
  'u http_request list \<times> (TransportError, 'u \<times> http_response) result" where
  "send ul max_redirects b start rng if_range net =
     send_loop ul b rng if_range (Suc max_redirects) net start (ul_origin ul start = ul_origin ul (sb_url b))"

section \<open>Probe and fetch\<close>

definition probe_total :: "http_response \<Rightarrow> (TransportError, u64) result" where
  "probe_total r =
     (if hs_status r = 206 then
        ok_or (Option.bind (single (hs_headers r) ''content-range'') (\<lambda>v.
               Option.bind (strip_bytes v) (\<lambda>rest.
               Option.bind (split_at_byte (CHR ''/'') rest) (\<lambda>(_, tail). digits (tl tail))))) (TransportFatal RUnknown)
      else ok_or (Option.bind (single (hs_headers r) ''content-length'') digits) (TransportFatal RPolicy))"

definition http_probe :: "(byte list \<Rightarrow> digest) \<Rightarrow> 'u url_lib \<Rightarrow> nat \<Rightarrow> 'u registry \<Rightarrow> SourceRef \<Rightarrow> exchange list \<Rightarrow>
  'u registry \<times> 'u http_request list \<times> (TransportError, probe) result" where
  "http_probe sha ul max_redirects g s net =
     (case rg_bindings g s of
        None \<Rightarrow> (g, [], Inl (TransportFatal RPolicy))
      | Some b \<Rightarrow>
          (case send ul max_redirects b (sb_url b) (Some (0, 1)) None net of
             (reqs, Inl e) \<Rightarrow> (g, reqs, Inl e)
           | (reqs, Inr (url, r)) \<Rightarrow>
               if hs_status r \<notin> {200, 206} then (g, reqs, Inl (status_error (hs_status r) (hs_headers r)))
               else if \<not> representation_is_plain (hs_headers r) then (g, reqs, Inl (TransportFatal RPolicy))
               else case probe_total r of
                 Inl e \<Rightarrow> (g, reqs, Inl e)
               | Inr n \<Rightarrow>
                   if I64_MAX < n then (g, reqs, Inl (TransportFatal RPolicy))
                   else case (hs_status r = 206, strong_validator (hs_headers r)) of
                     (True, Some etag) \<Rightarrow>
                       (g\<lparr>rg_probed := (rg_probed g)(s \<mapsto> \<lparr>rp_etag = etag, rp_total = n, rp_url = url\<rparr>)\<rparr>, reqs,
                        Inr \<lparr>pb_total = n, pb_validator = Some (validator_digest sha etag)\<rparr>)
                   | _ \<Rightarrow> (g\<lparr>rg_probed := (rg_probed g)(s := None)\<rparr>, reqs, Inr \<lparr>pb_total = n, pb_validator = None\<rparr>)))"

datatype body_event = BodyChunk "byte list" | BodyLate | BodyBroken "byte list list"

record http_stream =
  st_pending :: "byte list"
  st_remaining :: u64
  st_chunks :: "body_event list"

definition fetch_plan :: "(byte list \<Rightarrow> digest) \<Rightarrow> 'u source_binding \<Rightarrow> 'u representation option \<Rightarrow> byte_range \<Rightarrow> digest option \<Rightarrow>
  (TransportError, 'u \<times> (u64 \<times> u64) option \<times> byte list option) result" where
  "fetch_plan sha b probed rng validator =
     (if validator \<noteq> map_option (\<lambda>p. validator_digest sha (rp_etag p)) probed then Inl TransportRepresentationChanged
      else case probed of
        Some p \<Rightarrow> Inr (rp_url p, Some (br_start rng, br_end rng), Some (rp_etag p))
      | None \<Rightarrow> if br_start rng = 0 then Inr (sb_url b, None, None) else Inl TransportRepresentationChanged)"

definition fetch_accepts :: "'u representation option \<Rightarrow> byte_range \<Rightarrow> http_response \<Rightarrow> bool" where
  "fetch_accepts probed rng r \<longleftrightarrow>
     (let declared = Option.bind (single (hs_headers r) ''content-length'') digits in
      case probed of
        Some p \<Rightarrow> hs_status r = 206 \<and> strong_validator (hs_headers r) = Some (rp_etag p) \<and>
          header_content_range (hs_headers r) rng = Some (rp_total p) \<and>
          (case declared of None \<Rightarrow> True | Some n \<Rightarrow> n = br_len rng)
      | None \<Rightarrow> hs_status r \<noteq> 206 \<and> declared = Some (br_len rng))"

text \<open>The body is what the connection brings after the head: chunks, silence or failures; the end of
  the list is the end of the body.\<close>

definition http_fetch :: "(byte list \<Rightarrow> digest) \<Rightarrow> 'u url_lib \<Rightarrow> nat \<Rightarrow> 'u registry \<Rightarrow> SourceRef \<Rightarrow> byte_range \<Rightarrow> digest option \<Rightarrow>
  exchange list \<Rightarrow> body_event list \<Rightarrow> 'u http_request list \<times> (TransportError, http_stream) result" where
  "http_fetch sha ul max_redirects g s rng validator net body =
     (case rg_bindings g s of
        None \<Rightarrow> ([], Inl (TransportFatal RPolicy))
      | Some b \<Rightarrow>
          (case fetch_plan sha b (rg_probed g s) rng validator of
             Inl e \<Rightarrow> ([], Inl e)
           | Inr (url, request, if_range) \<Rightarrow>
               (case send ul max_redirects b url request if_range net of
                  (reqs, Inl e) \<Rightarrow> (reqs, Inl e)
                | (reqs, Inr (_, r)) \<Rightarrow>
                    if hs_status r \<notin> {200, 206} then (reqs, Inl (status_error (hs_status r) (hs_headers r)))
                    else if \<not> representation_is_plain (hs_headers r) then (reqs, Inl (TransportFatal RPolicy))
                    else if \<not> fetch_accepts (rg_probed g s) rng r then (reqs, Inl TransportRepresentationChanged)
                    else (reqs, Inr \<lparr>st_pending = [], st_remaining = br_len rng, st_chunks = body\<rparr>))))"

text \<open>Waiting for a chunk that is not empty; a chunk beyond the range and an end before it are
  failures, and so is no chunk in time.\<close>

fun stream_wait :: "u64 \<Rightarrow> body_event list \<Rightarrow> body_event list \<times> (TransportError, byte list) result" where
  "stream_wait remaining [] = ([], if remaining = 0 then Inr [] else Inl TransportTransient)"
| "stream_wait remaining (BodyLate # chunks) = (chunks, Inl TransportTransient)"
| "stream_wait remaining (BodyBroken causes # chunks) = (chunks, Inl (connection_error causes))"
| "stream_wait remaining (BodyChunk c # chunks) =
     (if remaining < length c then (chunks, Inl TransportTransient)
      else if c = [] then stream_wait remaining chunks
      else (chunks, Inr c))"

definition stream_read :: "http_stream \<Rightarrow> nat \<Rightarrow> http_stream \<times> (TransportError, byte list) result" where
  "stream_read st n =
     (if n = 0 then (st, Inl (TransportFatal RPolicy))
      else
        let (chunks, got) = (if st_pending st = [] then stream_wait (st_remaining st) (st_chunks st) else (st_chunks st, Inr (st_pending st))) in
        case got of
          Inl e \<Rightarrow> (st\<lparr>st_chunks := chunks\<rparr>, Inl e)
        | Inr pending \<Rightarrow>
            (st\<lparr>st_pending := drop n pending, st_remaining := st_remaining st - length (take n pending), st_chunks := chunks\<rparr>,
             Inr (take n pending)))"

end
