(* ===== verification/Http_Props.thy ===== *)
theory Http_Props
  imports Http "HOL-Library.Sublist"
begin

text \<open>
  What the transport promises: credentials are only ever sent to the origin they were given for, no
  redirect leaves the allowed origins or falls back to plain HTTP, and a fetched range yields
  exactly its bytes or a failure.
\<close>

section \<open>Redirects\<close>

definition url_allowed :: "'u url_lib \<Rightarrow> 'u source_binding \<Rightarrow> 'u \<Rightarrow> bool" where
  "url_allowed ul b u \<longleftrightarrow>
     (ul_origin ul u = ul_origin ul (sb_url b) \<or> ul_serialize ul (ul_origin ul u) \<in> set (sb_redirect_origins b)) \<and>
     (ul_scheme ul u = ''https'' \<or> ul_scheme ul u = ''http'' \<and> sb_allow_http b \<and> ul_scheme ul (sb_url b) = ''http'')"

definition request_allowed :: "'u url_lib \<Rightarrow> 'u source_binding \<Rightarrow> 'u http_request \<Rightarrow> bool" where
  "request_allowed ul b q \<longleftrightarrow> url_allowed ul b (hq_url q) \<and>
     (hq_authorization q \<noteq> None \<longrightarrow> ul_origin ul (hq_url q) = ul_origin ul (sb_url b) \<and> hq_authorization q = sb_authorization b) \<and>
     (hq_cookie q \<noteq> None \<longrightarrow> ul_origin ul (hq_url q) = ul_origin ul (sb_url b) \<and> hq_cookie q = sb_cookie b)"

lemma parse_url_scheme:
  assumes "parse_url ul raw allow_http = Inr u"
  shows "ul_scheme ul u = ''https'' \<or> ul_scheme ul u = ''http'' \<and> allow_http"
  using assms by (auto simp: parse_url_def res_simps split: if_splits)

lemma next_hop_allowed:
  assumes "next_hop ul b url r = Inr u" "url_allowed ul b url"
  shows "url_allowed ul b u"
proof -
  obtain raw where "parse_url ul raw (sb_allow_http b) = Inr u" "\<not> (ul_scheme ul url = ''https'' \<and> ul_scheme ul u \<noteq> ''https'')"
    "ul_origin ul u = ul_origin ul url \<or> ul_serialize ul (ul_origin ul u) \<in> set (sb_redirect_origins b)"
    using assms(1) by (auto simp: next_hop_def res_simps list_ex_iff split: if_splits)
  then show ?thesis using assms(2) parse_url_scheme [of ul raw "sb_allow_http b" u] by (auto simp: url_allowed_def)
qed

lemma send_loop_allowed:
  assumes "send_loop ul b rng if_range hops net url credentials = (reqs, result)" "url_allowed ul b url"
    and "credentials \<longrightarrow> ul_origin ul url = ul_origin ul (sb_url b)"
  shows "(\<forall>q \<in> set reqs. request_allowed ul b q) \<and> length reqs \<le> hops \<and> (\<forall>u r. result = Inr (u, r) \<longrightarrow> url_allowed ul b u)"
  using assms
proof (induction hops arbitrary: net url credentials reqs)
  case (Suc hops)
  have req: "request_allowed ul b (hop_request b url credentials rng if_range)"
    using Suc.prems(2,3) by (auto simp: request_allowed_def hop_request_def)
  show ?case
  proof (cases "reqs = [hop_request b url credentials rng if_range] \<and> (\<forall>u r. result = Inr (u, r) \<longrightarrow> u = url) \<or> reqs = [] \<and> (\<exists>e. result = Inl e)")
    case True
    then show ?thesis using req Suc.prems(2) by auto
  next
    case False
    then obtain r u later where hop: "next_hop ul b url r = Inr u" "reqs = hop_request b url credentials rng if_range # later"
      and later: "send_loop ul b rng if_range hops (tl net) u (credentials \<and> ul_origin ul u = ul_origin ul (sb_url b)) = (later, result)"
      using Suc.prems(1) by (auto simp: Let_def split: if_splits list.splits exchange.splits sum.splits prod.splits)
    then show ?thesis using Suc.IH [OF later next_hop_allowed [OF hop(1) Suc.prems(2)]] req by auto
  qed
qed auto

lemma send_allowed:
  assumes "send ul n b url rng if_range net = (reqs, result)" "url_allowed ul b url"
  shows "(\<forall>q \<in> set reqs. request_allowed ul b q) \<and> length reqs \<le> Suc n \<and> (\<forall>u r. result = Inr (u, r) \<longrightarrow> url_allowed ul b u)"
  using send_loop_allowed [OF assms(1) [unfolded send_def] assms(2)] by simp

section \<open>Runs\<close>

text \<open>Everything the transport does over time, with every request it makes and the binding it is
  made for.\<close>

type_synonym 'u sent = "SourceRef \<times> 'u source_binding \<times> 'u http_request"

inductive http_run :: "(byte list \<Rightarrow> digest) \<Rightarrow> 'u url_lib \<Rightarrow> nat \<Rightarrow> 'u sent list \<Rightarrow> 'u registry \<Rightarrow> bool" for sha ul n where
  hr_new: "http_run sha ul n [] registry_default"
| hr_bind: "http_run sha ul n log g \<Longrightarrow> binding_new ul raw authorization cookie allow_http origins = Inr b \<Longrightarrow>
    http_bind g s b = (g', r) \<Longrightarrow> http_run sha ul n log g'"
| hr_unbind: "http_run sha ul n log g \<Longrightarrow> http_run sha ul n log (http_unbind g s)"
| hr_probe: "http_run sha ul n log g \<Longrightarrow> http_probe sha ul n g s net = (g', reqs, r) \<Longrightarrow>
    http_run sha ul n (log @ map (\<lambda>q. (s, the (rg_bindings g s), q)) reqs) g'"
| hr_fetch: "http_run sha ul n log g \<Longrightarrow> http_fetch sha ul n g s rng validator net body = (reqs, r') \<Longrightarrow>
    http_run sha ul n (log @ map (\<lambda>q. (s, the (rg_bindings g s), q)) reqs) g"

definition registry_inv :: "'u url_lib \<Rightarrow> 'u registry \<Rightarrow> bool" where
  "registry_inv ul g \<longleftrightarrow> (\<forall>s b. rg_bindings g s = Some b \<longrightarrow> url_allowed ul b (sb_url b)) \<and>
     (\<forall>s p. rg_probed g s = Some p \<longrightarrow> (\<exists>b. rg_bindings g s = Some b \<and> url_allowed ul b (rp_url p)))"

lemma binding_allowed: "binding_new ul raw authorization cookie allow_http origins = Inr b \<Longrightarrow> url_allowed ul b (sb_url b)"
  using parse_url_scheme by (fastforce simp: binding_new_def res_simps url_allowed_def split: if_splits)

lemma probe_allowed:
  assumes "http_probe sha ul n g s net = (g', reqs, r)" "registry_inv ul g"
  shows "registry_inv ul g' \<and> (\<forall>q \<in> set reqs. request_allowed ul (the (rg_bindings g s)) q)"
proof (cases "rg_bindings g s")
  case None
  then show ?thesis using assms by (auto simp: http_probe_def)
next
  case (Some b)
  have ok: "url_allowed ul b (sb_url b)" using assms(2) Some by (simp add: registry_inv_def)
  obtain rs x where x: "send ul n b (sb_url b) (Some (0, 1)) None net = (rs, x)" by fastforce
  note sent = send_allowed [OF x ok]
  have reqs: "reqs = rs" using assms(1) Some x by (auto simp: http_probe_def split: sum.splits if_splits option.splits prod.splits bool.splits)
  have "g' = g \<or> (\<exists>u. url_allowed ul b u \<and> (\<exists>e t. g' = g\<lparr>rg_probed := (rg_probed g)(s \<mapsto> \<lparr>rp_etag = e, rp_total = t, rp_url = u\<rparr>)\<rparr>))
      \<or> g' = g\<lparr>rg_probed := (rg_probed g)(s := None)\<rparr>"
    using assms(1) Some x sent by (auto simp: http_probe_def split: sum.splits if_splits option.splits prod.splits bool.splits)
  then have "registry_inv ul g'" using assms(2) Some unfolding registry_inv_def by (elim disjE exE conjE) (simp_all split: if_split)
  then show ?thesis using sent reqs Some by auto
qed

lemma fetch_allowed:
  assumes "http_fetch sha ul n g s rng validator net body = (reqs, r)" "registry_inv ul g"
  shows "\<forall>q \<in> set reqs. request_allowed ul (the (rg_bindings g s)) q"
proof (cases "rg_bindings g s")
  case None
  then show ?thesis using assms by (auto simp: http_fetch_def)
next
  case (Some b)
  show ?thesis
  proof (cases "fetch_plan sha b (rg_probed g s) rng validator")
    case (Inl e)
    then show ?thesis using assms Some by (auto simp: http_fetch_def)
  next
    case (Inr plan)
    obtain u q i where p: "plan = (u, q, i)" by (cases plan)
    have "url_allowed ul b u"
      using Inr p assms(2) Some unfolding registry_inv_def by (fastforce simp: fetch_plan_def split: option.splits if_splits)
    then obtain rs x where x: "send ul n b u q i net = (rs, x)" and sent: "\<forall>q \<in> set rs. request_allowed ul b q"
      using send_allowed [of ul n b u q i net] by fastforce
    have "reqs = rs" using assms(1) Some Inr p x by (auto simp: http_fetch_def split: sum.splits if_splits prod.splits)
    then show ?thesis using sent Some by simp
  qed
qed

lemma http_run_inv: "http_run sha ul n log g \<Longrightarrow> registry_inv ul g \<and> (\<forall>(s, b, q) \<in> set log. request_allowed ul b q)"
proof (induction rule: http_run.induct)
  case hr_new
  then show ?case by (simp add: registry_inv_def registry_default_def)
next
  case (hr_bind log g raw authorization cookie allow_http origins b s g' r)
  then have "g' = g \<or> g' = g\<lparr>rg_bindings := (rg_bindings g)(s \<mapsto> b)\<rparr> \<and> rg_bindings g s = None"
    by (auto simp: http_bind_def split: if_splits)
  then have "registry_inv ul g'"
    using hr_bind.IH binding_allowed [OF hr_bind.hyps(2)] unfolding registry_inv_def
    by (elim disjE conjE) (simp_all split: if_split, fastforce)
  then show ?case using hr_bind.IH by blast
next
  case (hr_unbind log g s)
  then show ?case by (auto simp: registry_inv_def http_unbind_def)
next
  case (hr_probe log g s net g' reqs r)
  then show ?case using probe_allowed [OF hr_probe.hyps(2)] by auto
next
  case (hr_fetch log g s rng validator net body reqs r')
  then show ?case using fetch_allowed [OF hr_fetch.hyps(2)] by auto
qed

section \<open>The stream of a range\<close>

text \<open>Reads of the given sizes, until one fails or reports the end.\<close>

fun read_stream :: "http_stream \<Rightarrow> nat list \<Rightarrow> byte list \<times> (TransportError, bool) result" where
  "read_stream st [] = ([], Inr False)"
| "read_stream st (n # ns) =
     (case stream_read st n of
        (_, Inl e) \<Rightarrow> ([], Inl e)
      | (st', Inr bs) \<Rightarrow> if bs = [] then ([], Inr True) else (case read_stream st' ns of (rest, r) \<Rightarrow> (bs @ rest, r)))"

fun body_bytes :: "body_event list \<Rightarrow> byte list" where
  "body_bytes [] = []"
| "body_bytes (BodyChunk c # es) = c @ body_bytes es"
| "body_bytes (_ # es) = body_bytes es"

lemma stream_wait_ok:
  "stream_wait n es = (es', Inr c) \<Longrightarrow> length c \<le> n \<and> body_bytes es = c @ body_bytes es' \<and> (c = [] \<longrightarrow> n = 0)"
  by (induction n es rule: stream_wait.induct) (auto split: if_splits)

lemma stream_read_ok:
  assumes "stream_read st n = (st', Inr bs)" "length (st_pending st) \<le> st_remaining st"
  shows "length (st_pending st') \<le> st_remaining st'" "st_remaining st = length bs + st_remaining st'"
    "st_pending st @ body_bytes (st_chunks st) = bs @ st_pending st' @ body_bytes (st_chunks st')" "bs = [] \<Longrightarrow> st_remaining st = 0"
proof -
  obtain es c where es: "(if st_pending st = [] then stream_wait (st_remaining st) (st_chunks st) else (st_chunks st, Inr (st_pending st))) = (es, Inr c)"
    and n: "0 < n" and st': "st' = st\<lparr>st_pending := drop n c, st_remaining := st_remaining st - length (take n c), st_chunks := es\<rparr>" "bs = take n c"
    using assms(1) by (auto simp: stream_read_def Let_def split: if_splits prod.splits sum.splits)
  have c: "length c \<le> st_remaining st" "st_pending st @ body_bytes (st_chunks st) = c @ body_bytes es" "c = [] \<longrightarrow> st_remaining st = 0"
    using es assms(2) stream_wait_ok [of "st_remaining st" "st_chunks st" es c] by (auto split: if_splits)
  show "length (st_pending st') \<le> st_remaining st'" "st_remaining st = length bs + st_remaining st'" "bs = [] \<Longrightarrow> st_remaining st = 0"
    using c n by (auto simp: st')
  show "st_pending st @ body_bytes (st_chunks st) = bs @ st_pending st' @ body_bytes (st_chunks st')"
    using c(2) unfolding st' by (simp flip: append_assoc)
qed

lemma read_stream_ok:
  assumes "read_stream st ns = (D, r)" "length (st_pending st) \<le> st_remaining st"
  shows "length D \<le> st_remaining st \<and> prefix D (st_pending st @ body_bytes (st_chunks st)) \<and> (r = Inr True \<longrightarrow> length D = st_remaining st)"
  using assms
proof (induction ns arbitrary: st D)
  case (Cons n ns)
  obtain st' x where x: "stream_read st n = (st', x)" by fastforce
  show ?case
  proof (cases x)
    case (Inl e)
    then show ?thesis using Cons.prems x by auto
  next
    case (Inr bs)
    note ok = stream_read_ok [OF x [unfolded Inr] Cons.prems(2)]
    show ?thesis
    proof (cases "bs = []")
      case True
      then show ?thesis using Cons.prems x Inr ok(4) by simp
    next
      case False
      then obtain E where E: "read_stream st' ns = (E, r)" "D = bs @ E" using Cons.prems x Inr by (auto split: prod.splits)
      then show ?thesis using Cons.IH [OF E(1) ok(1)] ok(2,3) by (auto simp: prefix_def)
    qed
  qed
qed auto

text \<open>A body that brings exactly the range is read to its end, whatever the sizes of reads and
  chunks.\<close>

lemma stream_wait_serves:
  assumes "n = length (body_bytes (map BodyChunk cs))"
  shows "\<exists>c cs'. stream_wait n (map BodyChunk cs) = (map BodyChunk cs', Inr c) \<and> concat cs = c @ concat cs' \<and> (c = [] \<longrightarrow> n = 0)"
  using assms
proof (induction cs)
  case Nil
  then show ?case by (auto intro: exI [of _ "[]"])
next
  case (Cons c cs)
  show ?case
  proof (cases "c = []")
    case True
    then show ?thesis using Cons by auto
  next
    case False
    then show ?thesis using Cons.prems by (intro exI [of _ c] exI [of _ cs]) simp
  qed
qed

lemma body_bytes_chunks [simp]: "body_bytes (map BodyChunk cs) = concat cs"
  by (induction cs) auto

lemma read_stream_serves:
  assumes "st_chunks st = map BodyChunk cs" "st_remaining st = length (st_pending st @ concat cs)" "\<forall>n \<in> set ns. 0 < n"
    and "st_remaining st < length ns"
  shows "read_stream st ns = (st_pending st @ concat cs, Inr True)"
  using assms
proof (induction ns arbitrary: st cs)
  case (Cons n ns)
  have "\<exists>c cs'. (if st_pending st = [] then stream_wait (st_remaining st) (st_chunks st) else (st_chunks st, Inr (st_pending st))) =
      (map BodyChunk cs', Inr c) \<and> st_pending st @ concat cs = c @ concat cs' \<and> (c = [] \<longrightarrow> st_remaining st = 0)"
    using stream_wait_serves [of "st_remaining st" cs] Cons.prems(1,2) by (cases "st_pending st = []") auto
  then obtain c cs' where c: "(if st_pending st = [] then stream_wait (st_remaining st) (st_chunks st) else (st_chunks st, Inr (st_pending st))) =
      (map BodyChunk cs', Inr c)" "st_pending st @ concat cs = c @ concat cs'" "c = [] \<longrightarrow> st_remaining st = 0" by blast
  let ?st = "st\<lparr>st_pending := drop n c, st_remaining := st_remaining st - length (take n c), st_chunks := map BodyChunk cs'\<rparr>"
  have read: "stream_read st n = (?st, Inr (take n c))" using c(1) Cons.prems(3) by (simp add: stream_read_def Let_def)
  show ?case
  proof (cases "c = []")
    case True
    then have "st_pending st @ concat cs = []" using c(3) Cons.prems(2) by (metis length_0_conv)
    then show ?thesis using True read by simp
  next
    case False
    have len: "st_remaining st = length c + length (concat cs')" using Cons.prems(2) c(2) by (metis length_append)
    have pos: "0 < length (take n c)" using False Cons.prems(3) by simp
    obtain k where k: "length (take n c) = k" "k \<le> length c" by simp
    have less: "st_remaining st - length (take n c) < length ns"
      using len Cons.prems(4) pos k(2) unfolding k(1) by simp
    have "read_stream ?st ns = (st_pending ?st @ concat cs', Inr True)"
      using len Cons.prems(3) less by (intro Cons.IH) auto
    then show ?thesis using read pos c(2) by (simp flip: append_assoc)
  qed
qed simp

section \<open>Properties\<close>

text \<open>
  C26. Credentials stay with the origin they were given for. Whatever sources are bound and unbound,
  probed and fetched, and whatever the servers answer, every request of the transport that carries
  an authorization or a cookie goes to the origin of the URL it was bound with and carries that
  binding's own value; every request goes to that origin or to one the binding lists, over HTTPS
  unless the bound URL itself is plain HTTP and was allowed to be.
\<close>

theorem credentials_stay_home:
  assumes "http_run sha ul n log g" "(s, b, q) \<in> set log"
  shows "(hq_authorization q \<noteq> None \<longrightarrow> ul_origin ul (hq_url q) = ul_origin ul (sb_url b) \<and> hq_authorization q = sb_authorization b) \<and>
    (hq_cookie q \<noteq> None \<longrightarrow> ul_origin ul (hq_url q) = ul_origin ul (sb_url b) \<and> hq_cookie q = sb_cookie b) \<and>
    (ul_origin ul (hq_url q) = ul_origin ul (sb_url b) \<or> ul_serialize ul (ul_origin ul (hq_url q)) \<in> set (sb_redirect_origins b)) \<and>
    (ul_scheme ul (hq_url q) = ''https'' \<or>
     ul_scheme ul (hq_url q) = ''http'' \<and> sb_allow_http b \<and> ul_scheme ul (sb_url b) = ''http'')"
  using http_run_inv [OF assms(1)] assms(2) by (auto simp: request_allowed_def url_allowed_def)

definition sample_urls :: "bool url_lib" where
  "sample_urls = \<lparr>ul_parse = (\<lambda>raw. Some (raw = [72])), ul_as_str = (\<lambda>u. if u then [72] else [77]),
     ul_join = (\<lambda>_ l. Some (l = ''H'')), ul_scheme = (\<lambda>_. ''https''), ul_host = (\<lambda>_. Some ''h''), ul_username = (\<lambda>_. []),
     ul_password = (\<lambda>_. None), ul_fragment = (\<lambda>_. None), ul_query = (\<lambda>_. None), ul_path = (\<lambda>_. ''/''),
     ul_origin = (\<lambda>u. (''https'', if u then ''h'' else ''m'', 443)), ul_serialize = (\<lambda>x. fst (snd x)), ul_header_ok = (\<lambda>_. True)\<rparr>"

definition sample_binding :: "bool source_binding" where
  "sample_binding = \<lparr>sb_url = True, sb_authorization = Some ''k'', sb_cookie = None, sb_allow_http = False, sb_redirect_origins = [''m'']\<rparr>"

definition sample_registry :: "bool registry" where
  "sample_registry = \<lparr>rg_bindings = [7 \<mapsto> sample_binding], rg_probed = Map.empty\<rparr>"

lemma sample_binding_new: "binding_new sample_urls [72] (Some ''k'') None False [[77]] = Inr sample_binding"
  by (simp add: binding_new_def parse_url_def redirect_origin_def sample_urls_def sample_binding_def credential_ok_def
      ascii_control_def utf8_len_def is_control_def MAX_URL_BYTES_def MAX_FIELD_def)

lemma sample_registry_run: "http_run sha sample_urls n [] sample_registry"
proof (rule hr_bind [OF hr_new sample_binding_new])
  show "http_bind registry_default 7 sample_binding = (sample_registry, Inr ())"
    by (simp add: http_bind_def registry_default_def sample_registry_def)
qed

definition sample_hops :: "exchange list" where
  "sample_hops = [Answered \<lparr>hs_status = 302, hs_headers = [(''location'', ''M'')]\<rparr>,
     Answered \<lparr>hs_status = 200, hs_headers = [(''content-length'', ''2'')]\<rparr>]"

definition sample_sent :: "bool http_request list" where
  "sample_sent =
     [\<lparr>hq_url = True, hq_authorization = Some ''k'', hq_cookie = None, hq_range = Some (0, 1), hq_if_range = None\<rparr>,
      \<lparr>hq_url = False, hq_authorization = None, hq_cookie = None, hq_range = Some (0, 1), hq_if_range = None\<rparr>]"

lemma sample_probe: "\<exists>g. http_probe sha sample_urls (Suc 0) sample_registry 7 sample_hops = (g, sample_sent, Inr \<lparr>pb_total = 2, pb_validator = None\<rparr>)"
  by (simp add: http_probe_def sample_registry_def sample_hops_def sample_sent_def sample_binding_def send_def hop_request_def next_hop_def
      single_def get_all_def MAX_FIELD_def utf8_char_def parse_url_def sample_urls_def utf8_len_def is_control_def MAX_URL_BYTES_def
      representation_is_plain_def probe_total_def digits_def is_ascii_digit_def checked_mul_def checked_add_def width_simps Let_def)

theorem credentials_stay_home_witness:
  "\<exists>log g q. http_run (\<lambda>x. x) sample_urls (Suc 0) log g \<and> (7, sample_binding, q) \<in> set log \<and> hq_authorization q = Some ''k'' \<and>
     ul_origin sample_urls (hq_url q) = ul_origin sample_urls (sb_url sample_binding)"
proof -
  obtain g where g: "http_probe (\<lambda>x. x) sample_urls (Suc 0) sample_registry 7 sample_hops = (g, sample_sent, Inr \<lparr>pb_total = 2, pb_validator = None\<rparr>)"
    using sample_probe by blast
  note run = hr_probe [OF sample_registry_run g]
  have "(7, sample_binding, sample_sent ! 0) \<in> set ([] @ map (\<lambda>q. (7, the (rg_bindings sample_registry 7), q)) sample_sent)"
    "hq_authorization (sample_sent ! 0) = Some ''k''"
    by (simp_all add: sample_registry_def sample_sent_def)
  then show ?thesis using credentials_stay_home [OF run] run by blast
qed

text \<open>
  C27. A fetched range is the range, of the representation that was probed. If a fetch yields a
  stream, the server answered with the pinned strong tag, exactly the asked range and the probed
  total, or, for a source without ranges, with a whole body of exactly the asked length; whatever
  the connection then brings, the stream hands out a prefix of the body of at most the range's
  length and reports the end only after exactly that many bytes; and a body that brings exactly the
  range is read to its end, whatever the sizes of chunks and reads.
\<close>

theorem fetched_range_is_exact:
  assumes "http_fetch sha ul n g s rng validator net body = (reqs, Inr st)"
  shows "(\<exists>b u r. rg_bindings g s = Some b \<and> representation_is_plain (hs_headers r) \<and>
      validator = map_option (\<lambda>p. validator_digest sha (rp_etag p)) (rg_probed g s) \<and>
      (case rg_probed g s of
         Some p \<Rightarrow> send ul n b (rp_url p) (Some (br_start rng, br_end rng)) (Some (rp_etag p)) net = (reqs, Inr (u, r)) \<and>
           hs_status r = 206 \<and> strong_validator (hs_headers r) = Some (rp_etag p) \<and>
           header_content_range (hs_headers r) rng = Some (rp_total p)
       | None \<Rightarrow> send ul n b (sb_url b) None None net = (reqs, Inr (u, r)) \<and> br_start rng = 0 \<and> hs_status r = 200 \<and>
           Option.bind (single (hs_headers r) ''content-length'') digits = Some (br_len rng))) \<and>
    (\<forall>ns D x. read_stream st ns = (D, x) \<longrightarrow>
       length D \<le> br_len rng \<and> prefix D (body_bytes body) \<and> (x = Inr True \<longrightarrow> length D = br_len rng)) \<and>
    (\<forall>cs ns. body = map BodyChunk cs \<and> length (concat cs) = br_len rng \<and> (\<forall>k \<in> set ns. 0 < k) \<and> br_len rng < length ns \<longrightarrow>
       read_stream st ns = (concat cs, Inr True))"
proof -
  obtain b where b: "rg_bindings g s = Some b" using assms by (auto simp: http_fetch_def split: option.splits)
  obtain u0 q i where plan: "fetch_plan sha b (rg_probed g s) rng validator = Inr (u0, q, i)"
    using assms b by (auto simp: http_fetch_def split: sum.splits)
  obtain u r where sent: "send ul n b u0 q i net = (reqs, Inr (u, r))" "hs_status r \<in> {200, 206}" "representation_is_plain (hs_headers r)"
      "fetch_accepts (rg_probed g s) rng r"
    and st: "st = \<lparr>st_pending = [], st_remaining = br_len rng, st_chunks = body\<rparr>"
    using assms b plan by (auto simp: http_fetch_def split: sum.splits prod.splits if_splits)
  have one: "\<exists>b u r. rg_bindings g s = Some b \<and> representation_is_plain (hs_headers r) \<and>
      validator = map_option (\<lambda>p. validator_digest sha (rp_etag p)) (rg_probed g s) \<and>
      (case rg_probed g s of
         Some p \<Rightarrow> send ul n b (rp_url p) (Some (br_start rng, br_end rng)) (Some (rp_etag p)) net = (reqs, Inr (u, r)) \<and>
           hs_status r = 206 \<and> strong_validator (hs_headers r) = Some (rp_etag p) \<and>
           header_content_range (hs_headers r) rng = Some (rp_total p)
       | None \<Rightarrow> send ul n b (sb_url b) None None net = (reqs, Inr (u, r)) \<and> br_start rng = 0 \<and> hs_status r = 200 \<and>
           Option.bind (single (hs_headers r) ''content-length'') digits = Some (br_len rng))"
    using b plan sent by (intro exI [of _ b] exI [of _ u] exI [of _ r])
      (auto simp: fetch_plan_def fetch_accepts_def Let_def split: option.splits if_splits)
  have two: "length D \<le> br_len rng \<and> prefix D (body_bytes body) \<and> (x = Inr True \<longrightarrow> length D = br_len rng)"
    if "read_stream st ns = (D, x)" for ns D x
    using read_stream_ok [OF that] by (simp add: st)
  have three: "read_stream st ns = (concat cs, Inr True)"
    if "body = map BodyChunk cs \<and> length (concat cs) = br_len rng \<and> (\<forall>k \<in> set ns. 0 < k) \<and> br_len rng < length ns" for cs ns
    using read_stream_serves [of st cs ns] that by (simp add: st)
  show ?thesis using one two three by blast
qed

definition sample_range :: byte_range where "sample_range = \<lparr>br_start = 0, br_end = 2\<rparr>"

definition sample_stream :: http_stream where
  "sample_stream = \<lparr>st_pending = [], st_remaining = 2, st_chunks = [BodyChunk ''ab'']\<rparr>"

lemma sample_fetch: "\<exists>reqs. http_fetch sha sample_urls (Suc 0) sample_registry 7 sample_range None (tl sample_hops) [BodyChunk ''ab''] = (reqs, Inr sample_stream)"
  by (simp add: http_fetch_def sample_registry_def sample_hops_def sample_binding_def sample_range_def sample_stream_def fetch_plan_def
      fetch_accepts_def send_def hop_request_def single_def get_all_def MAX_FIELD_def sample_urls_def br_len_def
      representation_is_plain_def digits_def is_ascii_digit_def checked_mul_def checked_add_def width_simps Let_def)

theorem fetched_range_is_exact_witness:
  "read_stream sample_stream [1, 1, 1] = (''ab'', Inr True) \<and> length ''ab'' = br_len sample_range"
proof -
  obtain reqs where f: "http_fetch (\<lambda>x. x) sample_urls (Suc 0) sample_registry 7 sample_range None (tl sample_hops) [BodyChunk ''ab''] = (reqs, Inr sample_stream)"
    using sample_fetch by blast
  have len: "br_len sample_range = 2" by (simp add: sample_range_def br_len_def)
  have "read_stream sample_stream [1, 1, 1] = (concat [''ab''], Inr True)"
    using conjunct2 [OF conjunct2 [OF fetched_range_is_exact [OF f]], THEN spec [of _ "[''ab'']"], THEN spec [of _ "[1, 1, 1]"]]
    by (simp add: len)
  then show ?thesis using len by simp
qed

end
