(* ===== verification/Transfer_Store.thy ===== *)
theory Transfer_Store
  imports FHD_Prelude
begin

text \<open>
  The sequential store of the earlier engine (\<open>crates/transfer-store/src/lib.rs\<close>): a part file that
  only grows, one row that says how much of it is committed, and a destination it is linked to. Every
  call to the operating system or the database is answered from a list: it succeeds, fails, or fails
  with its effect done (a write, with some bytes written); an exhausted list means success. SHA-256
  is a parameter. Names are lists of code points.
\<close>

section \<open>Data\<close>

record store_identity =
  si_original :: digest
  si_final :: digest
  si_etag :: "byte list option"
  si_total :: u64
  si_expected :: "digest option"

datatype StoreStatus = Downloading | ReadyToPublish | StorePublished

datatype StoreError = StIo | StDatabase | StUnsupportedVersion | StInvalidInput | StCorrupt | StLocked
  | StCollision | StIncomplete | StHashMismatch | StNotWritable

definition url_fingerprint :: "(byte list \<Rightarrow> digest) \<Rightarrow> byte list \<Rightarrow> digest" where
  "url_fingerprint sha url = sha (''FHD.url-identity.v2'' @ [CHR 0x00] @ url)"

text \<open>The row of the table \<open>job\<close>; the column of known length exists in version 3 only.\<close>

record store_row =
  sr_version :: int
  sr_original :: "byte list"
  sr_final :: "byte list"
  sr_etag :: "byte list option"
  sr_total :: int
  sr_expected :: "byte list option"
  sr_output :: "nat list"
  sr_committed :: int
  sr_digest :: "byte list"
  sr_phase :: int
  sr_length_known :: int

datatype store_dest = NoDest | LinkedDest | OtherDest "byte list" | OddDest

text \<open>What is on disk: the part, how much of it is known to be synced and whether nothing changed it
  since, the row and the destination.\<close>

record store_disk =
  sd_part :: "byte list"
  sd_synced :: nat
  sd_clean :: bool
  sd_row :: store_row
  sd_dest :: store_dest

datatype store_answer = AnsOk | AnsFails | AnsUnclear nat

record transfer_store =
  ts_disk :: store_disk
  ts_identity :: store_identity
  ts_output :: "nat list"
  ts_len :: u64
  ts_committed :: u64
  ts_phase :: int
  ts_hashed :: "byte list"
  ts_poisoned :: bool
  ts_unknown_length :: bool
  ts_answers :: "store_answer list"

section \<open>Validation\<close>

definition validate_identity :: "store_identity \<Rightarrow> (StoreError, unit) result" where
  "validate_identity i =
     (if I64_MAX < si_total i \<or> (case si_etag i of None \<Rightarrow> False | Some e \<Rightarrow> 8192 < length e) then Inl StInvalidInput else Inr ())"

definition ascii_upper :: "nat \<Rightarrow> nat" where
  "ascii_upper c = (if 97 \<le> c \<and> c \<le> 122 then c - 32 else c)"

definition text_of :: "string \<Rightarrow> nat list" where
  "text_of s = map of_char s"

definition RESERVED :: "string list" where
  "RESERVED = [''owner.lock'', ''payload.part'', ''state.sqlite'', ''state.sqlite-journal'', ''state.sqlite-wal'', ''state.sqlite-shm'']"

definition name_ok :: "nat list \<Rightarrow> bool" where
  "name_ok name \<longleftrightarrow>
     (let stem = map ascii_upper (takeWhile (\<lambda>c. c \<noteq> 46) name) in
      name \<noteq> [] \<and> utf8_len name \<le> 180 \<and> last name \<noteq> 46 \<and> last name \<noteq> 32 \<and>
      \<not> list_ex (\<lambda>c. is_control c \<or> c \<in> set (text_of ([CHR 0x5C] @ ''/:*?'' @ [CHR 0x22] @ ''<>|''))) name \<and>
      name \<noteq> text_of ''.'' \<and> name \<noteq> text_of ''..'' \<and>
      stem \<notin> set (map text_of [''CON'', ''PRN'', ''AUX'', ''NUL'']) \<and>
      \<not> (utf8_len stem = 4 \<and> (take 3 stem = text_of ''COM'' \<or> take 3 stem = text_of ''LPT'') \<and> 48 \<le> stem ! 3 \<and> stem ! 3 \<le> 57) \<and>
      \<not> list_ex (\<lambda>r. map ascii_upper name = map ascii_upper (text_of r)) RESERVED)"

definition validate_name :: "nat list \<Rightarrow> (StoreError, unit) result" where
  "validate_name name = (if name_ok name then Inr () else Inl StInvalidInput)"

section \<open>Creating\<close>

definition initial_row :: "(byte list \<Rightarrow> digest) \<Rightarrow> store_identity \<Rightarrow> nat list \<Rightarrow> bool \<Rightarrow> store_row" where
  "initial_row sha i output unknown =
     \<lparr>sr_version = (if unknown then 3 else 2), sr_original = si_original i, sr_final = si_final i, sr_etag = si_etag i,
      sr_total = int (si_total i), sr_expected = si_expected i, sr_output = output, sr_committed = 0, sr_digest = sha [],
      sr_phase = 0, sr_length_known = 0\<rparr>"

text \<open>\<open>fails\<close> is the first call that fails, if one does: the directory is then left behind and never
  opens as a store.\<close>

definition store_create_inner :: "(byte list \<Rightarrow> digest) \<Rightarrow> StoreError option \<Rightarrow> store_identity \<Rightarrow> nat list \<Rightarrow> bool \<Rightarrow> store_answer list \<Rightarrow>
  (StoreError, transfer_store) result" where
  "store_create_inner sha fails i output unknown answers =
     res_bind (validate_name output) (\<lambda>_.
     res_bind (validate_identity i) (\<lambda>_.
     case fails of
       Some e \<Rightarrow> Inl e
     | None \<Rightarrow>
         Inr \<lparr>ts_disk = \<lparr>sd_part = [], sd_synced = 0, sd_clean = True, sd_row = initial_row sha i output unknown, sd_dest = NoDest\<rparr>,
              ts_identity = i, ts_output = output, ts_len = 0, ts_committed = 0, ts_phase = 0, ts_hashed = [],
              ts_poisoned = False, ts_unknown_length = unknown, ts_answers = answers\<rparr>))"

definition store_create :: "(byte list \<Rightarrow> digest) \<Rightarrow> StoreError option \<Rightarrow> store_identity \<Rightarrow> nat list \<Rightarrow> store_answer list \<Rightarrow>
  (StoreError, transfer_store) result" where
  "store_create sha fails i output answers = store_create_inner sha fails i output False answers"

definition store_create_unknown :: "(byte list \<Rightarrow> digest) \<Rightarrow> StoreError option \<Rightarrow> store_identity \<Rightarrow> nat list \<Rightarrow> store_answer list \<Rightarrow>
  (StoreError, transfer_store) result" where
  "store_create_unknown sha fails i output answers =
     (if si_total i = 0 then Inl StInvalidInput else store_create_inner sha fails i output True answers)"

section \<open>Operations\<close>

definition take_answer :: "transfer_store \<Rightarrow> transfer_store \<times> store_answer" where
  "take_answer s = (case ts_answers s of [] \<Rightarrow> (s, AnsOk) | a # as \<Rightarrow> (s\<lparr>ts_answers := as\<rparr>, a))"

text \<open>A call whose effect on the disk is done on success, not done on failure, and done on an unclear
  failure.\<close>

definition attempt_effect :: "StoreError \<Rightarrow> (store_disk \<Rightarrow> store_disk) \<Rightarrow> transfer_store \<Rightarrow> transfer_store \<times> (StoreError, unit) result" where
  "attempt_effect e effect s =
     (case take_answer s of
        (s1, AnsOk) \<Rightarrow> (s1\<lparr>ts_disk := effect (ts_disk s1)\<rparr>, Inr ())
      | (s1, AnsFails) \<Rightarrow> (s1, Inl e)
      | (s1, AnsUnclear _) \<Rightarrow> (s1\<lparr>ts_disk := effect (ts_disk s1)\<rparr>, Inl e))"

definition sync_effect :: "store_disk \<Rightarrow> store_disk" where
  "sync_effect d = d\<lparr>sd_synced := length (sd_part d), sd_clean := True\<rparr>"

definition grow_effect :: "byte list \<Rightarrow> store_disk \<Rightarrow> store_disk" where
  "grow_effect bytes d = d\<lparr>sd_part := sd_part d @ bytes, sd_clean := False\<rparr>"

definition cut_effect :: "nat \<Rightarrow> store_disk \<Rightarrow> store_disk" where
  "cut_effect n d = d\<lparr>sd_part := take n (sd_part d), sd_synced := min n (sd_synced d), sd_clean := False\<rparr>"

definition row_effect :: "(store_row \<Rightarrow> store_row) \<Rightarrow> store_disk \<Rightarrow> store_disk" where
  "row_effect f d = d\<lparr>sd_row := f (sd_row d)\<rparr>"

definition store_append :: "transfer_store \<Rightarrow> byte list \<Rightarrow> transfer_store \<times> (StoreError, unit) result" where
  "store_append s bytes =
     (if ts_poisoned s \<or> ts_phase s \<noteq> 0 then (s, Inl StNotWritable)
      else case checked_add (ts_len s) (length bytes) of
        None \<Rightarrow> (s, Inl StInvalidInput)
      | Some n \<Rightarrow>
          if si_total (ts_identity s) < n then (s, Inl StInvalidInput)
          else
            (case take_answer (s\<lparr>ts_poisoned := True\<rparr>) of
               (s1, AnsOk) \<Rightarrow>
                 (s1\<lparr>ts_disk := grow_effect bytes (ts_disk s1), ts_hashed := ts_hashed s1 @ bytes,
                     ts_len := n, ts_poisoned := False\<rparr>, Inr ())
             | (s1, AnsFails) \<Rightarrow> (s1, Inl StIo)
             | (s1, AnsUnclear k) \<Rightarrow>
                 (s1\<lparr>ts_disk := grow_effect (take k bytes) (ts_disk s1)\<rparr>, Inl StIo)))"

definition store_checkpoint :: "(byte list \<Rightarrow> digest) \<Rightarrow> transfer_store \<Rightarrow> transfer_store \<times> (StoreError, unit) result" where
  "store_checkpoint sha s =
     (if ts_poisoned s \<or> ts_phase s \<noteq> 0 then (s, Inl StNotWritable)
      else case attempt_effect StIo sync_effect (s\<lparr>ts_poisoned := True\<rparr>) of
        (s1, Inl e) \<Rightarrow> (s1, Inl e)
      | (s1, Inr _) \<Rightarrow>
          (case attempt_effect StDatabase
                  (row_effect (\<lambda>r. r\<lparr>sr_committed := int (ts_len s1), sr_digest := sha (ts_hashed s1)\<rparr>)) s1 of
             (s2, Inl e) \<Rightarrow> (s2, Inl e)
           | (s2, Inr _) \<Rightarrow> (s2\<lparr>ts_committed := ts_len s2, ts_poisoned := False\<rparr>, Inr ())))"

definition mark_transfer_complete :: "(byte list \<Rightarrow> digest) \<Rightarrow> transfer_store \<Rightarrow> transfer_store \<times> (StoreError, unit) result" where
  "mark_transfer_complete sha s =
     (if ts_unknown_length s \<or> ts_len s \<noteq> si_total (ts_identity s) then (s, Inl StIncomplete)
      else case store_checkpoint sha s of
        (s1, Inl e) \<Rightarrow> (s1, Inl e)
      | (s1, Inr _) \<Rightarrow>
          (case attempt_effect StDatabase (row_effect (\<lambda>r. r\<lparr>sr_phase := 1\<rparr>)) (s1\<lparr>ts_poisoned := True\<rparr>) of
             (s2, Inl e) \<Rightarrow> (s2, Inl e)
           | (s2, Inr _) \<Rightarrow> (s2\<lparr>ts_phase := 1, ts_poisoned := False\<rparr>, Inr ())))"

text \<open>The update is conditional on the row still being an open one of unknown length.\<close>

definition mark_unknown_transfer_complete :: "(byte list \<Rightarrow> digest) \<Rightarrow> transfer_store \<Rightarrow> transfer_store \<times> (StoreError, unit) result" where
  "mark_unknown_transfer_complete sha s =
     (if \<not> ts_unknown_length s then (s, Inl StInvalidInput)
      else case store_checkpoint sha s of
        (s1, Inl e) \<Rightarrow> (s1, Inl e)
      | (s1, Inr _) \<Rightarrow>
          let s1 = s1\<lparr>ts_poisoned := True\<rparr>; r = sd_row (ts_disk s1) in
          if \<not> (sr_version r = 3 \<and> sr_length_known r = 0 \<and> sr_phase r = 0) then (s1, Inl StCorrupt)
          else
            (case attempt_effect StDatabase
                    (row_effect (\<lambda>r. r\<lparr>sr_total := int (ts_len s1), sr_length_known := 1, sr_phase := 1\<rparr>)) s1 of
               (s2, Inl e) \<Rightarrow> (s2, Inl e)
             | (s2, Inr _) \<Rightarrow>
                 (s2\<lparr>ts_identity := (ts_identity s2)\<lparr>si_total := ts_len s2\<rparr>, ts_unknown_length := False, ts_phase := 1,
                     ts_poisoned := False\<rparr>, Inr ())))"

definition rebind_urls :: "transfer_store \<Rightarrow> digest \<Rightarrow> digest \<Rightarrow> transfer_store \<times> (StoreError, unit) result" where
  "rebind_urls s original final =
     (if ts_poisoned s \<or> ts_phase s \<noteq> 0 \<or> ts_unknown_length s \<or> si_etag (ts_identity s) = None then (s, Inl StNotWritable)
      else case attempt_effect StDatabase (row_effect (\<lambda>r. r\<lparr>sr_original := original, sr_final := final\<rparr>)) (s\<lparr>ts_poisoned := True\<rparr>) of
        (s1, Inl e) \<Rightarrow> (s1, Inl e)
      | (s1, Inr _) \<Rightarrow>
          (s1\<lparr>ts_identity := (ts_identity s1)\<lparr>si_original := original, si_final := final\<rparr>, ts_poisoned := False\<rparr>, Inr ()))"

definition store_status :: "transfer_store \<Rightarrow> StoreStatus" where
  "store_status s = (if ts_phase s = 0 then Downloading else if ts_phase s = 3 then StorePublished else ReadyToPublish)"

section \<open>Publishing\<close>

definition store_hash_prefix :: "(byte list \<Rightarrow> digest) \<Rightarrow> byte list \<Rightarrow> nat \<Rightarrow> (StoreError, digest) result" where
  "store_hash_prefix sha file n = (if length file < n then Inl StCorrupt else Inr (sha (take n file)))"

definition verify_destination :: "(byte list \<Rightarrow> digest) \<Rightarrow> transfer_store \<Rightarrow> (StoreError, unit) result" where
  "verify_destination sha s =
     (let check = (\<lambda>file.
        if length file \<noteq> si_total (ts_identity s) then Inl StCollision
        else res_bind (store_hash_prefix sha file (ts_len s)) (\<lambda>h. if h \<noteq> sha (ts_hashed s) then Inl StCollision else Inr ())) in
      case sd_dest (ts_disk s) of
        NoDest \<Rightarrow> Inl StIo
      | OddDest \<Rightarrow> Inl StInvalidInput
      | LinkedDest \<Rightarrow> check (sd_part (ts_disk s))
      | OtherDest file \<Rightarrow> check file)"

definition link_effect :: "store_disk \<Rightarrow> store_disk" where
  "link_effect d = d\<lparr>sd_dest := LinkedDest\<rparr>"

definition expected_differs :: "(byte list \<Rightarrow> digest) \<Rightarrow> transfer_store \<Rightarrow> bool" where
  "expected_differs sha s \<longleftrightarrow> (case si_expected (ts_identity s) of None \<Rightarrow> False | Some e \<Rightarrow> e \<noteq> sha (ts_hashed s))"

text \<open>After the destination is there: sync the part and the directory, then record it.\<close>

definition publish_receipt :: "transfer_store \<Rightarrow> transfer_store \<times> (StoreError, unit) result" where
  "publish_receipt s =
     (case attempt_effect StIo sync_effect s of
        (s1, Inl e) \<Rightarrow> (s1, Inl e)
      | (s1, Inr _) \<Rightarrow>
          (case attempt_effect StIo id s1 of
             (s2, Inl e) \<Rightarrow> (s2, Inl e)
           | (s2, Inr _) \<Rightarrow>
               (case attempt_effect StDatabase (row_effect (\<lambda>r. r\<lparr>sr_phase := 3\<rparr>)) s2 of
                  (s3, Inl e) \<Rightarrow> (s3, Inl e)
                | (s3, Inr _) \<Rightarrow> (s3\<lparr>ts_phase := 3\<rparr>, Inr ()))))"

definition store_publish :: "(byte list \<Rightarrow> digest) \<Rightarrow> transfer_store \<Rightarrow> transfer_store \<times> (StoreError, unit) result" where
  "store_publish sha s =
     (if length (sd_part (ts_disk s)) \<noteq> si_total (ts_identity s) then (s, Inl StCorrupt)
      else case store_hash_prefix sha (sd_part (ts_disk s)) (ts_len s) of
        Inl e \<Rightarrow> (s, Inl e)
      | Inr h \<Rightarrow>
          if h \<noteq> sha (ts_hashed s) then (s, Inl StCorrupt)
          else if expected_differs sha s then (s, Inl StHashMismatch)
          else if sd_dest (ts_disk s) \<noteq> NoDest then
            (case verify_destination sha s of Inl e \<Rightarrow> (s, Inl e) | Inr _ \<Rightarrow> publish_receipt s)
          else if ts_phase s \<noteq> 2 then (s, Inl StIo)
          else
            (case attempt_effect StIo link_effect s of
               (s1, Inl e) \<Rightarrow> (s1, Inl e)
             | (s1, Inr _) \<Rightarrow> publish_receipt s1))"

definition enter_publish :: "(byte list \<Rightarrow> digest) \<Rightarrow> transfer_store \<Rightarrow> transfer_store \<times> (StoreError, unit) result" where
  "enter_publish sha s =
     (if ts_phase s \<noteq> 1 then (s, Inr ())
      else if sd_dest (ts_disk s) \<noteq> NoDest then (s, Inl StCollision)
      else case store_hash_prefix sha (sd_part (ts_disk s)) (ts_len s) of
        Inl e \<Rightarrow> (s, Inl e)
      | Inr h \<Rightarrow>
          if h \<noteq> sha (ts_hashed s) then (s, Inl StCorrupt)
          else if (case si_expected (ts_identity s) of None \<Rightarrow> False | Some e \<Rightarrow> e \<noteq> h) then (s, Inl StHashMismatch)
          else
            (case attempt_effect StDatabase (row_effect (\<lambda>r. r\<lparr>sr_phase := 2\<rparr>)) s of
               (s1, Inl e) \<Rightarrow> (s1, Inl e)
             | (s1, Inr _) \<Rightarrow> (s1\<lparr>ts_phase := 2\<rparr>, Inr ())))"

definition store_finalize :: "(byte list \<Rightarrow> digest) \<Rightarrow> transfer_store \<Rightarrow> transfer_store \<times> (StoreError, nat list) result" where
  "store_finalize sha s =
     (if ts_poisoned s \<or> ts_phase s = 0 then (s, Inl StIncomplete)
      else case enter_publish sha (s\<lparr>ts_poisoned := True\<rparr>) of
        (s1, Inl e) \<Rightarrow> (s1, Inl e)
      | (s1, Inr _) \<Rightarrow>
          (case store_publish sha s1 of
             (s2, Inl e) \<Rightarrow> (s2, Inl e)
           | (s2, Inr _) \<Rightarrow> (s2\<lparr>ts_poisoned := False\<rparr>, Inr (ts_output s2))))"

section \<open>Opening\<close>

definition row_unknown :: "store_row \<Rightarrow> (StoreError, bool) result" where
  "row_unknown r =
     (if sr_version r = 3 then
        if sr_length_known r = 0 then Inr True else if sr_length_known r = 1 then Inr False else Inl StCorrupt
      else Inr False)"

definition row_corrupt :: "store_row \<Rightarrow> bool \<Rightarrow> bool" where
  "row_corrupt r unknown \<longleftrightarrow>
     sr_version r \<notin> {2, 3} \<or> (unknown \<and> (sr_phase r \<noteq> 0 \<or> sr_total r = 0)) \<or>
     (sr_version r = 3 \<and> \<not> unknown \<and> sr_phase r = 0) \<or> sr_total r < 0 \<or> sr_committed r < 0 \<or>
     sr_total r < sr_committed r \<or> \<not> (0 \<le> sr_phase r \<and> sr_phase r \<le> 3) \<or> (0 < sr_phase r \<and> sr_committed r \<noteq> sr_total r)"

definition row_identity :: "store_row \<Rightarrow> (StoreError, store_identity) result" where
  "row_identity r =
     (if (case sr_expected r of None \<Rightarrow> False | Some e \<Rightarrow> length e \<noteq> 32) then Inl StCorrupt
      else if length (sr_original r) \<noteq> 32 \<or> length (sr_final r) \<noteq> 32 then Inl StCorrupt
      else Inr \<lparr>si_original = sr_original r, si_final = sr_final r, si_etag = sr_etag r, si_total = nat (sr_total r),
                si_expected = sr_expected r\<rparr>)"

text \<open>Only bytes absent from the receipt are discarded.\<close>

definition discard_tail :: "nat \<Rightarrow> transfer_store \<Rightarrow> transfer_store \<times> (StoreError, unit) result" where
  "discard_tail committed s =
     (if length (sd_part (ts_disk s)) = committed then (s, Inr ())
      else case attempt_effect StIo (cut_effect committed) s of
        (s1, Inl e) \<Rightarrow> (s1, Inl e)
      | (s1, Inr _) \<Rightarrow> attempt_effect StIo sync_effect s1)"

text \<open>\<open>fails\<close> is what the checks of the directory, the lock and the database file answer.\<close>

definition store_open :: "(byte list \<Rightarrow> digest) \<Rightarrow> StoreError option \<Rightarrow> store_disk \<Rightarrow> store_answer list \<Rightarrow>
  store_disk \<times> (StoreError, transfer_store) result" where
  "store_open sha fails d answers =
     (let r = sd_row d in
      case fails of
        Some e \<Rightarrow> (d, Inl e)
      | None \<Rightarrow>
      if sr_version r \<notin> {2, 3} then (d, Inl StUnsupportedVersion)
      else case row_unknown r of
        Inl e \<Rightarrow> (d, Inl e)
      | Inr unknown \<Rightarrow>
      if row_corrupt r unknown then (d, Inl StCorrupt)
      else case row_identity r of
        Inl e \<Rightarrow> (d, Inl e)
      | Inr i \<Rightarrow>
      (case res_bind (validate_identity i) (\<lambda>_. validate_name (sr_output r)) of
        Inl e \<Rightarrow> (d, Inl e)
      | Inr _ \<Rightarrow>
      let c = nat (sr_committed r) in
      if length (sd_part d) < c \<or> (0 < sr_phase r \<and> length (sd_part d) \<noteq> c) then (d, Inl StCorrupt)
      else if sha (take c (sd_part d)) \<noteq> sr_digest r then (d, Inl StCorrupt)
      else
        let s = \<lparr>ts_disk = d, ts_identity = i, ts_output = sr_output r, ts_len = c, ts_committed = c, ts_phase = sr_phase r,
                 ts_hashed = take c (sd_part d), ts_poisoned = unknown, ts_unknown_length = unknown, ts_answers = answers\<rparr> in
        (case discard_tail c s of
           (s1, Inl e) \<Rightarrow> (ts_disk s1, Inl e)
         | (s1, Inr _) \<Rightarrow>
             if sr_phase r = 3 then
               (case verify_destination sha s1 of Inl e \<Rightarrow> (ts_disk s1, Inl e) | Inr _ \<Rightarrow> (ts_disk s1, Inr s1))
             else (ts_disk s1, Inr s1))))"

end
