(* ===== verification/Store_Props.thy ===== *)
theory Store_Props
  imports Transfer_Store "HOL-Library.Sublist"
begin

text \<open>
  The store against crashes: whatever is done and wherever the process or the machine stops, the
  committed prefix can be reopened, nothing acknowledged is lost, nothing is invented, and what is
  published is the whole of it.
\<close>

section \<open>The disk\<close>

definition committed_bytes :: "store_disk \<Rightarrow> byte list" where
  "committed_bytes d = take (nat (sr_committed (sd_row d))) (sd_part d)"

definition row_open :: "store_row \<Rightarrow> bool" where
  "row_open r \<longleftrightarrow> sr_version r = 3 \<and> sr_length_known r = 0"

definition row_ok :: "store_row \<Rightarrow> bool" where
  "row_ok r \<longleftrightarrow> sr_version r \<in> {2, 3} \<and> (sr_version r = 3 \<longrightarrow> sr_length_known r \<in> {0, 1}) \<and> \<not> row_corrupt r (row_open r) \<and>
     length (sr_original r) = 32 \<and> length (sr_final r) = 32 \<and> (case sr_expected r of None \<Rightarrow> True | Some e \<Rightarrow> length e = 32) \<and>
     sr_total r \<le> int I64_MAX \<and> (case sr_etag r of None \<Rightarrow> True | Some e \<Rightarrow> length e \<le> 8192) \<and> name_ok (sr_output r)"

text \<open>What holds of the disk at every moment, whatever was interrupted.\<close>

definition disk_ok :: "(byte list \<Rightarrow> digest) \<Rightarrow> store_disk \<Rightarrow> bool" where
  "disk_ok sha d \<longleftrightarrow> row_ok (sd_row d) \<and> nat (sr_committed (sd_row d)) \<le> sd_synced d \<and> sd_synced d \<le> length (sd_part d) \<and>
     sr_digest (sd_row d) = sha (committed_bytes d) \<and>
     (0 < sr_phase (sd_row d) \<longrightarrow> length (sd_part d) = nat (sr_committed (sd_row d)) \<and> sd_clean d)"

text \<open>A handle that is not poisoned agrees with the disk.\<close>

definition in_step :: "transfer_store \<Rightarrow> bool" where
  "in_step s \<longleftrightarrow> (let d = ts_disk s; r = sd_row d in
     sd_part d = ts_hashed s \<and> ts_len s = length (ts_hashed s) \<and> int (ts_committed s) = sr_committed r \<and> ts_phase s = sr_phase r \<and>
     int (si_total (ts_identity s)) = sr_total r \<and> si_expected (ts_identity s) = sr_expected r \<and> ts_output s = sr_output r \<and>
     ts_unknown_length s = row_open r \<and> ts_len s \<le> si_total (ts_identity s))"

definition store_ok :: "(byte list \<Rightarrow> digest) \<Rightarrow> transfer_store \<Rightarrow> bool" where
  "store_ok sha s \<longleftrightarrow> disk_ok sha (ts_disk s) \<and> prefix (committed_bytes (ts_disk s)) (ts_hashed s) \<and> (\<not> ts_poisoned s \<longrightarrow> in_step s)"

text \<open>A crash keeps what was synced, and everything when nothing changed since.\<close>

definition crashed :: "store_disk \<Rightarrow> store_disk \<Rightarrow> bool" where
  "crashed d d' \<longleftrightarrow> (\<exists>tail. sd_part d' = take (sd_synced d) (sd_part d) @ tail) \<and> (sd_clean d \<longrightarrow> sd_part d' = sd_part d) \<and>
     sd_synced d' = sd_synced d \<and> sd_clean d' = sd_clean d \<and> sd_row d' = sd_row d"

lemma attempt_effect_cases:
  assumes "attempt_effect e eff s = (s', r)"
  obtains (undone) as where "s' = s\<lparr>ts_answers := as\<rparr>" "r = Inl e"
    | (unclear) as where "s' = s\<lparr>ts_answers := as, ts_disk := eff (ts_disk s)\<rparr>" "r = Inl e"
    | (ok) as where "s' = s\<lparr>ts_answers := as, ts_disk := eff (ts_disk s)\<rparr>" "r = Inr ()"
proof (cases "ts_answers s")
  case Nil
  then show ?thesis using assms ok [of "[]"] by (cases s) (auto simp: attempt_effect_def take_answer_def)
next
  case (Cons a as)
  then show ?thesis using assms undone [of as] unclear [of as] ok [of as]
    by (cases a) (auto simp: attempt_effect_def take_answer_def)
qed

lemma crashed_ok:
  assumes "crashed d d'" "disk_ok sha d"
  shows "disk_ok sha d'" "committed_bytes d' = committed_bytes d"
proof -
  obtain tail where tail: "sd_part d' = take (sd_synced d) (sd_part d) @ tail" "sd_synced d' = sd_synced d" "sd_row d' = sd_row d"
    using assms(1) by (auto simp: crashed_def)
  have c: "nat (sr_committed (sd_row d)) \<le> sd_synced d" "sd_synced d \<le> length (sd_part d)" using assms(2) by (auto simp: disk_ok_def)
  then show same: "committed_bytes d' = committed_bytes d" using tail by (simp add: committed_bytes_def min_def)
  show "disk_ok sha d'"
    using assms tail c same by (auto simp: disk_ok_def crashed_def)
qed

section \<open>Opening\<close>

lemma row_ok_open:
  assumes "row_ok r"
  shows "sr_version r \<in> {2, 3}" "row_unknown r = Inr (row_open r)" "\<not> row_corrupt r (row_open r)"
    "row_identity r = Inr \<lparr>si_original = sr_original r, si_final = sr_final r, si_etag = sr_etag r, si_total = nat (sr_total r), si_expected = sr_expected r\<rparr>"
    "validate_identity \<lparr>si_original = sr_original r, si_final = sr_final r, si_etag = sr_etag r, si_total = nat (sr_total r), si_expected = sr_expected r\<rparr> = Inr ()"
    "validate_name (sr_output r) = Inr ()"
  using assms by (auto simp: row_ok_def row_unknown_def row_open_def row_identity_def validate_identity_def validate_name_def nat_le_iff
      split: option.splits)

definition opened :: "store_disk \<Rightarrow> store_answer list \<Rightarrow> transfer_store" where
  "opened d answers =
     (let r = sd_row d in
      \<lparr>ts_disk = d,
       ts_identity = \<lparr>si_original = sr_original r, si_final = sr_final r, si_etag = sr_etag r, si_total = nat (sr_total r), si_expected = sr_expected r\<rparr>,
       ts_output = sr_output r, ts_len = nat (sr_committed r), ts_committed = nat (sr_committed r), ts_phase = sr_phase r,
       ts_hashed = committed_bytes d, ts_poisoned = row_open r, ts_unknown_length = row_open r, ts_answers = answers\<rparr>)"

lemma store_open_eq:
  assumes "disk_ok sha d"
  shows "store_open sha None d answers =
    (case discard_tail (nat (sr_committed (sd_row d))) (opened d answers) of
       (s1, Inl e) \<Rightarrow> (ts_disk s1, Inl e)
     | (s1, Inr _) \<Rightarrow>
         if sr_phase (sd_row d) = 3 then (case verify_destination sha s1 of Inl e \<Rightarrow> (ts_disk s1, Inl e) | Inr _ \<Rightarrow> (ts_disk s1, Inr s1))
         else (ts_disk s1, Inr s1))"
proof -
  have row: "row_ok (sd_row d)" and d: "nat (sr_committed (sd_row d)) \<le> length (sd_part d)" "sha (take (nat (sr_committed (sd_row d))) (sd_part d)) = sr_digest (sd_row d)"
    "0 < sr_phase (sd_row d) \<longrightarrow> length (sd_part d) = nat (sr_committed (sd_row d))"
    using assms by (auto simp: disk_ok_def committed_bytes_def)
  have v: "sr_version (sd_row d) = 2 \<or> sr_version (sd_row d) = 3" using row_ok_open(1) [OF row] by auto
  show ?thesis
    by (rule disjE [OF v])
      (use d in \<open>simp_all add: store_open_def Let_def opened_def committed_bytes_def row_ok_open(2-) [OF row]\<close>, blast+)
qed

lemma row_ok_bounds:
  "row_ok r \<Longrightarrow> 0 \<le> sr_committed r \<and> sr_committed r \<le> sr_total r \<and> (0 < sr_phase r \<longrightarrow> sr_committed r = sr_total r) \<and> 0 \<le> sr_phase r"
  by (auto simp: row_ok_def row_corrupt_def)

lemma effects_keep_disk:
  assumes "disk_ok sha d" "nat (sr_committed (sd_row d)) = length (sd_part d) \<or> sr_phase (sd_row d) = 0"
  shows "disk_ok sha (sync_effect d)" "committed_bytes (sync_effect d) = committed_bytes d"
  using assms by (auto simp: disk_ok_def sync_effect_def committed_bytes_def)

lemma discard_tail_ok:
  assumes "discard_tail (nat (sr_committed (sd_row d))) (opened d answers) = (s, r)" "disk_ok sha d"
  shows "disk_ok sha (ts_disk s)" "committed_bytes (ts_disk s) = committed_bytes d" "sd_row (ts_disk s) = sd_row d"
    "sd_dest (ts_disk s) = sd_dest d" "s = (opened d answers)\<lparr>ts_disk := ts_disk s, ts_answers := ts_answers s\<rparr>"
    "r = Inr () \<Longrightarrow> sd_part (ts_disk s) = committed_bytes d"
proof -
  let ?c = "nat (sr_committed (sd_row d))" let ?s = "opened d answers"
  have d: "?c \<le> sd_synced d" "sd_synced d \<le> length (sd_part d)" "0 < sr_phase (sd_row d) \<longrightarrow> length (sd_part d) = ?c"
    using assms(2) by (auto simp: disk_ok_def)
  have s0: "ts_disk ?s = d" by (simp add: opened_def Let_def)
  define cut where "cut = cut_effect ?c d"
  have cut: "committed_bytes cut = committed_bytes d" "sd_row cut = sd_row d" "sd_dest cut = sd_dest d" "sd_part cut = committed_bytes d"
    by (simp_all add: cut_def cut_effect_def committed_bytes_def)
  have cut_ok: "disk_ok sha cut" if "length (sd_part d) \<noteq> ?c"
    using assms(2) that d unfolding disk_ok_def cut(1,2) by (auto simp: cut_def cut_effect_def)
  have synced: "disk_ok sha (sync_effect cut)" "committed_bytes (sync_effect cut) = committed_bytes d" "sd_row (sync_effect cut) = sd_row d"
    "sd_dest (sync_effect cut) = sd_dest d" "sd_part (sync_effect cut) = committed_bytes d" if "length (sd_part d) \<noteq> ?c"
    using effects_keep_disk [OF cut_ok [OF that]] cut d that by (auto simp: sync_effect_def committed_bytes_def)
  consider (whole) "length (sd_part d) = ?c" "s = ?s" "r = Inr ()"
    | (stop) as where "length (sd_part d) \<noteq> ?c" "s = ?s\<lparr>ts_answers := as\<rparr>" "r \<noteq> Inr ()"
    | (cut) as where "length (sd_part d) \<noteq> ?c" "s = ?s\<lparr>ts_answers := as, ts_disk := cut\<rparr>" "r \<noteq> Inr ()"
    | (synced) as where "length (sd_part d) \<noteq> ?c" "s = ?s\<lparr>ts_answers := as, ts_disk := sync_effect cut\<rparr>"
  proof (cases "length (sd_part d) = ?c")
    case True
    then show ?thesis using assms(1) that(1) s0 by (simp add: discard_tail_def)
  next
    case False
    obtain s1 r1 where s1: "attempt_effect StIo (cut_effect ?c) ?s = (s1, r1)" by fastforce
    then show ?thesis
    proof (cases rule: attempt_effect_cases)
      case (undone as)
      then show ?thesis using assms(1) s1 False s0 that(2) by (auto simp: discard_tail_def)
    next
      case (unclear as)
      then show ?thesis using assms(1) s1 False s0 that(3) by (auto simp: discard_tail_def cut_def)
    next
      case (ok as)
      then have "attempt_effect StIo sync_effect s1 = (s, r)" using assms(1) s1 False s0 by (simp add: discard_tail_def)
      moreover have s1_eq: "s1 = ?s\<lparr>ts_answers := as, ts_disk := cut\<rparr>" using ok(1) s0 by (simp add: cut_def)
      ultimately show ?thesis
      proof (cases rule: attempt_effect_cases)
        case (undone bs)
        then show ?thesis using False s1_eq by (intro that(3) [of bs]) simp_all
      next
        case (unclear bs)
        then show ?thesis using False s1_eq by (intro that(4) [of bs]) simp_all
      next
        case (ok bs)
        then show ?thesis using False s1_eq by (intro that(4) [of bs]) simp_all
      qed
    qed
  qed
  then have "disk_ok sha (ts_disk s) \<and> committed_bytes (ts_disk s) = committed_bytes d \<and> sd_row (ts_disk s) = sd_row d \<and>
    sd_dest (ts_disk s) = sd_dest d \<and> s = ?s\<lparr>ts_disk := ts_disk s, ts_answers := ts_answers s\<rparr> \<and>
    (r = Inr () \<longrightarrow> sd_part (ts_disk s) = committed_bytes d)"
  proof cases
    case whole
    then show ?thesis using assms(2) s0 by (simp add: committed_bytes_def)
  next
    case (stop as)
    then show ?thesis using assms(2) s0 by simp
  next
    case cut': (cut as)
    then show ?thesis using cut_ok cut by simp
  next
    case synced': (synced as)
    then show ?thesis using synced [OF synced'(1)] by simp
  qed
  then show "disk_ok sha (ts_disk s)" "committed_bytes (ts_disk s) = committed_bytes d" "sd_row (ts_disk s) = sd_row d"
    "sd_dest (ts_disk s) = sd_dest d" "s = ?s\<lparr>ts_disk := ts_disk s, ts_answers := ts_answers s\<rparr>"
    "r = Inr () \<Longrightarrow> sd_part (ts_disk s) = committed_bytes d" by simp_all
qed

definition safe :: "(byte list \<Rightarrow> digest) \<Rightarrow> transfer_store \<Rightarrow> bool" where
  "safe sha s \<longleftrightarrow> disk_ok sha (ts_disk s) \<and> prefix (committed_bytes (ts_disk s)) (ts_hashed s)"

lemma store_ok_safe: "store_ok sha s \<longleftrightarrow> safe sha s \<and> (\<not> ts_poisoned s \<longrightarrow> in_step s)"
  by (simp add: store_ok_def safe_def)

lemma store_open_ok:
  assumes "store_open sha fails d answers = (d', r)" "disk_ok sha d"
  shows "disk_ok sha d' \<and> committed_bytes d' = committed_bytes d \<and>
    (\<forall>s. r = Inr s \<longrightarrow> ts_disk s = d' \<and> store_ok sha s \<and> ts_hashed s = committed_bytes d \<and> sd_part d' = committed_bytes d \<and>
       (ts_poisoned s \<longleftrightarrow> row_open (sd_row d')) \<and> ts_unknown_length s = ts_poisoned s)"
proof (cases fails)
  case (Some e)
  then show ?thesis using assms by (auto simp: store_open_def)
next
  case None
  obtain s x where s: "discard_tail (nat (sr_committed (sd_row d))) (opened d answers) = (s, x)" by fastforce
  note tail = discard_tail_ok [OF s assms(2)]
  have row: "row_ok (sd_row d)" "sr_committed (sd_row d) \<le> int (length (sd_part d))"
    using assms(2) by (auto simp: disk_ok_def)
  have result: "d' = ts_disk s \<and> (r = Inr s \<and> x = Inr () \<or> (\<exists>e. r = Inl e))"
    using assms(1) s unfolding None store_open_eq [OF assms(2)] by (auto split: sum.splits if_splits)
  have ok: "store_ok sha s" "ts_hashed s = committed_bytes d" "ts_poisoned s = row_open (sd_row d)" "ts_unknown_length s = row_open (sd_row d)" if "x = Inr ()"
  proof -
    have len: "nat (sr_committed (sd_row d)) = length (committed_bytes d)" using row by (auto simp: committed_bytes_def)
    have fields: "ts_hashed s = committed_bytes d" "ts_poisoned s = row_open (sd_row d)" "ts_unknown_length s = row_open (sd_row d)"
      "ts_len s = nat (sr_committed (sd_row d))" "ts_committed s = nat (sr_committed (sd_row d))" "ts_phase s = sr_phase (sd_row d)"
      "si_total (ts_identity s) = nat (sr_total (sd_row d))" "si_expected (ts_identity s) = sr_expected (sd_row d)" "ts_output s = sr_output (sd_row d)"
      by (subst tail(5), simp add: opened_def Let_def)+
    have "int (length (committed_bytes d)) = sr_committed (sd_row d)" "length (committed_bytes d) \<le> nat (sr_total (sd_row d))" "0 \<le> sr_total (sd_row d)"
      using len row_ok_bounds [OF row(1)] by linarith+
    then have "in_step s" using tail(3,6) that len fields by (simp add: in_step_def Let_def)
    then show "store_ok sha s" using tail(1,2) fields(1) by (simp add: store_ok_def)
    show "ts_hashed s = committed_bytes d" "ts_poisoned s = row_open (sd_row d)" "ts_unknown_length s = row_open (sd_row d)" by (fact fields)+
  qed
  show ?thesis using result tail(1,2,3,6) ok by auto
qed

text \<open>The effects that matter, on a disk in order.\<close>

lemma row_ok_updates:
  assumes "row_ok r"
  shows "sr_phase r = 0 \<Longrightarrow> 0 \<le> c \<Longrightarrow> c \<le> sr_total r \<Longrightarrow> row_ok (r\<lparr>sr_committed := c, sr_digest := h\<rparr>)"
    "\<not> row_open r \<Longrightarrow> sr_committed r = sr_total r \<Longrightarrow> p \<in> {1, 2, 3} \<Longrightarrow> row_ok (r\<lparr>sr_phase := p\<rparr>)"
    "row_open r \<Longrightarrow> row_ok (r\<lparr>sr_total := sr_committed r, sr_length_known := 1, sr_phase := 1\<rparr>)"
    "length x = 32 \<Longrightarrow> length y = 32 \<Longrightarrow> row_ok (r\<lparr>sr_original := x, sr_final := y\<rparr>)"
  using assms unfolding row_ok_def row_corrupt_def row_open_def by auto

lemma commit_effect_ok:
  assumes "disk_ok sha d" "sr_phase (sd_row d) = 0" "sd_part d = h" "sd_synced d = length h" "int (length h) \<le> sr_total (sd_row d)"
  shows "disk_ok sha (row_effect (\<lambda>r. r\<lparr>sr_committed := int (length h), sr_digest := sha h\<rparr>) d)"
    "committed_bytes (row_effect (\<lambda>r. r\<lparr>sr_committed := int (length h), sr_digest := sha h\<rparr>) d) = h"
  using assms row_ok_updates(1) [of "sd_row d"] by (simp_all add: disk_ok_def row_effect_def committed_bytes_def)

lemma phase_effect_ok:
  assumes "disk_ok sha d" "\<not> row_open (sd_row d)" "sr_committed (sd_row d) = sr_total (sd_row d)"
    "int (length (sd_part d)) = sr_total (sd_row d)" "sd_clean d" "p \<in> {1, 2, 3}"
  shows "disk_ok sha (row_effect (\<lambda>r. r\<lparr>sr_phase := p\<rparr>) d)"
    "committed_bytes (row_effect (\<lambda>r. r\<lparr>sr_phase := p\<rparr>) d) = committed_bytes d"
proof -
  have "row_ok ((sd_row d)\<lparr>sr_phase := p\<rparr>)" "length (sd_part d) = nat (sr_committed (sd_row d))"
    using assms row_ok_updates(2) [of "sd_row d" p] by (auto simp: disk_ok_def)
  then show "disk_ok sha (row_effect (\<lambda>r. r\<lparr>sr_phase := p\<rparr>) d)"
    "committed_bytes (row_effect (\<lambda>r. r\<lparr>sr_phase := p\<rparr>) d) = committed_bytes d"
    using assms(1,5) by (simp_all add: disk_ok_def row_effect_def committed_bytes_def)
qed

lemma settle_effect_ok:
  assumes "disk_ok sha d" "row_open (sd_row d)" "sr_committed (sd_row d) = int n" "length (sd_part d) = n" "sd_clean d"
  shows "disk_ok sha (row_effect (\<lambda>r. r\<lparr>sr_total := int n, sr_length_known := 1, sr_phase := 1\<rparr>) d)"
    "committed_bytes (row_effect (\<lambda>r. r\<lparr>sr_total := int n, sr_length_known := 1, sr_phase := 1\<rparr>) d) = committed_bytes d"
  using assms row_ok_updates(3) [of "sd_row d"] by (simp_all add: disk_ok_def row_effect_def committed_bytes_def)

lemma rebind_effect_ok:
  assumes "disk_ok sha d" "length original = 32" "length final = 32"
  shows "disk_ok sha (row_effect (\<lambda>r. r\<lparr>sr_original := original, sr_final := final\<rparr>) d)"
    "committed_bytes (row_effect (\<lambda>r. r\<lparr>sr_original := original, sr_final := final\<rparr>) d) = committed_bytes d"
  using assms row_ok_updates(4) [of "sd_row d"] by (simp_all add: disk_ok_def row_effect_def committed_bytes_def)

lemma grow_effect_ok:
  assumes "disk_ok sha d" "sr_phase (sd_row d) = 0"
  shows "disk_ok sha (grow_effect bytes d)" "committed_bytes (grow_effect bytes d) = committed_bytes d"
  using assms by (auto simp: disk_ok_def grow_effect_def committed_bytes_def)

lemma dest_change_ok: "disk_ok sha (d\<lparr>sd_dest := x\<rparr>) = disk_ok sha d" "committed_bytes (d\<lparr>sd_dest := x\<rparr>) = committed_bytes d"
  by (simp_all add: disk_ok_def committed_bytes_def)

section \<open>Operations\<close>

definition advances :: "(byte list \<Rightarrow> digest) \<Rightarrow> transfer_store \<Rightarrow> transfer_store \<Rightarrow> bool" where
  "advances sha s s' \<longleftrightarrow> store_ok sha s' \<and> prefix (committed_bytes (ts_disk s)) (committed_bytes (ts_disk s')) \<and>
     prefix (ts_hashed s) (ts_hashed s')"

lemma advances_refl: "store_ok sha s \<Longrightarrow> advances sha s s"
  by (simp add: advances_def)

lemma advances_trans: "advances sha s t \<Longrightarrow> advances sha t u \<Longrightarrow> advances sha s u"
  using prefix_order.trans by (auto simp: advances_def)

text \<open>While the handle is poisoned only the disk has to be in order.\<close>

lemma advances_poisoned:
  assumes "disk_ok sha (ts_disk s')" "ts_poisoned s'" "ts_hashed s' = ts_hashed s"
    "prefix (committed_bytes (ts_disk s)) (committed_bytes (ts_disk s'))" "prefix (committed_bytes (ts_disk s')) (ts_hashed s)"
  shows "advances sha s s'"
  using assms by (simp add: advances_def store_ok_def)

lemma append_advances:
  assumes "store_append s bytes = (s', r)" "store_ok sha s"
  shows "advances sha s s'"
proof (cases "ts_poisoned s \<or> ts_phase s \<noteq> 0 \<or> (case checked_add (ts_len s) (length bytes) of None \<Rightarrow> True | Some n \<Rightarrow> si_total (ts_identity s) < n)")
  case True
  then have "s' = s" using assms(1) by (auto simp: store_append_def split: option.splits if_splits)
  then show ?thesis using assms(2) by (simp add: advances_refl)
next
  case False
  then obtain n where n: "checked_add (ts_len s) (length bytes) = Some n" "n \<le> si_total (ts_identity s)" "\<not> ts_poisoned s" "ts_phase s = 0"
    by (auto split: option.splits)
  have step: "in_step s" "disk_ok sha (ts_disk s)" "prefix (committed_bytes (ts_disk s)) (ts_hashed s)" using assms(2) n(3) by (auto simp: store_ok_def)
  then have phase: "sr_phase (sd_row (ts_disk s)) = 0" using n(4) by (simp add: in_step_def Let_def)
  obtain s1 a where s1: "take_answer (s\<lparr>ts_poisoned := True\<rparr>) = (s1, a)" by fastforce
  obtain as where as: "s1 = s\<lparr>ts_poisoned := True, ts_answers := as\<rparr>"
    using s1 that [of "ts_answers s"] by (cases s) (auto simp: take_answer_def split: list.splits)
  note grow = grow_effect_ok [OF step(2) phase]
  have sum: "n = ts_len s + length bytes" using n(1) by (auto simp: checked_add_def split: if_splits)
  show ?thesis
  proof (cases a)
    case AnsOk
    then have s': "s' = s1\<lparr>ts_disk := grow_effect bytes (ts_disk s1), ts_hashed := ts_hashed s1 @ bytes, ts_len := n, ts_poisoned := False\<rparr>"
      using assms(1) n s1 by (simp add: store_append_def)
    have "in_step s'" using step(1) n(2) sum unfolding s' as by (simp add: in_step_def Let_def grow_effect_def)
    then show ?thesis using step(3) grow unfolding s' as by (simp add: advances_def store_ok_def prefix_prefix)
  next
    case AnsFails
    then have "s' = s1" using assms(1) n s1 by (simp add: store_append_def)
    then show ?thesis using step as by (intro advances_poisoned) simp_all
  next
    case (AnsUnclear k)
    then have "s' = s1\<lparr>ts_disk := grow_effect (take k bytes) (ts_disk s1)\<rparr>" using assms(1) n s1 by (simp add: store_append_def)
    then show ?thesis using step(3) as grow by (intro advances_poisoned) simp_all
  qed
qed

lemma in_stepD:
  assumes "in_step s"
  shows "sd_part (ts_disk s) = ts_hashed s" "ts_len s = length (ts_hashed s)" "int (ts_committed s) = sr_committed (sd_row (ts_disk s))"
    "sr_phase (sd_row (ts_disk s)) = ts_phase s" "int (si_total (ts_identity s)) = sr_total (sd_row (ts_disk s))"
    "sr_expected (sd_row (ts_disk s)) = si_expected (ts_identity s)" "sr_output (sd_row (ts_disk s)) = ts_output s"
    "row_open (sd_row (ts_disk s)) = ts_unknown_length s" "ts_len s \<le> si_total (ts_identity s)"
  using assms by (auto simp: in_step_def Let_def)

lemma checkpoint_advances:
  assumes "store_checkpoint sha s = (s', r)" "store_ok sha s"
  shows "advances sha s s' \<and> (r = Inr () \<longrightarrow> \<not> ts_poisoned s' \<and> ts_hashed s' = ts_hashed s \<and> committed_bytes (ts_disk s') = ts_hashed s \<and>
    sd_clean (ts_disk s') \<and> ts_phase s' = 0 \<and> ts_identity s' = ts_identity s \<and> ts_unknown_length s' = ts_unknown_length s \<and>
    ts_len s' = ts_len s \<and> sr_committed (sd_row (ts_disk s')) = int (ts_len s))"
proof (cases "ts_poisoned s \<or> ts_phase s \<noteq> 0")
  case True
  then show ?thesis using assms advances_refl by (auto simp: store_checkpoint_def)
next
  case False
  let ?p = "s\<lparr>ts_poisoned := True\<rparr>" let ?d = "ts_disk s"
  have step: "in_step s" "disk_ok sha ?d" "prefix (committed_bytes ?d) (ts_hashed s)" using assms(2) False by (auto simp: store_ok_def)
  note st = in_stepD [OF step(1)]
  have phase: "sr_phase (sd_row ?d) = 0" using st(4) False by simp
  note sync = effects_keep_disk [OF step(2) disjI2 [OF phase]]
  obtain s1 r1 where s1: "attempt_effect StIo sync_effect ?p = (s1, r1)" by fastforce
  have stop: "advances sha s t" if "t = ?p\<lparr>ts_answers := as\<rparr> \<or> t = ?p\<lparr>ts_answers := as, ts_disk := sync_effect ?d\<rparr>" for t as
    using that step sync by (elim disjE) (intro advances_poisoned; simp)+
  from s1 show ?thesis
  proof (cases rule: attempt_effect_cases)
    case (undone as)
    then show ?thesis using assms(1) s1 False stop [of s' as] by (auto simp: store_checkpoint_def)
  next
    case (unclear as)
    then show ?thesis using assms(1) s1 False stop [of s' as] by (auto simp: store_checkpoint_def)
  next
    case (ok as)
    let ?c = "row_effect (\<lambda>r. r\<lparr>sr_committed := int (ts_len s), sr_digest := sha (ts_hashed s)\<rparr>) (sync_effect ?d)"
    have "int (ts_len s) \<le> sr_total (sd_row ?d)" using st(5,9) by linarith
    then have commit: "disk_ok sha ?c" "committed_bytes ?c = ts_hashed s"
      using commit_effect_ok [OF sync(1), of "ts_hashed s"] st(1,2) phase by (simp_all add: sync_effect_def)
    have s1_eq: "s1 = ?p\<lparr>ts_answers := as, ts_disk := sync_effect ?d\<rparr>" using ok(1) by simp
    obtain s2 r2 where s2: "attempt_effect StDatabase (row_effect (\<lambda>r. r\<lparr>sr_committed := int (ts_len s1), sr_digest := sha (ts_hashed s1)\<rparr>)) s1 = (s2, r2)"
      by fastforce
    have res: "(s', r) = (case r2 of Inl e \<Rightarrow> (s2, Inl e) | Inr _ \<Rightarrow> (s2\<lparr>ts_committed := ts_len s2, ts_poisoned := False\<rparr>, Inr ()))"
      using assms(1) s1 s2 ok(2) False by (auto simp: store_checkpoint_def split: sum.splits)
    have done': "advances sha s t" if "t = ?p\<lparr>ts_answers := bs, ts_disk := ?c\<rparr>" for t bs
      using that step(3) commit by (intro advances_poisoned) simp_all
    from s2 show ?thesis
    proof (cases rule: attempt_effect_cases)
      case (undone bs)
      then show ?thesis using res s1_eq stop [of s' bs] by simp
    next
      case (unclear bs)
      then show ?thesis using res s1_eq done' [of s' bs] by simp
    next
      case ok2: (ok bs)
      then have s': "s' = s\<lparr>ts_answers := bs, ts_disk := ?c, ts_committed := ts_len s\<rparr>" "r = Inr ()"
        using res s1_eq False by (simp_all add: ok2)
      have "in_step s'" using step(1) unfolding s' by (simp add: in_step_def Let_def row_effect_def sync_effect_def row_open_def)
      then have "advances sha s s'" using commit step(3) unfolding s' by (simp add: advances_def store_ok_def)
      then show ?thesis using commit False unfolding s' by (simp add: row_effect_def sync_effect_def)
    qed
  qed
qed

text \<open>A database update of a poisoned handle, whatever comes of it.\<close>

lemma update_advances:
  assumes "attempt_effect e eff (s\<lparr>ts_poisoned := True\<rparr>) = (s1, r)" "store_ok sha s"
    and "disk_ok sha (eff (ts_disk s))" "committed_bytes (eff (ts_disk s)) = committed_bytes (ts_disk s)"
  shows "advances sha s s1" "r = Inr () \<Longrightarrow> \<exists>as. s1 = s\<lparr>ts_poisoned := True, ts_answers := as, ts_disk := eff (ts_disk s)\<rparr>"
proof -
  have ok: "disk_ok sha (ts_disk s)" "prefix (committed_bytes (ts_disk s)) (ts_hashed s)" using assms(2) by (auto simp: store_ok_def)
  show "advances sha s s1" using assms(1)
    by (cases rule: attempt_effect_cases; intro advances_poisoned) (use ok assms(3,4) in simp_all)
  show "\<exists>as. s1 = s\<lparr>ts_poisoned := True, ts_answers := as, ts_disk := eff (ts_disk s)\<rparr>" if "r = Inr ()"
    using assms(1) that by (cases rule: attempt_effect_cases) auto
qed

lemma mark_advances:
  assumes "mark_transfer_complete sha s = (s', r)" "store_ok sha s"
  shows "advances sha s s' \<and> (r = Inr () \<longrightarrow> committed_bytes (ts_disk s') = ts_hashed s')"
proof (cases "ts_unknown_length s \<or> ts_len s \<noteq> si_total (ts_identity s)")
  case True
  then show ?thesis using assms advances_refl by (auto simp: mark_transfer_complete_def)
next
  case False
  obtain s1 r1 where s1: "store_checkpoint sha s = (s1, r1)" by fastforce
  note cp = checkpoint_advances [OF s1 assms(2)]
  show ?thesis
  proof (cases r1)
    case (Inl e)
    then show ?thesis using assms(1) s1 False cp by (auto simp: mark_transfer_complete_def)
  next
    case (Inr u)
    let ?eff = "row_effect (\<lambda>r. r\<lparr>sr_phase := 1\<rparr>)"
    have ok1: "store_ok sha s1" "in_step s1" "disk_ok sha (ts_disk s1)" using cp Inr by (auto simp: advances_def store_ok_def)
    note st = in_stepD [OF ok1(2)]
    have total: "sr_committed (sd_row (ts_disk s1)) = sr_total (sd_row (ts_disk s1))" using cp Inr False st(5) by simp
    have part: "int (length (sd_part (ts_disk s1))) = sr_total (sd_row (ts_disk s1))" using st(1,2,5) cp Inr False by simp
    have phased: "disk_ok sha (?eff (ts_disk s1))" "committed_bytes (?eff (ts_disk s1)) = committed_bytes (ts_disk s1)"
      using phase_effect_ok [OF ok1(3) _ total part, of 1] st(8) cp Inr False by auto
    obtain s2 r2 where s2: "attempt_effect StDatabase ?eff (s1\<lparr>ts_poisoned := True\<rparr>) = (s2, r2)" by fastforce
    note up = update_advances [OF s2 ok1(1) phased]
    have res: "(s', r) = (case r2 of Inl e \<Rightarrow> (s2, Inl e) | Inr _ \<Rightarrow> (s2\<lparr>ts_phase := 1, ts_poisoned := False\<rparr>, Inr ()))"
      using assms(1) s1 s2 Inr False by (auto simp: mark_transfer_complete_def split: sum.splits)
    show ?thesis
    proof (cases r2)
      case (Inl e)
      then show ?thesis using res up(1) cp advances_trans by auto
    next
      case Inr2: (Inr u2)
      then obtain as where s2_eq: "s2 = s1\<lparr>ts_poisoned := True, ts_answers := as, ts_disk := ?eff (ts_disk s1)\<rparr>" using up(2) by auto
      then have s': "s' = s1\<lparr>ts_answers := as, ts_disk := ?eff (ts_disk s1), ts_phase := 1\<rparr>" using res Inr2 cp Inr by simp
      have "in_step s'" using ok1(2) unfolding s' by (simp add: in_step_def Let_def row_effect_def row_open_def)
      then have "advances sha s1 s'" using phased cp Inr unfolding s' by (simp add: advances_def store_ok_def)
      then show ?thesis using cp Inr phased advances_trans [of sha s s1 s'] unfolding s' by simp
    qed
  qed
qed

lemma mark_unknown_advances:
  assumes "mark_unknown_transfer_complete sha s = (s', r)" "store_ok sha s"
  shows "advances sha s s' \<and> (r = Inr () \<longrightarrow> committed_bytes (ts_disk s') = ts_hashed s')"
proof (cases "ts_unknown_length s")
  case False
  then show ?thesis using assms advances_refl by (auto simp: mark_unknown_transfer_complete_def)
next
  case True
  obtain s1 r1 where s1: "store_checkpoint sha s = (s1, r1)" by fastforce
  note cp = checkpoint_advances [OF s1 assms(2)]
  show ?thesis
  proof (cases r1)
    case (Inl e)
    then show ?thesis using assms(1) s1 True cp by (auto simp: mark_unknown_transfer_complete_def)
  next
    case (Inr u)
    let ?eff = "row_effect (\<lambda>r. r\<lparr>sr_total := int (ts_len s1), sr_length_known := 1, sr_phase := 1\<rparr>)"
    have ok1: "store_ok sha s1" "in_step s1" "disk_ok sha (ts_disk s1)" using cp Inr by (auto simp: advances_def store_ok_def)
    note st = in_stepD [OF ok1(2)]
    have row: "row_open (sd_row (ts_disk s1))" "sr_committed (sd_row (ts_disk s1)) = int (ts_len s1)" "length (sd_part (ts_disk s1)) = ts_len s1"
      "sd_clean (ts_disk s1)" "sr_phase (sd_row (ts_disk s1)) = 0"
      using st cp Inr True by simp_all
    note settled = settle_effect_ok [OF ok1(3) row(1-4)]
    obtain s2 r2 where s2: "attempt_effect StDatabase ?eff (s1\<lparr>ts_poisoned := True\<rparr>) = (s2, r2)" by fastforce
    note up = update_advances [OF s2 ok1(1) settled]
    have res: "(s', r) = (case r2 of Inl e \<Rightarrow> (s2, Inl e) | Inr _ \<Rightarrow>
        (s2\<lparr>ts_identity := (ts_identity s2)\<lparr>si_total := ts_len s2\<rparr>, ts_unknown_length := False, ts_phase := 1, ts_poisoned := False\<rparr>, Inr ()))"
      using assms(1) s1 s2 Inr True row(1,5) by (auto simp: mark_unknown_transfer_complete_def Let_def row_open_def split: sum.splits)
    show ?thesis
    proof (cases r2)
      case (Inl e)
      then show ?thesis using res up(1) cp advances_trans by auto
    next
      case Inr2: (Inr u2)
      then obtain as where s2_eq: "s2 = s1\<lparr>ts_poisoned := True, ts_answers := as, ts_disk := ?eff (ts_disk s1)\<rparr>" using up(2) by auto
      then have s': "s' = s1\<lparr>ts_answers := as, ts_disk := ?eff (ts_disk s1), ts_identity := (ts_identity s1)\<lparr>si_total := ts_len s1\<rparr>,
          ts_unknown_length := False, ts_phase := 1\<rparr>" using res Inr2 cp Inr by simp
      have "in_step s'" using ok1(2) unfolding s' by (simp add: in_step_def Let_def row_effect_def row_open_def)
      then have "advances sha s1 s'" using settled cp Inr unfolding s' by (simp add: advances_def store_ok_def)
      then show ?thesis using cp Inr settled advances_trans [of sha s s1 s'] unfolding s' by simp
    qed
  qed
qed

lemma rebind_advances:
  assumes "rebind_urls s original final = (s', r)" "store_ok sha s" "length original = 32" "length final = 32"
  shows "advances sha s s'"
proof (cases "ts_poisoned s \<or> ts_phase s \<noteq> 0 \<or> ts_unknown_length s \<or> si_etag (ts_identity s) = None")
  case True
  then show ?thesis using assms advances_refl by (auto simp: rebind_urls_def)
next
  case False
  let ?eff = "row_effect (\<lambda>r. r\<lparr>sr_original := original, sr_final := final\<rparr>)"
  have ok: "disk_ok sha (ts_disk s)" "in_step s" using assms(2) False by (auto simp: store_ok_def)
  obtain s1 r1 where s1: "attempt_effect StDatabase ?eff (s\<lparr>ts_poisoned := True\<rparr>) = (s1, r1)" by fastforce
  note eff = rebind_effect_ok [OF ok(1) assms(3,4)]
  note up = update_advances [OF s1 assms(2) eff]
  show ?thesis
  proof (cases r1)
    case (Inl e)
    then show ?thesis using assms(1) s1 False up(1) by (auto simp: rebind_urls_def)
  next
    case (Inr u)
    then obtain as where s1_eq: "s1 = s\<lparr>ts_poisoned := True, ts_answers := as, ts_disk := ?eff (ts_disk s)\<rparr>" using up(2) by auto
    have s': "s' = s1\<lparr>ts_identity := (ts_identity s1)\<lparr>si_original := original, si_final := final\<rparr>, ts_poisoned := False\<rparr>"
      using assms(1) s1 False Inr by (auto simp: rebind_urls_def)
    have "in_step s'" using ok(2) unfolding s' s1_eq by (simp add: in_step_def Let_def row_effect_def row_open_def)
    then show ?thesis using eff assms(2) unfolding s' s1_eq by (simp add: advances_def store_ok_def)
  qed
qed

section \<open>Publishing\<close>

text \<open>A complete part does not change any more; only phase and destination do.\<close>

definition frozen :: "(byte list \<Rightarrow> digest) \<Rightarrow> transfer_store \<Rightarrow> bool" where
  "frozen sha t \<longleftrightarrow> (let d = ts_disk t; r = sd_row d in
     disk_ok sha d \<and> \<not> row_open r \<and> sr_committed r = sr_total r \<and> sd_clean d \<and> sd_part d = ts_hashed t \<and>
     ts_len t = length (ts_hashed t) \<and> int (length (ts_hashed t)) = sr_total r \<and> si_total (ts_identity t) = length (ts_hashed t) \<and>
     int (ts_committed t) = sr_committed r \<and> si_expected (ts_identity t) = sr_expected r \<and> ts_output t = sr_output r \<and>
     \<not> ts_unknown_length t)"

text \<open>The same content, identity and destination.\<close>

definition same_content :: "transfer_store \<Rightarrow> transfer_store \<Rightarrow> bool" where
  "same_content t t' \<longleftrightarrow> ts_hashed t' = ts_hashed t \<and> ts_identity t' = ts_identity t \<and> ts_output t' = ts_output t \<and> ts_poisoned t' = ts_poisoned t"

lemma frozen_of_complete:
  assumes "store_ok sha s" "\<not> ts_poisoned s" "ts_phase s \<noteq> 0"
  shows "frozen sha s"
proof -
  have ok: "disk_ok sha (ts_disk s)" "in_step s" using assms by (auto simp: store_ok_def)
  note st = in_stepD [OF ok(2)]
  let ?r = "sd_row (ts_disk s)"
  have row: "row_ok ?r" using ok(1) by (simp add: disk_ok_def)
  have "0 < sr_phase ?r" using st(4) assms(3) row_ok_bounds [OF row] by linarith
  then have "\<not> row_open ?r" "sr_committed ?r = sr_total ?r" "sd_clean (ts_disk s)" "length (sd_part (ts_disk s)) = nat (sr_committed ?r)"
    using row ok(1) by (auto simp: row_ok_def row_corrupt_def disk_ok_def)
  then show ?thesis using ok(1) st row_ok_bounds [OF row] by (auto simp: frozen_def Let_def)
qed

lemma frozen_effects:
  assumes "frozen sha t"
  shows "frozen sha (t\<lparr>ts_answers := as, ts_disk := sync_effect (ts_disk t)\<rparr>)" "frozen sha (t\<lparr>ts_answers := as, ts_disk := link_effect (ts_disk t)\<rparr>)"
    "p \<in> {1, 2, 3} \<Longrightarrow> frozen sha (t\<lparr>ts_answers := as, ts_disk := row_effect (\<lambda>r. r\<lparr>sr_phase := p\<rparr>) (ts_disk t)\<rparr>)"
    "frozen sha (t\<lparr>ts_answers := as\<rparr>)" "frozen sha (t\<lparr>ts_phase := x\<rparr>)" "frozen sha (t\<lparr>ts_poisoned := b\<rparr>)"
proof -
  let ?d = "ts_disk t"
  have d: "disk_ok sha ?d" "nat (sr_committed (sd_row ?d)) = length (sd_part ?d)" "\<not> row_open (sd_row ?d)"
    "sr_committed (sd_row ?d) = sr_total (sd_row ?d)" "int (length (sd_part ?d)) = sr_total (sd_row ?d)" "sd_clean ?d"
    using assms by (auto simp: frozen_def Let_def)
  note sync = effects_keep_disk [OF d(1) disjI1 [OF d(2)]]
  show "frozen sha (t\<lparr>ts_answers := as, ts_disk := sync_effect ?d\<rparr>)"
    using assms sync by (simp add: frozen_def Let_def sync_effect_def)
  show "frozen sha (t\<lparr>ts_answers := as, ts_disk := link_effect ?d\<rparr>)"
    using assms by (simp add: frozen_def Let_def link_effect_def dest_change_ok)
  show "frozen sha (t\<lparr>ts_answers := as, ts_disk := row_effect (\<lambda>r. r\<lparr>sr_phase := p\<rparr>) ?d\<rparr>)" if "p \<in> {1, 2, 3}"
    using assms phase_effect_ok [OF d(1,3-6) that] by (simp add: frozen_def Let_def row_effect_def row_open_def)
qed (use assms in \<open>simp_all add: frozen_def\<close>)

lemma attempt_same:
  assumes "attempt_effect e eff t = (t', r)" "frozen sha t" "\<And>as. frozen sha (t\<lparr>ts_answers := as, ts_disk := eff (ts_disk t)\<rparr>)"
  shows "frozen sha t'" "same_content t t'" "ts_phase t' = ts_phase t"
    "r = Inr () \<Longrightarrow> ts_disk t' = eff (ts_disk t)" "r = Inr () \<or> r = Inl e"
  using assms(1) by (cases rule: attempt_effect_cases; use assms(2,3) frozen_effects(4) in \<open>simp add: same_content_def\<close>)+

lemma publish_receipt_ok:
  assumes "publish_receipt t = (t', r)" "frozen sha t"
  shows "frozen sha t' \<and> same_content t t' \<and>
    (r = Inr () \<longrightarrow> ts_phase t' = 3 \<and> sr_phase (sd_row (ts_disk t')) = 3 \<and> sd_dest (ts_disk t') = sd_dest (ts_disk t))"
proof -
  obtain t1 r1 where t1: "attempt_effect StIo sync_effect t = (t1, r1)" by fastforce
  note a1 = attempt_same [OF t1 assms(2) frozen_effects(1) [OF assms(2)]]
  obtain t2 r2 where t2: "attempt_effect StIo id t1 = (t2, r2)" by fastforce
  have "frozen sha (t1\<lparr>ts_answers := as, ts_disk := id (ts_disk t1)\<rparr>)" for as using a1(1) by (simp add: frozen_def)
  note a2 = attempt_same [OF t2 a1(1) this]
  obtain t3 r3 where t3: "attempt_effect StDatabase (row_effect (\<lambda>r. r\<lparr>sr_phase := 3\<rparr>)) t2 = (t3, r3)" by fastforce
  have "frozen sha (t2\<lparr>ts_answers := as, ts_disk := row_effect (\<lambda>r. r\<lparr>sr_phase := 3\<rparr>) (ts_disk t2)\<rparr>)" for as
    using frozen_effects(3) [OF a2(1), of 3] by simp
  note a3 = attempt_same [OF t3 a2(1) this]
  have res: "(t', r) = (case r1 of Inl e \<Rightarrow> (t1, Inl e) | Inr _ \<Rightarrow> case r2 of Inl e \<Rightarrow> (t2, Inl e) | Inr _ \<Rightarrow>
      case r3 of Inl e \<Rightarrow> (t3, Inl e) | Inr _ \<Rightarrow> (t3\<lparr>ts_phase := 3\<rparr>, Inr ()))"
    using assms(1) t1 t2 t3 by (auto simp: publish_receipt_def split: sum.splits)
  consider (e1) e where "r1 = Inl e" | (e2) e where "r1 = Inr ()" "r2 = Inl e" | (e3) e where "r1 = Inr ()" "r2 = Inr ()" "r3 = Inl e"
    | (ok) "r1 = Inr ()" "r2 = Inr ()" "r3 = Inr ()" using a1(5) a2(5) a3(5) by blast
  then show ?thesis
  proof cases
    case e1
    then show ?thesis using res a1 by simp
  next
    case e2
    then show ?thesis using res a1(2) a2(1,2) by (simp add: same_content_def)
  next
    case e3
    then show ?thesis using res a1(2) a2(2) a3(1,2) by (simp add: same_content_def)
  next
    case ok
    then show ?thesis using res a1(2,4) a2(2,4) a3(1,2,4) frozen_effects(5) [OF a3(1), of 3]
      by (simp add: same_content_def row_effect_def sync_effect_def)
  qed
qed

text \<open>What stands at the destination when it has been checked.\<close>

definition dest_file :: "store_disk \<Rightarrow> byte list option" where
  "dest_file d = (case sd_dest d of LinkedDest \<Rightarrow> Some (sd_part d) | OtherDest x \<Rightarrow> Some x | _ \<Rightarrow> None)"

lemma verify_destination_ok:
  assumes "verify_destination sha t = Inr ()" "ts_len t = si_total (ts_identity t)"
  shows "\<exists>file. dest_file (ts_disk t) = Some file \<and> length file = si_total (ts_identity t) \<and> sha file = sha (ts_hashed t)"
  using assms by (auto simp: verify_destination_def dest_file_def store_hash_prefix_def Let_def res_simps split: store_dest.splits if_splits)

lemma store_publish_ok:
  assumes "store_publish sha t = (t', r)" "frozen sha t"
  shows "frozen sha t' \<and> same_content t t' \<and>
    (r = Inr () \<longrightarrow> ts_phase t' = 3 \<and> sr_phase (sd_row (ts_disk t')) = 3 \<and> \<not> expected_differs sha t \<and>
      (\<exists>file. dest_file (ts_disk t') = Some file \<and> length file = length (ts_hashed t) \<and> sha file = sha (ts_hashed t)))"
proof -
  have same: "same_content t t" by (simp add: same_content_def)
  have len: "ts_len t = si_total (ts_identity t)" "si_total (ts_identity t) = length (ts_hashed t)" "sd_part (ts_disk t) = ts_hashed t"
    using assms(2) by (auto simp: frozen_def Let_def)
  have part: "sd_part (ts_disk u) = ts_hashed u" if "frozen sha u" for u using that by (simp add: frozen_def Let_def)
  obtain t1 r1 where t1: "attempt_effect StIo link_effect t = (t1, r1)" by fastforce
  note a1 = attempt_same [OF t1 assms(2) frozen_effects(2) [OF assms(2)]]
  consider (stop) "t' = t" "r \<noteq> Inr ()"
    | (there) "\<not> expected_differs sha t" "verify_destination sha t = Inr ()" "publish_receipt t = (t', r)"
    | (failed) "t' = t1" "r \<noteq> Inr ()"
    | (link) "\<not> expected_differs sha t" "r1 = Inr ()" "publish_receipt t1 = (t', r)"
    using assms(1) t1 by (cases "verify_destination sha t") (auto simp: store_publish_def split: sum.splits if_splits, metis Inl_Inr_False)
  then show ?thesis
  proof cases
    case stop
    then show ?thesis using assms(2) same by simp
  next
    case failed
    then show ?thesis using a1 by simp
  next
    case there
    note pr = publish_receipt_ok [OF there(3) assms(2)]
    have "sd_part (ts_disk t') = sd_part (ts_disk t)" using part [of t'] part [OF assms(2)] pr by (simp add: same_content_def)
    then have "dest_file (ts_disk t') = dest_file (ts_disk t)" if "r = Inr ()" using pr that by (simp add: dest_file_def split: store_dest.split)
    then show ?thesis using pr there(1) verify_destination_ok [OF there(2) len(1)] len(2) by auto
  next
    case link
    note pr = publish_receipt_ok [OF link(3) a1(1)]
    have content: "same_content t t'" using pr a1(2) by (simp add: same_content_def)
    have "sd_part (ts_disk t') = ts_hashed t" using part [of t'] pr content by (simp add: same_content_def)
    moreover have "sd_dest (ts_disk t') = LinkedDest" if "r = Inr ()" using pr that a1(4) link(2) by (simp add: link_effect_def)
    ultimately show ?thesis using pr link(1) content by (auto simp: dest_file_def)
  qed
qed

lemma enter_publish_ok:
  assumes "enter_publish sha t = (t', r)" "frozen sha t"
  shows "frozen sha t' \<and> same_content t t'"
proof -
  obtain t1 r1 where t1: "attempt_effect StDatabase (row_effect (\<lambda>r. r\<lparr>sr_phase := 2\<rparr>)) t = (t1, r1)" by fastforce
  have "frozen sha (t\<lparr>ts_answers := as, ts_disk := row_effect (\<lambda>r. r\<lparr>sr_phase := 2\<rparr>) (ts_disk t)\<rparr>)" for as
    using frozen_effects(3) [OF assms(2), of 2] by simp
  note a1 = attempt_same [OF t1 assms(2) this]
  consider "t' = t" | "t' = t1" | "t' = t1\<lparr>ts_phase := 2\<rparr>"
    using assms(1) t1 by (auto simp: enter_publish_def split: sum.splits if_splits)
  then show ?thesis using assms(2) a1(1,2) frozen_effects(5) [OF a1(1), of 2] by cases (simp_all add: same_content_def)
qed

lemma finalize_ok:
  assumes "store_finalize sha s = (s', r)" "store_ok sha s"
  shows "advances sha s s' \<and> (\<forall>name. r = Inr name \<longrightarrow> frozen sha s \<and> ts_hashed s' = ts_hashed s \<and> name = ts_output s \<and>
    \<not> expected_differs sha s \<and> (\<exists>file. dest_file (ts_disk s') = Some file \<and> length file = length (ts_hashed s) \<and> sha file = sha (ts_hashed s)))"
proof (cases "ts_poisoned s \<or> ts_phase s = 0")
  case True
  then show ?thesis using assms advances_refl by (auto simp: store_finalize_def)
next
  case False
  let ?p = "s\<lparr>ts_poisoned := True\<rparr>"
  have fs: "frozen sha s" "frozen sha ?p" using frozen_of_complete [OF assms(2)] False frozen_effects(6) by auto
  obtain s1 r1 where s1: "enter_publish sha ?p = (s1, r1)" by fastforce
  note e1 = enter_publish_ok [OF s1 fs(2)]
  obtain s2 r2 where s2: "store_publish sha s1 = (s2, r2)" by fastforce
  note p2 = store_publish_ok [OF s2 conjunct1 [OF e1]]
  have full: "committed_bytes (ts_disk u) = ts_hashed u" if "frozen sha u" for u
    using that by (auto simp: frozen_def Let_def committed_bytes_def)
  have adv: "advances sha s u" if "frozen sha u" "ts_hashed u = ts_hashed s" "\<not> ts_poisoned u \<longrightarrow> ts_phase u = sr_phase (sd_row (ts_disk u))" for u
    using that full [OF that(1)] full [OF fs(1)] by (auto simp: advances_def store_ok_def frozen_def in_step_def Let_def)
  have res: "(s', r) = (case r1 of Inl e \<Rightarrow> (s1, Inl e) | Inr _ \<Rightarrow> case r2 of Inl e \<Rightarrow> (s2, Inl e) | Inr _ \<Rightarrow>
      (s2\<lparr>ts_poisoned := False\<rparr>, Inr (ts_output s2)))"
    using assms(1) s1 s2 False by (auto simp: store_finalize_def split: sum.splits)
  show ?thesis
  proof (cases r1)
    case (Inl e)
    then show ?thesis using res adv [of s1] e1 by (simp add: same_content_def)
  next
    case Inr1: (Inr u1)
    show ?thesis
    proof (cases r2)
      case (Inl e)
      then show ?thesis using res Inr1 adv [of s2] e1 p2 by (simp add: same_content_def)
    next
      case (Inr u2)
      then have r: "s' = s2\<lparr>ts_poisoned := False\<rparr>" "r = Inr (ts_output s2)" "r2 = Inr ()" using res Inr1 by simp_all
      have "ts_hashed s2 = ts_hashed s" "ts_output s2 = ts_output s" "expected_differs sha s1 = expected_differs sha s" "ts_hashed s1 = ts_hashed s"
        using e1 p2 by (auto simp: same_content_def expected_differs_def split: option.split)
      then show ?thesis using r p2 fs(1) adv [of s'] frozen_effects(6) [of sha s2 False] by simp
    qed
  qed
qed

section \<open>Runs\<close>

text \<open>A store in use, or a directory left behind by a crash with the bytes its last handle had been
  given.\<close>

datatype store_system = Live transfer_store | Down store_disk "byte list"

definition digests_ok :: "store_identity \<Rightarrow> bool" where
  "digests_ok i \<longleftrightarrow> length (si_original i) = 32 \<and> length (si_final i) = 32 \<and> (case si_expected i of None \<Rightarrow> True | Some e \<Rightarrow> length e = 32)"

text \<open>Everything that can happen, with the content of the last checkpoint that was acknowledged.\<close>

inductive store_run :: "(byte list \<Rightarrow> digest) \<Rightarrow> byte list \<Rightarrow> store_system \<Rightarrow> bool" for sha where
  sr_create: "store_create sha fails i output answers = Inr s \<or> store_create_unknown sha fails i output answers = Inr s \<Longrightarrow>
    digests_ok i \<Longrightarrow> store_run sha [] (Live s)"
| sr_append: "store_run sha acked (Live s) \<Longrightarrow> store_append s bytes = (s', r) \<Longrightarrow> store_run sha acked (Live s')"
| sr_checkpoint: "store_run sha acked (Live s) \<Longrightarrow> store_checkpoint sha s = (s', r) \<Longrightarrow>
    store_run sha (if r = Inr () then ts_hashed s' else acked) (Live s')"
| sr_mark: "store_run sha acked (Live s) \<Longrightarrow> mark_transfer_complete sha s = (s', r) \<Longrightarrow>
    store_run sha (if r = Inr () then ts_hashed s' else acked) (Live s')"
| sr_mark_unknown: "store_run sha acked (Live s) \<Longrightarrow> mark_unknown_transfer_complete sha s = (s', r) \<Longrightarrow>
    store_run sha (if r = Inr () then ts_hashed s' else acked) (Live s')"
| sr_rebind: "store_run sha acked (Live s) \<Longrightarrow> rebind_urls s original final = (s', r) \<Longrightarrow> length original = 32 \<Longrightarrow> length final = 32 \<Longrightarrow>
    store_run sha acked (Live s')"
| sr_finalize: "store_run sha acked (Live s) \<Longrightarrow> store_finalize sha s = (s', r') \<Longrightarrow> store_run sha acked (Live s')"
| sr_outside: "store_run sha acked (Live s) \<Longrightarrow> store_run sha acked (Live (s\<lparr>ts_disk := (ts_disk s)\<lparr>sd_dest := x\<rparr>, ts_answers := as\<rparr>))"
| sr_crash: "store_run sha acked (Live s) \<Longrightarrow> crashed (ts_disk s) d \<Longrightarrow> store_run sha acked (Down d (ts_hashed s))"
| sr_crash_again: "store_run sha acked (Down d fed) \<Longrightarrow> crashed d d' \<Longrightarrow> store_run sha acked (Down d' fed)"
| sr_open: "store_run sha acked (Down d fed) \<Longrightarrow> store_open sha fails d answers = (d', Inr s) \<Longrightarrow> store_run sha acked (Live s)"
| sr_open_fails: "store_run sha acked (Down d fed) \<Longrightarrow> store_open sha fails d answers = (d', Inl e) \<Longrightarrow> store_run sha acked (Down d' fed)"

fun system_ok :: "(byte list \<Rightarrow> digest) \<Rightarrow> byte list \<Rightarrow> store_system \<Rightarrow> bool" where
  "system_ok sha acked (Live s) \<longleftrightarrow> store_ok sha s \<and> prefix acked (committed_bytes (ts_disk s))"
| "system_ok sha acked (Down d fed) \<longleftrightarrow> disk_ok sha d \<and> prefix acked (committed_bytes d) \<and> prefix (committed_bytes d) fed"

lemma created_ok:
  assumes "store_create_inner sha fails i output unknown answers = Inr s" "digests_ok i" "unknown \<longrightarrow> si_total i \<noteq> 0"
  shows "store_ok sha s"
proof -
  have v: "name_ok output" "validate_identity i = Inr ()"
    and s: "s = \<lparr>ts_disk = \<lparr>sd_part = [], sd_synced = 0, sd_clean = True, sd_row = initial_row sha i output unknown, sd_dest = NoDest\<rparr>,
      ts_identity = i, ts_output = output, ts_len = 0, ts_committed = 0, ts_phase = 0, ts_hashed = [],
      ts_poisoned = False, ts_unknown_length = unknown, ts_answers = answers\<rparr>"
    using assms(1) by (auto simp: store_create_inner_def res_simps validate_name_def split: option.splits if_splits)
  have "si_total i \<le> I64_MAX" "case si_etag i of None \<Rightarrow> True | Some e \<Rightarrow> length e \<le> 8192"
    using v(2) by (auto simp: validate_identity_def split: if_splits option.splits)
  then have "row_ok (initial_row sha i output unknown)"
    using assms(2,3) v(1) by (cases unknown) (simp_all add: row_ok_def initial_row_def row_corrupt_def row_open_def digests_ok_def)
  then show ?thesis unfolding s
    by (simp add: store_ok_def disk_ok_def committed_bytes_def in_step_def Let_def) (simp add: initial_row_def row_open_def)
qed

lemma advances_acked: "advances sha s s' \<Longrightarrow> prefix acked (committed_bytes (ts_disk s)) \<Longrightarrow> system_ok sha acked (Live s')"
  using prefix_order.trans by (auto simp: advances_def)

lemma store_run_ok: "store_run sha acked sys \<Longrightarrow> system_ok sha acked sys"
proof (induction rule: store_run.induct)
  case (sr_create fails i out answers s)
  then have "store_ok sha s"
    using created_ok [of sha fails i out False answers s] created_ok [of sha fails i out True answers s]
    by (auto simp: store_create_def store_create_unknown_def split: if_splits)
  then show ?case by simp
next
  case (sr_append acked s bytes s' r)
  then show ?case using append_advances [OF sr_append.hyps(2), of sha] advances_acked [of sha s s' acked] by simp
next
  case (sr_checkpoint acked s s' r)
  then show ?case using checkpoint_advances [OF sr_checkpoint.hyps(2)] advances_acked [of sha s s' acked] by (auto simp: advances_def)
next
  case (sr_mark acked s s' r)
  then show ?case using mark_advances [OF sr_mark.hyps(2)] advances_acked [of sha s s' acked] by (auto simp: advances_def)
next
  case (sr_mark_unknown acked s s' r)
  then show ?case using mark_unknown_advances [OF sr_mark_unknown.hyps(2)] advances_acked [of sha s s' acked] by (auto simp: advances_def)
next
  case (sr_rebind acked s original final s' r)
  then show ?case using rebind_advances [OF sr_rebind.hyps(2), of sha] advances_acked [of sha s s' acked] by simp
next
  case (sr_finalize acked s s' r')
  then show ?case using finalize_ok [OF sr_finalize.hyps(2)] advances_acked [of sha s s' acked] by simp
next
  case (sr_outside acked s x as)
  then show ?case by (auto simp: store_ok_def dest_change_ok in_step_def Let_def)
next
  case (sr_crash acked s d)
  then show ?case using crashed_ok [OF sr_crash.hyps(2), of sha] by (simp add: store_ok_def)
next
  case (sr_crash_again acked d fed d')
  then show ?case using crashed_ok [OF sr_crash_again.hyps(2), of sha] by simp
next
  case (sr_open acked d fed fails answers d' s)
  then show ?case using store_open_ok [OF sr_open.hyps(2)] by auto
next
  case (sr_open_fails acked d fed fails answers d' e)
  then show ?case using store_open_ok [OF sr_open_fails.hyps(2)] by auto
qed

section \<open>Properties\<close>

text \<open>
  C28. A crash loses nothing that was acknowledged and invents nothing. Whatever was done to a store,
  whatever failed or was left unclear, and however often the process or the machine stopped, in the
  middle of reopening too: if its directory and the calls behind it are in order (and, once
  published, the destination still holds the file), the store opens; the part then is exactly the
  committed bytes, which continue the last acknowledged checkpoint and are a beginning of what the
  last handle had been given; and an unfinished store of unknown length opens closed for writing.
\<close>

theorem store_survives_crashes:
  assumes "store_run sha acked (Down d fed)"
    and "sr_phase (sd_row d) = 3 \<longrightarrow> (\<exists>file. dest_file d = Some file \<and> length file = length (committed_bytes d) \<and> sha file = sha (committed_bytes d))"
  shows "\<exists>s. store_open sha None d [] = (ts_disk s, Inr s) \<and> sd_part (ts_disk s) = ts_hashed s \<and> ts_len s = length (ts_hashed s) \<and>
    ts_hashed s = committed_bytes d \<and> prefix acked (ts_hashed s) \<and> prefix (ts_hashed s) fed \<and>
    (ts_unknown_length s \<longrightarrow> (\<forall>bytes. store_append s bytes = (s, Inl StNotWritable)) \<and> store_finalize sha s = (s, Inl StIncomplete))"
proof -
  have ok: "disk_ok sha d" "prefix acked (committed_bytes d)" "prefix (committed_bytes d) fed" using store_run_ok [OF assms(1)] by auto
  obtain s x where s: "discard_tail (nat (sr_committed (sd_row d))) (opened d []) = (s, x)" by fastforce
  note tail = discard_tail_ok [OF s ok(1)]
  have x: "x = Inr ()" using s by (auto simp: discard_tail_def attempt_effect_def take_answer_def opened_def Let_def split: if_splits)
  have row: "row_ok (sd_row d)" "nat (sr_committed (sd_row d)) \<le> length (sd_part d)"
    using ok(1) by (auto simp: disk_ok_def)
  have fields: "ts_hashed s = committed_bytes d" "ts_len s = nat (sr_committed (sd_row d))" "si_total (ts_identity s) = nat (sr_total (sd_row d))"
    by (subst tail(5), simp add: opened_def Let_def)+
  have len: "length (committed_bytes d) = nat (sr_committed (sd_row d))" using row(2) by (simp add: committed_bytes_def)
  have "verify_destination sha s = Inr ()" if "sr_phase (sd_row d) = 3"
  proof -
    have "sr_committed (sd_row d) = sr_total (sd_row d)" using row_ok_bounds [OF row(1)] that by simp
    moreover have "sd_part d = committed_bytes d" using ok(1) that by (auto simp: disk_ok_def committed_bytes_def)
    ultimately show ?thesis using assms(2) that fields len tail(4,6) x
      by (auto simp: verify_destination_def dest_file_def store_hash_prefix_def split: store_dest.splits)
  qed
  then have opens: "store_open sha None d [] = (ts_disk s, Inr s)"
    unfolding store_open_eq [OF ok(1)] s x by simp
  have "ts_poisoned s" if "ts_unknown_length s" using store_open_ok [OF opens ok(1)] that by auto
  then show ?thesis using opens tail(6) x fields(1,2) len ok(2,3) by (auto simp: store_append_def store_finalize_def)
qed

definition sample_store_identity :: store_identity where
  "sample_store_identity = \<lparr>si_original = replicate 32 (CHR ''o''), si_final = replicate 32 (CHR ''f''), si_etag = None, si_total = 2, si_expected = None\<rparr>"

definition sample_store :: "byte list \<Rightarrow> nat \<Rightarrow> int \<Rightarrow> store_dest \<Rightarrow> transfer_store" where
  "sample_store h committed phase dest =
     \<lparr>ts_disk = \<lparr>sd_part = h, sd_synced = committed, sd_clean = (committed = length h),
        sd_row = \<lparr>sr_version = 2, sr_original = replicate 32 (CHR ''o''), sr_final = replicate 32 (CHR ''f''), sr_etag = None, sr_total = 2,
          sr_expected = None, sr_output = [102], sr_committed = int committed, sr_digest = take committed h, sr_phase = phase, sr_length_known = 0\<rparr>,
        sd_dest = dest\<rparr>,
      ts_identity = sample_store_identity, ts_output = [102], ts_len = length h, ts_committed = committed, ts_phase = phase, ts_hashed = h,
      ts_poisoned = False, ts_unknown_length = False, ts_answers = []\<rparr>"

lemmas sample_store_defs = sample_store_def sample_store_identity_def attempt_effect_def take_answer_def row_effect_def sync_effect_def

lemma sample_store_ops:
  "store_create (\<lambda>x. x) None sample_store_identity [102] [] = Inr (sample_store [] 0 0 NoDest)"
  "store_append (sample_store [] 0 0 NoDest) ''ab'' = (sample_store ''ab'' 0 0 NoDest, Inr ())"
  "store_checkpoint (\<lambda>x. x) (sample_store ''ab'' 0 0 NoDest) = (sample_store ''ab'' 2 0 NoDest, Inr ())"
  "mark_transfer_complete (\<lambda>x. x) (sample_store ''ab'' 2 0 NoDest) = (sample_store ''ab'' 2 1 NoDest, Inr ())"
  "store_finalize (\<lambda>x. x) (sample_store ''ab'' 2 1 NoDest) = (sample_store ''ab'' 2 3 LinkedDest, Inr [102])"
  by (simp_all add: sample_store_defs store_create_def store_create_inner_def validate_name_def name_ok_def text_of_def RESERVED_def ascii_upper_def
      utf8_len_def is_control_def validate_identity_def initial_row_def store_append_def checked_add_def width_simps grow_effect_def
      store_checkpoint_def mark_transfer_complete_def store_finalize_def enter_publish_def store_hash_prefix_def store_publish_def
      expected_differs_def link_effect_def publish_receipt_def)

lemma sample_store_run:
  "store_run (\<lambda>x. x) [] (Live (sample_store [] 0 0 NoDest))" "store_run (\<lambda>x. x) ''ab'' (Live (sample_store ''ab'' 2 0 NoDest))"
proof -
  have "digests_ok sample_store_identity" by (simp add: digests_ok_def sample_store_identity_def)
  then show new: "store_run (\<lambda>x. x) [] (Live (sample_store [] 0 0 NoDest))" using sr_create sample_store_ops(1) by blast
  have "ts_hashed (sample_store ''ab'' 2 0 NoDest) = ''ab''" by (simp add: sample_store_def)
  then show "store_run (\<lambda>x. x) ''ab'' (Live (sample_store ''ab'' 2 0 NoDest))"
    using sr_checkpoint [OF sr_append [OF new sample_store_ops(2)] sample_store_ops(3)] by simp
qed

theorem store_survives_crashes_witness:
  "\<exists>s. store_open (\<lambda>x. x) None (ts_disk (sample_store ''ab'' 2 0 NoDest)) [] = (ts_disk s, Inr s) \<and> ts_hashed s = ''ab''"
proof -
  let ?d = "ts_disk (sample_store ''ab'' 2 0 NoDest)"
  have "crashed ?d ?d" by (simp add: crashed_def sample_store_def)
  then have down: "store_run (\<lambda>x. x) ''ab'' (Down ?d (ts_hashed (sample_store ''ab'' 2 0 NoDest)))" by (rule sr_crash [OF sample_store_run(2)])
  have "sr_phase (sd_row ?d) \<noteq> 3" "committed_bytes ?d = ''ab''" by (simp_all add: sample_store_def committed_bytes_def)
  then show ?thesis using store_survives_crashes [OF down] by auto
qed

text \<open>
  What is published is the whole file. If publishing succeeds, whatever happened before, the
  store holds exactly as many bytes as were announced, all of them committed, their digest is the
  expected one where one was given, and the destination holds a file of exactly that length and
  digest under the name the store was created with.
\<close>

theorem store_publishes_the_whole:
  assumes "store_run sha acked (Live s)" "store_finalize sha s = (s', Inr name)"
  shows "name = ts_output s \<and> length (ts_hashed s) = si_total (ts_identity s) \<and> committed_bytes (ts_disk s) = ts_hashed s \<and>
    (\<forall>e. si_expected (ts_identity s) = Some e \<longrightarrow> e = sha (ts_hashed s)) \<and>
    (\<exists>file. dest_file (ts_disk s') = Some file \<and> length file = si_total (ts_identity s) \<and> sha file = sha (ts_hashed s))"
proof -
  have ok: "store_ok sha s" using store_run_ok [OF assms(1)] by simp
  note fin = finalize_ok [OF assms(2) ok]
  then have fr: "frozen sha s" by blast
  then have "committed_bytes (ts_disk s) = ts_hashed s" "si_total (ts_identity s) = length (ts_hashed s)"
    by (auto simp: frozen_def Let_def committed_bytes_def)
  then show ?thesis using fin by (auto simp: expected_differs_def split: option.splits)
qed

theorem store_publishes_the_whole_witness:
  "store_finalize (\<lambda>x. x) (sample_store ''ab'' 2 1 NoDest) = (sample_store ''ab'' 2 3 LinkedDest, Inr [102]) \<and>
   (\<exists>file. dest_file (ts_disk (sample_store ''ab'' 2 3 LinkedDest)) = Some file \<and> file = ''ab'')"
proof -
  have run: "store_run (\<lambda>x. x) (ts_hashed (sample_store ''ab'' 2 1 NoDest)) (Live (sample_store ''ab'' 2 1 NoDest))"
    using sr_mark [OF sample_store_run(2) sample_store_ops(4)] by simp
  have "ts_hashed (sample_store ''ab'' 2 1 NoDest) = ''ab''" by (simp add: sample_store_def)
  then show ?thesis using store_publishes_the_whole [OF run sample_store_ops(5)] sample_store_ops(5) by auto
qed

end
