(* ===== verification/Engine_Request.thy ===== *)
theory Engine_Request
  imports Http Transfer_Store
begin

text \<open>
  The earlier engine's requests (\<open>crates/download-engine/src\<close>: \<open>lib.rs\<close> up to \<open>request\<close>,
  \<open>request_policy.rs\<close>, \<open>rate.rs\<close>): its options and errors, what is accepted of a URL and of a
  response, the credentials a request carries, the redirects, and the pacing of body bytes. The URL
  library is the parameter it is for the HTTP adapter; a request is answered from a list.
\<close>

section \<open>Errors and options\<close>

text \<open>The kind of an input or output error is the operating system's and not kept.\<close>

datatype EngineError = EInvalidOptions | EInvalidUrl | EInsecureHttp | ERedirectLimit | ERedirectOriginChange
  | ENetwork | EHttpStatus u16 | EServerBackoff u16 | EInvalidHeaders | ERepresentationChanged
  | EResumeUnsupported | EResumeRejected | ELocalStateMismatch | EStorage | EStorageIo | EStorageLocked
  | EDestinationConflict | EStoredDataCorrupt | EChecksumMismatch | EUnsupportedStorageVersion
  | EWorkerFailed | ECancelled | EInvalidTransition | EBodyLength | ESizeLimit | EInsufficientSpace

record request_policy =
  rq_authorization :: "string option"
  rq_cookie :: "string option"
  rq_redirect_origins :: "nat list list"

definition policy_default :: request_policy where
  "policy_default = \<lparr>rq_authorization = None, rq_cookie = None, rq_redirect_origins = []\<rparr>"

record 'p options =
  op_url :: "nat list"
  op_job_dir :: 'p
  op_output_name :: "nat list"
  op_expected_sha256 :: "digest option"
  op_allow_http :: bool
  op_checkpoint_bytes :: u64
  op_max_download_bytes :: u64
  op_bytes_per_second :: "u64 option"
  op_parallel_connections :: u8
  op_request_policy :: request_policy
  op_refresh_from :: "digest option"

definition storage_error :: "StoreError \<Rightarrow> EngineError" where
  "storage_error e =
     (case e of StUnsupportedVersion \<Rightarrow> EUnsupportedStorageVersion
      | StIo \<Rightarrow> EStorageIo
      | StLocked \<Rightarrow> EStorageLocked
      | StCollision \<Rightarrow> EDestinationConflict
      | StCorrupt \<Rightarrow> EStoredDataCorrupt
      | StHashMismatch \<Rightarrow> EChecksumMismatch
      | _ \<Rightarrow> EStorage)"

section \<open>URLs and headers\<close>

definition engine_url :: "'u url_lib \<Rightarrow> nat list \<Rightarrow> bool \<Rightarrow> (EngineError, 'u) result" where
  "engine_url ul raw allow_http =
     (if 16384 < utf8_len raw \<or> list_ex is_control raw then Inl EInvalidUrl
      else
      res_bind (ok_or (ul_parse ul raw) EInvalidUrl) (\<lambda>url.
      if \<not> (ul_scheme ul url = ''http'' \<or> ul_scheme ul url = ''https'') \<or> ul_host ul url = None \<or>
         ul_username ul url \<noteq> [] \<or> ul_password ul url \<noteq> None \<or> ul_fragment ul url \<noteq> None then Inl EInvalidUrl
      else if ul_scheme ul url = ''http'' \<and> \<not> allow_http then Inl EInsecureHttp
      else Inr url))"

definition header_field :: "header_map \<Rightarrow> string \<Rightarrow> Field" where
  "header_field h name = (case get_all h name of [] \<Rightarrow> Missing | [v] \<Rightarrow> Single v | _ \<Rightarrow> Repeated)"

fun length_fold :: "u64 \<Rightarrow> byte list \<Rightarrow> (EngineError, u64) result" where
  "length_fold n [] = Inr n"
| "length_fold n (b # bs) =
     (if \<not> is_ascii_digit b then Inl EInvalidHeaders
      else res_bind (ok_or (Option.bind (checked_mul n 10) (\<lambda>m. checked_add m (of_char b - 48))) EInvalidHeaders)
             (\<lambda>m. length_fold m bs))"

definition header_length :: "header_map \<Rightarrow> (EngineError, u64) result" where
  "header_length h =
     (case header_field h ''content-length'' of
        Single v \<Rightarrow>
          if v = [] \<or> 20 < length v then Inl EInvalidHeaders
          else res_bind (length_fold 0 v) (\<lambda>n. if n \<le> I64_MAX then Inr n else Inl EInvalidHeaders)
      | _ \<Rightarrow> Inl EInvalidHeaders)"

definition validate_representation :: "header_map \<Rightarrow> (EngineError, unit) result" where
  "validate_representation h =
     (if (case header_field h ''content-encoding'' of
            Missing \<Rightarrow> False | Single v \<Rightarrow> \<not> eq_ignore_ascii_case v ''identity'' | Repeated \<Rightarrow> True) then Inl EInvalidHeaders
      else if get_all h ''transfer-encoding'' \<noteq> [] \<and> get_all h ''content-length'' \<noteq> [] then Inl EInvalidHeaders
      else
        (case header_field h ''content-type'' of
           Repeated \<Rightarrow> Inl EInvalidHeaders
         | Single v \<Rightarrow>
             if MAX_FIELD_BYTES < length v \<or>
                10 \<le> length (trim_ascii v) \<and> eq_ignore_ascii_case (take 10 (trim_ascii v)) ''multipart/''
             then Inl EInvalidHeaders else Inr ()
         | Missing \<Rightarrow> Inr ()))"

section \<open>Credentials and redirect permissions\<close>

definition secret_ok :: "'u url_lib \<Rightarrow> string \<Rightarrow> bool" where
  "secret_ok ul v \<longleftrightarrow> v \<noteq> [] \<and> length v \<le> 8192 \<and> list_all (\<lambda>b. (of_char b :: nat) < 128) v \<and>
     \<not> list_ex ascii_control v \<and> ul_header_ok ul v"

definition bare_origin :: "'u url_lib \<Rightarrow> nat list \<Rightarrow> (EngineError, 'u) result" where
  "bare_origin ul raw =
     res_bind (engine_url ul raw True) (\<lambda>url.
     if ul_path ul url \<noteq> ''/'' \<or> ul_query ul url \<noteq> None then Inl EInvalidOptions else Inr url)"

definition policy_validate :: "'u url_lib \<Rightarrow> request_policy \<Rightarrow> (EngineError, unit) result" where
  "policy_validate ul p =
     (if list_ex (\<lambda>x. case x of None \<Rightarrow> False | Some v \<Rightarrow> \<not> secret_ok ul v) [rq_authorization p, rq_cookie p] then Inl EInvalidOptions
      else if 8 < length (rq_redirect_origins p) then Inl EInvalidOptions
      else res_bind (collect_res (map (bare_origin ul) (rq_redirect_origins p))) (\<lambda>_. Inr ()))"

definition policy_new :: "'u url_lib \<Rightarrow> string option \<Rightarrow> string option \<Rightarrow> nat list list \<Rightarrow> (EngineError, request_policy) result" where
  "policy_new ul authorization cookie origins =
     res_bind (policy_validate ul \<lparr>rq_authorization = authorization, rq_cookie = cookie, rq_redirect_origins = origins\<rparr>) (\<lambda>_.
     res_bind (collect_res (map (\<lambda>raw. res_bind (engine_url ul raw True) (\<lambda>url. Inr (text_of (ul_serialize ul (ul_origin ul url))))) origins)) (\<lambda>os.
     Inr \<lparr>rq_authorization = authorization, rq_cookie = cookie, rq_redirect_origins = remdups_adj (sort os)\<rparr>))"

definition authorize_redirect :: "'u url_lib \<Rightarrow> request_policy \<Rightarrow> 'u \<Rightarrow> 'u \<Rightarrow> (EngineError, unit) result" where
  "authorize_redirect ul p previous next =
     (if ul_scheme ul previous = ''https'' \<and> ul_scheme ul next \<noteq> ''https'' then Inl EInsecureHttp
      else if ul_origin ul previous \<noteq> ul_origin ul next \<and>
              \<not> list_ex (\<lambda>origin. origin = text_of (ul_serialize ul (ul_origin ul next))) (rq_redirect_origins p)
      then Inl ERedirectOriginChange
      else Inr ())"

text \<open>The authorization and the cookie a request to a target carries.\<close>

definition policy_apply :: "'u url_lib \<Rightarrow> request_policy \<Rightarrow> 'u \<Rightarrow> 'u \<Rightarrow> (EngineError, string option \<times> string option) result" where
  "policy_apply ul p target initial =
     (if ul_origin ul target = ul_origin ul initial then
        if list_ex (\<lambda>x. case x of None \<Rightarrow> False | Some v \<Rightarrow> \<not> ul_header_ok ul v) [rq_authorization p, rq_cookie p] then Inl EInvalidOptions
        else Inr (rq_authorization p, rq_cookie p)
      else Inr (None, None))"

section \<open>Requests\<close>

datatype http_version = Http11 | Http2 | HttpOther

record engine_response =
  er_status :: nat
  er_version :: http_version
  er_headers :: header_map

text \<open>What comes of one request: the cancellation first, a failure or no answer in 30 seconds, or a
  response. A list that is used up means no answer.\<close>

datatype engine_exchange = ExCancelled | ExFails | ExResponse engine_response

definition redirect_target :: "'u url_lib \<Rightarrow> bool \<Rightarrow> request_policy \<Rightarrow> 'u \<Rightarrow> engine_response \<Rightarrow> (EngineError, 'u) result" where
  "redirect_target ul allow_http p url r =
     (case header_field (er_headers r) ''location'' of
        Single location \<Rightarrow>
          if 16384 < length location \<or> \<not> utf8_ok location then Inl EInvalidHeaders
          else
          res_bind (ok_or (ul_join ul url location) EInvalidUrl) (\<lambda>joined.
          res_bind (engine_url ul (ul_as_str ul joined) allow_http) (\<lambda>next.
          res_bind (authorize_redirect ul p url next) (\<lambda>_. Inr next)))
      | _ \<Rightarrow> Inl EInvalidHeaders)"

text \<open>The loop of \<open>request\<close>, with the redirects that may still be followed: the requests made, the
  answers left, and the response with the URL it came from. A range is its start, the end of what is
  wanted and the tag it is conditional on.\<close>

fun request_loop :: "'u url_lib \<Rightarrow> bool \<Rightarrow> request_policy \<Rightarrow> 'u \<Rightarrow> (u64 \<times> u64 \<times> byte list) option \<Rightarrow> nat \<Rightarrow> 'u \<Rightarrow> engine_exchange list \<Rightarrow>
  'u http_request list \<times> engine_exchange list \<times> (EngineError, 'u \<times> engine_response) result" where
  "request_loop ul allow_http p initial wanted redirects url net =
     (case policy_apply ul p url initial of
        Inl e \<Rightarrow> ([], net, Inl e)
      | Inr (auth, cookie) \<Rightarrow>
          let q = \<lparr>hq_url = url, hq_authorization = auth, hq_cookie = cookie,
                   hq_range = map_option (\<lambda>(start, final, _). (start, final)) wanted,
                   hq_if_range = map_option (\<lambda>(_, _, etag). etag) wanted\<rparr> in
          (case net of
             [] \<Rightarrow> ([q], [], Inl ENetwork)
           | ExCancelled # rest \<Rightarrow> ([q], rest, Inl ECancelled)
           | ExFails # rest \<Rightarrow> ([q], rest, Inl ENetwork)
           | ExResponse r # rest \<Rightarrow>
               if er_status r \<notin> {301, 302, 303, 307, 308} then ([q], rest, Inr (url, r))
               else (case redirects of
                  0 \<Rightarrow> ([q], rest, Inl ERedirectLimit)
                | Suc left \<Rightarrow>
                    (case redirect_target ul allow_http p url r of
                       Inl e \<Rightarrow> ([q], rest, Inl e)
                     | Inr next \<Rightarrow>
                         (case request_loop ul allow_http p initial wanted left next rest of
                            (later, net', result) \<Rightarrow> (q # later, net', result))))))"

declare request_loop.simps [simp del]

definition engine_request :: "'u url_lib \<Rightarrow> bool \<Rightarrow> request_policy \<Rightarrow> 'u \<Rightarrow> (u64 \<times> u64 \<times> byte list) option \<Rightarrow> engine_exchange list \<Rightarrow>
  'u http_request list \<times> engine_exchange list \<times> (EngineError, 'u \<times> engine_response) result" where
  "engine_request ul allow_http p url wanted net = request_loop ul allow_http p url wanted 5 url net"

section \<open>Pacing\<close>

definition MAX_BYTES_PER_SECOND :: u64 where "MAX_BYTES_PER_SECOND = 1024 * 1024 * 1024"
definition MAX_SLICE :: usize where "MAX_SLICE = 64 * 1024"

definition valid_limit :: "u64 option \<Rightarrow> bool" where
  "valid_limit v \<longleftrightarrow> (case v of None \<Rightarrow> True | Some n \<Rightarrow> 1 \<le> n \<and> n \<le> MAX_BYTES_PER_SECOND)"

definition bandwidth_new :: "u64 option \<Rightarrow> (EngineError, u64 option) result" where
  "bandwidth_new limit = (if \<not> valid_limit limit then Inl EInvalidOptions else Inr limit)"

text \<open>The new limit, and whether those who wait are told.\<close>

definition set_limit :: "u64 option \<Rightarrow> u64 option \<Rightarrow> (EngineError, u64 option \<times> bool) result" where
  "set_limit old limit = (if \<not> valid_limit limit then Inl EInvalidOptions else Inr (limit, old \<noteq> limit))"

definition charge_delay :: "u32 \<Rightarrow> u64 \<Rightarrow> u64" where
  "charge_delay bytes rate = div_ceil (bytes * 1000000000) rate"

text \<open>What happens while a charge waits: it is cancelled, or after so many nanoseconds the limit is
  another one. With nothing more to happen the sleep ends. The result says how long the charge waited.\<close>

datatype pace_event = PaceCancelled | PaceChanged u64 "u64 option"

fun charge :: "u64 option \<Rightarrow> u32 \<Rightarrow> pace_event list \<Rightarrow> u64 option \<times> pace_event list \<times> u64 \<times> (EngineError, unit) result" where
  "charge limit bytes (PaceCancelled # later) = (limit, later, 0, Inl ECancelled)"
| "charge None bytes later = (None, later, 0, Inr ())"
| "charge (Some rate) bytes [] = (Some rate, [], charge_delay bytes rate, Inr ())"
| "charge (Some rate) bytes (PaceChanged after limit # later) =
     (if charge_delay bytes rate \<le> after then (Some rate, PaceChanged (after - charge_delay bytes rate) limit # later, charge_delay bytes rate, Inr ())
      else case charge limit bytes later of (final, rest, waited, r) \<Rightarrow> (final, rest, after + waited, r))"

record traffic_control =
  tc_job :: "u64 option"
  tc_global :: "u64 option"

definition traffic_new :: "u64 option \<Rightarrow> u64 option \<Rightarrow> (EngineError, traffic_control) result" where
  "traffic_new global job_rate = res_bind (bandwidth_new job_rate) (\<lambda>job. Inr \<lparr>tc_job = job, tc_global = global\<rparr>)"

definition slice_bytes :: "traffic_control \<Rightarrow> usize" where
  "slice_bytes c =
     (case map (\<lambda>n. max 1 (min (n div 10) MAX_SLICE)) (List.map_filter id [tc_job c, tc_global c]) of
        [] \<Rightarrow> MAX_SLICE | x # xs \<Rightarrow> fold min xs x)"

text \<open>The job is charged first and the shared budget last; the waits of both and the result.\<close>

definition consume :: "traffic_control \<Rightarrow> u32 \<Rightarrow> pace_event list \<Rightarrow> pace_event list \<Rightarrow> bool \<Rightarrow>
  traffic_control \<times> u64 \<times> u64 \<times> (EngineError, unit) result" where
  "consume c bytes job_events global_events cancelled =
     (if MAX_SLICE < bytes then (c, 0, 0, Inl EInvalidOptions)
      else if bytes = 0 then (c, 0, 0, Inr ())
      else case charge (tc_job c) bytes job_events of
        (job, _, w1, Inl e) \<Rightarrow> (c\<lparr>tc_job := job\<rparr>, w1, 0, Inl e)
      | (job, _, w1, Inr _) \<Rightarrow>
          (case charge (tc_global c) bytes global_events of
             (global, _, w2, Inl e) \<Rightarrow> (c\<lparr>tc_job := job, tc_global := global\<rparr>, w1, w2, Inl e)
           | (global, _, w2, Inr _) \<Rightarrow>
               (c\<lparr>tc_job := job, tc_global := global\<rparr>, w1, w2, if cancelled then Inl ECancelled else Inr ())))"

section \<open>What the requests and the pacing keep\<close>

lemma engine_urlD:
  assumes "engine_url ul raw ok = Inr u"
  shows "utf8_len raw \<le> 16384" "ul_parse ul raw = Some u" "ul_scheme ul u = ''http'' \<and> ok \<or> ul_scheme ul u = ''https''"
    "ul_host ul u \<noteq> None" "ul_username ul u = []" "ul_password ul u = None" "ul_fragment ul u = None"
  using assms by (auto simp: engine_url_def res_simps split: if_splits)

text \<open>Where a request may go: to the first URL's origin or to one the policy lists, and over plain HTTP
  only if the first URL is plain HTTP already.\<close>

definition reach_ok :: "'u url_lib \<Rightarrow> bool \<Rightarrow> request_policy \<Rightarrow> 'u \<Rightarrow> 'u \<Rightarrow> bool" where
  "reach_ok ul allow_http p initial u \<longleftrightarrow>
     (ul_origin ul u = ul_origin ul initial \<or> text_of (ul_serialize ul (ul_origin ul u)) \<in> set (rq_redirect_origins p)) \<and>
     (ul_scheme ul u = ''https'' \<or> ul_scheme ul u = ''http'' \<and> allow_http \<and> ul_scheme ul initial = ''http'')"

lemma redirect_target_ok:
  assumes "redirect_target ul allow_http p url r = Inr next" "reach_ok ul allow_http p initial url"
  shows "reach_ok ul allow_http p initial next"
  using assms
  by (auto simp: redirect_target_def reach_ok_def authorize_redirect_def list_ex_iff res_simps dest!: engine_urlD(3)
      split: Field.splits if_splits)

definition request_ok :: "'u url_lib \<Rightarrow> bool \<Rightarrow> request_policy \<Rightarrow> 'u \<Rightarrow> 'u http_request \<Rightarrow> bool" where
  "request_ok ul allow_http p initial q \<longleftrightarrow> reach_ok ul allow_http p initial (hq_url q) \<and>
     (hq_authorization q \<noteq> None \<or> hq_cookie q \<noteq> None \<longrightarrow> ul_origin ul (hq_url q) = ul_origin ul initial) \<and>
     hq_authorization q \<in> {None, rq_authorization p} \<and> hq_cookie q \<in> {None, rq_cookie p}"

lemma policy_applyD:
  "policy_apply ul p u initial = Inr (a, c) \<Longrightarrow>
     (a \<noteq> None \<or> c \<noteq> None \<longrightarrow> ul_origin ul u = ul_origin ul initial) \<and> a \<in> {None, rq_authorization p} \<and> c \<in> {None, rq_cookie p}"
  by (auto simp: policy_apply_def split: if_splits)

lemma request_loop_ok:
  assumes "request_loop ul allow_http p initial wanted redirects url net = (reqs, rest, result)" "reach_ok ul allow_http p initial url"
  shows "(\<forall>q \<in> set reqs. request_ok ul allow_http p initial q \<and> hq_range q = map_option (\<lambda>(start, final, _). (start, final)) wanted) \<and>
    length reqs \<le> Suc redirects \<and>
    (\<forall>u r. result = Inr (u, r) \<longrightarrow> reach_ok ul allow_http p initial u \<and> er_status r \<notin> {301, 302, 303, 307, 308} \<and> ExResponse r \<in> set net)"
  using assms
proof (induction redirects arbitrary: url net reqs rest result)
  case 0
  then show ?case
    by (subst (asm) request_loop.simps)
      (auto simp: Let_def request_ok_def split: sum.splits list.splits engine_exchange.splits if_splits dest!: policy_applyD)
next
  case (Suc n)
  show ?case
  proof (cases "policy_apply ul p url initial")
    case (Inl e)
    then show ?thesis using Suc.prems by (subst (asm) request_loop.simps) auto
  next
    case (Inr ac)
    obtain a c where ac: "policy_apply ul p url initial = Inr (a, c)" using Inr by (cases ac) simp
    define q where "q = \<lparr>hq_url = url, hq_authorization = a, hq_cookie = c, hq_range = map_option (\<lambda>(start, final, _). (start, final)) wanted,
      hq_if_range = map_option (\<lambda>(_, _, etag). etag) wanted\<rparr>"
    have q: "request_ok ul allow_http p initial q" "hq_range q = map_option (\<lambda>(start, final, _). (start, final)) wanted"
      using policy_applyD [OF ac] Suc.prems(2) by (simp_all add: q_def request_ok_def)
    consider (stop) "reqs = [q]" "\<And>u r. result = Inr (u, r) \<Longrightarrow> u = url \<and> er_status r \<notin> {301, 302, 303, 307, 308} \<and> ExResponse r \<in> set net"
      | (go) r rest' u later where "net = ExResponse r # rest'" "redirect_target ul allow_http p url r = Inr u"
        "request_loop ul allow_http p initial wanted n u rest' = (later, rest, result)" "reqs = q # later"
      using Suc.prems(1) ac
      by (subst (asm) request_loop.simps)
        (auto simp: Let_def q_def split: list.splits engine_exchange.splits if_splits sum.splits prod.splits)
    then show ?thesis
    proof cases
      case stop
      then show ?thesis using q Suc.prems(2) by auto
    next
      case go
      note IH = Suc.IH [OF go(3) redirect_target_ok [OF go(2) Suc.prems(2)]]
      then show ?thesis using go(1,4) q by auto
    qed
  qed
qed

lemma charge_delay_enough: "0 < rate \<Longrightarrow> bytes * 1000000000 \<le> charge_delay bytes rate * rate"
proof -
  assume r: "0 < rate"
  define a where "a = bytes * 1000000000"
  have e: "a div rate * rate + a mod rate = a" by simp
  have m: "a mod rate < rate" using r by simp
  have f: "(a div rate + 1) * rate = a div rate * rate + rate" by (simp only: distrib_right mult_1)
  have "a \<le> div_ceil a rate * rate"
  proof (cases "a mod rate = 0")
    case True
    then show ?thesis using e by (simp add: div_ceil_def)
  next
    case False
    then have c: "div_ceil a rate = a div rate + 1" by (simp add: div_ceil_def)
    show ?thesis unfolding c f using e m by linarith
  qed
  then show ?thesis by (simp add: charge_delay_def a_def)
qed

lemma charge_waits:
  "charge limit bytes evs = (final, rest, waited, Inr ()) \<Longrightarrow> final = Some rate \<Longrightarrow> charge_delay bytes rate \<le> waited"
  by (induction limit bytes evs arbitrary: rest waited rule: charge.induct) (auto split: if_splits prod.splits)

lemma charge_valid:
  "charge limit bytes evs = (final, rest, waited, r) \<Longrightarrow> valid_limit limit \<Longrightarrow>
     (\<And>t l. PaceChanged t l \<in> set evs \<Longrightarrow> valid_limit l) \<Longrightarrow> valid_limit final"
  by (induction limit bytes evs arbitrary: rest waited rule: charge.induct) (fastforce split: if_splits prod.splits)+

lemma slice_bytes_bounds: "1 \<le> slice_bytes c" "slice_bytes c \<le> MAX_SLICE"
proof -
  have "1 \<le> max 1 (min n MAX_SLICE)" "max 1 (min n MAX_SLICE) \<le> MAX_SLICE" for n
    by (simp_all add: MAX_SLICE_def)
  then show "1 \<le> slice_bytes c" "slice_bytes c \<le> MAX_SLICE"
    unfolding slice_bytes_def by (cases "tc_job c"; cases "tc_global c"; simp add: map_filter_def min_le_iff_disj; simp add: MAX_SLICE_def)+
qed

lemma slice_bytes_rate: "tc_job c = Some r \<or> tc_global c = Some r \<Longrightarrow> slice_bytes c \<le> max 1 (r div 10)"
proof -
  have "max 1 (min n MAX_SLICE) \<le> max 1 n" for n by simp
  then show "tc_job c = Some r \<or> tc_global c = Some r \<Longrightarrow> slice_bytes c \<le> max 1 (r div 10)"
    unfolding slice_bytes_def by (cases "tc_job c"; cases "tc_global c"; auto simp: map_filter_def min_le_iff_disj)
qed

end
