(* ===== verification/Utf8.thy ===== *)
theory Utf8
  imports FHD_Prelude
begin

text \<open>
  The bytes of a Rust string and back: \<open>str::as_bytes\<close> and \<open>String::from_utf8\<close>, on code points.
\<close>

definition utf8_one :: "nat \<Rightarrow> byte list" where
  "utf8_one c = map char_of
     (if c < 128 then [c]
      else if c < 2048 then [192 + c div 64, 128 + c mod 64]
      else if c < 65536 then [224 + c div 4096, 128 + c div 64 mod 64, 128 + c mod 64]
      else [240 + c div 262144, 128 + c div 4096 mod 64, 128 + c div 64 mod 64, 128 + c mod 64])"

definition utf8_bytes :: "nat list \<Rightarrow> byte list" where
  "utf8_bytes cs = concat (map utf8_one cs)"

definition scalar_value :: "nat \<Rightarrow> bool" where
  "scalar_value c \<longleftrightarrow> c < 55296 \<or> 57344 \<le> c \<and> c < 1114112"

text \<open>Each continuation byte adds six bits; what they make must need as many bytes as were used and be
  a scalar value.\<close>

fun utf8_more :: "nat \<Rightarrow> nat \<Rightarrow> byte list \<Rightarrow> (nat \<times> byte list) option" where
  "utf8_more 0 c bs = Some (c, bs)"
| "utf8_more (Suc k) c [] = None"
| "utf8_more (Suc k) c (b # bs) =
     (let n = of_char b :: nat in if 128 \<le> n \<and> n < 192 then utf8_more k (c * 64 + (n - 128)) bs else None)"

definition utf8_next :: "byte \<Rightarrow> byte list \<Rightarrow> (nat \<times> byte list) option" where
  "utf8_next b bs =
     (let n = of_char b :: nat in
      if n < 128 then Some (n, bs)
      else if n < 192 then None
      else if n < 224 then (case utf8_more 1 (n - 192) bs of Some (c, r) \<Rightarrow> if 128 \<le> c then Some (c, r) else None | None \<Rightarrow> None)
      else if n < 240 then (case utf8_more 2 (n - 224) bs of Some (c, r) \<Rightarrow> if 2048 \<le> c \<and> scalar_value c then Some (c, r) else None | None \<Rightarrow> None)
      else if n < 248 then (case utf8_more 3 (n - 240) bs of Some (c, r) \<Rightarrow> if 65536 \<le> c \<and> scalar_value c then Some (c, r) else None | None \<Rightarrow> None)
      else None)"

lemma utf8_more_length: "utf8_more k c bs = Some (d, r) \<Longrightarrow> length r \<le> length bs"
  by (induction k c bs rule: utf8_more.induct) (auto simp: Let_def split: if_splits)

lemma utf8_next_length: "utf8_next b bs = Some (d, r) \<Longrightarrow> length r \<le> length bs"
  by (auto simp: utf8_next_def Let_def split: if_splits option.splits dest: utf8_more_length)

function utf8_chars :: "byte list \<Rightarrow> nat list option" where
  "utf8_chars [] = Some []"
| "utf8_chars (b # bs) = (case utf8_next b bs of None \<Rightarrow> None | Some (c, r) \<Rightarrow> map_option (Cons c) (utf8_chars r))"
  by pat_completeness auto
termination by (relation "measure length") (auto simp: le_imp_less_Suc dest!: utf8_next_length)

definition scalar_text :: "nat list \<Rightarrow> bool" where
  "scalar_text cs \<longleftrightarrow> list_all scalar_value cs"

lemma length_utf8_one: "length (utf8_one c) = (if c < 128 then 1 else if c < 2048 then 2 else if c < 65536 then 3 else 4)"
  by (simp add: utf8_one_def)

lemma length_utf8_bytes [simp]: "length (utf8_bytes cs) = utf8_len cs"
  by (induction cs) (simp_all add: utf8_bytes_def utf8_len_def length_utf8_one)

lemma six_bits: "(c :: nat) div 64 * 64 + c mod 64 = c"
  by simp

lemma utf8_next_one:
  assumes "scalar_value c"
  shows "\<exists>b bs. utf8_one c = b # bs \<and> utf8_next b (bs @ r) = Some (c, r)"
proof -
  have k: "c < 1114112" using assms by (auto simp: scalar_value_def)
  consider "c < 128" | "128 \<le> c" "c < 2048" | "2048 \<le> c" "c < 65536" | "65536 \<le> c" by linarith
  then show ?thesis
  proof cases
    case 1
    then show ?thesis by (simp add: utf8_one_def utf8_next_def)
  next
    case 2
    have a: "c div 64 < 32" using 2 by (simp add: less_mult_imp_div_less)
    have m: "utf8_more 1 (c div 64) (char_of (128 + c mod 64) # r) = Some (c, r)"
      by (simp add: Let_def numeral_eq_Suc [of Num.One])
    show ?thesis using 2 a m by (simp add: utf8_one_def utf8_next_def Let_def)
  next
    case 3
    have a: "c div 4096 < 16" using 3 by (simp add: less_mult_imp_div_less)
    have b: "c div 4096 = c div 64 div 64" by (simp add: div_mult2_eq [symmetric])
    have m: "utf8_more 2 (c div 4096) (char_of (128 + c div 64 mod 64) # char_of (128 + c mod 64) # r) = Some (c, r)"
      by (simp add: Let_def numeral_2_eq_2 b six_bits)
    show ?thesis using 3 a m assms by (simp add: utf8_one_def utf8_next_def Let_def)
  next
    case 4
    have a: "c div 262144 < 8" using k by (simp add: less_mult_imp_div_less)
    have b: "c div 4096 = c div 64 div 64" "c div 262144 = c div 64 div 64 div 64" by (simp_all add: div_mult2_eq [symmetric])
    have m: "utf8_more 3 (c div 262144)
        (char_of (128 + c div 4096 mod 64) # char_of (128 + c div 64 mod 64) # char_of (128 + c mod 64) # r) = Some (c, r)"
      by (simp add: Let_def numeral_3_eq_3 b six_bits)
    show ?thesis using 4 a m assms by (simp add: utf8_one_def utf8_next_def Let_def)
  qed
qed

lemma utf8_chars_bytes [simp]: "scalar_text cs \<Longrightarrow> utf8_chars (utf8_bytes cs) = Some cs"
proof (induction cs)
  case (Cons c cs)
  then have c: "scalar_value c" and cs: "utf8_chars (utf8_bytes cs) = Some cs" by (simp_all add: scalar_text_def)
  obtain b bs where "utf8_one c = b # bs" "utf8_next b (bs @ utf8_bytes cs) = Some (c, utf8_bytes cs)"
    using utf8_next_one [OF c, of "utf8_bytes cs"] by blast
  then show ?case using cs by (simp add: utf8_bytes_def)
qed (simp add: utf8_bytes_def)

end
