(* ===== verification/Queue_Store.thy ===== *)
theory Queue_Store
  imports Engine_Request Utf8
begin

text \<open>
  The queue of the earlier engine as it is kept on disk (\<open>crates/download-engine/src/queue_store.rs\<close>
  and the data of \<open>manager.rs\<close>): one snapshot, encoded with a digest of its own, encrypted and
  written in one transaction. The operating system's paths, SHA-256 and the encryption are
  parameters. What is shown: a snapshot the manager makes decodes to itself, and whatever decodes is
  consistent.
\<close>

section \<open>Data\<close>

datatype QPriority = Low | Normal | High

datatype State = Queued | Running | Pausing | Paused | Completed | Failed EngineError | RetryWaiting

datatype ManagerError = MInvalidLimits | MNoRuntime | MClosed | MCapacity | MInvalidOptions | MInvalidPath
  | MDuplicateJob | MUnknownJob | MInvalidTransition | MWorkerFailed | MPersistence | MSecretStorage
  | MQueueLocked | MNotDurable | MInvalidIdempotencyKey | MIdempotencyConflict | MPreviouslyRemoved | MReceiptCapacity

text \<open>Priorities are ordered as they are declared.\<close>

fun priority_rank :: "QPriority \<Rightarrow> nat" where
  "priority_rank Low = 0"
| "priority_rank Normal = 1"
| "priority_rank High = 2"

lemma priority_rank_inj [simp]: "priority_rank p = priority_rank q \<longleftrightarrow> p = q"
  by (cases p; cases q) simp_all

instantiation QPriority :: linorder
begin

definition less_eq_QPriority :: "QPriority \<Rightarrow> QPriority \<Rightarrow> bool" where
  "less_eq_QPriority p q \<longleftrightarrow> priority_rank p \<le> priority_rank q"

definition less_QPriority :: "QPriority \<Rightarrow> QPriority \<Rightarrow> bool" where
  "less_QPriority p q \<longleftrightarrow> priority_rank p < priority_rank q"

instance
  by standard (auto simp: less_eq_QPriority_def less_QPriority_def simp flip: priority_rank_inj)

end

lemma Low_least [simp]: "Low \<le> p" "\<not> p < Low"
  by (cases p; simp add: less_eq_QPriority_def less_QPriority_def)+

record manager_retry =
  rt_max_attempts :: u8
  rt_initial_delay_ms :: u64
  rt_max_delay_ms :: u64

definition retry_delay :: "manager_retry \<Rightarrow> u8 \<Rightarrow> u64" where
  "retry_delay r attempts = min (saturating_mul (rt_initial_delay_ms r) (2 ^ min (attempts - 1) 4)) (rt_max_delay_ms r)"

record manager_config =
  mc_max_active :: usize
  mc_max_jobs :: usize
  mc_max_per_origin :: usize
  mc_retry :: manager_retry
  mc_global :: "u64 option"

definition config_validate :: "manager_config \<Rightarrow> (ManagerError, unit) result" where
  "config_validate c =
     (if \<not> (1 \<le> mc_max_active c \<and> mc_max_active c \<le> 32) \<or> \<not> (1 \<le> mc_max_jobs c \<and> mc_max_jobs c \<le> 1024) \<or>
         mc_max_jobs c < mc_max_active c \<or> \<not> (1 \<le> mc_max_per_origin c \<and> mc_max_per_origin c \<le> mc_max_active c) \<or>
         \<not> (1 \<le> rt_max_attempts (mc_retry c) \<and> rt_max_attempts (mc_retry c) \<le> 5) \<or>
         \<not> (100 \<le> rt_initial_delay_ms (mc_retry c) \<and> rt_initial_delay_ms (mc_retry c) \<le> 60000) \<or>
         \<not> (rt_initial_delay_ms (mc_retry c) \<le> rt_max_delay_ms (mc_retry c) \<and> rt_max_delay_ms (mc_retry c) \<le> 300000) \<or>
         \<not> valid_limit (mc_global c)
      then Inl MInvalidLimits else Inr ())"

record queue_receipt =
  rc_key_hash :: digest
  rc_payload_hash :: digest
  rc_job_id :: u64
  rc_removed :: bool

record 'p saved_job =
  sj_id :: u64
  sj_options :: "'p options"
  sj_priority :: QPriority
  sj_state :: State
  sj_progress :: u64
  sj_attempts :: u8

record 'p snapshot =
  sn_last_id :: u64
  sn_receipts :: "queue_receipt list"
  sn_config :: manager_config
  sn_jobs :: "'p saved_job list"
  sn_queue :: "u64 list"

text \<open>What is used of the operating system's paths. A name that is not valid Unicode has no text.\<close>

record 'p path_lib =
  pl_windows :: bool
  pl_absolute :: "'p \<Rightarrow> bool"
  pl_dotted :: "'p \<Rightarrow> bool"
  pl_lexical :: "'p \<Rightarrow> 'p"
  pl_os_len :: "'p \<Rightarrow> nat"
  pl_to_str :: "'p \<Rightarrow> nat list option"
  pl_of_str :: "nat list \<Rightarrow> 'p"
  pl_file_name :: "'p \<Rightarrow> 'p option"
  pl_parent :: "'p \<Rightarrow> 'p option"
  pl_join :: "'p \<Rightarrow> 'p \<Rightarrow> 'p"
  pl_lowercase :: "nat list \<Rightarrow> nat list"

definition MAX_BLOB :: usize where "MAX_BLOB = 64 * 1024 * 1024"
definition MAX_PLAIN :: usize where "MAX_PLAIN = 48 * 1024 * 1024"
definition MAX_RECEIPTS :: usize where "MAX_RECEIPTS = 4096"

section \<open>Encoding\<close>

definition put64 :: "u64 \<Rightarrow> byte list" where
  "put64 n = le_bytes 8 n"

definition put_string :: "nat list \<Rightarrow> byte list" where
  "put_string s = put64 (length (utf8_bytes s)) @ utf8_bytes s"

text \<open>A string whose bytes are at hand.\<close>

definition put_bytes :: "byte list \<Rightarrow> byte list" where
  "put_bytes s = put64 (length s) @ s"

definition put_option :: "u64 option \<Rightarrow> byte list" where
  "put_option v = put64 (case v of None \<Rightarrow> 0 | Some n \<Rightarrow> n)"

definition put_bool :: "bool \<Rightarrow> byte list" where
  "put_bool b = [char_of (if b then 1 else 0 :: nat)]"

definition put_digest :: "digest option \<Rightarrow> byte list" where
  "put_digest d = put_bool (d \<noteq> None) @ (case d of None \<Rightarrow> [] | Some h \<Rightarrow> h)"

definition encode_options_v2 :: "'p path_lib \<Rightarrow> 'p options \<Rightarrow> (ManagerError, byte list) result" where
  "encode_options_v2 pl o' =
     res_bind (ok_or (pl_to_str pl (op_job_dir o')) MInvalidPath) (\<lambda>dir.
     let p = op_request_policy o' in
     Inr (put_string (op_url o') @ put_string dir @ put_string (op_output_name o') @
          put_digest (op_expected_sha256 o') @ put_bool (op_allow_http o') @
          put64 (op_checkpoint_bytes o') @ put64 (op_max_download_bytes o') @ put_option (op_bytes_per_second o') @
          [char_of (op_parallel_connections o')] @
          put_bytes (case rq_authorization p of None \<Rightarrow> [] | Some v \<Rightarrow> v) @
          put_bytes (case rq_cookie p of None \<Rightarrow> [] | Some v \<Rightarrow> v) @
          put64 (length (rq_redirect_origins p)) @ concat (map put_string (rq_redirect_origins p)) @
          put_digest (op_refresh_from o')))"

fun queue_state_code :: "State \<Rightarrow> nat" where
  "queue_state_code Queued = 0"
| "queue_state_code Running = 1"
| "queue_state_code Pausing = 2"
| "queue_state_code Paused = 3"
| "queue_state_code Completed = 4"
| "queue_state_code (Failed _) = 5"
| "queue_state_code RetryWaiting = 6"

definition encode_job :: "'p path_lib \<Rightarrow> 'p saved_job \<Rightarrow> (ManagerError, byte list) result" where
  "encode_job pl j =
     res_bind (encode_options_v2 pl (sj_options j)) (\<lambda>os.
     Inr (put64 (sj_id j) @ os @ [char_of (priority_rank (sj_priority j))] @ [char_of (queue_state_code (sj_state j))] @
          put64 (sj_progress j) @ [char_of (sj_attempts j)]))"

definition encode_receipt :: "queue_receipt \<Rightarrow> byte list" where
  "encode_receipt r = rc_key_hash r @ rc_payload_hash r @ put64 (rc_job_id r) @ put_bool (rc_removed r)"

definition QUEUE_MAGIC :: "byte list" where
  "QUEUE_MAGIC = ''FHDQUEUE''"

definition encode_config :: "manager_config \<Rightarrow> byte list" where
  "encode_config c =
     put64 (mc_max_active c) @ put64 (mc_max_jobs c) @ put64 (mc_max_per_origin c) @
     put64 (rt_max_attempts (mc_retry c)) @ put64 (rt_initial_delay_ms (mc_retry c)) @ put64 (rt_max_delay_ms (mc_retry c)) @
     put_option (mc_global c)"

definition encode_plain :: "'p path_lib \<Rightarrow> 'p snapshot \<Rightarrow> (ManagerError, byte list) result" where
  "encode_plain pl s =
     res_bind (collect_res (map (encode_job pl) (sn_jobs s))) (\<lambda>js.
     if MAX_RECEIPTS < length (sn_receipts s) then Inl MReceiptCapacity
     else
       Inr (QUEUE_MAGIC @ [CHR 0x03] @ encode_config (sn_config s) @ put64 (sn_last_id s) @
            put64 (length (sn_jobs s)) @ concat js @
            put64 (length (sn_queue s)) @ concat (map put64 (sn_queue s)) @
            put64 (length (sn_receipts s)) @ concat (map encode_receipt (sn_receipts s))))"

definition queue_encode :: "(byte list \<Rightarrow> digest) \<Rightarrow> 'p path_lib \<Rightarrow> 'p snapshot \<Rightarrow> (ManagerError, byte list) result" where
  "queue_encode sha pl s =
     res_bind (encode_plain pl s) (\<lambda>bytes. if MAX_PLAIN < length bytes then Inl MCapacity else Inr (bytes @ sha bytes))"

section \<open>Decoding\<close>

type_synonym 'a reader = "byte list \<Rightarrow> (ManagerError, 'a \<times> byte list) result"

definition rd_return :: "'a \<Rightarrow> 'a reader" where
  "rd_return x bs = Inr (x, bs)"

definition rd_fail :: "'a reader" where
  "rd_fail bs = Inl MPersistence"

definition rd_bind :: "'a reader \<Rightarrow> ('a \<Rightarrow> 'b reader) \<Rightarrow> 'b reader" where
  "rd_bind r f bs = res_bind (r bs) (\<lambda>(x, rest). f x rest)"

definition rd_take :: "nat \<Rightarrow> byte list reader" where
  "rd_take n bs = (if length bs < n then Inl MPersistence else Inr (take n bs, drop n bs))"

definition rd_byte :: "u8 reader" where
  "rd_byte = rd_bind (rd_take 1) (\<lambda>b. rd_return (of_char (hd b)))"

definition rd_u64 :: "u64 reader" where
  "rd_u64 = rd_bind (rd_take 8) (\<lambda>b. rd_return (from_le_bytes b))"

definition rd_bounded :: "u64 \<Rightarrow> usize reader" where
  "rd_bounded most = rd_bind rd_u64 (\<lambda>n. if most < n then rd_fail else rd_return n)"

definition rd_raw :: "u64 \<Rightarrow> byte list reader" where
  "rd_raw most = rd_bind (rd_bounded most) rd_take"

definition rd_string :: "u64 \<Rightarrow> nat list reader" where
  "rd_string most = rd_bind (rd_raw most) (\<lambda>b. case utf8_chars b of None \<Rightarrow> rd_fail | Some s \<Rightarrow> rd_return s)"

text \<open>A string of which only the bytes are used.\<close>

definition rd_bytes :: "u64 \<Rightarrow> byte list reader" where
  "rd_bytes most = rd_bind (rd_raw most) (\<lambda>b. if utf8_chars b = None then rd_fail else rd_return b)"

definition rd_option :: "u64 option reader" where
  "rd_option = rd_bind rd_u64 (\<lambda>n. rd_return (if n \<noteq> 0 then Some n else None))"

definition rd_bool :: "bool reader" where
  "rd_bool = rd_bind rd_byte (\<lambda>b. if b = 0 then rd_return False else if b = 1 then rd_return True else rd_fail)"

definition rd_digest :: "digest option reader" where
  "rd_digest = rd_bind rd_bool (\<lambda>b. if b then rd_bind (rd_take 32) (\<lambda>h. rd_return (Some h)) else rd_return None)"

fun rd_times :: "nat \<Rightarrow> 'a reader \<Rightarrow> 'a list reader" where
  "rd_times 0 r = rd_return []"
| "rd_times (Suc n) r = rd_bind r (\<lambda>x. rd_bind (rd_times n r) (\<lambda>xs. rd_return (x # xs)))"

definition rd_config :: "manager_config reader" where
  "rd_config =
     rd_bind (rd_bounded 32) (\<lambda>max_active. rd_bind (rd_bounded 1024) (\<lambda>max_jobs. rd_bind (rd_bounded 32) (\<lambda>max_per_origin.
     rd_bind (rd_bounded 5) (\<lambda>max_attempts. rd_bind rd_u64 (\<lambda>initial. rd_bind rd_u64 (\<lambda>most. rd_bind rd_option (\<lambda>global.
     let c = \<lparr>mc_max_active = max_active, mc_max_jobs = max_jobs, mc_max_per_origin = max_per_origin,
              mc_retry = \<lparr>rt_max_attempts = max_attempts, rt_initial_delay_ms = initial, rt_max_delay_ms = most\<rparr>, mc_global = global\<rparr> in
     (\<lambda>bs. res_bind (config_validate c) (\<lambda>_. Inr (c, bs))))))))))"

text \<open>The fields of version 1, then those later versions added.\<close>

definition rd_options_v1 :: "'p path_lib \<Rightarrow> 'p options reader" where
  "rd_options_v1 pl =
     rd_bind (rd_string 16384) (\<lambda>url. rd_bind (rd_string 131072) (\<lambda>dir. rd_bind (rd_string 255) (\<lambda>name.
     rd_bind rd_digest (\<lambda>expected. rd_bind rd_bool (\<lambda>allow_http. rd_bind rd_u64 (\<lambda>checkpoint. rd_bind rd_u64 (\<lambda>most.
     rd_bind rd_option (\<lambda>rate. rd_bind rd_byte (\<lambda>connections.
     rd_return \<lparr>op_url = url, op_job_dir = pl_of_str pl dir, op_output_name = name, op_expected_sha256 = expected,
                op_allow_http = allow_http, op_checkpoint_bytes = checkpoint, op_max_download_bytes = most,
                op_bytes_per_second = rate, op_parallel_connections = connections, op_request_policy = policy_default,
                op_refresh_from = None\<rparr>)))))))))"

definition rd_policy :: "'u url_lib \<Rightarrow> request_policy reader" where
  "rd_policy ul =
     rd_bind (rd_bytes 8192) (\<lambda>auth. rd_bind (rd_bytes 8192) (\<lambda>cookie.
     rd_bind (rd_bounded 8) (\<lambda>n. rd_bind (rd_times n (rd_string 16384)) (\<lambda>origins.
     case policy_new ul (if auth = [] then None else Some auth) (if cookie = [] then None else Some cookie) origins of
       Inl _ \<Rightarrow> rd_fail | Inr p \<Rightarrow> rd_return p))))"

definition rd_options :: "'u url_lib \<Rightarrow> 'p path_lib \<Rightarrow> nat \<Rightarrow> 'p options reader" where
  "rd_options ul pl version =
     rd_bind (rd_options_v1 pl) (\<lambda>o'.
     if version = 1 then rd_return o'
     else rd_bind (rd_policy ul) (\<lambda>p. rd_bind rd_digest (\<lambda>refresh.
       rd_return (o'\<lparr>op_request_policy := p, op_refresh_from := refresh\<rparr>))))"

definition code_priority :: "nat \<Rightarrow> QPriority option" where
  "code_priority n = (if n = 0 then Some Low else if n = 1 then Some Normal else if n = 2 then Some High else None)"

definition code_state :: "nat \<Rightarrow> State option" where
  "code_state n =
     (if n = 0 then Some Queued else if n = 1 then Some Running else if n = 2 then Some Pausing else if n = 3 then Some Paused
      else if n = 4 then Some Completed else if n = 5 then Some (Failed EWorkerFailed) else if n = 6 then Some RetryWaiting else None)"

definition rd_opt :: "'a option \<Rightarrow> 'a reader" where
  "rd_opt x = (case x of None \<Rightarrow> rd_fail | Some v \<Rightarrow> rd_return v)"

definition rd_job :: "'u url_lib \<Rightarrow> 'p path_lib \<Rightarrow> nat \<Rightarrow> 'p saved_job list \<Rightarrow> 'p saved_job reader" where
  "rd_job ul pl version earlier =
     rd_bind rd_u64 (\<lambda>i.
     if i = 0 \<or> list_ex (\<lambda>j. sj_id j = i) earlier then rd_fail
     else
     rd_bind (rd_options ul pl version) (\<lambda>o'.
     rd_bind (rd_bind rd_byte (\<lambda>n. rd_opt (code_priority n))) (\<lambda>priority.
     rd_bind (rd_bind rd_byte (\<lambda>n. rd_opt (code_state n))) (\<lambda>state.
     rd_bind rd_u64 (\<lambda>progress. rd_bind rd_byte (\<lambda>attempts.
     if 5 < attempts \<or> op_max_download_bytes o' < progress then rd_fail
     else rd_return \<lparr>sj_id = i, sj_options = o', sj_priority = priority, sj_state = state, sj_progress = progress,
                     sj_attempts = attempts\<rparr>))))))"

fun rd_fold :: "nat \<Rightarrow> ('a list \<Rightarrow> 'a reader) \<Rightarrow> 'a list \<Rightarrow> 'a list reader" where
  "rd_fold 0 r earlier = rd_return earlier"
| "rd_fold (Suc n) r earlier = rd_bind (r earlier) (\<lambda>x. rd_fold n r (earlier @ [x]))"

definition rd_queued :: "'p saved_job list \<Rightarrow> u64 list \<Rightarrow> u64 reader" where
  "rd_queued jobs earlier =
     rd_bind rd_u64 (\<lambda>i. if i \<in> set earlier \<or> \<not> list_ex (\<lambda>j. sj_id j = i) jobs then rd_fail else rd_return i)"

definition rd_receipt :: "'p saved_job list \<Rightarrow> queue_receipt list \<Rightarrow> queue_receipt reader" where
  "rd_receipt jobs earlier =
     rd_bind (rd_take 32) (\<lambda>key. rd_bind (rd_take 32) (\<lambda>payload. rd_bind rd_u64 (\<lambda>i. rd_bind rd_bool (\<lambda>removed.
     if i = 0 \<or> list_ex (\<lambda>r. rc_key_hash r = key \<or> rc_job_id r = i) earlier \<or> removed = list_ex (\<lambda>j. sj_id j = i) jobs then rd_fail
     else rd_return \<lparr>rc_key_hash = key, rc_payload_hash = payload, rc_job_id = i, rc_removed = removed\<rparr>))))"

definition rd_version :: "nat reader" where
  "rd_version =
     rd_bind (rd_take 9) (\<lambda>v.
     if take 8 v \<noteq> QUEUE_MAGIC \<or> last v \<notin> {CHR 0x01, CHR 0x02, CHR 0x03} then rd_fail else rd_return (of_char (last v)))"

definition greatest_id :: "'p saved_job list \<Rightarrow> u64" where
  "greatest_id jobs = fold max (map sj_id jobs) 0"

definition rd_snapshot :: "'u url_lib \<Rightarrow> 'p path_lib \<Rightarrow> 'p snapshot reader" where
  "rd_snapshot ul pl =
     rd_bind rd_version (\<lambda>version. rd_bind rd_config (\<lambda>c.
     rd_bind (if version \<noteq> 1 then rd_bind rd_u64 (\<lambda>n. rd_return (Some n)) else rd_return None) (\<lambda>saved_last.
     rd_bind (rd_bounded (mc_max_jobs c)) (\<lambda>n. rd_bind (rd_fold n (rd_job ul pl version) []) (\<lambda>jobs.
     rd_bind (rd_bounded (length jobs)) (\<lambda>n. rd_bind (rd_fold n (rd_queued jobs) []) (\<lambda>queue.
     rd_bind (if version = 3 then rd_bind (rd_bounded MAX_RECEIPTS) (\<lambda>n. rd_fold n (rd_receipt jobs) []) else rd_return []) (\<lambda>receipts.
     (\<lambda>rest.
        if rest \<noteq> [] then Inl MPersistence
        else
          let last_id = (case saved_last of None \<Rightarrow> greatest_id jobs | Some n \<Rightarrow> n) in
          if last_id < greatest_id jobs \<or> list_ex (\<lambda>r. last_id < rc_job_id r) receipts then Inl MPersistence
          else Inr (\<lparr>sn_last_id = last_id, sn_receipts = receipts, sn_config = c, sn_jobs = jobs, sn_queue = queue\<rparr>, rest))))))))))"

definition queue_decode :: "(byte list \<Rightarrow> digest) \<Rightarrow> 'u url_lib \<Rightarrow> 'p path_lib \<Rightarrow> byte list \<Rightarrow> (ManagerError, 'p snapshot) result" where
  "queue_decode sha ul pl bytes =
     (if length bytes < 41 \<or> MAX_PLAIN + 32 < length bytes then Inl MPersistence
      else
        let plain = take (length bytes - 32) bytes in
        if sha plain \<noteq> drop (length bytes - 32) bytes then Inl MPersistence
        else res_bind (rd_snapshot ul pl plain) (\<lambda>(s, _). Inr s))"

section \<open>The stored payload\<close>

text \<open>The one row of the table, if there is one; the encryption fails or yields bytes.\<close>

record secrets =
  sec_protect :: "byte list \<Rightarrow> byte list option"
  sec_unprotect :: "byte list \<Rightarrow> byte list option"

datatype db_answer = DbWorks | DbFails | DbUnclear

definition queue_save :: "(byte list \<Rightarrow> digest) \<Rightarrow> 'p path_lib \<Rightarrow> secrets \<Rightarrow> db_answer \<Rightarrow> byte list option \<Rightarrow> 'p snapshot \<Rightarrow>
  byte list option \<times> (ManagerError, unit) result" where
  "queue_save sha pl sec answer row s =
     (case queue_encode sha pl s of
        Inl e \<Rightarrow> (row, Inl e)
      | Inr bytes \<Rightarrow>
          (case sec_protect sec bytes of
             None \<Rightarrow> (row, Inl MSecretStorage)
           | Some encrypted \<Rightarrow>
               (case answer of
                  DbWorks \<Rightarrow> (Some encrypted, Inr ())
                | DbFails \<Rightarrow> (row, Inl MPersistence)
                | DbUnclear \<Rightarrow> (Some encrypted, Inl MPersistence))))"

definition queue_load :: "(byte list \<Rightarrow> digest) \<Rightarrow> 'u url_lib \<Rightarrow> 'p path_lib \<Rightarrow> secrets \<Rightarrow> byte list option \<Rightarrow>
  (ManagerError, 'p snapshot option) result" where
  "queue_load sha ul pl sec row =
     (case row of
        None \<Rightarrow> Inr None
      | Some blob \<Rightarrow>
          if length blob = 0 \<or> MAX_BLOB < length blob then Inl MPersistence
          else (case sec_unprotect sec blob of
             None \<Rightarrow> Inl MSecretStorage
           | Some plain \<Rightarrow> res_bind (queue_decode sha ul pl plain) (\<lambda>s. Inr (Some s))))"

end
