(* ===== verification/Manager.thy ===== *)
theory Manager
  imports Queue_Store "HOL-Library.AList"
begin

text \<open>
  The manager of the earlier engine (\<open>crates/download-engine/src/manager.rs\<close>): one task that owns every
  transfer. It takes commands, starts workers within its limits, retries what failed in passing, and
  writes the queue before anything it promised is acknowledged. A turn of its loop is
  \<open>manager_turn\<close> followed by one event. Workers, the clock, the file system and the database are
  outside: a worker is an entry of \<open>ac_workers\<close> until its result arrives, and each save is answered
  from a list that also says whether the handle was dropped meanwhile.
\<close>

section \<open>Validation\<close>

definition device_stem :: "nat list \<Rightarrow> bool" where
  "device_stem name \<longleftrightarrow>
     (let stem = map (\<lambda>c. if 65 \<le> c \<and> c \<le> 90 then c + 32 else c) (takeWhile (\<lambda>c. c \<noteq> 46) name) in
      stem \<in> set (map text_of [''con'', ''prn'', ''aux'', ''nul'', ''conin$'', ''conout$'']) \<or>
      list_ex (\<lambda>p. take 3 stem = text_of p \<and> drop 3 stem \<in> set (map (\<lambda>c. [c]) [49, 50, 51, 52, 53, 54, 55, 56, 57, 185, 178, 179]))
        [''com'', ''lpt''])"

definition export_name_ok :: "nat list \<Rightarrow> bool" where
  "export_name_ok name \<longleftrightarrow>
     name \<noteq> [] \<and> utf8_len name \<le> 200 \<and> name \<noteq> text_of ''.'' \<and> name \<noteq> text_of ''..'' \<and> last name \<noteq> 46 \<and> last name \<noteq> 32 \<and>
     \<not> list_ex (\<lambda>c. c \<in> set (text_of (''/'' @ [CHR 0x5C] @ '':<>'' @ [CHR 0x22] @ ''|?*''))) name \<and>
     \<not> list_ex is_control name \<and> \<not> device_stem name"

definition validate_options :: "'u url_lib \<Rightarrow> 'p path_lib \<Rightarrow> 'p options \<Rightarrow> (ManagerError, unit) result" where
  "validate_options ul pl o' =
     res_bind (map_err (\<lambda>_. MInvalidOptions) (policy_validate ul (op_request_policy o'))) (\<lambda>_.
     if \<not> export_name_ok (op_output_name o') then Inl MInvalidOptions
     else if 16384 < utf8_len (op_url o') \<or> op_output_name o' = [] \<or> 255 < utf8_len (op_output_name o') \<or>
             32768 < pl_os_len pl (op_job_dir o') \<or> op_checkpoint_bytes o' = 0 \<or> 64 * 1024 * 1024 < op_checkpoint_bytes o' \<or>
             op_max_download_bytes o' = 0 \<or> I64_MAX < op_max_download_bytes o' \<or>
             \<not> (1 \<le> op_parallel_connections o' \<and> op_parallel_connections o' \<le> 8) \<or> \<not> valid_limit (op_bytes_per_second o') \<or>
             isl (engine_url ul (op_url o') (op_allow_http o'))
     then Inl MInvalidOptions
     else Inr ())"

text \<open>Scheme, host and effective port, as the URL library has them.\<close>

definition manager_origin :: "'u url_lib \<Rightarrow> 'p options \<Rightarrow> (ManagerError, origin) result" where
  "manager_origin ul o' =
     res_bind (map_err (\<lambda>_. MInvalidOptions) (engine_url ul (op_url o') (op_allow_http o'))) (\<lambda>url.
     res_bind (ok_or (ul_host ul url) MInvalidOptions) (\<lambda>host.
     Inr (ul_scheme ul url, host, snd (snd (ul_origin ul url)))))"

text \<open>What the file system says when a path is looked at: its real name, and whether it is there.\<close>

record 'p path_fs =
  pf_canonical :: "'p \<Rightarrow> 'p option"
  pf_exists :: "'p \<Rightarrow> bool option"

definition windows_leaf_ok :: "nat list \<Rightarrow> bool" where
  "windows_leaf_ok leaf \<longleftrightarrow>
     \<not> (leaf \<noteq> [] \<and> (last leaf = 46 \<or> last leaf = 32)) \<and>
     \<not> list_ex (\<lambda>c. c \<in> set (text_of ('':<>'' @ [CHR 0x22] @ ''|?*''))) leaf \<and> \<not> list_ex is_control leaf \<and> \<not> device_stem leaf"

definition path_key :: "'p path_lib \<Rightarrow> 'p path_fs \<Rightarrow> 'p \<Rightarrow> (ManagerError, 'p) result" where
  "path_key pl fs path =
     (if \<not> pl_absolute pl path \<or> pl_dotted pl path then Inl MInvalidPath
      else
      res_bind (ok_or (pl_file_name pl path) MInvalidPath) (\<lambda>leaf.
      res_bind (if pl_windows pl then
                  res_bind (ok_or (pl_to_str pl leaf) MInvalidPath) (\<lambda>text. if \<not> windows_leaf_ok text then Inl MInvalidPath else Inr ())
                else Inr ()) (\<lambda>_.
      res_bind (ok_or (pl_parent pl path) MInvalidPath) (\<lambda>parent.
      res_bind (ok_or (pf_canonical fs parent) MInvalidPath) (\<lambda>parent.
      let key = pl_join pl parent leaf in
      res_bind (case pf_exists fs key of
                  Some True \<Rightarrow> ok_or (pf_canonical fs key) MInvalidPath
                | Some False \<Rightarrow> Inr key
                | None \<Rightarrow> Inl MInvalidPath) (\<lambda>key.
      if pl_windows pl then res_bind (ok_or (pl_to_str pl key) MInvalidPath) (\<lambda>text. Inr (pl_of_str pl (pl_lowercase pl text)))
      else Inr key))))))"

text \<open>The digests an idempotent request is known by: of its key, and of everything it asks for.\<close>

definition admission_hashes :: "(byte list \<Rightarrow> digest) \<Rightarrow> 'u url_lib \<Rightarrow> 'p path_lib \<Rightarrow> byte list \<Rightarrow> 'p options \<Rightarrow> QPriority \<Rightarrow>
  (ManagerError, digest \<times> digest) result" where
  "admission_hashes sha ul pl key o' priority =
     (if key = [] \<or> 128 < length key \<or> \<not> list_all (\<lambda>b. 0x21 \<le> (of_char b :: nat) \<and> (of_char b :: nat) \<le> 0x7e) key
      then Inl MInvalidIdempotencyKey
      else
      res_bind (validate_options ul pl o') (\<lambda>_.
      if \<not> pl_absolute pl (op_job_dir o') \<or> pl_dotted pl (op_job_dir o') then Inl MInvalidPath
      else
      res_bind (map_err (\<lambda>_. MInvalidOptions) (engine_url ul (op_url o') (op_allow_http o'))) (\<lambda>url.
      let canonical = o'\<lparr>op_url := ul_as_str ul url, op_job_dir := pl_lexical pl (op_job_dir o')\<rparr> in
      res_bind (encode_options_v2 pl canonical) (\<lambda>bytes.
      Inr (sha (''FHD.admission.key.v1'' @ [CHR 0x00] @ put64 (length key) @ key),
           sha (''FHD.admission.payload.v1'' @ [CHR 0x00] @ bytes @ [char_of (priority_rank priority)]))))))"

section \<open>State\<close>

text \<open>The cancellation channel of a job holds whether it was told to stop; a reply is a token.\<close>

record 'p mjob =
  mj_options :: "'p options"
  mj_origin :: origin
  mj_priority :: QPriority
  mj_key :: 'p
  mj_state :: State
  mj_progress :: u64
  mj_cancel :: "bool option"
  mj_pause_reply :: "nat option"
  mj_attempts :: u8
  mj_retry_at :: "u64 option"
  mj_rate :: "u64 option"

type_synonym 'p jobs = "(u64 \<times> 'p mjob) list"

datatype save_answer = SaveWorks | SaveFails ManagerError | SaveUnclear ManagerError | SavePanics

record manager_snapshot =
  js_id :: u64
  js_priority :: QPriority
  js_state :: State
  js_committed :: u64
  js_attempts :: u8
  js_bytes_per_second :: "u64 option"
  js_connections :: u8

record 'p actor =
  ac_config :: manager_config
  ac_jobs :: "'p jobs"
  ac_durable :: bool
  ac_saved :: "'p snapshot"
  ac_global :: "u64 option"
  ac_last_id :: u64
  ac_receipts :: "queue_receipt list"
  ac_queue :: "u64 list"
  ac_workers :: "u64 list"
  ac_closing :: bool
  ac_hangup :: bool
  ac_failure :: "ManagerError option"
  ac_dirty :: bool
  ac_acks :: "(nat \<times> u64 option) list"
  ac_replies :: "(nat \<times> (ManagerError, u64 option) result) list"
  ac_snapshots :: "manager_snapshot list"
  ac_answers :: "(save_answer \<times> bool) list"
  ac_stopped :: "(ManagerError, unit) result option"

definition ac_reply :: "nat \<Rightarrow> (ManagerError, u64 option) result \<Rightarrow> 'p actor \<Rightarrow> 'p actor" where
  "ac_reply token r a = a\<lparr>ac_replies := ac_replies a @ [(token, r)]\<rparr>"

definition ac_acknowledge :: "nat \<Rightarrow> u64 option \<Rightarrow> 'p actor \<Rightarrow> 'p actor" where
  "ac_acknowledge token x a = a\<lparr>ac_acks := ac_acks a @ [(token, x)], ac_dirty := True\<rparr>"

definition on_job :: "u64 \<Rightarrow> ('p mjob \<Rightarrow> 'p mjob) \<Rightarrow> 'p actor \<Rightarrow> 'p actor" where
  "on_job i f a = a\<lparr>ac_jobs := AList.map_entry i f (ac_jobs a)\<rparr>"

section \<open>Parts of the loop\<close>

definition publish_jobs :: "'p actor \<Rightarrow> 'p actor" where
  "publish_jobs a = a\<lparr>ac_snapshots := map (\<lambda>(i, j). \<lparr>js_id = i, js_priority = mj_priority j, js_state = mj_state j,
     js_committed = mj_progress j, js_attempts = mj_attempts j, js_bytes_per_second = op_bytes_per_second (mj_options j),
     js_connections = op_parallel_connections (mj_options j)\<rparr>) (ac_jobs a)\<rparr>"

definition stop_job :: "'p mjob \<Rightarrow> 'p mjob" where
  "stop_job j =
     (case mj_state j of
        Queued \<Rightarrow> j\<lparr>mj_state := Paused, mj_retry_at := None\<rparr>
      | RetryWaiting \<Rightarrow> j\<lparr>mj_state := Paused, mj_retry_at := None\<rparr>
      | Running \<Rightarrow> j\<lparr>mj_state := Pausing, mj_cancel := map_option (\<lambda>_. True) (mj_cancel j)\<rparr>
      | _ \<Rightarrow> j)"

definition stop_all :: "'p actor \<Rightarrow> 'p actor" where
  "stop_all a = a\<lparr>ac_jobs := map (\<lambda>(i, j). (i, stop_job j)) (ac_jobs a)\<rparr>"

definition finish_job :: "'p mjob \<Rightarrow> (EngineError, u64) result \<Rightarrow> 'p mjob" where
  "finish_job j r =
     (case r of
        Inr bytes \<Rightarrow> j\<lparr>mj_cancel := None, mj_progress := bytes, mj_state := Completed\<rparr>
      | Inl e \<Rightarrow> j\<lparr>mj_cancel := None, mj_state := (if e = ECancelled \<and> mj_state j = Pausing then Paused else Failed e)\<rparr>)"

definition active_state :: "State \<Rightarrow> bool" where
  "active_state s \<longleftrightarrow> s = Running \<or> s = Pausing"

definition active_count :: "'p jobs \<Rightarrow> origin \<Rightarrow> nat" where
  "active_count jobs origin = length (filter (\<lambda>(_, j). mj_origin j = origin \<and> active_state (mj_state j)) jobs)"

text \<open>The scan of the queue with the best index so far and its priority.\<close>

fun eligible_scan :: "'p jobs \<Rightarrow> nat \<Rightarrow> nat \<Rightarrow> u64 list \<Rightarrow> nat option \<Rightarrow> QPriority \<Rightarrow> nat option" where
  "eligible_scan jobs most index [] selected best = selected"
| "eligible_scan jobs most index (i # ids) selected best =
     (case map_of jobs i of
        None \<Rightarrow> eligible_scan jobs most (Suc index) ids selected best
      | Some j \<Rightarrow>
          if mj_state j \<noteq> Queued then eligible_scan jobs most (Suc index) ids selected best
          else if most \<le> active_count jobs (mj_origin j) then eligible_scan jobs most (Suc index) ids selected best
          else if selected = None \<or> best < mj_priority j then eligible_scan jobs most (Suc index) ids (Some index) (mj_priority j)
          else eligible_scan jobs most (Suc index) ids selected best)"

definition next_eligible :: "'p jobs \<Rightarrow> u64 list \<Rightarrow> nat \<Rightarrow> nat option" where
  "next_eligible jobs queue most = eligible_scan jobs most 0 queue None Low"

definition retryable :: "EngineError \<Rightarrow> bool" where
  "retryable e \<longleftrightarrow> (case e of ENetwork \<Rightarrow> True | EHttpStatus s \<Rightarrow> s \<in> {408, 500, 502, 503, 504} | _ \<Rightarrow> False)"

definition snapshot_of :: "'p actor \<Rightarrow> 'p snapshot" where
  "snapshot_of a = \<lparr>sn_last_id = ac_last_id a, sn_receipts = ac_receipts a, sn_config = ac_config a,
     sn_jobs = map (\<lambda>(i, j). \<lparr>sj_id = i, sj_options = mj_options j, sj_priority = mj_priority j, sj_state = mj_state j,
       sj_progress = mj_progress j, sj_attempts = mj_attempts j\<rparr>) (ac_jobs a),
     sn_queue = ac_queue a\<rparr>"

definition save_state :: "'p actor \<Rightarrow> 'p actor \<times> (ManagerError, unit) result" where
  "save_state a =
     (let (answer, gone) = (case ac_answers a of [] \<Rightarrow> (SaveWorks, False) | x # _ \<Rightarrow> x);
          a = a\<lparr>ac_answers := tl (ac_answers a), ac_hangup := (ac_hangup a \<or> gone)\<rparr> in
      if \<not> ac_durable a then (a, Inr ())
      else (case answer of
         SaveWorks \<Rightarrow> (a\<lparr>ac_saved := snapshot_of a\<rparr>, Inr ())
       | SaveFails e \<Rightarrow> (a, Inl e)
       | SaveUnclear e \<Rightarrow> (a\<lparr>ac_saved := snapshot_of a\<rparr>, Inl e)
       | SavePanics \<Rightarrow> (a\<lparr>ac_durable := False\<rparr>, Inl MWorkerFailed)))"

definition close_on_hangup :: "'p actor \<Rightarrow> 'p actor" where
  "close_on_hangup a = (if ac_hangup a \<and> \<not> ac_closing a then stop_all (a\<lparr>ac_closing := True, ac_dirty := True\<rparr>) else a)"

definition retry_due :: "u64 \<Rightarrow> 'p mjob \<Rightarrow> bool" where
  "retry_due now j \<longleftrightarrow> mj_state j = RetryWaiting \<and> (case mj_retry_at j of None \<Rightarrow> False | Some at \<Rightarrow> at \<le> now)"

definition wake_retries :: "u64 \<Rightarrow> 'p actor \<Rightarrow> 'p actor" where
  "wake_retries now a =
     (if ac_closing a then a
      else
        let due = map fst (filter (\<lambda>(_, j). retry_due now j) (ac_jobs a)) in
        a\<lparr>ac_jobs := map (\<lambda>(i, j). (i, if retry_due now j then j\<lparr>mj_state := Queued, mj_retry_at := None\<rparr> else j)) (ac_jobs a),
          ac_queue := ac_queue a @ due, ac_dirty := (ac_dirty a \<or> due \<noteq> [])\<rparr>)"

definition live_limit :: "u64 option \<Rightarrow> u64 option \<Rightarrow> u64 option" where
  "live_limit old limit = (case set_limit old limit of Inl _ \<Rightarrow> old | Inr (l, _) \<Rightarrow> l)"

definition commit_dirty :: "'p actor \<Rightarrow> 'p actor" where
  "commit_dirty a =
     (if ac_dirty a \<and> ac_failure a = None then
        (case save_state a of
           (a, Inl e) \<Rightarrow> stop_all (a\<lparr>ac_failure := Some e, ac_closing := True, ac_dirty := False\<rparr>)
         | (a, Inr _) \<Rightarrow>
             a\<lparr>ac_global := live_limit (ac_global a) (mc_global (ac_config a)),
               ac_jobs := map (\<lambda>(i, j). (i, j\<lparr>mj_rate := live_limit (mj_rate j) (op_bytes_per_second (mj_options j))\<rparr>)) (ac_jobs a),
               ac_dirty := False\<rparr>)
      else a)"

definition send_acks :: "'p actor \<Rightarrow> 'p actor" where
  "send_acks a = a\<lparr>ac_acks := [],
     ac_replies := ac_replies a @ map (\<lambda>(token, x). (token, case ac_failure a of None \<Rightarrow> Inr x | Some e \<Rightarrow> Inl e)) (ac_acks a)\<rparr>"

text \<open>A job that was prepared and has no worker is paused again.\<close>

definition pause_prepared :: "u64 \<Rightarrow> 'p actor \<Rightarrow> 'p actor" where
  "pause_prepared i a = on_job i (\<lambda>j. j\<lparr>mj_state := Paused\<rparr>) (stop_all a)"

lemma save_state_keeps:
  "save_state a = (b, r) \<Longrightarrow> ac_queue b = ac_queue a \<and> ac_jobs b = ac_jobs a \<and> ac_workers b = ac_workers a \<and> ac_config b = ac_config a \<and>
     ac_last_id b = ac_last_id a \<and> ac_receipts b = ac_receipts a \<and> ac_closing b = ac_closing a \<and> ac_failure b = ac_failure a \<and>
     ac_acks b = ac_acks a \<and> ac_replies b = ac_replies a \<and> ac_dirty b = ac_dirty a \<and> ac_stopped b = ac_stopped a"
  by (auto simp: save_state_def Let_def split: save_answer.splits if_splits prod.splits list.splits)

function start_jobs :: "'p actor \<Rightarrow> 'p actor" where
  "start_jobs a =
     (if ac_closing a \<or> mc_max_active (ac_config a) \<le> length (ac_workers a) then a
      else case next_eligible (ac_jobs a) (ac_queue a) (mc_max_per_origin (ac_config a)) of
        None \<Rightarrow> a
      | Some index \<Rightarrow>
          if length (ac_queue a) \<le> index then a
          else
            let i = ac_queue a ! index;
                a1 = a\<lparr>ac_queue := take index (ac_queue a) @ drop (Suc index) (ac_queue a)\<rparr> in
            case map_of (ac_jobs a1) i of
              None \<Rightarrow> start_jobs a1
            | Some j \<Rightarrow>
                if mj_state j \<noteq> Queued then start_jobs a1
                else
                  (case save_state (on_job i (\<lambda>j. j\<lparr>mj_state := Running, mj_attempts := min (mj_attempts j + 1) U8_MAX\<rparr>) a1) of
                     (a2, Inl e) \<Rightarrow> pause_prepared i (a2\<lparr>ac_failure := Some e, ac_closing := True\<rparr>)
                   | (a2, Inr _) \<Rightarrow>
                       if ac_hangup a2 then pause_prepared i (a2\<lparr>ac_closing := True, ac_dirty := True\<rparr>)
                       else start_jobs ((on_job i (\<lambda>j. j\<lparr>mj_cancel := Some False\<rparr>) a2)\<lparr>ac_workers := ac_workers a2 @ [i]\<rparr>)))"
  by pat_completeness auto
termination
  by (relation "measure (\<lambda>a. length (ac_queue a))") (auto simp: on_job_def dest!: save_state_keeps [OF sym])

declare start_jobs.simps [simp del]

definition leave_loop :: "'p actor \<Rightarrow> 'p actor" where
  "leave_loop a =
     (if ac_closing a \<and> ac_workers a = [] then
        let a = (if ac_dirty a \<and> ac_failure a = None then
                   (case save_state a of (a, Inl e) \<Rightarrow> a\<lparr>ac_failure := Some e\<rparr> | (a, Inr _) \<Rightarrow> a)
                 else a) in
        publish_jobs (a\<lparr>ac_stopped := Some (case ac_failure a of None \<Rightarrow> Inr () | Some e \<Rightarrow> Inl e)\<rparr>)
      else a)"

definition manager_turn :: "u64 \<Rightarrow> 'p actor \<Rightarrow> 'p actor" where
  "manager_turn now a =
     leave_loop (publish_jobs (start_jobs (send_acks (commit_dirty (wake_retries now (close_on_hangup a))))))"

section \<open>Events\<close>

definition job_after :: "manager_config \<Rightarrow> bool \<Rightarrow> u64 \<Rightarrow> 'p mjob \<Rightarrow> (EngineError, u64) result \<Rightarrow> 'p mjob" where
  "job_after c closing now j r =
     (let retry = (\<not> closing \<and> mj_state j = Running \<and> mj_attempts j < rt_max_attempts (mc_retry c) \<and>
                   (case r of Inl e \<Rightarrow> retryable e | Inr _ \<Rightarrow> False));
          j = finish_job j r in
      if retry then j\<lparr>mj_state := RetryWaiting, mj_retry_at := Some (now + retry_delay (mc_retry c) (mj_attempts j))\<rparr> else j)"

definition worker_done :: "u64 \<Rightarrow> u64 \<Rightarrow> (EngineError, u64) result \<Rightarrow> 'p actor \<Rightarrow> 'p actor" where
  "worker_done now i r a =
     (if i \<notin> set (ac_workers a) then a
      else
        let a = a\<lparr>ac_workers := remove1 i (ac_workers a)\<rparr> in
        case map_of (ac_jobs a) i of
          None \<Rightarrow> a
        | Some j \<Rightarrow>
            let j = job_after (ac_config a) (ac_closing a) now j r;
                a = (on_job i (\<lambda>_. j\<lparr>mj_pause_reply := None\<rparr>) a)\<lparr>ac_dirty := True\<rparr> in
            case mj_pause_reply j of
              None \<Rightarrow> a
            | Some token \<Rightarrow>
                (case mj_state j of Failed _ \<Rightarrow> ac_reply token (Inl MWorkerFailed) a | _ \<Rightarrow> ac_acknowledge token None a))"

definition accept_job :: "'u url_lib \<Rightarrow> 'p path_lib \<Rightarrow> 'p path_fs \<Rightarrow> 'p options \<Rightarrow> QPriority \<Rightarrow> (digest \<times> digest) option \<Rightarrow> nat \<Rightarrow>
  'p actor \<Rightarrow> 'p actor" where
  "accept_job ul pl fs o' priority admission token a =
     (if mc_max_jobs (ac_config a) \<le> length (ac_jobs a) then ac_reply token (Inl MCapacity) a
      else case manager_origin ul o' of
        Inl e \<Rightarrow> ac_reply token (Inl e) a
      | Inr origin \<Rightarrow>
          (case path_key pl fs (op_job_dir o') of
             Inl e \<Rightarrow> ac_reply token (Inl e) a
           | Inr key \<Rightarrow>
               if list_ex (\<lambda>(_, j). mj_key j = key) (ac_jobs a) then ac_reply token (Inl MDuplicateJob) a
               else case checked_add (ac_last_id a) 1 of
                 None \<Rightarrow> ac_reply token (Inl MCapacity) a
               | Some i \<Rightarrow>
                   (case bandwidth_new (op_bytes_per_second o') of
                      Inl _ \<Rightarrow> ac_reply token (Inl MInvalidOptions) (a\<lparr>ac_last_id := i\<rparr>)
                    | Inr rate \<Rightarrow>
                        ac_acknowledge token (Some i)
                          (a\<lparr>ac_last_id := i,
                             ac_jobs := ac_jobs a @ [(i, \<lparr>mj_options = o', mj_origin = origin, mj_priority = priority, mj_key = key,
                               mj_state = Queued, mj_progress = 0, mj_cancel = None, mj_pause_reply = None, mj_attempts = 0,
                               mj_retry_at = None, mj_rate = rate\<rparr>)],
                             ac_queue := ac_queue a @ [i],
                             ac_receipts := ac_receipts a @ (case admission of None \<Rightarrow> [] | Some (key_hash, payload_hash) \<Rightarrow>
                               [\<lparr>rc_key_hash = key_hash, rc_payload_hash = payload_hash, rc_job_id = i, rc_removed = False\<rparr>])\<rparr>))))"

definition cmd_enqueue :: "'u url_lib \<Rightarrow> 'p path_lib \<Rightarrow> 'p path_fs \<Rightarrow> 'p options \<Rightarrow> QPriority \<Rightarrow> (digest \<times> digest) option \<Rightarrow> nat \<Rightarrow>
  'p actor \<Rightarrow> 'p actor" where
  "cmd_enqueue ul pl fs o' priority admission token a =
     (case admission of
        None \<Rightarrow> accept_job ul pl fs o' priority None token a
      | Some (key_hash, payload_hash) \<Rightarrow>
          if \<not> ac_durable a then ac_reply token (Inl MNotDurable) a
          else (case find (\<lambda>r. rc_key_hash r = key_hash) (ac_receipts a) of
             Some r \<Rightarrow>
               ac_reply token (if rc_payload_hash r \<noteq> payload_hash then Inl MIdempotencyConflict
                               else if rc_removed r then Inl MPreviouslyRemoved
                               else Inr (Some (rc_job_id r))) a
           | None \<Rightarrow>
               if MAX_RECEIPTS \<le> length (ac_receipts a) then ac_reply token (Inl MReceiptCapacity) a
               else accept_job ul pl fs o' priority admission token a))"

text \<open>What the job's folder holds when an address is replaced: nothing, something unreadable, or a store
  that opens or does not; or the look at it panics.\<close>

datatype dir_view = DirMissing | DirUnreadable | DirStore "(StoreError, transfer_store) result" | DirPanics

definition refresh_binding :: "digest option \<Rightarrow> digest \<Rightarrow> digest option \<Rightarrow> dir_view \<Rightarrow> (ManagerError, digest option) result" where
  "refresh_binding expected current' previous v =
     (case v of
        DirMissing \<Rightarrow> Inr None
      | DirUnreadable \<Rightarrow> Inl MInvalidPath
      | DirPanics \<Rightarrow> Inl MWorkerFailed
      | DirStore (Inl _) \<Rightarrow> Inl MWorkerFailed
      | DirStore (Inr s) \<Rightarrow>
          let identity = ts_identity s in
          if store_status s \<noteq> Downloading \<or> ts_unknown_length s \<or> si_etag identity = None \<or> si_expected identity \<noteq> expected \<or>
             si_original identity \<noteq> current' \<and> Some (si_original identity) \<noteq> previous
          then Inl MInvalidOptions
          else Inr (Some (si_original identity)))"

definition resting_state :: "State \<Rightarrow> bool" where
  "resting_state s \<longleftrightarrow> (case s of Paused \<Rightarrow> True | Failed _ \<Rightarrow> True | _ \<Rightarrow> False)"

definition cmd_refresh :: "(byte list \<Rightarrow> digest) \<Rightarrow> 'u url_lib \<Rightarrow> dir_view \<Rightarrow> u64 \<Rightarrow> nat list \<Rightarrow> nat \<Rightarrow> 'p actor \<Rightarrow> 'p actor" where
  "cmd_refresh sha ul v i raw token a =
     (case map_of (ac_jobs a) i of
        None \<Rightarrow> ac_reply token (Inl MUnknownJob) a
      | Some j \<Rightarrow>
          let o' = mj_options j in
          if \<not> resting_state (mj_state j) then ac_reply token (Inl MInvalidTransition) a
          else if op_expected_sha256 o' = None then ac_reply token (Inl MInvalidOptions) a
          else (case (engine_url ul (op_url o') (op_allow_http o'), engine_url ul raw (op_allow_http o')) of
             (Inr old, Inr new) \<Rightarrow>
               if ul_origin ul old \<noteq> ul_origin ul new \<or> ul_path ul old \<noteq> ul_path ul new then ac_reply token (Inl MInvalidOptions) a
               else (case refresh_binding (op_expected_sha256 o') (url_fingerprint sha (utf8_bytes (ul_as_str ul old))) (op_refresh_from o') v of
                  Inl e \<Rightarrow> ac_reply token (Inl e) a
                | Inr binding \<Rightarrow>
                    ac_acknowledge token None
                      (on_job i (\<lambda>j. j\<lparr>mj_options := o'\<lparr>op_refresh_from := binding, op_url := ul_as_str ul new\<rparr>, mj_state := Paused\<rparr>) a))
           | _ \<Rightarrow> ac_reply token (Inl MInvalidOptions) a))"

definition cmd_forget :: "u64 \<Rightarrow> nat \<Rightarrow> 'p actor \<Rightarrow> 'p actor" where
  "cmd_forget i token a =
     (case map_of (ac_jobs a) i of
        None \<Rightarrow> ac_reply token (Inl MUnknownJob) a
      | Some j \<Rightarrow>
          if active_state (mj_state j) then ac_reply token (Inl MInvalidTransition) a
          else ac_acknowledge token None
            (a\<lparr>ac_jobs := AList.delete i (ac_jobs a), ac_queue := filter (\<lambda>k. k \<noteq> i) (ac_queue a),
               ac_receipts := map (\<lambda>r. if rc_job_id r = i then r\<lparr>rc_removed := True\<rparr> else r) (ac_receipts a)\<rparr>))"

definition cmd_set_priority :: "u64 \<Rightarrow> QPriority \<Rightarrow> nat \<Rightarrow> 'p actor \<Rightarrow> 'p actor" where
  "cmd_set_priority i priority token a =
     (case map_of (ac_jobs a) i of
        None \<Rightarrow> ac_reply token (Inl MUnknownJob) a
      | Some j \<Rightarrow>
          if resting_state (mj_state j) \<or> mj_state j = Queued \<or> mj_state j = RetryWaiting
          then ac_acknowledge token None (on_job i (\<lambda>j. j\<lparr>mj_priority := priority\<rparr>) a)
          else ac_reply token (Inl MInvalidTransition) a)"

definition cmd_pause :: "u64 \<Rightarrow> nat \<Rightarrow> 'p actor \<Rightarrow> 'p actor" where
  "cmd_pause i token a =
     (case map_of (ac_jobs a) i of
        None \<Rightarrow> ac_reply token (Inl MUnknownJob) a
      | Some j \<Rightarrow>
          if mj_state j = Queued \<or> mj_state j = RetryWaiting then
            ac_acknowledge token None
              ((on_job i (\<lambda>j. j\<lparr>mj_state := Paused, mj_retry_at := None\<rparr>) a)\<lparr>ac_queue := filter (\<lambda>k. k \<noteq> i) (ac_queue a)\<rparr>)
          else if mj_state j = Running then
            (on_job i (\<lambda>j. j\<lparr>mj_state := Pausing, mj_pause_reply := Some token, mj_cancel := map_option (\<lambda>_. True) (mj_cancel j)\<rparr>) a)\<lparr>ac_dirty := True\<rparr>
          else if mj_state j = Paused then ac_acknowledge token None a
          else ac_reply token (Inl MInvalidTransition) a)"

definition requeued :: "'p mjob \<Rightarrow> 'p mjob" where
  "requeued j = j\<lparr>mj_state := Queued, mj_attempts := 0, mj_retry_at := None\<rparr>"

definition cmd_resume :: "u64 \<Rightarrow> nat \<Rightarrow> 'p actor \<Rightarrow> 'p actor" where
  "cmd_resume i token a =
     (case map_of (ac_jobs a) i of
        None \<Rightarrow> ac_reply token (Inl MUnknownJob) a
      | Some j \<Rightarrow>
          if resting_state (mj_state j)
          then ac_acknowledge token None ((on_job i requeued a)\<lparr>ac_queue := filter (\<lambda>k. k \<noteq> i) (ac_queue a) @ [i]\<rparr>)
          else ac_reply token (Inl MInvalidTransition) a)"

definition resume_one :: "u64 \<Rightarrow> 'p actor \<Rightarrow> 'p actor" where
  "resume_one i a =
     (case map_of (ac_jobs a) i of
        None \<Rightarrow> a
      | Some j \<Rightarrow>
          if resting_state (mj_state j)
          then (on_job i requeued a)\<lparr>ac_queue := (if i \<in> set (ac_queue a) then ac_queue a else ac_queue a @ [i])\<rparr>
          else a)"

definition cmd_resume_all :: "nat \<Rightarrow> 'p actor \<Rightarrow> 'p actor" where
  "cmd_resume_all token a =
     (let ordered = fold (\<lambda>(i, _) os. if i \<in> set os then os else os @ [i]) (ac_jobs a) (ac_queue a) in
      ac_acknowledge token None (fold resume_one ordered a))"

definition cmd_global_rate :: "u64 option \<Rightarrow> nat \<Rightarrow> 'p actor \<Rightarrow> 'p actor" where
  "cmd_global_rate rate token a = ac_acknowledge token None (a\<lparr>ac_config := (ac_config a)\<lparr>mc_global := rate\<rparr>\<rparr>)"

definition cmd_job_rate :: "u64 \<Rightarrow> u64 option \<Rightarrow> nat \<Rightarrow> 'p actor \<Rightarrow> 'p actor" where
  "cmd_job_rate i rate token a =
     (case map_of (ac_jobs a) i of
        None \<Rightarrow> ac_reply token (Inl MUnknownJob) a
      | Some _ \<Rightarrow>
          ac_acknowledge token None (on_job i (\<lambda>j. j\<lparr>mj_options := (mj_options j)\<lparr>op_bytes_per_second := rate\<rparr>\<rparr>) a))"

datatype 'p mcommand =
    CmdEnqueue "'p options" QPriority "(digest \<times> digest) option"
  | CmdSetPriority u64 QPriority | CmdPause u64 | CmdResume u64 | CmdGlobalRate "u64 option" | CmdJobRate u64 "u64 option"
  | CmdResumeAll | CmdRefresh u64 "nat list" | CmdForget u64

text \<open>The calls of the handle: what is checked before a command is sent, a request with a key hashed.
  Nothing is sent once the manager has closed.\<close>

datatype 'p mcall =
    CallEnqueue "'p options" QPriority | CallEnqueueOnce "byte list" "'p options" QPriority | CallSetPriority u64 QPriority
  | CallPause u64 | CallResume u64 | CallResumeAll | CallGlobalRate "u64 option" | CallJobRate u64 "u64 option"
  | CallRefresh u64 "nat list" | CallForget u64

definition handle_call :: "(byte list \<Rightarrow> digest) \<Rightarrow> 'u url_lib \<Rightarrow> 'p path_lib \<Rightarrow> bool \<Rightarrow> bool \<Rightarrow> 'p mcall \<Rightarrow> (ManagerError, 'p mcommand) result" where
  "handle_call sha ul pl persistent closed c =
     (let send = (\<lambda>c. if closed then Inl MClosed else Inr c) in
      case c of
        CallEnqueue o' priority \<Rightarrow> res_bind (validate_options ul pl o') (\<lambda>_. send (CmdEnqueue o' priority None))
      | CallEnqueueOnce key o' priority \<Rightarrow>
          if \<not> persistent then Inl MNotDurable
          else res_bind (admission_hashes sha ul pl key o' priority) (\<lambda>hashes. send (CmdEnqueue o' priority (Some hashes)))
      | CallSetPriority i priority \<Rightarrow> send (CmdSetPriority i priority)
      | CallPause i \<Rightarrow> send (CmdPause i)
      | CallResume i \<Rightarrow> send (CmdResume i)
      | CallResumeAll \<Rightarrow> send CmdResumeAll
      | CallGlobalRate rate \<Rightarrow> if \<not> valid_limit rate then Inl MInvalidOptions else send (CmdGlobalRate rate)
      | CallJobRate i rate \<Rightarrow> if \<not> valid_limit rate then Inl MInvalidOptions else send (CmdJobRate i rate)
      | CallRefresh i raw \<Rightarrow> res_bind (map_err (\<lambda>_. MInvalidOptions) (engine_url ul raw True)) (\<lambda>_. send (CmdRefresh i raw))
      | CallForget i \<Rightarrow> send (CmdForget i))"

text \<open>What every command that was sent satisfies.\<close>

definition mcommand_ok :: "'u url_lib \<Rightarrow> 'p path_lib \<Rightarrow> 'p mcommand \<Rightarrow> bool" where
  "mcommand_ok ul pl c =
     (case c of
        CmdEnqueue o' _ _ \<Rightarrow> validate_options ul pl o' = Inr ()
      | CmdGlobalRate rate \<Rightarrow> valid_limit rate
      | CmdJobRate _ rate \<Rightarrow> valid_limit rate
      | CmdRefresh _ raw \<Rightarrow> \<not> isl (engine_url ul raw True)
      | _ \<Rightarrow> True)"

lemma handle_call_ok: "handle_call sha ul pl persistent closed call = Inr c \<Longrightarrow> mcommand_ok ul pl c"
  by (cases call) (auto simp: handle_call_def mcommand_ok_def admission_hashes_def Let_def res_simps isl_def split: if_splits)

definition manager_command :: "(byte list \<Rightarrow> digest) \<Rightarrow> 'u url_lib \<Rightarrow> 'p path_lib \<Rightarrow> 'p path_fs \<Rightarrow> dir_view \<Rightarrow> 'p mcommand \<Rightarrow> nat \<Rightarrow>
  'p actor \<Rightarrow> 'p actor" where
  "manager_command sha ul pl fs v c token a =
     (case c of
        CmdEnqueue o' priority admission \<Rightarrow> cmd_enqueue ul pl fs o' priority admission token a
      | CmdSetPriority i priority \<Rightarrow> cmd_set_priority i priority token a
      | CmdPause i \<Rightarrow> cmd_pause i token a
      | CmdResume i \<Rightarrow> cmd_resume i token a
      | CmdGlobalRate rate \<Rightarrow> cmd_global_rate rate token a
      | CmdJobRate i rate \<Rightarrow> cmd_job_rate i rate token a
      | CmdResumeAll \<Rightarrow> cmd_resume_all token a
      | CmdRefresh i raw \<Rightarrow> cmd_refresh sha ul v i raw token a
      | CmdForget i \<Rightarrow> cmd_forget i token a)"

definition on_hangup :: "'p actor \<Rightarrow> 'p actor" where
  "on_hangup a = stop_all (a\<lparr>ac_closing := True, ac_hangup := True, ac_dirty := True\<rparr>)"

text \<open>A worker reports how much of its file is committed while it runs.\<close>

definition worker_progress :: "u64 \<Rightarrow> u64 \<Rightarrow> 'p actor \<Rightarrow> 'p actor" where
  "worker_progress i bytes a =
     (if i \<in> set (ac_workers a) then on_job i (\<lambda>j. j\<lparr>mj_progress := bytes\<rparr>) a else a)"

section \<open>Starting\<close>

definition actor_new :: "manager_config \<Rightarrow> 'p jobs \<Rightarrow> bool \<Rightarrow> 'p snapshot \<Rightarrow> u64 option \<Rightarrow> u64 \<Rightarrow> queue_receipt list \<Rightarrow>
  (save_answer \<times> bool) list \<Rightarrow> 'p actor" where
  "actor_new c jobs persistent saved global last_id receipts answers =
     publish_jobs \<lparr>ac_config = c, ac_jobs = jobs, ac_durable = persistent, ac_saved = saved, ac_global = global, ac_last_id = last_id,
       ac_receipts = receipts, ac_queue = map fst jobs, ac_workers = [], ac_closing = False, ac_hangup = False, ac_failure = None,
       ac_dirty = True, ac_acks = [], ac_replies = [], ac_snapshots = [], ac_answers = answers, ac_stopped = None\<rparr>"

definition empty_snapshot :: "manager_config \<Rightarrow> 'p snapshot" where
  "empty_snapshot c = \<lparr>sn_last_id = 0, sn_receipts = [], sn_config = c, sn_jobs = [], sn_queue = []\<rparr>"

definition start_configured :: "manager_config \<Rightarrow> (save_answer \<times> bool) list \<Rightarrow> (ManagerError, 'p actor) result" where
  "start_configured c answers =
     res_bind (config_validate c) (\<lambda>_.
     res_bind (map_err (\<lambda>_. MInvalidLimits) (bandwidth_new (mc_global c))) (\<lambda>global.
     Inr (actor_new c [] False (empty_snapshot c) global 0 [] answers)))"

definition recovered_job :: "'u url_lib \<Rightarrow> 'p path_lib \<Rightarrow> 'p path_fs \<Rightarrow> 'p jobs \<Rightarrow> 'p saved_job \<Rightarrow> (ManagerError, u64 \<times> 'p mjob) result" where
  "recovered_job ul pl fs earlier s =
     res_bind (validate_options ul pl (sj_options s)) (\<lambda>_.
     res_bind (path_key pl fs (op_job_dir (sj_options s))) (\<lambda>key.
     if list_ex (\<lambda>(_, j). mj_key j = key) earlier then Inl MDuplicateJob
     else
     res_bind (map_err (\<lambda>_. MInvalidOptions) (bandwidth_new (op_bytes_per_second (sj_options s)))) (\<lambda>rate.
     res_bind (manager_origin ul (sj_options s)) (\<lambda>origin.
     Inr (sj_id s, \<lparr>mj_options = sj_options s, mj_origin = origin, mj_priority = sj_priority s, mj_key = key,
       mj_state = (case sj_state s of Completed \<Rightarrow> Completed | Failed e \<Rightarrow> Failed e | _ \<Rightarrow> Paused),
       mj_progress = sj_progress s, mj_cancel = None, mj_pause_reply = None, mj_attempts = sj_attempts s, mj_retry_at = None,
       mj_rate = rate\<rparr>)))))"

fun recover_jobs :: "'u url_lib \<Rightarrow> 'p path_lib \<Rightarrow> 'p path_fs \<Rightarrow> 'p jobs \<Rightarrow> 'p saved_job list \<Rightarrow> (ManagerError, 'p jobs) result" where
  "recover_jobs ul pl fs earlier [] = Inr earlier"
| "recover_jobs ul pl fs earlier (s # ss) =
     res_bind (recovered_job ul pl fs earlier s) (\<lambda>x. recover_jobs ul pl fs (earlier @ [x]) ss)"

text \<open>The stable sort by the place in the saved queue; a job that is not in it comes last.\<close>

definition queue_rank :: "u64 list \<Rightarrow> u64 \<Rightarrow> nat" where
  "queue_rank queue i = (case position (\<lambda>k. k = i) queue of None \<Rightarrow> U64_MAX | Some n \<Rightarrow> n)"

text \<open>\<open>Manager::open\<close>, given what the store found or, for an empty one, the answer to its first save.\<close>

definition manager_open :: "'u url_lib \<Rightarrow> 'p path_lib \<Rightarrow> 'p path_fs \<Rightarrow> manager_config \<Rightarrow> 'p snapshot option \<Rightarrow> (ManagerError, unit) result \<Rightarrow>
  (save_answer \<times> bool) list \<Rightarrow> (ManagerError, 'p actor) result" where
  "manager_open ul pl fs c found first_save answers =
     res_bind (config_validate c) (\<lambda>_.
     res_bind (case found of Some s \<Rightarrow> Inr s | None \<Rightarrow> res_bind first_save (\<lambda>_. Inr (empty_snapshot c))) (\<lambda>saved.
     res_bind (map_err (\<lambda>_. MInvalidLimits) (bandwidth_new (mc_global (sn_config saved)))) (\<lambda>global.
     res_bind (recover_jobs ul pl fs [] (sn_jobs saved)) (\<lambda>jobs.
     Inr (actor_new (sn_config saved) (sort_key (\<lambda>(i, _). queue_rank (sn_queue saved) i) jobs) True saved global
            (sn_last_id saved) (sn_receipts saved) answers)))))"

section \<open>Runs\<close>

text \<open>The states the manager's task can be in when it waits, and in the end. Commands are those the
  handle lets through.\<close>

datatype 'p mevent =
    EvWorker u64 "(EngineError, u64) result" | EvCommand "'p mcommand" nat "'p path_fs" dir_view | EvHangup | EvTick
  | EvProgress u64 u64

definition manager_event :: "(byte list \<Rightarrow> digest) \<Rightarrow> 'u url_lib \<Rightarrow> 'p path_lib \<Rightarrow> u64 \<Rightarrow> 'p mevent \<Rightarrow> 'p actor \<Rightarrow> 'p actor" where
  "manager_event sha ul pl now e a =
     (case e of
        EvWorker i r \<Rightarrow> worker_done now i r a
      | EvCommand c token fs v \<Rightarrow> if ac_closing a \<or> \<not> mcommand_ok ul pl c then a else manager_command sha ul pl fs v c token a
      | EvHangup \<Rightarrow> if ac_closing a then a else on_hangup a
      | EvTick \<Rightarrow> a
      | EvProgress i bytes \<Rightarrow> worker_progress i bytes a)"

text \<open>The tokens of the commands sent so far are kept with them; each is used once.\<close>

definition event_log :: "'p mevent \<Rightarrow> (nat \<times> 'p mcommand) list" where
  "event_log e = (case e of EvCommand c token _ _ \<Rightarrow> [(token, c)] | _ \<Rightarrow> [])"

inductive manager_run :: "(byte list \<Rightarrow> digest) \<Rightarrow> 'u url_lib \<Rightarrow> 'p path_lib \<Rightarrow> 'p actor \<Rightarrow> (nat \<times> 'p mcommand) list \<Rightarrow> 'p actor \<Rightarrow> bool"
  for sha ul pl a0 where
  run_start: "manager_run sha ul pl a0 [] (manager_turn now a0)"
| run_step: "manager_run sha ul pl a0 log a \<Longrightarrow> ac_stopped a = None \<Longrightarrow> set (map fst (event_log e)) \<inter> set (map fst log) = {} \<Longrightarrow>
    manager_run sha ul pl a0 (log @ event_log e) (manager_turn now' (manager_event sha ul pl now e a))"

end
