(* ===== verification/Queue_Props.thy ===== *)
theory Queue_Props
  imports Queue_Store
begin

text \<open>
  What the stored queue keeps: every snapshot within the limits decodes to itself, with the cause of a
  failure forgotten, and every snapshot that decodes is consistent, whoever wrote the bytes.
\<close>

section \<open>Readers\<close>

text \<open>A reader that takes exactly these bytes for this value, whatever follows them.\<close>

definition reads :: "'a reader \<Rightarrow> byte list \<Rightarrow> 'a \<Rightarrow> bool" where
  "reads r xs v \<longleftrightarrow> (\<forall>rest. r (xs @ rest) = Inr (v, rest))"

named_theorems reads_intros \<open>what the readers take\<close>

lemma reads_return [reads_intros]: "reads (rd_return v) [] v"
  by (simp add: reads_def rd_return_def)

lemma reads_bind: "reads r xs v \<Longrightarrow> reads (f v) ys w \<Longrightarrow> reads (rd_bind r f) (xs @ ys) w"
  by (simp add: reads_def rd_bind_def)

lemma rd_bind_reads: "reads r xs v \<Longrightarrow> rd_bind r f (xs @ ys) = f v ys"
  by (simp add: reads_def rd_bind_def)

lemma rd_bind_reads_last: "reads r xs v \<Longrightarrow> rd_bind r f xs = f v []"
  using rd_bind_reads [of r xs v f "[]"] by simp

lemma list_ex_image: "list_ex (\<lambda>x. f x = y) xs \<longleftrightarrow> y \<in> f ` set xs"
  by (auto simp: list_ex_iff)

lemma reads_bind_last: "reads r xs v \<Longrightarrow> reads (f v) [] w \<Longrightarrow> reads (rd_bind r f) xs w"
  using reads_bind [of r xs v f "[]" w] by simp

lemma reads_take: "length xs = n \<Longrightarrow> reads (rd_take n) xs xs"
  by (simp add: reads_def rd_take_def)

lemma reads_byte [reads_intros]: "n < 256 \<Longrightarrow> reads rd_byte [char_of n] n"
  unfolding rd_byte_def by (rule reads_bind_last [OF reads_take]) (simp_all add: reads_def rd_return_def)

lemma reads_u64 [reads_intros]: "n \<le> U64_MAX \<Longrightarrow> reads rd_u64 (put64 n) n"
  unfolding rd_u64_def put64_def
  by (rule reads_bind_last [OF reads_take]) (simp_all add: reads_def rd_return_def width_simps)

lemma reads_bounded [reads_intros]: "n \<le> most \<Longrightarrow> most \<le> U64_MAX \<Longrightarrow> reads (rd_bounded most) (put64 n) n"
  unfolding rd_bounded_def by (rule reads_bind_last [OF reads_u64]) (auto intro: reads_return)

lemma reads_raw: "length xs \<le> most \<Longrightarrow> most \<le> U64_MAX \<Longrightarrow> reads (rd_raw most) (put_bytes xs) xs"
  unfolding rd_raw_def put_bytes_def by (rule reads_bind [OF reads_bounded reads_take]) simp_all

lemma reads_string [reads_intros]:
  "scalar_text s \<Longrightarrow> utf8_len s \<le> most \<Longrightarrow> most \<le> U64_MAX \<Longrightarrow> reads (rd_string most) (put_string s) s"
  unfolding rd_string_def put_string_def put_bytes_def [symmetric]
  by (rule reads_bind_last [OF reads_raw]) (simp_all add: reads_return)

lemma reads_bytes [reads_intros]:
  "utf8_chars s \<noteq> None \<Longrightarrow> length s \<le> most \<Longrightarrow> most \<le> U64_MAX \<Longrightarrow> reads (rd_bytes most) (put_bytes s) s"
  unfolding rd_bytes_def by (rule reads_bind_last [OF reads_raw]) (auto intro: reads_return)

lemma reads_option [reads_intros]: "v \<noteq> Some 0 \<Longrightarrow> (\<And>n. v = Some n \<Longrightarrow> n \<le> U64_MAX) \<Longrightarrow> reads rd_option (put_option v) v"
  unfolding rd_option_def put_option_def
  by (rule reads_bind_last [OF reads_u64]) (auto simp: reads_def rd_return_def split: option.splits)

lemma reads_bool [reads_intros]: "reads rd_bool (put_bool b) b"
  unfolding rd_bool_def put_bool_def by (rule reads_bind_last [OF reads_byte]) (auto intro: reads_return)

lemma reads_digest [reads_intros]: "(\<And>h. d = Some h \<Longrightarrow> length h = 32) \<Longrightarrow> reads rd_digest (put_digest d) d"
  unfolding rd_digest_def put_digest_def
  by (rule reads_bind [OF reads_bool]) (auto intro: reads_return intro!: reads_bind_last [OF reads_take] split: option.splits)

lemma reads_times: "(\<And>x. x \<in> set xs \<Longrightarrow> reads r (f x) x) \<Longrightarrow> reads (rd_times (length xs) r) (concat (map f xs)) xs"
proof (induction xs)
  case (Cons x xs)
  then have "reads r (f x) x" "reads (rd_times (length xs) r) (concat (map f xs)) xs" by simp_all
  then show ?case unfolding rd_times.simps list.size list.map concat.simps add_0 add_Suc_right
    using reads_bind [OF _ reads_bind_last [OF _ reads_return]] by simp
qed (simp add: reads_return)

lemma reads_fold:
  assumes "\<And>as x bs. xs = as @ x # bs \<Longrightarrow> reads (r (earlier @ map g as)) (f x) (g x)"
  shows "reads (rd_fold (length xs) r earlier) (concat (map f xs)) (earlier @ map g xs)"
  using assms
proof (induction xs arbitrary: earlier)
  case (Cons x xs)
  have "reads (r earlier) (f x) (g x)" using Cons.prems [of "[]" x xs] by simp
  moreover have "reads (rd_fold (length xs) r (earlier @ [g x])) (concat (map f xs)) ((earlier @ [g x]) @ map g xs)"
    using Cons.prems [of "x # _"] by (intro Cons.IH) simp
  ultimately show ?case by (auto intro!: reads_bind)
qed (simp add: reads_return)

lemma readsD: "reads r xs v \<Longrightarrow> r xs = Inr (v, [])"
  unfolding reads_def by (metis append_Nil2)

section \<open>Snapshots\<close>

definition options_fit :: "'u url_lib \<Rightarrow> 'p path_lib \<Rightarrow> 'p options \<Rightarrow> bool" where
  "options_fit ul pl o' \<longleftrightarrow>
     scalar_text (op_url o') \<and> utf8_len (op_url o') \<le> 16384 \<and>
     (\<exists>dir. pl_to_str pl (op_job_dir o') = Some dir \<and> pl_of_str pl dir = op_job_dir o' \<and> scalar_text dir \<and> utf8_len dir \<le> 131072) \<and>
     scalar_text (op_output_name o') \<and> utf8_len (op_output_name o') \<le> 255 \<and>
     (\<forall>h. op_expected_sha256 o' = Some h \<longrightarrow> length h = 32) \<and>
     op_checkpoint_bytes o' \<le> U64_MAX \<and> op_max_download_bytes o' \<le> U64_MAX \<and> valid_limit (op_bytes_per_second o') \<and>
     op_parallel_connections o' \<le> 8 \<and> list_all scalar_text (rq_redirect_origins (op_request_policy o')) \<and>
     policy_new ul (rq_authorization (op_request_policy o')) (rq_cookie (op_request_policy o')) (rq_redirect_origins (op_request_policy o')) =
       Inr (op_request_policy o') \<and>
     (\<forall>h. op_refresh_from o' = Some h \<longrightarrow> length h = 32)"

definition saved_job_fits :: "'u url_lib \<Rightarrow> 'p path_lib \<Rightarrow> 'p saved_job \<Rightarrow> bool" where
  "saved_job_fits ul pl j \<longleftrightarrow> 0 < sj_id j \<and> sj_id j \<le> U64_MAX \<and> options_fit ul pl (sj_options j) \<and>
     sj_progress j \<le> op_max_download_bytes (sj_options j) \<and> sj_attempts j \<le> 5"

text \<open>What every decoder may rely on: the identifiers name one job each, the queue and the receipts refer
  to them, and a receipt is live exactly while its job is there.\<close>

definition snapshot_consistent :: "'p snapshot \<Rightarrow> bool" where
  "snapshot_consistent s \<longleftrightarrow> (let ids = map sj_id (sn_jobs s) in
     config_validate (sn_config s) = Inr () \<and> length ids \<le> mc_max_jobs (sn_config s) \<and>
     distinct ids \<and> 0 \<notin> set ids \<and> list_all (\<lambda>i. i \<le> sn_last_id s) ids \<and>
     list_all (\<lambda>j. sj_attempts j \<le> 5 \<and> sj_progress j \<le> op_max_download_bytes (sj_options j)) (sn_jobs s) \<and>
     distinct (sn_queue s) \<and> set (sn_queue s) \<subseteq> set ids \<and>
     length (sn_receipts s) \<le> MAX_RECEIPTS \<and> distinct (map rc_key_hash (sn_receipts s)) \<and> distinct (map rc_job_id (sn_receipts s)) \<and>
     list_all (\<lambda>r. 0 < rc_job_id r \<and> rc_job_id r \<le> sn_last_id s \<and> (rc_removed r \<longleftrightarrow> rc_job_id r \<notin> set ids)) (sn_receipts s))"

definition snapshot_fits :: "'u url_lib \<Rightarrow> 'p path_lib \<Rightarrow> 'p snapshot \<Rightarrow> bool" where
  "snapshot_fits ul pl s \<longleftrightarrow> snapshot_consistent s \<and> sn_last_id s \<le> U64_MAX \<and> list_all (saved_job_fits ul pl) (sn_jobs s) \<and>
     list_all (\<lambda>r. length (rc_key_hash r) = 32 \<and> length (rc_payload_hash r) = 32) (sn_receipts s)"

fun reloaded :: "State \<Rightarrow> State" where
  "reloaded (Failed e) = Failed EWorkerFailed"
| "reloaded s = s"

definition reloaded_job :: "'p saved_job \<Rightarrow> 'p saved_job" where
  "reloaded_job j = j\<lparr>sj_state := reloaded (sj_state j)\<rparr>"

definition reloaded_snapshot :: "'p snapshot \<Rightarrow> 'p snapshot" where
  "reloaded_snapshot s = s\<lparr>sn_jobs := map reloaded_job (sn_jobs s)\<rparr>"

lemma reloaded_job_simps [simp]: "sj_id (reloaded_job j) = sj_id j"
  by (simp add: reloaded_job_def)

section \<open>Round trip\<close>

lemma ascii_utf8: "list_all (\<lambda>b. (of_char b :: nat) < 128) v \<Longrightarrow> utf8_chars v \<noteq> None"
  by (induction v) (auto simp: utf8_next_def)

lemma secret_utf8: "secret_ok ul v \<Longrightarrow> utf8_chars v \<noteq> None \<and> length v \<le> 8192 \<and> v \<noteq> []"
  by (auto simp: secret_ok_def dest: ascii_utf8)

lemma policy_newD:
  assumes "policy_new ul a c os = Inr p"
  shows "a = Some v \<Longrightarrow> secret_ok ul v" "c = Some v \<Longrightarrow> secret_ok ul v" "length os \<le> 8" "x \<in> set os \<Longrightarrow> utf8_len x \<le> 16384"
proof -
  have v: "policy_validate ul \<lparr>rq_authorization = a, rq_cookie = c, rq_redirect_origins = os\<rparr> = Inr ()"
    using assms by (auto simp: policy_new_def res_simps)
  then show "a = Some v \<Longrightarrow> secret_ok ul v" "c = Some v \<Longrightarrow> secret_ok ul v" "length os \<le> 8"
    by (auto simp: policy_validate_def split: if_splits)
  have "\<exists>us. map (bare_origin ul) os = map Inr us"
    using v by (auto simp: policy_validate_def res_simps collect_res_eq_Inr split: if_splits)
  then have "x \<in> set os \<Longrightarrow> \<exists>u. bare_origin ul x = Inr u"
    by (metis imageE image_eqI list.set_map)
  then show "x \<in> set os \<Longrightarrow> utf8_len x \<le> 16384"
    by (auto simp: bare_origin_def res_simps dest: engine_urlD(1))
qed

lemma reads_secret:
  "(\<And>v. s = Some v \<Longrightarrow> secret_ok ul v) \<Longrightarrow>
     reads (rd_bytes 8192) (put_bytes (case s of None \<Rightarrow> [] | Some v \<Rightarrow> v)) (case s of None \<Rightarrow> [] | Some v \<Rightarrow> v)"
  by (rule reads_bytes) (auto simp: width_simps dest: secret_utf8 split: option.splits)

lemma secret_back:
  "(\<And>v. s = Some v \<Longrightarrow> secret_ok ul v) \<Longrightarrow>
     (if (case s of None \<Rightarrow> [] | Some v \<Rightarrow> v) = [] then None else Some (case s of None \<Rightarrow> [] | Some v \<Rightarrow> v)) = s"
  by (auto dest: secret_utf8 split: option.splits)

lemma reads_policy:
  assumes "policy_new ul (rq_authorization p) (rq_cookie p) (rq_redirect_origins p) = Inr p" "list_all scalar_text (rq_redirect_origins p)"
  shows "reads (rd_policy ul)
    (put_bytes (case rq_authorization p of None \<Rightarrow> [] | Some v \<Rightarrow> v) @ put_bytes (case rq_cookie p of None \<Rightarrow> [] | Some v \<Rightarrow> v) @
     put64 (length (rq_redirect_origins p)) @ concat (map put_string (rq_redirect_origins p))) p"
  unfolding rd_policy_def
proof (intro reads_bind reads_bind_last)
  note D = policy_newD [OF assms(1)]
  show "reads (rd_bytes 8192) (put_bytes (case rq_authorization p of None \<Rightarrow> [] | Some v \<Rightarrow> v)) (case rq_authorization p of None \<Rightarrow> [] | Some v \<Rightarrow> v)"
    "reads (rd_bytes 8192) (put_bytes (case rq_cookie p of None \<Rightarrow> [] | Some v \<Rightarrow> v)) (case rq_cookie p of None \<Rightarrow> [] | Some v \<Rightarrow> v)"
    by (rule reads_secret; erule D(1) D(2))+
  show "reads (rd_bounded 8) (put64 (length (rq_redirect_origins p))) (length (rq_redirect_origins p))"
    by (rule reads_bounded) (use D(3) in \<open>simp_all add: width_simps\<close>)
  show "reads (rd_times (length (rq_redirect_origins p)) (rd_string 16384)) (concat (map put_string (rq_redirect_origins p))) (rq_redirect_origins p)"
    using assms(2) D(4) by (intro reads_times reads_string) (auto simp: list_all_iff width_simps)
  show "reads (case policy_new ul
       (if (case rq_authorization p of None \<Rightarrow> [] | Some v \<Rightarrow> v) = [] then None else Some (case rq_authorization p of None \<Rightarrow> [] | Some v \<Rightarrow> v))
       (if (case rq_cookie p of None \<Rightarrow> [] | Some v \<Rightarrow> v) = [] then None else Some (case rq_cookie p of None \<Rightarrow> [] | Some v \<Rightarrow> v))
       (rq_redirect_origins p) of Inl _ \<Rightarrow> rd_fail | Inr p \<Rightarrow> rd_return p) [] p"
    using secret_back [of "rq_authorization p" ul] secret_back [of "rq_cookie p" ul] D(1,2) by (simp add: assms(1) reads_return)
qed

lemma reads_options:
  assumes "options_fit ul pl o'" "encode_options_v2 pl o' = Inr bs" "version \<noteq> 1"
  shows "reads (rd_options ul pl version) bs o'"
proof -
  obtain dir where dir: "pl_to_str pl (op_job_dir o') = Some dir" "pl_of_str pl dir = op_job_dir o'" "scalar_text dir" "utf8_len dir \<le> 131072"
    using assms(1) by (auto simp: options_fit_def)
  define v1 where "v1 = put_string (op_url o') @ put_string dir @ put_string (op_output_name o') @ put_digest (op_expected_sha256 o') @
    put_bool (op_allow_http o') @ put64 (op_checkpoint_bytes o') @ put64 (op_max_download_bytes o') @ put_option (op_bytes_per_second o') @
    [char_of (op_parallel_connections o')]"
  define pb where "pb = put_bytes (case rq_authorization (op_request_policy o') of None \<Rightarrow> [] | Some v \<Rightarrow> v) @
    put_bytes (case rq_cookie (op_request_policy o') of None \<Rightarrow> [] | Some v \<Rightarrow> v) @
    put64 (length (rq_redirect_origins (op_request_policy o'))) @ concat (map put_string (rq_redirect_origins (op_request_policy o')))"
  have bs: "bs = v1 @ pb @ put_digest (op_refresh_from o')"
    using assms(2) dir(1) by (simp add: encode_options_v2_def Let_def v1_def pb_def)
  have lim: "valid_limit v \<Longrightarrow> v \<noteq> Some 0 \<and> (\<forall>n. v = Some n \<longrightarrow> n \<le> U64_MAX)" for v
    by (auto simp: valid_limit_def MAX_BYTES_PER_SECOND_def width_simps)
  have one: "reads (rd_options_v1 pl) v1 (o'\<lparr>op_request_policy := policy_default, op_refresh_from := None\<rparr>)"
    unfolding rd_options_v1_def v1_def
    by (rule reads_bind reads_bind_last reads_intros | (use assms(1) dir lim in \<open>auto simp: options_fit_def width_simps\<close>; fail))+
      (use dir(2) in \<open>simp add: reads_def rd_return_def\<close>)
  have two: "reads (rd_policy ul) pb (op_request_policy o')"
    unfolding pb_def using assms(1) by (intro reads_policy) (simp_all add: options_fit_def)
  have three: "reads rd_digest (put_digest (op_refresh_from o')) (op_refresh_from o')"
    using assms(1) by (intro reads_digest) (simp add: options_fit_def)
  show ?thesis
    unfolding bs rd_options_def
  proof (rule reads_bind [OF one])
    have "reads (rd_bind (rd_policy ul) (\<lambda>p. rd_bind rd_digest (\<lambda>refresh. rd_return (o'\<lparr>op_request_policy := p, op_refresh_from := refresh\<rparr>))))
        (pb @ put_digest (op_refresh_from o')) o'"
      by (rule reads_bind [OF two], rule reads_bind_last [OF three]) (simp add: reads_def rd_return_def)
    then show "reads (if version = 1 then rd_return (o'\<lparr>op_request_policy := policy_default, op_refresh_from := None\<rparr>)
      else rd_bind (rd_policy ul) (\<lambda>p. rd_bind rd_digest (\<lambda>refresh.
        rd_return (o'\<lparr>op_request_policy := policy_default, op_refresh_from := None, op_request_policy := p, op_refresh_from := refresh\<rparr>))))
      (pb @ put_digest (op_refresh_from o')) o'"
      using assms(3) by simp
  qed
qed

lemma reads_job:
  assumes "saved_job_fits ul pl j" "encode_job pl j = Inr bs" "version \<noteq> 1" "sj_id j \<notin> sj_id ` set earlier"
  shows "reads (rd_job ul pl version earlier) bs (reloaded_job j)"
proof -
  obtain os where os: "encode_options_v2 pl (sj_options j) = Inr os"
    and bs: "bs = put64 (sj_id j) @ os @ [char_of (priority_rank (sj_priority j))] @ [char_of (queue_state_code (sj_state j))] @
      put64 (sj_progress j) @ [char_of (sj_attempts j)]"
    using assms(2) by (auto simp: encode_job_def res_simps)
  have p: "reads (rd_bind rd_byte (\<lambda>n. rd_opt (code_priority n))) [char_of (priority_rank (sj_priority j))] (sj_priority j)"
    by (rule reads_bind_last [OF reads_byte]; cases "sj_priority j") (simp_all add: code_priority_def rd_opt_def reads_return)
  have s: "reads (rd_bind rd_byte (\<lambda>n. rd_opt (code_state n))) [char_of (queue_state_code (sj_state j))] (reloaded (sj_state j))"
    by (rule reads_bind_last [OF reads_byte]; cases "sj_state j") (simp_all add: code_state_def rd_opt_def reads_return)
  have fits: "0 < sj_id j" "sj_id j \<le> U64_MAX" "sj_attempts j \<le> 5" "sj_progress j \<le> op_max_download_bytes (sj_options j)"
    "sj_progress j \<le> U64_MAX" "options_fit ul pl (sj_options j)"
    using assms(1) by (auto simp: saved_job_fits_def options_fit_def)
  have e: "\<not> (sj_id j = 0 \<or> list_ex (\<lambda>k. sj_id k = sj_id j) earlier)"
    using assms(4) fits(1) by (simp add: list_ex_image)
  have tail: "reads (rd_bind rd_u64 (\<lambda>progress. rd_bind rd_byte (\<lambda>attempts.
      if 5 < attempts \<or> op_max_download_bytes (sj_options j) < progress then rd_fail
      else rd_return \<lparr>sj_id = sj_id j, sj_options = sj_options j, sj_priority = sj_priority j, sj_state = reloaded (sj_state j),
        sj_progress = progress, sj_attempts = attempts\<rparr>))) (put64 (sj_progress j) @ [char_of (sj_attempts j)]) (reloaded_job j)"
    by (rule reads_bind [OF reads_u64 reads_bind_last [OF reads_byte]]) (use fits in \<open>auto simp: reads_def rd_return_def reloaded_job_def\<close>)
  show ?thesis
    unfolding bs rd_job_def
    apply (rule reads_bind [OF reads_u64 [OF fits(2)]])
    apply (simp only: e if_False)
    apply (rule reads_bind [OF reads_options [OF fits(6) os assms(3)]])
    apply (rule reads_bind [OF p])
    apply (rule reads_bind [OF s])
    apply (rule tail)
    done
qed

lemma reads_config: "config_validate c = Inr () \<Longrightarrow> reads rd_config (encode_config c) c"
proof -
  assume ok: "config_validate c = Inr ()"
  then have b: "mc_max_active c \<le> 32" "mc_max_jobs c \<le> 1024" "mc_max_per_origin c \<le> 32" "rt_max_attempts (mc_retry c) \<le> 5"
    "rt_initial_delay_ms (mc_retry c) \<le> U64_MAX" "rt_max_delay_ms (mc_retry c) \<le> U64_MAX" "valid_limit (mc_global c)"
    by (auto simp: config_validate_def width_simps split: if_splits)
  have lim: "mc_global c \<noteq> Some 0" "\<And>n. mc_global c = Some n \<Longrightarrow> n \<le> U64_MAX"
    using b(7) by (auto simp: valid_limit_def MAX_BYTES_PER_SECOND_def width_simps)
  have c: "\<lparr>mc_max_active = mc_max_active c, mc_max_jobs = mc_max_jobs c, mc_max_per_origin = mc_max_per_origin c,
      mc_retry = \<lparr>rt_max_attempts = rt_max_attempts (mc_retry c), rt_initial_delay_ms = rt_initial_delay_ms (mc_retry c),
        rt_max_delay_ms = rt_max_delay_ms (mc_retry c)\<rparr>, mc_global = mc_global c\<rparr> = c"
    by (cases c; cases "mc_retry c") simp
  show ?thesis
    unfolding rd_config_def encode_config_def Let_def
    by (rule reads_bind [OF reads_bounded reads_bind [OF reads_bounded reads_bind [OF reads_bounded reads_bind [OF reads_bounded
          reads_bind [OF reads_u64 reads_bind [OF reads_u64 reads_bind_last [OF reads_option]]]]]]])
      (use b lim ok in \<open>simp_all add: reads_def width_simps c\<close>)
qed

lemma greatest_id_le: "greatest_id jobs \<le> n \<longleftrightarrow> (\<forall>j \<in> set jobs. sj_id j \<le> n)"
proof -
  have "fold max xs a \<le> n \<longleftrightarrow> a \<le> n \<and> (\<forall>x \<in> set xs. x \<le> n)" for xs a
    by (induction xs arbitrary: a) auto
  then show ?thesis by (simp add: greatest_id_def)
qed

lemma reads_version: "reads rd_version (QUEUE_MAGIC @ [CHR 0x03]) 3"
  unfolding rd_version_def
  by (rule reads_bind_last [OF reads_take]) (simp_all add: QUEUE_MAGIC_def reads_def rd_return_def)

lemma reads_queued:
  assumes "i \<le> U64_MAX" "i \<notin> set earlier" "i \<in> sj_id ` set jobs"
  shows "reads (rd_queued jobs earlier) (put64 i) i"
  unfolding rd_queued_def
  by (rule reads_bind_last [OF reads_u64 [OF assms(1)]]) (use assms in \<open>auto simp: list_ex_iff reads_return\<close>)

lemma reads_receipt:
  assumes "length (rc_key_hash r) = 32" "length (rc_payload_hash r) = 32" "0 < rc_job_id r" "rc_job_id r \<le> U64_MAX"
    "rc_key_hash r \<notin> rc_key_hash ` set earlier" "rc_job_id r \<notin> rc_job_id ` set earlier"
    "rc_removed r \<longleftrightarrow> rc_job_id r \<notin> sj_id ` set jobs"
  shows "reads (rd_receipt jobs earlier) (encode_receipt r) r"
  unfolding rd_receipt_def encode_receipt_def
proof (rule reads_bind [OF reads_take [OF assms(1)]], rule reads_bind [OF reads_take [OF assms(2)]],
    rule reads_bind [OF reads_u64 [OF assms(4)]], rule reads_bind_last [OF reads_bool])
  have "rc_key_hash e \<noteq> rc_key_hash r \<and> rc_job_id e \<noteq> rc_job_id r" if "e \<in> set earlier" for e
    using assms(5,6) that by (metis image_eqI)
  then have a: "\<not> (rc_job_id r = 0 \<or> list_ex (\<lambda>e. rc_key_hash e = rc_key_hash r \<or> rc_job_id e = rc_job_id r) earlier \<or>
      rc_removed r = list_ex (\<lambda>j. sj_id j = rc_job_id r) jobs)"
    using assms(3,7) by (auto simp: list_ex_image) (auto simp: list_ex_iff)
  show "reads (if rc_job_id r = 0 \<or> list_ex (\<lambda>e. rc_key_hash e = rc_key_hash r \<or> rc_job_id e = rc_job_id r) earlier \<or>
      rc_removed r = list_ex (\<lambda>j. sj_id j = rc_job_id r) jobs then rd_fail
    else rd_return \<lparr>rc_key_hash = rc_key_hash r, rc_payload_hash = rc_payload_hash r, rc_job_id = rc_job_id r, rc_removed = rc_removed r\<rparr>) [] r"
    using a by (simp add: reads_def rd_return_def)
qed

lemma reads_jobs:
  assumes "list_all (saved_job_fits ul pl) js" "distinct (map sj_id js)" "collect_res (map (encode_job pl) js) = Inr bs"
  shows "reads (rd_fold (length js) (rd_job ul pl 3) []) (concat bs) (map reloaded_job js)"
proof -
  define f where "f j = (case encode_job pl j of Inr b \<Rightarrow> b | Inl _ \<Rightarrow> [])" for j
  have m: "map (encode_job pl) js = map Inr bs" using assms(3) by (simp add: collect_res_eq_Inr)
  have f: "encode_job pl j = Inr (f j)" if "j \<in> set js" for j
  proof -
    have "encode_job pl j \<in> Inr ` set bs" using m that by (metis image_eqI list.set_map)
    then show ?thesis by (auto simp: f_def)
  qed
  have "map (encode_job pl) js = map (\<lambda>j. Inr (f j)) js" using f by simp
  then have "map Inr (map f js) = map (encode_job pl) js" by simp
  from trans [OF this m] have bs: "bs = map f js" by (metis inj_Inr inj_map_eq_map)
  show ?thesis
    unfolding bs
  proof (rule reads_fold [where earlier = "[]", simplified])
    fix as x cs assume js: "js = as @ x # cs"
    have "sj_id x \<notin> sj_id ` set (map reloaded_job as)" using assms(2) js by (force simp: image_iff)
    then show "reads (rd_job ul pl 3 (map reloaded_job as)) (f x) (reloaded_job x)"
      using assms(1) js f by (intro reads_job) auto
  qed
qed

lemma snapshot_reads:
  assumes fits: "snapshot_fits ul pl s" and enc: "encode_plain pl s = Inr bytes"
  shows "rd_snapshot ul pl bytes = Inr (reloaded_snapshot s, [])"
proof -
  have con: "config_validate (sn_config s) = Inr ()" "length (sn_jobs s) \<le> mc_max_jobs (sn_config s)" "distinct (map sj_id (sn_jobs s))"
    "\<And>j. j \<in> set (sn_jobs s) \<Longrightarrow> sj_id j \<le> sn_last_id s" "distinct (sn_queue s)" "set (sn_queue s) \<subseteq> sj_id ` set (sn_jobs s)"
    "length (sn_receipts s) \<le> MAX_RECEIPTS" "distinct (map rc_key_hash (sn_receipts s))" "distinct (map rc_job_id (sn_receipts s))"
    "\<And>r. r \<in> set (sn_receipts s) \<Longrightarrow> 0 < rc_job_id r \<and> rc_job_id r \<le> sn_last_id s \<and> (rc_removed r \<longleftrightarrow> rc_job_id r \<notin> sj_id ` set (sn_jobs s))"
    "sn_last_id s \<le> U64_MAX" "list_all (saved_job_fits ul pl) (sn_jobs s)"
    "\<And>r. r \<in> set (sn_receipts s) \<Longrightarrow> length (rc_key_hash r) = 32 \<and> length (rc_payload_hash r) = 32"
    using fits by (auto simp: snapshot_fits_def snapshot_consistent_def Let_def list_all_iff)
  obtain js where js: "collect_res (map (encode_job pl) (sn_jobs s)) = Inr js"
    and bytes: "bytes = (QUEUE_MAGIC @ [CHR 0x03]) @ encode_config (sn_config s) @ put64 (sn_last_id s) @ put64 (length (sn_jobs s)) @ concat js @
      put64 (length (sn_queue s)) @ concat (map put64 (sn_queue s)) @ put64 (length (sn_receipts s)) @ concat (map encode_receipt (sn_receipts s))"
    using enc by (auto simp: encode_plain_def res_simps split: if_splits)
  let ?J = "map reloaded_job (sn_jobs s)"
  have ids: "sj_id ` set ?J = sj_id ` set (sn_jobs s)" by (simp add: image_image)
  have small: "mc_max_jobs (sn_config s) \<le> U64_MAX" "length (sn_jobs s) \<le> U64_MAX" "MAX_RECEIPTS \<le> U64_MAX"
    using con(1,2) by (auto simp: config_validate_def MAX_RECEIPTS_def width_simps split: if_splits)
  have queue_len: "length (sn_queue s) \<le> length (sn_jobs s)"
    using con(3,5,6) card_mono [of "sj_id ` set (sn_jobs s)" "set (sn_queue s)"]
    by (metis List.finite_set distinct_card finite_imageI length_map list.set_map)
  have q: "reads (rd_fold (length (sn_queue s)) (rd_queued ?J) []) (concat (map put64 (sn_queue s))) (sn_queue s)"
  proof (rule reads_fold [where earlier = "[]" and g = id, simplified])
    fix as x cs assume e: "sn_queue s = as @ x # cs"
    have "x \<in> sj_id ` set (sn_jobs s)" using con(6) e by auto
    then show "reads (rd_queued ?J as) (put64 x) x"
      using con(4,5,11) e unfolding ids [symmetric] by (intro reads_queued) (auto, meson le_trans)
  qed
  have r: "reads (rd_fold (length (sn_receipts s)) (rd_receipt ?J) []) (concat (map encode_receipt (sn_receipts s))) (sn_receipts s)"
  proof (rule reads_fold [where earlier = "[]" and g = id, simplified])
    fix as x cs assume e: "sn_receipts s = as @ x # cs"
    then have x: "x \<in> set (sn_receipts s)" by simp
    show "reads (rd_receipt ?J as) (encode_receipt x) x"
      using con(10) [OF x] con(13) [OF x] con(8,9,11) e unfolding ids [symmetric] by (intro reads_receipt) auto
  qed
  have g: "greatest_id ?J \<le> sn_last_id s" using con(4) by (auto simp: greatest_id_le)
  have l: "reads (rd_bind rd_u64 (\<lambda>n. rd_return (Some n))) (put64 (sn_last_id s)) (Some (sn_last_id s))"
    by (rule reads_bind_last [OF reads_u64 [OF con(11)] reads_return])
  have rr: "reads (rd_bind (rd_bounded MAX_RECEIPTS) (\<lambda>n. rd_fold n (rd_receipt ?J) []))
      (put64 (length (sn_receipts s)) @ concat (map encode_receipt (sn_receipts s))) (sn_receipts s)"
    by (rule reads_bind [OF reads_bounded [OF con(7) small(3)]], rule r)
  have late: "\<not> list_ex (\<lambda>r. sn_last_id s < rc_job_id r) (sn_receipts s)"
    using con(10) by (auto simp: list_ex_iff not_less)
  note steps = rd_bind_reads [OF reads_version] rd_bind_reads [OF reads_config [OF con(1)]] rd_bind_reads [OF l]
    rd_bind_reads [OF reads_bounded [OF con(2) small(1)]] rd_bind_reads [OF reads_jobs [OF con(12,3) js]]
    rd_bind_reads [OF reads_bounded [OF queue_len small(2)]] rd_bind_reads [OF q] rd_bind_reads_last [OF rr]
  have three: "(3 :: nat) \<noteq> 1" "(3 :: nat) = 3 \<longleftrightarrow> True" by simp_all
  show ?thesis
    unfolding bytes rd_snapshot_def steps length_map if_P [OF three(1)] three(2) if_True
    using g late by (simp add: Let_def reloaded_snapshot_def not_less [symmetric])
qed

section \<open>Consistency of whatever decodes\<close>

lemma rd_fold_inv:
  assumes "rd_fold n r earlier bs = Inr (xs, rest)" "P earlier" "\<And>e x bs rest. P e \<Longrightarrow> r e bs = Inr (x, rest) \<Longrightarrow> P (e @ [x])"
  shows "P xs \<and> length xs = n + length earlier"
  using assms(1,2)
proof (induction n arbitrary: earlier bs)
  case 0
  then show ?case by (simp add: rd_return_def)
next
  case (Suc n)
  then obtain x bs' where x: "r earlier bs = Inr (x, bs')" "rd_fold n r (earlier @ [x]) bs' = Inr (xs, rest)"
    by (auto simp: rd_bind_def res_simps)
  show ?case using Suc.IH [OF x(2) assms(3) [OF Suc.prems(2) x(1)]] by simp
qed

lemma rd_simps:
  "rd_bind r f bs = Inr y \<longleftrightarrow> (\<exists>x rest. r bs = Inr (x, rest) \<and> f x rest = Inr y)"
  "rd_return x bs = Inr y \<longleftrightarrow> y = (x, bs)"
  "rd_fail bs = Inr y \<longleftrightarrow> False"
  by (auto simp: rd_bind_def rd_return_def rd_fail_def res_simps)

lemma rd_jobD:
  assumes "rd_job ul pl version earlier bs = Inr (j, rest)"
  shows "0 < sj_id j" "sj_id j \<notin> sj_id ` set earlier" "sj_attempts j \<le> 5" "sj_progress j \<le> op_max_download_bytes (sj_options j)"
proof -
  have "0 < sj_id j \<and> sj_id j \<notin> sj_id ` set earlier \<and> sj_attempts j \<le> 5 \<and> sj_progress j \<le> op_max_download_bytes (sj_options j)"
    using assms unfolding rd_job_def rd_simps list_ex_image
    by (elim exE conjE) (simp add: rd_simps split: if_splits, elim exE conjE, simp add: rd_simps split: if_splits)
  then show "0 < sj_id j" "sj_id j \<notin> sj_id ` set earlier" "sj_attempts j \<le> 5" "sj_progress j \<le> op_max_download_bytes (sj_options j)"
    by simp_all
qed

lemma rd_queuedD: "rd_queued jobs earlier bs = Inr (i, rest) \<Longrightarrow> i \<notin> set earlier \<and> i \<in> sj_id ` set jobs"
  by (auto simp: rd_queued_def rd_simps list_ex_image split: if_splits)

lemma rd_receiptD:
  assumes "rd_receipt jobs earlier bs = Inr (r, rest)"
  shows "0 < rc_job_id r \<and> rc_key_hash r \<notin> rc_key_hash ` set earlier \<and> rc_job_id r \<notin> rc_job_id ` set earlier \<and>
    (rc_removed r \<longleftrightarrow> rc_job_id r \<notin> sj_id ` set jobs)"
proof -
  have "0 < rc_job_id r \<and> \<not> list_ex (\<lambda>e. rc_key_hash e = rc_key_hash r \<or> rc_job_id e = rc_job_id r) earlier \<and>
      rc_removed r \<noteq> list_ex (\<lambda>j. sj_id j = rc_job_id r) jobs"
    using assms by (auto simp: rd_receipt_def rd_simps split: if_splits)
  then show ?thesis by (auto simp: list_ex_image list_ex_iff)
qed

lemma rd_configD: "rd_config bs = Inr (c, rest) \<Longrightarrow> config_validate c = Inr ()"
  by (auto simp: rd_config_def rd_simps Let_def res_simps)

lemma decoded_consistent:
  assumes "rd_snapshot ul pl bytes = Inr (s, rest)"
  shows "snapshot_consistent s"
proof -
  obtain version c n b1 b2 b3 b4 b5 jobs m b6 queue receipts sl where
    d: "rd_config b1 = Inr (c, b2)" "rd_bounded (mc_max_jobs c) b3 = Inr (n, b4)" "rd_fold n (rd_job ul pl version) [] b4 = Inr (jobs, b5)"
      "rd_fold m (rd_queued jobs) [] b6 = Inr (queue, sl)"
    and r: "receipts = [] \<or> (\<exists>k b7 b8 b9. rd_bounded MAX_RECEIPTS b7 = Inr (k, b8) \<and> rd_fold k (rd_receipt jobs) [] b8 = Inr (receipts, b9))"
    and s: "sn_config s = c" "sn_jobs s = jobs" "sn_queue s = queue" "sn_receipts s = receipts"
      "greatest_id jobs \<le> sn_last_id s" "\<not> list_ex (\<lambda>r. sn_last_id s < rc_job_id r) receipts"
    using assms unfolding rd_snapshot_def rd_simps
    by (elim exE conjE) (auto simp: rd_simps Let_def not_less split: if_splits, blast)
  have J: "(distinct (map sj_id jobs) \<and> 0 \<notin> sj_id ` set jobs \<and>
      list_all (\<lambda>j. sj_attempts j \<le> 5 \<and> sj_progress j \<le> op_max_download_bytes (sj_options j)) jobs) \<and> length jobs = n"
    by (rule rd_fold_inv [OF d(3), simplified]) (auto dest: rd_jobD)
  have Q: "(distinct queue \<and> set queue \<subseteq> sj_id ` set jobs) \<and> length queue = m"
    by (rule rd_fold_inv [OF d(4), simplified]) (auto dest: rd_queuedD)
  have R: "distinct (map rc_key_hash receipts) \<and> distinct (map rc_job_id receipts) \<and>
      list_all (\<lambda>r. 0 < rc_job_id r \<and> (rc_removed r \<longleftrightarrow> rc_job_id r \<notin> sj_id ` set jobs)) receipts \<and> length receipts \<le> MAX_RECEIPTS"
    using r
  proof (elim disjE exE conjE)
    fix k b7 b8 b9 assume k: "rd_bounded MAX_RECEIPTS b7 = Inr (k, b8)" "rd_fold k (rd_receipt jobs) [] b8 = Inr (receipts, b9)"
    have "(distinct (map rc_key_hash receipts) \<and> distinct (map rc_job_id receipts) \<and>
      list_all (\<lambda>r. 0 < rc_job_id r \<and> (rc_removed r \<longleftrightarrow> rc_job_id r \<notin> sj_id ` set jobs)) receipts) \<and> length receipts = k"
      by (rule rd_fold_inv [OF k(2), simplified]) (auto dest: rd_receiptD)
    moreover have "k \<le> MAX_RECEIPTS" using k(1) by (auto simp: rd_bounded_def rd_simps split: if_splits)
    ultimately show ?thesis by simp
  qed simp
  have "n \<le> mc_max_jobs c" using d(2) by (auto simp: rd_bounded_def rd_simps split: if_splits)
  then show ?thesis
    using J Q R rd_configD [OF d(1)] s(5,6) unfolding snapshot_consistent_def s Let_def
    by (auto simp: greatest_id_le list_all_iff list_ex_iff not_less)
qed

section \<open>Properties\<close>

text \<open>
  C36. The stored queue comes back as it was saved. A snapshot within the manager's limits, whose
  folders are named by their own text and whose request policies are as their constructor makes them,
  that encodes at all decodes to itself: settings, order, receipts, identifiers and every option
  survive, and only the cause of a failure is forgotten.
\<close>

theorem queue_round_trip:
  assumes "snapshot_fits ul pl s" "queue_encode sha pl s = Inr bytes" "\<And>x. length (sha x) = 32"
  shows "queue_decode sha ul pl bytes = Inr (reloaded_snapshot s)"
proof -
  obtain plain where p: "encode_plain pl s = Inr plain" "length plain \<le> MAX_PLAIN" "bytes = plain @ sha plain"
    using assms(2) by (auto simp: queue_encode_def res_simps split: if_splits)
  have "9 \<le> length plain"
    using p(1) by (auto simp: encode_plain_def res_simps QUEUE_MAGIC_def split: if_splits)
  then have "\<not> (length bytes < 41 \<or> MAX_PLAIN + 32 < length bytes)" using p assms(3) by simp
  then show ?thesis using p snapshot_reads [OF assms(1) p(1)] assms(3) by (simp add: queue_decode_def)
qed

definition sample_engine_urls :: "bool url_lib" where
  "sample_engine_urls = \<lparr>ul_parse = (\<lambda>raw. Some (raw = [72])), ul_as_str = (\<lambda>u. if u then [72] else [77]),
     ul_join = (\<lambda>_ l. Some (l = ''H'')), ul_scheme = (\<lambda>_. ''https''), ul_host = (\<lambda>u. Some (if u then ''h'' else ''m'')), ul_username = (\<lambda>_. []),
     ul_password = (\<lambda>_. None), ul_fragment = (\<lambda>_. None), ul_query = (\<lambda>_. None), ul_path = (\<lambda>_. ''/''),
     ul_origin = (\<lambda>u. (''https'', if u then ''h'' else ''m'', 443)), ul_serialize = (\<lambda>x. fst (snd x)), ul_header_ok = (\<lambda>_. True)\<rparr>"

text \<open>Folders are their own text.\<close>

definition sample_paths :: "nat list path_lib" where
  "sample_paths = \<lparr>pl_windows = True, pl_absolute = (\<lambda>p. p \<noteq> []), pl_dotted = (\<lambda>p. 46 \<in> set p), pl_lexical = id, pl_os_len = length,
     pl_to_str = Some, pl_of_str = id, pl_file_name = Some, pl_parent = (\<lambda>_. Some [47]), pl_join = (\<lambda>_ p. p), pl_lowercase = id\<rparr>"

definition sample_options :: "nat list options" where
  "sample_options = \<lparr>op_url = [72], op_job_dir = [100], op_output_name = [111], op_expected_sha256 = Some (replicate 32 (CHR ''e'')),
     op_allow_http = False, op_checkpoint_bytes = 4, op_max_download_bytes = 9, op_bytes_per_second = Some 7, op_parallel_connections = 2,
     op_request_policy = \<lparr>rq_authorization = Some ''k'', rq_cookie = None, rq_redirect_origins = [[109]]\<rparr>, op_refresh_from = None\<rparr>"

definition sample_manager_config :: manager_config where
  "sample_manager_config = \<lparr>mc_max_active = 2, mc_max_jobs = 3, mc_max_per_origin = 1,
     mc_retry = \<lparr>rt_max_attempts = 2, rt_initial_delay_ms = 100, rt_max_delay_ms = 400\<rparr>, mc_global = Some 8\<rparr>"

definition sample_snapshot :: "nat list snapshot" where
  "sample_snapshot = \<lparr>sn_last_id = 5,
     sn_receipts = [\<lparr>rc_key_hash = replicate 32 (CHR ''k''), rc_payload_hash = replicate 32 (CHR ''p''), rc_job_id = 3, rc_removed = False\<rparr>],
     sn_config = sample_manager_config,
     sn_jobs = [\<lparr>sj_id = 3, sj_options = sample_options, sj_priority = High, sj_state = Failed ENetwork, sj_progress = 4, sj_attempts = 2\<rparr>],
     sn_queue = [3]\<rparr>"

definition sample_sha :: "byte list \<Rightarrow> digest" where
  "sample_sha x = replicate 32 (CHR ''s'')"

lemmas sample_queue_defs = sample_engine_urls_def sample_paths_def sample_options_def sample_manager_config_def sample_snapshot_def

lemma sample_policy: "policy_new sample_engine_urls (Some ''k'') None [[109]] = Inr (op_request_policy sample_options)"
  by (simp add: policy_new_def policy_validate_def secret_ok_def bare_origin_def engine_url_def utf8_len_def is_control_def ascii_control_def
      text_of_def sample_engine_urls_def sample_options_def)

lemma sample_config_valid: "config_validate sample_manager_config = Inr ()"
  by (simp add: config_validate_def sample_manager_config_def valid_limit_def MAX_BYTES_PER_SECOND_def)

lemma sample_options_fit: "options_fit sample_engine_urls sample_paths sample_options"
proof -
  have "policy_new sample_engine_urls (rq_authorization (op_request_policy sample_options)) (rq_cookie (op_request_policy sample_options))
      (rq_redirect_origins (op_request_policy sample_options)) = Inr (op_request_policy sample_options)"
    using sample_policy by (simp add: sample_options_def)
  then show ?thesis
    unfolding options_fit_def
    by (auto simp: sample_options_def sample_paths_def utf8_len_def scalar_text_def scalar_value_def valid_limit_def MAX_BYTES_PER_SECOND_def width_simps)
qed

lemma sample_snapshot_fits: "snapshot_fits sample_engine_urls sample_paths sample_snapshot"
  using sample_config_valid sample_options_fit
  by (simp add: snapshot_fits_def snapshot_consistent_def saved_job_fits_def sample_snapshot_def MAX_RECEIPTS_def width_simps)
    (simp add: sample_manager_config_def sample_options_def)

lemma sample_snapshot_encodes: "\<exists>bytes. queue_encode sample_sha sample_paths sample_snapshot = Inr bytes"
  by (simp add: queue_encode_def encode_plain_def encode_job_def encode_options_v2_def encode_config_def encode_receipt_def Let_def
      put_string_def put_bytes_def put_option_def put_bool_def put_digest_def put64_def MAX_RECEIPTS_def MAX_PLAIN_def QUEUE_MAGIC_def
      utf8_len_def sample_snapshot_def sample_options_def sample_paths_def sample_manager_config_def)

theorem queue_round_trip_witness:
  "\<exists>bytes. queue_encode sample_sha sample_paths sample_snapshot = Inr bytes \<and>
     queue_decode sample_sha sample_engine_urls sample_paths bytes = Inr (reloaded_snapshot sample_snapshot)"
proof -
  obtain bytes where b: "queue_encode sample_sha sample_paths sample_snapshot = Inr bytes" using sample_snapshot_encodes by blast
  then show ?thesis using queue_round_trip [OF sample_snapshot_fits b] by (simp add: sample_sha_def)
qed

text \<open>
  No stored bytes, of any of the three versions and by whomever they were written, load as an
  inconsistent queue: what decodes has valid limits, no more jobs than they allow, distinct
  identifiers that were all given out, a queue and receipts that refer to them, one receipt per key
  and per job, and a receipt marked as removed exactly when its job is gone.
\<close>

theorem queue_loads_consistent:
  assumes "queue_load sha ul pl sec row = Inr (Some s)"
  shows "snapshot_consistent s"
  using assms decoded_consistent
  by (fastforce simp: queue_load_def queue_decode_def Let_def res_simps split: option.splits if_splits)

text \<open>An empty queue of the first version.\<close>

definition sample_row :: "byte list" where
  "sample_row = QUEUE_MAGIC @ [CHR 0x01] @ encode_config sample_manager_config @ put64 0 @ put64 0 @ sample_sha []"

definition sample_secrets :: secrets where
  "sample_secrets = \<lparr>sec_protect = Some, sec_unprotect = Some\<rparr>"

lemma sample_row_loads:
  "queue_load sample_sha sample_engine_urls sample_paths sample_secrets (Some sample_row) =
     Inr (Some \<lparr>sn_last_id = 0, sn_receipts = [], sn_config = sample_manager_config, sn_jobs = [], sn_queue = []\<rparr>)"
proof -
  have z: "reads (rd_bounded n) (put64 0) 0" if "n \<le> U64_MAX" for n by (rule reads_bounded) (use that in simp_all)
  have v: "reads rd_version (QUEUE_MAGIC @ [CHR 0x01]) 1"
    unfolding rd_version_def by (rule reads_bind_last [OF reads_take]) (simp_all add: QUEUE_MAGIC_def reads_def rd_return_def)
  have n: "rd_bind (rd_return x) f bs = f x bs" for x :: 'a and f :: "'a \<Rightarrow> 'b reader" and bs
    by (simp add: rd_bind_def rd_return_def)
  let ?p = "(QUEUE_MAGIC @ [CHR 0x01]) @ encode_config sample_manager_config @ put64 0 @ put64 0"
  have m: "mc_max_jobs sample_manager_config \<le> U64_MAX" by (simp add: sample_manager_config_def width_simps)
  have "rd_snapshot sample_engine_urls sample_paths ?p =
      Inr (\<lparr>sn_last_id = 0, sn_receipts = [], sn_config = sample_manager_config, sn_jobs = [], sn_queue = []\<rparr>, [])"
    unfolding rd_snapshot_def rd_bind_reads [OF v] rd_bind_reads [OF reads_config [OF sample_config_valid]]
    by (simp add: n rd_bind_reads [OF z [OF m]] rd_bind_reads_last [OF z] greatest_id_def)
  moreover have "length ?p = 81" by (simp add: QUEUE_MAGIC_def encode_config_def put64_def put_option_def)
  moreover have "sample_row = ?p @ sample_sha []" by (simp add: sample_row_def)
  ultimately obtain p where p: "rd_snapshot sample_engine_urls sample_paths p =
      Inr (\<lparr>sn_last_id = 0, sn_receipts = [], sn_config = sample_manager_config, sn_jobs = [], sn_queue = []\<rparr>, [])"
    "length p = 81" "sample_row = p @ sample_sha []" by blast
  have "queue_decode sample_sha sample_engine_urls sample_paths (p @ sample_sha []) =
      Inr \<lparr>sn_last_id = 0, sn_receipts = [], sn_config = sample_manager_config, sn_jobs = [], sn_queue = []\<rparr>"
    using p(1,2) by (simp add: queue_decode_def sample_sha_def MAX_PLAIN_def)
  moreover have "length sample_row = 113" unfolding p(3) using p(2) by (simp add: sample_sha_def)
  ultimately show ?thesis using p(3) by (simp add: queue_load_def sample_secrets_def MAX_BLOB_def)
qed

theorem queue_loads_consistent_witness:
  "\<exists>s. queue_load sample_sha sample_engine_urls sample_paths sample_secrets (Some sample_row) = Inr (Some s) \<and> snapshot_consistent s"
  using queue_loads_consistent [OF sample_row_loads] sample_row_loads by blast

end
