(* ===== verification/Manager_Invariant.thy ===== *)
theory Manager_Invariant
  imports Manager Queue_Props
begin

text \<open>
  What the manager keeps through every command, worker result, save and turn of its loop: its limits and
  its queue, one worker per active job, a receipt on disk behind every acknowledgement of a request
  with a key, and an end once its handle is gone.
\<close>

section \<open>Jobs by identifier\<close>

named_theorems actor_ops \<open>the actor's small operations\<close>

declare on_job_def [actor_ops] ac_reply_def [actor_ops] ac_acknowledge_def [actor_ops] publish_jobs_def [actor_ops]

lemma map_fst_map_entry [simp]: "map fst (AList.map_entry i f xs) = map fst xs"
  by (induction xs) auto

lemma map_entry_none: "map_of xs i = None \<Longrightarrow> AList.map_entry i f xs = xs"
  by (induction xs) (auto split: if_splits)

lemma length_map_entry [simp]: "length (AList.map_entry i f xs) = length xs"
  by (induction xs) auto

lemma set_map_entry:
  assumes "distinct (map fst xs)"
  shows "(k, y) \<in> set (AList.map_entry i f xs) \<longleftrightarrow> (if k = i then \<exists>x. (k, x) \<in> set xs \<and> y = f x else (k, y) \<in> set xs)"
  using assms by (induction xs) (auto simp: rev_image_eqI)

definition counts :: "origin \<Rightarrow> 'p mjob \<Rightarrow> nat" where
  "counts origin j = (if mj_origin j = origin \<and> active_state (mj_state j) then 1 else 0)"

lemma active_count_simps [simp]:
  "active_count [] origin = 0" "active_count (x # jobs) origin = counts origin (snd x) + active_count jobs origin"
  by (auto simp: active_count_def counts_def split_def)

lemma active_count_entry:
  "map_of jobs i = Some j \<Longrightarrow>
     active_count (AList.map_entry i f jobs) origin + counts origin j = active_count jobs origin + counts origin (f j)"
  by (induction jobs) (auto split: if_splits)

lemma active_count_mono:
  "(\<And>i j. (i, j) \<in> set jobs \<Longrightarrow> mj_origin (g j) = mj_origin j \<and> (active_state (mj_state (g j)) \<longrightarrow> active_state (mj_state j))) \<Longrightarrow>
     active_count (map (\<lambda>(i, j). (i, g j)) jobs) origin \<le> active_count jobs origin"
proof (induction jobs)
  case (Cons x jobs)
  obtain i j where x: "x = (i, j)" by (cases x)
  have "counts origin (g j) \<le> counts origin j" using Cons.prems [of i j] by (auto simp: x counts_def)
  moreover have "active_count (map (\<lambda>(i, j). (i, g j)) jobs) origin \<le> active_count jobs origin"
    using Cons.prems by (intro Cons.IH) auto
  ultimately show ?case by (simp add: x)
qed simp

section \<open>The invariant\<close>

definition mjob_ok :: "manager_config \<Rightarrow> u64 list \<Rightarrow> bool \<Rightarrow> u64 \<Rightarrow> 'p mjob \<Rightarrow> bool" where
  "mjob_ok c queue closing i j \<longleftrightarrow>
     (let most = rt_max_attempts (mc_retry c) in
      (mj_state j = Queued \<longrightarrow> i \<in> set queue \<and> mj_attempts j < most \<and> \<not> closing) \<and>
      (mj_state j = RetryWaiting \<longrightarrow> i \<notin> set queue \<and> mj_attempts j < most \<and> mj_retry_at j \<noteq> None \<and> \<not> closing) \<and>
      (active_state (mj_state j) \<longrightarrow> i \<notin> set queue \<and> mj_attempts j \<le> most) \<and>
      (mj_state j = Running \<longrightarrow> mj_cancel j = Some False \<and> \<not> closing) \<and>
      (mj_state j = Pausing \<longrightarrow> mj_cancel j = Some True) \<and> mj_attempts j \<le> 5)"

definition ledger_ok :: "queue_receipt list \<Rightarrow> u64 list \<Rightarrow> u64 \<Rightarrow> bool" where
  "ledger_ok rs ids newest \<longleftrightarrow> length rs \<le> MAX_RECEIPTS \<and> distinct (map rc_key_hash rs) \<and> distinct (map rc_job_id rs) \<and>
     (\<forall>r \<in> set rs. 0 < rc_job_id r \<and> rc_job_id r \<le> newest \<and> (rc_removed r \<longleftrightarrow> rc_job_id r \<notin> set ids))"

definition state_ok :: "manager_config \<Rightarrow> 'p jobs \<Rightarrow> u64 list \<Rightarrow> bool \<Rightarrow> u64 list \<Rightarrow> u64 \<Rightarrow> queue_receipt list \<Rightarrow> bool" where
  "state_ok c J q closing ws newest rs \<longleftrightarrow>
     config_validate c = Inr () \<and> newest \<le> U64_MAX \<and> distinct (map fst J) \<and> (\<forall>i \<in> set (map fst J). 0 < i \<and> i \<le> newest) \<and>
     distinct (map (mj_key \<circ> snd) J) \<and> length J \<le> mc_max_jobs c \<and>
     (\<forall>(i, j) \<in> set J. mjob_ok c q closing i j) \<and> distinct ws \<and>
     (\<forall>i. i \<in> set ws \<longleftrightarrow> (\<exists>j. (i, j) \<in> set J \<and> active_state (mj_state j))) \<and> length ws \<le> mc_max_active c \<and>
     (\<forall>origin. active_count J origin \<le> mc_max_per_origin c) \<and>
     distinct q \<and> set q \<subseteq> set (map fst J) \<and> ledger_ok rs (map fst J) newest"

definition manager_ok :: "'p actor \<Rightarrow> bool" where
  "manager_ok a \<longleftrightarrow> state_ok (ac_config a) (ac_jobs a) (ac_queue a) (ac_closing a) (ac_workers a) (ac_last_id a) (ac_receipts a)"

lemma state_okD:
  assumes "state_ok c J q closing ws newest rs"
  shows "config_validate c = Inr ()" "newest \<le> U64_MAX" "distinct (map fst J)" "\<forall>i \<in> set (map fst J). 0 < i \<and> i \<le> newest"
    "distinct (map (mj_key \<circ> snd) J)" "length J \<le> mc_max_jobs c" "\<forall>(i, j) \<in> set J. mjob_ok c q closing i j"
    "distinct ws" "\<forall>i. i \<in> set ws \<longleftrightarrow> (\<exists>j. (i, j) \<in> set J \<and> active_state (mj_state j))" "length ws \<le> mc_max_active c"
    "\<forall>origin. active_count J origin \<le> mc_max_per_origin c" "distinct q" "set q \<subseteq> set (map fst J)" "ledger_ok rs (map fst J) newest"
  using assms unfolding state_ok_def by blast+

lemma distinct_key_entry:
  "map_of jobs i = Some j \<Longrightarrow> mj_key (f j) = mj_key j \<Longrightarrow>
     map (mj_key \<circ> snd) (AList.map_entry i f jobs) = map (mj_key \<circ> snd) jobs"
  by (induction jobs) (auto split: if_splits)

text \<open>One job changes, and with it the queue and the workers.\<close>

lemma one_job_ok:
  assumes ok: "state_ok c J q closing ws newest rs" and j: "map_of J i = Some j" and key: "mj_key (f j) = mj_key j" "mj_origin (f j) = mj_origin j"
    and q': "distinct q'" "set q' \<subseteq> set (map fst J)" "\<And>k. k \<noteq> i \<Longrightarrow> k \<in> set q' \<longleftrightarrow> k \<in> set q"
    and new: "mjob_ok c q' closing i (f j)"
    and w: "distinct w" "set w = (if active_state (mj_state (f j)) then insert i (set ws) else set ws - {i})" "length w \<le> mc_max_active c"
    and free: "active_state (mj_state (f j)) \<Longrightarrow> active_state (mj_state j) \<or> active_count J (mj_origin j) < mc_max_per_origin c"
  shows "state_ok c (AList.map_entry i f J) q' closing w newest rs"
proof -
  let ?J = "AList.map_entry i f J"
  note D = state_okD [OF ok]
  have ij: "(i, j) \<in> set J" using j by (rule map_of_SomeD)
  have uniq: "(i, x) \<in> set J \<Longrightarrow> x = j" for x using D(3) ij by (metis j map_of_is_SomeI option.inject)
  note ent = set_map_entry [OF D(3)]
  have each: "\<forall>(k, x) \<in> set ?J. mjob_ok c q' closing k x"
  proof (clarify)
    fix k x assume that: "(k, x) \<in> set ?J"
    show "mjob_ok c q' closing k x"
    proof (cases "k = i")
      case True
      then show ?thesis using that uniq new by (auto simp: ent)
    next
      case False
      then have "(k, x) \<in> set J" using that by (simp add: ent)
      then have "mjob_ok c q closing k x" using D(7) by auto
      then show ?thesis using q'(3) [OF False] by (simp add: mjob_ok_def Let_def)
    qed
  qed
  have cnt: "\<forall>origin. active_count ?J origin \<le> mc_max_per_origin c"
  proof
    fix origin
    have "active_count J origin \<le> mc_max_per_origin c" using D(11) by blast
    then show "active_count ?J origin \<le> mc_max_per_origin c"
      using active_count_entry [OF j, of f origin] free key(2) by (auto simp: counts_def split: if_splits)
  qed
  have wk: "\<forall>k. k \<in> set w \<longleftrightarrow> (\<exists>x. (k, x) \<in> set ?J \<and> active_state (mj_state x))"
  proof
    fix k
    show "k \<in> set w \<longleftrightarrow> (\<exists>x. (k, x) \<in> set ?J \<and> active_state (mj_state x))"
    proof (cases "k = i")
      case True
      have "(i, x) \<in> set ?J \<longleftrightarrow> x = f j" for x unfolding ent if_P [OF refl] using ij uniq by blast
      then show ?thesis using True w(2) by simp
    next
      case False
      then have "(k, x) \<in> set ?J \<longleftrightarrow> (k, x) \<in> set J" for x unfolding ent by simp
      then show ?thesis using w(2) D(9) False by simp
    qed
  qed
  show ?thesis
    unfolding state_ok_def map_fst_map_entry length_map_entry distinct_key_entry [where f = f, OF j key(1)]
    by (intro conjI D(1-6,14) each cnt wk q'(1,2) w(1,3))
qed

lemma stop_job_simps [simp]:
  "mj_key (stop_job j) = mj_key j" "mj_origin (stop_job j) = mj_origin j" "active_state (mj_state (stop_job j)) = active_state (mj_state j)"
  "mj_attempts (stop_job j) = mj_attempts j"
  by (auto simp: stop_job_def active_state_def split: State.splits)

lemma stop_job_ok: "mjob_ok c q closing i j \<Longrightarrow> mjob_ok c q True i (stop_job j)"
  by (cases "mj_state j") (auto simp: stop_job_def mjob_ok_def active_state_def Let_def)

text \<open>Every job changes in the same way and none starts or ends.\<close>

lemma all_jobs_ok:
  assumes ok: "state_ok c J q closing ws newest rs"
    and g: "\<And>j. mj_key (g j) = mj_key j \<and> mj_origin (g j) = mj_origin j \<and> active_state (mj_state (g j)) = active_state (mj_state j)"
    and q': "distinct q'" "set q' \<subseteq> set (map fst J)"
    and new: "\<And>i j. (i, j) \<in> set J \<Longrightarrow> mjob_ok c q' closing' i (g j)"
  shows "state_ok c (map (\<lambda>(i, j). (i, g j)) J) q' closing' ws newest rs"
proof -
  let ?J = "map (\<lambda>(i, j). (i, g j)) J"
  note D = state_okD [OF ok]
  have ids: "map fst ?J = map fst J" "map (mj_key \<circ> snd) ?J = map (mj_key \<circ> snd) J" "length ?J = length J"
    using g by (auto simp: comp_def split_def)
  have cnt: "\<forall>origin. active_count ?J origin \<le> mc_max_per_origin c"
  proof
    fix origin
    have "active_count ?J origin \<le> active_count J origin" by (rule active_count_mono) (simp add: g)
    also have "\<dots> \<le> mc_max_per_origin c" using D(11) by blast
    finally show "active_count ?J origin \<le> mc_max_per_origin c" .
  qed
  have w: "\<forall>i. i \<in> set ws \<longleftrightarrow> (\<exists>j. (i, j) \<in> set ?J \<and> active_state (mj_state j))"
    using g D(9) by auto
  have each: "\<forall>(i, j) \<in> set ?J. mjob_ok c q' closing' i j" using new by auto
  show ?thesis
    unfolding state_ok_def ids by (intro conjI D(1-6,8,10,14) each cnt w q')
qed

lemma stop_all_ok:
  assumes "state_ok c J q closing ws newest rs"
  shows "state_ok c (map (\<lambda>(i, j). (i, stop_job j)) J) q True ws newest rs"
proof (rule all_jobs_ok [OF assms])
  show "distinct q" "set q \<subseteq> set (map fst J)" by (rule state_okD [OF assms])+
  show "mjob_ok c q True i (stop_job j)" if "(i, j) \<in> set J" for i j
    using state_okD(7) [OF assms] that by (blast intro: stop_job_ok)
qed simp

lemma map_of_pair: "state_ok c J q closing ws newest rs \<Longrightarrow> map_of J i = Some j \<longleftrightarrow> (i, j) \<in> set J"
  by (simp add: state_okD(3) map_of_eq_Some_iff)

lemma job_okD: "state_ok c J q closing ws newest rs \<Longrightarrow> map_of J i = Some j \<Longrightarrow> mjob_ok c q closing i j"
  using state_okD(7) by (fastforce dest: map_of_SomeD)

lemma active_worker: "state_ok c J q closing ws newest rs \<Longrightarrow> map_of J i = Some j \<Longrightarrow> i \<in> set ws \<longleftrightarrow> active_state (mj_state j)"
  using state_okD(3,9) [of c J q closing ws newest rs] by (auto simp: map_of_eq_Some_iff dest: eq_key_imp_eq_value)

lemma known_id: "map_of J i = Some j \<Longrightarrow> i \<in> set (map fst J)"
  by (force dest: map_of_SomeD)

text \<open>A change of one job that touches neither the queue nor the workers.\<close>

lemma same_place_ok:
  assumes "state_ok c J q closing ws newest rs" "map_of J i = Some j" "mj_key (f j) = mj_key j" "mj_origin (f j) = mj_origin j"
    "mjob_ok c q closing i (f j)" "active_state (mj_state (f j)) = active_state (mj_state j)"
  shows "state_ok c (AList.map_entry i f J) q closing ws newest rs"
proof (rule one_job_ok [where f = f, OF assms(1-4)])
  note D = state_okD [OF assms(1)]
  show "distinct q" "set q \<subseteq> set (map fst J)" "distinct ws" "length ws \<le> mc_max_active c" by (rule D)+
  show "set ws = (if active_state (mj_state (f j)) then insert i (set ws) else set ws - {i})"
    using active_worker [OF assms(1,2)] assms(6) by auto
qed (use assms in auto)

lemma manager_ok_says [simp]:
  "manager_ok (ac_acknowledge token x a) = manager_ok a" "manager_ok (ac_reply token r a) = manager_ok a" "manager_ok (publish_jobs a) = manager_ok a"
  by (simp_all add: manager_ok_def actor_ops)

section \<open>The commands\<close>

lemma set_priority_ok:
  assumes "manager_ok a" shows "manager_ok (cmd_set_priority i p token a)"
  using assms unfolding manager_ok_def
  by (auto simp: cmd_set_priority_def actor_ops mjob_ok_def Let_def split: option.splits intro!: same_place_ok dest: job_okD)

lemma job_rate_ok:
  assumes "manager_ok a" shows "manager_ok (cmd_job_rate i rate token a)"
  using assms unfolding manager_ok_def
  by (auto simp: cmd_job_rate_def actor_ops mjob_ok_def Let_def split: option.splits intro!: same_place_ok dest: job_okD)

lemma global_rate_ok:
  assumes "manager_ok a" "valid_limit rate" shows "manager_ok (cmd_global_rate rate token a)"
proof -
  have c: "config_validate (c\<lparr>mc_global := rate\<rparr>) = Inr ()" if "config_validate c = Inr ()" for c
    using that assms(2) by (auto simp: config_validate_def split: if_splits)
  show ?thesis
    using assms(1) c unfolding manager_ok_def by (simp add: cmd_global_rate_def actor_ops state_ok_def mjob_ok_def)
qed

lemma resting_ok: "resting_state (mj_state j) \<Longrightarrow> mj_state j' = Paused \<Longrightarrow> mj_attempts j' = mj_attempts j \<Longrightarrow>
    mjob_ok c q closing i j \<Longrightarrow> mjob_ok c q closing i j'"
  by (auto simp: mjob_ok_def active_state_def Let_def)

lemma resting_not_active: "resting_state s \<Longrightarrow> \<not> active_state s"
  by (auto simp: resting_state_def active_state_def)

lemma paused_not_active [simp]: "\<not> active_state Paused" "\<not> active_state Queued" "\<not> active_state RetryWaiting" "\<not> active_state Completed"
  "\<not> active_state (Failed e)" "active_state Running" "active_state Pausing"
  by (simp_all add: active_state_def)

lemma refresh_ok:
  assumes "manager_ok a" shows "manager_ok (cmd_refresh sha ul v i raw token a)"
  using assms unfolding manager_ok_def
  by (auto simp: cmd_refresh_def actor_ops Let_def resting_not_active split: option.splits sum.splits intro!: same_place_ok
      intro: resting_ok dest: job_okD)

lemma forget_ok:
  assumes "manager_ok a" shows "manager_ok (cmd_forget i token a)"
proof (cases "map_of (ac_jobs a) i")
  case None
  then show ?thesis using assms by (simp add: cmd_forget_def manager_ok_def actor_ops)
next
  case (Some j)
  show ?thesis
  proof (cases "active_state (mj_state j)")
    case True
    then show ?thesis using assms Some by (simp add: cmd_forget_def manager_ok_def actor_ops)
  next
    case False
    let ?J = "AList.delete i (ac_jobs a)"
    let ?q = "filter (\<lambda>k. k \<noteq> i) (ac_queue a)"
    let ?rs = "map (\<lambda>r. if rc_job_id r = i then r\<lparr>rc_removed := True\<rparr> else r) (ac_receipts a)"
    have ok: "state_ok (ac_config a) (ac_jobs a) (ac_queue a) (ac_closing a) (ac_workers a) (ac_last_id a) (ac_receipts a)"
      using assms by (simp add: manager_ok_def)
    note D = state_okD [OF ok]
    have del: "?J = filter (\<lambda>(k, _). k \<noteq> i) (ac_jobs a)" by (auto simp: AList.delete_eq intro!: filter_cong)
    have ids: "map fst ?J = filter (\<lambda>k. k \<noteq> i) (map fst (ac_jobs a))" by (simp add: del filter_map comp_def split_def)
    have cnt: "active_count (filter P J) origin \<le> active_count J origin" for P origin and J :: "'a jobs"
      by (induction J) auto
    have w: "\<forall>k. k \<in> set (ac_workers a) \<longleftrightarrow> (\<exists>x. (k, x) \<in> set ?J \<and> active_state (mj_state x))"
      using D(9) active_worker [OF ok Some] False by (auto simp: del)
    have rs: "map rc_key_hash ?rs = map rc_key_hash (ac_receipts a)" "map rc_job_id ?rs = map rc_job_id (ac_receipts a)" by auto
    have led: "ledger_ok ?rs (map fst ?J) (ac_last_id a)"
      using D(14) unfolding ledger_ok_def rs ids length_map by (auto split: if_splits)
    have each: "\<forall>(k, x) \<in> set ?J. mjob_ok (ac_config a) ?q (ac_closing a) k x"
      using D(7) by (auto simp: del mjob_ok_def Let_def)
    have "state_ok (ac_config a) ?J ?q (ac_closing a) (ac_workers a) (ac_last_id a) ?rs"
      unfolding state_ok_def
    proof (intro conjI D(1,2,8,10) w led each)
      show "distinct (map fst ?J)" "\<forall>k \<in> set (map fst ?J). 0 < k \<and> k \<le> ac_last_id a" "set ?q \<subseteq> set (map fst ?J)"
        using D(3,4,13) by (auto simp: ids)
      show "distinct (map (mj_key \<circ> snd) ?J)" using D(5) by (simp add: del distinct_map_filter)
      show "length ?J \<le> mc_max_jobs (ac_config a)" using D(6) by (simp add: del) (meson le_trans length_filter_le)
      show "\<forall>origin. active_count ?J origin \<le> mc_max_per_origin (ac_config a)" unfolding del using cnt D(11) le_trans by blast
      show "distinct ?q" using D(12) by simp
    qed
    then show ?thesis using Some False by (simp add: cmd_forget_def manager_ok_def actor_ops)
  qed
qed

lemma pause_ok:
  assumes "manager_ok a" shows "manager_ok (cmd_pause i token a)"
proof (cases "map_of (ac_jobs a) i")
  case None
  then show ?thesis using assms by (simp add: cmd_pause_def manager_ok_def actor_ops)
next
  case (Some j)
  let ?q = "filter (\<lambda>k. k \<noteq> i) (ac_queue a)"
  have ok: "state_ok (ac_config a) (ac_jobs a) (ac_queue a) (ac_closing a) (ac_workers a) (ac_last_id a) (ac_receipts a)"
    using assms by (simp add: manager_ok_def)
  note D = state_okD [OF ok] and j = job_okD [OF ok Some]
  have out: "state_ok (ac_config a) (AList.map_entry i (\<lambda>j. j\<lparr>mj_state := Paused, mj_retry_at := None\<rparr>) (ac_jobs a)) ?q (ac_closing a) (ac_workers a)
      (ac_last_id a) (ac_receipts a)" if "mj_state j = Queued \<or> mj_state j = RetryWaiting"
    by (rule one_job_ok [OF ok Some])
      (use D(8,10,12,13) active_worker [OF ok Some] that j in \<open>auto simp: mjob_ok_def Let_def active_state_def\<close>)
  have halt: "state_ok (ac_config a)
      (AList.map_entry i (\<lambda>j. j\<lparr>mj_state := Pausing, mj_pause_reply := Some token, mj_cancel := map_option (\<lambda>_. True) (mj_cancel j)\<rparr>) (ac_jobs a))
      (ac_queue a) (ac_closing a) (ac_workers a) (ac_last_id a) (ac_receipts a)" if "mj_state j = Running"
    by (rule same_place_ok [OF ok Some]) (use that j in \<open>auto simp: mjob_ok_def Let_def\<close>)
  show ?thesis using Some ok out halt by (auto simp: cmd_pause_def manager_ok_def actor_ops)
qed

lemma requeued_ok:
  assumes ok: "state_ok c J q closing ws newest rs" and j: "map_of J i = Some j" "resting_state (mj_state j)" "\<not> closing"
    and q': "distinct q'" "set q' = insert i (set q)"
  shows "state_ok c (AList.map_entry i requeued J) q' closing ws newest rs"
proof (rule one_job_ok [OF ok j(1)])
  note D = state_okD [OF ok]
  show "set q' \<subseteq> set (map fst J)" using D(13) known_id [OF j(1)] q'(2) by simp
  have "0 < rt_max_attempts (mc_retry c)" using D(1) by (auto simp: config_validate_def split: if_splits)
  then show "mjob_ok c q' closing i (requeued j)" using q'(2) j(3) by (simp add: mjob_ok_def requeued_def Let_def)
  show "set ws = (if active_state (mj_state (requeued j)) then insert i (set ws) else set ws - {i})"
    using active_worker [OF ok j(1)] resting_not_active [OF j(2)] by (simp add: requeued_def)
  show "distinct ws" "length ws \<le> mc_max_active c" by (rule D)+
qed (use q' in \<open>auto simp: requeued_def\<close>)

lemma resume_ok:
  assumes "manager_ok a" "\<not> ac_closing a" shows "manager_ok (cmd_resume i token a)"
proof (cases "map_of (ac_jobs a) i")
  case None
  then show ?thesis using assms by (simp add: cmd_resume_def manager_ok_def actor_ops)
next
  case (Some j)
  have ok: "state_ok (ac_config a) (ac_jobs a) (ac_queue a) (ac_closing a) (ac_workers a) (ac_last_id a) (ac_receipts a)"
    using assms by (simp add: manager_ok_def)
  have "resting_state (mj_state j) \<Longrightarrow> state_ok (ac_config a) (AList.map_entry i requeued (ac_jobs a)) (filter (\<lambda>k. k \<noteq> i) (ac_queue a) @ [i])
      (ac_closing a) (ac_workers a) (ac_last_id a) (ac_receipts a)"
    by (rule requeued_ok [OF ok Some _ assms(2)]) (use state_okD(12) [OF ok] in auto)
  then show ?thesis using Some ok by (simp add: cmd_resume_def manager_ok_def actor_ops)
qed

lemma resume_one_ok:
  assumes "manager_ok a" "\<not> ac_closing a" shows "manager_ok (resume_one i a) \<and> ac_closing (resume_one i a) = ac_closing a"
proof (cases "map_of (ac_jobs a) i")
  case None
  then show ?thesis using assms by (simp add: resume_one_def)
next
  case (Some j)
  have ok: "state_ok (ac_config a) (ac_jobs a) (ac_queue a) (ac_closing a) (ac_workers a) (ac_last_id a) (ac_receipts a)"
    using assms by (simp add: manager_ok_def)
  have "resting_state (mj_state j) \<Longrightarrow> state_ok (ac_config a) (AList.map_entry i requeued (ac_jobs a))
      (if i \<in> set (ac_queue a) then ac_queue a else ac_queue a @ [i]) (ac_closing a) (ac_workers a) (ac_last_id a) (ac_receipts a)"
    by (rule requeued_ok [OF ok Some _ assms(2)]) (use state_okD(12) [OF ok] in auto)
  then show ?thesis using Some assms by (simp add: resume_one_def manager_ok_def actor_ops)
qed

lemma resume_all_ok:
  assumes "manager_ok a" "\<not> ac_closing a" shows "manager_ok (cmd_resume_all token a)"
proof -
  have "manager_ok (fold resume_one ids b) \<and> ac_closing (fold resume_one ids b) = ac_closing b" if "manager_ok b" "\<not> ac_closing b" for ids and b :: "'a actor"
    using that by (induction ids arbitrary: b) (auto simp: resume_one_ok)
  from this [OF assms] show ?thesis by (simp add: cmd_resume_all_def Let_def)
qed

text \<open>A new job at the end of the list and of the queue.\<close>

lemma new_job_ok:
  assumes ok: "state_ok c J q closing ws newest rs" and i: "i = Suc newest" "i \<le> U64_MAX" and n: "length J < mc_max_jobs c" "\<not> closing"
    and key: "\<not> list_ex (\<lambda>(_, x). mj_key x = mj_key j) J" and j: "mj_state j = Queued" "mj_attempts j = 0"
    and rs': "ledger_ok rs' (map fst J @ [i]) i"
  shows "state_ok c (J @ [(i, j)]) (q @ [i]) closing ws i rs'"
proof -
  note D = state_okD [OF ok]
  have fresh: "i \<notin> set (map fst J)" using D(4) i(1) by force
  have c0: "0 < rt_max_attempts (mc_retry c)" using D(1) by (auto simp: config_validate_def split: if_splits)
  have app: "active_count (J @ [(i, j)]) origin = active_count J origin" for origin
    by (simp add: active_count_def j(1))
  have w: "\<forall>k. k \<in> set ws \<longleftrightarrow> (\<exists>x. (k, x) \<in> set (J @ [(i, j)]) \<and> active_state (mj_state x))"
    using D(9) j(1) by auto
  have each: "\<forall>(k, x) \<in> set (J @ [(i, j)]). mjob_ok c (q @ [i]) closing k x"
  proof (clarify)
    fix k x assume kx: "(k, x) \<in> set (J @ [(i, j)])"
    show "mjob_ok c (q @ [i]) closing k x"
    proof (cases "(k, x) \<in> set J")
      case True
      then have "k \<noteq> i" using fresh by force
      then show ?thesis using D(7) True by (auto simp: mjob_ok_def Let_def)
    next
      case False
      then have "k = i" "x = j" using kx by auto
      then show ?thesis using j c0 n(2) by (simp add: mjob_ok_def Let_def)
    qed
  qed
  have keys: "distinct (map (mj_key \<circ> snd) (J @ [(i, j)]))" using D(5) key by (auto simp: list_ex_iff)
  show ?thesis
    unfolding state_ok_def
  proof (intro conjI D(1,8,10) w each keys i(2))
    show "distinct (map fst (J @ [(i, j)]))" "distinct (q @ [i])" "set (q @ [i]) \<subseteq> set (map fst (J @ [(i, j)]))"
      using D(3,12,13) fresh by auto
    show "\<forall>k \<in> set (map fst (J @ [(i, j)])). 0 < k \<and> k \<le> i" using D(4) i(1) by force
    show "length (J @ [(i, j)]) \<le> mc_max_jobs c" using n(1) by simp
    show "\<forall>origin. active_count (J @ [(i, j)]) origin \<le> mc_max_per_origin c" unfolding app by (rule D(11))
    show "ledger_ok rs' (map fst (J @ [(i, j)])) i" using rs' by simp
  qed
qed

lemma ledger_new_job: "ledger_ok rs ids newest \<Longrightarrow> ledger_ok rs (ids @ [Suc newest]) (Suc newest)"
  by (force simp: ledger_ok_def)

lemma ledger_new_receipt:
  "ledger_ok rs ids newest \<Longrightarrow> \<forall>r \<in> set rs. rc_key_hash r \<noteq> k \<Longrightarrow> length rs < MAX_RECEIPTS \<Longrightarrow>
     ledger_ok (rs @ [\<lparr>rc_key_hash = k, rc_payload_hash = h, rc_job_id = Suc newest, rc_removed = False\<rparr>]) (ids @ [Suc newest]) (Suc newest)"
  by (force simp: ledger_ok_def)

lemma accept_ok:
  assumes "manager_ok a" "\<not> ac_closing a"
    and "\<And>k h. admission = Some (k, h) \<Longrightarrow> (\<forall>r \<in> set (ac_receipts a). rc_key_hash r \<noteq> k) \<and> length (ac_receipts a) < MAX_RECEIPTS"
  shows "manager_ok (accept_job ul pl fs o' p admission token a)"
proof -
  have ok: "state_ok (ac_config a) (ac_jobs a) (ac_queue a) (ac_closing a) (ac_workers a) (ac_last_id a) (ac_receipts a)"
    using assms by (simp add: manager_ok_def)
  note led = state_okD(14) [OF ok]
  have bump: "manager_ok (a\<lparr>ac_last_id := Suc (ac_last_id a)\<rparr>)" if "Suc (ac_last_id a) \<le> U64_MAX"
    using ok that by (fastforce simp: manager_ok_def state_ok_def ledger_ok_def)
  have led': "ledger_ok (ac_receipts a @ (case admission of None \<Rightarrow> [] | Some (k, h) \<Rightarrow>
      [\<lparr>rc_key_hash = k, rc_payload_hash = h, rc_job_id = Suc (ac_last_id a), rc_removed = False\<rparr>])) (map fst (ac_jobs a) @ [Suc (ac_last_id a)]) (Suc (ac_last_id a))"
    using assms(3) ledger_new_job [OF led] ledger_new_receipt [OF led] by (auto split: option.splits)
  show ?thesis
    using assms(1,2) bump ok led'
    by (auto simp: accept_job_def manager_ok_def actor_ops split: sum.splits option.splits intro!: new_job_ok)
qed

lemma enqueue_ok:
  assumes "manager_ok a" "\<not> ac_closing a" shows "manager_ok (cmd_enqueue ul pl fs o' p admission token a)"
  using assms by (auto simp: cmd_enqueue_def find_None_iff split: option.splits intro!: accept_ok)

lemma command_ok_keeps:
  assumes "manager_ok a" "\<not> ac_closing a" "mcommand_ok ul pl c" shows "manager_ok (manager_command sha ul pl fs v c token a)"
  using assms
  by (cases c) (auto simp: manager_command_def mcommand_ok_def enqueue_ok set_priority_ok pause_ok resume_ok global_rate_ok job_rate_ok
      resume_all_ok refresh_ok forget_ok)

section \<open>The loop\<close>

lemma worker_done_ok:
  assumes "manager_ok a" shows "manager_ok (worker_done now i r a)"
proof (cases "i \<in> set (ac_workers a)")
  case False
  then show ?thesis using assms by (simp add: worker_done_def)
next
  case True
  have ok: "state_ok (ac_config a) (ac_jobs a) (ac_queue a) (ac_closing a) (ac_workers a) (ac_last_id a) (ac_receipts a)"
    using assms by (simp add: manager_ok_def)
  note D = state_okD [OF ok]
  obtain j where j: "map_of (ac_jobs a) i = Some j" "active_state (mj_state j)"
    using D(9) True by (auto simp: map_of_pair [OF ok])
  have jok: "mjob_ok (ac_config a) (ac_queue a) (ac_closing a) i j" by (rule job_okD [OF ok j(1)])
  let ?x = "(job_after (ac_config a) (ac_closing a) now j r)\<lparr>mj_pause_reply := None\<rparr>"
  have x: "mj_key ?x = mj_key j" "mj_origin ?x = mj_origin j" "\<not> active_state (mj_state ?x)"
    "mjob_ok (ac_config a) (ac_queue a) (ac_closing a) i ?x"
    using jok j(2) by (auto simp: job_after_def finish_job_def mjob_ok_def Let_def split: sum.splits)
  have "state_ok (ac_config a) (AList.map_entry i (\<lambda>_. ?x) (ac_jobs a)) (ac_queue a) (ac_closing a) (remove1 i (ac_workers a)) (ac_last_id a) (ac_receipts a)"
    by (rule one_job_ok [OF ok j(1)]) (use x D(8,10,12,13) in \<open>auto simp: length_remove1\<close>)
  then show ?thesis
    using True j(1) by (simp add: worker_done_def Let_def manager_ok_def actor_ops split: option.splits State.splits)
qed

lemma progress_ok:
  assumes "manager_ok a" shows "manager_ok (worker_progress i bytes a)"
proof (cases "map_of (ac_jobs a) i")
  case None
  then show ?thesis using assms by (simp add: worker_progress_def on_job_def map_entry_none)
next
  case (Some j)
  have ok: "state_ok (ac_config a) (ac_jobs a) (ac_queue a) (ac_closing a) (ac_workers a) (ac_last_id a) (ac_receipts a)"
    using assms by (simp add: manager_ok_def)
  have "state_ok (ac_config a) (AList.map_entry i (\<lambda>j. j\<lparr>mj_progress := bytes\<rparr>) (ac_jobs a)) (ac_queue a) (ac_closing a) (ac_workers a)
      (ac_last_id a) (ac_receipts a)"
    by (rule same_place_ok [OF ok Some]) (use job_okD [OF ok Some] in \<open>simp_all add: mjob_ok_def Let_def\<close>)
  then show ?thesis using ok by (simp add: worker_progress_def manager_ok_def on_job_def)
qed

lemma stop_ok: "manager_ok a \<Longrightarrow> ac_closing a \<Longrightarrow> manager_ok (stop_all a)"
  using stop_all_ok by (fastforce simp: manager_ok_def stop_all_def)

lemma closing_ok: "manager_ok a \<Longrightarrow> manager_ok (stop_all (a\<lparr>ac_closing := True\<rparr>))"
  using stop_all_ok by (fastforce simp: manager_ok_def stop_all_def)

lemma event_ok:
  assumes "manager_ok a" shows "manager_ok (manager_event sha ul pl now e a)"
proof (cases e)
  case EvHangup
  have "manager_ok (on_hangup a)" using closing_ok [OF assms] by (simp add: on_hangup_def manager_ok_def stop_all_def)
  then show ?thesis using EvHangup assms by (simp add: manager_event_def)
qed (use assms in \<open>auto simp: manager_event_def worker_done_ok command_ok_keeps progress_ok\<close>)

lemma wake_ok:
  assumes "manager_ok a" shows "manager_ok (wake_retries now a)"
proof (cases "ac_closing a")
  case True
  then show ?thesis using assms by (simp add: wake_retries_def)
next
  case False
  let ?g = "\<lambda>j. if retry_due now j then j\<lparr>mj_state := Queued, mj_retry_at := None\<rparr> else j"
  let ?due = "map fst (filter (\<lambda>(_, j). retry_due now j) (ac_jobs a))"
  have ok: "state_ok (ac_config a) (ac_jobs a) (ac_queue a) (ac_closing a) (ac_workers a) (ac_last_id a) (ac_receipts a)"
    using assms by (simp add: manager_ok_def)
  note D = state_okD [OF ok]
  have waits: "retry_due now j \<Longrightarrow> mj_state j = RetryWaiting" for j :: "'a mjob" by (simp add: retry_due_def)
  have out: "i \<notin> set (ac_queue a) \<and> mj_attempts j < rt_max_attempts (mc_retry (ac_config a)) \<and> mj_attempts j \<le> 5"
    if "(i, j) \<in> set (ac_jobs a)" "retry_due now j" for i j
    using D(7) that waits [OF that(2)] by (fastforce simp: mjob_ok_def Let_def)
  have due: "i \<in> set ?due \<longleftrightarrow> (\<exists>j. (i, j) \<in> set (ac_jobs a) \<and> retry_due now j)" for i by force
  have one: "retry_due now j" if "(i, j) \<in> set (ac_jobs a)" "i \<in> set ?due" for i j
    using that D(3) unfolding due by (auto dest: eq_key_imp_eq_value)
  have "state_ok (ac_config a) (map (\<lambda>(i, j). (i, ?g j)) (ac_jobs a)) (ac_queue a @ ?due) (ac_closing a) (ac_workers a) (ac_last_id a) (ac_receipts a)"
  proof (rule all_jobs_ok [OF ok])
    show "mj_key (?g j) = mj_key j \<and> mj_origin (?g j) = mj_origin j \<and> active_state (mj_state (?g j)) = active_state (mj_state j)" for j :: "'a mjob"
      using waits [of j] by auto
    show "distinct (ac_queue a @ ?due)" using D(3,12) out due by (auto simp: distinct_map_filter)
    show "set (ac_queue a @ ?due) \<subseteq> set (map fst (ac_jobs a))" using D(13) by force
    show "mjob_ok (ac_config a) (ac_queue a @ ?due) (ac_closing a) i (?g j)" if "(i, j) \<in> set (ac_jobs a)" for i j
    proof (cases "retry_due now j")
      case True
      then show ?thesis using out [OF that True] that due False by (auto simp: mjob_ok_def Let_def)
    next
      case no: False
      then have "i \<notin> set ?due" using one that by blast
      moreover have "mjob_ok (ac_config a) (ac_queue a) (ac_closing a) i j" using D(7) that by blast
      ultimately show ?thesis using no by (simp add: mjob_ok_def Let_def)
    qed
  qed
  then show ?thesis using False by (simp add: wake_retries_def manager_ok_def Let_def)
qed

section \<open>Starting workers\<close>

definition can_start :: "'p jobs \<Rightarrow> nat \<Rightarrow> u64 \<Rightarrow> bool" where
  "can_start J most i \<longleftrightarrow> (case map_of J i of None \<Rightarrow> False | Some j \<Rightarrow> mj_state j = Queued \<and> active_count J (mj_origin j) < most)"

definition priority_of :: "'p jobs \<Rightarrow> u64 \<Rightarrow> QPriority" where
  "priority_of J i = (case map_of J i of None \<Rightarrow> Low | Some j \<Rightarrow> mj_priority j)"

text \<open>The first of the highest priority among those that can start.\<close>

definition first_best :: "'p jobs \<Rightarrow> nat \<Rightarrow> u64 list \<Rightarrow> nat option \<Rightarrow> bool" where
  "first_best J most q x \<longleftrightarrow>
     (case x of
        None \<Rightarrow> \<forall>m < length q. \<not> can_start J most (q ! m)
      | Some n \<Rightarrow> n < length q \<and> can_start J most (q ! n) \<and>
          (\<forall>m < length q. can_start J most (q ! m) \<longrightarrow> priority_of J (q ! m) \<le> priority_of J (q ! n) \<and>
             (m < n \<longrightarrow> priority_of J (q ! m) < priority_of J (q ! n))))"

lemma first_best_snoc_no: "first_best J most q x \<Longrightarrow> \<not> can_start J most i \<Longrightarrow> first_best J most (q @ [i]) x"
  by (auto simp: first_best_def nth_append less_Suc_eq split: option.splits)

lemma first_best_snoc_first: "first_best J most q None \<Longrightarrow> can_start J most i \<Longrightarrow> first_best J most (q @ [i]) (Some (length q))"
  by (auto simp: first_best_def nth_append less_Suc_eq)

lemma first_best_snoc_better:
  "first_best J most q (Some n) \<Longrightarrow> can_start J most i \<Longrightarrow> priority_of J (q ! n) < priority_of J i \<Longrightarrow>
     first_best J most (q @ [i]) (Some (length q))"
  by (auto simp: first_best_def nth_append less_Suc_eq intro: le_less_trans less_imp_le)

lemma first_best_snoc_worse:
  "first_best J most q (Some n) \<Longrightarrow> \<not> priority_of J (q ! n) < priority_of J i \<Longrightarrow> first_best J most (q @ [i]) (Some n)"
  by (auto simp: first_best_def nth_append less_Suc_eq not_less)

lemma eligible_scan_best:
  "first_best J most q x \<Longrightarrow> (\<And>n. x = Some n \<Longrightarrow> best = priority_of J (q ! n)) \<Longrightarrow>
     first_best J most (q @ ids) (eligible_scan J most (length q) ids x best)"
proof (induction ids arbitrary: q x best)
  case (Cons i ids)
  have keep: "q ! n = (q @ [i]) ! n" if "x = Some n" for n
    using Cons.prems(1) that by (simp add: first_best_def nth_append)
  have skip: ?case if "\<not> can_start J most i" "eligible_scan J most (length q) (i # ids) x best = eligible_scan J most (Suc (length q)) ids x best"
    using Cons.IH [OF first_best_snoc_no [OF Cons.prems(1) that(1)]] Cons.prems(2) keep that(2) by simp
  show ?case
  proof (cases "map_of J i")
    case None
    then show ?thesis by (intro skip) (simp_all add: can_start_def)
  next
    case (Some j)
    show ?thesis
    proof (cases "can_start J most i")
      case False
      then show ?thesis by (intro skip) (use Some in \<open>auto simp: can_start_def\<close>)
    next
      case True
      have p: "priority_of J i = mj_priority j" using Some by (simp add: priority_of_def)
      have st: "mj_state j = Queued" "\<not> most \<le> active_count J (mj_origin j)" using True Some by (auto simp: can_start_def)
      show ?thesis
      proof (cases "x = None \<or> best < mj_priority j")
        case better: True
        have "first_best J most (q @ [i]) (Some (length q))"
          using better Cons.prems True p by (cases x) (auto intro: first_best_snoc_first first_best_snoc_better)
        from Cons.IH [OF this, of "mj_priority j"] show ?thesis using Some st better p by simp
      next
        case worse: False
        then obtain n where n: "x = Some n" by auto
        have "first_best J most (q @ [i]) x"
          using worse Cons.prems n p by (auto intro: first_best_snoc_worse)
        from Cons.IH [OF this, of best] show ?thesis using Some st worse Cons.prems(2) keep n by simp
      qed
    qed
  qed
qed simp

lemma next_eligible_best: "first_best J most q (next_eligible J q most)"
  using eligible_scan_best [of J most "[]" None Low q] by (simp add: next_eligible_def first_best_def)

lemma without_nth:
  assumes "distinct q" "n < length q"
  shows "distinct (take n q @ drop (Suc n) q)" "q ! n \<notin> set (take n q @ drop (Suc n) q)"
    "k \<noteq> q ! n \<Longrightarrow> k \<in> set (take n q @ drop (Suc n) q) \<longleftrightarrow> k \<in> set q"
proof -
  define xs x ys where "xs = take n q" and "x = q ! n" and "ys = drop (Suc n) q"
  then have "q = xs @ x # ys" using assms(2) by (simp add: id_take_nth_drop)
  then show "distinct (take n q @ drop (Suc n) q)" "q ! n \<notin> set (take n q @ drop (Suc n) q)"
    "k \<noteq> q ! n \<Longrightarrow> k \<in> set (take n q @ drop (Suc n) q) \<longleftrightarrow> k \<in> set q"
    using assms(1) unfolding xs_def [symmetric] x_def [symmetric] ys_def [symmetric] by auto
qed

lemma start_ok:
  assumes ok: "state_ok c J q False ws newest rs" and i: "i = q ! n" "n < length q" and j: "map_of J i = Some j" "mj_state j = Queued"
    and w: "length ws < mc_max_active c" "active_count J (mj_origin j) < mc_max_per_origin c"
  shows "state_ok c (AList.map_entry i (\<lambda>j. j\<lparr>mj_state := Running, mj_attempts := min (mj_attempts j + 1) U8_MAX, mj_cancel := Some False\<rparr>) J)
      (take n q @ drop (Suc n) q) False (ws @ [i]) newest rs"
    and "state_ok c (AList.map_entry i (\<lambda>j. j\<lparr>mj_state := Paused, mj_attempts := min (mj_attempts j + 1) U8_MAX, mj_cancel := map_option (\<lambda>_. True) (mj_cancel j)\<rparr>) J)
      (take n q @ drop (Suc n) q) False ws newest rs"
proof -
  note D = state_okD [OF ok]
  let ?q = "take n q @ drop (Suc n) q"
  have qs: "distinct ?q" "i \<notin> set ?q" "\<And>k. k \<noteq> i \<Longrightarrow> k \<in> set ?q \<longleftrightarrow> k \<in> set q"
    using without_nth [OF D(12) i(2)] i(1) by simp_all
  have sub: "set ?q \<subseteq> set (map fst J)" using D(13) set_take_subset [of n q] set_drop_subset [of "Suc n" q] by auto
  have jok: "mjob_ok c q False i j" by (rule job_okD [OF ok j(1)])
  have iw: "i \<notin> set ws" using active_worker [OF ok j(1)] j(2) by simp
  have five: "rt_max_attempts (mc_retry c) \<le> 5" using D(1) by (auto simp: config_validate_def split: if_splits)
  show "state_ok c (AList.map_entry i (\<lambda>j. j\<lparr>mj_state := Running, mj_attempts := min (mj_attempts j + 1) U8_MAX, mj_cancel := Some False\<rparr>) J)
      ?q False (ws @ [i]) newest rs"
    by (rule one_job_ok [OF ok j(1) _ _ qs(1) sub qs(3)]) (use five jok j(2) w iw D(8) qs(2) in \<open>auto simp: mjob_ok_def Let_def\<close>)
  show "state_ok c (AList.map_entry i (\<lambda>j. j\<lparr>mj_state := Paused, mj_attempts := min (mj_attempts j + 1) U8_MAX, mj_cancel := map_option (\<lambda>_. True) (mj_cancel j)\<rparr>) J)
      ?q False ws newest rs"
    by (rule one_job_ok [OF ok j(1) _ _ qs(1) sub qs(3)]) (use five jok j(2) w iw D(8,10) qs(2) in \<open>auto simp: mjob_ok_def Let_def\<close>)
qed

section \<open>Promises\<close>

definition has_receipt :: "queue_receipt list \<Rightarrow> digest \<Rightarrow> digest \<Rightarrow> u64 \<Rightarrow> bool" where
  "has_receipt rs k h i \<longleftrightarrow> (\<exists>r \<in> set rs. rc_key_hash r = k \<and> rc_payload_hash r = h \<and> rc_job_id r = i)"

text \<open>A request with a key that was told its job has a receipt on disk; one that is about to be told has
  one in memory; nothing on disk is missing in memory; and what is on disk is a ledger.\<close>

definition promises :: "(nat \<times> 'p mcommand) list \<Rightarrow> 'p actor \<Rightarrow> bool" where
  "promises log a \<longleftrightarrow>
     (\<forall>token o' p k h i. (token, CmdEnqueue o' p (Some (k, h))) \<in> set log \<longrightarrow>
        ((token, Inr (Some i)) \<in> set (ac_replies a) \<longrightarrow> has_receipt (sn_receipts (ac_saved a)) k h i) \<and>
        ((token, Some i) \<in> set (ac_acks a) \<longrightarrow> has_receipt (ac_receipts a) k h i)) \<and>
     (\<forall>token i. (token, Inr (Some i)) \<in> set (ac_replies a) \<or> (token, Some i) \<in> set (ac_acks a) \<longrightarrow> token \<in> set (map fst log)) \<and>
     (\<forall>k h i. has_receipt (sn_receipts (ac_saved a)) k h i \<longrightarrow> has_receipt (ac_receipts a) k h i) \<and>
     ledger_ok (sn_receipts (ac_saved a)) (map sj_id (sn_jobs (ac_saved a))) (sn_last_id (ac_saved a))"

definition in_order :: "'p actor \<Rightarrow> bool" where
  "in_order a \<longleftrightarrow> (ac_acks a \<noteq> [] \<longrightarrow> ac_dirty a) \<and> (ac_failure a \<noteq> None \<longrightarrow> ac_closing a) \<and>
     (ac_failure a = None \<longrightarrow> (if ac_durable a then \<not> ac_dirty a \<longrightarrow> sn_receipts (ac_saved a) = ac_receipts a else ac_receipts a = []))"

lemma sn_of: "sn_receipts (snapshot_of a) = ac_receipts a" "map sj_id (sn_jobs (snapshot_of a)) = map fst (ac_jobs a)"
  "sn_last_id (snapshot_of a) = ac_last_id a"
  by (auto simp: snapshot_of_def)

text \<open>Promises only depend on these parts of the state.\<close>

lemma promises_cong:
  "ac_replies b = ac_replies a \<Longrightarrow> ac_acks b = ac_acks a \<Longrightarrow> ac_saved b = ac_saved a \<Longrightarrow> ac_receipts b = ac_receipts a \<Longrightarrow>
     promises log b = promises log a"
  by (simp add: promises_def)

lemma save_cases:
  assumes "save_state a = (b, r)"
  obtains (kept) "ac_saved b = ac_saved a" "ac_durable b \<longrightarrow> ac_durable a" "r = Inr () \<longrightarrow> \<not> ac_durable a"
  | (written) a' where "ac_saved b = snapshot_of a'" "ac_durable b = ac_durable a" "ac_durable a" "ac_receipts a' = ac_receipts a" "ac_jobs a' = ac_jobs a"
      "ac_last_id a' = ac_last_id a"
proof -
  obtain x gone where x: "(case ac_answers a of [] \<Rightarrow> (SaveWorks, False) | x # _ \<Rightarrow> x) = (x, gone)" by (cases "case ac_answers a of [] \<Rightarrow> (SaveWorks, False) | x # _ \<Rightarrow> x")
  let ?a = "a\<lparr>ac_answers := tl (ac_answers a), ac_hangup := (ac_hangup a \<or> gone)\<rparr>"
  show ?thesis
  proof (cases "ac_durable a \<and> (x = SaveWorks \<or> (\<exists>e. x = SaveUnclear e))")
    case True
    then have "ac_saved b = snapshot_of ?a" "ac_durable b = ac_durable a"
      using assms x by (auto simp: save_state_def Let_def)
    then show ?thesis using True by (intro written [of ?a]) simp_all
  next
    case False
    then show ?thesis using assms x by (intro kept) (auto simp: save_state_def Let_def split: save_answer.splits if_splits)
  qed
qed

lemma save_promises:
  assumes "save_state a = (b, r)" "promises log a" "ledger_ok (ac_receipts a) (map fst (ac_jobs a)) (ac_last_id a)"
  shows "promises log b"
  using assms(1)
proof (cases rule: save_cases)
  case kept
  then show ?thesis using save_state_keeps [OF assms(1)] assms(2) by (simp add: promises_def)
next
  case (written a')
  have s: "sn_receipts (ac_saved b) = ac_receipts a" "map sj_id (sn_jobs (ac_saved b)) = map fst (ac_jobs a)" "sn_last_id (ac_saved b) = ac_last_id a"
    by (simp_all add: written sn_of)
  show ?thesis using save_state_keeps [OF assms(1)] assms(2,3) unfolding promises_def s by metis
qed

lemma save_in_order:
  assumes "save_state a = (b, Inr ())" "in_order a" "ac_failure a = None"
  shows "if ac_durable b then sn_receipts (ac_saved b) = ac_receipts b else ac_receipts b = []"
  using assms(1)
proof (cases rule: save_cases)
  case kept
  then show ?thesis using save_state_keeps [OF assms(1)] assms(2,3) by (auto simp: in_order_def)
next
  case (written a')
  then show ?thesis using save_state_keeps [OF assms(1)] by (simp add: sn_of)
qed

definition actor_inv :: "(nat \<times> 'p mcommand) list \<Rightarrow> 'p actor \<Rightarrow> bool" where
  "actor_inv log a \<longleftrightarrow> manager_ok a \<and> promises log a \<and> in_order a"

lemma ledger_of: "manager_ok a \<Longrightarrow> ledger_ok (ac_receipts a) (map fst (ac_jobs a)) (ac_last_id a)"
  by (simp add: manager_ok_def state_okD(14))

lemma stop_all_simps [simp]:
  "ac_config (stop_all a) = ac_config a" "ac_queue (stop_all a) = ac_queue a" "ac_closing (stop_all a) = ac_closing a"
  "ac_workers (stop_all a) = ac_workers a" "ac_last_id (stop_all a) = ac_last_id a" "ac_receipts (stop_all a) = ac_receipts a"
  "ac_replies (stop_all a) = ac_replies a" "ac_acks (stop_all a) = ac_acks a" "ac_saved (stop_all a) = ac_saved a"
  "ac_failure (stop_all a) = ac_failure a" "ac_dirty (stop_all a) = ac_dirty a" "ac_durable (stop_all a) = ac_durable a"
  "ac_hangup (stop_all a) = ac_hangup a" "ac_stopped (stop_all a) = ac_stopped a"
  by (simp_all add: stop_all_def)

lemma stop_ok_cong:
  "manager_ok a \<Longrightarrow> ac_closing b \<Longrightarrow> ac_config b = ac_config a \<Longrightarrow> ac_jobs b = ac_jobs a \<Longrightarrow> ac_queue b = ac_queue a \<Longrightarrow> ac_workers b = ac_workers a \<Longrightarrow>
   ac_last_id b = ac_last_id a \<Longrightarrow> ac_receipts b = ac_receipts a \<Longrightarrow> manager_ok (stop_all b)"
  using stop_all_ok by (fastforce simp: manager_ok_def stop_all_def)

lemma close_on_hangup_inv: "actor_inv log a \<Longrightarrow> actor_inv log (close_on_hangup a)"
  by (auto simp: close_on_hangup_def actor_inv_def promises_def in_order_def intro: stop_ok_cong)

lemma wake_inv:
  assumes "actor_inv log a" shows "actor_inv log (wake_retries now a)"
proof -
  have "promises log (wake_retries now a)" using assms by (subst promises_cong [of _ a]) (simp_all add: wake_retries_def Let_def actor_inv_def)
  moreover have "in_order (wake_retries now a)" using assms by (auto simp: wake_retries_def Let_def actor_inv_def in_order_def)
  ultimately show ?thesis using assms by (simp add: actor_inv_def wake_ok)
qed

lemma rate_ok:
  assumes "state_ok c J q closing ws newest rs"
  shows "state_ok c (map (\<lambda>(i, j). (i, j\<lparr>mj_rate := g j\<rparr>)) J) q closing ws newest rs"
proof (rule all_jobs_ok [OF assms])
  show "distinct q" "set q \<subseteq> set (map fst J)" by (rule state_okD [OF assms])+
  show "mjob_ok c q closing i (j\<lparr>mj_rate := g j\<rparr>)" if "(i, j) \<in> set J" for i j
    using state_okD(7) [OF assms] that by (auto simp: mjob_ok_def)
qed simp

lemma send_promises:
  assumes "promises log a" "ac_failure a = None \<longrightarrow> ac_acks a = [] \<or> sn_receipts (ac_saved a) = ac_receipts a \<or> ac_receipts a = []"
  shows "promises log (send_acks a)"
proof (cases "ac_failure a")
  case None
  then have new: "(token, Inr (Some i)) \<in> set (ac_replies (send_acks a)) \<longleftrightarrow> (token, Inr (Some i)) \<in> set (ac_replies a) \<or> (token, Some i) \<in> set (ac_acks a)" for token i
    by (auto simp: send_acks_def)
  have "has_receipt (sn_receipts (ac_saved a)) k h i" if "has_receipt (ac_receipts a) k h i" "ac_acks a \<noteq> []" for k h i
    using assms(2) None that by (auto simp: has_receipt_def)
  moreover have "ac_saved (send_acks a) = ac_saved a" "ac_receipts (send_acks a) = ac_receipts a" "ac_acks (send_acks a) = []"
    by (simp_all add: send_acks_def)
  ultimately show ?thesis using assms(1) unfolding promises_def new by (metis empty_iff list.set(1))
next
  case (Some e)
  then have new: "(token, Inr (Some i)) \<in> set (ac_replies (send_acks a)) \<longleftrightarrow> (token, Inr (Some i)) \<in> set (ac_replies a)" for token i
    by (auto simp: send_acks_def)
  have "ac_saved (send_acks a) = ac_saved a" "ac_receipts (send_acks a) = ac_receipts a" "ac_acks (send_acks a) = []"
    by (simp_all add: send_acks_def)
  then show ?thesis using assms(1) unfolding promises_def new by (metis empty_iff list.set(1))
qed

lemma send_acks_simps [simp]:
  "ac_config (send_acks a) = ac_config a" "ac_queue (send_acks a) = ac_queue a" "ac_closing (send_acks a) = ac_closing a" "ac_jobs (send_acks a) = ac_jobs a"
  "ac_workers (send_acks a) = ac_workers a" "ac_last_id (send_acks a) = ac_last_id a" "ac_receipts (send_acks a) = ac_receipts a"
  "ac_acks (send_acks a) = []" "ac_saved (send_acks a) = ac_saved a"
  "ac_failure (send_acks a) = ac_failure a" "ac_dirty (send_acks a) = ac_dirty a" "ac_durable (send_acks a) = ac_durable a"
  "ac_hangup (send_acks a) = ac_hangup a" "ac_stopped (send_acks a) = ac_stopped a"
  by (simp_all add: send_acks_def)

text \<open>After the commit and the acknowledgements everything promised is on disk, or the manager is closing.\<close>

definition calm_actor :: "(nat \<times> 'p mcommand) list \<Rightarrow> 'p actor \<Rightarrow> bool" where
  "calm_actor log a \<longleftrightarrow> actor_inv log a \<and> ac_acks a = [] \<and> (\<not> ac_closing a \<longrightarrow> \<not> ac_dirty a \<and> ac_failure a = None)"

lemma commit_calm:
  assumes "actor_inv log a"
  shows "calm_actor log (send_acks (commit_dirty a))"
proof -
  have inv: "manager_ok a" "promises log a" "in_order a" using assms by (simp_all add: actor_inv_def)
  show ?thesis
  proof (cases "ac_dirty a \<and> ac_failure a = None")
    case False
    then have c: "commit_dirty a = a" by (auto simp: commit_dirty_def)
    have "promises log (send_acks a)" by (rule send_promises [OF inv(2)]) (use inv(3) False in \<open>auto simp: in_order_def\<close>)
    moreover have "manager_ok (send_acks a)" "in_order (send_acks a)" using inv by (auto simp: manager_ok_def in_order_def)
    ultimately show ?thesis unfolding c calm_actor_def actor_inv_def using inv(3) False by (auto simp: in_order_def)
  next
    case True
    obtain b r where b: "save_state a = (b, r)" by (cases "save_state a")
    note k = save_state_keeps [OF b]
    have p: "promises log b" by (rule save_promises [OF b inv(2) ledger_of [OF inv(1)]])
    have m: "manager_ok b" using k inv by (simp add: manager_ok_def)
    show ?thesis
    proof (cases r)
      case (Inl e)
      define d where "d = stop_all (b\<lparr>ac_failure := Some e, ac_closing := True, ac_dirty := False\<rparr>)"
      have c: "commit_dirty a = d" using True b Inl by (simp add: commit_dirty_def d_def)
      have f: "ac_failure d = Some e" "ac_closing d" by (simp_all add: d_def)
      have "manager_ok d" unfolding d_def by (rule stop_ok_cong [OF m]) simp_all
      then have m': "manager_ok (send_acks d)" by (simp add: manager_ok_def)
      have "promises log d" using p by (subst promises_cong [of _ b]) (simp_all add: d_def)
      then have "promises log (send_acks d)" by (rule send_promises) (simp add: f)
      then show ?thesis unfolding c calm_actor_def actor_inv_def using m' f by (simp add: in_order_def)
    next
      case (Inr u)
      define d where "d = b\<lparr>ac_global := live_limit (ac_global b) (mc_global (ac_config b)),
        ac_jobs := map (\<lambda>(i, j). (i, j\<lparr>mj_rate := live_limit (mj_rate j) (op_bytes_per_second (mj_options j))\<rparr>)) (ac_jobs b), ac_dirty := False\<rparr>"
      have c: "commit_dirty a = d" using True b Inr by (simp add: commit_dirty_def d_def)
      have s: "if ac_durable b then sn_receipts (ac_saved b) = ac_receipts b else ac_receipts b = []"
        using save_in_order [of a b] b Inr inv(3) True by simp
      have "manager_ok d" using m rate_ok unfolding manager_ok_def d_def by fastforce
      then have m': "manager_ok (send_acks d)" by (simp add: manager_ok_def)
      have "promises log d" using p by (subst promises_cong [of _ b]) (simp_all add: d_def)
      then have p': "promises log (send_acks d)" by (rule send_promises) (use s in \<open>auto simp: d_def split: if_splits\<close>)
      have "ac_failure d = None" "ac_dirty d = False" "ac_durable d = ac_durable b" "ac_saved d = ac_saved b" "ac_receipts d = ac_receipts b"
        using k True by (simp_all add: d_def)
      then show ?thesis unfolding c calm_actor_def actor_inv_def using m' p' s by (simp add: in_order_def)
    qed
  qed
qed

text \<open>A prepared job that is not started is paused like the others.\<close>

lemma pause_prepared_jobs:
  assumes "map_of J i = Some j"
  shows "AList.map_entry i (\<lambda>j. j\<lparr>mj_state := Paused\<rparr>) (map (\<lambda>(k, j). (k, stop_job j)) (AList.map_entry i (\<lambda>j. j\<lparr>mj_state := Running, mj_attempts := f j\<rparr>) J)) =
    map (\<lambda>(k, j). (k, stop_job j)) (AList.map_entry i (\<lambda>j. j\<lparr>mj_state := Paused, mj_attempts := f j, mj_cancel := map_option (\<lambda>_. True) (mj_cancel j)\<rparr>) J)"
  using assms by (induction J) (auto simp: stop_job_def split: if_splits)

lemma map_entry_twice: "AList.map_entry i f (AList.map_entry i g J) = AList.map_entry i (f \<circ> g) J"
  by (induction J) auto

lemma start_jobs_inv:
  "calm_actor log a \<Longrightarrow> calm_actor log (start_jobs a) \<and>
     (ac_closing (start_jobs a) \<or> mc_max_active (ac_config (start_jobs a)) \<le> length (ac_workers (start_jobs a)) \<or>
      next_eligible (ac_jobs (start_jobs a)) (ac_queue (start_jobs a)) (mc_max_per_origin (ac_config (start_jobs a))) = None)"
proof (induction "length (ac_queue a)" arbitrary: a rule: less_induct)
  case less
  show ?case
  proof (cases "ac_closing a \<or> mc_max_active (ac_config a) \<le> length (ac_workers a) \<or>
      next_eligible (ac_jobs a) (ac_queue a) (mc_max_per_origin (ac_config a)) = None")
    case True
    then have "start_jobs a = a" by (subst start_jobs.simps) auto
    then show ?thesis using less.prems True by simp
  next
    case False
    then obtain n where n: "next_eligible (ac_jobs a) (ac_queue a) (mc_max_per_origin (ac_config a)) = Some n" by auto
    have cl: "\<not> ac_closing a" and full: "length (ac_workers a) < mc_max_active (ac_config a)" using False by auto
    let ?i = "ac_queue a ! n" and ?q = "take n (ac_queue a) @ drop (Suc n) (ac_queue a)"
    have best: "n < length (ac_queue a)" "can_start (ac_jobs a) (mc_max_per_origin (ac_config a)) ?i"
      using next_eligible_best [of "ac_jobs a" "mc_max_per_origin (ac_config a)" "ac_queue a"] by (auto simp: n first_best_def)
    obtain j where j: "map_of (ac_jobs a) ?i = Some j" "mj_state j = Queued" "active_count (ac_jobs a) (mj_origin j) < mc_max_per_origin (ac_config a)"
      using best(2) by (auto simp: can_start_def split: option.splits)
    have inv: "manager_ok a" "promises log a" "in_order a" "ac_acks a = []" "\<not> ac_dirty a" "ac_failure a = None"
      using less.prems cl by (auto simp: calm_actor_def actor_inv_def)
    have ok: "state_ok (ac_config a) (ac_jobs a) (ac_queue a) False (ac_workers a) (ac_last_id a) (ac_receipts a)"
      using inv(1) cl by (simp add: manager_ok_def)
    note st = start_ok [OF ok refl best(1) j(1,2) full j(3)]
    define a1 where "a1 = a\<lparr>ac_queue := ?q\<rparr>"
    define a2 where "a2 = on_job ?i (\<lambda>j. j\<lparr>mj_state := Running, mj_attempts := min (mj_attempts j + 1) U8_MAX\<rparr>) a1"
    obtain b r where b: "save_state a2 = (b, r)" by (cases "save_state a2")
    note k = save_state_keeps [OF b]
    have J: "ac_jobs a2 = AList.map_entry ?i (\<lambda>j. j\<lparr>mj_state := Running, mj_attempts := min (mj_attempts j + 1) U8_MAX\<rparr>) (ac_jobs a)"
      by (simp add: a2_def a1_def on_job_def)
    have kk: "ac_config a2 = ac_config a" "ac_queue a2 = ?q" "ac_workers a2 = ac_workers a" "ac_receipts a2 = ac_receipts a" "ac_last_id a2 = ac_last_id a"
      "ac_replies a2 = ac_replies a" "ac_acks a2 = []" "ac_saved a2 = ac_saved a" "ac_failure a2 = None" "\<not> ac_dirty a2" "\<not> ac_closing a2" "ac_durable a2 = ac_durable a"
      using inv cl by (simp_all add: a2_def a1_def on_job_def)
    have "promises log a2" using inv(2,4) kk by (subst promises_cong [of _ a]) simp_all
    then have p: "promises log b" by (rule save_promises [OF b]) (use ledger_of [OF inv(1)] in \<open>simp add: J kk\<close>)
    have halt: "calm_actor log (pause_prepared ?i x)"
      if x: "ac_closing x" "ac_jobs x = ac_jobs b" "ac_config x = ac_config b" "ac_queue x = ac_queue b" "ac_workers x = ac_workers b"
        "ac_last_id x = ac_last_id b" "ac_receipts x = ac_receipts b" "ac_replies x = ac_replies b" "ac_acks x = ac_acks b" "ac_saved x = ac_saved b"
        "ac_durable x = ac_durable b" and f: "ac_failure x \<noteq> None \<or> ac_failure x = None \<and> r = Inr ()" for x
    proof -
      let ?y = "pause_prepared ?i x"
      have y: "ac_closing ?y" "ac_config ?y = ac_config a" "ac_queue ?y = ?q" "ac_workers ?y = ac_workers a" "ac_last_id ?y = ac_last_id a"
        "ac_receipts ?y = ac_receipts a" "ac_replies ?y = ac_replies b" "ac_acks ?y = []" "ac_saved ?y = ac_saved b" "ac_durable ?y = ac_durable b"
        "ac_failure ?y = ac_failure x" "ac_dirty ?y = ac_dirty x"
        using x k kk by (simp_all add: pause_prepared_def on_job_def)
      have "ac_jobs ?y = map (\<lambda>(k, j). (k, stop_job j)) (AList.map_entry ?i (\<lambda>j. j\<lparr>mj_state := Paused, mj_attempts := min (mj_attempts j + 1) U8_MAX,
          mj_cancel := map_option (\<lambda>_. True) (mj_cancel j)\<rparr>) (ac_jobs a))"
        using x(2) k J pause_prepared_jobs [OF j(1), of "\<lambda>j. min (mj_attempts j + 1) U8_MAX"] by (simp add: pause_prepared_def on_job_def stop_all_def)
      then have "manager_ok ?y" using stop_all_ok [OF st(2)] by (simp only: manager_ok_def y)
      moreover have "promises log ?y" using p k kk y by (subst promises_cong [of _ b]) simp_all
      moreover have "in_order ?y"
      proof (cases "ac_failure x = None")
        case True
        then have "r = Inr ()" using f by simp
        then have "if ac_durable b then sn_receipts (ac_saved b) = ac_receipts b else ac_receipts b = []"
          using save_in_order [of a2 b] b inv(3,4,5,6) kk by (simp add: in_order_def)
        then show ?thesis using True y k kk by (auto simp: in_order_def split: if_splits)
      qed (use y in \<open>auto simp: in_order_def\<close>)
      ultimately show ?thesis using y by (simp add: calm_actor_def actor_inv_def)
    qed
    have m: "\<not> (ac_closing a \<or> mc_max_active (ac_config a) \<le> length (ac_workers a))" "\<not> length (ac_queue a) \<le> n" using cl full best(1) by auto
    note unf = start_jobs.simps [of a, unfolded if_not_P [OF m(1)] n option.case if_not_P [OF m(2)] Let_def, folded a1_def]
    have j1: "map_of (ac_jobs a1) ?i = Some j" by (simp add: a1_def j(1))
    have run: "start_jobs a = (case save_state a2 of
        (a2, Inl e) \<Rightarrow> pause_prepared ?i (a2\<lparr>ac_failure := Some e, ac_closing := True\<rparr>)
      | (a2, Inr _) \<Rightarrow> if ac_hangup a2 then pause_prepared ?i (a2\<lparr>ac_closing := True, ac_dirty := True\<rparr>)
          else start_jobs ((on_job ?i (\<lambda>j. j\<lparr>mj_cancel := Some False\<rparr>) a2)\<lparr>ac_workers := ac_workers a2 @ [?i]\<rparr>))"
      using j j1 by (subst unf) (simp add: a2_def)
    show ?thesis
    proof (cases r)
      case (Inl e)
      have "calm_actor log (pause_prepared ?i (b\<lparr>ac_failure := Some e, ac_closing := True\<rparr>))" by (rule halt) simp_all
      moreover have "ac_closing (pause_prepared ?i (b\<lparr>ac_failure := Some e, ac_closing := True\<rparr>))" by (simp add: pause_prepared_def on_job_def)
      ultimately show ?thesis unfolding run using b Inl by simp
    next
      case (Inr u)
      show ?thesis
      proof (cases "ac_hangup b")
        case True
        have "calm_actor log (pause_prepared ?i (b\<lparr>ac_closing := True, ac_dirty := True\<rparr>))" by (rule halt) (use k kk Inr in simp_all)
        moreover have "ac_closing (pause_prepared ?i (b\<lparr>ac_closing := True, ac_dirty := True\<rparr>))" by (simp add: pause_prepared_def on_job_def)
        ultimately show ?thesis unfolding run using b Inr True by simp
      next
        case False
        define d where "d = (on_job ?i (\<lambda>j. j\<lparr>mj_cancel := Some False\<rparr>) b)\<lparr>ac_workers := ac_workers b @ [?i]\<rparr>"
        have y: "\<not> ac_closing d" "ac_config d = ac_config a" "ac_queue d = ?q" "ac_workers d = ac_workers a @ [?i]" "ac_last_id d = ac_last_id a"
          "ac_receipts d = ac_receipts a" "ac_replies d = ac_replies b" "ac_acks d = []" "ac_saved d = ac_saved b" "ac_durable d = ac_durable b"
          "ac_failure d = None" "\<not> ac_dirty d"
          using k kk by (simp_all add: d_def on_job_def)
        have "ac_jobs d = AList.map_entry ?i (\<lambda>j. j\<lparr>mj_state := Running, mj_attempts := min (mj_attempts j + 1) U8_MAX, mj_cancel := Some False\<rparr>) (ac_jobs a)"
          using k J by (simp add: d_def on_job_def map_entry_twice comp_def)
        then have "manager_ok d" using st(1) y(1) by (simp add: manager_ok_def y)
        moreover have "promises log d" using p k kk y by (subst promises_cong [of _ b]) simp_all
        moreover have "if ac_durable b then sn_receipts (ac_saved b) = ac_receipts b else ac_receipts b = []"
          using save_in_order [of a2 b] b Inr inv(3,4,5,6) kk by (simp add: in_order_def)
        then have "in_order d" using y k kk by (auto simp: in_order_def split: if_splits)
        ultimately have calm: "calm_actor log d" using y by (simp add: calm_actor_def actor_inv_def)
        have go: "start_jobs a = start_jobs d" unfolding run using b Inr False by (simp add: d_def)
        have lt: "length (ac_queue d) < length (ac_queue a)" using y(3) best(1) by simp
        show ?thesis unfolding go by (rule less.hyps [OF lt calm])
      qed
    qed
  qed
qed

lemma publish_simps [simp]:
  "ac_config (publish_jobs a) = ac_config a" "ac_queue (publish_jobs a) = ac_queue a" "ac_closing (publish_jobs a) = ac_closing a"
  "ac_jobs (publish_jobs a) = ac_jobs a" "ac_workers (publish_jobs a) = ac_workers a" "ac_last_id (publish_jobs a) = ac_last_id a"
  "ac_receipts (publish_jobs a) = ac_receipts a" "ac_replies (publish_jobs a) = ac_replies a" "ac_acks (publish_jobs a) = ac_acks a"
  "ac_saved (publish_jobs a) = ac_saved a" "ac_failure (publish_jobs a) = ac_failure a" "ac_dirty (publish_jobs a) = ac_dirty a"
  "ac_durable (publish_jobs a) = ac_durable a" "ac_hangup (publish_jobs a) = ac_hangup a" "ac_stopped (publish_jobs a) = ac_stopped a"
  by (simp_all add: publish_jobs_def)

definition final_save :: "'p actor \<Rightarrow> 'p actor" where
  "final_save a = (if ac_dirty a \<and> ac_failure a = None then
     (case save_state a of (a, Inl e) \<Rightarrow> a\<lparr>ac_failure := Some e\<rparr> | (a, Inr _) \<Rightarrow> a) else a)"

lemma leave_loop_eq:
  "leave_loop a = (if ac_closing a \<and> ac_workers a = []
     then publish_jobs ((final_save a)\<lparr>ac_stopped := Some (case ac_failure (final_save a) of None \<Rightarrow> Inr () | Some e \<Rightarrow> Inl e)\<rparr>) else a)"
  unfolding leave_loop_def final_save_def Let_def by (rule refl)

lemma final_save_inv:
  assumes "calm_actor log a" "ac_closing a"
  shows "actor_inv log (final_save a)" "ac_closing (final_save a)" "ac_workers (final_save a) = ac_workers a" "ac_jobs (final_save a) = ac_jobs a"
proof -
  have inv: "manager_ok a" "promises log a" "in_order a" "ac_acks a = []" using assms by (simp_all add: calm_actor_def actor_inv_def)
  have "actor_inv log (final_save a) \<and> ac_closing (final_save a) \<and> ac_workers (final_save a) = ac_workers a \<and> ac_jobs (final_save a) = ac_jobs a"
  proof (cases "ac_dirty a \<and> ac_failure a = None")
    case False
    then have "final_save a = a" by (auto simp: final_save_def)
    then show ?thesis using inv assms by (simp add: actor_inv_def)
  next
    case True
    obtain b r where b: "save_state a = (b, r)" by (cases "save_state a")
    note k = save_state_keeps [OF b]
    have m: "manager_ok b" using k inv(1) by (simp add: manager_ok_def)
    have p: "promises log b" by (rule save_promises [OF b inv(2) ledger_of [OF inv(1)]])
    show ?thesis
    proof (cases r)
      case (Inl e)
      have "promises log (b\<lparr>ac_failure := Some e\<rparr>)" using p by (subst promises_cong [of _ b]) simp_all
      moreover have "manager_ok (b\<lparr>ac_failure := Some e\<rparr>)" using m by (simp add: manager_ok_def)
      moreover have "final_save a = b\<lparr>ac_failure := Some e\<rparr>" using b Inl True by (simp add: final_save_def)
      ultimately show ?thesis using k inv(4) assms(2) by (simp add: actor_inv_def in_order_def)
    next
      case (Inr u)
      have "if ac_durable b then sn_receipts (ac_saved b) = ac_receipts b else ac_receipts b = []" using save_in_order [of a b] b Inr inv(3) True by simp
      then have "in_order b" using k inv(4) True by (auto simp: in_order_def)
      moreover have "final_save a = b" using b Inr True by (simp add: final_save_def)
      ultimately show ?thesis using m p k assms(2) by (simp add: actor_inv_def)
    qed
  qed
  then show "actor_inv log (final_save a)" "ac_closing (final_save a)" "ac_workers (final_save a) = ac_workers a" "ac_jobs (final_save a) = ac_jobs a" by blast+
qed

lemma leave_inv:
  assumes "calm_actor log a"
  shows "actor_inv log (leave_loop a)" "ac_closing (leave_loop a) = ac_closing a" "\<not> ac_closing a \<Longrightarrow> leave_loop a = a"
    "ac_jobs (leave_loop a) = ac_jobs a"
proof -
  show "\<not> ac_closing a \<Longrightarrow> leave_loop a = a" by (simp add: leave_loop_def)
  have a: "actor_inv log a" using assms by (simp add: calm_actor_def)
  have fin: "actor_inv log (publish_jobs (b\<lparr>ac_stopped := x\<rparr>))" if "actor_inv log b" for b x
    using that by (simp add: actor_inv_def manager_ok_def promises_def in_order_def)
  note f = final_save_inv [OF assms]
  show "actor_inv log (leave_loop a)" unfolding leave_loop_eq using fin [OF f(1)] a by (simp split: if_splits)
  show "ac_closing (leave_loop a) = ac_closing a" "ac_jobs (leave_loop a) = ac_jobs a" unfolding leave_loop_eq using f(2,4) by (auto split: if_splits)
qed

lemma calm_actor_publish: "calm_actor log (publish_jobs a) = calm_actor log a"
  by (simp add: calm_actor_def actor_inv_def manager_ok_def promises_def in_order_def actor_ops)

text \<open>What holds whenever the manager waits for its next event.\<close>

definition waiting_ok :: "(nat \<times> 'p mcommand) list \<Rightarrow> 'p actor \<Rightarrow> bool" where
  "waiting_ok log a \<longleftrightarrow> actor_inv log a \<and>
     (\<not> ac_closing a \<longrightarrow> ac_acks a = [] \<and> \<not> ac_dirty a \<and> ac_failure a = None \<and>
        (mc_max_active (ac_config a) \<le> length (ac_workers a) \<or> next_eligible (ac_jobs a) (ac_queue a) (mc_max_per_origin (ac_config a)) = None))"

lemma turn_inv:
  assumes "actor_inv log a" shows "waiting_ok log (manager_turn now a)"
proof -
  define b where "b = start_jobs (send_acks (commit_dirty (wake_retries now (close_on_hangup a))))"
  have calm: "calm_actor log b" and fin: "ac_closing b \<or> mc_max_active (ac_config b) \<le> length (ac_workers b) \<or>
      next_eligible (ac_jobs b) (ac_queue b) (mc_max_per_origin (ac_config b)) = None"
    using start_jobs_inv [OF commit_calm [OF wake_inv [OF close_on_hangup_inv [OF assms]]], of now] unfolding b_def [symmetric] by simp_all
  have calm': "calm_actor log (publish_jobs b)" using calm by (simp add: calm_actor_publish)
  note L = leave_inv [OF calm']
  have t: "manager_turn now a = leave_loop (publish_jobs b)" by (simp add: manager_turn_def b_def)
  show ?thesis
  proof (cases "ac_closing b")
    case True
    then show ?thesis using L(1,2) by (simp add: waiting_ok_def t)
  next
    case False
    then have "leave_loop (publish_jobs b) = publish_jobs b" using L(3) by simp
    then show ?thesis using calm' fin False by (simp add: waiting_ok_def calm_actor_def t)
  qed
qed

section \<open>Events and promises\<close>

definition hushed :: "'p actor \<Rightarrow> 'p actor \<Rightarrow> bool" where
  "hushed a b \<longleftrightarrow> ac_saved b = ac_saved a \<and> ac_durable b = ac_durable a \<and> ac_failure b = ac_failure a \<and> ac_closing b = ac_closing a \<and>
     (\<forall>token i. (token, Inr (Some i)) \<in> set (ac_replies b) \<longleftrightarrow> (token, Inr (Some i)) \<in> set (ac_replies a)) \<and>
     (\<forall>token i. (token, Some i) \<in> set (ac_acks b) \<longleftrightarrow> (token, Some i) \<in> set (ac_acks a)) \<and>
     (ac_acks b \<noteq> [] \<longrightarrow> ac_acks a \<noteq> [] \<or> ac_dirty b) \<and> (ac_dirty a \<longrightarrow> ac_dirty b) \<and>
     (ac_receipts b = ac_receipts a \<or> ac_dirty b \<and> ac_receipts a \<noteq> []) \<and>
     (\<forall>k h i. has_receipt (ac_receipts a) k h i \<longrightarrow> has_receipt (ac_receipts b) k h i)"

lemma hushed_refl: "hushed a a"
  by (simp add: hushed_def)

lemma hushed_inv:
  assumes "hushed a b" "promises log a" "in_order a" "set (map fst new) \<inter> set (map fst log) = {}"
  shows "promises (log @ new) b" "in_order b"
proof -
  show "in_order b" using assms(1,3) by (auto simp: hushed_def in_order_def split: if_splits)
  have fresh: "(token, Inr (Some i)) \<notin> set (ac_replies a) \<and> (token, Some i) \<notin> set (ac_acks a)" if "(token, c) \<in> set new" for token i c
  proof -
    have "token \<notin> set (map fst log)" using assms(4) that by force
    then show ?thesis using assms(2) unfolding promises_def by blast
  qed
  show "promises (log @ new) b"
    using assms(1,2) fresh unfolding promises_def hushed_def by (auto simp: has_receipt_def)
qed

lemma hushed_simple:
  "hushed a (ac_reply token (Inl e) a)" "hushed a (ac_acknowledge token None a)"
  by (auto simp: hushed_def actor_ops)

lemma hushed_ack:
  "ac_saved b = ac_saved a \<Longrightarrow> ac_durable b = ac_durable a \<Longrightarrow> ac_failure b = ac_failure a \<Longrightarrow> ac_closing b = ac_closing a \<Longrightarrow>
   ac_replies b = ac_replies a \<Longrightarrow> ac_acks b = ac_acks a \<Longrightarrow> ac_receipts b = ac_receipts a \<Longrightarrow> hushed a (ac_acknowledge token None b)"
  by (auto simp: hushed_def actor_ops)

lemma hushed_same:
  "ac_saved b = ac_saved a \<Longrightarrow> ac_durable b = ac_durable a \<Longrightarrow> ac_failure b = ac_failure a \<Longrightarrow> ac_closing b = ac_closing a \<Longrightarrow>
   ac_replies b = ac_replies a \<Longrightarrow> ac_acks b = ac_acks a \<Longrightarrow> ac_receipts b = ac_receipts a \<Longrightarrow> (ac_dirty a \<longrightarrow> ac_dirty b) \<Longrightarrow> hushed a b"
  by (auto simp: hushed_def)

lemmas hushed_intros = hushed_refl hushed_simple hushed_ack hushed_same

lemma resume_fold_keeps:
  "ac_saved (fold resume_one ids a) = ac_saved a \<and> ac_durable (fold resume_one ids a) = ac_durable a \<and> ac_failure (fold resume_one ids a) = ac_failure a \<and>
   ac_closing (fold resume_one ids a) = ac_closing a \<and> ac_replies (fold resume_one ids a) = ac_replies a \<and> ac_acks (fold resume_one ids a) = ac_acks a \<and>
   ac_receipts (fold resume_one ids a) = ac_receipts a"
proof (induction ids arbitrary: a)
  case (Cons i ids)
  have "ac_saved (resume_one i a) = ac_saved a \<and> ac_durable (resume_one i a) = ac_durable a \<and> ac_failure (resume_one i a) = ac_failure a \<and>
   ac_closing (resume_one i a) = ac_closing a \<and> ac_replies (resume_one i a) = ac_replies a \<and> ac_acks (resume_one i a) = ac_acks a \<and>
   ac_receipts (resume_one i a) = ac_receipts a"
    by (auto simp: resume_one_def on_job_def split: option.splits)
  then show ?case using Cons.IH [of "resume_one i a"] by simp
qed simp

lemma forget_hushed: "hushed a (cmd_forget i token a)"
proof -
  have mono: "has_receipt rs k h j \<Longrightarrow> has_receipt (map (\<lambda>r. if rc_job_id r = i then r\<lparr>rc_removed := True\<rparr> else r) rs) k h j" for rs k h j
  proof -
    let ?f = "\<lambda>r. if rc_job_id r = i then r\<lparr>rc_removed := True\<rparr> else r"
    assume "has_receipt rs k h j"
    then obtain r where r: "r \<in> set rs" "rc_key_hash r = k" "rc_payload_hash r = h" "rc_job_id r = j" by (auto simp: has_receipt_def)
    then have "?f r \<in> set (map ?f rs)" "rc_key_hash (?f r) = k" "rc_payload_hash (?f r) = h" "rc_job_id (?f r) = j" by simp_all
    then show "has_receipt (map ?f rs) k h j" unfolding has_receipt_def by blast
  qed
  show ?thesis
    by (auto simp: cmd_forget_def hushed_def actor_ops mono split: option.splits)
qed

lemma other_commands_hushed:
  assumes "\<And>o' p x. c \<noteq> CmdEnqueue o' p x"
  shows "hushed a (manager_command sha ul pl fs v c token a)"
proof (cases c)
  case (CmdEnqueue o' p x)
  then show ?thesis using assms by blast
next
  case CmdResumeAll
  then show ?thesis using resume_fold_keeps [of _ a] by (simp add: manager_command_def cmd_resume_all_def Let_def hushed_ack)
next
  case (CmdRefresh i raw)
  then show ?thesis
    by (auto simp: manager_command_def cmd_refresh_def on_job_def Let_def split: option.splits sum.splits intro!: hushed_intros)
qed (auto simp: manager_command_def forget_hushed cmd_set_priority_def cmd_pause_def cmd_resume_def cmd_global_rate_def cmd_job_rate_def on_job_def
      split: option.splits intro!: hushed_intros)

lemma worker_done_hushed: "hushed a (worker_done now i r a)"
  by (auto simp: worker_done_def Let_def hushed_def actor_ops split: option.splits State.splits)

text \<open>What an enqueue can do: refuse, replay a receipt, or accept a job and note its receipt.\<close>

lemma accept_cases:
  obtains (refuse) "hushed a (accept_job ul pl fs o' p admission token a)"
  | (accept) i b where "accept_job ul pl fs o' p admission token a = ac_acknowledge token (Some i) b"
      "ac_saved b = ac_saved a" "ac_durable b = ac_durable a" "ac_failure b = ac_failure a" "ac_closing b = ac_closing a"
      "ac_replies b = ac_replies a" "ac_acks b = ac_acks a"
      "ac_receipts b = ac_receipts a @ (case admission of None \<Rightarrow> [] | Some (k, h) \<Rightarrow>
         [\<lparr>rc_key_hash = k, rc_payload_hash = h, rc_job_id = i, rc_removed = False\<rparr>])"
proof (cases "hushed a (accept_job ul pl fs o' p admission token a)")
  case False
  have no: "\<forall>e. accept_job ul pl fs o' p admission token a \<noteq> ac_reply token (Inl e) a"
    "\<forall>e n. accept_job ul pl fs o' p admission token a \<noteq> ac_reply token (Inl e) (a\<lparr>ac_last_id := n\<rparr>)"
    using False by (auto simp: hushed_def actor_ops)
  have c1: "\<not> mc_max_jobs (ac_config a) \<le> length (ac_jobs a)" using no(1) by (auto simp: accept_job_def)
  obtain origin where c2: "manager_origin ul o' = Inr origin" using no(1) c1 by (cases "manager_origin ul o'") (auto simp: accept_job_def)
  obtain key where c3: "path_key pl fs (op_job_dir o') = Inr key" using no(1) c1 c2 by (cases "path_key pl fs (op_job_dir o')") (auto simp: accept_job_def)
  have c4: "\<not> list_ex (\<lambda>(_, j). mj_key j = key) (ac_jobs a)" using no(1) c1 c2 c3 by (auto simp: accept_job_def)
  obtain i where c5: "checked_add (ac_last_id a) 1 = Some i" using no(1) c1 c2 c3 c4 by (cases "checked_add (ac_last_id a) 1") (auto simp only: accept_job_def if_False sum.case option.case)
  obtain rate where c6: "bandwidth_new (op_bytes_per_second o') = Inr rate"
    using no(2) c1 c2 c3 c4 c5 by (cases "bandwidth_new (op_bytes_per_second o')") (auto simp only: accept_job_def if_False sum.case option.case)
  have e: "accept_job ul pl fs o' p admission token a = ac_acknowledge token (Some i) (a\<lparr>ac_last_id := i,
      ac_jobs := ac_jobs a @ [(i, \<lparr>mj_options = o', mj_origin = origin, mj_priority = p, mj_key = key, mj_state = Queued, mj_progress = 0,
        mj_cancel = None, mj_pause_reply = None, mj_attempts = 0, mj_retry_at = None, mj_rate = rate\<rparr>)],
      ac_queue := ac_queue a @ [i], ac_receipts := ac_receipts a @ (case admission of None \<Rightarrow> [] | Some (key_hash, payload_hash) \<Rightarrow>
        [\<lparr>rc_key_hash = key_hash, rc_payload_hash = payload_hash, rc_job_id = i, rc_removed = False\<rparr>])\<rparr>)"
    by (simp only: accept_job_def c1 c2 c3 c4 c5 c6 if_False sum.case option.case)
  show ?thesis by (rule accept [OF e]) simp_all
qed (rule refuse)

text \<open>What an enqueue can do: refuse, replay a receipt, or accept a job and note its receipt.\<close>

lemma enqueue_cases:
  obtains (refuse) "hushed a (cmd_enqueue ul pl fs o' p admission token a)"
  | (replay) k h r where "admission = Some (k, h)" "ac_durable a" "r \<in> set (ac_receipts a)" "rc_key_hash r = k" "rc_payload_hash r = h" "\<not> rc_removed r"
      "cmd_enqueue ul pl fs o' p admission token a = ac_reply token (Inr (Some (rc_job_id r))) a"
  | (accept) i b where "cmd_enqueue ul pl fs o' p admission token a = ac_acknowledge token (Some i) b"
      "ac_saved b = ac_saved a" "ac_durable b = ac_durable a" "ac_failure b = ac_failure a" "ac_closing b = ac_closing a"
      "ac_replies b = ac_replies a" "ac_acks b = ac_acks a" "admission \<noteq> None \<longrightarrow> ac_durable a"
      "ac_receipts b = ac_receipts a @ (case admission of None \<Rightarrow> [] | Some (k, h) \<Rightarrow>
         [\<lparr>rc_key_hash = k, rc_payload_hash = h, rc_job_id = i, rc_removed = False\<rparr>])"
proof (cases "cmd_enqueue ul pl fs o' p admission token a = accept_job ul pl fs o' p admission token a \<and> (admission \<noteq> None \<longrightarrow> ac_durable a)")
  case True
  show thesis
  proof (cases rule: accept_cases [of a ul pl fs o' p admission token])
    case refuse
    then show ?thesis using True that(1) by simp
  next
    case (accept i b)
    show ?thesis by (rule that(3) [of i b]) (use True accept in simp_all)
  qed
next
  case False
  obtain k h where kh: "admission = Some (k, h)" using False by (cases admission) (auto simp: cmd_enqueue_def)
  show thesis
  proof (cases "\<exists>r. ac_durable a \<and> find (\<lambda>r. rc_key_hash r = k) (ac_receipts a) = Some r \<and> rc_payload_hash r = h \<and> \<not> rc_removed r")
    case True
    then obtain r where r: "ac_durable a" "find (\<lambda>r. rc_key_hash r = k) (ac_receipts a) = Some r" "rc_payload_hash r = h" "\<not> rc_removed r" by blast
    then have "r \<in> set (ac_receipts a)" "rc_key_hash r = k" by (auto simp: find_Some_iff)
    then show ?thesis using r kh by (intro that(2) [of k h r]) (simp_all add: cmd_enqueue_def)
  next
    case no: False
    have "hushed a (cmd_enqueue ul pl fs o' p admission token a)"
      using no False kh by (auto simp: cmd_enqueue_def hushed_simple split: option.splits if_splits)
    then show ?thesis by (rule that(1))
  qed
qed

lemma enqueue_promises:
  assumes "promises log a" "in_order a" "ac_acks a = []" "\<not> ac_dirty a" "ac_failure a = None" "token \<notin> set (map fst log)"
  shows "promises (log @ [(token, CmdEnqueue o' p x)]) (cmd_enqueue ul pl fs o' p x token a) \<and> in_order (cmd_enqueue ul pl fs o' p x token a)"
proof (cases rule: enqueue_cases [of a ul pl fs o' p x token])
  case refuse
  then show ?thesis using hushed_inv [OF refuse assms(1,2), of "[(token, CmdEnqueue o' p x)]"] assms(6) by simp
next
  case (replay k h r)
  have fresh: "(token, c) \<notin> set log" for c using assms(6) by force
  have "has_receipt (sn_receipts (ac_saved a)) k h (rc_job_id r)"
    using replay(2-5) assms(2,4,5) by (auto simp: in_order_def has_receipt_def)
  then have "promises (log @ [(token, CmdEnqueue o' p x)]) (ac_reply token (Inr (Some (rc_job_id r))) a)"
    using assms(1,3) fresh replay(1) unfolding promises_def by (auto simp: ac_reply_def)
  then show ?thesis using assms(2) by (simp add: replay(7) in_order_def ac_reply_def)
next
  case (accept i b)
  have fresh: "(token, c) \<notin> set log" for c using assms(6) by force
  have unsaid: "(token, Inr (Some i)) \<notin> set (ac_replies a)" for i using assms(1,6) unfolding promises_def by blast
  have mono: "has_receipt (ac_receipts a) k h j \<Longrightarrow> has_receipt (ac_receipts b) k h j" for k h j by (auto simp: accept(9) has_receipt_def)
  have new: "x = Some (k, h) \<Longrightarrow> has_receipt (ac_receipts b) k h i" for k h by (simp add: accept(9) has_receipt_def)
  have "promises (log @ [(token, CmdEnqueue o' p x)]) (ac_acknowledge token (Some i) b)"
    using assms(1,3) fresh unsaid mono new unfolding promises_def by (auto simp: ac_acknowledge_def accept)
  moreover have "in_order (ac_acknowledge token (Some i) b)"
    using assms(2,5) accept by (auto simp: in_order_def ac_acknowledge_def split: option.splits if_splits)
  ultimately show ?thesis by (simp add: accept(1))
qed

lemma event_inv:
  assumes "waiting_ok log a" "set (map fst (event_log e)) \<inter> set (map fst log) = {}"
  shows "actor_inv (log @ event_log e) (manager_event sha ul pl now e a)"
proof -
  have inv: "manager_ok a" "promises log a" "in_order a" using assms(1) by (simp_all add: waiting_ok_def actor_inv_def)
  have quiet: "promises (log @ event_log e) b \<and> in_order b" if "hushed a b" for b
    using hushed_inv [OF that inv(2,3) assms(2)] by simp
  have "promises (log @ event_log e) (manager_event sha ul pl now e a) \<and> in_order (manager_event sha ul pl now e a)"
  proof (cases e)
    case (EvWorker i r)
    then show ?thesis using quiet [OF worker_done_hushed] by (simp add: manager_event_def)
  next
    case (EvCommand c token fs v)
    show ?thesis
    proof (cases "ac_closing a \<or> \<not> mcommand_ok ul pl c")
      case True
      then show ?thesis using quiet [OF hushed_refl] EvCommand by (simp add: manager_event_def)
    next
      case False
      then have go: "manager_event sha ul pl now e a = manager_command sha ul pl fs v c token a" using EvCommand by (simp add: manager_event_def)
      have w: "ac_acks a = []" "\<not> ac_dirty a" "ac_failure a = None" "token \<notin> set (map fst log)"
        using assms False EvCommand by (auto simp: waiting_ok_def event_log_def)
      show ?thesis
      proof (cases "\<exists>o' p x. c = CmdEnqueue o' p x")
        case True
        then obtain o' p x where c: "c = CmdEnqueue o' p x" by blast
        show ?thesis using enqueue_promises [OF inv(2,3) w, of o' p x ul pl fs] unfolding go by (simp add: c manager_command_def EvCommand event_log_def)
      next
        case other: False
        show ?thesis unfolding go by (rule quiet, rule other_commands_hushed) (use other in blast)
      qed
    qed
  next
    case EvHangup
    then show ?thesis using inv by (auto simp: manager_event_def event_log_def on_hangup_def promises_def in_order_def)
  next
    case EvTick
    then show ?thesis using quiet [OF hushed_refl] by (simp add: manager_event_def)
  next
    case (EvProgress i bytes)
    have "hushed a (worker_progress i bytes a)" by (auto simp: worker_progress_def on_job_def intro!: hushed_intros)
    then show ?thesis using quiet EvProgress by (simp add: manager_event_def)
  qed
  then show ?thesis using event_ok [OF inv(1)] by (simp add: actor_inv_def)
qed

lemma run_inv:
  assumes "manager_run sha ul pl a0 log a" "actor_inv [] a0"
  shows "waiting_ok log a"
  using assms(1)
proof induction
  case (run_start now)
  then show ?case using turn_inv [OF assms(2)] by simp
next
  case (run_step log a e now' now)
  show ?case by (rule turn_inv [OF event_inv [OF run_step.IH run_step.hyps(3)]])
qed

section \<open>Starting\<close>

lemma actor_new_inv:
  assumes "config_validate c = Inr ()" "newest \<le> U64_MAX" "distinct (map fst J)" "\<forall>i \<in> set (map fst J). 0 < i \<and> i \<le> newest"
    "distinct (map (mj_key \<circ> snd) J)" "length J \<le> mc_max_jobs c" "\<forall>(i, j) \<in> set J. mj_state j \<in> {Paused, Completed} \<or> (\<exists>e. mj_state j = Failed e)"
    "\<forall>(i, j) \<in> set J. mj_attempts j \<le> 5" "ledger_ok rs (map fst J) newest"
    "ledger_ok (sn_receipts s) (map sj_id (sn_jobs s)) (sn_last_id s)" "sn_receipts s = rs" "\<not> persistent \<longrightarrow> rs = []"
  shows "actor_inv [] (actor_new c J persistent s global newest rs answers)"
proof -
  have idle: "\<not> active_state (mj_state j)" if "(i, j) \<in> set J" for i j using assms(7) that by auto
  have cnt: "active_count J origin = 0" for origin
    using idle by (auto simp: active_count_def filter_empty_conv)
  have each: "\<forall>(i, j) \<in> set J. mjob_ok c (map fst J) False i j"
    using assms(7,8) by (fastforce simp: mjob_ok_def Let_def)
  have "state_ok c J (map fst J) False [] newest rs"
    unfolding state_ok_def using idle cnt by (intro conjI assms each) auto
  then show ?thesis using assms(10-12) by (simp add: actor_inv_def actor_new_def manager_ok_def promises_def in_order_def)
qed

lemma ledger_empty: "ledger_ok [] ids n"
  by (simp add: ledger_ok_def)

lemma start_configured_inv: "start_configured c answers = Inr a \<Longrightarrow> actor_inv [] a"
  by (auto simp: start_configured_def res_simps ledger_empty empty_snapshot_def intro!: actor_new_inv)

lemma recovered_jobD:
  assumes "recovered_job ul pl fs earlier s = Inr (i, j)"
  shows "i = sj_id s" "mj_key j \<notin> (mj_key \<circ> snd) ` set earlier" "mj_attempts j = sj_attempts s"
    "mj_state j \<in> {Paused, Completed} \<or> (\<exists>e. mj_state j = Failed e)"
  using assms by (auto simp: recovered_job_def res_simps list_ex_iff split: State.splits if_splits)

lemma recover_jobsD:
  assumes "recover_jobs ul pl fs earlier ss = Inr J" "distinct (map (mj_key \<circ> snd) earlier)"
    "\<forall>(i, j) \<in> set earlier. (mj_state j \<in> {Paused, Completed} \<or> (\<exists>e. mj_state j = Failed e)) \<and> mj_attempts j \<le> 5"
    "\<forall>s \<in> set ss. sj_attempts s \<le> 5"
  shows "map fst J = map fst earlier @ map sj_id ss \<and> distinct (map (mj_key \<circ> snd) J) \<and>
    (\<forall>(i, j) \<in> set J. (mj_state j \<in> {Paused, Completed} \<or> (\<exists>e. mj_state j = Failed e)) \<and> mj_attempts j \<le> 5)"
  using assms
proof (induction ss arbitrary: earlier)
  case (Cons s ss)
  then obtain i j where x: "recovered_job ul pl fs earlier s = Inr (i, j)" "recover_jobs ul pl fs (earlier @ [(i, j)]) ss = Inr J"
    by (auto simp: res_simps)
  note d = recovered_jobD [OF x(1)]
  have "map fst J = map fst (earlier @ [(i, j)]) @ map sj_id ss \<and> distinct (map (mj_key \<circ> snd) J) \<and>
    (\<forall>(i, j) \<in> set J. (mj_state j \<in> {Paused, Completed} \<or> (\<exists>e. mj_state j = Failed e)) \<and> mj_attempts j \<le> 5)"
    by (rule Cons.IH [OF x(2)]) (use Cons.prems(2-4) d in auto)
  then show ?case using d(1) by (simp add: comp_def)
qed simp

lemma ledger_ids: "set ids = set ids' \<Longrightarrow> ledger_ok rs ids n = ledger_ok rs ids' n"
  by (simp add: ledger_ok_def)

lemma consistent_ledger: "snapshot_consistent s \<Longrightarrow> ledger_ok (sn_receipts s) (map sj_id (sn_jobs s)) (sn_last_id s)"
  by (auto simp: snapshot_consistent_def ledger_ok_def Let_def list_all_iff)

lemma manager_open_inv:
  assumes "manager_open ul pl fs c found first answers = Inr a" "\<And>s. found = Some s \<Longrightarrow> snapshot_consistent s \<and> sn_last_id s \<le> U64_MAX"
  shows "actor_inv [] a"
proof -
  obtain saved global jobs where o: "config_validate c = Inr ()" "found = Some saved \<or> found = None \<and> saved = empty_snapshot c"
    "recover_jobs ul pl fs [] (sn_jobs saved) = Inr jobs"
    "a = actor_new (sn_config saved) (sort_key (\<lambda>(i, _). queue_rank (sn_queue saved) i) jobs) True saved global (sn_last_id saved) (sn_receipts saved) answers"
    using assms(1) by (auto simp: manager_open_def res_simps split: option.splits)
  have con: "snapshot_consistent saved" "sn_last_id saved \<le> U64_MAX"
    using o(1,2) assms(2) by (auto simp: snapshot_consistent_def empty_snapshot_def)
  have sn: "config_validate (sn_config saved) = Inr ()" "length (sn_jobs saved) \<le> mc_max_jobs (sn_config saved)" "distinct (map sj_id (sn_jobs saved))"
    "\<forall>i \<in> set (map sj_id (sn_jobs saved)). 0 < i \<and> i \<le> sn_last_id saved" "\<forall>s \<in> set (sn_jobs saved). sj_attempts s \<le> 5"
    using con(1) by (force simp: snapshot_consistent_def Let_def list_all_iff)+
  have J: "map fst jobs = map sj_id (sn_jobs saved)" "distinct (map (mj_key \<circ> snd) jobs)"
    "\<forall>(i, j) \<in> set jobs. mj_state j \<in> {Paused, Completed} \<or> (\<exists>e. mj_state j = Failed e)" "\<forall>(i, j) \<in> set jobs. mj_attempts j \<le> 5"
    using recover_jobsD [OF o(3) _ _ sn(5)] by auto
  let ?S = "sort_key (\<lambda>(i, _). queue_rank (sn_queue saved) i) jobs"
  have ids: "set (map fst ?S) = set (map sj_id (sn_jobs saved))" using J(1) by (metis set_map set_sort)
  have perm: "distinct (map f ?S) = distinct (map f jobs)" for f :: "u64 \<times> 'a mjob \<Rightarrow> 'c" by (simp add: distinct_map)
  have len: "length ?S = length (sn_jobs saved)" using J(1) by (metis length_map length_sort)
  show ?thesis
    unfolding o(4)
  proof (rule actor_new_inv)
    show "config_validate (sn_config saved) = Inr ()" "sn_last_id saved \<le> U64_MAX" by (rule sn con)+
    show "distinct (map fst ?S)" "distinct (map (mj_key \<circ> snd) ?S)" unfolding perm using J(1,2) sn(3) by simp_all
    show "\<forall>i \<in> set (map fst ?S). 0 < i \<and> i \<le> sn_last_id saved" unfolding ids by (rule sn)
    show "length ?S \<le> mc_max_jobs (sn_config saved)" unfolding len by (rule sn)
    show "\<forall>(i, j) \<in> set ?S. mj_state j \<in> {Paused, Completed} \<or> (\<exists>e. mj_state j = Failed e)" "\<forall>(i, j) \<in> set ?S. mj_attempts j \<le> 5"
      unfolding set_sort by (rule J)+
    show "ledger_ok (sn_receipts saved) (map fst ?S) (sn_last_id saved)"
      using consistent_ledger [OF con(1)] ledger_ids [OF ids] by simp
    show "ledger_ok (sn_receipts saved) (map sj_id (sn_jobs saved)) (sn_last_id saved)" by (rule consistent_ledger [OF con(1)])
  qed simp_all
qed

definition manager_started :: "'u url_lib \<Rightarrow> 'p path_lib \<Rightarrow> 'p actor \<Rightarrow> bool" where
  "manager_started ul pl a \<longleftrightarrow> (\<exists>c answers. start_configured c answers = Inr a) \<or>
     (\<exists>fs c found first answers. manager_open ul pl fs c found first answers = Inr a \<and>
        (\<forall>s. found = Some s \<longrightarrow> snapshot_consistent s \<and> sn_last_id s \<le> U64_MAX))"

lemma started_inv: "manager_started ul pl a \<Longrightarrow> actor_inv [] a"
  unfolding manager_started_def using start_configured_inv manager_open_inv by metis

lemma managed:
  assumes "manager_started ul pl a0" "manager_run sha ul pl a0 log a"
  shows "waiting_ok log a"
  by (rule run_inv [OF assms(2) started_inv [OF assms(1)]])

section \<open>Draining\<close>

lemma closing_turn:
  assumes "ac_closing a"
  shows "\<exists>b. manager_turn now a = leave_loop b \<and> ac_closing b \<and> ac_workers b = ac_workers a \<and> ac_stopped b = ac_stopped a"
proof -
  define b where "b = publish_jobs (send_acks (commit_dirty a))"
  have c: "ac_closing (commit_dirty a) \<and> ac_workers (commit_dirty a) = ac_workers a \<and> ac_stopped (commit_dirty a) = ac_stopped a"
  proof (cases "ac_dirty a \<and> ac_failure a = None")
    case True
    obtain d r where d: "save_state a = (d, r)" by (cases "save_state a")
    show ?thesis using True d save_state_keeps [OF d] assms(1) by (cases r) (simp_all add: commit_dirty_def)
  qed (use assms(1) in \<open>auto simp: commit_dirty_def\<close>)
  have "manager_turn now a = leave_loop b"
    using assms(1) c by (simp add: manager_turn_def close_on_hangup_def wake_retries_def b_def start_jobs.simps)
  then show ?thesis using c by (auto simp: b_def)
qed

lemma leave_closing:
  assumes "ac_closing b" "ac_stopped b = None"
  shows "ac_closing (leave_loop b)" "ac_workers (leave_loop b) = ac_workers b" "ac_stopped (leave_loop b) = None \<longleftrightarrow> ac_workers b \<noteq> []"
proof -
  have "ac_workers (final_save b) = ac_workers b \<and> ac_closing (final_save b) = ac_closing b"
  proof (cases "ac_dirty b \<and> ac_failure b = None")
    case True
    obtain d r where d: "save_state b = (d, r)" by (cases "save_state b")
    show ?thesis using True d save_state_keeps [OF d] by (cases r) (simp_all add: final_save_def)
  qed (auto simp: final_save_def)
  then show "ac_closing (leave_loop b)" "ac_workers (leave_loop b) = ac_workers b" "ac_stopped (leave_loop b) = None \<longleftrightarrow> ac_workers b \<noteq> []"
    using assms by (auto simp: leave_loop_eq)
qed

lemma worker_done_fields:
  assumes "i \<in> set (ac_workers a)"
  shows "ac_closing (worker_done now i r a) = ac_closing a" "ac_workers (worker_done now i r a) = remove1 i (ac_workers a)"
    "ac_stopped (worker_done now i r a) = ac_stopped a"
  using assms by (auto simp: worker_done_def Let_def actor_ops split: option.splits State.splits)

definition finish_worker :: "(byte list \<Rightarrow> digest) \<Rightarrow> 'u url_lib \<Rightarrow> 'p path_lib \<Rightarrow> u64 \<times> u64 \<times> (EngineError, u64) result \<Rightarrow> 'p actor \<Rightarrow> 'p actor" where
  "finish_worker sha ul pl x a = (case x of (now, i, r) \<Rightarrow> manager_turn now (manager_event sha ul pl now (EvWorker i r) a))"

lemma finish_worker_steps:
  assumes "waiting_ok log a" "ac_closing a" "ac_stopped a = None" "i \<in> set (ac_workers a)"
  shows "waiting_ok log (finish_worker sha ul pl (now, i, r) a)" "ac_closing (finish_worker sha ul pl (now, i, r) a)"
    "ac_workers (finish_worker sha ul pl (now, i, r) a) = remove1 i (ac_workers a)"
    "ac_stopped (finish_worker sha ul pl (now, i, r) a) = None \<longleftrightarrow> remove1 i (ac_workers a) \<noteq> []"
proof -
  let ?e = "manager_event sha ul pl now (EvWorker i r) a"
  have e: "ac_closing ?e" "ac_workers ?e = remove1 i (ac_workers a)" "ac_stopped ?e = None"
    using worker_done_fields [OF assms(4)] assms(2,3) by (simp_all add: manager_event_def)
  obtain b where b: "manager_turn now ?e = leave_loop b" "ac_closing b" "ac_workers b = ac_workers ?e" "ac_stopped b = ac_stopped ?e"
    using closing_turn [OF e(1)] by blast
  have f: "finish_worker sha ul pl (now, i, r) a = leave_loop b" by (simp add: finish_worker_def b(1))
  have bs: "ac_stopped b = None" using b(4) e(3) by simp
  show "ac_closing (finish_worker sha ul pl (now, i, r) a)" "ac_workers (finish_worker sha ul pl (now, i, r) a) = remove1 i (ac_workers a)"
    "ac_stopped (finish_worker sha ul pl (now, i, r) a) = None \<longleftrightarrow> remove1 i (ac_workers a) \<noteq> []"
    unfolding f using leave_closing [OF b(2) bs] b(3) e(2) by simp_all
  have "actor_inv (log @ event_log (EvWorker i r)) ?e" by (rule event_inv [OF assms(1)]) (simp add: event_log_def)
  then have "actor_inv log ?e" by (simp add: event_log_def)
  then show "waiting_ok log (finish_worker sha ul pl (now, i, r) a)" unfolding finish_worker_def by (simp add: turn_inv)
qed

lemma drain_stops:
  assumes "waiting_ok log a" "ac_closing a" "ac_stopped a = None \<longleftrightarrow> ac_workers a \<noteq> []"
    "distinct (map (fst \<circ> snd) xs)" "set (map (fst \<circ> snd) xs) = set (ac_workers a)"
  shows "waiting_ok log (fold (finish_worker sha ul pl) xs a) \<and> ac_closing (fold (finish_worker sha ul pl) xs a) \<and>
    ac_workers (fold (finish_worker sha ul pl) xs a) = [] \<and> ac_stopped (fold (finish_worker sha ul pl) xs a) \<noteq> None"
  using assms
proof (induction xs arbitrary: a)
  case Nil
  then show ?case by simp
next
  case (Cons x xs)
  obtain now i r where x: "x = (now, i, r)" by (cases x)
  have i: "i \<in> set (ac_workers a)" and stop: "ac_stopped a = None" using Cons.prems(3,5) x by auto
  note st = finish_worker_steps [OF Cons.prems(1,2) stop i, of sha ul pl now r]
  have d: "distinct (ac_workers a)" using Cons.prems(1) state_okD(8) by (fastforce simp: waiting_ok_def actor_inv_def manager_ok_def)
  have "set (map (fst \<circ> snd) xs) = set (ac_workers (finish_worker sha ul pl (now, i, r) a))"
    using Cons.prems(4,5) d unfolding st(3) x by (auto simp: set_remove1_eq)
  from Cons.IH [OF st(1,2) _ _ this] st(3,4) Cons.prems(4) show ?case by (simp add: x)
qed

end
