(* ===== verification/Manager_Props.thy ===== *)
theory Manager_Props
  imports Manager_Invariant
begin

text \<open>
  What the manager promises whatever happens: its limits, its choice of the next job, the receipts, and an
  end.
\<close>

section \<open>Properties\<close>


definition sample_fs :: "nat list path_fs" where
  "sample_fs = \<lparr>pf_canonical = Some, pf_exists = (\<lambda>_. Some False)\<rparr>"

definition sample_opened :: "nat list actor" where
  "sample_opened = actor_new sample_manager_config [] True (empty_snapshot sample_manager_config) (Some 8) 0 [] []"

definition sample_enqueue :: "nat list mevent" where
  "sample_enqueue = EvCommand (CmdEnqueue sample_options Normal (Some (''k'', ''p''))) 7 sample_fs DirMissing"

definition sample_idle :: "nat list actor" where
  "sample_idle = manager_turn 0 sample_opened"

definition sample_busy :: "nat list actor" where
  "sample_busy = manager_turn 0 (manager_event (\<lambda>x. x) sample_engine_urls sample_paths 0 sample_enqueue sample_idle)"

lemma sample_open:
  "manager_open sample_engine_urls sample_paths sample_fs sample_manager_config None (Inr ()) [] = Inr sample_opened"
proof -
  have "mc_global sample_manager_config = Some 8" "valid_limit (Some 8)"
    by (simp_all add: sample_manager_config_def valid_limit_def MAX_BYTES_PER_SECOND_def)
  then show ?thesis by (simp add: manager_open_def sample_config_valid sample_opened_def empty_snapshot_def bandwidth_new_def)
qed

lemma sample_started: "manager_started sample_engine_urls sample_paths sample_opened"
  unfolding manager_started_def using sample_open by blast

lemmas turn_defs = manager_turn_def close_on_hangup_def wake_retries_def commit_dirty_def save_state_def send_acks_def next_eligible_def
  publish_jobs_def leave_loop_def snapshot_of_def live_limit_def set_limit_def stop_all_def

lemma sample_idle_eq:
  "sample_idle = \<lparr>ac_config = sample_manager_config, ac_jobs = [], ac_durable = True, ac_saved = empty_snapshot sample_manager_config, ac_global = Some 8,
     ac_last_id = 0, ac_receipts = [], ac_queue = [], ac_workers = [], ac_closing = False, ac_hangup = False, ac_failure = None, ac_dirty = False,
     ac_acks = [], ac_replies = [], ac_snapshots = [], ac_answers = [], ac_stopped = None\<rparr>"
  by (simp add: sample_idle_def sample_opened_def actor_new_def turn_defs start_jobs.simps Let_def empty_snapshot_def valid_limit_def MAX_BYTES_PER_SECOND_def
      sample_manager_config_def)

lemma sample_valid: "validate_options sample_engine_urls sample_paths sample_options = Inr ()"
  by (simp add: validate_options_def policy_validate_def bare_origin_def secret_ok_def engine_url_def export_name_ok_def device_stem_def text_of_def
      utf8_len_def is_control_def ascii_control_def valid_limit_def MAX_BYTES_PER_SECOND_def width_simps sample_options_def sample_engine_urls_def sample_paths_def)

lemma sample_origin: "manager_origin sample_engine_urls sample_options = Inr (''https'', ''h'', 443)"
  by (simp add: manager_origin_def engine_url_def utf8_len_def is_control_def sample_options_def sample_engine_urls_def)

lemma sample_path_key: "path_key sample_paths sample_fs [100] = Inr [100]"
  by (simp add: path_key_def windows_leaf_ok_def device_stem_def text_of_def is_control_def sample_paths_def sample_fs_def)

definition sample_mjob :: "nat list mjob" where
  "sample_mjob = \<lparr>mj_options = sample_options, mj_origin = (''https'', ''h'', 443), mj_priority = Normal, mj_key = [100], mj_state = Running, mj_progress = 0,
     mj_cancel = Some False, mj_pause_reply = None, mj_attempts = 1, mj_retry_at = None, mj_rate = Some 7\<rparr>"

lemma sample_enqueue_event:
  "manager_event (\<lambda>x. x) sample_engine_urls sample_paths 0 sample_enqueue sample_idle = sample_idle\<lparr>ac_last_id := 1,
     ac_jobs := [(1, sample_mjob\<lparr>mj_state := Queued, mj_cancel := None, mj_attempts := 0\<rparr>)], ac_queue := [1],
     ac_receipts := [\<lparr>rc_key_hash = ''k'', rc_payload_hash = ''p'', rc_job_id = 1, rc_removed = False\<rparr>], ac_acks := [(7, Some 1)], ac_dirty := True\<rparr>"
proof -
  have o: "op_job_dir sample_options = [100]" "op_bytes_per_second sample_options = Some 7" "bandwidth_new (Some 7) = Inr (Some 7)"
    "mc_max_jobs sample_manager_config = 3" "checked_add 0 (Suc 0) = Some (Suc 0)"
    by (simp_all add: sample_options_def bandwidth_new_def valid_limit_def MAX_BYTES_PER_SECOND_def sample_manager_config_def width_simps)
  show ?thesis
    by (simp add: manager_event_def sample_enqueue_def sample_idle_eq mcommand_ok_def sample_valid manager_command_def cmd_enqueue_def accept_job_def
        sample_origin sample_path_key o MAX_RECEIPTS_def ac_acknowledge_def sample_mjob_def del: checked_add_eq_Some)
qed

lemma sample_busy_eq: "ac_jobs sample_busy = [(1, sample_mjob)]" "ac_replies sample_busy = [(7, Inr (Some 1))]" "ac_queue sample_busy = []" "ac_closing sample_busy = False"
  "ac_workers sample_busy = [1]" "ac_stopped sample_busy = None" "ac_durable sample_busy"
proof -
  have o: "op_bytes_per_second sample_options = Some 7" "mc_max_active sample_manager_config = 2" "mc_max_per_origin sample_manager_config = 1"
    "mc_global sample_manager_config = Some 8" "valid_limit (Some 7)" "valid_limit (Some 8)"
    by (simp_all add: sample_options_def sample_manager_config_def valid_limit_def MAX_BYTES_PER_SECOND_def)
  note defs = turn_defs Let_def sample_mjob_def on_job_def active_count_def retry_due_def o width_simps
  let ?X = "send_acks (commit_dirty (wake_retries 0 (close_on_hangup (manager_event (\<lambda>x. x) sample_engine_urls sample_paths 0 sample_enqueue sample_idle))))"
  have x: "\<exists>s. ?X = sample_idle\<lparr>ac_jobs := [(1, sample_mjob\<lparr>mj_state := Queued, mj_cancel := None, mj_attempts := 0\<rparr>)], ac_saved := s, ac_last_id := 1,
      ac_receipts := [\<lparr>rc_key_hash = ''k'', rc_payload_hash = ''p'', rc_job_id = 1, rc_removed = False\<rparr>], ac_queue := [1], ac_replies := [(7, Inr (Some 1))]\<rparr>"
    unfolding sample_enqueue_event by (simp add: sample_idle_eq defs)
  have "\<exists>s. start_jobs ?X = sample_idle\<lparr>ac_jobs := [(1, sample_mjob)], ac_saved := s, ac_last_id := 1,
      ac_receipts := [\<lparr>rc_key_hash = ''k'', rc_payload_hash = ''p'', rc_job_id = 1, rc_removed = False\<rparr>], ac_workers := [1], ac_replies := [(7, Inr (Some 1))]\<rparr>"
    using x by (elim exE) (simp, subst start_jobs.simps, simp add: sample_idle_eq defs, subst start_jobs.simps, simp add: defs)
  then obtain s where e: "sample_busy = publish_jobs (sample_idle\<lparr>ac_jobs := [(1, sample_mjob)], ac_saved := s, ac_last_id := 1,
      ac_receipts := [\<lparr>rc_key_hash = ''k'', rc_payload_hash = ''p'', rc_job_id = 1, rc_removed = False\<rparr>], ac_workers := [1], ac_replies := [(7, Inr (Some 1))]\<rparr>)"
    unfolding sample_busy_def manager_turn_def by (elim exE) (simp add: leave_loop_def sample_idle_eq publish_jobs_def)
  show "ac_jobs sample_busy = [(1, sample_mjob)]" "ac_replies sample_busy = [(7, Inr (Some 1))]" "ac_queue sample_busy = []" "ac_closing sample_busy = False"
    "ac_workers sample_busy = [1]" "ac_stopped sample_busy = None" "ac_durable sample_busy"
    unfolding e by (simp_all add: sample_idle_eq)
qed

lemma sample_manager_run: "manager_run (\<lambda>x. x) sample_engine_urls sample_paths sample_opened
    [(7, CmdEnqueue sample_options Normal (Some (''k'', ''p'')))] sample_busy"
proof -
  have "manager_run (\<lambda>x. x) sample_engine_urls sample_paths sample_opened [] sample_idle" unfolding sample_idle_def by (rule run_start)
  from run_step [OF this, of sample_enqueue 0 0] show ?thesis
    by (simp add: sample_idle_eq event_log_def sample_enqueue_def sample_busy_def)
qed


lemma find_receipt:
  assumes "ledger_ok rs ids n" "has_receipt rs k h i"
  shows "\<exists>r. find (\<lambda>r. rc_key_hash r = k) rs = Some r \<and> rc_payload_hash r = h \<and> rc_job_id r = i \<and> (rc_removed r \<longleftrightarrow> i \<notin> set ids)"
proof -
  obtain r where r: "r \<in> set rs" "rc_key_hash r = k" "rc_payload_hash r = h" "rc_job_id r = i" using assms(2) by (auto simp: has_receipt_def)
  have "\<exists>q. find (\<lambda>r. rc_key_hash r = k) rs = Some q"
    using r(1,2) by (cases "find (\<lambda>r. rc_key_hash r = k) rs") (auto simp: find_None_iff)
  then obtain q where q: "find (\<lambda>r. rc_key_hash r = k) rs = Some q" by blast
  then have "q \<in> set rs" "rc_key_hash q = k" by (auto simp: find_Some_iff)
  then have "q = r" using assms(1) r(1,2) unfolding ledger_ok_def distinct_map inj_on_def by blast
  then show ?thesis using q r assms(1) by (auto simp: ledger_ok_def)
qed

lemma replay_answer:
  assumes "ledger_ok (ac_receipts a) (map fst (ac_jobs a)) n" "has_receipt (ac_receipts a) k h i" "ac_durable a"
  shows "cmd_enqueue ul pl fs o' p (Some (k, h')) token a =
    ac_reply token (if h' \<noteq> h then Inl MIdempotencyConflict else if i \<in> fst ` set (ac_jobs a) then Inr (Some i) else Inl MPreviouslyRemoved) a"
  using find_receipt [OF assms(1,2)] assms(3) by (auto simp: cmd_enqueue_def)

lemma recover_ids: "recover_jobs ul pl fs earlier ss = Inr J \<Longrightarrow> map fst J = map fst earlier @ map sj_id ss"
  by (induction ss arbitrary: earlier) (auto simp: res_simps dest!: recovered_jobD(1))

lemma reopened:
  assumes "manager_open ul pl fs c (Some s) first answers = Inr b"
  shows "ac_receipts b = sn_receipts s" "set (map fst (ac_jobs b)) = set (map sj_id (sn_jobs s))" "ac_durable b"
proof -
  obtain global jobs where o: "recover_jobs ul pl fs [] (sn_jobs s) = Inr jobs"
    "b = actor_new (sn_config s) (sort_key (\<lambda>(i, _). queue_rank (sn_queue s) i) jobs) True s global (sn_last_id s) (sn_receipts s) answers"
    using assms by (auto simp: manager_open_def res_simps)
  have "map fst jobs = map sj_id (sn_jobs s)" using recover_ids [OF o(1)] by simp
  then have "set (map fst jobs) = set (map sj_id (sn_jobs s))" by (rule arg_cong)
  then show "ac_receipts b = sn_receipts s" "set (map fst (ac_jobs b)) = set (map sj_id (sn_jobs s))" "ac_durable b"
    by (simp_all add: o(2) actor_new_def)
qed

text \<open>
  C34. A request with a key is accepted once, for good. If a caller that sent its request with a key was
  told the job it became, then the receipt is on disk; however often the manager is asked again with that
  key, in the same session or after reopening what was stored, it makes no second job but names the
  first one, refuses if the request is another one, or says that the job was removed since.
\<close>

theorem accepted_once_for_good:
  assumes "manager_started ul pl a0" "manager_run sha ul pl a0 log a"
    and "(token, CmdEnqueue o' p (Some (k, h))) \<in> set log" "(token, Inr (Some i)) \<in> set (ac_replies a)"
    and "b = a \<and> ac_durable a \<or> manager_open ul pl fs c (Some (ac_saved a)) first answers = Inr b"
  shows "cmd_enqueue ul pl fs' o'' p' (Some (k, h')) token' b =
    ac_reply token' (if h' \<noteq> h then Inl MIdempotencyConflict else if i \<in> fst ` set (ac_jobs b) then Inr (Some i) else Inl MPreviouslyRemoved) b"
proof -
  have inv: "manager_ok a" "promises log a" using managed [OF assms(1,2)] by (simp_all add: waiting_ok_def actor_inv_def)
  have saved: "has_receipt (sn_receipts (ac_saved a)) k h i" "has_receipt (ac_receipts a) k h i"
    "ledger_ok (sn_receipts (ac_saved a)) (map sj_id (sn_jobs (ac_saved a))) (sn_last_id (ac_saved a))"
    using inv(2) assms(3,4) unfolding promises_def by blast+
  from assms(5) show ?thesis
  proof (elim disjE conjE)
    assume "b = a" "ac_durable a"
    then show ?thesis by (simp only: replay_answer [OF ledger_of [OF inv(1)] saved(2)])
  next
    assume "manager_open ul pl fs c (Some (ac_saved a)) first answers = Inr b"
    note R = reopened [OF this]
    have "ledger_ok (ac_receipts b) (map fst (ac_jobs b)) (sn_last_id (ac_saved a))" using saved(3) ledger_ids [OF R(2)] R(1) by simp
    then show ?thesis by (rule replay_answer [OF _ _ R(3)]) (simp add: R(1) saved(1))
  qed
qed

theorem accepted_once_for_good_witness:
  "\<exists>a. manager_run (\<lambda>x. x) sample_engine_urls sample_paths sample_opened [(7, CmdEnqueue sample_options Normal (Some (''k'', ''p'')))] a \<and>
     (7, Inr (Some 1)) \<in> set (ac_replies a) \<and> ac_durable a \<and>
     cmd_enqueue sample_engine_urls sample_paths sample_fs sample_options High (Some (''k'', ''p'')) 8 a = ac_reply 8 (Inr (Some 1)) a"
proof -
  note d = sample_busy_eq(7)
  have "cmd_enqueue sample_engine_urls sample_paths sample_fs sample_options High (Some (''k'', ''p'')) 8 sample_busy =
      ac_reply 8 (if ''p'' \<noteq> ''p'' then Inl MIdempotencyConflict else if 1 \<in> fst ` set (ac_jobs sample_busy) then Inr (Some 1) else Inl MPreviouslyRemoved) sample_busy"
    by (rule accepted_once_for_good [OF sample_started sample_manager_run, of 7 sample_options Normal "''k''" "''p''" 1])
      (simp_all add: sample_busy_eq d)
  then show ?thesis using sample_manager_run d sample_busy_eq(1,2) by auto
qed

text \<open>
  The first of the highest priority is next. Of the queued jobs whose origin has room, the one chosen
  has the highest priority and no other of that priority is before it in the queue, and one is chosen if
  there is one; and whenever the manager waits and is not closing, either it has as many workers as
  it may, or every queued job waits for its origin.
\<close>

theorem next_job_is_the_first_best:
  assumes "manager_started ul pl a0" "manager_run sha ul pl a0 log a" "\<not> ac_closing a"
  shows "(mc_max_active (ac_config a) = length (ac_workers a) \<or>
      (\<forall>(i, j) \<in> set (ac_jobs a). mj_state j = Queued \<longrightarrow> active_count (ac_jobs a) (mj_origin j) = mc_max_per_origin (ac_config a))) \<and>
    first_best (ac_jobs b) most q (next_eligible (ac_jobs b) q most)"
proof (intro conjI next_eligible_best)
  have w: "waiting_ok log a" by (rule managed [OF assms(1,2)])
  then have ok: "state_ok (ac_config a) (ac_jobs a) (ac_queue a) (ac_closing a) (ac_workers a) (ac_last_id a) (ac_receipts a)"
    by (simp add: waiting_ok_def actor_inv_def manager_ok_def)
  note D = state_okD [OF ok]
  have "active_count (ac_jobs a) (mj_origin j) = mc_max_per_origin (ac_config a)"
    if none: "next_eligible (ac_jobs a) (ac_queue a) (mc_max_per_origin (ac_config a)) = None" and j: "(i, j) \<in> set (ac_jobs a)" "mj_state j = Queued" for i j
  proof -
    have "i \<in> set (ac_queue a)" using D(7) j by (fastforce simp: mjob_ok_def Let_def)
    then have "\<not> can_start (ac_jobs a) (mc_max_per_origin (ac_config a)) i"
      using next_eligible_best [of "ac_jobs a" "mc_max_per_origin (ac_config a)" "ac_queue a"] none by (auto simp: first_best_def in_set_conv_nth)
    then have "\<not> active_count (ac_jobs a) (mj_origin j) < mc_max_per_origin (ac_config a)"
      using j map_of_pair [OF ok, of i j] by (simp add: can_start_def)
    moreover have "active_count (ac_jobs a) (mj_origin j) \<le> mc_max_per_origin (ac_config a)" using D(11) by blast
    ultimately show ?thesis by simp
  qed
  then show "mc_max_active (ac_config a) = length (ac_workers a) \<or>
      (\<forall>(i, j) \<in> set (ac_jobs a). mj_state j = Queued \<longrightarrow> active_count (ac_jobs a) (mj_origin j) = mc_max_per_origin (ac_config a))"
    using w assms(3) D(10) unfolding waiting_ok_def by fastforce
qed

theorem next_job_is_the_first_best_witness:
  "\<exists>log a. manager_run (\<lambda>x. x) sample_engine_urls sample_paths sample_opened log a \<and> \<not> ac_closing a \<and>
     first_best (ac_jobs a) 1 [] (next_eligible (ac_jobs a) [] 1)"
  using next_job_is_the_first_best [OF sample_started sample_manager_run] sample_manager_run sample_busy_eq(4) by blast

text \<open>
  C35. The manager always comes to an end. When its handle is dropped, at whatever moment, every worker has
  been told to stop, and once each of them has returned, in any order and with any result, the
  manager's task has ended: no worker is left, nothing is queued or waiting, every job is paused,
  completed or failed.
\<close>

theorem manager_drains:
  assumes "manager_started ul pl a0" "manager_run sha ul pl a0 log a" "ac_stopped a = None"
    and b: "b = manager_turn now (manager_event sha ul pl now EvHangup a)"
    and xs: "distinct (map (fst \<circ> snd) xs)" "set (map (fst \<circ> snd) xs) = set (ac_workers b)"
  shows "(\<forall>i \<in> set (ac_workers b). \<exists>j. map_of (ac_jobs b) i = Some j \<and> mj_state j = Pausing \<and> mj_cancel j = Some True) \<and>
    (let d = fold (finish_worker sha ul pl) xs b in
     ac_workers d = [] \<and> ac_stopped d \<noteq> None \<and>
     (\<forall>(i, j) \<in> set (ac_jobs d). mj_state j = Paused \<or> mj_state j = Completed \<or> (\<exists>e. mj_state j = Failed e)))"
proof -
  let ?e = "manager_event sha ul pl now EvHangup a"
  have w: "waiting_ok log a" by (rule managed [OF assms(1,2)])
  have "actor_inv (log @ event_log EvHangup) ?e" by (rule event_inv [OF w]) (simp add: event_log_def)
  then have ai: "actor_inv log ?e" by (simp add: event_log_def)
  have wb: "waiting_ok log b" unfolding b by (rule turn_inv [OF ai])
  have e: "ac_closing ?e" "ac_stopped ?e = None" using assms(3) by (simp_all add: manager_event_def on_hangup_def)
  obtain d where d: "b = leave_loop d" "ac_closing d" "ac_stopped d = None" using closing_turn [OF e(1)] e(2) unfolding b by metis
  have cb: "ac_closing b" "ac_stopped b = None \<longleftrightarrow> ac_workers b \<noteq> []" unfolding d(1) using leave_closing [OF d(2,3)] by simp_all
  have ok: "state_ok (ac_config b) (ac_jobs b) (ac_queue b) True (ac_workers b) (ac_last_id b) (ac_receipts b)"
    using wb cb(1) by (simp add: waiting_ok_def actor_inv_def manager_ok_def)
  have told: "\<exists>j. map_of (ac_jobs b) i = Some j \<and> mj_state j = Pausing \<and> mj_cancel j = Some True" if i: "i \<in> set (ac_workers b)" for i
  proof -
    obtain j where j: "map_of (ac_jobs b) i = Some j" "active_state (mj_state j)"
      using state_okD(9) [OF ok] i by (auto simp: map_of_pair [OF ok])
    then show ?thesis using job_okD [OF ok j(1)] by (auto simp: mjob_ok_def active_state_def Let_def)
  qed
  let ?d = "fold (finish_worker sha ul pl) xs b"
  have f: "waiting_ok log ?d" "ac_closing ?d" "ac_workers ?d = []" "ac_stopped ?d \<noteq> None" using drain_stops [OF wb cb xs, of sha ul pl] by simp_all
  have okd: "state_ok (ac_config ?d) (ac_jobs ?d) (ac_queue ?d) True [] (ac_last_id ?d) (ac_receipts ?d)"
    using f(1-3) by (simp add: waiting_ok_def actor_inv_def manager_ok_def)
  have "mj_state j = Paused \<or> mj_state j = Completed \<or> (\<exists>e. mj_state j = Failed e)" if j: "(i, j) \<in> set (ac_jobs ?d)" for i j
  proof -
    have "mjob_ok (ac_config ?d) (ac_queue ?d) True i j" "\<not> active_state (mj_state j)" using state_okD(7,9) [OF okd] j by auto
    then show ?thesis by (cases "mj_state j") (auto simp: mjob_ok_def Let_def)
  qed
  then show ?thesis using told f(3,4) unfolding Let_def by blast
qed

theorem manager_drains_witness:
  "\<exists>b. b = manager_turn 0 (manager_event (\<lambda>x. x) sample_engine_urls sample_paths 0 EvHangup sample_busy) \<and> ac_workers b = [1] \<and>
     ac_stopped (fold (finish_worker (\<lambda>x. x) sample_engine_urls sample_paths) [(0, 1, Inl ECancelled)] b) \<noteq> None"
proof -
  let ?e = "manager_event (\<lambda>x. x) sample_engine_urls sample_paths 0 EvHangup sample_busy"
  have e: "ac_closing ?e" "ac_stopped ?e = None" "ac_workers ?e = [1]" by (simp_all add: manager_event_def on_hangup_def sample_busy_eq)
  obtain d where d: "manager_turn 0 ?e = leave_loop d" "ac_closing d" "ac_workers d = [1]" "ac_stopped d = None"
    using closing_turn [OF e(1)] e(2,3) by metis
  have w: "ac_workers (manager_turn 0 ?e) = [1]" unfolding d(1) using leave_closing [OF d(2,4)] d(3) by simp
  have "ac_stopped (fold (finish_worker (\<lambda>x. x) sample_engine_urls sample_paths) [(0, 1, Inl ECancelled)] (manager_turn 0 ?e)) \<noteq> None"
    using manager_drains [OF sample_started sample_manager_run sample_busy_eq(6) refl, of "[(0, 1, Inl ECancelled)]" 0] w by (simp add: Let_def)
  then show ?thesis using w by blast
qed

end
