(* ===== verification/Engine.thy ===== *)
theory Engine
  imports Queue_Store Download_Core
begin

text \<open>
  One download of the earlier engine (\<open>crates/download-engine/src\<close>: \<open>download_controlled\<close> in
  \<open>lib.rs\<close>, \<open>parallel.rs\<close>, \<open>unknown.rs\<close> and the checks of \<open>files.rs\<close>): a directory is opened or
  created, a response is accepted or refused, its body is appended to the store under pacing and
  cancellation, and the file is published. What servers, clocks, the cancelling side and the
  operating system do is answered from lists; the workers of a window of ranges run side by side, so
  each has lists of its own and a rank that says in which order they end. The blocking tasks that
  only call the store end regularly.
\<close>

section \<open>Space\<close>

datatype entry_kind = EntryUnreadable | EntryDirectory | EntryOther

record dir_answer =
  da_located :: bool
  da_absolute :: bool
  da_ancestors :: "entry_kind list"
  da_canonical :: bool
  da_available :: "u64 option"
  da_returns :: bool

fun ancestors_ok :: "entry_kind list \<Rightarrow> (EngineError, unit) result" where
  "ancestors_ok [] = Inr ()"
| "ancestors_ok (EntryUnreadable # _) = Inl EStorageIo"
| "ancestors_ok (EntryOther # _) = Inl EInvalidOptions"
| "ancestors_ok (EntryDirectory # rest) = ancestors_ok rest"

definition private_directory :: "dir_answer \<Rightarrow> (EngineError, unit) result" where
  "private_directory a =
     (if \<not> da_absolute a then Inl EInvalidOptions
      else res_bind (ancestors_ok (da_ancestors a)) (\<lambda>_. if da_canonical a then Inr () else Inl EStorageIo))"

definition check_space :: "dir_answer \<Rightarrow> u64 \<Rightarrow> u64 \<Rightarrow> (EngineError, u64) result" where
  "check_space a bytes reserve =
     res_bind (private_directory a) (\<lambda>_.
     res_bind (ok_or (da_available a) EStorageIo) (\<lambda>available.
     res_bind (ok_or (checked_add bytes reserve) ESizeLimit) (\<lambda>required.
     if available < required then Inl EInsufficientSpace else Inr available)))"

text \<open>The path is made absolute first, by the caller.\<close>

definition before_transfer :: "dir_answer \<Rightarrow> u64 \<Rightarrow> (EngineError, unit) result" where
  "before_transfer a bytes =
     (if \<not> da_located a then Inl EStorageIo
      else if \<not> da_returns a then Inl EWorkerFailed
      else res_bind (check_space a bytes (1024 * 1024)) (\<lambda>_. Inr ()))"

section \<open>The surroundings of a download\<close>

text \<open>What waiting for a chunk of a body brings: the cancellation, a failure or nothing in 30 seconds,
  bytes (with the limits of that moment) or the end. A list that is used up means nothing comes.\<close>

datatype chunk_event = ChCancelled | ChFails | ChData traffic_control "byte list" | ChEnd

text \<open>The limits when a slice is charged, what happens while it waits, and whether it is cancelled.\<close>

record pace_answer =
  pa_traffic :: traffic_control
  pa_job :: "pace_event list"
  pa_global :: "pace_event list"
  pa_cancelled :: bool

record range_script =
  rs_net :: "engine_exchange list"
  rs_chunks :: "chunk_event list"
  rs_paces :: "pace_answer list"
  rs_rank :: nat
  rs_panics :: bool

text \<open>The answers that are left (to the questions whether it is cancelled, to requests, to waits for
  the body, to pacing, and for the ranges in the order of their offsets), the counts that were
  reported and the requests that were made.\<close>

record 'u engine_io =
  io_checks :: "bool list"
  io_net :: "engine_exchange list"
  io_chunks :: "chunk_event list"
  io_paces :: "pace_answer list"
  io_ranges :: "range_script list"
  io_reported :: "u64 list"
  io_requests :: "'u http_request list"

definition is_cancelled :: "'u engine_io \<Rightarrow> 'u engine_io \<times> bool" where
  "is_cancelled io = (case io_checks io of [] \<Rightarrow> (io, False) | b # bs \<Rightarrow> (io\<lparr>io_checks := bs\<rparr>, b))"

definition on_checkpoint :: "u64 \<Rightarrow> 'u engine_io \<Rightarrow> 'u engine_io" where
  "on_checkpoint n io = io\<lparr>io_reported := io_reported io @ [n]\<rparr>"

definition consume_with :: "pace_answer list \<Rightarrow> u32 \<Rightarrow> pace_answer list \<times> (EngineError, unit) result" where
  "consume_with paces bytes =
     (case paces of
        [] \<Rightarrow> ([], Inr ())
      | p # ps \<Rightarrow> (ps, snd (snd (snd (consume (pa_traffic p) bytes (pa_job p) (pa_global p) (pa_cancelled p))))))"

text \<open>A slice is paced; then the cancellation is looked at once more.\<close>

definition pace_slice :: "u32 \<Rightarrow> 'u engine_io \<Rightarrow> 'u engine_io \<times> EngineError option" where
  "pace_slice bytes io =
     (case consume_with (io_paces io) bytes of
        (ps, Inl e) \<Rightarrow> (io\<lparr>io_paces := ps\<rparr>, Some e)
      | (ps, Inr _) \<Rightarrow>
          (case is_cancelled (io\<lparr>io_paces := ps\<rparr>) of (io1, c) \<Rightarrow> (io1, if c then Some ECancelled else None)))"

function chunks_of :: "nat \<Rightarrow> 'a list \<Rightarrow> 'a list list" where
  "chunks_of n xs = (if xs = [] \<or> n = 0 then [] else take n xs # chunks_of n (drop n xs))"
  by auto
termination by (relation "measure (\<lambda>(n, xs). length xs)") auto

declare chunks_of.simps [simp del]

section \<open>Writing\<close>

text \<open>A download that stops keeps what it has: a checkpoint, a report, and the reason.\<close>

definition engine_stop :: "(byte list \<Rightarrow> digest) \<Rightarrow> EngineError \<Rightarrow> 'u engine_io \<Rightarrow> transfer_store \<Rightarrow>
  'u engine_io \<times> transfer_store \<times> (EngineError, 'a) result" where
  "engine_stop sha error io s =
     (case store_checkpoint sha s of
        (s1, Inl e) \<Rightarrow> (io, s1, Inl (storage_error e))
      | (s1, Inr _) \<Rightarrow> (on_checkpoint (ts_committed s1) io, s1, Inl error))"

definition engine_write :: "(byte list \<Rightarrow> digest) \<Rightarrow> u64 \<Rightarrow> byte list \<Rightarrow> 'u engine_io \<Rightarrow> transfer_store \<Rightarrow>
  'u engine_io \<times> transfer_store \<times> (EngineError, unit) result" where
  "engine_write sha threshold bytes io s =
     (case store_append s bytes of
        (s1, Inl e) \<Rightarrow> (io, s1, Inl (storage_error e))
      | (s1, Inr _) \<Rightarrow>
          (case (if threshold \<le> ts_len s1 - ts_committed s1 then store_checkpoint sha s1 else (s1, Inr ())) of
             (s2, Inl e) \<Rightarrow> (io, s2, Inl (storage_error e))
           | (s2, Inr _) \<Rightarrow> (if ts_len s2 = ts_committed s2 then on_checkpoint (ts_committed s2) io else io, s2, Inr ())))"

fun write_slices :: "(byte list \<Rightarrow> digest) \<Rightarrow> u64 \<Rightarrow> byte list list \<Rightarrow> 'u engine_io \<Rightarrow> transfer_store \<Rightarrow>
  'u engine_io \<times> transfer_store \<times> (EngineError, unit) result" where
  "write_slices sha threshold [] io s = (io, s, Inr ())"
| "write_slices sha threshold (b # bs) io s =
     (case pace_slice (length b) io of
        (io1, Some e) \<Rightarrow> engine_stop sha e io1 s
      | (io1, None) \<Rightarrow>
          (case engine_write sha threshold b io1 s of
             (io2, s1, Inl e) \<Rightarrow> (io2, s1, Inl e)
           | (io2, s1, Inr _) \<Rightarrow> write_slices sha threshold bs io2 s1))"

text \<open>The loop over the body of known length, with the bytes received so far.\<close>

fun receive :: "(byte list \<Rightarrow> digest) \<Rightarrow> u64 \<Rightarrow> u64 \<Rightarrow> u64 \<Rightarrow> chunk_event list \<Rightarrow> 'u engine_io \<Rightarrow> transfer_store \<Rightarrow>
  'u engine_io \<times> transfer_store \<times> (EngineError, u64) result" where
  "receive sha whole threshold received [] io s = engine_stop sha ENetwork io s"
| "receive sha whole threshold received (ChFails # _) io s = engine_stop sha ENetwork io s"
| "receive sha whole threshold received (ChCancelled # _) io s = engine_stop sha ECancelled io s"
| "receive sha whole threshold received (ChEnd # _) io s = (io, s, Inr received)"
| "receive sha whole threshold received (ChData tc bytes # later) io s =
     (case checked_add received (length bytes) of
        None \<Rightarrow> (io, s, Inl EBodyLength)
      | Some n \<Rightarrow>
          if whole < n then (io, s, Inl EBodyLength)
          else
            (case write_slices sha threshold (chunks_of (slice_bytes tc) bytes) io s of
               (io1, s1, Inl e) \<Rightarrow> (io1, s1, Inl e)
             | (io1, s1, Inr _) \<Rightarrow> receive sha whole threshold n later io1 s1))"

section \<open>Without a length\<close>

definition validate_framing :: "engine_response \<Rightarrow> (EngineError, unit) result" where
  "validate_framing r =
     (if get_all (er_headers r) ''content-length'' \<noteq> [] then Inl EInvalidHeaders
      else case (er_version r, header_field (er_headers r) ''transfer-encoding'') of
        (Http11, Single v) \<Rightarrow> if eq_ignore_ascii_case v ''chunked'' then Inr () else Inl EInvalidHeaders
      | (Http2, Missing) \<Rightarrow> Inr ()
      | _ \<Rightarrow> Inl EInvalidHeaders)"

text \<open>The tag a new store is bound to: only a strong one is kept.\<close>

definition response_etag :: "header_map \<Rightarrow> (EngineError, byte list option) result" where
  "response_etag h =
     (case header_field h ''etag'' of
        Missing \<Rightarrow> Inr None
      | Repeated \<Rightarrow> Inl EInvalidHeaders
      | Single v \<Rightarrow>
          if MAX_FIELD_BYTES < length v then Inl EInvalidHeaders
          else (case strong_etag_parse v of
             Inl _ \<Rightarrow> Inr None
           | Inr _ \<Rightarrow> if utf8_ok v then Inr (Some v) else Inl EInvalidHeaders))"

fun receive_unknown :: "(byte list \<Rightarrow> digest) \<Rightarrow> u64 \<Rightarrow> u64 \<Rightarrow> chunk_event list \<Rightarrow> 'u engine_io \<Rightarrow> transfer_store \<Rightarrow>
  'u engine_io \<times> transfer_store \<times> (EngineError, unit) result" where
  "receive_unknown sha limit threshold [] io s = engine_stop sha ENetwork io s"
| "receive_unknown sha limit threshold (ChFails # _) io s = engine_stop sha ENetwork io s"
| "receive_unknown sha limit threshold (ChCancelled # _) io s = engine_stop sha ECancelled io s"
| "receive_unknown sha limit threshold (ChEnd # _) io s = (io, s, Inr ())"
| "receive_unknown sha limit threshold (ChData tc bytes # later) io s =
     (if (case checked_add (ts_len s) (length bytes) of None \<Rightarrow> True | Some n \<Rightarrow> limit < n) then engine_stop sha ESizeLimit io s
      else
        (case write_slices sha threshold (chunks_of (slice_bytes tc) bytes) io s of
           (io1, s1, Inl e) \<Rightarrow> (io1, s1, Inl e)
         | (io1, s1, Inr _) \<Rightarrow> receive_unknown sha limit threshold later io1 s1))"

record engine_outcome =
  eo_bytes :: u64
  eo_resumed_from :: u64
  eo_path :: "nat list"

text \<open>What stays in the directory, and the result. \<open>fails\<close> and \<open>answers\<close> are those of the store that
  is created.\<close>

type_synonym 'u engine_run = "'u engine_io \<times> store_disk option \<times> (EngineError, engine_outcome) result"

definition unknown_finish :: "(byte list \<Rightarrow> digest) \<Rightarrow> 'u engine_io \<Rightarrow> transfer_store \<Rightarrow> 'u engine_run" where
  "unknown_finish sha io s =
     (case is_cancelled io of
        (io1, True) \<Rightarrow> (case engine_stop sha ECancelled io1 s of (io2, s1, r) \<Rightarrow> (io2, Some (ts_disk s1), r))
      | (io1, False) \<Rightarrow>
          (case mark_unknown_transfer_complete sha s of
             (s1, Inl e) \<Rightarrow> (io1, Some (ts_disk s1), Inl (storage_error e))
           | (s1, Inr _) \<Rightarrow>
               (case store_finalize sha s1 of
                  (s2, Inl e) \<Rightarrow> (io1, Some (ts_disk s2), Inl (storage_error e))
                | (s2, Inr path) \<Rightarrow>
                    (on_checkpoint (ts_len s) io1, Some (ts_disk s2),
                     Inr \<lparr>eo_bytes = ts_len s, eo_resumed_from = 0, eo_path = path\<rparr>))))"

definition unknown_transfer :: "(byte list \<Rightarrow> digest) \<Rightarrow> 'u url_lib \<Rightarrow> 'p path_lib \<Rightarrow> dir_answer \<Rightarrow> StoreError option \<Rightarrow> store_answer list \<Rightarrow>
  'p options \<Rightarrow> 'u \<Rightarrow> 'u \<Rightarrow> engine_response \<Rightarrow> 'u engine_io \<Rightarrow> 'u engine_run" where
  "unknown_transfer sha ul pl space fails answers o' original final r io =
     (case res_bind (validate_framing r) (\<lambda>_. response_etag (er_headers r)) of
        Inl e \<Rightarrow> (io, None, Inl e)
      | Inr etag \<Rightarrow>
      (case is_cancelled io of
        (io1, True) \<Rightarrow> (io1, None, Inl ECancelled)
      | (io1, False) \<Rightarrow>
      (case res_bind (ok_or (pl_parent pl (op_job_dir o')) EInvalidOptions) (\<lambda>_. before_transfer space 0) of
        Inl e \<Rightarrow> (io1, None, Inl e)
      | Inr _ \<Rightarrow>
      (case store_create_unknown sha fails
              \<lparr>si_original = url_fingerprint sha (utf8_bytes (ul_as_str ul original)),
               si_final = url_fingerprint sha (utf8_bytes (ul_as_str ul final)), si_etag = etag,
               si_total = op_max_download_bytes o', si_expected = op_expected_sha256 o'\<rparr> (op_output_name o') answers of
        Inl e \<Rightarrow> (io1, None, Inl (storage_error e))
      | Inr s \<Rightarrow>
      (case receive_unknown sha (op_max_download_bytes o') (op_checkpoint_bytes o') (io_chunks io1) io1 s of
        (io2, s1, Inl e) \<Rightarrow> (io2, Some (ts_disk s1), Inl e)
      | (io2, s1, Inr _) \<Rightarrow> unknown_finish sha io2 s1)))))"

section \<open>Ranges side by side\<close>

definition RANGE_BYTES :: u64 where "RANGE_BYTES = 256 * 1024"

record 'u fetch =
  fe_url :: 'u
  fe_allow_http :: bool
  fe_total :: u64
  fe_etag :: "byte list"
  fe_fingerprint :: digest
  fe_policy :: request_policy

fun consume_slices :: "pace_answer list \<Rightarrow> byte list list \<Rightarrow> pace_answer list \<times> (EngineError, unit) result" where
  "consume_slices paces [] = (paces, Inr ())"
| "consume_slices paces (b # bs) =
     (case consume_with paces (length b) of
        (ps, Inl e) \<Rightarrow> (ps, Inl e)
      | (ps, Inr _) \<Rightarrow> consume_slices ps bs)"

fun read_range :: "u64 \<Rightarrow> chunk_event list \<Rightarrow> pace_answer list \<Rightarrow> byte list \<Rightarrow> (EngineError, byte list) result" where
  "read_range wanted [] paces bytes = Inl ENetwork"
| "read_range wanted (ChFails # _) paces bytes = Inl ENetwork"
| "read_range wanted (ChCancelled # _) paces bytes = Inl ECancelled"
| "read_range wanted (ChEnd # _) paces bytes = (if length bytes \<noteq> wanted then Inl EBodyLength else Inr bytes)"
| "read_range wanted (ChData tc chunk # later) paces bytes =
     (if wanted - length bytes < length chunk then Inl EBodyLength
      else case consume_slices paces (chunks_of (slice_bytes tc) chunk) of
        (_, Inl e) \<Rightarrow> Inl e
      | (ps, Inr _) \<Rightarrow> read_range wanted later ps (bytes @ chunk))"

definition response_headers_of :: "header_map \<Rightarrow> response_headers" where
  "response_headers_of h =
     \<lparr>rh_content_range = header_field h ''content-range'', rh_content_length = header_field h ''content-length'',
      rh_etag = header_field h ''etag'', rh_content_encoding = header_field h ''content-encoding''\<rparr>"

definition engine_status :: "engine_response \<Rightarrow> (EngineError, unit) result" where
  "engine_status r =
     (if er_status r \<in> {200, 206} then Inr ()
      else if get_all (er_headers r) ''retry-after'' \<noteq> [] then Inl (EServerBackoff (er_status r))
      else Inl (EHttpStatus (er_status r)))"

definition resumes_exactly :: "u64 \<Rightarrow> u64 \<Rightarrow> u64 \<Rightarrow> byte list \<Rightarrow> engine_response \<Rightarrow> (EngineError, unit) result" where
  "resumes_exactly start final whole etag r =
     res_bind (map_err (\<lambda>_. EResumeUnsupported) (strong_etag_parse etag)) (\<lambda>tag.
     res_bind (map_err (\<lambda>_. EResumeRejected) (resume_request_new start final whole tag)) (\<lambda>expected.
     case evaluate expected (er_status r) (response_headers_of (er_headers r)) of
       ReadRange _ \<Rightarrow> Inr () | _ \<Rightarrow> Inl EResumeRejected))"

text \<open>What is checked of the response to a range before its body is read: \<open>False\<close> is a server that
  sends the whole instead.\<close>

definition range_accepts :: "(byte list \<Rightarrow> digest) \<Rightarrow> 'u url_lib \<Rightarrow> 'u fetch \<Rightarrow> u64 \<Rightarrow> u64 \<Rightarrow> 'u \<Rightarrow> engine_response \<Rightarrow> (EngineError, bool) result" where
  "range_accepts sha ul f start final u r =
     res_bind (engine_status r) (\<lambda>_.
     res_bind (validate_representation (er_headers r)) (\<lambda>_.
     if url_fingerprint sha (utf8_bytes (ul_as_str ul u)) \<noteq> fe_fingerprint f then Inl ERepresentationChanged
     else if header_field (er_headers r) ''etag'' \<noteq> Single (fe_etag f) then Inl ERepresentationChanged
     else if er_status r = 200 then
       res_bind (header_length (er_headers r)) (\<lambda>n.
       if n \<noteq> fe_total f \<or> get_all (er_headers r) ''content-range'' \<noteq> [] then Inl ERepresentationChanged else Inr False)
     else res_bind (resumes_exactly start final (fe_total f) (fe_etag f) r) (\<lambda>_. Inr True)))"

definition fetch_range :: "(byte list \<Rightarrow> digest) \<Rightarrow> 'u url_lib \<Rightarrow> 'u fetch \<Rightarrow> u64 \<Rightarrow> u64 \<Rightarrow> range_script \<Rightarrow>
  'u http_request list \<times> (EngineError, byte list option) result" where
  "fetch_range sha ul f start final script =
     (case engine_request ul (fe_allow_http f) (fe_policy f) (fe_url f) (Some (start, final, fe_etag f)) (rs_net script) of
        (reqs, _, Inl e) \<Rightarrow> (reqs, Inl e)
      | (reqs, _, Inr (u, r)) \<Rightarrow>
          (reqs, res_bind (range_accepts sha ul f start final u r) (\<lambda>partial.
             if \<not> partial then Inr None
             else res_bind (read_range (final - start) (rs_chunks script) (rs_paces script) []) (\<lambda>bytes. Inr (Some bytes)))))"

definition parallel_append :: "(byte list \<Rightarrow> digest) \<Rightarrow> u64 \<Rightarrow> byte list \<Rightarrow> 'u engine_io \<Rightarrow> transfer_store \<Rightarrow>
  'u engine_io \<times> transfer_store \<times> (EngineError, unit) result" where
  "parallel_append sha threshold bytes io s =
     (case is_cancelled io of
        (io1, True) \<Rightarrow> engine_stop sha ECancelled io1 s
      | (io1, False) \<Rightarrow> engine_write sha threshold bytes io1 s)"

fun append_results :: "(byte list \<Rightarrow> digest) \<Rightarrow> u64 \<Rightarrow> (nat \<times> byte list) list \<Rightarrow> 'u engine_io \<Rightarrow> transfer_store \<Rightarrow>
  'u engine_io \<times> transfer_store \<times> (EngineError, unit) result" where
  "append_results sha threshold [] io s = (io, s, Inr ())"
| "append_results sha threshold ((_, bytes) # later) io s =
     (case parallel_append sha threshold bytes io s of
        (io1, s1, Inl e) \<Rightarrow> (io1, s1, Inl e)
      | (io1, s1, Inr _) \<Rightarrow> append_results sha threshold later io1 s1)"

text \<open>The ranges of a window, each with its index.\<close>

fun window_ranges :: "nat \<Rightarrow> nat \<Rightarrow> u64 \<Rightarrow> u64 \<Rightarrow> (nat \<times> u64 \<times> u64) list" where
  "window_ranges index 0 offset whole = []"
| "window_ranges index (Suc n) offset whole =
     (if offset = whole then []
      else let final = offset + min RANGE_BYTES (whole - offset) in
        (index, offset, final) # window_ranges (Suc index) n final whole)"

definition window_end :: "u64 \<Rightarrow> (nat \<times> u64 \<times> u64) list \<Rightarrow> u64" where
  "window_end offset ranges = (case rev ranges of [] \<Rightarrow> offset | (_, _, final) # _ \<Rightarrow> final)"

definition no_script :: range_script where
  "no_script = \<lparr>rs_net = [], rs_chunks = [], rs_paces = [], rs_rank = 0, rs_panics = False\<rparr>"

definition script_at :: "range_script list \<Rightarrow> nat \<Rightarrow> range_script" where
  "script_at scripts i = (if i < length scripts then scripts ! i else no_script)"

text \<open>The workers' results in the order they come back.\<close>

definition worker_result :: "(byte list \<Rightarrow> digest) \<Rightarrow> 'u url_lib \<Rightarrow> 'u fetch \<Rightarrow> range_script list \<Rightarrow> nat \<times> u64 \<times> u64 \<Rightarrow>
  nat \<times> (EngineError, byte list option) result" where
  "worker_result sha ul f scripts x =
     (case x of (i, start, final) \<Rightarrow>
        (i, if rs_panics (script_at scripts i) then Inl EWorkerFailed else snd (fetch_range sha ul f start final (script_at scripts i))))"

definition joined_order :: "range_script list \<Rightarrow> (nat \<times> 'a) list \<Rightarrow> (nat \<times> 'a) list" where
  "joined_order scripts results = sort_key (\<lambda>(i, _). rs_rank (script_at scripts i)) results"

fun joined_workers :: "(nat \<times> (EngineError, byte list option) result) list \<Rightarrow> (nat \<times> byte list) list \<Rightarrow>
  (EngineError, (nat \<times> byte list) list) result" where
  "joined_workers [] results = Inr results"
| "joined_workers ((i, Inr (Some bytes)) # later) results = joined_workers later (results @ [(i, bytes)])"
| "joined_workers ((i, Inr None) # later) results = Inl EResumeRejected"
| "joined_workers ((i, Inl e) # later) results = Inl e"

lemma window_ranges_end:
  "window_ranges i n offset whole = r \<Longrightarrow> offset \<le> whole \<Longrightarrow> offset \<le> window_end offset r \<and> window_end offset r \<le> whole \<and>
     (offset < whole \<longrightarrow> 0 < n \<longrightarrow> offset < window_end offset r)"
proof (induction n arbitrary: i offset r)
  case 0
  then show ?case by (auto simp: window_end_def)
next
  case (Suc n)
  show ?case
  proof (cases "offset = whole")
    case True
    then show ?thesis using Suc.prems by (auto simp: window_end_def)
  next
    case False
    define e where "e = offset + min RANGE_BYTES (whole - offset)"
    have e: "offset < e" "e \<le> whole" using False Suc.prems(2) by (auto simp: e_def RANGE_BYTES_def)
    have r: "r = (i, offset, e) # window_ranges (Suc i) n e whole" using Suc.prems(1) False by (auto simp: Let_def e_def)
    have "window_end offset ((i, offset, e) # l) = window_end e l" for l
      by (auto simp: window_end_def split: list.splits)
    then show ?thesis using Suc.IH [OF refl e(2), of "Suc i"] e by (simp add: r)
  qed
qed

lemma window_advances: "offset < whole \<Longrightarrow> 0 < n \<Longrightarrow> offset < window_end offset (window_ranges i n offset whole)"
  using window_ranges_end [OF refl, of offset whole i n] by simp

text \<open>The loop over the windows. The number of connections is at least one: the options are refused
  otherwise. All requests of a window are recorded, those of workers that are aborted included.\<close>

function transfer_windows :: "(byte list \<Rightarrow> digest) \<Rightarrow> 'u url_lib \<Rightarrow> 'u fetch \<Rightarrow> u8 \<Rightarrow> u64 \<Rightarrow> u64 \<Rightarrow> 'u engine_io \<Rightarrow> transfer_store \<Rightarrow>
  'u engine_io \<times> transfer_store \<times> (EngineError, unit) result" where
  "transfer_windows sha ul f connections threshold offset io s =
     (if \<not> (offset < fe_total f \<and> 0 < connections) then (io, s, Inr ())
      else
        let ranges = window_ranges 0 connections offset (fe_total f);
            scripts = take (length ranges) (io_ranges io);
            io1 = io\<lparr>io_ranges := drop (length ranges) (io_ranges io),
                     io_requests := io_requests io @ concat (map (\<lambda>(i, start, final). fst (fetch_range sha ul f start final (script_at scripts i))) ranges)\<rparr> in
        (case joined_workers (joined_order scripts (map (worker_result sha ul f scripts) ranges)) [] of
           Inl e \<Rightarrow> engine_stop sha e io1 s
         | Inr results \<Rightarrow>
             (case append_results sha threshold (sort_key fst results) io1 s of
                (io2, s1, Inl e) \<Rightarrow> (io2, s1, Inl e)
              | (io2, s1, Inr _) \<Rightarrow> transfer_windows sha ul f connections threshold (window_end offset ranges) io2 s1)))"
  by auto

termination
  by (relation "measure (\<lambda>(_, _, f, _, _, offset, _, _). fe_total f - offset)") (auto intro!: diff_less_mono2 window_advances)

declare transfer_windows.simps [simp del]

text \<open>The first range decides: \<open>False\<close> is a server without ranges, whose first response is read on.\<close>

definition parallel_transfer :: "(byte list \<Rightarrow> digest) \<Rightarrow> 'u url_lib \<Rightarrow> 'p options \<Rightarrow> 'u \<Rightarrow> 'u engine_io \<Rightarrow> transfer_store \<Rightarrow>
  'u engine_io \<times> transfer_store \<times> (EngineError, bool) result" where
  "parallel_transfer sha ul o' url io s =
     (case si_etag (ts_identity s) of
        None \<Rightarrow> (io, s, Inl EResumeUnsupported)
      | Some etag \<Rightarrow>
          let f = \<lparr>fe_url = url, fe_allow_http = op_allow_http o', fe_total = si_total (ts_identity s), fe_etag = etag,
                   fe_fingerprint = si_final (ts_identity s), fe_policy = op_request_policy o'\<rparr>;
              offset = ts_len s;
              final = offset + min RANGE_BYTES (fe_total f - offset);
              script = script_at (io_ranges io) 0;
              x = fetch_range sha ul f offset final script;
              io1 = io\<lparr>io_ranges := tl (io_ranges io), io_requests := io_requests io @ fst x\<rparr> in
          (case snd x of
             Inl e \<Rightarrow> (io1, s, Inl e)
           | Inr None \<Rightarrow> (io1, s, Inr False)
           | Inr (Some bytes) \<Rightarrow>
               (case parallel_append sha (op_checkpoint_bytes o') bytes io1 s of
                  (io2, s1, Inl e) \<Rightarrow> (io2, s1, Inl e)
                | (io2, s1, Inr _) \<Rightarrow>
                    (case transfer_windows sha ul f (op_parallel_connections o') (op_checkpoint_bytes o') final io2 s1 of
                       (io3, s2, Inl e) \<Rightarrow> (io3, s2, Inl e)
                     | (io3, s2, Inr _) \<Rightarrow> (io3, s2, Inr True)))))"

section \<open>A download\<close>

text \<open>What is asked of the operating system: the client can be built, what the directory is, and what
  fails of opening or creating the store.\<close>

datatype job_directory = JobUnreadable | JobAbsent | JobStored store_disk

record engine_world =
  ew_client :: bool
  ew_directory :: job_directory
  ew_open_fails :: "StoreError option"
  ew_create_fails :: "StoreError option"
  ew_answers :: "store_answer list"
  ew_space :: dir_answer

definition check_options :: "'u url_lib \<Rightarrow> 'p options \<Rightarrow> (EngineError, 'u) result" where
  "check_options ul o' =
     (if \<not> valid_limit (op_bytes_per_second o') \<or> \<not> (1 \<le> op_parallel_connections o' \<and> op_parallel_connections o' \<le> 8) \<or>
         op_checkpoint_bytes o' = 0 \<or> 64 * 1024 * 1024 < op_checkpoint_bytes o' \<or>
         op_max_download_bytes o' = 0 \<or> I64_MAX < op_max_download_bytes o' then Inl EInvalidOptions
      else
      res_bind (policy_validate ul (op_request_policy o')) (\<lambda>_.
      if op_refresh_from o' \<noteq> None \<and> op_expected_sha256 o' = None then Inl EInvalidOptions
      else engine_url ul (op_url o') (op_allow_http o')))"

definition check_stored :: "(byte list \<Rightarrow> digest) \<Rightarrow> 'u url_lib \<Rightarrow> 'p options \<Rightarrow> 'u \<Rightarrow> transfer_store \<Rightarrow> (EngineError, unit) result" where
  "check_stored sha ul o' original s =
     (let i = ts_identity s in
      if (si_original i \<noteq> url_fingerprint sha (utf8_bytes (ul_as_str ul original)) \<and> op_refresh_from o' \<noteq> Some (si_original i)) \<or>
         si_expected i \<noteq> op_expected_sha256 o' \<or> ts_output s \<noteq> op_output_name o' then Inl ELocalStateMismatch
      else if op_max_download_bytes o' < si_total i then Inl ESizeLimit
      else Inr ())"

definition core_event :: "CoreEvent \<Rightarrow> download \<Rightarrow> (EngineError, download) result" where
  "core_event e job = map_err (\<lambda>_. EInvalidTransition) (res_bind (download_event job (dl_attempt job) e) (\<lambda>(job', _). Inr job'))"

definition job_started :: "(EngineError, download) result" where
  "job_started = map_err (\<lambda>_. EInvalidTransition) (res_bind (download_command (download_new 1) DStart) (\<lambda>(job', _). Inr job'))"

text \<open>What a response must be to continue a store.\<close>

definition continues :: "'p options \<Rightarrow> digest \<Rightarrow> engine_response \<Rightarrow> transfer_store \<Rightarrow> (EngineError, unit) result" where
  "continues o' final_fingerprint r s =
     (let i = ts_identity s; start = ts_committed s in
      if final_fingerprint \<noteq> si_final i \<and> op_refresh_from o' = None then Inl ERepresentationChanged
      else if 0 < start then
        res_bind (ok_or (si_etag i) EResumeUnsupported) (\<lambda>etag. resumes_exactly start (si_total i) (si_total i) etag r)
      else if er_status r \<noteq> 200 then Inl (EHttpStatus (er_status r))
      else if get_all (er_headers r) ''content-range'' \<noteq> [] then Inl EInvalidHeaders
      else
      res_bind (header_length (er_headers r)) (\<lambda>n.
      if n \<noteq> si_total i then Inl ERepresentationChanged
      else (case si_etag i of
         None \<Rightarrow> Inr ()
       | Some tag \<Rightarrow> if header_field (er_headers r) ''etag'' \<noteq> Single tag then Inl ERepresentationChanged else Inr ())))"

text \<open>The end of a transfer of known length.\<close>

definition complete_transfer :: "(byte list \<Rightarrow> digest) \<Rightarrow> u64 \<Rightarrow> u64 \<Rightarrow> download \<Rightarrow> u64 \<Rightarrow> 'u engine_io \<Rightarrow> transfer_store \<Rightarrow> 'u engine_run" where
  "complete_transfer sha whole start job received io s =
     (if received \<noteq> whole then (io, Some (ts_disk s), Inl EBodyLength)
      else
      (case is_cancelled io of
        (io1, True) \<Rightarrow> (case engine_stop sha ECancelled io1 s of (io2, s1, r) \<Rightarrow> (io2, Some (ts_disk s1), r))
      | (io1, False) \<Rightarrow>
      (case core_event ETransferFinished job of
        Inl e \<Rightarrow> (io1, Some (ts_disk s), Inl e)
      | Inr job1 \<Rightarrow>
      (case mark_transfer_complete sha s of
        (s1, Inl e) \<Rightarrow> (io1, Some (ts_disk s1), Inl (storage_error e))
      | (s1, Inr _) \<Rightarrow>
      (case store_finalize sha s1 of
        (s2, Inl e) \<Rightarrow> (io1, Some (ts_disk s2), Inl (storage_error e))
      | (s2, Inr path) \<Rightarrow>
          (io1, Some (ts_disk s2),
           res_bind (res_bind (core_event EVerified job1) (core_event EPublishSucceeded)) (\<lambda>_.
             Inr \<lparr>eo_bytes = whole, eo_resumed_from = start, eo_path = path\<rparr>)))))))"

definition transfer_body :: "(byte list \<Rightarrow> digest) \<Rightarrow> 'u url_lib \<Rightarrow> 'p options \<Rightarrow> 'u \<Rightarrow> u64 \<Rightarrow> download \<Rightarrow> 'u engine_io \<Rightarrow> transfer_store \<Rightarrow> 'u engine_run" where
  "transfer_body sha ul o' original start job io s =
     (let whole = si_total (ts_identity s);
          split = (1 < op_parallel_connections o' \<and> RANGE_BYTES < whole - start \<and> si_etag (ts_identity s) \<noteq> None) in
      case (if split then parallel_transfer sha ul o' original io s else (io, s, Inr False)) of
        (io1, s1, Inl e) \<Rightarrow> (io1, Some (ts_disk s1), Inl e)
      | (io1, s1, Inr True) \<Rightarrow> complete_transfer sha whole start job (ts_len s1) io1 s1
      | (io1, s1, Inr False) \<Rightarrow>
          (case receive sha whole (op_checkpoint_bytes o') (if split then ts_len s1 else start) (io_chunks io1) io1 s1 of
             (io2, s2, Inl e) \<Rightarrow> (io2, Some (ts_disk s2), Inl e)
           | (io2, s2, Inr received) \<Rightarrow> complete_transfer sha whole start job received io2 s2))"

text \<open>From the accepted response on: the probe has succeeded and, after a refresh, the store is bound to
  the new URLs.\<close>

definition begin_transfer :: "(byte list \<Rightarrow> digest) \<Rightarrow> 'u url_lib \<Rightarrow> 'p options \<Rightarrow> 'u \<Rightarrow> digest \<Rightarrow> u64 \<Rightarrow> download \<Rightarrow> 'u engine_io \<Rightarrow> transfer_store \<Rightarrow>
  'u engine_run" where
  "begin_transfer sha ul o' original final_fingerprint start job io s =
     (case core_event EProbeSucceeded job of
        Inl e \<Rightarrow> (io, Some (ts_disk s), Inl e)
      | Inr job1 \<Rightarrow>
          (case (if op_refresh_from o' \<noteq> None then rebind_urls s (url_fingerprint sha (utf8_bytes (ul_as_str ul original))) final_fingerprint
                 else (s, Inr ())) of
             (s1, Inl e) \<Rightarrow> (io, Some (ts_disk s1), Inl (storage_error e))
           | (s1, Inr _) \<Rightarrow> transfer_body sha ul o' original start job1 io s1))"

text \<open>The request and what is checked of every response.\<close>

definition engine_probe :: "(byte list \<Rightarrow> digest) \<Rightarrow> 'u url_lib \<Rightarrow> 'p options \<Rightarrow> 'u \<Rightarrow> (u64 \<times> u64 \<times> byte list) option \<Rightarrow> 'u engine_io \<Rightarrow>
  'u engine_io \<times> (EngineError, 'u \<times> engine_response \<times> download) result" where
  "engine_probe sha ul o' original wanted io =
     (case engine_request ul (op_allow_http o') (op_request_policy o') original wanted (io_net io) of
        (reqs, net, answer) \<Rightarrow>
          (io\<lparr>io_net := net, io_requests := io_requests io @ reqs\<rparr>,
           res_bind answer (\<lambda>(u, r).
           res_bind (engine_status r) (\<lambda>_.
           res_bind (validate_representation (er_headers r)) (\<lambda>_.
           res_bind job_started (\<lambda>job. Inr (u, r, job)))))))"

definition resume_range :: "transfer_store \<Rightarrow> (EngineError, (u64 \<times> u64 \<times> byte list) option) result" where
  "resume_range s =
     (if 0 < ts_committed s then
        res_bind (ok_or (si_etag (ts_identity s)) EResumeUnsupported) (\<lambda>etag.
        res_bind (map_err (\<lambda>_. EResumeUnsupported) (strong_etag_parse etag)) (\<lambda>_.
        Inr (Some (ts_committed s, si_total (ts_identity s), etag))))
      else Inr None)"

text \<open>A directory that holds a store: it is published, or continued.\<close>

definition download_stored :: "(byte list \<Rightarrow> digest) \<Rightarrow> 'u url_lib \<Rightarrow> engine_world \<Rightarrow> 'p options \<Rightarrow> 'u \<Rightarrow> 'u engine_io \<Rightarrow> transfer_store \<Rightarrow>
  'u engine_run" where
  "download_stored sha ul w o' original io s =
     (let start = ts_committed s; whole = si_total (ts_identity s); stay = Some (ts_disk s) in
      case res_bind (check_stored sha ul o' original s) (\<lambda>_.
             if store_status s = Downloading \<and> \<not> ts_unknown_length s then before_transfer (ew_space w) (whole - start) else Inr ()) of
        Inl e \<Rightarrow> (io, stay, Inl e)
      | Inr _ \<Rightarrow>
      let io = (if 0 < start then on_checkpoint start io else io) in
      if store_status s \<in> {ReadyToPublish, StorePublished} then
        (case is_cancelled io of
           (io1, True) \<Rightarrow> (io1, stay, Inl ECancelled)
         | (io1, False) \<Rightarrow>
             (case store_finalize sha s of
                (s1, Inl e) \<Rightarrow> (io1, Some (ts_disk s1), Inl (storage_error e))
              | (s1, Inr path) \<Rightarrow> (io1, Some (ts_disk s1), Inr \<lparr>eo_bytes = whole, eo_resumed_from = start, eo_path = path\<rparr>)))
      else if ts_unknown_length s then (io, stay, Inl EResumeUnsupported)
      else if start = whole \<and> 0 < start then (io, stay, Inl EResumeRejected)
      else
      (case resume_range s of
        Inl e \<Rightarrow> (io, stay, Inl e)
      | Inr wanted \<Rightarrow>
      (case engine_probe sha ul o' original wanted io of
        (io1, Inl e) \<Rightarrow> (io1, stay, Inl e)
      | (io1, Inr (u, r, job)) \<Rightarrow>
      let fingerprint = url_fingerprint sha (utf8_bytes (ul_as_str ul u)) in
      (case continues o' fingerprint r s of
        Inl e \<Rightarrow> (io1, stay, Inl e)
      | Inr _ \<Rightarrow> begin_transfer sha ul o' original fingerprint start job io1 s))))"

definition download_fresh :: "(byte list \<Rightarrow> digest) \<Rightarrow> 'u url_lib \<Rightarrow> 'p path_lib \<Rightarrow> engine_world \<Rightarrow> 'p options \<Rightarrow> 'u \<Rightarrow> 'u engine_io \<Rightarrow> 'u engine_run" where
  "download_fresh sha ul pl w o' original io =
     (case engine_probe sha ul o' original None io of
        (io1, Inl e) \<Rightarrow> (io1, None, Inl e)
      | (io1, Inr (u, r, job)) \<Rightarrow>
      if er_status r \<noteq> 200 then (io1, None, Inl (EHttpStatus (er_status r)))
      else if get_all (er_headers r) ''content-range'' \<noteq> [] then (io1, None, Inl EInvalidHeaders)
      else if get_all (er_headers r) ''content-length'' = [] then
        unknown_transfer sha ul pl (ew_space w) (ew_create_fails w) (ew_answers w) o' original u r io1
      else
      (case res_bind (header_length (er_headers r)) (\<lambda>whole.
            if op_max_download_bytes o' < whole then Inl ESizeLimit
            else
            res_bind (ok_or (pl_parent pl (op_job_dir o')) EInvalidOptions) (\<lambda>_.
            res_bind (before_transfer (ew_space w) whole) (\<lambda>_.
            res_bind (response_etag (er_headers r)) (\<lambda>etag.
            map_err storage_error
              (store_create sha (ew_create_fails w)
                 \<lparr>si_original = url_fingerprint sha (utf8_bytes (ul_as_str ul original)),
                  si_final = url_fingerprint sha (utf8_bytes (ul_as_str ul u)), si_etag = etag, si_total = whole,
                  si_expected = op_expected_sha256 o'\<rparr> (op_output_name o') (ew_answers w)))))) of
        Inl e \<Rightarrow> (io1, None, Inl e)
      | Inr s \<Rightarrow> begin_transfer sha ul o' original (url_fingerprint sha (utf8_bytes (ul_as_str ul u))) 0 job io1 s))"

definition download_controlled :: "(byte list \<Rightarrow> digest) \<Rightarrow> 'u url_lib \<Rightarrow> 'p path_lib \<Rightarrow> engine_world \<Rightarrow> 'p options \<Rightarrow> 'u engine_io \<Rightarrow> 'u engine_run" where
  "download_controlled sha ul pl w o' io =
     (let stay = (case ew_directory w of JobStored d \<Rightarrow> Some d | _ \<Rightarrow> None) in
      case check_options ul o' of
        Inl e \<Rightarrow> (io, stay, Inl e)
      | Inr original \<Rightarrow>
      (case is_cancelled io of
        (io1, True) \<Rightarrow> (io1, stay, Inl ECancelled)
      | (io1, False) \<Rightarrow>
      if \<not> ew_client w then (io1, stay, Inl ENetwork)
      else
      (case ew_directory w of
        JobUnreadable \<Rightarrow> (io1, stay, Inl EStorageIo)
      | JobAbsent \<Rightarrow>
          (case is_cancelled io1 of
             (io2, True) \<Rightarrow> (io2, stay, Inl ECancelled)
           | (io2, False) \<Rightarrow> download_fresh sha ul pl w o' original io2)
      | JobStored d \<Rightarrow>
          (case store_open sha (ew_open_fails w) d (ew_answers w) of
             (d1, Inl e) \<Rightarrow> (io1, Some d1, Inl (storage_error e))
           | (d1, Inr s) \<Rightarrow>
               (case is_cancelled io1 of
                  (io2, True) \<Rightarrow> (io2, Some d1, Inl ECancelled)
                | (io2, False) \<Rightarrow> download_stored sha ul w o' original io2 s)))))"

end
