(* ===== verification/Engine_Runs.thy ===== *)
theory Engine_Runs
  imports Engine Store_Props
begin

text \<open>
  What a download keeps and what it delivers: whatever happens, committed bytes stay and every count
  that is reported is one of committed bytes; a download that succeeds has published the whole of the
  resource, made of what was committed before and of the bodies it received, in order; and its
  requests go where its URL and its policy allow.
\<close>

section \<open>Frames of the store's operations\<close>

lemma attempt_effect_frame:
  "attempt_effect e f s = (s', r) \<Longrightarrow> ts_hashed s' = ts_hashed s \<and> ts_identity s' = ts_identity s \<and> ts_output s' = ts_output s \<and>
     ts_unknown_length s' = ts_unknown_length s \<and> ts_len s' = ts_len s \<and> ts_phase s' = ts_phase s"
  by (erule attempt_effect_cases) simp_all

lemma checkpoint_frame:
  "store_checkpoint sha s = (s', r) \<Longrightarrow> ts_hashed s' = ts_hashed s \<and> ts_identity s' = ts_identity s \<and> ts_output s' = ts_output s \<and>
     ts_unknown_length s' = ts_unknown_length s \<and> ts_len s' = ts_len s \<and> ts_phase s' = ts_phase s"
  by (auto simp: store_checkpoint_def split: if_splits prod.splits sum.splits dest!: attempt_effect_frame)

lemma mark_frame:
  "mark_transfer_complete sha s = (s', r) \<Longrightarrow> ts_hashed s' = ts_hashed s \<and> ts_identity s' = ts_identity s \<and> ts_output s' = ts_output s"
  by (auto simp: mark_transfer_complete_def split: if_splits prod.splits sum.splits dest!: attempt_effect_frame checkpoint_frame)

lemma mark_unknown_frame:
  "mark_unknown_transfer_complete sha s = (s', r) \<Longrightarrow> ts_hashed s' = ts_hashed s \<and> ts_output s' = ts_output s \<and>
     ts_len s' = ts_len s \<and> si_expected (ts_identity s') = si_expected (ts_identity s)"
  by (auto simp: mark_unknown_transfer_complete_def Let_def split: if_splits prod.splits sum.splits dest!: attempt_effect_frame checkpoint_frame)

lemma rebind_frame:
  "rebind_urls s a b = (s', Inr u) \<Longrightarrow> ts_hashed s' = ts_hashed s \<and> ts_output s' = ts_output s \<and> ts_len s' = ts_len s \<and>
     ts_unknown_length s' = ts_unknown_length s \<and> ts_phase s' = 0 \<and> \<not> ts_poisoned s' \<and>
     si_expected (ts_identity s') = si_expected (ts_identity s) \<and> si_total (ts_identity s') = si_total (ts_identity s)"
  by (auto simp: rebind_urls_def split: if_splits prod.splits sum.splits dest!: attempt_effect_frame)

lemma append_Inr:
  assumes "store_append s bytes = (s', Inr u)"
  shows "ts_hashed s' = ts_hashed s @ bytes \<and> ts_identity s' = ts_identity s \<and> ts_output s' = ts_output s \<and>
    ts_unknown_length s' = ts_unknown_length s \<and> ts_len s' = ts_len s + length bytes \<and> ts_phase s' = 0 \<and> \<not> ts_poisoned s'"
proof -
  obtain n where n: "checked_add (ts_len s) (length bytes) = Some n" using assms by (auto simp: store_append_def split: if_splits option.splits)
  then have n': "n = ts_len s + length bytes" by (simp add: checked_add_eq_Some)
  have "\<not> (ts_poisoned s \<or> ts_phase s \<noteq> 0)" using assms by (auto simp: store_append_def split: if_splits)
  then show ?thesis using assms [unfolded store_append_def n option.case]
    by (cases "ts_answers s") (auto simp: n' take_answer_def split: if_splits store_answer.splits)
qed

section \<open>Progress\<close>

text \<open>Counts are reported in ascending order, none below what was committed before and none above what
  is committed after.\<close>

definition reports :: "'u engine_io \<Rightarrow> nat \<Rightarrow> 'u engine_io \<Rightarrow> nat \<Rightarrow> bool" where
  "reports io m io' n \<longleftrightarrow> m \<le> n \<and> (\<exists>new. io_reported io' = io_reported io @ new \<and> sorted new \<and> (\<forall>x \<in> set new. m \<le> x \<and> x \<le> n))"

lemma reports_same: "io_reported io' = io_reported io \<Longrightarrow> m \<le> n \<Longrightarrow> reports io m io' n"
  unfolding reports_def by (rule conjI, assumption, rule exI [of _ "[]"]) simp

lemma reports_one: "io_reported io' = io_reported io @ [x] \<Longrightarrow> m \<le> x \<Longrightarrow> x \<le> n \<Longrightarrow> reports io m io' n"
  unfolding reports_def by (rule conjI, erule (1) le_trans, rule exI [of _ "[x]"]) simp

lemma reports_trans:
  assumes "reports io m io1 k" "reports io1 k io' n"
  shows "reports io m io' n"
proof -
  obtain a b where a: "io_reported io1 = io_reported io @ a" "sorted a" "\<forall>x \<in> set a. m \<le> x \<and> x \<le> k" "m \<le> k"
    and b: "io_reported io' = io_reported io1 @ b" "sorted b" "\<forall>x \<in> set b. k \<le> x \<and> x \<le> n" "k \<le> n"
    using assms by (auto simp: reports_def)
  have "sorted (a @ b)" using a b by (fastforce simp: sorted_append)
  moreover have "\<forall>x \<in> set (a @ b). m \<le> x \<and> x \<le> n" using a b by fastforce
  ultimately show ?thesis unfolding reports_def using a(1,4) b(1,4) by (intro conjI exI [of _ "a @ b"]) auto
qed

definition moves :: "(byte list \<Rightarrow> digest) \<Rightarrow> 'u engine_io \<Rightarrow> transfer_store \<Rightarrow> 'u engine_io \<Rightarrow> transfer_store \<Rightarrow> bool" where
  "moves sha io s io' s' \<longleftrightarrow> advances sha s s' \<and>
     reports io (length (committed_bytes (ts_disk s))) io' (length (committed_bytes (ts_disk s'))) \<and> io_chunks io' = io_chunks io"

lemma moves_trans: "moves sha io s io1 s1 \<Longrightarrow> moves sha io1 s1 io' s' \<Longrightarrow> moves sha io s io' s'"
  unfolding moves_def using advances_trans reports_trans by metis

lemma moves_ok: "moves sha io s io' s' \<Longrightarrow> store_ok sha s'"
  by (simp add: moves_def advances_def)

lemma moves_silent:
  "advances sha s s' \<Longrightarrow> io_reported io' = io_reported io \<Longrightarrow> io_chunks io' = io_chunks io \<Longrightarrow> moves sha io s io' s'"
  by (auto simp: moves_def advances_def intro!: reports_same prefix_length_le)

lemma moves_refl: "store_ok sha s \<Longrightarrow> io_reported io' = io_reported io \<Longrightarrow> io_chunks io' = io_chunks io \<Longrightarrow> moves sha io s io' s"
  by (rule moves_silent [OF advances_refl])

lemma committed_count:
  assumes "store_ok sha s" "\<not> ts_poisoned s"
  shows "ts_committed s = length (committed_bytes (ts_disk s))"
  using assms by (auto simp: store_ok_def in_step_def disk_ok_def Let_def committed_bytes_def)

lemma moves_reported:
  assumes "advances sha s s'" "\<not> ts_poisoned s'"
  shows "moves sha io s (on_checkpoint (ts_committed s') io) s'"
  using assms committed_count [of sha s']
  by (auto simp: moves_def advances_def on_checkpoint_def intro!: reports_one prefix_length_le)

lemma is_cancelled_frame: "is_cancelled io = (io', c) \<Longrightarrow> io_reported io' = io_reported io \<and> io_chunks io' = io_chunks io \<and> io_ranges io' = io_ranges io \<and> io_requests io' = io_requests io"
  by (auto simp: is_cancelled_def split: list.splits)

lemma pace_slice_frame: "pace_slice n io = (io', e) \<Longrightarrow> io_reported io' = io_reported io \<and> io_chunks io' = io_chunks io \<and> io_ranges io' = io_ranges io \<and> io_requests io' = io_requests io"
  by (auto simp: pace_slice_def split: prod.splits sum.splits dest!: is_cancelled_frame)

lemma engine_stop_moves:
  assumes "engine_stop sha e io s = (io', s', r)" "store_ok sha s"
  shows "moves sha io s io' s' \<and> isl r \<and> io_requests io' = io_requests io"
proof -
  obtain s1 x where c: "store_checkpoint sha s = (s1, x)" by fastforce
  note adv = checkpoint_advances [OF c assms(2)]
  show ?thesis
  proof (cases x)
    case (Inl a)
    then show ?thesis using assms(1) c adv by (auto simp: engine_stop_def intro: moves_silent)
  next
    case (Inr u)
    then have "\<not> ts_poisoned s1" using adv by simp
    then show ?thesis using assms(1) c adv Inr moves_reported [of sha s s1 io] by (auto simp: engine_stop_def on_checkpoint_def)
  qed
qed

text \<open>A store that is being written stays the same job.\<close>

definition writing :: "transfer_store \<Rightarrow> transfer_store \<Rightarrow> bool" where
  "writing s s' \<longleftrightarrow> ts_identity s' = ts_identity s \<and> ts_output s' = ts_output s \<and> ts_unknown_length s' = ts_unknown_length s"

lemma writing_trans: "writing s t \<Longrightarrow> writing t u \<Longrightarrow> writing s u"
  by (simp add: writing_def)

lemma engine_write_moves:
  assumes "engine_write sha threshold bytes io s = (io', s', r)" "store_ok sha s"
  shows "moves sha io s io' s' \<and> io_requests io' = io_requests io \<and> io_ranges io' = io_ranges io \<and>
    (r = Inr () \<longrightarrow> writing s s' \<and> ts_hashed s' = ts_hashed s @ bytes)"
proof -
  obtain s1 x where a: "store_append s bytes = (s1, x)" by fastforce
  have adv1: "advances sha s s1" by (rule append_advances [OF a assms(2)])
  then have ok1: "store_ok sha s1" by (simp add: advances_def)
  show ?thesis
  proof (cases x)
    case (Inl e)
    then show ?thesis using assms(1) a adv1 by (auto simp: engine_write_def intro: moves_silent)
  next
    case (Inr u)
    note f1 = append_Inr [OF a [unfolded Inr]]
    obtain s2 y where c: "(if threshold \<le> ts_len s1 - ts_committed s1 then store_checkpoint sha s1 else (s1, Inr ())) = (s2, y)" by fastforce
    have c2: "advances sha s1 s2" "y = Inr () \<Longrightarrow> \<not> ts_poisoned s2" "ts_hashed s2 = ts_hashed s1" "writing s1 s2"
      using c checkpoint_advances [of sha s1 s2 y] checkpoint_frame [of sha s1 s2 y] ok1 f1 advances_refl [OF ok1]
      by (auto simp: writing_def split: if_splits)
    have adv: "advances sha s s2" by (rule advances_trans [OF adv1 c2(1)])
    show ?thesis
    proof (cases y)
      case (Inl e)
      then show ?thesis using assms(1) a c Inr adv by (auto simp: engine_write_def intro: moves_silent)
    next
      case Inr2: (Inr v)
      have "writing s s2" "ts_hashed s2 = ts_hashed s @ bytes" using f1 c2(3,4) by (auto simp: writing_def)
      then show ?thesis using assms(1) a c Inr Inr2 c2(2) moves_silent [OF adv, of io io] moves_reported [OF adv, of io]
        by (auto simp: engine_write_def on_checkpoint_def)
    qed
  qed
qed

lemma write_slices_moves:
  assumes "write_slices sha threshold bs io s = (io', s', r)" "store_ok sha s"
  shows "moves sha io s io' s' \<and> io_requests io' = io_requests io \<and> (r = Inr () \<longrightarrow> writing s s' \<and> ts_hashed s' = ts_hashed s @ concat bs)"
  using assms
proof (induction bs arbitrary: io s)
  case Nil
  then show ?case by (auto simp: writing_def intro: moves_refl)
next
  case (Cons b bs)
  obtain io1 e where p: "pace_slice (length b) io = (io1, e)" by fastforce
  note f = pace_slice_frame [OF p]
  have m0: "moves sha io s io1 s" using moves_refl [OF Cons.prems(2)] f by blast
  show ?case
  proof (cases e)
    case (Some a)
    then show ?thesis using Cons.prems p f engine_stop_moves [of sha a io1 s io' s' r] moves_trans [OF m0] by auto
  next
    case None
    obtain io2 s1 x where w: "engine_write sha threshold b io1 s = (io2, s1, x)" using prod_cases3 by blast
    note w1 = engine_write_moves [OF w Cons.prems(2)]
    then have m1: "moves sha io s io2 s1" using moves_trans [OF m0] by blast
    show ?thesis
    proof (cases x)
      case (Inl a)
      then show ?thesis using Cons.prems p f None w w1 m1 by auto
    next
      case (Inr u)
      have "write_slices sha threshold bs io2 s1 = (io', s', r)" using Cons.prems(1) p None w Inr by simp
      note IH = Cons.IH [OF this moves_ok [OF m1]]
      then show ?thesis using moves_trans [OF m1] w1 f Inr writing_trans [of s s1 s'] by auto
    qed
  qed
qed

lemma concat_chunks: "0 < n \<Longrightarrow> concat (chunks_of n xs) = xs"
  by (induction n xs rule: chunks_of.induct) (subst chunks_of.simps, auto)

lemma slice_bytes_pos: "0 < slice_bytes tc"
  using slice_bytes_bounds [of tc] by simp

fun body_of :: "chunk_event list \<Rightarrow> byte list" where
  "body_of (ChData _ bytes # later) = bytes @ body_of later"
| "body_of _ = []"

lemma receive_moves:
  assumes "receive sha whole threshold received chunks io s = (io', s', r)" "store_ok sha s"
  shows "moves sha io s io' s' \<and> io_requests io' = io_requests io \<and>
    (\<forall>n. r = Inr n \<longrightarrow> writing s s' \<and> ts_hashed s' = ts_hashed s @ body_of chunks \<and> n = received + length (body_of chunks))"
  using assms
proof (induction sha whole threshold received chunks io s rule: receive.induct)
  case (5 sha whole threshold received tc bytes later io s)
  show ?case
  proof (cases "case checked_add received (length bytes) of None \<Rightarrow> True | Some n \<Rightarrow> whole < n")
    case True
    then have "io' = io" "s' = s" "isl r" using "5.prems"(1) by (auto split: option.splits)
    then show ?thesis using "5.prems"(2) by (auto intro: moves_refl)
  next
    case False
    then obtain n where n: "checked_add received (length bytes) = Some n" "\<not> whole < n" by (auto split: option.splits)
    then have n': "n = received + length bytes" by (simp add: checked_add_eq_Some)
    obtain io1 s1 x where w: "write_slices sha threshold (chunks_of (slice_bytes tc) bytes) io s = (io1, s1, x)" using prod_cases3 by blast
    note w1 = write_slices_moves [OF w "5.prems"(2), unfolded concat_chunks [OF slice_bytes_pos]]
    show ?thesis
    proof (cases x)
      case (Inl a)
      then show ?thesis using "5.prems"(1) n w w1 by auto
    next
      case (Inr u)
      have "receive sha whole threshold n later io1 s1 = (io', s', r)" using "5.prems"(1) n w Inr by simp
      note IH = "5.IH" [OF n(1,2) w [symmetric] refl Inr this moves_ok [OF conjunct1 [OF w1]]]
      then show ?thesis using moves_trans [OF conjunct1 [OF w1]] w1 Inr writing_trans [of s s1 s'] n' by auto
    qed
  qed
qed (auto dest: engine_stop_moves simp: writing_def intro: moves_refl)

lemma receive_unknown_moves:
  assumes "receive_unknown sha limit threshold chunks io s = (io', s', r)" "store_ok sha s"
  shows "moves sha io s io' s' \<and> io_requests io' = io_requests io \<and>
    (r = Inr () \<longrightarrow> writing s s' \<and> ts_hashed s' = ts_hashed s @ body_of chunks)"
  using assms
proof (induction sha limit threshold chunks io s rule: receive_unknown.induct)
  case (5 sha limit threshold tc bytes later io s)
  show ?case
  proof (cases "case checked_add (ts_len s) (length bytes) of None \<Rightarrow> True | Some n \<Rightarrow> limit < n")
    case True
    then show ?thesis using "5.prems" engine_stop_moves [of sha ESizeLimit io s io' s' r] by (auto split: option.splits)
  next
    case False
    obtain io1 s1 x where w: "write_slices sha threshold (chunks_of (slice_bytes tc) bytes) io s = (io1, s1, x)" using prod_cases3 by blast
    note w1 = write_slices_moves [OF w "5.prems"(2), unfolded concat_chunks [OF slice_bytes_pos]]
    have step: "(case x of Inl e \<Rightarrow> (io1, s1, Inl e) | Inr _ \<Rightarrow> receive_unknown sha limit threshold later io1 s1) = (io', s', r)"
      using "5.prems"(1) False by (simp only: receive_unknown.simps w if_False prod.case)
    show ?thesis
    proof (cases x)
      case (Inl a)
      then show ?thesis using step w1 by auto
    next
      case (Inr u)
      have "receive_unknown sha limit threshold later io1 s1 = (io', s', r)" using step Inr by simp
      note IH = "5.IH" [OF False w [symmetric] refl Inr this moves_ok [OF conjunct1 [OF w1]]]
      then show ?thesis using moves_trans [OF conjunct1 [OF w1]] w1 Inr writing_trans [of s s1 s'] by auto
    qed
  qed
qed (auto dest: engine_stop_moves simp: writing_def intro: moves_refl)

section \<open>Ranges\<close>

lemma read_range_body:
  "read_range wanted chunks paces bytes = Inr out \<Longrightarrow> out = bytes @ body_of chunks \<and> length out = wanted"
  by (induction wanted chunks paces bytes rule: read_range.induct) (auto split: if_splits prod.splits sum.splits)

lemma fetch_range_body:
  "snd (fetch_range sha ul f start final script) = Inr (Some bytes) \<Longrightarrow> bytes = body_of (rs_chunks script) \<and> length bytes = final - start"
  by (auto simp: fetch_range_def res_simps split: prod.splits sum.splits if_splits dest!: read_range_body)

lemma parallel_append_moves:
  assumes "parallel_append sha threshold bytes io s = (io', s', r)" "store_ok sha s"
  shows "moves sha io s io' s' \<and> io_requests io' = io_requests io \<and>
    (r = Inr () \<longrightarrow> io_ranges io' = io_ranges io \<and> writing s s' \<and> ts_hashed s' = ts_hashed s @ bytes)"
proof -
  obtain io1 c where c: "is_cancelled io = (io1, c)" by fastforce
  note f = is_cancelled_frame [OF c]
  have m0: "moves sha io s io1 s" using moves_refl [OF assms(2)] f by blast
  show ?thesis
  proof (cases c)
    case True
    then show ?thesis using assms c f engine_stop_moves [of sha ECancelled io1 s io' s' r] moves_trans [OF m0] by (auto simp: parallel_append_def)
  next
    case False
    then have "engine_write sha threshold bytes io1 s = (io', s', r)" using assms(1) c by (simp add: parallel_append_def)
    from engine_write_moves [OF this assms(2)] show ?thesis using f moves_trans [OF m0] by auto
  qed
qed

lemma append_results_moves:
  assumes "append_results sha threshold rs io s = (io', s', r)" "store_ok sha s"
  shows "moves sha io s io' s' \<and> io_requests io' = io_requests io \<and>
    (r = Inr () \<longrightarrow> io_ranges io' = io_ranges io \<and> writing s s' \<and> ts_hashed s' = ts_hashed s @ concat (map snd rs))"
  using assms
proof (induction rs arbitrary: io s)
  case Nil
  then show ?case by (auto simp: writing_def intro: moves_refl)
next
  case (Cons a rs)
  obtain i bytes where a: "a = (i, bytes)" by fastforce
  obtain io1 s1 x where w: "parallel_append sha threshold bytes io s = (io1, s1, x)" using prod_cases3 by blast
  note w1 = parallel_append_moves [OF w Cons.prems(2)]
  show ?case
  proof (cases x)
    case (Inl e)
    then show ?thesis using Cons.prems(1) a w w1 by auto
  next
    case (Inr u)
    have "append_results sha threshold rs io1 s1 = (io', s', r)" using Cons.prems(1) a w Inr by simp
    note IH = Cons.IH [OF this moves_ok [OF conjunct1 [OF w1]]]
    then show ?thesis using moves_trans [OF conjunct1 [OF w1]] w1 Inr a writing_trans [of s s1 s'] by auto
  qed
qed

text \<open>Whatever the order in which the workers of a window end, their bytes are appended in the order of
  their offsets.\<close>

lemma joined_workers_results:
  "joined_workers xs acc = Inr out \<Longrightarrow> map (\<lambda>(i, x). (i, Inr (Some x))) out = map (\<lambda>(i, x). (i, Inr (Some x))) acc @ xs"
  by (induction xs acc rule: joined_workers.induct) auto

lemma window_indices: "map fst (window_ranges i n offset whole) = [i ..< i + length (window_ranges i n offset whole)]"
proof (induction n arbitrary: i offset)
  case (Suc n)
  show ?case
  proof (cases "offset = whole")
    case False
    define e where "e = offset + min RANGE_BYTES (whole - offset)"
    have r: "window_ranges i (Suc n) offset whole = (i, offset, e) # window_ranges (Suc i) n e whole"
      using False by (simp add: Let_def e_def)
    show ?thesis unfolding r using Suc.IH [of "Suc i" e] upt_conv_Cons [of i "i + Suc (length (window_ranges (Suc i) n e whole))"] by simp
  qed simp
qed simp

lemma sorted_by_index:
  assumes "mset (map f out) = mset xs" "map fst xs = [0 ..< length xs]" "\<And>x. fst (f x) = fst x"
  shows "map f (sort_key fst out) = xs"
proof -
  let ?ys = "map f (sort_key fst out)"
  have m: "mset ?ys = mset xs" using assms(1) by simp
  then have sets: "set ?ys = set xs" by (metis set_mset_mset)
  have d: "distinct (map fst xs)" "sorted (map fst xs)" using assms(2) by simp_all
  have "mset (map fst ?ys) = mset (map fst xs)" using m by (metis mset_map)
  then have "distinct (map fst ?ys)" using d(1) mset_eq_imp_distinct_iff by blast
  moreover have same: "map fst ?ys = map fst (sort_key fst out)" using assms(3) by simp
  have "sorted (map fst ?ys)" unfolding same by (rule sorted_sort_key)
  moreover have "inj_on fst (set xs)" using d(1) by (simp add: distinct_map)
  ultimately show ?thesis using d sets by (intro map_sorted_distinct_set_unique [of fst]) simp_all
qed

definition ranges_body :: "range_script list \<Rightarrow> byte list" where
  "ranges_body scripts = concat (map (\<lambda>r. body_of (rs_chunks r)) scripts)"

lemma ranges_body_append: "ranges_body (a @ b) = ranges_body a @ ranges_body b"
  by (simp add: ranges_body_def)

lemma script_at_missing: "snd (fetch_range sha ul f start final no_script) = Inr x \<Longrightarrow> False"
  by (auto simp: fetch_range_def no_script_def engine_request_def request_loop.simps split: prod.splits sum.splits)

lemma window_bytes:
  assumes "joined_workers (joined_order scripts (map (worker_result sha ul f scripts) (window_ranges 0 n offset whole))) [] = Inr results"
    "length scripts \<le> length (window_ranges 0 n offset whole)"
  shows "concat (map snd (sort_key fst results)) = ranges_body scripts"
proof -
  let ?r = "window_ranges 0 n offset whole"
  let ?g = "\<lambda>(i, x). (i, Inr (Some x) :: (EngineError, byte list option) result)"
  let ?w = "map (worker_result sha ul f scripts) ?r"
  have "map ?g results = joined_order scripts ?w" using joined_workers_results [OF assms(1)] by simp
  then have "mset (map ?g results) = mset ?w" by (simp add: joined_order_def)
  moreover have "map fst ?w = map fst ?r" by (auto simp: worker_result_def)
  then have "map fst ?w = [0 ..< length ?w]" using window_indices [of 0 n offset whole] by simp
  ultimately have g: "map ?g (sort_key fst results) = ?w" by (rule sorted_by_index) (simp split: prod.split)
  have len: "length (sort_key fst results) = length ?r" using arg_cong [OF g, of length] by simp
  have at: "i < length scripts \<and> snd (sort_key fst results ! i) = body_of (rs_chunks (scripts ! i))" if "i < length ?r" for i
  proof -
    have "fst (?r ! i) = i"
      using arg_cong [OF window_indices [of 0 n offset whole], of "\<lambda>l. l ! i"] that by (simp del: upt_Suc)
    then obtain a b where ab: "?r ! i = (i, a, b)" by (cases "?r ! i") auto
    obtain j x where x: "sort_key fst results ! i = (j, x)" by fastforce
    have "?g (sort_key fst results ! i) = worker_result sha ul f scripts (?r ! i)"
      using arg_cong [OF g, of "\<lambda>l. l ! i"] that len by simp
    then have "snd (fetch_range sha ul f a b (script_at scripts i)) = Inr (Some x)"
      using ab x by (auto simp: worker_result_def split: if_splits)
    moreover then have "i < length scripts" using script_at_missing by (fastforce simp: script_at_def split: if_splits)
    ultimately show ?thesis using x by (auto simp: script_at_def dest: fetch_range_body)
  qed
  then have eq: "length scripts = length ?r" using assms(2) by (metis le_neq_implies_less less_irrefl)
  have "map snd (sort_key fst results) = map (\<lambda>r. body_of (rs_chunks r)) scripts"
    using at len eq by (intro nth_equalityI) simp_all
  then show ?thesis by (simp add: ranges_body_def)
qed

definition asks :: "('u http_request \<Rightarrow> bool) \<Rightarrow> 'u engine_io \<Rightarrow> 'u engine_io \<Rightarrow> bool" where
  "asks P io io' \<longleftrightarrow> (\<exists>new. io_requests io' = io_requests io @ new \<and> (\<forall>q \<in> set new. P q))"

lemma asks_same: "io_requests io' = io_requests io \<Longrightarrow> asks P io io'"
  unfolding asks_def by (rule exI [of _ "[]"]) simp

lemma asks_more: "io_requests io' = io_requests io @ new \<Longrightarrow> \<forall>q \<in> set new. P q \<Longrightarrow> asks P io io'"
  unfolding asks_def by blast

lemma asks_trans: "asks P io io1 \<Longrightarrow> asks P io1 io' \<Longrightarrow> asks P io io'"
  by (force simp: asks_def)

lemma transfer_windows_moves:
  assumes "transfer_windows sha ul f connections threshold offset io s = (io', s', r)" "store_ok sha s"
    "\<And>start final script. \<forall>q \<in> set (fst (fetch_range sha ul f start final script)). P q"
  shows "moves sha io s io' s' \<and> asks P io io' \<and>
    (r = Inr () \<longrightarrow> writing s s' \<and> (\<exists>m. ts_hashed s' = ts_hashed s @ ranges_body (take m (io_ranges io))))"
  using assms
proof (induction sha ul f connections threshold offset io s rule: transfer_windows.induct)
  case (1 sha ul f connections threshold offset io s)
  show ?case
  proof (cases "offset < fe_total f \<and> 0 < connections")
    case False
    then have "io' = io" "s' = s" "r = Inr ()" using "1.prems"(1) by (auto simp: transfer_windows.simps [of sha])
    then show ?thesis using "1.prems"(2) by (auto simp: writing_def ranges_body_def intro!: moves_refl asks_same exI [of _ 0])
  next
    case True
    define rs where "rs = window_ranges 0 connections offset (fe_total f)"
    define scripts where "scripts = take (length rs) (io_ranges io)"
    define io1 where "io1 = io\<lparr>io_ranges := drop (length rs) (io_ranges io),
      io_requests := io_requests io @ concat (map (\<lambda>(i, start, final). fst (fetch_range sha ul f start final (script_at scripts i))) rs)\<rparr>"
    have m0: "moves sha io s io1 s" using "1.prems"(2) by (auto simp: io1_def intro: moves_refl)
    have a0: "asks P io io1"
      by (rule asks_more [where new = "concat (map (\<lambda>(i, start, final). fst (fetch_range sha ul f start final (script_at scripts i))) rs)"])
        (use "1.prems"(3) in \<open>force simp: io1_def\<close>)+
    have step: "(case joined_workers (joined_order scripts (map (worker_result sha ul f scripts) rs)) [] of
           Inl e \<Rightarrow> engine_stop sha e io1 s
         | Inr results \<Rightarrow>
             (case append_results sha threshold (sort_key fst results) io1 s of
                (io2, s1, Inl e) \<Rightarrow> (io2, s1, Inl e)
              | (io2, s1, Inr _) \<Rightarrow> transfer_windows sha ul f connections threshold (window_end offset rs) io2 s1)) = (io', s', r)"
      unfolding io1_def scripts_def rs_def using trans [OF transfer_windows.simps [symmetric] "1.prems"(1)]
      by (simp only: Let_def True simp_thms if_True if_False not_True_eq_False)
    show ?thesis
    proof (cases "joined_workers (joined_order scripts (map (worker_result sha ul f scripts) rs)) []")
      case (Inl e)
      then have "engine_stop sha e io1 s = (io', s', r)" using step by simp
      from engine_stop_moves [OF this "1.prems"(2)] show ?thesis
        using moves_trans [OF m0] asks_trans [OF a0] asks_same [of io' io1 P] by auto
    next
      case (Inr results)
      obtain io2 s1 x where a: "append_results sha threshold (sort_key fst results) io1 s = (io2, s1, x)" using prod_cases3 by blast
      note w = append_results_moves [OF a "1.prems"(2)]
      have w': "moves sha io s io2 s1" "asks P io io2" using moves_trans [OF m0] asks_trans [OF a0] asks_same [of io2 io1 P] w by auto
      show ?thesis
      proof (cases x)
        case (Inl e)
        then show ?thesis using step Inr a w' by auto
      next
        case Inr2: (Inr u)
        have b: "concat (map snd (sort_key fst results)) = ranges_body scripts"
          by (rule window_bytes [OF Inr [unfolded rs_def]]) (simp add: scripts_def rs_def)
        have t: "transfer_windows sha ul f connections threshold (window_end offset rs) io2 s1 = (io', s', r)" using step Inr a Inr2 by simp
        have c: "\<not> \<not> (offset < fe_total f \<and> 0 < connections)" using True by simp
        note IH = "1.IH" [OF c rs_def scripts_def io1_def Inr a [symmetric] refl Inr2 t moves_ok [OF w'(1)] "1.prems"(3)]
        have "ts_hashed s' = ts_hashed s @ ranges_body (take (length rs + m) (io_ranges io))"
          if "ts_hashed s' = ts_hashed s1 @ ranges_body (take m (io_ranges io2))" for m
          using that w b Inr2 by (simp add: io1_def scripts_def take_add ranges_body_append)
        then show ?thesis using IH w w' Inr2 moves_trans [OF w'(1)] asks_trans [OF w'(2)] writing_trans [of s s1 s'] by auto
      qed
    qed
  qed
qed

lemma parallel_transfer_moves:
  assumes "parallel_transfer sha ul o' url io s = (io', s', r)" "store_ok sha s"
    "\<And>f start final script. fe_url f = url \<Longrightarrow> fe_allow_http f = op_allow_http o' \<Longrightarrow> fe_policy f = op_request_policy o' \<Longrightarrow>
       \<forall>q \<in> set (fst (fetch_range sha ul f start final script)). P q"
  shows "moves sha io s io' s' \<and> asks P io io' \<and> (r = Inr False \<longrightarrow> s' = s) \<and>
    (r = Inr True \<longrightarrow> writing s s' \<and> (\<exists>m. ts_hashed s' = ts_hashed s @ ranges_body (take m (io_ranges io))))"
proof (cases "si_etag (ts_identity s)")
  case None
  then show ?thesis using assms(1,2) by (auto simp: parallel_transfer_def intro: moves_refl asks_same)
next
  case (Some etag)
  define f where "f = \<lparr>fe_url = url, fe_allow_http = op_allow_http o', fe_total = si_total (ts_identity s), fe_etag = etag,
    fe_fingerprint = si_final (ts_identity s), fe_policy = op_request_policy o'\<rparr>"
  define final where "final = ts_len s + min RANGE_BYTES (fe_total f - ts_len s)"
  define x where "x = fetch_range sha ul f (ts_len s) final (script_at (io_ranges io) 0)"
  define io1 where "io1 = io\<lparr>io_ranges := tl (io_ranges io), io_requests := io_requests io @ fst x\<rparr>"
  have P: "\<forall>q \<in> set (fst (fetch_range sha ul f start final script)). P q" for start final script
    using assms(3) [of f] by (simp add: f_def)
  have m0: "moves sha io s io1 s" "asks P io io1"
    using assms(2) P by (auto simp: io1_def x_def intro!: moves_refl asks_more)
  have step: "(case snd x of Inl e \<Rightarrow> (io1, s, Inl e) | Inr None \<Rightarrow> (io1, s, Inr False)
     | Inr (Some bytes) \<Rightarrow>
        (case parallel_append sha (op_checkpoint_bytes o') bytes io1 s of
                  (io2, s1, Inl e) \<Rightarrow> (io2, s1, Inl e)
                | (io2, s1, Inr _) \<Rightarrow>
                    (case transfer_windows sha ul f (op_parallel_connections o') (op_checkpoint_bytes o') final io2 s1 of
                       (io3, s2, Inl e) \<Rightarrow> (io3, s2, Inl e)
                     | (io3, s2, Inr _) \<Rightarrow> (io3, s2, Inr True)))) = (io', s', r)"
    unfolding f_def final_def x_def io1_def using assms(1) by (simp only: parallel_transfer_def Let_def Some option.case)
  consider (stop) "io' = io1" "s' = s" "r \<noteq> Inr True" | (go) bytes where "snd x = Inr (Some bytes)"
    using step by (auto split: sum.splits option.splits)
  then show ?thesis
  proof cases
    case stop
    then show ?thesis using m0 by auto
  next
    case go
    obtain io2 s1 y where a: "parallel_append sha (op_checkpoint_bytes o') bytes io1 s = (io2, s1, y)" using prod_cases3 by blast
    note w = parallel_append_moves [OF a assms(2)]
    have w': "moves sha io s io2 s1" "asks P io io2" using moves_trans [OF m0(1)] asks_trans [OF m0(2)] asks_same [of io2 io1 P] w by auto
    obtain io3 s2 z where t: "transfer_windows sha ul f (op_parallel_connections o') (op_checkpoint_bytes o') final io2 s1 = (io3, s2, z)"
      using prod_cases3 by blast
    note v = transfer_windows_moves [OF t moves_ok [OF w'(1)] P]
    have bytes: "bytes = ranges_body (take 1 (io_ranges io))"
    proof (cases "io_ranges io")
      case Nil
      then show ?thesis using go script_at_missing by (fastforce simp: x_def script_at_def)
    next
      case (Cons a l)
      then show ?thesis using go by (auto simp: x_def script_at_def ranges_body_def dest: fetch_range_body)
    qed
    have "ts_hashed s2 = ts_hashed s @ ranges_body (take (Suc m) (io_ranges io))"
      if "ts_hashed s2 = ts_hashed s1 @ ranges_body (take m (io_ranges io2))" "y = Inr ()" for m
      using that w bytes by (cases "io_ranges io") (simp_all add: io1_def ranges_body_def)
    then show ?thesis using step go a t v w w' moves_trans [OF w'(1)] asks_trans [OF w'(2)] writing_trans [of s s1 s2]
      by (auto split: sum.splits)
  qed
qed

section \<open>The end of a download\<close>

definition published :: "(byte list \<Rightarrow> digest) \<Rightarrow> transfer_store \<Rightarrow> store_disk \<Rightarrow> engine_outcome \<Rightarrow> bool" where
  "published sha s d out \<longleftrightarrow> committed_bytes d = ts_hashed s \<and> eo_bytes out = length (ts_hashed s) \<and> eo_path out = ts_output s \<and>
     eo_bytes out \<le> si_total (ts_identity s) \<and> (\<forall>e. si_expected (ts_identity s) = Some e \<longrightarrow> e = sha (ts_hashed s)) \<and>
     (\<exists>file. dest_file d = Some file \<and> length file = length (ts_hashed s) \<and> sha file = sha (ts_hashed s))"

lemma finalize_published:
  assumes "store_finalize sha s = (s', Inr path)" "store_ok sha s" "eo_bytes out = si_total (ts_identity s) \<or> eo_bytes out = ts_len s" "eo_path out = path"
  shows "advances sha s s' \<and> published sha s (ts_disk s') out"
proof -
  note fin = finalize_ok [OF assms(1,2)]
  then have fr: "frozen sha s" by blast
  then have c: "committed_bytes (ts_disk s) = ts_hashed s" "si_total (ts_identity s) = length (ts_hashed s)" "ts_len s = length (ts_hashed s)"
    by (auto simp: frozen_def Let_def committed_bytes_def)
  have "prefix (committed_bytes (ts_disk s')) (ts_hashed s')" using fin by (auto simp: advances_def store_ok_def)
  then have "committed_bytes (ts_disk s') = ts_hashed s" using fin c(1) by (auto simp: advances_def intro: prefix_order.antisym)
  then show ?thesis using fin c assms(3,4) by (auto simp: published_def expected_differs_def split: option.splits)
qed

text \<open>What a run does to a store: it moves on and leaves the disk; a success has published it.\<close>

definition ran :: "(byte list \<Rightarrow> digest) \<Rightarrow> 'u engine_io \<Rightarrow> transfer_store \<Rightarrow> 'u engine_run \<Rightarrow> u64 \<Rightarrow> bool" where
  "ran sha io s x start \<longleftrightarrow> (\<exists>s'. fst (snd x) = Some (ts_disk s') \<and> moves sha io s (fst x) s' \<and>
     (\<forall>out. snd (snd x) = Inr out \<longrightarrow> eo_resumed_from out = start \<and> published sha s (ts_disk s') out))"

lemma ranI:
  "disk = Some (ts_disk s') \<Longrightarrow> moves sha io s io' s' \<Longrightarrow> isl r \<Longrightarrow> ran sha io s (io', disk, r) start"
  by (auto simp: ran_def)

lemma ran_engine_stop:
  assumes "engine_stop sha e io s = (io', s', r)" "store_ok sha s"
  shows "ran sha io s (io', Some (ts_disk s'), r) start"
  using engine_stop_moves [OF assms] by (auto intro: ranI)

lemma ran_after: "moves sha io s io1 s \<Longrightarrow> ran sha io1 s x start \<Longrightarrow> ran sha io s x start"
  by (auto simp: ran_def dest: moves_trans)

lemma published_same:
  "published sha s1 d out \<Longrightarrow> ts_hashed s1 = ts_hashed s \<Longrightarrow> ts_output s1 = ts_output s \<Longrightarrow> si_expected (ts_identity s1) = si_expected (ts_identity s) \<Longrightarrow>
     si_total (ts_identity s1) \<le> si_total (ts_identity s) \<Longrightarrow> published sha s d out"
  by (simp add: published_def)

lemma complete_transfer_ran:
  assumes "complete_transfer sha (si_total (ts_identity s)) start job received io s = x" "store_ok sha s"
  shows "ran sha io s x start \<and> io_requests (fst x) = io_requests io"
proof -
  obtain io1 c where c: "is_cancelled io = (io1, c)" by fastforce
  note f = is_cancelled_frame [OF c]
  have m0: "moves sha io s io1 s" using moves_refl [OF assms(2)] f by blast
  obtain s1 y where m: "mark_transfer_complete sha s = (s1, y)" by fastforce
  note m1 = mark_advances [OF m assms(2)] mark_frame [OF m]
  have m2: "moves sha io s io1 s1" using m1 f by (auto intro: moves_silent)
  have ok1: "store_ok sha s1" using m1 by (simp add: advances_def)
  obtain s2 z where t: "store_finalize sha s1 = (s2, z)" by fastforce
  have m3: "moves sha io s io1 s2" using finalize_ok [OF t ok1] m2 by (auto intro: moves_trans moves_silent)
  have p: "published sha s (ts_disk s2) \<lparr>eo_bytes = si_total (ts_identity s), eo_resumed_from = start, eo_path = path\<rparr>" if "z = Inr path" for path
    using finalize_published [OF t [unfolded that] ok1, of "\<lparr>eo_bytes = si_total (ts_identity s), eo_resumed_from = start, eo_path = path\<rparr>"] m1
      published_same [of sha s1] by simp
  show ?thesis
  proof (cases "received = si_total (ts_identity s)")
    case False
    then have "x = (io, Some (ts_disk s), Inl EBodyLength)" using assms(1) by (auto simp: complete_transfer_def)
    then show ?thesis using assms(2) by (auto intro!: ranI moves_refl)
  next
    case True
    show ?thesis
    proof (cases c)
      case ct: True
      obtain io2 s' r where w: "engine_stop sha ECancelled io1 s = (io2, s', r :: (EngineError, engine_outcome) result)" using prod_cases3 by blast
      have "x = (io2, Some (ts_disk s'), r)" using assms(1) True c ct w by (auto simp: complete_transfer_def)
      then show ?thesis using ran_after [OF m0 ran_engine_stop [OF w assms(2)]] engine_stop_moves [OF w assms(2)] f by simp
    next
      case cf: False
      have "x = (io1, Some (ts_disk s), Inl EInvalidTransition) \<or> (\<exists>e. x = (io1, Some (ts_disk s1), Inl e)) \<or> (\<exists>e. x = (io1, Some (ts_disk s2), Inl e)) \<or>
        (\<exists>path. z = Inr path \<and> x = (io1, Some (ts_disk s2), Inr \<lparr>eo_bytes = si_total (ts_identity s), eo_resumed_from = start, eo_path = path\<rparr>))"
        using assms(1) True c cf m t
        by (auto simp: complete_transfer_def core_event_def map_err_def res_bind_def split: sum.splits)
      then show ?thesis using m0 m2 m3 p f by (auto intro!: ranI simp: ran_def)
    qed
  qed
qed

definition bodies :: "'u engine_io \<Rightarrow> byte list \<Rightarrow> bool" where
  "bodies io tail \<longleftrightarrow> tail = [] \<or> tail = body_of (io_chunks io) \<or> (\<exists>m. tail = ranges_body (take m (io_ranges io)))"

text \<open>The same for a run that may write first: what is published is the store's content and after it the
  bodies that were received.\<close>

definition delivered :: "(byte list \<Rightarrow> digest) \<Rightarrow> 'u engine_io \<Rightarrow> transfer_store \<Rightarrow> 'u engine_run \<Rightarrow> u64 \<Rightarrow> bool" where
  "delivered sha io s x start \<longleftrightarrow> (\<exists>s'. fst (snd x) = Some (ts_disk s') \<and> moves sha io s (fst x) s' \<and>
     (\<forall>out. snd (snd x) = Inr out \<longrightarrow> eo_resumed_from out = start \<and>
        (\<exists>t tail. published sha t (ts_disk s') out \<and> ts_output t = ts_output s \<and> si_expected (ts_identity t) = si_expected (ts_identity s) \<and>
           si_total (ts_identity t) = si_total (ts_identity s) \<and> ts_hashed t = ts_hashed s @ tail \<and> bodies io tail)))"

lemma deliveredI: "disk = Some (ts_disk s') \<Longrightarrow> moves sha io s io' s' \<Longrightarrow> isl r \<Longrightarrow> delivered sha io s (io', disk, r) start"
  by (auto simp: delivered_def)

lemma delivered_disk: "delivered sha io s x start \<Longrightarrow> fst (snd x) \<noteq> None"
  by (auto simp: delivered_def)

lemma delivered_ran:
  assumes "ran sha io1 t x start" "moves sha io s io1 t" "writing s t" "ts_hashed t = ts_hashed s @ tail" "bodies io tail"
  shows "delivered sha io s x start"
  using assms moves_trans [OF assms(2)] by (fastforce simp: ran_def delivered_def writing_def)

lemma transfer_body_delivers:
  assumes "transfer_body sha ul o' original start job io s = x" "store_ok sha s"
    "\<And>f start final script. fe_url f = original \<Longrightarrow> fe_allow_http f = op_allow_http o' \<Longrightarrow> fe_policy f = op_request_policy o' \<Longrightarrow>
       \<forall>q \<in> set (fst (fetch_range sha ul f start final script)). P q"
  shows "delivered sha io s x start \<and> asks P io (fst x)"
proof -
  let ?split = "1 < op_parallel_connections o' \<and> RANGE_BYTES < si_total (ts_identity s) - start \<and> si_etag (ts_identity s) \<noteq> None"
  obtain io1 s1 y where p: "(if ?split then parallel_transfer sha ul o' original io s else (io, s, Inr False)) = (io1, s1, y)" using prod_cases3 by blast
  have p1: "moves sha io s io1 s1 \<and> asks P io io1 \<and> (y = Inr False \<longrightarrow> s1 = s) \<and>
      (y = Inr True \<longrightarrow> writing s s1 \<and> (\<exists>m. ts_hashed s1 = ts_hashed s @ ranges_body (take m (io_ranges io))))"
  proof (cases ?split)
    case True
    then have "parallel_transfer sha ul o' original io s = (io1, s1, y)" using p by simp
    from parallel_transfer_moves [OF this assms(2,3)] show ?thesis by blast
  next
    case False
    then show ?thesis using p assms(2) by (auto intro: moves_refl asks_same)
  qed
  have ok1: "store_ok sha s1" using p1 moves_ok by blast
  note x = assms(1) [unfolded transfer_body_def Let_def p prod.case]
  show ?thesis
  proof (cases y)
    case (Inl e)
    then show ?thesis using x p1 by (auto intro!: deliveredI)
  next
    case (Inr b)
    show ?thesis
    proof (cases b)
      case True
      then have w: "writing s s1" "\<exists>m. ts_hashed s1 = ts_hashed s @ ranges_body (take m (io_ranges io))" using p1 Inr by auto
      have "complete_transfer sha (si_total (ts_identity s1)) start job (ts_len s1) io1 s1 = x"
        using x Inr True w(1) by (simp add: writing_def)
      note c = complete_transfer_ran [OF this ok1]
      obtain m where m: "ts_hashed s1 = ts_hashed s @ ranges_body (take m (io_ranges io))" using w(2) by blast
      have "bodies io (ranges_body (take m (io_ranges io)))" by (auto simp: bodies_def)
      then have "delivered sha io s x start" using delivered_ran [OF _ _ w(1) m] c p1 by blast
      then show ?thesis using c p1 asks_trans asks_same by blast
    next
      case False
      then have s1: "s1 = s" using p1 Inr by blast
      obtain io2 s2 z where r: "receive sha (si_total (ts_identity s)) (op_checkpoint_bytes o') (if ?split then ts_len s1 else start) (io_chunks io1) io1 s1 =
          (io2, s2, z)" using prod_cases3 by blast
      note rm = receive_moves [OF r ok1]
      have m: "moves sha io s io2 s2" "io_chunks io1 = io_chunks io" using p1 rm moves_trans by (blast, simp add: moves_def)
      have a: "asks P io io2" using p1 rm asks_trans asks_same by blast
      show ?thesis
      proof (cases z)
        case (Inl e)
        then show ?thesis using x Inr False r m a by (auto intro!: deliveredI)
      next
        case Inr2: (Inr n)
        then have w: "writing s s2" "ts_hashed s2 = ts_hashed s @ body_of (io_chunks io)" using rm m(2) s1 by auto
        have "complete_transfer sha (si_total (ts_identity s2)) start job n io2 s2 = x"
          using x Inr False r Inr2 w(1) by (simp add: writing_def)
        note c = complete_transfer_ran [OF this moves_ok [OF m(1)]]
        then show ?thesis using w m a asks_trans [of P io io2] asks_same [of "fst x" io2 P]
          by (auto simp: bodies_def intro: delivered_ran)
      qed
    qed
  qed
qed

section \<open>Whole runs\<close>

text \<open>What a run leaves behind, for a directory in which \<open>old\<close> was committed.\<close>

definition engine_result :: "(byte list \<Rightarrow> digest) \<Rightarrow> ('u http_request \<Rightarrow> bool) \<Rightarrow> 'p options \<Rightarrow> 'u engine_io \<Rightarrow> byte list \<Rightarrow> 'u engine_run \<Rightarrow> bool" where
  "engine_result sha P o' io old x \<longleftrightarrow> asks P io (fst x) \<and>
     (case fst (snd x) of
        None \<Rightarrow> old = [] \<and> io_reported (fst x) = io_reported io \<and> isl (snd (snd x))
      | Some d \<Rightarrow> disk_ok sha d \<and> prefix old (committed_bytes d) \<and> reports io (length old) (fst x) (length (committed_bytes d)) \<and>
          (\<forall>out. snd (snd x) = Inr out \<longrightarrow>
             (\<exists>tail file. committed_bytes d = old @ tail \<and> bodies io tail \<and> eo_resumed_from out = length old \<and>
                eo_bytes out = length (old @ tail) \<and> eo_bytes out \<le> op_max_download_bytes o' \<and> eo_path out = op_output_name o' \<and>
                dest_file d = Some file \<and> length file = eo_bytes out \<and> sha file = sha (old @ tail) \<and>
                (\<forall>e. op_expected_sha256 o' = Some e \<longrightarrow> sha file = e))))"

lemma delivered_result:
  assumes "delivered sha io s x start" "asks P io (fst x)" "committed_bytes (ts_disk s) = old" "ts_hashed s = old" "start = length old"
    "ts_output s = op_output_name o'" "si_expected (ts_identity s) = op_expected_sha256 o'" "si_total (ts_identity s) \<le> op_max_download_bytes o'"
  shows "engine_result sha P o' io old x"
  using assms by (fastforce simp: engine_result_def delivered_def published_def moves_def advances_def store_ok_def)

lemma unchanged_result:
  "disk_ok sha d \<Longrightarrow> committed_bytes d = old \<Longrightarrow> io_reported io' = io_reported io \<Longrightarrow> asks P io io' \<Longrightarrow> isl r \<Longrightarrow> engine_result sha P o' io old (io', Some d, r)"
  by (auto simp: engine_result_def intro: reports_same)

lemma result_after:
  assumes "engine_result sha P o' io1 old x" "reports io (length old) io1 (length old)" "io_reported io1 = io_reported io \<or> fst (snd x) \<noteq> None"
    "asks P io io1" "io_chunks io1 = io_chunks io" "io_ranges io1 = io_ranges io"
  shows "engine_result sha P o' io old x"
  using assms reports_trans [OF assms(2)] asks_trans [OF assms(4)] unfolding engine_result_def
  by (auto simp: bodies_def split: option.splits)

lemma begin_transfer_result:
  assumes "begin_transfer sha ul o' original fingerprint start job io s = x" "store_ok sha s" "\<And>u. length (sha u) = 32" "length fingerprint = 32"
    and P: "\<And>f start final script. fe_url f = original \<Longrightarrow> fe_allow_http f = op_allow_http o' \<Longrightarrow> fe_policy f = op_request_policy o' \<Longrightarrow>
       \<forall>q \<in> set (fst (fetch_range sha ul f start final script)). P q"
    and s: "committed_bytes (ts_disk s) = old" "ts_hashed s = old" "start = length old"
      "ts_output s = op_output_name o'" "si_expected (ts_identity s) = op_expected_sha256 o'" "si_total (ts_identity s) \<le> op_max_download_bytes o'"
  shows "engine_result sha P o' io old x \<and> fst (snd x) \<noteq> None"
proof -
  obtain s1 y where b: "(if op_refresh_from o' \<noteq> None then rebind_urls s (url_fingerprint sha (utf8_bytes (ul_as_str ul original))) fingerprint
      else (s, Inr ())) = (s1, y)" by fastforce
  have adv: "advances sha s s1"
    using b rebind_advances [of s _ _ s1 y sha] advances_refl [OF assms(2)] assms(2-4) by (auto simp: url_fingerprint_def split: if_splits)
  have frame: "ts_hashed s1 = old \<and> ts_output s1 = op_output_name o' \<and> si_expected (ts_identity s1) = op_expected_sha256 o' \<and>
      si_total (ts_identity s1) \<le> op_max_download_bytes o'" if "y = Inr u" for u
    using b that rebind_frame [of s "url_fingerprint sha (utf8_bytes (ul_as_str ul original))" fingerprint s1 u] s by (auto split: if_splits)
  have disk: "disk_ok sha (ts_disk s)" "disk_ok sha (ts_disk s1)" using adv assms(2) by (auto simp: advances_def store_ok_def)
  have c: "length old \<le> length (committed_bytes (ts_disk s1))" "prefix old (committed_bytes (ts_disk s1))"
    using adv s(1) by (auto simp: advances_def dest: prefix_length_le)
  note x = assms(1) [unfolded begin_transfer_def b prod.case]
  show ?thesis
  proof (cases "core_event EProbeSucceeded job")
    case (Inl e)
    then show ?thesis using x disk(1) s(1) by (auto intro!: unchanged_result asks_same)
  next
    case (Inr job1)
    show ?thesis
    proof (cases y)
      case (Inl e)
      then have "x = (io, Some (ts_disk s1), Inl (storage_error e))" using x Inr by simp
      then show ?thesis using disk(2) c by (auto simp: engine_result_def intro!: asks_same reports_same)
    next
      case Inr2: (Inr u)
      note fr = frame [OF Inr2]
      have "transfer_body sha ul o' original start job1 io s1 = x" using x Inr Inr2 by simp
      note t = transfer_body_delivers [OF this conjunct1 [OF adv [unfolded advances_def]] P]
      have "prefix (committed_bytes (ts_disk s1)) old" using adv fr by (auto simp: advances_def store_ok_def)
      then have old: "committed_bytes (ts_disk s1) = old" using c(2) by (simp add: prefix_order.antisym)
      have "engine_result sha P o' io old x" by (rule delivered_result [OF conjunct1 [OF t] conjunct2 [OF t] old]) (use fr s(3) in auto)
      then show ?thesis using delivered_disk [OF conjunct1 [OF t]] by (rule conjI)
    qed
  qed
qed

lemma created_fields:
  assumes "store_create_inner sha fails i output unknown answers = Inr s"
  shows "ts_hashed s = [] \<and> committed_bytes (ts_disk s) = [] \<and> ts_output s = output \<and> ts_identity s = i"
  using assms by (auto simp: store_create_inner_def res_simps committed_bytes_def initial_row_def split: option.splits)

lemma unknown_finish_ran:
  assumes "unknown_finish sha io s = x" "store_ok sha s"
  shows "ran sha io s x 0 \<and> io_requests (fst x) = io_requests io"
proof -
  obtain io1 c where c: "is_cancelled io = (io1, c)" by fastforce
  note f = is_cancelled_frame [OF c]
  have m0: "moves sha io s io1 s" using moves_refl [OF assms(2)] f by blast
  show ?thesis
  proof (cases c)
    case True
    obtain io2 s' r where w: "engine_stop sha ECancelled io1 s = (io2, s', r :: (EngineError, engine_outcome) result)" using prod_cases3 by blast
    have "x = (io2, Some (ts_disk s'), r)" using assms(1) c True w by (auto simp: unknown_finish_def)
    then show ?thesis using ran_after [OF m0 ran_engine_stop [OF w assms(2)]] engine_stop_moves [OF w assms(2)] f by simp
  next
    case False
    obtain s1 y where m: "mark_unknown_transfer_complete sha s = (s1, y)" by fastforce
    note m1 = mark_unknown_advances [OF m assms(2)] mark_unknown_frame [OF m]
    have ok1: "store_ok sha s1" using m1 by (simp add: advances_def)
    obtain s2 z where t: "store_finalize sha s1 = (s2, z)" by fastforce
    have adv: "advances sha s s1" "advances sha s s2"
      using m1 advances_trans [OF _ conjunct1 [OF finalize_ok [OF t ok1]]] by blast+
    have m2: "moves sha io s io1 s1" "moves sha io s io1 s2" using f by (auto intro: moves_silent adv)
    note x = assms(1) [unfolded unknown_finish_def c prod.case m t]
    show ?thesis
    proof (cases "isl y \<or> isl z")
      case True
      then show ?thesis using x False f m2 by (auto intro!: ranI split: sum.splits)
    next
      case both: False
      then obtain u path where yz: "y = Inr u" "z = Inr path" by (cases y; cases z) auto
      let ?out = "\<lparr>eo_bytes = ts_len s, eo_resumed_from = 0, eo_path = path\<rparr>"
      have p: "published sha s1 (ts_disk s2) ?out"
        using finalize_published [OF t [unfolded yz] ok1, of ?out] m1 by simp
      have open': "\<not> ts_poisoned s" using m yz by (auto simp: mark_unknown_transfer_complete_def store_checkpoint_def split: if_splits)
      then have len: "ts_len s = length (ts_hashed s)" "ts_len s \<le> si_total (ts_identity s)" using assms(2) by (auto simp: store_ok_def in_step_def Let_def)
      have "published sha s (ts_disk s2) ?out" using p m1 len by (auto simp: published_def)
      moreover have "x = (on_checkpoint (ts_len s) io1, Some (ts_disk s2), Inr ?out)" using x False yz by simp
      moreover have "moves sha io s (on_checkpoint (ts_len s) io1) s2"
      proof -
        have "committed_bytes (ts_disk s2) = ts_hashed s" using p m1 by (simp add: published_def)
        moreover have "prefix (committed_bytes (ts_disk s)) (ts_hashed s)" using assms(2) by (simp add: store_ok_def)
        ultimately show ?thesis using m2(2) len f
          by (auto simp: moves_def on_checkpoint_def intro!: reports_one prefix_length_le)
      qed
      ultimately show ?thesis using f by (auto simp: ran_def on_checkpoint_def)
    qed
  qed
qed

lemma unknown_transfer_result:
  assumes "unknown_transfer sha ul pl space fails answers o' original final r io = x" "\<And>u. length (sha u) = 32"
    "case op_expected_sha256 o' of None \<Rightarrow> True | Some e \<Rightarrow> length e = 32"
  shows "engine_result sha P o' io [] x"
proof -
  obtain io1 c where c: "is_cancelled io = (io1, c)" by fastforce
  note f = is_cancelled_frame [OF c]
  consider (none) e where "x = (io, None, Inl e) \<or> x = (io1, None, Inl e)"
    | (run) etag s where "store_create_unknown sha fails
        \<lparr>si_original = url_fingerprint sha (utf8_bytes (ul_as_str ul original)), si_final = url_fingerprint sha (utf8_bytes (ul_as_str ul final)),
         si_etag = etag, si_total = op_max_download_bytes o', si_expected = op_expected_sha256 o'\<rparr> (op_output_name o') answers = Inr s"
      "(case receive_unknown sha (op_max_download_bytes o') (op_checkpoint_bytes o') (io_chunks io1) io1 s of
        (io2, s1, Inl e) \<Rightarrow> (io2, Some (ts_disk s1), Inl e)
      | (io2, s1, Inr _) \<Rightarrow> unknown_finish sha io2 s1) = x"
    using assms(1) unfolding unknown_transfer_def c prod.case by (fastforce split: sum.splits bool.splits)
  then show ?thesis
  proof cases
    case none
    then show ?thesis using f by (auto simp: engine_result_def intro: asks_same)
  next
    case run
    have create: "store_create_inner sha fails
        \<lparr>si_original = url_fingerprint sha (utf8_bytes (ul_as_str ul original)), si_final = url_fingerprint sha (utf8_bytes (ul_as_str ul final)),
         si_etag = etag, si_total = op_max_download_bytes o', si_expected = op_expected_sha256 o'\<rparr> (op_output_name o') True answers = Inr s"
      "op_max_download_bytes o' \<noteq> 0"
      using run(1) by (auto simp: store_create_unknown_def split: if_splits)
    have ok: "store_ok sha s"
      by (rule created_ok [OF create(1)]) (use assms(2,3) create(2) in \<open>auto simp: digests_ok_def url_fingerprint_def\<close>)
    note cf = created_fields [OF create(1)]
    have m0: "moves sha io s io1 s" using f ok by (auto intro: moves_refl)
    obtain io2 s1 y where r: "receive_unknown sha (op_max_download_bytes o') (op_checkpoint_bytes o') (io_chunks io1) io1 s = (io2, s1, y)"
      using prod_cases3 by blast
    note rm = receive_unknown_moves [OF r ok]
    have m: "moves sha io s io2 s1" "io_requests io2 = io_requests io" using moves_trans [OF m0] rm f by auto
    have "delivered sha io s x 0 \<and> asks P io (fst x)"
    proof (cases y)
      case (Inl e)
      then show ?thesis using run(2) r m by (auto intro!: deliveredI asks_same)
    next
      case (Inr u)
      then have w: "writing s s1" "ts_hashed s1 = ts_hashed s @ body_of (io_chunks io)" using rm f by auto
      have "unknown_finish sha io2 s1 = x" using run(2) r Inr by simp
      note fin = unknown_finish_ran [OF this moves_ok [OF m(1)]]
      have "delivered sha io s x 0" by (rule delivered_ran [OF conjunct1 [OF fin] m(1) w]) (simp add: bodies_def)
      then show ?thesis using fin m by (auto intro: asks_same)
    qed
    then show ?thesis by (elim conjE, intro delivered_result [where s = s]) (use cf in auto)
  qed
qed

lemma store_open_count:
  assumes "store_open sha fails d answers = (d', Inr s)" "disk_ok sha d"
  shows "ts_committed s = length (committed_bytes d)"
proof -
  obtain s0 x where s0: "discard_tail (nat (sr_committed (sd_row d))) (opened d answers) = (s0, x)" by fastforce
  note tail = discard_tail_ok [OF s0 assms(2)]
  have none: "fails = None" using assms(1) by (cases fails) (auto simp: store_open_def)
  have "s = s0" using assms(1) s0 unfolding none store_open_eq [OF assms(2)] by (auto split: sum.splits if_splits)
  moreover have "ts_committed s0 = nat (sr_committed (sd_row d))" by (subst tail(5), simp add: opened_def Let_def)
  ultimately show ?thesis using assms(2) by (simp add: committed_bytes_def disk_ok_def)
qed

lemma engine_request_asks:
  assumes "engine_request ul allow_http p url wanted net = (reqs, rest, answer)" "reach_ok ul allow_http p url url"
  shows "\<forall>q \<in> set reqs. request_ok ul allow_http p url q"
  using request_loop_ok [OF assms(1) [unfolded engine_request_def] assms(2)] by blast

lemma fetch_range_asks:
  assumes "reach_ok ul (fe_allow_http f) (fe_policy f) (fe_url f) (fe_url f)"
  shows "\<forall>q \<in> set (fst (fetch_range sha ul f start final script)). request_ok ul (fe_allow_http f) (fe_policy f) (fe_url f) q"
  using engine_request_asks [OF _ assms] by (fastforce simp: fetch_range_def split: prod.splits sum.splits)

lemma check_options_reach:
  assumes "check_options ul o' = Inr original"
  shows "reach_ok ul (op_allow_http o') (op_request_policy o') original original"
proof -
  have "engine_url ul (op_url o') (op_allow_http o') = Inr original" using assms by (auto simp: check_options_def res_simps split: if_splits)
  from engine_urlD(3) [OF this] show ?thesis by (auto simp: reach_ok_def)
qed

definition engine_asks :: "'u url_lib \<Rightarrow> 'p options \<Rightarrow> 'u \<Rightarrow> 'u http_request \<Rightarrow> bool" where
  "engine_asks ul o' original q \<longleftrightarrow> request_ok ul (op_allow_http o') (op_request_policy o') original q"

lemma engine_probe_frame:
  assumes "engine_probe sha ul o' original wanted io = (io', y)" "reach_ok ul (op_allow_http o') (op_request_policy o') original original"
  shows "asks (engine_asks ul o' original) io io' \<and> io_reported io' = io_reported io \<and> io_chunks io' = io_chunks io \<and> io_ranges io' = io_ranges io"
proof -
  obtain reqs net answer where q: "engine_request ul (op_allow_http o') (op_request_policy o') original wanted (io_net io) = (reqs, net, answer)"
    using prod_cases3 by blast
  have "io' = io\<lparr>io_net := net, io_requests := io_requests io @ reqs\<rparr>" using assms(1) q by (simp add: engine_probe_def)
  then show ?thesis using engine_request_asks [OF q assms(2)] by (auto simp: engine_asks_def intro: asks_more)
qed

lemma fetches_ask:
  assumes "reach_ok ul (op_allow_http o') (op_request_policy o') original original"
    "fe_url f = original" "fe_allow_http f = op_allow_http o'" "fe_policy f = op_request_policy o'"
  shows "\<forall>q \<in> set (fst (fetch_range sha ul f start final script)). engine_asks ul o' original q"
  using fetch_range_asks [of ul f sha start final script] assms by (simp add: engine_asks_def)

lemma download_fresh_result:
  assumes "download_fresh sha ul pl w o' original io = x" "\<And>u. length (sha u) = 32"
    "case op_expected_sha256 o' of None \<Rightarrow> True | Some e \<Rightarrow> length e = 32"
    "reach_ok ul (op_allow_http o') (op_request_policy o') original original"
  shows "engine_result sha (engine_asks ul o' original) o' io [] x"
proof -
  obtain io1 y where p: "engine_probe sha ul o' original None io = (io1, y)" by fastforce
  note f = engine_probe_frame [OF p assms(4)]
  have after: "engine_result sha (engine_asks ul o' original) o' io [] x" if "engine_result sha (engine_asks ul o' original) o' io1 [] x"
    by (rule result_after [OF that]) (use f in \<open>auto intro: reports_same\<close>)
  note x = assms(1) [unfolded download_fresh_def p prod.case]
  consider (none) e where "x = (io1, None, Inl e)"
    | (unknown) u r where "unknown_transfer sha ul pl (ew_space w) (ew_create_fails w) (ew_answers w) o' original u r io1 = x"
    | (known) u job whole etag s where "whole \<le> op_max_download_bytes o'"
      "store_create sha (ew_create_fails w) \<lparr>si_original = url_fingerprint sha (utf8_bytes (ul_as_str ul original)),
         si_final = url_fingerprint sha (utf8_bytes (ul_as_str ul u)), si_etag = etag, si_total = whole,
         si_expected = op_expected_sha256 o'\<rparr> (op_output_name o') (ew_answers w) = Inr s"
      "begin_transfer sha ul o' original (url_fingerprint sha (utf8_bytes (ul_as_str ul u))) 0 job io1 s = x"
  proof (cases y)
    case (Inl e)
    then show ?thesis using x none [of e] by auto
  next
    case (Inr a)
    obtain u r job where a: "a = (u, r, job)" using prod_cases3 by blast
    define z where "z = res_bind (header_length (er_headers r)) (\<lambda>whole.
            if op_max_download_bytes o' < whole then Inl ESizeLimit
            else
            res_bind (ok_or (pl_parent pl (op_job_dir o')) EInvalidOptions) (\<lambda>_.
            res_bind (before_transfer (ew_space w) whole) (\<lambda>_.
            res_bind (response_etag (er_headers r)) (\<lambda>etag.
            map_err storage_error
              (store_create sha (ew_create_fails w)
                 \<lparr>si_original = url_fingerprint sha (utf8_bytes (ul_as_str ul original)),
                  si_final = url_fingerprint sha (utf8_bytes (ul_as_str ul u)), si_etag = etag, si_total = whole,
                  si_expected = op_expected_sha256 o'\<rparr> (op_output_name o') (ew_answers w))))))"
    note x' = x [unfolded Inr a sum.case prod.case, folded z_def]
    consider (bad) e where "x = (io1, None, Inl e)" | (open') "unknown_transfer sha ul pl (ew_space w) (ew_create_fails w) (ew_answers w) o' original u r io1 = x"
      | (sized) "(case z of Inl e \<Rightarrow> (io1, None, Inl e)
          | Inr s \<Rightarrow> begin_transfer sha ul o' original (url_fingerprint sha (utf8_bytes (ul_as_str ul u))) 0 job io1 s) = x"
      using x' by (auto split: if_splits)
    then show ?thesis
    proof cases
      case sized
      show ?thesis
      proof (cases z)
        case (Inl e)
        then show ?thesis using sized none [of e] by auto
      next
        case (Inr s)
        then obtain whole etag where "whole \<le> op_max_download_bytes o'"
            "store_create sha (ew_create_fails w) \<lparr>si_original = url_fingerprint sha (utf8_bytes (ul_as_str ul original)),
               si_final = url_fingerprint sha (utf8_bytes (ul_as_str ul u)), si_etag = etag, si_total = whole,
               si_expected = op_expected_sha256 o'\<rparr> (op_output_name o') (ew_answers w) = Inr s"
          unfolding z_def by (auto simp: res_simps not_less split: if_splits)
        then show ?thesis using sized Inr known by simp
      qed
    qed (use none unknown in auto)
  qed
  then show ?thesis
  proof cases
    case none
    then show ?thesis using f by (auto simp: engine_result_def)
  next
    case unknown
    show ?thesis by (rule after, rule unknown_transfer_result [OF unknown assms(2,3)])
  next
    case known
    note create = known(2) [unfolded store_create_def]
    have ok: "store_ok sha s"
      by (rule created_ok [OF create]) (use assms(2,3) in \<open>auto simp: digests_ok_def url_fingerprint_def\<close>)
    note cf = created_fields [OF create]
    have fp: "length (url_fingerprint sha (utf8_bytes (ul_as_str ul u))) = 32" using assms(2) by (simp add: url_fingerprint_def)
    show ?thesis
      by (rule after, rule begin_transfer_result [OF known(3) ok assms(2) fp fetches_ask [OF assms(4)], THEN conjunct1])
        (use cf known(1) in auto)
  qed
qed

lemma download_stored_result:
  assumes "download_stored sha ul w o' original io s = x" "\<And>u. length (sha u) = 32"
    "reach_ok ul (op_allow_http o') (op_request_policy o') original original"
    and s: "store_ok sha s" "ts_hashed s = old" "committed_bytes (ts_disk s) = old" "ts_committed s = length old"
  shows "engine_result sha (engine_asks ul o' original) o' io old x"
proof -
  let ?P = "engine_asks ul o' original"
  have disk: "disk_ok sha (ts_disk s)" using s(1) by (simp add: store_ok_def)
  define c where "c = res_bind (check_stored sha ul o' original s) (\<lambda>_.
    if store_status s = Downloading \<and> \<not> ts_unknown_length s then before_transfer (ew_space w) (si_total (ts_identity s) - ts_committed s) else Inr ())"
  define io1 where "io1 = (if 0 < ts_committed s then on_checkpoint (ts_committed s) io else io)"
  have io1: "reports io (length old) io1 (length old)" "asks ?P io io1" "io_chunks io1 = io_chunks io" "io_ranges io1 = io_ranges io"
    using s(4) reports_one [of io1 io "length old" "length old" "length old"] reports_same [of io1 io "length old" "length old"]
    by (auto simp: io1_def on_checkpoint_def intro!: asks_same)
  have after: "engine_result sha ?P o' io old x" if "engine_result sha ?P o' io1 old x" "fst (snd x) \<noteq> None"
    by (rule result_after [OF that(1)]) (use io1 that(2) in auto)
  have stay: "engine_result sha ?P o' io old x" if "x = (io', Some (ts_disk s), Inl e)" "asks ?P io1 io'" "io_reported io' = io_reported io1" for io' e
    by (rule after) (use that disk s(3) in \<open>auto intro!: unchanged_result\<close>)
  show ?thesis
  proof (cases c)
    case (Inl e)
    then have "x = (io, Some (ts_disk s), Inl e)" using assms(1) by (simp add: download_stored_def Let_def c_def)
    then show ?thesis using disk s(3) by (auto intro!: unchanged_result asks_same)
  next
    case (Inr u)
    then have ok: "ts_output s = op_output_name o'" "si_expected (ts_identity s) = op_expected_sha256 o'" "si_total (ts_identity s) \<le> op_max_download_bytes o'"
      by (auto simp: c_def check_stored_def Let_def res_simps split: if_splits)
    note x = assms(1) [unfolded download_stored_def Let_def, folded c_def io1_def, unfolded Inr sum.case]
    show ?thesis
    proof (cases "store_status s \<in> {ReadyToPublish, StorePublished}")
      case True
      obtain io2 b where b: "is_cancelled io1 = (io2, b)" by fastforce
      note f = is_cancelled_frame [OF b]
      obtain s1 z where t: "store_finalize sha s = (s1, z)" by fastforce
      note fin = finalize_ok [OF t s(1)]
      have m: "moves sha io1 s io2 s1" using fin f by (auto intro: moves_silent)
      show ?thesis
      proof (cases b)
        case True
        then have "x = (io2, Some (ts_disk s), Inl ECancelled)" using x \<open>store_status s \<in> _\<close> b by simp
        from stay [OF this] show ?thesis using f by (auto intro: asks_same)
      next
        case False
        have x': "x = (io2, Some (ts_disk s1), case z of Inl e \<Rightarrow> Inl (storage_error e)
            | Inr path \<Rightarrow> Inr \<lparr>eo_bytes = si_total (ts_identity s), eo_resumed_from = ts_committed s, eo_path = path\<rparr>)"
          using x \<open>store_status s \<in> _\<close> b t False by (auto split: sum.splits)
        have "published sha s (ts_disk s1) \<lparr>eo_bytes = si_total (ts_identity s), eo_resumed_from = ts_committed s, eo_path = path\<rparr>" if "z = Inr path" for path
          using finalize_published [OF t [unfolded that] s(1), of "\<lparr>eo_bytes = si_total (ts_identity s), eo_resumed_from = ts_committed s, eo_path = path\<rparr>"] by simp
        then have "ran sha io1 s x (ts_committed s)" using m unfolding x' ran_def by (auto split: sum.splits)
        then have "delivered sha io1 s x (ts_committed s)"
          by (rule delivered_ran [where tail = "[]"]) (use s(1) in \<open>auto simp: writing_def bodies_def intro: moves_refl\<close>)
        then have "engine_result sha ?P o' io1 old x"
          by (rule delivered_result) (use s ok x' f in \<open>auto intro: asks_same\<close>)
        then show ?thesis by (rule after) (simp add: x')
      qed
    next
      case False
      show ?thesis
      proof (cases "ts_unknown_length s \<or> ts_committed s = si_total (ts_identity s) \<and> 0 < ts_committed s \<or> isl (resume_range s)")
        case True
        then obtain e where "x = (io1, Some (ts_disk s), Inl e)" using x False by (auto split: if_splits sum.splits)
        from stay [OF this] show ?thesis by (auto intro: asks_same)
      next
        case go: False
        then obtain wanted where wanted: "resume_range s = Inr wanted" by (cases "resume_range s") auto
        obtain io2 y where p: "engine_probe sha ul o' original wanted io1 = (io2, y)" by fastforce
        note f = engine_probe_frame [OF p assms(3)]
        have x': "(case y of Inl e \<Rightarrow> (io2, Some (ts_disk s), Inl e)
          | Inr (u, r, job) \<Rightarrow> (case continues o' (url_fingerprint sha (utf8_bytes (ul_as_str ul u))) r s of
              Inl e \<Rightarrow> (io2, Some (ts_disk s), Inl e)
            | Inr _ \<Rightarrow> begin_transfer sha ul o' original (url_fingerprint sha (utf8_bytes (ul_as_str ul u))) (ts_committed s) job io2 s)) = x"
          using x False go wanted p by (auto split: sum.splits prod.splits)
        consider (bad) e where "x = (io2, Some (ts_disk s), Inl e)"
          | (run) u job where "begin_transfer sha ul o' original (url_fingerprint sha (utf8_bytes (ul_as_str ul u))) (ts_committed s) job io2 s = x"
          using x' by (auto split: sum.splits prod.splits)
        then show ?thesis
        proof cases
          case bad
          from stay [OF this] show ?thesis using f by blast
        next
          case run
          have fp: "length (url_fingerprint sha (utf8_bytes (ul_as_str ul u))) = 32" using assms(2) by (simp add: url_fingerprint_def)
          have r: "engine_result sha ?P o' io2 old x \<and> fst (snd x) \<noteq> None"
            by (rule begin_transfer_result [OF run s(1) assms(2) fp fetches_ask [OF assms(3)]]) (use s ok in auto)
          have "engine_result sha ?P o' io1 old x" by (rule result_after [OF conjunct1 [OF r]]) (use f in \<open>auto intro: reports_same\<close>)
          then show ?thesis using after r by blast
        qed
      qed
    qed
  qed
qed

text \<open>What was committed before a download.\<close>

fun held_before :: "job_directory \<Rightarrow> byte list" where
  "held_before (JobStored d) = committed_bytes d"
| "held_before _ = []"

lemma download_controlled_result:
  assumes "download_controlled sha ul pl w o' io = x" "\<And>u. length (sha u) = 32"
    "case op_expected_sha256 o' of None \<Rightarrow> True | Some e \<Rightarrow> length e = 32"
    "\<And>d. ew_directory w = JobStored d \<Longrightarrow> disk_ok sha d"
  shows "\<exists>P. engine_result sha P o' io (held_before (ew_directory w)) x \<and>
    (\<forall>q. P q \<longrightarrow> (\<exists>original. check_options ul o' = Inr original \<and> engine_asks ul o' original q))"
proof (cases "check_options ul o'")
  case (Inl e)
  then have "x = (io, case ew_directory w of JobStored d \<Rightarrow> Some d | _ \<Rightarrow> None, Inl e)" using assms(1) by (simp add: download_controlled_def Let_def)
  then have "engine_result sha (\<lambda>_. False) o' io (held_before (ew_directory w)) x"
    using assms(4) by (cases "ew_directory w") (auto simp: engine_result_def intro: asks_same reports_same)
  then show ?thesis by blast
next
  case (Inr original)
  let ?P = "engine_asks ul o' original"
  let ?old = "held_before (ew_directory w)"
  note reach = check_options_reach [OF Inr]
  obtain io1 c1 where c1: "is_cancelled io = (io1, c1)" by fastforce
  note f1 = is_cancelled_frame [OF c1]
  obtain io2 c2 where c2: "is_cancelled io1 = (io2, c2)" by fastforce
  note f2 = is_cancelled_frame [OF c2]
  have idle: "engine_result sha ?P o' io ?old (io', disk, Inl e)"
    if "io' = io1 \<or> io' = io2" "disk = None \<and> ?old = [] \<or> (\<exists>d. disk = Some d \<and> disk_ok sha d \<and> committed_bytes d = ?old)" for io' disk e
    using that f1 f2 by (auto simp: engine_result_def intro: asks_same reports_same)
  have after: "engine_result sha ?P o' io ?old x" if "engine_result sha ?P o' io2 ?old x"
    by (rule result_after [OF that]) (use f1 f2 in \<open>auto intro: reports_same asks_same\<close>)
  note x = assms(1) [unfolded download_controlled_def Let_def Inr sum.case c1 c2 prod.case]
  have "engine_result sha ?P o' io ?old x"
  proof (cases "ew_directory w")
    case JobUnreadable
    then have old: "?old = []" by simp
    obtain e where "x = (io1, None, Inl e)" using x JobUnreadable by (auto split: bool.splits if_splits)
    then show ?thesis using old idle [of io1 None e] by simp
  next
    case JobAbsent
    then have old: "?old = []" by simp
    consider (stop) io' e where "x = (io', None, Inl e)" "io' = io1 \<or> io' = io2" | (go) "download_fresh sha ul pl w o' original io2 = x"
      using x JobAbsent by (auto split: bool.splits if_splits)
    then show ?thesis
    proof cases
      case stop
      then show ?thesis using old idle [of io' None e] by simp
    next
      case go
      show ?thesis by (rule after, unfold old, rule download_fresh_result [OF go assms(2,3) reach])
    qed
  next
    case (JobStored d)
    then have old: "?old = committed_bytes d" by simp
    obtain d1 y where o: "store_open sha (ew_open_fails w) d (ew_answers w) = (d1, y)" by fastforce
    note op = store_open_ok [OF o assms(4) [OF JobStored]]
    consider (stop) io' e d2 where "x = (io', Some d2, Inl e)" "io' = io1 \<or> io' = io2" "d2 = d \<or> d2 = d1"
      | (go) s where "y = Inr s" "download_stored sha ul w o' original io2 s = x"
      using x JobStored o by (cases y) (auto split: bool.splits if_splits)
    then show ?thesis
    proof cases
      case stop
      then show ?thesis using old op assms(4) [OF JobStored] idle [of io' "Some d2" e] by auto
    next
      case go
      have s: "store_ok sha s" "ts_hashed s = committed_bytes d" "committed_bytes (ts_disk s) = committed_bytes d" using op go(1) by auto
      have "ts_committed s = length (committed_bytes d)" using store_open_count [OF o [unfolded go(1)] assms(4) [OF JobStored]] .
      then show ?thesis by (intro after, unfold old, intro download_stored_result [OF go(2) assms(2) reach s])
    qed
  qed
  then show ?thesis using Inr by blast
qed

end
