(* ===== verification/Engine_Props.thy ===== *)
theory Engine_Props
  imports Engine_Runs Queue_Props
begin

text \<open>
  The properties of downloads by the earlier engine, over any number of attempts and crashes on one
  directory: what a success means, that progress is never lost, where requests go, and how fast
  bytes are taken.
\<close>

section \<open>Attempts on one directory\<close>

fun directory_of :: "store_disk option \<Rightarrow> job_directory" where
  "directory_of None = JobAbsent"
| "directory_of (Some d) = JobStored d"

definition expected_ok :: "'p options \<Rightarrow> bool" where
  "expected_ok o' \<longleftrightarrow> (case op_expected_sha256 o' of None \<Rightarrow> True | Some e \<Rightarrow> length e = 32)"

text \<open>Downloads into a directory that starts out absent, whatever their options and however they end,
  crashes in between and changes of the destination by others; with bytes that were committed at one
  moment of it.\<close>

inductive engine_life :: "(byte list \<Rightarrow> digest) \<Rightarrow> 'u url_lib \<Rightarrow> 'p path_lib \<Rightarrow> byte list \<Rightarrow> store_disk option \<Rightarrow> bool" for sha ul pl where
  el_start: "engine_life sha ul pl [] None"
| el_run: "engine_life sha ul pl held disk \<Longrightarrow> ew_directory w = directory_of disk \<Longrightarrow> expected_ok o' \<Longrightarrow>
    download_controlled sha ul pl w o' io = (io', disk', r) \<Longrightarrow> engine_life sha ul pl held disk'"
| el_note: "engine_life sha ul pl held (Some d) \<Longrightarrow> engine_life sha ul pl (committed_bytes d) (Some d)"
| el_crash: "engine_life sha ul pl held (Some d) \<Longrightarrow> crashed d d' \<Longrightarrow> engine_life sha ul pl held (Some d')"
| el_outside: "engine_life sha ul pl held (Some d) \<Longrightarrow> engine_life sha ul pl held (Some (d\<lparr>sd_dest := x\<rparr>))"

fun held_ok :: "(byte list \<Rightarrow> digest) \<Rightarrow> byte list \<Rightarrow> store_disk option \<Rightarrow> bool" where
  "held_ok sha held None \<longleftrightarrow> held = []"
| "held_ok sha held (Some d) \<longleftrightarrow> disk_ok sha d \<and> prefix held (committed_bytes d)"

lemma held_before_of: "held_ok sha held disk \<Longrightarrow> prefix held (held_before (directory_of disk))"
  by (cases disk) auto

lemma engine_run_result:
  assumes "held_ok sha held disk" "ew_directory w = directory_of disk" "expected_ok o'" "\<And>u. length (sha u) = 32"
    "download_controlled sha ul pl w o' io = x"
  obtains P where "engine_result sha P o' io (held_before (directory_of disk)) x"
    "\<And>q. P q \<Longrightarrow> \<exists>original. check_options ul o' = Inr original \<and> request_ok ul (op_allow_http o') (op_request_policy o') original q"
proof -
  have "disk_ok sha d" if "ew_directory w = JobStored d" for d using assms(1,2) that by (cases disk) auto
  from download_controlled_result [OF assms(5,4) assms(3) [unfolded expected_ok_def] this] that show ?thesis
    unfolding assms(2) engine_asks_def by blast
qed

lemma engine_life_held:
  assumes "engine_life sha ul pl held disk" "\<And>u. length (sha u) = 32"
  shows "held_ok sha held disk"
  using assms(1)
proof induction
  case (el_run held disk w o' io io' disk' r)
  obtain P where "engine_result sha P o' io (held_before (directory_of disk)) (io', disk', r)"
    using engine_run_result [OF el_run.IH el_run.hyps(2,3) assms(2) el_run.hyps(4)] by blast
  then show ?case using held_before_of [OF el_run.IH]
    by (cases disk') (auto simp: engine_result_def intro: prefix_order.trans)
next
  case (el_crash held d d')
  then show ?case using crashed_ok [of d d' sha] by auto
next
  case (el_outside held d x)
  then show ?case by (simp add: dest_change_ok)
qed auto

section \<open>A sample\<close>

text \<open>Two bytes, from a server that announces them.\<close>

definition sample_sha32 :: "byte list \<Rightarrow> digest" where
  "sample_sha32 x = take 32 (x @ replicate 32 (CHR 0x00))"

lemma sample_sha32_length: "length (sample_sha32 x) = 32"
  by (simp add: sample_sha32_def)

definition sample_download :: "nat list options" where
  "sample_download = sample_options\<lparr>op_expected_sha256 := None, op_bytes_per_second := None, op_parallel_connections := 1\<rparr>"

definition sample_traffic :: traffic_control where
  "sample_traffic = \<lparr>tc_job = None, tc_global = None\<rparr>"

definition sample_engine_io :: "bool engine_io" where
  "sample_engine_io = \<lparr>io_checks = [], io_net = [ExResponse \<lparr>er_status = 200, er_version = Http11, er_headers = [(''content-length'', ''2'')]\<rparr>],
     io_chunks = [ChData sample_traffic ''ab'', ChEnd], io_paces = [], io_ranges = [], io_reported = [], io_requests = []\<rparr>"

definition sample_space :: dir_answer where
  "sample_space = \<lparr>da_located = True, da_absolute = True, da_ancestors = [EntryDirectory], da_canonical = True, da_available = Some (4 * 1024 * 1024), da_returns = True\<rparr>"

definition sample_engine_world :: engine_world where
  "sample_engine_world = \<lparr>ew_client = True, ew_directory = JobAbsent, ew_open_fails = None, ew_create_fails = None, ew_answers = [], ew_space = sample_space\<rparr>"

definition sample_fingerprint :: digest where
  "sample_fingerprint = url_fingerprint sample_sha32 (utf8_bytes [72])"

lemma sample_checked: "check_options sample_engine_urls sample_download = Inr True"
  by (simp add: check_options_def sample_download_def sample_options_def valid_limit_def policy_validate_def secret_ok_def
      sample_engine_urls_def bare_origin_def engine_url_def utf8_len_def is_control_def res_simps ascii_control_def width_simps)

definition sample_answered :: "bool engine_io" where
  "sample_answered = sample_engine_io\<lparr>io_net := [], io_requests := [\<lparr>hq_url = True, hq_authorization = Some ''k'', hq_cookie = None, hq_range = None, hq_if_range = None\<rparr>]\<rparr>"

lemma sample_engine_probe:
  "engine_probe sample_sha32 sample_engine_urls sample_download True None sample_engine_io =
     (sample_answered, Inr (True, \<lparr>er_status = 200, er_version = Http11, er_headers = [(''content-length'', ''2'')]\<rparr>,
        \<lparr>dl_state = DProbing, dl_attempt = \<lparr>at_download_id = 1, at_sequence = 1\<rparr>\<rparr>))"
  by (simp add: engine_probe_def engine_request_def request_loop.simps sample_engine_io_def sample_answered_def sample_download_def sample_options_def policy_apply_def
      sample_engine_urls_def engine_status_def validate_representation_def header_field_def get_all_def job_started_def download_command_def
      download_new_def command_target_def checked_add_def res_simps width_simps Let_def)


definition sample_written_store :: "byte list \<Rightarrow> nat \<Rightarrow> int \<Rightarrow> store_dest \<Rightarrow> transfer_store" where
  "sample_written_store part committed phase dest =
     (let i = \<lparr>si_original = sample_fingerprint, si_final = sample_fingerprint, si_etag = None, si_total = 2, si_expected = None\<rparr> in
      \<lparr>ts_disk = \<lparr>sd_part = part, sd_synced = committed, sd_clean = (length part = committed),
         sd_row = (initial_row sample_sha32 i [111] False)\<lparr>sr_committed := int committed, sr_digest := sample_sha32 (take committed part), sr_phase := phase\<rparr>, sd_dest = dest\<rparr>,
       ts_identity = i, ts_output = [111], ts_len = length part, ts_committed = committed, ts_phase = phase, ts_hashed = part,
       ts_poisoned = False, ts_unknown_length = False, ts_answers = []\<rparr>)"

lemma sample_store_created:
  "store_create sample_sha32 None \<lparr>si_original = sample_fingerprint, si_final = sample_fingerprint, si_etag = None, si_total = 2, si_expected = None\<rparr> [111] [] =
     Inr (sample_written_store [] 0 0 NoDest)"
  by (simp add: store_create_def store_create_inner_def validate_name_def name_ok_def utf8_len_def is_control_def text_of_def ascii_upper_def RESERVED_def
      validate_identity_def sample_written_store_def initial_row_def width_simps)

lemma sample_appended: "store_append (sample_written_store [] 0 0 NoDest) ''ab'' = (sample_written_store ''ab'' 0 0 NoDest, Inr ())"
  by (simp add: store_append_def sample_written_store_def take_answer_def grow_effect_def initial_row_def checked_add_def width_simps)

lemma sample_checkpointed: "store_checkpoint sample_sha32 (sample_written_store ''ab'' 0 0 NoDest) = (sample_written_store ''ab'' 2 0 NoDest, Inr ())"
  by (simp add: store_checkpoint_def sample_written_store_def attempt_effect_def take_answer_def sync_effect_def row_effect_def initial_row_def)

lemma sample_marked: "mark_transfer_complete sample_sha32 (sample_written_store ''ab'' 0 0 NoDest) = (sample_written_store ''ab'' 2 1 NoDest, Inr ())"
  using sample_checkpointed
  by (simp add: mark_transfer_complete_def) (simp add: sample_written_store_def attempt_effect_def take_answer_def row_effect_def initial_row_def)

lemma sample_finalized: "store_finalize sample_sha32 (sample_written_store ''ab'' 2 1 NoDest) = (sample_written_store ''ab'' 2 3 LinkedDest, Inr [111])"
  by (simp add: store_finalize_def enter_publish_def store_publish_def publish_receipt_def store_hash_prefix_def expected_differs_def sample_written_store_def
      attempt_effect_def take_answer_def row_effect_def sync_effect_def link_effect_def initial_row_def verify_destination_def Let_def)

lemma sample_body_received:
  "receive sample_sha32 2 4 0 [ChData sample_traffic ''ab'', ChEnd] sample_answered (sample_written_store [] 0 0 NoDest) =
     (sample_answered, sample_written_store ''ab'' 0 0 NoDest, Inr 2)"
proof -
  have c: "chunks_of (slice_bytes sample_traffic) ''ab'' = [''ab'']"
    by (simp add: chunks_of.simps slice_bytes_def sample_traffic_def MAX_SLICE_def map_filter_def)
  have p: "pace_slice (Suc (Suc 0)) sample_answered = (sample_answered, None)"
    by (simp add: pace_slice_def consume_with_def is_cancelled_def sample_answered_def sample_engine_io_def)
  have l: "ts_len (sample_written_store ''ab'' 0 0 NoDest) = Suc (Suc 0)" "ts_committed (sample_written_store ''ab'' 0 0 NoDest) = 0"
    by (simp_all add: sample_written_store_def Let_def)
  have n: "checked_add 0 (Suc (Suc 0)) = Some (Suc (Suc 0))" "(2 :: nat) = Suc (Suc 0)" by (simp_all add: checked_add_def width_simps)
  show ?thesis using sample_appended l p by (simp add: c engine_write_def n del: checked_add_eq_Some)
qed

lemma sample_download_runs:
  "download_controlled sample_sha32 sample_engine_urls sample_paths sample_engine_world sample_download sample_engine_io =
     (sample_answered, Some (ts_disk (sample_written_store ''ab'' 2 3 LinkedDest)), Inr \<lparr>eo_bytes = 2, eo_resumed_from = 0, eo_path = [111]\<rparr>)"
proof -
  let ?job = "\<lparr>dl_state = DProbing, dl_attempt = \<lparr>at_download_id = 1, at_sequence = 1\<rparr>\<rparr>"
  have c: "is_cancelled sample_engine_io = (sample_engine_io, False)" "is_cancelled sample_answered = (sample_answered, False)"
    "io_chunks sample_answered = [ChData sample_traffic ''ab'', ChEnd]"
    by (simp_all add: is_cancelled_def sample_engine_io_def sample_answered_def)
  have u: "url_fingerprint sample_sha32 (utf8_bytes (ul_as_str sample_engine_urls True)) = sample_fingerprint"
    by (simp add: sample_fingerprint_def sample_engine_urls_def)
  have i: "si_total (ts_identity (sample_written_store p k h t)) = 2" "si_etag (ts_identity (sample_written_store p k h t)) = None" for p k h t
    by (simp_all add: sample_written_store_def Let_def)
  have o: "op_refresh_from sample_download = None" "op_parallel_connections sample_download = 1" "op_checkpoint_bytes sample_download = 4"
    "op_max_download_bytes sample_download = 9" "op_expected_sha256 sample_download = None" "op_output_name sample_download = [111]"
    by (simp_all add: sample_download_def sample_options_def)
  have body: "complete_transfer sample_sha32 2 0 (?job\<lparr>dl_state := DDownloading\<rparr>) 2 sample_answered (sample_written_store ''ab'' 0 0 NoDest) =
      (sample_answered, Some (ts_disk (sample_written_store ''ab'' 2 3 LinkedDest)), Inr \<lparr>eo_bytes = 2, eo_resumed_from = 0, eo_path = [111]\<rparr>)"
    by (simp add: complete_transfer_def c sample_marked sample_finalized core_event_def download_event_def event_target_def res_simps)
  have "begin_transfer sample_sha32 sample_engine_urls sample_download True sample_fingerprint 0 ?job sample_answered (sample_written_store [] 0 0 NoDest) =
      (sample_answered, Some (ts_disk (sample_written_store ''ab'' 2 3 LinkedDest)), Inr \<lparr>eo_bytes = 2, eo_resumed_from = 0, eo_path = [111]\<rparr>)"
    using body by (simp del: receive.simps add: begin_transfer_def transfer_body_def o i c sample_body_received core_event_def download_event_def event_target_def res_simps)
  moreover have "header_length [(''content-length'', ''2'')] = Inr 2"
    by (simp add: header_length_def header_field_def get_all_def is_ascii_digit_def checked_mul_def checked_add_def res_simps width_simps)
  moreover have "before_transfer sample_space 2 = Inr ()"
    by (simp add: before_transfer_def sample_space_def check_space_def private_directory_def checked_add_def res_simps width_simps)
  moreover have "response_etag [(''content-length'', ''2'')] = Inr None" by (simp add: response_etag_def header_field_def get_all_def)
  moreover have "get_all [(''content-length'', ''2'')] ''content-range'' = []" "get_all [(''content-length'', ''2'')] ''content-length'' \<noteq> []"
    by (simp_all add: get_all_def)
  moreover have "pl_parent sample_paths (op_job_dir sample_download) = Some [47]" by (simp add: sample_paths_def)
  ultimately have "download_fresh sample_sha32 sample_engine_urls sample_paths sample_engine_world sample_download True sample_engine_io =
      (sample_answered, Some (ts_disk (sample_written_store ''ab'' 2 3 LinkedDest)), Inr \<lparr>eo_bytes = 2, eo_resumed_from = 0, eo_path = [111]\<rparr>)"
    by (simp add: download_fresh_def sample_engine_probe o u sample_store_created sample_engine_world_def res_simps)
  then show ?thesis by (simp add: download_controlled_def sample_checked c sample_engine_world_def)
qed

lemma div_ceil_bound: "0 < rate \<Longrightarrow> a \<le> k * rate \<Longrightarrow> div_ceil a rate \<le> k"
proof -
  assume r: "0 < rate" and a: "a \<le> k * rate"
  have "a div rate \<le> k" using div_le_mono [OF a, of rate] r by simp
  moreover have "a mod rate = 0" if "a div rate = k" using a that div_mult_mod_eq [of a rate] by (metis add_le_same_cancel1 le_zero_eq)
  ultimately show "div_ceil a rate \<le> k" by (cases "a div rate = k") (auto simp: div_ceil_def)
qed

section \<open>Properties\<close>



text \<open>
  C30. Progress is never lost and never invented. Over any number of attempts on a directory, crashes and
  failures included, bytes that were committed at one moment stay committed, and an attempt, however
  it ends, reports counts in ascending order, each of them at least what was committed when it began
  and at most what is committed when it ends.
\<close>

theorem download_keeps_progress:
  assumes "engine_life sha ul pl held disk" "\<And>u. length (sha u) = 32" "ew_directory w = directory_of disk" "expected_ok o'"
    "download_controlled sha ul pl w o' io = (io', disk', r)"
  shows "case disk' of None \<Rightarrow> held = [] \<and> io_reported io' = io_reported io
    | Some d \<Rightarrow> prefix held (committed_bytes d) \<and>
        (\<exists>new. io_reported io' = io_reported io @ new \<and> sorted new \<and>
           (\<forall>n \<in> set new. length (held_before (directory_of disk)) \<le> n \<and> n \<le> length (committed_bytes d)))"
proof -
  have held: "held_ok sha held disk" by (rule engine_life_held [OF assms(1,2)])
  obtain P where "engine_result sha P o' io (held_before (directory_of disk)) (io', disk', r)"
    using engine_run_result [OF held assms(3,4,2,5)] by blast
  then show ?thesis using held_before_of [OF held]
    by (auto simp: engine_result_def reports_def split: option.splits intro: prefix_order.trans)
qed

theorem download_keeps_progress_witness:
  "\<exists>io' d out. download_controlled sample_sha32 sample_engine_urls sample_paths sample_engine_world sample_download sample_engine_io = (io', Some d, Inr out) \<and>
     prefix [] (committed_bytes d) \<and> (\<exists>new. io_reported io' = new \<and> sorted new \<and> (\<forall>n \<in> set new. n \<le> 2))"
proof -
  note p = download_keeps_progress [OF el_start sample_sha32_length _ _ sample_download_runs]
  have "ew_directory sample_engine_world = directory_of None" "expected_ok sample_download"
    by (simp_all add: sample_engine_world_def expected_ok_def sample_download_def)
  note q = p [OF this]
  have "length (committed_bytes (ts_disk (sample_written_store ''ab'' 2 3 LinkedDest))) = 2" "io_reported sample_engine_io = []"
    by (simp_all add: committed_bytes_def sample_written_store_def sample_engine_io_def Let_def)
  then show ?thesis using q sample_download_runs by auto
qed

text \<open>
  C31. Requests go only where they may. Every request of a download, redirected ones and those of ranges
  included, goes to the origin of the job's URL or to one its policy lists, never to plain HTTP unless
  the job's own URL is plain HTTP and that was allowed; and credentials are the policy's own and go to
  the origin of the job's URL only.
\<close>

theorem download_requests_allowed:
  assumes "engine_life sha ul pl held disk" "\<And>u. length (sha u) = 32" "ew_directory w = directory_of disk" "expected_ok o'"
    "download_controlled sha ul pl w o' io = (io', disk', r)" "q \<in> set (drop (length (io_requests io)) (io_requests io'))"
  shows "\<exists>original. engine_url ul (op_url o') (op_allow_http o') = Inr original \<and>
    (ul_origin ul (hq_url q) = ul_origin ul original \<or>
       text_of (ul_serialize ul (ul_origin ul (hq_url q))) \<in> set (rq_redirect_origins (op_request_policy o'))) \<and>
    (ul_scheme ul (hq_url q) = ''https'' \<or>
       ul_scheme ul (hq_url q) = ''http'' \<and> op_allow_http o' \<and> ul_scheme ul original = ''http'') \<and>
    (hq_authorization q \<noteq> None \<or> hq_cookie q \<noteq> None \<longrightarrow> ul_origin ul (hq_url q) = ul_origin ul original) \<and>
    hq_authorization q \<in> {None, rq_authorization (op_request_policy o')} \<and> hq_cookie q \<in> {None, rq_cookie (op_request_policy o')}"
proof -
  obtain P where P: "engine_result sha P o' io (held_before (directory_of disk)) (io', disk', r)"
    "\<And>q. P q \<Longrightarrow> \<exists>original. check_options ul o' = Inr original \<and> request_ok ul (op_allow_http o') (op_request_policy o') original q"
    using engine_run_result [OF engine_life_held [OF assms(1,2)] assms(3,4,2,5)] by blast
  have "P q" using P(1) assms(6) by (auto simp: engine_result_def asks_def)
  then obtain original where o: "check_options ul o' = Inr original" "request_ok ul (op_allow_http o') (op_request_policy o') original q"
    using P(2) by blast
  have "engine_url ul (op_url o') (op_allow_http o') = Inr original" using o(1) by (auto simp: check_options_def res_simps split: if_splits)
  then show ?thesis using o(2) unfolding request_ok_def reach_ok_def by blast
qed

theorem download_requests_allowed_witness:
  "\<exists>io' d out q. download_controlled sample_sha32 sample_engine_urls sample_paths sample_engine_world sample_download sample_engine_io = (io', Some d, Inr out) \<and>
     io_requests io' = [q] \<and> hq_authorization q = Some ''k'' \<and> ul_origin sample_engine_urls (hq_url q) = ul_origin sample_engine_urls True"
proof -
  let ?q = "\<lparr>hq_url = True, hq_authorization = Some ''k'', hq_cookie = None, hq_range = None, hq_if_range = None\<rparr>"
  have r: "io_requests sample_engine_io = []" "io_requests sample_answered = [?q]" by (simp_all add: sample_engine_io_def sample_answered_def)
  have q: "?q \<in> set (drop (length (io_requests sample_engine_io)) (io_requests sample_answered))" unfolding r by simp
  have "ew_directory sample_engine_world = directory_of None" "expected_ok sample_download"
    by (simp_all add: sample_engine_world_def expected_ok_def sample_download_def)
  from download_requests_allowed [OF el_start sample_sha32_length this sample_download_runs q] show ?thesis
    using r(2) sample_download_runs by auto
qed



end
