(* ===== verification/References.thy ===== *)
theory References
  imports Persistence Utf8
begin

text \<open>
  What each admitted job points at (\<open>crates/adapters/persistence/src/references.rs\<close>): the tables of
  links and of destinations. A text column holds only valid UTF-8.
\<close>

definition str_ok :: "byte list \<Rightarrow> bool" where
  "str_ok v \<longleftrightarrow> utf8_chars v \<noteq> None"

text \<open>References use the whole range of 64 bits, SQLite integers are signed: the bits are kept.\<close>

definition stored_id :: "u64 \<Rightarrow> i64" where
  "stored_id v = (if v < 2 ^ 63 then int v else int v - 2 ^ 64)"

definition loaded_id :: "i64 \<Rightarrow> u64" where
  "loaded_id v = (if 0 \<le> v then nat v else nat (v + 2 ^ 64))"

record source_row =
  so_url :: "string option"
  so_allow_http :: i64
  so_sensitive :: i64

record reference_tables =
  rt_sources :: "(i64 \<times> source_row) list"
  rt_destinations :: "(i64 \<times> byte list) list"

definition flag :: "bool \<Rightarrow> i64" where
  "flag b = (if b then 1 else 0)"

text \<open>Inserting, or on a conflict updating unless the row is marked sensitive.\<close>

definition upsert_source :: "i64 \<Rightarrow> source_row \<Rightarrow> (i64 \<times> source_row) list \<Rightarrow> (i64 \<times> source_row) list" where
  "upsert_source i row rows =
     (case map_of rows i of
        None \<Rightarrow> rows @ [(i, row)]
      | Some old \<Rightarrow> if so_sensitive old = 0 then map (\<lambda>(k, r). if k = i then (k, row) else (k, r)) rows else rows)"

definition upsert_destination :: "i64 \<Rightarrow> byte list \<Rightarrow> (i64 \<times> byte list) list \<Rightarrow> (i64 \<times> byte list) list" where
  "upsert_destination i p rows =
     (case map_of rows i of
        None \<Rightarrow> rows @ [(i, p)]
      | Some _ \<Rightarrow> map (\<lambda>(k, r). if k = i then (k, p) else (k, r)) rows)"

definition source_columns :: "source_reference \<Rightarrow> source_row" where
  "source_columns r = \<lparr>so_url = sf_url r, so_allow_http = flag (sf_allow_http r), so_sensitive = flag (sf_sensitive r)\<rparr>"

definition record_reference :: "SourceRef \<Rightarrow> source_reference \<Rightarrow> DestinationRef \<Rightarrow> byte list \<Rightarrow> bool \<Rightarrow> reference_tables \<Rightarrow>
  (PersistenceError, reference_tables) result" where
  "record_reference source r destination path io t =
     (if \<not> str_ok path then Inl PCorrupt
      else if \<not> io then Inl PUnavailable
      else Inr (t\<lparr>rt_sources := upsert_source (stored_id source) (source_columns r) (rt_sources t),
                  rt_destinations := upsert_destination (stored_id destination) path (rt_destinations t)\<rparr>))"

text \<open>The port: whatever a failure is, the caller sees one of three.\<close>

definition reference_record :: "SourceRef \<Rightarrow> source_reference \<Rightarrow> DestinationRef \<Rightarrow> byte list \<Rightarrow> bool \<Rightarrow> reference_tables \<Rightarrow>
  (CommitError, reference_tables) result" where
  "reference_record source r destination path io t =
     map_err (\<lambda>e. case e of PUnavailable \<Rightarrow> CommitUnavailable | PCapacity \<Rightarrow> CommitCapacity | _ \<Rightarrow> CommitConflict)
       (record_reference source r destination path io t)"

definition load_source :: "i64 \<times> source_row \<Rightarrow> (PersistenceError, SourceRef \<times> source_reference) result" where
  "load_source = (\<lambda>(i, row).
     res_bind (map_err (\<lambda>_. PCorrupt) (identifier_new (loaded_id i))) (\<lambda>source.
     res_bind (case so_url row of
                 Some url \<Rightarrow> if so_sensitive row \<noteq> 0 then Inr (source_reference_sensitive (so_allow_http row \<noteq> 0))
                             else map_err (\<lambda>_. PCorrupt) (source_reference_new url (so_allow_http row \<noteq> 0))
               | None \<Rightarrow> Inr (source_reference_sensitive (so_allow_http row \<noteq> 0))) (\<lambda>r.
     Inr (source, r))))"

definition stored_sources :: "reference_tables \<Rightarrow> (PersistenceError, (SourceRef \<times> source_reference) list) result" where
  "stored_sources t = collect_res (map load_source (rt_sources t))"

definition load_destination :: "i64 \<times> byte list \<Rightarrow> (PersistenceError, DestinationRef \<times> byte list) result" where
  "load_destination = (\<lambda>(i, p). res_bind (map_err (\<lambda>_. PCorrupt) (identifier_new (loaded_id i))) (\<lambda>d. Inr (d, p)))"

definition stored_destinations :: "reference_tables \<Rightarrow> (PersistenceError, (DestinationRef \<times> byte list) list) result" where
  "stored_destinations t = collect_res (map load_destination (rt_destinations t))"

section \<open>What the tables remember\<close>

lemma loaded_stored [simp]: "v \<le> U64_MAX \<Longrightarrow> loaded_id (stored_id v) = v"
  by (simp add: loaded_id_def stored_id_def U64_MAX_def)

lemma stored_id_inj: "v \<le> U64_MAX \<Longrightarrow> w \<le> U64_MAX \<Longrightarrow> stored_id v = stored_id w \<longleftrightarrow> v = w"
  by (metis loaded_stored)

lemma map_of_replace:
  "map_of (map (\<lambda>(k, r). if k = i then (k, x) else (k, r)) rows) j =
     (if j = i then map_option (\<lambda>_. x) (map_of rows i) else map_of rows j)"
  by (induction rows) auto

lemma upsert_source_at:
  "map_of (upsert_source i row rows) j =
     (if j \<noteq> i then map_of rows j
      else case map_of rows i of None \<Rightarrow> Some row | Some old \<Rightarrow> Some (if so_sensitive old = 0 then row else old))"
  by (auto simp: upsert_source_def map_of_replace map_add_def split: option.splits)

lemma upsert_destination_at: "map_of (upsert_destination i p rows) j = (if j = i then Some p else map_of rows j)"
  by (auto simp: upsert_destination_def map_of_replace map_add_def split: option.splits)

lemma upsert_source_keys:
  "map fst (upsert_source i row rows) = map fst rows @ (if i \<in> set (map fst rows) then [] else [i])"
proof (cases "map_of rows i")
  case (Some old)
  then have "i \<in> set (map fst rows)" by (metis map_of_eq_None_iff option.distinct(1) list.set_map)
  then show ?thesis using Some by (auto simp: upsert_source_def)
next
  case None
  then have "i \<notin> set (map fst rows)" by (simp add: map_of_eq_None_iff)
  then show ?thesis using None by (simp add: upsert_source_def del: list.set_map)
qed

lemma upsert_destination_keys:
  "map fst (upsert_destination i p rows) = map fst rows @ (if i \<in> set (map fst rows) then [] else [i])"
proof (cases "map_of rows i")
  case (Some old)
  then have "i \<in> set (map fst rows)" by (metis map_of_eq_None_iff option.distinct(1) list.set_map)
  then show ?thesis using Some by (auto simp: upsert_destination_def)
next
  case None
  then have "i \<notin> set (map fst rows)" by (simp add: map_of_eq_None_iff)
  then show ?thesis using None by (simp add: upsert_destination_def del: list.set_map)
qed

text \<open>What the rows of the tables satisfy, and that recording keeps it.\<close>

definition source_row_ok :: "i64 \<Rightarrow> source_row \<Rightarrow> bool" where
  "source_row_ok i row \<longleftrightarrow> (\<exists>v. identifier_ok v \<and> i = stored_id v) \<and>
     (if so_sensitive row = 0 then \<exists>url. so_url row = Some url \<and> url \<noteq> [] \<and> length url \<le> 16384 else so_url row = None)"

definition tables_ok :: "reference_tables \<Rightarrow> bool" where
  "tables_ok t \<longleftrightarrow> distinct (map fst (rt_sources t)) \<and> distinct (map fst (rt_destinations t)) \<and>
     (\<forall>(i, row) \<in> set (rt_sources t). source_row_ok i row) \<and>
     (\<forall>(i, p) \<in> set (rt_destinations t). \<exists>v. identifier_ok v \<and> i = stored_id v)"

text \<open>A reference is only ever made by its two constructors.\<close>

definition reference_ok :: "source_reference \<Rightarrow> bool" where
  "reference_ok r \<longleftrightarrow> (\<exists>url b. source_reference_new url b = Inr r) \<or> (\<exists>b. r = source_reference_sensitive b)"

lemma reference_row_ok: "reference_ok r \<Longrightarrow> identifier_ok v \<Longrightarrow> source_row_ok (stored_id v) (source_columns r)"
  by (auto simp: reference_ok_def source_row_ok_def source_columns_def source_reference_new_def
      source_reference_sensitive_def flag_def split: if_splits)

lemma upsert_source_rows: "(i, r) \<in> set (upsert_source k row rows) \<Longrightarrow> (i, r) = (k, row) \<or> (i, r) \<in> set rows"
  by (auto simp: upsert_source_def split: option.splits if_splits)

lemma upsert_destination_rows: "(i, r) \<in> set (upsert_destination k p rows) \<Longrightarrow> (i, r) = (k, p) \<or> (i, r) \<in> set rows"
  by (auto simp: upsert_destination_def split: option.splits if_splits)

lemma record_tables_ok:
  assumes "record_reference source r destination path io t = Inr t'" "tables_ok t"
    and "reference_ok r" "identifier_ok source" "identifier_ok destination"
  shows "tables_ok t'"
proof -
  have t': "rt_sources t' = upsert_source (stored_id source) (source_columns r) (rt_sources t)"
    "rt_destinations t' = upsert_destination (stored_id destination) path (rt_destinations t)"
    using assms(1) by (auto simp: record_reference_def split: if_splits)
  have "source_row_ok i row" if "(i, row) \<in> set (rt_sources t')" for i row
    using upsert_source_rows [of i row, folded t'] that assms(2) reference_row_ok [OF assms(3,4)]
    unfolding t' tables_ok_def by blast
  moreover have "\<exists>v. identifier_ok v \<and> i = stored_id v" if "(i, p) \<in> set (rt_destinations t')" for i p
    using that assms(2,5) unfolding t' tables_ok_def by (blast dest: upsert_destination_rows)
  ultimately show ?thesis
    using assms(2) unfolding tables_ok_def t' upsert_source_keys upsert_destination_keys by auto
qed

text \<open>Any number of further recordings, by any request.\<close>

inductive recording :: "reference_tables \<Rightarrow> reference_tables \<Rightarrow> bool" where
  rec_record: "record_reference source r destination path io t = Inr t' \<Longrightarrow> reference_ok r \<Longrightarrow> identifier_ok source \<Longrightarrow>
    identifier_ok destination \<Longrightarrow> recording t t'"

lemma recordings_ok: "recording\<^sup>*\<^sup>* t t' \<Longrightarrow> tables_ok t \<Longrightarrow> tables_ok t'"
  by (induction rule: rtranclp_induct) (auto elim!: recording.cases dest: record_tables_ok)

lemma sensitive_row_stays:
  assumes "recording t t'" "map_of (rt_sources t) i = Some row" "so_sensitive row \<noteq> 0"
  shows "map_of (rt_sources t') i = Some row"
  using assms by (auto elim!: recording.cases simp: record_reference_def upsert_source_at split: if_splits)

text \<open>Reading back rows that satisfy what recording keeps never fails.\<close>

lemma load_source_ok:
  assumes "source_row_ok (stored_id v) row" "identifier_ok v"
  shows "load_source (stored_id v, row) =
    Inr (v, if so_sensitive row \<noteq> 0 then source_reference_sensitive (so_allow_http row \<noteq> 0)
            else \<lparr>sf_url = so_url row, sf_allow_http = (so_allow_http row \<noteq> 0), sf_sensitive = False\<rparr>)"
  using assms
  by (auto simp: load_source_def source_row_ok_def identifier_ok_def identifier_new_def source_reference_new_def
      split: if_splits)

lemma load_source_reference:
  assumes "reference_ok r" "identifier_ok v"
  shows "load_source (stored_id v, source_columns r) = Inr (v, r)"
  using load_source_ok [OF reference_row_ok [OF assms] assms(2)] assms(1)
  by (auto simp: reference_ok_def source_columns_def source_reference_new_def source_reference_sensitive_def flag_def
      split: if_splits)

lemma map_of_collect:
  assumes "collect_res (map f rows) = Inr out" "\<And>i x. (i, x) \<in> set rows \<Longrightarrow> \<exists>y. f (i, x) = Inr (g i, y)"
    and "inj_on g (insert k (fst ` set rows))" "map_of rows k = Some x" "f (k, x) = Inr (g k, y)"
  shows "map_of out (g k) = Some y"
  using assms
proof (induction rows arbitrary: out)
  case (Cons p rows)
  obtain i z where p: "p = (i, z)" by fastforce
  obtain u where u: "f (i, z) = Inr (g i, u)" using Cons.prems(2) [of i z] p by auto
  obtain rest where rest: "collect_res (map f rows) = Inr rest" "out = (g i, u) # rest"
    using Cons.prems(1) p u by (auto simp: res_simps)
  show ?case
  proof (cases "i = k")
    case True
    then show ?thesis using Cons.prems(4,5) p u rest(2) by simp
  next
    case False
    have "g i \<noteq> g k" using False Cons.prems(3) p by (auto simp: inj_on_def)
    moreover have "map_of rest (g k) = Some y"
    proof (rule Cons.IH [OF rest(1)])
      show "\<exists>y. f (i, x) = Inr (g i, y)" if "(i, x) \<in> set rows" for i x using Cons.prems(2) that by simp
      show "inj_on g (insert k (fst ` set rows))" using Cons.prems(3) by (rule inj_on_subset) auto
    qed (use Cons.prems(4,5) p False in simp_all)
    ultimately show ?thesis using rest(2) by simp
  qed
qed simp

end
