(* ===== verification/Daemon.thy ===== *)
theory Daemon
  imports References Protocol Scheduler_Props Http Buffers "HOL-Library.AList"
begin

text \<open>
  The resident engine (\<open>crates/bins/daemon/src/service.rs\<close> and the helpers of \<open>lib.rs\<close>): how a request
  becomes a job. The file system's own answers, SHA-256, the URL library and what the platform
  adapter reports of a directory are parameters. An \<open>add\<close> awaits the repository several times, so it
  is a sequence of phases between which other calls and transactions run. Paths are those of Unix.
\<close>

section \<open>Errors and their closed names\<close>

datatype DaemonError =
    DInvalidInput | DEndpointUnavailable | DStateBusy | DDestinationRefused | DNothingToContinue
  | DNeedsDecision "StopReason option" | DExposedStateDirectory u32 | DSwappableStatePath u32
  | DPersistence PersistenceError | DBinding BindingError | DAdmission AppError | DRun RunError

fun stop_reason :: "StopReason \<Rightarrow> string" where
  "stop_reason RSourceChanged = ''SOURCE-CHANGED''"
| "stop_reason RAuthentication = ''AUTHENTICATION''"
| "stop_reason RStorage = ''STORAGE''"
| "stop_reason RIntegrity = ''INTEGRITY''"
| "stop_reason RNetwork = ''NETWORK''"
| "stop_reason RPolicy = ''POLICY''"
| "stop_reason RUnknown = ''UNKNOWN''"
| "stop_reason RDestination = ''DESTINATION''"

fun binding_code :: "BindingError \<Rightarrow> string" where
  "binding_code AlreadyBound = ''SOURCE-ALREADY-BOUND''"
| "binding_code InvalidUrl = ''SOURCE-INVALID-URL''"
| "binding_code InsecureHttp = ''SOURCE-INSECURE-HTTP''"
| "binding_code InvalidCredential = ''SOURCE-INVALID-CREDENTIAL''"
| "binding_code TooManyOrigins = ''SOURCE-TOO-MANY-ORIGINS''"

fun run_code :: "RunError \<Rightarrow> string" where
  "run_code RInvalidConfig = ''RUN-INVALID-CONFIG''"
| "run_code (RNotRunnable _) = ''RUN-NOT-RUNNABLE''"
| "run_code (RDomain _) = ''RUN-DOMAIN''"
| "run_code (RCommit _) = ''RUN-COMMIT''"
| "run_code RRepository = ''RUN-REPOSITORY''"
| "run_code (RWriter _) = ''RUN-WRITER''"
| "run_code (RStorageError _) = ''RUN-STORAGE''"
| "run_code RInvariant = ''RUN-INVARIANT''"

fun job_state_name :: "JobState \<Rightarrow> string" where
  "job_state_name Queued = ''Queued''"
| "job_state_name Probing = ''Probing''"
| "job_state_name Transferring = ''Transferring''"
| "job_state_name Stopping = ''Stopping''"
| "job_state_name Paused = ''Paused''"
| "job_state_name RetryWait = ''RetryWait''"
| "job_state_name NeedsAction = ''NeedsAction''"
| "job_state_name Verifying = ''Verifying''"
| "job_state_name Publishing = ''Publishing''"
| "job_state_name Cancelling = ''Cancelling''"
| "job_state_name JobState.Failed = ''Failed''"
| "job_state_name Completed = ''Completed''"
| "job_state_name Cancelled = ''Cancelled''"

fun persistence_code :: "PersistenceError \<Rightarrow> string" where
  "persistence_code PInvalidPath = ''PERSISTENCE-INVALID-PATH''"
| "persistence_code PInvalidLimits = ''PERSISTENCE-INVALID-LIMITS''"
| "persistence_code PLocked = ''PERSISTENCE-LOCKED''"
| "persistence_code PUnavailable = ''PERSISTENCE-UNAVAILABLE''"
| "persistence_code PersistenceError.PUnsupportedVersion = ''PERSISTENCE-UNSUPPORTED-VERSION''"
| "persistence_code PCorrupt = ''PERSISTENCE-CORRUPT''"
| "persistence_code PCapacity = ''PERSISTENCE-CAPACITY''"
| "persistence_code PConflict = ''PERSISTENCE-CONFLICT''"
| "persistence_code PMissing = ''PERSISTENCE-MISSING''"
| "persistence_code PRemoved = ''PERSISTENCE-REMOVED''"

fun daemon_code :: "DaemonError \<Rightarrow> string" where
  "daemon_code DInvalidInput = ''ENGINE-INVALID-INPUT''"
| "daemon_code DEndpointUnavailable = ''IPC-ENDPOINT-UNAVAILABLE''"
| "daemon_code DStateBusy = ''STATE-DIRECTORY-BUSY''"
| "daemon_code DDestinationRefused = ''DESTINATION-REFUSED''"
| "daemon_code DNothingToContinue = ''NOTHING-TO-CONTINUE''"
| "daemon_code (DNeedsDecision (Some r)) = ''STOPPED-'' @ stop_reason r @ ''-RERUN-WITH-RESUME''"
| "daemon_code (DNeedsDecision None) = ''STOPPED-RERUN-WITH-RESUME''"
| "daemon_code (DExposedStateDirectory _) = ''STATE-DIRECTORY-EXPOSED''"
| "daemon_code (DSwappableStatePath _) = ''STATE-PATH-SWAPPABLE''"
| "daemon_code (DPersistence e) = persistence_code e"
| "daemon_code (DBinding e) = binding_code e"
| "daemon_code (DAdmission e) = app_error_code e"
| "daemon_code (DRun e) = run_code e"

section \<open>References\<close>

text \<open>A label and the parts, each after its length, hashed; a reference is the first eight bytes.\<close>

definition labelled :: "byte list \<Rightarrow> byte list list \<Rightarrow> byte list" where
  "labelled label parts = label @ concat (map (\<lambda>p. le_bytes 8 (length p) @ p) parts)"

definition daemon_digest :: "(byte list \<Rightarrow> digest) \<Rightarrow> byte list \<Rightarrow> byte list list \<Rightarrow> digest" where
  "daemon_digest sha label parts = sha (labelled label parts)"

definition reference :: "(byte list \<Rightarrow> digest) \<Rightarrow> byte list \<Rightarrow> byte list list \<Rightarrow> u64" where
  "reference sha label parts = max (from_le_bytes (take 8 (daemon_digest sha label parts))) 1"

definition SOURCE_LABEL :: "byte list" where "SOURCE_LABEL = ''FHD.source.v1'' @ [CHR 0x00]"
definition DESTINATION_LABEL :: "byte list" where "DESTINATION_LABEL = ''FHD.destination.v1'' @ [CHR 0x00]"
definition REQUEST_LABEL :: "byte list" where "REQUEST_LABEL = ''FHD.request.v1'' @ [CHR 0x00]"

definition bool_byte :: "bool \<Rightarrow> byte" where
  "bool_byte b = (if b then CHR 0x01 else CHR 0x00)"

definition source_reference_of :: "(byte list \<Rightarrow> digest) \<Rightarrow> byte list \<Rightarrow> bool \<Rightarrow> u64" where
  "source_reference_of sha url allow_http = reference sha SOURCE_LABEL [url, [bool_byte allow_http]]"

definition destination_reference_of :: "(byte list \<Rightarrow> digest) \<Rightarrow> byte list \<Rightarrow> u64" where
  "destination_reference_of sha destination = reference sha DESTINATION_LABEL [destination]"

definition request_key :: "(byte list \<Rightarrow> digest) \<Rightarrow> byte list \<Rightarrow> byte list \<Rightarrow> u64 \<Rightarrow> bool \<Rightarrow> receipt_key" where
  "request_key sha url destination max_bytes allow_http =
     \<lparr>rk_principal = 1,
      rk_digest = daemon_digest sha REQUEST_LABEL [url, destination, le_bytes 8 max_bytes, [bool_byte allow_http]]\<rparr>"

section \<open>Names and destinations\<close>

definition REFUSED :: "string list" where
  "REFUSED = [''lnk'', ''url'', ''scf'', ''library-ms'', ''search-ms'', ''searchconnector-ms'', ''appref-ms'', ''theme'',
              ''themepack'', ''desktop'', ''inf'', ''hta'', ''msc'', ''reg'']"

definition DEVICES :: "string list" where
  "DEVICES = [''con'', ''prn'', ''aux'', ''nul'', ''com1'', ''com2'', ''com3'', ''com4'', ''com5'', ''com6'', ''com7'', ''com8'',
              ''com9'', ''lpt1'', ''lpt2'', ''lpt3'', ''lpt4'', ''lpt5'', ''lpt6'', ''lpt7'', ''lpt8'', ''lpt9'']"

definition str_chars :: "byte list \<Rightarrow> nat list" where
  "str_chars v = (case utf8_chars v of None \<Rightarrow> [] | Some cs \<Rightarrow> cs)"

definition misleading_char :: "nat \<Rightarrow> bool" where
  "misleading_char c \<longleftrightarrow> is_control c \<or> (0x202a \<le> c \<and> c \<le> 0x202e) \<or> (0x2066 \<le> c \<and> c \<le> 0x2069) \<or> c = 0x200e \<or> c = 0x200f"

definition publishable_name :: "byte list \<Rightarrow> bool" where
  "publishable_name leaf =
     (if leaf = [] \<or> 255 < length leaf \<or> leaf = ''.'' \<or> leaf = ''..'' then False
      else if last leaf = CHR ''.'' \<or> last leaf = CHR '' '' \<or> hd leaf = CHR '' '' then False
      else if CHR '':'' \<in> set leaf \<or> CHR ''/'' \<in> set leaf \<or> CHR 0x5c \<in> set leaf then False
      else
        let lower = map ascii_lower leaf in
        if lower \<in> {''autorun.inf'', ''desktop.ini'', ''.htaccess''} then False
        else
          let parts = split_on (CHR ''.'') lower in
          if hd parts \<in> set DEVICES then False
          else if list_ex (\<lambda>p. p \<in> set REFUSED) (tl parts) then False
          else \<not> list_ex misleading_char (str_chars leaf))"

text \<open>The components of an absolute path below its root: repeated separators and single dots vanish.\<close>

type_synonym abs_path = "string list"

definition is_absolute :: "byte list \<Rightarrow> bool" where
  "is_absolute p \<longleftrightarrow> p \<noteq> [] \<and> hd p = CHR ''/''"

definition path_components :: "byte list \<Rightarrow> string list" where
  "path_components p = filter (\<lambda>c. c \<noteq> [] \<and> c \<noteq> ''.'') (split_on (CHR ''/'') p)"

definition path_text :: "abs_path \<Rightarrow> byte list" where
  "path_text p = (if p = [] then ''/'' else concat (map (\<lambda>c. CHR ''/'' # c) p))"

fun resolve_parts :: "abs_path \<Rightarrow> string list \<Rightarrow> abs_path option" where
  "resolve_parts resolved [] = Some resolved"
| "resolve_parts resolved (p # ps) =
     (if p = ''..'' then if resolved = [] then None else resolve_parts (butlast resolved) ps
      else resolve_parts (resolved @ [p]) ps)"

text \<open>The file system resolves a directory to its one name, if it exists.\<close>

type_synonym canonical = "abs_path \<Rightarrow> abs_path option"

definition allowed_destination :: "canonical \<Rightarrow> abs_path \<Rightarrow> abs_path option \<Rightarrow> byte list \<Rightarrow> (DaemonError, abs_path) result" where
  "allowed_destination canonical state root proposed =
     (if \<not> is_absolute proposed then Inl DDestinationRefused
      else
      res_bind (ok_or (resolve_parts [] (path_components proposed)) DDestinationRefused) (\<lambda>resolved.
      if resolved = [] \<or> \<not> str_ok (last resolved) then Inl DDestinationRefused
      else
        let leaf = last resolved in
        if \<not> publishable_name leaf then Inl DDestinationRefused
        else
        res_bind (ok_or (canonical (butlast resolved)) DDestinationRefused) (\<lambda>parent.
        if prefix state parent then Inl DDestinationRefused
        else if (case root of Some r \<Rightarrow> \<not> prefix r parent | None \<Rightarrow> False) then Inl DDestinationRefused
        else Inr (parent @ [leaf]))))"

section \<open>Directories\<close>

text \<open>What the platform reports of a directory: whether it was made now or found, whether its own
  entry is a real directory, whether its mode could be set, how many other principals may write
  into it and how many components of its path others could replace.\<close>

record directory_facts =
  df_created :: "bool option"
  df_entry :: "(bool \<times> bool) option"
  df_narrowed :: bool
  df_foreign :: "nat option"
  df_swappable :: "nat option"

definition own_directory :: "directory_facts \<Rightarrow> (DaemonError, unit) result" where
  "own_directory f =
     res_bind (ok_or (df_created f) DInvalidInput) (\<lambda>created.
     res_bind (ok_or (df_entry f) DInvalidInput) (\<lambda>(is_symlink, is_dir).
     if is_symlink \<or> \<not> is_dir then Inl DInvalidInput
     else if created \<and> \<not> df_narrowed f then Inl DInvalidInput
     else
     res_bind (ok_or (df_foreign f) DInvalidInput) (\<lambda>foreign.
     if foreign \<noteq> 0 then Inl (DExposedStateDirectory (foreign mod 2 ^ 32))
     else
     res_bind (ok_or (df_swappable f) DInvalidInput) (\<lambda>swappable.
     if swappable \<noteq> 0 then Inl (DSwappableStatePath (swappable mod 2 ^ 32))
     else Inr ()))))"

definition inspect_found_directory :: "directory_facts \<Rightarrow> (AppError, unit) result" where
  "inspect_found_directory f =
     res_bind (ok_or (df_entry f) AInvalidInput) (\<lambda>(is_symlink, is_dir).
     if is_symlink \<or> \<not> is_dir then Inl AInvalidInput
     else
     res_bind (ok_or (df_foreign f) AInvalidInput) (\<lambda>foreign.
     if foreign \<noteq> 0 then Inl AInvalidInput else Inr ()))"

definition found_or_created :: "directory_facts \<Rightarrow> (AppError, unit) result" where
  "found_or_created f =
     res_bind (ok_or (df_created f) AInvalidInput) (\<lambda>created.
     if created then Inr () else inspect_found_directory f)"

definition private_parts_directory :: "(abs_path \<Rightarrow> directory_facts) \<Rightarrow> abs_path \<Rightarrow> string \<Rightarrow> (AppError, abs_path) result" where
  "private_parts_directory facts destination engine =
     (if destination = [] then Inl AInvalidInput
      else
        let outer = butlast destination @ [''.fhd-parts'']; directory = outer @ [engine] in
        res_bind (found_or_created (facts outer)) (\<lambda>_.
        res_bind (found_or_created (facts directory)) (\<lambda>_.
        Inr directory)))"

definition own_parts :: "(StorageError, unit) result \<Rightarrow> (DaemonError, unit) result" where
  "own_parts answer = map_err (\<lambda>e. case e of SLocked \<Rightarrow> DStateBusy | _ \<Rightarrow> DInvalidInput) answer"

section \<open>The service\<close>

datatype Intent = IntentStart | IntentResume

record engine_config =
  ec_state_directory :: "byte list"
  ec_destination :: "byte list"
  ec_connections :: usize
  ec_engine_connections :: usize
  ec_max_active :: usize
  ec_expected_sha256 :: "digest option"
  ec_max_bytes :: u64
  ec_allow_http :: bool
  ec_download_root :: "byte list option"
  ec_intent :: Intent

definition engine_config_valid :: "engine_config \<Rightarrow> bool" where
  "engine_config_valid c \<longleftrightarrow>
     is_absolute (ec_state_directory c) \<and> 1 \<le> ec_connections c \<and> ec_connections c \<le> 16 \<and>
     1 \<le> ec_engine_connections c \<and> ec_engine_connections c \<le> 64 \<and> ec_connections c \<le> ec_engine_connections c \<and>
     1 \<le> ec_max_active c \<and> ec_max_active c \<le> 64"

text \<open>The destinations learned as jobs are admitted.\<close>

definition claimed_by_other :: "(DestinationRef \<times> abs_path) list \<Rightarrow> DestinationRef \<Rightarrow> abs_path \<Rightarrow> bool" where
  "claimed_by_other entries destination path \<longleftrightarrow> list_ex (\<lambda>(other, taken). other \<noteq> destination \<and> taken = path) entries"

definition registry_insert :: "DestinationRef \<Rightarrow> abs_path \<Rightarrow> (DestinationRef \<times> abs_path) list \<Rightarrow> (DestinationRef \<times> abs_path) list" where
  "registry_insert destination path entries = AList.update destination path entries"

definition registry_resolve :: "(DestinationRef \<times> abs_path) list \<Rightarrow> DestinationRef \<Rightarrow> (AppError, abs_path) result" where
  "registry_resolve entries destination = ok_or (map_of entries destination) AInvalidInput"

definition registry_parts_for :: "(abs_path \<Rightarrow> directory_facts) \<Rightarrow> string \<Rightarrow> (DestinationRef \<times> abs_path) list \<Rightarrow> DestinationRef \<Rightarrow>
  (AppError, abs_path) result" where
  "registry_parts_for facts engine entries destination =
     res_bind (registry_resolve entries destination) (\<lambda>path. private_parts_directory facts path engine)"

record 'u service =
  sv_db :: db
  sv_tables :: reference_tables
  sv_transport :: "'u registry"
  sv_destinations :: "(DestinationRef \<times> abs_path) list"
  sv_sent :: "Command list"
  sv_listening :: bool
  sv_config :: engine_config
  sv_state :: abs_path
  sv_root :: "abs_path option"

definition service_bind :: "'u url_lib \<Rightarrow> SourceRef \<Rightarrow> byte list \<Rightarrow> bool \<Rightarrow> 'u service \<Rightarrow> 'u service \<times> (DaemonError, unit) result" where
  "service_bind ul source url allow_http s =
     (case binding_new ul (str_chars url) None None allow_http [] of
        Inl e \<Rightarrow> (s, Inl (DBinding e))
      | Inr b \<Rightarrow> let (g, r) = http_bind (sv_transport s) source b in (s\<lparr>sv_transport := g\<rparr>, map_err DBinding r))"

definition service_load_jobs :: "bool \<Rightarrow> 'u service \<Rightarrow> (DaemonError, job list) result" where
  "service_load_jobs io s = (if io then map_err (\<lambda>e. DAdmission (app_error e)) (load_jobs (sv_db s)) else Inl (DAdmission APersistenceUnavailable))"

text \<open>The jobs the directory remembers, bound again; those at rest or waiting for a retry are returned.\<close>

fun restore_jobs :: "'u url_lib \<Rightarrow> (SourceRef \<times> source_reference) list \<Rightarrow> job list \<Rightarrow> 'u service \<Rightarrow> 'u service \<times> job list" where
  "restore_jobs ul sources [] s = (s, [])"
| "restore_jobs ul sources (j # js) s =
     (case map_of (rev sources) (js_source (j_spec j)) of
        None \<Rightarrow> restore_jobs ul sources js s
      | Some r \<Rightarrow>
          (case sf_url r of
             None \<Rightarrow> restore_jobs ul sources js s
           | Some url \<Rightarrow>
               if sf_allow_http r \<and> \<not> ec_allow_http (sv_config s) then restore_jobs ul sources js s
               else
                 (case service_bind ul (js_source (j_spec j)) url (sf_allow_http r) s of
                    (s1, Inl _) \<Rightarrow> restore_jobs ul sources js s1
                  | (s1, Inr _) \<Rightarrow>
                      let (s2, rest) = restore_jobs ul sources js s1 in
                      (s2, if j_state j \<in> {Queued, RetryWait} then j # rest else rest))))"

definition service_restore :: "'u url_lib \<Rightarrow> bool \<Rightarrow> bool \<Rightarrow> bool \<Rightarrow> 'u service \<Rightarrow> (DaemonError, 'u service \<times> job list) result" where
  "service_restore ul io_sources io_destinations io_jobs s =
     res_bind (if io_sources then map_err (\<lambda>e. DAdmission (app_error e)) (stored_sources (sv_tables s))
               else Inl (DAdmission APersistenceUnavailable)) (\<lambda>sources.
     res_bind (if io_destinations then map_err (\<lambda>e. DAdmission (app_error e)) (stored_destinations (sv_tables s))
               else Inl (DAdmission APersistenceUnavailable)) (\<lambda>destinations.
     let s1 = s\<lparr>sv_destinations := fold (\<lambda>(d, p). registry_insert d (path_components p)) destinations (sv_destinations s)\<rparr> in
     res_bind (service_load_jobs io_jobs s1) (\<lambda>jobs.
     Inr (restore_jobs ul sources jobs s1))))"

section \<open>Adding a download\<close>

definition hex_value :: "byte \<Rightarrow> nat option" where
  "hex_value b =
     (let n = of_char b :: nat in
      if 48 \<le> n \<and> n \<le> 57 then Some (n - 48)
      else if 97 \<le> n \<and> n \<le> 102 then Some (n - 87)
      else if 65 \<le> n \<and> n \<le> 70 then Some (n - 55)
      else None)"

text \<open>\<open>u8::from_str_radix\<close> on two characters: the first may be a plus sign.\<close>

fun decode_pairs :: "byte list \<Rightarrow> byte list option" where
  "decode_pairs (a # b # rest) =
     (case (if a = CHR ''+'' then hex_value b
            else Option.bind (hex_value a) (\<lambda>x. map_option (\<lambda>y. 16 * x + y) (hex_value b))) of
        None \<Rightarrow> None
      | Some v \<Rightarrow> map_option (Cons (char_of v)) (decode_pairs rest))"
| "decode_pairs _ = Some []"

definition decode_digest :: "byte list \<Rightarrow> (DaemonError, digest) result" where
  "decode_digest hex =
     (if length hex \<noteq> 64 \<or> \<not> list_all (\<lambda>b. (of_char b :: nat) < 128) hex then Inl DInvalidInput
      else ok_or (decode_pairs hex) DInvalidInput)"

record add_ticket =
  tk_request :: add_request
  tk_allow_http :: bool
  tk_path :: abs_path
  tk_spec :: job_spec
  tk_key :: receipt_key

text \<open>The first part of \<open>add\<close>, up to its first await: the destination, the digest, the references, the
  claim on the name, the binding and the specification.\<close>

definition ticket_of :: "(byte list \<Rightarrow> digest) \<Rightarrow> canonical \<Rightarrow> add_request \<Rightarrow> 'u service \<Rightarrow>
  (DaemonError, digest option \<times> abs_path \<times> bool \<times> SourceRef \<times> DestinationRef) result" where
  "ticket_of sha canonical request s =
     res_bind (allowed_destination canonical (sv_state s) (sv_root s) (ar_destination request)) (\<lambda>path.
     res_bind (opt_try decode_digest (ar_expected_sha256 request)) (\<lambda>expected.
     let allow_http = (ar_allow_http request \<and> ec_allow_http (sv_config s)) in
     res_bind (map_err (\<lambda>_. DInvalidInput) (identifier_new (source_reference_of sha (ar_url request) allow_http))) (\<lambda>source.
     res_bind (map_err (\<lambda>_. DInvalidInput) (identifier_new (destination_reference_of sha (ar_destination request)))) (\<lambda>destination.
     if claimed_by_other (sv_destinations s) destination path then Inl DInvalidInput
     else Inr (expected, path, allow_http, source, destination)))))"

datatype add_call =
    CallAdmit add_ticket add_phase | CallRecord add_ticket JobId source_reference | CallLoad add_ticket JobId
  | CallSend add_ticket JobId job | CallDone "(DaemonError, JobId) result"

definition add_begin :: "(byte list \<Rightarrow> digest) \<Rightarrow> 'u url_lib \<Rightarrow> canonical \<Rightarrow> add_request \<Rightarrow> 'u service \<Rightarrow> 'u service \<times> add_call" where
  "add_begin sha ul canonical request s =
     (case ticket_of sha canonical request s of
        Inl e \<Rightarrow> (s, CallDone (Inl e))
      | Inr (expected, path, allow_http, source, destination) \<Rightarrow>
          (case service_bind ul source (ar_url request) allow_http s of
             (s1, Inl e) \<Rightarrow> (s1, CallDone (Inl e))
           | (s1, Inr _) \<Rightarrow>
               (s1, case job_spec_new source destination expected Normal (min (ar_max_bytes request) (ec_max_bytes (sv_config s))) of
                      Inl _ \<Rightarrow> CallDone (Inl DInvalidInput)
                    | Inr spec \<Rightarrow>
                        CallAdmit
                          \<lparr>tk_request = request, tk_allow_http = allow_http, tk_path = path, tk_spec = spec,
                           tk_key = request_key sha (ar_url request) (ar_destination request) (ar_max_bytes request) allow_http\<rparr>
                          AddAuthorize)))"

text \<open>This build accepts requests from the local operator only.\<close>

definition local_operator :: gate where
  "local_operator p spec = Inr ()"

text \<open>What the source of a ticket is remembered as.\<close>

definition stored_reference :: "add_ticket \<Rightarrow> (DaemonError, source_reference) result" where
  "stored_reference t =
     (if ar_sensitive (tk_request t) then Inr (source_reference_sensitive (tk_allow_http t))
      else map_err DAdmission (source_reference_new (ar_url (tk_request t)) (tk_allow_http t)))"

definition service_send :: "Command \<Rightarrow> 'u service \<Rightarrow> 'u service" where
  "service_send c s = (if sv_listening s then s\<lparr>sv_sent := sv_sent s @ [c]\<rparr> else s)"

text \<open>One more phase of a call. Recording and entering the destination happen without an await between
  them, and so do finding the job and deciding whether to send it.\<close>

fun add_continue :: "bool \<Rightarrow> bool \<Rightarrow> add_call \<Rightarrow> 'u service \<Rightarrow> 'u service \<times> add_call" where
  "add_continue io acked (CallAdmit t ph) s =
     (let (d, ph') = add_advance sqlite_jobs local_operator local_operator (tk_key t) (tk_spec t) io acked (sv_db s, ph) in
      (s\<lparr>sv_db := d\<rparr>,
       case ph' of
         AddDone (Inl e) \<Rightarrow> CallDone (Inl (DAdmission e))
       | AddDone (Inr i) \<Rightarrow> (case stored_reference t of Inl e \<Rightarrow> CallDone (Inl e) | Inr r \<Rightarrow> CallRecord t i r)
       | _ \<Rightarrow> CallAdmit t ph'))"
| "add_continue io acked (CallRecord t i r) s =
     (case reference_record (js_source (tk_spec t)) r (js_destination (tk_spec t)) (path_text (tk_path t)) io (sv_tables s) of
        Inl _ \<Rightarrow> (s, CallDone (Inl (DAdmission APersistenceUnavailable)))
      | Inr tables \<Rightarrow>
          (s\<lparr>sv_tables := tables,
             sv_destinations := (if acked then registry_insert (js_destination (tk_spec t)) (tk_path t) (sv_destinations s) else sv_destinations s)\<rparr>,
           if acked then CallLoad t i else CallDone (Inl (DAdmission APersistenceUnavailable))))"
| "add_continue io acked (CallLoad t i) s =
     (s, case service_load_jobs io s of
           Inl e \<Rightarrow> CallDone (Inl e)
         | Inr jobs \<Rightarrow>
             (case find (\<lambda>j. j_id j = i) jobs of
                None \<Rightarrow> CallDone (Inl DInvalidInput)
              | Some j \<Rightarrow> if j_state j = Queued then CallSend t i j else CallDone (Inr i)))"
| "add_continue io acked (CallSend t i j) s = (service_send (Admit j) s, CallDone (Inr i))"
| "add_continue io acked (CallDone r) s = (s, CallDone r)"

section \<open>The other requests\<close>

definition summarize :: "job \<Rightarrow> job_summary" where
  "summarize j =
     \<lparr>jm_job = j_id j, jm_state = job_state_name (j_state j), jm_reason = map_option stop_reason (j_reason j),
      jm_durable_bytes = jp_durable_bytes (projection j), jm_total = map_option fst (job_plan j)\<rparr>"

definition service_list :: "bool \<Rightarrow> u64 option \<Rightarrow> 'u service \<Rightarrow> (DaemonError, Response) result" where
  "service_list io after s =
     res_bind (service_load_jobs io s) (\<lambda>all.
     let jobs = sort_key j_id (filter (\<lambda>j. (case after of None \<Rightarrow> 0 | Some a \<Rightarrow> a) < j_id j) all);
         next = (if MAX_JOBS_PER_PAGE < length jobs then Some (j_id (jobs ! (MAX_JOBS_PER_PAGE - 1))) else None) in
     Inr (Response.Jobs (map summarize (take MAX_JOBS_PER_PAGE jobs)) next))"

definition add_answer :: "(DaemonError, JobId) result \<Rightarrow> Response" where
  "add_answer r = (case r of Inr i \<Rightarrow> Accepted i | Inl e \<Rightarrow> Response.Failed (daemon_code e))"

text \<open>A whole \<open>add\<close> nobody interferes with: six phases of admission, the recording, the loading and
  the sending are the most it takes.\<close>

primrec add_run :: "nat \<Rightarrow> bool \<Rightarrow> bool \<Rightarrow> 'u service \<times> add_call \<Rightarrow> 'u service \<times> add_call" where
  "add_run 0 io acked x = x"
| "add_run (Suc n) io acked x = add_run n io acked (add_continue io acked (snd x) (fst x))"

definition service_add :: "(byte list \<Rightarrow> digest) \<Rightarrow> 'u url_lib \<Rightarrow> canonical \<Rightarrow> bool \<Rightarrow> bool \<Rightarrow> add_request \<Rightarrow> 'u service \<Rightarrow>
  'u service \<times> add_call" where
  "service_add sha ul canonical io acked request s = add_run 9 io acked (add_begin sha ul canonical request s)"

fun service_handle :: "(byte list \<Rightarrow> digest) \<Rightarrow> 'u url_lib \<Rightarrow> canonical \<Rightarrow> bool \<Rightarrow> bool \<Rightarrow> Request \<Rightarrow> 'u service \<Rightarrow> 'u service \<times> Response" where
  "service_handle sha ul canonical io acked (RAdd request) s =
     (case service_add sha ul canonical io acked request s of
        (s1, CallDone r) \<Rightarrow> (s1, add_answer r)
      | (s1, _) \<Rightarrow> (s1, add_answer (Inl DInvalidInput)))"
| "service_handle sha ul canonical io acked (RList after) s =
     (s, case service_list io after s of Inr r \<Rightarrow> r | Inl e \<Rightarrow> Response.Failed (daemon_code e))"
| "service_handle sha ul canonical io acked (RPause job) s =
     (case identifier_new job of
        Inl _ \<Rightarrow> (s, Response.Failed ''ENGINE-INVALID-INPUT'')
      | Inr i \<Rightarrow> (service_send (PauseJob i) s, if sv_listening s then Response.Done else Response.Failed ''ENGINE-STOPPING''))"
| "service_handle sha ul canonical io acked (RResume job) s =
     (case identifier_new job of
        Inl _ \<Rightarrow> (s, Response.Failed ''ENGINE-INVALID-INPUT'')
      | Inr i \<Rightarrow> (s, Response.Failed ''ENGINE-UNSUPPORTED''))"
| "service_handle sha ul canonical io acked (RCancel job) s =
     (case identifier_new job of
        Inl _ \<Rightarrow> (s, Response.Failed ''ENGINE-INVALID-INPUT'')
      | Inr i \<Rightarrow> (service_send (CancelJob i) s, if sv_listening s then Response.Done else Response.Failed ''ENGINE-STOPPING''))"
| "service_handle sha ul canonical io acked RShutdown s = (service_send Shutdown s, Response.Done)"

section \<open>Opening\<close>

text \<open>The answers of everything outside while the engine is built; \<open>ow_session\<close> carries the fields of
  the coordinator that only a session fills in.\<close>

record open_world =
  ow_state_facts :: directory_facts
  ow_parts_facts :: directory_facts
  ow_repository :: "(PersistenceError, db \<times> reference_tables) result"
  ow_transport :: "(BindingError, unit) result"
  ow_parts :: "(StorageError, unit) result"
  ow_canonical :: canonical
  ow_reads :: "bool \<times> bool \<times> bool"
  ow_session :: session

definition engine_limits :: "engine_config \<Rightarrow> origin_limits" where
  "engine_limits c = origin_limits_default\<lparr>ol_connections := ec_engine_connections c\<rparr>"

definition coordinator_config_of :: "engine_config \<Rightarrow> (DaemonError, coordinator_config) result" where
  "coordinator_config_of c =
     res_bind (map_err (\<lambda>_. DInvalidInput) (retry_policy_new 5 1000 60000)) (\<lambda>retry.
     Inr \<lparr>cc_connections = ec_connections c, cc_max_segments = 1024, cc_min_segment = 1024 * 1024,
          cc_checkpoint_bytes = 8 * 1024 * 1024, cc_writer_capacity = 16, cc_retry = retry\<rparr>)"

definition coordinator_new :: "session \<Rightarrow> buffer_pool \<Rightarrow> coordinator_config \<Rightarrow> db \<Rightarrow> governor \<Rightarrow> (RunError, session) result" where
  "coordinator_new blank pool config d g =
     (if \<not> config_valid config \<or> pool_capacity pool < cc_connections config * min MAX_BUFFER (pool_capacity pool)
      then Inl RInvalidConfig
      else Inr (blank\<lparr>ss_config := config, ss_repo := d, ss_governor := Some g\<rparr>))"

definition scheduler_config_of :: "bool \<Rightarrow> engine_config \<Rightarrow> scheduler_config" where
  "scheduler_config_of resident c =
     \<lparr>sc_max_active = ec_max_active c, sc_connections = ec_engine_connections c, sc_per_job = ec_connections c, sc_resident = resident\<rparr>"

text \<open>The governor, the coordinator over the claimed part directory, and the scheduler over both.\<close>

definition wire_engine :: "bool \<Rightarrow> open_world \<Rightarrow> engine_config \<Rightarrow> db \<Rightarrow> (DaemonError, buffer_pool \<times> scheduler) result" where
  "wire_engine resident w c d =
     res_bind (map_err (\<lambda>_. DInvalidInput) (governor_new (engine_limits c))) (\<lambda>governor.
     res_bind (own_parts (ow_parts w)) (\<lambda>_.
     res_bind (map_err (\<lambda>_. DInvalidInput) (pool_new (ec_engine_connections c * 256 * 1024))) (\<lambda>pool.
     res_bind (coordinator_config_of c) (\<lambda>config.
     res_bind (map_err DRun (coordinator_new (ow_session w) pool config d governor)) (\<lambda>coordinator.
     res_bind (map_err DRun (scheduler_new coordinator governor (scheduler_config_of resident c))) (\<lambda>scheduler.
     Inr (pool, scheduler)))))))"

record 'u resident =
  re_service :: "'u service"
  re_scheduler :: scheduler
  re_restored :: "job list"

definition resident_open :: "'u url_lib \<Rightarrow> open_world \<Rightarrow> engine_config \<Rightarrow> (DaemonError, 'u resident) result" where
  "resident_open ul w c =
     (if \<not> engine_config_valid c then Inl DInvalidInput
      else
      res_bind (own_directory (ow_state_facts w)) (\<lambda>_.
      res_bind (own_directory (ow_parts_facts w)) (\<lambda>_.
      res_bind (map_err DPersistence (ow_repository w)) (\<lambda>(d, tables).
      res_bind (map_err DBinding (ow_transport w)) (\<lambda>_.
      res_bind (wire_engine True w c d) (\<lambda>(pool, scheduler).
      res_bind (ok_or (ow_canonical w (path_components (ec_state_directory c))) DInvalidInput) (\<lambda>state.
      res_bind (opt_try (\<lambda>r. ok_or (ow_canonical w (path_components r)) DDestinationRefused) (ec_download_root c)) (\<lambda>root.
      let service = \<lparr>sv_db = d, sv_tables = tables, sv_transport = registry_default, sv_destinations = [], sv_sent = [],
                     sv_listening = True, sv_config = c, sv_state = state, sv_root = root\<rparr> in
      res_bind (case ow_reads w of (a, b, e) \<Rightarrow> service_restore ul a b e service) (\<lambda>(service', restored).
      Inr \<lparr>re_service = service', re_scheduler = scheduler, re_restored = restored\<rparr>)))))))))"

section \<open>A resident engine at work\<close>

text \<open>Clients start calls and send the other requests, calls advance one phase at a time, running
  sessions commit their transactions, and the scheduler stops receiving when it ends.\<close>

type_synonym 'u service_world = "'u service \<times> (nat \<rightharpoonup> add_call)"

inductive service_step :: "(byte list \<Rightarrow> digest) \<Rightarrow> 'u url_lib \<Rightarrow> 'u service_world \<Rightarrow> 'u service_world \<Rightarrow> bool"
  for sha :: "byte list \<Rightarrow> digest" and ul :: "'u url_lib"
where
  sv_begin: "calls c = None \<Longrightarrow> check_request (RAdd request) = Inr () \<Longrightarrow> add_begin sha ul canonical request s = (s', call) \<Longrightarrow>
    service_step sha ul (s, calls) (s', calls(c \<mapsto> call))"
| sv_advance: "calls c = Some call \<Longrightarrow> add_continue io acked call s = (s', call') \<Longrightarrow>
    service_step sha ul (s, calls) (s', calls(c \<mapsto> call'))"
| sv_request: "(\<And>request. r \<noteq> RAdd request) \<Longrightarrow> service_handle sha ul canonical io acked r s = (s', answer) \<Longrightarrow>
    service_step sha ul (s, calls) (s', calls)"
| sv_transaction: "repo_step (sv_db s) d \<Longrightarrow> service_step sha ul (s, calls) (s\<lparr>sv_db := d\<rparr>, calls)"
| sv_ended: "service_step sha ul (s, calls) (s\<lparr>sv_listening := False\<rparr>, calls)"

end
