(* ===== verification/Daemon_Runs.thy ===== *)
theory Daemon_Runs
  imports Daemon
begin

text \<open>The invariant of the resident engine: a source is owned by one job or by one call, and an
  identifier stands for one specification for ever. Every step of the service keeps it.\<close>

section \<open>Wiring\<close>

lemma wire_engine_ok:
  assumes "engine_config_valid c" "own_parts (ow_parts w) = Inr ()"
  shows "\<exists>pool g coordinator s. wire_engine resident w c d = Inr (pool, s) \<and> governor_new (engine_limits c) = Inr g \<and>
    scheduler_new coordinator g (scheduler_config_of resident c) = Inr s \<and> ss_repo coordinator = d"
proof -
  let ?n = "ec_engine_connections c" and ?b = "256 * 1024 :: nat"
  have c: "1 \<le> ec_connections c" "ec_connections c \<le> 16" "1 \<le> ?n" "?n \<le> 64" "ec_connections c \<le> ?n"
    "1 \<le> ec_max_active c" "ec_max_active c \<le> 64"
    using assms(1) by (simp_all add: engine_config_valid_def)
  obtain g where g: "governor_new (engine_limits c) = Inr g"
    using c by (simp add: governor_new_def engine_limits_def limits_valid_def origin_limits_default_def width_simps)
  have cap: "?b \<le> ?n * ?b" using c(3) by simp
  obtain pool where pool: "pool_new (262144 * ?n) = Inr pool" "pool_capacity pool = ?n * ?b"
  proof
    have m: "min (262144 * ?n) MAX_BUFFER = 262144" using c(3) by (simp add: MAX_BUFFER_def)
    show "pool_new (262144 * ?n) = Inr \<lparr>bp_permits = ?n, bp_closed = False, bp_block = ?b, bp_blocks = ?n, bp_free = []\<rparr>"
      using c(3,4) by (simp add: pool_new_def m Let_def)
  qed (simp add: pool_capacity_def)
  obtain retry where retry: "retry_policy_new 5 1000 60000 = Inr retry"
    by (simp add: retry_policy_new_def)
  define config where "config = \<lparr>cc_connections = ec_connections c, cc_max_segments = 1024, cc_min_segment = 1024 * 1024,
    cc_checkpoint_bytes = 8 * 1024 * 1024, cc_writer_capacity = 16, cc_retry = retry\<rparr>"
  have cfg: "coordinator_config_of c = Inr config" by (simp add: coordinator_config_of_def retry config_def)
  have "config_valid config" using c by (simp add: config_valid_def config_def)
  moreover have "ec_connections c * ?b \<le> ?n * ?b" using c(5) by simp
  moreover have "min MAX_BUFFER (?n * ?b) = ?b" using cap by (simp add: MAX_BUFFER_def)
  ultimately have co: "coordinator_new (ow_session w) pool config d g
      = Inr ((ow_session w)\<lparr>ss_config := config, ss_repo := d, ss_governor := Some g\<rparr>)"
    by (simp add: coordinator_new_def pool(2) config_def)
  let ?co = "(ow_session w)\<lparr>ss_config := config, ss_repo := d, ss_governor := Some g\<rparr>"
  obtain s where s: "scheduler_new ?co g (scheduler_config_of resident c) = Inr s"
    using c by (simp add: scheduler_new_def scheduler_config_of_def scheduler_config_valid_def config_def)
  have "wire_engine resident w c d = Inr (pool, s)"
    using assms(2) by (simp add: wire_engine_def g pool(1) cfg co s)
  then show ?thesis using g s by (intro exI [of _ pool] exI [of _ g] exI [of _ ?co] exI [of _ s]) simp
qed

section \<open>Identifiers and specifications\<close>

text \<open>An identifier was issued for one specification, for ever.\<close>

definition issued :: "db \<Rightarrow> JobId \<Rightarrow> job_spec \<Rightarrow> bool" where
  "issued d i spec \<longleftrightarrow> (\<exists>(c, r) \<in> set (db_receipts d). rw_job_id r = int i \<and> decode_spec (rw_spec r) = Inr spec)"

lemma receipt_by_id:
  assumes "admission_inv d" "(c, r) \<in> set (db_receipts d)" "(c', r') \<in> set (db_receipts d)" "rw_job_id r = rw_job_id r'"
  shows "(c, r) = (c', r')"
proof -
  have "distinct (map (\<lambda>p. rw_job_id (snd p)) (db_receipts d))"
    using assms(1) by (simp add: admission_inv_def receipt_ids_def case_prod_unfold)
  then show ?thesis using assms(2-4) unfolding distinct_map inj_on_def by force
qed

lemma issued_unique: "admission_inv d \<Longrightarrow> issued d i spec \<Longrightarrow> issued d i spec' \<Longrightarrow> spec = spec'"
  unfolding issued_def by (force dest: receipt_by_id)

lemma issued_grows: "repo_step d d' \<Longrightarrow> issued d i spec \<Longrightarrow> issued d' i spec"
proof -
  assume step: "repo_step d d'" and "issued d i spec"
  then obtain c r where r: "(c, r) \<in> set (db_receipts d)" "rw_job_id r = int i" "decode_spec (rw_spec r) = Inr spec"
    by (auto simp: issued_def)
  have "\<exists>r'. (c, r') \<in> set (db_receipts d') \<and> rw_job_id r' = rw_job_id r \<and> rw_spec r' = rw_spec r"
    using receipts_grow [OF step]
  proof (elim disjE exE conjE)
    fix k assume e: "db_receipts d' = map (\<lambda>(c, r). if c = k then (c, r\<lparr>rw_removed := 1\<rparr>) else (c, r)) (db_receipts d)"
    have "(if c = k then (c, r\<lparr>rw_removed := 1\<rparr>) else (c, r)) \<in> set (db_receipts d')"
      unfolding e using r(1) by (force intro: image_eqI [of _ _ "(c, r)"])
    then show ?thesis by (cases "c = k") auto
  qed (use r(1) in auto)
  then show "issued d' i spec" using r by (auto simp: issued_def)
qed

lemma view_issued: "admission_inv d \<Longrightarrow> admission_view d k = Some (spec, i) \<Longrightarrow> issued d i spec"
proof -
  assume inv: "admission_inv d" and v: "admission_view d k = Some (spec, i)"
  then obtain r where r: "map_of (db_receipts d) (key_columns k) = Some r" "spec = projr (decode_spec (rw_spec r))"
    "i = nat (rw_job_id r)" by (auto simp: admission_view_def split: if_splits)
  then show "issued d i spec"
    using admission_rows [OF inv r(1)] map_of_SomeD [OF r(1)] by (auto simp: issued_def receipt_row_ok_def)
qed

lemma load_record_named:
  assumes "load_record d i row = Inr rec"
  shows "i = int (jr_id rec)" "decode_spec (jw_spec row) = Inr (jr_spec rec)"
proof -
  have i: "i = int n" if "loaded i = Inr v" "map_err (\<lambda>_. PCorrupt) (identifier_new v) = Inr n" for v n
    using that by (auto simp: loaded_def identifier_new_def split: if_splits)
  obtain v n spec version where a: "loaded i = Inr v" "map_err (\<lambda>_. PCorrupt) (identifier_new v) = Inr n"
    "decode_spec (jw_spec row) = Inr spec" and b: "jr_id rec = n \<and> jr_spec rec = spec"
    using assms unfolding load_record_def res_bind_eq_Inr
    by (cases "db_state d i"; elim exE conjE) (simp_all only: option.case res_bind_eq_Inr; (elim exE conjE)?; force)+
  show "i = int (jr_id rec)" "decode_spec (jw_spec row) = Inr (jr_spec rec)" using i [OF a(1,2)] a(3) b by simp_all
qed

lemma loaded_issued:
  assumes inv: "admission_inv d" and js: "load_jobs d = Inr js" "j \<in> set js"
  shows "issued d (j_id j) (j_spec j)"
proof -
  have "map (load_job d) (sort_key fst (db_jobs d)) = map Inr js"
    using js(1) by (simp add: load_jobs_def collect_res_eq_Inr)
  then have "Inr j \<in> load_job d ` set (db_jobs d)" using js(2) by (metis image_eqI list.set_map set_sort)
  then obtain i row where row: "(i, row) \<in> set (db_jobs d)" "load_job d (i, row) = Inr j" by force
  obtain rec where rec: "load_record d i row = Inr rec" "job_restore rec = Inr j"
    using row(2) by (auto simp: load_job_def res_simps)
  have "jr_id rec = j_id j" "jr_spec rec = j_spec j" using rec(2) by (auto simp: job_restore_def res_simps split: if_splits)
  then
  have j: "i = int (j_id j)" "decode_spec (jw_spec row) = Inr (j_spec j)"
    using load_record_named [OF rec(1)] by simp_all
  obtain c r where r: "(c, r) \<in> set (db_receipts d)" "rw_job_id r = i"
  proof -
    have "i \<in> fst ` set (db_jobs d)" using row(1) by (rule rev_image_eqI) simp
    then have "i \<in> set (receipt_ids d)" using inv unfolding admission_inv_def by auto
    then show ?thesis using that by (auto simp: receipt_ids_def)
  qed
  have m: "map_of (db_jobs d) i = Some row" using inv row(1) by (simp add: admission_inv_def)
  have "receipt_row_ok d r" using inv r(1) by (auto simp: admission_inv_def)
  then have "jw_spec row = rw_spec r" using m r(2) by (auto simp: receipt_row_ok_def)
  then show ?thesis using r j by (auto simp: issued_def)
qed

lemma sqlite_advance_steps:
  assumes "add_advance sqlite_jobs a e k spec io acked (d, ph) = (d', ph')" "spec_fits spec"
    and "\<And>i. ph = AddCommit i \<Longrightarrow> identifier_ok i"
  shows "d' = d \<or> repo_step d d'"
proof (cases ph)
  case AddReserve
  then show ?thesis
    using assms(1) by (auto simp: sqlite_jobs_def sqlite_reserve_id_def split: sum.splits prod.splits intro: rp_reserve)
next
  case (AddCommit i)
  then show ?thesis
    using assms rp_add [of d "add_unit_new k spec i" io _ i spec]
    by (auto simp: sqlite_jobs_def sqlite_commit_add_def add_unit_new_def split: sum.splits CommitError.splits)
qed (use assms(1) in auto)

section \<open>One owner for each source\<close>

definition bound :: "'u service \<Rightarrow> SourceRef set" where
  "bound s = dom (rg_bindings (sv_transport s))"

abbreviation job_source :: "job \<Rightarrow> SourceRef" where
  "job_source j \<equiv> js_source (j_spec j)"

definition admits :: "Command list \<Rightarrow> job list" where
  "admits cs = List.map_filter (\<lambda>c. case c of Admit j \<Rightarrow> Some j | _ \<Rightarrow> None) cs"

lemma admits_simps [simp]:
  "admits [] = []" "admits (cs @ ds) = admits cs @ admits ds" "admits [Admit j] = [j]"
  "admits [PauseJob i] = []" "admits [CancelJob i] = []" "admits [Shutdown] = []"
  by (simp_all add: admits_def List.map_filter_def)

text \<open>Every job launched: those restored at the start and those sent to the scheduler.\<close>

definition launched :: "job list \<Rightarrow> 'u service \<Rightarrow> job list" where
  "launched restored s = restored @ admits (sv_sent s)"

lemma bind_result:
  assumes "service_bind ul source url allow_http s = (s', r)"
  shows "sv_db s' = sv_db s \<and> sv_sent s' = sv_sent s \<and> sv_config s' = sv_config s \<and> bound s \<subseteq> bound s' \<and>
    (r = Inr () \<longrightarrow> source \<notin> bound s \<and> source \<in> bound s')"
  using assms by (auto simp: service_bind_def http_bind_def bound_def Let_def split: sum.splits if_splits)

lemma restore_jobs_Cons:
  assumes "restore_jobs ul sources (j # js) s = (s', restored)"
  obtains s1 rest where "restore_jobs ul sources js s1 = (s', rest)" "sv_db s1 = sv_db s" "sv_sent s1 = sv_sent s"
    "bound s \<subseteq> bound s1" "sv_config s1 = sv_config s"
    "restored = rest \<or> restored = j # rest \<and> job_source j \<notin> bound s \<and> job_source j \<in> bound s1"
proof (cases "map_of (rev sources) (job_source j)")
  case None
  then show ?thesis using assms that [of s restored] by simp
next
  case (Some r)
  show ?thesis
  proof (cases "sf_url r")
    case None
    then show ?thesis using Some assms that [of s restored] by simp
  next
    case url: (Some url)
    show ?thesis
    proof (cases "sf_allow_http r \<and> \<not> ec_allow_http (sv_config s)")
      case True
      then show ?thesis using Some url assms that [of s restored] by simp
    next
      case False
      obtain s1 x where b: "service_bind ul (job_source j) url (sf_allow_http r) s = (s1, x)" by fastforce
      obtain rest where rest: "restore_jobs ul sources js s1 = (s', rest)"
        "restored = rest \<or> restored = j # rest \<and> x = Inr ()"
        using False Some url b assms by (cases x) (auto split: prod.splits if_splits)
      then show ?thesis using that [OF rest(1)] bind_result [OF b] by blast
    qed
  qed
qed

lemma restore_jobs_result:
  assumes "restore_jobs ul sources js s = (s', restored)"
  shows "sv_db s' = sv_db s \<and> sv_sent s' = sv_sent s \<and> bound s \<subseteq> bound s' \<and> set restored \<subseteq> set js \<and>
    distinct (map job_source restored) \<and> job_source ` set restored \<subseteq> bound s' - bound s"
  using assms
proof (induction js arbitrary: s restored)
  case (Cons j js)
  show ?case
    using Cons.prems
  proof (rule restore_jobs_Cons)
    fix s1 rest
    assume r: "restore_jobs ul sources js s1 = (s', rest)" "sv_db s1 = sv_db s" "sv_sent s1 = sv_sent s"
      "bound s \<subseteq> bound s1" and c: "restored = rest \<or> restored = j # rest \<and> job_source j \<notin> bound s \<and> job_source j \<in> bound s1"
    show ?thesis
      using c Cons.IH [OF r(1)] r(2-4) by (elim disjE) auto
  qed
qed simp

lemma service_restore_result:
  assumes "service_restore ul a b e s = Inr (s', restored)"
  shows "sv_db s' = sv_db s \<and> sv_sent s' = sv_sent s \<and> distinct (map job_source restored) \<and>
    job_source ` set restored \<subseteq> bound s' \<and> (admission_inv (sv_db s) \<longrightarrow> (\<forall>j \<in> set restored. issued (sv_db s) (j_id j) (j_spec j)))"
proof -
  obtain sources ds js where js: "service_load_jobs e (s\<lparr>sv_destinations := ds\<rparr>) = Inr js"
    and run: "restore_jobs ul sources js (s\<lparr>sv_destinations := ds\<rparr>) = (s', restored)"
    using assms by (auto simp: service_restore_def res_simps Let_def)
  have "load_jobs (sv_db s) = Inr js" using js by (auto simp: service_load_jobs_def map_err_eq_Inr split: if_splits)
  then show ?thesis using restore_jobs_result [OF run] loaded_issued [of "sv_db s" js] by (auto simp: bound_def)
qed

section \<open>The invariant of the service\<close>

fun call_ticket :: "add_call \<Rightarrow> add_ticket option" where
  "call_ticket (CallAdmit t ph) = Some t"
| "call_ticket (CallRecord t i r) = Some t"
| "call_ticket (CallLoad t i) = Some t"
| "call_ticket (CallSend t i j) = Some t"
| "call_ticket (CallDone r) = None"

fun call_ok :: "db \<Rightarrow> add_call \<Rightarrow> bool" where
  "call_ok d (CallAdmit t ph) \<longleftrightarrow> (\<forall>i. ph = AddCommit i \<longrightarrow> identifier_ok i) \<and> (\<forall>r. ph \<noteq> AddDone r)"
| "call_ok d (CallRecord t i r) \<longleftrightarrow> issued d i (tk_spec t)"
| "call_ok d (CallLoad t i) \<longleftrightarrow> issued d i (tk_spec t)"
| "call_ok d (CallSend t i j) \<longleftrightarrow> issued d i (tk_spec t) \<and> j_id j = i \<and> j_spec j = tk_spec t"
| "call_ok d (CallDone r) \<longleftrightarrow> True"

abbreviation ticket_source :: "add_ticket \<Rightarrow> SourceRef" where
  "ticket_source t \<equiv> js_source (tk_spec t)"

definition ticket_ok :: "add_ticket \<Rightarrow> bool" where
  "ticket_ok t \<longleftrightarrow> key_ok (tk_key t) \<and> spec_fits (tk_spec t)"

text \<open>A source is owned by the job launched for it or by the call that bound it, never by two.\<close>

definition owner :: "(nat \<rightharpoonup> add_call) \<Rightarrow> nat \<rightharpoonup> add_ticket" where
  "owner calls c = Option.bind (calls c) call_ticket"

definition jobs_ok :: "db \<Rightarrow> SourceRef set \<Rightarrow> job list \<Rightarrow> bool" where
  "jobs_ok d bs jobs \<longleftrightarrow> admission_inv d \<and> distinct (map job_source jobs) \<and> job_source ` set jobs \<subseteq> bs \<and>
     (\<forall>j \<in> set jobs. issued d (j_id j) (j_spec j))"

definition owners_ok :: "SourceRef set \<Rightarrow> (nat \<rightharpoonup> add_ticket) \<Rightarrow> bool" where
  "owners_ok free own \<longleftrightarrow> (\<forall>c t. own c = Some t \<longrightarrow> ticket_ok t \<and> ticket_source t \<in> free) \<and>
     (\<forall>c c' t t'. own c = Some t \<longrightarrow> own c' = Some t' \<longrightarrow> ticket_source t = ticket_source t' \<longrightarrow> c = c')"

definition calls_ok :: "db \<Rightarrow> (nat \<rightharpoonup> add_call) \<Rightarrow> bool" where
  "calls_ok d calls \<longleftrightarrow> (\<forall>c call. calls c = Some call \<longrightarrow> call_ok d call)"

definition free_sources :: "job list \<Rightarrow> 'u service \<Rightarrow> SourceRef set" where
  "free_sources restored s = bound s - job_source ` set (launched restored s)"

definition service_ok :: "job list \<Rightarrow> 'u service \<Rightarrow> (nat \<rightharpoonup> add_call) \<Rightarrow> bool" where
  "service_ok restored s calls \<longleftrightarrow>
     jobs_ok (sv_db s) (bound s) (launched restored s) \<and> calls_ok (sv_db s) calls \<and>
     owners_ok (free_sources restored s) (owner calls)"

lemma call_ok_grows: "(\<And>i spec. issued d i spec \<Longrightarrow> issued d' i spec) \<Longrightarrow> call_ok d call \<Longrightarrow> call_ok d' call"
  by (cases call) auto

lemma jobs_ok_grows:
  "jobs_ok d bs jobs \<Longrightarrow> admission_inv d' \<Longrightarrow> (\<And>i spec. issued d i spec \<Longrightarrow> issued d' i spec) \<Longrightarrow> bs \<subseteq> bs' \<Longrightarrow> jobs_ok d' bs' jobs"
  unfolding jobs_ok_def by blast

lemma calls_ok_grows:
  "calls_ok d calls \<Longrightarrow> (\<And>i spec. issued d i spec \<Longrightarrow> issued d' i spec) \<Longrightarrow> calls_ok d' calls"
  unfolding calls_ok_def using call_ok_grows by blast

lemma owners_ok_le: "owners_ok free own \<Longrightarrow> own' \<subseteq>\<^sub>m own \<Longrightarrow> free \<subseteq> free' \<Longrightarrow> owners_ok free' own'"
  unfolding owners_ok_def map_le_def dom_def by (metis (mono_tags, lifting) mem_Collect_eq option.distinct(1) subsetD)

lemma owner_update: "owner (calls(c \<mapsto> call)) = (owner calls)(c := call_ticket call)"
  by (auto simp: owner_def)

lemma owner_update_le:
  "calls c = Some call \<Longrightarrow> call_ticket call' = None \<or> call_ticket call' = call_ticket call \<Longrightarrow> owner (calls(c \<mapsto> call')) \<subseteq>\<^sub>m owner calls"
  by (auto simp: owner_update map_le_def owner_def)

lemma calls_ok_update: "calls_ok d calls \<Longrightarrow> call_ok d call \<Longrightarrow> calls_ok d (calls(c \<mapsto> call))"
  by (simp add: calls_ok_def)

text \<open>A call replaced by one with the same ticket or none, in a state that grew.\<close>

lemma service_ok_call:
  assumes "service_ok restored s calls" "calls c = Some call" "call_ok (sv_db s') call'"
    and "call_ticket call' = None \<or> call_ticket call' = call_ticket call"
    and "admission_inv (sv_db s')" "sv_transport s' = sv_transport s" "launched restored s' = launched restored s"
    and "\<And>i spec. issued (sv_db s) i spec \<Longrightarrow> issued (sv_db s') i spec"
  shows "service_ok restored s' (calls(c \<mapsto> call'))"
proof -
  have b: "bound s' = bound s" using assms(6) by (simp add: bound_def)
  have f: "free_sources restored s' = free_sources restored s" by (simp add: free_sources_def b assms(7))
  have "jobs_ok (sv_db s') (bound s') (launched restored s')"
    using assms(1,5,8) unfolding service_ok_def b assms(7) by (blast intro: jobs_ok_grows)
  moreover have "calls_ok (sv_db s') (calls(c \<mapsto> call'))"
    using assms(1,3,8) unfolding service_ok_def by (blast intro: calls_ok_update calls_ok_grows)
  moreover have "owners_ok (free_sources restored s') (owner (calls(c \<mapsto> call')))"
    using assms(1) owner_update_le [of calls c call call', OF assms(2,4)] unfolding service_ok_def f by (blast intro: owners_ok_le)
  ultimately show ?thesis unfolding service_ok_def by blast
qed

lemma service_ok_frame:
  assumes "service_ok restored s calls" "admission_inv (sv_db s')" "sv_transport s' = sv_transport s"
    and "launched restored s' = launched restored s" "\<And>i spec. issued (sv_db s) i spec \<Longrightarrow> issued (sv_db s') i spec"
  shows "service_ok restored s' calls"
proof -
  have b: "bound s' = bound s" using assms(3) by (simp add: bound_def)
  show ?thesis
    using assms(1,2,5) jobs_ok_grows [of "sv_db s" "bound s" "launched restored s" "sv_db s'" "bound s"]
      calls_ok_grows [of "sv_db s" calls "sv_db s'"]
    unfolding service_ok_def free_sources_def b assms(4) by blast
qed

lemma service_ok_unique: "service_ok restored s calls \<Longrightarrow> distinct (map j_id (launched restored s))"
proof -
  assume "service_ok restored s calls"
  then have ok: "jobs_ok (sv_db s) (bound s) (launched restored s)" by (simp add: service_ok_def)
  have "job_source j = job_source k" if "j \<in> set (launched restored s)" "k \<in> set (launched restored s)" "j_id j = j_id k" for j k
  proof -
    have "admission_inv (sv_db s)" "issued (sv_db s) (j_id j) (j_spec j)" "issued (sv_db s) (j_id j) (j_spec k)"
      using ok that by (auto simp: jobs_ok_def)
    then show ?thesis using issued_unique by metis
  qed
  then show ?thesis
    using ok unfolding jobs_ok_def distinct_map inj_on_def by (meson)
qed

section \<open>Every step keeps it\<close>

lemma launched_frame [simp]:
  "launched restored (s\<lparr>sv_db := d\<rparr>) = launched restored s" "launched restored (s\<lparr>sv_tables := tb\<rparr>) = launched restored s"
  "launched restored (s\<lparr>sv_destinations := ds\<rparr>) = launched restored s" "launched restored (s\<lparr>sv_transport := g\<rparr>) = launched restored s"
  "launched restored (s\<lparr>sv_listening := l\<rparr>) = launched restored s"
  by (simp_all add: launched_def)

lemma reference_range: "reference sha label parts \<le> U64_MAX"
proof -
  have "from_le_bytes bs < 256 ^ length bs" for bs
  proof (induction bs)
    case (Cons b bs)
    have "(of_char b :: nat) < 256" by simp
    then show ?case using Cons unfolding from_le_bytes.simps list.size power_add power_one_right add_0_right power_Suc plus_1_eq_Suc [symmetric] by linarith
  qed simp
  from this [of "take 8 (daemon_digest sha label parts)"]
  have "from_le_bytes (take 8 (daemon_digest sha label parts)) < 256 ^ 8"
    by (rule less_le_trans) (rule power_increasing; simp)
  then show ?thesis by (simp add: reference_def U64_MAX_def)
qed

lemma decode_pairs_length: "decode_pairs hex = Some v \<Longrightarrow> length v = length hex div 2"
  by (induction hex arbitrary: v rule: decode_pairs.induct) (auto split: option.splits if_splits)

lemma decode_digest_length: "decode_digest hex = Inr v \<Longrightarrow> length v = 32"
  by (auto simp: decode_digest_def ok_or_eq_Inr dest: decode_pairs_length split: if_splits)

lemma add_begin_result:
  assumes "add_begin sha ul canonical request s = (s', call)" and sha: "\<And>x. length (sha x) = 32"
  shows "sv_db s' = sv_db s \<and> sv_sent s' = sv_sent s \<and> bound s \<subseteq> bound s' \<and>
    ((\<exists>e. call = CallDone (Inl e)) \<or>
     (\<exists>t. call = CallAdmit t AddAuthorize \<and> ticket_ok t \<and> ticket_source t \<in> bound s' - bound s))"
proof (cases "ticket_of sha canonical request s")
  case (Inl e)
  then show ?thesis using assms(1) by (auto simp: add_begin_def)
next
  case (Inr x)
  obtain expected path allow_http source destination where x: "x = (expected, path, allow_http, source, destination)"
    by (metis prod_cases5)
  have ids: "identifier_ok source" "identifier_ok destination" "digest_ok expected"
    using Inr x reference_range
    by (auto simp: ticket_of_def Let_def map_err_eq_Inr identifier_new_def identifier_ok_def source_reference_of_def
        destination_reference_of_def digest_ok_def opt_try_eq_Inr res_simps dest: decode_digest_length split: if_splits option.splits)
  obtain s1 r where b: "service_bind ul source (ar_url request) allow_http s = (s1, r)" by fastforce
  let ?spec = "job_spec_new source destination expected Normal (min (ar_max_bytes request) (ec_max_bytes (sv_config s)))"
  show ?thesis
  proof (cases r)
    case (Inl e)
    then show ?thesis using assms(1) \<open>ticket_of sha canonical request s = Inr x\<close> x b bind_result [OF b] by (auto simp: add_begin_def)
  next
    case ok: (Inr u)
    show ?thesis
    proof (cases ?spec)
      case (Inl e)
      then show ?thesis using assms(1) Inr x b ok bind_result [OF b] by (auto simp: add_begin_def)
    next
      case spec: (Inr spec)
      then have "spec_fits spec" "js_source spec = source"
        using ids job_spec_new_ok [OF spec] by (auto simp: spec_fits_def job_spec_new_def split: if_splits)
      then show ?thesis
        using assms(1) Inr x b ok spec bind_result [OF b] sha
        by (auto simp: add_begin_def ticket_ok_def key_ok_def request_key_def daemon_digest_def identifier_ok_def)
    qed
  qed
qed

lemma begin_service_ok:
  assumes "service_ok restored s calls" "calls c = None" "add_begin sha ul canonical request s = (s', call)"
    and "\<And>x. length (sha x) = 32"
  shows "service_ok restored s' (calls(c \<mapsto> call))"
proof -
  note r = add_begin_result [OF assms(3,4)]
  have l: "launched restored s' = launched restored s" using r by (simp add: launched_def)
  have own: "owner calls c = None" using assms(2) by (simp add: owner_def)
  have free: "free_sources restored s \<subseteq> free_sources restored s'" using r by (auto simp: free_sources_def l)
  have jobs: "jobs_ok (sv_db s) (bound s) (launched restored s)" and ok: "owners_ok (free_sources restored s) (owner calls)"
    and cs: "calls_ok (sv_db s) calls" using assms(1) by (simp_all add: service_ok_def)
  have "owners_ok (free_sources restored s') (owner (calls(c \<mapsto> call)))"
    using r
  proof (elim conjE disjE exE)
    fix e assume "call = CallDone (Inl e)"
    then have "owner (calls(c \<mapsto> call)) = owner calls" using own by (auto simp: owner_update)
    then show ?thesis using ok free by (auto intro: owners_ok_le)
  next
    fix t assume t: "call = CallAdmit t AddAuthorize" "ticket_ok t" "ticket_source t \<in> bound s' - bound s"
    have "ticket_source t' \<noteq> ticket_source t" if "owner calls x = Some t'" for x t'
    proof -
      have "ticket_source t' \<in> free_sources restored s" using that ok by (simp add: owners_ok_def)
      then show ?thesis using t(3) unfolding free_sources_def by (metis DiffD1 DiffD2)
    qed
    moreover have "ticket_source t \<in> free_sources restored s'"
      using t(3) jobs by (auto simp: free_sources_def l jobs_ok_def)
    ultimately show ?thesis
      using ok free t(1,2) unfolding owners_ok_def owner_update t(1) by (fastforce split: if_splits)
  qed
  moreover have "jobs_ok (sv_db s') (bound s') (launched restored s')"
    using jobs r by (auto simp: l jobs_ok_def)
  moreover have "calls_ok (sv_db s') (calls(c \<mapsto> call))"
    using cs r by (auto simp: calls_ok_def)
  ultimately show ?thesis by (simp add: service_ok_def)
qed

lemma send_service_ok:
  assumes ok: "service_ok restored s calls" and c: "calls c = Some (CallSend t i j)"
  shows "service_ok restored (service_send (Admit j) s) (calls(c \<mapsto> CallDone (Inr i)))"
proof (cases "sv_listening s")
  case False
  then show ?thesis
    using assms by (intro service_ok_call [OF ok c]) (simp_all add: service_send_def service_ok_def jobs_ok_def)
next
  case True
  let ?s = "service_send (Admit j) s"
  have l: "launched restored ?s = launched restored s @ [j]" "sv_db ?s = sv_db s" "bound ?s = bound s"
    using True by (simp_all add: service_send_def launched_def bound_def)
  have own: "owner calls c = Some t" using c by (simp add: owner_def)
  have j: "j_id j = i" "j_spec j = tk_spec t" "issued (sv_db s) i (tk_spec t)"
    using ok c by (force simp: service_ok_def calls_ok_def)+
  have ow: "owners_ok (free_sources restored s) (owner calls)" using ok by (simp add: service_ok_def)
  have src: "ticket_source t \<in> free_sources restored s" using ow own by (simp add: owners_ok_def)
  have "jobs_ok (sv_db ?s) (bound ?s) (launched restored ?s)"
    using ok src j by (simp add: service_ok_def l jobs_ok_def free_sources_def)
  moreover have "calls_ok (sv_db ?s) (calls(c \<mapsto> CallDone (Inr i)))"
    using ok by (simp add: service_ok_def l calls_ok_def)
  moreover have "owners_ok (free_sources restored ?s) (owner (calls(c \<mapsto> CallDone (Inr i))))"
  proof -
    have "ticket_source t' \<noteq> ticket_source t" if "owner calls x = Some t'" "x \<noteq> c" for x t'
      using ow own that by (auto simp: owners_ok_def)
    then show ?thesis
      using ow j(2) by (simp add: owners_ok_def owner_update free_sources_def l)
  qed
  ultimately show ?thesis by (simp add: service_ok_def)
qed

lemma admit_service_ok:
  assumes ok: "service_ok restored s calls" and c: "calls c = Some (CallAdmit t ph)"
    and run: "add_continue io acked (CallAdmit t ph) s = (s', call')"
  shows "service_ok restored s' (calls(c \<mapsto> call'))"
proof -
  obtain d ph' where adv: "add_advance sqlite_jobs local_operator local_operator (tk_key t) (tk_spec t) io acked (sv_db s, ph) = (d, ph')"
    by fastforce
  have s': "s' = s\<lparr>sv_db := d\<rparr>" using run adv by simp
  have "owner calls c = Some t" using c by (simp add: owner_def)
  then have t: "key_ok (tk_key t)" "spec_fits (tk_spec t)" using ok by (auto simp: service_ok_def owners_ok_def ticket_ok_def)
  have inv: "admission_inv (sv_db s)" using ok by (simp add: service_ok_def jobs_ok_def)
  have ph: "identifier_ok i" if "ph = AddCommit i" for i using ok c that by (force simp: service_ok_def calls_ok_def)
  have nd: "ph \<noteq> AddDone r" for r using ok c by (force simp: service_ok_def calls_ok_def)
  have a: "admission_inv d" "\<forall>i. ph' = AddCommit i \<longrightarrow> identifier_ok i"
      "\<forall>i. ph' = AddDone (Inr i) \<longrightarrow> admission_view d (tk_key t) = Some (tk_spec t, i)"
    using sqlite.advance_ok [OF inv t ph _ adv] nd by blast+
  have grow: "issued d i spec" if "issued (sv_db s) i spec" for i spec
    using sqlite_advance_steps [OF adv t(2) ph] that issued_grows by blast
  have "call_ok d call' \<and> (call_ticket call' = None \<or> call_ticket call' = Some t)"
    using run adv a view_issued [OF a(1)] by (auto split: add_phase.splits sum.splits)
  then show ?thesis
    using a(1) grow by (intro service_ok_call [OF ok c]) (simp_all add: s')
qed

lemma advance_service_ok:
  assumes ok: "service_ok restored s calls" and c: "calls c = Some call" and run: "add_continue io acked call s = (s', call')"
  shows "service_ok restored s' (calls(c \<mapsto> call'))"
proof (cases call)
  case (CallAdmit t ph)
  then show ?thesis using admit_service_ok ok c run by blast
next
  case (CallRecord t i r)
  have inv: "admission_inv (sv_db s)" using ok by (simp add: service_ok_def jobs_ok_def)
  have i: "issued (sv_db s) i (tk_spec t)" using ok c CallRecord by (force simp: service_ok_def calls_ok_def)
  show ?thesis
    using run CallRecord inv i
    by (intro service_ok_call [OF ok c]) (auto split: sum.splits if_splits)
next
  case (CallLoad t i)
  have inv: "admission_inv (sv_db s)" using ok by (simp add: service_ok_def jobs_ok_def)
  have i: "issued (sv_db s) i (tk_spec t)" using ok c CallLoad by (force simp: service_ok_def calls_ok_def)
  have "j_id j = i \<and> j_spec j = tk_spec t" if js: "service_load_jobs io s = Inr js" "find (\<lambda>j. j_id j = i) js = Some j" for js j
  proof -
    have l: "load_jobs (sv_db s) = Inr js" using js(1) by (auto simp: service_load_jobs_def map_err_eq_Inr split: if_splits)
    have j: "j_id j = i" "j \<in> set js" using js(2) by (auto simp: find_Some_iff)
    then show ?thesis using loaded_issued [OF inv l j(2)] issued_unique [OF inv i] by simp
  qed
  note found = this
  have new: "call_ok (sv_db s) call' \<and> (call_ticket call' = None \<or> call_ticket call' = Some t) \<and> s' = s"
  proof (cases "service_load_jobs io s")
    case (Inl e)
    then show ?thesis using run by (auto simp: CallLoad)
  next
    case (Inr js)
    show ?thesis
    proof (cases "find (\<lambda>j. j_id j = i) js")
      case None
      then show ?thesis using run Inr by (auto simp: CallLoad)
    next
      case (Some j)
      show ?thesis
        using run Inr Some i found [OF Inr Some] by (cases "j_state j = Queued") (auto simp: CallLoad)
    qed
  qed
  show ?thesis
    using new inv by (intro service_ok_call [OF ok c]) (simp_all add: CallLoad)
next
  case (CallSend t i j)
  then show ?thesis using send_service_ok [of restored s calls c t i j] ok c run by auto
next
  case (CallDone r)
  then have "s' = s" "calls(c \<mapsto> call') = calls" using run c by auto
  then show ?thesis using ok by simp
qed

lemma step_service_ok:
  assumes "service_step sha ul w w'" "service_ok restored (fst w) (snd w)" "\<And>x. length (sha x) = 32"
  shows "service_ok restored (fst w') (snd w')"
  using assms(1,2)
proof (induction rule: service_step.induct)
  case (sv_begin calls c request canonical s s' call)
  then show ?case using begin_service_ok [of restored s calls c sha ul canonical request s' call] sv_begin(1,3,4) assms(3) by (simp only: fst_conv snd_conv)
next
  case (sv_advance calls c call io acked s s' call')
  then show ?case using advance_service_ok [of restored s calls c call io acked s' call'] sv_advance by (simp only: fst_conv snd_conv)
next
  case (sv_request r canonical io acked s s' answer calls)
  have "sv_db s' = sv_db s \<and> sv_transport s' = sv_transport s \<and> launched restored s' = launched restored s"
    using sv_request(1,2)
    by (cases r) (auto simp: service_send_def launched_def split: sum.splits)
  then show ?case
    using sv_request(3) unfolding fst_conv snd_conv
    by (intro service_ok_frame [of restored s calls s']) (simp_all add: service_ok_def jobs_ok_def)
next
  case (sv_transaction s d calls)
  have ok: "service_ok restored s calls" using sv_transaction(2) by simp
  have inv: "admission_inv d"
    using repo_step_admission [OF sv_transaction(1)] ok by (simp add: service_ok_def jobs_ok_def)
  show ?case
    unfolding fst_conv snd_conv
    by (rule service_ok_frame [OF ok]) (use inv issued_grows [OF sv_transaction(1)] in simp_all)
next
  case (sv_ended s calls)
  then have ok: "service_ok restored s calls" by simp
  then have inv: "admission_inv (sv_db s)" by (simp add: service_ok_def jobs_ok_def)
  show ?case
    unfolding fst_conv snd_conv by (rule service_ok_frame [OF ok]) (use inv in simp_all)
qed

lemma steps_service_ok:
  "(service_step sha ul)\<^sup>*\<^sup>* w w' \<Longrightarrow> service_ok restored (fst w) (snd w) \<Longrightarrow> (\<And>x. length (sha x) = 32) \<Longrightarrow>
    service_ok restored (fst w') (snd w')"
  by (induction rule: rtranclp_induct) (blast dest: step_service_ok)+

lemma opened_service_ok:
  assumes "resident_open ul w c = Inr r" "ow_repository w = Inr (d, tables)" "repo_step\<^sup>*\<^sup>* (db_empty a b) d"
  shows "service_ok (re_restored r) (re_service r) Map.empty \<and> sv_sent (re_service r) = [] \<and>
    (\<exists>pool. wire_engine True w c d = Inr (pool, re_scheduler r)) \<and> engine_config_valid c"
proof -
  have inv: "admission_inv d" using assms(3) admission_inv_empty by (rule repo_steps_admission)
  obtain x y z where reads: "ow_reads w = (x, y, z)" by (metis prod_cases3)
  obtain state root pool where wire: "wire_engine True w c d = Inr (pool, re_scheduler r)"
    and restore: "service_restore ul x y z \<lparr>sv_db = d, sv_tables = tables, sv_transport = registry_default, sv_destinations = [],
      sv_sent = [], sv_listening = True, sv_config = c, sv_state = state, sv_root = root\<rparr> = Inr (re_service r, re_restored r)"
    and valid: "engine_config_valid c"
    using assms(1,2) reads by (auto simp: resident_open_def res_simps Let_def split: if_splits)
  note res = service_restore_result [OF restore]
  have "launched (re_restored r) (re_service r) = re_restored r" using res by (simp add: launched_def)
  then have "service_ok (re_restored r) (re_service r) Map.empty"
    using res inv by (simp add: service_ok_def jobs_ok_def calls_ok_def owners_ok_def owner_def)
  then show ?thesis using res wire valid by simp
qed

lemma steps_launched:
  assumes "resident_open ul w c = Inr r" "ow_repository w = Inr (d, tables)" "repo_step\<^sup>*\<^sup>* (db_empty a b) d"
    and "(service_step sha ul)\<^sup>*\<^sup>* (re_service r, Map.empty) (s, calls)" "\<And>x. length (sha x) = 32"
  shows "service_ok (re_restored r) s calls"
  using steps_service_ok [OF assms(4), of "re_restored r"] opened_service_ok [OF assms(1-3)] assms(5) by simp

end
