(* ===== verification/Daemon_Sample.thy ===== *)
theory Daemon_Sample
  imports Daemon_Runs
begin

text \<open>A resident engine over a small database, and a run of it; the properties of the daemon are
  applied to it.\<close>

section \<open>A sample engine\<close>

text \<open>An engine over a database that holds one queued job, a client that adds another, and the calls
  of the second running one phase after the other.\<close>

definition sample_links :: "unit url_lib" where
  "sample_links = \<lparr>ul_parse = (\<lambda>_. Some ()), ul_as_str = (\<lambda>_. []), ul_join = (\<lambda>_ _. None), ul_scheme = (\<lambda>_. ''https''),
     ul_host = (\<lambda>_. Some ''h''), ul_username = (\<lambda>_. []), ul_password = (\<lambda>_. None), ul_fragment = (\<lambda>_. None),
     ul_query = (\<lambda>_. None), ul_path = (\<lambda>_. ''/''), ul_origin = (\<lambda>_. (''https'', ''h'', 443)),
     ul_serialize = (\<lambda>_. ''h''), ul_header_ok = (\<lambda>_. True)\<rparr>"

definition sample_hash :: "byte list \<Rightarrow> digest" where
  "sample_hash v = replicate 32 (CHR 0x02)"

definition sample_tables :: reference_tables where
  "sample_tables = \<lparr>rt_sources = [(1, \<lparr>so_url = Some ''u'', so_allow_http = 0, so_sensitive = 0\<rparr>)],
     rt_destinations = [(1, ''/d/f'')]\<rparr>"

definition sample_directory :: directory_facts where
  "sample_directory = \<lparr>df_created = Some True, df_entry = Some (False, True), df_narrowed = True, df_foreign = Some 0, df_swappable = Some 0\<rparr>"

definition sample_engine_config :: engine_config where
  "sample_engine_config = \<lparr>ec_state_directory = ''/s'', ec_destination = ''/s'', ec_connections = 4, ec_engine_connections = 8, ec_max_active = 4,
     ec_expected_sha256 = None, ec_max_bytes = 4096, ec_allow_http = False, ec_download_root = Some ''/d'', ec_intent = IntentStart\<rparr>"

definition sample_open_world :: open_world where
  "sample_open_world = \<lparr>ow_state_facts = sample_directory, ow_parts_facts = sample_directory,
     ow_repository = Inr (sample_db Queued 0 None, sample_tables), ow_transport = Inr (), ow_parts = Inr (),
     ow_canonical = Some, ow_reads = (True, True, True),
     ow_session = sample_session (sample_db Queued 0 None) (job_new 1 sample_spec) []\<rparr>"

definition sample_service :: "unit service" where
  "sample_service = \<lparr>sv_db = sample_db Queued 0 None, sv_tables = sample_tables,
     sv_transport = \<lparr>rg_bindings = [1 \<mapsto> \<lparr>sb_url = (), sb_authorization = None, sb_cookie = None, sb_allow_http = False, sb_redirect_origins = []\<rparr>],
       rg_probed = Map.empty\<rparr>,
     sv_destinations = [(1, [''d'', ''f''])], sv_sent = [], sv_listening = True, sv_config = sample_engine_config, sv_state = [''s''], sv_root = Some [''d'']\<rparr>"

lemma sample_load:
  "load_jobs (sample_db Queued 0 None) = Inr [job_new 1 sample_spec]"
  using sample_fits
  by (simp add: load_jobs_def load_job_def load_record_def sample_db_defs job_restore_def record_consistent_def loaded_def identifier_new_def)

lemma sample_bind:
  "binding_new sample_links (str_chars ''u'') None None False [] =
     Inr \<lparr>sb_url = (), sb_authorization = None, sb_cookie = None, sb_allow_http = False, sb_redirect_origins = []\<rparr>"
  by (simp add: binding_new_def parse_url_def sample_links_def str_chars_def utf8_next_def Let_def is_control_def MAX_URL_BYTES_def utf8_len_def)

lemma sample_resident:
  "\<exists>s. resident_open sample_links sample_open_world sample_engine_config =
     Inr \<lparr>re_service = sample_service, re_scheduler = s, re_restored = [job_new 1 sample_spec]\<rparr>"
proof -
  have valid: "engine_config_valid sample_engine_config"
    by (simp add: engine_config_valid_def sample_engine_config_def is_absolute_def)
  have parts: "own_parts (ow_parts sample_open_world) = Inr ()" by (simp add: own_parts_def sample_open_world_def)
  obtain pool s where wire: "wire_engine True sample_open_world sample_engine_config (sample_db Queued 0 None) = Inr (pool, s)"
    using wire_engine_ok [OF valid parts] by blast
  have src: "stored_sources sample_tables = Inr [(1, \<lparr>sf_url = Some ''u'', sf_allow_http = False, sf_sensitive = False\<rparr>)]"
    "stored_destinations sample_tables = Inr [(1, ''/d/f'')]"
    by (simp_all add: stored_sources_def stored_destinations_def sample_tables_def load_source_def load_destination_def loaded_id_def identifier_new_def source_reference_new_def)
  have j: "js_source (j_spec (job_new 1 sample_spec)) = 1" "j_state (job_new 1 sample_spec) = Queued"
    by (simp_all add: job_new_def sample_spec_def)
  have "own_directory sample_directory = Inr ()" by (simp add: own_directory_def sample_directory_def)
  then show ?thesis
    using valid wire src sample_load sample_bind j
    by (intro exI [of _ s])
      (simp add: resident_open_def sample_open_world_def sample_engine_config_def service_restore_def service_load_jobs_def
        service_bind_def http_bind_def registry_default_def sample_service_def registry_insert_def path_components_def Let_def)
qed

definition sample_add :: add_request where
  "sample_add = \<lparr>ar_url = ''v'', ar_destination = ''/d/g'', ar_sensitive = True, ar_expected_sha256 = None,
     ar_max_bytes = 1024, ar_allow_http = False\<rparr>"

definition sample_ticket :: add_ticket where
  "sample_ticket = \<lparr>tk_request = sample_add, tk_allow_http = False, tk_path = [''d'', ''g''],
     tk_spec = \<lparr>js_source = 144680345676153346, js_destination = 144680345676153346, js_expected_sha256 = None,
       js_priority = Normal, js_max_bytes = 1024\<rparr>,
     tk_key = \<lparr>rk_principal = 1, rk_digest = replicate 32 (CHR 0x02)\<rparr>\<rparr>"

definition sample_bound :: "unit service" where
  "sample_bound = sample_service\<lparr>sv_transport := \<lparr>rg_bindings = (rg_bindings (sv_transport sample_service))(144680345676153346 \<mapsto>
     \<lparr>sb_url = (), sb_authorization = None, sb_cookie = None, sb_allow_http = False, sb_redirect_origins = []\<rparr>), rg_probed = Map.empty\<rparr>\<rparr>"

lemma sample_destination:
  "allowed_destination Some [''s''] (Some [''d'']) ''/d/g'' = Inr [''d'', ''g'']"
  "allowed_destination Some [''s''] (Some [''d'']) ''/d/./g'' = Inr [''d'', ''g'']"
  by (simp_all add: allowed_destination_def is_absolute_def path_components_def str_ok_def utf8_next_def Let_def
      publishable_name_def str_chars_def DEVICES_def REFUSED_def ascii_lower_def misleading_char_def is_control_def)

lemma sample_hash_reference: "reference sample_hash l p = 144680345676153346"
proof -
  have eight: "take 8 (replicate 32 x) = [x, x, x, x, x, x, x, x]" for x :: byte by (simp add: numeral_eq_Suc)
  show ?thesis unfolding reference_def daemon_digest_def sample_hash_def eight by simp
qed

lemma sample_bind_v:
  "v \<in> {''v'', ''vv''} \<Longrightarrow> binding_new sample_links (str_chars v) None None False [] =
     Inr \<lparr>sb_url = (), sb_authorization = None, sb_cookie = None, sb_allow_http = False, sb_redirect_origins = []\<rparr>"
  by (auto simp: binding_new_def parse_url_def sample_links_def str_chars_def utf8_next_def Let_def is_control_def MAX_URL_BYTES_def utf8_len_def)

lemma sample_ticket_at:
  assumes "sv_state s = [''s'']" "sv_root s = Some [''d'']" "\<not> claimed_by_other (sv_destinations s) 144680345676153346 [''d'', ''g'']"
  shows "ticket_of sample_hash Some sample_add s = Inr (None, [''d'', ''g''], False, 144680345676153346, 144680345676153346)"
  using assms
  by (simp add: ticket_of_def sample_add_def sample_destination source_reference_of_def
      destination_reference_of_def sample_hash_reference identifier_new_def)

lemma sample_begin:
  "add_begin sample_hash sample_links Some sample_add sample_service = (sample_bound, CallAdmit sample_ticket AddAuthorize)"
proof -
  have t: "ticket_of sample_hash Some sample_add sample_service =
      Inr (None, [''d'', ''g''], False, 144680345676153346, 144680345676153346)"
    by (rule sample_ticket_at) (simp_all add: sample_service_def claimed_by_other_def)
  show ?thesis
    unfolding add_begin_def t sum.case prod.case
    by (simp add: service_bind_def sample_add_def sample_bind_v http_bind_def sample_service_def sample_bound_def Let_def
        job_spec_new_def width_simps sample_engine_config_def sample_ticket_def request_key_def daemon_digest_def sample_hash_def)
qed

definition sample_added :: db where
  "sample_added = admitted_db (sample_db Queued 0 None) (tk_key sample_ticket) (tk_spec sample_ticket)"

definition sample_second :: job where
  "sample_second = job_new 2 (tk_spec sample_ticket)"

lemma sample_ticket_fits: "spec_fits (tk_spec sample_ticket)"
  by (simp add: sample_ticket_def spec_fits_def spec_ok_def identifier_ok_def digest_ok_def width_simps)

lemma sample_load_added: "load_jobs sample_added = Inr [job_new 1 sample_spec, sample_second]"
  using sample_fits sample_ticket_fits
  by (simp add: load_jobs_def load_job_def load_record_def sample_added_def admitted_db_def sample_db_defs job_restore_def
      record_consistent_def loaded_def identifier_new_def sample_second_def Let_def)

definition sample_reserved :: "unit service" where
  "sample_reserved = sample_bound\<lparr>sv_db := (sample_db Queued 0 None)\<lparr>db_last_id := 2\<rparr>\<rparr>"

definition sample_stored :: "unit service" where
  "sample_stored = sample_bound\<lparr>sv_db := sample_added\<rparr>"

lemma sample_bound_db: "sv_db sample_bound = sample_db Queued 0 None"
  by (simp add: sample_bound_def sample_service_def)

lemma sample_admission:
  "add_continue True True (CallAdmit sample_ticket AddAuthorize) sample_bound = (sample_bound, CallAdmit sample_ticket AddLookup)"
  "add_continue True True (CallAdmit sample_ticket AddLookup) sample_bound = (sample_bound, CallAdmit sample_ticket AddEntitle)"
  "add_continue True True (CallAdmit sample_ticket AddEntitle) sample_bound = (sample_bound, CallAdmit sample_ticket AddReserve)"
  "add_continue True True (CallAdmit sample_ticket AddReserve) sample_bound = (sample_reserved, CallAdmit sample_ticket (AddCommit 2))"
  "add_continue True True (CallAdmit sample_ticket (AddCommit 2)) sample_reserved =
     (sample_stored, CallRecord sample_ticket 2 (source_reference_sensitive False))"
proof -
  have inv: "admission_inv (sample_db Queued 0 None)" using sample_repo_run(2) admission_inv_empty by (rule repo_steps_admission)
  have key: "key_columns (tk_key sample_ticket) \<noteq> key_columns sample_key"
    by (simp add: key_columns_def sample_ticket_def sample_key_def)
  then have new: "map_of (db_receipts (sample_db Queued 0 None)) (key_columns (tk_key sample_ticket)) = None"
    by (simp add: sample_db_def)
  have same: "sample_bound\<lparr>sv_db := sample_db Queued 0 None\<rparr> = sample_bound" using sample_bound_db by (metis service.surjective service.update_convs(1) service.select_convs(1))
  show "add_continue True True (CallAdmit sample_ticket AddAuthorize) sample_bound = (sample_bound, CallAdmit sample_ticket AddLookup)"
    "add_continue True True (CallAdmit sample_ticket AddEntitle) sample_bound = (sample_bound, CallAdmit sample_ticket AddReserve)"
    by (simp_all add: local_operator_def)
  have look: "sqlite_receipt (sample_db Queued 0 None) (tk_key sample_ticket) True = Inr None"
    using new by (simp add: sqlite_receipt_def load_receipt_def)
  show "add_continue True True (CallAdmit sample_ticket AddLookup) sample_bound = (sample_bound, CallAdmit sample_ticket AddEntitle)"
    by (simp add: sample_bound_db sqlite_jobs_def look same)
  have room: "db_last_id (sample_db Queued 0 None) < int I64_MAX" "db_last_id (sample_db Queued 0 None) = 1"
    "\<not> admission_full (sample_db Queued 0 None)"
    by (simp_all add: sample_db_def width_simps admission_full_def)
  show "add_continue True True (CallAdmit sample_ticket AddReserve) sample_bound = (sample_reserved, CallAdmit sample_ticket (AddCommit 2))"
    using reserve_fresh [OF inv room(1)] by (simp add: sample_bound_db sqlite_jobs_def room(2) sample_reserved_def)
  have "stored_reference sample_ticket = Inr (source_reference_sensitive False)"
    by (simp add: stored_reference_def sample_ticket_def sample_add_def)
  then show "add_continue True True (CallAdmit sample_ticket (AddCommit 2)) sample_reserved =
     (sample_stored, CallRecord sample_ticket 2 (source_reference_sensitive False))"
    using commit_fresh [OF inv new room(1), of "tk_spec sample_ticket"] room(2,3)
    by (simp add: sample_reserved_def sqlite_jobs_def sample_stored_def sample_added_def)
qed

definition sample_recorded :: "unit service" where
  "sample_recorded = sample_stored\<lparr>
     sv_tables := \<lparr>rt_sources = [(1, \<lparr>so_url = Some ''u'', so_allow_http = 0, so_sensitive = 0\<rparr>),
                     (144680345676153346, \<lparr>so_url = None, so_allow_http = 0, so_sensitive = 1\<rparr>)],
                   rt_destinations = [(1, ''/d/f''), (144680345676153346, ''/d/g'')]\<rparr>,
     sv_destinations := [(1, [''d'', ''f'']), (144680345676153346, [''d'', ''g''])]\<rparr>"

definition sample_finished :: "unit service" where
  "sample_finished = sample_recorded\<lparr>sv_sent := [Admit sample_second]\<rparr>"

lemma sample_rest:
  "add_continue True True (CallRecord sample_ticket 2 (source_reference_sensitive False)) sample_stored =
     (sample_recorded, CallLoad sample_ticket 2)"
  "add_continue True True (CallLoad sample_ticket 2) sample_recorded = (sample_recorded, CallSend sample_ticket 2 sample_second)"
  "add_continue True True (CallSend sample_ticket 2 sample_second) sample_recorded = (sample_finished, CallDone (Inr 2))"
proof -
  show "add_continue True True (CallRecord sample_ticket 2 (source_reference_sensitive False)) sample_stored =
     (sample_recorded, CallLoad sample_ticket 2)"
    by (simp add: reference_record_def record_reference_def path_text_def str_ok_def utf8_next_def Let_def sample_ticket_def
        sample_stored_def sample_bound_def sample_service_def sample_tables_def sample_recorded_def stored_id_def
        upsert_source_def upsert_destination_def source_columns_def source_reference_sensitive_def flag_def registry_insert_def)
  have "sv_db sample_recorded = sample_added" by (simp add: sample_recorded_def sample_stored_def)
  then show "add_continue True True (CallLoad sample_ticket 2) sample_recorded = (sample_recorded, CallSend sample_ticket 2 sample_second)"
    by (simp add: service_load_jobs_def sample_load_added) (simp add: sample_second_def job_new_def)
  show "add_continue True True (CallSend sample_ticket 2 sample_second) sample_recorded = (sample_finished, CallDone (Inr 2))"
    by (simp add: service_send_def sample_recorded_def sample_stored_def sample_bound_def sample_service_def sample_finished_def)
qed

lemma advance_rtrancl:
  assumes "(service_step sha ul)\<^sup>*\<^sup>* w (s, [0 \<mapsto> call])" "add_continue io acked call s = (s', call')"
  shows "(service_step sha ul)\<^sup>*\<^sup>* w (s', [0 \<mapsto> call'])"
proof -
  have "service_step sha ul (s, [0 \<mapsto> call]) (s', [0 \<mapsto> call, 0 \<mapsto> call'])"
    using assms(2) by (intro sv_advance) auto
  then show ?thesis using assms(1) by simp
qed

lemma sample_run_daemon:
  "(service_step sample_hash sample_links)\<^sup>*\<^sup>* (sample_service, Map.empty) (sample_finished, [0 \<mapsto> CallDone (Inr 2)])"
proof -
  have "check_request (RAdd sample_add) = Inr ()" by (simp add: sample_add_def MAX_URL_def MAX_PATH_def)
  then have "service_step sample_hash sample_links (sample_service, Map.empty)
      (sample_bound, Map.empty(0 \<mapsto> CallAdmit sample_ticket AddAuthorize))"
    using sample_begin by (intro sv_begin) simp_all
  then have "(service_step sample_hash sample_links)\<^sup>*\<^sup>* (sample_service, Map.empty)
      (sample_bound, [0 \<mapsto> CallAdmit sample_ticket AddAuthorize])" by (rule r_into_rtranclp)
  from this sample_admission(1) have "(service_step sample_hash sample_links)\<^sup>*\<^sup>* (sample_service, Map.empty)
      (sample_bound, [0 \<mapsto> CallAdmit sample_ticket AddLookup])" by (rule advance_rtrancl)
  from this sample_admission(2) have "(service_step sample_hash sample_links)\<^sup>*\<^sup>* (sample_service, Map.empty)
      (sample_bound, [0 \<mapsto> CallAdmit sample_ticket AddEntitle])" by (rule advance_rtrancl)
  from this sample_admission(3) have "(service_step sample_hash sample_links)\<^sup>*\<^sup>* (sample_service, Map.empty)
      (sample_bound, [0 \<mapsto> CallAdmit sample_ticket AddReserve])" by (rule advance_rtrancl)
  from this sample_admission(4) have "(service_step sample_hash sample_links)\<^sup>*\<^sup>* (sample_service, Map.empty)
      (sample_reserved, [0 \<mapsto> CallAdmit sample_ticket (AddCommit 2)])" by (rule advance_rtrancl)
  from this sample_admission(5) have "(service_step sample_hash sample_links)\<^sup>*\<^sup>* (sample_service, Map.empty)
      (sample_stored, [0 \<mapsto> CallRecord sample_ticket 2 (source_reference_sensitive False)])" by (rule advance_rtrancl)
  from this sample_rest(1) have "(service_step sample_hash sample_links)\<^sup>*\<^sup>* (sample_service, Map.empty)
      (sample_recorded, [0 \<mapsto> CallLoad sample_ticket 2])" by (rule advance_rtrancl)
  from this sample_rest(2) have "(service_step sample_hash sample_links)\<^sup>*\<^sup>* (sample_service, Map.empty)
      (sample_recorded, [0 \<mapsto> CallSend sample_ticket 2 sample_second])" by (rule advance_rtrancl)
  from this sample_rest(3) show ?thesis by (rule advance_rtrancl)
qed

end
