(* ===== verification/Oneshot.thy ===== *)
theory Oneshot
  imports Daemon_Sample
begin

text \<open>
  The engine of one run (\<open>Engine\<close> of \<open>crates/bins/daemon/src/lib.rs\<close>): several requests under one set
  of caps, each driven to rest, and the reopening of everything a directory remembers. The directory
  is locked, so nothing else commits while requests are admitted. Paths are their text.
\<close>

section \<open>Requests\<close>

record engine_demand =
  em_url :: "byte list"
  em_destination :: "byte list"
  em_expected_sha256 :: "digest option"
  em_sensitive :: bool

record admitted_request =
  ad_key :: receipt_key
  ad_spec :: job_spec

datatype request_outcome =
    OutPublished string | OutSettled JobState "StopReason option" | OutNeedsDecision "StopReason option" | OutFailed RunError

text \<open>What is gathered of the requests while they are checked.\<close>

record 'u gathered =
  ga_transport :: "'u registry"
  ga_destinations :: "(DestinationRef \<times> byte list) list"
  ga_references :: "(SourceRef \<times> source_reference \<times> DestinationRef \<times> byte list) list"
  ga_admitted :: "admitted_request list"

definition gather_request :: "(byte list \<Rightarrow> digest) \<Rightarrow> 'u url_lib \<Rightarrow> engine_config \<Rightarrow> engine_demand \<Rightarrow> 'u gathered \<Rightarrow>
  (DaemonError, 'u gathered) result" where
  "gather_request sha ul c q g =
     (if \<not> is_absolute (em_destination q) then Inl DInvalidInput
      else
      res_bind (map_err (\<lambda>_. DInvalidInput) (identifier_new (source_reference_of sha (em_url q) (ec_allow_http c)))) (\<lambda>source.
      res_bind (map_err (\<lambda>_. DInvalidInput) (identifier_new (destination_reference_of sha (em_destination q)))) (\<lambda>destination.
      if map_of (ga_destinations g) destination \<noteq> None then Inl DInvalidInput
      else
      res_bind (map_err DBinding (binding_new ul (str_chars (em_url q)) None None (ec_allow_http c) [])) (\<lambda>b.
      let bound = http_bind (ga_transport g) source b in
      res_bind (map_err DBinding (snd bound)) (\<lambda>_.
      res_bind (if em_sensitive q then Inr (source_reference_sensitive (ec_allow_http c))
                else map_err DAdmission (source_reference_new (em_url q) (ec_allow_http c))) (\<lambda>r.
      res_bind (map_err (\<lambda>_. DInvalidInput) (job_spec_new source destination (em_expected_sha256 q) Normal (ec_max_bytes c))) (\<lambda>spec.
      Inr \<lparr>ga_transport = fst bound, ga_destinations = ga_destinations g @ [(destination, em_destination q)],
           ga_references = ga_references g @ [(source, r, destination, em_destination q)],
           ga_admitted = ga_admitted g @
             [\<lparr>ad_key = request_key sha (em_url q) (em_destination q) (ec_max_bytes c) (ec_allow_http c), ad_spec = spec\<rparr>]\<rparr>))))))) "

fun gather_requests :: "(byte list \<Rightarrow> digest) \<Rightarrow> 'u url_lib \<Rightarrow> engine_config \<Rightarrow> engine_demand list \<Rightarrow> 'u gathered \<Rightarrow>
  (DaemonError, 'u gathered) result" where
  "gather_requests sha ul c [] g = Inr g"
| "gather_requests sha ul c (q # qs) g = res_bind (gather_request sha ul c q g) (gather_requests sha ul c qs)"

fun record_all :: "bool list \<Rightarrow> (SourceRef \<times> source_reference \<times> DestinationRef \<times> byte list) list \<Rightarrow> reference_tables \<Rightarrow>
  (DaemonError, reference_tables) result" where
  "record_all ios [] t = Inr t"
| "record_all ios ((source, r, destination, path) # rest) t =
     res_bind (map_err (\<lambda>_. DAdmission APersistenceUnavailable) (reference_record source r destination path (hd (ios @ [True])) t)) (\<lambda>t1.
     record_all (tl ios) rest t1)"

record 'u engine =
  eg_tables :: reference_tables
  eg_transport :: "'u registry"
  eg_destinations :: "(DestinationRef \<times> byte list) list"
  eg_scheduler :: scheduler
  eg_requests :: "admitted_request list"
  eg_intent :: Intent

text \<open>As \<open>wire_engine\<close>, but the buffers are reserved before the governor is made.\<close>

definition wire_oneshot :: "open_world \<Rightarrow> engine_config \<Rightarrow> db \<Rightarrow> (DaemonError, scheduler) result" where
  "wire_oneshot w c d =
     res_bind (map_err (\<lambda>_. DInvalidInput) (pool_new (ec_engine_connections c * 256 * 1024))) (\<lambda>pool.
     res_bind (map_err (\<lambda>_. DInvalidInput) (governor_new (engine_limits c))) (\<lambda>governor.
     res_bind (own_parts (ow_parts w)) (\<lambda>_.
     res_bind (coordinator_config_of c) (\<lambda>config.
     res_bind (map_err DRun (coordinator_new (ow_session w) pool config d governor)) (\<lambda>coordinator.
     res_bind (map_err DRun (scheduler_new coordinator governor (scheduler_config_of False c))) (\<lambda>scheduler.
     Inr scheduler))))))"

definition open_many :: "(byte list \<Rightarrow> digest) \<Rightarrow> 'u url_lib \<Rightarrow> open_world \<Rightarrow> bool list \<Rightarrow> engine_config \<Rightarrow> engine_demand list \<Rightarrow>
  (DaemonError, 'u engine) result" where
  "open_many sha ul w ios c qs =
     (if \<not> engine_config_valid c \<or> qs = [] \<or> 256 < length qs then Inl DInvalidInput
      else
      res_bind (own_directory (ow_state_facts w)) (\<lambda>_.
      res_bind (own_directory (ow_parts_facts w)) (\<lambda>_.
      res_bind (map_err DPersistence (ow_repository w)) (\<lambda>(d, tables).
      res_bind (map_err DBinding (ow_transport w)) (\<lambda>_.
      res_bind (gather_requests sha ul c qs
                  \<lparr>ga_transport = registry_default, ga_destinations = [], ga_references = [], ga_admitted = []\<rparr>) (\<lambda>g.
      res_bind (wire_oneshot w c d) (\<lambda>scheduler.
      res_bind (record_all ios (ga_references g) tables) (\<lambda>tables'.
      Inr \<lparr>eg_tables = tables', eg_transport = ga_transport g, eg_destinations = ga_destinations g, eg_scheduler = scheduler,
           eg_requests = ga_admitted g, eg_intent = ec_intent c\<rparr>))))))))"

text \<open>Reopening: every job with a link and a destination, the later of two with one destination left
  behind; a sensitive link is not stored, so its job waits.\<close>

fun reopen_jobs :: "(SourceRef \<times> source_reference) list \<Rightarrow> (DestinationRef \<times> byte list) list \<Rightarrow> job list \<Rightarrow> engine_demand list \<Rightarrow>
  engine_demand list" where
  "reopen_jobs sources destinations [] qs = qs"
| "reopen_jobs sources destinations (j # js) qs =
     (case (map_of (rev sources) (js_source (j_spec j)), map_of (rev destinations) (js_destination (j_spec j))) of
        (Some r, Some path) \<Rightarrow>
          (case sf_url r of
             None \<Rightarrow> reopen_jobs sources destinations js qs
           | Some url \<Rightarrow>
               if list_ex (\<lambda>earlier. is_absolute (em_destination earlier) = is_absolute path \<and>
                             path_components (em_destination earlier) = path_components path) qs
               then reopen_jobs sources destinations js qs
               else reopen_jobs sources destinations js
                      (qs @ [\<lparr>em_url = url, em_destination = path, em_expected_sha256 = js_expected_sha256 (j_spec j), em_sensitive = False\<rparr>]))
      | _ \<Rightarrow> reopen_jobs sources destinations js qs)"

definition remembered_requests :: "db \<Rightarrow> reference_tables \<Rightarrow> (DaemonError, engine_demand list) result" where
  "remembered_requests d t =
     res_bind (map_err (\<lambda>e. DAdmission (app_error e)) (stored_sources t)) (\<lambda>sources.
     res_bind (map_err (\<lambda>e. DAdmission (app_error e)) (stored_destinations t)) (\<lambda>destinations.
     res_bind (map_err (\<lambda>e. DAdmission (app_error e)) (load_jobs d)) (\<lambda>jobs.
     Inr (reopen_jobs sources destinations jobs []))))"

definition reopen_engine :: "(byte list \<Rightarrow> digest) \<Rightarrow> 'u url_lib \<Rightarrow> open_world \<Rightarrow> bool list \<Rightarrow> engine_config \<Rightarrow> (DaemonError, 'u engine) result" where
  "reopen_engine sha ul w ios c =
     (if \<not> is_absolute (ec_state_directory c) then Inl DInvalidInput
      else
      res_bind (map_err DPersistence (ow_repository w)) (\<lambda>(d, tables).
      res_bind (remembered_requests d tables) (\<lambda>qs.
      if qs = [] then Inl DNothingToContinue else open_many sha ul w ios c qs)))"

section \<open>Admitting and driving\<close>

text \<open>The repository's answers of one addition: whether the storage works and whether an answer arrives.\<close>

fun admit_all :: "(bool \<times> bool) list \<Rightarrow> admitted_request list \<Rightarrow> db \<Rightarrow> db \<times> (DaemonError, JobId list) result" where
  "admit_all ios [] d = (d, Inr [])"
| "admit_all ios (q # qs) d =
     (let (io, acked) = hd (ios @ [(True, True)]) in
      case add_execute sqlite_jobs local_operator local_operator (ad_key q) (ad_spec q) io acked d of
        (d1, AddDone (Inr i)) \<Rightarrow> (case admit_all (tl ios) qs d1 of (d2, r) \<Rightarrow> (d2, res_bind r (\<lambda>more. Inr (i # more))))
      | (d1, AddDone (Inl e)) \<Rightarrow> (d1, Inl (DAdmission e))
      | (d1, _) \<Rightarrow> (d1, Inl DInvalidInput))"

definition engine_load :: "bool \<Rightarrow> JobId \<Rightarrow> scheduler \<Rightarrow> (DaemonError, job) result" where
  "engine_load io i s =
     (if \<not> io then Inl (DAdmission APersistenceUnavailable)
      else res_bind (map_err (\<lambda>e. DAdmission (app_error e)) (load_jobs (ss_repo (sd_coordinator s)))) (\<lambda>jobs.
           ok_or (find (\<lambda>j. j_id j = i) jobs) DInvalidInput))"

text \<open>Recovery, then the operator's intent.\<close>

definition prepare_job :: "Intent \<Rightarrow> job \<Rightarrow> scheduler \<Rightarrow> scheduler \<times> (DaemonError, (request_outcome, job) result) result" where
  "prepare_job aim job0 s0 =
     (case coordinate recover job0 s0 of
        (s, Inl e) \<Rightarrow> (s, Inl (DRun e))
      | (s, Inr j) \<Rightarrow>
          if j_state j \<in> {Completed, Cancelled} then (s, Inr (Inl (OutSettled (j_state j) (j_reason j))))
          else if j_state j \<in> {Queued, Probing, Transferring, RetryWait} then (s, Inr (Inr j))
          else case aim of
            IntentStart \<Rightarrow> (s, Inr (Inl (OutNeedsDecision (j_reason j))))
          | IntentResume \<Rightarrow>
              let c = (if j_state j = NeedsAction \<and> j_reason j \<in> {Some RSourceChanged, Some RIntegrity} then CReplaceRepresentation else CResume) in
              (case coordinate (session_step c) j s of
                 (s1, Inl e) \<Rightarrow> (s1, Inl (DRun e))
               | (s1, Inr j1) \<Rightarrow> (s1, Inr (Inr j1))))"

text \<open>All of them in order: what may run, and what is settled already under its index.\<close>

fun prepare_all :: "Intent \<Rightarrow> bool list \<Rightarrow> (JobId \<times> nat) list \<Rightarrow> scheduler \<Rightarrow>
  scheduler \<times> (DaemonError, job list \<times> (nat \<times> request_outcome) list) result" where
  "prepare_all aim ios [] s = (s, Inr ([], []))"
| "prepare_all aim ios ((i, index) # rest) s =
     (case engine_load (hd (ios @ [True])) i s of
        Inl e \<Rightarrow> (s, Inl e)
      | Inr j \<Rightarrow>
          (case prepare_job aim j s of
             (s1, Inl e) \<Rightarrow> (s1, Inl e)
           | (s1, Inr r) \<Rightarrow>
               (case prepare_all aim (tl ios) rest s1 of
                  (s2, Inl e) \<Rightarrow> (s2, Inl e)
                | (s2, Inr (runnable, outcomes)) \<Rightarrow>
                    (s2, Inr (case r of Inr j1 \<Rightarrow> (j1 # runnable, outcomes) | Inl x \<Rightarrow> (runnable, (index, x) # outcomes))))))"

definition request_outcome_of :: "job_outcome \<Rightarrow> request_outcome" where
  "request_outcome_of x =
     (case (oc_result x, map_option (\<lambda>j. (j_state j, j_reason j)) (oc_job x)) of
        (Some (Inr (Published path)), _) \<Rightarrow> OutPublished path
      | (Some (Inl e), _) \<Rightarrow> OutFailed e
      | (_, Some (state, reason)) \<Rightarrow> OutSettled state reason
      | (_, None) \<Rightarrow> OutFailed RInvariant)"

text \<open>The outcome is missing while the scheduler has not returned.\<close>

definition drive :: "Intent \<Rightarrow> bool list \<Rightarrow> round_world \<Rightarrow> (round_world \<times> arrival) list \<Rightarrow> (JobId \<times> nat) list \<Rightarrow> scheduler \<Rightarrow>
  (DaemonError, (nat \<times> request_outcome) list) result option" where
  "drive aim ios w script ids s =
     (case prepare_all aim ios ids s of
        (s1, Inl e) \<Rightarrow> Some (Inl e)
      | (s1, Inr (runnable, outcomes)) \<Rightarrow>
          (case scheduler_run w runnable script s1 of
             (s2, None) \<Rightarrow> None
           | (s2, Some outs) \<Rightarrow> Some
               (res_bind (collect_res (map (\<lambda>x. res_bind (ok_or (map_of (rev ids) (oc_id x)) DInvalidInput)
                           (\<lambda>index. Inr (index, request_outcome_of x))) outs)) (\<lambda>ran.
                Inr (sort_key fst (outcomes @ ran))))))"

definition run_all :: "(bool \<times> bool) list \<Rightarrow> bool list \<Rightarrow> round_world \<Rightarrow> (round_world \<times> arrival) list \<Rightarrow> 'u engine \<Rightarrow>
  (DaemonError, (nat \<times> request_outcome) list) result option" where
  "run_all adds loads w script e =
     (let s = eg_scheduler e; (d, r) = admit_all adds (eg_requests e) (ss_repo (sd_coordinator s)) in
      case r of
        Inl err \<Rightarrow> Some (Inl err)
      | Inr ids \<Rightarrow> drive (eg_intent e) loads w script (zip ids [0..<length ids])
                   (s\<lparr>sd_coordinator := (sd_coordinator s)\<lparr>ss_repo := d\<rparr>\<rparr>))"

text \<open>One request: the last outcome, as the end of its session.\<close>

definition run_single :: "(bool \<times> bool) list \<Rightarrow> bool list \<Rightarrow> round_world \<Rightarrow> (round_world \<times> arrival) list \<Rightarrow> 'u engine \<Rightarrow>
  (DaemonError, SessionEnd) result option" where
  "run_single adds loads w script e =
     (if eg_requests e = [] then Some (Inl DInvalidInput)
      else map_option (\<lambda>r. res_bind r (\<lambda>outs.
        if outs = [] then Inl DInvalidInput
        else case snd (last outs) of
          OutPublished path \<Rightarrow> Inr (Published path)
        | OutSettled state _ \<Rightarrow> Inr (Settled state)
        | OutNeedsDecision reason \<Rightarrow> Inl (DNeedsDecision reason)
        | OutFailed err \<Rightarrow> Inl (DRun err))) (run_all adds loads w script e))"

end
