(* ===== verification/Command_Line.thy ===== *)
theory Command_Line
  imports Oneshot
begin

text \<open>
  The program around the engine (\<open>crates/bins/daemon/src/main.rs\<close> and the readers of
  \<open>lib.rs\<close>): its command line, its standard input, the client, and what it prints and exits with.
  Arguments and paths are their text. \<open>here\<close> is \<open>std::path::absolute\<close> in the process's current
  directory.
\<close>

section \<open>Standard input\<close>

type_synonym absolute = "byte list \<Rightarrow> byte list option"

definition white_space :: "nat \<Rightarrow> bool" where
  "white_space c \<longleftrightarrow> (9 \<le> c \<and> c \<le> 13) \<or> (0x2000 \<le> c \<and> c \<le> 0x200a) \<or>
     c \<in> {0x20, 0x85, 0xa0, 0x1680, 0x2028, 0x2029, 0x202f, 0x205f, 0x3000}"

definition str_trim :: "byte list \<Rightarrow> byte list" where
  "str_trim v = utf8_bytes (rev (dropWhile white_space (rev (dropWhile white_space (str_chars v)))))"

definition trim_end_cr :: "byte list \<Rightarrow> byte list" where
  "trim_end_cr v = rev (dropWhile (\<lambda>b. b = CHR 0x0D) (rev v))"

text \<open>At most a mebibyte is read; the rest is not looked at. The input is missing when reading fails.\<close>

definition READ_LIMIT :: usize where "READ_LIMIT = 2 ^ 20"
definition MAX_LINE :: usize where "MAX_LINE = 16384"

definition read_lines :: "byte list option \<Rightarrow> (DaemonError, byte list list) result" where
  "read_lines input =
     res_bind (ok_or input DInvalidInput) (\<lambda>bytes.
     let buffer = take READ_LIMIT bytes in
     if \<not> str_ok buffer then Inl DInvalidInput
     else
       let lines = filter (\<lambda>l. l \<noteq> []) (map trim_end_cr (split_on (CHR 0x0A) buffer)) in
       if lines = [] \<or> list_ex (\<lambda>l. MAX_LINE < length l) lines then Inl DInvalidInput else Inr lines)"

definition read_url :: "byte list option \<Rightarrow> (DaemonError, byte list) result" where
  "read_url input =
     res_bind (read_lines input) (\<lambda>lines.
     if lines \<noteq> [] \<and> butlast lines = [] then Inr (hd lines) else Inl DInvalidInput)"

text \<open>A line is cut at its first tab, if it has one.\<close>

definition split_once_tab :: "byte list \<Rightarrow> (byte list \<times> byte list) option" where
  "split_once_tab v = (if CHR 0x09 \<in> set v
     then Some (takeWhile (\<lambda>b. b \<noteq> CHR 0x09) v, tl (dropWhile (\<lambda>b. b \<noteq> CHR 0x09) v)) else None)"

definition read_line :: "absolute \<Rightarrow> byte list \<Rightarrow> bool \<Rightarrow> byte list \<Rightarrow> (DaemonError, engine_demand \<times> bool) result" where
  "read_line here fallback defaulted line =
     res_bind
       (case split_once_tab line of
          Some (url, destination) \<Rightarrow> res_bind (ok_or (here (str_trim destination)) DInvalidInput) (\<lambda>p. Inr (url, p, defaulted))
        | None \<Rightarrow> if defaulted then Inl DInvalidInput else Inr (line, fallback, True)) (\<lambda>(url, destination, defaulted').
     let url = str_trim url in
     if url = [] then Inl DInvalidInput
     else Inr (\<lparr>em_url = url, em_destination = destination, em_expected_sha256 = None, em_sensitive = False\<rparr>, defaulted'))"

fun read_all :: "absolute \<Rightarrow> byte list \<Rightarrow> bool \<Rightarrow> byte list list \<Rightarrow> (DaemonError, engine_demand list) result" where
  "read_all here fallback defaulted [] = Inr []"
| "read_all here fallback defaulted (line # rest) =
     res_bind (read_line here fallback defaulted line) (\<lambda>(q, defaulted').
     res_bind (read_all here fallback defaulted' rest) (\<lambda>qs. Inr (q # qs)))"

definition read_requests :: "absolute \<Rightarrow> byte list option \<Rightarrow> byte list \<Rightarrow> (DaemonError, engine_demand list) result" where
  "read_requests here input fallback =
     res_bind (read_lines input) (\<lambda>lines.
     res_bind (read_all here fallback False lines) (\<lambda>qs.
     if qs = [] then Inl DInvalidInput else Inr qs))"

section \<open>The command line\<close>

definition usage :: string where
  "usage = ''usage: fhd-engine <state-directory> <destination-file> [--connections N] '' @
     ''[--engine-connections N] [--max-active N] [--max-bytes N] [--sha256 HEX] '' @
     ''[--allow-http] [--resume] [--sensitive-link]   (one URL per line on stdin, '' @
     ''each optionally followed by a tab and its own destination file)'' @ [CHR 0x0A] @
     ''or:    fhd-engine <state-directory> --continue [--resume]   (no stdin: every '' @
     ''job this directory remembers)'' @ [CHR 0x0A] @
     ''or:    fhd-engine <state-directory> --serve --download-root DIR '' @
     ''[--allow-http]   (resident: takes work over this user's control surface; '' @
     ''downloads may land only under DIR)'' @ [CHR 0x0A] @
     ''or:    fhd-engine <state-directory> --client <command>   where command is '' @
     ''add <destination-file> [--sensitive] [--allow-http] (URL on stdin), list,      pause <job>, '' @
     ''cancel <job>, or stop''"

record invocation =
  iv_config :: engine_config
  iv_sensitive :: bool
  iv_cont :: bool
  iv_serve :: bool

text \<open>\<open>str::parse\<close> of an unsigned 64-bit number: a plus sign may stand first.\<close>

definition parse_number :: "byte list \<Rightarrow> u64 option" where
  "parse_number v =
     (let d = (if v \<noteq> [] \<and> hd v = CHR ''+'' then tl v else v) in if d = [] then None else digits_fold 0 d)"

definition parse_checksum :: "byte list \<Rightarrow> (string, digest) result" where
  "parse_checksum hex =
     (if length hex \<noteq> 64 \<or> \<not> list_all (\<lambda>b. (of_char b :: nat) < 128) hex then Inl ''invalid checksum''
      else ok_or (decode_pairs hex) ''invalid checksum'')"

fun parse_flags :: "absolute \<Rightarrow> byte list list \<Rightarrow> engine_config \<times> bool \<Rightarrow> (string, engine_config \<times> bool) result" where
  "parse_flags here [] s = Inr s"
| "parse_flags here (a # rest) (c, sensitive) =
     (if a = ''--allow-http'' then parse_flags here rest (c\<lparr>ec_allow_http := True\<rparr>, sensitive)
      else if a = ''--sensitive-link'' then parse_flags here rest (c, True)
      else if a = ''--resume'' then parse_flags here rest (c\<lparr>ec_intent := IntentResume\<rparr>, sensitive)
      else if a = ''--connections'' then
        (case rest of [] \<Rightarrow> Inl ''missing connection count''
         | v # rest' \<Rightarrow> res_bind (ok_or (parse_number v) ''invalid connection count'') (\<lambda>n.
             parse_flags here rest' (c\<lparr>ec_connections := n\<rparr>, sensitive)))
      else if a = ''--max-bytes'' then
        (case rest of [] \<Rightarrow> Inl ''missing maximum size''
         | v # rest' \<Rightarrow> res_bind (ok_or (parse_number v) ''invalid maximum size'') (\<lambda>n.
             parse_flags here rest' (c\<lparr>ec_max_bytes := n\<rparr>, sensitive)))
      else if a = ''--sha256'' then
        (case rest of [] \<Rightarrow> Inl ''missing checksum''
         | v # rest' \<Rightarrow> res_bind (parse_checksum v) (\<lambda>d.
             parse_flags here rest' (c\<lparr>ec_expected_sha256 := Some d\<rparr>, sensitive)))
      else if a = ''--engine-connections'' then
        (case rest of [] \<Rightarrow> Inl ''missing engine connection count''
         | v # rest' \<Rightarrow> res_bind (ok_or (parse_number v) ''invalid engine connection count'') (\<lambda>n.
             parse_flags here rest' (c\<lparr>ec_engine_connections := n\<rparr>, sensitive)))
      else if a = ''--max-active'' then
        (case rest of [] \<Rightarrow> Inl ''missing active job count''
         | v # rest' \<Rightarrow> res_bind (ok_or (parse_number v) ''invalid active job count'') (\<lambda>n.
             parse_flags here rest' (c\<lparr>ec_max_active := n\<rparr>, sensitive)))
      else if a = ''--download-root'' then
        (case rest of [] \<Rightarrow> Inl ''missing download root''
         | v # rest' \<Rightarrow> res_bind (ok_or (here v) ''invalid download root'') (\<lambda>root.
             parse_flags here rest' (c\<lparr>ec_download_root := Some root\<rparr>, sensitive)))
      else Inl usage)"

definition initial_config :: "byte list \<Rightarrow> byte list \<Rightarrow> engine_config" where
  "initial_config state destination =
     \<lparr>ec_state_directory = state, ec_destination = destination, ec_connections = 4, ec_engine_connections = 8, ec_max_active = 4,
      ec_expected_sha256 = None, ec_max_bytes = 100 * 1024 * 1024 * 1024, ec_allow_http = False, ec_download_root = None,
      ec_intent = IntentStart\<rparr>"

definition parse :: "absolute \<Rightarrow> byte list list \<Rightarrow> (string, invocation) result" where
  "parse here args =
     (case args of
        state_directory # second # rest \<Rightarrow>
          if second = ''--client'' then Inl ''client''
          else
            let cont = (second = ''--continue''); serve = (second = ''--serve'');
                destination = (if cont \<or> serve then state_directory else second) in
            res_bind (ok_or (here state_directory) ''invalid state directory'') (\<lambda>state.
            res_bind (ok_or (here destination) ''invalid destination'') (\<lambda>path.
            res_bind (parse_flags here rest (initial_config state path, False)) (\<lambda>(c, sensitive).
            if (cont \<or> serve) \<and> ec_expected_sha256 c \<noteq> None then Inl ''--sha256 belongs to a single request''
            else if \<not> serve \<and> ec_download_root c \<noteq> None then Inl ''--download-root belongs to --serve''
            else if (cont \<or> serve) \<and> sensitive then Inl ''--sensitive-link belongs to a single request''
            else if serve \<and> ec_intent c = IntentResume then Inl ''--resume belongs to a run that drives jobs itself''
            else Inr \<lparr>iv_config = c, iv_sensitive = sensitive, iv_cont = cont, iv_serve = serve\<rparr>)))
      | _ \<Rightarrow> Inl usage)"

section \<open>Names of an engine\<close>

definition hex_digit :: "nat \<Rightarrow> byte" where
  "hex_digit n = char_of (if n < 10 then 48 + n else 87 + n)"

definition hex_text :: "byte list \<Rightarrow> byte list" where
  "hex_text bytes = concat (map (\<lambda>b. [hex_digit (of_char b div 16), hex_digit (of_char b mod 16)]) bytes)"

definition endpoint_name :: "(byte list \<Rightarrow> digest) \<Rightarrow> byte list \<Rightarrow> string" where
  "endpoint_name sha state = hex_text (take 8 (sha (''FHD.endpoint.v1'' @ state)))"

text \<open>\<open>lower\<close> is \<open>str::to_lowercase\<close>; the directory's canonical name is missing when it cannot be resolved.\<close>

definition engine_tag :: "(byte list \<Rightarrow> digest) \<Rightarrow> (byte list \<Rightarrow> byte list) \<Rightarrow> canonical \<Rightarrow> byte list \<Rightarrow> string" where
  "engine_tag sha lower canonical state =
     (let name = (case canonical (path_components state) of Some p \<Rightarrow> path_text p | None \<Rightarrow> state) in
      hex_text (take 8 (sha (''FHD.parts.owner.v1'' @ [CHR 0x00] @ lower name))))"

section \<open>What the process prints and exits with\<close>

record process =
  pr_out :: "byte list list"
  pr_err :: "byte list list"
  pr_code :: nat

definition refuse :: "nat \<Rightarrow> byte list \<Rightarrow> process" where
  "refuse code message = \<lparr>pr_out = [], pr_err = [message], pr_code = code\<rparr>"

definition say :: "nat \<Rightarrow> byte list list \<Rightarrow> process" where
  "say code lines = \<lparr>pr_out = lines, pr_err = [], pr_code = code\<rparr>"

definition printable :: "byte list \<Rightarrow> byte list" where
  "printable v = utf8_bytes (take 64 (filter (\<lambda>c. \<not> is_control c) (str_chars v)))"

definition fail_with :: "byte list \<Rightarrow> process" where
  "fail_with code = refuse 1 (printable code)"

text \<open>The derived \<open>Debug\<close> of a stop reason; that of a job's state is its closed name.\<close>

fun reason_debug :: "StopReason \<Rightarrow> string" where
  "reason_debug RSourceChanged = ''SourceChanged''"
| "reason_debug RAuthentication = ''Authentication''"
| "reason_debug RStorage = ''Storage''"
| "reason_debug RIntegrity = ''Integrity''"
| "reason_debug RNetwork = ''Network''"
| "reason_debug RPolicy = ''Policy''"
| "reason_debug RUnknown = ''Unknown''"
| "reason_debug RDestination = ''Destination''"

definition report_line :: "nat \<times> request_outcome \<Rightarrow> byte list" where
  "report_line x = to_decimal (fst x) @ '' '' @
     (case snd x of
        OutPublished path \<Rightarrow> ''published '' @ path
      | OutSettled state (Some reason) \<Rightarrow> ''stopped in '' @ job_state_name state @ '' ('' @ reason_debug reason @ '')''
      | OutSettled state None \<Rightarrow> ''stopped in '' @ job_state_name state
      | OutNeedsDecision reason \<Rightarrow> daemon_code (DNeedsDecision reason)
      | OutFailed e \<Rightarrow> daemon_code (DRun e))"

definition unfinished :: "request_outcome \<Rightarrow> bool" where
  "unfinished x = (case x of OutPublished _ \<Rightarrow> False | OutSettled state _ \<Rightarrow> state \<noteq> Completed | _ \<Rightarrow> True)"

definition report :: "(nat \<times> request_outcome) list \<Rightarrow> process" where
  "report outs = say (if list_ex (\<lambda>x. unfinished (snd x)) outs then 1 else 0) (map report_line outs)"

section \<open>One run\<close>

definition one_shot_requests :: "absolute \<Rightarrow> invocation \<Rightarrow> byte list option \<Rightarrow> (byte list, engine_demand list) result" where
  "one_shot_requests here iv input =
     (let c = iv_config iv in
      case read_requests here input (ec_destination c) of
        Inl _ \<Rightarrow> Inl ''expected one URL per line on stdin''
      | Inr read \<Rightarrow>
          let qs = map (\<lambda>q. q\<lparr>em_sensitive := iv_sensitive iv\<rparr>) read in
          if 1 < length qs \<and> ec_expected_sha256 c \<noteq> None then Inl ''ENGINE-INVALID-INPUT''
          else case (ec_expected_sha256 c, qs) of
            (None, _) \<Rightarrow> Inr qs
          | (Some d, q # rest) \<Rightarrow> Inr (q\<lparr>em_expected_sha256 := Some d\<rparr> # rest)
          | (Some d, []) \<Rightarrow> Inl ''ENGINE-INVALID-INPUT'')"

text \<open>The world of a run: the directories and the database, the storage's answers, the scheduler's
  rounds, the controls and the sessions. The process is missing while it runs.\<close>

record run_world =
  rw_open :: open_world
  rw_records :: "bool list"
  rw_adds :: "(bool \<times> bool) list"
  rw_loads :: "bool list"
  rw_round :: round_world
  rw_script :: "(round_world \<times> arrival) list"

definition drive_all :: "run_world \<Rightarrow> 'u engine \<Rightarrow> process option" where
  "drive_all w e = map_option (\<lambda>r. case r of Inl err \<Rightarrow> refuse 2 (daemon_code err) | Inr outs \<Rightarrow> report outs)
     (run_all (rw_adds w) (rw_loads w) (rw_round w) (rw_script w) e)"

definition drive_one :: "run_world \<Rightarrow> 'u engine \<Rightarrow> process option" where
  "drive_one w e = map_option
     (\<lambda>r. case r of
        Inr (Published path) \<Rightarrow> say 0 [''published '' @ path]
      | Inr (Settled state) \<Rightarrow> say (if state = Completed then 0 else 1) [''stopped in '' @ job_state_name state]
      | Inl err \<Rightarrow> refuse 2 (daemon_code err))
     (run_single (rw_adds w) (rw_loads w) (rw_round w) (rw_script w) e)"

definition one_shot :: "(byte list \<Rightarrow> digest) \<Rightarrow> 'u url_lib \<Rightarrow> absolute \<Rightarrow> run_world \<Rightarrow> invocation \<Rightarrow> byte list option \<Rightarrow> process option" where
  "one_shot sha ul here w iv input =
     (case one_shot_requests here iv input of
        Inl message \<Rightarrow> Some (refuse 2 message)
      | Inr qs \<Rightarrow>
          (case open_many sha ul (rw_open w) (rw_records w) (iv_config iv) qs of
             Inl err \<Rightarrow> Some (refuse 2 (daemon_code err))
           | Inr e \<Rightarrow> if 1 < length qs then drive_all w e else drive_one w e))"

definition continue_run :: "(byte list \<Rightarrow> digest) \<Rightarrow> 'u url_lib \<Rightarrow> run_world \<Rightarrow> engine_config \<Rightarrow> process option" where
  "continue_run sha ul w c =
     (case reopen_engine sha ul (rw_open w) (rw_records w) c of
        Inl err \<Rightarrow> Some (refuse 2 (daemon_code err))
      | Inr e \<Rightarrow> drive_all w e)"

text \<open>The endpoint's answer and the end of the listener come from outside.\<close>

definition serve_run :: "'u url_lib \<Rightarrow> open_world \<Rightarrow> (DaemonError, byte list) result \<Rightarrow> (DaemonError, unit) result option \<Rightarrow>
  engine_config \<Rightarrow> process option" where
  "serve_run ul w bind_answer served c =
     (if ec_download_root c = None then Some (refuse 2 ''--serve requires --download-root'')
      else case resident_open ul w c of
        Inl err \<Rightarrow> Some (refuse 2 (daemon_code err))
      | Inr _ \<Rightarrow>
          (case bind_answer of
             Inl err \<Rightarrow> Some (refuse 2 (daemon_code err))
           | Inr name \<Rightarrow> map_option (\<lambda>r. case r of
                 Inr _ \<Rightarrow> say 0 [''listening '' @ name]
               | Inl err \<Rightarrow> \<lparr>pr_out = [''listening '' @ name], pr_err = [daemon_code err], pr_code = 2\<rparr>) served))"

section \<open>The client\<close>

fun client_flags :: "byte list list \<Rightarrow> bool \<times> bool \<Rightarrow> (bool \<times> bool) option" where
  "client_flags [] s = Some s"
| "client_flags (a # rest) (sensitive, allow_http) =
     (if a = ''--sensitive'' then client_flags rest (True, allow_http)
      else if a = ''--allow-http'' then client_flags rest (sensitive, True)
      else None)"

definition client_request :: "absolute \<Rightarrow> byte list list \<Rightarrow> byte list option \<Rightarrow> (process, Request) result" where
  "client_request here args input =
     (let command = (case args of [] \<Rightarrow> [] | a # _ \<Rightarrow> a); rest = tl args in
      if command = ''add'' then
        (case rest of
           [] \<Rightarrow> Inl (fail_with ''ENGINE-INVALID-INPUT'')
         | destination # flags \<Rightarrow>
             res_bind (ok_or (here destination) (fail_with ''ENGINE-INVALID-INPUT'')) (\<lambda>path.
             res_bind (ok_or (client_flags flags (False, False)) (refuse 2 usage)) (\<lambda>(sensitive, allow_http).
             res_bind (map_err (\<lambda>_. fail_with ''ENGINE-INVALID-INPUT'') (read_url input)) (\<lambda>url.
             Inr (RAdd \<lparr>ar_url = url, ar_destination = path, ar_sensitive = sensitive, ar_expected_sha256 = None,
                        ar_max_bytes = 100 * 1024 * 1024 * 1024, ar_allow_http = allow_http\<rparr>)))))
      else if command = ''list'' then if rest \<noteq> [] then Inl (refuse 2 usage) else Inr (RList None)
      else if command = ''pause'' \<or> command = ''cancel'' then
        (case Option.bind (case rest of [] \<Rightarrow> None | a # _ \<Rightarrow> Some a) parse_number of
           None \<Rightarrow> Inl (fail_with ''ENGINE-INVALID-INPUT'')
         | Some job \<Rightarrow> if tl rest \<noteq> [] then Inl (refuse 2 usage)
                       else Inr (if command = ''pause'' then RPause job else RCancel job))
      else if command = ''stop'' then if rest \<noteq> [] then Inl (refuse 2 usage) else Inr RShutdown
      else Inl (refuse 2 usage))"

definition job_line :: "job_summary \<Rightarrow> byte list" where
  "job_line j = to_decimal (jm_job j) @ '' '' @ printable (jm_state j) @ '' '' @ to_decimal (jm_durable_bytes j) @ ''/'' @
     (case jm_total j of None \<Rightarrow> ''?'' | Some n \<Rightarrow> to_decimal n) @ '' '' @
     printable (case jm_reason j of None \<Rightarrow> [] | Some r \<Rightarrow> r)"

definition client_report :: "(IpcError, Response) result \<Rightarrow> process" where
  "client_report answer =
     (case answer of
        Inr (Accepted job) \<Rightarrow> say 0 [''accepted '' @ to_decimal job]
      | Inr Done \<Rightarrow> say 0 [''done'']
      | Inr (Jobs jobs next_page) \<Rightarrow>
          say 0 (map job_line jobs @ (case next_page of None \<Rightarrow> [] | Some n \<Rightarrow> [''more after '' @ to_decimal n]))
      | Inr (Failed code) \<Rightarrow> fail_with code
      | Inl e \<Rightarrow> fail_with (ipc_code e))"

text \<open>Connecting and asking are the platform's.\<close>

definition client_run :: "absolute \<Rightarrow> (IpcError, unit) result \<Rightarrow> (Request \<Rightarrow> (IpcError, Response) result) \<Rightarrow> byte list \<Rightarrow>
  byte list list \<Rightarrow> byte list option \<Rightarrow> process" where
  "client_run here connection ask_engine state args input =
     (case client_request here args input of
        Inl p \<Rightarrow> p
      | Inr request \<Rightarrow>
          if here state = None then fail_with ''ENGINE-INVALID-INPUT''
          else case connection of Inl e \<Rightarrow> fail_with (ipc_code e) | Inr _ \<Rightarrow> client_report (ask_engine request))"

section \<open>The whole program\<close>

record main_world =
  mw_run :: run_world
  mw_bind :: "(DaemonError, byte list) result"
  mw_served :: "(DaemonError, unit) result option"
  mw_connection :: "(IpcError, unit) result"
  mw_answer :: "Request \<Rightarrow> (IpcError, Response) result"

definition fhd_engine :: "(byte list \<Rightarrow> digest) \<Rightarrow> 'u url_lib \<Rightarrow> absolute \<Rightarrow> main_world \<Rightarrow> byte list list \<Rightarrow> byte list option \<Rightarrow> process option" where
  "fhd_engine sha ul here w args input =
     (case parse here args of
        Inr iv \<Rightarrow>
          if iv_serve iv then serve_run ul (rw_open (mw_run w)) (mw_bind w) (mw_served w) (iv_config iv)
          else if iv_cont iv then continue_run sha ul (mw_run w) (iv_config iv)
          else one_shot sha ul here (mw_run w) iv input
      | Inl message \<Rightarrow>
          if message = ''client'' then Some (client_run here (mw_connection w) (mw_answer w) (hd (args @ [[]])) (tl (tl args)) input)
          else Some (refuse 2 message))"

end
