(* ===== verification/Daemon_Props.thy ===== *)
theory Daemon_Props
  imports Daemon_Sample
begin

text \<open>What the resident engine promises: no job is launched twice, and with it the budgets of the
  scheduler hold; destinations stay where they are allowed; listings are complete.\<close>

section \<open>Every job launched once\<close>

text \<open>
  C13. A resident engine never launches a job twice. Whatever clients ask at the same time, however
  their calls interleave with each other and with the transactions of running sessions, and however
  storage fails, the jobs restored when it opened and the jobs sent to its scheduler since all
  have different identities and different sources, every one is a job the database issued for its
  specification, and no call in progress holds the source of a launched job or of another call.
\<close>

theorem each_job_launched_once:
  assumes "resident_open ul w c = Inr r" "ow_repository w = Inr (d, tables)" "repo_step\<^sup>*\<^sup>* (db_empty a b) d"
    and "\<And>x. length (sha x) = 32" "(service_step sha ul)\<^sup>*\<^sup>* (re_service r, Map.empty) (s, calls)"
  shows "distinct (map j_id (re_restored r @ admits (sv_sent s))) \<and>
    distinct (map job_source (re_restored r @ admits (sv_sent s))) \<and>
    (\<forall>j \<in> set (re_restored r @ admits (sv_sent s)). issued (sv_db s) (j_id j) (j_spec j)) \<and>
    (\<forall>n t. owner calls n = Some t \<longrightarrow> ticket_source t \<notin> job_source ` set (re_restored r @ admits (sv_sent s)) \<and>
       (\<forall>m u. owner calls m = Some u \<longrightarrow> m \<noteq> n \<longrightarrow> ticket_source u \<noteq> ticket_source t))"
proof -
  have ok: "service_ok (re_restored r) s calls"
    using steps_launched assms by blast
  then have "distinct (map j_id (launched (re_restored r) s))" by (rule service_ok_unique)
  then show ?thesis
    using ok by (auto simp: launched_def service_ok_def jobs_ok_def owners_ok_def free_sources_def)
qed

theorem each_job_launched_once_witness:
  "\<exists>r. resident_open sample_links sample_open_world sample_engine_config = Inr r \<and>
     (service_step sample_hash sample_links)\<^sup>*\<^sup>* (re_service r, Map.empty) (sample_finished, [0 \<mapsto> CallDone (Inr 2)]) \<and>
     re_restored r = [job_new 1 sample_spec] \<and> admits (sv_sent sample_finished) = [sample_second] \<and>
     distinct (map j_id (re_restored r @ admits (sv_sent sample_finished)))"
proof -
  obtain s where r: "resident_open sample_links sample_open_world sample_engine_config =
     Inr \<lparr>re_service = sample_service, re_scheduler = s, re_restored = [job_new 1 sample_spec]\<rparr>"
    using sample_resident by blast
  have d: "ow_repository sample_open_world = Inr (sample_db Queued 0 None, sample_tables)" by (simp add: sample_open_world_def)
  have sha: "length (sample_hash x) = 32" for x by (simp add: sample_hash_def)
  show ?thesis
    using each_job_launched_once [where sha = sample_hash and s = sample_finished and calls = "[0 \<mapsto> CallDone (Inr 2)]", OF r d sample_repo_run(2) sha]
      r sample_run_daemon
    by (intro exI [of _ "\<lparr>re_service = sample_service, re_scheduler = s, re_restored = [job_new 1 sample_spec]\<rparr>"])
      (simp add: sample_finished_def)
qed

section \<open>The scheduler behind the service\<close>

text \<open>The commands a scheduler run received, in order.\<close>

definition received :: "(round_world \<times> arrival) list \<Rightarrow> Command list" where
  "received script = List.map_filter (\<lambda>(w, a). case a of CommandReceived c \<Rightarrow> c | _ \<Rightarrow> None) script"

lemma received_Cons:
  "received ((w, a) # rest) = (case a of CommandReceived (Some c) \<Rightarrow> [c] | _ \<Rightarrow> []) @ received rest"
  by (auto simp: received_def List.map_filter_def split: arrival.splits option.splits)

lemma admits_Cons: "admits (c # cs) = admits [c] @ admits cs"
  using admits_simps(2) [of "[c]" cs] by simp

lemma newcomers_received: "set (newcomers a s) \<subseteq> j_id ` set (admits (case a of CommandReceived (Some c) \<Rightarrow> [c] | _ \<Rightarrow> []))"
  by (cases "(a, s)" rule: newcomers.cases) auto

lemma distinct_admits_fresh:
  assumes "task_ok s" "along own_job script s" "distinct (map j_id (admits (received script)))"
    and "set_mset (job_ids s) \<inter> j_id ` set (admits (received script)) = {}"
  shows "along fresh_admit script s"
  using assms
proof (induction script arbitrary: s)
  case (Cons x rest)
  obtain w a where x: "x = (w, a)" by fastforce
  obtain s1 k where k: "sched_round w s = (s1, k)" by fastforce
  note first = round_ok(1) [OF Cons.prems(1) k]
  show ?case
  proof (cases k)
    case RoundBreak
    then show ?thesis using x k by simp
  next
    case (RoundSelect dl)
    let ?new = "admits (case a of CommandReceived (Some c) \<Rightarrow> [c] | _ \<Rightarrow> [])"
    let ?t = "on_arrival w a s1"
    have all: "admits (received (x # rest)) = ?new @ admits (received rest)" by (simp add: x received_Cons)
    have own: "own_job a s1" "along own_job rest ?t" using Cons.prems(2) x k RoundSelect by simp_all
    have task: "task_ok s1" and ids: "job_ids s1 = job_ids s" using first by (simp_all add: arrives_well_def)
    have step: "arrives_well (newcomers a s1) (fresh_admit a s1) s1 ?t" using task own(1) by (rule arrival_ok)
    then have t: "task_ok ?t" "job_ids ?t = job_ids s + mset (newcomers a s1)" by (simp_all add: arrives_well_def ids)
    have "set_mset (job_ids ?t) \<inter> j_id ` set (admits (received rest)) = {}"
      using Cons.prems(3,4) newcomers_received [of a s1] unfolding t(2) all by auto
    then have "along fresh_admit rest ?t" using Cons.IH [OF t(1) own(2)] Cons.prems(3) all by simp
    moreover have "fresh_admit a s1"
    proof (cases "(a, s1)" rule: fresh_admit.cases)
      case (1 j s')
      then have "j \<in> set (admits (received (x # rest)))" by (simp add: all)
      then have "j_id j \<notin># job_ids s" using Cons.prems(4) by auto
      then have "j_id j \<notin># job_ids s1" by (simp only: ids not_False_eq_True)
      then show ?thesis using 1 by (simp add: job_ids_def)
    qed simp_all
    ultimately show ?thesis using x k RoundSelect by simp
  qed
qed simp

text \<open>
  C14. The budgets of a resident engine hold without any condition on its clients. An engine opened
  from a configuration, its service and its scheduler together: the scheduler starts from the
  restored jobs and receives what the service sent, in order. In every state of such a run no more
  sessions are active than configured, the connections in use are the sum of the grants and within
  the engine's ceiling, each grant is within the per-job ceiling, and the governor counts for every
  origin exactly the connections held for it.
\<close>

theorem resident_budgets_hold:
  assumes "resident_open ul rw c = Inr r" "ow_repository rw = Inr (d, tables)" "repo_step\<^sup>*\<^sup>* (db_empty a b) d"
    and "\<And>x. length (sha x) = 32" "(service_step sha ul)\<^sup>*\<^sup>* (re_service r, Map.empty) (s, calls)"
    and "prefix (received script) (sv_sent s)" "along own_job script (intake w [] (re_restored r) (re_scheduler r))"
    and "scheduler_run w (re_restored r) script (re_scheduler r) = (t, x)"
  shows "length (sd_active t) \<le> ec_max_active c \<and>
    sd_used t = sum_list (map (\<lambda>(i, a). ac_grant a) (sd_active t)) \<and> sd_used t \<le> ec_engine_connections c \<and>
    (\<forall>(i, a) \<in> set (sd_active t). 1 \<le> ac_grant a \<and> ac_grant a \<le> ec_connections c) \<and>
    (\<forall>y. governor_in_flight (sd_governor t) y =
         sum_list (map (\<lambda>(i, a). if ac_origin a = y then ac_grant a else 0) (sd_active t)) \<and>
       governor_in_flight (sd_governor t) y \<le> ec_engine_connections c)"
proof -
  obtain pool where wire: "wire_engine True rw c d = Inr (pool, re_scheduler r)" using opened_service_ok [OF assms(1-3)] by blast
  obtain g co where new: "governor_new (engine_limits c) = Inr g"
    "scheduler_new co g (scheduler_config_of True c) = Inr (re_scheduler r)"
    using wire by (auto simp: wire_engine_def res_simps)
  have ids: "distinct (map j_id (re_restored r @ admits (sv_sent s)))"
    using service_ok_unique [OF steps_launched [OF assms(1-3,5,4)]] by (simp add: launched_def)
  obtain more where more: "sv_sent s = received script @ more" using assms(6) by (auto simp: prefix_def)
  have dis: "distinct (map j_id (admits (received script)))"
    "set (map j_id (re_restored r)) \<inter> j_id ` set (admits (received script)) = {}"
    using ids unfolding more by auto
  let ?s0 = "intake w [] (re_restored r) (re_scheduler r)"
  note n = new_ok [OF new(2,1)]
  have "arrives_well (map j_id (re_restored r)) True (re_scheduler r) ?s0" using n by (intro intake_ok) simp_all
  then have s0: "task_ok ?s0" "job_ids ?s0 = mset (map j_id (re_restored r))" using n(4) by (simp_all add: arrives_well_def)
  have "along fresh_admit script ?s0"
    using s0 assms(7) dis by (intro distinct_admits_fresh) simp_all
  note budgets = scheduler_budgets_within [OF new(2,1) assms(7) this assms(8)]
  have names: "sc_max_active (scheduler_config_of True c) = ec_max_active c" "sc_connections (scheduler_config_of True c) = ec_engine_connections c"
    "sc_per_job (scheduler_config_of True c) = ec_connections c" "ol_connections (engine_limits c) = ec_engine_connections c"
    by (simp_all add: scheduler_config_of_def engine_limits_def)
  show ?thesis using budgets unfolding names .
qed

theorem resident_budgets_hold_witness:
  "\<exists>r t x. resident_open sample_links sample_open_world sample_engine_config = Inr r \<and>
     scheduler_run (sample_world 0 0) (re_restored r) [(sample_world 0 0, CommandReceived (Some (Admit sample_second)))] (re_scheduler r) = (t, x) \<and>
     sd_used t \<le> 8 \<and> length (sd_active t) \<le> 4"
proof -
  obtain s where r: "resident_open sample_links sample_open_world sample_engine_config =
     Inr \<lparr>re_service = sample_service, re_scheduler = s, re_restored = [job_new 1 sample_spec]\<rparr>"
    using sample_resident by blast
  have d: "ow_repository sample_open_world = Inr (sample_db Queued 0 None, sample_tables)" by (simp add: sample_open_world_def)
  have sha: "length (sample_hash x) = 32" for x by (simp add: sample_hash_def)
  let ?script = "[(sample_world 0 0, CommandReceived (Some (Admit sample_second)))]"
  obtain t x where run: "scheduler_run (sample_world 0 0) [job_new 1 sample_spec] ?script s = (t, x)" by fastforce
  have "along own_job ?script z" for z by (auto split: prod.splits round.splits)
  moreover have "prefix (received ?script) (sv_sent sample_finished)"
    by (simp add: received_def List.map_filter_def sample_finished_def)
  ultimately show ?thesis
    using resident_budgets_hold [where sha = sample_hash and s = sample_finished and calls = "[0 \<mapsto> CallDone (Inr 2)]"
        and script = ?script and w = "sample_world 0 0" and t = t and x = x, OF r d sample_repo_run(2) sha] r sample_run_daemon run
    by (intro exI [of _ "\<lparr>re_service = sample_service, re_scheduler = s, re_restored = [job_new 1 sample_spec]\<rparr>"] exI [of _ t] exI [of _ x])
      (simp add: sample_engine_config_def)
qed

section \<open>Destinations\<close>

lemma split_on_not_Nil [simp]: "split_on c v \<noteq> []"
  by (cases v) (auto split: list.splits)

lemma split_on_at: "split_on c (xs @ c # ys) = split_on c xs @ split_on c ys"
  by (induction xs) (auto split: list.splits)

lemma split_on_plain: "c \<notin> set v \<Longrightarrow> split_on c v = [v]"
  by (induction v) auto

lemma hd_split_on: "hd (split_on c v) = takeWhile (\<lambda>b. b \<noteq> c) v"
  by (induction v) (auto split: list.splits simp: neq_Nil_conv)

lemma ascii_lower_dot [simp]: "ascii_lower b = CHR ''.'' \<longleftrightarrow> b = CHR ''.''"
proof -
  have "ascii_lower b \<noteq> CHR ''.''" if "65 \<le> (of_char b :: nat)" "(of_char b :: nat) \<le> 90"
  proof
    assume "ascii_lower b = CHR ''.''"
    then have "of_char (ascii_lower b) = (46 :: nat)" by simp
    then show False using that by (simp add: ascii_lower_def Let_def)
  qed
  moreover have "b \<noteq> CHR ''.''" if "65 \<le> (of_char b :: nat)" using that by auto
  ultimately show ?thesis by (auto simp: ascii_lower_def Let_def)
qed

lemma ascii_lower_of_dot [simp]: "ascii_lower (CHR ''.'') = CHR ''.''"
  by simp

lemma resolve_parts_plain: "resolve_parts r ps = Some q \<Longrightarrow> ''..'' \<notin> set r \<Longrightarrow> ''..'' \<notin> set q"
  by (induction r ps rule: resolve_parts.induct) (auto split: if_splits dest: in_set_butlastD)

text \<open>What a publishable name is not, as the system reads it.\<close>

lemma publishable_extension:
  assumes "publishable_name leaf" "leaf = a @ CHR ''.'' # ext @ b" "CHR ''.'' \<notin> set ext" "b = [] \<or> hd b = CHR ''.''"
  shows "map ascii_lower ext \<notin> set REFUSED"
proof -
  have refused: "\<not> list_ex (\<lambda>p. p \<in> set REFUSED) (tl (split_on (CHR ''.'') (map ascii_lower leaf)))"
    using assms(1) by (auto simp: publishable_name_def Let_def split: if_splits)
  have e: "CHR ''.'' \<notin> set (map ascii_lower ext)" using assms(3) by (simp add: image_iff) (metis ascii_lower_dot)
  have "map ascii_lower ext \<in> set (split_on (CHR ''.'') (map ascii_lower (ext @ b)))"
  proof (cases b)
    case Nil
    then show ?thesis using split_on_plain [OF e] by simp
  next
    case (Cons x b')
    then have "ascii_lower x = CHR ''.''" using assms(4) by simp
    then have "split_on (CHR ''.'') (map ascii_lower (ext @ b))
        = split_on (CHR ''.'') (map ascii_lower ext) @ split_on (CHR ''.'') (map ascii_lower b')"
      using split_on_at [of "CHR ''.''" "map ascii_lower ext"] by (simp add: Cons)
    then show ?thesis using split_on_plain [OF e] by simp
  qed
  moreover have "split_on (CHR ''.'') (map ascii_lower leaf)
      = split_on (CHR ''.'') (map ascii_lower a) @ split_on (CHR ''.'') (map ascii_lower (ext @ b))"
    using split_on_at [of "CHR ''.''" "map ascii_lower a"] by (simp add: assms(2))
  ultimately show ?thesis using refused by (auto simp: list_ex_iff tl_append split: list.splits)
qed

lemma publishable_stem: "publishable_name leaf \<Longrightarrow> map ascii_lower (takeWhile (\<lambda>b. b \<noteq> CHR ''.'') leaf) \<notin> set DEVICES"
proof -
  assume "publishable_name leaf"
  then have "takeWhile (\<lambda>b. b \<noteq> CHR ''.'') (map ascii_lower leaf) \<notin> set DEVICES"
    by (auto simp: publishable_name_def Let_def hd_split_on split: if_splits)
  then show ?thesis by (simp add: takeWhile_map o_def)
qed

lemma publishable_kept:
  assumes "publishable_name leaf"
  shows "leaf \<noteq> []" "rev (dropWhile (\<lambda>b. b = CHR ''.'' \<or> b = CHR '' '') (rev leaf)) = leaf" "set leaf \<inter> {CHR ''/'', CHR 0x5c, CHR '':''} = {}"
proof -
  show l: "leaf \<noteq> []" and s: "set leaf \<inter> {CHR ''/'', CHR 0x5c, CHR '':''} = {}"
    using assms by (auto simp: publishable_name_def split: if_splits)
  have "last leaf \<noteq> CHR ''.'' \<and> last leaf \<noteq> CHR '' ''" using assms by (auto simp: publishable_name_def split: if_splits)
  then show "rev (dropWhile (\<lambda>b. b = CHR ''.'' \<or> b = CHR '' '') (rev leaf)) = leaf"
    using l by (cases leaf rule: rev_cases) auto
qed



section \<open>Listing\<close>

lemma load_record_positive:
  assumes "load_record d i row = Inr rec"
  shows "0 < jr_id rec"
proof -
  have i: "0 < n" if "map_err (\<lambda>_. PCorrupt) (identifier_new v) = Inr n" for v n
    using that by (auto simp: identifier_new_def split: if_splits)
  obtain v n where a: "map_err (\<lambda>_. PCorrupt) (identifier_new v) = Inr n" and b: "jr_id rec = n"
    using assms unfolding load_record_def res_bind_eq_Inr
    by (cases "db_state d i"; elim exE conjE) (simp_all only: option.case res_bind_eq_Inr; (elim exE conjE)?; force)+
  show ?thesis using i [OF a] b by simp
qed

lemma load_jobs_ids:
  assumes "load_jobs d = Inr js"
  shows "map (\<lambda>j. int (j_id j)) js = map fst (sort_key fst (db_jobs d))" "\<forall>j \<in> set js. 0 < j_id j"
proof -
  have l: "map (load_job d) (sort_key fst (db_jobs d)) = map Inr js"
    using assms by (simp add: load_jobs_def collect_res_eq_Inr)
  have id: "i = int (j_id j) \<and> 0 < j_id j" if named: "load_job d (i, row) = Inr j" for i row j
  proof -
    obtain rec where rec: "load_record d i row = Inr rec" "job_restore rec = Inr j"
      using named by (auto simp: load_job_def map_err_eq_Inr res_simps)
    have "jr_id rec = j_id j" using rec(2) by (auto simp: job_restore_def res_simps split: if_splits)
    then show ?thesis using load_record_named [OF rec(1)] load_record_positive [OF rec(1)] by simp
  qed
  have len: "length js = length (db_jobs d)" using arg_cong [OF l, of length] by simp
  have at: "load_job d (sort_key fst (db_jobs d) ! n) = Inr (js ! n)" if "n < length js" for n
    using arg_cong [OF l, of "\<lambda>xs. xs ! n"] that len by simp
  show "map (\<lambda>j. int (j_id j)) js = map fst (sort_key fst (db_jobs d))"
  proof (rule nth_equalityI)
    fix n assume "n < length (map (\<lambda>j. int (j_id j)) js)"
    then have n: "n < length js" by simp
    show "map (\<lambda>j. int (j_id j)) js ! n = map fst (sort_key fst (db_jobs d)) ! n"
      using id [of "fst (sort_key fst (db_jobs d) ! n)" "snd (sort_key fst (db_jobs d) ! n)"] at [OF n] n len by simp
  qed (simp add: len)
  show "\<forall>j \<in> set js. 0 < j_id j"
  proof
    fix j assume "j \<in> set js"
    then obtain n where "n < length js" "js ! n = j" by (auto simp: in_set_conv_nth)
    then show "0 < j_id j" using at id [of "fst (sort_key fst (db_jobs d) ! n)" "snd (sort_key fst (db_jobs d) ! n)"] by simp
  qed
qed

text \<open>A client that follows the cursor to the end.\<close>

fun list_from :: "nat \<Rightarrow> 'u service \<Rightarrow> u64 option \<Rightarrow> job_summary list" where
  "list_from 0 s after = []"
| "list_from (Suc n) s after =
     (case service_list True after s of
        Inr (Response.Jobs page next) \<Rightarrow> page @ (case next of None \<Rightarrow> [] | Some a \<Rightarrow> list_from n s (Some a))
      | _ \<Rightarrow> [])"

lemma filter_above:
  assumes "sorted (map f xs)" "distinct (map f xs)" "k < length xs"
  shows "filter (\<lambda>x. f (xs ! k) < f x) xs = drop (Suc k) xs"
proof -
  have split: "xs = take (Suc k) xs @ drop (Suc k) xs" by simp
  have mono: "f (xs ! i) \<le> f (xs ! j)" if "i \<le> j" "j < length xs" for i j
    using assms(1) that by (auto simp: sorted_iff_nth_mono)
  have ne: "f (xs ! i) \<noteq> f (xs ! j)" if "i \<noteq> j" "i < length xs" "j < length xs" for i j
    using assms(2) that by (auto simp: distinct_conv_nth)
  have "filter (\<lambda>x. f (xs ! k) < f x) (take (Suc k) xs) = []"
    using mono [of _ k] assms(3) by (auto simp: filter_empty_conv in_set_conv_nth not_less)
  moreover have "filter (\<lambda>x. f (xs ! k) < f x) (drop (Suc k) xs) = drop (Suc k) xs"
  proof (rule filter_True, rule ballI)
    fix x assume "x \<in> set (drop (Suc k) xs)"
    then obtain i where i: "x = xs ! (Suc k + i)" "Suc k + i < length xs" by (auto simp: in_set_conv_nth)
    show "f (xs ! k) < f x" using mono [of k "Suc k + i"] ne [of k "Suc k + i"] i by (simp add: order_le_neq_trans)
  qed
  ultimately show ?thesis by (subst split, subst filter_append) simp
qed

definition cursor :: "job list \<Rightarrow> nat \<Rightarrow> u64 option" where
  "cursor xs m = (if m = 0 then None else Some (j_id (xs ! (m - 1))))"

lemma service_list_page:
  assumes "load_jobs (sv_db s) = Inr js" "distinct (map j_id js)" "m \<le> length js"
  shows "service_list True (cursor (sort_key j_id js) m) s = Inr (Response.Jobs
     (map summarize (take MAX_JOBS_PER_PAGE (drop m (sort_key j_id js))))
     (if m + MAX_JOBS_PER_PAGE < length js then cursor (sort_key j_id js) (m + MAX_JOBS_PER_PAGE) else None))"
proof -
  let ?xs = "sort_key j_id js"
  have dis: "distinct (map j_id ?xs)" using assms(2) by (metis distinct_map set_sort distinct_sort)
  have pos: "\<forall>j \<in> set ?xs. 0 < j_id j" using load_jobs_ids(2) [OF assms(1)] by simp
  have 1: "sort_key j_id (filter (\<lambda>j. (case cursor ?xs m of None \<Rightarrow> 0 | Some a \<Rightarrow> a) < j_id j) js) = drop m ?xs"
  proof (cases m)
    case 0
    then show ?thesis using pos by (simp add: cursor_def filter_sort [symmetric])
  next
    case (Suc k)
    then show ?thesis
      using filter_above [of j_id ?xs k] dis assms(3) by (simp add: cursor_def filter_sort [symmetric])
  qed
  have "length (filter (\<lambda>j. (case cursor ?xs m of None \<Rightarrow> 0 | Some a \<Rightarrow> a) < j_id j) js) = length js - m"
    using arg_cong [OF 1, of length] by simp
  moreover note 1
  moreover have "drop m ?xs ! (MAX_JOBS_PER_PAGE - 1) = ?xs ! (m + MAX_JOBS_PER_PAGE - 1)" if "MAX_JOBS_PER_PAGE < length js - m"
    using that assms(3) by (simp add: MAX_JOBS_PER_PAGE_def add.commute)
  ultimately show ?thesis
    using assms(1,3)
    by (simp add: service_list_def service_load_jobs_def Let_def MAX_JOBS_PER_PAGE_def) (auto simp: cursor_def)
qed

lemma list_from_pages:
  assumes "load_jobs (sv_db s) = Inr js" "distinct (map j_id js)" "m \<le> length js" "length js - m \<le> n * MAX_JOBS_PER_PAGE" "0 < n"
  shows "list_from n s (cursor (sort_key j_id js) m) = map summarize (drop m (sort_key j_id js))"
  using assms(3-5)
proof (induction n arbitrary: m)
  case (Suc n)
  note page = service_list_page [OF assms(1,2) Suc.prems(1)]
  show ?case
  proof (cases "m + MAX_JOBS_PER_PAGE < length js")
    case False
    then show ?thesis using page by simp
  next
    case True
    let ?m = "m + MAX_JOBS_PER_PAGE" and ?xs = "sort_key j_id js"
    have n: "0 < n" using True Suc.prems(2) by (cases n) auto
    have "list_from n s (cursor ?xs ?m) = map summarize (drop ?m ?xs)"
      using True Suc.prems(2) n by (intro Suc.IH) simp_all
    moreover have "cursor ?xs ?m = Some (j_id (?xs ! (?m - 1)))" by (simp add: cursor_def MAX_JOBS_PER_PAGE_def)
    ultimately show ?thesis
      using page True append_take_drop_id [of MAX_JOBS_PER_PAGE "drop m ?xs"]
      by (simp add: map_append [symmetric] add.commute del: map_append)
  qed
qed simp

text \<open>
  C16. Listing loses no job and repeats none. On every database the transactions can produce, a
  client that follows the cursor from the start receives exactly one summary of every job, in the
  order of their identifiers, after no more requests than there are full pages and one; and every
  page, whatever its cursor, is one the protocol lets through.
\<close>

theorem listing_is_complete:
  assumes "repo_step\<^sup>*\<^sup>* (db_empty a b) (sv_db s)" "load_jobs (sv_db s) = Inr js"
  shows "list_from (length js div MAX_JOBS_PER_PAGE + 1) s None = map summarize (sort_key j_id js) \<and>
    (\<forall>after page. service_list True after s = Inr page \<longrightarrow> check_response page = Inr ())"
proof
  have "admission_inv (sv_db s)" using assms(1) admission_inv_empty by (rule repo_steps_admission)
  then have "distinct (map fst (db_jobs (sv_db s)))" by (simp add: admission_inv_def)
  then have "distinct (map fst (sort_key fst (db_jobs (sv_db s))))" by (metis distinct_map distinct_sort set_sort)
  then have "distinct (map (\<lambda>j. int (j_id j)) js)" using load_jobs_ids(1) [OF assms(2)] by simp
  then have dis: "distinct (map j_id js)" by (auto simp: distinct_map inj_on_def)
  have "length js \<le> (length js div MAX_JOBS_PER_PAGE + 1) * MAX_JOBS_PER_PAGE"
    using div_mult_mod_eq [of "length js" MAX_JOBS_PER_PAGE] mod_less_divisor [of MAX_JOBS_PER_PAGE "length js"]
    by (simp add: MAX_JOBS_PER_PAGE_def)
  then show "list_from (length js div MAX_JOBS_PER_PAGE + 1) s None = map summarize (sort_key j_id js)"
    using list_from_pages [OF assms(2) dis, of 0 "length js div MAX_JOBS_PER_PAGE + 1"] by (simp add: cursor_def)
  show "\<forall>after page. service_list True after s = Inr page \<longrightarrow> check_response page = Inr ()"
    using load_jobs_ids(2) [OF assms(2)] assms(2)
    by (auto simp: service_list_def service_load_jobs_def Let_def summarize_def list_ex_iff dest!: in_set_takeD)
qed

theorem listing_is_complete_witness:
  "repo_step\<^sup>*\<^sup>* (db_empty 4 4) (sv_db sample_service) \<and> list_from 1 sample_service None = [summarize (job_new 1 sample_spec)]"
proof -
  have d: "repo_step\<^sup>*\<^sup>* (db_empty 4 4) (sv_db sample_service)" using sample_repo_run(2) by (simp add: sample_service_def)
  have "load_jobs (sv_db sample_service) = Inr [job_new 1 sample_spec]" using sample_load by (simp add: sample_service_def)
  from listing_is_complete [OF d this] d show ?thesis by (simp add: MAX_JOBS_PER_PAGE_def)
qed

section \<open>Identities\<close>

lemma labelled_inj:
  assumes "labelled l ps = labelled l qs" "length ps = length qs"
    and "\<forall>p \<in> set ps. length p < 2 ^ 64" "\<forall>q \<in> set qs. length q < 2 ^ 64"
  shows "ps = qs"
proof -
  have "concat (map (\<lambda>p. le_bytes 8 (length p) @ p) ps) = concat (map (\<lambda>p. le_bytes 8 (length p) @ p) qs)"
    using assms(1) by (simp add: labelled_def)
  then show ?thesis
    using assms(2-4)
  proof (induction ps qs rule: list_induct2')
    case (4 p ps q qs)
    have e: "le_bytes 8 (length p) = le_bytes 8 (length q)" using 4(2) by (simp add: append_eq_append_conv)
    have "length p = length q"
      using arg_cong [OF e, of from_le_bytes] 4(4,5) by simp
    then show ?case using 4 by simp
  qed simp_all
qed

text \<open>
  One key for each request. Two requests get the same receipt key exactly when they agree in
  what is fetched, where it lands, how large it may be and whether cleartext is allowed, or when the
  hash maps two different texts to one digest; the framing of the fields adds no collision of its
  own.
\<close>

theorem request_key_identifies:
  assumes "length url < 2 ^ 64" "length url' < 2 ^ 64" "length dest < 2 ^ 64" "length dest' < 2 ^ 64"
    and "n \<le> U64_MAX" "n' \<le> U64_MAX"
  shows "request_key sha url dest n h = request_key sha url' dest' n' h' \<longleftrightarrow>
    (url = url' \<and> dest = dest' \<and> n = n' \<and> h = h') \<or>
    (\<exists>x y. x \<noteq> y \<and> sha x = sha y \<and> x = labelled REQUEST_LABEL [url, dest, le_bytes 8 n, [bool_byte h]] \<and>
       y = labelled REQUEST_LABEL [url', dest', le_bytes 8 n', [bool_byte h']])"
proof -
  let ?x = "labelled REQUEST_LABEL [url, dest, le_bytes 8 n, [bool_byte h]]"
  let ?y = "labelled REQUEST_LABEL [url', dest', le_bytes 8 n', [bool_byte h']]"
  have "url = url' \<and> dest = dest' \<and> n = n' \<and> h = h'" if "?x = ?y"
  proof -
    have "[url, dest, le_bytes 8 n, [bool_byte h]] = [url', dest', le_bytes 8 n', [bool_byte h']]"
      using assms(1-4) by (intro labelled_inj [OF that]) simp_all
    then have "url = url'" "dest = dest'" "le_bytes 8 n = le_bytes 8 n'" "bool_byte h = bool_byte h'" by simp_all
    moreover have "n = n'"
      using arg_cong [OF calculation(3), of from_le_bytes] assms(5,6) by (simp add: U64_MAX_def)
    moreover have "h = h'" using calculation(4) by (simp add: bool_byte_def split: if_splits)
    ultimately show ?thesis by simp
  qed
  moreover have "request_key sha url dest n h = request_key sha url' dest' n' h' \<longleftrightarrow> sha ?x = sha ?y"
    by (simp add: request_key_def daemon_digest_def)
  ultimately show ?thesis by blast
qed

theorem request_key_identifies_witness:
  "request_key id ''u'' ''/d'' 5 False \<noteq> request_key id ''u/'' ''d'' 5 False"
  using request_key_identifies [of "''u''" "''u/''" "''/d''" "''d''" 5 5 id False False] by (simp add: width_simps)

section \<open>Links kept off the disk\<close>

definition no_tables :: reference_tables where
  "no_tables = \<lparr>rt_sources = [], rt_destinations = []\<rparr>"

lemma sensitive_stays:
  assumes "recording\<^sup>*\<^sup>* t t'" "map_of (rt_sources t) i = Some row" "so_sensitive row \<noteq> 0"
  shows "map_of (rt_sources t') i = Some row"
  using assms by (induction rule: rtranclp_induct) (auto dest: sensitive_row_stays)

text \<open>
  C17. A link marked sensitive is never written, and the mark cannot be taken back. From the moment a
  request was recorded as sensitive, whatever is recorded later, by any request and under any
  identity, the row of its source holds no link; reading the tables back never fails, and what is
  read for that source has no link a later run could fetch.
\<close>

theorem sensitive_link_stays_off_disk:
  assumes "recording\<^sup>*\<^sup>* no_tables t" "record_reference source (source_reference_sensitive b) destination path io t = Inr t1"
    and "identifier_ok source" "identifier_ok destination" "recording\<^sup>*\<^sup>* t1 t2"
  shows "(\<exists>row. map_of (rt_sources t2) (stored_id source) = Some row \<and> so_url row = None) \<and>
    (\<exists>sources r. stored_sources t2 = Inr sources \<and> map_of sources source = Some r \<and> sf_url r = None)"
proof -
  have t: "tables_ok t" using assms(1) by (rule recordings_ok) (simp add: no_tables_def tables_ok_def)
  have ref: "reference_ok (source_reference_sensitive b)" unfolding reference_ok_def by blast
  have t1: "tables_ok t1" using assms(2) t ref assms(3,4) by (rule record_tables_ok)
  have t2: "tables_ok t2" using assms(5) t1 by (rule recordings_ok)
  obtain row where row: "map_of (rt_sources t1) (stored_id source) = Some row" "so_sensitive row \<noteq> 0"
  proof -
    have t1': "rt_sources t1 = upsert_source (stored_id source) (source_columns (source_reference_sensitive b)) (rt_sources t)"
      using assms(2) by (auto simp: record_reference_def split: if_splits)
    have "so_sensitive (source_columns (source_reference_sensitive b)) = 1"
      by (simp add: source_columns_def source_reference_sensitive_def flag_def)
    then have "\<exists>row. map_of (rt_sources t1) (stored_id source) = Some row \<and> so_sensitive row \<noteq> 0"
      unfolding t1' upsert_source_at by (auto split: option.splits)
    then show ?thesis using that by blast
  qed
  have row2: "map_of (rt_sources t2) (stored_id source) = Some row" using assms(5) row by (rule sensitive_stays)
  have ok: "source_row_ok i x" if "(i, x) \<in> set (rt_sources t2)" for i x using t2 that by (auto simp: tables_ok_def)
  have url: "so_url row = None" using ok [OF map_of_SomeD [OF row2]] row(2) by (simp add: source_row_ok_def)
  have named: "\<exists>y. load_source (i, x) = Inr (loaded_id i, y)" if mem: "(i, x) \<in> set (rt_sources t2)" for i x
  proof -
    obtain v where v: "identifier_ok v" "i = stored_id v" using ok [OF mem] by (auto simp: source_row_ok_def)
    then show ?thesis using load_source_ok [of v x] ok [OF mem] by (auto simp: identifier_ok_def)
  qed
  define out where "out = map (\<lambda>p. projr (load_source p)) (rt_sources t2)"
  have "\<forall>p \<in> set (rt_sources t2). load_source p = Inr (projr (load_source p))" using named by force
  then have out: "stored_sources t2 = Inr out" unfolding stored_sources_def out_def by (intro collect_res_map_Inr) blast
  have inj: "inj_on loaded_id (insert (stored_id source) (fst ` set (rt_sources t2)))"
  proof (rule inj_onI)
    have v: "\<exists>v. v \<le> U64_MAX \<and> k = stored_id v" if "k \<in> insert (stored_id source) (fst ` set (rt_sources t2))" for k
      using that assms(3) ok by (force simp: source_row_ok_def identifier_ok_def)
    fix x y assume x: "x \<in> insert (stored_id source) (fst ` set (rt_sources t2))"
      and y: "y \<in> insert (stored_id source) (fst ` set (rt_sources t2))" and e: "loaded_id x = loaded_id y"
    obtain v w where "v \<le> U64_MAX" "x = stored_id v" "w \<le> U64_MAX" "y = stored_id w" using v [OF x] v [OF y] by blast
    then show "x = y" using e by simp
  qed
  let ?r = "source_reference_sensitive (so_allow_http row \<noteq> 0)"
  have "load_source (stored_id source, row) = Inr (loaded_id (stored_id source), ?r)"
    using load_source_ok [OF ok [OF map_of_SomeD [OF row2]] assms(3)] row(2) assms(3) by (simp add: identifier_ok_def)
  from map_of_collect [OF out [unfolded stored_sources_def] named inj row2 this]
  have "map_of out source = Some ?r" using assms(3) by (simp add: identifier_ok_def)
  then show ?thesis using row2 url out by (auto simp: source_reference_sensitive_def)
qed

theorem sensitive_link_stays_off_disk_witness:
  "\<exists>t1 t2. record_reference 7 (source_reference_sensitive False) 9 ''f'' True no_tables = Inr t1 \<and>
     record_reference 7 \<lparr>sf_url = Some ''u'', sf_allow_http = True, sf_sensitive = False\<rparr> 9 ''f'' True t1 = Inr t2 \<and>
     (\<exists>row. map_of (rt_sources t2) 7 = Some row \<and> so_url row = None)"
proof -
  have p: "str_ok ''f''" by (simp add: str_ok_def utf8_next_def Let_def)
  obtain t1 t2 where t: "record_reference 7 (source_reference_sensitive False) 9 ''f'' True no_tables = Inr t1"
    "record_reference 7 \<lparr>sf_url = Some ''u'', sf_allow_http = True, sf_sensitive = False\<rparr> 9 ''f'' True t1 = Inr t2"
    using p by (simp add: record_reference_def)
  have i: "identifier_ok 7" "identifier_ok 9" by (simp_all add: identifier_ok_def width_simps)
  have "source_reference_new ''u'' True = Inr \<lparr>sf_url = Some ''u'', sf_allow_http = True, sf_sensitive = False\<rparr>"
    by (simp add: source_reference_new_def)
  then have "recording t1 t2" using t(2) i by (intro rec_record [OF t(2)]) (auto simp: reference_ok_def)
  then have "recording\<^sup>*\<^sup>* t1 t2" by (rule r_into_rtranclp)
  from sensitive_link_stays_off_disk [OF rtranclp.rtrancl_refl t(1) i this] t
  show ?thesis by (auto simp: stored_id_def)
qed

section \<open>Repeated and competing requests\<close>

lemma bound_source_refused:
  assumes "source_reference_of sha (ar_url request) (ar_allow_http request \<and> ec_allow_http (sv_config s)) \<in> bound s"
  shows "\<exists>e. add_begin sha ul canonical request s = (s, CallDone (Inl e))"
proof (cases "ticket_of sha canonical request s")
  case (Inl e)
  then show ?thesis by (simp add: add_begin_def)
next
  case (Inr x)
  obtain expected path allow_http source destination where x: "x = (expected, path, allow_http, source, destination)"
    by (metis prod_cases5)
  have "source = source_reference_of sha (ar_url request) allow_http" "allow_http = (ar_allow_http request \<and> ec_allow_http (sv_config s))"
    using Inr x by (auto simp: ticket_of_def Let_def map_err_eq_Inr identifier_new_def res_simps split: if_splits)
  then have "rg_bindings (sv_transport s) source \<noteq> None" using assms by (auto simp: bound_def)
  then show ?thesis
    using Inr x by (auto simp: add_begin_def service_bind_def http_bind_def split: sum.splits)
qed

text \<open>
  A source stays bound for the life of the engine, so the same request sent again is refused instead
  of being answered with its job.
\<close>

lemma repeated_request_is_refused:
  "snd (add_begin sample_hash sample_links Some sample_add sample_finished) = CallDone (Inl (DBinding AlreadyBound))"
proof -
  have t: "ticket_of sample_hash Some sample_add sample_finished =
      Inr (None, [''d'', ''g''], False, 144680345676153346, 144680345676153346)"
    by (rule sample_ticket_at) (simp_all add: sample_finished_def sample_recorded_def sample_stored_def sample_bound_def sample_service_def claimed_by_other_def)
  have b: "rg_bindings (sv_transport sample_finished) 144680345676153346 \<noteq> None"
    by (simp add: sample_finished_def sample_recorded_def sample_stored_def sample_bound_def)
  show ?thesis
    unfolding add_begin_def t sum.case prod.case
    using b sample_bind_v by (auto simp: service_bind_def http_bind_def sample_add_def)
qed

text \<open>
  The claim on a name is checked when a call begins and entered only after its request was recorded,
  so two calls in progress for one file, spelled differently, both pass.
\<close>

definition length_hash :: "byte list \<Rightarrow> digest" where
  "length_hash v = le_bytes 8 (length v) @ replicate 24 (CHR 0x01)"

definition sample_rival :: add_request where
  "sample_rival = sample_add\<lparr>ar_url := ''vv'', ar_destination := ''/d/./g''\<rparr>"

lemma competing_claims_both_begin:
  "\<exists>s1 s2 t u. add_begin length_hash sample_links Some sample_add sample_service = (s1, CallAdmit t AddAuthorize) \<and>
     add_begin length_hash sample_links Some sample_rival s1 = (s2, CallAdmit u AddAuthorize) \<and>
     tk_path t = tk_path u \<and> js_destination (tk_spec t) \<noteq> js_destination (tk_spec u)"
proof -
  have ref: "reference length_hash l p = max (length (labelled l p)) 1" if "length (labelled l p) < 2 ^ 64" for l p
    using that by (simp add: reference_def daemon_digest_def length_hash_def)
  have refs: "source_reference_of length_hash ''v'' False = 32" "source_reference_of length_hash ''vv'' False = 33"
    "destination_reference_of length_hash ''/d/g'' = 31" "destination_reference_of length_hash ''/d/./g'' = 33"
    by (simp_all add: source_reference_of_def destination_reference_of_def ref labelled_def SOURCE_LABEL_def DESTINATION_LABEL_def)
  have t: "ticket_of length_hash Some sample_add sample_service = Inr (None, [''d'', ''g''], False, 32, 31)"
    by (simp add: ticket_of_def sample_add_def sample_service_def sample_destination refs identifier_new_def claimed_by_other_def)
  obtain s1 tk where 1: "add_begin length_hash sample_links Some sample_add sample_service = (s1, CallAdmit tk AddAuthorize)"
    "tk_path tk = [''d'', ''g'']" "js_destination (tk_spec tk) = 31" and s1: "sv_state s1 = [''s'']" "sv_root s1 = Some [''d'']"
    "sv_destinations s1 = [(1, [''d'', ''f''])]" "sv_config s1 = sample_engine_config" "rg_bindings (sv_transport s1) 33 = None"
    unfolding add_begin_def t sum.case prod.case
    by (simp add: service_bind_def sample_add_def sample_bind_v http_bind_def sample_service_def Let_def job_spec_new_def
        width_simps sample_engine_config_def)
  have u: "ticket_of length_hash Some sample_rival s1 = Inr (None, [''d'', ''g''], False, 33, 33)"
    by (simp add: ticket_of_def sample_rival_def sample_add_def s1 sample_destination refs identifier_new_def claimed_by_other_def)
  obtain s2 uk where 2: "add_begin length_hash sample_links Some sample_rival s1 = (s2, CallAdmit uk AddAuthorize)"
    "tk_path uk = [''d'', ''g'']" "js_destination (tk_spec uk) = 33"
    unfolding add_begin_def u sum.case prod.case
    by (simp add: service_bind_def sample_rival_def sample_add_def sample_bind_v http_bind_def s1 Let_def job_spec_new_def
        width_simps sample_engine_config_def)
  show ?thesis using 1 2 by (intro exI [of _ s1] exI [of _ s2] exI [of _ tk] exI [of _ uk]) simp
qed

end
