(* ===== verification/Oneshot_Props.thy ===== *)
theory Oneshot_Props
  imports Oneshot Daemon_Props
begin

text \<open>What one run of the engine promises: every request is answered once, in the order it was made.\<close>

section \<open>Gathering\<close>

definition gathered_ok :: "'u gathered \<Rightarrow> bool" where
  "gathered_ok g \<longleftrightarrow> distinct (map (\<lambda>q. js_source (ad_spec q)) (ga_admitted g)) \<and>
     (\<forall>q \<in> set (ga_admitted g). key_ok (ad_key q) \<and> spec_fits (ad_spec q) \<and> rg_bindings (ga_transport g) (js_source (ad_spec q)) \<noteq> None)"

definition demand_ok :: "engine_demand \<Rightarrow> bool" where
  "demand_ok q \<longleftrightarrow> digest_ok (em_expected_sha256 q)"

lemma gather_request_ok:
  assumes "gather_request sha ul c q g = Inr g'" "gathered_ok g" "demand_ok q" "\<And>x. length (sha x) = 32"
  shows "gathered_ok g' \<and> length (ga_admitted g') = Suc (length (ga_admitted g))"
proof -
  obtain source destination b spec where id: "identifier_new (source_reference_of sha (em_url q) (ec_allow_http c)) = Inr source"
    "identifier_new (destination_reference_of sha (em_destination q)) = Inr destination"
    and bind: "snd (http_bind (ga_transport g) source b) = Inr ()"
    and spec: "job_spec_new source destination (em_expected_sha256 q) Normal (ec_max_bytes c) = Inr spec"
    and g': "ga_transport g' = fst (http_bind (ga_transport g) source b)" "ga_admitted g' = ga_admitted g @
       [\<lparr>ad_key = request_key sha (em_url q) (em_destination q) (ec_max_bytes c) (ec_allow_http c), ad_spec = spec\<rparr>]"
    using assms(1) by (auto simp: gather_request_def Let_def res_simps map_err_eq_Inr split: if_splits)
  have new: "rg_bindings (ga_transport g) source = None" "rg_bindings (ga_transport g') = (rg_bindings (ga_transport g))(source \<mapsto> b)"
    using bind unfolding g' by (auto simp: http_bind_def split: if_splits)
  have range: "identifier_ok source" "identifier_ok destination"
    using id reference_range
    by (auto simp: identifier_new_def identifier_ok_def source_reference_of_def destination_reference_of_def split: if_splits)
  have s: "spec_fits spec" "js_source spec = source"
    using range spec job_spec_new_ok [OF spec] assms(3)
    by (auto simp: spec_fits_def job_spec_new_def demand_ok_def split: if_splits)
  have k: "key_ok (request_key sha u d n h)" for u d n h
    using assms(4) by (simp add: key_ok_def request_key_def daemon_digest_def identifier_ok_def)
  show ?thesis
    using assms(2) new s k unfolding gathered_ok_def g'(2) by auto
qed

lemma gather_requests_ok:
  assumes "gather_requests sha ul c qs g = Inr g'" "gathered_ok g" "\<forall>q \<in> set qs. demand_ok q" "\<And>x. length (sha x) = 32"
  shows "gathered_ok g' \<and> length (ga_admitted g') = length (ga_admitted g) + length qs"
  using assms(1-3)
proof (induction qs arbitrary: g)
  case (Cons q qs)
  obtain g1 where g1: "gather_request sha ul c q g = Inr g1" "gather_requests sha ul c qs g1 = Inr g'"
    using Cons.prems(1) by (auto simp: res_simps)
  have "gathered_ok g1 \<and> length (ga_admitted g1) = Suc (length (ga_admitted g))"
    using gather_request_ok [OF g1(1) Cons.prems(2)] Cons.prems(3) assms(4) by simp
  then show ?case using Cons.IH [OF g1(2)] Cons.prems(3) by simp
qed simp

section \<open>Admitting\<close>

lemma add_advance_iterate:
  assumes "(add_advance sqlite_jobs a e k spec io acked ^^ n) (d, ph) = (d', ph')" "admission_inv d" "key_ok k" "spec_fits spec"
    and "\<forall>i. ph = AddCommit i \<longrightarrow> identifier_ok i" "\<forall>i. ph = AddDone (Inr i) \<longrightarrow> admission_view d k = Some (spec, i)"
  shows "admission_inv d' \<and> (\<forall>i s. issued d i s \<longrightarrow> issued d' i s) \<and> (\<forall>i. ph' = AddCommit i \<longrightarrow> identifier_ok i) \<and>
    (\<forall>i. ph' = AddDone (Inr i) \<longrightarrow> admission_view d' k = Some (spec, i))"
  using assms(1)
proof (induction n arbitrary: d' ph')
  case 0
  then show ?case using assms(2,5,6) by simp
next
  case (Suc n)
  obtain d1 ph1 where 1: "(add_advance sqlite_jobs a e k spec io acked ^^ n) (d, ph) = (d1, ph1)" by fastforce
  then have step: "add_advance sqlite_jobs a e k spec io acked (d1, ph1) = (d', ph')" using Suc.prems by simp
  note h = Suc.IH [OF 1]
  have p: "identifier_ok i" if "ph1 = AddCommit i" for i using h that by blast
  have "admission_inv d' \<and> (\<forall>i. ph' = AddCommit i \<longrightarrow> identifier_ok i) \<and> (\<forall>i. ph' = AddDone (Inr i) \<longrightarrow> admission_view d' k = Some (spec, i))"
    using sqlite.advance_ok [OF _ assms(3,4) _ _ step] h by blast
  moreover have "issued d' i s" if "issued d1 i s" for i s
    using sqlite_advance_steps [OF step assms(4) p] that issued_grows by blast
  ultimately show ?case using h by blast
qed

lemma add_execute_issues:
  assumes "add_execute sqlite_jobs a e k spec io acked d = (d', r)" "admission_inv d" "key_ok k" "spec_fits spec"
  shows "admission_inv d' \<and> (\<forall>i s. issued d i s \<longrightarrow> issued d' i s) \<and> (\<forall>i. r = AddDone (Inr i) \<longrightarrow> issued d' i spec)"
  using add_advance_iterate [OF assms(1) [unfolded add_execute_def] assms(2-4)] view_issued by auto

lemma admit_all_issues:
  assumes "admit_all ios qs d = (d', r)" "admission_inv d" "\<forall>q \<in> set qs. key_ok (ad_key q) \<and> spec_fits (ad_spec q)"
  shows "admission_inv d' \<and> (\<forall>i s. issued d i s \<longrightarrow> issued d' i s) \<and>
    (\<forall>ids. r = Inr ids \<longrightarrow> length ids = length qs \<and> (\<forall>n < length qs. issued d' (ids ! n) (ad_spec (qs ! n))))"
  using assms
proof (induction ios qs d arbitrary: d' r rule: admit_all.induct)
  case (2 ios q qs d)
  obtain io acked where io: "hd (ios @ [(True, True)]) = (io, acked)" by fastforce
  obtain d1 ph where run: "add_execute sqlite_jobs local_operator local_operator (ad_key q) (ad_spec q) io acked d = (d1, ph)" by fastforce
  have one: "admission_inv d1" "\<forall>i s. issued d i s \<longrightarrow> issued d1 i s" "\<forall>i. ph = AddDone (Inr i) \<longrightarrow> issued d1 i (ad_spec q)"
    using add_execute_issues [OF run "2.prems"(2)] "2.prems"(3) by simp_all
  show ?case
  proof (cases "\<exists>i. ph = AddDone (Inr i)")
    case False
    then show ?thesis using "2.prems"(1) io run one by (auto split: add_phase.splits sum.splits)
  next
    case True
    then obtain i where i: "ph = AddDone (Inr i)" by blast
    obtain r1 where rest: "admit_all (tl ios) qs d1 = (d', r1)" "r = res_bind r1 (\<lambda>more. Inr (i # more))"
      using "2.prems"(1) io run i by (auto split: prod.splits)
    have h: "admission_inv d' \<and> (\<forall>i s. issued d1 i s \<longrightarrow> issued d' i s) \<and>
      (\<forall>ids. r1 = Inr ids \<longrightarrow> length ids = length qs \<and> (\<forall>n < length qs. issued d' (ids ! n) (ad_spec (qs ! n))))"
      using "2.IH" [OF io [symmetric] refl run [symmetric] i refl rest(1) one(1)] "2.prems"(3) by simp
    show ?thesis
    proof (intro conjI allI impI)
      fix ids assume "r = Inr ids"
      then obtain more where m: "r1 = Inr more" "ids = i # more" using rest(2) by (auto simp: res_simps)
      show "length ids = length (q # qs)" using h m by simp
      fix n assume "n < length (q # qs)"
      then show "issued d' (ids ! n) (ad_spec ((q # qs) ! n))" using h m one(3) i by (cases n) auto
    qed (use h one in blast)+
  qed
qed simp

section \<open>Preparing\<close>

lemma prepare_job_frame:
  assumes "prepare_job aim j0 s = (s', Inr r)"
  shows "\<exists>c. s' = s\<lparr>sd_coordinator := c\<rparr> \<and> (\<forall>j. r = Inr j \<longrightarrow> j_id j = j_id j0)"
proof -
  obtain s1 r1 where rec: "coordinate recover j0 s = (s1, r1)" by fastforce
  obtain j where j: "r1 = Inr j" using assms rec by (cases r1) (auto simp: prepare_job_def)
  obtain c where c: "s1 = s\<lparr>sd_coordinator := c\<rparr>" "j_id j = j_id j0"
    using coordinate_frame [OF keeps_id_recover rec] j by metis
  show ?thesis
  proof (cases "s' = s1 \<and> (\<forall>k. r = Inr k \<longrightarrow> k = j)")
    case True
    then show ?thesis using c by auto
  next
    case False
    then obtain cmd j1 where run: "coordinate (session_step cmd) j s1 = (s', Inr j1)" "r = Inr j1"
      using assms rec j by (auto simp: prepare_job_def Let_def split: if_splits Intent.splits prod.splits sum.splits)
    obtain c1 where "s' = s1\<lparr>sd_coordinator := c1\<rparr>" "j_id j1 = j_id j"
      using coordinate_frame [OF keeps_id_step run(1)] by metis
    then show ?thesis using c run(2) by auto
  qed
qed

lemma engine_load_id: "engine_load io i s = Inr j \<Longrightarrow> j_id j = i"
  by (auto simp: engine_load_def ok_or_eq_Inr res_simps find_Some_iff split: if_splits)

lemma prepare_all_parts:
  assumes "prepare_all aim ios pairs s = (s', Inr (runnable, outcomes))"
  shows "\<exists>c xs ys. s' = s\<lparr>sd_coordinator := c\<rparr> \<and> map j_id runnable = map fst xs \<and> map fst outcomes = map snd ys \<and>
    mset pairs = mset xs + mset ys"
  using assms
proof (induction aim ios pairs s arbitrary: s' runnable outcomes rule: prepare_all.induct)
  case (1 aim ios s)
  then show ?case by (intro exI [of _ "sd_coordinator s"] exI [of _ "[]"]) simp
next
  case (2 aim ios i index rest s)
  obtain j s1 r where load: "engine_load (hd (ios @ [True])) i s = Inr j" and p: "prepare_job aim j s = (s1, Inr r)"
    using "2.prems" by (auto split: sum.splits prod.splits)
  obtain s2 runnable1 outcomes1 where more: "prepare_all aim (tl ios) rest s1 = (s2, Inr (runnable1, outcomes1))"
    "s' = s2" "(runnable, outcomes) = (case r of Inr j1 \<Rightarrow> (j1 # runnable1, outcomes1) | Inl x \<Rightarrow> (runnable1, (index, x) # outcomes1))"
    using "2.prems" load p by (auto split: sum.splits prod.splits)
  obtain c0 where c0: "s1 = s\<lparr>sd_coordinator := c0\<rparr>" "\<forall>k. r = Inr k \<longrightarrow> j_id k = j_id j" using prepare_job_frame [OF p] by blast
  obtain c xs ys where h: "s2 = s1\<lparr>sd_coordinator := c\<rparr>" "map j_id runnable1 = map fst xs" "map fst outcomes1 = map snd ys"
    "mset rest = mset xs + mset ys"
    using "2.IH" [OF load p [symmetric] refl more(1)] by blast
  have s': "s' = s\<lparr>sd_coordinator := c\<rparr>" using more(2) h(1) c0(1) by simp
  show ?case
  proof (cases r)
    case (Inl x)
    then show ?thesis
      using more(3) h s' by (intro exI [of _ c] exI [of _ xs] exI [of _ "(i, index) # ys"]) simp
  next
    case (Inr k)
    then have "j_id k = i" using c0(2) engine_load_id [OF load] by simp
    then show ?thesis
      using Inr more(3) h s' by (intro exI [of _ c] exI [of _ "(i, index) # xs"] exI [of _ ys]) simp
  qed
qed

section \<open>Running\<close>

lemma no_admits_no_newcomers: "admits (received script) = [] \<Longrightarrow> admitted script s = []"
proof (induction script arbitrary: s)
  case (Cons x rest)
  obtain w a where x: "x = (w, a)" by fastforce
  have "admits (received rest) = []" "newcomers a t = []" for t
    using Cons.prems newcomers_received [of a t] by (simp_all add: x received_Cons)
  then show ?case using Cons.IH by (simp add: x split: prod.splits round.splits)
qed simp

lemma run_returns_all:
  assumes "task_ok s0" "ledger s0" "live_ids s0 = {#}" "job_ids s0 = {#}" "outcomes_ok s0"
    and "along own_job script (intake w [] jobs s0)" "scheduler_run w jobs script s0 = (s, Some outs)"
  shows "mset (map oc_id outs) = mset (map j_id jobs) + mset (admitted script (intake w [] jobs s0)) \<and>
    sorted (map oc_id outs) \<and> (\<forall>x \<in> set outs. \<forall>j. oc_job x = Some j \<longrightarrow> j_id j = oc_id x)"
proof -
  have start: "arrives_well (map j_id jobs) True s0 (intake w [] jobs s0)" using assms(1-3) by (intro intake_ok) simp_all
  then have "task_ok (intake w [] jobs s0)" by (simp add: arrives_well_def)
  from run_ok [OF this assms(6)] assms(7)
  have run: "arrives_well (admitted script (intake w [] jobs s0)) (along fresh_admit script (intake w [] jobs s0)) (intake w [] jobs s0) s"
    "sd_sessions s = []" "outs = sched_outcomes s" by (auto simp: scheduler_run_def)
  let ?xs = "qu_done (sd_queue s) @ map (\<lambda>e. outcome_settled (en_job e)) (queue_drain (sd_queue s))"
  have "mset (map oc_id outs) = mset (map oc_id (fill_results (sd_last s) ?xs))" by (simp add: run(3) sched_outcomes_def)
  also have "\<dots> = mset (map oc_id ?xs)" by (simp only: fill_results_ids)
  also have "\<dots> = job_ids s" using run(2) by (simp add: job_ids_def live_ids_def queue_drain_def outcome_settled_def o_def)
  finally have ids: "mset (map oc_id outs) = job_ids s" .
  have "outcomes_ok s" using start run(1) assms(5) by (simp add: arrives_well_def)
  then have "\<forall>x \<in> set ?xs. \<forall>j. oc_job x = Some j \<longrightarrow> j_id j = oc_id x" by (auto simp: outcomes_ok_def outcome_settled_def)
  then have "\<forall>x \<in> set (fill_results (sd_last s) ?xs). \<forall>j. oc_job x = Some j \<longrightarrow> j_id j = oc_id x"
    by (rule fill_results_named)
  then show ?thesis using ids start run(1,3) assms(4) by (simp add: arrives_well_def sched_outcomes_def)
qed

lemma coordinator_frame:
  "task_ok (s\<lparr>sd_coordinator := c\<rparr>) = task_ok s" "ledger (s\<lparr>sd_coordinator := c\<rparr>) = ledger s"
  "live_ids (s\<lparr>sd_coordinator := c\<rparr>) = live_ids s" "job_ids (s\<lparr>sd_coordinator := c\<rparr>) = job_ids s"
  "outcomes_ok (s\<lparr>sd_coordinator := c\<rparr>) = outcomes_ok s"
  by (simp_all add: task_ok_def ledger_def live_ids_def job_ids_def outcomes_ok_def grants_def)

text \<open>The state and the jobs the scheduler is given, once every request was admitted and prepared.\<close>

definition engine_ready :: "(bool \<times> bool) list \<Rightarrow> bool list \<Rightarrow> 'u engine \<Rightarrow> (scheduler \<times> job list) option" where
  "engine_ready adds loads e =
     (let s = eg_scheduler e in
      case admit_all adds (eg_requests e) (ss_repo (sd_coordinator s)) of
        (d, Inl err) \<Rightarrow> None
      | (d, Inr ids) \<Rightarrow>
          (case prepare_all (eg_intent e) loads (zip ids [0..<length ids]) (s\<lparr>sd_coordinator := (sd_coordinator s)\<lparr>ss_repo := d\<rparr>\<rparr>) of
             (s1, Inl err) \<Rightarrow> None
           | (s1, Inr (runnable, outcomes)) \<Rightarrow> Some (s1, runnable)))"

lemma sorted_indices:
  assumes "mset (map fst xs) = mset [0..<n]"
  shows "map fst (sort_key fst xs) = [0..<n]"
proof -
  have "sorted (map fst (sort_key fst xs))" by simp
  moreover have "mset (map fst (sort_key fst xs)) = mset [0..<n]" using assms by (metis mset_map mset_sort)
  moreover have "sorted [0..<n]" by simp
  ultimately show ?thesis by (metis properties_for_sort)
qed

lemma scheduler_new_coordinator: "scheduler_new c g k = Inr s \<Longrightarrow> sd_coordinator s = c"
  by (auto simp: scheduler_new_def split: if_splits)

lemma coordinator_new_repo: "coordinator_new blank pool k d g = Inr c \<Longrightarrow> ss_repo c = d"
  by (auto simp: coordinator_new_def split: if_splits)

lemma open_many_parts:
  assumes "open_many sha ul w ios c qs = Inr e" "ow_repository w = Inr (d, tables)" "\<forall>q \<in> set qs. demand_ok q" "\<And>x. length (sha x) = 32"
  shows "ss_repo (sd_coordinator (eg_scheduler e)) = d \<and> length (eg_requests e) = length qs \<and>
    distinct (map (\<lambda>q. js_source (ad_spec q)) (eg_requests e)) \<and>
    (\<forall>q \<in> set (eg_requests e). key_ok (ad_key q) \<and> spec_fits (ad_spec q)) \<and>
    task_ok (eg_scheduler e) \<and> ledger (eg_scheduler e) \<and> live_ids (eg_scheduler e) = {#} \<and> job_ids (eg_scheduler e) = {#} \<and>
    outcomes_ok (eg_scheduler e)"
proof -
  let ?g0 = "\<lparr>ga_transport = registry_default, ga_destinations = [], ga_references = [], ga_admitted = []\<rparr>"
  obtain g where g: "gather_requests sha ul c qs ?g0 = Inr g" "eg_requests e = ga_admitted g"
    and wire: "wire_oneshot w c d = Inr (eg_scheduler e)"
    using assms(1,2) by (auto simp: open_many_def res_simps split: if_splits)
  have g0: "gathered_ok ?g0" by (simp add: gathered_ok_def)
  note ok = gather_requests_ok [OF g(1) g0 assms(3,4)]
  obtain pool governor config coordinator where n: "governor_new (engine_limits c) = Inr governor"
    "coordinator_new (ow_session w) pool config d governor = Inr coordinator"
    "scheduler_new coordinator governor (scheduler_config_of False c) = Inr (eg_scheduler e)"
    using wire by (auto simp: wire_oneshot_def res_simps map_err_eq_Inr)
  have "sd_coordinator (eg_scheduler e) = coordinator" "ss_repo coordinator = d"
    using scheduler_new_coordinator [OF n(3)] coordinator_new_repo [OF n(2)] by simp_all
  then show ?thesis
    using ok new_ok [OF n(3,1)] by (simp add: gathered_ok_def g(2))
qed

lemma run_answers_each:
  assumes "open_many sha ul ow ios c qs = Inr e" "ow_repository ow = Inr (d, tables)" "repo_step\<^sup>*\<^sup>* (db_empty a b) d"
    and "\<forall>q \<in> set qs. demand_ok q" "\<And>x. length (sha x) = 32" "engine_ready adds loads e = Some (s1, runnable)"
    and "admits (received script) = []" "along own_job script (intake w [] runnable s1)"
  shows "run_all adds loads w script e = None \<or>
    (\<exists>outs. run_all adds loads w script e = Some (Inr outs) \<and> map fst outs = [0..<length qs])"
proof -
  let ?s = "eg_scheduler e"
  note parts = open_many_parts [OF assms(1,2,4,5)]
  have inv: "admission_inv d" using assms(3) admission_inv_empty by (rule repo_steps_admission)
  obtain d1 ids where adm: "admit_all adds (eg_requests e) (ss_repo (sd_coordinator ?s)) = (d1, Inr ids)"
    using assms(6) by (auto simp: engine_ready_def Let_def split: prod.splits sum.splits)
  let ?pairs = "zip ids [0..<length ids]" and ?s0 = "?s\<lparr>sd_coordinator := (sd_coordinator ?s)\<lparr>ss_repo := d1\<rparr>\<rparr>"
  obtain outcomes where prep: "prepare_all (eg_intent e) loads ?pairs ?s0 = (s1, Inr (runnable, outcomes))"
    using assms(6) adm by (auto simp: engine_ready_def Let_def split: prod.splits sum.splits)
  have "admission_inv d1 \<and> length ids = length qs \<and> (\<forall>n < length qs. issued d1 (ids ! n) (ad_spec (eg_requests e ! n)))"
    using admit_all_issues [OF adm] parts inv by simp
  then have ids: "admission_inv d1" "length ids = length qs" "\<And>n. n < length qs \<Longrightarrow> issued d1 (ids ! n) (ad_spec (eg_requests e ! n))"
    by simp_all
  have dis: "distinct ids"
  proof (rule distinct_conv_nth [THEN iffD2], intro allI impI)
    fix m n assume mn: "m < length ids" "n < length ids" "m \<noteq> n"
    have "js_source (ad_spec (eg_requests e ! m)) \<noteq> js_source (ad_spec (eg_requests e ! n))"
      using parts mn ids(2) by (simp add: distinct_conv_nth)
    then show "ids ! m \<noteq> ids ! n" using issued_unique [OF ids(1) ids(3) [of m]] ids(3) [of n] mn ids(2) by metis
  qed
  have keys: "map fst ?pairs = ids" "map snd ?pairs = [0..<length qs]" by (simp_all add: ids(2))
  obtain co xs ys where p: "s1 = ?s0\<lparr>sd_coordinator := co\<rparr>" "map j_id runnable = map fst xs" "map fst outcomes = map snd ys"
    "mset ?pairs = mset xs + mset ys"
    using prepare_all_parts [OF prep] by blast
  have mem: "set xs \<subseteq> set ?pairs" using p(4) by (metis mset_subset_eq_add_left set_mset_mono set_mset_mset)
  have s1: "task_ok s1" "ledger s1" "live_ids s1 = {#}" "job_ids s1 = {#}" "outcomes_ok s1"
    using parts by (simp_all add: p(1) coordinator_frame)
  define index where "index = (\<lambda>i. the (map_of ?pairs i))"
  have at: "map_of (rev ?pairs) i = Some n" "index i = n" if "(i, n) \<in> set ?pairs" for i n
  proof -
    have "distinct (map fst ?pairs)" "distinct (map fst (rev ?pairs))" using dis keys(1) by (simp_all add: rev_map [symmetric])
    then show "map_of (rev ?pairs) i = Some n" "index i = n" using that by (auto simp: index_def map_of_is_SomeI)
  qed
  show ?thesis
  proof (cases "scheduler_run w runnable script s1")
    case (Pair s2 r)
    show ?thesis
    proof (cases r)
      case None
      then show ?thesis using adm prep Pair by (simp add: run_all_def drive_def Let_def)
    next
      case (Some outs)
      have ret: "mset (map oc_id outs) = mset (map fst xs)"
        using run_returns_all [OF s1 assms(8)] Pair Some no_admits_no_newcomers [OF assms(7)] by (simp add: p(2))
      have own: "(oc_id x, index (oc_id x)) \<in> set ?pairs" if x: "x \<in> set outs" for x
      proof -
        have "oc_id x \<in> set (map fst xs)" using ret x by (metis imageI list.set_map set_mset_mset)
        then obtain n where n: "(oc_id x, n) \<in> set ?pairs" using mem by auto
        then show ?thesis using at(2) [OF n] by simp
      qed
      let ?ran = "map (\<lambda>x. (index (oc_id x), request_outcome_of x)) outs"
      have ran: "collect_res (map (\<lambda>x. res_bind (ok_or (map_of (rev ?pairs) (oc_id x)) DInvalidInput)
          (\<lambda>n. Inr (n, request_outcome_of x))) outs) = Inr ?ran"
      proof (rule collect_res_map_Inr)
        fix x assume "x \<in> set outs"
        then have "map_of (rev ?pairs) (oc_id x) = Some (index (oc_id x))" using at(1) own by blast
        then show "res_bind (ok_or (map_of (rev ?pairs) (oc_id x)) DInvalidInput) (\<lambda>n. Inr (n, request_outcome_of x)) =
            Inr (index (oc_id x), request_outcome_of x)" by simp
      qed
      have "mset (map fst ?ran) = image_mset index (mset (map oc_id outs))" by (simp add: o_def image_mset.compositionality)
      also have "\<dots> = image_mset index (mset (map fst xs))" by (simp only: ret)
      also have "\<dots> = mset (map (\<lambda>p. index (fst p)) xs)" by (simp add: image_mset.compositionality o_def)
      also have "map (\<lambda>p. index (fst p)) xs = map snd xs" using mem at(2) by (intro map_cong) auto
      finally have "mset (map fst (outcomes @ ?ran)) = mset (map snd ys) + mset (map snd xs)" by (simp add: p(3))
      also have "\<dots> = image_mset snd (mset ?pairs)" unfolding p(4) by simp
      also have "\<dots> = mset [0..<length qs]" using keys(2) by (metis mset_map)
      finally have "map fst (sort_key fst (outcomes @ ?ran)) = [0..<length qs]" by (rule sorted_indices)
      then show ?thesis
        using adm prep Pair Some ran by (simp add: run_all_def drive_def Let_def)
    qed
  qed
qed


section \<open>A sample run\<close>

definition sample_demand :: "byte list \<Rightarrow> byte list \<Rightarrow> engine_demand" where
  "sample_demand url destination = \<lparr>em_url = url, em_destination = destination, em_expected_sha256 = None, em_sensitive = False\<rparr>"

definition sample_demands :: "engine_demand list" where
  "sample_demands = [sample_demand ''v'' ''/d/g'', sample_demand ''vv'' ''/d/gg'']"

definition sample_once_config :: engine_config where
  "sample_once_config = \<lparr>ec_state_directory = ''/s'', ec_destination = ''/d/g'', ec_connections = 4, ec_engine_connections = 8,
     ec_max_active = 4, ec_expected_sha256 = None, ec_max_bytes = 4096, ec_allow_http = False, ec_download_root = None,
     ec_intent = IntentStart\<rparr>"

definition sample_once_spec :: "u64 \<Rightarrow> u64 \<Rightarrow> job_spec" where
  "sample_once_spec s d = \<lparr>js_source = s, js_destination = d, js_expected_sha256 = None, js_priority = Normal, js_max_bytes = 4096\<rparr>"

definition sample_once_key :: "byte list \<Rightarrow> byte list \<Rightarrow> receipt_key" where
  "sample_once_key u d = request_key length_hash u d 4096 False"

definition sample_once_world :: open_world where
  "sample_once_world = sample_open_world\<lparr>ow_repository := Inr (db_empty 4 4, no_tables)\<rparr>"

definition sample_once_scheduler :: "session \<Rightarrow> scheduler" where
  "sample_once_scheduler c =
     \<lparr>sd_config = \<lparr>sc_max_active = 4, sc_connections = 8, sc_per_job = 4, sc_resident = False\<rparr>, sd_coordinator = c,
      sd_governor = \<lparr>gv_limits = origin_limits_default, gv_origins = Map.empty\<rparr>,
      sd_queue = \<lparr>qu_ready = [], qu_waiting = [], qu_done = []\<rparr>, sd_active = [], sd_owners = [],
      sd_sessions = [], sd_next_task = 1, sd_last = [], sd_deferred = [], sd_used = 0, sd_open = True, sd_stopping = False\<rparr>"

lemma length_hash_reference: "length (labelled l p) < 2 ^ 64 \<Longrightarrow> reference length_hash l p = max (length (labelled l p)) 1"
  by (simp add: reference_def daemon_digest_def length_hash_def)

lemma wire_oneshot_same: "wire_engine False w c d = Inr (pool, s) \<Longrightarrow> wire_oneshot w c d = Inr s"
  by (auto simp: wire_engine_def wire_oneshot_def res_simps)

lemma sample_gathered:
  "\<exists>t ds. gather_requests length_hash sample_links sample_once_config sample_demands
     \<lparr>ga_transport = registry_default, ga_destinations = [], ga_references = [], ga_admitted = []\<rparr> =
   Inr \<lparr>ga_transport = t, ga_destinations = ds,
        ga_references = [(32, \<lparr>sf_url = Some ''v'', sf_allow_http = False, sf_sensitive = False\<rparr>, 31, ''/d/g''),
                         (33, \<lparr>sf_url = Some ''vv'', sf_allow_http = False, sf_sensitive = False\<rparr>, 32, ''/d/gg'')],
        ga_admitted = [\<lparr>ad_key = sample_once_key ''v'' ''/d/g'', ad_spec = sample_once_spec 32 31\<rparr>,
                       \<lparr>ad_key = sample_once_key ''vv'' ''/d/gg'', ad_spec = sample_once_spec 33 32\<rparr>]\<rparr>"
proof -
  have refs: "source_reference_of length_hash ''v'' False = 32" "source_reference_of length_hash ''vv'' False = 33"
    "destination_reference_of length_hash ''/d/g'' = 31" "destination_reference_of length_hash ''/d/gg'' = 32"
    by (simp_all add: source_reference_of_def destination_reference_of_def length_hash_reference labelled_def
        SOURCE_LABEL_def DESTINATION_LABEL_def)
  show ?thesis
    by (simp add: sample_demands_def sample_demand_def gather_request_def is_absolute_def sample_once_config_def refs
        identifier_new_def sample_bind_v http_bind_def registry_default_def source_reference_new_def job_spec_new_def
        width_simps sample_once_spec_def sample_once_key_def Let_def)
qed

lemma sample_once_open:
  "\<exists>e c. open_many length_hash sample_links sample_once_world [] sample_once_config sample_demands = Inr e \<and>
     eg_scheduler e = sample_once_scheduler c \<and> ss_repo c = db_empty 4 4 \<and> eg_intent e = IntentStart \<and>
     eg_requests e = [\<lparr>ad_key = sample_once_key ''v'' ''/d/g'', ad_spec = sample_once_spec 32 31\<rparr>,
                      \<lparr>ad_key = sample_once_key ''vv'' ''/d/gg'', ad_spec = sample_once_spec 33 32\<rparr>]"
proof -
  have valid: "engine_config_valid sample_once_config"
    by (simp add: engine_config_valid_def sample_once_config_def is_absolute_def)
  have parts: "own_parts (ow_parts sample_once_world) = Inr ()" by (simp add: own_parts_def sample_once_world_def sample_open_world_def)
  obtain pool g co s where wire: "wire_engine False sample_once_world sample_once_config (db_empty 4 4) = Inr (pool, s)"
    "governor_new (engine_limits sample_once_config) = Inr g"
    "scheduler_new co g (scheduler_config_of False sample_once_config) = Inr s" "ss_repo co = db_empty 4 4"
    using wire_engine_ok [OF valid parts] by blast
  have "engine_limits sample_once_config = origin_limits_default"
    by (simp add: engine_limits_def sample_once_config_def origin_limits_default_def)
  then have s: "s = sample_once_scheduler co"
    using wire(2,3) by (auto simp: governor_new_def scheduler_new_def sample_once_scheduler_def scheduler_config_of_def
        sample_once_config_def split: if_splits)
  have ok: "str_ok ''/d/g''" "str_ok ''/d/gg''" by (simp_all add: str_ok_def utf8_next_def Let_def)
  obtain t where t: "record_all [] [(32, \<lparr>sf_url = Some ''v'', sf_allow_http = False, sf_sensitive = False\<rparr>, 31, ''/d/g''),
                         (33, \<lparr>sf_url = Some ''vv'', sf_allow_http = False, sf_sensitive = False\<rparr>, 32, ''/d/gg'')] no_tables = Inr t"
    using ok by (simp add: reference_record_def record_reference_def)
  obtain tr ds where g: "gather_requests length_hash sample_links sample_once_config sample_demands
     \<lparr>ga_transport = registry_default, ga_destinations = [], ga_references = [], ga_admitted = []\<rparr> =
   Inr \<lparr>ga_transport = tr, ga_destinations = ds,
        ga_references = [(32, \<lparr>sf_url = Some ''v'', sf_allow_http = False, sf_sensitive = False\<rparr>, 31, ''/d/g''),
                         (33, \<lparr>sf_url = Some ''vv'', sf_allow_http = False, sf_sensitive = False\<rparr>, 32, ''/d/gg'')],
        ga_admitted = [\<lparr>ad_key = sample_once_key ''v'' ''/d/g'', ad_spec = sample_once_spec 32 31\<rparr>,
                       \<lparr>ad_key = sample_once_key ''vv'' ''/d/gg'', ad_spec = sample_once_spec 33 32\<rparr>]\<rparr>"
    using sample_gathered by blast
  have dirs: "own_directory (ow_state_facts sample_once_world) = Inr ()" "own_directory (ow_parts_facts sample_once_world) = Inr ()"
    "ow_transport sample_once_world = Inr ()" "ow_repository sample_once_world = Inr (db_empty 4 4, no_tables)"
    by (simp_all add: own_directory_def sample_directory_def sample_once_world_def sample_open_world_def)
  have n: "sample_demands \<noteq> []" "length sample_demands \<le> 256" by (simp_all add: sample_demands_def)
  have i: "ec_intent sample_once_config = IntentStart" by (simp add: sample_once_config_def)
  show ?thesis
    using valid n dirs g wire_oneshot_same [OF wire(1)] t s wire(4) i by (simp add: open_many_def) (rule exI [of _ co], simp)
qed

definition sample_once_db :: db where
  "sample_once_db = admitted_db (admitted_db (db_empty 4 4) (sample_once_key ''v'' ''/d/g'') (sample_once_spec 32 31))
     (sample_once_key ''vv'' ''/d/gg'') (sample_once_spec 33 32)"

lemma sample_once_fits: "spec_fits (sample_once_spec 32 31)" "spec_fits (sample_once_spec 33 32)"
  by (simp_all add: sample_once_spec_def spec_fits_def spec_ok_def identifier_ok_def digest_ok_def width_simps)

lemma sample_once_keys:
  "key_ok (sample_once_key u d)" "key_columns (sample_once_key ''v'' ''/d/g'') \<noteq> key_columns (sample_once_key ''vv'' ''/d/gg'')"
proof -
  show "key_ok (sample_once_key u d)"
    by (simp add: key_ok_def sample_once_key_def request_key_def daemon_digest_def length_hash_def identifier_ok_def)
  have "from_le_bytes (le_bytes 8 61) \<noteq> from_le_bytes (le_bytes 8 63)" by simp
  then have "le_bytes 8 61 \<noteq> le_bytes 8 63" by metis
  then have "length_hash (labelled REQUEST_LABEL [''v'', ''/d/g'', le_bytes 8 4096, [bool_byte False]])
      \<noteq> length_hash (labelled REQUEST_LABEL [''vv'', ''/d/gg'', le_bytes 8 4096, [bool_byte False]])"
    by (simp add: length_hash_def labelled_def REQUEST_LABEL_def)
  then show "key_columns (sample_once_key ''v'' ''/d/g'') \<noteq> key_columns (sample_once_key ''vv'' ''/d/gg'')"
    by (simp add: key_columns_def sample_once_key_def request_key_def daemon_digest_def)
qed

lemma sample_once_admitted:
  "admit_all [] [\<lparr>ad_key = sample_once_key ''v'' ''/d/g'', ad_spec = sample_once_spec 32 31\<rparr>,
                 \<lparr>ad_key = sample_once_key ''vv'' ''/d/gg'', ad_spec = sample_once_spec 33 32\<rparr>] (db_empty 4 4) = (sample_once_db, Inr [1, 2])"
proof -
  let ?k1 = "sample_once_key ''v'' ''/d/g''" and ?k2 = "sample_once_key ''vv'' ''/d/gg''"
  let ?d1 = "admitted_db (db_empty 4 4) ?k1 (sample_once_spec 32 31)"
  have 1: "add_execute sqlite_jobs local_operator local_operator ?k1 (sample_once_spec 32 31) True True (db_empty 4 4) = (?d1, AddDone (Inr 1))"
    using add_execute_outcome [OF admission_inv_empty, of local_operator local_operator ?k1 "sample_once_spec 32 31" 4 4]
    by (simp add: add_outcome_def local_operator_def db_empty_def width_simps admission_full_def)
  have inv: "admission_inv ?d1"
    using add_execute_issues [OF 1 admission_inv_empty sample_once_keys(1) sample_once_fits(1)] by simp
  have "add_execute sqlite_jobs local_operator local_operator ?k2 (sample_once_spec 33 32) True True ?d1 = (sample_once_db, AddDone (Inr 2))"
    using add_execute_outcome [OF inv, of local_operator local_operator ?k2 "sample_once_spec 33 32"] sample_once_keys(2)
    by (simp add: add_outcome_def local_operator_def db_empty_def width_simps admission_full_def admitted_db_def sample_once_db_def Let_def)
  then show ?thesis using 1 by simp
qed

lemma sample_once_load:
  "load_jobs sample_once_db = Inr [job_new 1 (sample_once_spec 32 31), job_new 2 (sample_once_spec 33 32)]"
  using sample_once_fits
  by (simp add: load_jobs_def load_job_def load_record_def sample_once_db_def admitted_db_def db_empty_def job_restore_def job_new_def
      generation_initial_def record_consistent_def loaded_def identifier_new_def Let_def)

lemma sample_prepare:
  assumes "ss_repo c = sample_once_db" "i \<in> {1, 2}"
  shows "\<exists>c'. ss_repo c' = sample_once_db \<and> engine_load True i (sample_once_scheduler c) =
      Inr (if i = 1 then job_new 1 (sample_once_spec 32 31) else job_new 2 (sample_once_spec 33 32)) \<and>
    prepare_job IntentStart (if i = 1 then job_new 1 (sample_once_spec 32 31) else job_new 2 (sample_once_spec 33 32)) (sample_once_scheduler c) =
      (sample_once_scheduler c', Inr (Inr (if i = 1 then job_new 1 (sample_once_spec 32 31) else job_new 2 (sample_once_spec 33 32))))"
proof -
  have r: "coordinate recover (job_new k spec) (sample_once_scheduler c) =
      (sample_once_scheduler (c\<lparr>ss_job := job_new k spec\<rparr>), Inr (job_new k spec))" for k spec
    by (simp add: coordinate_def recover_def op_with_def op_ok_def job_new_def sample_once_scheduler_def)
  have l: "engine_load True i (sample_once_scheduler c) =
      Inr (if i = 1 then job_new 1 (sample_once_spec 32 31) else job_new 2 (sample_once_spec 33 32))"
    using assms sample_once_load by (auto simp: engine_load_def sample_once_scheduler_def job_new_def)
  have p: "prepare_job IntentStart (job_new k spec) (sample_once_scheduler c) =
      (sample_once_scheduler (c\<lparr>ss_job := job_new k spec\<rparr>), Inr (Inr (job_new k spec)))" for k spec
    by (simp add: prepare_job_def r) (simp add: job_new_def)
  have "ss_repo (c\<lparr>ss_job := k\<rparr>) = sample_once_db" for k using assms(1) by simp
  then show ?thesis unfolding l
    by (intro exI [of _ "c\<lparr>ss_job := if i = 1 then job_new 1 (sample_once_spec 32 31) else job_new 2 (sample_once_spec 33 32)\<rparr>"])
       (cases "i = 1"; simp add: p)
qed

lemma sample_once_prepared:
  assumes "eg_scheduler e = sample_once_scheduler c" "ss_repo c = db_empty 4 4" "eg_intent e = IntentStart"
    "eg_requests e = [\<lparr>ad_key = sample_once_key ''v'' ''/d/g'', ad_spec = sample_once_spec 32 31\<rparr>,
                      \<lparr>ad_key = sample_once_key ''vv'' ''/d/gg'', ad_spec = sample_once_spec 33 32\<rparr>]"
  shows "\<exists>c'. admit_all [] (eg_requests e) (ss_repo (sd_coordinator (eg_scheduler e))) = (sample_once_db, Inr [1, 2]) \<and>
     prepare_all (eg_intent e) [] (zip [1, 2] [0..<length [1 :: nat, 2]])
       ((eg_scheduler e)\<lparr>sd_coordinator := (sd_coordinator (eg_scheduler e))\<lparr>ss_repo := sample_once_db\<rparr>\<rparr>) =
     (sample_once_scheduler c', Inr ([job_new 1 (sample_once_spec 32 31), job_new 2 (sample_once_spec 33 32)], []))"
proof -
  let ?c = "c\<lparr>ss_repo := sample_once_db\<rparr>"
  have s0: "(sample_once_scheduler c)\<lparr>sd_coordinator := ?c\<rparr> = sample_once_scheduler ?c" "sd_coordinator (sample_once_scheduler c) = c"
    by (simp_all add: sample_once_scheduler_def)
  obtain c1 where c1: "ss_repo c1 = sample_once_db" "engine_load True 1 (sample_once_scheduler ?c) = Inr (job_new 1 (sample_once_spec 32 31))"
    "prepare_job IntentStart (job_new 1 (sample_once_spec 32 31)) (sample_once_scheduler ?c) =
       (sample_once_scheduler c1, Inr (Inr (job_new 1 (sample_once_spec 32 31))))"
    using sample_prepare [of ?c 1] by auto
  obtain c2 where c2: "engine_load True 2 (sample_once_scheduler c1) = Inr (job_new 2 (sample_once_spec 33 32))"
    "prepare_job IntentStart (job_new 2 (sample_once_spec 33 32)) (sample_once_scheduler c1) =
       (sample_once_scheduler c2, Inr (Inr (job_new 2 (sample_once_spec 33 32))))"
    using sample_prepare [OF c1(1), of 2] by auto
  have z: "zip [1, 2] [0..<length [1 :: nat, 2]] = [(1, 0), (2, Suc 0)]" by (simp add: upt_rec)
  have "prepare_all IntentStart [] [(1, 0), (2, Suc 0)] (sample_once_scheduler ?c) =
     (sample_once_scheduler c2, Inr ([job_new 1 (sample_once_spec 32 31), job_new 2 (sample_once_spec 33 32)], []))"
    by (simp add: c1(2,3) c2 del: One_nat_def)
  then show ?thesis
    unfolding assms(1,3,4) s0(2) assms(2) sample_once_admitted s0(1) z by blast
qed

lemma sample_once_ready:
  assumes "eg_scheduler e = sample_once_scheduler c" "ss_repo c = db_empty 4 4" "eg_intent e = IntentStart"
    "eg_requests e = [\<lparr>ad_key = sample_once_key ''v'' ''/d/g'', ad_spec = sample_once_spec 32 31\<rparr>,
                      \<lparr>ad_key = sample_once_key ''vv'' ''/d/gg'', ad_spec = sample_once_spec 33 32\<rparr>]"
  shows "\<exists>c'. engine_ready [] [] e =
     Some (sample_once_scheduler c', [job_new 1 (sample_once_spec 32 31), job_new 2 (sample_once_spec 33 32)])"
  using sample_once_prepared [OF assms] by (auto simp: engine_ready_def Let_def)


end
