(* ===== verification/Command_Line_Props.thy ===== *)
theory Command_Line_Props
  imports Command_Line Oneshot_Props
begin

text \<open>
  What the command line promises: nothing an operator asks for is dropped, every file lands where
  the operator said, and the exit code says whether everything asked for is done.
\<close>

section \<open>Numbers and digests as text\<close>

lemma digits_fold_decimal: "digits_fold n v = (case decimal_fold n v of Inl _ \<Rightarrow> None | Inr m \<Rightarrow> Some m)"
  by (induction v arbitrary: n) (auto simp: res_bind_def ok_or_def split: option.splits)

lemma parse_number_to_decimal [simp]: "n \<le> U64_MAX \<Longrightarrow> parse_number (to_decimal n) = Some n"
proof -
  assume n: "n \<le> U64_MAX"
  have "\<not> is_ascii_digit (CHR ''+'')" by (simp add: is_ascii_digit_def)
  then have "hd (to_decimal n) \<noteq> CHR ''+''"
    using to_decimal_digits [of "hd (to_decimal n)" n] by (auto dest: hd_in_set)
  then show ?thesis using n by (simp add: parse_number_def digits_fold_decimal decimal_fold_to_decimal)
qed

lemma parse_number_bound: "parse_number v = Some n \<Longrightarrow> n \<le> U64_MAX"
proof -
  have "a \<le> U64_MAX \<Longrightarrow> digits_fold a d = Some n \<Longrightarrow> n \<le> U64_MAX" for a d
    by (induction d arbitrary: a) (auto split: if_splits option.splits bind_splits)
  from this [of 0] show "parse_number v = Some n \<Longrightarrow> n \<le> U64_MAX"
    by (auto simp: parse_number_def Let_def split: if_splits)
qed

lemma hex_digit_ok [simp]: "n < 16 \<Longrightarrow> hex_value (hex_digit n) = Some n" "n < 16 \<Longrightarrow> hex_digit n \<noteq> CHR ''+''"
  "n < 16 \<Longrightarrow> (of_char (hex_digit n) :: nat) < 128"
proof -
  assume "n < 16"
  then have n: "n < 10 \<or> 10 \<le> n \<and> n \<le> 15" by arith
  then have v: "(of_char (hex_digit n) :: nat) = (if n < 10 then 48 + n else 87 + n)" by (auto simp: hex_digit_def)
  then show "hex_value (hex_digit n) = Some n" "(of_char (hex_digit n) :: nat) < 128" using n v by (auto simp: hex_value_def)
  show "hex_digit n \<noteq> CHR ''+''"
  proof
    assume "hex_digit n = CHR ''+''"
    then have "(of_char (hex_digit n) :: nat) = 43" by simp
    then show False using v n by (auto split: if_splits)
  qed
qed

lemma hex_text_length [simp]: "length (hex_text d) = 2 * length d"
  by (induction d) (simp_all add: hex_text_def)

lemma byte_halves: "(of_char (b :: byte) :: nat) div 16 < 16" "(of_char b :: nat) mod 16 < 16"
  by (simp_all add: div_less_iff_less_mult)

lemma decode_hex_text [simp]: "decode_pairs (hex_text d) = Some d"
  by (induction d) (simp_all add: hex_text_def byte_halves)

lemma hex_text_ascii: "list_all (\<lambda>b. (of_char b :: nat) < 128) (hex_text d)"
  by (induction d) (simp_all add: hex_text_def byte_halves)

lemma parse_checksum_hex_text [simp]: "length d = 32 \<Longrightarrow> parse_checksum (hex_text d) = Inr d"
  by (simp add: parse_checksum_def hex_text_ascii ok_or_def)

lemma parse_checksum_length: "parse_checksum hex = Inr d \<Longrightarrow> length d = 32"
  by (auto simp: parse_checksum_def ok_or_eq_Inr dest: decode_pairs_length split: if_splits)

section \<open>The command line that asks for an invocation\<close>

definition flags_of :: "invocation \<Rightarrow> byte list list" where
  "flags_of iv =
     (let c = iv_config iv in
      [''--connections'', to_decimal (ec_connections c), ''--engine-connections'', to_decimal (ec_engine_connections c),
       ''--max-active'', to_decimal (ec_max_active c), ''--max-bytes'', to_decimal (ec_max_bytes c)] @
      (case ec_expected_sha256 c of None \<Rightarrow> [] | Some d \<Rightarrow> [''--sha256'', hex_text d]) @
      (case ec_download_root c of None \<Rightarrow> [] | Some root \<Rightarrow> [''--download-root'', root]) @
      (if ec_allow_http c then [''--allow-http''] else []) @
      (if ec_intent c = IntentResume then [''--resume''] else []) @
      (if iv_sensitive iv then [''--sensitive-link''] else []))"

definition command_line :: "invocation \<Rightarrow> byte list list" where
  "command_line iv =
     [ec_state_directory (iv_config iv),
      if iv_cont iv then ''--continue'' else if iv_serve iv then ''--serve'' else ec_destination (iv_config iv)] @ flags_of iv"

text \<open>\<open>std::path::absolute\<close> gives absolute paths and leaves those it gave alone.\<close>

definition absolute_ok :: "absolute \<Rightarrow> bool" where
  "absolute_ok here \<longleftrightarrow> (\<forall>p q. here p = Some q \<longrightarrow> is_absolute q \<and> here q = Some q)"

text \<open>What every flag leaves true of the settings.\<close>

definition settings_ok :: "absolute \<Rightarrow> engine_config \<Rightarrow> bool" where
  "settings_ok here c \<longleftrightarrow>
     ec_connections c \<le> U64_MAX \<and> ec_engine_connections c \<le> U64_MAX \<and> ec_max_active c \<le> U64_MAX \<and> ec_max_bytes c \<le> U64_MAX \<and>
     digest_ok (ec_expected_sha256 c) \<and> (\<forall>r. ec_download_root c = Some r \<longrightarrow> here r = Some r)"

definition keeps_settings :: "absolute \<Rightarrow> engine_config \<Rightarrow> engine_config \<Rightarrow> bool" where
  "keeps_settings here c c' \<longleftrightarrow>
     (settings_ok here c \<longrightarrow> settings_ok here c') \<and> ec_state_directory c' = ec_state_directory c \<and> ec_destination c' = ec_destination c"

lemma keeps_settings_trans: "keeps_settings here a b \<Longrightarrow> keeps_settings here b c \<Longrightarrow> keeps_settings here a c"
  by (simp add: keeps_settings_def)

lemma keeps_settings_steps:
  "keeps_settings here c c" "keeps_settings here c (c\<lparr>ec_allow_http := b\<rparr>)" "keeps_settings here c (c\<lparr>ec_intent := i\<rparr>)"
  "parse_number v = Some n \<Longrightarrow> keeps_settings here c (c\<lparr>ec_connections := n\<rparr>)"
  "parse_number v = Some n \<Longrightarrow> keeps_settings here c (c\<lparr>ec_engine_connections := n\<rparr>)"
  "parse_number v = Some n \<Longrightarrow> keeps_settings here c (c\<lparr>ec_max_active := n\<rparr>)"
  "parse_number v = Some n \<Longrightarrow> keeps_settings here c (c\<lparr>ec_max_bytes := n\<rparr>)"
  "parse_checksum v = Inr d \<Longrightarrow> keeps_settings here c (c\<lparr>ec_expected_sha256 := Some d\<rparr>)"
  "absolute_ok here \<Longrightarrow> here v = Some r \<Longrightarrow> keeps_settings here c (c\<lparr>ec_download_root := Some r\<rparr>)"
  by (auto simp: keeps_settings_def settings_ok_def digest_ok_def absolute_ok_def dest: parse_number_bound parse_checksum_length)

lemma parse_flags_keeps:
  assumes "absolute_ok here" "parse_flags here args s = Inr s'"
  shows "keeps_settings here (fst s) (fst s')"
  using assms(2,1)
proof (induction here args s rule: parse_flags.induct)
  case step: (2 here a rest c sensitive)
  note ok = step.prems(2) and trans = keeps_settings_trans [of here c]
  have r: "parse_flags here (a # rest) (c, sensitive) = Inr s'" by (rule step.prems(1))
  consider "a \<in> {''--allow-http'', ''--sensitive-link'', ''--resume''}"
    | "a \<notin> {''--allow-http'', ''--sensitive-link'', ''--resume''}" by blast
  then show ?case
  proof cases
    case 1
    then show ?thesis
      using r step(1,2,3) ok trans [OF keeps_settings_steps(1)] trans [OF keeps_settings_steps(2)] trans [OF keeps_settings_steps(3)]
      by auto
  next
    case 2
    then obtain v rest' where rest: "rest = v # rest'" using r by (cases rest) (auto split: if_splits)
    show ?thesis
      using r 2 step.IH ok unfolding rest
      by (auto simp: res_simps split: if_splits intro: trans [OF keeps_settings_steps(4)] trans [OF keeps_settings_steps(5)]
          trans [OF keeps_settings_steps(6)] trans [OF keeps_settings_steps(7)] trans [OF keeps_settings_steps(8)]
          trans [OF keeps_settings_steps(9)])
  qed
qed (simp add: keeps_settings_steps)

lemma parse_flags_of:
  assumes "settings_ok here (iv_config iv)"
  shows "parse_flags here (flags_of iv) (initial_config (ec_state_directory (iv_config iv)) (ec_destination (iv_config iv)), False) =
    Inr (iv_config iv, iv_sensitive iv)"
  using assms
  by (cases "ec_intent (iv_config iv)")
    (auto simp: flags_of_def settings_ok_def digest_ok_def initial_config_def Let_def res_bind_def ok_or_def split: option.splits)

lemma parse_parts:
  assumes "absolute_ok here" "parse here args = Inr iv"
  shows "settings_ok here (iv_config iv) \<and> here (ec_state_directory (iv_config iv)) = Some (ec_state_directory (iv_config iv)) \<and>
    here (ec_destination (iv_config iv)) = Some (ec_destination (iv_config iv)) \<and>
    is_absolute (ec_destination (iv_config iv)) \<and> \<not> (iv_cont iv \<and> iv_serve iv) \<and>
    (iv_cont iv \<or> iv_serve iv \<longrightarrow> ec_destination (iv_config iv) = ec_state_directory (iv_config iv)) \<and>
    (iv_cont iv \<or> iv_serve iv \<longrightarrow> ec_expected_sha256 (iv_config iv) = None \<and> \<not> iv_sensitive iv) \<and>
    (ec_download_root (iv_config iv) \<noteq> None \<longrightarrow> iv_serve iv) \<and> (iv_serve iv \<longrightarrow> ec_intent (iv_config iv) = IntentStart)"
proof -
  obtain state second rest where a: "args = state # second # rest" "second \<noteq> ''--client''"
    using assms(2) by (cases args; cases "tl args") (simp_all add: parse_def split: if_splits)
  define cont serve where "cont = (second = ''--continue'')" and "serve = (second = ''--serve'')"
  obtain s path c sensitive where p: "here state = Some s" "here (if cont \<or> serve then state else second) = Some path"
    "parse_flags here rest (initial_config s path, False) = Inr (c, sensitive)"
    "(if (cont \<or> serve) \<and> ec_expected_sha256 c \<noteq> None then Inl ''--sha256 belongs to a single request''
      else if \<not> serve \<and> ec_download_root c \<noteq> None then Inl ''--download-root belongs to --serve''
      else if (cont \<or> serve) \<and> sensitive then Inl ''--sensitive-link belongs to a single request''
      else if serve \<and> ec_intent c = IntentResume then Inl ''--resume belongs to a run that drives jobs itself''
      else Inr \<lparr>iv_config = c, iv_sensitive = sensitive, iv_cont = cont, iv_serve = serve\<rparr>) = Inr iv"
    using assms(2) a unfolding parse_def Let_def cont_def [symmetric] serve_def [symmetric] a list.case
    by (fastforce simp only: if_False res_bind_eq_Inr ok_or_eq_Inr split: prod.splits)
  then have modes: "iv = \<lparr>iv_config = c, iv_sensitive = sensitive, iv_cont = cont, iv_serve = serve\<rparr>"
    "(cont \<or> serve) \<longrightarrow> ec_expected_sha256 c = None \<and> \<not> sensitive" "ec_download_root c \<noteq> None \<longrightarrow> serve" "serve \<longrightarrow> ec_intent c \<noteq> IntentResume"
    by (auto split: if_splits)
  have one: "\<not> (cont \<and> serve)" by (auto simp: cont_def serve_def)
  have "settings_ok here (initial_config s path)" by (simp add: settings_ok_def initial_config_def digest_ok_def width_simps)
  with parse_flags_keeps [OF assms(1) p(3)]
  have c: "settings_ok here c" "ec_state_directory c = s" "ec_destination c = path"
    by (simp_all add: keeps_settings_def) (simp_all add: initial_config_def)
  have "is_absolute path" "here path = Some path" "here s = Some s" "cont \<or> serve \<longrightarrow> path = s"
    using assms(1) p(1,2) by (auto simp: absolute_ok_def)
  then show ?thesis using c modes one by (cases "ec_intent c") simp_all
qed


definition sample_here :: absolute where
  "sample_here p = (if p = [] then None else if is_absolute p then Some p else Some (''/h/'' @ p))"


section \<open>The requests of a run\<close>

text \<open>A request asks for what its line and the command line say, and for nothing else.\<close>

definition asked_by :: "absolute \<Rightarrow> invocation \<Rightarrow> byte list \<Rightarrow> engine_demand \<Rightarrow> bool" where
  "asked_by here iv line q \<longleftrightarrow>
     (case split_once_tab line of
        Some (url, destination) \<Rightarrow> em_url q = str_trim url \<and> here (str_trim destination) = Some (em_destination q)
      | None \<Rightarrow> em_url q = str_trim line \<and> em_destination q = ec_destination (iv_config iv)) \<and>
     em_url q \<noteq> [] \<and> em_sensitive q = iv_sensitive iv \<and> em_expected_sha256 q = ec_expected_sha256 (iv_config iv)"

definition fallbacks :: "byte list list \<Rightarrow> nat" where
  "fallbacks lines = length (filter (\<lambda>l. split_once_tab l = None) lines)"

lemma read_all_asked:
  assumes "read_all here fallback defaulted lines = Inr qs"
  shows "list_all2 (\<lambda>l q. (case split_once_tab l of
        Some (url, destination) \<Rightarrow> em_url q = str_trim url \<and> here (str_trim destination) = Some (em_destination q)
      | None \<Rightarrow> em_url q = str_trim l \<and> em_destination q = fallback) \<and> em_url q \<noteq> [] \<and> em_expected_sha256 q = None) lines qs \<and>
    fallbacks lines + (if defaulted then 1 else 0) \<le> 1"
  using assms
proof (induction here fallback defaulted lines arbitrary: qs rule: read_all.induct)
  case (2 here fallback defaulted line rest)
  then obtain q defaulted' qs' where "read_line here fallback defaulted line = Inr (q, defaulted')"
    "read_all here fallback defaulted' rest = Inr qs'" "qs = q # qs'"
    by (auto simp: res_simps)
  then show ?case
    using "2.IH" [of defaulted' qs'] by (auto simp: read_line_def fallbacks_def res_simps Let_def split: option.splits if_splits)
qed (simp add: fallbacks_def)


definition sample_once_args :: "byte list list" where
  "sample_once_args = [''/s'', ''/d/g'', ''--max-bytes'', ''4096'']"

definition sample_once_input :: "byte list" where
  "sample_once_input = ''v'' @ [CHR 0x0D, CHR 0x0A] @ '' vv'' @ [CHR 0x09] @ ''/d/gg '' @ [CHR 0x0A]"

definition sample_invocation :: invocation where
  "sample_invocation = \<lparr>iv_config = sample_once_config, iv_sensitive = False, iv_cont = False, iv_serve = False\<rparr>"

lemma sample_parse: "parse sample_here sample_once_args = Inr sample_invocation"
  by (simp add: parse_def sample_once_args_def sample_here_def is_absolute_def parse_number_def is_ascii_digit_def checked_mul_def
      checked_add_def width_simps initial_config_def ok_or_def res_bind_def sample_invocation_def sample_once_config_def)

lemma sample_lines: "read_lines (Some sample_once_input) = Inr [''v'', '' vv'' @ [CHR 0x09] @ ''/d/gg '']"
  by (simp add: read_lines_def sample_once_input_def READ_LIMIT_def MAX_LINE_def str_ok_def utf8_next_def Let_def trim_end_cr_def ok_or_def res_bind_def)

lemma sample_requests: "one_shot_requests sample_here sample_invocation (Some sample_once_input) = Inr sample_demands"
  by (simp add: one_shot_requests_def read_requests_def sample_lines read_line_def split_once_tab_def str_trim_def str_chars_def
      utf8_next_def Let_def white_space_def utf8_bytes_def utf8_one_def ok_or_def res_bind_def sample_here_def is_absolute_def
      sample_demands_def sample_demand_def sample_invocation_def sample_once_config_def) (simp add: char_of_def is_absolute_def bit_0)


section \<open>What the exit code says\<close>

lemma requests_demand_ok:
  assumes "absolute_ok here" "parse here args = Inr iv" "one_shot_requests here iv input = Inr qs"
  shows "\<forall>q \<in> set qs. demand_ok q"
proof -
  have d: "digest_ok (ec_expected_sha256 (iv_config iv))" using parse_parts [OF assms(1,2)] by (simp add: settings_ok_def)
  obtain read where read: "read_requests here input (ec_destination (iv_config iv)) = Inr read"
    using assms(3) by (auto simp: one_shot_requests_def Let_def split: sum.splits)
  then obtain lines where "read_all here (ec_destination (iv_config iv)) False lines = Inr read"
    by (auto simp: read_requests_def res_simps split: if_splits)
  then have "\<forall>q \<in> set read. em_expected_sha256 q = None"
    using read_all_asked by (fastforce simp: list_all2_conv_all_nth in_set_conv_nth)
  then show ?thesis
    using assms(3) read d
    by (auto simp: one_shot_requests_def Let_def demand_ok_def digest_ok_def split: if_splits option.splits list.splits)
qed

lemma drive_all_code:
  assumes "run_all (rw_adds w) (rw_loads w) (rw_round w) (rw_script w) e = Some (Inr outs)" "drive_all w e = Some p"
  shows "pr_code p = 0 \<longleftrightarrow> (\<forall>x \<in> set outs. \<not> unfinished (snd x))"
  using assms by (auto simp: drive_all_def report_def say_def list_ex_iff split: if_splits)

lemma drive_one_code:
  assumes "run_all (rw_adds w) (rw_loads w) (rw_round w) (rw_script w) e = Some (Inr [x])" "drive_one w e = Some p" "eg_requests e \<noteq> []"
  shows "pr_code p = 0 \<longleftrightarrow> \<not> unfinished (snd x)"
  using assms by (auto simp: drive_one_def run_single_def say_def refuse_def unfinished_def split: request_outcome.splits if_splits)


definition sample_once_script :: "(round_world \<times> arrival) list" where
  "sample_once_script =
     [(sample_world 0 0, SessionReturned 2 ((job_new 2 (sample_once_spec 33 32))\<lparr>j_state := Completed\<rparr>) (Inr (Published ''/d/gg''))),
      (sample_world 0 0, SessionReturned 1 ((job_new 1 (sample_once_spec 32 31))\<lparr>j_state := Completed\<rparr>) (Inr (Published ''/d/g''))),
      (sample_world 0 0, DeadlineReached)]"

definition sample_main_world :: main_world where
  "sample_main_world =
     \<lparr>mw_run = \<lparr>rw_open = sample_once_world, rw_records = [], rw_adds = [], rw_loads = [], rw_round = sample_world 0 0,
                rw_script = sample_once_script\<rparr>,
      mw_bind = Inr [], mw_served = None, mw_connection = Inr (), mw_answer = (\<lambda>_. Inr Done)\<rparr>"


section \<open>Where the code and its comments part\<close>

text \<open>What lies beyond the first mebibyte of standard input is never looked at, and nothing says so.\<close>

lemma long_input_is_cut: "read_lines (Some (take READ_LIMIT bytes @ rest)) = read_lines (Some bytes)" if "READ_LIMIT \<le> length bytes"
  using that by (simp add: read_lines_def)

text \<open>A checksum may hold plus signs, each pair of which counts as one digit.\<close>

lemma checksum_takes_a_sign: "\<exists>hex d. CHR ''+'' \<in> set hex \<and> parse_checksum hex = Inr d"
proof -
  let ?hex = "''+a'' @ hex_text (replicate 31 (CHR 0x00))"
  have "decode_pairs ?hex = Some (char_of (10 :: nat) # replicate 31 (CHR 0x00))"
    by (simp add: hex_value_def)
  then have "parse_checksum ?hex = Inr (char_of (10 :: nat) # replicate 31 (CHR 0x00))"
    using hex_text_ascii [of "replicate 31 (CHR 0x00)"] by (simp add: parse_checksum_def ok_or_def)
  then show ?thesis by (intro exI [of _ ?hex] exI) auto
qed

text \<open>Two engines whose directories differ only in case name their parts alike, on every platform.\<close>

lemma engine_tag_ignores_case:
  assumes "canonical (path_components s1) = Some p1" "canonical (path_components s2) = Some p2" "lower (path_text p1) = lower (path_text p2)"
  shows "engine_tag sha lower canonical s1 = engine_tag sha lower canonical s2"
  using assms by (simp add: engine_tag_def)

end
