(* ===== verification/Spec2Isabelle.thy ===== *)
theory Spec2Isabelle
  imports Job_Props Resume_Policy Download_Core Planning_Props Scheduler_Props Writer_Props Protocol_Props Config Telemetry Http_Props Store_Props Manager_Props Engine_Props Command_Line_Props
begin

text \<open>
  A verification development of the FHD download manager (Rust, under \<open>src/crates\<close>).

  \<^bold>\<open>The program.\<close> FHD downloads resources in byte ranges, survives crashes without losing
  committed bytes, and publishes only whole, verified files. Two engines live side by side. In the
  current one a job aggregate decides, a coordinator runs one session of one job, a scheduler shares
  connections among jobs, a part file holds the bytes, a SQLite repository holds the record, and the
  daemon offers all of it as a one-shot run, as a resident engine behind a local control surface and
  as that engine's client. The earlier engine downloads into a sequential store under a queue manager
  of its own.

  \<^bold>\<open>Conventions\<close> (\<open>FHD_Prelude\<close>, \<open>Utf8\<close>, \<open>Domain_Types\<close>). A Rust \<open>Result\<close> is a sum with the error on the
  left and the question mark is \<open>res_bind\<close>; structs are records, enums datatypes; unsigned integers are
  naturals with every checked, saturating or wrapping operation of the source written out; a hash map is
  an association list where its order can be seen. A method on a mutable object returns the new object.
  What lies outside the repository enters as an argument: SHA-256, the URL library, JSON, and the
  answers of the operating system, the clock, the database file and the network. Where such an answer
  may fail or be lost, both cases are in the model, and a theorem holds for every answer.

  \<^bold>\<open>The domain\<close> (\<open>crates/domain\<close>). \<open>Segments\<close> is the segment map of \<open>segments.rs\<close>: leases, the two-phase
  checkpoint, splits. \<open>Segment_Invariant\<close>, \<open>Segment_Steps\<close> and \<open>Segment_Restore\<close> show that it partitions the
  resource, that only an acknowledged commit makes bytes durable, and that a restart trusts exactly
  the durable ranges. \<open>Jobs\<close> is the aggregate of \<open>job.rs\<close>; \<open>Job_Invariant\<close> and \<open>Job_Props\<close> show its life
  cycle over whole runs with restarts, that completion needs verification and publication, and that
  restoring the persisted record rebuilds the job. \<open>Retry\<close> is \<open>retry.rs\<close>.

  \<^bold>\<open>Admission and persistence.\<close> \<open>App_Ports\<close> and \<open>Admission\<close> are \<open>crates/application\<close>: the phases of
  \<open>AddDownload\<close>, interleaved at will, over the contract of a store (locale \<open>admission_store\<close>), which
  \<open>Admission\<close> discharges for the repository. \<open>Persistence\<close> and \<open>References\<close> are the transactions of
  \<open>crates/adapters/persistence\<close> over tables of rows; \<open>Repository\<close> and \<open>Repository_Props\<close> show that the
  transactions simulate the aggregate (refinement), so that a job loaded after a crash is the job that
  was running.

  \<^bold>\<open>The runtime\<close> (\<open>crates/runtime\<close>). \<open>Coordinator\<close> is one session: each decision is committed before it is
  applied, and \<open>perform\<close> closes its operations under any order of events. \<open>Session_Props\<close> shows that no
  order and no failure loses the job, \<open>Planning_Props\<close> how the plan is cut and handed to workers.
  \<open>Origin\<close> is the governor of \<open>origin.rs\<close> and meets the locale \<open>connection_ledger\<close> of counted grants.
  \<open>Scheduler\<close> runs rounds over a script of what sessions, commands and clocks do; a script that runs out
  leaves the scheduler waiting, so nothing is said of a run by cutting it short. \<open>Scheduler_Props\<close> shows
  that every job comes back once and that the budgets hold. \<open>Buffers\<close> and \<open>Writer\<close> are the buffer pool and
  the writer lane; \<open>Writer_Props\<close> shows over the locale \<open>segment_file\<close>, discharged by the part file, that
  joining adjacent writes cannot be observed.

  \<^bold>\<open>Adapters.\<close> \<open>Part_File\<close> is the part file of \<open>crates/adapters/storage\<close>, \<open>Part_Props\<close> its exact coverage and
  the publication of attested bytes only. \<open>Http\<close> is \<open>crates/adapters/http\<close>, \<open>Http_Props\<close> where credentials go
  and that a fetched range is exact; the redirects of one request are bounded by the fuel the source
  counts down itself. \<open>Protocol\<close> is \<open>crates/protocol\<close> with both loops of \<open>crates/adapters/ipc\<close>, \<open>Protocol_Props\<close>
  their round trip. \<open>Resume_Policy\<close>, \<open>Config\<close> and \<open>Telemetry\<close> are the crates of these names.

  \<^bold>\<open>The daemon\<close> (\<open>crates/bins/daemon\<close>). \<open>Daemon\<close> is \<open>service.rs\<close> with the helpers of \<open>lib.rs\<close>: opening and
  restoring, adding in phases between which other calls and sessions run (\<open>service_step\<close>), listing and
  commands, and the destinations that are allowed. \<open>Daemon_Runs\<close> holds its invariant and \<open>Daemon_Props\<close>
  what follows, up to the budgets of the resident engine, which compose the service with the scheduler.
  \<open>Oneshot\<close> is \<open>Engine\<close> of \<open>lib.rs\<close>: opening with several requests, reopening a directory, admitting,
  preparing and driving; \<open>Oneshot_Props\<close> composes it with admission and scheduler to one answer per
  request. \<open>Command_Line\<close> is \<open>main.rs\<close> with the readers of \<open>lib.rs\<close>, from the arguments and standard input to
  what is printed and the exit code, \<open>Command_Line_Props\<close> what an operator may conclude from it.
  \<open>Daemon_Sample\<close> holds the concrete engine the properties are applied to.

  \<^bold>\<open>The earlier engine.\<close> \<open>Download_Core\<close> is \<open>crates/download-core\<close>. \<open>Transfer_Store\<close> is \<open>crates/transfer-store\<close>:
  an append-only file and a row committed in steps, over a disk whose calls fail or are left unclear;
  \<open>Store_Props\<close> shows that it refines the committed prefix through every crash. \<open>Engine_Request\<close>, \<open>Engine\<close>
  and \<open>Engine_Runs\<close> are one download of \<open>crates/download-engine\<close> with its requests, its windows of ranges and
  its pacing; \<open>Engine_Props\<close> states what a success means over any attempts on one directory. Bodies are
  lists of chunks and windows lists of answers, so its loops are structural. \<open>Manager\<close> is the queue
  manager of \<open>manager.rs\<close>, one turn of its loop at a time, with \<open>Manager_Invariant\<close> and \<open>Manager_Props\<close>;
  \<open>Queue_Store\<close> and \<open>Queue_Props\<close> are the stored queue and its round trip.

  \<^bold>\<open>Groups of lemmas.\<close> Each component has lemmas on the results of its operations, an invariant with a
  preservation lemma for each operation, and the closure over runs (\<open>worker_step\<close>, \<open>job_step\<close>, \<open>repo_step\<close>,
  \<open>service_step\<close> and the like are step relations); the properties are few lines over these. A property
  with hypotheses is followed by an application of it to concrete data. Some lemmas show where the
  code does less than a comment says, among them \<open>duplicate_admission_leaks\<close>, \<open>deadline_slips_by\<close>,
  \<open>stolen_lease_exceeds_cap\<close>, \<open>interrupted_creation_is_final\<close>, \<open>repeated_request_is_refused\<close>,
  \<open>competing_claims_both_begin\<close>, \<open>long_input_is_cut\<close> and \<open>engine_tag_ignores_case\<close>.

  \<^bold>\<open>Bounds.\<close> The limits of the source are constants of the same value here (256 requests, 16,384 bytes of
  a link, 262,144 bytes of a frame, 1,048,576 bytes of input, 512 jobs on a page and so on). Sizes of
  the target are those of a 64-bit machine.

  \<^bold>\<open>Not modelled.\<close> Permissions, access lists, link primitives and canonical names of the platforms
  (\<open>crates/adapters/platform\<close>, \<open>crates/platform-files\<close>) and the system's secret storage
  (\<open>crates/queue-secrets\<close>) consist of system calls; their answers are arguments. Sockets, pipes and peer
  checks of \<open>crates/adapters/ipc\<close>, opening, migrating and locking the database file, the threads and
  channels under the writer, the network worker of a session and the removal of part files are not
  modelled, nor are the signal handlers of \<open>main.rs\<close> and the subscriber that prints events to standard
  error. \<open>crates/testkit\<close> holds test doubles. Paths follow the Unix rules of \<open>std::path\<close>.
\<close>

end
